(* ===== verification/Prelude.thy ===== *)
theory Prelude
  imports Main "HOL-Library.Word"
begin

text \<open>
  Shared vocabulary of the development: the machine integers of the C sources as words,
  byte buffers as lists, the two ways the code reads a buffer (one byte, a run of bytes),
  and the automation the component theories rely on.

  A C pointer into a buffer is a list; \<open>p + n\<close> is \<^theory_text>\<open>drop n p\<close>.
  \<open>bget\<close> reads one byte and \<open>slice\<close> is the source operand of a \<^verbatim>\<open>memcpy\<close>.
  Both answer 0 past the end of the list; every handler that could reach that case
  takes the whole underlying buffer as its argument, so the default is never used to hide
  an out-of-range access.
\<close>

unbundle bit_operations_syntax

named_theorems wire_simps \<open>reading back what the encoders wrote\<close>
named_theorems len_simps \<open>lengths of encoded fields and messages\<close>
named_theorems inv_intros \<open>preservation of the component invariants\<close>

type_synonym u8 = "8 word"
type_synonym u16 = "16 word"
type_synonym u32 = "32 word"
type_synonym u64 = "64 word"
type_synonym bytes = "8 word list"

definition bget :: "bytes \<Rightarrow> nat \<Rightarrow> u8" where
  "bget b i = (if i < length b then b ! i else 0)"

definition slice :: "nat \<Rightarrow> nat \<Rightarrow> bytes \<Rightarrow> bytes" where
  "slice off n b = map (\<lambda>i. bget b (off + i)) [0..<n]"

definition zeros :: "nat \<Rightarrow> bytes" where
  "zeros n = replicate n 0"

definition blit :: "bytes \<Rightarrow> nat \<Rightarrow> bytes \<Rightarrow> bytes" where
  "blit dst off src = take off dst @ src @ drop (off + length src) dst"

lemma length_slice [simp, len_simps]: "length (slice off n b) = n"
  by (simp add: slice_def)

lemma length_zeros [simp, len_simps]: "length (zeros n) = n"
  by (simp add: zeros_def)

lemma length_blit [simp]: "off + length src \<le> length dst \<Longrightarrow> length (blit dst off src) = length dst"
  by (simp add: blit_def)

lemma bget_Cons_0 [simp]: "bget (x # xs) 0 = x"
  by (simp add: bget_def)

lemma bget_Cons_Suc [simp]: "bget (x # xs) (Suc n) = bget xs n"
  by (simp add: bget_def)

lemma bget_Cons_numeral [simp]: "bget (x # xs) (numeral k) = bget xs (pred_numeral k)"
  by (simp add: numeral_eq_Suc)

lemma bget_Nil [simp]: "bget [] n = 0"
  by (simp add: bget_def)

lemma bget_append: "bget (xs @ ys) n = (if n < length xs then bget xs n else bget ys (n - length xs))"
  by (auto simp: bget_def nth_append)

lemma bget_append1 [simp]: "n < length xs \<Longrightarrow> bget (xs @ ys) n = bget xs n"
  by (simp add: bget_append)

lemma bget_append2 [simp]: "length xs \<le> n \<Longrightarrow> bget (xs @ ys) n = bget ys (n - length xs)"
  by (simp add: bget_append)

lemma bget_drop [simp]: "bget (drop k b) n = bget b (k + n)"
  by (auto simp: bget_def)

lemma bget_take [simp]: "n < k \<Longrightarrow> bget (take k b) n = bget b n"
  by (auto simp: bget_def)

lemma bget_nth: "i < length b \<Longrightarrow> bget b i = b ! i"
  by (simp add: bget_def)

lemma slice_eq_take_drop: "off + n \<le> length b \<Longrightarrow> slice off n b = take n (drop off b)"
  by (rule nth_equalityI) (auto simp: slice_def bget_def)

lemma slice_drop [simp]: "slice off n (drop k b) = slice (k + off) n b"
  by (simp add: slice_def add.assoc)

lemma slice_0_all [simp]: "slice 0 (length b) b = b"
  by (rule nth_equalityI) (auto simp: slice_def bget_def)

lemma slice_append1 [simp]: "off + n \<le> length xs \<Longrightarrow> slice off n (xs @ ys) = slice off n xs"
  by (simp add: slice_eq_take_drop)

lemma slice_append2 [simp]: "length xs \<le> off \<Longrightarrow> slice off n (xs @ ys) = slice (off - length xs) n ys"
  by (auto simp: slice_def)

lemma slice_prefix [simp]: "length xs = n \<Longrightarrow> slice 0 n (xs @ ys) = xs"
  by (simp add: slice_eq_take_drop)

lemma slice_self [simp]: "length xs = n \<Longrightarrow> slice 0 n xs = xs"
  by (simp add: slice_eq_take_drop)

lemma slice_Cons [simp]: "slice (Suc off) n (x # xs) = slice off n xs"
  by (simp add: slice_def)

lemma slice_Cons_numeral [simp]: "slice (numeral k) n (x # xs) = slice (pred_numeral k) n xs"
  by (simp add: numeral_eq_Suc)

lemma slice_exact: "length xs = off \<Longrightarrow> length ys = n \<Longrightarrow> slice off n (xs @ ys @ zs) = ys"
  by (simp add: slice_eq_take_drop)

lemma bget_slice [simp]: "i < n \<Longrightarrow> bget (slice off n b) i = bget b (off + i)"
  by (simp add: slice_def bget_nth)

lemma slice_slice: "o2 + n2 \<le> n1 \<Longrightarrow> slice o2 n2 (slice o1 n1 b) = slice (o1 + o2) n2 b"
  by (rule nth_equalityI) (auto simp: slice_def bget_def add.assoc)

text \<open>A loop whose body may fail.\<close>

fun ofold :: "('x \<Rightarrow> 's \<Rightarrow> 's option) \<Rightarrow> 'x list \<Rightarrow> 's \<Rightarrow> 's option" where
  "ofold f [] s = Some s"
| "ofold f (x # xs) s = (case f x s of None \<Rightarrow> None | Some s' \<Rightarrow> ofold f xs s')"

lemma ofold_inv:
  assumes "ofold f xs s = Some t" "P s" "\<And>x u v. x \<in> set xs \<Longrightarrow> P u \<Longrightarrow> f x u = Some v \<Longrightarrow> P v"
  shows "P t"
  using assms
proof (induction xs arbitrary: s)
  case (Cons x xs)
  then obtain s' where s': "f x s = Some s'" "ofold f xs s' = Some t" by (auto split: option.splits)
  show ?case
  proof (rule Cons.IH [OF s'(2)])
    show "P s'" using Cons.prems(2,3) s'(1) by auto
    show "\<And>y u v. y \<in> set xs \<Longrightarrow> P u \<Longrightarrow> f y u = Some v \<Longrightarrow> P v"
      using Cons.prems(3) by (meson list.set_intros(2))
  qed
qed simp

text \<open>A scan over the first \<open>n\<close> entries of a table.\<close>

lemma find_upt_Some: "find P [0..<n] = Some i \<longleftrightarrow> i < n \<and> P i \<and> (\<forall>j<i. \<not> P j)"
  by (auto simp: find_Some_iff)

lemma find_upt_None: "find P [0..<n] = None \<longleftrightarrow> (\<forall>i<n. \<not> P i)"
  by (auto simp: find_None_iff)

text \<open>\<^verbatim>\<open>size_t\<close> subtraction, which wraps.\<close>

definition size_sub :: "nat \<Rightarrow> nat \<Rightarrow> nat" where
  "size_sub a b = unat (of_nat a - of_nat b :: u64)"

text \<open>Reading machine integers as numbers.\<close>

lemma unat_of_int_small: "0 \<le> x \<Longrightarrow> x < 2 ^ LENGTH('a) \<Longrightarrow> unat (word_of_int x :: 'a::len word) = nat x"
  by (simp add: unsigned_of_int take_bit_int_eq_self)

lemma unat_of_nat_small: "x < 2 ^ LENGTH('a) \<Longrightarrow> unat (word_of_nat x :: 'a::len word) = x"
  by (simp add: unsigned_of_nat take_bit_nat_eq_self)

lemma unat_ucast_le: "unat (ucast (w :: 'a::len word) :: 'b::len word) \<le> unat w"
  by (simp add: unsigned_ucast_eq)

lemma unat_ucast_up: "LENGTH('a) \<le> LENGTH('b) \<Longrightarrow> unat (ucast (w :: 'a::len word) :: 'b::len word) = unat w"
proof -
  assume le: "LENGTH('a) \<le> LENGTH('b)"
  have "unat w < 2 ^ LENGTH('a)" by (rule unsigned_less)
  also have "(2 :: nat) ^ LENGTH('a) \<le> 2 ^ LENGTH('b)" using le by (simp add: power_increasing)
  finally show ?thesis by (simp add: unsigned_ucast_eq take_bit_nat_eq_self)
qed

lemma unat_ucast_u32_u64 [simp]: "unat (ucast (w :: u32) :: u64) = unat w"
  by (rule unat_ucast_up) simp

lemma ucast_u8_u32 [simp]: "ucast (ucast (b :: u8) :: u32) = b"
  by (rule bit_word_eqI) (auto simp: bit_simps)

lemma ucast_u8_u64 [simp]: "ucast (ucast (b :: u8) :: u64) = b"
  by (rule bit_word_eqI) (auto simp: bit_simps)

lemma unat_add_le: "unat (a + b :: 'a::len word) \<le> unat a + unat b"
  by (simp add: unat_word_ariths)

lemma size_sub_ge: "b \<le> a \<Longrightarrow> a < 2 ^ 64 \<Longrightarrow> size_sub a b = a - b"
  by (simp add: size_sub_def unat_sub_if' unat_of_nat_small)

lemma size_sub_lt: "a < b \<Longrightarrow> b < 2 ^ 64 \<Longrightarrow> size_sub a b = 2 ^ 64 + a - b"
  by (simp add: size_sub_def unat_sub_if' unat_of_nat_small)

end
