(* ===== verification/Wire.thy ===== *)
theory Wire
  imports Prelude
begin

text \<open>
  The wire layer: the big-endian accessors of \<^verbatim>\<open>c/include/IPv69/endian.h\<close>, the Ethernet
  and IPv69 headers of \<^verbatim>\<open>header.h\<close>, the protocol numbers of \<^verbatim>\<open>af69.h\<close>, the frame
  builder of \<^verbatim>\<open>c/src/IPv69/l2.c\<close> and the frame validator of \<^verbatim>\<open>parse.c\<close>.
  The interface every component uses of the accessors is the locale \<open>wire_codec\<close>.
\<close>

section \<open>Big-endian accessors (endian.h)\<close>

definition ipv69_get_be16 :: "bytes \<Rightarrow> u16" where
  "ipv69_get_be16 b = push_bit 8 (ucast (bget b 0)) OR ucast (bget b 1)"

definition ipv69_get_be32 :: "bytes \<Rightarrow> u32" where
  "ipv69_get_be32 b = push_bit 24 (ucast (bget b 0)) OR push_bit 16 (ucast (bget b 1)) OR
     push_bit 8 (ucast (bget b 2)) OR ucast (bget b 3)"

definition ipv69_get_be64 :: "bytes \<Rightarrow> u64" where
  "ipv69_get_be64 b = push_bit 32 (ucast (ipv69_get_be32 b)) OR ucast (ipv69_get_be32 (drop 4 b))"

definition ipv69_addr_get :: "bytes \<Rightarrow> u64" where
  "ipv69_addr_get b = push_bit 32 (ucast (bget b 0)) OR push_bit 24 (ucast (bget b 1)) OR
     push_bit 16 (ucast (bget b 2)) OR push_bit 8 (ucast (bget b 3)) OR ucast (bget b 4)"

definition ipv69_put_be16 :: "u16 \<Rightarrow> bytes" where
  "ipv69_put_be16 v = [ucast (drop_bit 8 v), ucast v]"

definition ipv69_put_be32 :: "u32 \<Rightarrow> bytes" where
  "ipv69_put_be32 v = [ucast (drop_bit 24 v), ucast (drop_bit 16 v), ucast (drop_bit 8 v), ucast v]"

definition ipv69_put_be64 :: "u64 \<Rightarrow> bytes" where
  "ipv69_put_be64 v = ipv69_put_be32 (ucast (drop_bit 32 v)) @ ipv69_put_be32 (ucast v)"

definition ipv69_addr_put :: "u64 \<Rightarrow> bytes" where
  "ipv69_addr_put v = [ucast (drop_bit 32 v), ucast (drop_bit 24 v), ucast (drop_bit 16 v),
     ucast (drop_bit 8 v), ucast v]"

lemma length_put [simp, len_simps]:
  "length (ipv69_put_be16 v) = 2" "length (ipv69_put_be32 w) = 4"
  "length (ipv69_put_be64 x) = 8" "length (ipv69_addr_put x) = 5"
  by (simp_all add: ipv69_put_be16_def ipv69_put_be32_def ipv69_put_be64_def ipv69_addr_put_def)

subsection \<open>The codec interface\<close>

text \<open>
  What the rest of the code relies on: an encoder of fixed width, and a decoder that reads
  the encoder's bytes back wherever they stand in a message and looks at no other byte.
  \<open>norm\<close> is what the width keeps of the value (everything for the 16/32/64-bit fields,
  the low 40 bits for an address carried in a 64-bit integer).
\<close>

locale wire_codec =
  fixes put :: "'a \<Rightarrow> bytes" and get :: "bytes \<Rightarrow> 'a" and width :: nat and norm :: "'a \<Rightarrow> 'a"
  assumes len_put: "length (put v) = width"
    and get_put: "get (put v @ r) = norm v"
    and get_take: "get (take width b) = get b"
begin

lemma get_put_exact: "get (put v) = norm v"
  using get_put [of v "[]"] by simp

lemma get_at: "length pre = k \<Longrightarrow> get (drop k (pre @ put v @ post)) = norm v"
  by (simp add: get_put)


lemma put_norm_inj: "put u = put v \<Longrightarrow> norm u = norm v"
  using get_put_exact by metis

end

lemma word64_halves:
  "push_bit 32 (ucast (ucast (drop_bit 32 v) :: u32) :: u64) OR ucast (ucast v :: u32) = v"
proof (rule bit_word_eqI)
  fix n :: nat assume "n < LENGTH(64)"
  then consider "n < 32" | "32 \<le> n" "n < 64" by fastforce
  then show "bit (push_bit 32 (ucast (ucast (drop_bit 32 v) :: u32) :: u64) OR ucast (ucast v :: u32)) n = bit v n"
    by cases (simp_all add: bit_simps less_diff_conv2)
qed

lemma get_put_be16: "ipv69_get_be16 (ipv69_put_be16 v @ r) = v"
  by (rule bit_word_eqI) (auto simp: ipv69_get_be16_def ipv69_put_be16_def bit_simps)

lemma get_put_be32: "ipv69_get_be32 (ipv69_put_be32 v @ r) = v"
proof (rule bit_word_eqI)
  fix n :: nat assume "n < LENGTH(32)"
  then consider "n < 8" | "8 \<le> n" "n < 16" | "16 \<le> n" "n < 24" | "24 \<le> n" "n < 32"
    by fastforce
  then show "bit (ipv69_get_be32 (ipv69_put_be32 v @ r)) n = bit v n"
    by cases (simp_all add: ipv69_get_be32_def ipv69_put_be32_def bit_simps less_diff_conv2)
qed

lemma get_put_be64: "ipv69_get_be64 (ipv69_put_be64 v @ r) = v"
  by (simp add: ipv69_get_be64_def ipv69_put_be64_def get_put_be32 word64_halves)

lemma get_put_addr: "ipv69_addr_get (ipv69_addr_put v @ r) = take_bit 40 v"
proof (rule bit_word_eqI)
  fix n :: nat assume "n < LENGTH(64)"
  then consider "n < 8" | "8 \<le> n" "n < 16" | "16 \<le> n" "n < 24" | "24 \<le> n" "n < 32"
    | "32 \<le> n" "n < 40" | "40 \<le> n"
    by fastforce
  then show "bit (ipv69_addr_get (ipv69_addr_put v @ r)) n = bit (take_bit 40 v) n"
    by cases (simp_all add: ipv69_addr_get_def ipv69_addr_put_def bit_simps less_diff_conv2)
qed

lemma addr_get_lt: "take_bit 40 (ipv69_addr_get b) = ipv69_addr_get b"
proof (rule bit_word_eqI)
  fix n :: nat assume n: "n < LENGTH(64)"
  have high: "40 \<le> n \<Longrightarrow> \<not> bit (ipv69_addr_get b) n"
    by (auto simp: ipv69_addr_get_def bit_simps dest: bit_imp_le_length)
  show "bit (take_bit 40 (ipv69_addr_get b)) n = bit (ipv69_addr_get b) n"
    using high by (cases "n < 40") (simp_all add: bit_take_bit_iff)
qed

interpretation be16: wire_codec ipv69_put_be16 ipv69_get_be16 2 "\<lambda>v. v"
  by (rule wire_codec.intro, simp, rule get_put_be16, simp add: ipv69_get_be16_def)

interpretation be32: wire_codec ipv69_put_be32 ipv69_get_be32 4 "\<lambda>v. v"
  by (rule wire_codec.intro, simp, rule get_put_be32, simp add: ipv69_get_be32_def)

interpretation be64: wire_codec ipv69_put_be64 ipv69_get_be64 8 "\<lambda>v. v"
  by (rule wire_codec.intro, simp, rule get_put_be64, simp add: ipv69_get_be64_def ipv69_get_be32_def)

interpretation addr40: wire_codec ipv69_addr_put ipv69_addr_get 5 "take_bit 40"
  by (rule wire_codec.intro, simp, rule get_put_addr, simp add: ipv69_addr_get_def)

lemmas codec_simps [wire_simps] =
  be16.get_put be16.get_put_exact be32.get_put be32.get_put_exact
  be64.get_put be64.get_put_exact addr40.get_put addr40.get_put_exact

section \<open>Protocol numbers (af69.h, header.h)\<close>

abbreviation (input) IPV69_NEXT_CONTROL :: u8 where "IPV69_NEXT_CONTROL \<equiv> 0"
abbreviation (input) IPV69_NEXT_DGRAM :: u8 where "IPV69_NEXT_DGRAM \<equiv> 1"
abbreviation (input) IPV69_NEXT_STREAM :: u8 where "IPV69_NEXT_STREAM \<equiv> 2"
abbreviation (input) IPV69_NEXT_PPPOE :: u8 where "IPV69_NEXT_PPPOE \<equiv> 3"

abbreviation (input) IPV69_CTRL_ND_REQUEST :: u8 where "IPV69_CTRL_ND_REQUEST \<equiv> 1"
abbreviation (input) IPV69_CTRL_ND_REPLY :: u8 where "IPV69_CTRL_ND_REPLY \<equiv> 2"
abbreviation (input) IPV69_CTRL_DHCP_REQUEST :: u8 where "IPV69_CTRL_DHCP_REQUEST \<equiv> 9"
abbreviation (input) IPV69_CTRL_DHCP_ACK :: u8 where "IPV69_CTRL_DHCP_ACK \<equiv> 10"
abbreviation (input) IPV69_CTRL_PADI :: u8 where "IPV69_CTRL_PADI \<equiv> 17"
abbreviation (input) IPV69_CTRL_PADO :: u8 where "IPV69_CTRL_PADO \<equiv> 18"
abbreviation (input) IPV69_CTRL_PADR :: u8 where "IPV69_CTRL_PADR \<equiv> 19"
abbreviation (input) IPV69_CTRL_PADS :: u8 where "IPV69_CTRL_PADS \<equiv> 20"
abbreviation (input) IPV69_CTRL_PADT :: u8 where "IPV69_CTRL_PADT \<equiv> 21"

abbreviation (input) IPV69_HEADER_LEN :: nat where "IPV69_HEADER_LEN \<equiv> 32"
abbreviation (input) ETH_LEN :: nat where "ETH_LEN \<equiv> 14"
abbreviation (input) IPV69_BCAST_ADDR :: u64 where "IPV69_BCAST_ADDR \<equiv> 0xFFFFFFFFFF"

definition bcast_mac :: bytes where "bcast_mac = replicate 6 0xff"

lemma length_bcast_mac [simp]: "length bcast_mac = 6"
  by (simp add: bcast_mac_def)

section \<open>The two headers (header.h)\<close>

record ethernet_header =
  dst_mac :: bytes
  src_mac :: bytes
  ethertype :: u16

record ipv69_header =
  ver_traffic :: u8
  dscp_ecn :: u8
  payload_len :: u16
  flow_id :: u16
  next_header :: u8
  hop_limit :: u8
  flags :: u8
  reserved :: u8
  src_port :: u16
  dst_port :: u16
  sequence :: bytes
  source :: bytes
  source_res :: bytes
  dest :: bytes
  dest_res :: bytes

text \<open>The memory image of the two packed structures, in wire order.\<close>

definition eth_bytes :: "ethernet_header \<Rightarrow> bytes" where
  "eth_bytes e = dst_mac e @ src_mac e @ ipv69_put_be16 (ethertype e)"

definition hdr_bytes :: "ipv69_header \<Rightarrow> bytes" where
  "hdr_bytes h = [ver_traffic h, dscp_ecn h] @ ipv69_put_be16 (payload_len h) @
     ipv69_put_be16 (flow_id h) @ [next_header h, hop_limit h, flags h, reserved h] @
     ipv69_put_be16 (src_port h) @ ipv69_put_be16 (dst_port h) @ sequence h @
     source h @ source_res h @ dest h @ dest_res h"

text \<open>The cast \<^verbatim>\<open>(struct ethernet_header *) frame\<close>, and the header behind it.\<close>

definition eth_at :: "bytes \<Rightarrow> ethernet_header" where
  "eth_at f = \<lparr>dst_mac = slice 0 6 f, src_mac = slice 6 6 f, ethertype = ipv69_get_be16 (drop 12 f)\<rparr>"

definition hdr_at :: "bytes \<Rightarrow> ipv69_header" where
  "hdr_at p = \<lparr>ver_traffic = bget p 0, dscp_ecn = bget p 1, payload_len = ipv69_get_be16 (drop 2 p),
     flow_id = ipv69_get_be16 (drop 4 p), next_header = bget p 6, hop_limit = bget p 7,
     flags = bget p 8, reserved = bget p 9, src_port = ipv69_get_be16 (drop 10 p),
     dst_port = ipv69_get_be16 (drop 12 p), sequence = slice 14 4 p, source = slice 18 5 p,
     source_res = slice 23 2 p, dest = slice 25 5 p, dest_res = slice 30 2 p\<rparr>"

definition hdr_wf :: "ipv69_header \<Rightarrow> bool" where
  "hdr_wf h \<longleftrightarrow> length (sequence h) = 4 \<and> length (source h) = 5 \<and> length (source_res h) = 2 \<and>
     length (dest h) = 5 \<and> length (dest_res h) = 2"

lemma length_hdr_bytes [len_simps]: "hdr_wf h \<Longrightarrow> length (hdr_bytes h) = 32"
  by (simp add: hdr_wf_def hdr_bytes_def)

lemma hdr_at_hdr_bytes [wire_simps]: "hdr_wf h \<Longrightarrow> hdr_at (hdr_bytes h @ r) = h"
  by (rule ipv69_header.equality)
    (simp_all add: hdr_at_def hdr_bytes_def hdr_wf_def codec_simps)

section \<open>Building and validating a frame (l2.c, parse.c)\<close>

text \<open>
  \<^verbatim>\<open>build_frame\<close>: the destination buffer is written from its start, so the frame is the
  function's result. The payload length is stored in 16 bits.
\<close>

definition build_frame ::
    "bytes \<Rightarrow> bytes \<Rightarrow> u64 \<Rightarrow> u64 \<Rightarrow> u8 \<Rightarrow> u8 \<Rightarrow> u16 \<Rightarrow> u16 \<Rightarrow> bytes \<Rightarrow> bytes" where
  "build_frame dmac smac src dst nh hop sport dport payload =
     (let eth = \<lparr>dst_mac = dmac, src_mac = smac, ethertype = 0x6969\<rparr>;
          h = \<lparr>ver_traffic = push_bit 4 6 OR 9, dscp_ecn = 0,
               payload_len = of_nat (length payload), flow_id = 1,
               next_header = nh, hop_limit = (if hop \<noteq> 0 then hop else 64),
               flags = 1, reserved = 0, src_port = sport, dst_port = dport,
               sequence = zeros 4, source = ipv69_addr_put src, source_res = zeros 2,
               dest = ipv69_addr_put dst, dest_res = zeros 2\<rparr>
      in eth_bytes eth @ hdr_bytes h @ payload)"

abbreviation (input) ERR_SHORT :: nat where "ERR_SHORT \<equiv> 1"
abbreviation (input) ERR_ETHERTYPE :: nat where "ERR_ETHERTYPE \<equiv> 2"
abbreviation (input) ERR_VERSION :: nat where "ERR_VERSION \<equiv> 4"
abbreviation (input) ERR_LEN :: nat where "ERR_LEN \<equiv> 5"
abbreviation (input) ERR_NEXTHDR :: nat where "ERR_NEXTHDR \<equiv> 6"

definition parse_ipv69_frame :: "bytes \<Rightarrow> nat" where
  "parse_ipv69_frame frame =
     (if length frame < ETH_LEN + IPV69_HEADER_LEN then ERR_SHORT
      else if ipv69_get_be16 (drop 12 frame) \<noteq> 0x6969 then ERR_ETHERTYPE
      else let h = hdr_at (drop ETH_LEN frame) in
        if drop_bit 4 (ver_traffic h) \<noteq> 6 then ERR_VERSION
        else if unat (payload_len h) > length frame - ETH_LEN - IPV69_HEADER_LEN then ERR_LEN
        else if next_header h \<noteq> IPV69_NEXT_CONTROL \<and> next_header h \<noteq> IPV69_NEXT_DGRAM \<and>
                next_header h \<noteq> IPV69_NEXT_STREAM then ERR_NEXTHDR
        else 0)"

lemma length_build_frame [len_simps]:
  "length dm = 6 \<Longrightarrow> length sm = 6 \<Longrightarrow>
   length (build_frame dm sm src dst nh hop sp dp pl) = ETH_LEN + IPV69_HEADER_LEN + length pl"
  by (simp add: build_frame_def Let_def eth_bytes_def hdr_bytes_def)

lemma build_frame_payload [wire_simps]:
  "length dm = 6 \<Longrightarrow> length sm = 6 \<Longrightarrow>
   drop 46 (build_frame dm sm src dst nh hop sp dp pl) = pl"
  by (simp add: build_frame_def Let_def eth_bytes_def hdr_bytes_def)

lemma build_frame_eth [wire_simps]:
  "length dm = 6 \<Longrightarrow> length sm = 6 \<Longrightarrow>
   eth_at (build_frame dm sm src dst nh hop sp dp pl) =
     \<lparr>dst_mac = dm, src_mac = sm, ethertype = 0x6969\<rparr>"
  by (simp add: build_frame_def Let_def eth_bytes_def eth_at_def codec_simps)

lemma build_frame_hdr [wire_simps]:
  "length dm = 6 \<Longrightarrow> length sm = 6 \<Longrightarrow>
   hdr_at (drop 14 (build_frame dm sm src dst nh hop sp dp pl)) =
     \<lparr>ver_traffic = push_bit 4 6 OR 9, dscp_ecn = 0, payload_len = of_nat (length pl), flow_id = 1,
      next_header = nh, hop_limit = (if hop \<noteq> 0 then hop else 64), flags = 1, reserved = 0,
      src_port = sp, dst_port = dp, sequence = zeros 4, source = ipv69_addr_put src,
      source_res = zeros 2, dest = ipv69_addr_put dst, dest_res = zeros 2\<rparr>"
  by (simp add: build_frame_def Let_def eth_bytes_def hdr_at_hdr_bytes hdr_wf_def)

text \<open>The same with anything behind the frame, as in a receive buffer.\<close>

lemma build_frame_hdr_app [wire_simps]:
  "length dm = 6 \<Longrightarrow> length sm = 6 \<Longrightarrow>
   hdr_at (drop 14 (build_frame dm sm src dst nh hop sp dp pl @ t)) =
     hdr_at (drop 14 (build_frame dm sm src dst nh hop sp dp pl))"
  by (simp add: build_frame_def Let_def eth_bytes_def hdr_at_hdr_bytes hdr_wf_def)

lemma build_frame_src_app [wire_simps]:
  "length dm = 6 \<Longrightarrow> length sm = 6 \<Longrightarrow> slice 6 6 (build_frame dm sm src dst nh hop sp dp pl @ t) = sm"
  by (simp add: build_frame_def Let_def eth_bytes_def)

text \<open>A frame that \<open>build_frame\<close> makes with a payload of at most 65535 bytes and a
  next header of the stack passes the validator, and the receiver's field accesses give back
  the MAC addresses, the ports, the next header, the low 40 bits of both addresses and
  exactly the payload.\<close>

theorem build_frame_parses:
  assumes "length dm = 6" "length sm = 6" "length pl < 65536" "nh \<in> {0, 1, 2}"
    and f: "f = build_frame dm sm src dst nh hop sp dp pl"
  shows "parse_ipv69_frame f = 0 \<and>
    dst_mac (eth_at f) = dm \<and> src_mac (eth_at f) = sm \<and>
    next_header (hdr_at (drop 14 f)) = nh \<and>
    src_port (hdr_at (drop 14 f)) = sp \<and> dst_port (hdr_at (drop 14 f)) = dp \<and>
    ipv69_addr_get (source (hdr_at (drop 14 f))) = take_bit 40 src \<and>
    ipv69_addr_get (dest (hdr_at (drop 14 f))) = take_bit 40 dst \<and>
    drop 46 f = pl \<and> unat (payload_len (hdr_at (drop 14 f))) = length pl"
proof -
  have len: "unat (of_nat (length pl) :: u16) = length pl"
    using assms(3) by (simp add: unat_of_nat)
  have et: "ipv69_get_be16 (drop 12 f) = 0x6969"
    using build_frame_eth [OF assms(1,2), of src dst nh hop sp dp pl] f by (simp add: eth_at_def)
  have "parse_ipv69_frame f = 0"
    using assms et len by (auto simp: parse_ipv69_frame_def Let_def wire_simps len_simps)
  then show ?thesis
    using assms len by (simp add: wire_simps)
qed

text \<open>The theorem at a concrete frame: a two-byte control payload.\<close>

theorem build_frame_parses_witness:
  "parse_ipv69_frame (build_frame (zeros 6) bcast_mac 1 0xFFFFFFFFFF 0 64 7 9 [3, 4]) = 0"
  using build_frame_parses [of "zeros 6" bcast_mac "[3, 4]" 0, OF _ _ _ _ refl]
  by (simp add: bcast_mac_def)

lemma parse_ipv69_frame_ok:
  "parse_ipv69_frame f = 0 \<longleftrightarrow>
     46 \<le> length f \<and> ethertype (eth_at f) = 0x6969 \<and>
     drop_bit 4 (ver_traffic (hdr_at (drop 14 f))) = 6 \<and>
     46 + unat (payload_len (hdr_at (drop 14 f))) \<le> length f \<and>
     next_header (hdr_at (drop 14 f)) \<in> {0, 1, 2}"
  by (auto simp: parse_ipv69_frame_def Let_def eth_at_def)

end
