(* ===== verification/RateLimit.thy ===== *)
theory RateLimit
  imports Prelude
begin

text \<open>
  The per-sender token bucket of \<^verbatim>\<open>c/src/IPv69/ratelimit.c\<close>: a fixed table of
  \<^verbatim>\<open>RATE_SLOTS\<close> buckets, searched for the sender's id, with the oldest bucket evicted
  when the table is full. The clock is an argument (\<^verbatim>\<open>rate_now_ms\<close>, a 32-bit millisecond
  count that wraps); the table is passed and returned.
\<close>

record rate_bucket =
  rb_id :: bytes
  rb_used :: bool
  rb_tokens :: u32
  rb_last_ms :: u32

abbreviation (input) RATE_SLOTS :: nat where "RATE_SLOTS \<equiv> 64"

definition rate_table_init :: "rate_bucket list" where
  "rate_table_init = replicate RATE_SLOTS \<lparr>rb_id = zeros 8, rb_used = False, rb_tokens = 0, rb_last_ms = 0\<rparr>"

text \<open>The search loop: the matching bucket, or the slot to (re)use.\<close>

fun rate_scan :: "bytes \<Rightarrow> rate_bucket list \<Rightarrow> nat \<Rightarrow> nat \<Rightarrow> u32 \<Rightarrow> nat option \<times> nat" where
  "rate_scan ident [] i oldest oldest_ts = (None, oldest)"
| "rate_scan ident (c # cs) i oldest oldest_ts =
     (if rb_used c \<and> rb_id c = ident then (Some i, oldest)
      else if \<not> rb_used c then (None, i)
      else if rb_last_ms c < oldest_ts then rate_scan ident cs (Suc i) i (rb_last_ms c)
      else rate_scan ident cs (Suc i) oldest oldest_ts)"

text \<open>Refill the chosen bucket (at most to \<open>burst\<close>), then charge it.\<close>

definition rate_refill :: "rate_bucket \<Rightarrow> u32 \<Rightarrow> int \<Rightarrow> int \<Rightarrow> rate_bucket" where
  "rate_refill b now rate burst =
     (let elapsed = now - rb_last_ms b in
      if 0 < elapsed then
        let gain = (word_of_int rate * ucast elapsed :: u64) div 1000;
            tok = (ucast (ucast (rb_tokens b) + gain :: u64) :: u32)
        in b\<lparr>rb_tokens := (if word_of_int burst < tok then word_of_int burst else tok), rb_last_ms := now\<rparr>
      else b)"

definition rate_charge :: "rate_bucket \<Rightarrow> int \<Rightarrow> bool \<times> rate_bucket" where
  "rate_charge b cost =
     (if rb_tokens b < word_of_int cost then (False, b\<lparr>rb_tokens := 0\<rparr>)
      else (True, b\<lparr>rb_tokens := rb_tokens b - word_of_int cost\<rparr>))"

definition rate_take :: "rate_bucket \<Rightarrow> u32 \<Rightarrow> int \<Rightarrow> int \<Rightarrow> int \<Rightarrow> bool \<times> rate_bucket" where
  "rate_take b now rate burst cost = rate_charge (rate_refill b now rate burst) cost"

definition rate_allow ::
    "rate_bucket list \<Rightarrow> u32 \<Rightarrow> bytes \<Rightarrow> int \<Rightarrow> int \<Rightarrow> int \<Rightarrow> bool \<times> rate_bucket list" where
  "rate_allow tbl now ident rate burst cost =
     (case rate_scan ident tbl 0 0 0xFFFFFFFF of
        (Some i, _) \<Rightarrow>
          (let (ok, b) = rate_take (tbl ! i) now rate burst cost in (ok, tbl[i := b]))
      | (None, i) \<Rightarrow>
          (let fresh = \<lparr>rb_id = ident, rb_used = True, rb_tokens = word_of_int burst, rb_last_ms = now\<rparr>;
               (ok, b) = rate_take fresh now rate burst cost
           in (ok, tbl[i := b])))"

section \<open>The table invariant\<close>

text \<open>
  Slots are taken from the left and never released, so the used slots are a prefix, and no
  two of them carry the same sender.
\<close>

definition rate_wf :: "rate_bucket list \<Rightarrow> bool" where
  "rate_wf t \<longleftrightarrow> length t = RATE_SLOTS \<and>
     (\<forall>j < length t. rb_used (t ! j) \<longrightarrow> (\<forall>i < j. rb_used (t ! i) \<and> rb_id (t ! i) \<noteq> rb_id (t ! j)))"

lemma rate_wf_init [inv_intros]: "rate_wf rate_table_init"
  by (simp add: rate_wf_def rate_table_init_def)

lemma rate_scan_Some:
  "rate_scan ident t i ol ts = (Some k, z) \<Longrightarrow>
     \<exists>m. k = i + m \<and> m < length t \<and> rb_used (t ! m) \<and> rb_id (t ! m) = ident"
proof (induction ident t i ol ts rule: rate_scan.induct)
  case (2 ident c cs i ol ts)
  show ?case
  proof (cases "rb_used c \<and> rb_id c = ident")
    case True
    with "2.prems" show ?thesis by auto
  next
    case False
    with 2 obtain m where "k = Suc i + m" "m < length cs" "rb_used (cs ! m)" "rb_id (cs ! m) = ident"
      by (auto split: if_splits)
    then show ?thesis by (intro exI [of _ "Suc m"]) simp
  qed
qed simp

lemma rate_scan_None_absent:
  assumes "rate_scan ident t i ol ts = (None, z)"
    and "\<forall>j < length t. rb_used (t ! j) \<longrightarrow> (\<forall>i < j. rb_used (t ! i))"
    and "k < length t" "rb_used (t ! k)"
  shows "rb_id (t ! k) \<noteq> ident"
  using assms
proof (induction ident t i ol ts arbitrary: k rule: rate_scan.induct)
  case (2 ident c cs i ol ts)
  show ?case
  proof (cases k)
    case 0
    with 2 show ?thesis by (auto split: if_splits)
  next
    case (Suc m)
    have pre: "\<forall>j < length cs. rb_used (cs ! j) \<longrightarrow> (\<forall>i < j. rb_used (cs ! i))"
      using "2.prems"(2) by (metis Suc_less_eq length_Cons nth_Cons_Suc)
    have c: "rb_used c"
      using "2.prems"(2,3,4) Suc by (metis nth_Cons_0 zero_less_Suc)
    with 2 pre Suc show ?thesis by (auto split: if_splits)
  qed
qed simp

lemma rate_scan_None_slot:
  "rate_scan ident t i ol ts = (None, z) \<Longrightarrow> ol \<le> i \<Longrightarrow> t \<noteq> [] \<or> ol < i \<Longrightarrow>
     z < i + length t \<and>
     ((i \<le> z \<and> \<not> rb_used (t ! (z - i)) \<and> (\<forall>j < z - i. rb_used (t ! j))) \<or>
      (\<forall>j < length t. rb_used (t ! j)))"
proof (induction ident t i ol ts rule: rate_scan.induct)
  case (2 ident c cs i ol ts)
  show ?case
  proof (cases "rb_used c")
    case False
    with 2 show ?thesis by (auto split: if_splits)
  next
    case True
    have "z < Suc i + length cs \<and>
     ((Suc i \<le> z \<and> \<not> rb_used (cs ! (z - Suc i)) \<and> (\<forall>j < z - Suc i. rb_used (cs ! j))) \<or>
      (\<forall>j < length cs. rb_used (cs ! j)))"
      using 2 True by (auto split: if_splits)
    with True show ?thesis
      by (auto simp: nth_Cons' less_Suc_eq_0_disj)
  qed
qed auto

lemma rate_take_keeps [simp]:
  "rb_id (snd (rate_take b now r bu c)) = rb_id b" "rb_used (snd (rate_take b now r bu c)) = rb_used b"
  by (simp_all add: rate_take_def rate_charge_def rate_refill_def Let_def)


lemma rate_wf_prefix: "rate_wf t \<Longrightarrow> \<forall>j < length t. rb_used (t ! j) \<longrightarrow> (\<forall>i < j. rb_used (t ! i))"
  by (auto simp: rate_wf_def)

lemma rate_wf_update_same:
  assumes "rate_wf t" "k < length t" "rb_used b" "rb_id b = rb_id (t ! k)" "rb_used (t ! k)"
  shows "rate_wf (t[k := b])"
  using assms unfolding rate_wf_def
  by (auto simp: nth_list_update)

lemma rate_wf_insert:
  assumes wf: "rate_wf t" and z: "z < length t" and b: "rb_used b" "rb_id b = ident"
    and slot: "\<forall>j < z. rb_used (t ! j)"
    and absent: "\<forall>k < length t. rb_used (t ! k) \<longrightarrow> rb_id (t ! k) \<noteq> ident"
  shows "rate_wf (t[z := b])"
  unfolding rate_wf_def
proof (intro conjI allI impI)
  show "length (t[z := b]) = 64" using wf by (simp add: rate_wf_def)
next
  fix j i assume j: "j < length (t[z := b])" "rb_used (t[z := b] ! j)" "i < j"
  then have j': "j < length t" "i < length t" by auto
  consider "j = z" | "i = z" "j \<noteq> z" | "i \<noteq> z" "j \<noteq> z" by blast
  then have "rb_used (t[z := b] ! i) \<and> rb_id (t[z := b] ! i) \<noteq> rb_id (t[z := b] ! j)"
  proof cases
    case 1
    then show ?thesis using j j' z b slot absent by auto
  next
    case 2
    then show ?thesis using j j' b absent by auto
  next
    case 3
    then show ?thesis using j j' wf by (auto simp: rate_wf_def)
  qed
  then show "rb_used (t[z := b] ! i)" "rb_id (t[z := b] ! i) \<noteq> rb_id (t[z := b] ! j)" by auto
qed

text \<open>Every call keeps the table well-formed.\<close>

lemma rate_allow_wf [inv_intros]:
  assumes wf: "rate_wf t"
  shows "rate_wf (snd (rate_allow t now ident r bu c))"
proof (cases "rate_scan ident t 0 0 0xFFFFFFFF")
  case (Pair res z)
  show ?thesis
  proof (cases res)
    case (Some k)
    with Pair rate_scan_Some [of ident t 0 0 _ k z] have "k < length t" "rb_used (t ! k)" by auto
    then have "rate_wf (t[k := snd (rate_take (t ! k) now r bu c)])"
      using wf by (intro rate_wf_update_same) simp_all
    with Pair Some show ?thesis
      by (simp add: rate_allow_def case_prod_beta Let_def)
  next
    case None
    let ?f = "\<lparr>rb_id = ident, rb_used = True, rb_tokens = word_of_int bu, rb_last_ms = now\<rparr>"
    have nemp: "t \<noteq> []"
      using wf by (auto simp: rate_wf_def)
    have slot: "z < length t" "\<forall>j < z. rb_used (t ! j)"
      using rate_scan_None_slot [of ident t 0 0 "0xFFFFFFFF" z] Pair None nemp by auto
    have absent: "\<forall>k < length t. rb_used (t ! k) \<longrightarrow> rb_id (t ! k) \<noteq> ident"
      using rate_scan_None_absent [OF _ rate_wf_prefix [OF wf]] Pair None by blast
    have "rate_wf (t[z := snd (rate_take ?f now r bu c)])"
      using wf slot absent by (intro rate_wf_insert [where ident = ident]) auto
    with Pair None show ?thesis
      by (simp add: rate_allow_def case_prod_beta Let_def)
  qed
qed

section \<open>The budget of one sender\<close>

text \<open>One call moves at most the refill earned since the last call into the bucket.\<close>

lemma rate_gain_le:
  assumes "0 \<le> r" "r < 2 ^ 31"
  shows "unat ((word_of_int r * ucast (e :: u32) :: u64) div 1000) = nat r * unat e div 1000"
proof -
  have "nat r * unat e < 2 ^ 64"
  proof -
    have "nat r * unat e \<le> 2 ^ 31 * 2 ^ 32"
      using assms by (intro mult_le_mono) (auto intro!: less_imp_le unsigned_less [of e, where ?'a = nat, simplified])
    then show ?thesis by simp
  qed
  then have "unat (word_of_int r * ucast e :: u64) = nat r * unat e"
    using assms by (simp add: unat_word_ariths unat_of_int_small)
  then show ?thesis by (simp add: unat_div)
qed

definition c_uint31 :: "int \<Rightarrow> bool" where
  "c_uint31 x \<longleftrightarrow> 0 \<le> x \<and> x < 2 ^ 31"

lemma unat_c_uint31: "c_uint31 x \<Longrightarrow> unat (word_of_int x :: u32) = nat x"
  by (simp add: c_uint31_def unat_of_int_small)

lemma rate_refill_budget:
  assumes r: "c_uint31 r" and bu: "c_uint31 bu" "nat bu \<le> M" and tok: "unat (rb_tokens b) \<le> M"
  shows "1000 * unat (rb_tokens (rate_refill b now r bu))
           \<le> 1000 * unat (rb_tokens b) + nat r * unat (now - rb_last_ms b)"
    and "unat (rb_tokens (rate_refill b now r bu)) \<le> M"
    and "rb_last_ms (rate_refill b now r bu) = now"
proof -
  let ?e = "now - rb_last_ms b"
  let ?g = "(word_of_int r * ucast ?e :: u64) div 1000"
  let ?tk = "ucast (ucast (rb_tokens b) + ?g :: u64) :: u32"
  have "unat ?tk \<le> unat (ucast (rb_tokens b) + ?g :: u64)" by (rule unat_ucast_le)
  also have "\<dots> \<le> unat (rb_tokens b) + unat ?g"
    using unat_add_le [of "ucast (rb_tokens b) :: u64" ?g] by simp
  also have "unat ?g = nat r * unat ?e div 1000"
    using rate_gain_le [of r ?e] r by (simp add: c_uint31_def)
  finally have tk: "unat ?tk \<le> unat (rb_tokens b) + nat r * unat ?e div 1000" .
  have cap: "unat (word_of_int bu :: u32) = nat bu" by (rule unat_c_uint31 [OF bu(1)])
  have zero: "\<not> 0 < ?e \<Longrightarrow> now = rb_last_ms b" by (simp add: word_greater_zero_iff)
  have min: "rb_tokens (rate_refill b now r bu) = (if 0 < ?e then min (word_of_int bu) ?tk else rb_tokens b)"
    by (auto simp: rate_refill_def Let_def min_def)
  show "1000 * unat (rb_tokens (rate_refill b now r bu)) \<le> 1000 * unat (rb_tokens b) + nat r * unat ?e"
  proof (cases "0 < ?e")
    case True
    have "unat (min (word_of_int bu) ?tk) \<le> unat ?tk" by (simp add: min_def word_le_nat_alt)
    from this tk have "unat (min (word_of_int bu) ?tk) \<le> unat (rb_tokens b) + nat r * unat ?e div 1000"
      by (rule order_trans)
    then have "1000 * unat (min (word_of_int bu) ?tk) \<le> 1000 * unat (rb_tokens b) + 1000 * (nat r * unat ?e div 1000)"
      by (metis add_mult_distrib2 mult_le_mono2)
    also have "\<dots> \<le> 1000 * unat (rb_tokens b) + nat r * unat ?e" by simp
    finally show ?thesis using True by (simp only: min if_True)
  qed (simp add: min)
  show "unat (rb_tokens (rate_refill b now r bu)) \<le> M"
    using tok bu(2) cap by (auto simp: min min_def word_le_nat_alt)
  show "rb_last_ms (rate_refill b now r bu) = now"
    by (cases "0 < ?e") (use zero in \<open>auto simp: rate_refill_def Let_def\<close>)
qed

lemma rate_charge_budget:
  assumes "c_uint31 c" and "rate_charge b c = (ok, b')"
  shows "1000 * unat (rb_tokens b') + (if ok then 1000 * nat c else 0) \<le> 1000 * unat (rb_tokens b)"
    and "unat (rb_tokens b') \<le> unat (rb_tokens b)" and "rb_last_ms b' = rb_last_ms b"
  using assms(2) unat_c_uint31 [OF assms(1)]
  by (auto simp: rate_charge_def word_less_nat_alt unat_sub_if' split: if_splits)

lemma rate_take_budget:
  assumes "c_uint31 r" "c_uint31 bu" "c_uint31 c" "nat bu \<le> M" "unat (rb_tokens b) \<le> M"
    and take: "rate_take b now r bu c = (ok, b')"
  shows "1000 * unat (rb_tokens b') + (if ok then 1000 * nat c else 0)
           \<le> 1000 * unat (rb_tokens b) + nat r * unat (now - rb_last_ms b)"
    and "unat (rb_tokens b') \<le> M" and "rb_last_ms b' = now"
  using rate_refill_budget [OF assms(1,2,4,5), of now]
    rate_charge_budget [OF assms(3), of "rate_refill b now r bu" ok b'] take
  by (simp_all add: rate_take_def)

lemma add_chain: "a' + k \<le> a + x \<Longrightarrow> d \<le> a' + y \<Longrightarrow> k + d \<le> a + x + (y :: nat)"
  by simp

lemma rate_scan_finds:
  assumes "\<forall>j < length t. rb_used (t ! j) \<longrightarrow> (\<forall>i < j. rb_used (t ! i) \<and> rb_id (t ! i) \<noteq> rb_id (t ! j))"
    and "k < length t" "rb_used (t ! k)" "rb_id (t ! k) = ident"
  shows "fst (rate_scan ident t i ol ts) = Some (i + k)"
  using assms
proof (induction ident t i ol ts arbitrary: k rule: rate_scan.induct)
  case (2 ident c cs i ol ts)
  show ?case
  proof (cases k)
    case 0
    with 2 show ?thesis by auto
  next
    case (Suc m)
    have c: "rb_used c" "rb_id c \<noteq> ident"
      using "2.prems" Suc by (metis nth_Cons_0 zero_less_Suc)+
    have pre: "\<forall>j < length cs. rb_used (cs ! j) \<longrightarrow> (\<forall>i < j. rb_used (cs ! i) \<and> rb_id (cs ! i) \<noteq> rb_id (cs ! j))"
      using "2.prems"(1) by (metis Suc_less_eq length_Cons nth_Cons_Suc)
    with c 2 Suc show ?thesis by auto
  qed
qed simp

text \<open>A run of calls for one sender, at the given clock readings.\<close>

fun rate_run :: "rate_bucket list \<Rightarrow> bytes \<Rightarrow> int \<Rightarrow> int \<Rightarrow> int \<Rightarrow> u32 list \<Rightarrow> bool list" where
  "rate_run t ident r bu c [] = []"
| "rate_run t ident r bu c (now # nows) =
     (let (ok, t') = rate_allow t now ident r bu c in ok # rate_run t' ident r bu c nows)"

definition allowed :: "bool list \<Rightarrow> nat" where
  "allowed oks = length (filter id oks)"

text \<open>A run of calls by any senders: clock, sender, rate, burst and cost of each. The result
  pairs each caller with the answer.\<close>

type_synonym rate_call = "u32 \<times> bytes \<times> int \<times> int \<times> int"

fun rate_calls :: "rate_bucket list \<Rightarrow> rate_call list \<Rightarrow> (bytes \<times> bool) list" where
  "rate_calls t [] = []"
| "rate_calls t ((now, i, r, bu, c) # cs) =
     (let (ok, t') = rate_allow t now i r bu c in (i, ok) # rate_calls t' cs)"

definition admitted :: "bytes \<Rightarrow> (bytes \<times> bool) list \<Rightarrow> nat" where
  "admitted ident oks = length (filter (\<lambda>(i, ok). i = ident \<and> ok) oks)"

text \<open>The buckets of a sender (one at most), the clock readings of its own calls, and who is
  known to the table or calls.\<close>

definition own :: "bytes \<Rightarrow> rate_bucket list \<Rightarrow> rate_bucket list" where
  "own ident t = filter (\<lambda>b. rb_used b \<and> rb_id b = ident) t"

definition own_times :: "bytes \<Rightarrow> rate_call list \<Rightarrow> u32 list" where
  "own_times ident cs = map fst (filter (\<lambda>(now, i, q). i = ident) cs)"

definition senders :: "rate_bucket list \<Rightarrow> bytes set" where
  "senders t = {rb_id b |b. b \<in> set t \<and> rb_used b}"

definition callers :: "rate_call list \<Rightarrow> bytes set" where
  "callers cs = (\<lambda>(now, i, q). i) ` set cs"

lemma callers_Cons: "callers ((now, i, q) # cs) = insert i (callers cs)"
  by (simp add: callers_def)

text \<open>The time between the first and the last of the readings, as the 32-bit clock counts it.\<close>

fun elapsed_ms :: "u32 list \<Rightarrow> nat" where
  "elapsed_ms (x # y # ys) = unat (y - x) + elapsed_ms (y # ys)"
| "elapsed_ms xs = 0"

fun clock_up :: "u32 \<Rightarrow> u32 list \<Rightarrow> bool" where
  "clock_up t [] = True"
| "clock_up t (now # nows) = (t \<le> now \<and> clock_up now nows)"

lemma clock_up_last: "clock_up x xs \<Longrightarrow> x \<le> last (x # xs)"
  by (induction x xs rule: clock_up.induct) (auto split: if_splits)

lemma elapsed_clock_up: "clock_up x xs \<Longrightarrow> elapsed_ms (x # xs) = unat (last (x # xs)) - unat x"
proof (induction x xs rule: clock_up.induct)
  case (2 x y ys)
  then have le: "x \<le> y" "y \<le> last (y # ys)" using clock_up_last by simp_all
  then have "unat (y - x) = unat y - unat x" by (simp add: unat_sub_if' word_le_nat_alt)
  then show ?case using 2 le by (simp add: word_le_nat_alt split: if_splits)
qed simp

lemma elapsed_snoc: "elapsed_ms (xs @ [x]) + elapsed_ms (x # ys) = elapsed_ms (xs @ x # ys)"
proof (induction xs)
  case (Cons z zs)
  then show ?case by (cases zs) simp_all
qed simp

text \<open>The table holds one bucket of a sender, and a call replaces just that.\<close>

lemma own_absent: "own ident t = [] \<longleftrightarrow> (\<forall>i < length t. rb_used (t ! i) \<longrightarrow> rb_id (t ! i) \<noteq> ident)"
  by (auto simp: own_def filter_empty_conv all_set_conv_all_nth)

lemma rate_wf_distinct:
  "rate_wf t \<Longrightarrow> i < j \<Longrightarrow> j < length t \<Longrightarrow> rb_used (t ! j) \<Longrightarrow> rb_id (t ! i) \<noteq> rb_id (t ! j)"
  by (simp add: rate_wf_def)

lemma own_known:
  assumes "rate_wf t" "k < length t" "rb_used (t ! k)"
  shows "own (rb_id (t ! k)) t = [t ! k]"
proof -
  have u: "j = k" if "j < length t" "rb_used (t ! j)" "rb_id (t ! j) = rb_id (t ! k)" for j
    using rate_wf_distinct [OF assms(1)] assms(2,3) that by (metis linorder_neqE_nat)
  have "own (rb_id (t ! k)) (take k t) = []"
    unfolding own_absent
  proof (intro allI impI notI)
    fix i assume i: "i < length (take k t)" "rb_used (take k t ! i)" "rb_id (take k t ! i) = rb_id (t ! k)"
    then show False using u [of i] assms(2) by simp
  qed
  moreover have "own (rb_id (t ! k)) (drop (Suc k) t) = []"
    unfolding own_absent
  proof (intro allI impI notI)
    fix i assume i: "i < length (drop (Suc k) t)" "rb_used (drop (Suc k) t ! i)"
      "rb_id (drop (Suc k) t ! i) = rb_id (t ! k)"
    then have "Suc k + i < length t" by simp
    then show False using u [of "Suc k + i"] i by simp
  qed
  ultimately show ?thesis
    using assms(3) by (subst id_take_nth_drop [OF assms(2)]) (simp add: own_def)
qed

lemma own_cases:
  assumes "rate_wf t"
  obtains "own ident t = []" | k where "k < length t" "rb_used (t ! k)" "rb_id (t ! k) = ident" "own ident t = [t ! k]"
  using own_absent [of ident t] own_known [OF assms] by blast

lemma own_update:
  assumes "k < length t" "\<not> (rb_used (t ! k) \<and> rb_id (t ! k) = ident)" "rb_id b \<noteq> ident"
  shows "own ident (t[k := b]) = own ident t"
  using assms
  by (subst (2) id_take_nth_drop [OF assms(1)]) (simp add: own_def upd_conv_take_nth_drop)

lemma rate_allow_absent:
  assumes wf: "rate_wf t" and absent: "\<forall>i < length t. rb_used (t ! i) \<longrightarrow> rb_id (t ! i) \<noteq> ident"
  obtains z where "z < length t"
    and "rate_allow t now ident r bu c =
      (let f = \<lparr>rb_id = ident, rb_used = True, rb_tokens = word_of_int bu, rb_last_ms = now\<rparr>
       in (fst (rate_take f now r bu c), t[z := snd (rate_take f now r bu c)]))"
proof -
  obtain res z where scan: "rate_scan ident t 0 0 0xFFFFFFFF = (res, z)"
    by (cases "rate_scan ident t 0 0 0xFFFFFFFF")
  have none: "res = None"
    using rate_scan_Some [of ident t 0 0 "0xFFFFFFFF" _ z] scan absent by (cases res) auto
  have "z < length t"
    using rate_scan_None_slot [of ident t 0 0 "0xFFFFFFFF" z] scan none wf by (cases t) (auto simp: rate_wf_def)
  with scan none that show ?thesis
    by (simp add: rate_allow_def Let_def case_prod_beta)
qed

lemma rate_allow_known:
  assumes "rate_wf t" "k < length t" "rb_used (t ! k)"
  shows "rate_allow t now (rb_id (t ! k)) r bu c =
    (fst (rate_take (t ! k) now r bu c), t[k := snd (rate_take (t ! k) now r bu c)])"
proof -
  have "fst (rate_scan (rb_id (t ! k)) t 0 0 0xFFFFFFFF) = Some k"
    using rate_scan_finds [of t k _ 0 0 "0xFFFFFFFF"] assms by (simp add: rate_wf_def)
  then show ?thesis by (auto simp: rate_allow_def Let_def split: prod.splits)
qed

text \<open>As long as no more than 64 senders are about, a new one gets an unused slot.\<close>

lemma senders_full:
  assumes "rate_wf t" "\<forall>j < length t. rb_used (t ! j)"
  shows "card (senders t) = 64"
proof -
  have "senders t = (\<lambda>j. rb_id (t ! j)) ` {..<64}"
    using assms by (force simp: senders_def rate_wf_def in_set_conv_nth)
  moreover have "inj_on (\<lambda>j. rb_id (t ! j)) {..<64}"
    using assms by (intro linorder_inj_onI) (auto simp: rate_wf_def)
  ultimately show ?thesis by (simp add: card_image)
qed

lemma senders_finite [simp]: "finite (senders t)" "finite (callers cs)"
proof -
  have "senders t \<subseteq> rb_id ` set t" by (auto simp: senders_def)
  then show "finite (senders t)" by (rule finite_subset) simp
qed (simp add: callers_def)

lemma rate_allow_other:
  assumes wf: "rate_wf t" and room: "card (insert i (senders t)) \<le> 64" and i: "i \<noteq> ident"
  shows "own ident (snd (rate_allow t now i r bu c)) = own ident t"
    and "senders (snd (rate_allow t now i r bu c)) \<subseteq> insert i (senders t)"
proof -
  let ?t' = "snd (rate_allow t now i r bu c)"
  have "\<exists>k b. k < length t \<and> ?t' = t[k := b] \<and> rb_id b = i \<and> \<not> (rb_used (t ! k) \<and> rb_id (t ! k) = ident)"
  proof (cases rule: own_cases [OF wf, of i])
    case (2 k)
    show ?thesis
      by (rule exI [of _ k], rule exI [of _ "snd (rate_take (t ! k) now r bu c)"])
        (use 2 i rate_allow_known [OF wf 2(1,2), of now r bu c] in simp)
  next
    case 1
    obtain res z where scan: "rate_scan i t 0 0 0xFFFFFFFF = (res, z)" by (cases "rate_scan i t 0 0 0xFFFFFFFF")
    have none: "res = None"
      using rate_scan_Some [of i t 0 0 "0xFFFFFFFF" _ z] scan 1 unfolding own_absent by (cases res) auto
    have notin: "i \<notin> senders t" using 1 by (auto simp: own_def senders_def filter_empty_conv)
    have notfull: "\<not> (\<forall>j < length t. rb_used (t ! j))"
      using senders_full [OF wf] room notin by auto
    have "t \<noteq> []" using wf by (auto simp: rate_wf_def)
    then have z: "z < length t" "\<not> rb_used (t ! z)"
      using rate_scan_None_slot [of i t 0 0 "0xFFFFFFFF" z] scan none notfull by auto
    show ?thesis
      by (rule exI [of _ z], rule exI [of _ "snd (rate_take \<lparr>rb_id = i, rb_used = True, rb_tokens = word_of_int bu, rb_last_ms = now\<rparr> now r bu c)"])
        (use z scan none in \<open>simp add: rate_allow_def Let_def case_prod_beta\<close>)
  qed
  then obtain k b where k: "k < length t" "?t' = t[k := b]" "rb_id b = i" "\<not> (rb_used (t ! k) \<and> rb_id (t ! k) = ident)"
    by blast
  then show "own ident ?t' = own ident t" using own_update i by simp
  show "senders ?t' \<subseteq> insert i (senders t)"
    using k set_update_subset_insert [of t k b] by (auto simp: senders_def)
qed

text \<open>What a sender has left: its bucket, or the burst while it is unknown.\<close>

definition credit :: "bytes \<Rightarrow> int \<Rightarrow> rate_bucket list \<Rightarrow> nat" where
  "credit ident bu t = (case own ident t of [] \<Rightarrow> nat bu | b # _ \<Rightarrow> unat (rb_tokens b))"

definition seen :: "bytes \<Rightarrow> rate_bucket list \<Rightarrow> u32 list" where
  "seen ident t = map rb_last_ms (own ident t)"

lemma own_update_at:
  assumes "rate_wf (t[k := b])" "k < length t" "rb_used b" "rb_id b = ident"
  shows "own ident (t[k := b]) = [b]"
  using own_known [of "t[k := b]" k] assms by simp

text \<open>What a sender may be asked for: at most this rate and burst, at least this cost.\<close>

definition call_within :: "int \<times> int \<times> int \<Rightarrow> int \<times> int \<times> int \<Rightarrow> bool" where
  "call_within p q \<longleftrightarrow> (case (p, q) of ((r, bu, c), (r', bu', c')) \<Rightarrow>
     c_uint31 r' \<and> c_uint31 bu' \<and> c_uint31 c' \<and> nat r' \<le> nat r \<and> nat bu' \<le> nat bu \<and> nat c \<le> nat c')"

lemma rate_allow_bucket:
  assumes wf: "rate_wf t" and bu: "c_uint31 bu'" "nat bu' \<le> nat bu"
    and call: "rate_allow t now ident r' bu' c' = (ok, t')"
  obtains k b b' where "k < length t" "rate_take b now r' bu' c' = (ok, b')" "t' = t[k := b']" "rb_used b" "rb_id b = ident"
    "unat (rb_tokens b) \<le> credit ident bu t" "unat (now - rb_last_ms b) = elapsed_ms (seen ident t @ [now])"
proof (cases rule: own_cases [OF wf, of ident])
  case (2 k)
  have "rate_allow t now ident r' bu' c' = (fst (rate_take (t ! k) now r' bu' c'), t[k := snd (rate_take (t ! k) now r' bu' c')])"
    using rate_allow_known [OF wf 2(1,2)] unfolding 2(3) .
  then show ?thesis
    using call 2 by (intro that [of k "t ! k" "snd (rate_take (t ! k) now r' bu' c')"]) (auto simp: credit_def seen_def)
next
  case 1
  let ?f = "\<lparr>rb_id = ident, rb_used = True, rb_tokens = word_of_int bu', rb_last_ms = now\<rparr>"
  obtain z where "z < length t" "rate_allow t now ident r' bu' c' = (fst (rate_take ?f now r' bu' c'), t[z := snd (rate_take ?f now r' bu' c')])"
    using rate_allow_absent [OF wf, of ident now r' bu' c'] 1 unfolding own_absent Let_def by blast
  then show ?thesis
    using call 1 unat_c_uint31 [OF bu(1)] bu(2)
    by (intro that [of z ?f "snd (rate_take ?f now r' bu' c')"]) (auto simp: credit_def seen_def)
qed

lemma rate_allow_own:
  assumes par: "call_within (r, bu, c) (r', bu', c')" and wf: "rate_wf t" and cap: "credit ident bu t \<le> nat bu"
    and call: "rate_allow t now ident r' bu' c' = (ok, t')"
  shows "1000 * credit ident bu t' + (if ok then 1000 * nat c else 0)
           \<le> 1000 * credit ident bu t + nat r * elapsed_ms (seen ident t @ [now])"
    and "credit ident bu t' \<le> nat bu" "seen ident t' = [now]" "senders t' \<subseteq> insert ident (senders t)"
proof -
  have u: "c_uint31 r'" "c_uint31 bu'" "c_uint31 c'" and le: "nat r' \<le> nat r" "nat bu' \<le> nat bu" "nat c \<le> nat c'"
    using par by (simp_all add: call_within_def)
  have wf': "rate_wf t'" using rate_allow_wf [OF wf, of now ident r' bu' c'] call by simp
  obtain k b b' where k: "k < length t" "rate_take b now r' bu' c' = (ok, b')" "t' = t[k := b']" "rb_used b" "rb_id b = ident"
    and b: "unat (rb_tokens b) \<le> credit ident bu t" "unat (now - rb_last_ms b) = elapsed_ms (seen ident t @ [now])"
    by (rule rate_allow_bucket [OF wf u(2) le(2) call])
  note take = k(2)
  have b': "rb_id b' = ident" "rb_used b'" using rate_take_keeps [of b now r' bu' c'] take k by auto
  have own': "own ident t' = [b']" using own_update_at [of t k b'] wf' k b' by simp
  have "unat (rb_tokens b) \<le> nat bu" using b cap by simp
  note budget = rate_take_budget [OF u le(2) this take]
  show "1000 * credit ident bu t' + (if ok then 1000 * nat c else 0)
      \<le> 1000 * credit ident bu t + nat r * elapsed_ms (seen ident t @ [now])"
  proof -
    have "1000 * credit ident bu t' + (if ok then 1000 * nat c else 0)
        \<le> 1000 * unat (rb_tokens b') + (if ok then 1000 * nat c' else 0)"
      using le(3) by (simp add: credit_def own')
    also note budget(1)
    also have "1000 * unat (rb_tokens b) + nat r' * unat (now - rb_last_ms b)
        \<le> 1000 * credit ident bu t + nat r * elapsed_ms (seen ident t @ [now])"
      unfolding b(2) using b(1) le(1) by (intro add_mono mult_le_mono) simp_all
    finally show ?thesis .
  qed
  show "credit ident bu t' \<le> nat bu" "seen ident t' = [now]" using budget by (simp_all add: credit_def seen_def own')
  show "senders t' \<subseteq> insert ident (senders t)"
    using k b' set_update_subset_insert [of t k b'] by (auto simp: senders_def)
qed

text \<open>The run: calls of others move nothing, each own call pays out of credit and refill.\<close>

lemma rate_calls_budget:
  assumes "rate_wf t" "credit ident bu t \<le> nat bu" "card (senders t \<union> callers cs) \<le> 64"
    and "\<And>now q. (now, ident, q) \<in> set cs \<Longrightarrow> call_within (r, bu, c) q"
  shows "1000 * nat c * admitted ident (rate_calls t cs)
    \<le> 1000 * credit ident bu t + nat r * elapsed_ms (seen ident t @ own_times ident cs)"
  using assms
proof (induction cs arbitrary: t)
  case Nil
  then show ?case by (simp add: admitted_def)
next
  case (Cons x cs)
  obtain now i r' bu' c' where x: "x = (now, i, r', bu', c')" by (metis prod_cases5)
  obtain ok t' where call: "rate_allow t now i r' bu' c' = (ok, t')" by fastforce
  have wf': "rate_wf t'" using rate_allow_wf [OF Cons.prems(1), of now i r' bu' c'] call by simp
  have room: "card (insert i (senders t)) \<le> 64"
    by (rule order_trans [OF card_mono Cons.prems(3)]) (auto simp: callers_Cons x)
  have sub: "senders t' \<subseteq> insert i (senders t) \<Longrightarrow> card (senders t' \<union> callers cs) \<le> 64"
    by (rule order_trans [OF card_mono Cons.prems(3)]) (auto simp: callers_Cons x)
  have par': "call_within (r, bu, c) q" if "(n, ident, q) \<in> set cs" for n q
    by (rule Cons.prems(4) [of n]) (use that in simp)
  show ?case
  proof (cases "i = ident")
    case False
    note oth = rate_allow_other [OF Cons.prems(1) room False, of now r' bu' c', unfolded call snd_conv]
    have same: "credit ident bu t' = credit ident bu t" "seen ident t' = seen ident t"
      using oth(1) by (simp_all add: credit_def seen_def)
    have "1000 * nat c * admitted ident (rate_calls t' cs)
        \<le> 1000 * credit ident bu t + nat r * elapsed_ms (seen ident t @ own_times ident cs)"
      using Cons.IH [OF wf' _ sub [OF oth(2)] par'] Cons.prems(2) unfolding same .
    then show ?thesis using False by (simp add: x call own_times_def admitted_def)
  next
    case True
    have "call_within (r, bu, c) (r', bu', c')" by (rule Cons.prems(4) [of now]) (simp add: x True)
    note own = rate_allow_own [OF this Cons.prems(1,2) call [unfolded True]]
    have IH: "1000 * nat c * admitted ident (rate_calls t' cs)
        \<le> 1000 * credit ident bu t' + nat r * elapsed_ms ([now] @ own_times ident cs)"
      using Cons.IH [OF wf' own(2) sub par'] own(3,4) True by simp
    have "1000 * nat c * admitted ident (rate_calls t (x # cs)) =
        (if ok then 1000 * nat c else 0) + 1000 * nat c * admitted ident (rate_calls t' cs)"
      using call by (simp add: x True admitted_def)
    also have "\<dots> \<le> 1000 * credit ident bu t + nat r * elapsed_ms (seen ident t @ [now])
        + nat r * elapsed_ms ([now] @ own_times ident cs)"
      by (rule add_chain [OF own(1) IH])
    also have "\<dots> = 1000 * credit ident bu t + nat r * elapsed_ms (seen ident t @ own_times ident (x # cs))"
      using elapsed_snoc [of "seen ident t" now "own_times ident cs"]
      by (simp add: x True own_times_def flip: add_mult_distrib2 add.assoc)
    finally show ?thesis .
  qed
qed

text \<open>C24: With at most 64 senders about, what one of them is admitted for over any run of calls stays
  within \<open>burst + rate * elapsed / 1000\<close>: \<open>cost\<close> times its admitted calls, whoever calls in
  between and with whatever parameters. Its own calls may differ in theirs, as the handshake's
  and the announcements' do: rate and burst are then the largest, the cost is the smallest. The
  elapsed time is that between its own calls (from its last call before the run, if the table
  knows it), and its bucket holds at most the burst to begin with, as every call leaves it.\<close>

theorem rate_limit_bound:
  assumes "rate_wf t" "\<forall>b \<in> set (own ident t). unat (rb_tokens b) \<le> nat bu"
    and "card (senders t \<union> callers cs) \<le> 64"
    and "\<forall>now q. (now, ident, q) \<in> set cs \<longrightarrow> call_within (r, bu, c) q"
  shows "1000 * nat c * admitted ident (rate_calls t cs)
    \<le> 1000 * nat bu + nat r * elapsed_ms (map rb_last_ms (own ident t) @ own_times ident cs)"
proof -
  have cap: "credit ident bu t \<le> nat bu" using assms(2) by (auto simp: credit_def split: list.split)
  have "1000 * nat c * admitted ident (rate_calls t cs)
      \<le> 1000 * credit ident bu t + nat r * elapsed_ms (seen ident t @ own_times ident cs)"
    by (rule rate_calls_budget [OF assms(1) cap assms(3)]) (use assms(4) in blast)
  also have "\<dots> \<le> 1000 * nat bu + nat r * elapsed_ms (seen ident t @ own_times ident cs)"
    using cap by simp
  finally show ?thesis by (simp add: seen_def)
qed

text \<open>At the parameters of the handshake (10 per second, burst 20, cost 1) and of announcements, with
  another sender in between.\<close>

theorem rate_limit_bound_witness:
  "1000 * nat 1 * admitted (zeros 8) (rate_calls rate_table_init
       [(5, zeros 8, 10, 20, 1), (7, [1], 3, 4, 5), (5, zeros 8, 5, 10, 1), (105, zeros 8, 10, 20, 1)])
     \<le> 1000 * nat 20 + nat 10 * elapsed_ms [5, 5, 105]"
proof -
  let ?cs = "[(5, zeros 8, 10, 20, 1), (7, [1], 3, 4, 5), (5, zeros 8, 5, 10, 1), (105, zeros 8, 10, 20, 1)] :: rate_call list"
  have "own (zeros 8) rate_table_init = []" "senders rate_table_init = {}"
    by (auto simp: own_def senders_def rate_table_init_def)
  moreover have "[1] \<noteq> zeros 8" by (auto dest: arg_cong [of _ _ length])
  moreover have "card ({} \<union> callers ?cs) \<le> 64"
    by (simp add: callers_def card_insert_if)
  moreover have "own_times (zeros 8) ?cs = [5, 5, 105]"
    using \<open>[1] \<noteq> zeros 8\<close> by (simp add: own_times_def)
  ultimately show ?thesis
    using rate_limit_bound [of rate_table_init "zeros 8" 20 ?cs 10 1]
    by (fastforce simp: c_uint31_def call_within_def rate_wf_init)
qed

section \<open>A sender pushed out\<close>

text \<open>With all 64 slots in use a new sender takes the slot with the oldest time.\<close>

lemma rate_scan_keeps:
  assumes "\<forall>j < length t. rb_used (t ! j) \<and> rb_id (t ! j) \<noteq> ident \<and> ts \<le> rb_last_ms (t ! j)"
  shows "rate_scan ident t i ol ts = (None, ol)"
  using assms
proof (induction ident t i ol ts rule: rate_scan.induct)
  case (2 ident c cs i ol ts)
  have "rb_used c \<and> rb_id c \<noteq> ident \<and> ts \<le> rb_last_ms c" using "2.prems" by (metis length_Cons nth_Cons_0 zero_less_Suc)
  moreover have "\<forall>j < length cs. rb_used (cs ! j) \<and> rb_id (cs ! j) \<noteq> ident \<and> ts \<le> rb_last_ms (cs ! j)"
    using "2.prems" by (metis Suc_less_eq length_Cons nth_Cons_Suc)
  ultimately show ?case using "2.IH"(2) linorder_not_less [of "rb_last_ms c" ts] by simp
qed simp

lemma rate_scan_oldest:
  assumes "\<forall>j < length t. rb_used (t ! j) \<and> rb_id (t ! j) \<noteq> ident"
    and "k < length t" "rb_last_ms (t ! k) < ts" "\<forall>j < length t. j \<noteq> k \<longrightarrow> rb_last_ms (t ! k) < rb_last_ms (t ! j)"
  shows "rate_scan ident t i ol ts = (None, i + k)"
  using assms
proof (induction ident t i ol ts arbitrary: k rule: rate_scan.induct)
  case (2 ident c cs i ol ts)
  have c: "rb_used c" "rb_id c \<noteq> ident" using "2.prems"(1) by (metis length_Cons nth_Cons_0 zero_less_Suc)+
  have cs: "\<forall>j < length cs. rb_used (cs ! j) \<and> rb_id (cs ! j) \<noteq> ident"
    using "2.prems"(1) by (metis Suc_less_eq length_Cons nth_Cons_Suc)
  show ?case
  proof (cases k)
    case 0
    have "rate_scan ident cs (Suc i) i (rb_last_ms c) = (None, i)"
    proof (rule rate_scan_keeps, intro allI impI)
      fix j assume "j < length cs"
      then show "rb_used (cs ! j) \<and> rb_id (cs ! j) \<noteq> ident \<and> rb_last_ms c \<le> rb_last_ms (cs ! j)"
        using cs "2.prems"(4) [rule_format, of "Suc j"] 0 by simp
    qed
    then show ?thesis using 0 c "2.prems"(3) by simp
  next
    case (Suc m)
    have m: "m < length cs" "rb_last_ms (cs ! m) < ts" "rb_last_ms (cs ! m) < rb_last_ms c"
      using "2.prems"(2,3) "2.prems"(4) [rule_format, of 0] Suc by simp_all
    have rest: "\<forall>j < length cs. j \<noteq> m \<longrightarrow> rb_last_ms (cs ! m) < rb_last_ms (cs ! j)"
    proof (intro allI impI)
      fix j assume "j < length cs" "j \<noteq> m"
      then show "rb_last_ms (cs ! m) < rb_last_ms (cs ! j)"
        using "2.prems"(4) [rule_format, of "Suc j"] Suc by simp
    qed
    show ?thesis using "2.IH" c cs m rest Suc by simp
  qed
qed simp

lemma rate_allow_fresh:
  assumes wf: "rate_wf t" and absent: "own ident t = []" and c: "c_uint31 c" "c_uint31 bu" "c \<le> bu"
  shows "fst (rate_allow t now ident r bu c) = True"
proof -
  let ?f = "\<lparr>rb_id = ident, rb_used = True, rb_tokens = word_of_int bu, rb_last_ms = now\<rparr>"
  obtain z where "rate_allow t now ident r bu c = (fst (rate_take ?f now r bu c), t[z := snd (rate_take ?f now r bu c)])"
    using rate_allow_absent [OF wf, of ident now r bu c] absent unfolding own_absent Let_def by blast
  moreover have "\<not> (word_of_int bu :: u32) < word_of_int c"
    using c unat_c_uint31 [of c] unat_c_uint31 [of bu] by (simp add: word_less_nat_alt)
  ultimately show ?thesis by (simp add: rate_take_def rate_refill_def rate_charge_def)
qed

text \<open>Why the bound needs its 64: a sender whose bucket is empty is refused, but after one call of a
  sender the full table does not know, which takes the slot of the oldest, it is itself
  unknown, and the next call finds the whole burst.\<close>

theorem eviction_refills:
  assumes wf: "rate_wf t" and full: "\<forall>j < length t. rb_used (t ! j) \<and> rb_id (t ! j) \<noteq> i"
    and k: "k < length t" "rb_tokens (t ! k) = 0" "rb_last_ms (t ! k) < 0xFFFFFFFF"
    and oldest: "\<forall>j < length t. j \<noteq> k \<longrightarrow> rb_last_ms (t ! k) < rb_last_ms (t ! j)"
    and c: "c_uint31 c" "c_uint31 bu" "0 < c" "c \<le> bu"
  shows "fst (rate_allow t (rb_last_ms (t ! k)) (rb_id (t ! k)) r bu c) = False"
    and "fst (rate_allow (snd (rate_allow t now i r' bu' c')) now (rb_id (t ! k)) r bu c) = True"
proof -
  have cn: "unat (word_of_int c :: u32) = nat c" "unat (word_of_int bu :: u32) = nat bu"
    using unat_c_uint31 c by blast+
  have "(0 :: u32) < word_of_int c" using cn c by (simp add: word_less_nat_alt)
  then show "fst (rate_allow t (rb_last_ms (t ! k)) (rb_id (t ! k)) r bu c) = False"
    using rate_allow_known [OF wf k(1)] full k(1,2)
    by (simp add: rate_take_def rate_refill_def rate_charge_def Let_def)
  let ?id = "rb_id (t ! k)"
  have ne: "i \<noteq> ?id" using full k(1) by auto
  have "rate_scan i t 0 0 0xFFFFFFFF = (None, 0 + k)"
    by (rule rate_scan_oldest [OF _ k(1,3) oldest]) (use full in auto)
  then obtain b where t': "snd (rate_allow t now i r' bu' c') = t[k := b]" and b: "rb_id b = i"
    by (simp add: rate_allow_def Let_def case_prod_beta)
  have wf': "rate_wf (t[k := b])" using rate_allow_wf [OF wf, of now i r' bu' c'] t' by simp
  have "own ?id (t[k := b]) = []"
    unfolding own_absent
  proof (intro allI impI)
    fix j assume j: "j < length (t[k := b])"
    have "rb_id (t ! j) \<noteq> ?id" if "j \<noteq> k"
      using that rate_wf_distinct [OF wf, of j k] rate_wf_distinct [OF wf, of k j] full j k(1)
      by (cases j k rule: linorder_cases) auto
    then show "rb_id (t[k := b] ! j) \<noteq> ?id" using b ne j k(1) by (cases "j = k") simp_all
  qed
  then show "fst (rate_allow (snd (rate_allow t now i r' bu' c')) now ?id r bu c) = True"
    unfolding t' by (rule rate_allow_fresh [OF wf' _ c(1,2,4)])
qed

section \<open>Refill is lost on frequent calls\<close>

text \<open>
  The refill is an integer division, and the time stamp advances even when it earned
  nothing: a sender that comes back before a whole token is due loses the fraction.
\<close>

fun gaps_below :: "int \<Rightarrow> u32 \<Rightarrow> u32 list \<Rightarrow> bool" where
  "gaps_below r t [] = True"
| "gaps_below r t (now # nows) = (nat r * unat (now - t) < 1000 \<and> gaps_below r now nows)"

lemma rate_take_starved:
  assumes "c_uint31 r" "0 < c" "c_uint31 c" "rb_tokens b = 0" "nat r * unat (now - rb_last_ms b) < 1000"
  shows "\<exists>b'. rate_take b now r bu c = (False, b') \<and> rb_tokens b' = 0 \<and> rb_last_ms b' = now"
proof -
  have "unat ((word_of_int r * ucast (now - rb_last_ms b) :: u64) div 1000) = 0"
    using rate_gain_le [of r "now - rb_last_ms b"] assms(1,5) by (simp add: c_uint31_def)
  then have gain: "(word_of_int r * ucast (now - rb_last_ms b) :: u64) div 1000 = 0"
    by (simp only: unat_eq_0)
  have c: "0 < (word_of_int c :: u32)"
    using unat_c_uint31 [OF assms(3)] assms(2) by (simp add: word_less_nat_alt)
  have ref: "rb_tokens (rate_refill b now r bu) = 0" "rb_last_ms (rate_refill b now r bu) = now"
    using assms(4) gain by (auto simp: rate_refill_def Let_def word_greater_zero_iff)
  show ?thesis
    using c ref by (simp add: rate_take_def rate_charge_def)
qed

text \<open>Once a sender's bucket is empty, calls that follow one another by less than the
  time of one token are refused for ever, however long the run: the fraction of a token
  earned in between is dropped each time.\<close>

theorem rate_starvation:
  assumes "c_uint31 r" "0 < c" "c_uint31 c" "rate_wf t" "k < length t" "rb_used (t ! k)"
    and "rb_tokens (t ! k) = 0" "gaps_below r (rb_last_ms (t ! k)) nows"
  shows "allowed (rate_run t (rb_id (t ! k)) r bu c nows) = 0"
  using assms(4-)
proof (induction nows arbitrary: t)
  case Nil
  then show ?case by (simp add: allowed_def)
next
  case (Cons now nows)
  obtain b' where take: "rate_take (t ! k) now r bu c = (False, b')" "rb_tokens b' = 0" "rb_last_ms b' = now"
    using rate_take_starved [OF assms(1-3), of "t ! k" now bu] Cons.prems by auto
  have b': "rb_id b' = rb_id (t ! k)" "rb_used b'"
    using rate_take_keeps [of "t ! k" now r bu c] take Cons.prems by auto
  have "fst (rate_scan (rb_id (t ! k)) t 0 0 0xFFFFFFFF) = Some k"
    using rate_scan_finds [of t k _ 0 0 "0xFFFFFFFF"] Cons.prems by (simp add: rate_wf_def)
  then have allow: "rate_allow t now (rb_id (t ! k)) r bu c = (False, t[k := b'])"
    using take by (auto simp: rate_allow_def Let_def split: prod.splits)
  have "rate_wf (t[k := b'])"
    using rate_allow_wf [OF Cons.prems(1), of now "rb_id (t ! k)" r bu c] allow by simp
  then have "allowed (rate_run (t[k := b']) (rb_id (t ! k)) r bu c nows) = 0"
    using Cons.IH [of "t[k := b']"] Cons.prems b' take by simp
  with allow show ?case by (simp add: allowed_def)
qed

text \<open>At the handshake's parameters: an empty bucket, polled every 99 ms.\<close>

theorem rate_starvation_witness:
  "allowed (rate_run (rate_table_init[0 := \<lparr>rb_id = zeros 8, rb_used = True, rb_tokens = 0, rb_last_ms = 1\<rparr>])
     (zeros 8) 10 20 1 [100, 199, 298]) = 0"
proof -
  let ?t = "rate_table_init[0 := \<lparr>rb_id = zeros 8, rb_used = True, rb_tokens = 0, rb_last_ms = 1\<rparr>]"
  have "rate_wf ?t"
    by (auto simp: rate_wf_def rate_table_init_def nth_list_update split: if_splits)
  then have "allowed (rate_run ?t (rb_id (?t ! 0)) 10 20 1 [100, 199, 298]) = 0"
    by (intro rate_starvation) (simp_all add: c_uint31_def rate_table_init_def)
  then show ?thesis by (simp add: rate_table_init_def)
qed

section \<open>A fresh table\<close>

text \<open>Two requests of one sender at one instant pass an unused limiter, whatever the second one's rate.\<close>

lemma rate_twice:
  obtains rt rt' where "rate_allow rate_table_init ms ident 10 20 1 = (True, rt)" "rate_allow rt ms ident r bu 1 = (True, rt')"
proof -
  let ?e = "\<lparr>rb_id = zeros 8, rb_used = False, rb_tokens = 0, rb_last_ms = 0\<rparr>"
  let ?b = "\<lambda>k. \<lparr>rb_id = ident, rb_used = True, rb_tokens = k, rb_last_ms = ms\<rparr>"
  have t: "rate_table_init = ?e # replicate 63 ?e" unfolding rate_table_init_def by (simp add: numeral_eq_Suc)
  have 1: "rate_allow rate_table_init ms ident 10 20 1 = (True, ?b 19 # replicate 63 ?e)"
    unfolding t by (simp add: rate_allow_def rate_take_def rate_charge_def rate_refill_def Let_def)
  have "rate_allow (?b 19 # replicate 63 ?e) ms ident r bu 1 = (True, ?b 18 # replicate 63 ?e)"
    by (simp add: rate_allow_def rate_take_def rate_charge_def rate_refill_def Let_def)
  with 1 that show ?thesis by blast
qed

end
