(* ===== verification/Env.thy ===== *)
theory Env
  imports Wire RateLimit
begin

text \<open>
  What the code takes from its process: the clock, the random generator, the sockets, the
  contents of uninitialised stack memory, and the process-wide variables (the rate-limit
  table \<^verbatim>\<open>g_rate\<close> of \<^verbatim>\<open>ratelimit.c\<close>, the cookie secret of \<^verbatim>\<open>icsp_handshake.c\<close>).
  A handler takes the \<open>world\<close> and returns it.

  \<open>w_time\<close> is \<^verbatim>\<open>time(NULL)\<close> and \<open>w_ms\<close> is \<^verbatim>\<open>rate_now_ms()\<close>; a handler reads one
  instant. \<open>w_rng\<close> is the stream of random bytes, \<open>w_rpos\<close> how many were drawn.
  \<open>w_rand\<close> is the sequence \<^verbatim>\<open>rand()\<close> returns, \<open>w_pid\<close> the process id.
  \<open>w_files\<close> holds the contents of the files by path; opening \<open>p\<close> for writing fails when
  \<open>w_denied p\<close>.
  The \<open>n\<close>-th transmission fails when \<open>w_txfail n\<close>; the frames that left are logged in
  \<open>w_out\<close>, oldest first.
\<close>

datatype sent =
    L2 bytes bytes          \<comment> \<open>Ethernet destination, frame (\<^verbatim>\<open>l2_send\<close>)\<close>
  | Udp bytes bytes         \<comment> \<open>gateway socket address, frame (\<^verbatim>\<open>sendto\<close>)\<close>

record world =
  w_time :: int
  w_ms :: u32
  w_rng :: "nat \<Rightarrow> u8"
  w_rpos :: nat
  w_stack :: "nat \<Rightarrow> u8"
  w_txfail :: "nat \<Rightarrow> bool"
  w_txn :: nat
  w_out :: "sent list"
  w_rate :: "rate_bucket list"
  w_secret :: bytes
  w_secret_ts :: int
  w_pid :: nat
  w_rand :: "nat \<Rightarrow> nat"
  w_nrand :: nat
  w_files :: "string \<Rightarrow> string option"
  w_denied :: "string \<Rightarrow> bool"

definition world0 :: world where
  "world0 = \<lparr>w_time = 0, w_ms = 0, w_rng = (\<lambda>_. 1), w_rpos = 0, w_stack = (\<lambda>_. 0),
     w_txfail = (\<lambda>_. False), w_txn = 0, w_out = [], w_rate = rate_table_init,
     w_secret = zeros 32, w_secret_ts = 0,
     w_pid = 0, w_rand = (\<lambda>_. 0), w_nrand = 0, w_files = (\<lambda>_. None), w_denied = (\<lambda>_. False)\<rparr>"

definition randombytes :: "nat \<Rightarrow> world \<Rightarrow> bytes \<times> world" where
  "randombytes n w = (map (\<lambda>i. w_rng w (w_rpos w + i)) [0..<n], w\<lparr>w_rpos := w_rpos w + n\<rparr>)"

text \<open>One datagram or frame handed to the kernel: 0 when it was accepted, -1 otherwise.\<close>

definition transmit :: "sent \<Rightarrow> world \<Rightarrow> int \<times> world" where
  "transmit s w =
     (if w_txfail w (w_txn w) then (-1, w\<lparr>w_txn := Suc (w_txn w)\<rparr>)
      else (0, w\<lparr>w_txn := Suc (w_txn w), w_out := w_out w @ [s]\<rparr>))"

definition l2_send :: "bytes \<Rightarrow> bytes \<Rightarrow> world \<Rightarrow> int \<times> world" where
  "l2_send dmac frame w = transmit (L2 dmac frame) w"

text \<open>The process-wide rate limiter, as the handlers call it.\<close>

definition rate_allow_g :: "bytes \<Rightarrow> int \<Rightarrow> int \<Rightarrow> int \<Rightarrow> world \<Rightarrow> bool \<times> world" where
  "rate_allow_g ident r bu c w =
     (let (ok, t) = rate_allow (w_rate w) (w_ms w) ident r bu c in (ok, w\<lparr>w_rate := t\<rparr>))"

lemma length_randombytes [simp, len_simps]: "length (fst (randombytes n w)) = n"
  by (simp add: randombytes_def)

text \<open>What a handler may do to the world: only append to the log, and keep the rate table
  well-formed.\<close>

definition world_le :: "world \<Rightarrow> world \<Rightarrow> bool" where
  "world_le w w' \<longleftrightarrow> (\<exists>fs. w_out w' = w_out w @ fs) \<and> w_time w' = w_time w \<and> w_ms w' = w_ms w \<and>
     w_rng w' = w_rng w \<and> w_rpos w \<le> w_rpos w' \<and> w_txfail w' = w_txfail w \<and> w_stack w' = w_stack w \<and>
     (rate_wf (w_rate w) \<longrightarrow> rate_wf (w_rate w'))"

lemma world_le_refl [simp, inv_intros]: "world_le w w"
  by (simp add: world_le_def)

lemma world_le_trans [trans]: "world_le a b \<Longrightarrow> world_le b c \<Longrightarrow> world_le a c"
  by (auto simp: world_le_def)

lemma world_le_transmit [inv_intros]: "world_le w (snd (transmit s w))"
  by (simp add: world_le_def transmit_def)

lemma world_le_l2_send [inv_intros]: "world_le w (snd (l2_send d f w))"
  by (simp add: l2_send_def world_le_transmit)

lemma world_le_randombytes [inv_intros]: "world_le w (snd (randombytes n w))"
  by (simp add: world_le_def randombytes_def)

lemma world_le_rate [inv_intros]: "world_le w (snd (rate_allow_g i r b c w))"
  by (simp add: world_le_def rate_allow_g_def case_prod_beta rate_allow_wf)

text \<open>The frame in the log; a transport that never fails.\<close>

definition sent_frame :: "sent \<Rightarrow> bytes" where
  "sent_frame s = (case s of L2 d f \<Rightarrow> f | Udp g f \<Rightarrow> f)"

definition tx_ok :: "world \<Rightarrow> bool" where
  "tx_ok w \<longleftrightarrow> (\<forall>n. \<not> w_txfail w n)"

lemma randombytes_same [simp]:
  "w_out (snd (randombytes n w)) = w_out w" "tx_ok (snd (randombytes n w)) = tx_ok w"
  "w_time (snd (randombytes n w)) = w_time w" "w_rate (snd (randombytes n w)) = w_rate w"
  by (simp_all add: randombytes_def tx_ok_def)

lemma transmit_ok: "tx_ok w \<Longrightarrow> transmit s w = (0, w\<lparr>w_txn := Suc (w_txn w), w_out := w_out w @ [s]\<rparr>)"
  by (simp add: transmit_def tx_ok_def)

end
