(* ===== verification/Crypto.thy ===== *)
theory Crypto
  imports Env
begin

text \<open>
  \<^verbatim>\<open>c/lib/ed25519/src/ed25519.c\<close>, the repository's wrapper over the vendored TweetNaCl, and
  \<^verbatim>\<open>c/src/IPv69/mac1.c\<close>. TweetNaCl's primitives (SHA-512, the XSalsa20 key
  stream, Poly1305, Diffie-Hellman, signatures) are a parameter, the record \<open>nacl\<close>; the theory
  \<open>Tweet\<close> gives the code's own ones. The byte-level compositions that the wrapper depends on
  (\<^verbatim>\<open>crypto_secretbox\<close>, its opening, the tag comparison) are modelled, so that sealing and
  opening are proved inverse of each other with no hypothesis on the parameter.
\<close>

record nacl =
  n_hash :: "bytes \<Rightarrow> bytes"
  n_poly1305 :: "bytes \<Rightarrow> bytes \<Rightarrow> bytes"
  n_xsalsa20 :: "bytes \<Rightarrow> bytes \<Rightarrow> nat \<Rightarrow> u8"
  n_scalarmult :: "bytes \<Rightarrow> bytes \<Rightarrow> bytes"
  n_seed_to_pk :: "bytes \<Rightarrow> bytes"
  n_sign :: "bytes \<Rightarrow> bytes \<Rightarrow> bytes"
  n_sign_open :: "bytes \<Rightarrow> bytes \<Rightarrow> bytes \<Rightarrow> bool"

section \<open>TweetNaCl's compositions\<close>

text \<open>The output buffers have the fixed sizes of the C prototypes.\<close>

definition crypto_hash :: "nacl \<Rightarrow> bytes \<Rightarrow> bytes" where
  "crypto_hash N m = slice 0 64 (n_hash N m)"

definition crypto_onetimeauth :: "nacl \<Rightarrow> bytes \<Rightarrow> bytes \<Rightarrow> bytes" where
  "crypto_onetimeauth N m k = slice 0 16 (n_poly1305 N m k)"

definition crypto_onetimeauth_verify :: "nacl \<Rightarrow> bytes \<Rightarrow> bytes \<Rightarrow> bytes \<Rightarrow> int" where
  "crypto_onetimeauth_verify N h m k = (if slice 0 16 h = crypto_onetimeauth N m k then 0 else -1)"

definition crypto_stream_xor :: "nacl \<Rightarrow> bytes \<Rightarrow> bytes \<Rightarrow> bytes \<Rightarrow> bytes" where
  "crypto_stream_xor N m n k = map (\<lambda>i. m ! i XOR n_xsalsa20 N n k i) [0..<length m]"

definition crypto_stream :: "nacl \<Rightarrow> nat \<Rightarrow> bytes \<Rightarrow> bytes \<Rightarrow> bytes" where
  "crypto_stream N d n k = crypto_stream_xor N (zeros d) n k"

text \<open>\<open>m\<close> carries 32 leading zero bytes; the result carries 16.\<close>

definition crypto_secretbox :: "nacl \<Rightarrow> bytes \<Rightarrow> bytes \<Rightarrow> bytes \<Rightarrow> bytes option" where
  "crypto_secretbox N m n k =
     (if length m < 32 then None
      else let c = crypto_stream_xor N m n k
           in Some (zeros 16 @ crypto_onetimeauth N (drop 32 c) (take 32 c) @ drop 32 c))"

definition crypto_secretbox_open :: "nacl \<Rightarrow> bytes \<Rightarrow> bytes \<Rightarrow> bytes \<Rightarrow> bytes option" where
  "crypto_secretbox_open N c n k =
     (if length c < 32 then None
      else if crypto_onetimeauth_verify N (drop 16 c) (drop 32 c) (crypto_stream N 32 n k) \<noteq> 0 then None
      else Some (zeros 32 @ drop 32 (crypto_stream_xor N c n k)))"

section \<open>The wrapper (ed25519.c)\<close>

definition ed25519_sha512 :: "nacl \<Rightarrow> bytes \<Rightarrow> bytes" where
  "ed25519_sha512 N m = crypto_hash N m"

definition ed25519_seed_to_pub :: "nacl \<Rightarrow> bytes \<Rightarrow> bytes" where
  "ed25519_seed_to_pub N seed = slice 0 32 (n_seed_to_pk N (slice 0 32 seed))"

definition ed25519_keypair :: "nacl \<Rightarrow> world \<Rightarrow> (bytes \<times> bytes) \<times> world" where
  "ed25519_keypair N w =
     (let (seed, w) = randombytes 32 w; pub = ed25519_seed_to_pub N seed in ((seed @ pub, pub), w))"

text \<open>Only the seed half of the secret key enters; the public half is recomputed.\<close>

definition ed25519_sign :: "nacl \<Rightarrow> bytes \<Rightarrow> bytes \<Rightarrow> bytes" where
  "ed25519_sign N msg sk =
     (let seed = slice 0 32 sk; full_sk = seed @ ed25519_seed_to_pub N seed
      in slice 0 64 (n_sign N msg full_sk))"

definition ed25519_verify :: "nacl \<Rightarrow> bytes \<Rightarrow> bytes \<Rightarrow> bytes \<Rightarrow> int" where
  "ed25519_verify N msg sig pub = (if n_sign_open N (slice 0 64 sig) msg (slice 0 32 pub) then 0 else -1)"

definition ed25519_scalarmult :: "nacl \<Rightarrow> bytes \<Rightarrow> bytes \<Rightarrow> bytes" where
  "ed25519_scalarmult N n p = slice 0 32 (n_scalarmult N (slice 0 32 n) (slice 0 32 p))"

definition ed25519_scalarmult_base :: "nacl \<Rightarrow> bytes \<Rightarrow> bytes" where
  "ed25519_scalarmult_base N n = ed25519_scalarmult N n (9 # zeros 31)"

definition ed25519_hmac_sha512 :: "nacl \<Rightarrow> bytes \<Rightarrow> bytes \<Rightarrow> bytes" where
  "ed25519_hmac_sha512 N msg key =
     (let k = (if length key > 128 then ed25519_sha512 N key @ zeros 64
               else key @ zeros (128 - length key));
          ipad = map (\<lambda>b. b XOR 0x36) k;
          opad = map (\<lambda>b. b XOR 0x5c) k;
          inner = ed25519_sha512 N (ipad @ msg)
      in ed25519_sha512 N (opad @ inner))"

definition ed25519_poly1305 :: "nacl \<Rightarrow> bytes \<Rightarrow> bytes \<Rightarrow> bytes" where
  "ed25519_poly1305 N msg key = crypto_onetimeauth N msg (slice 0 32 key)"

definition ed25519_poly1305_verify :: "nacl \<Rightarrow> bytes \<Rightarrow> bytes \<Rightarrow> bytes \<Rightarrow> int" where
  "ed25519_poly1305_verify N tag msg key = crypto_onetimeauth_verify N tag msg (slice 0 32 key)"

text \<open>The box has \<open>length m + 32\<close> bytes; a message that does not fit the 2080-byte stack
  buffer is replaced by zeros.\<close>

definition ed25519_secretbox :: "nacl \<Rightarrow> bytes \<Rightarrow> bytes \<Rightarrow> bytes \<Rightarrow> bytes" where
  "ed25519_secretbox N m nonce key =
     (if length m > 2048 then zeros (length m + 32)
      else the (crypto_secretbox N (zeros 32 @ m) nonce key))"

text \<open>\<open>c\<close> is the box (\<open>n + 32\<close> bytes); the 1056-byte stack buffer bounds \<open>n\<close>.\<close>

definition ed25519_secretbox_open :: "nacl \<Rightarrow> bytes \<Rightarrow> nat \<Rightarrow> bytes \<Rightarrow> bytes \<Rightarrow> bytes option" where
  "ed25519_secretbox_open N c n nonce key =
     (if n > 1024 then None
      else case crypto_secretbox_open N (slice 0 (n + 32) c) nonce key of
        None \<Rightarrow> None
      | Some b \<Rightarrow> Some (slice 32 n b))"

section \<open>Lengths, and opening what was sealed\<close>

lemma length_crypto [simp, len_simps]:
  "length (crypto_hash N m) = 64" "length (crypto_onetimeauth N m k) = 16"
  "length (ed25519_sha512 N m) = 64" "length (ed25519_hmac_sha512 N m k) = 64"
  "length (ed25519_sign N m k) = 64" "length (ed25519_scalarmult N x p) = 32"
  "length (ed25519_scalarmult_base N x) = 32" "length (ed25519_seed_to_pub N s) = 32"
  "length (ed25519_poly1305 N m k) = 16" "length (crypto_stream_xor N m n k) = length m"
  by (simp_all add: crypto_hash_def crypto_onetimeauth_def ed25519_sha512_def ed25519_hmac_sha512_def
      ed25519_sign_def ed25519_scalarmult_def ed25519_scalarmult_base_def ed25519_seed_to_pub_def
      ed25519_poly1305_def crypto_stream_xor_def Let_def)

lemma length_secretbox [simp, len_simps]: "length (ed25519_secretbox N m n k) = length m + 32"
  by (simp add: ed25519_secretbox_def crypto_secretbox_def Let_def)

lemma crypto_open_box:
  assumes "crypto_secretbox N (zeros 32 @ m) n k = Some c"
  shows "crypto_secretbox_open N c n k = Some (zeros 32 @ m)"
proof -
  define s where "s = crypto_stream_xor N (zeros 32 @ m) n k"
  have s: "length s = 32 + length m" "\<And>i. i < 32 + length m \<Longrightarrow> s ! i = (zeros 32 @ m) ! i XOR n_xsalsa20 N n k i"
    by (simp_all add: s_def crypto_stream_xor_def)
  have c: "c = zeros 16 @ crypto_onetimeauth N (drop 32 s) (take 32 s) @ drop 32 s"
    using assms by (simp add: crypto_secretbox_def Let_def s_def split: if_splits)
  have key: "crypto_stream N 32 n k = take 32 s"
    by (rule nth_equalityI) (auto simp: crypto_stream_def crypto_stream_xor_def s zeros_def nth_append)
  have tag: "slice 0 16 (drop 16 c) = crypto_onetimeauth N (drop 32 c) (take 32 s)"
    by (simp add: c)
  have body: "drop 32 (crypto_stream_xor N c n k) = m"
  proof (rule nth_equalityI)
    show "length (drop 32 (crypto_stream_xor N c n k)) = length m"
      by (simp add: c s)
  next
    fix i assume "i < length (drop 32 (crypto_stream_xor N c n k))"
    then have i: "i < length m" by (simp add: c s)
    have "c ! (32 + i) = s ! (32 + i)"
      using i s(1) by (simp add: c nth_append)
    moreover have "s ! (32 + i) = m ! i XOR n_xsalsa20 N n k (32 + i)"
      using i by (simp add: s(2) nth_append)
    ultimately show "drop 32 (crypto_stream_xor N c n k) ! i = m ! i"
      using i by (simp add: crypto_stream_xor_def c s xor.assoc)
  qed
  show ?thesis
    using body tag key by (simp add: crypto_secretbox_open_def crypto_onetimeauth_verify_def c s)
qed

lemma secretbox_open_secretbox:
  assumes "length m \<le> 1024"
  shows "ed25519_secretbox_open N (ed25519_secretbox N m n k @ r) (length m) n k = Some m"
proof -
  obtain c where c: "crypto_secretbox N (zeros 32 @ m) n k = Some c"
    by (simp add: crypto_secretbox_def Let_def)
  then have box: "ed25519_secretbox N m n k = c"
    using assms by (simp add: ed25519_secretbox_def)
  then have "length c = length m + 32"
    using length_secretbox [of N m n k] by simp
  then show ?thesis
    using assms crypto_open_box [OF c] by (simp add: ed25519_secretbox_open_def box)
qed

subsection \<open>The sealed-box interface\<close>

text \<open>
  What the data path (ICSP) and the record layer (bTLS) use of the cipher: a box of a known
  size, which opens to the message it was made from as long as the message fits the
  opening buffer (\<open>cap\<close> bytes), and never opens to a message that does not fit.
\<close>

locale sealed_box =
  fixes seal :: "bytes \<Rightarrow> bytes \<Rightarrow> bytes \<Rightarrow> bytes"
    and opn :: "bytes \<Rightarrow> nat \<Rightarrow> bytes \<Rightarrow> bytes \<Rightarrow> bytes option"
    and overhead :: nat and cap :: nat
  assumes seal_len: "length (seal m n k) = length m + overhead"
    and open_seal: "length m \<le> cap \<Longrightarrow> opn (seal m n k @ r) (length m) n k = Some m"
    and open_len: "opn c d n k = Some m \<Longrightarrow> length m = d \<and> d \<le> cap"
begin

lemma open_seal_exact: "length m \<le> cap \<Longrightarrow> opn (seal m n k) (length m) n k = Some m"
  using open_seal [of m n k "[]"] by simp

lemma open_oversized: "cap < d \<Longrightarrow> opn c d n k = None"
  using open_len [of c d n k] by (cases "opn c d n k") auto

lemma seal_inj: "seal m n k = seal m' n k \<Longrightarrow> length m \<le> cap \<Longrightarrow> m = m'"
proof -
  assume eq: "seal m n k = seal m' n k" and le: "length m \<le> cap"
  have len: "length m' = length m" using eq seal_len [of m n k] seal_len [of m' n k] by simp
  have "Some m = opn (seal m' n k) (length m') n k"
    using open_seal_exact [OF le, of n k] by (simp only: eq len)
  also have "\<dots> = Some m'" by (rule open_seal_exact) (simp only: len le)
  finally show ?thesis by simp
qed

end

interpretation box: sealed_box "ed25519_secretbox N" "ed25519_secretbox_open N" 32 1024 for N
  by (rule sealed_box.intro, simp, erule secretbox_open_secretbox)
    (auto simp: ed25519_secretbox_open_def split: if_splits option.splits)

section \<open>Documented behaviour of the curve operations\<close>

text \<open>
  The two facts the protocols rely on: a signature made with a seed verifies under the
  public key of that seed, and the two sides of a Diffie-Hellman exchange agree. They are
  hypotheses on the parameter where a property needs them.
\<close>

definition sign_ok :: "nacl \<Rightarrow> bool" where
  "sign_ok N \<longleftrightarrow> (\<forall>sk m. ed25519_verify N m (ed25519_sign N m sk) (ed25519_seed_to_pub N sk) = 0)"

definition dh_ok :: "nacl \<Rightarrow> bool" where
  "dh_ok N \<longleftrightarrow> (\<forall>a b. ed25519_scalarmult N a (ed25519_scalarmult_base N b) =
     ed25519_scalarmult N b (ed25519_scalarmult_base N a))"

text \<open>A key pair as the key files hold it: the seed and its public key.\<close>

definition key_ok :: "nacl \<Rightarrow> bytes \<Rightarrow> bool" where
  "key_ok N sk \<longleftrightarrow> length sk = 64 \<and> slice 32 32 sk = ed25519_seed_to_pub N sk"

lemma verify_signed:
  assumes "sign_ok N" "key_ok N sk"
  shows "ed25519_verify N m (ed25519_sign N m sk @ r) (slice 32 32 sk) = 0"
proof -
  have "ed25519_verify N m (ed25519_sign N m sk) (ed25519_seed_to_pub N sk) = 0"
    using assms(1) by (simp add: sign_ok_def)
  then show ?thesis using assms(2) by (simp add: ed25519_verify_def key_ok_def split: if_splits)
qed

text \<open>A concrete parameter that has both, for evaluating the properties at an input.\<close>

definition toy_nacl :: nacl where
  "toy_nacl = \<lparr>n_hash = (\<lambda>m. m), n_poly1305 = (\<lambda>m k. rev m), n_xsalsa20 = (\<lambda>n k i. bget k i XOR bget n i),
     n_scalarmult = (\<lambda>a p. map2 (XOR) a p), n_seed_to_pk = (\<lambda>s. s),
     n_sign = (\<lambda>m sk. slice 0 32 sk @ slice 0 32 m),
     n_sign_open = (\<lambda>sig m pk. sig = slice 0 32 pk @ slice 0 32 m)\<rparr>"

lemma slice_slice_same [simp]: "m \<le> n \<Longrightarrow> slice 0 m (slice 0 n b) = slice 0 m b"
  by (simp add: slice_slice)

lemma toy_sign_ok: "sign_ok toy_nacl"
  by (simp add: sign_ok_def ed25519_verify_def ed25519_sign_def ed25519_seed_to_pub_def toy_nacl_def
      Let_def)

lemma slice_map2:
  "length a = n \<Longrightarrow> length b = n \<Longrightarrow> slice 0 n (map2 f a b) = map2 f a b"
  by (rule slice_self) simp

lemma toy_dh_ok: "dh_ok toy_nacl"
proof -
  have "map2 (XOR) a (map2 (XOR) b c) = map2 (XOR) b (map2 (XOR) a c)"
    if "length a = 32" "length b = 32" "length c = 32" for a b c :: bytes
    using that by (intro nth_equalityI) (auto simp: xor.left_commute)
  then show ?thesis
    by (simp add: dh_ok_def ed25519_scalarmult_base_def ed25519_scalarmult_def toy_nacl_def slice_map2)
qed

section \<open>The pre-authentication tag (mac1.c)\<close>

definition ascii :: "string \<Rightarrow> bytes" where
  "ascii s = map of_char s"

lemma length_ascii [simp]: "length (ascii s) = length s"
  by (simp add: ascii_def)

abbreviation (input) MAC1_LEN :: nat where "MAC1_LEN \<equiv> 16"

definition mac1_key :: "nacl \<Rightarrow> u64 \<Rightarrow> bytes" where
  "mac1_key N server_addr = slice 0 32 (ed25519_sha512 N (ascii ''ipv69-mac1'' @ ipv69_addr_put server_addr))"

definition mac1_compute :: "nacl \<Rightarrow> bytes \<Rightarrow> bytes \<Rightarrow> bytes" where
  "mac1_compute N key msg = ed25519_poly1305 N msg key"

definition mac1_verify :: "nacl \<Rightarrow> bytes \<Rightarrow> bytes \<Rightarrow> bytes \<Rightarrow> int" where
  "mac1_verify N key msg tag = ed25519_poly1305_verify N tag msg key"

lemma length_mac1 [simp, len_simps]: "length (mac1_compute N k m) = 16" "length (mac1_key N a) = 32"
  by (simp_all add: mac1_compute_def mac1_key_def)

lemma mac1_verify_compute [simp]: "mac1_verify N k m (mac1_compute N k m @ r) = 0"
  by (simp add: mac1_verify_def mac1_compute_def ed25519_poly1305_verify_def ed25519_poly1305_def
      crypto_onetimeauth_verify_def)

lemma mac1_verify_iff: "mac1_verify N k m t = 0 \<longleftrightarrow> slice 0 16 t = mac1_compute N k m"
  by (simp add: mac1_verify_def mac1_compute_def ed25519_poly1305_verify_def ed25519_poly1305_def
      crypto_onetimeauth_verify_def)

text \<open>The mac1 key depends on the low 40 bits of the address only, as the field on the wire does.\<close>

lemma mac1_key_take_bit: "mac1_key N (take_bit 40 a) = mac1_key N a"
proof -
  have "ipv69_addr_put (take_bit 40 a) = ipv69_addr_put a"
    by (simp add: ipv69_addr_put_def) (auto intro!: bit_word_eqI simp: bit_simps)
  then show ?thesis by (simp add: mac1_key_def)
qed

end
