(* ===== verification/Addr.thy ===== *)
theory Addr
  imports Crypto
begin

text \<open>
  Addresses and command-line text: \<^verbatim>\<open>hex_decode\<close> of \<^verbatim>\<open>l2.c\<close> and the parsers, printers and
  address functions of \<^verbatim>\<open>c/src/IPv69/parse.c\<close>. A C string is the list of its characters
  before the terminator. \<^verbatim>\<open>strtoul\<close>, \<^verbatim>\<open>atoi\<close> and \<^verbatim>\<open>sscanf("%2x")\<close> are the C library's:
  leading white space and a sign are accepted, an optional \<open>0x\<close> before hex digits, and
  \<^verbatim>\<open>strtoul\<close> saturates at \<^verbatim>\<open>ULONG_MAX\<close> (64 bits, the LP64 targets).
\<close>

section \<open>The C library's number scanners\<close>

definition c_isspace :: "char \<Rightarrow> bool" where
  "c_isspace c \<longleftrightarrow> c \<in> {CHR '' '', CHR 0x09, CHR 0x0A, CHR 0x0B, CHR 0x0C, CHR 0x0D}"

definition digit_val :: "char \<Rightarrow> nat option" where
  "digit_val c =
     (let n = of_char c :: nat in
      if 48 \<le> n \<and> n \<le> 57 then Some (n - 48)
      else if 97 \<le> n \<and> n \<le> 122 then Some (n - 87)
      else if 65 \<le> n \<and> n \<le> 90 then Some (n - 55)
      else None)"

definition is_digit :: "nat \<Rightarrow> char \<Rightarrow> bool" where
  "is_digit base c \<longleftrightarrow> (case digit_val c of None \<Rightarrow> False | Some d \<Rightarrow> d < base)"

fun scan_digits :: "nat \<Rightarrow> nat \<Rightarrow> string \<Rightarrow> nat \<times> string" where
  "scan_digits base acc [] = (acc, [])"
| "scan_digits base acc (c # cs) =
     (if is_digit base c then scan_digits base (acc * base + the (digit_val c)) cs else (acc, c # cs))"

definition scan_sign :: "string \<Rightarrow> bool \<times> string" where
  "scan_sign s = (case s of c # cs \<Rightarrow> if c = CHR ''-'' then (True, cs) else if c = CHR ''+'' then (False, cs) else (False, s)
                  | [] \<Rightarrow> (False, []))"

definition skip_0x :: "string \<Rightarrow> string" where
  "skip_0x s = (case s of a # b # c # r \<Rightarrow> if a = CHR ''0'' \<and> b \<in> {CHR ''x'', CHR ''X''} \<and> is_digit 16 c then c # r else s
                | _ \<Rightarrow> s)"

text \<open>\<open>None\<close> is the \<^verbatim>\<open>end == s\<close> outcome; otherwise the value and the text at \<^verbatim>\<open>end\<close>.\<close>

definition strtoul :: "nat \<Rightarrow> string \<Rightarrow> (u64 \<times> string) option" where
  "strtoul base s =
     (let (neg, t) = scan_sign (dropWhile c_isspace s);
          t = (if base = 16 then skip_0x t else t)
      in case t of
           [] \<Rightarrow> None
         | c # _ \<Rightarrow>
             if \<not> is_digit base c then None
             else let (n, rest) = scan_digits base 0 t;
                      v = (if 2 ^ 64 \<le> n then - 1 else if neg then - of_nat n else of_nat n)
                  in Some (v, rest))"

definition atoi :: "string \<Rightarrow> int" where
  "atoi s =
     (let (neg, t) = scan_sign (dropWhile c_isspace s);
          n = int (fst (scan_digits 10 0 t));
          l = (if neg then max (- (2 ^ 63)) (- n) else min (2 ^ 63 - 1) n)
      in sint (word_of_int l :: u32))"

text \<open>\<^verbatim>\<open>sscanf(s, "%2x", &v)\<close>: white space is skipped for free, then at most two characters
  of an optional sign and digits.\<close>

definition sscanf_2x :: "string \<Rightarrow> u32 option" where
  "sscanf_2x s =
     (let f = take 2 (dropWhile c_isspace s); (neg, t) = scan_sign f
      in case t of
           [] \<Rightarrow> None
         | c # r \<Rightarrow>
             if \<not> is_digit 16 c \<or> (c = CHR ''0'' \<and> r \<in> {[CHR ''x''], [CHR ''X'']}) then None
             else let n = fst (scan_digits 16 0 t) in Some (if neg then - of_nat n else of_nat n))"

section \<open>Hexadecimal keys (l2.c)\<close>

fun hex_decode_from :: "string \<Rightarrow> nat \<Rightarrow> bytes option" where
  "hex_decode_from h 0 = Some []"
| "hex_decode_from h (Suc k) =
     (case sscanf_2x h of
        None \<Rightarrow> None
      | Some v \<Rightarrow> (case hex_decode_from (drop 2 h) k of None \<Rightarrow> None | Some r \<Rightarrow> Some (ucast v # r)))"

definition hex_decode :: "string \<Rightarrow> nat \<Rightarrow> bytes option" where
  "hex_decode h max_len =
     (let hl = length h in
      if hl mod 2 \<noteq> 0 \<or> hl div 2 > max_len then None else hex_decode_from h (hl div 2))"

text \<open>\<^verbatim>\<open>printf("%02x")\<close> of one byte.\<close>

definition hexdig :: "nat \<Rightarrow> char" where
  "hexdig d = ''0123456789abcdef'' ! d"

definition hex2 :: "u8 \<Rightarrow> string" where
  "hex2 b = [hexdig (unat b div 16), hexdig (unat b mod 16)]"

definition pub_str :: "bytes \<Rightarrow> string" where
  "pub_str p = concat (map (\<lambda>i. hex2 (bget p i)) [0..<32])"

lemma hexdig_cases: "(d :: nat) < 16 \<Longrightarrow> d \<in> {0,1,2,3,4,5,6,7,8,9,10,11,12,13,14,15}"
  unfolding insert_iff empty_iff by presburger

lemma digit_hexdig: "d < 16 \<Longrightarrow> digit_val (hexdig d) = Some d"
  by (drule hexdig_cases) (auto simp: digit_val_def hexdig_def)

lemma hexdig_plain: "d < 16 \<Longrightarrow> \<not> c_isspace (hexdig d) \<and> hexdig d \<notin> {CHR ''-'', CHR ''+'', CHR ''x'', CHR ''X'', CHR ''.''}"
  by (drule hexdig_cases) (auto simp: c_isspace_def hexdig_def)

lemma is_digit_hexdig [simp]: "d < 16 \<Longrightarrow> is_digit 16 (hexdig d)"
  by (simp add: is_digit_def digit_hexdig)

lemma unat_byte_digits: "unat (b :: u8) div 16 < 16" "unat b mod 16 < 16"
  using unsigned_less [of b, where ?'a = nat] by simp_all

lemma sscanf_hex2: "sscanf_2x (hex2 b @ r) = Some (ucast b)"
proof -
  let ?h = "unat b div 16" and ?l = "unat b mod 16"
  note d = unat_byte_digits [of b]
  have num: "of_nat (?h * 16 + ?l) = (ucast b :: u32)"
    by simp
  show ?thesis
    using d hexdig_plain [OF d(1)] hexdig_plain [OF d(2)] digit_hexdig [OF d(1)] digit_hexdig [OF d(2)] num
    by (simp add: sscanf_2x_def hex2_def scan_sign_def Let_def)
qed

lemma hex_decode_from_hex2:
  "hex_decode_from (concat (map hex2 bs) @ r) (length bs) = Some bs"
proof (induction bs)
  case (Cons b bs)
  have "drop 2 (concat (map hex2 (b # bs)) @ r) = concat (map hex2 bs) @ r"
    by (simp add: hex2_def)
  with Cons sscanf_hex2 [of b "concat (map hex2 bs) @ r"] show ?case by simp
qed simp

lemma length_concat_hex2 [simp]: "length (concat (map hex2 bs)) = 2 * length bs"
  by (induction bs) (simp_all add: hex2_def)

text \<open>Printing a 32-byte public key in hexadecimal (\<open>pub_str\<close>, the form of the key files
  and peer lists) and decoding it again gives the key back.\<close>

theorem pub_str_roundtrip: "hex_decode (pub_str p) 32 = Some (slice 0 32 p)"
proof -
  have "pub_str p = concat (map hex2 (slice 0 32 p)) @ []"
    by (simp add: pub_str_def slice_def map_map comp_def)
  then show ?thesis
    using hex_decode_from_hex2 [of "slice 0 32 p" "[]"] by (simp add: hex_decode_def)
qed

section \<open>Addresses (parse.c)\<close>

text \<open>The five octets of \<open>ff.ff.ff.ff.ff\<close>; \<open>k\<close> octets are still to come.\<close>

fun parse_octets :: "nat \<Rightarrow> u64 \<Rightarrow> string \<Rightarrow> u64 option" where
  "parse_octets 0 v s = Some v"
| "parse_octets (Suc k) v s =
     (case strtoul 16 s of
        None \<Rightarrow> None
      | Some (oct, e) \<Rightarrow>
          if 0xff < oct then None
          else if 0 < k \<and> (e = [] \<or> hd e \<noteq> CHR ''.'') then None
          else if k = 0 \<and> e \<noteq> [] then None
          else parse_octets k (push_bit 8 v OR oct) (tl e))"

definition parse_ipv69_addr :: "string \<Rightarrow> u64 option" where
  "parse_ipv69_addr s =
     (if CHR ''.'' \<in> set s then parse_octets 5 0 s
      else case strtoul 16 s of
             None \<Rightarrow> None
           | Some (v, e) \<Rightarrow> if e \<noteq> [] then None else Some v)"

text \<open>\<^verbatim>\<open>strrchr(s, ':')\<close>: the text before and after the last colon.\<close>

fun split_last_colon :: "string \<Rightarrow> (string \<times> string) option" where
  "split_last_colon [] = None"
| "split_last_colon (c # cs) =
     (case split_last_colon cs of
        Some (a, b) \<Rightarrow> Some (c # a, b)
      | None \<Rightarrow> if c = CHR '':'' then Some ([], cs) else None)"

definition parse_ipv69_addr_port :: "string \<Rightarrow> (u64 \<times> u16) option" where
  "parse_ipv69_addr_port s =
     (case split_last_colon s of
        Some (a, p) \<Rightarrow>
          if length a \<ge> 64 then None
          else (case parse_ipv69_addr a of
                  None \<Rightarrow> None
                | Some addr \<Rightarrow>
                    (case strtoul 10 p of
                       None \<Rightarrow> None
                     | Some (v, e) \<Rightarrow> if e \<noteq> [] \<or> 0xffff < v then None else Some (addr, ucast v)))
      | None \<Rightarrow> (case parse_ipv69_addr s of None \<Rightarrow> None | Some addr \<Rightarrow> Some (addr, 0)))"

definition parse_looks_like_addr :: "string \<Rightarrow> bool" where
  "parse_looks_like_addr s =
     (if s \<noteq> [] \<and> hd s = CHR '':'' then True
      else if parse_ipv69_addr_port s \<noteq> None then True
      else if \<exists>c \<in> set s. \<not> is_digit 16 c then False
      else s \<noteq> [])"

definition parse_insert_auto_ifname :: "string list \<Rightarrow> string list" where
  "parse_insert_auto_ifname argv =
     (if length argv < 3 \<or> \<not> parse_looks_like_addr (argv ! 2) then argv
      else [argv ! 0, argv ! 1, ''auto''] @ drop 2 argv)"

text \<open>The scan over \<^verbatim>\<open>argv[from..]\<close>; the second component is the last key file selected,
  the value \<^verbatim>\<open>IPV69_KEYFILE\<close> is left with.\<close>

fun strip_keyfile_scan :: "string list \<Rightarrow> string option \<Rightarrow> string list \<times> string option" where
  "strip_keyfile_scan (a # b # r) kf =
     (if a = ''--key-file'' then strip_keyfile_scan r (Some b)
      else (let (r', kf') = strip_keyfile_scan (b # r) kf in (a # r', kf')))"
| "strip_keyfile_scan r kf = (r, kf)"

definition parse_strip_keyfile :: "string list \<Rightarrow> nat \<Rightarrow> string list \<times> string option" where
  "parse_strip_keyfile argv frm =
     (let (r, kf) = strip_keyfile_scan (drop frm argv) None in (take frm argv @ r, kf))"

definition ipv69_addr_derive :: "nacl \<Rightarrow> bytes \<Rightarrow> char \<Rightarrow> bytes" where
  "ipv69_addr_derive N pub cls =
     (let d = ed25519_sha512 N (slice 0 32 pub);
          b = (if cls = CHR ''A'' then 0x00 OR (bget d 0 AND 0x3f)
               else if cls = CHR ''B'' then 0x40 OR (bget d 0 AND 0x3f)
               else if cls = CHR ''D'' then 0xc0 OR (bget d 0 AND 0x1f)
               else if cls = CHR ''E'' then 0xe0 OR (bget d 0 AND 0x1f)
               else 0x80 OR (bget d 0 AND 0x3f))
      in b # slice 1 4 d)"

definition ipv69_addr_class :: "u64 \<Rightarrow> char" where
  "ipv69_addr_class addr =
     (let b = ucast (drop_bit 32 addr) :: u8 in
      if b AND 0xc0 = 0x00 then CHR ''A''
      else if b AND 0xc0 = 0x40 then CHR ''B''
      else if b AND 0xc0 = 0x80 then CHR ''C''
      else if b AND 0xe0 = 0xc0 then CHR ''D''
      else CHR ''E'')"

text \<open>\<^verbatim>\<open>PUBHEX[/prefix]\<close>: public key, derived base address and prefix.\<close>

definition ipv69_addr_parse_peer :: "nacl \<Rightarrow> string \<Rightarrow> (bytes \<times> u64 \<times> int) option" where
  "ipv69_addr_parse_peer N s =
     (let buf = take 79 s;
          hex = takeWhile (\<lambda>c. c \<noteq> CHR ''/'') buf;
          rest = dropWhile (\<lambda>c. c \<noteq> CHR ''/'') buf;
          prefix = (if rest = [] then 40 else atoi (tl rest))
      in if rest \<noteq> [] \<and> (prefix < 8 \<or> 40 < prefix) then None
         else case hex_decode hex 32 of
                None \<Rightarrow> None
              | Some pub \<Rightarrow>
                  if length pub \<noteq> 32 then None
                  else Some (pub, ipv69_addr_get (ipv69_addr_derive N pub CHR ''C''), prefix))"

definition ipv69_addr_in_range :: "u64 \<Rightarrow> u64 \<Rightarrow> nat \<Rightarrow> bool" where
  "ipv69_addr_in_range addr base prefix \<longleftrightarrow> drop_bit (40 - prefix) (addr XOR base) = 0"

subsection \<open>Printing\<close>

definition printable :: "u8 \<Rightarrow> char" where
  "printable c = (if 0x20 \<le> c \<and> c \<le> 0x7e then char_of (unat c) else CHR ''.'')"

definition addr_text :: "bytes \<Rightarrow> string" where
  "addr_text b = hex2 (bget b 0) @ ''.'' @ hex2 (bget b 1) @ ''.'' @ hex2 (bget b 2) @ ''.'' @
     hex2 (bget b 3) @ ''.'' @ hex2 (bget b 4)"

text \<open>The field table of \<^verbatim>\<open>print_ipv69_fields\<close>: name, offset, width.\<close>

definition fields :: "(string \<times> nat \<times> nat) list" where
  "fields = [(''ver_traffic'', 0, 1), (''dscp_ecn'', 1, 1), (''payload_len'', 2, 2), (''flow_id'', 4, 2),
     (''next_header'', 6, 1), (''hop_limit'', 7, 1), (''flags'', 8, 1), (''src_port'', 10, 2),
     (''dst_port'', 12, 2), (''sequence'', 14, 4), (''source'', 18, 5), (''dest'', 25, 5)]"

definition field_text :: "bytes \<Rightarrow> string \<times> nat \<times> nat \<Rightarrow> string" where
  "field_text base f = (case f of (nm, off, nbytes) \<Rightarrow>
     nm @ '' = '' @ (if nbytes = 5 then addr_text (drop off base) else concat (map hex2 (slice off nbytes base))) @ [CHR 0x0A])"

definition print_ipv69_fields :: "bytes \<Rightarrow> string" where
  "print_ipv69_fields base = concat (map (field_text base) fields)"

section \<open>Round trip, classes and ranges\<close>

lemma strtoul_hex2:
  assumes "r = [] \<or> hd r = CHR ''.''"
  shows "strtoul 16 (hex2 b @ r) = Some (ucast b, r)"
proof -
  let ?h = "unat b div 16" and ?l = "unat b mod 16"
  note d = unat_byte_digits [of b]
  have dot: "\<not> is_digit 16 CHR ''.''" by (simp add: is_digit_def digit_val_def)
  have stop: "scan_digits 16 n r = (n, r)" for n
    using assms dot by (cases r) auto
  have small: "unat b < 2 ^ 64" using unsigned_less [of b, where ?'a = nat] by simp
  show ?thesis
    using d hexdig_plain [OF d(1)] hexdig_plain [OF d(2)] digit_hexdig [OF d(1)] digit_hexdig [OF d(2)] stop small
    by (cases r) (auto simp: strtoul_def hex2_def scan_sign_def skip_0x_def Let_def split: list.splits)
qed

lemma parse_octets_dot:
  "parse_octets (Suc (Suc k)) v (hex2 b @ CHR ''.'' # s) = parse_octets (Suc k) (push_bit 8 v OR ucast b) s"
proof -
  have "\<not> 0xff < (ucast b :: u64)"
    using unsigned_less [of b, where ?'a = nat] by (simp add: word_less_nat_alt unat_ucast_up)
  then show ?thesis by (simp add: strtoul_hex2)
qed

lemma parse_octets_last: "parse_octets (Suc 0) v (hex2 b) = Some (push_bit 8 v OR ucast b)"
proof -
  have "\<not> 0xff < (ucast b :: u64)"
    using unsigned_less [of b, where ?'a = nat] by (simp add: word_less_nat_alt unat_ucast_up)
  then show ?thesis using strtoul_hex2 [of "[]" b] by simp
qed

lemma addr_get_horner:
  "ipv69_addr_get b =
     push_bit 8 (push_bit 8 (push_bit 8 (push_bit 8 (push_bit 8 0 OR ucast (bget b 0)) OR ucast (bget b 1))
       OR ucast (bget b 2)) OR ucast (bget b 3)) OR ucast (bget b 4)"
  by (simp add: ipv69_addr_get_def push_bit_or or.assoc)

text \<open>The dotted text that \<open>print_ipv69_fields\<close> prints for an address field parses back to
  the 40-bit address the field holds.\<close>

theorem addr_text_roundtrip: "parse_ipv69_addr (addr_text b) = Some (ipv69_addr_get b)"
proof -
  have dot: "CHR ''.'' \<in> set (addr_text b)" by (simp add: addr_text_def)
  have five: "(5 :: nat) = Suc (Suc (Suc (Suc (Suc 0))))" by simp
  show ?thesis
    unfolding parse_ipv69_addr_def if_P [OF dot] addr_get_horner
    by (simp only: five addr_text_def append_Cons append_Nil append_assoc
        parse_octets_dot parse_octets_last)
qed

lemma parse_octets_bound:
  "parse_octets k v s = Some a \<Longrightarrow> take_bit (40 - 8 * k) v = v \<Longrightarrow> k \<le> 5 \<Longrightarrow> take_bit 40 a = a"
proof (induction k v s rule: parse_octets.induct)
  case (2 k v s)
  then obtain oct e where o: "strtoul 16 s = Some (oct, e)" "\<not> 0xff < oct"
    "parse_octets k (push_bit 8 v OR oct) (tl e) = Some a"
    by (auto split: option.splits if_splits)
  have "take_bit 8 oct = oct"
  proof (rule bit_word_eqI)
    fix n assume n: "n < LENGTH(64)"
    have "unat oct < 2 ^ 8" using o(2) by (simp add: not_less word_le_nat_alt)
    then have "take_bit 8 (unat oct) = unat oct" by (simp add: take_bit_nat_eq_self)
    then have "bit (unat oct) n \<Longrightarrow> n < 8" by (metis bit_take_bit_iff)
    then show "bit (take_bit 8 oct) n = bit oct n"
      by (auto simp: bit_take_bit_iff bit_unsigned_iff)
  qed
  moreover have "take_bit (40 - 8 * k) (push_bit 8 v) = push_bit 8 v"
  proof -
    have "40 - 8 * k - 8 = 40 - 8 * Suc k" "8 \<le> 40 - 8 * k" using "2.prems"(3) by simp_all
    then show ?thesis using "2.prems"(2) by (simp add: take_bit_push_bit)
  qed
  moreover have "take_bit (40 - 8 * k) oct = oct"
  proof -
    have "min (40 - 8 * k) 8 = 8" using "2.prems"(3) by simp
    then have "take_bit (40 - 8 * k) (take_bit 8 oct) = take_bit 8 oct"
      by (simp only: take_bit_take_bit)
    then show ?thesis using calculation(1) by simp
  qed
  ultimately have "take_bit (40 - 8 * k) (push_bit 8 v OR oct) = push_bit 8 v OR oct"
    by (simp add: take_bit_or)
  then show ?case using "2.IH" [OF o(1) refl] o "2.prems" by (auto split: if_splits)
qed simp

text \<open>A dotted address always fits the 40 bits of the header field; the raw form does not.\<close>

lemma parse_dotted_40:
  "CHR ''.'' \<in> set s \<Longrightarrow> parse_ipv69_addr s = Some a \<Longrightarrow> take_bit 40 a = a"
  using parse_octets_bound [of 5 0 s a] by (simp add: parse_ipv69_addr_def)

lemma parse_raw_overflow: "parse_ipv69_addr ''10000000001'' = Some 0x10000000001"
  by (simp add: parse_ipv69_addr_def strtoul_def scan_sign_def skip_0x_def is_digit_def digit_val_def
      c_isspace_def Let_def)

lemma derive_len [simp, len_simps]: "length (ipv69_addr_derive N pub c) = 5"
  by (simp add: ipv69_addr_derive_def Let_def)

lemma addr_get_top: "ucast (drop_bit 32 (ipv69_addr_get b)) = bget b 0"
proof (rule bit_word_eqI)
  fix n assume "n < LENGTH(8)"
  then show "bit (ucast (drop_bit 32 (ipv69_addr_get b)) :: u8) n = bit (bget b 0) n"
    by (auto simp: ipv69_addr_get_def bit_simps dest: bit_imp_le_length)
qed

lemma class_bits:
  fixes x :: u8
  shows "(x AND 0x3f) AND 0xc0 = 0" "(0x40 OR (x AND 0x3f)) AND 0xc0 = 0x40"
    "(0x80 OR (x AND 0x3f)) AND 0xc0 = 0x80" "(0xc0 OR (x AND 0x1f)) AND 0xe0 = 0xc0"
    "(0xe0 OR (x AND 0x1f)) AND 0xe0 = 0xe0" "(0xc0 OR (x AND 0x1f)) AND 0xc0 = 0xc0"
    "(0xe0 OR (x AND 0x1f)) AND 0xc0 = 0xc0"
  by (simp_all add: bit.conj_disj_distrib2 and.assoc)

text \<open>The address derived from a public key for class A, B, C, D or E is an address of that
  class, fits 40 bits, and is the same every time.\<close>

theorem derive_class:
  assumes "c \<in> {CHR ''A'', CHR ''B'', CHR ''C'', CHR ''D'', CHR ''E''}"
  shows "ipv69_addr_class (ipv69_addr_get (ipv69_addr_derive N pub c)) = c \<and>
    take_bit 40 (ipv69_addr_get (ipv69_addr_derive N pub c)) = ipv69_addr_get (ipv69_addr_derive N pub c)"
  using assms unfolding ipv69_addr_class_def addr_get_top addr_get_lt
  by (auto simp: ipv69_addr_derive_def Let_def class_bits)

theorem derive_class_witness:
  "ipv69_addr_class (ipv69_addr_get (ipv69_addr_derive toy_nacl (zeros 32) CHR ''C'')) = CHR ''C''"
  using derive_class [of "CHR ''C''" toy_nacl "zeros 32"] by simp

lemma in_range_iff:
  "ipv69_addr_in_range a b p \<longleftrightarrow> (\<forall>n \<ge> 40 - p. bit a n \<longleftrightarrow> bit b n)"
proof
  assume "ipv69_addr_in_range a b p"
  then have z: "drop_bit (40 - p) (a XOR b) = 0" by (simp add: ipv69_addr_in_range_def)
  show "\<forall>n \<ge> 40 - p. bit a n \<longleftrightarrow> bit b n"
  proof (intro allI impI)
    fix n assume n: "40 - p \<le> n"
    have "bit (drop_bit (40 - p) (a XOR b)) (n - (40 - p)) = False" by (simp only: z) simp
    then show "bit a n \<longleftrightarrow> bit b n" using n by (simp add: bit_drop_bit_eq bit_xor_iff)
  qed
next
  assume r: "\<forall>n \<ge> 40 - p. bit a n \<longleftrightarrow> bit b n"
  have "drop_bit (40 - p) (a XOR b) = 0"
    by (rule bit_word_eqI) (simp add: bit_drop_bit_eq bit_xor_iff r)
  then show "ipv69_addr_in_range a b p" by (simp add: ipv69_addr_in_range_def)
qed

lemma in_range_40: "ipv69_addr_in_range a b 40 \<longleftrightarrow> a = b"
proof
  assume "ipv69_addr_in_range a b 40"
  then have "a XOR b = 0" by (simp add: ipv69_addr_in_range_def)
  then have "(a XOR b) XOR b = b" by simp
  then show "a = b" by (simp add: xor.assoc)
qed (simp add: ipv69_addr_in_range_def)

text \<open>An allowed-IPs range is the set of addresses that agree with its base on every bit
  from \<open>40 - prefix\<close> up: prefix 40 admits the base alone, a shorter prefix admits more,
  and two ranges of one prefix coincide or are disjoint.\<close>

theorem in_range_partition:
  "(ipv69_addr_in_range a b p \<longleftrightarrow> (\<forall>n \<ge> 40 - p. bit a n = bit b n)) \<and>
   (ipv69_addr_in_range a b 40 \<longleftrightarrow> a = b) \<and>
   (ipv69_addr_in_range a b (p + q) \<longrightarrow> ipv69_addr_in_range a b p) \<and>
   (ipv69_addr_in_range a b p \<and> ipv69_addr_in_range a c p \<longrightarrow>
      (\<forall>x. ipv69_addr_in_range x b p = ipv69_addr_in_range x c p))"
  by (intro conjI impI allI) (simp_all add: in_range_40, auto simp: in_range_iff)

theorem in_range_partition_witness:
  "ipv69_addr_in_range 0x8000000012 0x8000000010 32 \<and> \<not> ipv69_addr_in_range 0x8000000012 0x8000000010 40"
  using in_range_partition [of "0x8000000012" "0x8000000010" 32 0 "0x8000000010"]
  by (simp add: ipv69_addr_in_range_def)

lemma insert_auto_ifname_len:
  "length (parse_insert_auto_ifname argv) \<in> {length argv, Suc (length argv)}"
  by (auto simp: parse_insert_auto_ifname_def)

lemma strip_keyfile_scan_clean:
  "strip_keyfile_scan a kf = (r, kf') \<Longrightarrow> i + 1 < length r \<Longrightarrow> r ! i \<noteq> ''--key-file''"
proof (induction a kf arbitrary: r i kf' rule: strip_keyfile_scan.induct)
  case (1 a b rest kf)
  show ?case
  proof (cases "a = ''--key-file''")
    case True
    with 1 show ?thesis by simp
  next
    case False
    with 1 show ?thesis by (cases i) (auto split: prod.splits)
  qed
qed auto

end
