(* ===== verification/Icsp.thy ===== *)
theory Icsp
  imports Addr
begin

text \<open>
  The ICSP core: the association structure of \<^verbatim>\<open>c/include/ICSP/icsp.h\<close> and the packet
  layer of \<^verbatim>\<open>c/src/ICSP/icsp.c\<close> (CRC32c, chunk headers, packet building and checking, the
  send path, the key derivation). The fixed arrays of the structure are lists of the
  declared length; the message buffers inside the queues keep the bytes they hold.
\<close>

section \<open>CRC32c\<close>

text \<open>One entry of the table: eight steps of the reflected polynomial division.\<close>

definition crc_step :: "u32 \<Rightarrow> u32" where
  "crc_step c = (if c AND 1 \<noteq> 0 then 0x82F63B78 XOR drop_bit 1 c else drop_bit 1 c)"

definition crc_table :: "u32 \<Rightarrow> u32" where
  "crc_table i = (crc_step ^^ 8) i"

definition icsp_crc32c :: "bytes \<Rightarrow> u32" where
  "icsp_crc32c data =
     fold (\<lambda>b c. crc_table ((c XOR ucast b) AND 0xff) XOR drop_bit 8 c) data 0xFFFFFFFF XOR 0xFFFFFFFF"

text \<open>The specification: the message bit by bit, with no table.\<close>

definition crc32c_bitwise :: "bytes \<Rightarrow> u32" where
  "crc32c_bitwise data = fold (\<lambda>b c. (crc_step ^^ 8) (c XOR ucast b)) data 0xFFFFFFFF XOR 0xFFFFFFFF"

lemma and_one_bit: "x AND 1 \<noteq> (0 :: u32) \<longleftrightarrow> bit x 0"
  by (simp add: and_one_eq bit_0 odd_iff_mod_2_eq_one)

lemma crc_step_bit: "crc_step c = (if bit c 0 then 0x82F63B78 else 0) XOR drop_bit 1 c"
  by (simp add: crc_step_def and_one_bit)

lemma crc_step_xor: "crc_step (x XOR y) = crc_step x XOR crc_step y"
proof -
  have "drop_bit 1 (x XOR y) = drop_bit 1 x XOR drop_bit 1 y"
    by (rule bit_word_eqI) (simp add: bit_simps)
  then show ?thesis
    by (cases "bit x 0"; cases "bit y 0") (simp_all add: crc_step_bit bit_xor_iff xor.assoc xor.left_commute)
qed

lemma crc_steps_xor: "(crc_step ^^ n) (x XOR y) = (crc_step ^^ n) x XOR (crc_step ^^ n) y"
  by (induction n) (simp_all add: crc_step_xor)

lemma crc_steps_shift: "take_bit n y = 0 \<Longrightarrow> (crc_step ^^ n) y = drop_bit n y"
proof (induction n arbitrary: y)
  case (Suc n)
  have low: "\<not> bit y i" if "i < Suc n" for i
  proof -
    have "bit (take_bit (Suc n) y) i = bit y i" using that by (simp add: bit_take_bit_iff)
    with Suc.prems show ?thesis by simp
  qed
  have "take_bit n (drop_bit 1 y) = 0"
    by (rule bit_word_eqI) (auto simp: bit_simps low)
  then have "(crc_step ^^ n) (drop_bit 1 y) = drop_bit n (drop_bit 1 y)" by (rule Suc.IH)
  moreover have "crc_step y = drop_bit 1 y" using low [of 0] by (simp add: crc_step_bit)
  ultimately show ?case by (simp add: funpow_swap1 drop_bit_drop_bit del: funpow.simps add: funpow_Suc_right)
qed simp

lemma crc_table_step: "(crc_step ^^ 8) x = crc_table (x AND 0xff) XOR drop_bit 8 x"
proof -
  have ff: "(0xff :: u32) = mask 8" by (simp add: mask_eq_exp_minus_1)
  define y where "y = x AND NOT (mask 8)"
  have x: "x = (x AND mask 8) XOR y"
    by (rule bit_word_eqI) (auto simp: y_def bit_simps)
  have "take_bit 8 y = 0"
    by (rule bit_word_eqI) (auto simp: y_def bit_simps)
  then have y1: "(crc_step ^^ 8) y = drop_bit 8 y" by (rule crc_steps_shift)
  have y2: "drop_bit 8 y = drop_bit 8 x"
    by (rule bit_word_eqI) (auto simp: y_def bit_simps dest: bit_imp_le_length)
  have "(crc_step ^^ 8) x = (crc_step ^^ 8) (x AND mask 8) XOR (crc_step ^^ 8) y"
    by (subst x) (rule crc_steps_xor)
  also have "\<dots> = crc_table (x AND 0xff) XOR drop_bit 8 x"
    by (simp only: y1 y2 ff crc_table_def)
  finally show ?thesis .
qed

text \<open>C35: The table-driven CRC32c computes the bitwise CRC of the Castagnoli polynomial on every
  message.\<close>

theorem crc32c_table_correct: "icsp_crc32c data = crc32c_bitwise data"
proof -
  have "drop_bit 8 (c XOR ucast (b :: u8)) = drop_bit 8 (c :: u32)" for c b
    by (rule bit_word_eqI) (auto simp: bit_simps dest: bit_imp_le_length)
  then show ?thesis
    by (simp add: icsp_crc32c_def crc32c_bitwise_def crc_table_step)
qed

section \<open>Chunk types, states, the association\<close>

abbreviation (input) ICSP_VERSION :: u8 where "ICSP_VERSION \<equiv> 1"
abbreviation (input) ICSP_HEADER_LEN :: nat where "ICSP_HEADER_LEN \<equiv> 12"
abbreviation (input) ICSP_CHUNK_HDR :: nat where "ICSP_CHUNK_HDR \<equiv> 4"
abbreviation (input) ICSP_MAX_PAYLOAD :: nat where "ICSP_MAX_PAYLOAD \<equiv> 1400"
abbreviation (input) ICSP_MAX_STREAMS :: nat where "ICSP_MAX_STREAMS \<equiv> 8"
abbreviation (input) ICSP_SENDQ :: nat where "ICSP_SENDQ \<equiv> 16"
abbreviation (input) ICSP_RCVQ :: nat where "ICSP_RCVQ \<equiv> 16"

abbreviation (input) ICSP_CHUNK_DATA :: u8 where "ICSP_CHUNK_DATA \<equiv> 0"
abbreviation (input) ICSP_CHUNK_INIT :: u8 where "ICSP_CHUNK_INIT \<equiv> 1"
abbreviation (input) ICSP_CHUNK_INIT_ACK :: u8 where "ICSP_CHUNK_INIT_ACK \<equiv> 2"
abbreviation (input) ICSP_CHUNK_COOKIE_ECHO :: u8 where "ICSP_CHUNK_COOKIE_ECHO \<equiv> 3"
abbreviation (input) ICSP_CHUNK_COOKIE_ACK :: u8 where "ICSP_CHUNK_COOKIE_ACK \<equiv> 4"
abbreviation (input) ICSP_CHUNK_SACK :: u8 where "ICSP_CHUNK_SACK \<equiv> 5"
abbreviation (input) ICSP_CHUNK_HEARTBEAT :: u8 where "ICSP_CHUNK_HEARTBEAT \<equiv> 6"
abbreviation (input) ICSP_CHUNK_HEARTBEAT_ACK :: u8 where "ICSP_CHUNK_HEARTBEAT_ACK \<equiv> 7"
abbreviation (input) ICSP_CHUNK_SHUTDOWN :: u8 where "ICSP_CHUNK_SHUTDOWN \<equiv> 8"
abbreviation (input) ICSP_CHUNK_STREAM_RESET :: u8 where "ICSP_CHUNK_STREAM_RESET \<equiv> 9"

datatype icsp_st = ST_CLOSED | ST_COOKIE_WAIT | ST_ESTABLISHED | ST_SHUTDOWN
  | ST_REKEY_WAIT_ACK | ST_REKEY_WAIT_COOKIE | ST_REKEY_WAIT_COOKIE_ACK

record icsp_stream =
  st_id :: u16
  st_next_send_seq :: u16
  st_next_recv_seq :: u16

record sendq_entry =
  sq_tsn :: u32
  sq_stream_id :: u16
  sq_seq :: u16
  sq_data :: bytes
  sq_len :: u16
  sq_acked :: bool
  sq_sent_at :: int

record rcvq_entry =
  rq_tsn :: u32
  rq_stream_id :: u16
  rq_seq :: u16
  rq_data :: bytes
  rq_len :: u16
  rq_valid :: bool

record icsp_assoc =
  a_src_port :: u16
  a_dst_port :: u16
  a_assoc_id :: u32
  a_state :: icsp_st
  a_id_pub :: bytes
  a_eph_pub :: bytes
  a_peer_id :: bytes
  a_peer_eph :: bytes
  a_eph_priv :: bytes
  a_sk :: bytes
  a_send_key :: bytes
  a_recv_key :: bytes
  a_has_key :: bool
  a_is_initiator :: bool
  a_key_ts :: int
  a_rekey_interval_s :: int
  a_last_init_ts :: u64
  a_streams_in :: u16
  a_streams_out :: u16
  a_peer_mac :: bytes
  a_has_peer_mac :: bool
  a_n_streams :: nat
  a_streams :: "icsp_stream list"
  a_next_tsn :: u32
  a_cum_tsn :: u32
  a_rw_tsn :: u32
  a_rw_mask :: u32
  a_sendq :: "sendq_entry list"
  a_n_sendq :: nat
  a_rcvq :: "rcvq_entry list"
  a_n_rcvq :: nat
  a_fd :: int
  a_ifindex :: int
  a_src_mac :: bytes
  a_dst_addr :: u64
  a_src_addr :: u64
  a_rcv_timeout_ms :: int
  a_tfd :: int
  a_gw :: bytes
  a_tunnel :: bool
  a_hb_interval_s :: int
  a_dead_timeout_s :: int
  a_sack_loss_pct :: int
  a_last_rx :: int
  a_last_hb :: int
  a_announce_s :: int
  a_last_ann :: int

text \<open>The zeroed structure (\<^verbatim>\<open>memset(a, 0, sizeof *a)\<close>) and its zeroed array entries.\<close>

definition stream0 :: icsp_stream where
  "stream0 = \<lparr>st_id = 0, st_next_send_seq = 0, st_next_recv_seq = 0\<rparr>"

definition sendq0 :: sendq_entry where
  "sendq0 = \<lparr>sq_tsn = 0, sq_stream_id = 0, sq_seq = 0, sq_data = zeros ICSP_MAX_PAYLOAD, sq_len = 0,
     sq_acked = False, sq_sent_at = 0\<rparr>"

definition rcvq0 :: rcvq_entry where
  "rcvq0 = \<lparr>rq_tsn = 0, rq_stream_id = 0, rq_seq = 0, rq_data = zeros ICSP_MAX_PAYLOAD, rq_len = 0,
     rq_valid = False\<rparr>"

definition assoc0 :: icsp_assoc where
  "assoc0 = \<lparr>a_src_port = 0, a_dst_port = 0, a_assoc_id = 0, a_state = ST_CLOSED,
     a_id_pub = zeros 32, a_eph_pub = zeros 32, a_peer_id = zeros 32, a_peer_eph = zeros 32,
     a_eph_priv = zeros 32, a_sk = zeros 64, a_send_key = zeros 32, a_recv_key = zeros 32,
     a_has_key = False, a_is_initiator = False, a_key_ts = 0, a_rekey_interval_s = 0,
     a_last_init_ts = 0, a_streams_in = 0, a_streams_out = 0, a_peer_mac = zeros 6,
     a_has_peer_mac = False, a_n_streams = 0, a_streams = replicate ICSP_MAX_STREAMS stream0,
     a_next_tsn = 0, a_cum_tsn = 0, a_rw_tsn = 0, a_rw_mask = 0,
     a_sendq = replicate ICSP_SENDQ sendq0, a_n_sendq = 0,
     a_rcvq = replicate ICSP_RCVQ rcvq0, a_n_rcvq = 0,
     a_fd = 0, a_ifindex = 0, a_src_mac = zeros 6, a_dst_addr = 0, a_src_addr = 0,
     a_rcv_timeout_ms = 0, a_tfd = 0, a_gw = [], a_tunnel = False, a_hb_interval_s = 0,
     a_dead_timeout_s = 0, a_sack_loss_pct = 0, a_last_rx = 0, a_last_hb = 0, a_announce_s = 0,
     a_last_ann = 0\<rparr>"

text \<open>The structural invariant of the fixed arrays and buffers.\<close>

definition assoc_wf :: "icsp_assoc \<Rightarrow> bool" where
  "assoc_wf a \<longleftrightarrow> length (a_streams a) = ICSP_MAX_STREAMS \<and> a_n_streams a \<le> ICSP_MAX_STREAMS \<and>
     length (a_sendq a) = ICSP_SENDQ \<and> a_n_sendq a \<le> ICSP_SENDQ \<and>
     length (a_rcvq a) = ICSP_RCVQ \<and> a_n_rcvq a \<le> ICSP_RCVQ \<and>
     length (a_peer_mac a) = 6 \<and> length (a_src_mac a) = 6 \<and>
     length (a_send_key a) = 32 \<and> length (a_recv_key a) = 32 \<and>
     length (a_id_pub a) = 32 \<and> length (a_peer_id a) = 32 \<and> length (a_eph_pub a) = 32 \<and>
     length (a_peer_eph a) = 32 \<and> length (a_eph_priv a) = 32 \<and> length (a_sk a) = 64"

lemma assoc_wf_assoc0 [simp, inv_intros]: "assoc_wf assoc0"
  by (simp add: assoc_wf_def assoc0_def)

section \<open>Chunks and packets\<close>

definition icsp_chunk_len :: "bytes \<Rightarrow> nat" where
  "icsp_chunk_len chunk = ICSP_CHUNK_HDR + unat (ipv69_get_be16 (drop 2 chunk))"

definition icsp_chunk_next :: "bytes \<Rightarrow> bytes" where
  "icsp_chunk_next chunk = drop (icsp_chunk_len chunk) chunk"

text \<open>The four header bytes; the caller writes \<open>datalen\<close> bytes behind them.\<close>

definition icsp_chunk_put :: "u8 \<Rightarrow> nat \<Rightarrow> bytes" where
  "icsp_chunk_put ty datalen = [ty, 0, of_nat (datalen div 256), of_nat datalen]"

text \<open>\<open>None\<close> is the 0 result (the buffer is too small).\<close>

definition icsp_build_pkt :: "icsp_assoc \<Rightarrow> bytes \<Rightarrow> nat \<Rightarrow> bytes option" where
  "icsp_build_pkt a chunk outlen =
     (if outlen < ICSP_HEADER_LEN + length chunk then None
      else let hd10 = ipv69_put_be16 (a_src_port a) @ ipv69_put_be16 (a_dst_port a) @
                      [ICSP_VERSION, 0] @ ipv69_put_be32 (a_assoc_id a);
               crc = ucast (icsp_crc32c (hd10 @ [0, 0] @ chunk)) :: u16
           in Some (hd10 @ ipv69_put_be16 crc @ chunk))"

text \<open>The packet is the first \<open>len\<close> bytes at the pointer.\<close>

definition icsp_check_pkt :: "bytes \<Rightarrow> nat \<Rightarrow> int" where
  "icsp_check_pkt pkt len =
     (if len < ICSP_HEADER_LEN \<or> ICSP_MAX_PAYLOAD < len then -1
      else let buf = slice 0 len pkt;
               stored = ipv69_get_be16 (drop 10 buf);
               zeroed = take 10 buf @ [0, 0] @ drop 12 buf;
               got = ucast (icsp_crc32c zeroed) :: u16
           in if stored = got then 0 else -1)"

definition icsp_send_pkt :: "icsp_assoc \<Rightarrow> bytes \<Rightarrow> world \<Rightarrow> int \<times> world" where
  "icsp_send_pkt a chunk w =
     (case icsp_build_pkt a chunk ICSP_MAX_PAYLOAD of
        None \<Rightarrow> (-1, w)
      | Some pkt \<Rightarrow>
          let dmac = (if a_has_peer_mac a then a_peer_mac a else bcast_mac);
              frame = build_frame dmac (a_src_mac a) (a_src_addr a) (a_dst_addr a)
                        IPV69_NEXT_STREAM 64 0 0 pkt
          in if a_tunnel a then transmit (Udp (a_gw a) frame) w
             else l2_send dmac frame w)"

text \<open>\<^verbatim>\<open>crypto_scalarmult\<close> always returns 0, so the error branch cannot be taken.\<close>

definition icsp_derive_key :: "nacl \<Rightarrow> icsp_assoc \<Rightarrow> bytes \<Rightarrow> world \<Rightarrow> icsp_assoc" where
  "icsp_derive_key N a eph_priv w =
     (let shared = ed25519_scalarmult N eph_priv (a_peer_eph a);
          prk = ed25519_hmac_sha512 N shared (ascii ''icsp-v1'');
          new_send = slice 0 32 (ed25519_hmac_sha512 N (ascii ''icsp-send'' @ [1]) prk);
          new_recv = slice 0 32 (ed25519_hmac_sha512 N (ascii ''icsp-recv'' @ [1]) prk);
          (s, r) = (if a_is_initiator a then (new_send, new_recv) else (new_recv, new_send))
      in a\<lparr>a_send_key := s, a_recv_key := r, a_has_key := True, a_key_ts := w_time w\<rparr>)"

section \<open>Packets\<close>

lemma ucast_of_nat_u16_u8: "(ucast (of_nat n :: u16) :: u8) = of_nat n"
  by (rule bit_word_eqI) (auto simp: bit_simps)

lemma len_bytes_be16: "n < 65536 \<Longrightarrow> [of_nat (n div 256), of_nat n] = ipv69_put_be16 (of_nat n)"
proof -
  assume n: "n < 65536"
  have "unat (drop_bit 8 (of_nat n :: u16)) = unat (of_nat (n div 256) :: u16)"
    using n by (simp add: drop_bit_eq_div unat_div unat_of_nat_small)
  then have "drop_bit 8 (of_nat n :: u16) = of_nat (n div 256)"
    by (rule unsigned_word_eqI)
  then show ?thesis by (simp add: ipv69_put_be16_def ucast_of_nat_u16_u8)
qed

lemma length_chunk_put [simp, len_simps]: "length (icsp_chunk_put ty n) = 4"
  by (simp add: icsp_chunk_put_def)

lemma chunk_put_get [wire_simps]:
  assumes "n < 65536"
  shows "bget (icsp_chunk_put ty n @ d) 0 = ty"
    and "unat (ipv69_get_be16 (drop 2 (icsp_chunk_put ty n @ d))) = n"
proof -
  have "icsp_chunk_put ty n @ d = [ty, 0] @ ipv69_put_be16 (of_nat n) @ d"
    using len_bytes_be16 [OF assms] by (simp add: icsp_chunk_put_def)
  then show "bget (icsp_chunk_put ty n @ d) 0 = ty"
    "unat (ipv69_get_be16 (drop 2 (icsp_chunk_put ty n @ d))) = n"
    using assms by (simp_all add: codec_simps unat_of_nat_small)
qed

lemma build_pkt_Some:
  "icsp_build_pkt a chunk n = Some p \<longleftrightarrow> 12 + length chunk \<le> n \<and>
     p = ipv69_put_be16 (a_src_port a) @ ipv69_put_be16 (a_dst_port a) @ [ICSP_VERSION, 0] @
       ipv69_put_be32 (a_assoc_id a) @
       ipv69_put_be16 (ucast (icsp_crc32c (ipv69_put_be16 (a_src_port a) @ ipv69_put_be16 (a_dst_port a) @
          [ICSP_VERSION, 0] @ ipv69_put_be32 (a_assoc_id a) @ [0, 0] @ chunk))) @ chunk"
  by (auto simp: icsp_build_pkt_def Let_def)

lemma build_pkt_length: "icsp_build_pkt a chunk n = Some p \<Longrightarrow> length p = 12 + length chunk"
  by (auto simp: build_pkt_Some)

lemma build_pkt_fields:
  assumes "icsp_build_pkt a chunk n = Some p"
  shows "ipv69_get_be16 (p @ r) = a_src_port a" "ipv69_get_be16 (drop 2 (p @ r)) = a_dst_port a"
    "bget (p @ r) 4 = ICSP_VERSION" "ipv69_get_be32 (drop 6 (p @ r)) = a_assoc_id a"
    "drop 12 (p @ r) = chunk @ r"
  using assms by (auto simp: build_pkt_Some codec_simps)

lemma check_built:
  assumes p: "icsp_build_pkt a chunk ICSP_MAX_PAYLOAD = Some p"
  shows "icsp_check_pkt (p @ r) (length p) = 0"
proof -
  have len: "length p = 12 + length chunk" "length p \<le> 1400"
    using build_pkt_length [OF p] p by (auto simp: build_pkt_Some)
  have buf: "slice 0 (length p) (p @ r) = p" by simp
  define h where "h = ipv69_put_be16 (a_src_port a) @ ipv69_put_be16 (a_dst_port a) @ [ICSP_VERSION, 0] @
       ipv69_put_be32 (a_assoc_id a)"
  have h: "length h = 10" by (simp add: h_def)
  define crc where "crc = (ucast (icsp_crc32c (h @ [0, 0] @ chunk)) :: u16)"
  have p': "p = h @ ipv69_put_be16 crc @ chunk"
    using p by (simp add: build_pkt_Some h_def crc_def)
  have "take 10 p @ [0, 0] @ drop 12 p = h @ [0, 0] @ chunk"
    using h by (simp add: p')
  moreover have "ipv69_get_be16 (drop 10 p) = crc"
    using h by (simp add: p' codec_simps)
  ultimately show ?thesis
    using len by (simp add: icsp_check_pkt_def Let_def buf crc_def)
qed

text \<open>A packet the builder makes passes the receiver's CRC check, whatever bytes follow it in
  the receive buffer, as long as it fits the 1400-byte packet limit that both sides share.\<close>

theorem build_check_pkt:
  assumes "icsp_build_pkt a chunk ICSP_MAX_PAYLOAD = Some p"
  shows "icsp_check_pkt (p @ r) (length p) = 0"
  by (rule check_built [OF assms])

text \<open>The check at a concrete packet with a SHUTDOWN chunk, followed by stale bytes.\<close>

theorem build_check_pkt_witness:
  "\<exists>p. icsp_build_pkt assoc0 (icsp_chunk_put ICSP_CHUNK_SHUTDOWN 0) ICSP_MAX_PAYLOAD = Some p \<and>
     length p = 16 \<and> icsp_check_pkt (p @ [1, 2, 3]) (length p) = 0"
proof -
  obtain p where p: "icsp_build_pkt assoc0 (icsp_chunk_put ICSP_CHUNK_SHUTDOWN 0) ICSP_MAX_PAYLOAD = Some p"
    by (simp add: icsp_build_pkt_def Let_def)
  show ?thesis
    using p build_check_pkt [OF p, of "[1, 2, 3]"] build_pkt_length [OF p] by simp
qed

text \<open>The send path: it fails exactly when the packet does not fit or the kernel refuses it.\<close>

lemma send_pkt_oversized: "1400 < 12 + length chunk \<Longrightarrow> icsp_send_pkt a chunk w = (-1, w)"
  by (simp add: icsp_send_pkt_def icsp_build_pkt_def)

lemma send_pkt_world [inv_intros]: "world_le w (snd (icsp_send_pkt a chunk w))"
  by (simp add: icsp_send_pkt_def Let_def world_le_transmit world_le_l2_send split: option.splits)

text \<open>Where a built packet goes: the frame around it, to the gateway or onto the L2 leg.\<close>

definition pkt_sent :: "icsp_assoc \<Rightarrow> bytes \<Rightarrow> sent" where
  "pkt_sent a pkt =
     (let dmac = (if a_has_peer_mac a then a_peer_mac a else bcast_mac);
          frame = build_frame dmac (a_src_mac a) (a_src_addr a) (a_dst_addr a) IPV69_NEXT_STREAM 64 0 0 pkt
      in if a_tunnel a then Udp (a_gw a) frame else L2 dmac frame)"

lemma send_pkt_eq:
  "icsp_send_pkt a chunk w = (case icsp_build_pkt a chunk ICSP_MAX_PAYLOAD of
     None \<Rightarrow> (-1, w) | Some p \<Rightarrow> transmit (pkt_sent a p) w)"
  by (simp add: icsp_send_pkt_def pkt_sent_def Let_def l2_send_def split: option.splits)

lemma sent_frame_pkt_sent:
  "sent_frame (pkt_sent a p) = build_frame (if a_has_peer_mac a then a_peer_mac a else bcast_mac)
     (a_src_mac a) (a_src_addr a) (a_dst_addr a) IPV69_NEXT_STREAM 64 0 0 p"
  by (simp add: sent_frame_def pkt_sent_def Let_def)

lemma sent_frame_payload [wire_simps]: "assoc_wf a \<Longrightarrow> drop 46 (sent_frame (pkt_sent a p)) = p"
  by (simp add: sent_frame_pkt_sent wire_simps assoc_wf_def)

lemma send_pkt_result: "fst (icsp_send_pkt a chunk w) \<in> {0, -1}"
  by (simp add: icsp_send_pkt_def transmit_def l2_send_def Let_def split: option.splits)

section \<open>Key agreement\<close>

lemma derive_key_wf [inv_intros]: "assoc_wf a \<Longrightarrow> assoc_wf (icsp_derive_key N a e w)"
  by (simp add: assoc_wf_def icsp_derive_key_def Let_def)

lemma derive_key_agree:
  assumes "dh_ok N"
    and "a_is_initiator i" "\<not> a_is_initiator r"
    and "a_peer_eph i = ed25519_scalarmult_base N er" "a_peer_eph r = ed25519_scalarmult_base N ei"
  shows "a_send_key (icsp_derive_key N i ei wi) = a_recv_key (icsp_derive_key N r er wr) \<and>
    a_recv_key (icsp_derive_key N i ei wi) = a_send_key (icsp_derive_key N r er wr)"
  using assms by (simp add: icsp_derive_key_def Let_def dh_ok_def)

text \<open>After both sides derive their keys from the other's ephemeral public key, the
  initiator's send key is the responder's receive key and the other way round, provided
  Diffie-Hellman commutes.\<close>

theorem derive_key_agreement:
  assumes "dh_ok N"
    and "a_is_initiator i" "\<not> a_is_initiator r"
    and "a_peer_eph i = ed25519_scalarmult_base N er" "a_peer_eph r = ed25519_scalarmult_base N ei"
  shows "a_send_key (icsp_derive_key N i ei wi) = a_recv_key (icsp_derive_key N r er wr) \<and>
    a_recv_key (icsp_derive_key N i ei wi) = a_send_key (icsp_derive_key N r er wr)"
  by (rule derive_key_agree [OF assms])

theorem derive_key_agreement_witness:
  "let i = assoc0\<lparr>a_is_initiator := True, a_peer_eph := ed25519_scalarmult_base toy_nacl (zeros 32)\<rparr>;
       r = assoc0\<lparr>a_peer_eph := ed25519_scalarmult_base toy_nacl (replicate 32 7)\<rparr>
   in a_send_key (icsp_derive_key toy_nacl i (replicate 32 7) world0) =
      a_recv_key (icsp_derive_key toy_nacl r (zeros 32) world0)"
  unfolding Let_def
  by (rule derive_key_agreement [THEN conjunct1]) (simp_all add: toy_dh_ok assoc0_def)

end
