(* ===== verification/Icsp_Data.thy ===== *)
theory Icsp_Data
  imports Icsp
begin

text \<open>
  The encrypted data path of \<^verbatim>\<open>c/src/ICSP/icsp_data.c\<close> and the lifecycle chunks of
  \<^verbatim>\<open>icsp_life.c\<close>: sending, retransmission, SACKs, the replay window, ordered delivery.
  A received payload is the receive buffer from the ICSP header on, with the received
  length \<open>plen\<close>; the buffer may go on behind it. A write past the end of a C array is the
  outcome \<open>None\<close> (or \<open>D_UB\<close> inside a chunk).
\<close>

section \<open>Sending\<close>

definition data_nonce :: "nacl \<Rightarrow> icsp_assoc \<Rightarrow> u32 \<Rightarrow> bytes" where
  "data_nonce N a tsn = slice 0 24 (ed25519_sha512 N (ipv69_put_be32 (a_assoc_id a) @ ipv69_put_be32 tsn))"

definition find_stream :: "icsp_assoc \<Rightarrow> u16 \<Rightarrow> nat option" where
  "find_stream a sid = find (\<lambda>i. st_id (a_streams a ! i) = sid) [0..<a_n_streams a]"

definition get_stream :: "icsp_assoc \<Rightarrow> u16 \<Rightarrow> nat option \<times> icsp_assoc" where
  "get_stream a sid =
     (case find_stream a sid of
        Some i \<Rightarrow> (Some i, a)
      | None \<Rightarrow>
          if a_n_streams a \<ge> ICSP_MAX_STREAMS then (None, a)
          else (Some (a_n_streams a),
                a\<lparr>a_streams := (a_streams a)[a_n_streams a := stream0\<lparr>st_id := sid\<rparr>],
                  a_n_streams := Suc (a_n_streams a)\<rparr>))"

text \<open>The DATA chunk both the first transmission and the retransmission build. The stack
  buffer \<^verbatim>\<open>chunk\<close> has 4 + 8 + 1400 + 32 bytes; \<open>None\<close> is a write past its end.\<close>

abbreviation (input) DATA_CHUNK_BUF :: nat where "DATA_CHUNK_BUF \<equiv> 1444"

definition data_chunk_build :: "nacl \<Rightarrow> icsp_assoc \<Rightarrow> u32 \<Rightarrow> u16 \<Rightarrow> u16 \<Rightarrow> bytes \<Rightarrow> bytes option" where
  "data_chunk_build N a tsn sid seq data =
     (let hd = ipv69_put_be32 tsn @ ipv69_put_be16 sid @ ipv69_put_be16 seq;
          box = ed25519_secretbox N (hd @ data) (data_nonce N a tsn) (a_send_key a);
          chunk = icsp_chunk_put ICSP_CHUNK_DATA (48 + length data) @ hd @ box
      in if DATA_CHUNK_BUF < length chunk then None else Some chunk)"

text \<open>The two updates of the association: one stream's counters, one more queue entry
  (dropped silently when the queue is full; the message bytes are not copied).\<close>

definition upd_stream :: "nat \<Rightarrow> (icsp_stream \<Rightarrow> icsp_stream) \<Rightarrow> icsp_assoc \<Rightarrow> icsp_assoc" where
  "upd_stream i f a = a\<lparr>a_streams := (a_streams a)[i := f (a_streams a ! i)]\<rparr>"

definition sendq_push :: "u32 \<Rightarrow> u16 \<Rightarrow> u16 \<Rightarrow> nat \<Rightarrow> int \<Rightarrow> icsp_assoc \<Rightarrow> icsp_assoc" where
  "sendq_push tsn sid seq len now a =
     (let n = a_n_sendq a in
      if n < ICSP_SENDQ
      then a\<lparr>a_n_sendq := Suc n,
             a_sendq := (a_sendq a)[n := (a_sendq a ! n)
               \<lparr>sq_tsn := tsn, sq_stream_id := sid, sq_seq := seq, sq_len := of_nat len,
                sq_acked := False, sq_sent_at := now\<rparr>]\<rparr>
      else a)"

definition icsp_data_send ::
    "nacl \<Rightarrow> icsp_assoc \<Rightarrow> u16 \<Rightarrow> bytes \<Rightarrow> world \<Rightarrow> (int \<times> icsp_assoc \<times> world) option" where
  "icsp_data_send N a sid data w =
     (if \<not> a_has_key a then Some (-1, a, w)
      else case get_stream a sid of
        (None, a) \<Rightarrow> Some (-1, a, w)
      | (Some i, a) \<Rightarrow>
          if ICSP_MAX_PAYLOAD < length data then Some (-1, a, w)
          else let tsn = a_next_tsn a;
                   a = a\<lparr>a_next_tsn := tsn + 1\<rparr>;
                   seq = st_next_send_seq (a_streams a ! i)
               in case data_chunk_build N a tsn sid seq data of
                    None \<Rightarrow> None
                  | Some chunk \<Rightarrow>
                      let a = sendq_push tsn sid seq (length data) (w_time w) a;
                          a = upd_stream i (\<lambda>s. s\<lparr>st_next_send_seq := st_next_send_seq s + 1\<rparr>) a;
                          (r, w) = icsp_send_pkt a chunk w
                      in Some (if r < 0 then -1 else sint tsn, a, w))"

definition icsp_sack_send :: "icsp_assoc \<Rightarrow> world \<Rightarrow> int \<times> world" where
  "icsp_sack_send a w = icsp_send_pkt a (icsp_chunk_put ICSP_CHUNK_SACK 4 @ ipv69_put_be32 (a_cum_tsn a)) w"

text \<open>One iteration of the retransmission loop; the state is the count, the association and
  the world.\<close>

definition retransmit_one ::
    "nacl \<Rightarrow> int \<Rightarrow> nat \<Rightarrow> int \<times> icsp_assoc \<times> world \<Rightarrow> (int \<times> icsp_assoc \<times> world) option" where
  "retransmit_one N timeout_s i st =
     (case st of (resent, a, w) \<Rightarrow>
        let e = a_sendq a ! i in
        if sq_acked e \<or> w_time w - sq_sent_at e < timeout_s then Some (resent, a, w)
        else case data_chunk_build N a (sq_tsn e) (sq_stream_id e) (sq_seq e)
                    (slice 0 (unat (sq_len e)) (sq_data e)) of
               None \<Rightarrow> None
             | Some chunk \<Rightarrow>
                 let (r, w) = icsp_send_pkt a chunk w in
                 if 0 \<le> r then Some (resent + 1, a\<lparr>a_sendq := (a_sendq a)[i := e\<lparr>sq_sent_at := w_time w\<rparr>]\<rparr>, w)
                 else Some (resent, a, w))"

definition icsp_data_retransmit :: "nacl \<Rightarrow> icsp_assoc \<Rightarrow> int \<Rightarrow> world \<Rightarrow> (int \<times> icsp_assoc \<times> world) option" where
  "icsp_data_retransmit N a timeout_s w = ofold (retransmit_one N timeout_s) [0..<a_n_sendq a] (0, a, w)"

definition icsp_all_acked :: "icsp_assoc \<Rightarrow> bool" where
  "icsp_all_acked a \<longleftrightarrow> (\<forall>i \<in> set [0..<a_n_sendq a]. sq_acked (a_sendq a ! i))"

section \<open>Receiving\<close>

text \<open>
  The chunk loop shared by the data and the lifecycle handler: \<open>p\<close> points at a chunk,
  \<open>left\<close> bytes remain. The step gets the type, the chunk's data pointer and its length; it
  goes on with a new state (\<open>Inl\<close>) or returns from the handler (\<open>Inr\<close>).
\<close>

function chunk_walk :: "(u8 \<Rightarrow> bytes \<Rightarrow> nat \<Rightarrow> 's \<Rightarrow> 's + 'r) \<Rightarrow> bytes \<Rightarrow> nat \<Rightarrow> 's \<Rightarrow> 's + 'r" where
  "chunk_walk step p left s =
     (if left < ICSP_CHUNK_HDR then Inl s
      else let clen = unat (ipv69_get_be16 (drop 2 p)) in
        if left < ICSP_CHUNK_HDR + clen then Inl s
        else case step (bget p 0) (drop ICSP_CHUNK_HDR p) clen s of
               Inr r \<Rightarrow> Inr r
             | Inl s' \<Rightarrow> chunk_walk step (drop (ICSP_CHUNK_HDR + clen) p) (left - (ICSP_CHUNK_HDR + clen)) s')"
  by pat_completeness auto
termination
  by (relation "measure (\<lambda>(step, p, left, s). left)") auto

declare chunk_walk.simps [simp del]

text \<open>The sliding window over the 32 TSNs up to the highest seen: \<open>True\<close> when the TSN is new
  (it is then marked), \<open>False\<close> when it is a replay or too old.\<close>

definition replay_check :: "u32 \<times> u32 \<Rightarrow> u32 \<Rightarrow> bool \<times> (u32 \<times> u32)" where
  "replay_check s tsn =
     (case s of (rw_tsn, rw_mask) \<Rightarrow>
        if rw_tsn < tsn then
          let shift = tsn - rw_tsn in
          (True, (tsn, if shift < 32 then push_bit (unat shift) rw_mask OR 1 else 1))
        else if 32 \<le> rw_tsn - tsn then (False, s)
        else if bit rw_mask (unat (rw_tsn - tsn)) then (False, s)
        else (True, (rw_tsn, rw_mask OR push_bit (unat (rw_tsn - tsn)) 1)))"

datatype data_ret =
    D_Ret int icsp_assoc "(bytes \<times> u16) option"   \<comment> \<open>return code, state, delivered message\<close>
  | D_UB

definition bump_cum :: "u32 \<Rightarrow> icsp_assoc \<Rightarrow> icsp_assoc" where
  "bump_cum tsn a = (if a_cum_tsn a < tsn then a\<lparr>a_cum_tsn := tsn\<rparr> else a)"

text \<open>The ordered-delivery gate, on an authenticated plaintext. \<open>clear\<close> is the whole 1408-byte
  stack buffer; \<open>mlen\<close> is the message length before clamping.\<close>

definition data_deliver ::
    "icsp_assoc \<Rightarrow> u32 \<Rightarrow> u16 \<Rightarrow> u16 \<Rightarrow> bytes \<Rightarrow> nat \<Rightarrow> nat \<Rightarrow> icsp_assoc + data_ret" where
  "data_deliver a tsn sid seq clear mlen outcap =
     (case get_stream a sid of
        (so, a) \<Rightarrow>
          case so of
            Some i \<Rightarrow>
              if seq = st_next_recv_seq (a_streams a ! i) then
                let a = upd_stream i (\<lambda>s. s\<lparr>st_next_recv_seq := st_next_recv_seq s + 1\<rparr>) a;
                    m = min mlen outcap
                in if length clear < 8 + m then Inr D_UB
                   else Inr (D_Ret (int m) (bump_cum tsn a) (Some (slice 8 m clear, sid)))
              else if a_n_rcvq a < ICSP_RCVQ then
                let n = a_n_rcvq a; len = (of_nat mlen :: u16) in
                if ICSP_MAX_PAYLOAD < unat len then Inr D_UB
                else Inl (bump_cum tsn (a\<lparr>a_n_rcvq := Suc n, a_rcvq := (a_rcvq a)[n :=
                       \<lparr>rq_tsn = tsn, rq_stream_id = sid, rq_seq = seq,
                        rq_data = blit (rq_data (a_rcvq a ! n)) 0 (slice 8 (unat len) clear),
                        rq_len = len, rq_valid = True\<rparr>]\<rparr>))
              else Inl (bump_cum tsn a)
          | None \<Rightarrow> Inl (bump_cum tsn a))"

definition data_chunk_in ::
    "nacl \<Rightarrow> world \<Rightarrow> nat \<Rightarrow> bytes \<Rightarrow> nat \<Rightarrow> icsp_assoc \<Rightarrow> icsp_assoc + data_ret" where
  "data_chunk_in N w outcap cd clen a =
     (let tsn = ipv69_get_be32 cd;
          sid = ipv69_get_be16 (drop 4 cd);
          seq = ipv69_get_be16 (drop 6 cd);
          boxlen = size_sub clen 8
      in case replay_check (a_rw_tsn a, a_rw_mask a) tsn of
           (False, _) \<Rightarrow> Inl a
         | (True, (rt, rm)) \<Rightarrow>
             let a = a\<lparr>a_rw_tsn := rt, a_rw_mask := rm\<rparr>;
                 nonce = data_nonce N a tsn
             in if boxlen < 32 \<or> ICSP_MAX_PAYLOAD + 32 + 8 < boxlen then Inl a
                else case ed25519_secretbox_open N (drop 8 cd) (boxlen - 32) nonce (a_recv_key a) of
                       None \<Rightarrow> Inl a
                     | Some pt \<Rightarrow>
                         let clear = pt @ map (w_stack w) [length pt..<ICSP_MAX_PAYLOAD + 8] in
                         if ipv69_get_be32 clear \<noteq> tsn \<or> ipv69_get_be16 (drop 4 clear) \<noteq> sid \<or>
                            ipv69_get_be16 (drop 6 clear) \<noteq> seq then Inr (D_Ret (-1) a None)
                         else data_deliver a tsn sid seq clear (size_sub (boxlen - 32) 8) outcap)"

definition sack_in :: "u32 \<Rightarrow> icsp_assoc \<Rightarrow> icsp_assoc" where
  "sack_in cum a =
     a\<lparr>a_sendq := map (\<lambda>i. let e = a_sendq a ! i in
         if i < a_n_sendq a \<and> \<not> sq_acked e \<and> sq_tsn e \<le> cum then e\<lparr>sq_acked := True\<rparr> else e)
       [0..<length (a_sendq a)]\<rparr>"

definition data_step ::
    "nacl \<Rightarrow> world \<Rightarrow> nat \<Rightarrow> u8 \<Rightarrow> bytes \<Rightarrow> nat \<Rightarrow> icsp_assoc \<Rightarrow> icsp_assoc + data_ret" where
  "data_step N w outcap ty cd clen a =
     (if ty = ICSP_CHUNK_DATA \<and> a_has_key a then data_chunk_in N w outcap cd clen a
      else if ty = ICSP_CHUNK_SACK then Inl (sack_in (ipv69_get_be32 cd) a)
      else Inl a)"

definition icsp_data_handle ::
    "nacl \<Rightarrow> icsp_assoc \<Rightarrow> bytes \<Rightarrow> nat \<Rightarrow> nat \<Rightarrow> world \<Rightarrow>
     (int \<times> icsp_assoc \<times> (bytes \<times> u16) option) option" where
  "icsp_data_handle N a payload plen outcap w =
     (if plen < ICSP_HEADER_LEN then Some (-1, a, None)
      else case chunk_walk (data_step N w outcap) (drop ICSP_HEADER_LEN payload) (plen - ICSP_HEADER_LEN) a of
             Inl a' \<Rightarrow> Some (0, a', None)
           | Inr (D_Ret r a' d) \<Rightarrow> Some (r, a', d)
           | Inr D_UB \<Rightarrow> None)"

section \<open>Lifecycle chunks (icsp\_life.c)\<close>

definition icsp_heartbeat_send :: "icsp_assoc \<Rightarrow> world \<Rightarrow> int \<times> world" where
  "icsp_heartbeat_send a w =
     icsp_send_pkt a (icsp_chunk_put ICSP_CHUNK_HEARTBEAT 4 @ ipv69_put_be32 (word_of_int (w_time w))) w"

definition icsp_heartbeat_ack :: "icsp_assoc \<Rightarrow> world \<Rightarrow> int \<times> world" where
  "icsp_heartbeat_ack a w =
     icsp_send_pkt a (icsp_chunk_put ICSP_CHUNK_HEARTBEAT_ACK 4 @ ipv69_put_be32 (word_of_int (w_time w))) w"

definition icsp_shutdown_send :: "icsp_assoc \<Rightarrow> world \<Rightarrow> int \<times> icsp_assoc \<times> world" where
  "icsp_shutdown_send a w =
     (let (r, w) = icsp_send_pkt a (icsp_chunk_put ICSP_CHUNK_SHUTDOWN 0) w
      in (r, if r = 0 then a\<lparr>a_state := ST_SHUTDOWN\<rparr> else a, w))"

definition icsp_stream_reset :: "icsp_assoc \<Rightarrow> u16 \<Rightarrow> u8 \<Rightarrow> world \<Rightarrow> int \<times> world" where
  "icsp_stream_reset a sid mode w =
     icsp_send_pkt a (icsp_chunk_put ICSP_CHUNK_STREAM_RESET 3 @ ipv69_put_be16 sid @ [mode]) w"

definition reset_stream_in :: "u16 \<Rightarrow> icsp_assoc \<Rightarrow> icsp_assoc" where
  "reset_stream_in sid a =
     a\<lparr>a_streams := map (\<lambda>i. let s = a_streams a ! i in
         if i < a_n_streams a \<and> st_id s = sid then s\<lparr>st_next_send_seq := 0, st_next_recv_seq := 0\<rparr> else s)
       [0..<length (a_streams a)]\<rparr>"

definition life_step :: "u8 \<Rightarrow> bytes \<Rightarrow> nat \<Rightarrow> icsp_assoc \<Rightarrow> icsp_assoc + icsp_assoc" where
  "life_step ty cd clen a =
     (if ty = ICSP_CHUNK_SHUTDOWN then Inr a
      else if ty = ICSP_CHUNK_STREAM_RESET \<and> 3 \<le> clen then Inl (reset_stream_in (ipv69_get_be16 cd) a)
      else Inl a)"

definition icsp_life_handle :: "icsp_assoc \<Rightarrow> bytes \<Rightarrow> nat \<Rightarrow> int \<times> icsp_assoc" where
  "icsp_life_handle a payload plen =
     (if plen < ICSP_HEADER_LEN then (0, a)
      else case chunk_walk life_step (drop ICSP_HEADER_LEN payload) (plen - ICSP_HEADER_LEN) a of
             Inl a' \<Rightarrow> (0, a')
           | Inr a' \<Rightarrow> (1, a'))"

end
