(* ===== verification/Recv.thy ===== *)
theory Recv
  imports Env
begin

text \<open>
  Receiving a frame: \<^verbatim>\<open>l2_recv\<close> of \<^verbatim>\<open>c/src/IPv69/l2.c\<close>. What the kernel answers to one
  receive call is an \<open>rx_event\<close>, with the clock at the time it returns. A frame overwrites
  the beginning of the caller's buffer and what that held before stays behind it.
\<close>

section \<open>System call results\<close>

datatype errno = ETIMEDOUT | EINTR | EAGAIN | EOTHER

datatype poll_result = Poll_In | Poll_None | Poll_Err errno

datatype recv_result = Recv_Frame bytes | Recv_Err errno

record rx_event =
  ev_poll :: poll_result
  ev_recv :: recv_result
  ev_time :: int
  ev_ms :: u32

text \<open>What a receive function gives: a length (0 counts as nothing) with the buffer, or -1.\<close>

datatype rx_result = Rx_Len nat bytes | Rx_Fail errno

definition rx_into :: "nat \<Rightarrow> bytes \<Rightarrow> bytes \<Rightarrow> rx_result" where
  "rx_into maxlen buf f = (let f = take maxlen f in Rx_Len (length f) (f @ drop (length f) buf))"

definition at_event :: "rx_event \<Rightarrow> world \<Rightarrow> world" where
  "at_event ev w = w\<lparr>w_time := ev_time ev, w_ms := ev_ms ev\<rparr>"

section \<open>Receiving\<close>

definition l2_recv :: "bytes \<Rightarrow> nat \<Rightarrow> int \<Rightarrow> rx_event \<Rightarrow> rx_result" where
  "l2_recv buf maxlen timeout_ms ev =
     (let recv = (case ev_recv ev of
                    Recv_Frame f \<Rightarrow> rx_into maxlen buf f
                  | Recv_Err e \<Rightarrow> if e = EAGAIN then Rx_Len 0 buf else Rx_Fail e)
      in if 0 < timeout_ms then
           (case ev_poll ev of
              Poll_Err e \<Rightarrow> if e = EINTR then Rx_Len 0 buf else Rx_Fail e
            | Poll_None \<Rightarrow> Rx_Len 0 buf
            | Poll_In \<Rightarrow> recv)
         else recv)"

lemma rx_into_le: "rx_into m buf f = Rx_Len n b \<Longrightarrow> n \<le> m \<and> n \<le> length b"
  by (auto simp: rx_into_def Let_def)

text \<open>An event that delivers a frame at a given time.\<close>

definition rx :: "bytes \<Rightarrow> int \<Rightarrow> u32 \<Rightarrow> rx_event" where
  "rx f t ms = \<lparr>ev_poll = Poll_In, ev_recv = Recv_Frame f, ev_time = t, ev_ms = ms\<rparr>"

lemma at_event_same [simp]:
  "w_out (at_event ev w) = w_out w" "tx_ok (at_event ev w) = tx_ok w" "w_rate (at_event ev w) = w_rate w"
  "w_time (at_event (rx f tm ms) w) = tm" "w_ms (at_event (rx f tm ms) w) = ms"
  by (simp_all add: at_event_def tx_ok_def rx_def)

lemma l2_recv_rx: "length f \<le> m \<Longrightarrow> l2_recv buf m tmo (rx f t ms) = Rx_Len (length f) (f @ drop (length f) buf)"
  by (simp add: l2_recv_def rx_def rx_into_def Let_def)

end
