(* ===== verification/Icsp_Rx.thy ===== *)
theory Icsp_Rx
  imports Icsp_Data Recv
begin

text \<open>
  The receive side of \<^verbatim>\<open>c/src/ICSP/icsp_session.c\<close> that the handshake and the session
  share: \<^verbatim>\<open>icsp_rx\<close>, \<^verbatim>\<open>own_tx_control\<close>, \<^verbatim>\<open>icsp_recv_frame\<close>, and the route
  announcement of tunnel endpoints. The receive buffer is 1600 bytes; what it held before stays
  behind a shorter frame, which is what a handler that reads too far sees.
\<close>

abbreviation (input) FRAME_BUF :: nat where "FRAME_BUF \<equiv> 1600"

section \<open>Receiving\<close>

definition icsp_rx :: "icsp_assoc \<Rightarrow> bytes \<Rightarrow> int \<Rightarrow> rx_event \<Rightarrow> rx_result" where
  "icsp_rx a buf timeout_ms ev =
     (if a_tunnel a then
        (case ev_recv ev of
           Recv_Frame f \<Rightarrow> rx_into FRAME_BUF buf f
         | Recv_Err _ \<Rightarrow> Rx_Len 0 buf)
      else l2_recv buf FRAME_BUF timeout_ms ev)"

definition own_tx_control :: "icsp_assoc \<Rightarrow> bytes \<Rightarrow> nat \<Rightarrow> bool" where
  "own_tx_control a frame n =
     (if n < ETH_LEN + IPV69_HEADER_LEN + ICSP_HEADER_LEN + ICSP_CHUNK_HDR then True
      else if slice 6 6 frame \<noteq> a_src_mac a then False
      else let ic = drop (ETH_LEN + IPV69_HEADER_LEN) frame in
        if ipv69_get_be16 ic \<noteq> a_src_port a then False
        else let ty = bget frame (ETH_LEN + IPV69_HEADER_LEN + ICSP_HEADER_LEN) in
          \<not> (ty = ICSP_CHUNK_INIT \<or> ty = ICSP_CHUNK_INIT_ACK \<or> ty = ICSP_CHUNK_COOKIE_ECHO \<or>
             ty = ICSP_CHUNK_COOKIE_ACK \<or> ty = ICSP_CHUNK_DATA))"

text \<open>The three results of \<^verbatim>\<open>icsp_recv_frame\<close>: -1 with \<^verbatim>\<open>errno\<close>, 0 for noise, or the payload
  length and the sender's address (the payload starts at byte 46 of the buffer).\<close>

datatype recv_frame_result = RF_Err errno | RF_Noise | RF_Got nat u64

abbreviation (input) ICSP_OFF :: nat where "ICSP_OFF \<equiv> 46"

definition icsp_recv_frame ::
    "icsp_assoc \<Rightarrow> bytes \<Rightarrow> rx_event \<Rightarrow> world \<Rightarrow> recv_frame_result \<times> icsp_assoc \<times> bytes" where
  "icsp_recv_frame a buf ev w =
     (case icsp_rx a buf (a_rcv_timeout_ms a) ev of
        Rx_Fail e \<Rightarrow> (RF_Err e, a, buf)
      | Rx_Len n frame \<Rightarrow>
          if n = 0 then (RF_Err ETIMEDOUT, a, frame)
          else if n < ETH_LEN + IPV69_HEADER_LEN + ICSP_HEADER_LEN then (RF_Noise, a, frame)
          else if own_tx_control a frame n then (RF_Noise, a, frame)
          else let h = hdr_at (drop ETH_LEN frame) in
            if next_header h \<noteq> IPV69_NEXT_STREAM then (RF_Noise, a, frame)
            else let from = ipv69_addr_get (source h) in
              (RF_Got (n - ETH_LEN - IPV69_HEADER_LEN) from,
               a\<lparr>a_peer_mac := slice 6 6 frame, a_has_peer_mac := True, a_dst_addr := from,
                 a_last_rx := w_time w\<rparr>, frame))"

section \<open>The announcement\<close>

definition icsp_announce_send :: "nacl \<Rightarrow> icsp_assoc \<Rightarrow> world \<Rightarrow> int \<times> icsp_assoc \<times> world" where
  "icsp_announce_send N a w =
     (let hd6 = IPV69_CTRL_ND_REQUEST # ipv69_addr_put (a_src_addr a);
          ann = hd6 @ slice 32 32 (a_sk a) @ ed25519_sign N hd6 (a_sk a);
          frame = build_frame bcast_mac (a_src_mac a) (a_src_addr a) IPV69_BCAST_ADDR IPV69_NEXT_CONTROL 64 0 0 ann;
          (r, w) = transmit (Udp (a_gw a) frame) w
      in if r < 0 then (-1, a, w) else (0, a\<lparr>a_last_ann := w_time w\<rparr>, w))"

section \<open>What receiving changes\<close>

lemma recv_frame_wf [inv_intros]:
  "assoc_wf a \<Longrightarrow> assoc_wf (fst (snd (icsp_recv_frame a buf ev w)))"
  by (auto simp: icsp_recv_frame_def assoc_wf_def Let_def split: rx_result.splits)

text \<open>Receiving changes only the peer's L2 address, the address replies go to, and the
  time of the last packet.\<close>

lemma recv_frame_frame:
  "icsp_recv_frame a buf ev w = (r, b, buf') \<Longrightarrow>
   b = a\<lparr>a_peer_mac := a_peer_mac b, a_has_peer_mac := a_has_peer_mac b, a_dst_addr := a_dst_addr b,
         a_last_rx := a_last_rx b\<rparr>"
  by (auto simp: icsp_recv_frame_def Let_def split: rx_result.splits if_splits)

lemma announce_wf [inv_intros]: "assoc_wf a \<Longrightarrow> assoc_wf (fst (snd (icsp_announce_send N a w)))"
  by (auto simp: icsp_announce_send_def assoc_wf_def Let_def split: prod.splits)

end
