(* ===== verification/Icsp_Handshake.thy ===== *)
theory Icsp_Handshake
  imports Icsp_Rx
begin

text \<open>
  \<^verbatim>\<open>c/src/ICSP/icsp_handshake.c\<close>: the cookie, the reset functions, building and
  checking INIT, answering it, the blocking client and server handshakes over a list of
  receive events, and the rekey steps of an established session.

  A blocking loop consumes events. \<open>HS_Ret\<close> is its return value; \<open>HS_Wait\<close> says the
  events ran out while it was still blocked in a receive call.
\<close>

abbreviation (input) COOKIE_LEN :: nat where "COOKIE_LEN \<equiv> 48"
abbreviation (input) COOKIE_TTL :: int where "COOKIE_TTL \<equiv> 300"
abbreviation (input) ICSP_INIT_FLAG_IDBOX :: u8 where "ICSP_INIT_FLAG_IDBOX \<equiv> 1"
abbreviation (input) INIT_ID_LEN :: nat where "INIT_ID_LEN \<equiv> 32"
abbreviation (input) INIT_BOX_LEN :: nat where "INIT_BOX_LEN \<equiv> 48"

definition INIT_PRE_SIG :: "u8 \<Rightarrow> nat" where
  "INIT_PRE_SIG fl = 45 + (if fl AND ICSP_INIT_FLAG_IDBOX \<noteq> 0 then INIT_BOX_LEN else INIT_ID_LEN)"

definition INIT_LEN :: "u8 \<Rightarrow> nat" where
  "INIT_LEN fl = INIT_PRE_SIG fl + 64 + MAC1_LEN"

section \<open>The cookie\<close>

definition secret_refresh :: "world \<Rightarrow> world" where
  "secret_refresh w =
     (if bget (w_secret w) 0 = 0 \<or> COOKIE_TTL < w_time w - w_secret_ts w
      then let (r, w) = randombytes 32 w in w\<lparr>w_secret := r, w_secret_ts := w_time w\<rparr>
      else w)"

text \<open>The hash of the secret is computed into \<open>h\<close> and then overwritten.\<close>

definition cookie_make :: "nacl \<Rightarrow> icsp_assoc \<Rightarrow> world \<Rightarrow> bytes \<times> world" where
  "cookie_make N a w =
     (let w = secret_refresh w;
          buf = a_peer_id a @ a_peer_eph a @ ipv69_put_be16 (a_streams_in a) @ ipv69_put_be16 (a_streams_out a);
          h = ed25519_sha512 N (w_secret w);
          h = ed25519_sha512 N buf
      in (slice 0 COOKIE_LEN h, w))"

definition cookie_valid :: "nacl \<Rightarrow> bytes \<Rightarrow> icsp_assoc \<Rightarrow> world \<Rightarrow> bool \<times> world" where
  "cookie_valid N c a w = (let (expect, w) = cookie_make N a w in (slice 0 COOKIE_LEN c = expect, w))"

section \<open>Resets\<close>

definition random_be32 :: "world \<Rightarrow> u32 \<times> world" where
  "random_be32 w = (let (rnd, w) = randombytes 4 w in (ipv69_get_be32 rnd, w))"

definition assoc_reset :: "icsp_assoc \<Rightarrow> world \<Rightarrow> icsp_assoc \<times> world" where
  "assoc_reset a w =
     (let b = assoc0\<lparr>a_fd := a_fd a, a_ifindex := a_ifindex a, a_src_mac := a_src_mac a,
                a_dst_addr := a_dst_addr a, a_src_addr := a_src_addr a, a_tfd := a_tfd a, a_gw := a_gw a,
                a_tunnel := a_tunnel a, a_hb_interval_s := a_hb_interval_s a,
                a_dead_timeout_s := a_dead_timeout_s a, a_rekey_interval_s := a_rekey_interval_s a,
                a_announce_s := a_announce_s a\<rparr>;
          (tsn, w) = random_be32 w
      in (b\<lparr>a_next_tsn := tsn\<rparr>, w))"

definition data_plane_reset :: "icsp_assoc \<Rightarrow> world \<Rightarrow> icsp_assoc \<times> world" where
  "data_plane_reset a w =
     (let b = a\<lparr>a_streams := replicate ICSP_MAX_STREAMS stream0, a_n_streams := 0,
                a_sendq := replicate ICSP_SENDQ sendq0, a_n_sendq := 0,
                a_rcvq := replicate ICSP_RCVQ rcvq0, a_n_rcvq := 0,
                a_cum_tsn := 0, a_rw_tsn := 0, a_rw_mask := 0\<rparr>;
          (tsn, w) = random_be32 w
      in (b\<lparr>a_next_tsn := tsn\<rparr>, w))"

section \<open>INIT\<close>

text \<open>The fixed part of INIT, then the identity (in clear, or what fits of its box: the box of
  the 32-byte key has 64 bytes, of which the signature overwrites the last 16).\<close>

definition init_fixed :: "icsp_assoc \<Rightarrow> u64 \<Rightarrow> bytes" where
  "init_fixed a ts = [ICSP_VERSION] @ ipv69_put_be16 (a_streams_in a) @ ipv69_put_be16 (a_streams_out a) @
     a_eph_pub a @ ipv69_put_be64 ts"

definition init_build ::
    "nacl \<Rightarrow> icsp_assoc \<Rightarrow> bytes \<Rightarrow> bytes option \<Rightarrow> world \<Rightarrow> bytes \<times> icsp_assoc \<times> world" where
  "init_build N a sk server_pub w =
     (let fl = (if server_pub \<noteq> None then ICSP_INIT_FLAG_IDBOX else 0);
          pre_sig = INIT_PRE_SIG fl;
          ts = word_of_int (w_time w);
          (eph_priv, w) = randombytes 32 w;
          a = a\<lparr>a_eph_pub := ed25519_scalarmult_base N eph_priv, a_eph_priv := eph_priv\<rparr>;
          ident = (case server_pub of
                     Some spub \<Rightarrow>
                       let shared = ed25519_scalarmult N (a_eph_priv a) spub
                       in ed25519_secretbox N (slice 0 32 (a_id_pub a)) (zeros 24) shared
                   | None \<Rightarrow> a_id_pub a);
          d = take pre_sig (init_fixed a ts @ ident);
          d = d @ ed25519_sign N d sk;
          d = d @ mac1_compute N (mac1_key N (a_dst_addr a)) d;
          n = pre_sig + 64 + MAC1_LEN
      in ([ICSP_CHUNK_INIT, fl, of_nat (n div 256), of_nat n] @ d, a, w))"

text \<open>\<open>frame\<close> is the receive buffer and \<open>plen\<close> the payload length; the result is the flags
  or -1. The fields of the association are written before the signature is checked.\<close>

definition init_check ::
    "nacl \<Rightarrow> icsp_assoc \<Rightarrow> bytes \<Rightarrow> nat \<Rightarrow> bytes list \<Rightarrow> world \<Rightarrow> int \<times> icsp_assoc \<times> world" where
  "init_check N a frame plen peers w =
     (let payload = drop ICSP_OFF frame;
          cd = drop (ICSP_HEADER_LEN + ICSP_CHUNK_HDR) payload;
          fl = bget payload (ICSP_HEADER_LEN + 1);
          pre_sig = INIT_PRE_SIG fl
      in if icsp_check_pkt payload plen \<noteq> 0 then (-1, a, w)
         else if bget cd 0 \<noteq> ICSP_VERSION \<or> plen < ICSP_HEADER_LEN + ICSP_CHUNK_HDR + INIT_LEN fl then (-1, a, w)
         else if mac1_verify N (mac1_key N (ipv69_addr_get (dest (hdr_at (drop ETH_LEN frame)))))
                   (slice 0 (pre_sig + 64) cd) (drop (pre_sig + 64) cd) \<noteq> 0 then (-1, a, w)
         else case rate_allow_g (slice 6 6 frame @ [0, 0]) 10 20 1 w of
           (False, w) \<Rightarrow> (-1, a, w)
         | (True, w) \<Rightarrow>
             let ts = ipv69_get_be64 (drop 37 cd) in
             if ts \<le> a_last_init_ts a then (-1, a, w)
             else let a = a\<lparr>a_last_init_ts := ts, a_assoc_id := ipv69_get_be32 (drop 6 payload),
                            a_peer_eph := slice 5 32 cd\<rparr>;
                      opened = (if fl AND ICSP_INIT_FLAG_IDBOX \<noteq> 0 then
                                  (case ed25519_secretbox_open N (drop 45 cd) (INIT_BOX_LEN - 32) (zeros 24)
                                          (ed25519_scalarmult N (a_sk a) (slice 5 32 cd)) of
                                     None \<Rightarrow> None
                                   | Some pt \<Rightarrow> Some (blit (a_peer_id a) 0 pt))
                                else Some (slice 45 32 cd))
                  in case opened of
                       None \<Rightarrow> (-1, a, w)
                     | Some ident \<Rightarrow>
                         let a = a\<lparr>a_peer_id := ident\<rparr> in
                         if ed25519_verify N (slice 0 pre_sig cd) (drop pre_sig cd) ident \<noteq> 0 then (-1, a, w)
                         else if peers \<noteq> [] \<and> ident \<notin> set peers then (-1, a, w)
                         else (int (unat fl), a, w))"

definition init_ack_send :: "nacl \<Rightarrow> icsp_assoc \<Rightarrow> bytes \<Rightarrow> world \<Rightarrow> int \<times> icsp_assoc \<times> world" where
  "init_ack_send N a sk w =
     (let (eph_priv, w) = randombytes 32 w;
          a = a\<lparr>a_eph_pub := ed25519_scalarmult_base N eph_priv, a_eph_priv := eph_priv\<rparr>;
          a = icsp_derive_key N a (a_eph_priv a) w;
          d = [ICSP_VERSION] @ ipv69_put_be16 (a_streams_in a) @ ipv69_put_be16 (a_streams_out a) @
              a_eph_pub a @ a_id_pub a;
          sig = ed25519_sign N d sk;
          (cookie, w) = cookie_make N a w;
          (r, w) = icsp_send_pkt a (icsp_chunk_put ICSP_CHUNK_INIT_ACK 181 @ d @ sig @ cookie) w
      in (if r < 0 then -1 else 0, a, w))"

text \<open>The answer to an INIT-ACK: the cookie back, signed.\<close>

definition cookie_echo :: "nacl \<Rightarrow> bytes \<Rightarrow> bytes \<Rightarrow> bytes" where
  "cookie_echo N cookie sk =
     icsp_chunk_put ICSP_CHUNK_COOKIE_ECHO (COOKIE_LEN + 64) @ cookie @ ed25519_sign N cookie sk"

section \<open>The client\<close>

datatype hs_result = HS_Ret int icsp_assoc world | HS_Wait icsp_assoc world

fun client_wait_cookie_ack ::
    "bytes \<Rightarrow> nat \<Rightarrow> bytes \<Rightarrow> icsp_assoc \<Rightarrow> rx_event list \<Rightarrow> world \<Rightarrow> hs_result" where
  "client_wait_cookie_ack ck tries buf a [] w = HS_Wait a w"
| "client_wait_cookie_ack ck tries buf a (ev # evs) w =
     (let w = at_event ev w;
          (res, a, buf) = icsp_recv_frame a buf ev w
      in case res of
           RF_Err _ \<Rightarrow>
             if tries + 1 < 5 then
               (let (r, w) = icsp_send_pkt a ck w in
                if r < 0 then HS_Ret (-1) a w
                else client_wait_cookie_ack ck (tries + 1) buf a evs w)
             else HS_Ret (-1) a w
         | RF_Noise \<Rightarrow> client_wait_cookie_ack ck tries buf a evs w
         | RF_Got plen from \<Rightarrow>
             if bget (drop ICSP_OFF buf) ICSP_HEADER_LEN \<noteq> ICSP_CHUNK_COOKIE_ACK
             then client_wait_cookie_ack ck tries buf a evs w
             else HS_Ret 0 (a\<lparr>a_state := ST_ESTABLISHED\<rparr>) w)"

definition client_send_init ::
    "nacl \<Rightarrow> bytes \<Rightarrow> bytes option \<Rightarrow> icsp_assoc \<Rightarrow> world \<Rightarrow> int \<times> icsp_assoc \<times> world" where
  "client_send_init N sk spub a w =
     (let (chunk, a, w) = init_build N a sk spub w;
          (r, w) = icsp_send_pkt a chunk w
      in (r, a, w))"

fun client_wait_init_ack ::
    "nacl \<Rightarrow> bytes \<Rightarrow> bytes option \<Rightarrow> u16 \<Rightarrow> nat \<Rightarrow> bytes \<Rightarrow> icsp_assoc \<Rightarrow> rx_event list \<Rightarrow> world \<Rightarrow> hs_result" where
  "client_wait_init_ack N sk spub dport tries buf a [] w = HS_Wait a w"
| "client_wait_init_ack N sk spub dport tries buf a (ev # evs) w =
     (let w = at_event ev w;
          (res, a, buf) = icsp_recv_frame a buf ev w
      in case res of
           RF_Err _ \<Rightarrow>
             if tries + 1 < 5 then
               (let (r, a, w) = client_send_init N sk spub a w in
                if r < 0 then HS_Ret (-1) a w
                else client_wait_init_ack N sk spub dport (tries + 1) buf a evs w)
             else HS_Ret (-1) a w
         | RF_Noise \<Rightarrow> client_wait_init_ack N sk spub dport tries buf a evs w
         | RF_Got plen from \<Rightarrow>
             let payload = drop ICSP_OFF buf;
                 cd = drop (ICSP_HEADER_LEN + ICSP_CHUNK_HDR) payload
             in if icsp_check_pkt payload plen \<noteq> 0 then client_wait_init_ack N sk spub dport tries buf a evs w
                else if bget payload 4 \<noteq> ICSP_VERSION \<or> bget payload ICSP_HEADER_LEN \<noteq> ICSP_CHUNK_INIT_ACK
                then client_wait_init_ack N sk spub dport tries buf a evs w
                else if ipv69_get_be16 payload \<noteq> dport then client_wait_init_ack N sk spub dport tries buf a evs w
                else let a = a\<lparr>a_peer_eph := slice 5 32 cd, a_peer_id := slice 37 32 cd\<rparr> in
                  if ed25519_verify N (slice 0 69 cd) (drop 69 cd) (a_peer_id a) \<noteq> 0 then HS_Ret (-1) a w
                  else let a = icsp_derive_key N a (a_eph_priv a) w;
                           ck = cookie_echo N (slice 133 COOKIE_LEN cd) sk;
                           (r, w) = icsp_send_pkt a ck w
                       in if r < 0 then HS_Ret (-1) a w
                          else client_wait_cookie_ack ck 0 buf a evs w)"

text \<open>The association the client starts with, then the loop.\<close>

definition client_start :: "icsp_assoc \<Rightarrow> u64 \<Rightarrow> u16 \<Rightarrow> bytes \<Rightarrow> world \<Rightarrow> icsp_assoc \<times> world" where
  "client_start a dst_addr dport sk w =
     (let (a, w) = assoc_reset a w;
          a = a\<lparr>a_is_initiator := True, a_dst_addr := dst_addr, a_dst_port := dport\<rparr>;
          a = (if a_src_port a = 0
               then a\<lparr>a_src_port := of_nat (50000 + unat (of_nat (w_pid w) :: u16) mod 1000)\<rparr> else a);
          a = a\<lparr>a_state := ST_COOKIE_WAIT, a_streams_in := 4, a_streams_out := 4, a_rcv_timeout_ms := 3000,
                a_id_pub := slice 32 32 sk, a_sk := slice 0 64 sk\<rparr>;
          (ident, w) = random_be32 w
      in (a\<lparr>a_assoc_id := ident\<rparr>, w))"

definition icsp_client_handshake ::
    "nacl \<Rightarrow> icsp_assoc \<Rightarrow> u64 \<Rightarrow> u16 \<Rightarrow> bytes \<Rightarrow> bytes option \<Rightarrow> rx_event list \<Rightarrow> world \<Rightarrow> hs_result" where
  "icsp_client_handshake N a dst_addr dport sk server_pub evs w =
     (let buf = map (w_stack w) [0..<FRAME_BUF];
          (a, w) = client_start a dst_addr dport sk w;
          (r, a, w) = client_send_init N sk server_pub a w
      in if r < 0 then HS_Ret (-1) a w
         else client_wait_init_ack N sk server_pub dport 0 buf a evs w)"

section \<open>The server\<close>

text \<open>Before each receive of the first loop: the announcement when it is due, and the timeout.\<close>

definition accept_prepare :: "nacl \<Rightarrow> int \<Rightarrow> icsp_assoc \<Rightarrow> world \<Rightarrow> icsp_assoc \<times> world" where
  "accept_prepare N timeout_s a w =
     (if a_tunnel a \<and> 0 < a_announce_s a then
        (let (a, w) = (if a_last_ann a = 0 \<or> a_announce_s a \<le> w_time w - a_last_ann a
                       then snd (icsp_announce_send N a w) else (a, w))
         in (a\<lparr>a_rcv_timeout_ms := a_announce_s a * 1000\<rparr>, w))
      else (a\<lparr>a_rcv_timeout_ms := (if 0 < timeout_s then timeout_s * 1000 else 0)\<rparr>, w))"

fun server_wait_init ::
    "nacl \<Rightarrow> u16 \<Rightarrow> bytes \<Rightarrow> bytes list \<Rightarrow> int \<Rightarrow> bytes \<Rightarrow> icsp_assoc \<Rightarrow> rx_event list \<Rightarrow> world \<Rightarrow> hs_result" and
  server_wait_echo ::
    "nacl \<Rightarrow> u16 \<Rightarrow> bytes \<Rightarrow> bytes list \<Rightarrow> int \<Rightarrow> bytes \<Rightarrow> icsp_assoc \<Rightarrow> rx_event list \<Rightarrow> world \<Rightarrow> hs_result" where
  "server_wait_init N port sk peers timeout_s buf a [] w =
     (let (a, w) = accept_prepare N timeout_s a w in HS_Wait a w)"
| "server_wait_init N port sk peers timeout_s buf a (ev # evs) w =
     (let (a, w) = accept_prepare N timeout_s a w;
          w = at_event ev w;
          (res, a, buf) = icsp_recv_frame a buf ev w;
          again = (\<lambda>a w. server_wait_init N port sk peers timeout_s buf a evs w)
      in case res of
           RF_Err e \<Rightarrow>
             if e = EAGAIN \<or> e = EINTR then again a w
             else if a_tunnel a \<and> 0 < a_announce_s a \<and> e = ETIMEDOUT then again a w
             else HS_Ret (-1) a w
         | RF_Noise \<Rightarrow> again a w
         | RF_Got plen from \<Rightarrow>
             let payload = drop ICSP_OFF buf in
             if bget payload ICSP_HEADER_LEN \<noteq> ICSP_CHUNK_INIT then again a w
             else if ipv69_get_be16 (drop 2 payload) \<noteq> port then again a w
             else case init_check N a buf plen peers w of
               (r, a, w) \<Rightarrow>
                 if r < 0 then again a w
                 else case init_ack_send N (a\<lparr>a_dst_addr := from\<rparr>) sk w of
                   (r, a, w) \<Rightarrow>
                     if r < 0 then HS_Ret (-1) a w
                     else server_wait_echo N port sk peers timeout_s buf a evs w)"
| "server_wait_echo N port sk peers timeout_s buf a [] w = HS_Wait a w"
| "server_wait_echo N port sk peers timeout_s buf a (ev # evs) w =
     (let w = at_event ev w;
          (res, a, buf) = icsp_recv_frame a buf ev w;
          again = (\<lambda>a w. server_wait_echo N port sk peers timeout_s buf a evs w);
          retry = (\<lambda>a w. server_wait_init N port sk peers timeout_s buf a evs w)
      in case res of
           RF_Err e \<Rightarrow>
             if e = EAGAIN \<or> e = EINTR then again a w
             else if a_tunnel a \<and> 0 < a_announce_s a \<and> e = ETIMEDOUT
             then (let (a, w) = snd (icsp_announce_send N a w) in retry a w)
             else HS_Ret (-1) a w
         | RF_Noise \<Rightarrow> again a w
         | RF_Got plen from \<Rightarrow>
             let payload = drop ICSP_OFF buf;
                 cd = drop (ICSP_HEADER_LEN + ICSP_CHUNK_HDR) payload
             in if bget payload ICSP_HEADER_LEN \<noteq> ICSP_CHUNK_COOKIE_ECHO then again a w
                else case cookie_valid N cd a w of
                  (ok, w) \<Rightarrow>
                    if \<not> ok then retry a w
                    else if ed25519_verify N (slice 0 COOKIE_LEN cd) (drop COOKIE_LEN cd) (a_peer_id a) \<noteq> 0
                    then retry a w
                    else case icsp_send_pkt a (icsp_chunk_put ICSP_CHUNK_COOKIE_ACK 0) w of
                      (r, w) \<Rightarrow> if r < 0 then HS_Ret (-1) a w else HS_Ret 0 (a\<lparr>a_state := ST_ESTABLISHED\<rparr>) w)"

definition server_start :: "icsp_assoc \<Rightarrow> u16 \<Rightarrow> bytes \<Rightarrow> world \<Rightarrow> icsp_assoc \<times> world" where
  "server_start a port sk w =
     (let (a, w) = assoc_reset a w
      in (a\<lparr>a_is_initiator := False, a_src_port := port, a_dst_port := 0, a_state := ST_CLOSED,
            a_streams_in := 4, a_streams_out := 4, a_id_pub := slice 32 32 sk, a_sk := slice 0 64 sk\<rparr>, w))"

definition icsp_server_accept ::
    "nacl \<Rightarrow> icsp_assoc \<Rightarrow> u16 \<Rightarrow> bytes \<Rightarrow> bytes list \<Rightarrow> int \<Rightarrow> rx_event list \<Rightarrow> world \<Rightarrow> hs_result" where
  "icsp_server_accept N a port sk peers timeout_s evs w =
     (let buf = map (w_stack w) [0..<FRAME_BUF];
          (a, w) = server_start a port sk w
      in server_wait_init N port sk peers timeout_s buf a evs w)"

section \<open>Rekeying\<close>

definition icsp_rekey_start :: "nacl \<Rightarrow> icsp_assoc \<Rightarrow> world \<Rightarrow> int \<times> icsp_assoc \<times> world" where
  "icsp_rekey_start N a w =
     (let (ident, w) = random_be32 w;
          a = a\<lparr>a_assoc_id := ident\<rparr>;
          (chunk, a, w) = init_build N a (a_sk a) None w;
          (r, w) = icsp_send_pkt a chunk w
      in if r < 0 then (-1, a, w) else (0, a\<lparr>a_state := ST_REKEY_WAIT_ACK\<rparr>, w))"

definition icsp_rekey_client_step :: "nacl \<Rightarrow> icsp_assoc \<Rightarrow> bytes \<Rightarrow> world \<Rightarrow> int \<times> icsp_assoc \<times> world" where
  "icsp_rekey_client_step N a payload w =
     (let cd = drop (ICSP_HEADER_LEN + ICSP_CHUNK_HDR) payload;
          ty = bget payload ICSP_HEADER_LEN
      in if a_state a = ST_REKEY_WAIT_ACK \<and> ty = ICSP_CHUNK_INIT_ACK then
           (let a = a\<lparr>a_peer_eph := slice 5 32 cd, a_peer_id := slice 37 32 cd\<rparr> in
            if ed25519_verify N (slice 0 69 cd) (drop 69 cd) (a_peer_id a) \<noteq> 0 then (-1, a, w)
            else let (r, w) = icsp_send_pkt a (cookie_echo N (slice 133 COOKIE_LEN cd) (a_sk a)) w
                 in if r < 0 then (-1, a, w) else (0, a\<lparr>a_state := ST_REKEY_WAIT_COOKIE_ACK\<rparr>, w))
         else if a_state a = ST_REKEY_WAIT_COOKIE_ACK \<and> ty = ICSP_CHUNK_COOKIE_ACK then
           (let a = icsp_derive_key N a (a_eph_priv a) w;
                (a, w) = data_plane_reset a w
            in (1, a\<lparr>a_state := ST_ESTABLISHED\<rparr>, w))
         else (0, a, w))"

text \<open>\<open>frame\<close> is the receive buffer; the payload starts at byte 46.\<close>

definition icsp_rekey_server_step ::
    "nacl \<Rightarrow> icsp_assoc \<Rightarrow> bytes \<Rightarrow> nat \<Rightarrow> world \<Rightarrow> int \<times> icsp_assoc \<times> world" where
  "icsp_rekey_server_step N a frame plen w =
     (let payload = drop ICSP_OFF frame;
          cd = drop (ICSP_HEADER_LEN + ICSP_CHUNK_HDR) payload;
          ty = bget payload ICSP_HEADER_LEN
      in if a_state a = ST_ESTABLISHED \<and> ty = ICSP_CHUNK_INIT then
           (let save_id = a_peer_id a;
                (r, a, w) = init_check N a frame plen [] w
            in if r < 0 then (-1, a, w)
               else if a_peer_id a \<noteq> save_id then (-1, a, w)
               else let (r, a, w) = init_ack_send N a (a_sk a) w
                    in if r < 0 then (-1, a, w) else (0, a\<lparr>a_state := ST_REKEY_WAIT_COOKIE\<rparr>, w))
         else if a_state a = ST_REKEY_WAIT_COOKIE \<and> ty = ICSP_CHUNK_COOKIE_ECHO then
           (let (ok, w) = cookie_valid N cd a w
            in if \<not> ok then (-1, a, w)
               else if ed25519_verify N (slice 0 COOKIE_LEN cd) (drop COOKIE_LEN cd) (a_peer_id a) \<noteq> 0 then (-1, a, w)
               else let (r, w) = icsp_send_pkt a (icsp_chunk_put ICSP_CHUNK_COOKIE_ACK 0) w
                    in if r < 0 then (-1, a, w)
                       else let (a, w) = data_plane_reset a w in (1, a\<lparr>a_state := ST_ESTABLISHED\<rparr>, w))
         else (0, a, w))"

end
