(* ===== verification/Icsp_Session.thy ===== *)
theory Icsp_Session
  imports Icsp_Handshake
begin

text \<open>
  The session layer of \<^verbatim>\<open>c/src/ICSP/icsp_session.c\<close>: the endpoint of a tunnel, the
  handler every received frame goes through, the keepalive tick, one poll, and the relay
  between standard input and a stream.

  The callback \<^verbatim>\<open>on_data\<close> belongs to the caller: it is the argument \<open>cb\<close>, which gets the
  association, the stream, the message, the world and the caller's own state \<open>u\<close>
  (the pointer \<^verbatim>\<open>ud\<close>). \<open>None\<close> as a result is undefined behaviour (a write outside an array).
\<close>

abbreviation (input) ICSP_POLL_DATA :: int where "ICSP_POLL_DATA \<equiv> 1"
abbreviation (input) ICSP_POLL_TIMEOUT :: int where "ICSP_POLL_TIMEOUT \<equiv> 0"
abbreviation (input) ICSP_POLL_ERR :: int where "ICSP_POLL_ERR \<equiv> -1"
abbreviation (input) ICSP_POLL_DEAD :: int where "ICSP_POLL_DEAD \<equiv> -2"
abbreviation (input) ICSP_POLL_CLOSED :: int where "ICSP_POLL_CLOSED \<equiv> -3"
abbreviation (input) ICSP_POLL_EOF :: int where "ICSP_POLL_EOF \<equiv> -4"

type_synonym 'u data_cb = "icsp_assoc \<Rightarrow> u16 \<Rightarrow> bytes \<Rightarrow> world \<Rightarrow> 'u \<Rightarrow> (icsp_assoc \<times> world \<times> 'u) option"

section \<open>The endpoint\<close>

text \<open>The association of a tunnel endpoint; the identity and the socket come from outside.\<close>

definition icsp_endpoint_open_gw :: "nacl \<Rightarrow> bytes \<Rightarrow> bytes \<Rightarrow> bytes \<Rightarrow> int \<Rightarrow> icsp_assoc" where
  "icsp_endpoint_open_gw N sk pub gw tfd =
     assoc0\<lparr>a_id_pub := pub, a_sk := sk, a_gw := gw, a_tfd := tfd, a_tunnel := True, a_ifindex := -1,
       a_src_mac := 2 # slice 0 5 pub,
       a_src_addr := ipv69_addr_get (ipv69_addr_derive N pub CHR ''C'')\<rparr>"

section \<open>One received frame\<close>

text \<open>The rekey steps: \<open>Some r\<close> when the handler returns \<open>r\<close> here. The second step looks at the
  state the first one left.\<close>

definition rekey_dispatch ::
    "nacl \<Rightarrow> icsp_assoc \<Rightarrow> bytes \<Rightarrow> nat \<Rightarrow> world \<Rightarrow> int option \<times> icsp_assoc \<times> world" where
  "rekey_dispatch N a frame plen w =
     (let (c, a, w) =
        (if a_state a = ST_REKEY_WAIT_ACK \<or> a_state a = ST_REKEY_WAIT_COOKIE_ACK then
           (let (r, a, w) = icsp_rekey_client_step N a (drop ICSP_OFF frame) w
            in (if r < 0 then Some ICSP_POLL_ERR else if r = 1 then Some 0 else None, a, w))
         else (None, a, w))
      in if c \<noteq> None then (c, a, w)
         else if a_state a = ST_ESTABLISHED \<or> a_state a = ST_REKEY_WAIT_COOKIE then
           (let (r, a, w) = icsp_rekey_server_step N a frame plen w
            in (if r < 0 then Some ICSP_POLL_ERR else if r = 1 then Some 0 else None, a, w))
         else (None, a, w))"

definition sack_reply :: "icsp_assoc \<Rightarrow> u32 \<Rightarrow> world \<Rightarrow> world" where
  "sack_reply a cum_before w =
     (if a_cum_tsn a = cum_before then w
      else if a_sack_loss_pct a \<le> 0 then snd (icsp_sack_send a w)
      else let r = w_rand w (w_nrand w); w = w\<lparr>w_nrand := Suc (w_nrand w)\<rparr>
           in if a_sack_loss_pct a \<le> int (r mod 100) then snd (icsp_sack_send a w) else w)"

definition handle_chunks ::
    "nacl \<Rightarrow> 'u data_cb option \<Rightarrow> icsp_assoc \<Rightarrow> bytes \<Rightarrow> nat \<Rightarrow> world \<Rightarrow> 'u \<Rightarrow> (int \<times> icsp_assoc \<times> world \<times> 'u) option" where
  "handle_chunks N cb a payload plen w u =
     (case icsp_data_handle N a payload plen ICSP_MAX_PAYLOAD w of
        None \<Rightarrow> None
      | Some (m, b, d) \<Rightarrow>
          if m < 0 then Some (ICSP_POLL_ERR, b, w, u)
          else case (case (d, cb) of
                       (Some (msg, sid), Some f) \<Rightarrow> if 0 < m then f b sid msg w u else Some (b, w, u)
                     | _ \<Rightarrow> Some (b, w, u)) of
                 None \<Rightarrow> None
               | Some (b, w, u) \<Rightarrow>
                   let w = sack_reply b (a_cum_tsn a) w;
                       (l, b) = icsp_life_handle b payload plen
                   in Some (if l \<noteq> 0 then ICSP_POLL_CLOSED else if 0 < m then ICSP_POLL_DATA else 0, b, w, u))"

definition icsp_handle_frame ::
    "nacl \<Rightarrow> 'u data_cb option \<Rightarrow> icsp_assoc \<Rightarrow> bytes \<Rightarrow> nat \<Rightarrow> world \<Rightarrow> 'u \<Rightarrow> (int \<times> icsp_assoc \<times> world \<times> 'u) option" where
  "icsp_handle_frame N cb a frame n w u =
     (let payload = drop ICSP_OFF frame; plen = n - ICSP_OFF
      in if n < ETH_LEN + IPV69_HEADER_LEN + ICSP_HEADER_LEN then Some (0, a, w, u)
         else if own_tx_control a frame n then Some (0, a, w, u)
         else if next_header (hdr_at (drop ETH_LEN frame)) \<noteq> IPV69_NEXT_STREAM then Some (0, a, w, u)
         else if icsp_check_pkt payload plen \<noteq> 0 then Some (0, a, w, u)
         else let a = a\<lparr>a_peer_mac := slice 6 6 frame, a_has_peer_mac := True, a_last_rx := w_time w\<rparr>;
                  w = (if ICSP_HEADER_LEN + ICSP_CHUNK_HDR \<le> plen \<and> bget payload ICSP_HEADER_LEN = ICSP_CHUNK_HEARTBEAT
                       then snd (icsp_heartbeat_ack a w) else w)
              in case rekey_dispatch N a frame plen w of
                   (Some r, a, w) \<Rightarrow> Some (r, a, w, u)
                 | (None, a, w) \<Rightarrow> handle_chunks N cb a payload plen w u)"

section \<open>Keepalive and poll\<close>

definition icsp_keepalive_tick :: "nacl \<Rightarrow> icsp_assoc \<Rightarrow> world \<Rightarrow> bool \<times> icsp_assoc \<times> world" where
  "icsp_keepalive_tick N a w =
     (let now = w_time w in
      if 0 < a_dead_timeout_s a \<and> a_dead_timeout_s a \<le> now - a_last_rx a then (True, a, w)
      else let (a, w) = (if 0 < a_hb_interval_s a \<and> a_hb_interval_s a \<le> now - a_last_hb a
                         then (a\<lparr>a_last_hb := now\<rparr>, snd (icsp_heartbeat_send a w)) else (a, w));
               (a, w) = (if a_tunnel a \<and> 0 < a_announce_s a \<and> a_announce_s a \<le> now - a_last_ann a
                         then snd (icsp_announce_send N a w) else (a, w));
               (a, w) = (if 0 < a_rekey_interval_s a \<and> a_is_initiator a \<and> a_state a = ST_ESTABLISHED \<and>
                            a_rekey_interval_s a \<le> now - a_key_ts a
                         then snd (icsp_rekey_start N a w) else (a, w))
           in (False, a, w))"

definition icsp_poll ::
    "nacl \<Rightarrow> 'u data_cb option \<Rightarrow> icsp_assoc \<Rightarrow> int \<Rightarrow> rx_event \<Rightarrow> world \<Rightarrow> 'u \<Rightarrow> (int \<times> icsp_assoc \<times> world \<times> 'u) option" where
  "icsp_poll N cb a timeout_ms ev w u =
     (let w = at_event ev w
      in case icsp_rx a (map (w_stack w) [0..<FRAME_BUF]) timeout_ms ev of
           Rx_Fail _ \<Rightarrow> Some (ICSP_POLL_ERR, a, w, u)
         | Rx_Len n frame \<Rightarrow>
             if n = 0 then
               (let (dead, a, w) = icsp_keepalive_tick N a w
                in Some (if dead then ICSP_POLL_DEAD else ICSP_POLL_TIMEOUT, a, w, u))
             else icsp_handle_frame N cb a frame n w u)"

section \<open>The relay\<close>

text \<open>The line is a C string: it ends at the first 0; line terminators are stripped.\<close>

definition c_str :: "bytes \<Rightarrow> bytes" where
  "c_str b = takeWhile (\<lambda>c. c \<noteq> 0) b"

definition strip_eol :: "bytes \<Rightarrow> bytes" where
  "strip_eol b = rev (dropWhile (\<lambda>c. c = 10 \<or> c = 13) (rev b))"

definition relay_send_line ::
    "nacl \<Rightarrow> icsp_assoc \<Rightarrow> u16 \<Rightarrow> bytes \<Rightarrow> world \<Rightarrow> (int \<times> icsp_assoc \<times> world) option" where
  "relay_send_line N a sid line w =
     (let line = strip_eol (c_str line)
      in if line = [] then Some (1, a, w)
         else case icsp_data_send N a sid line w of
                None \<Rightarrow> None
              | Some (r, a, w) \<Rightarrow> Some (if r = -1 then -1 else 1, a, w))"

text \<open>The static line buffer of the POSIX build: \<^verbatim>\<open>inbuf\<close> has 2800 bytes, of which \<open>in_len\<close>
  are in use. What standard input answers to one \<^verbatim>\<open>poll\<close> and \<^verbatim>\<open>read\<close> is a \<open>stdin_event\<close>; when the list
  is exhausted, \<^verbatim>\<open>poll\<close> finds nothing.\<close>

abbreviation (input) INBUF :: nat where "INBUF \<equiv> 2800"

record relay_in =
  in_buf :: bytes
  in_len :: nat

definition relay_in0 :: relay_in where "relay_in0 = \<lparr>in_buf = zeros INBUF, in_len = 0\<rparr>"

datatype stdin_event = In_None | In_Data bytes | In_Eof | In_Err errno

definition memchr :: "u8 \<Rightarrow> bytes \<Rightarrow> nat option" where
  "memchr c b = find (\<lambda>i. b ! i = c) [0..<length b]"

text \<open>Taking the first line out of the buffer. The line's length is clamped before it is
  used to move the rest down; \<open>None\<close> when the move reads or writes outside the array.\<close>

definition take_line :: "relay_in \<Rightarrow> nat \<Rightarrow> (bytes \<times> relay_in) option" where
  "take_line st nl =
     (let l = (if ICSP_MAX_PAYLOAD \<le> nl then ICSP_MAX_PAYLOAD - 1 else nl);
          n = size_sub (in_len st) (l + 1)
      in if INBUF < nl + 1 + n then None
         else Some (slice 0 l (in_buf st),
                    \<lparr>in_buf = blit (in_buf st) 0 (slice (nl + 1) n (in_buf st)), in_len = n\<rparr>))"

record relay_out =
  ro_ret :: int
  ro_use_stdin :: bool

fun relay_stdin ::
    "nacl \<Rightarrow> bool \<Rightarrow> u16 \<Rightarrow> stdin_event list \<Rightarrow> icsp_assoc \<Rightarrow> relay_in \<Rightarrow> world \<Rightarrow>
     (relay_out \<times> icsp_assoc \<times> relay_in \<times> world) option" where
  "relay_stdin N tty sid ins a st w =
     (case memchr 10 (slice 0 (in_len st) (in_buf st)) of
        Some nl \<Rightarrow>
          (case take_line st nl of
             None \<Rightarrow> None
           | Some (line, st) \<Rightarrow>
               (case relay_send_line N a sid line w of
                  None \<Rightarrow> None
                | Some (r, a, w) \<Rightarrow> Some (\<lparr>ro_ret = (if r < 0 then -1 else 1), ro_use_stdin = True\<rparr>, a, st, w)))
      | None \<Rightarrow>
          let st = (if INBUF \<le> in_len st then st\<lparr>in_len := 0\<rparr> else st)
          in case ins of
               [] \<Rightarrow> Some (\<lparr>ro_ret = 0, ro_use_stdin = True\<rparr>, a, st, w)
             | In_None # _ \<Rightarrow> Some (\<lparr>ro_ret = 0, ro_use_stdin = True\<rparr>, a, st, w)
             | In_Data d # rest \<Rightarrow>
                 let d = take (INBUF - in_len st) d
                 in if d \<noteq> [] then
                      relay_stdin N tty sid rest a \<lparr>in_buf = blit (in_buf st) (in_len st) d, in_len = in_len st + length d\<rparr> w
                    else Some (\<lparr>ro_ret = (if tty then 2 else 0), ro_use_stdin = tty\<rparr>,
                               if tty then fst (snd (icsp_shutdown_send a w)) else a, st,
                               if tty then snd (snd (icsp_shutdown_send a w)) else w)
             | In_Eof # _ \<Rightarrow> Some (\<lparr>ro_ret = (if tty then 2 else 0), ro_use_stdin = tty\<rparr>,
                               if tty then fst (snd (icsp_shutdown_send a w)) else a, st,
                               if tty then snd (snd (icsp_shutdown_send a w)) else w)
             | In_Err e # _ \<Rightarrow> Some (\<lparr>ro_ret = (if e = EINTR \<or> e = EAGAIN then 0 else -1), ro_use_stdin = True\<rparr>, a, st, w))"

declare relay_stdin.simps [simp del]

text \<open>Each turn of the relay: what standard input answers, then one receive.\<close>

datatype 'u relay_result = Relay_Ret int icsp_assoc world 'u | Relay_Wait icsp_assoc relay_in world 'u

fun icsp_relay ::
    "nacl \<Rightarrow> 'u data_cb option \<Rightarrow> bool \<Rightarrow> u16 \<Rightarrow> bool \<Rightarrow> (stdin_event list \<times> rx_event) list \<Rightarrow> bytes \<Rightarrow>
     icsp_assoc \<Rightarrow> relay_in \<Rightarrow> world \<Rightarrow> 'u \<Rightarrow> 'u relay_result option" where
  "icsp_relay N cb tty sid use_stdin [] buf a st w u = Some (Relay_Wait a st w u)"
| "icsp_relay N cb tty sid use_stdin ((ins, ev) # turns) buf a st w u =
     (case (if use_stdin then relay_stdin N tty sid ins a st w
            else Some (\<lparr>ro_ret = 0, ro_use_stdin = False\<rparr>, a, st, w)) of
        None \<Rightarrow> None
      | Some (ro, a, st, w) \<Rightarrow>
          if ro_ret ro < 0 then Some (Relay_Ret ICSP_POLL_ERR a w u)
          else if ro_ret ro = 2 then Some (Relay_Ret ICSP_POLL_EOF a w u)
          else let w = at_event ev w
            in case icsp_rx a buf 250 ev of
                 Rx_Fail _ \<Rightarrow> Some (Relay_Ret ICSP_POLL_ERR a w u)
               | Rx_Len n frame \<Rightarrow>
                   if n = 0 then
                     (let (dead, a, w) = icsp_keepalive_tick N a w
                      in if dead then Some (Relay_Ret ICSP_POLL_DEAD a w u)
                         else icsp_relay N cb tty sid (ro_use_stdin ro) turns frame a st w u)
                   else case icsp_handle_frame N cb a frame n w u of
                          None \<Rightarrow> None
                        | Some (pr, a, w, u) \<Rightarrow>
                            if pr = ICSP_POLL_CLOSED \<or> pr = ICSP_POLL_DEAD \<or> pr = ICSP_POLL_ERR
                            then Some (Relay_Ret pr a w u)
                            else icsp_relay N cb tty sid (ro_use_stdin ro) turns frame a st w u)"

declare icsp_relay.simps [simp del]

end
