(* ===== verification/Icsp_Replay.thy ===== *)
theory Icsp_Replay
  imports Icsp_Data
begin

text \<open>
  The anti-replay window. The interface the data path relies on is the locale
  \<open>replay_filter\<close>: once a number is accepted it is refused for ever, through any later
  traffic. The window of \<^verbatim>\<open>icsp_data_handle\<close> provides it.
\<close>

section \<open>The interface\<close>

locale replay_filter =
  fixes chk :: "'s \<Rightarrow> 't \<Rightarrow> bool \<times> 's"
  assumes accept_blocks: "chk s t = (True, s') \<Longrightarrow> \<not> fst (chk s' t)"
    and block_stays: "\<not> fst (chk s u) \<Longrightarrow> chk s t = (b, s') \<Longrightarrow> \<not> fst (chk s' u)"
    and refuse_keeps: "chk s t = (False, s') \<Longrightarrow> s' = s"
begin

fun run :: "'s \<Rightarrow> 't list \<Rightarrow> 's" where
  "run s [] = s"
| "run s (t # ts) = run (snd (chk s t)) ts"

fun accepted :: "'s \<Rightarrow> 't list \<Rightarrow> 't list" where
  "accepted s [] = []"
| "accepted s (t # ts) = (if fst (chk s t) then [t] else []) @ accepted (snd (chk s t)) ts"

lemma blocked_run: "\<not> fst (chk s u) \<Longrightarrow> \<not> fst (chk (run s ts) u)"
proof (induction ts arbitrary: s)
  case (Cons t ts)
  then show ?case using block_stays [of s u t "fst (chk s t)" "snd (chk s t)"] by simp
qed simp

lemma blocked_not_accepted: "\<not> fst (chk s u) \<Longrightarrow> u \<notin> set (accepted s ts)"
proof (induction ts arbitrary: s)
  case (Cons t ts)
  then show ?case using block_stays [of s u t "fst (chk s t)" "snd (chk s t)"] by auto
qed simp

lemma accepted_distinct: "distinct (accepted s ts)"
proof (induction ts arbitrary: s)
  case (Cons t ts)
  have "fst (chk s t) \<Longrightarrow> t \<notin> set (accepted (snd (chk s t)) ts)"
    using accept_blocks [of s t "snd (chk s t)"] blocked_not_accepted by (metis prod.collapse)
  with Cons show ?case by auto
qed simp

lemma replay_refused: "fst (chk s t) \<Longrightarrow> \<not> fst (chk (run (snd (chk s t)) ts) t)"
  using accept_blocks [of s t "snd (chk s t)"] blocked_run by (metis prod.collapse)

end

section \<open>The ICSP window provides it\<close>

text \<open>What the window refuses: everything more than 31 below the highest number, and every
  number whose bit is set.\<close>

lemma replay_check_fst:
  "fst (replay_check (r, m) t) \<longleftrightarrow> r < t \<or> (unat r - unat t < 32 \<and> \<not> bit m (unat r - unat t))"
proof (cases "r < t")
  case False
  then have le: "t \<le> r" by simp
  have "unat (r - t) = unat r - unat t" using le by (simp add: unat_sub_if' word_le_nat_alt)
  moreover have "32 \<le> r - t \<longleftrightarrow> 32 \<le> unat (r - t)" by (simp add: word_le_nat_alt)
  ultimately show ?thesis using False by (auto simp: replay_check_def)
qed (simp add: replay_check_def Let_def)

lemma replay_check_above:
  assumes "r < t"
  shows "replay_check (r, m) t =
    (True, (t, if unat t - unat r < 32 then push_bit (unat t - unat r) m OR 1 else 1))"
proof -
  have "unat (t - r) = unat t - unat r" using assms by (simp add: unat_sub_if' word_less_nat_alt)
  moreover have "t - r < 32 \<longleftrightarrow> unat (t - r) < 32" by (simp add: word_less_nat_alt)
  ultimately show ?thesis using assms by (simp add: replay_check_def Let_def)
qed

lemma replay_check_within:
  assumes "t \<le> r" "fst (replay_check (r, m) t)"
  shows "replay_check (r, m) t = (True, (r, m OR push_bit (unat r - unat t) 1))"
proof -
  have "unat (r - t) = unat r - unat t" using assms by (simp add: unat_sub_if' word_le_nat_alt)
  then show ?thesis using assms by (auto simp: replay_check_def Let_def split: if_splits)
qed

lemma replay_refuse_keeps: "replay_check s t = (False, s') \<Longrightarrow> s' = s"
  by (auto simp: replay_check_def Let_def split: prod.splits if_splits)

lemma replay_accept_blocks: "replay_check s t = (True, s') \<Longrightarrow> \<not> fst (replay_check s' t)"
proof -
  assume acc: "replay_check s t = (True, s')"
  obtain r m where s: "s = (r, m)" by (cases s)
  show ?thesis
  proof (cases "r < t")
    case True
    then have "s' = (t, if unat t - unat r < 32 then push_bit (unat t - unat r) m OR 1 else 1)"
      using acc s by (simp add: replay_check_above)
    moreover have "bit (if unat t - unat r < 32 then push_bit (unat t - unat r) m OR 1 else (1 :: u32)) 0"
      by (simp add: bit_or_iff)
    ultimately show ?thesis by (simp add: replay_check_fst)
  next
    case False
    then have "s' = (r, m OR push_bit (unat r - unat t) 1)" "unat r - unat t < 32"
      using replay_check_within [of t r m] acc s replay_check_fst [of r m t] by auto
    then show ?thesis using False by (simp add: replay_check_fst bit_simps)
  qed
qed

lemma replay_block_stays:
  assumes "\<not> fst (replay_check s u)" "replay_check s t = (b, s')"
  shows "\<not> fst (replay_check s' u)"
proof -
  obtain r m where s: "s = (r, m)" by (cases s)
  have u: "\<not> r < u" "unat r - unat u < 32 \<longrightarrow> bit m (unat r - unat u)"
    using assms(1) s by (auto simp: replay_check_fst)
  have ur: "unat u \<le> unat r" using u(1) by (simp add: word_le_nat_alt not_less)
  show ?thesis
  proof (cases b)
    case False
    then show ?thesis using assms replay_refuse_keeps [of s t s'] by simp
  next
    case b: True
    show ?thesis
    proof (cases "r < t")
      case True
      then have rt: "unat r < unat t" by (simp add: word_less_nat_alt)
      have s': "s' = (t, if unat t - unat r < 32 then push_bit (unat t - unat r) m OR 1 else 1)"
        using assms(2) s True by (simp add: replay_check_above)
      have "\<not> t < u" using ur rt by (simp add: word_less_nat_alt)
      moreover have "bit (if unat t - unat r < 32 then push_bit (unat t - unat r) m OR 1 else 1) (unat t - unat u)"
        if d: "unat t - unat u < 32"
      proof -
        have "unat t - unat r < 32" "unat r - unat u < 32" using d ur rt by auto
        moreover have "unat t - unat u - (unat t - unat r) = unat r - unat u"
          "unat t - unat r \<le> unat t - unat u" using ur rt by auto
        ultimately show ?thesis using u(2) ur rt d
          by (simp add: bit_or_iff bit_push_bit_iff)
      qed
      ultimately show ?thesis using s' by (auto simp: replay_check_fst)
    next
      case False
      then have "s' = (r, m OR push_bit (unat r - unat t) 1)"
        using replay_check_within [of t r m] assms(2) s b by auto
      then show ?thesis using u by (auto simp: replay_check_fst bit_or_iff)
    qed
  qed
qed

interpretation rw: replay_filter replay_check
  by (rule replay_filter.intro)
    (rule replay_accept_blocks replay_block_stays replay_refuse_keeps, assumption+)+

text \<open>The window run over a sequence of arriving numbers: the ones that pass.\<close>

fun window_accepts :: "u32 \<times> u32 \<Rightarrow> u32 list \<Rightarrow> u32 list" where
  "window_accepts s [] = []"
| "window_accepts s (t # ts) =
     (case replay_check s t of (ok, s') \<Rightarrow> (if ok then [t] else []) @ window_accepts s' ts)"

lemma window_accepts_eq: "window_accepts s ts = rw.accepted s ts"
  by (induction s ts rule: window_accepts.induct) (simp_all split: prod.splits)

text \<open>Whatever sequence of sequence numbers arrives, in whatever order and with whatever
  repetitions, the window accepts each number at most once.\<close>

theorem replay_window_at_most_once: "distinct (window_accepts s ts)"
  by (simp add: window_accepts_eq rw.accepted_distinct)

text \<open>The window does not wrap: numbers more than 31 behind the highest are refused, so after the
  highest number of the 32-bit space nothing below it passes any more.\<close>

lemma replay_no_wrap: "unat t + 32 \<le> unat r \<Longrightarrow> \<not> fst (replay_check (r, m) t)"
  by (auto simp: replay_check_fst word_less_nat_alt)

lemma replay_fresh: "r < t \<Longrightarrow> \<exists>s'. replay_check (r, m) t = (True, (t, s'))"
  by (simp add: replay_check_above)

end
