(* ===== verification/Icsp_Flow.thy ===== *)
theory Icsp_Flow
  imports Icsp_Replay
begin

text \<open>
  What the data path does end to end: the stream table, one chunk through the loop, a
  message from \<open>icsp_data_send\<close> to delivery by \<open>icsp_data_handle\<close>, and runs of
  messages over an ordered, loss-free link.
\<close>

section \<open>The stream table\<close>

definition stream_ids :: "icsp_assoc \<Rightarrow> u16 list" where
  "stream_ids a = map (\<lambda>i. st_id (a_streams a ! i)) [0..<a_n_streams a]"

definition send_seq :: "icsp_assoc \<Rightarrow> u16 \<Rightarrow> u16" where
  "send_seq a sid = (case find_stream a sid of Some i \<Rightarrow> st_next_send_seq (a_streams a ! i) | None \<Rightarrow> 0)"

definition recv_seq :: "icsp_assoc \<Rightarrow> u16 \<Rightarrow> u16" where
  "recv_seq a sid = (case find_stream a sid of Some i \<Rightarrow> st_next_recv_seq (a_streams a ! i) | None \<Rightarrow> 0)"

lemma find_stream_Some:
  "find_stream a sid = Some i \<Longrightarrow> i < a_n_streams a \<and> st_id (a_streams a ! i) = sid"
  by (auto simp: find_stream_def find_Some_iff)

lemma find_stream_None: "find_stream a sid = None \<longleftrightarrow> sid \<notin> set (stream_ids a)"
  by (auto simp: find_stream_def find_None_iff stream_ids_def)

lemma find_stream_ids: "stream_ids a = stream_ids b \<Longrightarrow> find_stream a sid = find_stream b sid"
proof -
  assume eq: "stream_ids a = stream_ids b"
  have n: "a_n_streams a = a_n_streams b"
    using arg_cong [OF eq, of length] by (simp add: stream_ids_def)
  have "st_id (a_streams a ! i) = st_id (a_streams b ! i)" if "i < a_n_streams b" for i
    using arg_cong [OF eq, of "\<lambda>l. l ! i"] that n by (simp add: stream_ids_def)
  then show ?thesis unfolding find_stream_def n by (intro find_cong) auto
qed

text \<open>Updating the counters of one stream.\<close>

lemma upd_stream_ids [simp]:
  assumes "\<And>s. st_id (f s) = st_id s"
  shows "stream_ids (upd_stream i f a) = stream_ids a"
proof (cases "i < length (a_streams a)")
  case True
  then show ?thesis using assms by (auto simp: stream_ids_def upd_stream_def nth_list_update)
qed (simp add: stream_ids_def upd_stream_def not_less list_update_beyond)

lemma upd_stream_wf [inv_intros]: "assoc_wf a \<Longrightarrow> assoc_wf (upd_stream i f a)"
  by (simp add: assoc_wf_def upd_stream_def)

lemma upd_stream_seqs:
  assumes "\<And>s. st_id (f s) = st_id s" and "find_stream a sid = Some i" and "assoc_wf a"
  shows "send_seq (upd_stream i f a) = (send_seq a)(sid := st_next_send_seq (f (a_streams a ! i)))"
    and "recv_seq (upd_stream i f a) = (recv_seq a)(sid := st_next_recv_seq (f (a_streams a ! i)))"
proof -
  have fs: "find_stream (upd_stream i f a) x = find_stream a x" for x
    by (rule find_stream_ids) (simp add: assms(1))
  have i: "i < length (a_streams a)" "st_id (a_streams a ! i) = sid"
    using find_stream_Some [OF assms(2)] assms(3) by (auto simp: assoc_wf_def)
  have other: "find_stream a x = Some j \<Longrightarrow> x \<noteq> sid \<Longrightarrow> j \<noteq> i" for x j
    using find_stream_Some [of a x j] i by auto
  have at: "a_streams (upd_stream i f a) ! j = (if j = i then f (a_streams a ! i) else a_streams a ! j)" for j
    using i by (simp add: upd_stream_def)
  show "send_seq (upd_stream i f a) = (send_seq a)(sid := st_next_send_seq (f (a_streams a ! i)))"
    using assms(2) other by (auto simp: send_seq_def fs at split: option.splits)
  show "recv_seq (upd_stream i f a) = (recv_seq a)(sid := st_next_recv_seq (f (a_streams a ! i)))"
    using assms(2) other by (auto simp: recv_seq_def fs at split: option.splits)
qed

lemma get_stream_frame:
  "get_stream a sid = (so, b) \<Longrightarrow> b = a\<lparr>a_streams := a_streams b, a_n_streams := a_n_streams b\<rparr>"
  by (auto simp: get_stream_def split: option.splits if_splits)

lemma get_stream_wf [inv_intros]: "assoc_wf a \<Longrightarrow> assoc_wf (snd (get_stream a sid))"
  by (auto simp: get_stream_def assoc_wf_def split: option.splits)

text \<open>Looking a stream up finds it afterwards, and changes no counter.\<close>

lemma get_stream_Some:
  assumes wf: "assoc_wf a" and get: "get_stream a sid = (Some i, b)"
  shows "find_stream b sid = Some i" "send_seq b = send_seq a" "recv_seq b = recv_seq a"
    "stream_ids b = (if sid \<in> set (stream_ids a) then stream_ids a else stream_ids a @ [sid])"
    "i < length (a_streams b)"
proof -
  have "find_stream b sid = Some i \<and> send_seq b = send_seq a \<and> recv_seq b = recv_seq a \<and>
    stream_ids b = (if sid \<in> set (stream_ids a) then stream_ids a else stream_ids a @ [sid]) \<and>
    i < length (a_streams b)"
  proof (cases "find_stream a sid")
    case (Some j)
    then show ?thesis
      using get wf find_stream_Some [OF Some] find_stream_None [of a sid]
      by (auto simp: get_stream_def assoc_wf_def)
  next
    case None
    let ?n = "a_n_streams a"
    have n: "?n < 8" "i = ?n"
      and b: "b = a\<lparr>a_streams := (a_streams a)[?n := stream0\<lparr>st_id := sid\<rparr>], a_n_streams := Suc ?n\<rparr>"
      using get None by (auto simp: get_stream_def split: if_splits)
    have len: "length (a_streams a) = 8" using wf by (simp add: assoc_wf_def)
    have ids: "stream_ids b = stream_ids a @ [sid]"
      using n len by (auto simp: stream_ids_def b)
    have fs: "find_stream b x = (if x = sid then Some ?n else find_stream a x)" for x
    proof -
      have "find (\<lambda>i. st_id (a_streams b ! i) = x) [0..<?n] = find_stream a x"
        unfolding find_stream_def by (rule find_cong) (use b in auto)
      moreover have "find p (xs @ [y]) = (case find p xs of Some z \<Rightarrow> Some z | None \<Rightarrow> if p y then Some y else None)" for p xs and y :: nat
        by (induction xs) auto
      ultimately show ?thesis
        using None n len by (auto simp: find_stream_def b split: option.splits)
    qed
    have at: "a_streams b ! j = (if j = ?n then stream0\<lparr>st_id := sid\<rparr> else a_streams a ! j)" for j
      using n len by (simp add: b)
    have "find_stream a x = Some j \<Longrightarrow> j \<noteq> ?n" for x j
      using find_stream_Some [of a x j] by auto
    then have "send_seq b = send_seq a" "recv_seq b = recv_seq a"
      using None by (auto simp: send_seq_def recv_seq_def fs at stream0_def split: option.splits)
    moreover have "sid \<notin> set (stream_ids a)" using None find_stream_None by blast
    ultimately show ?thesis using fs ids n len by (simp add: b)
  qed
  then show "find_stream b sid = Some i" "send_seq b = send_seq a" "recv_seq b = recv_seq a"
    "stream_ids b = (if sid \<in> set (stream_ids a) then stream_ids a else stream_ids a @ [sid])"
    "i < length (a_streams b)" by blast+
qed

lemma get_stream_available:
  assumes "sid \<in> set (stream_ids a) \<or> length (stream_ids a) < 8"
  obtains i b where "get_stream a sid = (Some i, b)"
  using assms find_stream_None [of a sid]
  by (cases "find_stream a sid") (auto simp: get_stream_def stream_ids_def)

section \<open>The chunk loop\<close>

text \<open>What every step keeps, the loop keeps, on both exits.\<close>

lemma chunk_walk_inv:
  assumes "P s"
    and "\<And>ty cd clen s s'. P s \<Longrightarrow> step ty cd clen s = Inl s' \<Longrightarrow> P s'"
    and "\<And>ty cd clen s r. P s \<Longrightarrow> step ty cd clen s = Inr r \<Longrightarrow> Q r"
  shows "case chunk_walk step p left s of Inl s' \<Rightarrow> P s' | Inr r \<Rightarrow> Q r"
  using assms
proof (induction step p left s rule: chunk_walk.induct)
  case (1 step p left s)
  let ?n = "unat (ipv69_get_be16 (drop 2 p))"
  show ?case
  proof (cases "left < 4 \<or> left < 4 + ?n")
    case True
    then show ?thesis using "1.prems"(1) by (subst chunk_walk.simps) (auto simp: Let_def)
  next
    case False
    show ?thesis
    proof (cases "step (bget p 0) (drop 4 p) ?n s")
      case (Inl s')
      have "P s'" using "1.prems"(1,2) Inl by blast
      then have "case chunk_walk step (drop (4 + ?n) p) (left - (4 + ?n)) s' of Inl s' \<Rightarrow> P s' | Inr r \<Rightarrow> Q r"
        using "1.IH" [OF _ refl _ Inl] False "1.prems"(2,3) by blast
      then show ?thesis using False Inl by (subst chunk_walk.simps) (simp add: Let_def)
    next
      case (Inr r)
      then have "Q r" using "1.prems"(1,3) by blast
      then show ?thesis using False Inr by (subst chunk_walk.simps) (simp add: Let_def)
    qed
  qed
qed

lemma chunk_walk_end: "left < 4 \<Longrightarrow> chunk_walk step p left s = Inl s"
  by (subst chunk_walk.simps) simp

lemma chunk_walk_single:
  assumes "length d = n" "n < 65536"
  shows "chunk_walk step (icsp_chunk_put ty n @ d @ r) (4 + n) s = step ty (d @ r) n s"
  using assms chunk_put_get [OF assms(2), of ty "d @ r"]
  by (subst chunk_walk.simps) (simp add: chunk_walk_end split: sum.split)

section \<open>One message\<close>

text \<open>The stream table is all that the counters depend on.\<close>

lemma stream_view_cong:
  assumes "a_streams a = a_streams b" "a_n_streams a = a_n_streams b"
  shows "stream_ids a = stream_ids b" "send_seq a = send_seq b" "recv_seq a = recv_seq b"
    "find_stream a = find_stream b"
  using assms
  by (simp_all add: stream_ids_def send_seq_def recv_seq_def find_stream_def fun_eq_iff cong: option.case_cong)

lemma stream_view_upd [simp]:
  "send_seq (a\<lparr>a_rw_tsn := t, a_rw_mask := k\<rparr>) = send_seq a"
  "recv_seq (a\<lparr>a_rw_tsn := t, a_rw_mask := k\<rparr>) = recv_seq a"
  "stream_ids (a\<lparr>a_rw_tsn := t, a_rw_mask := k\<rparr>) = stream_ids a"
  "send_seq (a\<lparr>a_next_tsn := u\<rparr>) = send_seq a" "recv_seq (a\<lparr>a_next_tsn := u\<rparr>) = recv_seq a"
  "stream_ids (a\<lparr>a_next_tsn := u\<rparr>) = stream_ids a"
  "send_seq (bump_cum t a) = send_seq a" "recv_seq (bump_cum t a) = recv_seq a"
  "stream_ids (bump_cum t a) = stream_ids a"
  "send_seq (sendq_push t x y l n a) = send_seq a" "recv_seq (sendq_push t x y l n a) = recv_seq a"
  "stream_ids (sendq_push t x y l n a) = stream_ids a"
  "find_stream (a\<lparr>a_next_tsn := u\<rparr>) = find_stream a"
  "find_stream (sendq_push t x y l n a) = find_stream a"
  by (rule stream_view_cong; simp add: bump_cum_def sendq_push_def Let_def)+

lemma upd_fields [simp]:
  "a_next_tsn (sendq_push t x y l n a) = a_next_tsn a" "a_rw_tsn (sendq_push t x y l n a) = a_rw_tsn a"
  "a_streams (sendq_push t x y l n a) = a_streams a"
  "a_next_tsn (upd_stream i f a) = a_next_tsn a" "a_rw_tsn (upd_stream i f a) = a_rw_tsn a"
  "a_next_tsn (bump_cum t a) = a_next_tsn a" "a_rw_tsn (bump_cum t a) = a_rw_tsn a"
  "a_next_tsn (snd (get_stream a sid)) = a_next_tsn a" "a_rw_tsn (snd (get_stream a sid)) = a_rw_tsn a"
  by (auto simp: sendq_push_def upd_stream_def bump_cum_def get_stream_def Let_def split: option.splits)

lemma sendq_push_wf [inv_intros]: "assoc_wf a \<Longrightarrow> assoc_wf (sendq_push t x y l n a)"
  by (simp add: assoc_wf_def sendq_push_def Let_def)

lemma bump_cum_wf [inv_intros]: "assoc_wf a \<Longrightarrow> assoc_wf (bump_cum t a)"
  by (simp add: assoc_wf_def bump_cum_def)

text \<open>Everything but the stream table, the counters and the queues stays as it was.\<close>

definition same_peer :: "icsp_assoc \<Rightarrow> icsp_assoc \<Rightarrow> bool" where
  "same_peer a b \<longleftrightarrow> a_has_key b = a_has_key a \<and> a_send_key b = a_send_key a \<and>
     a_recv_key b = a_recv_key a \<and> a_assoc_id b = a_assoc_id a"

lemma same_peer_simps [simp]:
  "same_peer a a" "same_peer a (upd_stream i f b) = same_peer a b"
  "same_peer a (sendq_push t x y l n b) = same_peer a b" "same_peer a (bump_cum t b) = same_peer a b"
  "same_peer a (b\<lparr>a_next_tsn := u\<rparr>) = same_peer a b"
  "same_peer a (b\<lparr>a_rw_tsn := r, a_rw_mask := k\<rparr>) = same_peer a b"
  "same_peer a (snd (get_stream b sid)) = same_peer a b"
  by (auto simp: same_peer_def upd_stream_def sendq_push_def bump_cum_def Let_def get_stream_def
      split: option.splits)

lemma data_chunk_build_fits:
  assumes "length data \<le> 1392"
  shows "data_chunk_build N a tsn sid seq data = Some (icsp_chunk_put ICSP_CHUNK_DATA (48 + length data) @
    ipv69_put_be32 tsn @ ipv69_put_be16 sid @ ipv69_put_be16 seq @
    ed25519_secretbox N (ipv69_put_be32 tsn @ ipv69_put_be16 sid @ ipv69_put_be16 seq @ data)
      (data_nonce N a tsn) (a_send_key a))"
  using assms by (simp add: data_chunk_build_def Let_def)

text \<open>The sender's side of a message that fits a packet.\<close>

lemma data_send_step:
  assumes wf: "assoc_wf s" and key: "a_has_key s" and get: "get_stream s sid = (Some i, s1)"
    and len: "length data \<le> 1336" and tx: "\<not> w_txfail w (w_txn w)"
  obtains s' w' g chunk p where
    "icsp_data_send N s sid data w = Some (sint (a_next_tsn s), s', w')"
    "w_out w' = w_out w @ [pkt_sent g p]" "assoc_wf g" "w_txfail w' = w_txfail w"
    "data_chunk_build N s (a_next_tsn s) sid (send_seq s sid) data = Some chunk"
    "icsp_build_pkt g chunk ICSP_MAX_PAYLOAD = Some p"
    "assoc_wf s'" "same_peer s s'" "a_next_tsn s' = a_next_tsn s + 1"
    "send_seq s' = (send_seq s)(sid := send_seq s sid + 1)" "stream_ids s' = stream_ids s1"
    "a_rw_tsn s' = a_rw_tsn s"
    "a_sendq s' = a_sendq (sendq_push (a_next_tsn s) sid (send_seq s sid) (length data) (w_time w) s)"
    "recv_seq s' = recv_seq s"
proof -
  note g = get_stream_Some [OF wf get]
  have s1: "assoc_wf s1" "same_peer s s1" "a_next_tsn s1 = a_next_tsn s" "a_rw_tsn s1 = a_rw_tsn s"
    "a_sendq s1 = a_sendq s" "a_n_sendq s1 = a_n_sendq s"
    using get_stream_wf [OF wf, of sid] same_peer_simps(7) [of s s sid] get
    by (auto simp: get_stream_def split: option.splits if_splits)
  have seq: "st_next_send_seq (a_streams s1 ! i) = send_seq s sid"
    using g(1,2) by (metis option.simps(5) send_seq_def)
  let ?tsn = "a_next_tsn s" and ?seq = "send_seq s sid"
  define s2 where "s2 = sendq_push ?tsn sid ?seq (length data) (w_time w) (s1\<lparr>a_next_tsn := ?tsn + 1\<rparr>)"
  define s' where "s' = upd_stream i (\<lambda>s. s\<lparr>st_next_send_seq := st_next_send_seq s + 1\<rparr>) s2"
  have key1: "a_has_key s1" "a_send_key s1 = a_send_key s" "a_assoc_id s1 = a_assoc_id s"
    using s1(2) key by (auto simp: same_peer_def)
  obtain chunk where chunk: "data_chunk_build N s ?tsn sid ?seq data = Some chunk" "length chunk = 52 + length data + 0"
    using len by (simp add: data_chunk_build_fits)
  have chunk1: "data_chunk_build N (s1\<lparr>a_next_tsn := ?tsn + 1\<rparr>) ?tsn sid ?seq data = Some chunk"
    using chunk(1) key1 by (simp add: data_chunk_build_def data_nonce_def)
  obtain p where p: "icsp_build_pkt s' chunk ICSP_MAX_PAYLOAD = Some p"
    using chunk(2) len by (simp add: build_pkt_Some)
  have rseq: "st_next_recv_seq (a_streams s1 ! i) = recv_seq s sid"
    using g(1,3) by (metis option.simps(5) recv_seq_def)
  have s2: "assoc_wf s2" "find_stream s2 sid = Some i" "send_seq s2 = send_seq s" "recv_seq s2 = recv_seq s" "stream_ids s2 = stream_ids s1"
    "a_streams s2 = a_streams s1" "a_next_tsn s2 = ?tsn + 1" "a_rw_tsn s2 = a_rw_tsn s" "same_peer s s2"
    using s1 g(1-3) sendq_push_wf [of "s1\<lparr>a_next_tsn := ?tsn + 1\<rparr>"]
    by (simp_all add: s2_def) (simp add: assoc_wf_def)
  have s': "assoc_wf s'" "same_peer s s'" "stream_ids s' = stream_ids s1"
    "send_seq s' = (send_seq s)(sid := send_seq s sid + 1)" "a_next_tsn s' = ?tsn + 1" "a_rw_tsn s' = a_rw_tsn s"
    "recv_seq s' = recv_seq s"
    using s2 seq rseq
    by (simp_all add: s'_def upd_stream_wf upd_stream_ids upd_stream_seqs [OF _ s2(2) s2(1)])
  have q': "a_sendq s' = a_sendq (sendq_push ?tsn sid ?seq (length data) (w_time w) s)"
    using s1(5,6) by (simp add: s'_def s2_def upd_stream_def sendq_push_def Let_def)
  have snd: "icsp_send_pkt s' chunk w = (0, w\<lparr>w_txn := Suc (w_txn w), w_out := w_out w @ [pkt_sent s' p]\<rparr>)"
    using p tx by (simp add: send_pkt_eq transmit_def)
  have "icsp_data_send N s sid data w =
    Some (sint ?tsn, s', w\<lparr>w_txn := Suc (w_txn w), w_out := w_out w @ [pkt_sent s' p]\<rparr>)"
    using key get len seq s1(3) chunk1 snd by (simp add: icsp_data_send_def Let_def s'_def s2_def)
  then show ?thesis using that chunk(1) p s' q' by force
qed

text \<open>The receiver's side: a DATA chunk built with the matching key and the expected stream
  number, with a TSN above the window.\<close>

lemma get_stream_rw:
  assumes "get_stream r sid = (Some j, r1)"
  shows "get_stream (r\<lparr>a_rw_tsn := t, a_rw_mask := k\<rparr>) sid = (Some j, r1\<lparr>a_rw_tsn := t, a_rw_mask := k\<rparr>)"
proof -
  have "find_stream (r\<lparr>a_rw_tsn := t, a_rw_mask := k\<rparr>) sid = find_stream r sid"
    by (simp add: find_stream_def)
  with assms show ?thesis by (auto simp: get_stream_def split: option.splits if_splits)
qed

lemma deliver_step:
  assumes wf: "assoc_wf r" and get: "get_stream r sid = (Some j, r1)"
    and len: "length data \<le> outcap" "8 + length data \<le> length clear" and cl: "slice 8 (length data) clear = data"
  obtains r' where "data_deliver r tsn sid (recv_seq r sid) clear (length data) outcap =
      Inr (D_Ret (int (length data)) r' (Some (data, sid)))"
    "assoc_wf r'" "same_peer r r'" "a_rw_tsn r' = a_rw_tsn r"
    "recv_seq r' = (recv_seq r)(sid := recv_seq r sid + 1)" "stream_ids r' = stream_ids r1"
    "send_seq r' = send_seq r" "a_next_tsn r' = a_next_tsn r"
proof -
  note g = get_stream_Some [OF wf get]
  have r1: "assoc_wf r1" "same_peer r r1" "a_rw_tsn r1 = a_rw_tsn r" "a_next_tsn r1 = a_next_tsn r"
    using get_stream_wf [OF wf, of sid] same_peer_simps(7) [of r r sid] upd_fields(8,9) [of r sid] get by simp_all
  have seq: "st_next_recv_seq (a_streams r1 ! j) = recv_seq r sid"
    using g(1,3) by (metis option.simps(5) recv_seq_def)
  have sseq: "st_next_send_seq (a_streams r1 ! j) = send_seq r sid"
    using g(1,2) by (metis option.simps(5) send_seq_def)
  define r' where "r' = bump_cum tsn (upd_stream j (\<lambda>s. s\<lparr>st_next_recv_seq := st_next_recv_seq s + 1\<rparr>) r1)"
  have m: "min (length data) outcap = length data" using len(1) by simp
  have "data_deliver r tsn sid (recv_seq r sid) clear (length data) outcap =
      Inr (D_Ret (int (length data)) r' (Some (data, sid)))"
    using get seq len(2) cl by (simp add: data_deliver_def Let_def m r'_def)
  moreover have "assoc_wf r'" "same_peer r r'" "a_rw_tsn r' = a_rw_tsn r" "stream_ids r' = stream_ids r1"
    "recv_seq r' = (recv_seq r)(sid := recv_seq r sid + 1)" "send_seq r' = send_seq r" "a_next_tsn r' = a_next_tsn r"
    using r1 seq sseq g by (simp_all add: r'_def bump_cum_wf upd_stream_wf upd_stream_seqs [OF _ g(1) r1(1)])
  ultimately show ?thesis using that by blast
qed

lemma data_chunk_in_ok:
  assumes wf: "assoc_wf r" and get: "get_stream r sid = (Some j, r1)"
    and peer: "a_assoc_id s = a_assoc_id r" "a_send_key s = a_recv_key r"
    and new: "a_rw_tsn r < tsn" and len: "length data \<le> 1016" "length data \<le> outcap"
    and hdr: "hdr = ipv69_put_be32 tsn @ ipv69_put_be16 sid @ ipv69_put_be16 (recv_seq r sid)"
  obtains r' where "data_chunk_in N w outcap (hdr @ ed25519_secretbox N (hdr @ data) (data_nonce N s tsn) (a_send_key s) @ junk)
      (48 + length data) r = Inr (D_Ret (int (length data)) r' (Some (data, sid)))"
    "assoc_wf r'" "same_peer r r'" "a_rw_tsn r' = tsn"
    "recv_seq r' = (recv_seq r)(sid := recv_seq r sid + 1)" "stream_ids r' = stream_ids r1"
    "send_seq r' = send_seq r" "a_next_tsn r' = a_next_tsn r"
proof -
  obtain k where win: "replay_check (a_rw_tsn r, a_rw_mask r) tsn = (True, (tsn, k))"
    using replay_fresh [OF new] by blast
  define q where "q = r\<lparr>a_rw_tsn := tsn, a_rw_mask := k\<rparr>"
  have q: "assoc_wf q" "recv_seq q = recv_seq r" "send_seq q = send_seq r" "a_next_tsn q = a_next_tsn r" "same_peer r q" "a_rw_tsn q = tsn" "a_recv_key q = a_recv_key r"
    using wf by (simp_all add: q_def assoc_wf_def)
  have getq: "get_stream q sid = (Some j, r1\<lparr>a_rw_tsn := tsn, a_rw_mask := k\<rparr>)"
    unfolding q_def by (rule get_stream_rw [OF get])
  have nonce: "data_nonce N q tsn = data_nonce N s tsn"
    using peer by (simp add: data_nonce_def q_def)
  let ?clear = "(hdr @ data) @ map (w_stack w) [length (hdr @ data)..<1408]"
  have hdlen: "length hdr = 8" by (simp add: hdr)
  have opn: "ed25519_secretbox_open N (ed25519_secretbox N (hdr @ data) (data_nonce N s tsn) (a_send_key s) @ junk)
      (8 + length data) (data_nonce N s tsn) (a_recv_key r) = Some (hdr @ data)"
    using secretbox_open_secretbox [of "hdr @ data" N "data_nonce N s tsn" "a_send_key s" junk] len hdlen peer(2)
    by simp
  obtain r' where r': "data_deliver q tsn sid (recv_seq q sid) ?clear (length data) outcap =
      Inr (D_Ret (int (length data)) r' (Some (data, sid)))"
    "assoc_wf r'" "same_peer q r'" "a_rw_tsn r' = a_rw_tsn q"
    "recv_seq r' = (recv_seq q)(sid := recv_seq q sid + 1)"
    "stream_ids r' = stream_ids (r1\<lparr>a_rw_tsn := tsn, a_rw_mask := k\<rparr>)" "send_seq r' = send_seq q" "a_next_tsn r' = a_next_tsn q"
    by (rule deliver_step [OF q(1) getq, of data outcap ?clear tsn]) (use len hdlen in simp_all)
  have sz: "size_sub (48 + length data) 8 = 40 + length data" "size_sub (8 + length data) 8 = length data"
    using len by (simp_all add: size_sub_ge)
  have "data_chunk_in N w outcap (hdr @ ed25519_secretbox N (hdr @ data) (data_nonce N s tsn) (a_send_key s) @ junk)
      (48 + length data) r = Inr (D_Ret (int (length data)) r' (Some (data, sid)))"
    using r'(1) opn win nonce q len
    by (simp add: data_chunk_in_def Let_def sz hdr codec_simps q_def [symmetric])
  then show ?thesis using that r' q by (simp add: same_peer_def)
qed

lemma data_handle_single:
  assumes "data_step N w outcap ICSP_CHUNK_DATA (d @ junk) n r = Inr (D_Ret k r' m)"
    and "length d = n" "n < 65536" and "icsp_build_pkt g (icsp_chunk_put ICSP_CHUNK_DATA n @ d) cap = Some p"
  shows "icsp_data_handle N r (p @ junk) (length p) outcap w = Some (k, r', m)"
proof -
  have len: "length p = 12 + (4 + n)" using build_pkt_length [OF assms(4)] assms(2) by simp
  have body: "drop 12 (p @ junk) = icsp_chunk_put ICSP_CHUNK_DATA n @ d @ junk"
    using build_pkt_fields(5) [OF assms(4), of junk] by simp
  have "chunk_walk (data_step N w outcap) (drop 12 (p @ junk)) (4 + n) r = Inr (D_Ret k r' m)"
    using chunk_walk_single [OF assms(2,3), of "data_step N w outcap" ICSP_CHUNK_DATA junk r] assms(1)
    by (simp only: body)
  moreover have "length p - 12 = 4 + n" "\<not> length p < 12" using len by simp_all
  ultimately show ?thesis by (simp add: icsp_data_handle_def)
qed

section \<open>A run of messages\<close>

text \<open>A sender and a receiver in step: same keys, same association, same streams with equal
  counters, and a receive window below the next TSN.\<close>

definition linked :: "icsp_assoc \<Rightarrow> icsp_assoc \<Rightarrow> bool" where
  "linked s r \<longleftrightarrow> assoc_wf s \<and> assoc_wf r \<and> a_has_key s \<and> a_has_key r \<and> a_send_key s = a_recv_key r \<and>
     a_assoc_id s = a_assoc_id r \<and> stream_ids s = stream_ids r \<and> distinct (stream_ids s) \<and>
     send_seq s = recv_seq r \<and> a_rw_tsn r < a_next_tsn s"

text \<open>A message that was sent, for every receiver in step, in any world; a receiver that sends to the
  sender as well stays in step in that direction too.\<close>

lemma linked_send:
  assumes lk: "linked s r" and len: "length data \<le> 1016" and tx: "\<not> w_txfail w (w_txn w)"
    and room: "sid \<in> set (stream_ids s) \<or> length (stream_ids s) < 8"
    and nowrap: "unat (a_next_tsn s) + 1 < 2 ^ 32"
  obtains s' w' p g d where
    "icsp_data_send N s sid data w = Some (sint (a_next_tsn s), s', w')" "w_out w' = w_out w @ [pkt_sent g p]" "assoc_wf g"
    "icsp_build_pkt g (icsp_chunk_put ICSP_CHUNK_DATA (48 + length data) @ d) ICSP_MAX_PAYLOAD = Some p"
    "length d = 48 + length data" "w_txfail w' = w_txfail w" "a_next_tsn s' = a_next_tsn s + 1"
    "stream_ids s' = (if sid \<in> set (stream_ids s) then stream_ids s else stream_ids s @ [sid])"
    "\<And>r v junk. linked s r \<Longrightarrow> \<exists>r'. icsp_data_handle N r (p @ junk) (length p) 1400 v = Some (int (length data), r', Some (data, sid)) \<and>
       linked s' r' \<and> (linked r s \<longrightarrow> linked r' s') \<and> a_next_tsn r' = a_next_tsn r"
proof -
  have L: "assoc_wf s" "a_has_key s" using lk by (auto simp: linked_def)
  obtain i s1 where gs: "get_stream s sid = (Some i, s1)" using get_stream_available [OF room] by metis
  obtain s' w' g chunk p where S: "icsp_data_send N s sid data w = Some (sint (a_next_tsn s), s', w')"
    "w_out w' = w_out w @ [pkt_sent g p]" "assoc_wf g" "w_txfail w' = w_txfail w"
    "data_chunk_build N s (a_next_tsn s) sid (send_seq s sid) data = Some chunk"
    "icsp_build_pkt g chunk ICSP_MAX_PAYLOAD = Some p"
    "assoc_wf s'" "same_peer s s'" "a_next_tsn s' = a_next_tsn s + 1"
    "send_seq s' = (send_seq s)(sid := send_seq s sid + 1)" "stream_ids s' = stream_ids s1"
    "a_rw_tsn s' = a_rw_tsn s" "recv_seq s' = recv_seq s"
    by (rule data_send_step [OF L(1,2) gs _ tx, of data N]) (use len in auto)
  note ids = get_stream_Some(4) [OF L(1) gs]
  define hdr where "hdr = ipv69_put_be32 (a_next_tsn s) @ ipv69_put_be16 sid @ ipv69_put_be16 (send_seq s sid)"
  define d where "d = hdr @ ed25519_secretbox N (hdr @ data) (data_nonce N s (a_next_tsn s)) (a_send_key s)"
  have chunk: "chunk = icsp_chunk_put ICSP_CHUNK_DATA (48 + length data) @ d"
    using S(5) data_chunk_build_fits [of data N s] len by (simp add: d_def hdr_def)
  have less: "a_next_tsn s < a_next_tsn s + 1" using nowrap by (simp add: word_less_nat_alt unat_word_ariths)
  have recv: "\<exists>r'. icsp_data_handle N r (p @ junk) (length p) 1400 v = Some (int (length data), r', Some (data, sid)) \<and>
       linked s' r' \<and> (linked r s \<longrightarrow> linked r' s') \<and> a_next_tsn r' = a_next_tsn r" if rk: "linked s r" for r v junk
  proof -
    have R: "assoc_wf r" "a_has_key r" "a_send_key s = a_recv_key r" "a_assoc_id s = a_assoc_id r"
      "stream_ids s = stream_ids r" "send_seq s = recv_seq r" "a_rw_tsn r < a_next_tsn s" "distinct (stream_ids s)"
      using rk by (auto simp: linked_def)
    obtain j r1 where gr: "get_stream r sid = (Some j, r1)"
      using get_stream_available [of sid r] room R(5) by metis
    obtain r' where r': "data_chunk_in N v 1400 (hdr @ ed25519_secretbox N (hdr @ data)
        (data_nonce N s (a_next_tsn s)) (a_send_key s) @ junk) (48 + length data) r =
      Inr (D_Ret (int (length data)) r' (Some (data, sid)))"
      "assoc_wf r'" "same_peer r r'" "a_rw_tsn r' = a_next_tsn s"
      "recv_seq r' = (recv_seq r)(sid := recv_seq r sid + 1)" "stream_ids r' = stream_ids r1"
      "send_seq r' = send_seq r" "a_next_tsn r' = a_next_tsn r"
      by (rule data_chunk_in_ok [OF R(1) gr R(4,3,7), of data 1400 hdr N v junk]) (use len hdr_def R(6) in auto)
    have "icsp_data_handle N r (p @ junk) (length p) 1400 v = Some (int (length data), r', Some (data, sid))"
    proof (rule data_handle_single)
      show "data_step N v 1400 ICSP_CHUNK_DATA (d @ junk) (48 + length data) r = Inr (D_Ret (int (length data)) r' (Some (data, sid)))"
        using r'(1) R(2) by (simp add: data_step_def d_def)
      show "length d = 48 + length data" by (simp add: d_def hdr_def)
      show "48 + length data < 65536" using len by simp
      show "icsp_build_pkt g (icsp_chunk_put ICSP_CHUNK_DATA (48 + length data) @ d) ICSP_MAX_PAYLOAD = Some p"
        using S(6) by (simp add: chunk)
    qed
    moreover have "linked s' r'"
      using S r' R less L(2) ids get_stream_Some(4) [OF R(1) gr] by (auto simp: linked_def same_peer_def)
    moreover have "linked r' s'" if "linked r s"
      using that S r' R L(2) ids get_stream_Some(4) [OF R(1) gr] by (auto simp: linked_def same_peer_def)
    ultimately show ?thesis using r'(8) by blast
  qed
  show ?thesis
    by (rule that [of s' w' g p d, OF S(1-3)]) (use S recv ids chunk in \<open>simp_all add: d_def hdr_def\<close>)
qed

lemma linked_step:
  assumes lk: "linked s r" and len: "length data \<le> 1016" and tx: "\<not> w_txfail w (w_txn w)"
    and room: "sid \<in> set (stream_ids s) \<or> length (stream_ids s) < 8"
    and nowrap: "unat (a_next_tsn s) + 1 < 2 ^ 32"
  obtains s' w' f r' g d where
    "icsp_data_send N s sid data w = Some (sint (a_next_tsn s), s', w')" "w_out w' = w_out w @ [f]"
    "icsp_build_pkt g (icsp_chunk_put ICSP_CHUNK_DATA (48 + length data) @ d) ICSP_MAX_PAYLOAD = Some (drop 46 (sent_frame f))"
    "length d = 48 + length data"
    "w_txfail w' = w_txfail w" "a_next_tsn s' = a_next_tsn s + 1"
    "icsp_data_handle N r (drop 46 (sent_frame f) @ junk) (length (drop 46 (sent_frame f))) 1400 w' =
      Some (int (length data), r', Some (data, sid))"
    "linked s' r'" "stream_ids s' = (if sid \<in> set (stream_ids s) then stream_ids s else stream_ids s @ [sid])"
proof -
  obtain s' w' p g d where S:
    "icsp_data_send N s sid data w = Some (sint (a_next_tsn s), s', w')" "w_out w' = w_out w @ [pkt_sent g p]" "assoc_wf g"
    "icsp_build_pkt g (icsp_chunk_put ICSP_CHUNK_DATA (48 + length data) @ d) ICSP_MAX_PAYLOAD = Some p"
    "length d = 48 + length data" "w_txfail w' = w_txfail w" "a_next_tsn s' = a_next_tsn s + 1"
    "stream_ids s' = (if sid \<in> set (stream_ids s) then stream_ids s else stream_ids s @ [sid])"
    "\<And>r v junk. linked s r \<Longrightarrow> \<exists>r'. icsp_data_handle N r (p @ junk) (length p) 1400 v = Some (int (length data), r', Some (data, sid)) \<and>
       linked s' r' \<and> (linked r s \<longrightarrow> linked r' s') \<and> a_next_tsn r' = a_next_tsn r"
    by (rule linked_send [OF assms, of N]) blast
  obtain r' where "icsp_data_handle N r (p @ junk) (length p) 1400 w' = Some (int (length data), r', Some (data, sid))" "linked s' r'"
    using S(9) [OF lk] by blast
  moreover have "drop 46 (sent_frame (pkt_sent g p)) = p" by (rule sent_frame_payload [OF S(3)])
  ultimately show ?thesis using that [of s' w' "pkt_sent g p" g d r'] S(1-8) by simp
qed

text \<open>Every message sent over an ordered link that loses nothing; \<open>junk\<close> is what the receive
  buffer holds behind each packet.\<close>

fun carry :: "nacl \<Rightarrow> bytes \<Rightarrow> icsp_assoc \<Rightarrow> icsp_assoc \<Rightarrow> world \<Rightarrow> (u16 \<times> bytes) list \<Rightarrow>
    (bytes \<times> u16) option list option" where
  "carry N junk s r w [] = Some []"
| "carry N junk s r w ((sid, data) # ms) =
     (case icsp_data_send N s sid data w of
        None \<Rightarrow> None
      | Some (_, s', w') \<Rightarrow>
          let pkt = drop 46 (sent_frame (last (w_out w'))) in
          case icsp_data_handle N r (pkt @ junk) (length pkt) 1400 w' of
            None \<Rightarrow> None
          | Some (_, r', m) \<Rightarrow> map_option ((#) m) (carry N junk s' r' w' ms))"

text \<open>C3: Two associations in step carry any sequence of messages of up to 1016 bytes on up to
  eight streams: every message is delivered, whole, in order and on its stream, whatever
  the receive buffer held before. The bounds are the code's: a longer message is not opened
  by the receiver, a ninth stream is refused, and the TSN must not wrap.\<close>

theorem in_order_delivery:
  assumes "linked s r" and "\<And>n. \<not> w_txfail w n"
    and "\<And>sid data. (sid, data) \<in> set ms \<Longrightarrow> length data \<le> 1016"
    and "card (set (stream_ids s) \<union> fst ` set ms) \<le> 8"
    and "unat (a_next_tsn s) + length ms < 2 ^ 32"
  shows "carry N junk s r w ms = Some (map (\<lambda>(sid, data). Some (data, sid)) ms)"
  using assms
proof (induction ms arbitrary: s r w)
  case (Cons m ms)
  obtain sid data where m: "m = (sid, data)" by (cases m)
  have dist: "distinct (stream_ids s)" using Cons.prems(1) unfolding linked_def by blast
  have "card (insert sid (set (stream_ids s))) \<le> 8"
    using Cons.prems(4) card_mono [of "set (stream_ids s) \<union> fst ` set (m # ms)" "insert sid (set (stream_ids s))"]
    by (simp add: m subset_iff)
  then have room: "sid \<in> set (stream_ids s) \<or> length (stream_ids s) < 8"
    using distinct_card [OF dist] by (auto simp: card_insert_if split: if_splits)
  have nw: "unat (a_next_tsn s) + 1 < 2 ^ 32" using Cons.prems(5) by simp
  have len: "length data \<le> 1016" using Cons.prems(3) [of sid data] by (simp add: m)
  obtain s' w' f r' where S: "icsp_data_send N s sid data w = Some (sint (a_next_tsn s), s', w')"
    "w_out w' = w_out w @ [f]" "w_txfail w' = w_txfail w" "a_next_tsn s' = a_next_tsn s + 1"
    "icsp_data_handle N r (drop 46 (sent_frame f) @ junk) (length (drop 46 (sent_frame f))) 1400 w' =
      Some (int (length data), r', Some (data, sid))"
    "linked s' r'" "stream_ids s' = (if sid \<in> set (stream_ids s) then stream_ids s else stream_ids s @ [sid])"
    by (rule linked_step [OF Cons.prems(1) len Cons.prems(2) room nw, of N junk])
  have "carry N junk s' r' w' ms = Some (map (\<lambda>(sid, data). Some (data, sid)) ms)"
  proof (rule Cons.IH [OF S(6)])
    show "card (set (stream_ids s') \<union> fst ` set ms) \<le> 8"
    proof -
      have "set (stream_ids s') \<union> fst ` set ms = set (stream_ids s) \<union> fst ` set (m # ms)"
        using S(7) m by auto
      then show ?thesis using Cons.prems(4) by simp
    qed
    show "unat (a_next_tsn s') + length ms < 2 ^ 32"
      using Cons.prems(5) S(4) unat_add_le [of "a_next_tsn s" 1] by simp
  qed (use Cons.prems S(3) m in auto)
  then show ?case using S(1,2,5) by (simp add: m Let_def)
qed simp

lemma linked_fresh: "linked (assoc0\<lparr>a_has_key := True, a_next_tsn := 1\<rparr>) (assoc0\<lparr>a_has_key := True\<rparr>)"
  by (simp add: linked_def assoc_wf_def assoc0_def stream_ids_def send_seq_def recv_seq_def find_stream_def
      fun_eq_iff)

theorem in_order_delivery_witness:
  "carry toy_nacl [7] (assoc0\<lparr>a_has_key := True, a_next_tsn := 1\<rparr>) (assoc0\<lparr>a_has_key := True\<rparr>) world0
     [(3, [1, 2]), (5, [9]), (3, [])] =
   Some [Some ([1, 2], 3), Some ([9], 5), Some ([], 3)]"
proof -
  have "stream_ids (assoc0\<lparr>a_has_key := True, a_next_tsn := 1\<rparr>) = []"
    by (simp add: stream_ids_def assoc0_def)
  moreover have "card {3, 5, 3 :: u16} \<le> 8" by (simp add: card_insert_if)
  ultimately show ?thesis
    using in_order_delivery [OF linked_fresh, of world0 "[(3, [1, 2]), (5, [9]), (3, [])]" toy_nacl "[7]"]
    by (simp add: world0_def) (fastforce simp: insert_commute)
qed

end
