(* ===== verification/Icsp_Safety.thy ===== *)
theory Icsp_Safety
  imports Icsp_Flow
begin

text \<open>
  The data path against any traffic: what one received packet can do to an association,
  what is delivered, what a replay does, and what the code's limits and shortcuts cost.
\<close>

section \<open>One received packet\<close>

text \<open>The plaintext buffer: the opened message, then what the stack held.\<close>

definition clear_buf :: "world \<Rightarrow> bytes \<Rightarrow> bytes" where
  "clear_buf w pt = pt @ map (w_stack w) [length pt..<1408]"

text \<open>A box in the payload that opens under the receive key, with the nonce of the TSN in the
  8 bytes before it. Only who has that key can have made it.\<close>

definition box_opens :: "nacl \<Rightarrow> icsp_assoc \<Rightarrow> bytes \<Rightarrow> nat \<Rightarrow> u32 \<Rightarrow> bytes \<Rightarrow> bool" where
  "box_opens N a payload plen tsn pt \<longleftrightarrow>
     (\<exists>off n. 24 \<le> off \<and> off + 32 + n \<le> plen \<and> tsn = ipv69_get_be32 (drop (off - 8) payload) \<and>
        ed25519_secretbox_open N (drop off payload) n (data_nonce N a tsn) (a_recv_key a) = Some pt)"

text \<open>A message that may be delivered out of this payload: the body of a box in it whose inner
  header repeats the TSN of the outer one and has the sequence number the stream expects,
  cut to the room of the caller.\<close>

definition authentic :: "nacl \<Rightarrow> bytes \<Rightarrow> nat \<Rightarrow> nat \<Rightarrow> icsp_assoc \<Rightarrow> bytes \<times> u16 \<Rightarrow> bool" where
  "authentic N payload plen outcap a m \<longleftrightarrow>
     (case m of (d, sid) \<Rightarrow> \<exists>pt. box_opens N a payload plen (ipv69_get_be32 pt) pt \<and> 8 \<le> length pt \<and>
        ipv69_get_be16 (drop 4 pt) = sid \<and> ipv69_get_be16 (drop 6 pt) = recv_seq a sid \<and>
        d = take outcap (drop 8 pt))"

text \<open>A box in the payload, made with the key, whose content is shorter than the inner header: the
  code does not expect it.\<close>

definition short_box :: "nacl \<Rightarrow> bytes \<Rightarrow> nat \<Rightarrow> icsp_assoc \<Rightarrow> bool" where
  "short_box N payload plen a \<longleftrightarrow> (\<exists>tsn pt. box_opens N a payload plen tsn pt \<and> length pt < 8)"

text \<open>What a handler may leave behind when it delivers nothing (\<open>kept\<close>).\<close>

definition kept :: "icsp_assoc \<Rightarrow> icsp_assoc \<Rightarrow> bool" where
  "kept a b \<longleftrightarrow> assoc_wf b \<and> same_peer a b \<and> recv_seq b = recv_seq a \<and> send_seq b = send_seq a \<and>
     a_next_tsn b = a_next_tsn a"

definition advanced :: "u16 \<Rightarrow> icsp_assoc \<Rightarrow> icsp_assoc \<Rightarrow> bool" where
  "advanced sid a b \<longleftrightarrow> assoc_wf b \<and> same_peer a b \<and>
     recv_seq b = (recv_seq a)(sid := recv_seq a sid + 1) \<and> send_seq b = send_seq a \<and>
     a_next_tsn b = a_next_tsn a"

lemma same_peer_trans: "same_peer a b \<Longrightarrow> same_peer b c \<Longrightarrow> same_peer a c"
  by (simp add: same_peer_def)

lemma kept_refl [simp]: "assoc_wf a \<Longrightarrow> kept a a"
  by (simp add: kept_def)

lemma kept_trans: "kept a b \<Longrightarrow> kept b c \<Longrightarrow> kept a c"
  by (auto simp: kept_def intro: same_peer_trans)

lemma kept_advanced: "kept a b \<Longrightarrow> advanced sid b c \<Longrightarrow> advanced sid a c"
  by (auto simp: kept_def advanced_def intro: same_peer_trans)

lemma kept_box_opens: "kept a b \<Longrightarrow> box_opens N b payload plen = box_opens N a payload plen"
  by (simp add: kept_def same_peer_def box_opens_def data_nonce_def fun_eq_iff)

lemma kept_authentic:
  "kept a b \<Longrightarrow> authentic N payload plen outcap b m \<Longrightarrow> authentic N payload plen outcap a m"
  "kept a b \<Longrightarrow> short_box N payload plen b \<Longrightarrow> short_box N payload plen a"
  by (auto simp: kept_box_opens authentic_def short_box_def) (auto simp: kept_def)

lemma kept_get_stream:
  assumes "assoc_wf a" "get_stream a sid = (so, b)"
  shows "kept a b"
proof (cases so)
  case None
  then show ?thesis using assms by (auto simp: get_stream_def split: option.splits if_splits)
next
  case (Some i)
  then show ?thesis
    using get_stream_Some [OF assms(1), of sid i b] get_stream_wf [OF assms(1), of sid] assms
      same_peer_simps(7) [of a a sid] upd_fields(8) [of a sid]
    by (simp add: kept_def)
qed

lemma kept_bump: "kept a b \<Longrightarrow> kept a (bump_cum t b)"
  by (simp add: kept_def bump_cum_wf)

lemma kept_window: "assoc_wf a \<Longrightarrow> kept a (a\<lparr>a_rw_tsn := t, a_rw_mask := k\<rparr>)"
  by (simp add: kept_def assoc_wf_def)

lemma kept_rcvq:
  assumes "kept a b" "a_n_rcvq b < 16"
  shows "kept a (b\<lparr>a_n_rcvq := Suc (a_n_rcvq b), a_rcvq := (a_rcvq b)[n := e]\<rparr>)"
proof -
  let ?c = "b\<lparr>a_n_rcvq := Suc (a_n_rcvq b), a_rcvq := (a_rcvq b)[n := e]\<rparr>"
  have "send_seq ?c = send_seq b" "recv_seq ?c = recv_seq b"
    by (rule stream_view_cong; simp)+
  moreover have "assoc_wf ?c" using assms by (simp add: kept_def assoc_wf_def)
  moreover have "same_peer a ?c" using assms by (simp add: kept_def same_peer_def)
  ultimately show ?thesis using assms by (simp add: kept_def)
qed

lemma kept_sack: "assoc_wf a \<Longrightarrow> kept a (sack_in c a)"
proof -
  assume "assoc_wf a"
  moreover have "send_seq (sack_in c a) = send_seq a" "recv_seq (sack_in c a) = recv_seq a"
    by (rule stream_view_cong; simp add: sack_in_def)+
  ultimately show ?thesis by (simp add: kept_def assoc_wf_def same_peer_def sack_in_def)
qed

lemma data_deliver_out:
  assumes wf: "assoc_wf a"
  shows "case data_deliver a tsn sid seq clear mlen outcap of
      Inl b \<Rightarrow> kept a b
    | Inr (D_Ret k b m) \<Rightarrow> advanced sid a b \<and> seq = recv_seq a sid \<and> k = int (min mlen outcap) \<and>
        m = Some (slice 8 (min mlen outcap) clear, sid)
    | Inr D_UB \<Rightarrow> length clear < 8 + min mlen outcap \<or> 1400 < unat (of_nat mlen :: u16)"
proof -
  obtain so b where get: "get_stream a sid = (so, b)" by (cases "get_stream a sid")
  have kb: "kept a b" by (rule kept_get_stream [OF wf get])
  show ?thesis
  proof (cases so)
    case None
    then show ?thesis using get kb by (simp add: data_deliver_def kept_bump)
  next
    case (Some i)
    note g = get_stream_Some [OF wf get [unfolded Some]]
    have wfb: "assoc_wf b" using kb by (simp add: kept_def)
    have seq: "st_next_recv_seq (a_streams b ! i) = recv_seq a sid"
      using g(1,3) by (metis option.simps(5) recv_seq_def)
    have sseq: "st_next_send_seq (a_streams b ! i) = send_seq a sid"
      using g(1,2) by (metis option.simps(5) send_seq_def)
    have adv: "advanced sid a (bump_cum tsn (upd_stream i (\<lambda>s. s\<lparr>st_next_recv_seq := st_next_recv_seq s + 1\<rparr>) b))"
      using kb g seq sseq upd_stream_seqs [OF _ g(1) wfb, of "\<lambda>s. s\<lparr>st_next_recv_seq := st_next_recv_seq s + 1\<rparr>"]
      by (simp add: advanced_def kept_def bump_cum_wf upd_stream_wf)
    show ?thesis
      using get Some seq kb adv by (auto simp: data_deliver_def Let_def kept_bump intro!: kept_bump kept_rcvq)
  qed
qed

lemma data_nonce_window [simp]: "data_nonce N (a\<lparr>a_rw_tsn := t, a_rw_mask := k\<rparr>) = data_nonce N a"
  by (simp add: data_nonce_def fun_eq_iff)

text \<open>The chunk handler after the window: the four exits.\<close>

lemma data_chunk_in_eq:
  assumes "replay_check (a_rw_tsn a, a_rw_mask a) (ipv69_get_be32 cd) = (ok, rt, rm)"
    and "q = a\<lparr>a_rw_tsn := rt, a_rw_mask := rm\<rparr>"
  shows "data_chunk_in N w outcap cd clen a =
    (if \<not> ok then Inl a
     else if size_sub clen 8 < 32 \<or> 1440 < size_sub clen 8 then Inl q
     else case ed25519_secretbox_open N (drop 8 cd) (size_sub clen 8 - 32)
            (data_nonce N a (ipv69_get_be32 cd)) (a_recv_key a) of
       None \<Rightarrow> Inl q
     | Some pt \<Rightarrow>
         if ipv69_get_be32 (clear_buf w pt) \<noteq> ipv69_get_be32 cd \<or>
            ipv69_get_be16 (drop 4 (clear_buf w pt)) \<noteq> ipv69_get_be16 (drop 4 cd) \<or>
            ipv69_get_be16 (drop 6 (clear_buf w pt)) \<noteq> ipv69_get_be16 (drop 6 cd)
         then Inr (D_Ret (-1) q None)
         else data_deliver q (ipv69_get_be32 cd) (ipv69_get_be16 (drop 4 cd)) (ipv69_get_be16 (drop 6 cd))
                (clear_buf w pt) (size_sub (size_sub clen 8 - 32) 8) outcap)"
  using assms(1) unfolding assms(2)
  by (cases ok) (simp_all add: data_chunk_in_def Let_def clear_buf_def split: option.split)

lemma get_be32_prefix: "4 \<le> length d \<Longrightarrow> ipv69_get_be32 (d @ r) = ipv69_get_be32 d"
  using bget_append1 [of 0 d r] by (simp only: ipv69_get_be32_def) simp

lemma get_be16_prefix: "2 \<le> length d \<Longrightarrow> ipv69_get_be16 (d @ r) = ipv69_get_be16 d"
  using bget_append1 [of 0 d r] by (simp only: ipv69_get_be16_def) simp

text \<open>How a packet may end the handler: with an error, with a delivery, or, when a short box is in
  it, outside the arrays.\<close>

definition packet_end :: "nacl \<Rightarrow> bytes \<Rightarrow> nat \<Rightarrow> nat \<Rightarrow> icsp_assoc \<Rightarrow> data_ret \<Rightarrow> bool" where
  "packet_end N payload plen outcap a x \<longleftrightarrow>
     (case x of
        D_Ret k b None \<Rightarrow> k = -1 \<and> kept a b
      | D_Ret k b (Some m) \<Rightarrow> advanced (snd m) a b \<and> k = int (length (fst m)) \<and> length (fst m) \<le> outcap \<and>
          (authentic N payload plen outcap a m \<or> short_box N payload plen a)
      | D_UB \<Rightarrow> short_box N payload plen a)"

lemma packet_end_trans: "kept a b \<Longrightarrow> packet_end N payload plen outcap b x \<Longrightarrow> packet_end N payload plen outcap a x"
  by (auto simp: packet_end_def kept_trans kept_advanced split: data_ret.splits option.splits
      intro: kept_trans kept_advanced dest: kept_authentic)

text \<open>The body of a box with a full inner header.\<close>

lemma full_box:
  assumes l: "8 \<le> length pt" "length pt \<le> 1408"
  shows "slice 8 (min (size_sub (length pt) 8) outcap) (clear_buf w pt) = take outcap (drop 8 pt)"
    "ipv69_get_be32 (clear_buf w pt) = ipv69_get_be32 pt"
    "ipv69_get_be16 (drop 4 (clear_buf w pt)) = ipv69_get_be16 (drop 4 pt)"
    "ipv69_get_be16 (drop 6 (clear_buf w pt)) = ipv69_get_be16 (drop 6 pt)"
    "\<not> length (clear_buf w pt) < 8 + min (size_sub (length pt) 8) outcap"
    "\<not> 1400 < unat (of_nat (size_sub (length pt) 8) :: u16)"
proof -
  have s: "size_sub (length pt) 8 = length pt - 8" using l by (simp add: size_sub_ge)
  show "slice 8 (min (size_sub (length pt) 8) outcap) (clear_buf w pt) = take outcap (drop 8 pt)"
    using l s by (cases "outcap \<le> length pt - 8") (simp_all add: clear_buf_def slice_eq_take_drop)
  show "ipv69_get_be32 (clear_buf w pt) = ipv69_get_be32 pt"
    using l by (simp add: clear_buf_def get_be32_prefix)
  show "ipv69_get_be16 (drop 4 (clear_buf w pt)) = ipv69_get_be16 (drop 4 pt)"
    "ipv69_get_be16 (drop 6 (clear_buf w pt)) = ipv69_get_be16 (drop 6 pt)"
    using l by (simp_all add: clear_buf_def get_be16_prefix)
  show "\<not> length (clear_buf w pt) < 8 + min (size_sub (length pt) 8) outcap"
    using l s by (auto simp: clear_buf_def)
  have "unat (of_nat (length pt - 8) :: u16) = length pt - 8"
    by (rule unat_of_nat_small) (use l in simp)
  then show "\<not> 1400 < unat (of_nat (size_sub (length pt) 8) :: u16)" using l s by simp
qed

lemma box_size:
  assumes "clen < 65536" "32 \<le> size_sub clen 8" "size_sub clen 8 \<le> 1440"
  shows "size_sub clen 8 = clen - 8" "40 \<le> clen"
proof -
  have "8 \<le> clen" using size_sub_lt [of clen 8] assms(3) by (rule_tac ccontr) simp
  then show e: "size_sub clen 8 = clen - 8" using size_sub_ge [of 8 clen] assms(1) by simp
  show "40 \<le> clen" using e assms(2) by simp
qed

lemma deliver_opened:
  assumes kq: "kept a q" "assoc_wf q" and opens: "box_opens N a payload plen tsn pt" and l: "length pt \<le> 1408"
    and hdr: "ipv69_get_be32 (clear_buf w pt) = tsn" "ipv69_get_be16 (drop 4 (clear_buf w pt)) = sid"
      "ipv69_get_be16 (drop 6 (clear_buf w pt)) = seq"
  shows "case data_deliver q tsn sid seq (clear_buf w pt) (size_sub (length pt) 8) outcap of
      Inl b \<Rightarrow> kept a b
    | Inr x \<Rightarrow> packet_end N payload plen outcap a x"
proof -
  let ?c = "clear_buf w pt" and ?m = "min (size_sub (length pt) 8) outcap"
  have out: "case data_deliver q tsn sid seq ?c (size_sub (length pt) 8) outcap of Inl b \<Rightarrow> kept q b
    | Inr (D_Ret k b m) \<Rightarrow> advanced sid q b \<and> seq = recv_seq q sid \<and> k = int ?m \<and> m = Some (slice 8 ?m ?c, sid)
    | Inr D_UB \<Rightarrow> length ?c < 8 + ?m \<or> 1400 < unat (of_nat (size_sub (length pt) 8) :: u16)"
    by (rule data_deliver_out [OF kq(2)])
  show ?thesis
  proof (cases "8 \<le> length pt")
    case True
    note bits = full_box [OF True l]
    have auth: "authentic N payload plen outcap a (slice 8 ?m ?c, sid)" if "seq = recv_seq q sid"
      unfolding authentic_def prod.case
      by (rule exI [of _ pt]) (use that True hdr opens bits kq(1) in \<open>simp add: kept_def\<close>)
    show ?thesis
      using out auth bits(5,6) kept_trans [OF kq(1)] kept_advanced [OF kq(1)]
      by (auto simp: packet_end_def split: sum.splits data_ret.splits)
  next
    case False
    then have "short_box N payload plen a" using opens unfolding short_box_def not_le by blast
    then show ?thesis
      using out kept_trans [OF kq(1)] kept_advanced [OF kq(1)]
      by (auto simp: packet_end_def clear_buf_def split: sum.splits data_ret.splits)
  qed
qed

lemma data_chunk_in_out:
  assumes wf: "assoc_wf a" and at: "16 \<le> off" "off + clen \<le> plen" "clen < 65536"
  shows "case data_chunk_in N w outcap (drop off payload) clen a of
      Inl b \<Rightarrow> kept a b
    | Inr x \<Rightarrow> packet_end N payload plen outcap a x"
proof -
  let ?cd = "drop off payload"
  let ?tsn = "ipv69_get_be32 ?cd" and ?n = "size_sub clen 8 - 32"
  let ?open = "ed25519_secretbox_open N (drop 8 ?cd) ?n (data_nonce N a ?tsn) (a_recv_key a)"
  obtain ok rt rm where win: "replay_check (a_rw_tsn a, a_rw_mask a) ?tsn = (ok, rt, rm)" by (metis prod.exhaust)
  define q where "q = a\<lparr>a_rw_tsn := rt, a_rw_mask := rm\<rparr>"
  note eq = data_chunk_in_eq [OF win q_def, of N w outcap clen]
  have kq: "kept a q" "assoc_wf q" using kept_window [OF wf] by (simp_all add: q_def kept_def)
  show ?thesis
  proof (cases "ok \<and> 32 \<le> size_sub clen 8 \<and> size_sub clen 8 \<le> 1440 \<and> ?open \<noteq> None")
    case False
    then show ?thesis using wf kq by (auto simp: eq split: option.splits)
  next
    case True
    then obtain pt where pt: "?open = Some pt" by blast
    then have len: "?n = length pt" by (auto simp: ed25519_secretbox_open_def split: if_splits option.splits)
    have c: "size_sub clen 8 = clen - 8" "40 \<le> clen"
      by (rule box_size [of clen]; use True at(3) in blast)+
    then have l: "length pt \<le> 1408" "off + 8 + 32 + length pt \<le> plen" using len at True by auto
    have opens: "box_opens N a payload plen ?tsn pt"
      unfolding box_opens_def
    proof (intro exI conjI)
      show "ed25519_secretbox_open N (drop (off + 8) payload) (length pt) (data_nonce N a ?tsn) (a_recv_key a) = Some pt"
        using pt by (simp only: len drop_drop add.commute [of 8])
    qed (use at l in simp_all)
    note out = deliver_opened [OF kq opens l(1), of w "ipv69_get_be16 (drop 4 ?cd)" "ipv69_get_be16 (drop 6 ?cd)" outcap]
    show ?thesis
      using True pt out kq(1) by (auto simp: eq len packet_end_def)
  qed
qed

text \<open>What every step keeps, with each chunk inside the packet.\<close>

lemma chunk_walk_inv_at:
  assumes "P s" "off + left \<le> plen"
    and "\<And>ty at clen s s'. P s \<Longrightarrow> off + 4 \<le> at \<Longrightarrow> at + clen \<le> plen \<Longrightarrow> clen < 65536 \<Longrightarrow>
      step ty (drop at p) clen s = Inl s' \<Longrightarrow> P s'"
    and "\<And>ty at clen s r. P s \<Longrightarrow> off + 4 \<le> at \<Longrightarrow> at + clen \<le> plen \<Longrightarrow> clen < 65536 \<Longrightarrow>
      step ty (drop at p) clen s = Inr r \<Longrightarrow> Q r"
  shows "case chunk_walk step (drop off p) left s of Inl s' \<Rightarrow> P s' | Inr r \<Rightarrow> Q r"
  using assms
proof (induction left arbitrary: off s rule: less_induct)
  case (less left)
  let ?n = "unat (ipv69_get_be16 (drop 2 (drop off p)))"
  have n: "?n < 65536" by (rule order_less_le_trans [OF unsigned_less]) simp
  show ?case
  proof (cases "left < 4 \<or> left < 4 + ?n")
    case True
    then show ?thesis using less.prems(1) by (subst chunk_walk.simps) (auto simp: Let_def)
  next
    case False
    then have room: "off + 4 + ?n \<le> plen" using less.prems(2) by simp
    show ?thesis
    proof (cases "step (bget (drop off p) 0) (drop (off + 4) p) ?n s")
      case (Inl s')
      have "P s'" by (rule less.prems(3) [OF less.prems(1) _ room n Inl]) simp
      have "case chunk_walk step (drop (off + 4 + ?n) p) (left - (4 + ?n)) s' of Inl s' \<Rightarrow> P s' | Inr r \<Rightarrow> Q r"
      proof (rule less.IH)
        show "P v" if "P u" "off + 4 + ?n + 4 \<le> at" "at + clen \<le> plen" "clen < 65536" "step ty (drop at p) clen u = Inl v"
          for ty at clen u v by (rule less.prems(3) [OF that(1) _ that(3-5)]) (use that(2) in simp)
        show "Q v" if "P u" "off + 4 + ?n + 4 \<le> at" "at + clen \<le> plen" "clen < 65536" "step ty (drop at p) clen u = Inr v"
          for ty at clen u v by (rule less.prems(4) [OF that(1) _ that(3-5)]) (use that(2) in simp)
      qed (use \<open>P s'\<close> False less.prems(2) in simp_all)
      then show ?thesis using False Inl by (subst chunk_walk.simps) (simp add: Let_def add_ac)
    next
      case (Inr r)
      have "Q r" by (rule less.prems(4) [OF less.prems(1) _ room n Inr]) simp
      then show ?thesis using False Inr by (subst chunk_walk.simps) (simp add: Let_def add_ac)
    qed
  qed
qed

text \<open>The handler: the loop keeps \<open>kept\<close>; a delivery ends it.\<close>

lemma data_step_out:
  assumes "kept a s" and at: "16 \<le> off" "off + clen \<le> plen" "clen < 65536"
  shows "data_step N w outcap ty (drop off payload) clen s = Inl s' \<Longrightarrow> kept a s'"
    and "data_step N w outcap ty (drop off payload) clen s = Inr x \<Longrightarrow> packet_end N payload plen outcap a x"
proof -
  have wf: "assoc_wf s" using assms by (simp add: kept_def)
  note out = data_chunk_in_out [OF wf at, where N = N and w = w and outcap = outcap and payload = payload]
  show "data_step N w outcap ty (drop off payload) clen s = Inl s' \<Longrightarrow> kept a s'"
    using out kept_trans [OF assms(1)] kept_sack [OF wf] assms(1) by (auto simp: data_step_def split: if_splits)
  show "data_step N w outcap ty (drop off payload) clen s = Inr x \<Longrightarrow> packet_end N payload plen outcap a x"
    using out packet_end_trans [OF assms(1)] by (auto simp: data_step_def split: if_splits)
qed

lemma data_walk_out:
  assumes "assoc_wf a" "12 \<le> plen"
  shows "case chunk_walk (data_step N w outcap) (drop 12 payload) (plen - 12) a of
    Inl s \<Rightarrow> kept a s | Inr x \<Rightarrow> packet_end N payload plen outcap a x"
  by (rule chunk_walk_inv_at [where plen = plen]) (use assms data_step_out in \<open>simp_all\<close>)

lemma data_handle_wf:
  "assoc_wf a \<Longrightarrow> icsp_data_handle N a payload plen outcap w = Some (r, b, m) \<Longrightarrow> assoc_wf b"
  using data_walk_out [where plen = plen and N = N and w = w and outcap = outcap and payload = payload and a = a]
  by (auto simp: icsp_data_handle_def packet_end_def kept_def advanced_def
      split: if_splits sum.splits data_ret.splits option.splits)

text \<open>C7: Whatever arrives, an association stays well-formed with its keys. A packet delivers at most
  one message, which has the sequence number its stream expects, advances exactly that stream
  and fits the caller's buffer; a packet that delivers nothing leaves all stream counters alone.
  The message is the content of a box of that very packet that opens under the receive key. The
  one exception is a packet with a box, made with that key, that holds fewer than the 8 bytes of
  the inner header: only then can the handler run outside its arrays or deliver other bytes.\<close>

theorem data_handle_sound:
  assumes "assoc_wf a"
  shows "case icsp_data_handle N a payload plen outcap w of
      None \<Rightarrow> short_box N payload plen a
    | Some (r, b, None) \<Rightarrow> kept a b \<and> r \<in> {0, -1}
    | Some (r, b, Some (d, sid)) \<Rightarrow> advanced sid a b \<and> r = int (length d) \<and> length d \<le> outcap \<and>
        (authentic N payload plen outcap a (d, sid) \<or> short_box N payload plen a)"
proof (cases "plen < 12")
  case True
  then show ?thesis using assms by (simp add: icsp_data_handle_def)
next
  case False
  then show ?thesis
    using data_walk_out [OF assms, where plen = plen and N = N and w = w and outcap = outcap and payload = payload]
    by (auto simp: icsp_data_handle_def packet_end_def split: sum.splits data_ret.splits option.splits)
qed

text \<open>At two fresh associations, the first message.\<close>

theorem data_handle_sound_witness:
  "\<exists>pkt w b. icsp_data_handle toy_nacl (assoc0\<lparr>a_has_key := True\<rparr>) pkt (length pkt) 1400 w =
      Some (2, b, Some ([1, 2], 3)) \<and> advanced 3 (assoc0\<lparr>a_has_key := True\<rparr>) b"
proof -
  have wf: "assoc_wf (assoc0\<lparr>a_has_key := True\<rparr>)" using linked_fresh by (simp add: linked_def)
  have room: "3 \<in> set (stream_ids (assoc0\<lparr>a_has_key := True, a_next_tsn := 1\<rparr>)) \<or>
      length (stream_ids (assoc0\<lparr>a_has_key := True, a_next_tsn := 1\<rparr>)) < 8"
    by (simp add: stream_ids_def assoc0_def)
  obtain w' f r' where h: "icsp_data_handle toy_nacl (assoc0\<lparr>a_has_key := True\<rparr>)
      (drop 46 (sent_frame f) @ []) (length (drop 46 (sent_frame f))) 1400 w' = Some (int (length [1, 2 :: u8]), r', Some ([1, 2], 3))"
    by (rule linked_step [OF linked_fresh, of "[1, 2]" world0 3 toy_nacl "[]"])
      (use room in \<open>auto simp: world0_def assoc0_def\<close>)
  then have h': "icsp_data_handle toy_nacl (assoc0\<lparr>a_has_key := True\<rparr>) (drop 46 (sent_frame f))
      (length (drop 46 (sent_frame f))) 1400 w' = Some (2, r', Some ([1, 2], 3))" by simp
  moreover have "advanced 3 (assoc0\<lparr>a_has_key := True\<rparr>) r'"
    using data_handle_sound [OF wf, of toy_nacl "drop 46 (sent_frame f)" "length (drop 46 (sent_frame f))" 1400 w'] h' by simp
  ultimately show ?thesis by blast
qed

section \<open>Replays\<close>

definition window :: "icsp_assoc \<Rightarrow> u32 \<times> u32" where
  "window a = (a_rw_tsn a, a_rw_mask a)"

definition blocked :: "icsp_assoc \<Rightarrow> u32 \<Rightarrow> bool" where
  "blocked a t \<longleftrightarrow> \<not> fst (replay_check (window a) t)"

lemma get_stream_window: "window (snd (get_stream a sid)) = window a"
  by (auto simp: get_stream_def window_def split: option.splits)

lemma data_deliver_window:
  "data_deliver a tsn sid seq clear mlen outcap = Inl b \<Longrightarrow> window b = window a"
  "data_deliver a tsn sid seq clear mlen outcap = Inr (D_Ret k b m) \<Longrightarrow> window b = window a"
proof -
  obtain so c where get: "get_stream a sid = (so, c)" by (cases "get_stream a sid")
  have "window c = window a" using get_stream_window [of a sid] get by simp
  then show "data_deliver a tsn sid seq clear mlen outcap = Inl b \<Longrightarrow> window b = window a"
    "data_deliver a tsn sid seq clear mlen outcap = Inr (D_Ret k b m) \<Longrightarrow> window b = window a"
    using get
    by (auto simp: data_deliver_def Let_def window_def bump_cum_def upd_stream_def split: option.splits if_splits)
qed

text \<open>On every exit the window has taken the chunk's TSN in.\<close>

lemma data_chunk_in_window:
  "case data_chunk_in N w outcap cd clen a of
     Inl b \<Rightarrow> window b = snd (replay_check (window a) (ipv69_get_be32 cd))
   | Inr (D_Ret k b m) \<Rightarrow> window b = snd (replay_check (window a) (ipv69_get_be32 cd))
   | Inr D_UB \<Rightarrow> True"
proof -
  obtain ok rt rm where win: "replay_check (a_rw_tsn a, a_rw_mask a) (ipv69_get_be32 cd) = (ok, rt, rm)"
    by (metis prod.exhaust)
  define q where "q = a\<lparr>a_rw_tsn := rt, a_rw_mask := rm\<rparr>"
  have q: "window q = snd (replay_check (window a) (ipv69_get_be32 cd))" using win by (simp add: q_def window_def)
  have keep: "\<not> ok \<Longrightarrow> window a = snd (replay_check (window a) (ipv69_get_be32 cd))"
    using win replay_refuse_keeps [of "(a_rw_tsn a, a_rw_mask a)" "ipv69_get_be32 cd" "(rt, rm)"]
    by (auto simp: window_def)
  show ?thesis
    using q keep
    by (auto simp: data_chunk_in_eq [OF win q_def] data_deliver_window split: option.splits sum.splits data_ret.splits)
qed

lemma blocked_step:
  assumes "blocked a t"
  shows "data_step N w outcap ty cd clen a = Inl b \<Longrightarrow> blocked b t"
    and "data_step N w outcap ty cd clen a = Inr x \<Longrightarrow> (case x of D_Ret k b m \<Rightarrow> blocked b t | D_UB \<Rightarrow> True)"
proof -
  have st: "\<not> fst (replay_check (snd (replay_check (window a) u)) t)" for u
    using rw.block_stays [OF assms [unfolded blocked_def], of u] by (metis prod.collapse)
  have sack: "blocked (sack_in c a) t" for c
    using assms by (simp add: blocked_def window_def sack_in_def)
  note win = data_chunk_in_window [where N = N and w = w and outcap = outcap and cd = cd and clen = clen and a = a]
  show "data_step N w outcap ty cd clen a = Inl b \<Longrightarrow> blocked b t"
    using win st assms sack by (auto simp: data_step_def blocked_def split: if_splits)
  show "data_step N w outcap ty cd clen a = Inr x \<Longrightarrow> (case x of D_Ret k b m \<Rightarrow> blocked b t | D_UB \<Rightarrow> True)"
    using win st by (auto simp: data_step_def blocked_def split: if_splits data_ret.splits)
qed

lemma blocked_handle:
  assumes "blocked a t" "icsp_data_handle N a payload plen outcap w = Some (r, b, m)"
  shows "blocked b t"
proof (cases "plen < 12")
  case False
  have "case chunk_walk (data_step N w outcap) (drop 12 payload) (plen - 12) a of
      Inl s \<Rightarrow> blocked s t | Inr x \<Rightarrow> (case x of D_Ret k b m \<Rightarrow> blocked b t | D_UB \<Rightarrow> True)"
    by (rule chunk_walk_inv) (use assms(1) blocked_step in \<open>simp_all\<close>)
  then show ?thesis
    using assms(2) False by (auto simp: icsp_data_handle_def split: sum.splits data_ret.splits)
qed (use assms in \<open>simp add: icsp_data_handle_def\<close>)

lemma data_step_blocked:
  assumes "blocked a (ipv69_get_be32 cd)"
  shows "data_step N w outcap ICSP_CHUNK_DATA cd clen a = Inl a"
proof -
  obtain k where "replay_check (window a) (ipv69_get_be32 cd) = (False, k)"
    using assms by (cases "replay_check (window a) (ipv69_get_be32 cd)") (auto simp: blocked_def)
  then show ?thesis by (simp add: data_step_def data_chunk_in_def window_def Let_def)
qed

lemma single_walk:
  assumes p: "icsp_build_pkt g (icsp_chunk_put ty n @ d) cap = Some p" and d: "length d = n" "n < 65536"
  shows "chunk_walk step (drop 12 (p @ junk)) (length p - 12) a = step ty (d @ junk) n a"
proof -
  have "length p = 12 + (4 + n)" using build_pkt_length [OF p] d by simp
  moreover have "drop 12 (p @ junk) = icsp_chunk_put ty n @ d @ junk" using build_pkt_fields(5) [OF p, of junk] by simp
  ultimately show ?thesis using chunk_walk_single [OF d] by simp
qed

end
