(* ===== verification/Icsp_Limits.thy ===== *)
theory Icsp_Limits
  imports Icsp_Safety
begin

text \<open>
  Where the data path's buffers and shortcuts show: the size at which sending overruns the
  stack, the sizes that are sent and never received, and what a retransmission carries.
\<close>

section \<open>Sizes\<close>

text \<open>Sending overruns the chunk buffer for exactly the message lengths 1393 to 1400, which the
  length check lets through.\<close>

theorem data_send_overrun:
  assumes "assoc_wf s" "a_has_key s" "sid \<in> set (stream_ids s) \<or> length (stream_ids s) < 8"
  shows "icsp_data_send N s sid data w = None \<longleftrightarrow> 1392 < length data \<and> length data \<le> 1400"
proof -
  obtain i s1 where gs: "get_stream s sid = (Some i, s1)" using get_stream_available [OF assms(3)] by metis
  have build: "data_chunk_build N a t sid q data = None \<longleftrightarrow> 1392 < length data" for a t q
    by (auto simp: data_chunk_build_def Let_def)
  show ?thesis
    using assms(2) gs build
    by (auto simp: icsp_data_send_def Let_def split: option.splits prod.splits)
qed

text \<open>Both sides of the bound at a fresh association.\<close>

theorem data_send_overrun_witness:
  "icsp_data_send toy_nacl (assoc0\<lparr>a_has_key := True\<rparr>) 1 (replicate 1393 7) world0 = None \<and>
   icsp_data_send toy_nacl (assoc0\<lparr>a_has_key := True\<rparr>) 1 (replicate 1392 7) world0 \<noteq> None"
proof -
  have "assoc_wf (assoc0\<lparr>a_has_key := True\<rparr>)" using linked_fresh by (simp add: linked_def)
  moreover have "stream_ids (assoc0\<lparr>a_has_key := True\<rparr>) = []" by (simp add: stream_ids_def assoc0_def)
  ultimately have "icsp_data_send toy_nacl (assoc0\<lparr>a_has_key := True\<rparr>) 1 data world0 = None \<longleftrightarrow>
      1392 < length data \<and> length data \<le> 1400" for data
    by (intro data_send_overrun) simp_all
  then show ?thesis by simp
qed

section \<open>A box shorter than its header\<close>

text \<open>The opened box goes to an uninitialised buffer, and the 8 bytes of the header are taken off its
  length without a look at it. A peer that seals fewer than 8 bytes, where the stack happens to
  hold the rest of the header, gets 1400 bytes of that stack delivered to the caller in place
  of a message; or, out of order, makes the receiver write outside the queue entry.\<close>

lemma short_clear:
  assumes "m < 8" "map (w_stack w) [m..<8] = drop m hdr" "length hdr = 8"
  shows "clear_buf w (take m hdr) = hdr @ map (w_stack w) [8..<1408]"
proof -
  have "[m..<8 + 1400] = [m..<8] @ [8..<8 + 1400]" by (rule upt_add_eq_append) (use assms(1) in simp)
  then have upt: "[m..<1408] = [m..<8] @ [8..<1408]" by (simp del: upt_rec_numeral)
  have "length (take m hdr) = m" using assms by simp
  then have "clear_buf w (take m hdr) = take m hdr @ drop m hdr @ map (w_stack w) [8..<1408]"
    unfolding clear_buf_def by (simp only: upt map_append assms(2))
  then show ?thesis by (simp only: append_assoc [symmetric] append_take_drop_id)
qed

lemma short_deliver:
  assumes wf: "assoc_wf r" and av: "sid \<in> set (stream_ids r) \<or> length (stream_ids r) < 8"
    and m: "m < 8" and buf: "length hdr = 8" "length rest = 1400"
  shows "seq = recv_seq r sid \<Longrightarrow> \<exists>b. data_deliver r tsn sid seq (hdr @ rest) (size_sub m 8) 1400 =
      Inr (D_Ret 1400 b (Some (rest, sid)))"
    and "seq \<noteq> recv_seq r sid \<Longrightarrow> a_n_rcvq r < 16 \<Longrightarrow>
      data_deliver r tsn sid seq (hdr @ rest) (size_sub m 8) 1400 = Inr D_UB"
proof -
  obtain i c where get: "get_stream r sid = (Some i, c)" using get_stream_available [OF av] by metis
  note g = get_stream_Some [OF wf get]
  have next_seq: "st_next_recv_seq (a_streams c ! i) = recv_seq r sid"
    using g(1,3) by (metis option.simps(5) recv_seq_def)
  have n: "a_n_rcvq c = a_n_rcvq r"
    using get by (auto simp: get_stream_def upd_stream_def Let_def split: option.splits if_splits)
  have big: "size_sub m 8 = 2 ^ 64 + m - 8" using m by (simp add: size_sub_lt)
  have min: "min (size_sub m 8) 1400 = 1400" unfolding big by simp
  have u: "unat (of_nat n :: u16) = n mod 65536" for n by (simp add: unat_of_nat)
  have "(2 ^ 64 + m - 8) mod 65536 = 65528 + m" by (rule mod_nat_eqI) (use m in simp_all)
  then have len: "1400 < unat (of_nat (size_sub m 8) :: u16)" unfolding u big by simp
  show "\<exists>b. data_deliver r tsn sid seq (hdr @ rest) (size_sub m 8) 1400 = Inr (D_Ret 1400 b (Some (rest, sid)))"
    if "seq = recv_seq r sid"
    using get next_seq that buf by (simp add: data_deliver_def Let_def min slice_eq_take_drop)
  show "data_deliver r tsn sid seq (hdr @ rest) (size_sub m 8) 1400 = Inr D_UB"
    if "seq \<noteq> recv_seq r sid" "a_n_rcvq r < 16"
    using get next_seq that n len by (simp add: data_deliver_def Let_def)
qed

lemma short_chunk_in:
  assumes wf: "assoc_wf r" and new: "a_rw_tsn r < tsn" and m: "m < 8"
    and hdr: "hdr = ipv69_put_be32 tsn @ ipv69_put_be16 sid @ ipv69_put_be16 seq"
    and stack: "map (w_stack w) [m..<8] = drop m hdr"
    and cd: "cd = (hdr @ ed25519_secretbox N (take m hdr) (data_nonce N r tsn) (a_recv_key r)) @ junk"
  obtains q where "data_chunk_in N w 1400 cd (40 + m) r =
      data_deliver q tsn sid seq (hdr @ map (w_stack w) [8..<1408]) (size_sub m 8) 1400"
    "assoc_wf q" "recv_seq q = recv_seq r" "stream_ids q = stream_ids r" "a_n_rcvq q = a_n_rcvq r"
proof -
  let ?box = "ed25519_secretbox N (take m hdr) (data_nonce N r tsn) (a_recv_key r)"
  have hdlen: "length hdr = 8" by (simp add: hdr)
  have f: "ipv69_get_be32 cd = tsn" "ipv69_get_be16 (drop 4 cd) = sid" "ipv69_get_be16 (drop 6 cd) = seq"
    by (simp_all add: cd hdr codec_simps)
  obtain k where win: "replay_check (a_rw_tsn r, a_rw_mask r) (ipv69_get_be32 cd) = (True, (tsn, k))"
    using replay_fresh [OF new] f(1) by auto
  define q where "q = r\<lparr>a_rw_tsn := tsn, a_rw_mask := k\<rparr>"
  have q: "assoc_wf q" "recv_seq q = recv_seq r" "stream_ids q = stream_ids r" "a_n_rcvq q = a_n_rcvq r"
    using kept_window [OF wf] by (simp_all add: q_def kept_def)
  have sz: "size_sub (40 + m) 8 = 32 + m" using m by (simp add: size_sub_ge)
  define rest where "rest = map (w_stack w) [8..<1408]"
  have clear: "clear_buf w (take m hdr) = hdr @ rest" unfolding rest_def by (rule short_clear [OF m stack hdlen])
  have g: "ipv69_get_be32 (hdr @ rest) = tsn" "ipv69_get_be16 (drop 4 (hdr @ rest)) = sid"
    "ipv69_get_be16 (drop 6 (hdr @ rest)) = seq"
    by (simp_all add: hdr codec_simps)
  have opn: "ed25519_secretbox_open N (?box @ junk) m (data_nonce N r tsn) (a_recv_key r) = Some (take m hdr)"
    using secretbox_open_secretbox [of "take m hdr" N "data_nonce N r tsn" "a_recv_key r" junk] m hdlen by simp
  have d: "drop 8 cd = ?box @ junk" "32 + m - 32 = m" using hdlen by (simp_all add: cd)
  have "data_chunk_in N w 1400 cd (40 + m) r = data_deliver q tsn sid seq (hdr @ rest) (size_sub m 8) 1400"
    unfolding data_chunk_in_eq [OF win q_def, of N w 1400 "40 + m"] f sz d opn option.case clear g
    using m by simp
  then show ?thesis using that q unfolding rest_def by blast
qed

theorem short_box_overruns:
  assumes wf: "assoc_wf r" "a_has_key r" and av: "sid \<in> set (stream_ids r) \<or> length (stream_ids r) < 8"
    and new: "a_rw_tsn r < tsn" and m: "m < 8"
    and hdr: "hdr = ipv69_put_be32 tsn @ ipv69_put_be16 sid @ ipv69_put_be16 seq"
    and stack: "map (w_stack w) [m..<8] = drop m hdr"
    and packet: "icsp_build_pkt g (icsp_chunk_put ICSP_CHUNK_DATA (40 + m) @ hdr @
      ed25519_secretbox N (take m hdr) (data_nonce N r tsn) (a_recv_key r)) ICSP_MAX_PAYLOAD = Some p"
  shows "seq = recv_seq r sid \<Longrightarrow> \<exists>b. icsp_data_handle N r (p @ junk) (length p) 1400 w =
      Some (1400, b, Some (map (w_stack w) [8..<1408], sid))"
    and "seq \<noteq> recv_seq r sid \<Longrightarrow> a_n_rcvq r < 16 \<Longrightarrow>
      icsp_data_handle N r (p @ junk) (length p) 1400 w = None"
proof -
  let ?d = "hdr @ ed25519_secretbox N (take m hdr) (data_nonce N r tsn) (a_recv_key r)"
  define rest where "rest = map (w_stack w) [8..<1408]"
  obtain q where eq: "data_chunk_in N w 1400 (?d @ junk) (40 + m) r = data_deliver q tsn sid seq (hdr @ rest) (size_sub m 8) 1400"
    and q: "assoc_wf q" "recv_seq q = recv_seq r" "stream_ids q = stream_ids r" "a_n_rcvq q = a_n_rcvq r"
    unfolding rest_def by (rule short_chunk_in [OF wf(1) new m hdr stack refl])
  have len: "length hdr = 8" "length ?d = 40 + m" "length rest = 1400" using m by (simp_all add: hdr rest_def)
  have walk: "chunk_walk (data_step N w 1400) (drop 12 (p @ junk)) (length p - 12) r =
      data_deliver q tsn sid seq (hdr @ rest) (size_sub m 8) 1400"
    using single_walk [OF packet len(2), of "data_step N w 1400" junk r] m wf(2) eq by (simp add: data_step_def)
  have p: "\<not> length p < 12" using packet by (auto simp: build_pkt_Some)
  note out = short_deliver [OF q(1) _ m len(1,3), of sid seq tsn, unfolded q(2,3,4)]
  show "\<exists>b. icsp_data_handle N r (p @ junk) (length p) 1400 w = Some (1400, b, Some (map (w_stack w) [8..<1408], sid))"
    if "seq = recv_seq r sid"
    using out(1) [OF av that] walk p unfolding rest_def [symmetric] by (auto simp: icsp_data_handle_def)
  show "icsp_data_handle N r (p @ junk) (length p) 1400 w = None" if "seq \<noteq> recv_seq r sid" "a_n_rcvq r < 16"
    using out(2) [OF av that] walk p by (auto simp: icsp_data_handle_def)
qed

text \<open>A receiver that does not deliver: the message is too long for the box opener, or the stream
  is not where the sender is.\<close>

lemma deliver_stalled:
  assumes wf: "assoc_wf r" and av: "sid \<in> set (stream_ids r) \<or> length (stream_ids r) < 8"
    and seq: "seq \<noteq> recv_seq r sid" and len: "mlen \<le> 1400"
  obtains b where "data_deliver r tsn sid seq clear mlen outcap = Inl b" "kept r b" "window b = window r"
    "sid \<in> set (stream_ids b) \<or> length (stream_ids b) < 8"
proof -
  obtain i c where get: "get_stream r sid = (Some i, c)" using get_stream_available [OF av] by metis
  note g = get_stream_Some [OF wf get]
  have "st_next_recv_seq (a_streams c ! i) = recv_seq r sid"
    using g(1,3) by (metis option.simps(5) recv_seq_def)
  moreover have "\<not> 1400 < unat (of_nat mlen :: u16)" using len by (simp add: unat_of_nat_small)
  ultimately have "\<exists>b. data_deliver r tsn sid seq clear mlen outcap = Inl b \<and> stream_ids b = stream_ids c"
    using get seq
    by (cases "a_n_rcvq c < 16") (auto simp: data_deliver_def Let_def intro: stream_view_cong(1))
  then obtain b where b: "data_deliver r tsn sid seq clear mlen outcap = Inl b"
    and ids: "stream_ids b = stream_ids c" by blast
  have "kept r b" using data_deliver_out [OF wf, where tsn = tsn and sid = sid and seq = seq and clear = clear and mlen = mlen and outcap = outcap] b by simp
  moreover have "sid \<in> set (stream_ids b)" using g(4) ids by auto
  ultimately show ?thesis using that b data_deliver_window(1) [OF b] by blast
qed

lemma data_chunk_in_stalled:
  assumes wf: "assoc_wf r" and av: "sid \<in> set (stream_ids r) \<or> length (stream_ids r) < 8"
    and peer: "a_assoc_id s = a_assoc_id r" "a_send_key s = a_recv_key r"
    and new: "a_rw_tsn r < tsn" and len: "length data \<le> 1336"
    and out: "1016 < length data \<or> seq \<noteq> recv_seq r sid"
    and hdr: "hdr = ipv69_put_be32 tsn @ ipv69_put_be16 sid @ ipv69_put_be16 seq"
  obtains b where "data_chunk_in N w outcap (hdr @ ed25519_secretbox N (hdr @ data) (data_nonce N s tsn) (a_send_key s) @ junk)
      (48 + length data) r = Inl b" "kept r b" "a_rw_tsn b = tsn"
    "sid \<in> set (stream_ids b) \<or> length (stream_ids b) < 8"
proof -
  let ?cd = "hdr @ ed25519_secretbox N (hdr @ data) (data_nonce N s tsn) (a_send_key s) @ junk"
  have hdlen: "length hdr = 8" by (simp add: hdr)
  have f: "ipv69_get_be32 ?cd = tsn" "ipv69_get_be16 (drop 4 ?cd) = sid" "ipv69_get_be16 (drop 6 ?cd) = seq"
    by (simp_all add: hdr codec_simps)
  obtain k where win: "replay_check (a_rw_tsn r, a_rw_mask r) (ipv69_get_be32 ?cd) = (True, (tsn, k))"
    using replay_fresh [OF new] f(1) by auto
  define q where "q = r\<lparr>a_rw_tsn := tsn, a_rw_mask := k\<rparr>"
  have q: "assoc_wf q" "kept r q" "recv_seq q = recv_seq r" "a_rw_tsn q = tsn" "stream_ids q = stream_ids r"
    using kept_window [OF wf] by (simp_all add: q_def kept_def)
  have sz: "size_sub (48 + length data) 8 = 40 + length data" "size_sub (8 + length data) 8 = length data"
    using len by (simp_all add: size_sub_ge)
  note eq = data_chunk_in_eq [OF win q_def, of N w outcap "48 + length data", unfolded f sz]
  show ?thesis
  proof (cases "1016 < length data")
    case True
    then have "data_chunk_in N w outcap ?cd (48 + length data) r = Inl q"
      by (simp add: eq ed25519_secretbox_open_def)
    then show ?thesis using that q av by simp
  next
    case False
    have nonce: "data_nonce N r tsn = data_nonce N s tsn" using peer by (simp add: data_nonce_def)
    have opn: "ed25519_secretbox_open N (ed25519_secretbox N (hdr @ data) (data_nonce N s tsn) (a_send_key s) @ junk)
        (8 + length data) (data_nonce N s tsn) (a_recv_key r) = Some (hdr @ data)"
      using secretbox_open_secretbox [of "hdr @ data" N "data_nonce N s tsn" "a_send_key s" junk] False hdlen peer(2)
      by simp
    have clr: "ipv69_get_be32 (clear_buf w (hdr @ data)) = tsn" "ipv69_get_be16 (drop 4 (clear_buf w (hdr @ data))) = sid"
      "ipv69_get_be16 (drop 6 (clear_buf w (hdr @ data))) = seq"
      by (simp_all add: hdr codec_simps clear_buf_def)
    obtain b where "data_deliver q tsn sid seq (clear_buf w (hdr @ data)) (length data) outcap = Inl b"
      "kept q b" "window b = window q" "sid \<in> set (stream_ids b) \<or> length (stream_ids b) < 8"
      by (rule deliver_stalled [OF q(1), of sid seq "length data" tsn "clear_buf w (hdr @ data)" outcap])
        (use av out False q len in auto)
    moreover from this have "data_chunk_in N w outcap ?cd (48 + length data) r = Inl b"
      using len hdlen opn clr by (simp add: eq sz nonce)
    ultimately show ?thesis using that kept_trans [OF q(2)] q(4) by (auto simp: window_def)
  qed
qed

text \<open>The sender is \<open>k\<close> messages ahead of what the receiver expects on stream \<open>sid\<close>.\<close>

definition stalled :: "nat \<Rightarrow> u16 \<Rightarrow> icsp_assoc \<Rightarrow> icsp_assoc \<Rightarrow> bool" where
  "stalled k sid s r \<longleftrightarrow> assoc_wf s \<and> assoc_wf r \<and> a_has_key s \<and> a_has_key r \<and> a_send_key s = a_recv_key r \<and>
     a_assoc_id s = a_assoc_id r \<and> (sid \<in> set (stream_ids s) \<or> length (stream_ids s) < 8) \<and>
     (sid \<in> set (stream_ids r) \<or> length (stream_ids r) < 8) \<and>
     send_seq s sid = recv_seq r sid + of_nat k \<and> a_rw_tsn r < a_next_tsn s"

lemma linked_stalled:
  assumes "linked s r" "sid \<in> set (stream_ids s) \<or> length (stream_ids s) < 8"
  shows "stalled 0 sid s r"
  using assms unfolding linked_def stalled_def by simp

lemma stalled_step:
  assumes st: "stalled k sid s r" and k: "1016 < length data \<or> 0 < k" "k < 65536"
    and len: "length data \<le> 1336" and tx: "\<not> w_txfail w (w_txn w)"
    and nowrap: "unat (a_next_tsn s) + 1 < 2 ^ 32"
  obtains s' w' f r' where
    "icsp_data_send N s sid data w = Some (sint (a_next_tsn s), s', w')" "w_out w' = w_out w @ [f]"
    "w_txfail w' = w_txfail w" "a_next_tsn s' = a_next_tsn s + 1"
    "icsp_data_handle N r (drop 46 (sent_frame f) @ junk) (length (drop 46 (sent_frame f))) 1400 w' =
      Some (0, r', None)"
    "stalled (Suc k) sid s' r'"
proof -
  have L: "assoc_wf s" "assoc_wf r" "a_has_key s" "a_has_key r" "a_send_key s = a_recv_key r"
    "a_assoc_id s = a_assoc_id r" "sid \<in> set (stream_ids s) \<or> length (stream_ids s) < 8"
    "sid \<in> set (stream_ids r) \<or> length (stream_ids r) < 8"
    "send_seq s sid = recv_seq r sid + of_nat k" "a_rw_tsn r < a_next_tsn s"
    using st by (auto simp: stalled_def)
  obtain i s1 where gs: "get_stream s sid = (Some i, s1)" using get_stream_available [OF L(7)] by metis
  obtain s' w' g chunk p where S: "icsp_data_send N s sid data w = Some (sint (a_next_tsn s), s', w')"
    "w_out w' = w_out w @ [pkt_sent g p]" "assoc_wf g" "w_txfail w' = w_txfail w"
    "data_chunk_build N s (a_next_tsn s) sid (send_seq s sid) data = Some chunk"
    "icsp_build_pkt g chunk ICSP_MAX_PAYLOAD = Some p"
    "assoc_wf s'" "same_peer s s'" "a_next_tsn s' = a_next_tsn s + 1"
    "send_seq s' = (send_seq s)(sid := send_seq s sid + 1)" "stream_ids s' = stream_ids s1"
    by (rule data_send_step [OF L(1,3) gs len tx, of N]) blast
  define hdr where "hdr = ipv69_put_be32 (a_next_tsn s) @ ipv69_put_be16 sid @ ipv69_put_be16 (send_seq s sid)"
  define d where "d = hdr @ ed25519_secretbox N (hdr @ data) (data_nonce N s (a_next_tsn s)) (a_send_key s)"
  have ne: "1016 < length data \<or> send_seq s sid \<noteq> recv_seq r sid"
  proof (cases "0 < k")
    case True
    then have "unat (of_nat k :: u16) \<noteq> 0" using k(2) by (simp add: unat_of_nat_small)
    then have "(of_nat k :: u16) \<noteq> 0" by auto
    then show ?thesis using L(9) by simp
  qed (use k in simp)
  obtain r' where R: "data_chunk_in N w' 1400 (hdr @ ed25519_secretbox N (hdr @ data)
        (data_nonce N s (a_next_tsn s)) (a_send_key s) @ junk) (48 + length data) r = Inl r'"
    "kept r r'" "a_rw_tsn r' = a_next_tsn s" "sid \<in> set (stream_ids r') \<or> length (stream_ids r') < 8"
    by (rule data_chunk_in_stalled [OF L(2,8,6,5,10) len ne hdr_def, of N w' 1400 junk]) blast
  have chunk: "chunk = icsp_chunk_put ICSP_CHUNK_DATA (48 + length data) @ d"
    using S(5) data_chunk_build_fits [of data N s] len by (simp add: d_def hdr_def)
  have dlen: "length d = 48 + length data" "48 + length data < 65536" using len by (simp_all add: d_def hdr_def)
  have "data_step N w' 1400 ICSP_CHUNK_DATA (d @ junk) (48 + length data) r = Inl r'"
    using R(1) L(4) by (simp add: data_step_def d_def)
  then have "icsp_data_handle N r (p @ junk) (length p) 1400 w' = Some (0, r', None)"
    using single_walk [OF S(6) [unfolded chunk] dlen, of "data_step N w' 1400" junk r] build_pkt_length [OF S(6)]
    by (simp add: icsp_data_handle_def)
  moreover have "drop 46 (sent_frame (pkt_sent g p)) = p" by (rule sent_frame_payload [OF S(3)])
  moreover have "a_next_tsn s < a_next_tsn s + 1"
    using nowrap by (simp add: word_less_nat_alt unat_word_ariths)
  moreover have "sid \<in> set (stream_ids s')" using S(11) get_stream_Some(4) [OF L(1) gs] by auto
  ultimately have "stalled (Suc k) sid s' r'"
    using S R L by (simp add: stalled_def kept_def same_peer_def)
  then show ?thesis
    using that [of s' w' "pkt_sent g p" r'] S \<open>icsp_data_handle N r (p @ junk) (length p) 1400 w' = Some (0, r', None)\<close>
      \<open>drop 46 (sent_frame (pkt_sent g p)) = p\<close> by simp
qed

lemma stalled_run:
  assumes "stalled k sid s r" "0 < k" "k + length ds < 65536" "\<And>n. \<not> w_txfail w n"
    and "\<And>d. d \<in> set ds \<Longrightarrow> length d \<le> 1336" "unat (a_next_tsn s) + length ds < 2 ^ 32"
  shows "carry N junk s r w (map (Pair sid) ds) = Some (replicate (length ds) None)"
  using assms
proof (induction ds arbitrary: k s r w)
  case (Cons d ds)
  have nw: "unat (a_next_tsn s) + 1 < 2 ^ 32" and len: "length d \<le> 1336" and k: "1016 < length d \<or> 0 < k" "k < 65536"
    using Cons.prems by auto
  obtain s' w' f r' where S: "icsp_data_send N s sid d w = Some (sint (a_next_tsn s), s', w')"
    "w_out w' = w_out w @ [f]" "w_txfail w' = w_txfail w" "a_next_tsn s' = a_next_tsn s + 1"
    "icsp_data_handle N r (drop 46 (sent_frame f) @ junk) (length (drop 46 (sent_frame f))) 1400 w' = Some (0, r', None)"
    "stalled (Suc k) sid s' r'"
    by (rule stalled_step [OF Cons.prems(1) k len Cons.prems(4) nw, of N junk])
  have "carry N junk s' r' w' (map (Pair sid) ds) = Some (replicate (length ds) None)"
    by (rule Cons.IH [OF S(6)]) (use Cons.prems S(3,4) unat_add_le [of "a_next_tsn s" 1] in auto)
  then show ?case using S(1,2,5) by (simp add: Let_def)
qed simp

text \<open>A message of 1017 to 1336 bytes is accepted and sent with a TSN like any other, but the
  receiver never opens it, and from then on it delivers nothing that follows on that stream,
  whatever its size: the stream waits for a number that cannot come.\<close>

theorem large_message_stalls_stream:
  assumes "linked s r" "sid \<in> set (stream_ids s) \<or> length (stream_ids s) < 8"
    and "1016 < length big" "length big \<le> 1336"
    and "\<And>d. d \<in> set ds \<Longrightarrow> length d \<le> 1336" "length ds < 65535"
    and "\<And>n. \<not> w_txfail w n" "unat (a_next_tsn s) + Suc (length ds) < 2 ^ 32"
  shows "carry N junk s r w ((sid, big) # map (Pair sid) ds) = Some (replicate (Suc (length ds)) None)"
proof -
  have nw: "unat (a_next_tsn s) + 1 < 2 ^ 32" using assms(8) by simp
  obtain s' w' f r' where S: "icsp_data_send N s sid big w = Some (sint (a_next_tsn s), s', w')"
    "w_out w' = w_out w @ [f]" "w_txfail w' = w_txfail w" "a_next_tsn s' = a_next_tsn s + 1"
    "icsp_data_handle N r (drop 46 (sent_frame f) @ junk) (length (drop 46 (sent_frame f))) 1400 w' = Some (0, r', None)"
    "stalled (Suc 0) sid s' r'"
    by (rule stalled_step [OF linked_stalled [OF assms(1,2)] disjI1 [OF assms(3)] _ assms(4,7) nw, of N junk]) simp_all
  have "carry N junk s' r' w' (map (Pair sid) ds) = Some (replicate (length ds) None)"
    by (rule stalled_run [OF S(6)]) (use assms S(3,4) unat_add_le [of "a_next_tsn s" 1] in auto)
  then show ?thesis using S(1,2,5) by (simp add: Let_def)
qed

theorem large_message_stalls_stream_witness:
  "carry toy_nacl [] (assoc0\<lparr>a_has_key := True, a_next_tsn := 1\<rparr>) (assoc0\<lparr>a_has_key := True\<rparr>) world0
     ((3, zeros 1017) # map (Pair 3) [[1], [2]]) = Some (replicate (Suc (length [[1 :: u8], [2]])) None)"
proof (rule large_message_stalls_stream [OF linked_fresh])
  show "3 \<in> set (stream_ids (assoc0\<lparr>a_has_key := True, a_next_tsn := 1\<rparr>)) \<or>
      length (stream_ids (assoc0\<lparr>a_has_key := True, a_next_tsn := 1\<rparr>)) < 8"
    by (simp add: stream_ids_def assoc0_def)
  show "unat (a_next_tsn (assoc0\<lparr>a_has_key := True, a_next_tsn := 1\<rparr>)) + Suc (length [[1 :: u8], [2]]) < 2 ^ 32"
    by simp
qed (auto simp: world0_def)

section \<open>Retransmission\<close>

text \<open>The message buffers of the send queue are never written: they stay zero.\<close>

definition sendq_blank :: "icsp_assoc \<Rightarrow> bool" where
  "sendq_blank a \<longleftrightarrow> (\<forall>e \<in> set (a_sendq a). sq_data e = zeros ICSP_MAX_PAYLOAD)"

lemma sendq_blank_assoc0: "sendq_blank assoc0"
  by (simp add: sendq_blank_def assoc0_def sendq0_def)

lemma sendq_blank_push:
  assumes "sendq_blank a" "assoc_wf a"
  shows "sendq_blank (sendq_push t x y l n a)"
proof (cases "a_n_sendq a < 16")
  case True
  then have "a_sendq a ! a_n_sendq a \<in> set (a_sendq a)" using assms(2) by (simp add: assoc_wf_def)
  then show ?thesis
    using assms(1) True set_update_subset_insert [of "a_sendq a" "a_n_sendq a"]
    by (fastforce simp: sendq_blank_def sendq_push_def Let_def)
qed (use assms in \<open>simp add: sendq_push_def sendq_blank_def\<close>)

lemma secretbox_body:
  assumes "length m \<le> 2048"
  shows "drop 32 (ed25519_secretbox N m n k) = map (\<lambda>i. m ! i XOR n_xsalsa20 N n k (32 + i)) [0..<length m]"
  by (rule nth_equalityI)
    (use assms in \<open>simp_all add: ed25519_secretbox_def crypto_secretbox_def Let_def crypto_stream_xor_def nth_append\<close>)

lemma chunk_body:
  assumes "data_chunk_build N a tsn sid seq data = Some c"
  shows "drop 52 c = map (\<lambda>i. data ! i XOR n_xsalsa20 N (data_nonce N a tsn) (a_send_key a) (40 + i)) [0..<length data]"
proof -
  define h where "h = ipv69_put_be32 tsn @ ipv69_put_be16 sid @ ipv69_put_be16 seq"
  have h: "length h = 8" by (simp add: h_def)
  have len: "length data \<le> 1392" using assms by (auto simp: data_chunk_build_def Let_def split: if_splits)
  have c: "c = icsp_chunk_put ICSP_CHUNK_DATA (48 + length data) @ h @
      ed25519_secretbox N (h @ data) (data_nonce N a tsn) (a_send_key a)"
    using assms data_chunk_build_fits [OF len, of N a tsn sid seq] by (simp add: h_def)
  have "drop 52 c = drop 8 (drop 32 (ed25519_secretbox N (h @ data) (data_nonce N a tsn) (a_send_key a)))"
    by (simp add: c h)
  also have "drop 32 (ed25519_secretbox N (h @ data) (data_nonce N a tsn) (a_send_key a)) =
      map (\<lambda>i. (h @ data) ! i XOR n_xsalsa20 N (data_nonce N a tsn) (a_send_key a) (32 + i)) [0..<length (h @ data)]"
    by (rule secretbox_body) (use len h in simp)
  finally have eq: "drop 52 c = drop 8 (map (\<lambda>i. (h @ data) ! i XOR
      n_xsalsa20 N (data_nonce N a tsn) (a_send_key a) (32 + i)) [0..<length (h @ data)])" .
  show ?thesis
    unfolding eq by (rule nth_equalityI) (simp_all add: h nth_append)
qed

lemma map2_xor_stream:
  "length z = length d \<Longrightarrow> (\<And>i. i < length d \<Longrightarrow> z ! i = 0) \<Longrightarrow>
   map2 (XOR) (map (\<lambda>i. d ! i XOR f i) [0..<length d]) (map (\<lambda>i. z ! i XOR f i) [0..<length z]) = (d :: bytes)"
  by (rule nth_equalityI) (simp_all add: xor.assoc)

lemma drop_frame: "assoc_wf g \<Longrightarrow> icsp_build_pkt g c n = Some p \<Longrightarrow> drop 110 (sent_frame (pkt_sent g p)) = drop 52 c"
proof -
  assume g: "assoc_wf g" and p: "icsp_build_pkt g c n = Some p"
  have "drop 110 (sent_frame (pkt_sent g p)) = drop 52 (drop 12 (drop 46 (sent_frame (pkt_sent g p))))" by simp
  also have "\<dots> = drop 52 c" using sent_frame_payload [OF g] build_pkt_fields(5) [OF p, of "[]"] by simp
  finally show ?thesis .
qed

text \<open>C38: A retransmission carries zeros in place of the message, sealed under the same key and the
  same nonce, so the exclusive or of the two packets is the message in clear: whoever sees both
  frames reads it without any key.\<close>

theorem retransmission_leaks_message:
  assumes s: "assoc_wf s" "a_has_key s" "sendq_blank s" "a_n_sendq s < ICSP_SENDQ"
    and room: "sid \<in> set (stream_ids s) \<or> length (stream_ids s) < 8" and len: "length data \<le> 1336"
    and tx: "\<not> w_txfail w (w_txn w)" "\<not> w_txfail v (w_txn v)" and late: "t \<le> w_time v - w_time w"
  shows "\<exists>r s' w' f s'' v' f'. icsp_data_send N s sid data w = Some (r, s', w') \<and> w_out w' = w_out w @ [f] \<and>
    retransmit_one N t (a_n_sendq s) (k, s', v) = Some (k + 1, s'', v') \<and> w_out v' = w_out v @ [f'] \<and>
    map2 (XOR) (drop 110 (sent_frame f)) (drop 110 (sent_frame f')) = data"
proof -
  let ?n = "a_n_sendq s"
  obtain i s1 where gs: "get_stream s sid = (Some i, s1)" using get_stream_available [OF room] by metis
  obtain s' w' g c p where S: "icsp_data_send N s sid data w = Some (sint (a_next_tsn s), s', w')"
    "w_out w' = w_out w @ [pkt_sent g p]" "assoc_wf g"
    "data_chunk_build N s (a_next_tsn s) sid (send_seq s sid) data = Some c"
    "icsp_build_pkt g c ICSP_MAX_PAYLOAD = Some p" "assoc_wf s'" "same_peer s s'"
    "a_sendq s' = a_sendq (sendq_push (a_next_tsn s) sid (send_seq s sid) (length data) (w_time w) s)"
    by (rule data_send_step [OF s(1,2) gs len tx(1), of N]) blast
  define e where "e = a_sendq s' ! ?n"
  have ln: "?n < length (a_sendq s)" using s(1,4) by (simp add: assoc_wf_def)
  then have blank: "sq_data (a_sendq s ! ?n) = zeros 1400" using s(3) by (simp add: sendq_blank_def)
  have e: "sq_acked e = False" "sq_sent_at e = w_time w" "sq_tsn e = a_next_tsn s" "sq_stream_id e = sid"
    "sq_seq e = send_seq s sid" "unat (sq_len e) = length data" "sq_data e = zeros 1400"
    using s(4) ln len blank by (simp_all add: e_def S(8) sendq_push_def Let_def unat_of_nat_small)
  have z: "slice 0 (length data) (zeros 1400) = zeros (length data)"
    using len by (simp add: slice_eq_take_drop) (simp add: zeros_def)
  have nonce: "data_nonce N s' = data_nonce N s" "a_send_key s' = a_send_key s"
    using S(7) by (auto simp: data_nonce_def same_peer_def fun_eq_iff)
  obtain c2 where c2: "data_chunk_build N s' (a_next_tsn s) sid (send_seq s sid) (zeros (length data)) = Some c2"
    and l2: "length c2 = 52 + length data"
    using len by (simp add: data_chunk_build_fits)
  then obtain p2 where p2: "icsp_build_pkt s' c2 ICSP_MAX_PAYLOAD = Some p2"
    using len by (simp add: build_pkt_Some)
  define v' where "v' = v\<lparr>w_txn := Suc (w_txn v), w_out := w_out v @ [pkt_sent s' p2]\<rparr>"
  have snd: "icsp_send_pkt s' c2 v = (0, v')" using p2 tx(2) by (simp add: send_pkt_eq transmit_def v'_def)
  have re: "retransmit_one N t ?n (k, s', v) =
      Some (k + 1, s'\<lparr>a_sendq := (a_sendq s')[?n := e\<lparr>sq_sent_at := w_time v'\<rparr>]\<rparr>, v')"
    using e late c2 snd by (simp add: retransmit_one_def Let_def e_def [symmetric] z)
  have "map2 (XOR) (drop 52 c) (drop 52 c2) = data"
    unfolding chunk_body [OF S(4)] chunk_body [OF c2] nonce
    by (rule map2_xor_stream) (simp_all add: zeros_def)
  then have "map2 (XOR) (drop 110 (sent_frame (pkt_sent g p))) (drop 110 (sent_frame (pkt_sent s' p2))) = data"
    by (simp only: drop_frame [OF S(3,5)] drop_frame [OF S(6) p2])
  then show ?thesis using S(1,2) re by (auto simp: v'_def)
qed

theorem retransmission_leaks_message_witness:
  "\<exists>r s' w' f s'' v' f'.
    icsp_data_send toy_nacl (assoc0\<lparr>a_has_key := True\<rparr>) 1 [7, 8] world0 = Some (r, s', w') \<and> w_out w' = [f] \<and>
    retransmit_one toy_nacl 3 0 (0, s', world0\<lparr>w_time := 5\<rparr>) = Some (1, s'', v') \<and> w_out v' = [f'] \<and>
    map2 (XOR) (drop 110 (sent_frame f)) (drop 110 (sent_frame f')) = [7, 8]"
proof -
  let ?s = "assoc0\<lparr>a_has_key := True\<rparr>"
  have "assoc_wf ?s" using linked_fresh by (simp add: linked_def)
  moreover have "sendq_blank ?s" using sendq_blank_assoc0 by (simp add: sendq_blank_def)
  moreover have "a_n_sendq ?s = 0" "a_has_key ?s" "length (stream_ids ?s) < 8"
    by (simp_all add: assoc0_def stream_ids_def)
  ultimately show ?thesis
    using retransmission_leaks_message [of ?s 1 "[7, 8]" world0 "world0\<lparr>w_time := 5\<rparr>" 3 toy_nacl 0]
    by (simp add: world0_def)
qed

end
