(* ===== verification/Icsp_Auth.thy ===== *)
theory Icsp_Auth
  imports Icsp_Handshake Icsp_Limits
begin

text \<open>
  What the handshake of \<open>Icsp_Handshake\<close> achieves and what it does not: the honest run
  ends with two associations in step (\<open>linked\<close>, the precondition of the delivery theorem),
  the server accepts only authenticated, allowed peers, and the places where the checks come
  too late or are missing.
\<close>

declare client_wait_cookie_ack.simps [simp del] client_wait_init_ack.simps [simp del]
  server_wait_init.simps [simp del] server_wait_echo.simps [simp del]

section \<open>Frames through the receive path\<close>

text \<open>Packet headers read from a frame with anything behind it.\<close>

lemma sent_frame_app:
  assumes "assoc_wf a"
  shows "drop 46 (sent_frame (pkt_sent a p) @ t) = p @ t"
    "slice 6 6 (sent_frame (pkt_sent a p) @ t) = a_src_mac a"
    "next_header (hdr_at (drop 14 (sent_frame (pkt_sent a p) @ t))) = IPV69_NEXT_STREAM"
    "ipv69_addr_get (source (hdr_at (drop 14 (sent_frame (pkt_sent a p) @ t)))) = take_bit 40 (a_src_addr a)"
    "ipv69_addr_get (dest (hdr_at (drop 14 (sent_frame (pkt_sent a p) @ t)))) = take_bit 40 (a_dst_addr a)"
    "length (sent_frame (pkt_sent a p)) = 46 + length p"
proof -
  have l: "length (if a_has_peer_mac a then a_peer_mac a else bcast_mac) = 6" "length (a_src_mac a) = 6"
    using assms by (simp_all add: assoc_wf_def)
  show "slice 6 6 (sent_frame (pkt_sent a p) @ t) = a_src_mac a"
    "next_header (hdr_at (drop 14 (sent_frame (pkt_sent a p) @ t))) = IPV69_NEXT_STREAM"
    "ipv69_addr_get (source (hdr_at (drop 14 (sent_frame (pkt_sent a p) @ t)))) = take_bit 40 (a_src_addr a)"
    "ipv69_addr_get (dest (hdr_at (drop 14 (sent_frame (pkt_sent a p) @ t)))) = take_bit 40 (a_dst_addr a)"
    unfolding sent_frame_pkt_sent using l
    by (simp_all only: build_frame_src_app build_frame_hdr_app build_frame_hdr) (simp_all add: codec_simps)
  show len: "length (sent_frame (pkt_sent a p)) = 46 + length p"
    unfolding sent_frame_pkt_sent using l by (simp add: length_build_frame)
  show "drop 46 (sent_frame (pkt_sent a p) @ t) = p @ t"
    using sent_frame_payload [OF assms, of p] len by simp
qed

definition hs_type :: "u8 \<Rightarrow> bool" where
  "hs_type ty \<longleftrightarrow> ty = ICSP_CHUNK_INIT \<or> ty = ICSP_CHUNK_INIT_ACK \<or> ty = ICSP_CHUNK_COOKIE_ECHO \<or>
     ty = ICSP_CHUNK_COOKIE_ACK \<or> ty = ICSP_CHUNK_DATA"

definition heard :: "icsp_assoc \<Rightarrow> icsp_assoc \<Rightarrow> int \<Rightarrow> icsp_assoc" where
  "heard b a t = b\<lparr>a_peer_mac := a_src_mac a, a_has_peer_mac := True,
     a_dst_addr := take_bit 40 (a_src_addr a), a_last_rx := t\<rparr>"

lemma recv_sent:
  assumes wf: "assoc_wf a" and p: "16 \<le> length p" "length p \<le> 1400" and ty: "hs_type (bget p 12)"
  obtains t where "icsp_recv_frame b buf (rx (sent_frame (pkt_sent a p)) tm ms) w =
    (RF_Got (length p) (take_bit 40 (a_src_addr a)), heard b a (w_time w), sent_frame (pkt_sent a p) @ t)"
proof -
  let ?f = "sent_frame (pkt_sent a p)"
  note F = sent_frame_app [OF wf, of p]
  have into: "rx_into 1600 buf ?f = Rx_Len (46 + length p) (?f @ drop (46 + length p) buf)"
    using F(6) p by (simp add: rx_into_def)
  have rx: "icsp_rx b buf (a_rcv_timeout_ms b) (rx ?f tm ms) = Rx_Len (46 + length p) (?f @ drop (46 + length p) buf)"
    by (simp add: icsp_rx_def l2_recv_def rx_def into Let_def)
  define t where "t = drop (46 + length p) buf"
  have "bget (?f @ t) 58 = bget (drop 46 (?f @ t)) 12" by (simp only: bget_drop) simp
  also have "\<dots> = bget p 12" using p by (simp only: F(1)) simp
  finally have ty': "bget (?f @ t) 58 = bget p 12" .
  have own: "\<not> own_tx_control b (?f @ t) (46 + length p)"
    using ty ty' p by (simp add: own_tx_control_def hs_type_def Let_def)
  have "icsp_recv_frame b buf (rx ?f tm ms) w =
      (RF_Got (length p) (take_bit 40 (a_src_addr a)), heard b a (w_time w), ?f @ t)"
    using own p by (simp add: icsp_recv_frame_def rx t_def [symmetric] Let_def F(2,3,4) heard_def
        del: drop_append)
  then show ?thesis using that by blast
qed

lemma heard_wf [inv_intros]: "assoc_wf b \<Longrightarrow> assoc_wf a \<Longrightarrow> assoc_wf (heard b a t)"
  by (simp add: assoc_wf_def heard_def)

section \<open>INIT and its check\<close>

lemma INIT_PRE_SIG_0 [simp]: "INIT_PRE_SIG 0 = 77"
  by (simp add: INIT_PRE_SIG_def)

lemma INIT_LEN_0 [simp]: "INIT_LEN 0 = 157"
  by (simp add: INIT_LEN_def)

lemma length_init_fixed [simp]: "assoc_wf a \<Longrightarrow> length (init_fixed a ts) = 45"
  by (simp add: init_fixed_def assoc_wf_def)

definition with_eph :: "nacl \<Rightarrow> icsp_assoc \<Rightarrow> bytes \<Rightarrow> icsp_assoc" where
  "with_eph N a e = a\<lparr>a_eph_pub := ed25519_scalarmult_base N e, a_eph_priv := e\<rparr>"

lemma with_eph_wf [inv_intros]: "assoc_wf a \<Longrightarrow> length e = 32 \<Longrightarrow> assoc_wf (with_eph N a e)"
  by (simp add: assoc_wf_def with_eph_def)

text \<open>An INIT in clear: its chunk, its bytes, its length.\<close>

lemma init_build_clear:
  assumes wf: "assoc_wf a" and e: "randombytes 32 w = (e, w')"
  shows "init_build N a sk None w =
    ([ICSP_CHUNK_INIT, 0, 0, 157] @
     (let d = init_fixed (with_eph N a e) (word_of_int (w_time w)) @ a_id_pub a; s = ed25519_sign N d sk
      in d @ s @ mac1_compute N (mac1_key N (a_dst_addr a)) (d @ s)), with_eph N a e, w')"
proof -
  have "length e = 32" using e length_randombytes [of 32 w] by simp
  then have "assoc_wf (with_eph N a e)" by (rule with_eph_wf [OF wf])
  then have "length (init_fixed (with_eph N a e) t) = 45" for t by simp
  moreover have "length (a_id_pub a) = 32" using wf by (simp add: assoc_wf_def)
  ultimately show ?thesis using e by (simp add: init_build_def Let_def with_eph_def)
qed

text \<open>A packet's chunk as the receiver's pointers see it.\<close>

lemma pkt_chunk:
  assumes "icsp_build_pkt g (icsp_hd @ body) cap = Some p" "length icsp_hd = 4"
  shows "drop 12 (p @ t) = icsp_hd @ body @ t" "drop 16 (p @ t) = body @ t" "length p = 16 + length body"
    "bget (p @ t) 12 = bget icsp_hd 0" "bget (p @ t) 13 = bget icsp_hd 1" "bget p 12 = bget icsp_hd 0"
proof -
  show d: "drop 12 (p @ t) = icsp_hd @ body @ t" using build_pkt_fields(5) [OF assms(1)] by simp
  have "drop 16 (p @ t) = drop 4 (drop 12 (p @ t))"
    using drop_drop [of 4 12 "p @ t"] by (simp del: drop_append)
  also have "\<dots> = body @ t" unfolding d using assms(2) by simp
  finally show "drop 16 (p @ t) = body @ t" .
  show len: "length p = 16 + length body" using build_pkt_length [OF assms(1)] assms(2) by simp
  have "bget (p @ t) (12 + i) = bget (drop 12 (p @ t)) i" for i by (simp only: bget_drop)
  then have b: "bget (p @ t) (12 + i) = bget icsp_hd i" if "i < 4" for i using that assms(2) d by simp
  show "bget (p @ t) 12 = bget icsp_hd 0" "bget (p @ t) 13 = bget icsp_hd 1" using b [of 0] b [of 1] by simp_all
  then show "bget p 12 = bget icsp_hd 0" using len by simp
qed

text \<open>The body of an INIT in clear, read by the receiver.\<close>

lemma init_fields:
  assumes wf: "assoc_wf c" and d: "d = init_fixed c ts @ a_id_pub c"
  shows "length d = 77" "bget (d @ r) 0 = ICSP_VERSION" "ipv69_get_be64 (drop 37 (d @ r)) = ts"
    "slice 5 32 (d @ r) = a_eph_pub c" "slice 45 32 (d @ r) = a_id_pub c"
proof -
  have l: "length (a_eph_pub c) = 32" "length (a_id_pub c) = 32" using wf by (simp_all add: assoc_wf_def)
  show "length d = 77" "bget (d @ r) 0 = ICSP_VERSION" "ipv69_get_be64 (drop 37 (d @ r)) = ts"
    "slice 5 32 (d @ r) = a_eph_pub c" "slice 45 32 (d @ r) = a_id_pub c"
    using l wf by (simp_all add: d init_fixed_def codec_simps slice_eq_take_drop)
qed

definition accepted :: "icsp_assoc \<Rightarrow> icsp_assoc \<Rightarrow> u64 \<Rightarrow> icsp_assoc" where
  "accepted s c ts = s\<lparr>a_last_init_ts := ts, a_assoc_id := a_assoc_id c, a_peer_eph := a_eph_pub c,
     a_peer_id := a_id_pub c\<rparr>"

lemma accepted_wf [inv_intros]: "assoc_wf s \<Longrightarrow> assoc_wf c \<Longrightarrow> assoc_wf (accepted s c ts)"
  by (simp add: assoc_wf_def accepted_def)

lemma init_check_ok:
  assumes wf: "assoc_wf c" "assoc_wf g" and key: "key_ok N sk" "a_id_pub c = slice 32 32 sk" and sok: "sign_ok N"
    and d: "d = init_fixed c ts @ a_id_pub c" and body: "body = d @ ed25519_sign N d sk @
      mac1_compute N (mac1_key N (a_dst_addr g)) (d @ ed25519_sign N d sk)"
    and p: "icsp_build_pkt g ([ICSP_CHUNK_INIT, 0, 0, 157] @ body) ICSP_MAX_PAYLOAD = Some p"
    and buf: "buf = sent_frame (pkt_sent g p) @ t"
    and fresh: "a_last_init_ts s < ts" and rate: "rate_allow_g (a_src_mac g @ [0, 0]) 10 20 1 v = (True, v')"
    and peers: "peers = [] \<or> a_id_pub c \<in> set peers" and ids: "a_assoc_id g = a_assoc_id c"
  shows "init_check N s buf (length p) peers v = (0, accepted s c ts, v')"
proof -
  note F = sent_frame_app(1-5) [OF wf(2), of p t]
  have h4: "length [ICSP_CHUNK_INIT, 0, 0, 157 :: u8] = 4" by simp
  note P = pkt_chunk(1,2,4,5) [OF p h4, of t]
  let ?sig = "ed25519_sign N d sk"
  let ?mac = "mac1_compute N (mac1_key N (a_dst_addr g)) (d @ ?sig)"
  have len: "length d = 77" using init_fields(1) [OF wf(1) d] .
  then have lenb: "length body = 157" by (simp add: body)
  note I = init_fields(2-5) [OF wf(1) d, of "?sig @ ?mac @ t"]
  have cd: "drop 16 (drop 46 buf) = d @ ?sig @ ?mac @ t" by (simp only: buf F(1) P(2) body append_assoc)
  have chk: "icsp_check_pkt (drop 46 buf) (length p) = 0"
    by (simp only: buf F(1)) (rule check_built [OF p])
  have fl: "bget (drop 46 buf) 13 = 0" by (simp only: buf F(1) P(4)) simp
  have aid: "ipv69_get_be32 (drop 6 (drop 46 buf)) = a_assoc_id g"
    by (simp only: buf F(1)) (rule build_pkt_fields(4) [OF p])
  have mac: "mac1_verify N (mac1_key N (ipv69_addr_get (dest (hdr_at (drop 14 buf)))))
      (slice 0 141 (d @ ?sig @ ?mac @ t)) (drop 141 (d @ ?sig @ ?mac @ t)) = 0"
  proof -
    have "slice 0 141 (d @ ?sig @ ?mac @ t) = d @ ?sig"
      using slice_prefix [of "d @ ?sig" 141 "?mac @ t"] len by simp
    moreover have "drop 141 (d @ ?sig @ ?mac @ t) = ?mac @ t" using len by simp
    ultimately show ?thesis by (simp only: buf F(5) mac1_key_take_bit mac1_verify_compute)
  qed
  have ver: "ed25519_verify N (slice 0 77 (d @ ?sig @ ?mac @ t)) (drop 77 (d @ ?sig @ ?mac @ t)) (a_id_pub c) = 0"
  proof -
    have "slice 0 77 (d @ ?sig @ ?mac @ t) = d" "drop 77 (d @ ?sig @ ?mac @ t) = ?sig @ ?mac @ t" using len by simp_all
    moreover have "ed25519_verify N d (?sig @ r) (slice 32 32 sk) = ed25519_verify N d ?sig (slice 32 32 sk)" for r
      by (simp add: ed25519_verify_def)
    moreover have "ed25519_verify N d ?sig (slice 32 32 sk) = 0"
      using sok key(1) by (simp add: sign_ok_def key_ok_def)
    ultimately show ?thesis by (simp only: key(2))
  qed
  have mac6: "slice 6 6 buf = a_src_mac g" by (simp only: buf F(2))
  show ?thesis
    unfolding init_check_def Let_def
    using pkt_chunk(3) [OF p h4] lenb chk fl aid mac ver I rate fresh peers ids
    by (auto simp: cd mac6 accepted_def simp del: drop_drop)
qed

section \<open>The cookie\<close>

definition cookie_of :: "nacl \<Rightarrow> icsp_assoc \<Rightarrow> bytes" where
  "cookie_of N a = slice 0 48 (ed25519_sha512 N
     (a_peer_id a @ a_peer_eph a @ ipv69_put_be16 (a_streams_in a) @ ipv69_put_be16 (a_streams_out a)))"

lemma cookie_make_eq: "cookie_make N a w = (cookie_of N a, secret_refresh w)"
  by (simp add: cookie_make_def cookie_of_def Let_def)

lemma cookie_valid_eq: "cookie_valid N c a w = (slice 0 48 c = cookie_of N a, secret_refresh w)"
  by (simp add: cookie_valid_def cookie_make_eq)

lemma length_cookie_of [simp]: "length (cookie_of N a) = 48"
  by (simp add: cookie_of_def)

lemma secret_refresh_same [simp]:
  "w_out (secret_refresh w) = w_out w" "tx_ok (secret_refresh w) = tx_ok w"
  "w_time (secret_refresh w) = w_time w" "w_rate (secret_refresh w) = w_rate w"
  by (simp_all add: secret_refresh_def tx_ok_def randombytes_def Let_def)

lemma send_ok:
  assumes "tx_ok w" "icsp_build_pkt a chunk ICSP_MAX_PAYLOAD = Some p"
  obtains w' where "icsp_send_pkt a chunk w = (0, w')" "w_out w' = w_out w @ [pkt_sent a p]" "tx_ok w'"
    "w_time w' = w_time w" "w_rate w' = w_rate w"
  using assms by (simp add: send_pkt_eq transmit_def tx_ok_def)

lemma build_ok: "12 + length chunk \<le> 1400 \<Longrightarrow> \<exists>p. icsp_build_pkt a chunk ICSP_MAX_PAYLOAD = Some p"
  by (simp add: build_pkt_Some)

section \<open>INIT-ACK and COOKIE-ECHO\<close>

text \<open>The signed part of an INIT-ACK.\<close>

definition ack_body :: "icsp_assoc \<Rightarrow> bytes" where
  "ack_body a = [ICSP_VERSION] @ ipv69_put_be16 (a_streams_in a) @ ipv69_put_be16 (a_streams_out a) @
     a_eph_pub a @ a_id_pub a"

lemma ack_fields:
  assumes "assoc_wf a"
  shows "length (ack_body a) = 69" "slice 5 32 (ack_body a @ r) = a_eph_pub a"
    "slice 37 32 (ack_body a @ r) = a_id_pub a"
  using assms by (simp_all add: ack_body_def assoc_wf_def slice_eq_take_drop)

lemma derive_key_same [simp]:
  "a_eph_pub (icsp_derive_key N a e w) = a_eph_pub a" "a_id_pub (icsp_derive_key N a e w) = a_id_pub a"
  "a_streams_in (icsp_derive_key N a e w) = a_streams_in a" "a_streams_out (icsp_derive_key N a e w) = a_streams_out a"
  "a_peer_id (icsp_derive_key N a e w) = a_peer_id a" "a_peer_eph (icsp_derive_key N a e w) = a_peer_eph a"
  "a_src_port (icsp_derive_key N a e w) = a_src_port a" "a_assoc_id (icsp_derive_key N a e w) = a_assoc_id a"
  "a_has_key (icsp_derive_key N a e w)" "a_src_addr (icsp_derive_key N a e w) = a_src_addr a"
  by (simp_all add: icsp_derive_key_def Let_def)

lemma ack_body_derive [simp]: "ack_body (icsp_derive_key N a e w) = ack_body a"
  by (simp add: ack_body_def)

lemma cookie_of_derive [simp]: "cookie_of N (icsp_derive_key N a e w) = cookie_of N a"
  by (simp add: cookie_of_def)

lemma cookie_of_eph [simp]: "cookie_of N (a\<lparr>a_eph_pub := x, a_eph_priv := y\<rparr>) = cookie_of N a"
  by (simp add: cookie_of_def)

definition answered :: "nacl \<Rightarrow> icsp_assoc \<Rightarrow> bytes \<Rightarrow> world \<Rightarrow> icsp_assoc" where
  "answered N a e w = icsp_derive_key N (with_eph N a e) e w"

lemma init_ack_send_ok:
  assumes wf: "assoc_wf a" and tx: "tx_ok w" and e: "e = fst (randombytes 32 w)"
  obtains w' p u where "init_ack_send N a sk w = (0, answered N a e u, w')"
    "w_out w' = w_out w @ [pkt_sent (answered N a e u) p]" "tx_ok w'"
    "icsp_build_pkt (answered N a e u) (icsp_chunk_put ICSP_CHUNK_INIT_ACK 181 @ ack_body (with_eph N a e) @
       ed25519_sign N (ack_body (with_eph N a e)) sk @ cookie_of N a) ICSP_MAX_PAYLOAD = Some p"
proof -
  let ?u = "snd (randombytes 32 w)" and ?b = "with_eph N a e"
  let ?a = "answered N a e ?u"
  let ?chunk = "icsp_chunk_put ICSP_CHUNK_INIT_ACK 181 @ ack_body ?b @ ed25519_sign N (ack_body ?b) sk @ cookie_of N a"
  have "length e = 32" by (simp add: e)
  then have "length (ack_body ?b) = 69" by (intro ack_fields(1) with_eph_wf [OF wf])
  then obtain p where p: "icsp_build_pkt ?a ?chunk ICSP_MAX_PAYLOAD = Some p"
    using build_ok [of ?chunk ?a] by auto
  have ck: "cookie_of N ?a = cookie_of N a" by (simp add: answered_def) (simp add: cookie_of_def with_eph_def)
  obtain w' where w': "icsp_send_pkt ?a ?chunk (secret_refresh ?u) = (0, w')"
    "w_out w' = w_out w @ [pkt_sent ?a p]" "tx_ok w'"
    using send_ok [OF _ p, of "secret_refresh ?u"] tx by auto
  have "init_ack_send N a sk w = (0, ?a, w')"
    using w'(1) by (simp add: init_ack_send_def Let_def case_prod_beta e cookie_make_eq ck
        ack_body_def [symmetric] answered_def with_eph_def [symmetric])
      (simp add: ack_body_def with_eph_def answered_def)
  then show ?thesis using that w' p by blast
qed

text \<open>The client at an INIT-ACK of the server's association.\<close>

definition acked :: "nacl \<Rightarrow> icsp_assoc \<Rightarrow> icsp_assoc \<Rightarrow> int \<Rightarrow> world \<Rightarrow> icsp_assoc" where
  "acked N a s t w = (let b = (heard a s t)\<lparr>a_peer_eph := a_eph_pub s, a_peer_id := a_id_pub s\<rparr>
     in icsp_derive_key N b (a_eph_priv b) w)"

lemma acked_wf [inv_intros]: "assoc_wf a \<Longrightarrow> assoc_wf s \<Longrightarrow> assoc_wf (acked N a s t w)"
  unfolding acked_def Let_def by (rule derive_key_wf) (simp add: assoc_wf_def heard_def)

lemma client_at_init_ack:
  assumes wf: "assoc_wf s" "assoc_wf a" and key: "key_ok N ssk" "a_id_pub s = slice 32 32 ssk" and sok: "sign_ok N"
    and tx: "tx_ok w" and ck: "length ck = 48"
    and p: "icsp_build_pkt s (icsp_chunk_put ICSP_CHUNK_INIT_ACK 181 @ ack_body s @
       ed25519_sign N (ack_body s) ssk @ ck) ICSP_MAX_PAYLOAD = Some p"
    and port: "a_src_port s = dport"
  obtains u w' q buf' where
    "\<forall>evs. client_wait_init_ack N sk spub dport tries buf a (rx (sent_frame (pkt_sent s p)) tm ms # evs) w =
      client_wait_cookie_ack (cookie_echo N ck sk) 0 buf' (acked N a s tm u) evs w'"
    "icsp_build_pkt (acked N a s tm u) (cookie_echo N ck sk) ICSP_MAX_PAYLOAD = Some q"
    "w_out w' = w_out w @ [pkt_sent (acked N a s tm u) q]" "tx_ok w'" "w_time w' = tm"
proof -
  let ?u = "at_event (rx (sent_frame (pkt_sent s p)) tm ms) w"
  let ?sig = "ed25519_sign N (ack_body s) ssk"
  have h4: "length (icsp_chunk_put ICSP_CHUNK_INIT_ACK 181) = 4" by simp
  have len: "length p = 197" using pkt_chunk(3) [OF p h4] ack_fields(1) [OF wf(1)] ck by simp
  have ty: "bget p 12 = ICSP_CHUNK_INIT_ACK" using pkt_chunk(6) [OF p h4] by (simp add: icsp_chunk_put_def)
  obtain t where R: "icsp_recv_frame a buf (rx (sent_frame (pkt_sent s p)) tm ms) ?u =
    (RF_Got (length p) (take_bit 40 (a_src_addr s)), heard a s (w_time ?u), sent_frame (pkt_sent s p) @ t)"
    by (rule recv_sent [OF wf(1), of p a buf tm ms ?u]) (use len ty in \<open>simp_all add: hs_type_def\<close>)
  let ?buf = "sent_frame (pkt_sent s p) @ t"
  have pay: "drop 46 ?buf = p @ t" by (rule sent_frame_app(1) [OF wf(1)])
  have chk: "icsp_check_pkt (p @ t) (length p) = 0" by (rule check_built [OF p])
  have hdrs: "bget (p @ t) 4 = ICSP_VERSION" "bget (p @ t) 12 = ICSP_CHUNK_INIT_ACK" "ipv69_get_be16 (p @ t) = dport"
    using build_pkt_fields [OF p, of t] pkt_chunk(4) [OF p h4, of t] port by (simp_all add: icsp_chunk_put_def)
  have cd: "drop 16 (p @ t) = ack_body s @ ?sig @ ck @ t" using pkt_chunk(2) [OF p h4, of t] by simp
  have l: "length (ack_body s) = 69" by (rule ack_fields(1) [OF wf(1)])
  have f: "slice 5 32 (ack_body s @ ?sig @ ck @ t) = a_eph_pub s" "slice 37 32 (ack_body s @ ?sig @ ck @ t) = a_id_pub s"
    "slice 0 69 (ack_body s @ ?sig @ ck @ t) = ack_body s" "drop 69 (ack_body s @ ?sig @ ck @ t) = ?sig @ ck @ t"
    "slice 133 48 (ack_body s @ ?sig @ ck @ t) = ck"
    using ack_fields [OF wf(1)] l ck by simp_all
  have ver: "ed25519_verify N (ack_body s) (?sig @ r) (a_id_pub s) = 0" for r
    using sok key by (simp add: sign_ok_def key_ok_def) (simp add: ed25519_verify_def)
  have "length (cookie_echo N ck sk) = 116" using ck by (simp add: cookie_echo_def)
  then obtain q where q: "icsp_build_pkt (acked N a s tm ?u) (cookie_echo N ck sk) ICSP_MAX_PAYLOAD = Some q"
    using build_ok [of "cookie_echo N ck sk" "acked N a s tm ?u"] by auto
  obtain w' where w': "icsp_send_pkt (acked N a s tm ?u) (cookie_echo N ck sk) ?u = (0, w')"
    "w_out w' = w_out ?u @ [pkt_sent (acked N a s tm ?u) q]" "tx_ok w'" "w_time w' = w_time ?u"
    using send_ok [OF _ q, of ?u] tx by auto
  have "client_wait_init_ack N sk spub dport tries buf a (rx (sent_frame (pkt_sent s p)) tm ms # evs) w =
      client_wait_cookie_ack (cookie_echo N ck sk) 0 ?buf (acked N a s tm ?u) evs w'" for evs
    using R w'(1) chk hdrs ver f
    by (simp add: client_wait_init_ack.simps Let_def pay cd acked_def heard_def del: drop_append drop_drop bget_drop)
  then have "\<forall>evs. client_wait_init_ack N sk spub dport tries buf a (rx (sent_frame (pkt_sent s p)) tm ms # evs) w =
      client_wait_cookie_ack (cookie_echo N ck sk) 0 ?buf (acked N a s tm ?u) evs w'" by blast
  then show ?thesis by (rule that [OF _ q]) (use w' in simp_all)
qed

text \<open>The server at a COOKIE-ECHO, the client at a COOKIE-ACK.\<close>

lemma server_at_cookie_echo:
  assumes wf: "assoc_wf c" "assoc_wf a" and key: "key_ok N csk" "a_peer_id a = slice 32 32 csk" and sok: "sign_ok N"
    and tx: "tx_ok w" and p: "icsp_build_pkt c (cookie_echo N (cookie_of N a) csk) ICSP_MAX_PAYLOAD = Some p"
  obtains w' q where
    "server_wait_echo N port sk peers timeout_s buf a (rx (sent_frame (pkt_sent c p)) tm ms # evs) w =
      HS_Ret 0 ((heard a c tm)\<lparr>a_state := ST_ESTABLISHED\<rparr>) w'"
    "icsp_build_pkt (heard a c tm) (icsp_chunk_put ICSP_CHUNK_COOKIE_ACK 0) ICSP_MAX_PAYLOAD = Some q"
    "w_out w' = w_out w @ [pkt_sent (heard a c tm) q]"
proof -
  let ?u = "at_event (rx (sent_frame (pkt_sent c p)) tm ms) w"
  let ?ck = "cookie_of N a"
  let ?sig = "ed25519_sign N ?ck csk"
  have h4: "length (icsp_chunk_put ICSP_CHUNK_COOKIE_ECHO 112) = 4" by simp
  have p': "icsp_build_pkt c (icsp_chunk_put ICSP_CHUNK_COOKIE_ECHO 112 @ ?ck @ ?sig) ICSP_MAX_PAYLOAD = Some p"
    using p by (simp add: cookie_echo_def)
  have len: "length p = 128" using pkt_chunk(3) [OF p' h4] by simp
  have ty: "bget p 12 = ICSP_CHUNK_COOKIE_ECHO" using pkt_chunk(6) [OF p' h4] by (simp add: icsp_chunk_put_def)
  obtain t where R: "icsp_recv_frame a buf (rx (sent_frame (pkt_sent c p)) tm ms) ?u =
    (RF_Got (length p) (take_bit 40 (a_src_addr c)), heard a c (w_time ?u), sent_frame (pkt_sent c p) @ t)"
    by (rule recv_sent [OF wf(1), of p a buf tm ms ?u]) (use len ty in \<open>simp_all add: hs_type_def\<close>)
  have pay: "drop 46 (sent_frame (pkt_sent c p) @ t) = p @ t" by (rule sent_frame_app(1) [OF wf(1)])
  have ty': "bget (p @ t) 12 = ICSP_CHUNK_COOKIE_ECHO"
    using pkt_chunk(4) [OF p' h4, of t] by (simp add: icsp_chunk_put_def)
  have cd: "drop 16 (p @ t) = ?ck @ ?sig @ t" using pkt_chunk(2) [OF p' h4, of t] by simp
  have dr: "drop 48 (?ck @ ?sig @ t) = ?sig @ t" by simp
  have ck: "cookie_of N (heard a c tm) = ?ck" by (simp add: cookie_of_def heard_def)
  have ver: "ed25519_verify N ?ck (?sig @ r) (a_peer_id (heard a c tm)) = 0" for r
    using sok key by (simp add: heard_def sign_ok_def key_ok_def) (simp add: ed25519_verify_def)
  obtain q where q: "icsp_build_pkt (heard a c tm) (icsp_chunk_put ICSP_CHUNK_COOKIE_ACK 0) ICSP_MAX_PAYLOAD = Some q"
    using build_ok [of "icsp_chunk_put ICSP_CHUNK_COOKIE_ACK 0"] by auto
  obtain w' where w': "icsp_send_pkt (heard a c tm) (icsp_chunk_put ICSP_CHUNK_COOKIE_ACK 0) (secret_refresh ?u) = (0, w')"
    "w_out w' = w_out (secret_refresh ?u) @ [pkt_sent (heard a c tm) q]"
    using send_ok [OF _ q, of "secret_refresh ?u"] tx by auto
  have "server_wait_echo N port sk peers timeout_s buf a (rx (sent_frame (pkt_sent c p)) tm ms # evs) w =
      HS_Ret 0 ((heard a c tm)\<lparr>a_state := ST_ESTABLISHED\<rparr>) w'"
    using R w'(1) ty' ver by (simp add: server_wait_echo.simps Let_def pay cd dr cookie_valid_eq ck del: drop_append drop_drop bget_drop)
  then show ?thesis using that q w'(2) by simp
qed

lemma client_at_cookie_ack:
  assumes wf: "assoc_wf s" and p: "icsp_build_pkt s (icsp_chunk_put ICSP_CHUNK_COOKIE_ACK 0) ICSP_MAX_PAYLOAD = Some p"
  shows "client_wait_cookie_ack ck tries buf a (rx (sent_frame (pkt_sent s p)) tm ms # evs) w =
    HS_Ret 0 ((heard a s tm)\<lparr>a_state := ST_ESTABLISHED\<rparr>) (at_event (rx (sent_frame (pkt_sent s p)) tm ms) w)"
proof -
  let ?u = "at_event (rx (sent_frame (pkt_sent s p)) tm ms) w"
  have h4: "length (icsp_chunk_put ICSP_CHUNK_COOKIE_ACK 0) = 4" by simp
  have p': "icsp_build_pkt s (icsp_chunk_put ICSP_CHUNK_COOKIE_ACK 0 @ []) ICSP_MAX_PAYLOAD = Some p" using p by simp
  have len: "length p = 16" using pkt_chunk(3) [OF p' h4] by simp
  have ty: "bget p 12 = ICSP_CHUNK_COOKIE_ACK" using pkt_chunk(6) [OF p' h4] by (simp add: icsp_chunk_put_def)
  obtain t where R: "icsp_recv_frame a buf (rx (sent_frame (pkt_sent s p)) tm ms) ?u =
    (RF_Got (length p) (take_bit 40 (a_src_addr s)), heard a s (w_time ?u), sent_frame (pkt_sent s p) @ t)"
    by (rule recv_sent [OF wf, of p a buf tm ms ?u]) (use len ty in \<open>simp_all add: hs_type_def\<close>)
  have pay: "drop 46 (sent_frame (pkt_sent s p) @ t) = p @ t" by (rule sent_frame_app(1) [OF wf])
  have "bget (p @ t) 12 = ICSP_CHUNK_COOKIE_ACK"
    using pkt_chunk(4) [OF p' h4, of t] by (simp add: icsp_chunk_put_def)
  then show ?thesis using R by (simp add: client_wait_cookie_ack.simps Let_def pay del: drop_append drop_drop bget_drop)
qed

text \<open>The server at an INIT of the client's association \<open>c\<close> (on the L2 leg).\<close>

lemma server_at_init:
  assumes wf: "assoc_wf c" "assoc_wf s" and key: "key_ok N csk" "a_id_pub c = slice 32 32 csk" and sok: "sign_ok N"
    and d: "d = init_fixed c ts @ a_id_pub c" and body: "body = d @ ed25519_sign N d csk @
      mac1_compute N (mac1_key N (a_dst_addr c)) (d @ ed25519_sign N d csk)"
    and p: "icsp_build_pkt c ([ICSP_CHUNK_INIT, 0, 0, 157] @ body) ICSP_MAX_PAYLOAD = Some p"
    and tun: "\<not> a_tunnel s" and tx: "tx_ok w" and fresh: "a_last_init_ts s < ts" and port: "a_dst_port c = port"
    and rate: "fst (rate_allow (w_rate w) ms (a_src_mac c @ [0, 0]) 10 20 1)"
    and peers: "peers = [] \<or> a_id_pub c \<in> set peers"
  obtains w' e u q buf' x where
    "\<forall>evs. server_wait_init N port sk peers tmo buf s (rx (sent_frame (pkt_sent c p)) tm ms # evs) w =
      server_wait_echo N port sk peers tmo buf' x evs w'"
    "x = answered N (accepted (heard (s\<lparr>a_rcv_timeout_ms := (if 0 < tmo then tmo * 1000 else 0)\<rparr>) c tm) c ts) e u"
    "length e = 32" "w_out w' = w_out w @ [pkt_sent x q]" "tx_ok w'"
    "icsp_build_pkt x (icsp_chunk_put ICSP_CHUNK_INIT_ACK 181 @ ack_body x @
       ed25519_sign N (ack_body x) sk @ cookie_of N x) ICSP_MAX_PAYLOAD = Some q"
proof -
  let ?ev = "rx (sent_frame (pkt_sent c p)) tm ms"
  let ?u = "at_event ?ev w"
  define s1 where "s1 = s\<lparr>a_rcv_timeout_ms := (if 0 < tmo then tmo * 1000 else 0)\<rparr>"
  have s1: "assoc_wf s1" "a_tunnel s1 = a_tunnel s" "a_last_init_ts s1 = a_last_init_ts s"
    using wf(2) by (simp_all add: s1_def assoc_wf_def)
  have prep: "accept_prepare N tmo s w = (s1, w)" using tun by (simp add: accept_prepare_def s1_def)
  have h4: "length [ICSP_CHUNK_INIT, 0, 0, 157 :: u8] = 4" by simp
  have len: "length p = 173" using pkt_chunk(3) [OF p h4] init_fields(1) [OF wf(1) d] by (simp add: body)
  have ty: "bget p 12 = ICSP_CHUNK_INIT" using pkt_chunk(6) [OF p h4] by simp
  obtain t where R: "icsp_recv_frame s1 buf ?ev ?u =
    (RF_Got (length p) (take_bit 40 (a_src_addr c)), heard s1 c (w_time ?u), sent_frame (pkt_sent c p) @ t)"
    by (rule recv_sent [OF wf(1), of p s1 buf tm ms ?u]) (use len ty in \<open>simp_all add: hs_type_def\<close>)
  let ?buf = "sent_frame (pkt_sent c p) @ t" and ?h = "heard s1 c tm"
  have pay: "drop 46 ?buf = p @ t" by (rule sent_frame_app(1) [OF wf(1)])
  have ty': "bget (p @ t) 12 = ICSP_CHUNK_INIT" using pkt_chunk(4) [OF p h4, of t] by simp
  have dport: "ipv69_get_be16 (drop 2 (p @ t)) = port" using build_pkt_fields(2) [OF p, of t] port by simp
  obtain v where v: "rate_allow_g (a_src_mac c @ [0, 0]) 10 20 1 ?u = (True, v)" "w_out v = w_out w" "tx_ok v"
    using rate tx by (cases "rate_allow (w_rate w) ms (a_src_mac c @ [0, 0]) 10 20 1")
      (auto simp: rate_allow_g_def tx_ok_def at_event_def rx_def)
  have chk: "init_check N ?h ?buf (length p) peers v0 = (0, accepted ?h c ts, v)"
    if "rate_allow_g (a_src_mac c @ [0, 0]) 10 20 1 v0 = (True, v)" for v0
    by (rule init_check_ok [OF wf(1) wf(1) key sok d body p refl _ that peers refl])
      (use fresh s1(3) in \<open>simp add: heard_def\<close>)
  define a where "a = accepted ?h c ts"
  have a: "assoc_wf a" "a\<lparr>a_dst_addr := take_bit 40 (a_src_addr c)\<rparr> = a"
    using accepted_wf [OF heard_wf [OF s1(1) wf(1)] wf(1)] by (simp_all add: a_def accepted_def heard_def)
  obtain w' q u where A: "init_ack_send N a sk v = (0, answered N a (fst (randombytes 32 v)) u, w')"
    "w_out w' = w_out v @ [pkt_sent (answered N a (fst (randombytes 32 v)) u) q]" "tx_ok w'"
    "icsp_build_pkt (answered N a (fst (randombytes 32 v)) u) (icsp_chunk_put ICSP_CHUNK_INIT_ACK 181 @
       ack_body (with_eph N a (fst (randombytes 32 v))) @
       ed25519_sign N (ack_body (with_eph N a (fst (randombytes 32 v)))) sk @ cookie_of N a) ICSP_MAX_PAYLOAD = Some q"
    by (rule init_ack_send_ok [OF a(1) v(3) refl, of N sk])
  let ?x = "answered N a (fst (randombytes 32 v)) u"
  have x: "ack_body (with_eph N a (fst (randombytes 32 v))) = ack_body ?x" "cookie_of N a = cookie_of N ?x"
    by (simp_all add: answered_def with_eph_def)
  have "server_wait_init N port sk peers tmo buf s (?ev # evs) w = server_wait_echo N port sk peers tmo ?buf ?x evs w'"
    for evs
    using R A(1) ty' dport v(1) a(2)
    by (simp add: server_wait_init.simps prep Let_def pay chk a_def [symmetric] s1(2) tun del: drop_append drop_drop bget_drop)
  then have "\<forall>evs. server_wait_init N port sk peers tmo buf s (?ev # evs) w = server_wait_echo N port sk peers tmo ?buf ?x evs w'"
    by blast
  then show ?thesis
  proof (rule that)
    show "?x = answered N (accepted (heard (s\<lparr>a_rcv_timeout_ms := (if 0 < tmo then tmo * 1000 else 0)\<rparr>) c tm) c ts)
        (fst (randombytes 32 v)) u"
      by (simp only: a_def s1_def)
    show "w_out w' = w_out w @ [pkt_sent ?x q]" using A(2) v(2) by simp
    show "icsp_build_pkt ?x (icsp_chunk_put ICSP_CHUNK_INIT_ACK 181 @ ack_body ?x @
       ed25519_sign N (ack_body ?x) sk @ cookie_of N ?x) ICSP_MAX_PAYLOAD = Some q"
      using A(4) by (simp only: x)
  qed (simp_all add: A(3))
qed

section \<open>The honest run\<close>

lemma rekeyed_same [simp]:
  "a_n_streams (icsp_derive_key N a e w) = a_n_streams a" "a_next_tsn (icsp_derive_key N a e w) = a_next_tsn a"
  "a_rw_tsn (icsp_derive_key N a e w) = a_rw_tsn a" "a_is_initiator (icsp_derive_key N a e w) = a_is_initiator a"
  "a_dst_port (icsp_derive_key N a e w) = a_dst_port a" "a_tunnel (icsp_derive_key N a e w) = a_tunnel a"
  by (simp_all add: icsp_derive_key_def Let_def)

lemma linked_start:
  assumes "assoc_wf s" "assoc_wf r" "a_has_key s" "a_has_key r" "a_send_key s = a_recv_key r"
    "a_assoc_id s = a_assoc_id r" "a_n_streams s = 0" "a_n_streams r = 0" "a_rw_tsn r < a_next_tsn s"
  shows "linked s r"
  using assms
  by (auto simp: linked_def stream_ids_def send_seq_def recv_seq_def find_stream_def)

lemma random_be32_same [simp]:
  "w_out (snd (random_be32 w)) = w_out w" "tx_ok (snd (random_be32 w)) = tx_ok w"
  "w_time (snd (random_be32 w)) = w_time w" "w_rate (snd (random_be32 w)) = w_rate w"
  by (simp_all add: random_be32_def case_prod_beta)

lemma client_start_out:
  assumes "assoc_wf a0" "length sk = 64" "client_start a0 daddr dport sk w = (a, v)"
  shows "assoc_wf a" "a_is_initiator a" "a_dst_port a = dport" "a_id_pub a = slice 32 32 sk"
    "a_n_streams a = 0" "a_rw_tsn a = 0" "a_next_tsn a = fst (random_be32 w)" "a_src_mac a = a_src_mac a0"
    "w_out v = w_out w" "tx_ok v = tx_ok w" "w_time v = w_time w"
  using assms
  by (auto simp: client_start_def assoc_reset_def Let_def case_prod_beta assoc_wf_def assoc0_def)

lemma server_start_out:
  assumes "assoc_wf a0" "length sk = 64" "server_start a0 port sk w = (a, v)"
  shows "assoc_wf a" "\<not> a_is_initiator a" "a_src_port a = port" "a_id_pub a = slice 32 32 sk"
    "a_n_streams a = 0" "a_rw_tsn a = 0" "a_next_tsn a = fst (random_be32 w)" "a_last_init_ts a = 0"
    "a_tunnel a = a_tunnel a0" "w_out v = w_out w" "tx_ok v = tx_ok w" "w_rate v = w_rate w"
  using assms
  by (auto simp: server_start_def assoc_reset_def Let_def case_prod_beta assoc_wf_def assoc0_def)

lemma client_send_init_ok:
  assumes wf: "assoc_wf a" and tx: "tx_ok w"
  obtains e c w' p d body where "client_send_init N sk None a w = (0, c, w')" "c = with_eph N a e" "length e = 32"
    "d = init_fixed c (word_of_int (w_time w)) @ a_id_pub c" "body = d @ ed25519_sign N d sk @
      mac1_compute N (mac1_key N (a_dst_addr c)) (d @ ed25519_sign N d sk)"
    "icsp_build_pkt c ([ICSP_CHUNK_INIT, 0, 0, 157] @ body) ICSP_MAX_PAYLOAD = Some p"
    "w_out w' = w_out w @ [pkt_sent c p]" "tx_ok w'"
proof -
  obtain e v where e: "randombytes 32 w = (e, v)" by (cases "randombytes 32 w")
  have le: "length e = 32" using length_randombytes [of 32 w] e by simp
  define c where "c = with_eph N a e"
  define d where "d = init_fixed c (word_of_int (w_time w)) @ a_id_pub c"
  define body where "body = d @ ed25519_sign N d sk @ mac1_compute N (mac1_key N (a_dst_addr c)) (d @ ed25519_sign N d sk)"
  have wfc: "assoc_wf c" unfolding c_def by (rule with_eph_wf [OF wf le])
  have same: "a_id_pub c = a_id_pub a" "a_dst_addr c = a_dst_addr a" by (simp_all add: c_def with_eph_def)
  have build: "init_build N a sk None w = ([ICSP_CHUNK_INIT, 0, 0, 157] @ body, c, v)"
    using init_build_clear [OF wf e, of N sk] by (simp add: Let_def c_def [symmetric] d_def body_def same)
  have "length body = 157" using init_fields(1) [OF wfc d_def] by (simp add: body_def)
  then obtain p where p: "icsp_build_pkt c ([ICSP_CHUNK_INIT, 0, 0, 157] @ body) ICSP_MAX_PAYLOAD = Some p"
    using build_ok [of "[ICSP_CHUNK_INIT, 0, 0, 157] @ body" c] by auto
  have v: "tx_ok v" "w_out v = w_out w" using randombytes_same [of 32 w] e tx by simp_all
  obtain w' where w': "icsp_send_pkt c ([ICSP_CHUNK_INIT, 0, 0, 157] @ body) v = (0, w')"
    "w_out w' = w_out v @ [pkt_sent c p]" "tx_ok w'"
    by (rule send_ok [OF v(1) p])
  have "client_send_init N sk None a w = (0, c, w')" using w'(1) by (simp add: client_send_init_def build)
  then show ?thesis using that c_def le d_def body_def p w' v(2) by simp
qed

lemma honest_run:
  assumes N: "sign_ok N" "dh_ok N" and keys: "key_ok N csk" "key_ok N ssk"
    and wf: "assoc_wf c0" "assoc_wf s0" and leg: "\<not> a_tunnel s0" and tx: "tx_ok w" "tx_ok v"
    and clock: "0 < w_time w" "w_time w < 2 ^ 64"
    and rate: "fst (rate_allow (w_rate v) ms1 (a_src_mac c0 @ [0, 0]) 10 20 1)"
    and peers: "peers = [] \<or> slice 32 32 csk \<in> set peers"
    and tsn: "fst (random_be32 w) \<noteq> 0" "fst (random_be32 v) \<noteq> 0"
  shows "\<exists>F1 F2 F3 F4 c s w' v'.
    icsp_client_handshake N c0 daddr port csk None
      [rx (sent_frame F2) t2 ms2, rx (sent_frame F4) t4 ms4] w = HS_Ret 0 c w' \<and>
    icsp_server_accept N s0 port ssk peers tmo
      [rx (sent_frame F1) t1 ms1, rx (sent_frame F3) t3 ms3] v = HS_Ret 0 s v' \<and>
    w_out w' = w_out w @ [F1, F3] \<and> w_out v' = w_out v @ [F2, F4] \<and>
    linked c s \<and> linked s c \<and> a_peer_id c = slice 32 32 ssk \<and> a_peer_id s = slice 32 32 csk"
proof -
  have l: "length csk = 64" "length ssk = 64" using keys by (simp_all add: key_ok_def)
  obtain c1 w1 where start: "client_start c0 daddr port csk w = (c1, w1)" by (cases "client_start c0 daddr port csk w")
  note C = client_start_out [OF wf(1) l(1) start]
  obtain s1 v1 where sstart: "server_start s0 port ssk v = (s1, v1)" by (cases "server_start s0 port ssk v")
  note S = server_start_out [OF wf(2) l(2) sstart]
  have tx1: "tx_ok w1" "tx_ok v1" using tx C(10) S(11) by simp_all
  obtain e c2 w2 p1 d body where I: "client_send_init N csk None c1 w1 = (0, c2, w2)" "c2 = with_eph N c1 e" "length e = 32"
    "d = init_fixed c2 (word_of_int (w_time w1)) @ a_id_pub c2" "body = d @ ed25519_sign N d csk @
      mac1_compute N (mac1_key N (a_dst_addr c2)) (d @ ed25519_sign N d csk)"
    "icsp_build_pkt c2 ([ICSP_CHUNK_INIT, 0, 0, 157] @ body) ICSP_MAX_PAYLOAD = Some p1"
    "w_out w2 = w_out w1 @ [pkt_sent c2 p1]" "tx_ok w2"
    by (rule client_send_init_ok [OF C(1) tx1(1), of N csk])
  have wfc2: "assoc_wf c2" unfolding I(2) by (rule with_eph_wf [OF C(1) I(3)])
  have c2: "a_id_pub c2 = slice 32 32 csk" "a_dst_port c2 = port" "a_src_mac c2 = a_src_mac c0" "a_is_initiator c2"
    "a_n_streams c2 = 0" "a_rw_tsn c2 = 0" "a_next_tsn c2 = fst (random_be32 w)"
    "a_eph_pub c2 = ed25519_scalarmult_base N e" "a_eph_priv c2 = e"
    using C by (simp_all add: I(2) with_eph_def)
  have ts: "a_last_init_ts s1 < word_of_int (w_time w1)"
  proof -
    have "unat (word_of_int (w_time w1) :: u64) = nat (w_time w)"
      using clock C(11) unat_of_int_small [where 'a = 64, of "w_time w1"] by simp
    then show ?thesis using clock S(8) by (simp add: word_less_nat_alt)
  qed
  have leg1: "\<not> a_tunnel s1" using S(9) leg by simp
  let ?buf0 = "map (w_stack v) [0..<1600]"
  have rate1: "fst (rate_allow (w_rate v1) ms1 (a_src_mac c2 @ [0, 0]) 10 20 1)" using rate S(12) c2(3) by simp
  have peers1: "peers = [] \<or> a_id_pub c2 \<in> set peers" using peers c2(1) by simp
  obtain v2 e' u p2 buf s2 where A:
    "\<forall>evs. server_wait_init N port ssk peers tmo ?buf0 s1 (rx (sent_frame (pkt_sent c2 p1)) t1 ms1 # evs) v1 =
      server_wait_echo N port ssk peers tmo buf s2 evs v2"
    "s2 = answered N (accepted (heard (s1\<lparr>a_rcv_timeout_ms := (if 0 < tmo then tmo * 1000 else 0)\<rparr>) c2 t1) c2
       (word_of_int (w_time w1))) e' u"
    "length e' = 32" "w_out v2 = w_out v1 @ [pkt_sent s2 p2]" "tx_ok v2"
    "icsp_build_pkt s2 (icsp_chunk_put ICSP_CHUNK_INIT_ACK 181 @ ack_body s2 @
       ed25519_sign N (ack_body s2) ssk @ cookie_of N s2) ICSP_MAX_PAYLOAD = Some p2"
    by (rule server_at_init [OF wfc2 S(1) keys(1) c2(1) N(1) I(4,5,6) leg1 tx1(2) ts c2(2) rate1 peers1,
          of ssk tmo ?buf0 t1])
  have wfs2: "assoc_wf s2"
    unfolding A(2) answered_def
    by (intro derive_key_wf with_eph_wf [OF _ A(3)] accepted_wf heard_wf wfc2)
      (use S(1) in \<open>simp add: assoc_wf_def\<close>)
  have s2: "a_id_pub s2 = slice 32 32 ssk" "a_src_port s2 = port" "\<not> a_is_initiator s2" "a_n_streams s2 = 0"
    "a_rw_tsn s2 = 0" "a_next_tsn s2 = fst (random_be32 v)" "a_peer_id s2 = slice 32 32 csk"
    "a_peer_eph s2 = a_eph_pub c2" "a_eph_pub s2 = ed25519_scalarmult_base N e'" "a_assoc_id s2 = a_assoc_id c2"
    "a_has_key s2"
    using S c2(1) by (simp_all add: A(2) answered_def with_eph_def accepted_def heard_def)
  obtain u' w3 p3 buf' where B:
    "\<forall>evs. client_wait_init_ack N csk None port 0 (map (w_stack w) [0..<1600]) c2
        (rx (sent_frame (pkt_sent s2 p2)) t2 ms2 # evs) w2 =
      client_wait_cookie_ack (cookie_echo N (cookie_of N s2) csk) 0 buf' (acked N c2 s2 t2 u') evs w3"
    "icsp_build_pkt (acked N c2 s2 t2 u') (cookie_echo N (cookie_of N s2) csk) ICSP_MAX_PAYLOAD = Some p3"
    "w_out w3 = w_out w2 @ [pkt_sent (acked N c2 s2 t2 u') p3]" "tx_ok w3" "w_time w3 = t2"
    by (rule client_at_init_ack [OF wfs2 wfc2 keys(2) s2(1) N(1) I(8) length_cookie_of A(6) s2(2)])
  define c3 where "c3 = acked N c2 s2 t2 u'"
  have wfc3: "assoc_wf c3" unfolding c3_def by (rule acked_wf [OF wfc2 wfs2])
  have p3: "icsp_build_pkt c3 (cookie_echo N (cookie_of N s2) csk) ICSP_MAX_PAYLOAD = Some p3"
    using B(2) by (simp add: c3_def)
  obtain v4 p4 where D:
    "server_wait_echo N port ssk peers tmo buf s2 (rx (sent_frame (pkt_sent c3 p3)) t3 ms3 # []) v2 =
      HS_Ret 0 ((heard s2 c3 t3)\<lparr>a_state := ST_ESTABLISHED\<rparr>) v4"
    "icsp_build_pkt (heard s2 c3 t3) (icsp_chunk_put ICSP_CHUNK_COOKIE_ACK 0) ICSP_MAX_PAYLOAD = Some p4"
    "w_out v4 = w_out v2 @ [pkt_sent (heard s2 c3 t3) p4]"
    by (rule server_at_cookie_echo [OF wfc3 wfs2 keys(1) s2(7) N(1) A(5) p3])
  have wfs3: "assoc_wf (heard s2 c3 t3)" by (rule heard_wf [OF wfs2 wfc3])
  let ?F4 = "pkt_sent (heard s2 c3 t3) p4"
  let ?c = "(heard c3 (heard s2 c3 t3) t4)\<lparr>a_state := ST_ESTABLISHED\<rparr>"
  let ?s = "(heard s2 c3 t3)\<lparr>a_state := ST_ESTABLISHED\<rparr>"
  have client: "icsp_client_handshake N c0 daddr port csk None
      [rx (sent_frame (pkt_sent s2 p2)) t2 ms2, rx (sent_frame ?F4) t4 ms4] w =
    HS_Ret 0 ?c (at_event (rx (sent_frame ?F4) t4 ms4) w3)"
    using client_at_cookie_ack [OF wfs3 D(2)]
    by (simp only: icsp_client_handshake_def start I(1) B(1) [rule_format] Let_def prod.case c3_def [symmetric]) simp
  have server: "icsp_server_accept N s0 port ssk peers tmo
      [rx (sent_frame (pkt_sent c2 p1)) t1 ms1, rx (sent_frame (pkt_sent c3 p3)) t3 ms3] v = HS_Ret 0 ?s v4"
    using D(1) by (simp only: icsp_server_accept_def sstart A(1) [rule_format] Let_def prod.case)
  have c3: "a_has_key c3" "a_n_streams c3 = 0" "a_rw_tsn c3 = 0" "a_next_tsn c3 = fst (random_be32 w)"
    "a_peer_id c3 = slice 32 32 ssk" "a_assoc_id c3 = a_assoc_id c2"
    using c2 s2(1) by (simp_all add: c3_def acked_def heard_def Let_def)
  have keyeq: "a_send_key c3 = a_recv_key s2 \<and> a_recv_key c3 = a_send_key s2"
    unfolding c3_def acked_def Let_def A(2) answered_def
    by (rule derive_key_agree [OF N(2)])
      (use c2 S(2) in \<open>simp_all add: heard_def with_eph_def accepted_def answered_def s2(9) [unfolded A(2)]\<close>)
  have "linked ?c ?s" "linked ?s ?c"
    using c3 s2 keyeq tsn wfc3 wfs3 heard_wf [OF wfc3 wfs3]
    by (intro linked_start; simp add: assoc_wf_def heard_def word_neq_0_conv)+
  then show ?thesis
    using client server B(3) D(3) I(7) A(4) C(9) S(10) c3(5) s2(7)
    by (intro exI [of _ "pkt_sent c2 p1"] exI [of _ "pkt_sent s2 p2"] exI [of _ "pkt_sent c3 p3"] exI [of _ ?F4]
        exI [of _ ?c] exI [of _ ?s] exI [of _ "at_event (rx (sent_frame ?F4) t4 ms4) w3"] exI [of _ v4])
      (simp add: c3_def heard_def)
qed

lemma rate_fresh: "fst (rate_allow rate_table_init ms ident 10 20 1)"
proof -
  have "rate_scan ident (replicate (Suc n) \<lparr>rb_id = zeros 8, rb_used = False, rb_tokens = 0, rb_last_ms = 0\<rparr>) 0 0 m =
      (None, 0)" for n m
    by simp
  from this [of 63] have "rate_scan ident rate_table_init 0 0 0xFFFFFFFF = (None, 0)"
    unfolding rate_table_init_def by simp
  then show ?thesis
    by (simp add: rate_allow_def rate_take_def rate_charge_def rate_refill_def Let_def)
qed

text \<open>A concrete run exists.\<close>

lemma toy_handshake:
  "\<exists>evs s v'. icsp_server_accept toy_nacl assoc0 80 (replicate 64 5) [replicate 32 7] 0 evs world0 = HS_Ret 0 s v'"
proof -
  have "sign_ok toy_nacl" "dh_ok toy_nacl" by (rule toy_sign_ok, rule toy_dh_ok)
  moreover have "key_ok toy_nacl (replicate 64 7)" "key_ok toy_nacl (replicate 64 5)"
    by (simp_all add: key_ok_def ed25519_seed_to_pub_def toy_nacl_def slice_eq_take_drop)
  moreover have "fst (rate_allow (w_rate world0) 0 (a_src_mac assoc0 @ [0, 0]) 10 20 1)"
    using rate_fresh by (simp add: world0_def)
  moreover have "\<not> a_tunnel assoc0" by (simp add: assoc0_def)
  moreover have "tx_ok (world0\<lparr>w_time := 1\<rparr>)" "tx_ok world0" "0 < w_time (world0\<lparr>w_time := 1\<rparr>)"
    "w_time (world0\<lparr>w_time := 1\<rparr>) < 2 ^ 64" by (simp_all add: world0_def tx_ok_def)
  moreover have "fst (random_be32 (world0\<lparr>w_time := 1\<rparr>)) \<noteq> 0" "fst (random_be32 world0) \<noteq> 0"
    by (simp_all add: world0_def random_be32_def randombytes_def ipv69_get_be32_def bget_def upt_conv_Cons)
  moreover have "[replicate 32 7] = [] \<or> slice 32 32 (replicate 64 7) \<in> set [replicate 32 (7 :: u8)]"
    by (simp add: slice_eq_take_drop)
  ultimately show ?thesis
    using honest_run [OF _ _ _ _ assoc_wf_assoc0 assoc_wf_assoc0, of toy_nacl "replicate 64 7" "replicate 64 5"
        "world0\<lparr>w_time := 1\<rparr>" world0 0 "[replicate 32 7]" 9 80 2 0 4 0 0 1 3 0] by blast
qed

text \<open>C1: The handshake works: a client and a server that exchange exactly their own frames, whatever
  the times at which they arrive, both return success after two frames each, and end in step in
  both directions (the premise of the delivery theorem), each knowing the other's identity.
  The server may demand that the client is on its list. Signatures verify and Diffie-Hellman
  commutes; the rate limiter has a token; the random initial TSNs are not 0.\<close>

theorem honest_handshake:
  assumes N: "sign_ok N" "dh_ok N" and keys: "key_ok N csk" "key_ok N ssk"
    and wf: "assoc_wf c0" "assoc_wf s0" and leg: "\<not> a_tunnel s0" and tx: "tx_ok w" "tx_ok v"
    and clock: "0 < w_time w" "w_time w < 2 ^ 64"
    and rate: "fst (rate_allow (w_rate v) ms1 (a_src_mac c0 @ [0, 0]) 10 20 1)"
    and peers: "peers = [] \<or> slice 32 32 csk \<in> set peers"
    and tsn: "fst (random_be32 w) \<noteq> 0" "fst (random_be32 v) \<noteq> 0"
  shows "\<exists>F1 F2 F3 F4 c s w' v'.
    icsp_client_handshake N c0 daddr port csk None
      [rx (sent_frame F2) t2 ms2, rx (sent_frame F4) t4 ms4] w = HS_Ret 0 c w' \<and>
    icsp_server_accept N s0 port ssk peers tmo
      [rx (sent_frame F1) t1 ms1, rx (sent_frame F3) t3 ms3] v = HS_Ret 0 s v' \<and>
    w_out w' = w_out w @ [F1, F3] \<and> w_out v' = w_out v @ [F2, F4] \<and>
    linked c s \<and> linked s c \<and> a_peer_id c = slice 32 32 ssk \<and> a_peer_id s = slice 32 32 csk"
  by (rule honest_run [OF assms])

theorem honest_handshake_witness:
  "\<exists>F1 F2 F3 F4 c s w' v'.
    icsp_client_handshake toy_nacl assoc0 9 80 (replicate 64 7) None
      [rx (sent_frame F2) 2 0, rx (sent_frame F4) 4 0] (world0\<lparr>w_time := 1\<rparr>) = HS_Ret 0 c w' \<and>
    icsp_server_accept toy_nacl assoc0 80 (replicate 64 5) [replicate 32 7] 0
      [rx (sent_frame F1) 1 0, rx (sent_frame F3) 3 0] world0 = HS_Ret 0 s v' \<and>
    w_out w' = w_out (world0\<lparr>w_time := 1\<rparr>) @ [F1, F3] \<and> w_out v' = w_out world0 @ [F2, F4] \<and>
    linked c s \<and> linked s c \<and> a_peer_id c = slice 32 32 (replicate 64 5) \<and> a_peer_id s = slice 32 32 (replicate 64 7)"
proof (rule honest_handshake)
  show "sign_ok toy_nacl" "dh_ok toy_nacl" by (rule toy_sign_ok, rule toy_dh_ok)
  show "key_ok toy_nacl (replicate 64 7)" "key_ok toy_nacl (replicate 64 5)"
    by (simp_all add: key_ok_def ed25519_seed_to_pub_def toy_nacl_def slice_eq_take_drop)
  show "fst (rate_allow (w_rate world0) 0 (a_src_mac assoc0 @ [0, 0]) 10 20 1)"
    using rate_fresh by (simp add: world0_def)
  show "assoc_wf assoc0" "assoc_wf assoc0" by (rule assoc_wf_assoc0)+
qed (simp_all add: world0_def tx_ok_def random_be32_def randombytes_def ipv69_get_be32_def bget_def
      assoc0_def slice_eq_take_drop upt_conv_Cons)

end
