(* ===== verification/Icsp_Trust.thy ===== *)
theory Icsp_Trust
  imports Icsp_Auth
begin

text \<open>
  What a completed handshake proves about the other side, and what it does not: the server's
  two signature checks and its list, the cookie, the unauthenticated last message, and the
  bounded retries of the client.
\<close>

section \<open>The server accepts authenticated peers only\<close>

text \<open>The peer's identity signed a message that carries the peer's ephemeral key, and is
  allowed.\<close>

definition eph_signed :: "nacl \<Rightarrow> bytes list \<Rightarrow> icsp_assoc \<Rightarrow> bool" where
  "eph_signed N peers b \<longleftrightarrow> (peers = [] \<or> a_peer_id b \<in> set peers) \<and>
     (\<exists>m sig. 77 \<le> length m \<and> slice 5 32 m = a_peer_eph b \<and> ed25519_verify N m sig (a_peer_id b) = 0)"

text \<open>The same identity also signed the cookie of this association, and keys are installed.\<close>

definition authenticated :: "nacl \<Rightarrow> bytes list \<Rightarrow> icsp_assoc \<Rightarrow> bool" where
  "authenticated N peers b \<longleftrightarrow> a_state b = ST_ESTABLISHED \<and> a_has_key b \<and> eph_signed N peers b \<and>
     (\<exists>sig. ed25519_verify N (cookie_of N b) sig (a_peer_id b) = 0)"

lemma init_check_signed:
  assumes "init_check N a frame plen peers w = (r, b, w')" "0 \<le> r"
  shows "eph_signed N peers b"
proof -
  let ?cd = "drop 16 (drop 46 frame)" and ?fl = "bget (drop 46 frame) 13"
  obtain ident where b: "a_peer_id b = ident" "a_peer_eph b = slice 5 32 ?cd"
    "ed25519_verify N (slice 0 (INIT_PRE_SIG ?fl) ?cd) (drop (INIT_PRE_SIG ?fl) ?cd) ident = 0"
    "peers = [] \<or> ident \<in> set peers"
    using assms
    by (auto simp: init_check_def Let_def split: if_splits prod.splits bool.splits option.splits)
  have pre: "77 \<le> INIT_PRE_SIG ?fl" by (simp add: INIT_PRE_SIG_def)
  then have "slice 5 32 (slice 0 (INIT_PRE_SIG ?fl) ?cd) = slice 5 32 ?cd" by (simp add: slice_slice)
  with b pre show ?thesis unfolding eph_signed_def by (metis length_slice)
qed

lemma init_ack_peer:
  assumes "init_ack_send N a sk w = (r, b, w')"
  shows "a_peer_id b = a_peer_id a" "a_peer_eph b = a_peer_eph a" "a_has_key b"
  using assms by (auto simp: init_ack_send_def Let_def case_prod_beta)

lemma eph_signed_cong:
  "a_peer_id a = a_peer_id b \<Longrightarrow> a_peer_eph a = a_peer_eph b \<Longrightarrow> eph_signed N peers a = eph_signed N peers b"
  by (simp add: eph_signed_def)

lemma recv_frame_peer:
  assumes "icsp_recv_frame a buf ev w = (r, b, buf')"
  shows "a_peer_id b = a_peer_id a" "a_peer_eph b = a_peer_eph a" "a_has_key b = a_has_key a"
    "cookie_of N b = cookie_of N a" "a_eph_priv b = a_eph_priv a" "a_tunnel b = a_tunnel a"
    "a_rcv_timeout_ms b = a_rcv_timeout_ms a"
  by (subst recv_frame_frame [OF assms], simp add: cookie_of_def)+

lemma authenticatedI:
  assumes "eph_signed N peers a" "a_has_key a" "ed25519_verify N (cookie_of N a) sig (a_peer_id a) = 0"
  shows "authenticated N peers (a\<lparr>a_state := ST_ESTABLISHED\<rparr>)"
proof -
  have "eph_signed N peers (a\<lparr>a_state := ST_ESTABLISHED\<rparr>) = eph_signed N peers a" by (rule eph_signed_cong) simp_all
  moreover have "cookie_of N (a\<lparr>a_state := ST_ESTABLISHED\<rparr>) = cookie_of N a" by (simp add: cookie_of_def)
  ultimately show ?thesis using assms by (auto simp: authenticated_def)
qed

lemma server_invariant:
  "(\<forall>buf a w. server_wait_init N port sk peers tmo buf a evs w = HS_Ret 0 b w' \<longrightarrow> authenticated N peers b) \<and>
   (\<forall>buf a w. eph_signed N peers a \<longrightarrow> a_has_key a \<longrightarrow>
     server_wait_echo N port sk peers tmo buf a evs w = HS_Ret 0 b w' \<longrightarrow> authenticated N peers b)"
proof (induction evs)
  case Nil
  then show ?case by (simp add: server_wait_init.simps server_wait_echo.simps case_prod_beta)
next
  case (Cons ev evs)
  have init: "server_wait_init N port sk peers tmo buf a evs w = HS_Ret 0 b w' \<Longrightarrow> authenticated N peers b" for buf a w
    using Cons.IH by blast
  have echo: "eph_signed N peers a \<Longrightarrow> a_has_key a \<Longrightarrow>
      server_wait_echo N port sk peers tmo buf a evs w = HS_Ret 0 b w' \<Longrightarrow> authenticated N peers b" for buf a w
    using Cons.IH by blast
  have "authenticated N peers b" if run: "server_wait_init N port sk peers tmo buf a (ev # evs) w = HS_Ret 0 b w'"
    for buf a w
  proof -
    obtain a1 w1 where prep: "accept_prepare N tmo a w = (a1, w1)" by (cases "accept_prepare N tmo a w")
    obtain res a2 buf2 where recv: "icsp_recv_frame a1 buf ev (at_event ev w1) = (res, a2, buf2)"
      by (cases "icsp_recv_frame a1 buf ev (at_event ev w1)")
    show ?thesis
    proof (cases res)
      case (RF_Got plen src)
      obtain r a3 w3 where chk: "init_check N a2 buf2 plen peers (at_event ev w1) = (r, a3, w3)"
        by (cases "init_check N a2 buf2 plen peers (at_event ev w1)")
      obtain r' a4 w4 where ack: "init_ack_send N (a3\<lparr>a_dst_addr := src\<rparr>) sk w3 = (r', a4, w4)"
        by (cases "init_ack_send N (a3\<lparr>a_dst_addr := src\<rparr>) sk w3")
      have "eph_signed N peers a4 \<and> a_has_key a4" if "0 \<le> r"
        using init_check_signed [OF chk that] init_ack_peer [OF ack] eph_signed_cong [of a3 a4] by simp
      then show ?thesis
        using run init echo
        by (auto simp: server_wait_init.simps prep recv RF_Got Let_def chk ack split: if_splits)
    qed (use run init in \<open>auto simp: server_wait_init.simps prep recv Let_def split: if_splits\<close>)
  qed
  moreover have "authenticated N peers b"
    if run: "server_wait_echo N port sk peers tmo buf a (ev # evs) w = HS_Ret 0 b w'"
      and inv: "eph_signed N peers a" "a_has_key a" for buf a w
  proof -
    obtain res a2 buf2 where recv: "icsp_recv_frame a buf ev (at_event ev w) = (res, a2, buf2)"
      by (cases "icsp_recv_frame a buf ev (at_event ev w)")
    have inv2: "eph_signed N peers a2" "a_has_key a2"
      using recv_frame_peer [OF recv] inv eph_signed_cong [of a a2] by simp_all
    show ?thesis
    proof (cases res)
      case (RF_Got plen src)
      show ?thesis
        using run init echo [OF inv2] inv2
        by (auto simp: server_wait_echo.simps recv RF_Got Let_def cookie_valid_eq
            split: if_splits prod.splits intro: authenticatedI)
    qed (use run init echo [OF inv2] in \<open>auto simp: server_wait_echo.simps recv Let_def split: if_splits prod.splits\<close>)
  qed
  ultimately show ?case by blast
qed

text \<open>C2: If the server accepts, then whatever frames arrived before, the association is established
  with keys, the peer's identity is on the server's list (when there is one), that identity
  signed a message carrying the ephemeral key the session keys come from, and it signed the
  cookie of this very association.\<close>

theorem server_accept_authenticated:
  assumes "icsp_server_accept N a port sk peers tmo evs w = HS_Ret 0 b w'"
  shows "authenticated N peers b"
  by (rule server_invariant [THEN conjunct1, rule_format])
    (use assms in \<open>simp add: icsp_server_accept_def Let_def case_prod_beta\<close>)

text \<open>At a server whose first client completes: the run of the honest handshake.\<close>

theorem server_accept_authenticated_witness:
  "\<exists>evs s v'. icsp_server_accept toy_nacl assoc0 80 (replicate 64 5) [replicate 32 7] 0 evs world0 = HS_Ret 0 s v' \<and>
     authenticated toy_nacl [replicate 32 7] s"
proof -
  obtain evs s v' where "icsp_server_accept toy_nacl assoc0 80 (replicate 64 5) [replicate 32 7] 0 evs world0 = HS_Ret 0 s v'"
    using toy_handshake by blast
  then show ?thesis using server_accept_authenticated by blast
qed

section \<open>The cookie\<close>

text \<open>The cookie does not depend on the server's secret: in any two worlds, whatever secrets they
  hold, it is the same function of the public INIT parameters. Anybody can compute it, so it
  does not prove that its sender received the INIT-ACK.\<close>

theorem cookie_ignores_secret:
  "fst (cookie_make N a w) = fst (cookie_make N a w') \<and>
   fst (cookie_valid N (slice 0 48 (ed25519_sha512 N (a_peer_id a @ a_peer_eph a @
      ipv69_put_be16 (a_streams_in a) @ ipv69_put_be16 (a_streams_out a)))) a w)"
  by (simp add: cookie_make_eq cookie_valid_eq cookie_of_def)

section \<open>The last message\<close>

text \<open>A client waiting for COOKIE-ACK returns success on any frame of the stream protocol whose
  chunk type is 4: no checksum, no port, no signature and no sender is looked at. From then on
  it sends to the address that frame came from.\<close>

theorem cookie_ack_unauthenticated:
  assumes "62 \<le> length f" "length f \<le> 1600" and "f ! 20 = IPV69_NEXT_STREAM" and "f ! 58 = ICSP_CHUNK_COOKIE_ACK"
  shows "\<exists>b w'. client_wait_cookie_ack ck tries buf a (rx f tm ms # evs) w = HS_Ret 0 b w' \<and>
    a_state b = ST_ESTABLISHED \<and> a_dst_addr b = ipv69_addr_get (drop 32 f) \<and> a_peer_mac b = slice 6 6 f \<and>
    a_send_key b = a_send_key a"
proof -
  define g where "g = f @ drop (length f) buf"
  have into: "rx_into 1600 buf f = Rx_Len (length f) g" using assms(2) by (simp add: rx_into_def g_def)
  have rxs: "icsp_rx a buf t (rx f tm ms) = Rx_Len (length f) g" for t
    by (simp add: icsp_rx_def l2_recv_def rx_def into Let_def)
  have b: "bget g i = f ! i" if "i < length f" for i using that by (simp add: g_def bget_append bget_nth)
  have own: "\<not> own_tx_control a g (length f)" using assms by (simp add: own_tx_control_def Let_def b)
  have nh: "next_header (hdr_at (drop 14 g)) = IPV69_NEXT_STREAM" using assms by (simp add: hdr_at_def b)
  have src: "source (hdr_at (drop 14 g)) = slice 32 5 f" "slice 6 6 g = slice 6 6 f"
    using assms(1) by (simp_all add: hdr_at_def g_def)
  have addr: "ipv69_addr_get (slice 32 5 f) = ipv69_addr_get (drop 32 f)"
    by (simp add: ipv69_addr_get_def)
  have "f \<noteq> []" using assms(1) by auto
  then show ?thesis
    using assms own nh
    by (simp add: client_wait_cookie_ack.simps Let_def icsp_recv_frame_def rxs src addr b del: drop_append)
qed

text \<open>At the fresh association and 62 bytes that are zero except for the two octets read.\<close>

theorem cookie_ack_unauthenticated_witness:
  "\<exists>b w'. client_wait_cookie_ack [] 0 [] assoc0 (rx ((replicate 62 0)[20 := IPV69_NEXT_STREAM, 58 := ICSP_CHUNK_COOKIE_ACK]) 0 0 # []) world0
     = HS_Ret 0 b w' \<and> a_state b = ST_ESTABLISHED"
  using cookie_ack_unauthenticated
    [where f = "(replicate 62 0)[20 := IPV69_NEXT_STREAM, 58 := ICSP_CHUNK_COOKIE_ACK]" and ck = "[]" and tries = 0
      and buf = "[]" and a = assoc0 and tm = 0 and ms = 0 and evs = "[]" and w = world0]
  by auto

end
