(* ===== verification/Icsp_Rekey.thy ===== *)
theory Icsp_Rekey
  imports Icsp_Session Icsp_Trust
begin

text \<open>
  Rekeying an established session through \<^verbatim>\<open>icsp_handle_frame\<close>: the honest exchange ends
  with fresh keys and both sides in step; the initiator, however, takes the answer of any
  identity.
\<close>

section \<open>A peer's packet in the frame handler\<close>

text \<open>What the handler notes of a packet's sender.\<close>

definition met :: "icsp_assoc \<Rightarrow> icsp_assoc \<Rightarrow> int \<Rightarrow> icsp_assoc" where
  "met b a t = b\<lparr>a_peer_mac := a_src_mac a, a_has_peer_mac := True, a_last_rx := t\<rparr>"

lemma met_wf [inv_intros]: "assoc_wf b \<Longrightarrow> assoc_wf a \<Longrightarrow> assoc_wf (met b a t)"
  by (simp add: assoc_wf_def met_def)

lemma met_same [simp]:
  "a_state (met b a t) = a_state b" "a_peer_id (met b a t) = a_peer_id b" "a_peer_eph (met b a t) = a_peer_eph b"
  "a_eph_priv (met b a t) = a_eph_priv b" "a_eph_pub (met b a t) = a_eph_pub b" "a_sk (met b a t) = a_sk b"
  "a_id_pub (met b a t) = a_id_pub b" "a_last_init_ts (met b a t) = a_last_init_ts b"
  "a_assoc_id (met b a t) = a_assoc_id b" "a_is_initiator (met b a t) = a_is_initiator b"
  "cookie_of N (met b a t) = cookie_of N b" "a_has_key (met b a t) = a_has_key b"
  "a_send_key (met b a t) = a_send_key b" "a_recv_key (met b a t) = a_recv_key b"
  by (simp_all add: met_def cookie_of_def)

lemma handle_sent:
  assumes wf: "assoc_wf a" and p: "icsp_build_pkt a (ch @ body) ICSP_MAX_PAYLOAD = Some p" "length ch = 4"
    and ty: "hs_type (bget ch 0)"
  shows "icsp_handle_frame N cb b (sent_frame (pkt_sent a p) @ t) (46 + length p) w u =
    (case rekey_dispatch N (met b a (w_time w)) (sent_frame (pkt_sent a p) @ t) (length p) w of
       (Some r, b, w) \<Rightarrow> Some (r, b, w, u)
     | (None, b, w) \<Rightarrow> handle_chunks N cb b (p @ t) (length p) w u)"
proof -
  let ?f = "sent_frame (pkt_sent a p) @ t"
  note F = sent_frame_app(1-3) [OF wf, of p t]
  have len: "16 \<le> length p" using pkt_chunk(3) [OF p] by simp
  have tyb: "bget (p @ t) 12 = bget ch 0" by (rule pkt_chunk(4) [OF p])
  have "bget ?f 58 = bget (drop 46 ?f) 12" by (simp only: bget_drop) simp
  then have tyf: "bget ?f 58 = bget ch 0" by (simp only: F(1) tyb)
  have own: "\<not> own_tx_control b ?f (46 + length p)"
    using ty tyf len by (simp add: own_tx_control_def hs_type_def Let_def)
  have hb: "bget ch 0 \<noteq> ICSP_CHUNK_HEARTBEAT" using ty by (auto simp: hs_type_def)
  show ?thesis
    using own len F(2,3) check_built [OF p(1), of t] hb
    by (simp add: icsp_handle_frame_def Let_def F(1) tyb met_def
        del: drop_append drop_drop bget_drop)
qed

text \<open>A single chunk that is neither data nor lifecycle passes the chunk loops without effect.\<close>

lemma handle_chunks_quiet:
  assumes p: "icsp_build_pkt a (icsp_chunk_put ty n @ body) ICSP_MAX_PAYLOAD = Some p" and n: "length body = n" "n < 65536"
    and ty: "ty = ICSP_CHUNK_INIT \<or> ty = ICSP_CHUNK_INIT_ACK \<or> ty = ICSP_CHUNK_COOKIE_ECHO"
  shows "handle_chunks N cb b (p @ t) (length p) w u = Some (0, b, w, u)"
proof -
  have len: "length p - 12 = 4 + n" "\<not> length p < 12" using build_pkt_length [OF p] n by simp_all
  have d: "drop 12 (p @ t) = icsp_chunk_put ty n @ body @ t" using build_pkt_fields(5) [OF p, of t] by simp
  have "data_step N w 1400 ty (body @ t) n b = Inl b" using ty by (auto simp: data_step_def)
  then have "icsp_data_handle N b (p @ t) (length p) 1400 w = Some (0, b, None)"
    using len by (simp add: icsp_data_handle_def d chunk_walk_single [OF n] del: drop_append)
  moreover have "icsp_life_handle b (p @ t) (length p) = (0, b)"
    using len ty by (auto simp: icsp_life_handle_def life_step_def d chunk_walk_single [OF n] simp del: drop_append)
  ultimately show ?thesis by (simp add: handle_chunks_def sack_reply_def Let_def)
qed

section \<open>The four messages\<close>

lemma pkt_state [simp]:
  "pkt_sent (a\<lparr>a_state := s\<rparr>) p = pkt_sent a p" "icsp_build_pkt (a\<lparr>a_state := s\<rparr>) ch n = icsp_build_pkt a ch n"
  "assoc_wf (a\<lparr>a_state := s\<rparr>) = assoc_wf a" "cookie_of N (a\<lparr>a_state := s\<rparr>) = cookie_of N a"
  by (simp_all add: pkt_sent_def icsp_build_pkt_def assoc_wf_def cookie_of_def Let_def)

text \<open>The initiator at an INIT-ACK of \<open>m\<close>: it adopts the ephemeral key and the identity found there.\<close>

definition swayed :: "icsp_assoc \<Rightarrow> icsp_assoc \<Rightarrow> int \<Rightarrow> icsp_assoc" where
  "swayed c m t = (met c m t)\<lparr>a_peer_eph := a_eph_pub m, a_peer_id := a_id_pub m\<rparr>"

lemma swayed_wf [inv_intros]: "assoc_wf c \<Longrightarrow> assoc_wf m \<Longrightarrow> assoc_wf (swayed c m t)"
  by (simp add: swayed_def met_def assoc_wf_def)

lemma swayed_same [simp]:
  "a_sk (swayed c m t) = a_sk c" "a_peer_id (swayed c m t) = a_id_pub m" "a_peer_eph (swayed c m t) = a_eph_pub m"
  "a_eph_priv (swayed c m t) = a_eph_priv c" "a_is_initiator (swayed c m t) = a_is_initiator c"
  by (simp_all add: swayed_def)

lemma client_step_ack:
  assumes wf: "assoc_wf m" and key: "key_ok N msk" "a_id_pub m = slice 32 32 msk" and sok: "sign_ok N"
    and tx: "tx_ok w" and ck: "length ck = 48" and st: "a_state c = ST_REKEY_WAIT_ACK"
    and p: "icsp_build_pkt m (icsp_chunk_put ICSP_CHUNK_INIT_ACK 181 @ ack_body m @
       ed25519_sign N (ack_body m) msk @ ck) ICSP_MAX_PAYLOAD = Some p"
  obtains w' q where
    "icsp_handle_frame N cb c (sent_frame (pkt_sent m p) @ t) (46 + length p) w u =
      Some (0, (swayed c m (w_time w))\<lparr>a_state := ST_REKEY_WAIT_COOKIE_ACK\<rparr>, w', u)"
    "icsp_build_pkt (swayed c m (w_time w)) (cookie_echo N ck (a_sk c)) ICSP_MAX_PAYLOAD = Some q"
    "w_out w' = w_out w @ [pkt_sent (swayed c m (w_time w)) q]" "tx_ok w'" "w_time w' = w_time w"
proof -
  let ?sig = "ed25519_sign N (ack_body m) msk" and ?c = "swayed c m (w_time w)"
  let ?f = "sent_frame (pkt_sent m p) @ t"
  have h4: "length (icsp_chunk_put ICSP_CHUNK_INIT_ACK 181) = 4" by simp
  have l: "length (ack_body m) = 69" by (rule ack_fields(1) [OF wf])
  have n: "length (ack_body m @ ?sig @ ck) = 181" "(181 :: nat) < 65536" using l ck by simp_all
  have ty: "bget (icsp_chunk_put ICSP_CHUNK_INIT_ACK 181) 0 = ICSP_CHUNK_INIT_ACK" by (simp add: icsp_chunk_put_def)
  note H = handle_sent [OF wf p h4, of N cb c t w u]
  have pay: "drop 46 ?f = p @ t" by (rule sent_frame_app(1) [OF wf])
  have cd: "drop 16 (p @ t) = ack_body m @ ?sig @ ck @ t" using pkt_chunk(2) [OF p h4, of t] by simp
  have tyb: "bget (p @ t) 12 = ICSP_CHUNK_INIT_ACK" using pkt_chunk(4) [OF p h4, of t] ty by simp
  have f: "slice 5 32 (ack_body m @ ?sig @ ck @ t) = a_eph_pub m" "slice 37 32 (ack_body m @ ?sig @ ck @ t) = a_id_pub m"
    "slice 0 69 (ack_body m @ ?sig @ ck @ t) = ack_body m" "drop 69 (ack_body m @ ?sig @ ck @ t) = ?sig @ ck @ t"
    "slice 133 48 (ack_body m @ ?sig @ ck @ t) = ck"
    using ack_fields [OF wf] l ck by simp_all
  have ver: "ed25519_verify N (ack_body m) (?sig @ r) (a_id_pub m) = 0" for r
    using sok key by (simp add: sign_ok_def key_ok_def) (simp add: ed25519_verify_def)
  have "length (cookie_echo N ck (a_sk c)) = 116" using ck by (simp add: cookie_echo_def)
  then obtain q where q: "icsp_build_pkt ?c (cookie_echo N ck (a_sk c)) ICSP_MAX_PAYLOAD = Some q"
    using build_ok [of "cookie_echo N ck (a_sk c)" ?c] by auto
  obtain w' where w': "icsp_send_pkt ?c (cookie_echo N ck (a_sk c)) w = (0, w')"
    "w_out w' = w_out w @ [pkt_sent ?c q]" "tx_ok w'" "w_time w' = w_time w"
    using send_ok [OF tx q] by auto
  have "icsp_rekey_client_step N (met c m (w_time w)) (p @ t) w = (0, ?c\<lparr>a_state := ST_REKEY_WAIT_COOKIE_ACK\<rparr>, w')"
    using st tyb ver f w'(1)
    by (simp add: icsp_rekey_client_step_def Let_def cd swayed_def [symmetric] del: drop_append drop_drop bget_drop)
  then have "rekey_dispatch N (met c m (w_time w)) ?f (length p) w = (None, ?c\<lparr>a_state := ST_REKEY_WAIT_COOKIE_ACK\<rparr>, w')"
    using st by (simp add: rekey_dispatch_def pay del: drop_append)
  then have "icsp_handle_frame N cb c ?f (46 + length p) w u =
      Some (0, ?c\<lparr>a_state := ST_REKEY_WAIT_COOKIE_ACK\<rparr>, w', u)"
    using H ty handle_chunks_quiet [OF p n] by (simp add: hs_type_def)
  then show ?thesis using that q w' by simp
qed

text \<open>The initiator at a COOKIE-ACK: it derives the keys from what it adopted and starts the
  data plane afresh.\<close>

lemma client_step_cookie_ack:
  assumes wf: "assoc_wf m" and st: "a_state c = ST_REKEY_WAIT_COOKIE_ACK"
    and p: "icsp_build_pkt m (icsp_chunk_put ICSP_CHUNK_COOKIE_ACK 0) ICSP_MAX_PAYLOAD = Some p"
    and d: "data_plane_reset (icsp_derive_key N (met c m (w_time w)) (a_eph_priv c) w) w = (c', w')"
  shows "icsp_handle_frame N cb c (sent_frame (pkt_sent m p) @ t) (46 + length p) w u =
      Some (0, c'\<lparr>a_state := ST_ESTABLISHED\<rparr>, w', u)"
proof -
  have h4: "length (icsp_chunk_put ICSP_CHUNK_COOKIE_ACK 0) = 4" by simp
  have p': "icsp_build_pkt m (icsp_chunk_put ICSP_CHUNK_COOKIE_ACK 0 @ []) ICSP_MAX_PAYLOAD = Some p" using p by simp
  have ty: "bget (icsp_chunk_put ICSP_CHUNK_COOKIE_ACK 0) 0 = ICSP_CHUNK_COOKIE_ACK" by (simp add: icsp_chunk_put_def)
  have pay: "drop 46 (sent_frame (pkt_sent m p) @ t) = p @ t" by (rule sent_frame_app(1) [OF wf])
  have tyb: "bget (p @ t) 12 = ICSP_CHUNK_COOKIE_ACK" using pkt_chunk(4) [OF p' h4, of t] ty by simp
  have "icsp_rekey_client_step N (met c m (w_time w)) (p @ t) w = (1, c'\<lparr>a_state := ST_ESTABLISHED\<rparr>, w')"
    using st tyb d by (simp add: icsp_rekey_client_step_def Let_def del: drop_append drop_drop bget_drop)
  then have "rekey_dispatch N (met c m (w_time w)) (sent_frame (pkt_sent m p) @ t) (length p) w =
      (Some 0, c'\<lparr>a_state := ST_ESTABLISHED\<rparr>, w')"
    using st by (simp add: rekey_dispatch_def pay del: drop_append)
  then show ?thesis using handle_sent [OF wf p' h4, of N cb c t w u] ty by (simp add: hs_type_def)
qed

text \<open>The responder at the initiator's INIT, and at its COOKIE-ECHO.\<close>

lemma server_step_init:
  assumes wf: "assoc_wf c" "assoc_wf s" and key: "key_ok N csk" "a_id_pub c = slice 32 32 csk" and sok: "sign_ok N"
    and d: "d = init_fixed c ts @ a_id_pub c" and body: "body = d @ ed25519_sign N d csk @
      mac1_compute N (mac1_key N (a_dst_addr c)) (d @ ed25519_sign N d csk)"
    and p: "icsp_build_pkt c ([ICSP_CHUNK_INIT, 0, 0, 157] @ body) ICSP_MAX_PAYLOAD = Some p"
    and tx: "tx_ok w" and fresh: "a_last_init_ts s < ts" and st: "a_state s = ST_ESTABLISHED"
    and pin: "a_peer_id s = a_id_pub c"
    and rate: "fst (rate_allow (w_rate w) (w_ms w) (a_src_mac c @ [0, 0]) 10 20 1)"
  obtains w' e v q x where
    "icsp_handle_frame N cb s (sent_frame (pkt_sent c p) @ t) (46 + length p) w u =
      Some (0, x\<lparr>a_state := ST_REKEY_WAIT_COOKIE\<rparr>, w', u)"
    "x = answered N (accepted (met s c (w_time w)) c ts) e v" "length e = 32"
    "w_out w' = w_out w @ [pkt_sent x q]" "tx_ok w'"
    "icsp_build_pkt x (icsp_chunk_put ICSP_CHUNK_INIT_ACK 181 @ ack_body x @
       ed25519_sign N (ack_body x) (a_sk s) @ cookie_of N x) ICSP_MAX_PAYLOAD = Some q"
proof -
  let ?f = "sent_frame (pkt_sent c p) @ t" and ?h = "met s c (w_time w)"
  have h4: "length [ICSP_CHUNK_INIT, 0, 0, 157 :: u8] = 4" by simp
  have n: "length body = 157" "(157 :: nat) < 65536" using init_fields(1) [OF wf(1) d] by (simp_all add: body)
  have p': "icsp_build_pkt c (icsp_chunk_put ICSP_CHUNK_INIT 157 @ body) ICSP_MAX_PAYLOAD = Some p"
    using p by (simp add: icsp_chunk_put_def)
  have pay: "drop 46 ?f = p @ t" by (rule sent_frame_app(1) [OF wf(1)])
  have tyb: "bget (p @ t) 12 = ICSP_CHUNK_INIT" using pkt_chunk(4) [OF p h4, of t] by simp
  obtain v0 where v0: "rate_allow_g (a_src_mac c @ [0, 0]) 10 20 1 w = (True, v0)" "w_out v0 = w_out w" "tx_ok v0"
    using rate tx by (cases "rate_allow (w_rate w) (w_ms w) (a_src_mac c @ [0, 0]) 10 20 1")
      (auto simp: rate_allow_g_def tx_ok_def)
  have chk: "init_check N ?h ?f (length p) [] w = (0, accepted ?h c ts, v0)"
    by (rule init_check_ok [OF wf(1) wf(1) key sok d body p refl _ v0(1) _ refl]) (simp_all add: fresh)
  define a where "a = accepted ?h c ts"
  have a: "assoc_wf a" "a_peer_id a = a_id_pub c" "a_sk a = a_sk s"
    using accepted_wf [OF met_wf [OF wf(2,1)] wf(1)] by (simp_all add: a_def accepted_def)
  let ?e = "fst (randombytes 32 v0)"
  obtain w' q v where A: "init_ack_send N a (a_sk s) v0 = (0, answered N a ?e v, w')"
    "w_out w' = w_out v0 @ [pkt_sent (answered N a ?e v) q]" "tx_ok w'"
    "icsp_build_pkt (answered N a ?e v) (icsp_chunk_put ICSP_CHUNK_INIT_ACK 181 @ ack_body (with_eph N a ?e) @
       ed25519_sign N (ack_body (with_eph N a ?e)) (a_sk s) @ cookie_of N a) ICSP_MAX_PAYLOAD = Some q"
    by (rule init_ack_send_ok [OF a(1) v0(3) refl, of N "a_sk s"])
  let ?x = "answered N a ?e v"
  have x: "ack_body (with_eph N a ?e) = ack_body ?x" "cookie_of N a = cookie_of N ?x"
    by (simp_all add: answered_def with_eph_def)
  have "icsp_rekey_server_step N ?h ?f (length p) w = (0, ?x\<lparr>a_state := ST_REKEY_WAIT_COOKIE\<rparr>, w')"
    using st tyb chk A(1) pin a
    by (simp add: icsp_rekey_server_step_def Let_def pay a_def [symmetric] del: drop_append drop_drop bget_drop)
  then have "rekey_dispatch N ?h ?f (length p) w = (None, ?x\<lparr>a_state := ST_REKEY_WAIT_COOKIE\<rparr>, w')"
    using st by (simp add: rekey_dispatch_def)
  then have h: "icsp_handle_frame N cb s ?f (46 + length p) w u = Some (0, ?x\<lparr>a_state := ST_REKEY_WAIT_COOKIE\<rparr>, w', u)"
    using handle_sent [OF wf(1) p h4, of N cb s t w u] handle_chunks_quiet [OF p' n] by (simp add: hs_type_def)
  show ?thesis
  proof (rule that [OF h])
    show "?x = answered N (accepted ?h c ts) ?e v" by (simp only: a_def)
    show "length ?e = 32" by simp
    show "w_out w' = w_out w @ [pkt_sent ?x q]" using A(2) v0(2) by simp
    show "icsp_build_pkt ?x (icsp_chunk_put ICSP_CHUNK_INIT_ACK 181 @ ack_body ?x @
       ed25519_sign N (ack_body ?x) (a_sk s) @ cookie_of N ?x) ICSP_MAX_PAYLOAD = Some q"
      using A(4) by (simp only: x)
  qed (rule A(3))
qed

lemma server_step_echo:
  assumes wf: "assoc_wf c" "assoc_wf s" and key: "key_ok N csk" "a_peer_id s = slice 32 32 csk" and sok: "sign_ok N"
    and tx: "tx_ok w" and st: "a_state s = ST_REKEY_WAIT_COOKIE"
    and p: "icsp_build_pkt c (cookie_echo N (cookie_of N s) csk) ICSP_MAX_PAYLOAD = Some p"
  obtains w1 w' q s' where
    "icsp_handle_frame N cb s (sent_frame (pkt_sent c p) @ t) (46 + length p) w u = Some (0, s'\<lparr>a_state := ST_ESTABLISHED\<rparr>, w', u)"
    "data_plane_reset (met s c (w_time w)) w1 = (s', w')"
    "icsp_build_pkt (met s c (w_time w)) (icsp_chunk_put ICSP_CHUNK_COOKIE_ACK 0) ICSP_MAX_PAYLOAD = Some q"
    "w_out w1 = w_out w @ [pkt_sent (met s c (w_time w)) q]"
proof -
  let ?ck = "cookie_of N s" and ?h = "met s c (w_time w)"
  let ?sig = "ed25519_sign N ?ck csk" and ?f = "sent_frame (pkt_sent c p) @ t"
  have h4: "length (icsp_chunk_put ICSP_CHUNK_COOKIE_ECHO 112) = 4" by simp
  have p': "icsp_build_pkt c (icsp_chunk_put ICSP_CHUNK_COOKIE_ECHO 112 @ ?ck @ ?sig) ICSP_MAX_PAYLOAD = Some p"
    using p by (simp add: cookie_echo_def)
  have ty: "bget (icsp_chunk_put ICSP_CHUNK_COOKIE_ECHO 112) 0 = ICSP_CHUNK_COOKIE_ECHO" by (simp add: icsp_chunk_put_def)
  have pay: "drop 46 ?f = p @ t" by (rule sent_frame_app(1) [OF wf(1)])
  have tyb: "bget (p @ t) 12 = ICSP_CHUNK_COOKIE_ECHO" using pkt_chunk(4) [OF p' h4, of t] ty by simp
  have cd: "drop 16 (p @ t) = ?ck @ ?sig @ t" using pkt_chunk(2) [OF p' h4, of t] by simp
  have dr: "drop 48 (?ck @ ?sig @ t) = ?sig @ t" by simp
  have ver: "ed25519_verify N ?ck (?sig @ r) (a_peer_id s) = 0" for r
    using sok key by (simp add: sign_ok_def key_ok_def) (simp add: ed25519_verify_def)
  obtain q where q: "icsp_build_pkt ?h (icsp_chunk_put ICSP_CHUNK_COOKIE_ACK 0) ICSP_MAX_PAYLOAD = Some q"
    using build_ok [of "icsp_chunk_put ICSP_CHUNK_COOKIE_ACK 0"] by auto
  obtain w1 where w1: "icsp_send_pkt ?h (icsp_chunk_put ICSP_CHUNK_COOKIE_ACK 0) (secret_refresh w) = (0, w1)"
    "w_out w1 = w_out (secret_refresh w) @ [pkt_sent ?h q]"
    using send_ok [OF _ q, of "secret_refresh w"] tx by auto
  obtain s' w' where r: "data_plane_reset ?h w1 = (s', w')" by (cases "data_plane_reset ?h w1")
  have "icsp_rekey_server_step N ?h ?f (length p) w = (1, s'\<lparr>a_state := ST_ESTABLISHED\<rparr>, w')"
    using st tyb ver w1(1) r
    by (simp add: icsp_rekey_server_step_def Let_def pay cd dr cookie_valid_eq del: drop_append drop_drop bget_drop)
  then have "rekey_dispatch N ?h ?f (length p) w = (Some 0, s'\<lparr>a_state := ST_ESTABLISHED\<rparr>, w')"
    using st by (simp add: rekey_dispatch_def)
  then have "icsp_handle_frame N cb s ?f (46 + length p) w u = Some (0, s'\<lparr>a_state := ST_ESTABLISHED\<rparr>, w', u)"
    using handle_sent [OF wf(1) p' h4, of N cb s t w u] ty by (simp add: hs_type_def)
  then show ?thesis using that r q w1(2) by simp
qed

section \<open>The whole exchange\<close>

lemma rekey_start_eq:
  "icsp_rekey_start N a w =
     (let (ident, w) = random_be32 w; (r, b, w) = client_send_init N (a_sk a) None (a\<lparr>a_assoc_id := ident\<rparr>) w
      in if r < 0 then (-1, b, w) else (0, b\<lparr>a_state := ST_REKEY_WAIT_ACK\<rparr>, w))"
  by (simp add: icsp_rekey_start_def client_send_init_def Let_def case_prod_beta)

lemma data_plane_reset_out:
  assumes "data_plane_reset a w = (b, w')" "assoc_wf a"
  shows "assoc_wf b" "a_n_streams b = 0" "a_rw_tsn b = 0" "a_has_key b = a_has_key a" "a_send_key b = a_send_key a"
    "a_recv_key b = a_recv_key a" "a_assoc_id b = a_assoc_id a" "a_peer_id b = a_peer_id a" "w_out w' = w_out w"
  using assms by (auto simp: data_plane_reset_def Let_def case_prod_beta assoc_wf_def)

lemma linked_fresh_keys:
  assumes "assoc_wf s" "assoc_wf r" "a_has_key s" "a_has_key r" "a_send_key s = a_recv_key r"
    "a_assoc_id s = a_assoc_id r" "a_n_streams s = 0" "a_n_streams r = 0" "a_rw_tsn r = 0" "a_next_tsn s \<noteq> 0"
  shows "linked s r"
  by (rule linked_start) (use assms in \<open>simp_all add: word_neq_0_conv\<close>)

lemma rekey_run:
  assumes N: "sign_ok N" "dh_ok N" and wf: "assoc_wf c" "assoc_wf s"
    and keys: "key_ok N (a_sk c)" "a_id_pub c = slice 32 32 (a_sk c)" "key_ok N (a_sk s)" "a_id_pub s = slice 32 32 (a_sk s)"
    and st: "a_state s = ST_ESTABLISHED" and role: "a_is_initiator c" "\<not> a_is_initiator s"
    and pin: "a_peer_id s = a_id_pub c" and tx: "tx_ok w" "tx_ok v"
    and fresh: "a_last_init_ts s < word_of_int (w_time w)"
    and rate: "fst (rate_allow (w_rate v) (w_ms v) (a_src_mac c @ [0, 0]) 10 20 1)"
  shows "\<exists>F1 F2 F3 F4 c1 c2 c3 s1 s2 w1 w2 w3 v1 v2.
    icsp_rekey_start N c w = (0, c1, w1) \<and> w_out w1 = w_out w @ [F1] \<and>
    icsp_handle_frame N cb s (sent_frame F1 @ j1) (length (sent_frame F1)) v u = Some (0, s1, v1, u) \<and>
    w_out v1 = w_out v @ [F2] \<and>
    icsp_handle_frame N cb' c1 (sent_frame F2 @ j2) (length (sent_frame F2)) (w1\<lparr>w_time := t2\<rparr>) u' = Some (0, c2, w2, u') \<and>
    w_out w2 = w_out w1 @ [F3] \<and>
    icsp_handle_frame N cb s1 (sent_frame F3 @ j3) (length (sent_frame F3)) (v1\<lparr>w_time := t3\<rparr>) u = Some (0, s2, v2, u) \<and>
    w_out v2 = w_out v1 @ [F4] \<and>
    icsp_handle_frame N cb' c2 (sent_frame F4 @ j4) (length (sent_frame F4)) (w2\<lparr>w_time := t4\<rparr>) u' = Some (0, c3, w3, u') \<and>
    a_state c3 = ST_ESTABLISHED \<and> a_state s2 = ST_ESTABLISHED \<and>
    a_peer_id c3 = a_id_pub s \<and> a_peer_id s2 = a_id_pub c \<and>
    (a_next_tsn c3 \<noteq> 0 \<longrightarrow> linked c3 s2) \<and> (a_next_tsn s2 \<noteq> 0 \<longrightarrow> linked s2 c3)"
proof -
  obtain ident w0 where R: "random_be32 w = (ident, w0)" by (cases "random_be32 w")
  have w0: "tx_ok w0" "w_out w0 = w_out w" "w_time w0 = w_time w" using random_be32_same [of w] tx R by simp_all
  define a where "a = c\<lparr>a_assoc_id := ident\<rparr>"
  have wfa: "assoc_wf a" using wf(1) by (simp add: a_def assoc_wf_def)
  obtain e b w1 p1 d body where I: "client_send_init N (a_sk c) None a w0 = (0, b, w1)" "b = with_eph N a e" "length e = 32"
    "d = init_fixed b (word_of_int (w_time w0)) @ a_id_pub b" "body = d @ ed25519_sign N d (a_sk c) @
      mac1_compute N (mac1_key N (a_dst_addr b)) (d @ ed25519_sign N d (a_sk c))"
    "icsp_build_pkt b ([ICSP_CHUNK_INIT, 0, 0, 157] @ body) ICSP_MAX_PAYLOAD = Some p1"
    "w_out w1 = w_out w0 @ [pkt_sent b p1]" "tx_ok w1"
    by (rule client_send_init_ok [OF wfa w0(1), of N "a_sk c"])
  have wfb: "assoc_wf b" unfolding I(2) by (rule with_eph_wf [OF wfa I(3)])
  have b: "a_id_pub b = slice 32 32 (a_sk c)" "a_src_mac b = a_src_mac c" "a_is_initiator b" "a_sk b = a_sk c"
    "a_eph_pub b = ed25519_scalarmult_base N e" "a_eph_priv b = e" "a_id_pub b = a_id_pub c"
    using keys(2) role by (simp_all add: I(2) with_eph_def a_def)
  define c1 where "c1 = b\<lparr>a_state := ST_REKEY_WAIT_ACK\<rparr>"
  have start: "icsp_rekey_start N c w = (0, c1, w1)"
    using I(1) by (simp add: rekey_start_eq R a_def [symmetric] c1_def)
  obtain v1 e' x' q2 x where S: "icsp_handle_frame N cb s (sent_frame (pkt_sent b p1) @ j1) (46 + length p1) v u =
      Some (0, x\<lparr>a_state := ST_REKEY_WAIT_COOKIE\<rparr>, v1, u)"
    "x = answered N (accepted (met s b (w_time v)) b (word_of_int (w_time w0))) e' x'" "length e' = 32"
    "w_out v1 = w_out v @ [pkt_sent x q2]" "tx_ok v1"
    "icsp_build_pkt x (icsp_chunk_put ICSP_CHUNK_INIT_ACK 181 @ ack_body x @
       ed25519_sign N (ack_body x) (a_sk s) @ cookie_of N x) ICSP_MAX_PAYLOAD = Some q2"
    by (rule server_step_init [OF wfb wf(2) keys(1) b(1) N(1) I(4,5,6) tx(2), of cb j1 u])
      (use fresh st pin rate b w0 in simp_all)
  have wfx: "assoc_wf x"
    unfolding S(2) answered_def by (intro derive_key_wf with_eph_wf [OF _ S(3)] accepted_wf met_wf wf(2) wfb)
  have x: "a_id_pub x = slice 32 32 (a_sk s)" "\<not> a_is_initiator x" "a_peer_id x = a_id_pub c"
    "a_peer_eph x = a_eph_pub b" "a_eph_pub x = ed25519_scalarmult_base N e'" "a_assoc_id x = a_assoc_id b" "a_has_key x"
    using keys(4) role b(7) by (simp_all add: S(2) answered_def with_eph_def accepted_def)
  obtain w2 q3 where C: "icsp_handle_frame N cb' c1 (sent_frame (pkt_sent x q2) @ j2) (46 + length q2) (w1\<lparr>w_time := t2\<rparr>) u' =
      Some (0, (swayed c1 x t2)\<lparr>a_state := ST_REKEY_WAIT_COOKIE_ACK\<rparr>, w2, u')"
    "icsp_build_pkt (swayed c1 x t2) (cookie_echo N (cookie_of N x) (a_sk c1)) ICSP_MAX_PAYLOAD = Some q3"
    "w_out w2 = w_out w1 @ [pkt_sent (swayed c1 x t2) q3]" "tx_ok w2"
    by (rule client_step_ack [OF wfx keys(3) x(1) N(1) _ length_cookie_of _ S(6), of "w1\<lparr>w_time := t2\<rparr>" c1 cb' j2 u'])
      (use I(8) in \<open>simp_all add: c1_def tx_ok_def\<close>)
  define y where "y = swayed c1 x t2"
  have wfy: "assoc_wf y" unfolding y_def by (rule swayed_wf) (simp_all add: c1_def wfb wfx)
  have q3: "icsp_build_pkt y (cookie_echo N (cookie_of N (x\<lparr>a_state := ST_REKEY_WAIT_COOKIE\<rparr>)) (a_sk c)) ICSP_MAX_PAYLOAD = Some q3"
    using C(2) b(4) by (simp add: y_def c1_def)
  define x1 where "x1 = x\<lparr>a_state := ST_REKEY_WAIT_COOKIE\<rparr>"
  have x1: "assoc_wf x1" "a_peer_id x1 = slice 32 32 (a_sk c)" "a_state x1 = ST_REKEY_WAIT_COOKIE"
    using wfx x(3) keys(2) by (simp_all add: x1_def)
  have tx3: "tx_ok (v1\<lparr>w_time := t3\<rparr>)" using S(5) by (simp add: tx_ok_def)
  obtain v1' v2 q4 s' where D: "icsp_handle_frame N cb x1 (sent_frame (pkt_sent y q3) @ j3) (46 + length q3) (v1\<lparr>w_time := t3\<rparr>) u =
      Some (0, s'\<lparr>a_state := ST_ESTABLISHED\<rparr>, v2, u)"
    "data_plane_reset (met x1 y (w_time (v1\<lparr>w_time := t3\<rparr>))) v1' = (s', v2)"
    "icsp_build_pkt (met x1 y (w_time (v1\<lparr>w_time := t3\<rparr>))) (icsp_chunk_put ICSP_CHUNK_COOKIE_ACK 0) ICSP_MAX_PAYLOAD = Some q4"
    "w_out v1' = w_out (v1\<lparr>w_time := t3\<rparr>) @ [pkt_sent (met x1 y (w_time (v1\<lparr>w_time := t3\<rparr>))) q4]"
    by (rule server_step_echo [OF wfy x1(1) keys(1) x1(2) N(1) tx3 x1(3) q3 [folded x1_def], of cb j3 u])
  define z where "z = met x1 y t3"
  have z: "assoc_wf z" "a_has_key z" "a_assoc_id z = a_assoc_id b" "a_peer_id z = a_id_pub c"
    "a_send_key z = a_send_key x" "a_recv_key z = a_recv_key x"
    using met_wf [OF x1(1) wfy] x by (simp_all add: z_def x1_def)
  have D2: "data_plane_reset z v1' = (s', v2)" using D(2) by (simp add: z_def)
  note Z = data_plane_reset_out [OF D2 z(1)]
  define k where "k = icsp_derive_key N (met (y\<lparr>a_state := ST_REKEY_WAIT_COOKIE_ACK\<rparr>) z t4) e (w2\<lparr>w_time := t4\<rparr>)"
  obtain c' w3 where E: "data_plane_reset k (w2\<lparr>w_time := t4\<rparr>) = (c', w3)" by (cases "data_plane_reset k (w2\<lparr>w_time := t4\<rparr>)")
  have ye: "a_eph_priv y = e" "a_assoc_id y = a_assoc_id b" "a_peer_id y = a_id_pub s" "a_peer_eph y = a_eph_pub x"
      "a_is_initiator y"
    using b x(1) keys(4) by (simp_all add: y_def swayed_def c1_def)
  have wfk: "assoc_wf k" unfolding k_def by (intro derive_key_wf met_wf z(1)) (simp add: wfy)
  note K = data_plane_reset_out [OF E wfk]
  have keyeq: "a_send_key k = a_recv_key x \<and> a_recv_key k = a_send_key x"
    unfolding k_def S(2) answered_def
    by (rule derive_key_agree [OF N(2)])
      (use ye role b(5) x(5) in \<open>simp_all add: with_eph_def accepted_def\<close>)
  have last: "icsp_handle_frame N cb' (y\<lparr>a_state := ST_REKEY_WAIT_COOKIE_ACK\<rparr>) (sent_frame (pkt_sent z q4) @ j4) (46 + length q4)
      (w2\<lparr>w_time := t4\<rparr>) u' = Some (0, c'\<lparr>a_state := ST_ESTABLISHED\<rparr>, w3, u')"
    by (rule client_step_cookie_ack [OF z(1)]) (use D(3) E in \<open>simp_all add: z_def k_def ye\<close>)
  have fin: "a_peer_id c' = a_id_pub s" "a_peer_id s' = a_id_pub c" "a_assoc_id c' = a_assoc_id b"
    using K(8) Z(8) z(4) ye K(7) by (simp_all add: k_def)
  have lk: "a_next_tsn c' \<noteq> 0 \<Longrightarrow> linked (c'\<lparr>a_state := ST_ESTABLISHED\<rparr>) (s'\<lparr>a_state := ST_ESTABLISHED\<rparr>)"
    "a_next_tsn s' \<noteq> 0 \<Longrightarrow> linked (s'\<lparr>a_state := ST_ESTABLISHED\<rparr>) (c'\<lparr>a_state := ST_ESTABLISHED\<rparr>)"
    using K Z z keyeq fin by (intro linked_fresh_keys; simp add: k_def)+
  have lens: "length (sent_frame (pkt_sent b p1)) = 46 + length p1" "length (sent_frame (pkt_sent x q2)) = 46 + length q2"
    "length (sent_frame (pkt_sent y q3)) = 46 + length q3" "length (sent_frame (pkt_sent z q4)) = 46 + length q4"
    by (rule sent_frame_app(6); fact)+
  have outs: "w_out w1 = w_out w @ [pkt_sent b p1]" "w_out v2 = w_out v1 @ [pkt_sent z q4]"
    using I(7) w0(2) Z(9) D(4) by (simp_all add: z_def)
  show ?thesis
    apply (rule exI [of _ "pkt_sent b p1"], rule exI [of _ "pkt_sent x q2"], rule exI [of _ "pkt_sent y q3"],
      rule exI [of _ "pkt_sent z q4"], rule exI [of _ "c1"], rule exI [of _ "y\<lparr>a_state :=
      ST_REKEY_WAIT_COOKIE_ACK\<rparr>"], rule exI [of _ "c'\<lparr>a_state := ST_ESTABLISHED\<rparr>"], rule
      exI [of _ "x1"], rule exI [of _ "s'\<lparr>a_state := ST_ESTABLISHED\<rparr>"], rule exI [of _ "w1"],
      rule exI [of _ "w2"], rule exI [of _ "w3"], rule exI [of _ "v1"], rule exI [of _ "v2"], intro conjI
      impI)
    unfolding lens
    by (rule start outs S(1) [folded x1_def] S(4) C(1) [folded y_def] C(3) [folded y_def] D(1) last | simp add: fin lk)+
qed

text \<open>C16: Rekeying works: when both sides see exactly the other's frames, at any times, the four
  messages bring both sides back to ESTABLISHED with fresh matching keys and emptied data
  planes, in step in both directions (unless a random TSN is 0), and the peer identities are
  the ones of before.\<close>

theorem rekey_completes:
  assumes N: "sign_ok N" "dh_ok N" and wf: "assoc_wf c" "assoc_wf s"
    and keys: "key_ok N (a_sk c)" "a_id_pub c = slice 32 32 (a_sk c)" "key_ok N (a_sk s)" "a_id_pub s = slice 32 32 (a_sk s)"
    and st: "a_state s = ST_ESTABLISHED" and role: "a_is_initiator c" "\<not> a_is_initiator s"
    and pin: "a_peer_id s = a_id_pub c" and tx: "tx_ok w" "tx_ok v"
    and fresh: "a_last_init_ts s < word_of_int (w_time w)"
    and rate: "fst (rate_allow (w_rate v) (w_ms v) (a_src_mac c @ [0, 0]) 10 20 1)"
  shows "\<exists>F1 F2 F3 F4 c1 c2 c3 s1 s2 w1 w2 w3 v1 v2.
    icsp_rekey_start N c w = (0, c1, w1) \<and> w_out w1 = w_out w @ [F1] \<and>
    icsp_handle_frame N cb s (sent_frame F1 @ j1) (length (sent_frame F1)) v u = Some (0, s1, v1, u) \<and>
    w_out v1 = w_out v @ [F2] \<and>
    icsp_handle_frame N cb' c1 (sent_frame F2 @ j2) (length (sent_frame F2)) (w1\<lparr>w_time := t2\<rparr>) u' = Some (0, c2, w2, u') \<and>
    w_out w2 = w_out w1 @ [F3] \<and>
    icsp_handle_frame N cb s1 (sent_frame F3 @ j3) (length (sent_frame F3)) (v1\<lparr>w_time := t3\<rparr>) u = Some (0, s2, v2, u) \<and>
    w_out v2 = w_out v1 @ [F4] \<and>
    icsp_handle_frame N cb' c2 (sent_frame F4 @ j4) (length (sent_frame F4)) (w2\<lparr>w_time := t4\<rparr>) u' = Some (0, c3, w3, u') \<and>
    a_state c3 = ST_ESTABLISHED \<and> a_state s2 = ST_ESTABLISHED \<and>
    a_peer_id c3 = a_id_pub s \<and> a_peer_id s2 = a_id_pub c \<and>
    (a_next_tsn c3 \<noteq> 0 \<longrightarrow> linked c3 s2) \<and> (a_next_tsn s2 \<noteq> 0 \<longrightarrow> linked s2 c3)"
  by (rule rekey_run [OF assms])

definition toy_client :: icsp_assoc where
  "toy_client = assoc0\<lparr>a_sk := replicate 64 7, a_id_pub := replicate 32 7, a_is_initiator := True,
     a_state := ST_ESTABLISHED\<rparr>"

definition toy_server :: icsp_assoc where
  "toy_server = assoc0\<lparr>a_sk := replicate 64 5, a_id_pub := replicate 32 5, a_peer_id := replicate 32 7,
     a_state := ST_ESTABLISHED\<rparr>"

lemma toy_pair:
  "assoc_wf toy_client" "assoc_wf toy_server" "key_ok toy_nacl (a_sk toy_client)" "key_ok toy_nacl (a_sk toy_server)"
  "a_id_pub toy_client = slice 32 32 (a_sk toy_client)" "a_id_pub toy_server = slice 32 32 (a_sk toy_server)"
  by (simp_all add: toy_client_def toy_server_def assoc_wf_def assoc0_def key_ok_def ed25519_seed_to_pub_def
      toy_nacl_def slice_eq_take_drop)

theorem rekey_completes_witness:
  "\<exists>F1 F2 c1 s1 w1 v1. icsp_rekey_start toy_nacl toy_client (world0\<lparr>w_time := 1\<rparr>) = (0, c1, w1) \<and>
     w_out w1 = [F1] \<and> icsp_handle_frame toy_nacl None toy_server (sent_frame F1 @ []) (length (sent_frame F1)) world0 () =
       Some (0, s1, v1, ()) \<and> w_out v1 = [F2]"
proof -
  have "fst (rate_allow (w_rate world0) (w_ms world0) (a_src_mac toy_client @ [0, 0]) 10 20 1)"
    using rate_fresh by (simp add: world0_def)
  then show ?thesis
    using rekey_completes [where N = toy_nacl and c = toy_client and s = toy_server and w = "world0\<lparr>w_time := 1\<rparr>"
        and v = world0 and cb = None and cb' = None and u = "()" and u' = "()" and ?j1.0 = "[]" and ?j2.0 = "[]" and ?j3.0 = "[]" and ?j4.0 = "[]"
        and ?t2.0 = 2 and ?t3.0 = 3 and ?t4.0 = 4] toy_sign_ok toy_dh_ok toy_pair
    by (simp add: toy_client_def toy_server_def world0_def assoc0_def tx_ok_def) blast
qed

section \<open>An answer from anybody\<close>

text \<open>The initiator does not pin the peer while it rekeys. Any \<open>m\<close> with any identity key of its
  own that has seen the rekey INIT (so it knows the ephemeral key in it) can answer; the
  initiator accepts both of its frames, at any later time, and ends ESTABLISHED with \<open>m\<close>'s
  identity and with session keys that \<open>m\<close> has.\<close>

theorem rekey_takes_any_identity:
  assumes N: "sign_ok N" "dh_ok N" and wf: "assoc_wf c" "assoc_wf m"
    and client: "a_state c = ST_REKEY_WAIT_ACK" "a_is_initiator c" "a_eph_pub c = ed25519_scalarmult_base N (a_eph_priv c)"
    and mallory: "key_ok N msk" "a_id_pub m = slice 32 32 msk" "\<not> a_is_initiator m" "a_peer_eph m = a_eph_pub c"
    and tx: "tx_ok w" "tx_ok v"
  shows "\<exists>F2 F4 m' v' v'' c1 w1.
    init_ack_send N m msk v = (0, m', v') \<and> w_out v' = w_out v @ [F2] \<and>
    icsp_send_pkt m' (icsp_chunk_put ICSP_CHUNK_COOKIE_ACK 0) v' = (0, v'') \<and> w_out v'' = w_out v' @ [F4] \<and>
    icsp_handle_frame N cb c (sent_frame F2 @ j) (length (sent_frame F2)) w u = Some (0, c1, w1, u) \<and>
    (\<forall>w2 j'. \<exists>c2 w3. icsp_handle_frame N cb c1 (sent_frame F4 @ j') (length (sent_frame F4)) w2 u = Some (0, c2, w3, u) \<and>
       a_state c2 = ST_ESTABLISHED \<and> a_peer_id c2 = slice 32 32 msk \<and>
       a_send_key c2 = a_recv_key m' \<and> a_recv_key c2 = a_send_key m')"
proof -
  let ?e = "fst (randombytes 32 v)"
  obtain v' p x where A: "init_ack_send N m msk v = (0, answered N m ?e x, v')"
    "w_out v' = w_out v @ [pkt_sent (answered N m ?e x) p]" "tx_ok v'"
    "icsp_build_pkt (answered N m ?e x) (icsp_chunk_put ICSP_CHUNK_INIT_ACK 181 @ ack_body (with_eph N m ?e) @
       ed25519_sign N (ack_body (with_eph N m ?e)) msk @ cookie_of N m) ICSP_MAX_PAYLOAD = Some p"
    by (rule init_ack_send_ok [OF wf(2) tx(2) refl, of N msk])
  define m' where "m' = answered N m ?e x"
  have m': "assoc_wf m'" "a_id_pub m' = slice 32 32 msk" "a_eph_pub m' = ed25519_scalarmult_base N ?e"
    "ack_body (with_eph N m ?e) = ack_body m'"
    unfolding m'_def answered_def using mallory(2)
    by (auto intro!: derive_key_wf with_eph_wf wf(2)) (simp_all add: with_eph_def)
  have p: "icsp_build_pkt m' (icsp_chunk_put ICSP_CHUNK_INIT_ACK 181 @ ack_body m' @ ed25519_sign N (ack_body m') msk @
      cookie_of N m) ICSP_MAX_PAYLOAD = Some p"
    using A(4) by (simp only: m'(4) m'_def [symmetric])
  let ?c = "swayed c m' (w_time w)"
  obtain w1 where B: "icsp_handle_frame N cb c (sent_frame (pkt_sent m' p) @ j) (46 + length p) w u =
      Some (0, ?c\<lparr>a_state := ST_REKEY_WAIT_COOKIE_ACK\<rparr>, w1, u)"
    by (rule client_step_ack [OF m'(1) mallory(1) m'(2) N(1) tx(1) length_cookie_of client(1) p])
  obtain q where q: "icsp_build_pkt m' (icsp_chunk_put ICSP_CHUNK_COOKIE_ACK 0) ICSP_MAX_PAYLOAD = Some q"
    using build_ok [of "icsp_chunk_put ICSP_CHUNK_COOKIE_ACK 0" m'] by auto
  obtain v'' where v'': "icsp_send_pkt m' (icsp_chunk_put ICSP_CHUNK_COOKIE_ACK 0) v' = (0, v'')"
    "w_out v'' = w_out v' @ [pkt_sent m' q]"
    by (rule send_ok [OF A(3) q])
  have "\<exists>c2 w3. icsp_handle_frame N cb (?c\<lparr>a_state := ST_REKEY_WAIT_COOKIE_ACK\<rparr>) (sent_frame (pkt_sent m' q) @ j')
      (46 + length q) w2 u = Some (0, c2, w3, u) \<and>
       a_state c2 = ST_ESTABLISHED \<and> a_peer_id c2 = slice 32 32 msk \<and>
       a_send_key c2 = a_recv_key m' \<and> a_recv_key c2 = a_send_key m'" for w2 j'
  proof -
    define k where "k = icsp_derive_key N (met (?c\<lparr>a_state := ST_REKEY_WAIT_COOKIE_ACK\<rparr>) m' (w_time w2)) (a_eph_priv c) w2"
    obtain c' w3 where E: "data_plane_reset k w2 = (c', w3)" by (cases "data_plane_reset k w2")
    have wfk: "assoc_wf k" unfolding k_def by (intro derive_key_wf met_wf m'(1)) (simp add: swayed_wf wf(1) m'(1))
    have "a_send_key k = a_recv_key m' \<and> a_recv_key k = a_send_key m'"
      unfolding k_def unfolding m'_def answered_def
      by (rule derive_key_agree [OF N(2)])
        (use client mallory m'(3) in \<open>simp_all add: with_eph_def m'_def answered_def\<close>)
    moreover have "icsp_handle_frame N cb (?c\<lparr>a_state := ST_REKEY_WAIT_COOKIE_ACK\<rparr>) (sent_frame (pkt_sent m' q) @ j')
      (46 + length q) w2 u = Some (0, c'\<lparr>a_state := ST_ESTABLISHED\<rparr>, w3, u)"
      by (rule client_step_cookie_ack [OF m'(1)]) (use q E in \<open>simp_all add: k_def\<close>)
    moreover have "a_peer_id c' = slice 32 32 msk" "a_send_key c' = a_send_key k" "a_recv_key c' = a_recv_key k"
      using data_plane_reset_out [OF E wfk] m'(2) by (simp_all add: k_def)
    ultimately show ?thesis by simp
  qed
  moreover have lens: "length (sent_frame (pkt_sent m' p)) = 46 + length p" "length (sent_frame (pkt_sent m' q)) = 46 + length q"
    by (rule sent_frame_app(6) [OF m'(1)])+
  ultimately show ?thesis
    using A(1,2) B v'' unfolding m'_def [symmetric] lens [symmetric] by blast
qed

text \<open>A client in the middle of rekeying and a stranger with a key of its own.\<close>

theorem rekey_takes_any_identity_witness:
  "let e = ed25519_scalarmult_base toy_nacl (zeros 32);
       c = toy_client\<lparr>a_state := ST_REKEY_WAIT_ACK, a_eph_pub := e\<rparr>;
       m = toy_server\<lparr>a_peer_eph := e\<rparr>
   in \<exists>F2 m' v' c1 w1. init_ack_send toy_nacl m (replicate 64 5) world0 = (0, m', v') \<and> w_out v' = [F2] \<and>
     icsp_handle_frame toy_nacl None c (sent_frame F2 @ []) (length (sent_frame F2)) world0 () = Some (0, c1, w1, ())"
  unfolding Let_def
  using rekey_takes_any_identity [where N = toy_nacl
      and c = "toy_client\<lparr>a_state := ST_REKEY_WAIT_ACK, a_eph_pub := ed25519_scalarmult_base toy_nacl (zeros 32)\<rparr>"
      and m = "toy_server\<lparr>a_peer_eph := ed25519_scalarmult_base toy_nacl (zeros 32)\<rparr>"
      and msk = "replicate 64 5" and w = world0 and v = world0 and cb = None and u = "()" and j = "[]"]
    toy_sign_ok toy_dh_ok toy_pair
  by (simp add: toy_client_def toy_server_def world0_def assoc0_def tx_ok_def assoc_wf_def slice_eq_take_drop) blast

end
