(* ===== verification/Icsp_Life.thy ===== *)
theory Icsp_Life
  imports Icsp_Rekey
begin

text \<open>
  The life of an established session: the step relation of a session that goes on (frames,
  ticks, sends, retransmissions, the caller's callback), the invariant of the responder, the
  relay as such a session, and what a refused INIT leaves behind where it ends one.
\<close>

section \<open>What the data path leaves alone\<close>

text \<open>Identity, role and state of an association.\<close>

definition persona :: "icsp_assoc \<Rightarrow> bytes \<times> bytes \<times> bytes \<times> bool \<times> bool \<times> icsp_st" where
  "persona a = (a_peer_id a, a_id_pub a, a_sk a, a_is_initiator a, a_has_key a, a_state a)"

lemma persona_upd [simp]:
  "persona (a\<lparr>a_streams := x1\<rparr>) = persona a" "persona (a\<lparr>a_n_streams := x2\<rparr>) = persona a"
  "persona (a\<lparr>a_sendq := x3\<rparr>) = persona a" "persona (a\<lparr>a_n_sendq := x4\<rparr>) = persona a"
  "persona (a\<lparr>a_rcvq := x5\<rparr>) = persona a" "persona (a\<lparr>a_n_rcvq := x6\<rparr>) = persona a"
  "persona (a\<lparr>a_cum_tsn := x7\<rparr>) = persona a" "persona (a\<lparr>a_rw_tsn := x8\<rparr>) = persona a"
  "persona (a\<lparr>a_rw_mask := x9\<rparr>) = persona a" "persona (a\<lparr>a_next_tsn := x10\<rparr>) = persona a"
  "persona (a\<lparr>a_last_hb := t1\<rparr>) = persona a" "persona (a\<lparr>a_last_ann := t2\<rparr>) = persona a"
  "persona (a\<lparr>a_last_rx := t3\<rparr>) = persona a" "persona (a\<lparr>a_peer_mac := m1\<rparr>) = persona a"
  "persona (a\<lparr>a_has_peer_mac := m2\<rparr>) = persona a"
  by (simp_all add: persona_def)

lemma persona_data_ops [simp]:
  "persona (upd_stream i f a) = persona a" "persona (sendq_push t x y l n a) = persona a"
  "persona (bump_cum t a) = persona a" "persona (snd (get_stream a sid)) = persona a"
  "persona (sack_in c a) = persona a" "persona (reset_stream_in sid a) = persona a"
  by (auto simp: upd_stream_def sendq_push_def bump_cum_def get_stream_def sack_in_def reset_stream_in_def Let_def
      split: option.splits)

lemma persona_get_stream: "get_stream a sid = (so, b) \<Longrightarrow> persona b = persona a"
  using persona_data_ops(4) [of a sid] by simp

lemma persona_data_deliver:
  "data_deliver a tsn sid seq clear mlen outcap = Inl b \<Longrightarrow> persona b = persona a"
  "data_deliver a tsn sid seq clear mlen outcap = Inr (D_Ret k c m) \<Longrightarrow> persona c = persona a"
  by (auto simp: data_deliver_def Let_def split: prod.splits option.splits if_splits dest!: persona_get_stream)

lemma persona_data_step:
  "data_step N w outcap ty cd clen s = Inl s' \<Longrightarrow> persona s' = persona s"
  "data_step N w outcap ty cd clen s = Inr (D_Ret k b m) \<Longrightarrow> persona b = persona s"
  by (auto simp: data_step_def data_chunk_in_def Let_def split: if_splits option.splits prod.splits bool.splits
      dest!: persona_data_deliver)

definition same_self :: "icsp_assoc \<Rightarrow> icsp_assoc \<Rightarrow> bool" where
  "same_self a b \<longleftrightarrow> persona b = persona a \<and> (assoc_wf a \<longrightarrow> assoc_wf b)"

lemma same_self_refl [simp, intro!]: "same_self a a"
  by (simp add: same_self_def)

lemma same_self_trans: "same_self a b \<Longrightarrow> same_self b c \<Longrightarrow> same_self a c"
  by (simp add: same_self_def)

lemma data_handle_persona:
  assumes "icsp_data_handle N a payload plen outcap w = Some (r, b, m)"
  shows "persona b = persona a"
proof (cases "plen < 12")
  case True
  then show ?thesis using assms by (simp add: icsp_data_handle_def)
next
  case False
  have "case chunk_walk (data_step N w outcap) (drop 12 payload) (plen - 12) a of
      Inl s \<Rightarrow> persona s = persona a | Inr x \<Rightarrow> (case x of D_Ret k b m \<Rightarrow> persona b = persona a | D_UB \<Rightarrow> True)"
    by (rule chunk_walk_inv) (auto dest: persona_data_step split: data_ret.splits)
  then show ?thesis
    using assms False by (auto simp: icsp_data_handle_def split: sum.splits data_ret.splits)
qed

lemma data_handle_self:
  "assoc_wf a \<Longrightarrow> icsp_data_handle N a payload plen outcap w = Some (r, b, m) \<Longrightarrow> same_self a b"
  using data_handle_persona data_handle_wf by (simp add: same_self_def)

lemma data_send_self: "icsp_data_send N a sid d w = Some (r, b, w') \<Longrightarrow> same_self a b"
  using get_stream_wf [of a sid]
  by (auto simp: icsp_data_send_def same_self_def Let_def persona_get_stream
      split: if_splits option.splits prod.splits intro!: upd_stream_wf sendq_push_wf)
   (auto simp: assoc_wf_def)

lemma retransmit_self:
  assumes "icsp_data_retransmit N a tmo w = Some (r, b, w')"
  shows "same_self a b"
proof -
  have "(\<lambda>(k, b, w). same_self a b) (r, b, w')"
  proof (rule ofold_inv [OF assms [unfolded icsp_data_retransmit_def]])
    show "(\<lambda>(k, b, w). same_self a b) v" if "(\<lambda>(k, b, w). same_self a b) u" "retransmit_one N tmo x u = Some v" for x u v
      using that
      by (auto simp: retransmit_one_def Let_def same_self_def persona_def split: prod.splits if_splits option.splits)
       (auto simp: assoc_wf_def)
  qed simp
  then show ?thesis by simp
qed

lemma life_handle_self: "icsp_life_handle a payload plen = (r, b) \<Longrightarrow> same_self a b"
proof -
  assume h: "icsp_life_handle a payload plen = (r, b)"
  have step: "same_self a (reset_stream_in sid s)" if "same_self a s" for sid s
    using that by (auto simp: same_self_def assoc_wf_def reset_stream_in_def Let_def)
  have "case chunk_walk life_step (drop 12 payload) (plen - 12) a of Inl s \<Rightarrow> same_self a s | Inr s \<Rightarrow> same_self a s"
    by (rule chunk_walk_inv) (use step in \<open>auto simp: life_step_def split: if_splits\<close>)
  then show ?thesis using h by (auto simp: icsp_life_handle_def split: if_splits sum.splits)
qed

section \<open>What the handshake steps change\<close>

lemma open_length: "ed25519_secretbox_open N c n k key = Some pt \<Longrightarrow> length pt = n"
  by (auto simp: ed25519_secretbox_open_def split: if_splits option.splits)

lemma init_fields_wf:
  "assoc_wf a \<Longrightarrow> length e = 32 \<Longrightarrow> length i = 32 \<Longrightarrow>
   assoc_wf (a\<lparr>a_last_init_ts := t, a_assoc_id := n, a_peer_eph := e, a_peer_id := i\<rparr>)"
  by (simp add: assoc_wf_def)

lemma init_fields_persona:
  "persona (a\<lparr>a_last_init_ts := t, a_assoc_id := n, a_peer_eph := e, a_peer_id := x\<rparr>) = persona (a\<lparr>a_peer_id := x\<rparr>)"
  by (simp add: persona_def)

lemma peer_id_length: "assoc_wf a \<Longrightarrow> length (a_peer_id a) = 32"
  by (simp add: assoc_wf_def)

lemma init_check_self:
  assumes "init_check N a frame plen peers w = (r, b, w')" "0 \<le> r"
  shows "assoc_wf a \<Longrightarrow> assoc_wf b" "persona (b\<lparr>a_peer_id := x\<rparr>) = persona (a\<lparr>a_peer_id := x\<rparr>)"
  using assms unfolding init_check_def Let_def
  by (auto split: if_splits prod.splits bool.splits option.splits intro!: init_fields_wf
      simp: init_fields_persona peer_id_length dest: open_length)

lemma init_ack_send_eq:
  "init_ack_send N a sk w = (r, b, w') \<Longrightarrow> b = answered N a (fst (randombytes 32 w)) (snd (randombytes 32 w))"
  by (auto simp: init_ack_send_def Let_def case_prod_beta answered_def with_eph_def)

lemma init_ack_send_self:
  assumes "init_ack_send N a sk w = (r, b, w')"
  shows "assoc_wf a \<Longrightarrow> assoc_wf b" "a_has_key a \<Longrightarrow> persona b = persona a"
  unfolding init_ack_send_eq [OF assms] answered_def
  by (auto intro!: derive_key_wf with_eph_wf) (simp add: persona_def with_eph_def icsp_derive_key_def Let_def)

lemma data_plane_reset_self: "data_plane_reset a w = (b, w') \<Longrightarrow> same_self a b"
  by (auto simp: data_plane_reset_def Let_def case_prod_beta assoc_wf_def same_self_def persona_def)

lemma announce_self: "icsp_announce_send N a w = (r, b, w') \<Longrightarrow> same_self a b"
  by (auto simp: icsp_announce_send_def Let_def same_self_def assoc_wf_def split: prod.splits if_splits)

section \<open>The responder\<close>

text \<open>A responder in session with the peer \<open>p\<close>.\<close>

definition responder :: "bytes \<Rightarrow> icsp_assoc \<Rightarrow> bool" where
  "responder p a \<longleftrightarrow> assoc_wf a \<and> a_has_key a \<and> \<not> a_is_initiator a \<and> a_peer_id a = p \<and>
     a_state a \<in> {ST_ESTABLISHED, ST_REKEY_WAIT_COOKIE, ST_SHUTDOWN}"

lemma responder_self: "same_self a b \<Longrightarrow> responder p a \<Longrightarrow> responder p b"
  by (simp add: same_self_def responder_def persona_def)

lemma responder_state: "responder p a \<Longrightarrow> s \<in> {ST_ESTABLISHED, ST_REKEY_WAIT_COOKIE, ST_SHUTDOWN} \<Longrightarrow> responder p (a\<lparr>a_state := s\<rparr>)"
  by (simp add: responder_def)

lemma responder_server_step:
  assumes "responder p a" "icsp_rekey_server_step N a frame plen w = (r, b, w')" "0 \<le> r"
  shows "responder p b"
proof -
  have init: "responder p (c\<lparr>a_state := ST_REKEY_WAIT_COOKIE\<rparr>)"
    if "init_check N a frame plen [] w = (r1, b1, w1)" "0 \<le> r1" "a_peer_id b1 = a_peer_id a" "init_ack_send N b1 (a_sk b1) w1 = (r2, c, w2)"
    for r1 b1 w1 r2 c w2
    using assms(1) that init_check_self [OF that(1,2)] init_ack_send_self [OF that(4)]
    by (auto simp: responder_def persona_def)
  show ?thesis
    using assms(2,3) init responder_self [OF data_plane_reset_self assms(1)] assms(1)
    by (auto simp: icsp_rekey_server_step_def Let_def responder_state split: if_splits prod.splits)
qed

lemma responder_dispatch:
  assumes "responder p a" "rekey_dispatch N a frame plen w = (k, b, w')" "k \<noteq> Some ICSP_POLL_ERR"
  shows "responder p b"
  using assms responder_server_step [OF assms(1)]
  by (auto simp: rekey_dispatch_def responder_def Let_def split: if_splits prod.splits)

section \<open>Sessions as step sequences\<close>

text \<open>What a callback of the caller does to the association it is given: it sends.\<close>

inductive sends :: "nacl \<Rightarrow> icsp_assoc \<times> world \<Rightarrow> icsp_assoc \<times> world \<Rightarrow> bool" for N where
  sends_none: "sends N s s"
| sends_more: "sends N s (a, w) \<Longrightarrow> icsp_data_send N a sid d w = Some (r, b, w') \<Longrightarrow> sends N s (b, w')"

definition only_sends :: "nacl \<Rightarrow> 'u data_cb option \<Rightarrow> bool" where
  "only_sends N cb \<longleftrightarrow>
     (\<forall>f a sid m w u b w' u'. cb = Some f \<longrightarrow> f a sid m w u = Some (b, w', u') \<longrightarrow> sends N (a, w) (b, w'))"

text \<open>One step of a session that goes on: frames that are refused with an error (a negative
  result) and a dead peer end it and are no steps here; every caller in the program stops there.
  Between steps the rest of the program and the clock move the world.\<close>

inductive session_step ::
    "nacl \<Rightarrow> 'u data_cb option \<Rightarrow> icsp_assoc \<times> world \<times> 'u \<Rightarrow> icsp_assoc \<times> world \<times> 'u \<Rightarrow> bool" for N cb where
  Frame: "icsp_handle_frame N cb a f n w u = Some (r, b, w', u') \<Longrightarrow> 0 \<le> r \<Longrightarrow> session_step N cb (a, w, u) (b, w', u')"
| Tick: "icsp_keepalive_tick N a w = (False, b, w') \<Longrightarrow> session_step N cb (a, w, u) (b, w', u)"
| Send: "icsp_data_send N a sid d w = Some (r, b, w') \<Longrightarrow> session_step N cb (a, w, u) (b, w', u)"
| Resend: "icsp_data_retransmit N a tmo w = Some (r, b, w') \<Longrightarrow> session_step N cb (a, w, u) (b, w', u)"
| Close: "icsp_shutdown_send a w = (r, b, w') \<Longrightarrow> session_step N cb (a, w, u) (b, w', u)"
| World: "session_step N cb (a, w, u) (a, w', u')"

inductive_cases session_stepE: "session_step N cb (a, w, u) (b, w', u')"

lemma persona_sends: "sends N s t \<Longrightarrow> persona (fst t) = persona (fst s)"
  by (induction rule: sends.induct) (auto dest: data_send_self simp: same_self_def)

lemma responder_sends: "sends N s t \<Longrightarrow> responder p (fst s) \<Longrightarrow> responder p (fst t)"
  by (induction rule: sends.induct) (auto intro: responder_self [OF data_send_self])

lemma responder_chunks:
  assumes "responder p a" "handle_chunks N cb a payload plen w u = Some (r, b, w', u')" "only_sends N cb"
  shows "responder p b"
proof -
  obtain m c d where h: "icsp_data_handle N a payload plen 1400 w = Some (m, c, d)"
    using assms(2) by (cases "icsp_data_handle N a payload plen 1400 w") (auto simp: handle_chunks_def)
  have c: "responder p c"
    using assms(1) data_handle_self [OF _ h] responder_self by (auto simp: responder_def)
  show ?thesis
    using assms(2,3) c responder_sends [of N "(c, w)" _ p] responder_self [OF life_handle_self]
    by (fastforce simp: handle_chunks_def h Let_def only_sends_def split: if_splits option.splits prod.splits)
qed

lemma responder_frame:
  assumes "responder p a" "icsp_handle_frame N cb a f n w u = Some (r, b, w', u')" "0 \<le> r" "only_sends N cb"
  shows "responder p b"
proof -
  let ?a = "a\<lparr>a_peer_mac := slice 6 6 f, a_has_peer_mac := True, a_last_rx := w_time w\<rparr>"
  let ?w = "if 12 + 4 \<le> n - 46 \<and> bget (drop 46 f) 12 = ICSP_CHUNK_HEARTBEAT then snd (icsp_heartbeat_ack ?a w) else w"
  have met: "responder p ?a" using assms(1) by (auto simp: responder_def assoc_wf_def)
  obtain k c v where d: "rekey_dispatch N ?a f (n - 46) ?w = (k, c, v)" by (cases "rekey_dispatch N ?a f (n - 46) ?w")
  have c: "responder p c" if "k \<noteq> Some (- 1)" by (rule responder_dispatch [OF met d that])
  consider "a = b" | "k = Some r" "c = b" | "k = None" "handle_chunks N cb c (drop 46 f) (n - 46) v u = Some (r, b, w', u')"
    using assms(2) unfolding icsp_handle_frame_def Let_def d
    by (auto split: if_splits option.splits)
  then show ?thesis
    by cases (use assms(1,3,4) c responder_chunks in auto)
qed

lemma responder_tick:
  assumes "responder p a" "icsp_keepalive_tick N a w = (False, b, w')"
  shows "responder p b"
proof -
  define s where "s = (if 0 < a_hb_interval_s a \<and> a_hb_interval_s a \<le> w_time w - a_last_hb a
    then (a\<lparr>a_last_hb := w_time w\<rparr>, snd (icsp_heartbeat_send a w)) else (a, w))"
  define t where "t = (if a_tunnel (fst s) \<and> 0 < a_announce_s (fst s) \<and> a_announce_s (fst s) \<le> w_time w - a_last_ann (fst s)
    then snd (icsp_announce_send N (fst s) (snd s)) else (fst s, snd s))"
  have s: "responder p (fst s)" using assms(1) by (auto simp: s_def responder_def assoc_wf_def)
  have t: "responder p (fst t)"
    using s responder_self [OF announce_self [of N "fst s" "snd s"]]
    by (cases "icsp_announce_send N (fst s) (snd s)") (auto simp: t_def)
  then have "\<not> a_is_initiator (fst t)" by (simp add: responder_def)
  then have "b = fst t"
    using assms(2) unfolding icsp_keepalive_tick_def Let_def case_prod_beta s_def [symmetric] t_def [symmetric]
    by (simp split: if_splits)
  with t show ?thesis by simp
qed

lemma responder_step:
  assumes "session_step N cb (a, w, u) (b, w', u')" "only_sends N cb" "responder p a"
  shows "responder p b"
  using assms(1)
proof (cases rule: session_step.cases)
  case (Frame f n r)
  show ?thesis by (rule responder_frame [OF assms(3) Frame(1,2) assms(2)])
next
  case (Close r)
  then show ?thesis using assms(3) responder_state by (auto simp: icsp_shutdown_send_def Let_def split: prod.splits if_splits)
qed (auto intro: responder_tick [OF assms(3)] responder_self [OF data_send_self] responder_self [OF retransmit_self] assms(3))

lemma responder_run:
  assumes "(session_step N cb)\<^sup>*\<^sup>* (a, w, u) (b, w', u')" "only_sends N cb" "responder p a"
  shows "responder p b"
  using assms(1)
proof (induction "(b, w', u')" arbitrary: b w' u' rule: rtranclp_induct)
  case base
  then show ?case using assms(3) by simp
next
  case (step y)
  obtain c v t where y: "y = (c, v, t)" by (cases y)
  then have "responder p c" using step(3) by blast
  then show ?case using step(2) assms(2) unfolding y by (rule responder_step [rotated 2])
qed

section \<open>The relay is such a session\<close>

lemma handle_frame_result:
  assumes "icsp_handle_frame N cb a f n w u = Some (r, b, w', u')"
  shows "r \<in> {-3, -1, 0, 1}"
proof -
  have "fst (rekey_dispatch N c g k v) \<in> {None, Some (-1), Some 0}" for c g k v
    by (auto simp: rekey_dispatch_def Let_def split: prod.splits)
  moreover have "r \<in> {-3, -1, 0, 1}" if "handle_chunks N cb c q k v u = Some (r, b, w', u')" for c q k v
    using that by (auto simp: handle_chunks_def Let_def split: if_splits option.splits prod.splits)
  ultimately show ?thesis
    using assms unfolding icsp_handle_frame_def Let_def
    by (auto split: if_splits option.splits prod.splits) (metis fst_conv insertE option.distinct(1) option.inject singletonD)+
qed

lemma relay_stdin_session:
  assumes "relay_stdin N tty sid ins a st w = Some (ro, b, st', w')"
  shows "(session_step N cb)\<^sup>*\<^sup>* (a, w, u) (b, w', u)"
  using assms
proof (induction N tty sid ins a st w rule: relay_stdin.induct)
  case (1 N tty sid ins a st w)
  have sent: "(session_step N cb)\<^sup>*\<^sup>* (a, w, u) (c, v, u)" if "relay_send_line N a sid line w = Some (r, c, v)" for line r c v
    using that by (auto simp: relay_send_line_def Let_def intro: Send split: if_splits option.splits)
  obtain r c v where cl: "icsp_shutdown_send a w = (r, c, v)" by (cases "icsp_shutdown_send a w")
  have closed: "(session_step N cb)\<^sup>*\<^sup>* (a, w, u) (c, v, u)" by (rule r_into_rtranclp, rule Close, rule cl)
  show ?case
  proof (cases "memchr 10 (slice 0 (in_len st) (in_buf st))")
    case (Some nl)
    then show ?thesis
      using "1.prems" sent by (subst (asm) relay_stdin.simps) (auto split: option.splits)
  next
    case None
    show ?thesis
      using "1.prems" None closed "1.IH" [OF None refl]
      by (subst (asm) (1) relay_stdin.simps)
        (auto simp: Let_def cl split: list.splits stdin_event.splits if_splits)
  qed
qed

lemma relay_session:
  assumes "icsp_relay N cb tty sid use_stdin turns buf a st w u = Some (Relay_Wait b st' w' u')"
  shows "(session_step N cb)\<^sup>*\<^sup>* (a, w, u) (b, w', u')"
  using assms
proof (induction turns arbitrary: use_stdin buf a st w u)
  case Nil
  then show ?case by (simp add: icsp_relay.simps)
next
  case (Cons turn turns)
  obtain ins ev where turn: "turn = (ins, ev)" by (cases turn)
  obtain ro c st1 v where inp: "(if use_stdin then relay_stdin N tty sid ins a st w
      else Some (\<lparr>ro_ret = 0, ro_use_stdin = False\<rparr>, a, st, w)) = Some (ro, c, st1, v)"
    using Cons.prems by (auto simp: turn icsp_relay.simps split: option.splits)
  have run1: "(session_step N cb)\<^sup>*\<^sup>* (a, w, u) (c, v, u)"
    using inp relay_stdin_session by (fastforce split: if_splits)
  have run2: "(session_step N cb)\<^sup>*\<^sup>* (a, w, u) (c, at_event ev v, u)"
    using run1 World by (rule rtranclp.rtrancl_into_rtrancl)
  obtain n frame where rx: "icsp_rx c buf 250 ev = Rx_Len n frame"
    using Cons.prems by (auto simp: turn icsp_relay.simps inp Let_def split: if_splits rx_result.splits)
  note eq = Cons.prems [unfolded turn icsp_relay.simps inp, simplified, unfolded Let_def rx, simplified]
  show ?case
  proof (cases "n = 0")
    case True
    obtain dead d v1 where t: "icsp_keepalive_tick N c (at_event ev v) = (dead, d, v1)" by (metis prod.exhaust)
    have "\<not> dead" and more: "icsp_relay N cb tty sid (ro_use_stdin ro) turns frame d st1 v1 u = Some (Relay_Wait b st' w' u')"
      using eq True t by (auto split: if_splits)
    then have "session_step N cb (c, at_event ev v, u) (d, v1, u)" using t by (intro Tick) simp
    then show ?thesis using run2 Cons.IH [OF more] by (meson rtranclp.rtrancl_into_rtrancl rtranclp_trans)
  next
    case False
    obtain pr d v1 u1 where f: "icsp_handle_frame N cb c frame n (at_event ev v) u = Some (pr, d, v1, u1)"
      and more: "icsp_relay N cb tty sid (ro_use_stdin ro) turns frame d st1 v1 u1 = Some (Relay_Wait b st' w' u')"
      and ok: "pr \<noteq> -1" "pr \<noteq> -2" "pr \<noteq> -3"
      using eq False by (auto split: if_splits option.splits)
    have "session_step N cb (c, at_event ev v, u) (d, v1, u1)"
      using handle_frame_result [OF f] ok by (intro Frame [OF f]) auto
    then show ?thesis using run2 Cons.IH [OF more] by (meson rtranclp.rtrancl_into_rtrancl rtranclp_trans)
  qed
qed

section \<open>What a refused INIT leaves behind\<close>

text \<open>An INIT with a clear identity that passes the checks before its signature (which need no
  secret) is refused when it names somebody else, signed or not; but the name is already in
  the association, which stays established.\<close>

theorem refused_init_overwrites_peer:
  assumes est: "a_state a = ST_ESTABLISHED"
    and init: "bget (drop 46 frame) 12 = ICSP_CHUNK_INIT" "cd = drop 62 frame" "fl = bget (drop 46 frame) 13"
      "fl AND ICSP_INIT_FLAG_IDBOX = 0" "bget cd 0 = ICSP_VERSION" "16 + INIT_LEN fl \<le> plen"
    and checks: "icsp_check_pkt (drop 46 frame) plen = 0"
      "mac1_verify N (mac1_key N (ipv69_addr_get (dest (hdr_at (drop 14 frame)))))
         (slice 0 (INIT_PRE_SIG fl + 64) cd) (drop (INIT_PRE_SIG fl + 64) cd) = 0"
      "rate_allow_g (slice 6 6 frame @ [0, 0]) 10 20 1 w = (True, w')"
      "a_last_init_ts a < ipv69_get_be64 (drop 37 cd)"
    and other: "slice 45 32 cd \<noteq> a_peer_id a"
  shows "\<exists>b. icsp_rekey_server_step N a frame plen w = (-1, b, w') \<and>
    a_peer_id b = slice 45 32 cd \<and> a_state b = ST_ESTABLISHED"
proof -
  let ?b = "a\<lparr>a_last_init_ts := ipv69_get_be64 (drop 37 cd), a_assoc_id := ipv69_get_be32 (drop 52 frame),
    a_peer_eph := slice 5 32 cd, a_peer_id := slice 45 32 cd\<rparr>"
  have "\<exists>r. init_check N a frame plen [] w = (r, ?b, w')"
    unfolding init_check_def Let_def
    using init checks by (simp add: not_le)
  then obtain r where "init_check N a frame plen [] w = (r, ?b, w')" by blast
  then have "icsp_rekey_server_step N a frame plen w = (-1, ?b, w')"
    using est init(1) other by (simp add: icsp_rekey_server_step_def Let_def)
  then show ?thesis using est by simp
qed

text \<open>C21: On the responder's side the peer of a session that goes on never changes. Whatever frames
  arrive that are not refused with an error, in whatever order with ticks, sends,
  retransmissions, a close and a callback that sends, the session keeps its peer identity and
  its role, has keys, is well-formed, and is established, rekeying as responder, or closing. So
  it is for the relay on any input and any frames, as long as it runs: an error ends it.
  (A refused frame itself may leave another name in the association it ends:
  \<open>refused_init_overwrites_peer\<close>.)\<close>

theorem responder_peer_pinned:
  assumes "only_sends N cb" "responder p a"
  shows "(\<forall>b w' u'. (session_step N cb)\<^sup>*\<^sup>* (a, w, u) (b, w', u') \<longrightarrow> responder p b) \<and>
    (\<forall>b st' w' u'. icsp_relay N cb tty sid use_stdin turns buf a st w u = Some (Relay_Wait b st' w' u') \<longrightarrow>
       responder p b)"
proof (intro conjI allI impI)
  show "responder p b" if "(session_step N cb)\<^sup>*\<^sup>* (a, w, u) (b, w', u')" for b w' u'
    by (rule responder_run [OF that assms])
  show "responder p b" if "icsp_relay N cb tty sid use_stdin turns buf a st w u = Some (Relay_Wait b st' w' u')" for b st' w' u'
    by (rule responder_run [OF relay_session [OF that] assms])
qed

text \<open>An established server, before and after a turn of the relay without a frame.\<close>

theorem responder_peer_pinned_witness:
  "\<exists>b w' st'. icsp_relay toy_nacl None False 1 True [([In_None], \<lparr>ev_poll = Poll_None, ev_recv = Recv_Err EAGAIN, ev_time = 9, ev_ms = 9\<rparr>)] [] (toy_server\<lparr>a_has_key := True\<rparr>) relay_in0 world0 () =
      Some (Relay_Wait b st' w' ()) \<and> responder (replicate 32 7) b"
proof -
  let ?a = "toy_server\<lparr>a_has_key := True\<rparr>"
  let ?turns = "[([In_None], \<lparr>ev_poll = Poll_None, ev_recv = Recv_Err EAGAIN, ev_time = 9, ev_ms = 9\<rparr>)]"
  have r: "responder (replicate 32 7) ?a" using toy_pair(2) by (simp add: responder_def toy_server_def assoc0_def assoc_wf_def)
  have "\<exists>b w' st'. icsp_relay toy_nacl None False 1 True ?turns [] ?a relay_in0 world0 () = Some (Relay_Wait b st' w' ())"
    by (simp add: icsp_relay.simps relay_stdin.simps icsp_rx_def l2_recv_def memchr_def relay_in0_def slice_def
        icsp_keepalive_tick_def toy_server_def assoc0_def at_event_def Let_def)
  then obtain b w' st' where run: "icsp_relay toy_nacl None False 1 True ?turns [] ?a relay_in0 world0 () = Some (Relay_Wait b st' w' ())"
    by blast
  moreover have "responder (replicate 32 7) b"
    using responder_peer_pinned [OF _ r, of toy_nacl "None :: unit data_cb option"] run by (fastforce simp: only_sends_def)
  ultimately show ?thesis by blast
qed

end
