(* ===== verification/Icsp_Runs.thy ===== *)
theory Icsp_Runs
  imports Icsp_Life
begin

text \<open>
  Everything that may happen to an association between two rekeys: the step relation \<open>assoc_step\<close>
  with frames that fail as well as those that succeed, and what the receive window keeps
  through such runs.
\<close>

section \<open>Runs within one set of keys\<close>

text \<open>One step of an association, errors included: a frame or a bare payload, a tick, a send, a
  retransmission, the start of a rekey, a close; the world moves in between.\<close>

inductive assoc_step ::
    "nacl \<Rightarrow> 'u data_cb option \<Rightarrow> icsp_assoc \<times> world \<times> 'u \<Rightarrow> icsp_assoc \<times> world \<times> 'u \<Rightarrow> bool" for N cb where
  Any_Frame: "icsp_handle_frame N cb a f n w u = Some (r, b, w', u') \<Longrightarrow> assoc_step N cb (a, w, u) (b, w', u')"
| Any_Payload: "icsp_data_handle N a p n outcap w = Some (r, b, m) \<Longrightarrow> assoc_step N cb (a, w, u) (b, w, u)"
| Any_Tick: "icsp_keepalive_tick N a w = (dead, b, w') \<Longrightarrow> assoc_step N cb (a, w, u) (b, w', u)"
| Any_Send: "icsp_data_send N a sid d w = Some (r, b, w') \<Longrightarrow> assoc_step N cb (a, w, u) (b, w', u)"
| Any_Resend: "icsp_data_retransmit N a tmo w = Some (r, b, w') \<Longrightarrow> assoc_step N cb (a, w, u) (b, w', u)"
| Any_Rekey: "icsp_rekey_start N a w = (r, b, w') \<Longrightarrow> assoc_step N cb (a, w, u) (b, w', u)"
| Any_Close: "icsp_shutdown_send a w = (r, b, w') \<Longrightarrow> assoc_step N cb (a, w, u) (b, w', u)"
| Any_World: "assoc_step N cb (a, w, u) (a, w', u')"

text \<open>A rekey is completed by the step that goes from its last wait back to \<^verbatim>\<open>ESTABLISHED\<close>.\<close>

definition rekeyed :: "icsp_assoc \<Rightarrow> icsp_assoc \<Rightarrow> bool" where
  "rekeyed a b \<longleftrightarrow> a_state a \<in> {ST_REKEY_WAIT_COOKIE, ST_REKEY_WAIT_COOKIE_ACK} \<and> a_state b = ST_ESTABLISHED"

definition epoch_step ::
    "nacl \<Rightarrow> 'u data_cb option \<Rightarrow> icsp_assoc \<times> world \<times> 'u \<Rightarrow> icsp_assoc \<times> world \<times> 'u \<Rightarrow> bool" where
  "epoch_step N cb s t \<longleftrightarrow> assoc_step N cb s t \<and> \<not> rekeyed (fst s) (fst t)"

section \<open>What leaves the window alone\<close>

lemma window_upd [simp]:
  "window (a\<lparr>a_state := s\<rparr>) = window a" "window (a\<lparr>a_assoc_id := k\<rparr>) = window a"
  "window (a\<lparr>a_last_hb := t1\<rparr>) = window a" "window (a\<lparr>a_last_ann := t2\<rparr>) = window a"
  "window (a\<lparr>a_last_rx := t3\<rparr>) = window a" "window (a\<lparr>a_peer_mac := m1\<rparr>) = window a"
  "window (a\<lparr>a_has_peer_mac := m2\<rparr>) = window a" "window (a\<lparr>a_peer_id := x1\<rparr>) = window a"
  "window (a\<lparr>a_peer_eph := x2\<rparr>) = window a" "window (a\<lparr>a_last_init_ts := t4\<rparr>) = window a"
  "window (a\<lparr>a_next_tsn := t5\<rparr>) = window a" "window (a\<lparr>a_sendq := q\<rparr>) = window a"
  "window (a\<lparr>a_eph_priv := x3\<rparr>) = window a" "window (a\<lparr>a_eph_pub := x4\<rparr>) = window a"
  "window (upd_stream i f a) = window a" "window (sendq_push t x y l n a) = window a"
  "window (reset_stream_in sid a) = window a" "window (icsp_derive_key N a e w) = window a"
  "window (with_eph N a sk) = window a"
  by (simp_all add: window_def upd_stream_def sendq_push_def reset_stream_in_def icsp_derive_key_def with_eph_def Let_def)

lemma window_get_stream: "get_stream a sid = (so, b) \<Longrightarrow> window b = window a"
  using get_stream_window [of a sid] by simp

lemma window_send: "icsp_data_send N a sid d w = Some (r, b, w') \<Longrightarrow> window b = window a"
  by (auto simp: icsp_data_send_def Let_def dest: window_get_stream split: if_splits option.splits prod.splits)

lemma window_sends: "sends N s t \<Longrightarrow> window (fst t) = window (fst s)"
  by (induction rule: sends.induct) (auto dest: window_send)

lemma window_retransmit:
  assumes "icsp_data_retransmit N a tmo w = Some (r, b, w')"
  shows "window b = window a"
proof -
  have "(\<lambda>(k, b, w). window b = window a) (r, b, w')"
  proof (rule ofold_inv [OF assms [unfolded icsp_data_retransmit_def]])
    show "(\<lambda>(k, b, w). window b = window a) v" if "(\<lambda>(k, b, w). window b = window a) u" "retransmit_one N tmo x u = Some v" for x u v
      using that by (auto simp: retransmit_one_def Let_def split: prod.splits if_splits option.splits)
  qed simp
  then show ?thesis by simp
qed

lemma window_life:
  assumes "icsp_life_handle a payload plen = (r, b)"
  shows "window b = window a"
proof -
  have "case chunk_walk life_step (drop 12 payload) (plen - 12) a of Inl s \<Rightarrow> window s = window a | Inr s \<Rightarrow> window s = window a"
    by (rule chunk_walk_inv) (auto simp: life_step_def split: if_splits)
  then show ?thesis using assms by (auto simp: icsp_life_handle_def split: if_splits sum.splits)
qed

lemma window_announce: "icsp_announce_send N a w = (r, b, w') \<Longrightarrow> window b = window a"
  by (auto simp: icsp_announce_send_def Let_def split: prod.splits if_splits)

lemma window_rekey_start: "icsp_rekey_start N a w = (r, b, w') \<Longrightarrow> window b = window a"
  by (auto simp: icsp_rekey_start_def init_build_def Let_def split: prod.splits if_splits)

lemma window_init_check: "init_check N a frame plen peers w = (r, b, w') \<Longrightarrow> window b = window a"
  unfolding init_check_def Let_def by (auto split: if_splits prod.splits bool.splits option.splits simp: window_def)

lemma window_init_ack: "init_ack_send N a sk w = (r, b, w') \<Longrightarrow> window b = window a"
  by (drule init_ack_send_eq) (simp add: answered_def)

section \<open>One step and the window\<close>

text \<open>What a step does to the window: it blocks what it blocked, or a rekey is completed and the
  window is empty.\<close>

definition window_step :: "icsp_assoc \<Rightarrow> icsp_assoc \<Rightarrow> bool" where
  "window_step a b \<longleftrightarrow> (if rekeyed a b then window b = (0, 0) else \<forall>t. blocked a t \<longrightarrow> blocked b t)"

lemma window_step_same: "window b = window a \<Longrightarrow> \<not> rekeyed a b \<Longrightarrow> window_step a b"
  by (simp add: window_step_def blocked_def)

lemma not_rekeyed [simp]:
  "a_state b = a_state a \<Longrightarrow> \<not> rekeyed a b" "a_state b \<noteq> ST_ESTABLISHED \<Longrightarrow> \<not> rekeyed a b"
  by (auto simp: rekeyed_def)

lemma persona_state: "persona b = persona a \<Longrightarrow> a_state b = a_state a"
  by (simp add: persona_def)

lemma reset_window: "data_plane_reset a w = (b, w') \<Longrightarrow> window b = (0, 0)"
  by (auto simp: data_plane_reset_def Let_def case_prod_beta window_def)

lemma window_init_both:
  "init_check N a frame plen peers w = (r, b, v) \<Longrightarrow> init_ack_send N b sk v = (r', c, v') \<Longrightarrow> window c = window a"
  using window_init_check window_init_ack by metis

text \<open>The rekey steps: the window is kept unless the answer is 1, and the state becomes
  \<^verbatim>\<open>ESTABLISHED\<close> only with that answer.\<close>

lemma client_step_window:
  assumes "icsp_rekey_client_step N a payload w = (r, b, w')"
  shows "r = 1 \<and> window b = (0, 0) \<and> rekeyed a b \<or> r \<in> {-1, 0} \<and> window b = window a \<and> \<not> rekeyed a b"
  using assms
  by (auto simp: icsp_rekey_client_step_def Let_def rekeyed_def split: if_splits prod.splits dest: reset_window)

lemma server_step_window:
  assumes "icsp_rekey_server_step N a frame plen w = (r, b, w')"
  shows "r = 1 \<and> window b = (0, 0) \<and> rekeyed a b \<or> r \<in> {-1, 0} \<and> window b = window a \<and> \<not> rekeyed a b"
proof -
  have est: "\<not> rekeyed a c" if "a_state a = ST_ESTABLISHED" for c using that by (simp add: rekeyed_def)
  show ?thesis
    using assms
    by (auto simp: icsp_rekey_server_step_def Let_def est rekeyed_def split: if_splits prod.splits
        dest: reset_window window_init_check window_init_both)
qed

lemma dispatch_window:
  assumes "rekey_dispatch N a frame plen w = (k, b, w')"
  shows "k = Some 0 \<and> window b = (0, 0) \<and> rekeyed a b \<or> k \<noteq> Some 0 \<and> window b = window a \<and> \<not> rekeyed a b"
proof -
  have client: ?thesis
    if st: "a_state a = ST_REKEY_WAIT_ACK \<or> a_state a = ST_REKEY_WAIT_COOKIE_ACK"
  proof -
    obtain r c v where c: "icsp_rekey_client_step N a (drop 46 frame) w = (r, c, v)"
      by (cases "icsp_rekey_client_step N a (drop 46 frame) w")
    have "r = 0 \<Longrightarrow> a_state c \<noteq> ST_ESTABLISHED \<and> a_state c \<noteq> ST_REKEY_WAIT_COOKIE"
      using c st by (auto simp: icsp_rekey_client_step_def Let_def split: if_splits prod.splits)
    then show ?thesis
      using client_step_window [OF c] assms st c by (auto simp: rekey_dispatch_def split: if_splits)
  qed
  show ?thesis
  proof (cases "a_state a = ST_REKEY_WAIT_ACK \<or> a_state a = ST_REKEY_WAIT_COOKIE_ACK")
    case False
    then show ?thesis
      using assms server_step_window [of N a frame plen w]
      by (cases "icsp_rekey_server_step N a frame plen w") (auto simp: rekey_dispatch_def split: if_splits)
  qed (rule client)
qed

lemma window_met:
  "window_step (a\<lparr>a_peer_mac := m, a_has_peer_mac := True, a_last_rx := t\<rparr>) b \<longleftrightarrow> window_step a b"
  by (simp add: window_step_def rekeyed_def blocked_def)

lemma chunks_cases:
  assumes "handle_chunks N cb a payload plen w u = Some (r, b, w', u')"
    and "icsp_data_handle N a payload plen 1400 w = Some (m, c, d)"
  shows "b = c \<or> (\<exists>c' l v x. icsp_life_handle c' payload plen = (l, b) \<and>
    (c' = c \<or> (\<exists>f sid msg. cb = Some f \<and> f c sid msg w u = Some (c', v, x))))"
  using assms by (auto simp: handle_chunks_def Let_def split: if_splits option.splits prod.splits)

lemma chunks_window:
  assumes h: "handle_chunks N cb a payload plen w u = Some (r, b, w', u')" and cb: "only_sends N cb"
  shows "a_state b = a_state a" "\<forall>t. blocked a t \<longrightarrow> blocked b t"
proof -
  obtain m c d where d: "icsp_data_handle N a payload plen 1400 w = Some (m, c, d)"
    using h by (cases "icsp_data_handle N a payload plen 1400 w") (auto simp: handle_chunks_def)
  have c: "a_state c = a_state a" "blocked a t \<Longrightarrow> blocked c t" for t
    using persona_state [OF data_handle_persona [OF d]] blocked_handle [OF _ d] by auto
  have s: "a_state (fst y) = a_state (fst x) \<and> window (fst y) = window (fst x)" if "sends N x y" for x y
    using that window_sends [OF that] persona_state [OF persona_sends [OF that]] by simp
  obtain c' where c': "a_state c' = a_state c" "window c' = window c" and out: "b = c' \<or> (\<exists>l. icsp_life_handle c' payload plen = (l, b))"
  proof -
    consider "b = c" | c' l v x where "icsp_life_handle c' payload plen = (l, b)"
      "c' = c \<or> (\<exists>f sid msg. cb = Some f \<and> f c sid msg w u = Some (c', v, x))"
      using chunks_cases [OF h d] by blast
    then show ?thesis
    proof cases
      case (2 c' l v x)
      then have "c' = c \<or> sends N (c, w) (c', v)" using cb unfolding only_sends_def by blast
      then have "a_state c' = a_state c \<and> window c' = window c" using s [of "(c, w)" "(c', v)"] by auto
      with 2 that show ?thesis by blast
    qed (use that in blast)
  qed
  have "a_state b = a_state c'" "window b = window c'"
    using out persona_state window_life life_handle_self unfolding same_self_def by metis+
  then show "a_state b = a_state a" "\<forall>t. blocked a t \<longrightarrow> blocked b t"
    using c' c by (simp_all add: blocked_def)
qed

lemma frame_window:
  assumes "icsp_handle_frame N cb a f n w u = Some (r, b, w', u')" "only_sends N cb"
  shows "window_step a b"
proof -
  let ?a = "a\<lparr>a_peer_mac := slice 6 6 f, a_has_peer_mac := True, a_last_rx := w_time w\<rparr>"
  let ?w = "if 12 + 4 \<le> n - 46 \<and> bget (drop 46 f) 12 = ICSP_CHUNK_HEARTBEAT then snd (icsp_heartbeat_ack ?a w) else w"
  obtain k c v where d: "rekey_dispatch N ?a f (n - 46) ?w = (k, c, v)" by (cases "rekey_dispatch N ?a f (n - 46) ?w")
  note disp = dispatch_window [OF d]
  have ret: "window_step ?a c" using disp by (auto simp: window_step_def blocked_def)
  consider "a = b" | "k = Some r" "c = b" | "k = None" "handle_chunks N cb c (drop 46 f) (n - 46) v u = Some (r, b, w', u')"
    using assms(1) unfolding icsp_handle_frame_def Let_def d
    by (auto split: if_splits option.splits)
  then show ?thesis
  proof cases
    case 3
    have "\<not> rekeyed ?a b" "\<forall>t. blocked ?a t \<longrightarrow> blocked b t"
      using chunks_window [OF 3(2) assms(2)] disp 3(1) by (auto simp: rekeyed_def blocked_def)
    then have "window_step ?a b" by (simp add: window_step_def)
    then show ?thesis by (simp only: window_met)
  qed (use ret window_met in \<open>auto simp: window_step_def\<close>)
qed

lemma rekey_start_window:
  assumes "icsp_rekey_start N a w = (r, b, w')"
  shows "window b = window a" "\<not> rekeyed a b"
proof -
  show "window b = window a" by (rule window_rekey_start [OF assms])
  have "a_state b = a_state a \<or> a_state b = ST_REKEY_WAIT_ACK"
    using assms by (auto simp: icsp_rekey_start_def init_build_def Let_def split: prod.splits if_splits)
  then show "\<not> rekeyed a b" by auto
qed

lemma tick_window:
  assumes "icsp_keepalive_tick N a w = (dead, b, w')"
  shows "window b = window a" "\<not> rekeyed a b"
proof -
  define s where "s = (if 0 < a_hb_interval_s a \<and> a_hb_interval_s a \<le> w_time w - a_last_hb a
    then (a\<lparr>a_last_hb := w_time w\<rparr>, snd (icsp_heartbeat_send a w)) else (a, w))"
  define t where "t = (if a_tunnel (fst s) \<and> 0 < a_announce_s (fst s) \<and> a_announce_s (fst s) \<le> w_time w - a_last_ann (fst s)
    then snd (icsp_announce_send N (fst s) (snd s)) else (fst s, snd s))"
  define z where "z = (if 0 < a_rekey_interval_s (fst t) \<and> a_is_initiator (fst t) \<and> a_state (fst t) = ST_ESTABLISHED \<and>
    a_rekey_interval_s (fst t) \<le> w_time w - a_key_ts (fst t) then snd (icsp_rekey_start N (fst t) (snd t)) else t)"
  have s: "window (fst s) = window a" "a_state (fst s) = a_state a" by (simp_all add: s_def)
  have t: "window (fst t) = window a" "a_state (fst t) = a_state a"
    using s window_announce [of N "fst s" "snd s"] announce_self [of N "fst s" "snd s"]
    by (cases "icsp_announce_send N (fst s) (snd s)"; simp add: t_def same_self_def persona_def)+
  have z: "window (fst z) = window (fst t)" "\<not> rekeyed (fst t) (fst z)"
    using rekey_start_window [of N "fst t" "snd t"]
    by (cases "icsp_rekey_start N (fst t) (snd t)"; simp add: z_def)+
  have "b = a \<or> b = fst z"
    using assms unfolding icsp_keepalive_tick_def Let_def case_prod_beta s_def [symmetric] t_def [symmetric] z_def
    by (auto split: if_splits)
  then show "window b = window a" "\<not> rekeyed a b" using z t by (auto simp: rekeyed_def)
qed

lemma assoc_step_window:
  assumes "assoc_step N cb (a, w, u) (b, w', u')" "only_sends N cb"
  shows "window_step a b"
  using assms(1)
proof (cases rule: assoc_step.cases)
  case (Any_Frame f n r)
  show ?thesis by (rule frame_window [OF Any_Frame(1) assms(2)])
next
  case (Any_Payload p n outcap r m)
  have "a_state b = a_state a" by (rule persona_state [OF data_handle_persona [OF Any_Payload(3)]])
  then show ?thesis using blocked_handle [OF _ Any_Payload(3)] by (simp add: window_step_def)
next
  case (Any_Tick dead)
  then show ?thesis using tick_window window_step_same by blast
next
  case (Any_Send sid d r)
  have "window b = window a" by (rule window_send) (rule Any_Send)
  moreover have "same_self a b" by (rule data_send_self) (rule Any_Send)
  ultimately show ?thesis by (intro window_step_same) (simp_all add: same_self_def persona_def)
next
  case (Any_Resend tmo r)
  have "window b = window a" by (rule window_retransmit) (rule Any_Resend)
  moreover have "same_self a b" by (rule retransmit_self) (rule Any_Resend)
  ultimately show ?thesis by (intro window_step_same) (simp_all add: same_self_def persona_def)
next
  case (Any_Rekey r)
  then show ?thesis using rekey_start_window window_step_same by blast
next
  case (Any_Close r)
  then show ?thesis
    by (intro window_step_same) (auto simp: icsp_shutdown_send_def Let_def rekeyed_def split: prod.splits if_splits)
next
  case Any_World
  then show ?thesis by (intro window_step_same) simp_all
qed

text \<open>Within one set of keys a blocked TSN stays blocked; the end of a rekey unblocks all of them.\<close>

lemma epoch_blocked:
  assumes "(epoch_step N cb)\<^sup>*\<^sup>* s t" "only_sends N cb" "blocked (fst s) k"
  shows "blocked (fst t) k"
  using assms(1)
proof induction
  case base
  then show ?case using assms(3) .
next
  case (step y z)
  have "window_step (fst y) (fst z)" "\<not> rekeyed (fst y) (fst z)"
    using step(2) assoc_step_window [of N cb "fst y" "fst (snd y)" "snd (snd y)" "fst z" "fst (snd z)" "snd (snd z)"] assms(2)
    by (simp_all add: epoch_step_def)
  then show ?case using step(3) by (simp add: window_step_def)
qed

theorem rekey_opens_window:
  assumes "assoc_step N cb (a, w, u) (b, w', u')" "only_sends N cb" "rekeyed a b"
  shows "window b = (0, 0)" "\<not> blocked b t"
proof -
  show "window b = (0, 0)" using assoc_step_window [OF assms(1,2)] assms(3) by (simp add: window_step_def)
  then show "\<not> blocked b t" 
    by (cases "t = 0") (simp_all add: blocked_def replay_check_def Let_def word_greater_zero_iff)
qed

section \<open>Replays and the forged packet\<close>

text \<open>C8: Once a DATA packet has delivered its message, the same packet arriving again in the session is
  dropped without any effect, whatever came in between: frames of any kind, those that fail and those
  of a rekey included, ticks, sends, retransmissions, a close, a callback that sends. It holds
  until the next rekey completes, which gives both sides new keys and an empty window
  (\<open>rekey_opens_window\<close>).\<close>

theorem replayed_packet_dropped:
  assumes p: "icsp_build_pkt g (icsp_chunk_put ICSP_CHUNK_DATA n @ d) ICSP_MAX_PAYLOAD = Some p"
    and d: "length d = n" "8 \<le> n"
    and first: "icsp_data_handle N a (p @ junk) (length p) outcap w = Some (k, b, Some m)"
    and between: "(epoch_step N cb)\<^sup>*\<^sup>* (b, v, u) (c, v', u')" "only_sends N cb"
  shows "icsp_data_handle N c (p @ junk') (length p) outcap' w' = Some (0, c, None)"
proof -
  have n: "n < 65536" and len: "\<not> length p < 12" using p d by (auto simp: build_pkt_Some)
  let ?t = "ipv69_get_be32 d"
  have t: "ipv69_get_be32 (d @ j) = ?t" for j using d by (simp add: get_be32_prefix)
  have step: "data_step N w outcap ICSP_CHUNK_DATA (d @ junk) n a = Inr (D_Ret k b (Some m))"
    using first len single_walk [OF p d(1) n, of "data_step N w outcap" junk a]
    by (auto simp: icsp_data_handle_def split: sum.splits data_ret.splits)
  then have "data_chunk_in N w outcap (d @ junk) n a = Inr (D_Ret k b (Some m))"
    by (auto simp: data_step_def split: if_splits)
  then have win: "window b = snd (replay_check (window a) ?t)"
    and acc: "fst (replay_check (window a) ?t)"
    using data_chunk_in_window [where N = N and w = w and outcap = outcap and cd = "d @ junk" and clen = n and a = a]
    by (auto simp: t data_chunk_in_def Let_def window_def split: prod.splits bool.splits)
  have "blocked b ?t"
    using rw.accept_blocks [of "window a" ?t "window b"] win acc
    by (metis blocked_def prod.collapse)
  then have "blocked c ?t" using epoch_blocked [OF between] by simp
  then have "data_step N w' outcap' ICSP_CHUNK_DATA (d @ junk') n c = Inl c"
    by (intro data_step_blocked) (simp add: t)
  then show ?thesis
    using len single_walk [OF p d(1) n, of "data_step N w' outcap'" junk' c]
    by (simp add: icsp_data_handle_def)
qed

text \<open>A delivered packet, and the same packet twice more, with a close in between.\<close>

theorem replayed_packet_dropped_witness:
  "\<exists>p w b c v. icsp_data_handle toy_nacl (assoc0\<lparr>a_has_key := True\<rparr>) (p @ []) (length p) 1400 w =
      Some (2, b, Some ([1, 2], 3)) \<and>
      (epoch_step toy_nacl None)\<^sup>*\<^sup>* (b, w, ()) (c, v, ()) \<and> c = fst (snd (icsp_shutdown_send b w)) \<and>
      icsp_data_handle toy_nacl c (p @ [5]) (length p) 1400 w = Some (0, c, None)"
proof -
  have room: "3 \<in> set (stream_ids (assoc0\<lparr>a_has_key := True, a_next_tsn := 1\<rparr>)) \<or>
      length (stream_ids (assoc0\<lparr>a_has_key := True, a_next_tsn := 1\<rparr>)) < 8"
    by (simp add: stream_ids_def assoc0_def)
  obtain w' f r' g d where
    h: "icsp_data_handle toy_nacl (assoc0\<lparr>a_has_key := True\<rparr>)
      (drop 46 (sent_frame f) @ []) (length (drop 46 (sent_frame f))) 1400 w' =
        Some (int (length [1, 2 :: u8]), r', Some ([1, 2], 3))" and
    p: "icsp_build_pkt g (icsp_chunk_put ICSP_CHUNK_DATA (48 + length [1, 2 :: u8]) @ d) ICSP_MAX_PAYLOAD =
        Some (drop 46 (sent_frame f))" and
    d: "length d = 48 + length [1, 2 :: u8]"
    by (rule linked_step [OF linked_fresh, of "[1, 2]" world0 3 toy_nacl "[]"])
      (use room in \<open>auto simp: world0_def assoc0_def\<close>)
  define pk where "pk = drop 46 (sent_frame f)"
  have quiet: "only_sends toy_nacl (None :: unit data_cb option)" by (simp add: only_sends_def)
  note drop = replayed_packet_dropped [OF p d _ h _ quiet]
  have again: "icsp_data_handle toy_nacl r' (pk @ []) (length pk) 100 w' = Some (0, r', None)"
    unfolding pk_def by (rule drop [where u = "()"]) (simp, rule rtranclp.rtrancl_refl)
  then have "assoc_step toy_nacl None (r', w', ()) (r', w', ())" by (rule Any_Payload)
  then have one: "epoch_step toy_nacl None (r', w', ()) (r', w', ())" by (simp add: epoch_step_def)
  obtain k c v where c: "icsp_shutdown_send r' w' = (k, c, v)" by (cases "icsp_shutdown_send r' w'")
  have "assoc_step toy_nacl None (r', w', ()) (c, v, ())" by (rule Any_Close [OF c])
  moreover have "\<not> rekeyed r' c"
    using c by (auto simp: icsp_shutdown_send_def Let_def rekeyed_def split: prod.splits if_splits)
  ultimately have "epoch_step toy_nacl None (r', w', ()) (c, v, ())" by (simp add: epoch_step_def)
  with one have run: "(epoch_step toy_nacl None)\<^sup>*\<^sup>* (r', w', ()) (c, v, ())" by auto
  have "icsp_data_handle toy_nacl c (pk @ [5]) (length pk) 1400 w' = Some (0, c, None)"
    unfolding pk_def by (rule drop [OF _ run]) simp
  then show ?thesis using h run c unfolding pk_def [symmetric] by fastforce
qed

text \<open>C37: One packet that anybody can build, with no key and no box in it, shuts the receive
  window: it carries the highest TSN, the window moves before anything is authenticated, and
  every genuine packet more than 31 below that TSN is dropped, whatever else happens, until the
  next rekey completes (only that empties the window: \<open>rekey_opens_window\<close>).\<close>

theorem forged_tsn_shuts_window:
  assumes key: "a_has_key a" and new: "unat (a_rw_tsn a) < 2 ^ 32 - 1"
    and forged: "icsp_build_pkt g (icsp_chunk_put ICSP_CHUNK_DATA 8 @ ipv69_put_be32 0xFFFFFFFF @ rest) ICSP_MAX_PAYLOAD = Some f"
      "length rest = 4"
    and genuine: "icsp_build_pkt h (icsp_chunk_put ICSP_CHUNK_DATA n @ ipv69_put_be32 t @ d) ICSP_MAX_PAYLOAD = Some p"
      "n = 4 + length d" "unat t + 32 < 2 ^ 32"
    and cb: "only_sends N cb"
  shows "\<exists>b. icsp_data_handle N a (f @ junk) (length f) outcap w = Some (0, b, None) \<and>
    (\<forall>v u c v' u'. (epoch_step N cb)\<^sup>*\<^sup>* (b, v, u) (c, v', u') \<longrightarrow>
      icsp_data_handle N c (p @ junk') (length p) outcap' w' = Some (0, c, None))"
proof -
  let ?cd = "(ipv69_put_be32 0xFFFFFFFF @ rest) @ junk"
  have lt: "a_rw_tsn a < 0xFFFFFFFF" using new by (simp add: word_less_nat_alt)
  obtain k where win: "replay_check (a_rw_tsn a, a_rw_mask a) (0xFFFFFFFF :: u32) = (True, (0xFFFFFFFF, k))"
    using replay_fresh [OF lt] by blast
  define b where "b = a\<lparr>a_rw_tsn := 0xFFFFFFFF, a_rw_mask := k\<rparr>"
  have t: "ipv69_get_be32 ?cd = 0xFFFFFFFF" by (simp add: codec_simps)
  have "data_chunk_in N w outcap ?cd 8 a = Inl b"
    using data_chunk_in_eq [of a ?cd True "0xFFFFFFFF" k b N w outcap 8] win
    by (simp add: codec_simps b_def size_sub_ge)
  then have step: "data_step N w outcap ICSP_CHUNK_DATA ?cd 8 a = Inl b" using key by (simp add: data_step_def)
  have f: "\<not> length f < 12" using forged by (auto simp: build_pkt_Some)
  have res: "icsp_data_handle N a (f @ junk) (length f) outcap w = Some (0, b, None)"
    using single_walk [OF forged(1), of "data_step N w outcap" junk a] step forged(2) f
    by (simp add: icsp_data_handle_def)
  have "unat t + 32 \<le> unat (0xFFFFFFFF :: u32)" using genuine(3) by simp
  then have bl: "blocked b t" using replay_no_wrap by (simp add: blocked_def window_def b_def)
  have "icsp_data_handle N c (p @ junk') (length p) outcap' w' = Some (0, c, None)"
    if "(epoch_step N cb)\<^sup>*\<^sup>* (b, v, u) (c, v', u')" for v u c v' u'
  proof -
    have "blocked c t" using epoch_blocked [OF that cb] bl by simp
    then have "data_step N w' outcap' ICSP_CHUNK_DATA ((ipv69_put_be32 t @ d) @ junk') n c = Inl c"
      by (intro data_step_blocked) (simp add: codec_simps)
    moreover have "n < 65536" "\<not> length p < 12" using genuine by (auto simp: build_pkt_Some)
    ultimately show ?thesis
      using single_walk [OF genuine(1), of "data_step N w' outcap'" junk' c] genuine(2)
      by (simp add: icsp_data_handle_def)
  qed
  with res show ?thesis by blast
qed

theorem forged_tsn_shuts_window_witness:
  "\<exists>f p b c. icsp_build_pkt assoc0 (icsp_chunk_put ICSP_CHUNK_DATA 8 @ ipv69_put_be32 0xFFFFFFFF @ [0, 0, 0, 0]) ICSP_MAX_PAYLOAD = Some f \<and>
     icsp_build_pkt assoc0 (icsp_chunk_put ICSP_CHUNK_DATA 52 @ ipv69_put_be32 5 @ zeros 48) ICSP_MAX_PAYLOAD = Some p \<and>
     icsp_data_handle toy_nacl (assoc0\<lparr>a_has_key := True\<rparr>) (f @ []) (length f) 1400 world0 = Some (0, b, None) \<and>
     c = fst (snd (icsp_rekey_start toy_nacl b world0)) \<and>
     icsp_data_handle toy_nacl c (p @ []) (length p) 1400 world0 = Some (0, c, None)"
proof -
  obtain f where f: "icsp_build_pkt assoc0 (icsp_chunk_put ICSP_CHUNK_DATA 8 @ ipv69_put_be32 0xFFFFFFFF @ [0, 0, 0, 0]) ICSP_MAX_PAYLOAD = Some f"
    by (simp add: icsp_build_pkt_def Let_def)
  obtain p where p: "icsp_build_pkt assoc0 (icsp_chunk_put ICSP_CHUNK_DATA 52 @ ipv69_put_be32 5 @ zeros 48) ICSP_MAX_PAYLOAD = Some p"
    by (simp add: icsp_build_pkt_def Let_def)
  have quiet: "only_sends toy_nacl (None :: unit data_cb option)" by (simp add: only_sends_def)
  obtain b where b: "icsp_data_handle toy_nacl (assoc0\<lparr>a_has_key := True\<rparr>) (f @ []) (length f) 1400 world0 = Some (0, b, None)"
    and later: "(epoch_step toy_nacl None)\<^sup>*\<^sup>* (b, v, ()) (c, v', ()) \<Longrightarrow>
      icsp_data_handle toy_nacl c (p @ []) (length p) 1400 world0 = Some (0, c, None)" for v c v'
    using forged_tsn_shuts_window [OF _ _ f _ p _ _ quiet, of "assoc0\<lparr>a_has_key := True\<rparr>" "[]" 1400 world0 "[]" 1400 world0]
    by (fastforce simp: assoc0_def)
  obtain r c v where c: "icsp_rekey_start toy_nacl b world0 = (r, c, v)" by (cases "icsp_rekey_start toy_nacl b world0")
  have "epoch_step toy_nacl None (b, world0, ()) (c, v, ())"
    using Any_Rekey [OF c] rekey_start_window(2) [OF c] by (simp add: epoch_step_def)
  then have "icsp_data_handle toy_nacl c (p @ []) (length p) 1400 world0 = Some (0, c, None)"
    by (intro later) (rule r_into_rtranclp)
  with f p b c show ?thesis by (metis fst_conv snd_conv)
qed

end
