(* ===== verification/Files.thy ===== *)
theory Files
  imports Env
begin

text \<open>
  Text files and C strings, as the peer lists, the gateway list and the key files use them:
  \<^verbatim>\<open>fgets\<close> with its buffer size, strings that end at the first 0, appending.
\<close>

definition c_string :: "string \<Rightarrow> string" where
  "c_string s = takeWhile (\<lambda>c. c \<noteq> CHR 0x00) s"

abbreviation (input) NL :: char where "NL \<equiv> CHR 0x0A"

fun line_len :: "nat \<Rightarrow> string \<Rightarrow> nat" where
  "line_len 0 s = 0"
| "line_len (Suc n) [] = 0"
| "line_len (Suc n) (c # s) = (if c = NL then 1 else Suc (line_len n s))"

text \<open>\<^verbatim>\<open>fgets(buf, cap, f)\<close>: at most \<open>cap - 1\<close> characters, up to and with the first newline.\<close>

definition fgets :: "nat \<Rightarrow> string \<Rightarrow> (string \<times> string) option" where
  "fgets cap s =
     (if s = [] \<or> cap \<le> 1 then None
      else let k = line_len (cap - 1) s in Some (take k s, drop k s))"

lemma line_len_pos: "0 < n \<Longrightarrow> s \<noteq> [] \<Longrightarrow> 0 < line_len n s"
  by (cases n; cases s) auto

lemma line_len_le: "line_len n s \<le> length s" "line_len n s \<le> n"
  by (induction n s rule: line_len.induct) auto

text \<open>All the pieces a loop over \<^verbatim>\<open>fgets\<close> sees.\<close>

function fgets_all :: "nat \<Rightarrow> string \<Rightarrow> string list" where
  "fgets_all cap s = (case fgets cap s of None \<Rightarrow> [] | Some (l, r) \<Rightarrow> l # fgets_all cap r)"
  by pat_completeness auto
termination
  by (relation "measure (\<lambda>(cap, s). length s)")
    (auto simp: fgets_def Let_def line_len_pos split: if_splits)

declare fgets_all.simps [simp del]

lemma fgets_all_concat: "1 < cap \<Longrightarrow> concat (fgets_all cap s) = s"
proof (induction cap s rule: fgets_all.induct)
  case (1 cap s)
  show ?case
    by (subst fgets_all.simps) (use 1 in \<open>auto simp: fgets_def Let_def split: option.splits\<close>)
qed

text \<open>A line that fits is one piece.\<close>

lemma fgets_line:
  assumes "NL \<notin> set l" "length l + 1 < cap"
  shows "fgets cap (l @ [NL] @ r) = Some (l @ [NL], r)"
proof -
  have "length l < n \<Longrightarrow> line_len n (l @ [NL] @ r) = length l + 1" for n
    using assms(1)
  proof (induction l arbitrary: n)
    case Nil
    then show ?case by (cases n) auto
  next
    case (Cons c l)
    then show ?case by (cases n) auto
  qed
  then have "line_len (cap - 1) (l @ [NL] @ r) = length l + 1" using assms(2) by simp
  then show ?thesis using assms(2) by (simp add: fgets_def Let_def)
qed

lemma fgets_all_line:
  assumes "NL \<notin> set l" "length l + 1 < cap"
  shows "fgets_all cap (l @ [NL] @ r) = (l @ [NL]) # fgets_all cap r"
  using fgets_line [OF assms, of r] by (subst fgets_all.simps) simp

definition file_append :: "string \<Rightarrow> string \<Rightarrow> world \<Rightarrow> world" where
  "file_append path s w =
     (if w_denied w path then w
      else w\<lparr>w_files := (w_files w)(path := Some ((case w_files w path of None \<Rightarrow> '''' | Some t \<Rightarrow> t) @ s))\<rparr>)"

end
