(* ===== verification/Pppoe_Ac.thy ===== *)
theory Pppoe_Ac
  imports Addr Recv Files
begin

text \<open>
  The access concentrator of \<^verbatim>\<open>c/src/IPv69/pppoe69.c\<close>: its peer list, its table of 64
  sessions, discovery (PADI, PADR, PADT), the frames bridged between the sessions and the
  segment, the idle timer and the main loop. A pointer into the session table is an index.
  A received frame is the list of its bytes. \<open>None\<close> as a result is a write past the end of
  a stack buffer.
\<close>

abbreviation (input) MAX_SESSIONS :: nat where "MAX_SESSIONS \<equiv> 64"
abbreviation (input) MAX_PEERS :: nat where "MAX_PEERS \<equiv> 64"
abbreviation (input) SESSION_IDLE :: int where "SESSION_IDLE \<equiv> 300"
abbreviation (input) PUB_LEN :: nat where "PUB_LEN \<equiv> 32"
abbreviation (input) SIG_LEN :: nat where "SIG_LEN \<equiv> 64"

definition sign_append :: "nacl \<Rightarrow> bytes \<Rightarrow> bytes \<Rightarrow> bytes" where
  "sign_append N msg sk = msg @ slice 32 32 sk @ ed25519_sign N msg sk"

record pppoe_session =
  se_sid :: u16
  se_used :: bool
  se_cmac :: bytes
  se_wmac :: bytes
  se_addr :: u64
  se_last :: int

definition session0 :: pppoe_session where
  "session0 = \<lparr>se_sid = 0, se_used = False, se_cmac = zeros 6, se_wmac = zeros 6, se_addr = 0, se_last = 0\<rparr>"

record ac_ctx =
  ac_mac :: bytes
  ac_addr :: u64
  ac_cls :: char
  ac_sk :: bytes
  ac_peers :: "bytes list"
  ac_auth_enabled :: bool
  ac_learn :: bool
  ac_peer_file :: "string option"
  ac_sess :: "pppoe_session list"

definition ac_ctx0 :: ac_ctx where
  "ac_ctx0 = \<lparr>ac_mac = zeros 6, ac_addr = 0, ac_cls = CHR ''A'', ac_sk = zeros 64, ac_peers = [],
     ac_auth_enabled = False, ac_learn = False, ac_peer_file = None, ac_sess = replicate MAX_SESSIONS session0\<rparr>"

section \<open>The allowlist\<close>

text \<open>One line of the peer file (96-byte buffer): blanks are skipped, comments and empty lines
  ignored.\<close>

definition peer_line :: "nacl \<Rightarrow> string \<Rightarrow> bytes option" where
  "peer_line N line =
     (let p = dropWhile (\<lambda>c. c = CHR '' '' \<or> c = CHR 0x09) (c_string line)
      in if p = [] \<or> hd p = CHR ''#'' \<or> hd p = NL then None
         else map_option fst (ipv69_addr_parse_peer N (takeWhile (\<lambda>c. c \<noteq> NL) p)))"

fun peer_lines :: "nacl \<Rightarrow> string list \<Rightarrow> bytes list \<Rightarrow> bytes list" where
  "peer_lines N [] ps = ps"
| "peer_lines N (l # ls) ps =
     (if MAX_PEERS \<le> length ps then ps
      else peer_lines N ls (case peer_line N l of None \<Rightarrow> ps | Some pub \<Rightarrow> ps @ [pub]))"

definition peer_file_load :: "nacl \<Rightarrow> ac_ctx \<Rightarrow> string \<Rightarrow> world \<Rightarrow> ac_ctx" where
  "peer_file_load N c path w =
     (case w_files w path of
        None \<Rightarrow> c
      | Some text \<Rightarrow> c\<lparr>ac_peers := peer_lines N (fgets_all 96 text) []\<rparr>)"

definition learn_pub :: "ac_ctx \<Rightarrow> bytes \<Rightarrow> world \<Rightarrow> ac_ctx \<times> world" where
  "learn_pub c pub w =
     (if pub \<in> set (ac_peers c) then (c, w)
      else if MAX_PEERS \<le> length (ac_peers c) then (c, w)
      else (c\<lparr>ac_peers := ac_peers c @ [pub]\<rparr>,
            case ac_peer_file c of None \<Rightarrow> w | Some path \<Rightarrow> file_append path (pub_str pub @ [NL]) w))"

text \<open>\<open>p\<close> is the PADR payload; its identity is at 7, the signature over the first 7 bytes at 39.\<close>

definition check_padr :: "nacl \<Rightarrow> ac_ctx \<Rightarrow> bytes \<Rightarrow> world \<Rightarrow> bool \<times> ac_ctx \<times> world" where
  "check_padr N c p w =
     (let pub = slice 7 32 p; sig = drop 39 p
      in if length p \<noteq> 7 + PUB_LEN + SIG_LEN + MAC1_LEN then (False, c, w)
         else if \<not> ac_auth_enabled c then (True, c, w)
         else if pub \<in> set (ac_peers c) then (ed25519_verify N (slice 0 7 p) sig pub = 0, c, w)
         else if ac_learn c \<and> ed25519_verify N (slice 0 7 p) sig pub = 0
         then (let (c, w) = learn_pub c pub w in (True, c, w))
         else (False, c, w))"

section \<open>The session table\<close>

definition sess_find :: "(pppoe_session \<Rightarrow> bool) \<Rightarrow> ac_ctx \<Rightarrow> nat option" where
  "sess_find P c = find (\<lambda>i. se_used (ac_sess c ! i) \<and> P (ac_sess c ! i)) [0..<MAX_SESSIONS]"

definition sess_by_cmac :: "ac_ctx \<Rightarrow> bytes \<Rightarrow> nat option" where
  "sess_by_cmac c m = sess_find (\<lambda>s. se_cmac s = m) c"

definition sess_by_sid :: "ac_ctx \<Rightarrow> u16 \<Rightarrow> nat option" where
  "sess_by_sid c sid = sess_find (\<lambda>s. se_sid s = sid) c"

definition sess_by_addr :: "ac_ctx \<Rightarrow> u64 \<Rightarrow> nat option" where
  "sess_by_addr c addr = (if addr = 0 then None else sess_find (\<lambda>s. se_addr s = addr) c)"

definition sess_by_wmac :: "ac_ctx \<Rightarrow> bytes \<Rightarrow> nat option" where
  "sess_by_wmac c m = sess_find (\<lambda>s. se_wmac s = m) c"

definition upd_sess :: "nat \<Rightarrow> (pppoe_session \<Rightarrow> pppoe_session) \<Rightarrow> ac_ctx \<Rightarrow> ac_ctx" where
  "upd_sess i f c = c\<lparr>ac_sess := (ac_sess c)[i := f (ac_sess c ! i)]\<rparr>"

text \<open>The first number from \<open>t\<close> that no session uses.\<close>

function sid_scan :: "ac_ctx \<Rightarrow> nat \<Rightarrow> nat option" where
  "sid_scan c t =
     (if 0xffff < t then None
      else if sess_by_sid c (of_nat t) \<noteq> None then sid_scan c (t + 1)
      else Some t)"
  by pat_completeness auto
termination
  by (relation "measure (\<lambda>(c, t). 0x10000 - t)") auto

declare sid_scan.simps [simp del]

definition sess_alloc :: "ac_ctx \<Rightarrow> int \<Rightarrow> (nat \<times> ac_ctx) option" where
  "sess_alloc c now =
     (case find (\<lambda>i. \<not> se_used (ac_sess c ! i)) [0..<MAX_SESSIONS] of
        None \<Rightarrow> None
      | Some slot \<Rightarrow>
          (case sid_scan c 1 of
             None \<Rightarrow> None
           | Some t \<Rightarrow> Some (slot, upd_sess slot (\<lambda>s. session0\<lparr>se_used := True, se_sid := of_nat t, se_last := now\<rparr>) c)))"

definition sess_free :: "nat \<Rightarrow> ac_ctx \<Rightarrow> ac_ctx" where
  "sess_free i c = upd_sess i (\<lambda>s. session0) c"

section \<open>Sending\<close>

definition ac_send :: "ac_ctx \<Rightarrow> bytes \<Rightarrow> u8 \<Rightarrow> bytes \<Rightarrow> world \<Rightarrow> int \<times> world" where
  "ac_send c eth_dst nh payload w =
     l2_send eth_dst (build_frame eth_dst (ac_mac c) (ac_addr c) IPV69_BCAST_ADDR nh 64 0 0 payload) w"

text \<open>The inner frame goes behind the session number into a 2048-byte buffer, which with the
  outer headers goes into another 2048-byte buffer: the first is checked, the second is not.\<close>

definition ac_session_send :: "ac_ctx \<Rightarrow> pppoe_session \<Rightarrow> bytes \<Rightarrow> world \<Rightarrow> (int \<times> world) option" where
  "ac_session_send c s inner w =
     (if 2048 - 2 < length inner then Some (-1, w)
      else let frame = build_frame (se_cmac s) (ac_mac c) (ac_addr c) IPV69_BCAST_ADDR IPV69_NEXT_PPPOE 64 0 0
                         (ipv69_put_be16 (se_sid s) @ inner)
           in if 2048 < length frame then None else Some (l2_send (se_cmac s) frame w))"

definition ac_pado :: "nacl \<Rightarrow> ac_ctx \<Rightarrow> bytes \<Rightarrow> world \<Rightarrow> int \<times> world" where
  "ac_pado N c hmac w =
     ac_send c hmac IPV69_NEXT_CONTROL
       (sign_append N ([IPV69_CTRL_PADO] @ hmac @ ac_mac c @ ipv69_addr_put (ac_addr c)) (ac_sk c)) w"

definition ac_pads :: "nacl \<Rightarrow> ac_ctx \<Rightarrow> pppoe_session \<Rightarrow> world \<Rightarrow> int \<times> world" where
  "ac_pads N c s w =
     ac_send c (se_cmac s) IPV69_NEXT_CONTROL
       (sign_append N ([IPV69_CTRL_PADS] @ se_cmac s @ ipv69_put_be16 (se_sid s)) (ac_sk c)) w"

definition ac_padt :: "ac_ctx \<Rightarrow> pppoe_session \<Rightarrow> world \<Rightarrow> int \<times> world" where
  "ac_padt c s w = ac_send c (se_cmac s) IPV69_NEXT_CONTROL ([IPV69_CTRL_PADT] @ ipv69_put_be16 (se_sid s)) w"

definition nd_reply_frame :: "bytes \<Rightarrow> bytes \<Rightarrow> u64 \<Rightarrow> bytes" where
  "nd_reply_frame eth_dst owner_mac target =
     build_frame eth_dst owner_mac target IPV69_BCAST_ADDR IPV69_NEXT_CONTROL 64 0 0
       ([IPV69_CTRL_ND_REPLY] @ ipv69_addr_put target @ owner_mac)"

definition ac_nd_reply :: "u64 \<Rightarrow> bytes \<Rightarrow> bytes \<Rightarrow> world \<Rightarrow> world" where
  "ac_nd_reply target owner_mac eth_dst w = snd (l2_send eth_dst (nd_reply_frame eth_dst owner_mac target) w)"

section \<open>Frames from a session\<close>

definition ac_bridge :: "pppoe_session \<Rightarrow> bytes \<Rightarrow> world \<Rightarrow> world" where
  "ac_bridge s inner w =
     (if 2048 < length inner then w
      else let out = blit inner 6 (se_wmac s) in snd (l2_send (slice 0 6 out) out w))"

text \<open>What an inner frame teaches about its session: the wire MAC, the address (from the inner
  source, or from a DHCP69 request or answer).\<close>

definition sess_learn :: "bytes \<Rightarrow> int \<Rightarrow> pppoe_session \<Rightarrow> pppoe_session" where
  "sess_learn inner now s =
     (let h = hdr_at (drop ETH_LEN inner);
          ip = drop (ETH_LEN + IPV69_HEADER_LEN) inner;
          isrc = ipv69_addr_get (source h);
          s = s\<lparr>se_wmac := slice 6 6 inner, se_last := now\<rparr>;
          s = (if isrc \<noteq> 0 then s\<lparr>se_addr := isrc\<rparr> else s)
      in if next_header h = IPV69_NEXT_CONTROL \<and> 12 \<le> length ip \<and>
            (bget ip 0 = IPV69_CTRL_DHCP_REQUEST \<or> bget ip 0 = IPV69_CTRL_DHCP_ACK)
         then s\<lparr>se_addr := ipv69_addr_get (drop 7 ip)\<rparr> else s)"

definition ac_inner_nd :: "ac_ctx \<Rightarrow> nat \<Rightarrow> bytes \<Rightarrow> u64 \<Rightarrow> bool \<Rightarrow> world \<Rightarrow> world option" where
  "ac_inner_nd c i inner target bcast w =
     (let s = ac_sess c ! i;
          owner = (if target = ac_addr c then None else sess_by_addr c target);
          owner = (if owner = Some i then None else owner)
      in case owner of
           Some j \<Rightarrow> map_option snd (ac_session_send c s (nd_reply_frame bcast_mac (se_wmac (ac_sess c ! j)) target) w)
         | None \<Rightarrow>
             if target = ac_addr c then map_option snd (ac_session_send c s (nd_reply_frame bcast_mac (ac_mac c) target) w)
             else if bcast then Some (ac_bridge s inner w) else Some w)"

definition ac_inner :: "ac_ctx \<Rightarrow> nat \<Rightarrow> bytes \<Rightarrow> world \<Rightarrow> (ac_ctx \<times> world) option" where
  "ac_inner c i inner w =
     (if length inner < ETH_LEN + IPV69_HEADER_LEN + 1 then Some (c, w)
      else let h = hdr_at (drop ETH_LEN inner);
               ip = drop (ETH_LEN + IPV69_HEADER_LEN) inner;
               idst = ipv69_addr_get (dest h);
               bcast = (slice 0 6 inner = bcast_mac \<or> idst = IPV69_BCAST_ADDR);
               c = upd_sess i (sess_learn inner (w_time w)) c;
               s = ac_sess c ! i
           in if next_header h = IPV69_NEXT_CONTROL \<and> 6 \<le> length ip \<and> bget ip 0 = IPV69_CTRL_ND_REQUEST \<and>
                 ipv69_addr_get (source h) = 0
              then map_option (Pair c) (ac_inner_nd c i inner (ipv69_addr_get (drop 1 ip)) bcast w)
              else if bcast then Some (c, ac_bridge s inner w)
              else case sess_by_addr c idst of
                     Some j \<Rightarrow>
                       if j \<noteq> i then map_option (\<lambda>(r, w). (c, w)) (ac_session_send c (ac_sess c ! j) inner w)
                       else if idst = ac_addr c then Some (c, w) else Some (c, ac_bridge s inner w)
                   | None \<Rightarrow> if idst = ac_addr c then Some (c, w) else Some (c, ac_bridge s inner w))"

section \<open>Frames from the segment\<close>

text \<open>Session data: the sender's MAC names the session, its number must match.\<close>

definition ac_rx_session :: "ac_ctx \<Rightarrow> bytes \<Rightarrow> world \<Rightarrow> (ac_ctx \<times> world) option" where
  "ac_rx_session c frame w =
     (let p = drop (ETH_LEN + IPV69_HEADER_LEN) frame
      in if slice 0 6 frame \<noteq> ac_mac c \<or> length p < 2 + ETH_LEN + IPV69_HEADER_LEN then Some (c, w)
         else case sess_by_cmac c (slice 6 6 frame) of
                None \<Rightarrow> Some (c, w)
              | Some i \<Rightarrow>
                  if ipv69_get_be16 p \<noteq> se_sid (ac_sess c ! i) then Some (c, w)
                  else ac_inner c i (drop 2 p) w)"

definition ac_rx_padi :: "nacl \<Rightarrow> ac_ctx \<Rightarrow> bytes \<Rightarrow> world \<Rightarrow> world" where
  "ac_rx_padi N c p w =
     (if length p \<noteq> 7 + MAC1_LEN then w
      else if mac1_verify N (mac1_key N IPV69_BCAST_ADDR) (slice 0 7 p) (drop 7 p) \<noteq> 0 then w
      else case rate_allow_g (slice 1 6 p @ [0, 0]) 10 20 1 w of
             (False, w) \<Rightarrow> w
           | (True, w) \<Rightarrow> snd (ac_pado N c (slice 1 6 p) w))"

definition ac_rx_padr :: "nacl \<Rightarrow> ac_ctx \<Rightarrow> bytes \<Rightarrow> world \<Rightarrow> ac_ctx \<times> world" where
  "ac_rx_padr N c p w =
     (if length p \<noteq> 7 + PUB_LEN + SIG_LEN + MAC1_LEN then (c, w)
      else if mac1_verify N (mac1_key N (ac_addr c)) (slice 0 103 p) (drop 103 p) \<noteq> 0 then (c, w)
      else case rate_allow_g (slice 1 6 p @ [0, 0]) 10 20 1 w of
             (False, w) \<Rightarrow> (c, w)
           | (True, w) \<Rightarrow>
               (case check_padr N c p w of
                  (False, c, w) \<Rightarrow> (c, w)
                | (True, c, w) \<Rightarrow>
                    (case sess_by_cmac c (slice 1 6 p) of
                       Some i \<Rightarrow> (c, snd (ac_pads N c (ac_sess c ! i) w))
                     | None \<Rightarrow>
                         (case sess_alloc c (w_time w) of
                            None \<Rightarrow> (c, w)
                          | Some (i, c) \<Rightarrow>
                              let c = upd_sess i (\<lambda>s. s\<lparr>se_cmac := slice 1 6 p\<rparr>) c
                              in (c, snd (ac_pads N c (ac_sess c ! i) w))))))"

definition ac_rx_padt :: "nacl \<Rightarrow> ac_ctx \<Rightarrow> bytes \<Rightarrow> ac_ctx" where
  "ac_rx_padt N c p =
     (if length p \<noteq> 3 + MAC1_LEN then c
      else if mac1_verify N (mac1_key N (ac_addr c)) (slice 0 3 p) (drop 3 p) \<noteq> 0 then c
      else case sess_by_sid c (ipv69_get_be16 (drop 1 p)) of
             None \<Rightarrow> c
           | Some i \<Rightarrow> sess_free i c)"

text \<open>Everything else: neighbour discovery for an address of ours, and the data plane.\<close>

definition ac_rx_island :: "ac_ctx \<Rightarrow> bytes \<Rightarrow> world \<Rightarrow> world option" where
  "ac_rx_island c frame w =
     (let h = hdr_at (drop ETH_LEN frame);
          p = drop (ETH_LEN + IPV69_HEADER_LEN) frame;
          dst = ipv69_addr_get (dest h);
          target = ipv69_addr_get (drop 1 p);
          nd = (next_header h = IPV69_NEXT_CONTROL \<and> 6 \<le> length p \<and> bget p 0 = IPV69_CTRL_ND_REQUEST \<and>
                ipv69_addr_get (source h) = 0 \<and> dst = IPV69_BCAST_ADDR)
      in if nd \<and> target = ac_addr c then Some (ac_nd_reply target (ac_mac c) (slice 6 6 frame) w)
         else if nd \<and> sess_by_addr c target \<noteq> None
         then Some (ac_nd_reply target (se_wmac (ac_sess c ! the (sess_by_addr c target))) (slice 6 6 frame) w)
         else case (if dst \<noteq> IPV69_BCAST_ADDR then sess_by_addr c dst else sess_by_wmac c (slice 0 6 frame)) of
                Some i \<Rightarrow> map_option snd (ac_session_send c (ac_sess c ! i) frame w)
              | None \<Rightarrow> Some w)"

definition ac_rx :: "nacl \<Rightarrow> ac_ctx \<Rightarrow> bytes \<Rightarrow> world \<Rightarrow> (ac_ctx \<times> world) option" where
  "ac_rx N c frame w =
     (let h = hdr_at (drop ETH_LEN frame);
          p = drop (ETH_LEN + IPV69_HEADER_LEN) frame
      in if length frame < ETH_LEN + IPV69_HEADER_LEN + 1 then Some (c, w)
         else if slice 6 6 frame = ac_mac c then Some (c, w)
         else if next_header h = IPV69_NEXT_PPPOE then ac_rx_session c frame w
         else if next_header h = IPV69_NEXT_CONTROL \<and> IPV69_CTRL_PADI \<le> bget p 0 \<and> bget p 0 \<le> IPV69_CTRL_PADT then
           (if bget p 0 = IPV69_CTRL_PADI then Some (c, ac_rx_padi N c p w)
            else if ipv69_addr_get (dest h) \<noteq> ac_addr c \<or> slice 0 6 frame \<noteq> ac_mac c then Some (c, w)
            else if bget p 0 = IPV69_CTRL_PADR then Some (ac_rx_padr N c p w)
            else if bget p 0 = IPV69_CTRL_PADT then Some (ac_rx_padt N c p, w)
            else Some (c, w))
         else map_option (Pair c) (ac_rx_island c frame w))"

section \<open>The main loop\<close>

definition ac_reap_one :: "nat \<Rightarrow> ac_ctx \<times> world \<Rightarrow> ac_ctx \<times> world" where
  "ac_reap_one i st =
     (case st of (c, w) \<Rightarrow>
        if se_used (ac_sess c ! i) \<and> SESSION_IDLE < w_time w - se_last (ac_sess c ! i)
        then (sess_free i c, snd (ac_padt c (ac_sess c ! i) w)) else (c, w))"

definition ac_reap :: "ac_ctx \<Rightarrow> world \<Rightarrow> ac_ctx \<times> world" where
  "ac_reap c w = fold ac_reap_one [0..<MAX_SESSIONS] (c, w)"

text \<open>One turn: the peer file when it changed on disk, the idle sessions, one frame.\<close>

definition ac_turn :: "nacl \<Rightarrow> bool \<Rightarrow> rx_event \<Rightarrow> ac_ctx \<times> world \<Rightarrow> (ac_ctx \<times> world) option" where
  "ac_turn N changed ev st =
     (case st of (c, w) \<Rightarrow>
        let c = (case ac_peer_file c of Some path \<Rightarrow> if changed then peer_file_load N c path w else c | None \<Rightarrow> c);
            (c, w) = ac_reap c w;
            w = at_event ev w
        in case l2_recv [] 2048 1000 ev of
             Rx_Fail _ \<Rightarrow> Some (c, w)
           | Rx_Len n frame \<Rightarrow> if n = 0 then Some (c, w) else ac_rx N c (take n frame) w)"

text \<open>The command line of \<^verbatim>\<open>pppoe ac\<close> from its third word on: \<open>None\<close> is an exit with an error;
  the flag tells whether \<^verbatim>\<open>--key\<close> was given.\<close>

fun ac_args :: "nacl \<Rightarrow> world \<Rightarrow> string list \<Rightarrow> ac_ctx \<times> bool \<Rightarrow> (ac_ctx \<times> bool) option" where
  "ac_args N w [] st = Some st"
| "ac_args N w [a] (c, k) = Some ((if a = ''--learn'' then c\<lparr>ac_learn := True\<rparr> else c), k)"
| "ac_args N w (a # b # r) (c, k) =
     (if a = ''--peer'' then
        (if MAX_PEERS \<le> length (ac_peers c) then None
         else case ipv69_addr_parse_peer N b of
                None \<Rightarrow> None
              | Some (pub, _) \<Rightarrow> ac_args N w r (c\<lparr>ac_peers := ac_peers c @ [pub], ac_auth_enabled := True\<rparr>, k))
      else if a = ''--peer-file'' then
        ac_args N w r (peer_file_load N (c\<lparr>ac_peer_file := Some b, ac_auth_enabled := True\<rparr>) b w, k)
      else if a = ''--learn'' then ac_args N w (b # r) (c\<lparr>ac_learn := True\<rparr>, k)
      else if a = ''--class'' then ac_args N w r (c\<lparr>ac_cls := (case b of [] \<Rightarrow> CHR 0x00 | x # _ \<Rightarrow> x)\<rparr>, k)
      else if a = ''--key'' then
        (case hex_decode b 32 of
           None \<Rightarrow> None
         | Some seed \<Rightarrow>
             if length seed \<noteq> 32 then None
             else ac_args N w r (c\<lparr>ac_sk := seed @ ed25519_seed_to_pub N seed\<rparr>, True))
      else ac_args N w (b # r) (c, k))"

text \<open>The concentrator before its loop: the class is checked, the key is the given or the
  loaded one, the address is derived. The L2 socket supplies the MAC.\<close>

definition ac_setup :: "nacl \<Rightarrow> string list \<Rightarrow> bytes option \<Rightarrow> bytes \<Rightarrow> world \<Rightarrow> ac_ctx option" where
  "ac_setup N args auto_sk mac w =
     (case ac_args N w args (ac_ctx0, False) of
        None \<Rightarrow> None
      | Some (c, k) \<Rightarrow>
          if ac_cls c \<noteq> CHR ''A'' \<and> ac_cls c \<noteq> CHR ''B'' \<and> ac_cls c \<noteq> CHR ''C'' then None
          else case (if k then Some c else map_option (\<lambda>sk. c\<lparr>ac_sk := sk\<rparr>) auto_sk) of
                 None \<Rightarrow> None
               | Some c \<Rightarrow>
                   Some (c\<lparr>ac_addr := ipv69_addr_get (ipv69_addr_derive N (slice 32 32 (ac_sk c)) (ac_cls c)),
                           ac_mac := mac\<rparr>))"

end
