(* ===== verification/Pppoe_Host.thy ===== *)
theory Pppoe_Host
  imports Pppoe_Ac
begin

text \<open>
  The dialing host of \<^verbatim>\<open>c/src/IPv69/pppoe69.c\<close>: waiting for a control message, the checks
  of the concentrator's signature, dialing (PADI, PADO, PADR, PADS) with its retries, closing,
  and the two directions of an open session. Blocking loops consume receive events;
  \<open>Dial_Wait\<close> says that the events ran out while the host was still waiting.
\<close>

record host_ctx =
  ho_mac :: bytes
  ho_ac_mac :: bytes
  ho_ac_addr :: u64
  ho_ac_pub :: bytes
  ho_pin_pub :: "bytes option"
  ho_sid :: u16
  ho_sk :: bytes
  ho_want_ac :: u64

definition host_ctx0 :: host_ctx where
  "host_ctx0 = \<lparr>ho_mac = zeros 6, ho_ac_mac = zeros 6, ho_ac_addr = 0, ho_ac_pub = zeros 32, ho_pin_pub = None,
     ho_sid = 0, ho_sk = zeros 64, ho_want_ac = 0\<rparr>"

section \<open>Control messages\<close>

definition host_send_ctrl :: "host_ctx \<Rightarrow> bytes \<Rightarrow> bool \<Rightarrow> world \<Rightarrow> int \<times> world" where
  "host_send_ctrl h payload to_ac w =
     (let edst = (if to_ac then ho_ac_mac h else bcast_mac);
          daddr = (if to_ac then ho_ac_addr h else IPV69_BCAST_ADDR)
      in l2_send edst (build_frame edst (ho_mac h) 0 daddr IPV69_NEXT_CONTROL 64 0 0 payload) w)"

text \<open>One received frame while waiting for \<open>code\<close>: its payload (cut to the caller's buffer)
  or nothing.\<close>

definition ctrl_match :: "host_ctx \<Rightarrow> u8 \<Rightarrow> bool \<Rightarrow> nat \<Rightarrow> bytes \<Rightarrow> bytes option" where
  "ctrl_match h code mac_match outsz frame =
     (let p = drop (ETH_LEN + IPV69_HEADER_LEN) frame
      in if length frame < ETH_LEN + IPV69_HEADER_LEN + 1 then None
         else if slice 6 6 frame = ho_mac h then None
         else if next_header (hdr_at (drop ETH_LEN frame)) \<noteq> IPV69_NEXT_CONTROL then None
         else if bget p 0 \<noteq> code then None
         else if mac_match \<and> (length p < 7 \<or> slice 1 6 p \<noteq> ho_mac h) then None
         else Some (take outsz p))"

text \<open>The result is the payload, \<open>[]\<close> for the 0 of a timeout; \<open>None\<close> when the events ran out.
  The second component is what is left of the events.\<close>

fun host_wait_ctrl ::
    "host_ctx \<Rightarrow> u8 \<Rightarrow> bool \<Rightarrow> nat \<Rightarrow> int \<Rightarrow> rx_event list \<Rightarrow> world \<Rightarrow> (bytes \<times> rx_event list \<times> world) option" where
  "host_wait_ctrl h code mac_match outsz tmo [] w = None"
| "host_wait_ctrl h code mac_match outsz tmo (ev # evs) w =
     (let w = at_event ev w
      in case l2_recv [] 2048 tmo ev of
           Rx_Fail _ \<Rightarrow> Some ([], evs, w)
         | Rx_Len n frame \<Rightarrow>
             if n = 0 then Some ([], evs, w)
             else case ctrl_match h code mac_match outsz (take n frame) of
                    Some p \<Rightarrow> Some (p, evs, w)
                  | None \<Rightarrow> host_wait_ctrl h code mac_match outsz tmo evs w)"

definition host_check_sig :: "nacl \<Rightarrow> host_ctx \<Rightarrow> bytes \<Rightarrow> nat \<Rightarrow> nat \<Rightarrow> bool" where
  "host_check_sig N h p body poff =
     (let pub = slice poff 32 p; sig = drop (poff + 32) p
      in (case ho_pin_pub h of Some pin \<Rightarrow> pub = pin | None \<Rightarrow> True) \<and>
         ed25519_verify N (slice 0 body p) sig pub = 0)"

definition host_padt :: "nacl \<Rightarrow> host_ctx \<Rightarrow> world \<Rightarrow> int \<times> world" where
  "host_padt N h w =
     (let p = [IPV69_CTRL_PADT] @ ipv69_put_be16 (ho_sid h)
      in host_send_ctrl h (p @ mac1_compute N (mac1_key N (ho_ac_addr h)) p) True w)"

section \<open>Dialing\<close>

datatype dial_result = Dial_Ret int host_ctx world | Dial_Wait host_ctx world

definition padi_msg :: "nacl \<Rightarrow> host_ctx \<Rightarrow> bytes" where
  "padi_msg N h = (let p = [IPV69_CTRL_PADI] @ ho_mac h in p @ mac1_compute N (mac1_key N IPV69_BCAST_ADDR) p)"

definition padr_msg :: "nacl \<Rightarrow> host_ctx \<Rightarrow> bytes" where
  "padr_msg N h =
     (let p = [IPV69_CTRL_PADR] @ ho_mac h;
          m = p @ slice 32 32 (ho_sk h) @ ed25519_sign N p (ho_sk h)
      in m @ mac1_compute N (mac1_key N (ho_ac_addr h)) m)"

definition pado_accept :: "nacl \<Rightarrow> host_ctx \<Rightarrow> bytes \<Rightarrow> host_ctx option" where
  "pado_accept N h p =
     (if length p \<noteq> 18 + PUB_LEN + SIG_LEN then None
      else if ho_want_ac h \<noteq> 0 \<and> ipv69_addr_get (drop 13 p) \<noteq> ho_want_ac h then None
      else if \<not> host_check_sig N h p 18 18 then None
      else Some (h\<lparr>ho_ac_mac := slice 7 6 p, ho_ac_addr := ipv69_addr_get (drop 13 p), ho_ac_pub := slice 18 32 p\<rparr>))"

text \<open>Waiting for a PADO after one PADI: the concentrator, a timeout, or the events ran out.\<close>

datatype pado_result = Pado_Got host_ctx "rx_event list" world | Pado_Timeout "rx_event list" world | Pado_Wait world

fun wait_pado :: "nacl \<Rightarrow> host_ctx \<Rightarrow> rx_event list \<Rightarrow> world \<Rightarrow> pado_result" where
  "wait_pado N h [] w = Pado_Wait w"
| "wait_pado N h (ev # evs) w =
     (let w = at_event ev w
      in case l2_recv [] 2048 1500 ev of
           Rx_Fail _ \<Rightarrow> Pado_Timeout evs w
         | Rx_Len n frame \<Rightarrow>
             if n = 0 then Pado_Timeout evs w
             else case ctrl_match h IPV69_CTRL_PADO True 256 (take n frame) of
                    None \<Rightarrow> wait_pado N h evs w
                  | Some p \<Rightarrow>
                      (case pado_accept N h p of
                         Some h' \<Rightarrow> Pado_Got h' evs w
                       | None \<Rightarrow> wait_pado N h evs w))"

text \<open>At most three PADIs, at most three waits for PADS.\<close>

fun dial_padi :: "nacl \<Rightarrow> nat \<Rightarrow> host_ctx \<Rightarrow> rx_event list \<Rightarrow> world \<Rightarrow> (host_ctx \<times> rx_event list \<times> world) + dial_result" where
  "dial_padi N 0 h evs w = Inr (Dial_Ret (-1) h w)"
| "dial_padi N (Suc k) h evs w =
     (let (r, w) = host_send_ctrl h (padi_msg N h) False w
      in if r < 0 then Inr (Dial_Ret (-1) h w)
         else case wait_pado N h evs w of
                Pado_Got h evs w \<Rightarrow> Inl (h, evs, w)
              | Pado_Timeout evs w \<Rightarrow> dial_padi N k h evs w
              | Pado_Wait w \<Rightarrow> Inr (Dial_Wait h w))"

definition pads_accept :: "nacl \<Rightarrow> host_ctx \<Rightarrow> bytes \<Rightarrow> host_ctx option" where
  "pads_accept N h p =
     (if length p \<noteq> 9 + PUB_LEN + SIG_LEN then None
      else if slice 9 32 p \<noteq> ho_ac_pub h then None
      else if \<not> host_check_sig N h p 9 9 then None
      else Some (h\<lparr>ho_sid := ipv69_get_be16 (drop 7 p)\<rparr>))"

fun dial_pads :: "nacl \<Rightarrow> nat \<Rightarrow> bool \<Rightarrow> host_ctx \<Rightarrow> rx_event list \<Rightarrow> world \<Rightarrow> dial_result" where
  "dial_pads N 0 resend h evs w = Dial_Ret (-1) h w"
| "dial_pads N (Suc k) resend h evs w =
     (let w = (if resend then snd (host_send_ctrl h (padr_msg N h) True w) else w)
      in case host_wait_ctrl h IPV69_CTRL_PADS True 256 1500 evs w of
           None \<Rightarrow> Dial_Wait h w
         | Some (p, evs, w) \<Rightarrow>
             if p = [] then dial_pads N k True h evs w
             else case pads_accept N h p of
                    Some h' \<Rightarrow> Dial_Ret 0 h' w
                  | None \<Rightarrow> dial_pads N k True h evs w)"

definition host_dial :: "nacl \<Rightarrow> host_ctx \<Rightarrow> rx_event list \<Rightarrow> world \<Rightarrow> dial_result" where
  "host_dial N h evs w =
     (case dial_padi N 3 h evs w of
        Inr r \<Rightarrow> r
      | Inl (h, evs, w) \<Rightarrow>
          let (r, w) = host_send_ctrl h (padr_msg N h) True w
          in if r < 0 then Dial_Ret (-1) h w else dial_pads N 3 False h evs w)"

section \<open>The open session\<close>

text \<open>A frame from the segment: the session is closed (\<open>Some None\<close>), an inner frame goes to the TAP
  (\<open>Some (Some f)\<close>), or nothing happens.\<close>

definition host_down :: "host_ctx \<Rightarrow> bytes \<Rightarrow> bytes option option" where
  "host_down h frame =
     (let ih = hdr_at (drop ETH_LEN frame);
          p = drop (ETH_LEN + IPV69_HEADER_LEN) frame
      in if length frame < ETH_LEN + IPV69_HEADER_LEN + 1 then None
         else if slice 6 6 frame = ho_mac h then None
         else if next_header ih = IPV69_NEXT_CONTROL then
           (if 3 \<le> length p \<and> bget p 0 = IPV69_CTRL_PADT \<and> ipv69_get_be16 (drop 1 p) = ho_sid h
            then Some None else None)
         else if next_header ih \<noteq> IPV69_NEXT_PPPOE \<or>
                 length frame < ETH_LEN + IPV69_HEADER_LEN + 2 + ETH_LEN + IPV69_HEADER_LEN then None
         else if ipv69_get_be16 p \<noteq> ho_sid h then None
         else Some (Some (drop 2 p)))"

text \<open>A frame from the TAP, of which at most 2000 bytes are read.\<close>

definition host_up :: "host_ctx \<Rightarrow> bytes \<Rightarrow> world \<Rightarrow> int \<times> world" where
  "host_up h r w =
     (let r = take (2048 - 2 - ETH_LEN - IPV69_HEADER_LEN) r
      in if r = [] \<or> 2048 - 2 < length r then (0, w)
         else l2_send (ho_ac_mac h)
                (build_frame (ho_ac_mac h) (ho_mac h) 0 (ho_ac_addr h) IPV69_NEXT_PPPOE 64 0 0
                   (ipv69_put_be16 (ho_sid h) @ r)) w)"

text \<open>The loop: a signal, a frame from the segment, a frame from the TAP. The result is the exit
  code, or nothing while the session goes on.\<close>

datatype host_event = Ho_Quit | Ho_Frame bytes | Ho_Tap bytes

definition host_turn :: "nacl \<Rightarrow> (bytes \<Rightarrow> bool) \<Rightarrow> host_ctx \<Rightarrow> host_event \<Rightarrow> world \<Rightarrow> int option \<times> bytes option \<times> world" where
  "host_turn N tap_fails h ev w =
     (case ev of
        Ho_Quit \<Rightarrow> (Some 0, None, snd (host_padt N h w))
      | Ho_Frame f \<Rightarrow>
          (case host_down h f of
             None \<Rightarrow> (None, None, w)
           | Some None \<Rightarrow> (Some 0, None, w)
           | Some (Some inner) \<Rightarrow> if tap_fails inner then (Some 1, None, w) else (None, Some inner, w))
      | Ho_Tap r \<Rightarrow> (None, None, snd (host_up h r w)))"

section \<open>The command line\<close>

fun host_args :: "string list \<Rightarrow> host_ctx \<times> string \<Rightarrow> (host_ctx \<times> string) option" where
  "host_args (a # b # r) (h, tap) =
     (if a = ''--tap'' then host_args r (h, b)
      else if a = ''--ac-pub'' then
        (case hex_decode b 32 of
           None \<Rightarrow> None
         | Some pub \<Rightarrow> if length pub \<noteq> 32 then None else host_args r (h\<lparr>ho_pin_pub := Some pub\<rparr>, tap))
      else if a = ''--ac'' then
        (case parse_ipv69_addr b of None \<Rightarrow> None | Some v \<Rightarrow> host_args r (h\<lparr>ho_want_ac := v\<rparr>, tap))
      else host_args (b # r) (h, tap))"
| "host_args _ st = Some st"

text \<open>The dispatcher on \<^verbatim>\<open>argv\<close>: an exit with an error, or the role with \<^verbatim>\<open>auto\<close> put in for a
  missing interface.\<close>

definition cmd_pppoe :: "string list \<Rightarrow> (bool \<times> string list) option" where
  "cmd_pppoe argv =
     (if length argv < 2 then None
      else if argv ! 1 \<noteq> ''ac'' \<and> argv ! 1 \<noteq> ''host'' then None
      else if length argv < 3 \<or> take 1 (argv ! 2) = ''-'' then
        (if 31 \<le> length argv then None
         else Some (argv ! 1 = ''host'', take 2 argv @ [''auto''] @ drop 2 argv))
      else Some (argv ! 1 = ''host'', argv))"

end
