(* ===== verification/Pppoe_Table.thy ===== *)
theory Pppoe_Table
  imports Pppoe_Host
begin

text \<open>
  The session table of the access concentrator: lookups, allocation, and what every turn of
  the main loop keeps: session numbers and control MACs name at most one session.
\<close>

section \<open>Lookups\<close>

lemma sess_find_Some:
  "sess_find P c = Some i \<longleftrightarrow> i < 64 \<and> se_used (ac_sess c ! i) \<and> P (ac_sess c ! i) \<and>
     (\<forall>j<i. \<not> (se_used (ac_sess c ! j) \<and> P (ac_sess c ! j)))"
  by (simp add: sess_find_def find_upt_Some conj_assoc)

lemma sess_find_None: "sess_find P c = None \<longleftrightarrow> (\<forall>i<64. se_used (ac_sess c ! i) \<longrightarrow> \<not> P (ac_sess c ! i))"
  by (simp add: sess_find_def find_upt_None)

lemmas sess_lookup_defs = sess_by_cmac_def sess_by_sid_def sess_by_wmac_def sess_by_addr_def

lemma upd_sess_nth [simp]:
  "length (ac_sess c) = 64 \<Longrightarrow> i < 64 \<Longrightarrow> ac_sess (upd_sess i f c) ! j = (if j = i then f (ac_sess c ! i) else ac_sess c ! j)"
  by (simp add: upd_sess_def)

lemma upd_sess_same [simp]:
  "length (ac_sess (upd_sess i f c)) = length (ac_sess c)" "ac_mac (upd_sess i f c) = ac_mac c"
  "ac_addr (upd_sess i f c) = ac_addr c" "ac_sk (upd_sess i f c) = ac_sk c" "ac_peers (upd_sess i f c) = ac_peers c"
  "ac_auth_enabled (upd_sess i f c) = ac_auth_enabled c" "ac_learn (upd_sess i f c) = ac_learn c"
  by (simp_all add: upd_sess_def)

section \<open>Allocation\<close>

lemma sid_scan_Some: "sid_scan c t = Some k \<Longrightarrow> t \<le> k \<and> k \<le> 0xffff \<and> sess_by_sid c (of_nat k) = None"
proof (induction c t rule: sid_scan.induct)
  case (1 c t)
  then show ?case by (subst (asm) sid_scan.simps) (auto split: if_splits)
qed

lemma sid_scan_None: "sid_scan c t = None \<Longrightarrow> t \<le> k \<Longrightarrow> k \<le> 0xffff \<Longrightarrow> sess_by_sid c (of_nat k) \<noteq> None"
proof (induction c t rule: sid_scan.induct)
  case (1 c t)
  then show ?case by (subst (asm) sid_scan.simps) (cases "k = t"; auto split: if_splits)
qed

text \<open>There are always free numbers: 65535 of them and 64 sessions.\<close>

lemma sid_scan_total: "sid_scan c 1 \<noteq> None"
proof
  assume none: "sid_scan c 1 = None"
  define f :: "nat \<Rightarrow> u16" where "f = of_nat"
  have "f k \<in> (\<lambda>i. se_sid (ac_sess c ! i)) ` {..<64}" if "k \<in> {1..100}" for k
  proof -
    have "sess_by_sid c (f k) \<noteq> None" using sid_scan_None [OF none, of k] that by (simp add: f_def)
    then show ?thesis unfolding sess_by_sid_def sess_find_None by (metis image_eqI lessThan_iff)
  qed
  then have "f ` {1..100} \<subseteq> (\<lambda>i. se_sid (ac_sess c ! i)) ` {..<64}" by blast
  then have le: "card (f ` {1..100}) \<le> card {..<64 :: nat}"
    by (meson card_image_le card_mono finite_imageI finite_lessThan order_trans)
  have "unat (f x) = x" if "x \<le> 100" for x
    unfolding f_def by (rule unat_of_nat_small) (use that in simp)
  then have "inj_on f {1..100}" by (intro inj_onI) (metis atLeastAtMost_iff)
  then have "card (f ` {1..100}) = card {1..100 :: nat}" by (rule card_image)
  with le show False by (simp only: card_lessThan card_atLeastAtMost)
qed

lemma sess_alloc_None: "sess_alloc c now = None \<longleftrightarrow> (\<forall>i<64. se_used (ac_sess c ! i))"
  using sid_scan_total [of c] by (auto simp: sess_alloc_def find_upt_None find_upt_Some split: option.splits)

text \<open>What a successful allocation gives: a slot that was free and a number nobody has.\<close>

lemma sess_alloc_Some:
  assumes "sess_alloc c now = Some (i, c')"
  obtains t where "i < 64" "\<not> se_used (ac_sess c ! i)" "c' = upd_sess i (\<lambda>s. session0\<lparr>se_used := True, se_sid := of_nat t, se_last := now\<rparr>) c"
    "(of_nat t :: u16) \<noteq> 0" "\<forall>j<64. se_used (ac_sess c ! j) \<longrightarrow> se_sid (ac_sess c ! j) \<noteq> of_nat t"
proof -
  obtain t where t: "i < 64" "\<not> se_used (ac_sess c ! i)" "sid_scan c 1 = Some t"
    "c' = upd_sess i (\<lambda>s. session0\<lparr>se_used := True, se_sid := of_nat t, se_last := now\<rparr>) c"
    using assms by (auto simp: sess_alloc_def find_upt_Some split: option.splits)
  note k = sid_scan_Some [OF t(3)]
  then have "unat (of_nat t :: u16) = t" by (simp add: unat_of_nat_small)
  with k have "(of_nat t :: u16) \<noteq> 0" by (metis not_one_le_zero unat_0)
  with t k that show ?thesis by (auto simp: sess_by_sid_def sess_find_None)
qed

text \<open>Allocation never fails while a slot is free: the search through the 65535 numbers ends with
  one that no session has. It fails exactly when all 64 slots are in use.\<close>

theorem sess_alloc_fails_when_full: "sess_alloc c now = None \<longleftrightarrow> {i. i < 64 \<and> \<not> se_used (ac_sess c ! i)} = {}"
  by (auto simp: sess_alloc_None)

section \<open>The invariant\<close>

definition ac_table :: "ac_ctx \<Rightarrow> bool" where
  "ac_table c \<longleftrightarrow> length (ac_sess c) = 64 \<and> length (ac_peers c) \<le> 64 \<and>
     (\<forall>i<64. se_used (ac_sess c ! i) \<longrightarrow> se_sid (ac_sess c ! i) \<noteq> 0) \<and>
     (\<forall>i<64. \<forall>j<64. se_used (ac_sess c ! i) \<and> se_used (ac_sess c ! j) \<and> i \<noteq> j \<longrightarrow>
        se_sid (ac_sess c ! i) \<noteq> se_sid (ac_sess c ! j) \<and> se_cmac (ac_sess c ! i) \<noteq> se_cmac (ac_sess c ! j))"

lemma ac_table_upd:
  assumes "ac_table c" "se_used (f (ac_sess c ! i)) \<Longrightarrow> se_used (ac_sess c ! i)"
    "se_sid (f (ac_sess c ! i)) = se_sid (ac_sess c ! i) \<or> \<not> se_used (f (ac_sess c ! i))"
    "se_cmac (f (ac_sess c ! i)) = se_cmac (ac_sess c ! i) \<or> \<not> se_used (f (ac_sess c ! i))"
  shows "ac_table (upd_sess i f c)"
proof (cases "i < 64")
  case True
  then show ?thesis using assms by (auto simp: ac_table_def)
next
  case False
  then have "upd_sess i f c = c" using assms(1) by (cases c) (simp add: upd_sess_def ac_table_def list_update_beyond)
  then show ?thesis using assms(1) by simp
qed

lemma sess_learn_same [simp]:
  "se_used (sess_learn f t s) = se_used s" "se_sid (sess_learn f t s) = se_sid s" "se_cmac (sess_learn f t s) = se_cmac s"
  by (simp_all add: sess_learn_def Let_def)

lemma ac_table_free: "ac_table c \<Longrightarrow> ac_table (sess_free i c)"
  unfolding sess_free_def by (rule ac_table_upd) (simp_all add: session0_def)

lemma ac_table_inner: "ac_table c \<Longrightarrow> ac_inner c i f w = Some (c', w') \<Longrightarrow> ac_table c'"
  using ac_table_upd [of c "sess_learn f (w_time w)" i]
  by (auto simp: ac_inner_def Let_def split: if_splits option.splits)

lemma ac_table_alloc:
  assumes "ac_table c" "sess_alloc c now = Some (i, c')" "sess_by_cmac c m = None"
  shows "ac_table (upd_sess i (\<lambda>s. s\<lparr>se_cmac := m\<rparr>) c')"
proof -
  obtain t where t: "i < 64" "\<not> se_used (ac_sess c ! i)"
    "c' = upd_sess i (\<lambda>s. session0\<lparr>se_used := True, se_sid := of_nat t, se_last := now\<rparr>) c"
    "(of_nat t :: u16) \<noteq> 0" "\<forall>j<64. se_used (ac_sess c ! j) \<longrightarrow> se_sid (ac_sess c ! j) \<noteq> of_nat t"
    by (rule sess_alloc_Some [OF assms(2)])
  have "se_used (ac_sess c ! j) \<Longrightarrow> j < 64 \<Longrightarrow> se_cmac (ac_sess c ! j) \<noteq> m" for j
    using assms(3) by (simp add: sess_by_cmac_def sess_find_None)
  then show ?thesis
    using assms(1) t by (auto simp: ac_table_def t(3))
qed

lemma learn_pub_table: "ac_table c \<Longrightarrow> ac_table (fst (learn_pub c pub w))"
  by (auto simp: learn_pub_def ac_table_def)

lemma check_padr_same:
  assumes "check_padr N c p w = (ok, c', w')"
  shows "ac_sess c' = ac_sess c" "ac_mac c' = ac_mac c" "ac_sk c' = ac_sk c" "ac_addr c' = ac_addr c"
    "ac_table c \<Longrightarrow> ac_table c'"
  using assms learn_pub_table [of c "slice 7 32 p" w]
  by (auto simp: check_padr_def Let_def learn_pub_def split: if_splits prod.splits)

text \<open>What an accepted PADR does to the table.\<close>

lemma padr_cases:
  assumes "ac_rx_padr N c p w = (c', w')"
  obtains "c' = c"
  | d v v' where "check_padr N c p v = (False, d, v')" "c' = d"
  | d v v' where "check_padr N c p v = (True, d, v')" "c' = d"
  | d v v' i e t where "check_padr N c p v = (True, d, v')" "sess_by_cmac d (slice 1 6 p) = None"
      "sess_alloc d t = Some (i, e)" "c' = upd_sess i (\<lambda>s. s\<lparr>se_cmac := slice 1 6 p\<rparr>) e"
  using assms unfolding ac_rx_padr_def Let_def
  by (auto split: if_splits prod.splits bool.splits option.splits)

lemma ac_table_padr: "ac_table c \<Longrightarrow> ac_rx_padr N c p w = (c', w') \<Longrightarrow> ac_table c'"
  by (erule padr_cases) (auto intro: ac_table_alloc dest: check_padr_same(5))

lemma ac_table_rx: "ac_table c \<Longrightarrow> ac_rx N c f w = Some (c', w') \<Longrightarrow> ac_table c'"
  using ac_table_padr [of c N "drop 46 f" w c' w'] ac_table_free ac_table_inner
  by (auto simp: ac_rx_def Let_def ac_rx_session_def ac_rx_padt_def split: if_splits option.splits)

lemma ac_table_reap: "ac_table c \<Longrightarrow> ac_table (fst (ac_reap c w))"
proof -
  assume c: "ac_table c"
  have "ac_table (fst (fold ac_reap_one is (c, w)))" for "is"
    using c
    by (induction "is" arbitrary: c w) (auto simp: ac_reap_one_def ac_table_free split: prod.splits if_splits)
  then show ?thesis by (simp add: ac_reap_def)
qed

lemma peer_lines_le: "length ps \<le> 64 \<Longrightarrow> length (peer_lines N ls ps) \<le> 64"
  by (induction N ls ps rule: peer_lines.induct) (auto split: option.splits)

lemma ac_table_load: "ac_table c \<Longrightarrow> ac_table (peer_file_load N c path w)"
  by (auto simp: peer_file_load_def ac_table_def peer_lines_le split: option.splits)

lemma ac_table_turn:
  assumes "ac_table c" "ac_turn N changed ev (c, w) = Some (c', w')"
  shows "ac_table c'"
proof -
  define d where "d = (case ac_peer_file c of Some path \<Rightarrow> if changed then peer_file_load N c path w else c | None \<Rightarrow> c)"
  have d: "ac_table d" using assms(1) ac_table_load by (auto simp: d_def split: option.splits)
  obtain e v where e: "ac_reap d w = (e, v)" by (cases "ac_reap d w")
  have "ac_table e" using ac_table_reap [OF d, of w] e by simp
  then show ?thesis
    using assms(2) ac_table_rx unfolding ac_turn_def
    by (auto simp: Let_def d_def [symmetric] e split: rx_result.splits if_splits)
qed

text \<open>A run of the main loop; between turns the world moves.\<close>

inductive ac_run :: "nacl \<Rightarrow> ac_ctx \<Rightarrow> ac_ctx \<Rightarrow> bool" for N c where
  Start: "ac_run N c c"
| Turn: "ac_run N c d \<Longrightarrow> ac_turn N changed ev (d, w) = Some (e, w') \<Longrightarrow> ac_run N c e"

inductive_cases ac_runE: "ac_run N c e"

text \<open>C20: In every run of the concentrator, whatever frames arrive and whatever its peer file holds,
  every session in use has a nonzero number, and no two sessions share a number or a control
  MAC; the peer table never overflows.\<close>

theorem ac_sessions_unique:
  assumes "ac_run N c d" "ac_table c"
  shows "ac_table d"
  using assms by (induction rule: ac_run.induct) (auto intro: ac_table_turn)

text \<open>From the empty table, one turn with a frame that is too short.\<close>

theorem ac_sessions_unique_witness:
  "\<exists>d. ac_run toy_nacl ac_ctx0 d \<and> ac_table d"
proof -
  have "ac_table ac_ctx0" by (simp add: ac_table_def ac_ctx0_def session0_def)
  then show ?thesis using ac_sessions_unique [OF ac_run.Start [of toy_nacl ac_ctx0]] ac_run.Start by blast
qed

end
