(* ===== verification/Pppoe_Dial.thy ===== *)
theory Pppoe_Dial
  imports Pppoe_Table
begin

text \<open>
  The host and the concentrator together: an honest dial opens a session both sides agree on,
  only admitted hosts get one, frames cross the session unchanged, and what anyone on the
  segment or any dialed host can do to the sessions of others.
\<close>

section \<open>Reading a built frame\<close>

lemma built_frame:
  assumes "length dm = 6" "length sm = 6"
  shows "slice 0 6 (build_frame dm sm src dst nh hop sp dp pl) = dm"
    "slice 6 6 (build_frame dm sm src dst nh hop sp dp pl) = sm"
    "drop 46 (build_frame dm sm src dst nh hop sp dp pl) = pl"
    "length (build_frame dm sm src dst nh hop sp dp pl) = 46 + length pl"
    "next_header (hdr_at (drop 14 (build_frame dm sm src dst nh hop sp dp pl))) = nh"
    "ipv69_addr_get (source (hdr_at (drop 14 (build_frame dm sm src dst nh hop sp dp pl)))) = take_bit 40 src"
    "ipv69_addr_get (dest (hdr_at (drop 14 (build_frame dm sm src dst nh hop sp dp pl)))) = take_bit 40 dst"
  using assms by (simp_all add: wire_simps len_simps) (simp_all add: build_frame_def Let_def eth_bytes_def)

lemma bcast_40 [simp]: "take_bit 40 IPV69_BCAST_ADDR = IPV69_BCAST_ADDR"
  by (simp add: take_bit_eq_mod)

lemma length_sign_append [simp]: "length (sign_append N m sk) = length m + 96"
  by (simp add: sign_append_def)

section \<open>The four discovery messages\<close>

definition padi_frame :: "nacl \<Rightarrow> host_ctx \<Rightarrow> bytes" where
  "padi_frame N h = build_frame bcast_mac (ho_mac h) 0 IPV69_BCAST_ADDR IPV69_NEXT_CONTROL 64 0 0 (padi_msg N h)"

definition pado_frame :: "nacl \<Rightarrow> ac_ctx \<Rightarrow> bytes \<Rightarrow> bytes" where
  "pado_frame N c m = build_frame m (ac_mac c) (ac_addr c) IPV69_BCAST_ADDR IPV69_NEXT_CONTROL 64 0 0
     (sign_append N ([IPV69_CTRL_PADO] @ m @ ac_mac c @ ipv69_addr_put (ac_addr c)) (ac_sk c))"

definition padr_frame :: "nacl \<Rightarrow> host_ctx \<Rightarrow> bytes" where
  "padr_frame N h = build_frame (ho_ac_mac h) (ho_mac h) 0 (ho_ac_addr h) IPV69_NEXT_CONTROL 64 0 0 (padr_msg N h)"

definition pads_frame :: "nacl \<Rightarrow> ac_ctx \<Rightarrow> pppoe_session \<Rightarrow> bytes" where
  "pads_frame N c s = build_frame (se_cmac s) (ac_mac c) (ac_addr c) IPV69_BCAST_ADDR IPV69_NEXT_CONTROL 64 0 0
     (sign_append N ([IPV69_CTRL_PADS] @ se_cmac s @ ipv69_put_be16 (se_sid s)) (ac_sk c))"

text \<open>A concentrator and a host that do not share a MAC, with usable keys.\<close>

definition segment_ok :: "nacl \<Rightarrow> host_ctx \<Rightarrow> ac_ctx \<Rightarrow> bool" where
  "segment_ok N h c \<longleftrightarrow> length (ho_mac h) = 6 \<and> length (ac_mac c) = 6 \<and> ho_mac h \<noteq> ac_mac c \<and>
     key_ok N (ho_sk h) \<and> key_ok N (ac_sk c) \<and> take_bit 40 (ac_addr c) = ac_addr c"

lemma length_padi_msg: "length (ho_mac h) = 6 \<Longrightarrow> length (padi_msg N h) = 23"
  by (simp add: padi_msg_def Let_def)

lemma ac_at_padi:
  assumes ok: "segment_ok N h c" and tx: "tx_ok v"
    and rate: "rate_allow (w_rate v) (w_ms v) (ho_mac h @ [0, 0]) 10 20 1 = (True, rt)"
  obtains v' where "ac_rx N c (padi_frame N h) v = Some (c, v')" "w_out v' = w_out v @ [L2 (ho_mac h) (pado_frame N c (ho_mac h))]"
    "tx_ok v'" "w_rate v' = rt"
proof -
  let ?m = "ho_mac h"
  have l: "length ?m = 6" "length (ac_mac c) = 6" "?m \<noteq> ac_mac c" using ok by (simp_all add: segment_ok_def)
  note F = built_frame [OF length_bcast_mac l(1), of 0 IPV69_BCAST_ADDR IPV69_NEXT_CONTROL 64 0 0 "padi_msg N h",
      folded padi_frame_def]
  let ?p = "padi_msg N h" and ?k = "mac1_key N IPV69_BCAST_ADDR"
  have p: "?p = (IPV69_CTRL_PADI # ?m) @ mac1_compute N ?k (IPV69_CTRL_PADI # ?m)" by (simp add: padi_msg_def)
  have p7: "slice 0 7 ?p = IPV69_CTRL_PADI # ?m" "drop 7 ?p = mac1_compute N ?k (IPV69_CTRL_PADI # ?m)"
      "slice 1 6 ?p = ?m" "bget ?p 0 = IPV69_CTRL_PADI" "length ?p = 23"
    using l by (simp_all add: p slice_eq_take_drop)
  have mac: "mac1_verify N ?k (slice 0 7 ?p) (drop 7 ?p) = 0"
    unfolding p7 using mac1_verify_compute [of N ?k "IPV69_CTRL_PADI # ?m" "[]"] by simp
  define v1 where "v1 = v\<lparr>w_rate := rt\<rparr>"
  have v1: "rate_allow_g (?m @ [0, 0]) 10 20 1 v = (True, v1)" using rate by (simp add: rate_allow_g_def v1_def)
  define v' where "v' = v1\<lparr>w_txn := Suc (w_txn v1), w_out := w_out v1 @ [L2 ?m (pado_frame N c ?m)]\<rparr>"
  have "tx_ok v1" using tx by (simp add: v1_def tx_ok_def)
  then have send: "ac_pado N c ?m v1 = (0, v')"
    by (simp add: ac_pado_def ac_send_def l2_send_def transmit_ok pado_frame_def v'_def)
  have "ac_rx N c (padi_frame N h) v = Some (c, v')"
    using F l p7 mac v1 send by (simp add: ac_rx_def Let_def ac_rx_padi_def)
  then show ?thesis by (rule that) (use tx in \<open>simp_all add: v'_def v1_def tx_ok_def\<close>)
qed

text \<open>Who is admitted: everyone, the listed keys, or (learning) every key.\<close>

definition admits :: "ac_ctx \<Rightarrow> bytes \<Rightarrow> bool" where
  "admits c pub \<longleftrightarrow> \<not> ac_auth_enabled c \<or> pub \<in> set (ac_peers c) \<or> ac_learn c"

lemma padr_payload:
  assumes "length (ho_mac h) = 6" "key_ok N (ho_sk h)"
  shows "length (padr_msg N h) = 119" "slice 0 7 (padr_msg N h) = IPV69_CTRL_PADR # ho_mac h"
    "slice 1 6 (padr_msg N h) = ho_mac h" "bget (padr_msg N h) 0 = IPV69_CTRL_PADR"
    "slice 7 32 (padr_msg N h) = slice 32 32 (ho_sk h)"
    "drop 103 (padr_msg N h) = mac1_compute N (mac1_key N (ho_ac_addr h)) (slice 0 103 (padr_msg N h))"
    "\<exists>r. drop 39 (padr_msg N h) = ed25519_sign N (IPV69_CTRL_PADR # ho_mac h) (ho_sk h) @ r"
proof -
  have l: "length (ho_mac h) = 6" "length (slice 32 32 (ho_sk h)) = 32" using assms by simp_all
  show "length (padr_msg N h) = 119" "bget (padr_msg N h) 0 = IPV69_CTRL_PADR"
      "slice 7 32 (padr_msg N h) = slice 32 32 (ho_sk h)" "slice 1 6 (padr_msg N h) = ho_mac h"
      "\<exists>r. drop 39 (padr_msg N h) = ed25519_sign N (IPV69_CTRL_PADR # ho_mac h) (ho_sk h) @ r"
    using l by (simp_all add: padr_msg_def Let_def)
  show "slice 0 7 (padr_msg N h) = IPV69_CTRL_PADR # ho_mac h"
    using l by (simp add: padr_msg_def Let_def slice_eq_take_drop)
  show "drop 103 (padr_msg N h) = mac1_compute N (mac1_key N (ho_ac_addr h)) (slice 0 103 (padr_msg N h))"
    using l by (simp add: padr_msg_def Let_def slice_eq_take_drop)
qed

lemma check_padr_admitted:
  assumes "sign_ok N" "key_ok N (ho_sk h)" "length (ho_mac h) = 6" "admits c (slice 32 32 (ho_sk h))"
  obtains d w' where "check_padr N c (padr_msg N h) w = (True, d, w')" "w_out w' = w_out w" "tx_ok w' = tx_ok w"
    "w_time w' = w_time w"
proof -
  note P = padr_payload [OF assms(3,2)]
  obtain r where r: "drop 39 (padr_msg N h) = ed25519_sign N (IPV69_CTRL_PADR # ho_mac h) (ho_sk h) @ r"
    using P(7) by blast
  have v: "ed25519_verify N (IPV69_CTRL_PADR # ho_mac h) (drop 39 (padr_msg N h)) (slice 32 32 (ho_sk h)) = 0"
    unfolding r by (rule verify_signed [OF assms(1,2)])
  obtain d w' where d: "learn_pub c (slice 32 32 (ho_sk h)) w = (d, w')" by (cases "learn_pub c (slice 32 32 (ho_sk h)) w")
  have e: "check_padr N c (padr_msg N h) w =
      (True, if ac_auth_enabled c \<and> slice 32 32 (ho_sk h) \<notin> set (ac_peers c) then (d, w') else (c, w))"
    using assms(4) v P(1,2,5) by (auto simp: check_padr_def Let_def admits_def d)
  have "w_out w' = w_out w" "tx_ok w' = tx_ok w" "w_time w' = w_time w"
    using d by (auto simp: learn_pub_def file_append_def tx_ok_def split: if_splits option.splits)
  with e show ?thesis by (cases "ac_auth_enabled c \<and> slice 32 32 (ho_sk h) \<notin> set (ac_peers c)") (auto intro: that)
qed

text \<open>The concentrator answers an admitted PADR with the number of a session of that MAC.\<close>

lemma ac_at_padr:
  assumes ok: "segment_ok N h c" and tx: "tx_ok v" and sok: "sign_ok N"
    and adm: "admits c (slice 32 32 (ho_sk h))" and len: "length (ac_sess c) = 64" and free: "\<exists>i<64. \<not> se_used (ac_sess c ! i)"
    and h: "ho_ac_mac h = ac_mac c" "ho_ac_addr h = ac_addr c"
    and rate: "rate_allow (w_rate v) (w_ms v) (ho_mac h @ [0, 0]) 10 20 1 = (True, rt)"
  obtains c' v' i where "ac_rx N c (padr_frame N h) v = Some (c', v')" "i < 64" "se_used (ac_sess c' ! i)"
    "se_cmac (ac_sess c' ! i) = ho_mac h" "w_out v' = w_out v @ [L2 (ho_mac h) (pads_frame N c (ac_sess c' ! i))]"
proof -
  let ?m = "ho_mac h" and ?p = "padr_msg N h"
  have l: "length ?m = 6" "length (ac_mac c) = 6" "?m \<noteq> ac_mac c" "key_ok N (ho_sk h)" "take_bit 40 (ac_addr c) = ac_addr c"
    using ok by (simp_all add: segment_ok_def)
  note P = padr_payload [OF l(1,4)]
  have fr: "padr_frame N h = build_frame (ac_mac c) ?m 0 (ac_addr c) IPV69_NEXT_CONTROL 64 0 0 ?p"
    by (simp add: padr_frame_def h)
  note F = built_frame [OF l(2,1), of 0 "ac_addr c" IPV69_NEXT_CONTROL 64 0 0 ?p, folded fr]
  have mac: "mac1_verify N (mac1_key N (ac_addr c)) (slice 0 103 ?p) (drop 103 ?p) = 0"
    unfolding P(6) h using mac1_verify_compute [of N _ _ "[]"] by simp
  define v1 where "v1 = v\<lparr>w_rate := rt\<rparr>"
  have v1: "rate_allow_g (?m @ [0, 0]) 10 20 1 v = (True, v1)" using rate by (simp add: rate_allow_g_def v1_def)
  obtain d v2 where d: "check_padr N c ?p v1 = (True, d, v2)" "w_out v2 = w_out v1" "tx_ok v2 = tx_ok v1" "w_time v2 = w_time v1"
    by (rule check_padr_admitted [OF sok l(4,1) adm])
  note same = check_padr_same [OF d(1)]
  have send: "ac_pads N e s v2 = (0, v2\<lparr>w_txn := Suc (w_txn v2), w_out := w_out v2 @ [L2 ?m (pads_frame N c s)]\<rparr>)"
    if "se_cmac s = ?m" "ac_mac e = ac_mac c" "ac_addr e = ac_addr c" "ac_sk e = ac_sk c" for e s
    using that tx d(3) by (simp add: ac_pads_def ac_send_def l2_send_def transmit_ok pads_frame_def v1_def tx_ok_def)
  have rx: "ac_rx N c (padr_frame N h) v = Some (ac_rx_padr N c ?p v)"
    using F l P(1,4) h by (simp add: ac_rx_def Let_def)
  show ?thesis
  proof (cases "sess_by_cmac d ?m")
    case (Some i)
    then have i: "i < 64" "se_used (ac_sess d ! i)" "se_cmac (ac_sess d ! i) = ?m"
      by (auto simp: sess_by_cmac_def sess_find_Some)
    have "ac_rx_padr N c ?p v = (d, snd (ac_pads N d (ac_sess d ! i) v2))"
      using mac v1 d(1) Some P(1,3) by (simp add: ac_rx_padr_def)
    with rx i show ?thesis
      by (intro that [of d "snd (ac_pads N d (ac_sess d ! i) v2)" i]) (simp_all add: send same d(2) v1_def)
  next
    case None
    obtain i e where a: "sess_alloc d (w_time v2) = Some (i, e)"
      using free same(1) sess_alloc_None [of d "w_time v2"] by (cases "sess_alloc d (w_time v2)") auto
    obtain t where t: "i < 64" "\<not> se_used (ac_sess d ! i)"
      "e = upd_sess i (\<lambda>s. session0\<lparr>se_used := True, se_sid := of_nat t, se_last := w_time v2\<rparr>) d"
      by (rule sess_alloc_Some [OF a]) blast
    define c' where "c' = upd_sess i (\<lambda>s. s\<lparr>se_cmac := ?m\<rparr>) e"
    have "ac_rx_padr N c ?p v = (c', snd (ac_pads N c' (ac_sess c' ! i) v2))"
      using mac v1 d(1) None a P(1,3) by (simp add: ac_rx_padr_def Let_def c'_def)
    with rx t len show ?thesis
      by (intro that [of c' "snd (ac_pads N c' (ac_sess c' ! i) v2)" i]) (simp_all add: send same d(2) v1_def c'_def session0_def)
  qed
qed

section \<open>The host's side\<close>

definition accepts :: "host_ctx \<Rightarrow> ac_ctx \<Rightarrow> bool" where
  "accepts h c \<longleftrightarrow> (ho_want_ac h = 0 \<or> ho_want_ac h = ac_addr c) \<and>
     (ho_pin_pub h = None \<or> ho_pin_pub h = Some (slice 32 32 (ac_sk c)))"

definition dialed :: "host_ctx \<Rightarrow> ac_ctx \<Rightarrow> host_ctx" where
  "dialed h c = h\<lparr>ho_ac_mac := ac_mac c, ho_ac_addr := ac_addr c, ho_ac_pub := slice 32 32 (ac_sk c)\<rparr>"

lemma signed_payload:
  assumes "length m = k"
  shows "slice 0 k (sign_append N m sk) = m" "slice k 32 (sign_append N m sk) = slice 32 32 sk"
    "drop (k + 32) (sign_append N m sk) = ed25519_sign N m sk"
  using assms by (simp_all add: sign_append_def)

lemma check_sig_signed:
  assumes "sign_ok N" "key_ok N sk" "length m = k" "ho_pin_pub h = None \<or> ho_pin_pub h = Some (slice 32 32 sk)"
  shows "host_check_sig N h (sign_append N m sk) k k"
  using assms(4) verify_signed [OF assms(1,2), of m "[]"]
  by (auto simp: host_check_sig_def Let_def signed_payload [OF assms(3)])

lemma addr_get_40: "ipv69_addr_get (ipv69_addr_put a @ r) = take_bit 40 a"
  by (simp add: codec_simps)

lemma host_at_pado:
  assumes ok: "segment_ok N h c" "sign_ok N" "accepts h c"
  shows "wait_pado N h (rx (pado_frame N c (ho_mac h)) t ms # evs) w =
    Pado_Got (dialed h c) evs (at_event (rx (pado_frame N c (ho_mac h)) t ms) w)"
proof -
  let ?b = "[IPV69_CTRL_PADO] @ ho_mac h @ ac_mac c @ ipv69_addr_put (ac_addr c)"
  let ?p = "sign_append N ?b (ac_sk c)"
  have l: "length (ho_mac h) = 6" "length (ac_mac c) = 6" "ac_mac c \<noteq> ho_mac h" "key_ok N (ac_sk c)" "take_bit 40 (ac_addr c) = ac_addr c"
    using ok(1) by (auto simp: segment_ok_def)
  note F = built_frame [OF l(1,2), of "ac_addr c" IPV69_BCAST_ADDR IPV69_NEXT_CONTROL 64 0 0 ?p, folded pado_frame_def]
  have b: "length ?b = 18" using l by simp
  have p: "length ?p = 114" "bget ?p 0 = IPV69_CTRL_PADO" "slice 1 6 ?p = ho_mac h" "slice 7 6 ?p = ac_mac c"
      "ipv69_addr_get (drop 13 ?p) = ac_addr c" "slice 18 32 ?p = slice 32 32 (ac_sk c)"
    using l by (simp_all add: sign_append_def addr_get_40)
  have sig: "host_check_sig N h ?p 18 18"
    by (rule check_sig_signed [OF ok(2) l(4) b]) (use ok(3) in \<open>simp add: accepts_def\<close>)
  have acc: "pado_accept N h ?p = Some (dialed h c)"
    using p sig ok(3) by (auto simp: pado_accept_def accepts_def dialed_def)
  have len: "length (pado_frame N c (ho_mac h)) = 160" using F(4) p(1) by simp
  have "ctrl_match h IPV69_CTRL_PADO True 256 (pado_frame N c (ho_mac h)) = Some ?p"
    using F p l by (simp add: ctrl_match_def Let_def)
  then show ?thesis using acc len by (simp add: l2_recv_rx)
qed

lemma host_at_pads:
  assumes ok: "segment_ok N h c" "sign_ok N" "accepts h c" and s: "se_cmac s = ho_mac h"
  shows "dial_pads N (Suc k) False (dialed h c) (rx (pads_frame N c s) t ms # evs) w =
    Dial_Ret 0 ((dialed h c)\<lparr>ho_sid := se_sid s\<rparr>) (at_event (rx (pads_frame N c s) t ms) w)"
proof -
  let ?b = "[IPV69_CTRL_PADS] @ ho_mac h @ ipv69_put_be16 (se_sid s)"
  let ?p = "sign_append N ?b (ac_sk c)"
  have l: "length (ho_mac h) = 6" "length (ac_mac c) = 6" "ac_mac c \<noteq> ho_mac h" "key_ok N (ac_sk c)"
    using ok(1) by (auto simp: segment_ok_def)
  have fr: "pads_frame N c s = build_frame (ho_mac h) (ac_mac c) (ac_addr c) IPV69_BCAST_ADDR IPV69_NEXT_CONTROL 64 0 0 ?p"
    by (simp add: pads_frame_def s)
  note F = built_frame [OF l(1,2), of "ac_addr c" IPV69_BCAST_ADDR IPV69_NEXT_CONTROL 64 0 0 ?p, folded fr]
  have b: "length ?b = 9" using l by simp
  have d: "ho_mac (dialed h c) = ho_mac h" "ho_ac_pub (dialed h c) = slice 32 32 (ac_sk c)" "ho_pin_pub (dialed h c) = ho_pin_pub h"
    by (simp_all add: dialed_def)
  have p: "length ?p = 105" "bget ?p 0 = IPV69_CTRL_PADS" "slice 1 6 ?p = ho_mac h"
      "ipv69_get_be16 (drop 7 ?p) = se_sid s" "slice 9 32 ?p = slice 32 32 (ac_sk c)"
    using l by (simp_all add: sign_append_def codec_simps)
  have sig: "host_check_sig N (dialed h c) ?p 9 9"
    by (rule check_sig_signed [OF ok(2) l(4) b]) (use ok(3) in \<open>simp add: accepts_def d\<close>)
  have acc: "pads_accept N (dialed h c) ?p = Some ((dialed h c)\<lparr>ho_sid := se_sid s\<rparr>)"
    using p sig by (simp add: pads_accept_def d)
  have len: "length (pads_frame N c s) = 151" using F(4) p(1) by simp
  have "ctrl_match (dialed h c) IPV69_CTRL_PADS True 256 (pads_frame N c s) = Some ?p"
    using F p l by (simp add: ctrl_match_def Let_def d)
  moreover have "?p \<noteq> []" using p(1) by (metis list.size(3) zero_neq_numeral)
  ultimately show ?thesis using acc len by (simp add: l2_recv_rx Let_def)
qed

section \<open>An honest dial\<close>

text \<open>C17: A dial completes when nothing is lost: the host broadcasts a PADI, the concentrator answers,
  the host sends its PADR, and if the concentrator admits its key and has a free slot, both
  agree on the session: the host returns 0 with the number of a session in use whose control
  MAC is the host's, knowing the concentrator's key, address and MAC.\<close>

theorem dial_opens_session:
  assumes ok: "segment_ok N h c" "sign_ok N" "accepts h c" and tx: "tx_ok w" "tx_ok v"
    and adm: "admits c (slice 32 32 (ho_sk h))" and len: "length (ac_sess c) = 64" and free: "\<exists>i<64. \<not> se_used (ac_sess c ! i)"
    and rate: "rate_allow (w_rate v) (w_ms v) (ho_mac h @ [0, 0]) 10 20 1 = (True, rt)"
      "rate_allow rt ms (ho_mac h @ [0, 0]) 10 20 1 = (True, rt')"
  shows "\<exists>padi pado padr pads v2 v4 d w' c' i.
    host_dial N h [rx pado t2 ms2, rx pads t4 ms4] w = Dial_Ret 0 d w' \<and>
    w_out w' = w_out w @ [L2 bcast_mac padi, L2 (ac_mac c) padr] \<and>
    ac_rx N c padi v = Some (c, v2) \<and> w_out v2 = w_out v @ [L2 (ho_mac h) pado] \<and>
    ac_rx N c padr (v2\<lparr>w_ms := ms\<rparr>) = Some (c', v4) \<and> w_out v4 = w_out v2 @ [L2 (ho_mac h) pads] \<and>
    i < 64 \<and> se_used (ac_sess c' ! i) \<and> se_cmac (ac_sess c' ! i) = ho_mac h \<and> ho_sid d = se_sid (ac_sess c' ! i) \<and>
    ho_ac_mac d = ac_mac c \<and> ho_ac_addr d = ac_addr c \<and> ho_ac_pub d = slice 32 32 (ac_sk c)"
proof -
  let ?m = "ho_mac h" and ?h = "dialed h c"
  obtain v2 where v2: "ac_rx N c (padi_frame N h) v = Some (c, v2)" "w_out v2 = w_out v @ [L2 ?m (pado_frame N c ?m)]"
      "tx_ok v2" "w_rate v2 = rt"
    by (rule ac_at_padi [OF ok(1) tx(2) rate(1)])
  have d: "ho_mac ?h = ?m" "ho_sk ?h = ho_sk h" "ho_ac_mac ?h = ac_mac c" "ho_ac_addr ?h = ac_addr c"
    by (simp_all add: dialed_def)
  have ok': "segment_ok N ?h c" using ok(1) by (simp add: segment_ok_def d)
  define v3 where "v3 = v2\<lparr>w_ms := ms\<rparr>"
  have v3: "tx_ok v3" "w_rate v3 = rt" "w_ms v3 = ms" "w_out v3 = w_out v2" using v2 by (simp_all add: v3_def tx_ok_def)
  obtain c' v4 i where c': "ac_rx N c (padr_frame N ?h) v3 = Some (c', v4)" "i < 64" "se_used (ac_sess c' ! i)"
      "se_cmac (ac_sess c' ! i) = ?m" "w_out v4 = w_out v3 @ [L2 ?m (pads_frame N c (ac_sess c' ! i))]"
    by (rule ac_at_padr [OF ok' v3(1) ok(2) _ len free d(3,4), unfolded d v3(2,3), OF adm rate(2)])
  define u1 where "u1 = w\<lparr>w_txn := Suc (w_txn w), w_out := w_out w @ [L2 bcast_mac (padi_frame N h)]\<rparr>"
  have s1: "host_send_ctrl h (padi_msg N h) False w = (0, u1)"
    using tx(1) by (simp add: host_send_ctrl_def l2_send_def transmit_ok padi_frame_def u1_def)
  define u2 where "u2 = at_event (rx (pado_frame N c ?m) t2 ms2) u1"
  have u2: "tx_ok u2" "w_out u2 = w_out u1" using tx(1) by (simp_all add: u2_def) (simp_all add: u1_def tx_ok_def)
  define u3 where "u3 = u2\<lparr>w_txn := Suc (w_txn u2), w_out := w_out u2 @ [L2 (ac_mac c) (padr_frame N ?h)]\<rparr>"
  have s3: "host_send_ctrl ?h (padr_msg N ?h) True u2 = (0, u3)"
    using u2(1) by (simp add: host_send_ctrl_def l2_send_def transmit_ok padr_frame_def u3_def d Let_def)
  have dp: "dial_padi N 3 h [rx (pado_frame N c ?m) t2 ms2, e] w = Inl (?h, [e], u2)" for e
    by (simp add: numeral_3_eq_3 s1 host_at_pado [OF ok] u2_def [symmetric] del: wait_pado.simps)
  have "host_dial N h [rx (pado_frame N c ?m) t2 ms2, rx (pads_frame N c (ac_sess c' ! i)) t4 ms4] w =
      Dial_Ret 0 (?h\<lparr>ho_sid := se_sid (ac_sess c' ! i)\<rparr>) (at_event (rx (pads_frame N c (ac_sess c' ! i)) t4 ms4) u3)"
    using host_at_pads [OF ok c'(4), of 2] by (simp add: host_dial_def dp s3)
  then show ?thesis
    using v2 c' u2(2) v3(4) d
    by (intro exI [of _ "padi_frame N h"] exI [of _ "pado_frame N c ?m"] exI [of _ "padr_frame N ?h"]
        exI [of _ "pads_frame N c (ac_sess c' ! i)"] exI [of _ v2] exI [of _ v4])
      (auto simp: u1_def u3_def v3_def dialed_def)
qed

text \<open>A fresh concentrator without an allowlist and a host of the toy primitives.\<close>

definition toy_ac :: ac_ctx where
  "toy_ac = ac_ctx0\<lparr>ac_mac := [2, 0, 0, 0, 0, 1], ac_addr := 7, ac_sk := replicate 64 3\<rparr>"

definition toy_host :: host_ctx where
  "toy_host = host_ctx0\<lparr>ho_mac := [2, 0, 0, 0, 0, 2], ho_sk := replicate 64 4\<rparr>"

lemma toy_segment:
  "segment_ok toy_nacl toy_host toy_ac" "accepts toy_host toy_ac" "length (ac_sess toy_ac) = 64"
  "\<exists>i<64. \<not> se_used (ac_sess toy_ac ! i)" "admits toy_ac pub" "sess_by_cmac toy_ac m = None"
  by (simp_all add: segment_ok_def accepts_def admits_def toy_host_def toy_ac_def host_ctx0_def ac_ctx0_def session0_def key_ok_def
      ed25519_seed_to_pub_def toy_nacl_def slice_eq_take_drop take_bit_eq_mod sess_by_cmac_def sess_find_None)
    (rule exI [of _ 0], simp)

theorem dial_opens_session_witness:
  "\<exists>pado pads d w'. host_dial toy_nacl toy_host [rx pado 1 0, rx pads 1 0] world0 = Dial_Ret 0 d w' \<and> ho_ac_addr d = 7"
proof -
  obtain rt rt' where r: "rate_allow rate_table_init 0 (ho_mac toy_host @ [0, 0]) 10 20 1 = (True, rt)"
      "rate_allow rt 0 (ho_mac toy_host @ [0, 0]) 10 20 1 = (True, rt')"
    by (rule rate_twice)
  have w: "tx_ok world0" "w_rate world0 = rate_table_init" "w_ms world0 = 0" by (simp_all add: tx_ok_def world0_def)
  have a: "ac_addr toy_ac = 7" by (simp add: toy_ac_def)
  show ?thesis
    using dial_opens_session [OF toy_segment(1) toy_sign_ok toy_segment(2) w(1) w(1) toy_segment(5,3,4) _ r(2), of 1 0 1 0]
      r(1) unfolding w a by blast
qed

section \<open>Admission\<close>

lemma ac_rx_cases:
  assumes "ac_rx N c f w = Some (c', w')"
  obtains "c' = c"
  | k g v where "ac_inner c k g v = Some (c', w')"
  | k where "c' = sess_free k c"
  | p v where "ac_rx_padr N c p v = (c', w')" "bget p 0 = IPV69_CTRL_PADR"
  using assms unfolding ac_rx_def Let_def ac_rx_session_def ac_rx_padt_def
  by (auto split: if_splits option.splits)

text \<open>C19: With authentication on, a frame gives a session to a MAC that had none only if it carries a
  signature of that MAC by a key of the allowlist, or by any key while learning is on.\<close>

theorem session_needs_signature:
  assumes rx: "ac_rx N c f w = Some (c', w')" and tab: "ac_table c" and auth: "ac_auth_enabled c"
    and new: "i < 64" "se_used (ac_sess c' ! i)" "\<forall>j<64. se_used (ac_sess c ! j) \<longrightarrow> se_cmac (ac_sess c ! j) \<noteq> se_cmac (ac_sess c' ! i)"
  shows "\<exists>pub sig. (pub \<in> set (ac_peers c) \<or> ac_learn c) \<and>
    ed25519_verify N (IPV69_CTRL_PADR # se_cmac (ac_sess c' ! i)) sig pub = 0"
proof -
  have len: "length (ac_sess c) = 64" using tab by (simp add: ac_table_def)
  have old: False if "ac_sess c' = ac_sess c" using that new by auto
  have noupd: False if "c' = upd_sess k g c" "\<And>s. se_used (g s) \<Longrightarrow> se_used s \<and> se_cmac (g s) = se_cmac s" for k g
    using new that(2) [of "ac_sess c ! k"] len unfolding that(1) by (cases "k < 64") (auto simp: upd_sess_def nth_list_update split: if_splits)
  have inner: False if "ac_inner c k g v = Some (c', w')" for k g v
    using that old noupd [of k "sess_learn g (w_time v)"]
    by (auto simp: ac_inner_def Let_def split: if_splits option.splits)
  have free: False if "c' = sess_free k c" for k
    using noupd [of k "\<lambda>s. session0"] that by (simp add: sess_free_def session0_def)
  have old': False if "c' = c" using that old by simp
  obtain p v where p: "ac_rx_padr N c p v = (c', w')" "bget p 0 = IPV69_CTRL_PADR"
    by (rule ac_rx_cases [OF rx], metis old', metis inner, metis free, metis)
  have p7: "slice 0 7 p = IPV69_CTRL_PADR # slice 1 6 p"
    using p(2) by (simp add: slice_def upt_conv_Cons bget_def)
  from p(1) show ?thesis
  proof (cases rule: padr_cases)
    case (4 d u u' k e t)
    note same = check_padr_same [OF 4(1)]
    obtain n where n: "k < 64" "e = upd_sess k (\<lambda>s. session0\<lparr>se_used := True, se_sid := of_nat n, se_last := t\<rparr>) d"
      by (rule sess_alloc_Some [OF 4(3)]) blast
    have "i = k" using new len n same(1) unfolding 4(4) by (auto split: if_splits)
    then have m: "se_cmac (ac_sess c' ! i) = slice 1 6 p" using n len same(1) unfolding 4(4) by simp
    have "(slice 7 32 p \<in> set (ac_peers c) \<or> ac_learn c) \<and>
        ed25519_verify N (IPV69_CTRL_PADR # slice 1 6 p) (drop 39 p) (slice 7 32 p) = 0"
      using 4(1) auth unfolding check_padr_def Let_def by (auto simp: p7 split: if_splits prod.splits)
    then show ?thesis unfolding m by blast
  qed (use old check_padr_same(1) in auto)
qed

text \<open>Learning: a host with an unknown key, and the same host behind an empty allowlist.\<close>

theorem session_needs_signature_witness:
  "\<exists>c' w'. ac_rx toy_nacl (toy_ac\<lparr>ac_auth_enabled := True, ac_learn := True\<rparr>) (padr_frame toy_nacl (dialed toy_host toy_ac)) world0 =
     Some (c', w') \<and> (\<exists>pub sig. ed25519_verify toy_nacl (IPV69_CTRL_PADR # ho_mac toy_host) sig pub = 0)"
proof -
  let ?c = "toy_ac\<lparr>ac_auth_enabled := True, ac_learn := True\<rparr>" and ?h = "dialed toy_host toy_ac"
  obtain rt where r: "rate_allow (w_rate world0) (w_ms world0) (ho_mac ?h @ [0, 0]) 10 20 1 = (True, rt)"
    using rate_twice [of "w_ms world0" "ho_mac ?h @ [0, 0]" 10 20] by (auto simp: world0_def)
  have ok: "segment_ok toy_nacl ?h ?c" "tx_ok world0" "admits ?c (slice 32 32 (ho_sk ?h))" "length (ac_sess ?c) = 64"
      "\<exists>i<64. \<not> se_used (ac_sess ?c ! i)" "ho_ac_mac ?h = ac_mac ?c" "ho_ac_addr ?h = ac_addr ?c" "ac_auth_enabled ?c"
    using toy_segment by (auto simp: segment_ok_def admits_def dialed_def tx_ok_def world0_def)
  have unused: "\<not> se_used (ac_sess ?c ! i)" if "i < 64" for i
    using that by (simp add: toy_ac_def ac_ctx0_def session0_def)
  have tab: "ac_table ?c" by (simp add: ac_table_def toy_ac_def ac_ctx0_def session0_def)
  obtain c' v' i where rx: "ac_rx toy_nacl ?c (padr_frame toy_nacl ?h) world0 = Some (c', v')" "i < 64"
      "se_used (ac_sess c' ! i)" "se_cmac (ac_sess c' ! i) = ho_mac ?h"
    by (rule ac_at_padr [OF ok(1,2) toy_sign_ok ok(3-7) r])
  have "\<exists>pub sig. (pub \<in> set (ac_peers ?c) \<or> ac_learn ?c) \<and>
      ed25519_verify toy_nacl (IPV69_CTRL_PADR # se_cmac (ac_sess c' ! i)) sig pub = 0"
    by (rule session_needs_signature [OF rx(1) tab ok(8) rx(2,3)]) (use unused in simp)
  then show ?thesis using rx(1,4) by (auto simp: dialed_def)
qed

section \<open>Frames across the session\<close>

lemma be16_app [simp]: "ipv69_get_be16 (ipv69_put_be16 v @ r) = v"
  by (simp add: codec_simps)

text \<open>C18: An inner frame of 46 to 2000 bytes crosses an open session in both directions unchanged: what
  the concentrator sends into the session is what the host puts on its TAP, and what the host
  reads from its TAP is what the concentrator takes out of the session.\<close>

theorem session_carries_frames:
  assumes macs: "length (ac_mac c) = 6" "length (ho_mac d) = 6" "ac_mac c \<noteq> ho_mac d"
    and f: "46 \<le> length f" "length f \<le> 2000" and tx: "tx_ok w"
    and s: "sess_by_cmac c (ho_mac d) = Some i" "ho_sid d = se_sid (ac_sess c ! i)" "ho_ac_mac d = ac_mac c"
  shows "(\<exists>w' g. ac_session_send c (ac_sess c ! i) f w = Some (0, w') \<and> w_out w' = w_out w @ [L2 (ho_mac d) g] \<and>
       host_down d g = Some (Some f)) \<and>
    (\<exists>w' g. host_up d f w = (0, w') \<and> w_out w' = w_out w @ [L2 (ac_mac c) g] \<and> length g \<le> 2048 \<and>
       ac_rx N c g v = ac_inner c i f v)"
proof
  have cm: "se_cmac (ac_sess c ! i) = ho_mac d" using s(1) by (simp add: sess_by_cmac_def sess_find_Some)
  let ?g = "build_frame (ho_mac d) (ac_mac c) (ac_addr c) IPV69_BCAST_ADDR IPV69_NEXT_PPPOE 64 0 0 (ipv69_put_be16 (ho_sid d) @ f)"
  note G = built_frame [OF macs(2,1), of "ac_addr c" IPV69_BCAST_ADDR IPV69_NEXT_PPPOE 64 0 0 "ipv69_put_be16 (ho_sid d) @ f"]
  have "host_down d ?g = Some (Some f)"
    using G macs f by (simp add: host_down_def Let_def)
  moreover have "ac_session_send c (ac_sess c ! i) f w = Some (0, w\<lparr>w_txn := Suc (w_txn w), w_out := w_out w @ [L2 (ho_mac d) ?g]\<rparr>)"
    using G f tx s(2) cm by (simp add: ac_session_send_def Let_def l2_send_def transmit_ok)
  ultimately show "\<exists>w' g. ac_session_send c (ac_sess c ! i) f w = Some (0, w') \<and> w_out w' = w_out w @ [L2 (ho_mac d) g] \<and>
       host_down d g = Some (Some f)"
    by (intro exI conjI) (assumption, simp, assumption)
next
  let ?g = "build_frame (ac_mac c) (ho_mac d) 0 (ho_ac_addr d) IPV69_NEXT_PPPOE 64 0 0 (ipv69_put_be16 (ho_sid d) @ f)"
  note G = built_frame [OF macs(1,2), of 0 "ho_ac_addr d" IPV69_NEXT_PPPOE 64 0 0 "ipv69_put_be16 (ho_sid d) @ f"]
  have len: "length ?g \<le> 2048" using G f by simp
  have "ac_rx N c ?g v = ac_inner c i f v"
    using G macs f s by (simp add: ac_rx_def ac_rx_session_def Let_def)
  moreover have "host_up d f w = (0, w\<lparr>w_txn := Suc (w_txn w), w_out := w_out w @ [L2 (ac_mac c) ?g]\<rparr>)"
    using f tx s(3) by (auto simp: host_up_def Let_def l2_send_def transmit_ok)
  ultimately show "\<exists>w' g. host_up d f w = (0, w') \<and> w_out w' = w_out w @ [L2 (ac_mac c) g] \<and> length g \<le> 2048 \<and>
       ac_rx N c g v = ac_inner c i f v"
    using len by (intro exI [of _ "w\<lparr>w_txn := Suc (w_txn w), w_out := w_out w @ [L2 (ac_mac c) ?g]\<rparr>"] exI [of _ ?g]) simp
qed

definition toy_open :: ac_ctx where
  "toy_open = toy_ac\<lparr>ac_sess := (ac_sess toy_ac)[0 := session0\<lparr>se_sid := 1, se_used := True, se_cmac := [2, 0, 0, 0, 0, 2]\<rparr>]\<rparr>"

lemma toy_open_session: "sess_by_cmac toy_open [2, 0, 0, 0, 0, 2] = Some 0" "se_sid (ac_sess toy_open ! 0) = 1"
  by (simp_all add: sess_by_cmac_def sess_find_Some toy_open_def toy_ac_def ac_ctx0_def)

definition toy_member :: host_ctx where
  "toy_member = toy_host\<lparr>ho_sid := 1, ho_ac_mac := [2, 0, 0, 0, 0, 1]\<rparr>"

theorem session_carries_frames_witness:
  "\<exists>w' g. ac_session_send toy_open (ac_sess toy_open ! 0) (zeros 100) world0 = Some (0, w') \<and>
     host_down toy_member g = Some (Some (zeros 100))"
proof -
  have m: "ac_mac toy_open = [2, 0, 0, 0, 0, 1]" "ho_mac toy_member = [2, 0, 0, 0, 0, 2]" "ho_sid toy_member = 1"
      "ho_ac_mac toy_member = [2, 0, 0, 0, 0, 1]"
    by (simp_all add: toy_open_def toy_ac_def toy_member_def toy_host_def)
  show ?thesis
    using session_carries_frames [of toy_open toy_member "zeros 100" world0 0 toy_nacl world0] toy_open_session
    by (simp only: m) (auto simp: tx_ok_def world0_def)
qed

text \<open>The concentrator writes past its frame buffer exactly for inner frames of 2001 to 2046 bytes:
  the check before admits them to a 2048-byte payload, which leaves no room for the 46 bytes of
  headers in the 2048-byte frame.\<close>

theorem session_send_overrun:
  assumes "length (ac_mac c) = 6" "length (se_cmac s) = 6"
  shows "ac_session_send c s f w = None \<longleftrightarrow> length f \<in> {2001..2046}"
  using assms by (auto simp: ac_session_send_def Let_def len_simps)

theorem session_send_overrun_witness: "ac_session_send toy_ac session0 (zeros 2001) world0 = None"
  by (simp add: session_send_overrun toy_ac_def session0_def)

section \<open>What the segment can do\<close>

text \<open>Any station can close any session: a PADT made of the session number and a tag under the key
  that is public from the concentrator's address frees it, whatever MAC sent it.\<close>

theorem padt_closes_any_session:
  assumes "length m = 6" "length (ac_mac c) = 6" "m \<noteq> ac_mac c" "take_bit 40 (ac_addr c) = ac_addr c"
    and s: "sess_by_sid c sid = Some i"
  shows "\<exists>p. p = [IPV69_CTRL_PADT] @ ipv69_put_be16 sid \<and>
    ac_rx N c (build_frame (ac_mac c) m 0 (ac_addr c) IPV69_NEXT_CONTROL 64 0 0 (p @ mac1_compute N (mac1_key N (ac_addr c)) p)) w =
      Some (sess_free i c, w)"
proof -
  define p where "p = [IPV69_CTRL_PADT] @ ipv69_put_be16 sid"
  let ?q = "p @ mac1_compute N (mac1_key N (ac_addr c)) p"
  have p: "length p = 3" "bget ?q 0 = IPV69_CTRL_PADT" "ipv69_get_be16 (drop 1 ?q) = sid"
    by (simp_all add: p_def)
  have q: "slice 0 3 ?q = p" "drop 3 ?q = mac1_compute N (mac1_key N (ac_addr c)) p" "length ?q = 19"
    using p(1) by simp_all
  have mac: "mac1_verify N (mac1_key N (ac_addr c)) p (mac1_compute N (mac1_key N (ac_addr c)) p) = 0"
    using mac1_verify_compute [of N _ p "[]"] by simp
  note F = built_frame [OF assms(2,1), of 0 "ac_addr c" IPV69_NEXT_CONTROL 64 0 0 ?q]
  have "ac_rx N c (build_frame (ac_mac c) m 0 (ac_addr c) IPV69_NEXT_CONTROL 64 0 0 ?q) w = Some (ac_rx_padt N c ?q, w)"
    using F assms(3,4) p(2) q(3) by (simp add: ac_rx_def Let_def)
  moreover have "ac_rx_padt N c ?q = sess_free i c"
    using q p(3) mac s by (simp add: ac_rx_padt_def)
  ultimately show ?thesis using p_def by auto
qed

theorem padt_closes_any_session_witness:
  "\<exists>f. ac_rx toy_nacl toy_open f world0 = Some (sess_free 0 toy_open, world0)"
proof -
  have "sess_by_sid toy_open 1 = Some 0"
    by (simp add: sess_by_sid_def sess_find_Some toy_open_def toy_ac_def ac_ctx0_def)
  then show ?thesis
    using padt_closes_any_session [of "[6, 6, 6, 6, 6, 6]" toy_open 1 0 toy_nacl world0]
    by (auto simp: toy_open_def toy_ac_def take_bit_eq_mod)
qed

text \<open>A dialed host takes over another's address: after one broadcast frame from the session in
  slot \<open>i\<close> whose inner source is \<open>a\<close>, frames for \<open>a\<close> go to slot \<open>i\<close> even while a session in a
  later slot holds \<open>a\<close>; nothing compares the claim with the key that opened the session.\<close>

theorem address_takeover:
  assumes len: "length (ac_sess c) = 64" and i: "i < 64" "se_used (ac_sess c ! i)"
    and first: "\<forall>j<i. se_used (ac_sess c ! j) \<longrightarrow> se_addr (ac_sess c ! j) \<noteq> take_bit 40 a"
    and a: "take_bit 40 a \<noteq> 0" "length m = 6"
  shows "\<exists>c' w'. ac_inner c i (build_frame bcast_mac m a IPV69_BCAST_ADDR IPV69_NEXT_DGRAM 64 0 0 [0]) w = Some (c', w') \<and>
    sess_by_addr c' (take_bit 40 a) = Some i"
proof -
  let ?f = "build_frame bcast_mac m a IPV69_BCAST_ADDR IPV69_NEXT_DGRAM 64 0 0 [0]"
  note F = built_frame [OF length_bcast_mac a(2), of a IPV69_BCAST_ADDR IPV69_NEXT_DGRAM 64 0 0 "[0]"]
  let ?c = "upd_sess i (sess_learn ?f (w_time w)) c"
  have "sess_by_addr ?c (take_bit 40 a) = Some i"
    using len i first a F by (auto simp: sess_by_addr_def sess_find_Some sess_learn_def Let_def)
  moreover have "\<exists>w'. ac_inner c i ?f w = Some (?c, w')"
    using F by (simp add: ac_inner_def Let_def)
  ultimately show ?thesis by blast
qed

theorem address_takeover_witness:
  "\<exists>f c' w'. ac_inner toy_open 0 f world0 = Some (c', w') \<and> sess_by_addr c' 9 = Some 0"
  using address_takeover [of toy_open 0 9 "[2, 0, 0, 0, 0, 2]" world0]
  by (auto simp: toy_open_def toy_ac_def ac_ctx0_def take_bit_eq_mod)

end
