(* ===== verification/Pppoe_Refine.thy ===== *)
theory Pppoe_Refine
  imports Pppoe_Dial
begin

text \<open>
  The session table of the concentrator refines a registry, a finite map from session numbers
  to the control MACs of their hosts: whatever happens, the registry only opens a number that
  is free for a MAC that has none, or closes one.
\<close>

definition registry :: "ac_ctx \<Rightarrow> u16 \<Rightarrow> bytes option" where
  "registry c = (\<lambda>n. map_option (\<lambda>i. se_cmac (ac_sess c ! i)) (sess_by_sid c n))"

inductive reg_step :: "(u16 \<rightharpoonup> bytes) \<Rightarrow> (u16 \<rightharpoonup> bytes) \<Rightarrow> bool" where
  Open: "n \<notin> dom m \<Longrightarrow> n \<noteq> 0 \<Longrightarrow> mac \<notin> ran m \<Longrightarrow> reg_step m (m(n \<mapsto> mac))"
| Close: "n \<in> dom m \<Longrightarrow> reg_step m (m(n := None))"

inductive_simps reg_step_iff: "reg_step m m'"

section \<open>Reading the registry\<close>

lemma map_eqI: "(\<And>n v. f n = Some v \<longleftrightarrow> g n = Some v) \<Longrightarrow> f = g"
  by (rule ext) (metis not_Some_eq)

lemma registry_Some:
  "ac_table c \<Longrightarrow> registry c n = Some m \<longleftrightarrow>
     (\<exists>i<64. se_used (ac_sess c ! i) \<and> se_sid (ac_sess c ! i) = n \<and> se_cmac (ac_sess c ! i) = m)"
proof
  assume "registry c n = Some m"
  then show "\<exists>i<64. se_used (ac_sess c ! i) \<and> se_sid (ac_sess c ! i) = n \<and> se_cmac (ac_sess c ! i) = m"
    by (auto simp: registry_def sess_by_sid_def sess_find_Some)
next
  assume t: "ac_table c" and "\<exists>i<64. se_used (ac_sess c ! i) \<and> se_sid (ac_sess c ! i) = n \<and> se_cmac (ac_sess c ! i) = m"
  then obtain i where i: "i < 64" "se_used (ac_sess c ! i)" "se_sid (ac_sess c ! i) = n" "se_cmac (ac_sess c ! i) = m" by blast
  have "j = i" if "j < i" "se_used (ac_sess c ! j)" "se_sid (ac_sess c ! j) = n" for j
    using that i t less_trans [of j i 64] unfolding ac_table_def by metis
  then have "sess_by_sid c n = Some i" using i by (auto simp: sess_by_sid_def sess_find_Some)
  then show "registry c n = Some m" using i by (simp add: registry_def)
qed

lemma upd_sess_at:
  "ac_table c \<Longrightarrow> j < 64 \<Longrightarrow> ac_sess (upd_sess i f c) ! j = (if j = i then f (ac_sess c ! i) else ac_sess c ! j)"
  by (simp add: ac_table_def upd_sess_def nth_list_update)

text \<open>What one session update means for it.\<close>

lemma registry_same:
  assumes "ac_table c" "ac_table d"
    "\<And>i. i < 64 \<Longrightarrow> se_used (ac_sess d ! i) = se_used (ac_sess c ! i) \<and>
      (se_used (ac_sess c ! i) \<longrightarrow> se_sid (ac_sess d ! i) = se_sid (ac_sess c ! i) \<and> se_cmac (ac_sess d ! i) = se_cmac (ac_sess c ! i))"
  shows "registry d = registry c"
  by (rule map_eqI) (use assms in \<open>auto simp: registry_Some\<close>)

lemma registry_free:
  assumes "ac_table c" "i < 64" "se_used (ac_sess c ! i)"
  shows "registry (sess_free i c) = (registry c)(se_sid (ac_sess c ! i) := None)"
proof (rule map_eqI)
  fix n v
  have len: "length (ac_sess c) = 64" using assms(1) by (simp add: ac_table_def)
  have s: "ac_sess (sess_free i c) ! j = (if j = i then session0 else ac_sess c ! j)" for j
    using len assms(2) by (simp add: sess_free_def)
  have "se_sid (ac_sess c ! j) \<noteq> se_sid (ac_sess c ! i)" if "j < 64" "j \<noteq> i" "se_used (ac_sess c ! j)" for j
    using assms that unfolding ac_table_def by metis
  then have "(\<exists>j<64. se_used (ac_sess (sess_free i c) ! j) \<and> se_sid (ac_sess (sess_free i c) ! j) = n \<and> se_cmac (ac_sess (sess_free i c) ! j) = v) \<longleftrightarrow>
      n \<noteq> se_sid (ac_sess c ! i) \<and> (\<exists>j<64. se_used (ac_sess c ! j) \<and> se_sid (ac_sess c ! j) = n \<and> se_cmac (ac_sess c ! j) = v)"
    by (simp add: s session0_def) metis
  then show "registry (sess_free i c) n = Some v \<longleftrightarrow> ((registry c)(se_sid (ac_sess c ! i) := None)) n = Some v"
    using registry_Some [OF assms(1)] registry_Some [OF ac_table_free [OF assms(1), of i]] by simp
qed

section \<open>Every operation is a step of the registry, or none\<close>

lemma refines_free: "ac_table c \<Longrightarrow> reg_step\<^sup>=\<^sup>= (registry c) (registry (sess_free i c))"
proof (cases "i < 64 \<and> se_used (ac_sess c ! i)")
  case True
  assume t: "ac_table c"
  have "registry c (se_sid (ac_sess c ! i)) = Some (se_cmac (ac_sess c ! i))" using t True by (auto simp: registry_Some)
  then show ?thesis using registry_free [OF t] True by (auto simp: reg_step_iff)
next
  case False
  assume t: "ac_table c"
  have "registry (sess_free i c) = registry c"
    by (rule registry_same [OF t ac_table_free [OF t]])
      (use False in \<open>auto simp: sess_free_def upd_sess_at [OF t] session0_def\<close>)
  then show ?thesis by simp
qed

lemma refines_alloc:
  assumes t: "ac_table c" and a: "sess_alloc c now = Some (i, d)" and m: "sess_by_cmac c mac = None"
  shows "reg_step (registry c) (registry (upd_sess i (\<lambda>s. s\<lparr>se_cmac := mac\<rparr>) d))"
proof -
  let ?e = "upd_sess i (\<lambda>s. s\<lparr>se_cmac := mac\<rparr>) d"
  obtain k where k: "i < 64" "\<not> se_used (ac_sess c ! i)"
    "d = upd_sess i (\<lambda>s. session0\<lparr>se_used := True, se_sid := of_nat k, se_last := now\<rparr>) c"
    "(of_nat k :: u16) \<noteq> 0" "\<forall>j<64. se_used (ac_sess c ! j) \<longrightarrow> se_sid (ac_sess c ! j) \<noteq> of_nat k"
    by (rule sess_alloc_Some [OF a])
  have len: "length (ac_sess c) = 64" using t by (simp add: ac_table_def)
  have s: "ac_sess ?e ! j = (if j = i then session0\<lparr>se_used := True, se_sid := of_nat k, se_last := now, se_cmac := mac\<rparr> else ac_sess c ! j)" for j
    using len k(1) by (simp add: k(3))
  have e: "ac_table ?e" by (rule ac_table_alloc [OF t a m])
  have "registry ?e = (registry c)(of_nat k \<mapsto> mac)"
  proof (rule map_eqI)
    fix n v
    show "registry ?e n = Some v \<longleftrightarrow> ((registry c)(of_nat k \<mapsto> mac)) n = Some v"
      unfolding fun_upd_apply using registry_Some [OF e, of n v] registry_Some [OF t, of n v] k(1,2,5) by (auto simp: s)
  qed
  moreover have "of_nat k \<notin> dom (registry c)" using k(5) t by (auto simp: registry_Some)
  moreover have "mac \<notin> ran (registry c)" using m t by (auto simp: ran_def registry_Some sess_by_cmac_def sess_find_None)
  ultimately show ?thesis using k(4) by (auto intro: reg_step.Open)
qed

lemma refines_same:
  assumes "ac_table c" "ac_sess d = ac_sess c" "ac_table d"
  shows "registry d = registry c"
  by (rule registry_same [OF assms(1,3)]) (simp add: assms(2))

lemma refines_rx:
  assumes t: "ac_table c" and rx: "ac_rx N c f w = Some (c', w')"
  shows "reg_step\<^sup>=\<^sup>= (registry c) (registry c')"
  using rx
proof (cases rule: ac_rx_cases)
  case 1
  then show ?thesis by simp
next
  case (2 k g v)
  then have "c' = c \<or> c' = upd_sess k (sess_learn g (w_time v)) c"
    by (auto simp: ac_inner_def Let_def split: if_splits option.splits)
  moreover have "registry (upd_sess k h c) = registry c" if "h = sess_learn g (w_time v)" for h
    by (rule registry_same [OF t ac_table_upd [OF t]])
      (use that in \<open>auto simp: upd_sess_at [OF t]\<close>)
  ultimately show ?thesis by auto
next
  case (3 k)
  then show ?thesis using refines_free [OF t] by simp
next
  case (4 p v)
  from 4(1) show ?thesis
  proof (cases rule: padr_cases)
    case 1
    then show ?thesis by simp
  next
    case (2 d u u')
    then show ?thesis using refines_same [OF t check_padr_same(1) check_padr_same(5)] t by auto
  next
    case (3 d u u')
    then show ?thesis using refines_same [OF t check_padr_same(1) check_padr_same(5)] t by auto
  next
    case (4 d u u' i e now)
    have "registry d = registry c" "ac_table d" using refines_same [OF t check_padr_same(1,5) [OF 4(1)]] check_padr_same(5) [OF 4(1)] t by auto
    then show ?thesis using refines_alloc [OF _ 4(3,2)] 4(4) by auto
  qed
qed

lemma refines_reap:
  assumes "ac_table c"
  shows "reg_step\<^sup>*\<^sup>* (registry c) (registry (fst (ac_reap c w)))"
proof -
  have "ac_table c \<Longrightarrow> reg_step\<^sup>*\<^sup>* (registry c) (registry (fst (fold ac_reap_one is (c, w))))" for "is"
  proof (induction "is" arbitrary: c w)
    case (Cons i js)
    obtain d v where d: "ac_reap_one i (c, w) = (d, v)" by (cases "ac_reap_one i (c, w)")
    then have "d = c \<or> d = sess_free i c" by (auto simp: ac_reap_one_def split: if_splits)
    then have "ac_table d" "reg_step\<^sup>*\<^sup>* (registry c) (registry d)"
      using Cons.prems ac_table_free refines_free [OF Cons.prems, of i] by auto
    then show ?case using Cons.IH [of d v] d by (auto intro: rtranclp_trans)
  qed simp
  then show ?thesis using assms by (simp add: ac_reap_def)
qed

lemma refines_turn:
  assumes t: "ac_table c" and turn: "ac_turn N changed ev (c, w) = Some (c', w')"
  shows "reg_step\<^sup>*\<^sup>* (registry c) (registry c')"
proof -
  define d where "d = (case ac_peer_file c of Some path \<Rightarrow> if changed then peer_file_load N c path w else c | None \<Rightarrow> c)"
  have d: "ac_table d" using t ac_table_load by (auto simp: d_def split: option.splits)
  have "ac_sess d = ac_sess c" by (auto simp: d_def peer_file_load_def split: option.splits)
  then have r: "registry d = registry c" by (rule refines_same [OF t _ d])
  obtain e v where e: "ac_reap d w = (e, v)" by (cases "ac_reap d w")
  have s: "reg_step\<^sup>*\<^sup>* (registry c) (registry e)" using refines_reap [OF d, of w] e r by simp
  have te: "ac_table e" using ac_table_reap [OF d, of w] e by simp
  have "c' = e \<or> (\<exists>f u. ac_rx N e f u = Some (c', w'))"
    using turn unfolding ac_turn_def by (auto simp: Let_def d_def [symmetric] e split: rx_result.splits if_splits)
  then consider "c' = e" | f u where "ac_rx N e f u = Some (c', w')" by blast
  then have "reg_step\<^sup>=\<^sup>= (registry e) (registry c')"
  proof cases
    case (2 f u)
    show ?thesis by (rule refines_rx [OF te 2])
  qed simp
  then have "reg_step\<^sup>*\<^sup>* (registry e) (registry c')" by auto
  with s show ?thesis by (rule rtranclp_trans)
qed

text \<open>C13: The concentrator refines the registry: one received frame is at most one step of it, a number
  that is free opened for a MAC that has none or a number closed, and every run is a
  sequence of such steps.\<close>

theorem sessions_refine_registry:
  assumes "ac_run N c d" "ac_table c" "ac_rx N d f w = Some (e, w')"
  shows "reg_step\<^sup>*\<^sup>* (registry c) (registry d) \<and> reg_step\<^sup>=\<^sup>= (registry d) (registry e)"
proof
  have r: "ac_table d \<and> reg_step\<^sup>*\<^sup>* (registry c) (registry d)"
    using assms(1,2)
  proof (induction rule: ac_run.induct)
    case (Turn d changed ev w e w')
    then show ?case using refines_turn ac_table_turn by (meson rtranclp_trans)
  qed simp
  then show "reg_step\<^sup>*\<^sup>* (registry c) (registry d)" ..
  show "reg_step\<^sup>=\<^sup>= (registry d) (registry e)" using refines_rx r assms(3) by blast
qed

text \<open>An open session is a step from the empty registry.\<close>

theorem sessions_refine_registry_witness:
  "\<exists>e v'. reg_step (registry toy_ac) (registry e) \<and> ac_rx toy_nacl toy_ac (padr_frame toy_nacl (dialed toy_host toy_ac)) world0 = Some (e, v')"
proof -
  let ?h = "dialed toy_host toy_ac"
  obtain rt where r: "rate_allow (w_rate world0) (w_ms world0) (ho_mac ?h @ [0, 0]) 10 20 1 = (True, rt)"
    using rate_twice [of "w_ms world0" "ho_mac ?h @ [0, 0]" 10 20] by (auto simp: world0_def)
  have ok: "segment_ok toy_nacl ?h toy_ac" "tx_ok world0" "admits toy_ac (slice 32 32 (ho_sk ?h))" "length (ac_sess toy_ac) = 64"
      "\<exists>i<64. \<not> se_used (ac_sess toy_ac ! i)" "ho_ac_mac ?h = ac_mac toy_ac" "ho_ac_addr ?h = ac_addr toy_ac"
    using toy_segment by (auto simp: segment_ok_def admits_def dialed_def tx_ok_def world0_def)
  have tab: "ac_table toy_ac" by (simp add: ac_table_def toy_ac_def ac_ctx0_def session0_def)
  obtain e v' i where rx: "ac_rx toy_nacl toy_ac (padr_frame toy_nacl ?h) world0 = Some (e, v')" "i < 64"
      "se_used (ac_sess e ! i)" "se_cmac (ac_sess e ! i) = ho_mac ?h"
    by (rule ac_at_padr [OF ok(1,2) toy_sign_ok ok(3-7) r])
  have "reg_step\<^sup>=\<^sup>= (registry toy_ac) (registry e)"
    using sessions_refine_registry [OF ac_run.Start tab rx(1)] by blast
  moreover have "registry e \<noteq> registry toy_ac"
  proof -
    have "registry e (se_sid (ac_sess e ! i)) = Some (ho_mac ?h)"
      using registry_Some [OF ac_table_rx [OF tab rx(1)]] rx(2-4) by blast
    moreover have "\<not> se_used (ac_sess toy_ac ! j)" if "j < 64" for j using that by (simp add: toy_ac_def ac_ctx0_def session0_def)
    ultimately show ?thesis using registry_Some [OF tab] by metis
  qed
  ultimately have "reg_step (registry toy_ac) (registry e)" by auto
  then show ?thesis using rx(1) by blast
qed

end
