(* ===== verification/BaitName.thy ===== *)
theory BaitName
  imports Addr
begin

text \<open>
  The self-authenticating names of \<^verbatim>\<open>c/src/BITE/baitname.c\<close>: a label is 32 base32 characters
  of the key's SHA-512, its first eight name the 40-bit address, and a vanity search draws
  key pairs until the label has a wanted prefix. A C string is the list of its characters.
\<close>

section \<open>The base32 alphabet\<close>

abbreviation (input) BAIT_LABEL_LEN :: nat where "BAIT_LABEL_LEN \<equiv> 32"

definition BAIT_ALPHABET :: string where
  "BAIT_ALPHABET = ''abcdefghijklmnopqrstuvwxyz234567''"

definition b32v :: "char \<Rightarrow> int" where
  "b32v c =
     (let n = of_char c :: nat
      in if 97 \<le> n \<and> n \<le> 122 then int n - 97
         else if 65 \<le> n \<and> n \<le> 90 then int n - 65
         else if 50 \<le> n \<and> n \<le> 55 then int n - 50 + 26
         else -1)"

section \<open>Labels\<close>

text \<open>The inner loop of both directions: groups of \<open>k\<close> bits are taken off the accumulator while it
  has that many; the groups and the bits left.\<close>

function drain :: "nat \<Rightarrow> u32 \<Rightarrow> nat \<Rightarrow> u32 list \<times> nat" where
  "drain k acc nbits =
     (if 0 < k \<and> k \<le> nbits
      then let nbits = nbits - k; (vs, r) = drain k acc nbits in (drop_bit nbits acc # vs, r)
      else ([], nbits))"
  by pat_completeness auto
termination
  by (relation "measure (\<lambda>(k, acc, nbits). nbits)") auto

declare drain.simps [simp del]

fun label_loop :: "bytes \<Rightarrow> u32 \<Rightarrow> nat \<Rightarrow> string" where
  "label_loop [] acc nbits = []"
| "label_loop (d # ds) acc nbits =
     (let acc = push_bit 8 acc OR ucast d;
          (vs, nbits) = drain 5 acc (nbits + 8)
      in map (\<lambda>v. BAIT_ALPHABET ! unat (v AND 0x1f)) vs @ label_loop ds acc nbits)"

definition bait_label_from_pub :: "nacl \<Rightarrow> bytes \<Rightarrow> string" where
  "bait_label_from_pub N pub = label_loop (slice 0 20 (ed25519_sha512 N (slice 0 32 pub))) 0 0"

definition bait_label_valid :: "string option \<Rightarrow> bool" where
  "bait_label_valid label =
     (case label of None \<Rightarrow> False | Some l \<Rightarrow> length l = BAIT_LABEL_LEN \<and> (\<forall>c\<in>set l. \<not> b32v c < 0))"

text \<open>The first characters of the label, read up to its end.\<close>

fun addr_loop :: "string \<Rightarrow> u32 \<Rightarrow> nat \<Rightarrow> bytes option" where
  "addr_loop [] acc nbits = Some []"
| "addr_loop (c # cs) acc nbits =
     (if b32v c < 0 then None
      else let acc = push_bit 5 acc OR word_of_int (b32v c);
               (vs, nbits) = drain 8 acc (nbits + 5)
           in map_option (\<lambda>ds. map (\<lambda>v. ucast (v AND 0xff)) vs @ ds) (addr_loop cs acc nbits))"

definition bait_label_to_addr :: "string \<Rightarrow> bytes option" where
  "bait_label_to_addr label =
     (if length label < 8 then None
      else case addr_loop (take 8 label) 0 0 of
        None \<Rightarrow> None
      | Some d \<Rightarrow>
          if length d < 5 then None
          else Some [0x80 OR (d ! 0 AND 0x3f), d ! 1, d ! 2, d ! 3, d ! 4])"

section \<open>The vanity search\<close>

text \<open>The search may not end: \<open>fuel\<close> bounds the number of draws, and \<open>None\<close> says it is still
  searching. The progress callback only prints. The result is the secret key, the public key,
  the label and the number of tries.\<close>

fun grind_loop :: "nacl \<Rightarrow> string \<Rightarrow> nat \<Rightarrow> u64 \<Rightarrow> world \<Rightarrow> ((bytes \<times> bytes \<times> string \<times> u64) \<times> world) option" where
  "grind_loop N prefix 0 n w = None"
| "grind_loop N prefix (Suc fuel) n w =
     (case ed25519_keypair N w of
        ((sk, pk), w) \<Rightarrow>
          let l = bait_label_from_pub N pk; n = n + 1
          in if take (length prefix) l = prefix then Some ((sk, pk, l, n), w)
             else grind_loop N prefix fuel n w)"

datatype grind_result = Grind_Bad | Grind_Found bytes bytes string u64 world | Grind_Searching

definition bait_grind :: "nacl \<Rightarrow> string \<Rightarrow> nat \<Rightarrow> world \<Rightarrow> grind_result" where
  "bait_grind N prefix fuel w =
     (if prefix = [] \<or> BAIT_LABEL_LEN < length prefix \<or> (\<exists>c\<in>set prefix. b32v c < 0) then Grind_Bad
      else case grind_loop N prefix fuel 0 w of
        None \<Rightarrow> Grind_Searching
      | Some ((sk, pk, l, n), w) \<Rightarrow> Grind_Found sk pk l n w)"

section \<open>Lemmas on the loops\<close>

lemma drain_less [simp]: "nbits < k \<Longrightarrow> drain k acc nbits = ([], nbits)"
  by (subst drain.simps) simp

lemma drain_step [simp]:
  "0 < k \<Longrightarrow> k \<le> nbits \<Longrightarrow> drain k acc nbits =
     (drop_bit (nbits - k) acc # fst (drain k acc (nbits - k)), snd (drain k acc (nbits - k)))"
  by (subst drain.simps) (simp add: Let_def case_prod_beta)

text \<open>Five bytes give eight characters and leave no bits.\<close>

definition char5 :: "u32 \<Rightarrow> char" where
  "char5 v = BAIT_ALPHABET ! unat (v AND 0x1f)"

definition quintets :: "u8 \<Rightarrow> u8 \<Rightarrow> u8 \<Rightarrow> u8 \<Rightarrow> u8 \<Rightarrow> u32 list" where
  "quintets a b c d e =
     [drop_bit 3 (ucast a), drop_bit 6 (push_bit 8 (ucast a) OR ucast b), drop_bit 1 (ucast b),
      drop_bit 4 (push_bit 8 (ucast b) OR ucast c), drop_bit 7 (push_bit 8 (ucast c) OR ucast d), drop_bit 2 (ucast d),
      drop_bit 5 (push_bit 8 (ucast d) OR ucast e), ucast e]"

lemma and_31: "v AND 31 = take_bit 5 (v :: u32)"
  by (simp add: take_bit_eq_mask mask_eq_exp_minus_1)

lemma ucast_ff: "ucast (v AND 255 :: u32) = (ucast v :: u8)"
proof -
  have "v AND 255 = take_bit 8 v" by (simp add: take_bit_eq_mask mask_eq_exp_minus_1)
  then show ?thesis by (auto intro!: bit_word_eqI simp: bit_simps)
qed

lemma bit_u8_high [simp]: "8 \<le> n \<Longrightarrow> \<not> bit (a :: u8) n"
  using bit_imp_le_length by fastforce

lemma char5_eq: "(\<And>n. n < 5 \<Longrightarrow> bit v n = bit w n) \<Longrightarrow> char5 v = char5 w"
  unfolding char5_def and_31 by (rule arg_cong [of "take_bit 5 v" "take_bit 5 w"]) (auto intro!: bit_word_eqI simp: bit_simps)

lemma label_loop_5:
  "\<exists>acc'. label_loop (a # b # c # d # e # r) acc 0 = map char5 (quintets a b c d e) @ label_loop r acc' 0"
proof (rule exI)
  let ?s = "\<lambda>acc x. push_bit 8 acc OR ucast (x :: u8) :: u32"
  show "label_loop (a # b # c # d # e # r) acc 0 =
      map char5 (quintets a b c d e) @ label_loop r (?s (?s (?s (?s (?s acc a) b) c) d) e) 0"
    by (simp add: Let_def char5_def [symmetric] quintets_def) (intro conjI char5_eq; auto simp: bit_simps)
qed

declare label_loop.simps(2) [simp del]

lemma bytes5: "length ds = 5 * Suc n \<Longrightarrow> \<exists>a b c d e r. ds = a # b # c # d # e # r \<and> length r = 5 * n"
  by (auto simp: length_Suc_conv numeral_eq_Suc)

text \<open>Induction on a byte string five bytes at a time.\<close>

lemma bytes5_induct [consumes 1, case_names Nil Five]:
  assumes "length ds = 5 * n" "P []"
    "\<And>a b c d e r. P r \<Longrightarrow> P (a # b # c # d # e # r)"
  shows "P ds"
  using assms(1)
proof (induction n arbitrary: ds)
  case 0
  then show ?case using assms(2) by simp
next
  case (Suc n)
  then obtain a b c d e r where "ds = a # b # c # d # e # r" "length r = 5 * n" using bytes5 by blast
  then show ?case using Suc.IH assms(3) by simp
qed

lemma length_label_loop: "length ds = 5 * n \<Longrightarrow> \<forall>acc. 5 * length (label_loop ds acc 0) = 8 * length ds"
proof (induction rule: bytes5_induct)
  case (Five a b c d e r)
  have "5 * length (label_loop (a # b # c # d # e # r) acc 0) = 40 + 8 * length r" for acc
    using label_loop_5 [of a b c d e r acc] Five by (auto simp: quintets_def)
  then show ?case by simp
qed simp

lemma length_label [simp]: "length (bait_label_from_pub N pub) = 32"
  using length_label_loop [of "slice 0 20 (ed25519_sha512 N (slice 0 32 pub))" 4] by (simp add: bait_label_from_pub_def)

section \<open>Reading characters back\<close>

lemma b32v_alphabet: "i < 32 \<Longrightarrow> b32v (BAIT_ALPHABET ! i) = int i"
proof -
  have "\<forall>i\<in>set [0..<32]. b32v (BAIT_ALPHABET ! i) = int i" by (simp add: upt_conv_Cons b32v_def BAIT_ALPHABET_def Let_def)
  then show "i < 32 \<Longrightarrow> b32v (BAIT_ALPHABET ! i) = int i" by simp
qed

lemma unat_31: "unat (v AND 31 :: u32) < 32"
proof -
  have "unat (v AND 31) \<le> unat (31 :: u32)" by (meson word_and_le1 word_le_nat_alt)
  then show ?thesis by simp
qed

lemma b32v_char5: "b32v (char5 v) = int (unat (take_bit 5 v))"
  unfolding char5_def using b32v_alphabet [OF unat_31] by (simp add: and_31)

lemma word_b32v_char5 [simp]: "word_of_int (b32v (char5 v)) = take_bit 5 v" "\<not> b32v (char5 v) < 0"
  by (simp_all add: b32v_char5)

lemma byte_eqI:
  fixes a b :: u8
  assumes "bit a 0 = bit b 0" "bit a 1 = bit b 1" "bit a 2 = bit b 2" "bit a 3 = bit b 3"
    "bit a 4 = bit b 4" "bit a 5 = bit b 5" "bit a 6 = bit b 6" "bit a 7 = bit b 7"
  shows "a = b"
proof (rule bit_word_eqI)
  fix n assume "n < LENGTH(8)"
  then have "n \<in> {0, 1, 2, 3, 4, 5, 6, 7}" by auto
  then show "bit a n = bit b n" using assms by auto
qed

lemma addr_loop_8:
  "addr_loop (map char5 (quintets a b c d e)) 0 0 = Some [a, b, c, d, e]"
  by (simp add: quintets_def Let_def ucast_ff) (intro conjI byte_eqI; simp add: bit_simps numeral_2_eq_2 [symmetric])

section \<open>Properties\<close>

lemma sha_20: "\<exists>a b c d e r. slice 0 20 (ed25519_sha512 N p) = a # b # c # d # e # r \<and>
    a = bget (ed25519_sha512 N p) 0 \<and> [b, c, d, e] = slice 1 4 (ed25519_sha512 N p)"
  by (simp add: slice_def upt_conv_Cons)

lemma label_loop_chars: "length ds = 5 * n \<Longrightarrow> \<forall>acc. set (label_loop ds acc 0) \<subseteq> range char5"
proof (induction rule: bytes5_induct)
  case (Five a b c d e r)
  then show ?case using label_loop_5 [of a b c d e r] by (metis Un_least image_subset_iff list.set_map rangeI set_append)
qed simp

lemma label_chars: "set (bait_label_from_pub N pub) \<subseteq> range char5"
  using label_loop_chars [of "slice 0 20 (ed25519_sha512 N (slice 0 32 pub))" 4] by (simp add: bait_label_from_pub_def)

lemma char5_alphabet: "char5 v \<in> set BAIT_ALPHABET"
  unfolding char5_def using unat_31 [of v] by (intro nth_mem) (simp add: BAIT_ALPHABET_def)

text \<open>A name is its own address record: decoding the label of any key gives exactly the class-C
  address derived from that key, so resolution needs no lookup. The label is a valid one.\<close>

theorem label_names_address:
  "bait_label_to_addr (bait_label_from_pub N pub) = Some (ipv69_addr_derive N pub CHR ''C'') \<and>
   bait_label_valid (Some (bait_label_from_pub N pub))"
proof
  let ?h = "ed25519_sha512 N (slice 0 32 pub)"
  obtain a b c d e r where h: "slice 0 20 ?h = a # b # c # d # e # r" "a = bget ?h 0" "[b, c, d, e] = slice 1 4 ?h"
    using sha_20 by blast
  obtain acc' where l: "bait_label_from_pub N pub = map char5 (quintets a b c d e) @ label_loop r acc' 0"
    unfolding bait_label_from_pub_def h(1) using label_loop_5 by blast
  have d: "ipv69_addr_derive N pub CHR ''C'' = (0x80 OR (bget ?h 0 AND 0x3f)) # [b, c, d, e]"
    unfolding h(3) by (simp add: ipv69_addr_derive_def Let_def)
  from l have "take 8 (bait_label_from_pub N pub) = map char5 (quintets a b c d e)" by (simp add: quintets_def)
  then show "bait_label_to_addr (bait_label_from_pub N pub) = Some (ipv69_addr_derive N pub CHR ''C'')"
    using d h(2) by (simp add: bait_label_to_addr_def addr_loop_8)
  show "bait_label_valid (Some (bait_label_from_pub N pub))"
    using label_chars [of N pub] by (force simp: bait_label_valid_def)
qed

lemma label_loop_inj:
  "length ds = 5 * n \<Longrightarrow> \<forall>es acc acc'. length es = length ds \<longrightarrow> label_loop ds acc 0 = label_loop es acc' 0 \<longrightarrow> ds = es"
proof (induction rule: bytes5_induct)
  case (Five a b c d e r)
  show ?case
  proof (intro allI impI)
    fix es acc acc'
    assume len: "length es = length (a # b # c # d # e # r)" and eq: "label_loop (a # b # c # d # e # r) acc 0 = label_loop es acc' 0"
    obtain a' b' c' d' e' r' where es: "es = a' # b' # c' # d' # e' # r'" "length r' = length r"
      using len by (auto simp: length_Suc_conv)
    obtain u u' where "label_loop (a # b # c # d # e # r) acc 0 = map char5 (quintets a b c d e) @ label_loop r u 0"
        "label_loop es acc' 0 = map char5 (quintets a' b' c' d' e') @ label_loop r' u' 0"
      unfolding es using label_loop_5 by metis
    with eq have q: "map char5 (quintets a b c d e) = map char5 (quintets a' b' c' d' e')" "label_loop r u 0 = label_loop r' u' 0"
      by (simp_all add: quintets_def)
    then have "[a, b, c, d, e] = [a', b', c', d', e']" using addr_loop_8 by (metis option.inject)
    with q(2) Five es show "a # b # c # d # e # r = es" by auto
  qed
qed simp

text \<open>A label fixes 160 bits of the key's digest: two keys with the same label have the same first
  20 digest bytes.\<close>

theorem label_fixes_digest:
  assumes "bait_label_from_pub N p = bait_label_from_pub N q"
  shows "slice 0 20 (ed25519_sha512 N (slice 0 32 p)) = slice 0 20 (ed25519_sha512 N (slice 0 32 q))"
proof -
  have "length (slice 0 20 (ed25519_sha512 N (slice 0 32 p))) = 5 * 4" by simp
  from label_loop_inj [OF this] assms show ?thesis unfolding bait_label_from_pub_def by (metis length_slice)
qed

theorem label_fixes_digest_witness:
  "slice 0 20 (ed25519_sha512 toy_nacl (slice 0 32 (zeros 40))) = slice 0 20 (ed25519_sha512 toy_nacl (slice 0 32 (zeros 50)))"
proof (rule label_fixes_digest)
  have "slice 0 32 (zeros 40) = slice 0 32 (zeros 50)" by (simp add: zeros_def slice_eq_take_drop)
  then show "bait_label_from_pub toy_nacl (zeros 40) = bait_label_from_pub toy_nacl (zeros 50)"
    by (simp only: bait_label_from_pub_def)
qed

section \<open>What the search finds\<close>

text \<open>The \<open>k\<close>-th key pair drawn from a world.\<close>

definition nth_draw :: "nacl \<Rightarrow> world \<Rightarrow> nat \<Rightarrow> bytes \<times> bytes" where
  "nth_draw N w k = fst (ed25519_keypair N (w\<lparr>w_rpos := w_rpos w + 32 * k\<rparr>))"

lemma keypair_next:
  "ed25519_keypair N w = (nth_draw N w 0, w\<lparr>w_rpos := w_rpos w + 32\<rparr>)"
  "nth_draw N (w\<lparr>w_rpos := w_rpos w + 32\<rparr>) k = nth_draw N w (Suc k)"
  by (simp_all add: nth_draw_def ed25519_keypair_def randombytes_def Let_def case_prod_beta algebra_simps)

definition hits :: "nacl \<Rightarrow> string \<Rightarrow> world \<Rightarrow> nat \<Rightarrow> bool" where
  "hits N prefix w k \<longleftrightarrow> take (length prefix) (bait_label_from_pub N (snd (nth_draw N w k))) = prefix"

lemma hits_next: "hits N prefix (w\<lparr>w_rpos := w_rpos w + 32\<rparr>) k \<longleftrightarrow> hits N prefix w (Suc k)"
  by (simp add: hits_def keypair_next)

lemma grind_step:
  "grind_loop N prefix (Suc fuel) n w =
     (if hits N prefix w 0
      then Some ((fst (nth_draw N w 0), snd (nth_draw N w 0), bait_label_from_pub N (snd (nth_draw N w 0)), n + 1), w\<lparr>w_rpos := w_rpos w + 32\<rparr>)
      else grind_loop N prefix fuel (n + 1) (w\<lparr>w_rpos := w_rpos w + 32\<rparr>))"
  by (simp add: keypair_next hits_def Let_def case_prod_beta)

lemma grind_first:
  "hits N prefix w k \<Longrightarrow> \<forall>j<k. \<not> hits N prefix w j \<Longrightarrow> k < fuel \<Longrightarrow>
   grind_loop N prefix fuel n w =
     Some ((fst (nth_draw N w k), snd (nth_draw N w k), bait_label_from_pub N (snd (nth_draw N w k)), n + of_nat (Suc k)),
           w\<lparr>w_rpos := w_rpos w + 32 * Suc k\<rparr>)"
proof (induction k arbitrary: fuel n w)
  case 0
  then show ?case by (cases fuel) (simp_all add: grind_step del: grind_loop.simps)
next
  case (Suc k)
  then obtain f where f: "fuel = Suc f" "k < f" by (cases fuel) auto
  let ?v = "w\<lparr>w_rpos := w_rpos w + 32\<rparr>"
  have "hits N prefix ?v k" "\<forall>j<k. \<not> hits N prefix ?v j" "\<not> hits N prefix w 0"
    using Suc.prems by (auto simp: hits_next)
  with Suc.IH [of ?v f "n + 1"] f show ?case
    by (simp add: grind_step keypair_next algebra_simps del: grind_loop.simps)
qed

lemma grind_never: "\<forall>j. \<not> hits N prefix w j \<Longrightarrow> grind_loop N prefix fuel n w = None"
proof (induction fuel arbitrary: n w)
  case (Suc fuel)
  then show ?case by (simp add: grind_step hits_next del: grind_loop.simps)
qed simp

text \<open>C36: The search returns the first key pair drawn whose label starts with the prefix, and returns it
  as soon as it is drawn: if draw \<open>k\<close> is the first that fits, any fuel above \<open>k\<close> gives that pair,
  its label and the count \<open>k + 1\<close>.\<close>

theorem grind_finds_first:
  assumes "prefix \<noteq> []" "length prefix \<le> 32" "\<forall>c\<in>set prefix. 0 \<le> b32v c"
    and "take (length prefix) (bait_label_from_pub N (snd (nth_draw N w k))) = prefix"
    and "\<forall>j<k. take (length prefix) (bait_label_from_pub N (snd (nth_draw N w j))) \<noteq> prefix" "k < fuel"
  shows "bait_grind N prefix fuel w =
    Grind_Found (fst (nth_draw N w k)) (snd (nth_draw N w k)) (bait_label_from_pub N (snd (nth_draw N w k))) (of_nat (Suc k))
      (w\<lparr>w_rpos := w_rpos w + 32 * Suc k\<rparr>)"
  using assms grind_first [of N prefix w k fuel 0] by (auto simp: bait_grind_def hits_def)

text \<open>A toy search: every draw has the same key, whose label starts with the letter at index 0.\<close>

theorem grind_finds_first_witness:
  "\<exists>sk pk l w. bait_grind toy_nacl ''a'' 1 world0 = Grind_Found sk pk l 1 w"
proof -
  have d: "nth_draw toy_nacl world0 0 = (replicate 64 1, replicate 32 1)"
    by (simp add: nth_draw_def ed25519_keypair_def randombytes_def world0_def ed25519_seed_to_pub_def toy_nacl_def
        Let_def slice_eq_take_drop map_replicate_trivial replicate_add [symmetric])
  have "take (length ''a'') (bait_label_from_pub toy_nacl (snd (nth_draw toy_nacl world0 0))) = ''a''"
    unfolding d snd_conv
  proof -
    obtain a b c d e r where h: "slice 0 20 (ed25519_sha512 toy_nacl (slice 0 32 (replicate 32 1))) = a # b # c # d # e # r"
        "a = bget (ed25519_sha512 toy_nacl (slice 0 32 (replicate 32 1))) 0"
      using sha_20 by blast
    obtain acc' where l: "bait_label_from_pub toy_nacl (replicate 32 1) = map char5 (quintets a b c d e) @ label_loop r acc' 0"
      unfolding bait_label_from_pub_def h(1) using label_loop_5 by blast
    have "a = 1" unfolding h(2) by (simp add: ed25519_sha512_def crypto_hash_def toy_nacl_def) (simp add: bget_def)
    then show "take (length ''a'') (bait_label_from_pub toy_nacl (replicate 32 1)) = ''a''"
      unfolding l by (simp add: quintets_def char5_def BAIT_ALPHABET_def)
  qed
  then show ?thesis
    using grind_finds_first [of "''a''" toy_nacl world0 0 1] by (auto simp: b32v_def Let_def)
qed

text \<open>A prefix with a capital letter is accepted and never found: labels have lower case only, so the
  search runs for ever, whatever keys it draws.\<close>

theorem grind_capital_never_ends:
  assumes "prefix \<noteq> []" "length prefix \<le> 32" "\<forall>c\<in>set prefix. 0 \<le> b32v c"
    and cap: "c \<in> set prefix" "(of_char c :: nat) \<in> {65..90}"
  shows "bait_grind N prefix fuel w = Grind_Searching"
proof -
  have "c \<notin> set BAIT_ALPHABET" using cap(2) by (auto simp: BAIT_ALPHABET_def)
  then have c: "c \<notin> set (bait_label_from_pub N pub)" for pub
    using label_chars char5_alphabet by blast
  have "\<not> hits N prefix w j" for j
    unfolding hits_def using c cap(1) by (metis in_set_takeD)
  then have "grind_loop N prefix fuel 0 w = None" by (simp add: grind_never)
  then show ?thesis using assms(1-3) by (auto simp: bait_grind_def)
qed

theorem grind_capital_never_ends_witness: "bait_grind toy_nacl ''Bait'' 1000000 world0 = Grind_Searching"
  by (rule grind_capital_never_ends [of _ "CHR ''B''"]) (simp_all add: b32v_def Let_def)

end
