(* ===== verification/Btls.thy ===== *)
theory Btls
  imports BaitName
begin

text \<open>
  The bTLS layer of \<^verbatim>\<open>c/src/BITE/btls.c\<close>: transcript, key schedule, sealed records, the
  handshake of both roles as the functions \<open>btls_feed\<close> and \<open>btls_pump\<close>, and the fragmentation of
  messages. The buffers a caller passes are results here, except the one a message is
  reassembled in, which accumulates; the address of an outgoing message, which the code
  compares, is a number.
\<close>

section \<open>Constants and state\<close>

abbreviation (input) BTLS_RT_HANDSHAKE :: u8 where "BTLS_RT_HANDSHAKE \<equiv> 0"
abbreviation (input) BTLS_RT_APPLICATION :: u8 where "BTLS_RT_APPLICATION \<equiv> 1"
abbreviation (input) BTLS_HS_CLIENT_HELLO :: u8 where "BTLS_HS_CLIENT_HELLO \<equiv> 1"
abbreviation (input) BTLS_HS_SERVER_HELLO :: u8 where "BTLS_HS_SERVER_HELLO \<equiv> 2"
abbreviation (input) BTLS_HS_CERTIFICATE :: u8 where "BTLS_HS_CERTIFICATE \<equiv> 11"
abbreviation (input) BTLS_HS_CERTIFICATE_VERIFY :: u8 where "BTLS_HS_CERTIFICATE_VERIFY \<equiv> 15"
abbreviation (input) BTLS_HS_FINISHED :: u8 where "BTLS_HS_FINISHED \<equiv> 20"
abbreviation (input) BTLS_MAX_REC :: nat where "BTLS_MAX_REC \<equiv> 1400"
abbreviation (input) BTLS_MAX_PAYLOAD :: nat where "BTLS_MAX_PAYLOAD \<equiv> 1290"
abbreviation (input) BTLS_FRAG_MORE :: u8 where "BTLS_FRAG_MORE \<equiv> 1"
abbreviation (input) BTLS_MAX_MSG :: nat where "BTLS_MAX_MSG \<equiv> 262144"
abbreviation (input) BTLS_THBUF :: nat where "BTLS_THBUF \<equiv> 512"

datatype btls_role = BTLS_CLIENT | BTLS_SERVER
datatype btls_st = BTLS_ST_INIT | BTLS_ST_CH_SENT | BTLS_ST_HS | BTLS_ST_WAIT_FIN | BTLS_ST_DONE

record btls =
  t_role :: btls_role
  t_state :: btls_st
  t_epoch :: nat
  t_want_hs :: u8
  t_random :: bytes
  t_eph_priv :: bytes
  t_eph_pub :: bytes
  t_peer_eph :: bytes
  t_cert_pub :: bytes
  t_sk :: bytes
  t_expect :: string
  t_th :: bytes
  t_prk :: bytes
  t_send_key :: bytes
  t_recv_key :: bytes
  t_send_seq :: u64
  t_recv_seq :: u64
  t_tx_msg :: "nat option"
  t_tx_len :: nat
  t_tx_off :: nat
  t_rx_len :: nat

section \<open>Transcript and keys\<close>

definition th_append :: "btls \<Rightarrow> bytes \<Rightarrow> btls" where
  "th_append t frame = (if length (t_th t) + length frame \<le> BTLS_THBUF then t\<lparr>t_th := t_th t @ frame\<rparr> else t)"

definition cert_digest :: "nacl \<Rightarrow> btls \<Rightarrow> bytes" where
  "cert_digest N t = ed25519_sha512 N (ascii ''btls/1.0-cert-verify'' @ t_th t)"

definition btls_derive_key :: "nacl \<Rightarrow> btls \<Rightarrow> string \<Rightarrow> bytes" where
  "btls_derive_key N t label = slice 0 32 (ed25519_hmac_sha512 N (ascii label @ t_th t @ [1]) (t_prk t))"

text \<open>The scalar multiplication of the library always returns 0.\<close>

definition ecdh_prk :: "nacl \<Rightarrow> btls \<Rightarrow> btls" where
  "ecdh_prk N t =
     t\<lparr>t_prk := ed25519_hmac_sha512 N (ed25519_scalarmult N (t_eph_priv t) (t_peer_eph t)) (ascii ''btls-v1'')\<rparr>"

definition install_epoch :: "nacl \<Rightarrow> btls \<Rightarrow> string \<Rightarrow> string \<Rightarrow> btls" where
  "install_epoch N t l_c2s l_s2c =
     (let c2s = btls_derive_key N t l_c2s; s2c = btls_derive_key N t l_s2c
      in t\<lparr>t_send_key := (if t_role t = BTLS_CLIENT then c2s else s2c),
           t_recv_key := (if t_role t = BTLS_CLIENT then s2c else c2s),
           t_send_seq := 0, t_recv_seq := 0\<rparr>)"

definition finished_mac :: "nacl \<Rightarrow> btls \<Rightarrow> string \<Rightarrow> bytes" where
  "finished_mac N t label = btls_derive_key N t label"

section \<open>Records\<close>

definition rec_nonce :: "u64 \<Rightarrow> bytes" where
  "rec_nonce s = ipv69_put_be64 s @ zeros 16"

text \<open>A function that fails after changing the state returns that state with \<open>None\<close>.\<close>

definition seal_box :: "nacl \<Rightarrow> btls \<Rightarrow> bytes \<Rightarrow> bytes option \<times> btls" where
  "seal_box N t inner =
     (let blen = 32 + length inner
      in if 2 + BTLS_MAX_PAYLOAD < length inner then (None, t)
         else (Some ([BTLS_RT_APPLICATION, of_nat (blen div 256), of_nat blen] @
                     ed25519_secretbox N inner (rec_nonce (t_send_seq t)) (t_send_key t)),
               t\<lparr>t_send_seq := t_send_seq t + 1\<rparr>))"

definition seal_hs :: "nacl \<Rightarrow> btls \<Rightarrow> bytes \<Rightarrow> bytes option \<times> btls" where
  "seal_hs N t frame = seal_box N t (BTLS_RT_HANDSHAKE # frame)"

definition seal_app :: "nacl \<Rightarrow> btls \<Rightarrow> u8 \<Rightarrow> bytes \<Rightarrow> bytes option \<times> btls" where
  "seal_app N t fl data =
     (if BTLS_MAX_PAYLOAD < length data then (None, t)
      else seal_box N t ([BTLS_RT_APPLICATION, fl] @ data))"

definition rec_blen :: "bytes \<Rightarrow> nat" where
  "rec_blen r = unat (bget r 1) * 256 + unat (bget r 2)"

definition open_rec :: "nacl \<Rightarrow> btls \<Rightarrow> bytes \<Rightarrow> bytes option \<times> btls" where
  "open_rec N t r =
     (if length r < 3 \<or> bget r 0 \<noteq> BTLS_RT_APPLICATION then (None, t)
      else let blen = rec_blen r
        in if blen < 33 \<or> 34 + BTLS_MAX_PAYLOAD < blen \<or> length r \<noteq> 3 + blen then (None, t)
           else (ed25519_secretbox_open N (drop 3 r) (blen - 32) (rec_nonce (t_recv_seq t)) (t_recv_key t),
                 t\<lparr>t_recv_seq := t_recv_seq t + 1\<rparr>))"

definition hs_frame :: "u8 \<Rightarrow> bytes \<Rightarrow> bytes" where
  "hs_frame ty body = [ty, of_nat (length body div 256), of_nat (length body)] @ body"

text \<open>The plaintext record of the two hellos.\<close>

definition hello_rec :: "bytes \<Rightarrow> bytes" where
  "hello_rec frame = [BTLS_RT_HANDSHAKE, of_nat (length frame div 256), of_nat (length frame)] @ frame"

section \<open>The handshake\<close>

definition btls_init :: "nacl \<Rightarrow> btls_role \<Rightarrow> bytes option \<Rightarrow> string option \<Rightarrow> world \<Rightarrow> btls \<times> world" where
  "btls_init N role sk expect w =
     (let (priv, w) = randombytes 32 w
      in (\<lparr>t_role = role, t_state = BTLS_ST_INIT, t_epoch = 0, t_want_hs = 0, t_random = zeros 32,
           t_eph_priv = priv, t_eph_pub = ed25519_scalarmult_base N priv, t_peer_eph = zeros 32, t_cert_pub = zeros 32,
           t_sk = (case sk of Some k \<Rightarrow> k | None \<Rightarrow> zeros 64),
           t_expect = (case expect of
                         Some l \<Rightarrow> if role = BTLS_CLIENT \<and> length l = BAIT_LABEL_LEN then l else []
                       | None \<Rightarrow> []),
           t_th = [], t_prk = zeros 64, t_send_key = zeros 32, t_recv_key = zeros 32, t_send_seq = 0, t_recv_seq = 0,
           t_tx_msg = None, t_tx_len = 0, t_tx_off = 0, t_rx_len = 0\<rparr>, w))"

definition btls_client_start :: "btls \<Rightarrow> world \<Rightarrow> bytes option \<times> btls \<times> world" where
  "btls_client_start t w =
     (if t_role t \<noteq> BTLS_CLIENT \<or> t_state t \<noteq> BTLS_ST_INIT then (None, t, w)
      else let (rnd, w) = randombytes 32 w;
               frame = hs_frame BTLS_HS_CLIENT_HELLO (rnd @ t_eph_pub t);
               t = th_append (t\<lparr>t_random := rnd\<rparr>) frame
           in (Some (hello_rec frame), t\<lparr>t_state := BTLS_ST_CH_SENT, t_want_hs := BTLS_HS_SERVER_HELLO\<rparr>, w))"

text \<open>A frame out of a record: 1 the server is done, 0 progress, -1 a failure.\<close>

definition feed_hs_server :: "nacl \<Rightarrow> btls \<Rightarrow> u8 \<Rightarrow> bytes \<Rightarrow> bytes \<Rightarrow> int \<times> btls" where
  "feed_hs_server N t ty b p =
     (if t_state t \<noteq> BTLS_ST_WAIT_FIN \<or> ty \<noteq> BTLS_HS_FINISHED \<or> length b \<noteq> 32 then (-1, t)
      else if finished_mac N t ''btls-fin-c'' \<noteq> b then (-1, t)
      else (1, (install_epoch N (th_append t p) ''btls-app-c2s'' ''btls-app-s2c'')\<lparr>t_epoch := 2, t_state := BTLS_ST_DONE\<rparr>))"

definition feed_hs_client :: "nacl \<Rightarrow> btls \<Rightarrow> u8 \<Rightarrow> bytes \<Rightarrow> bytes \<Rightarrow> int \<times> btls" where
  "feed_hs_client N t ty b p =
     (if t_want_hs t = BTLS_HS_CERTIFICATE then
        (if ty \<noteq> BTLS_HS_CERTIFICATE \<or> length b \<noteq> 32 then (-1, t)
         else let t = t\<lparr>t_cert_pub := b\<rparr>
           in if t_expect t \<noteq> [] \<and> bait_label_from_pub N b \<noteq> t_expect t then (-1, t)
              else (0, (th_append t p)\<lparr>t_want_hs := BTLS_HS_CERTIFICATE_VERIFY\<rparr>))
      else if t_want_hs t = BTLS_HS_CERTIFICATE_VERIFY then
        (if ty \<noteq> BTLS_HS_CERTIFICATE_VERIFY \<or> length b \<noteq> 64 then (-1, t)
         else if ed25519_verify N (cert_digest N t) b (t_cert_pub t) \<noteq> 0 then (-1, t)
         else (0, (th_append t p)\<lparr>t_want_hs := BTLS_HS_FINISHED\<rparr>))
      else if t_want_hs t = BTLS_HS_FINISHED then
        (if ty \<noteq> BTLS_HS_FINISHED \<or> length b \<noteq> 32 then (-1, t)
         else if finished_mac N t ''btls-fin-s'' \<noteq> b then (-1, t)
         else (0, (th_append t p)\<lparr>t_want_hs := 0\<rparr>))
      else (-1, t))"

definition feed_hs :: "nacl \<Rightarrow> btls \<Rightarrow> bytes \<Rightarrow> int \<times> btls" where
  "feed_hs N t p =
     (let blen = rec_blen p; b = slice 3 blen p; f = slice 0 (3 + blen) p
      in if length p < 3 \<or> length p < 3 + blen then (-1, t)
         else if t_role t = BTLS_SERVER then feed_hs_server N t (bget p 0) b f
         else feed_hs_client N t (bget p 0) b f)"

text \<open>The two hellos; only the low byte of the length in the frame is looked at.\<close>

definition feed_hello :: "nacl \<Rightarrow> btls \<Rightarrow> bytes \<Rightarrow> int \<times> btls" where
  "feed_hello N t p =
     (let good = (\<lambda>ty. bget p 0 = ty \<and> length p = 3 + 64 \<and> bget p 2 = 64);
          t' = th_append (t\<lparr>t_peer_eph := slice (3 + 32) 32 p\<rparr>) p
      in if t_role t = BTLS_SERVER \<and> t_state t = BTLS_ST_INIT then
           (if \<not> good BTLS_HS_CLIENT_HELLO then (-1, t)
            else (0, t'\<lparr>t_state := BTLS_ST_HS, t_want_hs := BTLS_HS_SERVER_HELLO\<rparr>))
         else if t_role t = BTLS_CLIENT \<and> t_state t = BTLS_ST_CH_SENT \<and> t_want_hs t = BTLS_HS_SERVER_HELLO then
           (if \<not> good BTLS_HS_SERVER_HELLO then (-1, t)
            else (0, (install_epoch N (ecdh_prk N t') ''btls-hs-c2s'' ''btls-hs-s2c'')
                       \<lparr>t_epoch := 1, t_state := BTLS_ST_HS, t_want_hs := BTLS_HS_CERTIFICATE\<rparr>))
         else (-1, t))"

definition btls_feed :: "nacl \<Rightarrow> btls \<Rightarrow> bytes \<Rightarrow> int \<times> btls" where
  "btls_feed N t r =
     (let blen = rec_blen r
      in if length r < 3 \<or> BTLS_MAX_REC - 3 < blen \<or> length r \<noteq> 3 + blen then (-1, t)
         else if t_epoch t = 0 then
           (if bget r 0 \<noteq> BTLS_RT_HANDSHAKE \<or> blen < 3 then (-1, t) else feed_hello N t (drop 3 r))
         else case open_rec N t r of
                (None, t) \<Rightarrow> (-1, t)
              | (Some inner, t) \<Rightarrow>
                  if inner = [] \<or> bget inner 0 \<noteq> BTLS_RT_HANDSHAKE then (-1, t) else feed_hs N t (drop 1 inner))"

text \<open>Sealing a handshake frame and moving on: 1 with the record, or -1.\<close>

definition pump_sealed :: "nacl \<Rightarrow> btls \<Rightarrow> bytes \<Rightarrow> int \<times> bytes \<times> btls" where
  "pump_sealed N t frame = (case seal_hs N t frame of (Some r, t) \<Rightarrow> (1, r, t) | (None, t) \<Rightarrow> (-1, [], t))"

definition pump_server :: "nacl \<Rightarrow> btls \<Rightarrow> world \<Rightarrow> (int \<times> bytes \<times> btls) \<times> world" where
  "pump_server N t w =
     (if t_want_hs t = BTLS_HS_SERVER_HELLO then
        (let (rnd, w) = randombytes 32 w;
             frame = hs_frame BTLS_HS_SERVER_HELLO (rnd @ t_eph_pub t);
             t = ecdh_prk N (th_append (t\<lparr>t_random := rnd\<rparr>) frame);
             t = (install_epoch N t ''btls-hs-c2s'' ''btls-hs-s2c'')\<lparr>t_epoch := 1, t_want_hs := BTLS_HS_CERTIFICATE\<rparr>
         in ((1, hello_rec frame, t), w))
      else if t_want_hs t = BTLS_HS_CERTIFICATE then
        (let frame = hs_frame BTLS_HS_CERTIFICATE (slice 32 32 (t_sk t))
         in (pump_sealed N ((th_append t frame)\<lparr>t_want_hs := BTLS_HS_CERTIFICATE_VERIFY\<rparr>) frame, w))
      else if t_want_hs t = BTLS_HS_CERTIFICATE_VERIFY then
        (let frame = hs_frame BTLS_HS_CERTIFICATE_VERIFY (ed25519_sign N (cert_digest N t) (t_sk t))
         in (pump_sealed N ((th_append t frame)\<lparr>t_want_hs := BTLS_HS_FINISHED\<rparr>) frame, w))
      else if t_want_hs t = BTLS_HS_FINISHED then
        (let frame = hs_frame BTLS_HS_FINISHED (finished_mac N t ''btls-fin-s'')
         in (pump_sealed N ((th_append t frame)\<lparr>t_want_hs := BTLS_HS_FINISHED, t_state := BTLS_ST_WAIT_FIN\<rparr>) frame, w))
      else ((0, [], t), w))"

definition btls_pump :: "nacl \<Rightarrow> btls \<Rightarrow> world \<Rightarrow> (int \<times> bytes \<times> btls) \<times> world" where
  "btls_pump N t w =
     (if t_role t = BTLS_SERVER \<and> t_state t = BTLS_ST_HS then pump_server N t w
      else if t_role t = BTLS_CLIENT \<and> t_state t = BTLS_ST_HS \<and> t_want_hs t = 0 then
        (let frame = hs_frame BTLS_HS_FINISHED (finished_mac N t ''btls-fin-c'')
         in case pump_sealed N (th_append t frame) frame of
              (r, out, t) \<Rightarrow>
                if r < 0 then ((-1, [], t), w)
                else ((1, out, (install_epoch N t ''btls-app-c2s'' ''btls-app-s2c'')
                                 \<lparr>t_epoch := 2, t_state := BTLS_ST_DONE\<rparr>), w))
      else ((0, [], t), w))"

section \<open>Messages\<close>

text \<open>\<open>p\<close> is the address of the message, \<open>msg\<close> its bytes. 1: a fragment, more follow; 0: the last one.\<close>

definition btls_send_app :: "nacl \<Rightarrow> btls \<Rightarrow> nat \<Rightarrow> bytes \<Rightarrow> int \<times> bytes \<times> btls" where
  "btls_send_app N t p msg =
     (let len = length msg
      in if t_state t \<noteq> BTLS_ST_DONE \<or> t_epoch t \<noteq> 2 \<or> len = 0 \<or> BTLS_MAX_MSG < len then (-1, [], t)
         else if t_tx_msg t \<noteq> None \<and> (t_tx_msg t \<noteq> Some p \<or> t_tx_len t \<noteq> len) then (-1, [], t)
         else let t = (if t_tx_msg t = None then t\<lparr>t_tx_msg := Some p, t_tx_len := len, t_tx_off := 0\<rparr> else t);
                  chunk = min (t_tx_len t - t_tx_off t) BTLS_MAX_PAYLOAD;
                  more = t_tx_off t + chunk < t_tx_len t
              in case seal_app N t (if more then BTLS_FRAG_MORE else 0) (slice (t_tx_off t) chunk msg) of
                   (None, t) \<Rightarrow> (-1, [], t)
                 | (Some r, t) \<Rightarrow>
                     if more then (1, r, t\<lparr>t_tx_off := t_tx_off t + chunk\<rparr>)
                     else (0, r, t\<lparr>t_tx_msg := None, t_tx_off := 0\<rparr>))"

text \<open>\<open>msg\<close> is the caller's buffer of \<open>cap\<close> bytes; with 1 comes the length of the message. \<open>None\<close> is a
  write outside the buffer, which a caller that changes \<open>cap\<close> in the middle of a message causes.\<close>

definition btls_recv_app :: "nacl \<Rightarrow> btls \<Rightarrow> bytes \<Rightarrow> bytes \<Rightarrow> (int \<times> nat \<times> bytes \<times> btls) option" where
  "btls_recv_app N t r msg =
     (if t_state t \<noteq> BTLS_ST_DONE \<or> t_epoch t \<noteq> 2 then Some (-1, 0, msg, t)
      else case open_rec N t r of
        (None, t) \<Rightarrow> Some (-1, 0, msg, t\<lparr>t_rx_len := 0\<rparr>)
      | (Some inner, t) \<Rightarrow>
          if length inner < 2 \<or> bget inner 0 \<noteq> BTLS_RT_APPLICATION then Some (-1, 0, msg, t\<lparr>t_rx_len := 0\<rparr>)
          else let fl = bget inner 1; data = drop 2 inner
            in if fl AND NOT BTLS_FRAG_MORE \<noteq> 0 \<or> size_sub (length msg) (t_rx_len t) < length data
               then Some (-1, 0, msg, t\<lparr>t_rx_len := 0\<rparr>)
               else if length msg < t_rx_len t + length data \<and> data \<noteq> [] then None
               else let msg = (if data = [] then msg else blit msg (t_rx_len t) data);
                        n = t_rx_len t + length data
                 in if fl AND BTLS_FRAG_MORE = 0 then Some (1, n, msg, t\<lparr>t_rx_len := 0\<rparr>)
                    else Some (0, 0, msg, t\<lparr>t_rx_len := n\<rparr>))"

end
