(* ===== verification/Btls_Auth.thy ===== *)
theory Btls_Auth
  imports Btls
begin

text \<open>
  What bTLS gives: an honest handshake ends with matching keys, a client that dialed a name
  is talking to the key behind it, messages of up to 1022 bytes arrive whole and longer
  ones never do.
\<close>

section \<open>Records open to what was sealed\<close>

lemma rec_blen_hdr [simp]: "n < 65536 \<Longrightarrow> rec_blen (x # of_nat (n div 256) # of_nat n # r) = n"
  by (simp add: rec_blen_def unsigned_of_nat take_bit_nat_eq_self take_bit_eq_mod less_mult_imp_div_less)

lemma rec_blen_hello [simp]: "length f < 65536 \<Longrightarrow> rec_blen (hello_rec f) = length f"
  by (simp add: hello_rec_def)

lemma seal_box_eq:
  "length inner \<le> 1292 \<Longrightarrow> seal_box N t inner =
     (Some ([1, of_nat ((32 + length inner) div 256), of_nat (32 + length inner)] @
            ed25519_secretbox N inner (rec_nonce (t_send_seq t)) (t_send_key t)),
      t\<lparr>t_send_seq := t_send_seq t + 1\<rparr>)"
  by (simp add: seal_box_def Let_def)

lemma seal_box_facts:
  assumes "seal_box N t inner = (Some r, t')"
  shows "length inner \<le> 1292" "length r = 35 + length inner" "t' = t\<lparr>t_send_seq := t_send_seq t + 1\<rparr>"
    "bget r 0 = 1" "rec_blen r = 32 + length inner"
    "drop 3 r = ed25519_secretbox N inner (rec_nonce (t_send_seq t)) (t_send_key t)"
proof -
  show len: "length inner \<le> 1292" using assms by (auto simp: seal_box_def Let_def split: if_splits)
  have r: "r = 1 # of_nat ((32 + length inner) div 256) # of_nat (32 + length inner) #
      ed25519_secretbox N inner (rec_nonce (t_send_seq t)) (t_send_key t)" and "t' = t\<lparr>t_send_seq := t_send_seq t + 1\<rparr>"
    using assms by (simp_all add: seal_box_eq [OF len])
  then show "t' = t\<lparr>t_send_seq := t_send_seq t + 1\<rparr>" by simp
  show "length r = 35 + length inner" "bget r 0 = 1" "drop 3 r = ed25519_secretbox N inner (rec_nonce (t_send_seq t)) (t_send_key t)"
    by (simp_all add: r)
  have "32 + length inner < 65536" using len by simp
  from rec_blen_hdr [OF this] show "rec_blen r = 32 + length inner" unfolding r .
qed

text \<open>The receiver of a direction: its key and counter are the sender's.\<close>

definition hears :: "btls \<Rightarrow> btls \<Rightarrow> bool" where
  "hears t s \<longleftrightarrow> t_recv_key t = t_send_key s \<and> t_recv_seq t = t_send_seq s"

lemma open_seal_box:
  assumes "seal_box N s inner = (Some r, s')" "hears t s" "inner \<noteq> []"
  shows "open_rec N t r = (if length inner \<le> 1024 then Some inner else None, t\<lparr>t_recv_seq := t_recv_seq t + 1\<rparr>)"
proof -
  note F = seal_box_facts [OF assms(1)]
  have "1 \<le> length inner" using assms(3) by (cases inner) auto
  then have "open_rec N t r = (ed25519_secretbox_open N (drop 3 r) (length inner) (rec_nonce (t_recv_seq t)) (t_recv_key t),
      t\<lparr>t_recv_seq := t_recv_seq t + 1\<rparr>)"
    using F assms(3) by (simp add: open_rec_def Let_def)
  moreover have "ed25519_secretbox_open N (drop 3 r) (length inner) (rec_nonce (t_recv_seq t)) (t_recv_key t) =
      (if length inner \<le> 1024 then Some inner else None)"
    using box.open_seal_exact box.open_oversized F(6) assms(2) by (simp add: hears_def)
  ultimately show ?thesis by simp
qed

section \<open>Messages\<close>

definition app_ready :: "btls \<Rightarrow> bool" where
  "app_ready t \<longleftrightarrow> t_state t = BTLS_ST_DONE \<and> t_epoch t = 2"

lemma send_first:
  assumes "app_ready s" "t_tx_msg s = None" "msg \<noteq> []" "length msg \<le> 1290"
  obtains r s1 where "seal_box N (s\<lparr>t_tx_msg := Some p, t_tx_len := length msg, t_tx_off := 0\<rparr>) ([1, 0] @ msg) = (Some r, s1)"
    "btls_send_app N s p msg = (0, r, s1\<lparr>t_tx_msg := None, t_tx_off := 0\<rparr>)"
proof -
  let ?s = "s\<lparr>t_tx_msg := Some p, t_tx_len := length msg, t_tx_off := 0\<rparr>"
  have "length ([1, 0] @ msg) \<le> 1292" using assms(4) by simp
  note S = seal_box_eq [OF this, of N ?s]
  show ?thesis
    by (rule that [OF S]) (use assms S in \<open>simp add: btls_send_app_def app_ready_def seal_app_def Let_def\<close>)
qed

text \<open>A message of 1 to 1022 bytes goes in one record, which fits the carrier, and the receiver gets
  exactly that message at the start of its buffer; both are ready for the next one.\<close>

theorem btls_message_roundtrip:
  assumes "app_ready s" "app_ready t" "hears t s" and tx: "t_tx_msg s = None" "t_rx_len t = 0"
    and len: "msg \<noteq> []" "length msg \<le> 1022" "length msg \<le> length buf" "length buf < 2 ^ 64"
  shows "\<exists>r s' t'. btls_send_app N s p msg = (0, r, s') \<and> length r = 37 + length msg \<and>
    btls_recv_app N t r buf = Some (1, length msg, msg @ drop (length msg) buf, t') \<and>
    app_ready s' \<and> app_ready t' \<and> hears t' s' \<and> (hears s t \<longrightarrow> hears s' t') \<and>
    t_tx_msg s' = None \<and> t_tx_msg t' = t_tx_msg t \<and> t_rx_len t' = 0 \<and> t_rx_len s' = t_rx_len s"
proof -
  let ?s = "s\<lparr>t_tx_msg := Some p, t_tx_len := length msg, t_tx_off := 0\<rparr>"
  have "length msg \<le> 1290" using len by simp
  then obtain r s1 where r: "seal_box N ?s ([1, 0] @ msg) = (Some r, s1)" "btls_send_app N s p msg = (0, r, s1\<lparr>t_tx_msg := None, t_tx_off := 0\<rparr>)"
    using send_first assms by metis
  note F = seal_box_facts [OF r(1)]
  have "hears t ?s" using assms(3) by (simp add: hears_def)
  from open_seal_box [OF r(1) this] have o: "open_rec N t r = (Some ([1, 0] @ msg), t\<lparr>t_recv_seq := t_recv_seq t + 1\<rparr>)"
    using len by simp
  have "btls_recv_app N t r buf = Some (1, length msg, msg @ drop (length msg) buf, t\<lparr>t_recv_seq := t_recv_seq t + 1, t_rx_len := 0\<rparr>)"
    using assms(2) tx len by (simp add: btls_recv_app_def app_ready_def o Let_def size_sub_ge blit_def)
  with r(2) F show ?thesis
    using assms(1-3) tx len by (auto simp: app_ready_def hears_def)
qed

text \<open>A longer message never arrives: the first record of a message of 1023 to 262144 bytes, which the
  sender accepts, is refused by the receiver, because the opening buffer of the secretbox
  holds 1024 bytes and the fragments have up to 1292.\<close>

theorem btls_large_message_fails:
  assumes "app_ready s" "app_ready t" "hears t s" and tx: "t_tx_msg s = None"
    and len: "1023 \<le> length msg" "length msg \<le> 262144"
  shows "\<exists>x r s' t'. btls_send_app N s p msg = (x, r, s') \<and> 0 \<le> x \<and> btls_recv_app N t r buf = Some (-1, 0, buf, t')"
proof -
  let ?s = "s\<lparr>t_tx_msg := Some p, t_tx_len := length msg, t_tx_off := 0\<rparr>"
  define n where "n = min (length msg) 1290"
  define inner where "inner = [1, if n < length msg then 1 else 0] @ slice 0 n msg"
  have inner: "length inner = n + 2" "inner \<noteq> []" "1024 < length inner" "length inner \<le> 1292"
    using len by (auto simp: inner_def n_def)
  define r where "r = [1, of_nat ((32 + length inner) div 256), of_nat (32 + length inner)] @
      ed25519_secretbox N inner (rec_nonce (t_send_seq s)) (t_send_key s)"
  have S: "seal_box N ?s inner = (Some r, ?s\<lparr>t_send_seq := t_send_seq s + 1\<rparr>)"
    using seal_box_eq [OF inner(4), of N ?s] by (simp add: r_def)
  have "seal_app N ?s (if n < length msg then 1 else 0) (slice 0 n msg) = (Some r, ?s\<lparr>t_send_seq := t_send_seq s + 1\<rparr>)"
    using S by (simp add: seal_app_def inner_def n_def)
  then have "\<exists>x s'. btls_send_app N s p msg = (x, r, s') \<and> 0 \<le> x"
    using assms(1) tx len by (auto simp: btls_send_app_def app_ready_def Let_def n_def)
  moreover have "open_rec N t r = (None, t\<lparr>t_recv_seq := t_recv_seq t + 1\<rparr>)"
    using open_seal_box [OF S _ inner(2), of t] assms(3) inner(3) by (simp add: hears_def)
  then have "\<exists>t'. btls_recv_app N t r buf = Some (-1, 0, buf, t')"
    using assms(2) by (simp add: btls_recv_app_def app_ready_def)
  ultimately show ?thesis by blast
qed

definition toy_app :: btls where
  "toy_app = (fst (btls_init toy_nacl BTLS_CLIENT None None world0))\<lparr>t_state := BTLS_ST_DONE, t_epoch := 2\<rparr>"

lemma toy_app: "app_ready toy_app" "hears toy_app toy_app" "t_tx_msg toy_app = None" "t_rx_len toy_app = 0"
  by (simp_all add: toy_app_def app_ready_def hears_def btls_init_def case_prod_beta)

theorem btls_message_roundtrip_witness:
  "\<exists>r s' t'. btls_send_app toy_nacl toy_app 7 [1, 2, 3] = (0, r, s') \<and>
     btls_recv_app toy_nacl toy_app r (zeros 4) = Some (1, 3, [1, 2, 3, 0], t')"
  using btls_message_roundtrip [OF toy_app(1,1,2,3,4), of "[1, 2, 3]" "zeros 4" toy_nacl 7]
  by (auto simp: zeros_def)

theorem btls_large_message_fails_witness:
  "\<exists>x r s' t'. btls_send_app toy_nacl toy_app 7 (zeros 1023) = (x, r, s') \<and> 0 \<le> x \<and>
     btls_recv_app toy_nacl toy_app r (zeros 2000) = Some (-1, 0, zeros 2000, t')"
  using btls_large_message_fails [OF toy_app(1,1,2,3), of "zeros 1023" toy_nacl 7 "zeros 2000"] by simp

section \<open>The name is the pin\<close>

text \<open>Anything a client can do after its hello, with any records arriving.\<close>

inductive client_run :: "nacl \<Rightarrow> btls \<Rightarrow> btls \<Rightarrow> bool" for N t0 where
  Hello: "btls_client_start t0 w = (Some r, t, w') \<Longrightarrow> client_run N t0 t"
| Feed: "client_run N t0 t \<Longrightarrow> btls_feed N t r = (x, t') \<Longrightarrow> client_run N t0 t'"
| Pump: "client_run N t0 t \<Longrightarrow> btls_pump N t w = ((x, r, t'), w') \<Longrightarrow> client_run N t0 t'"
| Send: "client_run N t0 t \<Longrightarrow> btls_send_app N t p m = (x, r, t') \<Longrightarrow> client_run N t0 t'"
| Recv: "client_run N t0 t \<Longrightarrow> btls_recv_app N t r buf = Some (x, n, buf', t') \<Longrightarrow> client_run N t0 t'"

definition named :: "nacl \<Rightarrow> btls \<Rightarrow> bool" where
  "named N t \<longleftrightarrow> bait_label_from_pub N (t_cert_pub t) = t_expect t"

definition signed_by :: "nacl \<Rightarrow> bytes \<Rightarrow> bool" where
  "signed_by N pub \<longleftrightarrow> (\<exists>th sig. ed25519_verify N (ed25519_sha512 N (ascii ''btls/1.0-cert-verify'' @ th)) sig pub = 0)"

lemma signed_byI: "ed25519_verify N (cert_digest N t) sig pub = 0 \<Longrightarrow> signed_by N pub"
  unfolding signed_by_def cert_digest_def by blast

definition pin_inv :: "nacl \<Rightarrow> string \<Rightarrow> btls \<Rightarrow> bool" where
  "pin_inv N l t \<longleftrightarrow> t_role t = BTLS_CLIENT \<and> t_expect t = l \<and> t_state t \<noteq> BTLS_ST_INIT \<and>
     (t_want_hs t = BTLS_HS_CERTIFICATE_VERIFY \<longrightarrow> named N t) \<and>
     (t_want_hs t \<in> {BTLS_HS_FINISHED, 0} \<longrightarrow> named N t \<and> signed_by N (t_cert_pub t)) \<and>
     (t_state t = BTLS_ST_DONE \<longrightarrow> t_want_hs t = 0)"

lemma th_append_same [simp]:
  "t_role (th_append t f) = t_role t" "t_state (th_append t f) = t_state t" "t_epoch (th_append t f) = t_epoch t"
  "t_want_hs (th_append t f) = t_want_hs t" "t_expect (th_append t f) = t_expect t" "t_cert_pub (th_append t f) = t_cert_pub t"
  "t_sk (th_append t f) = t_sk t" "t_prk (th_append t f) = t_prk t" "t_eph_priv (th_append t f) = t_eph_priv t"
  "t_eph_pub (th_append t f) = t_eph_pub t" "t_peer_eph (th_append t f) = t_peer_eph t"
  "t_send_key (th_append t f) = t_send_key t" "t_recv_key (th_append t f) = t_recv_key t"
  "t_send_seq (th_append t f) = t_send_seq t" "t_recv_seq (th_append t f) = t_recv_seq t"
  "t_tx_msg (th_append t f) = t_tx_msg t" "t_rx_len (th_append t f) = t_rx_len t"
  by (simp_all add: th_append_def)

lemma install_epoch_same [simp]:
  "t_role (install_epoch N t a b) = t_role t" "t_state (install_epoch N t a b) = t_state t"
  "t_want_hs (install_epoch N t a b) = t_want_hs t" "t_expect (install_epoch N t a b) = t_expect t"
  "t_cert_pub (install_epoch N t a b) = t_cert_pub t" "t_sk (install_epoch N t a b) = t_sk t" "t_th (install_epoch N t a b) = t_th t"
  "t_prk (install_epoch N t a b) = t_prk t" "t_tx_msg (install_epoch N t a b) = t_tx_msg t" "t_rx_len (install_epoch N t a b) = t_rx_len t"
  by (simp_all add: install_epoch_def Let_def)

lemma ecdh_prk_same [simp]:
  "t_role (ecdh_prk N t) = t_role t" "t_state (ecdh_prk N t) = t_state t" "t_expect (ecdh_prk N t) = t_expect t"
  "t_cert_pub (ecdh_prk N t) = t_cert_pub t" "t_sk (ecdh_prk N t) = t_sk t" "t_th (ecdh_prk N t) = t_th t"
  "t_tx_msg (ecdh_prk N t) = t_tx_msg t" "t_rx_len (ecdh_prk N t) = t_rx_len t"
  by (simp_all add: ecdh_prk_def)

lemma open_rec_same:
  assumes "open_rec N t r = (m, t')"
  obtains k where "t' = t\<lparr>t_recv_seq := k\<rparr>"
proof (cases "t' = t")
  case True
  then show ?thesis using that [of "t_recv_seq t"] by simp
next
  case False
  then show ?thesis using assms that by (auto simp: open_rec_def Let_def split: if_splits)
qed

lemma pin_feed_client: "pin_inv N l t \<Longrightarrow> l \<noteq> [] \<Longrightarrow> feed_hs_client N t ty b p = (x, t') \<Longrightarrow> pin_inv N l t'"
  by (auto simp: feed_hs_client_def Let_def pin_inv_def named_def split: if_splits intro: signed_byI)

lemma pin_feed:
  assumes inv: "pin_inv N l t" and l: "l \<noteq> []" and f: "btls_feed N t r = (x, t')"
  shows "pin_inv N l t'"
proof (cases "t_epoch t = 0")
  case True
  then show ?thesis
    using f inv by (auto simp: btls_feed_def feed_hello_def Let_def pin_inv_def split: if_splits)
next
  case False
  obtain m u where o: "open_rec N t r = (m, u)" by (cases "open_rec N t r")
  obtain k where "u = t\<lparr>t_recv_seq := k\<rparr>" by (rule open_rec_same [OF o])
  then have u: "pin_inv N l u" using inv by (simp add: pin_inv_def named_def)
  have "t_role u = BTLS_CLIENT" using u by (simp add: pin_inv_def)
  then show ?thesis
    using f False inv u pin_feed_client [OF u l]
    by (auto simp: btls_feed_def Let_def o feed_hs_def split: if_splits option.splits)
qed

lemma seal_box_same:
  assumes "seal_box N t inner = (m, t')"
  obtains k where "t' = t\<lparr>t_send_seq := k\<rparr>"
proof (cases "t' = t")
  case True
  then show ?thesis using that [of "t_send_seq t"] by simp
next
  case False
  then show ?thesis using assms that by (auto simp: seal_box_def Let_def split: if_splits)
qed

lemma pin_pump:
  assumes inv: "pin_inv N l t" and f: "btls_pump N t w = ((x, r, t'), w')"
  shows "pin_inv N l t'"
proof (cases "t_state t = BTLS_ST_HS \<and> t_want_hs t = 0")
  case True
  define fr where "fr = hs_frame 20 (finished_mac N t ''btls-fin-c'')"
  obtain m u where s: "seal_hs N (th_append t fr) fr = (m, u)" by (cases "seal_hs N (th_append t fr) fr")
  obtain k where "u = (th_append t fr)\<lparr>t_send_seq := k\<rparr>" using seal_box_same s unfolding seal_hs_def by metis
  then show ?thesis
    using f True inv by (auto simp: btls_pump_def Let_def fr_def [symmetric] pump_sealed_def s pin_inv_def named_def
        split: option.splits if_splits)
next
  case False
  then show ?thesis using f inv by (auto simp: btls_pump_def pin_inv_def split: if_splits)
qed

lemma pin_app:
  assumes inv: "pin_inv N l t"
  shows "btls_send_app N t p m = (x, r, t') \<Longrightarrow> pin_inv N l t'"
    "btls_recv_app N t r buf = Some (x, n, buf', t') \<Longrightarrow> pin_inv N l t'"
proof -
  show "pin_inv N l t'" if "btls_send_app N t p m = (x, r, t')"
    using that inv unfolding btls_send_app_def Let_def seal_app_def
    by (auto simp: pin_inv_def named_def split: if_splits option.splits prod.splits elim!: seal_box_same)
  obtain z u where o: "open_rec N t r = (z, u)" by (cases "open_rec N t r")
  obtain k where "u = t\<lparr>t_recv_seq := k\<rparr>" by (rule open_rec_same [OF o])
  then show "pin_inv N l t'" if "btls_recv_app N t r buf = Some (x, n, buf', t')"
    using that inv by (auto simp: btls_recv_app_def o Let_def pin_inv_def named_def split: if_splits option.splits)
qed

lemma pin_run:
  assumes run: "client_run N t0 t" and init: "t0 = fst (btls_init N BTLS_CLIENT sk (Some l) w)" "length l = 32"
    and fin: "t_state t = BTLS_ST_DONE"
  shows "bait_label_from_pub N (t_cert_pub t) = l" "signed_by N (t_cert_pub t)"
proof -
  have l: "l \<noteq> []" using init(2) by auto
  from run have "pin_inv N l t"
  proof (induction rule: client_run.induct)
    case (Hello w r t w')
    then show ?case using init by (auto simp: btls_client_start_def btls_init_def pin_inv_def Let_def split: prod.splits if_splits)
  qed (blast intro: pin_feed [OF _ l] pin_pump pin_app)+
  then show "bait_label_from_pub N (t_cert_pub t) = l" "signed_by N (t_cert_pub t)"
    using fin by (auto simp: pin_inv_def named_def)
qed

text \<open>C10: A client that dialed a name and completes the handshake is talking to the key behind the name,
  whatever records arrived and in whatever order it was driven: the certificate's label is
  the name, and that key signed a transcript.\<close>

theorem name_is_the_pin:
  assumes "client_run N t0 t" "t0 = fst (btls_init N BTLS_CLIENT sk (Some l) w)" "length l = 32" "t_state t = BTLS_ST_DONE"
  shows "bait_label_from_pub N (t_cert_pub t) = l \<and>
    (\<exists>th sig. ed25519_verify N (ed25519_sha512 N (ascii ''btls/1.0-cert-verify'' @ th)) sig (t_cert_pub t) = 0)"
  using pin_run [OF assms] by (simp add: signed_by_def)

text \<open>A name dialed with a capital letter never connects, although \<open>bait_label_valid\<close> accepts it and
  it decodes to the same address: the certificate's label has lower case only and is compared
  byte by byte.\<close>

theorem capital_name_never_connects:
  assumes run: "client_run N t0 t" "t0 = fst (btls_init N BTLS_CLIENT sk (Some l) w)" "length l = 32"
    and cap: "c \<in> set l" "(of_char c :: nat) \<in> {65..90}"
  shows "t_state t \<noteq> BTLS_ST_DONE"
proof
  assume "t_state t = BTLS_ST_DONE"
  then have l: "bait_label_from_pub N (t_cert_pub t) = l" by (rule pin_run(1) [OF run])
  have "c \<notin> set BAIT_ALPHABET" using cap(2) by (auto simp: BAIT_ALPHABET_def)
  then have "c \<notin> set (bait_label_from_pub N (t_cert_pub t))" using label_chars char5_alphabet by blast
  then show False using cap(1) l by simp
qed

theorem capital_name_never_connects_witness:
  "\<exists>t. client_run toy_nacl (fst (btls_init toy_nacl BTLS_CLIENT None (Some (replicate 32 CHR ''B'')) world0)) t \<and>
     t_state t \<noteq> BTLS_ST_DONE"
proof -
  let ?t0 = "fst (btls_init toy_nacl BTLS_CLIENT None (Some (replicate 32 CHR ''B'')) world0)"
  obtain r t w' where h: "btls_client_start ?t0 world0 = (Some r, t, w')"
    by (auto simp: btls_client_start_def btls_init_def Let_def case_prod_beta)
  then have run: "client_run toy_nacl ?t0 t" by (rule client_run.Hello)
  have "t_state t \<noteq> BTLS_ST_DONE"
    by (rule capital_name_never_connects [OF run refl, of "CHR ''B''"]) simp_all
  with run show ?thesis by blast
qed

end
