(* ===== verification/Btls_Handshake.thy ===== *)
theory Btls_Handshake
  imports Btls_Auth
begin

text \<open>
  The honest bTLS handshake, driven as \<^verbatim>\<open>c/examples/bite.c\<close> drives it: each side feeds the
  records that arrived and flushes with \<open>btls_pump\<close> until nothing is left to send.
\<close>

fun flush :: "nacl \<Rightarrow> nat \<Rightarrow> btls \<Rightarrow> world \<Rightarrow> bytes list \<times> btls \<times> world" where
  "flush N 0 t w = ([], t, w)"
| "flush N (Suc k) t w =
     (case btls_pump N t w of
        ((x, r, t), w) \<Rightarrow> if x = 1 then (case flush N k t w of (rs, u, w) \<Rightarrow> (r # rs, u, w)) else ([], t, w))"

fun feed_all :: "nacl \<Rightarrow> btls \<Rightarrow> bytes list \<Rightarrow> int \<times> btls" where
  "feed_all N t [] = (0, t)"
| "feed_all N t (r # rs) = (case btls_feed N t r of (x, t) \<Rightarrow> if x = 0 then feed_all N t rs else (x, t))"

section \<open>Two sides with the same transcript\<close>

definition paired :: "btls \<Rightarrow> btls \<Rightarrow> bool" where
  "paired c s \<longleftrightarrow> hears c s \<and> hears s c \<and> t_th c = t_th s \<and> t_prk c = t_prk s \<and>
     t_role c = BTLS_CLIENT \<and> t_role s = BTLS_SERVER"

definition quiet :: "btls \<Rightarrow> bool" where
  "quiet t \<longleftrightarrow> t_tx_msg t = None \<and> t_rx_len t = 0"

definition stage :: "u8 \<Rightarrow> btls \<Rightarrow> btls \<Rightarrow> bool" where
  "stage x c s \<longleftrightarrow> paired c s \<and> t_want_hs c = x \<and> t_want_hs s = x \<and> t_state c = BTLS_ST_HS \<and> t_state s = BTLS_ST_HS \<and>
     t_epoch c = 1 \<and> t_epoch s = 1 \<and> length (t_th s) \<le> 236 \<and> quiet c \<and> quiet s"

lemma derive_same: "t_th c = t_th s \<Longrightarrow> t_prk c = t_prk s \<Longrightarrow> btls_derive_key N c l = btls_derive_key N s l"
  by (simp add: btls_derive_key_def)

lemma th_append_fits [simp]: "length (t_th t) + length f \<le> 512 \<Longrightarrow> t_th (th_append t f) = t_th t @ f"
  by (simp add: th_append_def)

lemma length_hs_frame [simp]: "length (hs_frame ty b) = 3 + length b"
  by (simp add: hs_frame_def)

lemma length_derive [simp]: "length (btls_derive_key N t l) = 32" "length (finished_mac N t l) = 32"
  by (simp_all add: btls_derive_key_def finished_mac_def)

lemma hs_frame_read: "length b \<le> 64 \<Longrightarrow>
   bget (hs_frame ty b) 0 = ty \<and> rec_blen (hs_frame ty b) = length b \<and> slice 3 (length b) (hs_frame ty b) = b \<and>
   slice 0 (3 + length b) (hs_frame ty b) = hs_frame ty b"
proof (intro conjI)
  assume "length b \<le> 64"
  then have "length b < 65536" by simp
  from rec_blen_hdr [OF this] show "rec_blen (hs_frame ty b) = length b" by (simp add: hs_frame_def)
  show "slice 0 (3 + length b) (hs_frame ty b) = hs_frame ty b" by (rule slice_self) simp
qed (simp_all add: hs_frame_def)

text \<open>One sealed handshake frame crosses.\<close>

lemma sealed_step:
  assumes "hears c s" "length b \<le> 64" "t_epoch c \<noteq> 0"
  obtains r where "pump_sealed N s (hs_frame ty b) = (1, r, s\<lparr>t_send_seq := t_send_seq s + 1\<rparr>)"
    "btls_feed N c r =
       (if t_role c = BTLS_SERVER then feed_hs_server N (c\<lparr>t_recv_seq := t_recv_seq c + 1\<rparr>) ty b (hs_frame ty b)
        else feed_hs_client N (c\<lparr>t_recv_seq := t_recv_seq c + 1\<rparr>) ty b (hs_frame ty b))"
proof -
  let ?f = "hs_frame ty b"
  have len: "length (0 # ?f) \<le> 1292" using assms(2) by simp
  obtain r where S: "seal_box N s (0 # ?f) = (Some r, s\<lparr>t_send_seq := t_send_seq s + 1\<rparr>)"
    using seal_box_eq [OF len] by blast
  note F = seal_box_facts [OF S]
  have o: "open_rec N c r = (Some (0 # ?f), c\<lparr>t_recv_seq := t_recv_seq c + 1\<rparr>)"
    using open_seal_box [OF S assms(1)] assms(2) by simp
  have "btls_feed N c r = feed_hs N (c\<lparr>t_recv_seq := t_recv_seq c + 1\<rparr>) ?f"
    using F(2,5) o assms(2,3) by (simp add: btls_feed_def Let_def)
  then show ?thesis
    using that S hs_frame_read [OF assms(2), of ty] assms(2)
    by (simp add: pump_sealed_def seal_hs_def feed_hs_def Let_def)
qed

lemma cert_step:
  assumes st: "stage BTLS_HS_CERTIFICATE c s" and pin: "t_expect c = [] \<or> t_expect c = bait_label_from_pub N (slice 32 32 (t_sk s))"
  obtains r c' s' where "btls_pump N s w = ((1, r, s'), w)" "btls_feed N c r = (0, c')" "length (t_th s') = length (t_th s) + 35"
    "length (t_th s) \<le> 134 \<Longrightarrow> stage BTLS_HS_CERTIFICATE_VERIFY c' s'" "t_cert_pub c' = slice 32 32 (t_sk s)" "t_sk s' = t_sk s"
proof -
  let ?b = "slice 32 32 (t_sk s)" let ?f = "hs_frame BTLS_HS_CERTIFICATE ?b"
  let ?s = "(th_append s ?f)\<lparr>t_want_hs := BTLS_HS_CERTIFICATE_VERIFY\<rparr>"
  have h: "hears c ?s" "length ?b \<le> 64" "t_epoch c \<noteq> 0" "t_role c = BTLS_CLIENT"
    using st by (auto simp: stage_def paired_def hears_def)
  obtain r where r: "pump_sealed N ?s ?f = (1, r, ?s\<lparr>t_send_seq := t_send_seq ?s + 1\<rparr>)"
      "btls_feed N c r = feed_hs_client N (c\<lparr>t_recv_seq := t_recv_seq c + 1\<rparr>) BTLS_HS_CERTIFICATE ?b ?f"
    using sealed_step [OF h(1-3), of N BTLS_HS_CERTIFICATE] h(4) by (metis btls_role.distinct(1))
  show ?thesis
  proof (rule that)
    show "btls_pump N s w = ((1, r, ?s\<lparr>t_send_seq := t_send_seq ?s + 1\<rparr>), w)"
      using st r(1) by (simp add: stage_def paired_def btls_pump_def pump_server_def Let_def)
    show "btls_feed N c r = (0, (th_append (c\<lparr>t_recv_seq := t_recv_seq c + 1, t_cert_pub := ?b\<rparr>) ?f)\<lparr>t_want_hs := BTLS_HS_CERTIFICATE_VERIFY\<rparr>)"
      using st r(2) pin by (auto simp: stage_def feed_hs_client_def Let_def)
  qed (use st in \<open>simp_all add: stage_def paired_def hears_def quiet_def\<close>)
qed

lemma verify_step:
  assumes st: "stage BTLS_HS_CERTIFICATE_VERIFY c s" and ok: "sign_ok N" "key_ok N (t_sk s)" and cert: "t_cert_pub c = slice 32 32 (t_sk s)"
  obtains r c' s' where "btls_pump N s w = ((1, r, s'), w)" "btls_feed N c r = (0, c')" "length (t_th s') = length (t_th s) + 67"
    "length (t_th s) \<le> 169 \<Longrightarrow> stage BTLS_HS_FINISHED c' s'" "t_cert_pub c' = t_cert_pub c"
proof -
  let ?b = "ed25519_sign N (cert_digest N s) (t_sk s)" let ?f = "hs_frame BTLS_HS_CERTIFICATE_VERIFY ?b"
  let ?s = "(th_append s ?f)\<lparr>t_want_hs := BTLS_HS_FINISHED\<rparr>"
  have h: "hears c ?s" "length ?b \<le> 64" "t_epoch c \<noteq> 0" "t_role c = BTLS_CLIENT" "cert_digest N c = cert_digest N s"
    using st by (auto simp: stage_def paired_def hears_def cert_digest_def)
  obtain r where r: "pump_sealed N ?s ?f = (1, r, ?s\<lparr>t_send_seq := t_send_seq ?s + 1\<rparr>)"
      "btls_feed N c r = feed_hs_client N (c\<lparr>t_recv_seq := t_recv_seq c + 1\<rparr>) BTLS_HS_CERTIFICATE_VERIFY ?b ?f"
    using sealed_step [OF h(1-3), of N BTLS_HS_CERTIFICATE_VERIFY] h(4) by (metis btls_role.distinct(1))
  have v: "ed25519_verify N (cert_digest N c) ?b (t_cert_pub c) = 0"
    using verify_signed [OF ok, of "cert_digest N s" "[]"] by (simp add: h(5) cert)
  have dg: "cert_digest N (c\<lparr>t_recv_seq := k\<rparr>) = cert_digest N c" for k by (simp add: cert_digest_def)
  show ?thesis
  proof (rule that)
    show "btls_pump N s w = ((1, r, ?s\<lparr>t_send_seq := t_send_seq ?s + 1\<rparr>), w)"
      using st r(1) by (simp add: stage_def paired_def btls_pump_def pump_server_def Let_def)
    show "btls_feed N c r = (0, (th_append (c\<lparr>t_recv_seq := t_recv_seq c + 1\<rparr>) ?f)\<lparr>t_want_hs := BTLS_HS_FINISHED\<rparr>)"
      using st r(2) v by (simp add: stage_def feed_hs_client_def Let_def dg)
  qed (use st in \<open>simp_all add: stage_def paired_def hears_def quiet_def\<close>)
qed

lemma finished_step:
  assumes st: "stage BTLS_HS_FINISHED c s"
  obtains r c' s' where "btls_pump N s w = ((1, r, s'), w)" "btls_feed N c r = (0, c')" "length (t_th s') \<le> 271"
    "paired c' s'" "t_want_hs c' = 0" "t_state c' = BTLS_ST_HS" "t_state s' = BTLS_ST_WAIT_FIN" "t_epoch s' = 1" "quiet c'" "quiet s'"
    "t_cert_pub c' = t_cert_pub c"
proof -
  let ?b = "finished_mac N s ''btls-fin-s''" let ?f = "hs_frame BTLS_HS_FINISHED ?b"
  let ?s = "(th_append s ?f)\<lparr>t_want_hs := BTLS_HS_FINISHED, t_state := BTLS_ST_WAIT_FIN\<rparr>"
  have h: "hears c ?s" "length ?b \<le> 64" "t_epoch c \<noteq> 0" "t_role c = BTLS_CLIENT"
    using st by (auto simp: stage_def paired_def hears_def)
  have m: "finished_mac N (c\<lparr>t_recv_seq := k\<rparr>) l = finished_mac N s l" for k l
    using st by (simp add: finished_mac_def btls_derive_key_def stage_def paired_def)
  obtain r where r: "pump_sealed N ?s ?f = (1, r, ?s\<lparr>t_send_seq := t_send_seq ?s + 1\<rparr>)"
      "btls_feed N c r = feed_hs_client N (c\<lparr>t_recv_seq := t_recv_seq c + 1\<rparr>) BTLS_HS_FINISHED ?b ?f"
    using sealed_step [OF h(1-3), of N BTLS_HS_FINISHED] h(4) by (metis btls_role.distinct(1))
  show ?thesis
  proof (rule that)
    show "btls_pump N s w = ((1, r, ?s\<lparr>t_send_seq := t_send_seq ?s + 1\<rparr>), w)"
      using st r(1) by (simp add: stage_def paired_def btls_pump_def pump_server_def Let_def)
    show "btls_feed N c r = (0, (th_append (c\<lparr>t_recv_seq := t_recv_seq c + 1\<rparr>) ?f)\<lparr>t_want_hs := 0\<rparr>)"
      using st r(2) m by (simp add: stage_def feed_hs_client_def Let_def)
  qed (use st in \<open>simp_all add: stage_def paired_def hears_def quiet_def\<close>)
qed

lemma client_fin_step:
  assumes p: "paired c s" "t_want_hs c = 0" "t_state c = BTLS_ST_HS" "t_state s = BTLS_ST_WAIT_FIN" "t_epoch s = 1"
    and q: "quiet c" "quiet s" "length (t_th s) \<le> 271"
  obtains r c' s' where "btls_pump N c w = ((1, r, c'), w)" "btls_feed N s r = (1, s')" "hears c' s'" "hears s' c'"
    "app_ready c'" "app_ready s'" "quiet c'" "quiet s'" "t_cert_pub c' = t_cert_pub c"
proof -
  let ?b = "finished_mac N c ''btls-fin-c''" let ?f = "hs_frame BTLS_HS_FINISHED ?b"
  let ?c = "th_append c ?f" let ?s = "s\<lparr>t_recv_seq := t_recv_seq s + 1\<rparr>"
  have h: "hears s ?c" "length ?b \<le> 64" "t_epoch s \<noteq> 0" "t_role s = BTLS_SERVER"
    using p by (auto simp: paired_def hears_def)
  have m: "finished_mac N ?s l = finished_mac N c l" for l
    using p(1) by (simp add: finished_mac_def btls_derive_key_def paired_def)
  have th: "t_th ?c = t_th (th_append ?s ?f)" "t_prk ?c = t_prk s"
    using p(1) q(3) by (simp_all add: paired_def)
  obtain r where r: "pump_sealed N ?c ?f = (1, r, ?c\<lparr>t_send_seq := t_send_seq ?c + 1\<rparr>)"
      "btls_feed N s r = feed_hs_server N ?s BTLS_HS_FINISHED ?b ?f"
    by (rule sealed_step [OF h(1-3), of N BTLS_HS_FINISHED]) (use h(4) in simp)
  let ?c' = "(install_epoch N (?c\<lparr>t_send_seq := t_send_seq ?c + 1\<rparr>) ''btls-app-c2s'' ''btls-app-s2c'')\<lparr>t_epoch := 2, t_state := BTLS_ST_DONE\<rparr>"
  let ?s' = "(install_epoch N (th_append ?s ?f) ''btls-app-c2s'' ''btls-app-s2c'')\<lparr>t_epoch := 2, t_state := BTLS_ST_DONE\<rparr>"
  have "btls_pump N c w = ((1, r, ?c'), w)"
    using p r(1) by (simp add: paired_def btls_pump_def Let_def)
  moreover have "btls_feed N s r = (1, ?s')"
    using p r(2) m by (simp add: feed_hs_server_def)
  moreover have role: "t_role c = BTLS_CLIENT" "t_role s = BTLS_SERVER" using p(1) by (simp_all add: paired_def)
  have d: "btls_derive_key N (?c\<lparr>t_send_seq := k\<rparr>) l = btls_derive_key N (th_append ?s ?f) l" for k l
    using th by (intro derive_same) simp_all
  have "hears ?c' ?s'" "hears ?s' ?c'"
    by (simp_all add: hears_def install_epoch_def Let_def d role)
  ultimately show ?thesis
    by (rule that) (use q in \<open>simp_all add: app_ready_def quiet_def\<close>)
qed

section \<open>The hellos\<close>

definition fresh :: "nacl \<Rightarrow> btls_role \<Rightarrow> btls \<Rightarrow> bool" where
  "fresh N x t \<longleftrightarrow> t_role t = x \<and> t_state t = BTLS_ST_INIT \<and> t_epoch t = 0 \<and> t_th t = [] \<and>
     t_eph_pub t = ed25519_scalarmult_base N (t_eph_priv t) \<and> quiet t"

lemma fresh_init: "fresh N x (fst (btls_init N x sk l w))"
  by (simp add: fresh_def btls_init_def case_prod_beta quiet_def)

lemma hello_read:
  assumes "length rnd = 32" "length eph = 32"
  shows "length (hello_rec (hs_frame ty (rnd @ eph))) = 70" "rec_blen (hello_rec (hs_frame ty (rnd @ eph))) = 67"
    "bget (hello_rec (hs_frame ty (rnd @ eph))) 0 = 0" "drop 3 (hello_rec (hs_frame ty (rnd @ eph))) = hs_frame ty (rnd @ eph)"
    "bget (hs_frame ty (rnd @ eph)) 0 = ty" "bget (hs_frame ty (rnd @ eph)) 2 = 64" "slice 35 32 (hs_frame ty (rnd @ eph)) = eph"
  using assms by simp_all (simp_all add: hello_rec_def hs_frame_def)

lemma hello_steps:
  assumes c: "fresh N BTLS_CLIENT c" and s: "fresh N BTLS_SERVER s" and dh: "dh_ok N"
  obtains x c1 w1 s1 y s2 v2 c2 where "btls_client_start c w = (Some x, c1, w1)" "btls_feed N s x = (0, s1)"
    "btls_pump N s1 v = ((1, y, s2), v2)" "btls_feed N c1 y = (0, c2)" "stage BTLS_HS_CERTIFICATE c2 s2"
    "length (t_th s2) = 134" "t_expect c2 = t_expect c" "t_sk s2 = t_sk s"
proof -
  obtain rc w1 where rc: "randombytes 32 w = (rc, w1)" by (cases "randombytes 32 w")
  obtain rs v2 where rs: "randombytes 32 v = (rs, v2)" by (cases "randombytes 32 v")
  have len: "length rc = 32" "length rs = 32" using length_randombytes [of 32] rc rs by (metis fst_conv)+
  have pub: "length (t_eph_pub c) = 32" "length (t_eph_pub s) = 32" using c s by (simp_all add: fresh_def)
  let ?x = "hs_frame BTLS_HS_CLIENT_HELLO (rc @ t_eph_pub c)" and ?y = "hs_frame BTLS_HS_SERVER_HELLO (rs @ t_eph_pub s)"
  note X = hello_read [OF len(1) pub(1), of BTLS_HS_CLIENT_HELLO] and Y = hello_read [OF len(2) pub(2), of BTLS_HS_SERVER_HELLO]
  define c1 where "c1 = (th_append (c\<lparr>t_random := rc\<rparr>) ?x)\<lparr>t_state := BTLS_ST_CH_SENT, t_want_hs := BTLS_HS_SERVER_HELLO\<rparr>"
  define s1 where "s1 = (th_append (s\<lparr>t_peer_eph := t_eph_pub c\<rparr>) ?x)\<lparr>t_state := BTLS_ST_HS, t_want_hs := BTLS_HS_SERVER_HELLO\<rparr>"
  define u where "u = ecdh_prk N (th_append (s1\<lparr>t_random := rs\<rparr>) ?y)"
  define z where "z = ecdh_prk N (th_append (c1\<lparr>t_peer_eph := t_eph_pub s\<rparr>) ?y)"
  let ?s2 = "(install_epoch N u ''btls-hs-c2s'' ''btls-hs-s2c'')\<lparr>t_epoch := 1, t_want_hs := BTLS_HS_CERTIFICATE\<rparr>"
  let ?c2 = "(install_epoch N z ''btls-hs-c2s'' ''btls-hs-s2c'')\<lparr>t_epoch := 1, t_state := BTLS_ST_HS, t_want_hs := BTLS_HS_CERTIFICATE\<rparr>"
  have th: "t_th z = ?x @ ?y" "t_th u = ?x @ ?y"
    using c s len pub by (simp_all add: z_def u_def c1_def s1_def fresh_def)
  have "ed25519_scalarmult N (t_eph_priv c) (t_eph_pub s) = ed25519_scalarmult N (t_eph_priv s) (t_eph_pub c)"
    using dh c s by (simp add: dh_ok_def fresh_def)
  then have prk: "t_prk z = t_prk u"
    by (simp add: z_def u_def ecdh_prk_def c1_def s1_def)
  have d: "btls_derive_key N z l = btls_derive_key N u l" for l
    using th prk by (intro derive_same) simp_all
  have role: "t_role z = BTLS_CLIENT" "t_role u = BTLS_SERVER" "t_state u = BTLS_ST_HS" "quiet z" "quiet u"
      "t_expect z = t_expect c" "t_sk u = t_sk s"
    using c s by (simp_all add: z_def u_def c1_def s1_def fresh_def quiet_def)
  show ?thesis
  proof (rule that)
    show "btls_client_start c w = (Some (hello_rec ?x), c1, w1)"
      using c by (simp add: btls_client_start_def fresh_def rc Let_def c1_def)
    show "btls_feed N s (hello_rec ?x) = (0, s1)"
      using s X len pub by (simp add: btls_feed_def feed_hello_def fresh_def Let_def s1_def)
    show "btls_pump N s1 v = ((1, hello_rec ?y, ?s2), v2)"
      using s by (simp add: btls_pump_def pump_server_def rs Let_def u_def s1_def fresh_def)
    show "btls_feed N c1 (hello_rec ?y) = (0, ?c2)"
      using c Y len pub by (simp add: btls_feed_def feed_hello_def fresh_def Let_def z_def c1_def)
    show "stage BTLS_HS_CERTIFICATE ?c2 ?s2"
      using role th prk d len pub
      by (simp add: stage_def paired_def hears_def install_epoch_def Let_def quiet_def)
  qed (use th len pub role in simp_all)
qed

section \<open>The whole handshake\<close>

lemma flush_step: "btls_pump N t w = ((1, r, u), v) \<Longrightarrow> flush N k u v = (rs, x, y) \<Longrightarrow> flush N (Suc k) t w = (r # rs, x, y)"
  by simp

lemma flush_end: "t_state t = BTLS_ST_WAIT_FIN \<or> t_state t = BTLS_ST_DONE \<Longrightarrow> flush N (Suc k) t w = ([], t, w)"
  by (auto simp: btls_pump_def)

lemma btls_honest_run:
  assumes c: "fresh N BTLS_CLIENT c" and s: "fresh N BTLS_SERVER s" and ok: "dh_ok N" "sign_ok N" "key_ok N (t_sk s)"
    and pin: "t_expect c = [] \<or> t_expect c = bait_label_from_pub N (slice 32 32 (t_sk s))"
  obtains x c1 w1 s1 ys s5 v5 c5 z c6 s6 where "btls_client_start c w = (Some x, c1, w1)" "btls_feed N s x = (0, s1)"
    "flush N 5 s1 v = (ys, s5, v5)" "feed_all N c1 ys = (0, c5)" "flush N 2 c5 w1 = ([z], c6, w1)" "btls_feed N s5 z = (1, s6)"
    "hears c6 s6" "hears s6 c6" "app_ready c6" "app_ready s6" "quiet c6" "quiet s6" "t_cert_pub c6 = slice 32 32 (t_sk s)"
proof -
  obtain x c1 w1 s1 y1 s2 v2 c2 where h: "btls_client_start c w = (Some x, c1, w1)" "btls_feed N s x = (0, s1)"
      "btls_pump N s1 v = ((1, y1, s2), v2)" "btls_feed N c1 y1 = (0, c2)" "stage BTLS_HS_CERTIFICATE c2 s2"
      "length (t_th s2) = 134" "t_expect c2 = t_expect c" "t_sk s2 = t_sk s"
    by (rule hello_steps [OF c s ok(1), of w v])
  obtain y2 c3 s3 where a: "btls_pump N s2 v2 = ((1, y2, s3), v2)" "btls_feed N c2 y2 = (0, c3)" "length (t_th s3) = 169"
      "stage BTLS_HS_CERTIFICATE_VERIFY c3 s3" "t_cert_pub c3 = slice 32 32 (t_sk s)" "t_sk s3 = t_sk s"
    by (rule cert_step [OF h(5), of N v2]) (use pin h in simp_all)
  obtain y3 c4 s4 where b: "btls_pump N s3 v2 = ((1, y3, s4), v2)" "btls_feed N c3 y3 = (0, c4)"
      "stage BTLS_HS_FINISHED c4 s4" "t_cert_pub c4 = slice 32 32 (t_sk s)"
    by (rule verify_step [OF a(4) ok(2), of v2]) (use ok a in simp_all)
  obtain y4 c5 s5 where d: "btls_pump N s4 v2 = ((1, y4, s5), v2)" "btls_feed N c4 y4 = (0, c5)" "length (t_th s5) \<le> 271"
      "paired c5 s5" "t_want_hs c5 = 0" "t_state c5 = BTLS_ST_HS" "t_state s5 = BTLS_ST_WAIT_FIN" "t_epoch s5 = 1" "quiet c5" "quiet s5"
      "t_cert_pub c5 = t_cert_pub c4"
    by (rule finished_step [OF b(3), of N v2])
  obtain z c6 s6 where e: "btls_pump N c5 w1 = ((1, z, c6), w1)" "btls_feed N s5 z = (1, s6)" "hears c6 s6" "hears s6 c6"
      "app_ready c6" "app_ready s6" "quiet c6" "quiet s6" "t_cert_pub c6 = t_cert_pub c5"
    by (rule client_fin_step [OF d(4-10,3), of N w1])
  have "flush N (Suc (Suc (Suc (Suc (Suc 0))))) s1 v = ([y1, y2, y3, y4], s5, v2)"
    by (rule flush_step [OF h(3)], rule flush_step [OF a(1)], rule flush_step [OF b(1)], rule flush_step [OF d(1)], rule flush_end)
      (use d(7) in simp)
  then have f: "flush N 5 s1 v = ([y1, y2, y3, y4], s5, v2)" by (simp only: numeral_eq_Suc pred_numeral_simps arith_simps One_nat_def)
  have "flush N (Suc (Suc 0)) c5 w1 = ([z], c6, w1)"
    by (rule flush_step [OF e(1)], rule flush_end) (use e(5) in \<open>simp add: app_ready_def\<close>)
  then have g: "flush N 2 c5 w1 = ([z], c6, w1)" by (simp only: numeral_2_eq_2)
  have "feed_all N c1 [y1, y2, y3, y4] = (0, c5)" by (simp add: h(4) a(2) b(2) d(2))
  then show ?thesis by (rule that [OF h(1,2) f _ g e(2-8)]) (simp add: e(9) d(11) b(4))
qed

text \<open>C9: An honest handshake completes: the client's hello, the server's flight of four records and the
  client's FINISHED are all accepted, both sides are ready for messages with matching keys
  and counters in both directions, and the client holds the server's key, the one behind the
  name when it dialed a name.\<close>

theorem btls_handshake:
  assumes ok: "dh_ok N" "sign_ok N" "key_ok N sk" and name: "expect = None \<or> expect = Some (bait_label_from_pub N (slice 32 32 sk))"
    and c: "c = fst (btls_init N BTLS_CLIENT None expect w0)" and s: "s = fst (btls_init N BTLS_SERVER (Some sk) None v0)"
  shows "\<exists>x c1 w1 s1 ys s5 v5 c5 z c6 s6. btls_client_start c w = (Some x, c1, w1) \<and> btls_feed N s x = (0, s1) \<and>
    flush N 5 s1 v = (ys, s5, v5) \<and> feed_all N c1 ys = (0, c5) \<and> flush N 2 c5 w1 = ([z], c6, w1) \<and> btls_feed N s5 z = (1, s6) \<and>
    app_ready c6 \<and> app_ready s6 \<and> hears c6 s6 \<and> hears s6 c6 \<and> t_cert_pub c6 = slice 32 32 sk"
proof -
  have fr: "fresh N BTLS_CLIENT c" "fresh N BTLS_SERVER s" unfolding c s by (rule fresh_init)+
  have sk: "t_sk s = sk" "t_expect c = [] \<or> t_expect c = bait_label_from_pub N (slice 32 32 sk)"
    using name by (auto simp: c s btls_init_def case_prod_beta)
  show ?thesis
    by (rule btls_honest_run [OF fr ok(1,2), unfolded sk(1), OF ok(3) sk(2), of w v]) blast
qed

theorem btls_handshake_witness:
  "\<exists>x c1 w1. btls_client_start (fst (btls_init toy_nacl BTLS_CLIENT None None world0)) world0 = (Some x, c1, w1) \<and>
     (\<exists>c6 s6. app_ready c6 \<and> app_ready s6 \<and> hears c6 s6 \<and> t_cert_pub c6 = replicate 32 5)"
proof -
  have k: "key_ok toy_nacl (replicate 64 5)" "slice 32 32 (replicate 64 5) = replicate 32 5"
    by (simp_all add: key_ok_def ed25519_seed_to_pub_def toy_nacl_def slice_eq_take_drop)
  show ?thesis
    using btls_handshake [OF toy_dh_ok toy_sign_ok k(1) _ refl refl, of None world0 world0 world0 world0] unfolding k(2) by blast
qed

text \<open>The honest run as a client run, for a name.\<close>

lemma feed_all_run: "client_run N t0 t \<Longrightarrow> feed_all N t rs = (x, u) \<Longrightarrow> client_run N t0 u"
proof (induction rs arbitrary: t)
  case (Cons r rs)
  obtain y v where f: "btls_feed N t r = (y, v)" by (cases "btls_feed N t r")
  then have "client_run N t0 v" using Cons.prems(1) by (rule client_run.Feed [rotated])
  with Cons f show ?case by (auto split: if_splits)
qed simp

lemma flush_run: "client_run N t0 t \<Longrightarrow> flush N k t w = (rs, u, w') \<Longrightarrow> client_run N t0 u"
proof (induction k arbitrary: t w rs)
  case (Suc k)
  obtain x r v w1 where f: "btls_pump N t w = ((x, r, v), w1)" by (cases "btls_pump N t w") auto
  have "client_run N t0 v" by (rule client_run.Pump [OF Suc.prems(1) f])
  with Suc f show ?case by (auto split: if_splits prod.splits)
qed simp

text \<open>The pin at the toy primitives: a client that dials the name of the key 5, 5, \<dots> and connects.\<close>

theorem name_is_the_pin_witness:
  "\<exists>t :: btls. t_state t = BTLS_ST_DONE \<and> bait_label_from_pub toy_nacl (t_cert_pub t) = bait_label_from_pub toy_nacl (replicate 32 5)"
proof -
  have k: "key_ok toy_nacl (replicate 64 5)" "slice 32 32 (replicate 64 5) = replicate 32 5"
    by (simp_all add: key_ok_def ed25519_seed_to_pub_def toy_nacl_def slice_eq_take_drop)
  let ?l = "bait_label_from_pub toy_nacl (replicate 32 5)"
  let ?c = "fst (btls_init toy_nacl BTLS_CLIENT None (Some ?l) world0)" and ?s = "fst (btls_init toy_nacl BTLS_SERVER (Some (replicate 64 5)) None world0)"
  have sk: "t_sk ?s = replicate 64 5" "t_expect ?c = ?l" by (simp_all add: btls_init_def case_prod_beta)
  have fr: "fresh toy_nacl BTLS_CLIENT ?c" "fresh toy_nacl BTLS_SERVER ?s" by (rule fresh_init)+
  obtain x c1 w1 s1 ys s5 v5 c5 z c6 s6 where r: "btls_client_start ?c world0 = (Some x, c1, w1)" "feed_all toy_nacl c1 ys = (0, c5)"
      "flush toy_nacl 2 c5 w1 = ([z], c6, w1)" "app_ready c6"
    by (rule btls_honest_run [OF fr toy_dh_ok toy_sign_ok, of world0 world0]) (simp_all add: sk k)
  have run: "client_run toy_nacl ?c c6"
    by (rule flush_run [OF feed_all_run [OF client_run.Hello [OF r(1)] r(2)] r(3)])
  have d: "t_state c6 = BTLS_ST_DONE" using r(4) by (simp add: app_ready_def)
  have "bait_label_from_pub toy_nacl (t_cert_pub c6) = ?l"
    using name_is_the_pin [OF run refl _ d] by simp
  with d show ?thesis by blast
qed

end
