(* ===== verification/Gw.thy ===== *)
theory Gw
  imports Addr
begin

text \<open>
  The tables of the tunnel gateway (\<^verbatim>\<open>c/src/IPv69/ipv69gw.c\<close>) and the operations on them: peers
  with their authenticated ranges, the allowlist, learning from an INIT or an announcement,
  the mesh of gateways on the segment and over links, and host routes. A pointer into a table
  is an index. A socket address is IPv4 or IPv6 with a port, or empty (a peer on the
  segment). \<open>None\<close> as a result is a write past the end of a stack buffer.
\<close>

abbreviation (input) GW_MAX_PEERS :: nat where "GW_MAX_PEERS \<equiv> 256"
abbreviation (input) PEER_TIMEOUT :: int where "PEER_TIMEOUT \<equiv> 300"
abbreviation (input) MAX_LINKS :: nat where "MAX_LINKS \<equiv> 8"
abbreviation (input) GW_CHUNK_INIT :: u8 where "GW_CHUNK_INIT \<equiv> 1"
abbreviation (input) IPV69_CTRL_GW_ANN :: u8 where "IPV69_CTRL_GW_ANN \<equiv> 12"
abbreviation (input) IPV69_CTRL_GW_Q :: u8 where "IPV69_CTRL_GW_Q \<equiv> 13"
abbreviation (input) IPV69_CTRL_GW_R :: u8 where "IPV69_CTRL_GW_R \<equiv> 14"
abbreviation (input) IPV69_CTRL_GW_ROUTE :: u8 where "IPV69_CTRL_GW_ROUTE \<equiv> 15"
abbreviation (input) IPV69_CTRL_GW_CALL :: u8 where "IPV69_CTRL_GW_CALL \<equiv> 16"

section \<open>State\<close>

datatype endpoint = No_Ep | Ep4 bytes u16 | Ep6 bytes u16

record gw_peer =
  p_addr :: u64
  p_prefix :: u8
  p_mac :: bytes
  p_key :: bytes
  p_ep :: endpoint
  p_last :: int

definition gw_peer0 :: gw_peer where
  "gw_peer0 = \<lparr>p_addr = 0, p_prefix = 0, p_mac = zeros 6, p_key = zeros 32, p_ep = No_Ep, p_last = 0\<rparr>"

record auth_peer =
  au_key :: bytes
  au_base :: u64
  au_prefix :: int

record gw_neigh =
  gn_mac :: bytes
  gn_last :: int

record gw_pend =
  gp_addr :: u64
  gp_asker :: endpoint
  gp_via_link :: bool
  gp_ts :: int

record gw_link =
  l_ep :: endpoint
  l_pub :: bytes
  l_last :: int

record gw_route =
  r_addr :: u64
  r_prefix :: u8
  r_ep :: endpoint
  r_li :: nat
  r_last :: int

text \<open>What the gateway hands to its sockets.\<close>

datatype gw_out = Out_Udp endpoint bytes | Out_L2 bytes

record gw =
  g_auth :: "auth_peer list"
  g_peers :: "gw_peer list"
  g_routes_dirty :: bool
  g_neigh :: "gw_neigh list"
  g_pend :: "gw_pend list"
  g_links :: "gw_link list"
  g_routes :: "gw_route list"
  g_l2 :: bool
  g_l2mac :: bytes
  g_allow_private :: bool
  g_buf :: bytes
  g_out :: "gw_out list"
  g_w :: world

definition gw_now :: "gw \<Rightarrow> int" where
  "gw_now g = w_time (g_w g)"

definition emit :: "gw_out \<Rightarrow> gw \<Rightarrow> gw" where
  "emit out g = g\<lparr>g_out := g_out g @ [out]\<rparr>"

definition rate_gw :: "bytes \<Rightarrow> int \<Rightarrow> int \<Rightarrow> int \<Rightarrow> gw \<Rightarrow> bool \<times> gw" where
  "rate_gw ident r b c g = (let (ok, w) = rate_allow_g ident r b c (g_w g) in (ok, g\<lparr>g_w := w\<rparr>))"

section \<open>Peers\<close>

text \<open>The scan for the longest prefix: the first entry of the greatest length wins.\<close>

fun lpm_scan :: "(nat \<Rightarrow> bool) \<Rightarrow> (nat \<Rightarrow> nat) \<Rightarrow> nat list \<Rightarrow> nat option \<Rightarrow> int \<Rightarrow> nat option" where
  "lpm_scan ok pref [] best best_pref = best"
| "lpm_scan ok pref (i # is) best best_pref =
     (if best_pref < int (pref i) \<and> ok i then lpm_scan ok pref is (Some i) (int (pref i))
      else lpm_scan ok pref is best best_pref)"

definition peer_find_addr :: "gw \<Rightarrow> u64 \<Rightarrow> nat option" where
  "peer_find_addr g addr =
     lpm_scan (\<lambda>i. p_addr (g_peers g ! i) \<noteq> 0 \<and>
                   ipv69_addr_in_range addr (p_addr (g_peers g ! i)) (unat (p_prefix (g_peers g ! i))))
       (\<lambda>i. unat (p_prefix (g_peers g ! i))) [0..<GW_MAX_PEERS] None (-1)"

definition peer_find :: "(gw_peer \<Rightarrow> bool) \<Rightarrow> gw \<Rightarrow> nat option" where
  "peer_find P g = find (\<lambda>i. p_addr (g_peers g ! i) \<noteq> 0 \<and> P (g_peers g ! i)) [0..<GW_MAX_PEERS]"

definition peer_find_key :: "gw \<Rightarrow> bytes \<Rightarrow> nat option" where
  "peer_find_key g key = peer_find (\<lambda>p. p_key p = key) g"

definition auth_allowed :: "gw \<Rightarrow> bytes \<Rightarrow> u64 \<Rightarrow> bool" where
  "auth_allowed g key addr \<longleftrightarrow>
     g_auth g = [] \<or>
     (\<exists>a\<in>set (g_auth g). au_key a = key \<and> ipv69_addr_in_range addr (au_base a) (nat (au_prefix a)))"

definition peer_find_mac :: "gw \<Rightarrow> bytes \<Rightarrow> nat option" where
  "peer_find_mac g mac = peer_find (\<lambda>p. p_mac p = mac) g"

definition peer_find_endpoint :: "gw \<Rightarrow> endpoint \<Rightarrow> nat option" where
  "peer_find_endpoint g ep = (if ep = No_Ep then None else peer_find (\<lambda>p. p_ep p = ep) g)"

definition upd_peer :: "nat \<Rightarrow> (gw_peer \<Rightarrow> gw_peer) \<Rightarrow> gw \<Rightarrow> gw" where
  "upd_peer i f g = g\<lparr>g_peers := (g_peers g)[i := f (g_peers g ! i)]\<rparr>"

definition peer_learn_auth :: "u64 \<Rightarrow> bytes \<Rightarrow> endpoint \<Rightarrow> bytes \<Rightarrow> int \<Rightarrow> gw \<Rightarrow> bool \<times> gw" where
  "peer_learn_auth addr mac ep key prefix g =
     (case peer_find_key g key of
        Some i \<Rightarrow>
          (True, upd_peer i (\<lambda>p. p\<lparr>p_addr := addr, p_prefix := word_of_int prefix, p_ep := ep, p_last := gw_now g\<rparr>) g)
      | None \<Rightarrow>
          (case rate_gw (mac @ [0, 0]) 5 10 1 g of
             (False, g) \<Rightarrow> (False, g)
           | (True, g) \<Rightarrow>
               (case find (\<lambda>i. p_addr (g_peers g ! i) = 0 \<or> PEER_TIMEOUT < gw_now g - p_last (g_peers g ! i)) [0..<GW_MAX_PEERS] of
                  None \<Rightarrow> (False, g)
                | Some slot \<Rightarrow>
                    (True, (upd_peer slot (\<lambda>p. \<lparr>p_addr = addr, p_prefix = word_of_int prefix, p_mac = mac, p_key = key,
                                             p_ep = ep, p_last = gw_now g\<rparr>) g)\<lparr>g_routes_dirty := True\<rparr>))))"

text \<open>Learning from an INIT: the identity at 45, the signature over the first 77 bytes of the chunk.\<close>

definition gw_learn_init :: "nacl \<Rightarrow> bytes \<Rightarrow> endpoint \<Rightarrow> gw \<Rightarrow> bool \<times> gw" where
  "gw_learn_init N f ep g =
     (let ic = drop (ETH_LEN + IPV69_HEADER_LEN) f
      in if length f < ETH_LEN + IPV69_HEADER_LEN + 12 + 4 + 77 + 64 then (False, g)
         else if bget ic 12 \<noteq> GW_CHUNK_INIT \<or> bget ic 13 AND 1 \<noteq> 0 then (False, g)
         else case rate_gw (slice 6 6 f @ [0, 0]) 10 20 1 g of
                (False, g) \<Rightarrow> (False, g)
              | (True, g) \<Rightarrow>
                  let cd = drop 16 ic; pub = slice 45 32 cd; src = ipv69_addr_get (source (hdr_at (drop ETH_LEN f)))
                  in if ed25519_verify N (slice 0 77 cd) (drop 77 cd) pub \<noteq> 0 then (False, g)
                     else if \<not> auth_allowed g pub src then (False, g)
                     else peer_learn_auth src (slice 6 6 f) ep pub 40 g)"

definition gw_learn_announce :: "nacl \<Rightarrow> bytes \<Rightarrow> endpoint \<Rightarrow> gw \<Rightarrow> bool \<times> gw" where
  "gw_learn_announce N f ep g =
     (let ic = drop (ETH_LEN + IPV69_HEADER_LEN) f
      in if length f < ETH_LEN + IPV69_HEADER_LEN + 6 + 96 then (False, g)
         else if bget ic 0 \<noteq> IPV69_CTRL_ND_REQUEST then (False, g)
         else case rate_gw (slice 6 6 f @ [0, 0]) 10 20 1 g of
                (False, g) \<Rightarrow> (False, g)
              | (True, g) \<Rightarrow>
                  let pub = slice 6 32 ic; addr = ipv69_addr_get (drop 1 ic)
                  in if ed25519_verify N (slice 0 6 ic) (drop 38 ic) pub \<noteq> 0 then (False, g)
                     else if \<not> auth_allowed g pub addr then (False, g)
                     else peer_learn_auth addr (slice 6 6 f) ep pub 40 g)"

definition gw_src_ok :: "gw \<Rightarrow> ipv69_header \<Rightarrow> bool" where
  "gw_src_ok g h \<longleftrightarrow>
     (let src = ipv69_addr_get (source h)
      in src = 0 \<or> next_header h \<noteq> IPV69_NEXT_DGRAM \<or> peer_find_addr g src \<noteq> None)"

section \<open>Links\<close>

definition v4mapped :: "bytes \<Rightarrow> bool" where
  "v4mapped a \<longleftrightarrow> slice 0 10 a = zeros 10 \<and> slice 10 2 a = [0xff, 0xff]"

fun ep_v4 :: "endpoint \<Rightarrow> (bytes \<times> u16) option" where
  "ep_v4 (Ep4 a p) = Some (a, p)"
| "ep_v4 (Ep6 a p) = (if v4mapped a then Some (slice 12 4 a, p) else None)"
| "ep_v4 No_Ep = None"

definition link_ep_match :: "endpoint \<Rightarrow> gw_link \<Rightarrow> bool" where
  "link_ep_match a l =
     (case (ep_v4 a, ep_v4 (l_ep l)) of
        (Some x, Some y) \<Rightarrow> x = y
      | _ \<Rightarrow> (case (a, l_ep l) of (Ep6 x p, Ep6 y q) \<Rightarrow> p = q \<and> x = y | _ \<Rightarrow> False))"

definition gw_link_find :: "gw \<Rightarrow> endpoint \<Rightarrow> nat option" where
  "gw_link_find g ep = find (\<lambda>i. link_ep_match ep (g_links g ! i)) [0..<length (g_links g)]"

definition send_udp :: "bytes \<Rightarrow> endpoint \<Rightarrow> gw \<Rightarrow> gw" where
  "send_udp f ep g = (if ep = No_Ep then g else emit (Out_Udp ep f) g)"

definition mesh_frame :: "gw \<Rightarrow> bytes \<Rightarrow> bytes" where
  "mesh_frame g pkt = build_frame bcast_mac (g_l2mac g) 0 IPV69_BCAST_ADDR IPV69_NEXT_CONTROL 64 0 0 pkt"

text \<open>The frame goes into a 192-byte buffer.\<close>

definition gw_link_send_pkt :: "gw_link \<Rightarrow> bytes \<Rightarrow> gw \<Rightarrow> gw option" where
  "gw_link_send_pkt l pkt g =
     (if 192 < length (mesh_frame g pkt) then None else Some (send_udp (mesh_frame g pkt) (l_ep l) g))"

definition gw_link_send_raw :: "gw_link \<Rightarrow> bytes \<Rightarrow> gw \<Rightarrow> gw" where
  "gw_link_send_raw l f g = send_udp f (l_ep l) g"

text \<open>The frame goes into a 128-byte buffer; every caller sends at most 12 bytes.\<close>

definition gw_mesh_send :: "bytes \<Rightarrow> gw \<Rightarrow> gw" where
  "gw_mesh_send pkt g = emit (Out_L2 (mesh_frame g pkt)) g"

definition gw_link_announce :: "nacl \<Rightarrow> u16 \<Rightarrow> bytes \<Rightarrow> gw \<Rightarrow> gw option" where
  "gw_link_announce N port sk g =
     (let p = IPV69_CTRL_GW_ANN # ipv69_put_be16 port
      in ofold (\<lambda>l. gw_link_send_pkt l (p @ ed25519_sign N p sk)) (g_links g) g)"

section \<open>Routes\<close>

definition route_find :: "gw \<Rightarrow> u64 \<Rightarrow> nat option" where
  "route_find g addr =
     lpm_scan (\<lambda>i. ipv69_addr_in_range addr (r_addr (g_routes g ! i)) (unat (r_prefix (g_routes g ! i))))
       (\<lambda>i. unat (r_prefix (g_routes g ! i))) [0..<length (g_routes g)] None (-1)"

text \<open>A host route \<open>[code][addr 5][prefix][ip4 4][port 2]\<close> from link \<open>li\<close>.\<close>

definition route_learn :: "bytes \<Rightarrow> nat \<Rightarrow> gw \<Rightarrow> gw" where
  "route_learn p li g =
     (let addr = ipv69_addr_get (drop 1 p); prefix = bget p 6
      in if prefix = 0 \<or> 40 < prefix then g
         else case find (\<lambda>i. r_addr (g_routes g ! i) = addr \<and> r_prefix (g_routes g ! i) = prefix \<and> r_li (g_routes g ! i) = li)
                     [0..<length (g_routes g)] of
                Some i \<Rightarrow> g\<lparr>g_routes := (g_routes g)[i := (g_routes g ! i)\<lparr>r_last := gw_now g\<rparr>]\<rparr>
              | None \<Rightarrow>
                  if length (g_routes g) < GW_MAX_PEERS
                  then g\<lparr>g_routes := g_routes g @ [\<lparr>r_addr = addr, r_prefix = prefix, r_ep = Ep4 (slice 7 4 p) (ipv69_get_be16 (drop 11 p)),
                                                   r_li = li, r_last = gw_now g\<rparr>]\<rparr>
                  else g)"

text \<open>Removing the entries that are too old: the last one takes the place of a removed one.\<close>

function swap_expire :: "('x \<Rightarrow> bool) \<Rightarrow> nat \<Rightarrow> 'x list \<Rightarrow> 'x list" where
  "swap_expire old i xs =
     (if length xs \<le> i then xs
      else if old (xs ! i) then swap_expire old i (butlast (xs[i := last xs]))
      else swap_expire old (i + 1) xs)"
  by pat_completeness auto
termination
  by (relation "measure (\<lambda>(old, i, xs). 2 * length xs - i)") auto

declare swap_expire.simps [simp del]

definition route_expire :: "int \<Rightarrow> gw \<Rightarrow> gw" where
  "route_expire now g = g\<lparr>g_routes := swap_expire (\<lambda>r. 90 < now - r_last r) 0 (g_routes g)\<rparr>"

definition route_pkt :: "gw_peer \<Rightarrow> bytes \<times> u16 \<Rightarrow> bytes" where
  "route_pkt p v4 =
     [IPV69_CTRL_GW_ROUTE] @ ipv69_addr_put (p_addr p) @ [p_prefix p] @ slice 0 4 (fst v4) @ ipv69_put_be16 (snd v4)"

definition gw_route_announce :: "gw \<Rightarrow> gw option" where
  "gw_route_announce g =
     ofold (\<lambda>p g. if p_addr p = 0 \<or> p_ep p = No_Ep then Some g
                  else case ep_v4 (p_ep p) of
                         None \<Rightarrow> Some g
                       | Some v4 \<Rightarrow> ofold (\<lambda>l. gw_link_send_pkt l (route_pkt p v4)) (g_links g) g)
       (g_peers g) g"

section \<open>The mesh\<close>

definition gw_neigh_find :: "gw \<Rightarrow> bytes \<Rightarrow> nat option" where
  "gw_neigh_find g mac = find (\<lambda>i. gn_mac (g_neigh g ! i) = mac) [0..<length (g_neigh g)]"

definition gw_r_build :: "u64 \<Rightarrow> gw_peer \<Rightarrow> bytes option" where
  "gw_r_build q t =
     map_option (\<lambda>(ip4, port). [IPV69_CTRL_GW_R] @ ipv69_addr_put q @ slice 0 4 ip4 @ ipv69_put_be16 port) (ep_v4 (p_ep t))"

text \<open>Decimal text, and \<open>a.b.c.d:port\<close>.\<close>

fun dec :: "nat \<Rightarrow> string" where
  "dec n = (if n < 10 then [char_of (48 + n)] else dec (n div 10) @ [char_of (48 + n mod 10)])"

definition ip4_text :: "bytes \<Rightarrow> string" where
  "ip4_text a = dec (unat (bget a 0)) @ ''.'' @ dec (unat (bget a 1)) @ ''.'' @ dec (unat (bget a 2)) @ ''.'' @ dec (unat (bget a 3))"

definition hostport :: "string \<Rightarrow> u16 \<Rightarrow> bytes" where
  "hostport host port = ascii (host @ '':'' @ dec (unat port))"

definition cstr :: "bytes \<Rightarrow> bytes" where
  "cstr b = takeWhile (\<lambda>c. c \<noteq> 0) b"

text \<open>A reply for a pending question: to a link as it is, to a client as text. The text is sent up to
  its first zero byte, and the address is in it raw.\<close>

definition gw_pend_relay :: "bytes \<Rightarrow> gw \<Rightarrow> gw option" where
  "gw_pend_relay p g =
     (let q = ipv69_addr_get (drop 1 p)
      in case find (\<lambda>i. gp_addr (g_pend g ! i) = q) [0..<length (g_pend g)] of
           None \<Rightarrow> Some g
         | Some i \<Rightarrow>
             let e = g_pend g ! i; done' = (\<lambda>g. g\<lparr>g_pend := butlast ((g_pend g)[i := last (g_pend g)])\<rparr>)
             in if gp_via_link e then
                  (case gw_link_find g (gp_asker e) of
                     None \<Rightarrow> Some (done' g)
                   | Some li \<Rightarrow> map_option done' (gw_link_send_pkt (g_links g ! li) (slice 0 12 p) g))
                else
                  Some (done' (send_udp
                    (cstr (ascii ''E69'' @ ipv69_addr_put q @ hostport (ip4_text (slice 6 4 p)) (ipv69_get_be16 (drop 10 p))))
                    (gp_asker e) g)))"

text \<open>Mesh control on the segment: whether it was consumed.\<close>

definition gw_mesh_handle :: "bytes \<Rightarrow> gw \<Rightarrow> (bool \<times> gw) option" where
  "gw_mesh_handle f g =
     (let p = drop (ETH_LEN + IPV69_HEADER_LEN) f; mac = slice 6 6 f
      in if next_header (hdr_at (drop ETH_LEN f)) \<noteq> IPV69_NEXT_CONTROL \<or> length p < 1 then Some (False, g)
         else if bget p 0 = IPV69_CTRL_GW_ANN then
           Some (True,
             case gw_neigh_find g mac of
               None \<Rightarrow> if length (g_neigh g) < GW_MAX_PEERS
                       then g\<lparr>g_neigh := g_neigh g @ [\<lparr>gn_mac = mac, gn_last = gw_now g\<rparr>]\<rparr> else g
             | Some i \<Rightarrow> g\<lparr>g_neigh := (g_neigh g)[i := (g_neigh g ! i)\<lparr>gn_last := gw_now g\<rparr>]\<rparr>)
         else if bget p 0 = IPV69_CTRL_GW_Q \<and> 6 \<le> length p then
           (let q = ipv69_addr_get (drop 1 p)
            in Some (True,
                 case peer_find_addr g q of
                   None \<Rightarrow> g
                 | Some t \<Rightarrow> (case gw_r_build q (g_peers g ! t) of None \<Rightarrow> g | Some r \<Rightarrow> gw_mesh_send r g)))
         else if bget p 0 = IPV69_CTRL_GW_R \<and> 12 \<le> length p then map_option (Pair True) (gw_pend_relay p g)
         else Some (False, g))"

text \<open>Asking the mesh: whether the question is or was forwarded. Past 16 pending questions it goes out
  without being remembered.\<close>

definition gw_mesh_query :: "u64 \<Rightarrow> endpoint \<Rightarrow> gw \<Rightarrow> (bool \<times> gw) option" where
  "gw_mesh_query q asker g =
     (if g_neigh g = [] \<and> g_links g = [] then Some (False, g)
      else if \<exists>e\<in>set (g_pend g). gp_addr e = q then Some (True, g)
      else let g = (if length (g_pend g) < 16
                    then g\<lparr>g_pend := g_pend g @ [\<lparr>gp_addr = q, gp_asker = asker, gp_via_link = False, gp_ts = gw_now g\<rparr>]\<rparr> else g);
               qpkt = IPV69_CTRL_GW_Q # ipv69_addr_put q;
               g = (if g_neigh g \<noteq> [] then gw_mesh_send qpkt g else g)
           in map_option (Pair True) (ofold (\<lambda>l. gw_link_send_pkt l qpkt) (g_links g) g))"

section \<open>Frames from a link\<close>

definition gw_fed_query :: "nat \<Rightarrow> bytes \<Rightarrow> gw \<Rightarrow> gw option" where
  "gw_fed_query li p g =
     (let q = ipv69_addr_get (drop 1 p); t = peer_find_addr g q
      in case Option.bind t (\<lambda>t. gw_r_build q (g_peers g ! t)) of
           Some r \<Rightarrow> gw_link_send_pkt (g_links g ! li) r g
         | None \<Rightarrow>
             if t = None \<and> 1 < length (g_links g) \<and> \<not> (\<exists>e\<in>set (g_pend g). gp_addr e = q) \<and> length (g_pend g) < 16 then
               ofold (\<lambda>j g. if j = li then Some g else gw_link_send_pkt (g_links g ! j) p g) [0..<length (g_links g)]
                 (g\<lparr>g_pend := g_pend g @ [\<lparr>gp_addr = q, gp_asker = l_ep (g_links g ! li), gp_via_link = True, gp_ts = gw_now g\<rparr>]\<rparr>)
             else Some g)"

definition gw_fed_handle :: "nacl \<Rightarrow> nat \<Rightarrow> bytes \<Rightarrow> gw \<Rightarrow> (bool \<times> gw) option" where
  "gw_fed_handle N li f g =
     (let p = drop (ETH_LEN + IPV69_HEADER_LEN) f; l = g_links g ! li
      in if next_header (hdr_at (drop ETH_LEN f)) \<noteq> IPV69_NEXT_CONTROL \<or> length p < 1 then Some (False, g)
         else if bget p 0 = IPV69_CTRL_GW_ANN then
           Some (True,
             if length p < 3 + 64 then g
             else case rate_gw (slice 0 8 (l_pub l)) 10 20 1 g of
                    (False, g) \<Rightarrow> g
                  | (True, g) \<Rightarrow>
                      if ed25519_verify N (slice 0 3 p) (drop 3 p) (l_pub l) = 0
                      then g\<lparr>g_links := (g_links g)[li := l\<lparr>l_last := gw_now g\<rparr>]\<rparr> else g)
         else if bget p 0 = IPV69_CTRL_GW_Q \<and> 6 \<le> length p then map_option (Pair True) (gw_fed_query li p g)
         else if bget p 0 = IPV69_CTRL_GW_R \<and> 12 \<le> length p then map_option (Pair True) (gw_pend_relay p g)
         else if bget p 0 = IPV69_CTRL_GW_ROUTE \<and> 13 \<le> length p then Some (True, route_learn p li g)
         else Some (False, g))"

text \<open>The class filter, and the copies of a frame to every link but one.\<close>

definition class_ok :: "gw \<Rightarrow> u64 \<Rightarrow> u64 \<Rightarrow> bool" where
  "class_ok g src dst \<longleftrightarrow>
     g_allow_private g \<or> ipv69_addr_class src = CHR ''C'' \<and> ipv69_addr_class dst \<in> {CHR ''C'', CHR ''E''}"

definition flood_links :: "nat option \<Rightarrow> bytes \<Rightarrow> gw \<Rightarrow> gw" where
  "flood_links skip f g =
     fold (\<lambda>j g. if skip = Some j then g else gw_link_send_raw (g_links g ! j) f g) [0..<length (g_links g)] g"

definition flood_peers :: "(nat \<Rightarrow> gw_peer \<Rightarrow> bool) \<Rightarrow> bytes \<Rightarrow> gw \<Rightarrow> gw" where
  "flood_peers P f g =
     fold (\<lambda>i g. if p_addr (g_peers g ! i) \<noteq> 0 \<and> P i (g_peers g ! i) then send_udp f (p_ep (g_peers g ! i)) g else g)
       [0..<GW_MAX_PEERS] g"

definition gw_fed_data :: "nat \<Rightarrow> bytes \<Rightarrow> gw \<Rightarrow> gw" where
  "gw_fed_data li f g =
     (let h = hdr_at (drop ETH_LEN f); src = ipv69_addr_get (source h); dst = ipv69_addr_get (dest h)
      in if \<not> class_ok g src dst then g
         else if slice 0 6 f = bcast_mac then
           (case rate_gw (slice 6 6 f @ [0, 0]) 20 40 1 g of
              (False, g) \<Rightarrow> g
            | (True, g) \<Rightarrow> flood_peers (\<lambda>i p. p_ep p \<noteq> No_Ep) f g)
         else
           (let t = (case peer_find_mac g (slice 0 6 f) of Some i \<Rightarrow> Some i | None \<Rightarrow> peer_find_addr g dst)
            in case t of
                 Some i \<Rightarrow>
                   if p_ep (g_peers g ! i) \<noteq> No_Ep then send_udp f (p_ep (g_peers g ! i)) g
                   else if g_l2 g then emit (Out_L2 f) g
                   else (case route_find g dst of
                           Some r \<Rightarrow> if r_li (g_routes g ! r) \<noteq> li then gw_link_send_raw (g_links g ! r_li (g_routes g ! r)) f g
                                    else flood_links (Some li) f g
                         | None \<Rightarrow> flood_links (Some li) f g)
               | None \<Rightarrow>
                   (case route_find g dst of
                      Some r \<Rightarrow> if r_li (g_routes g ! r) \<noteq> li then gw_link_send_raw (g_links g ! r_li (g_routes g ! r)) f g
                               else flood_links (Some li) f g
                    | None \<Rightarrow> flood_links (Some li) f g)))"

end
