(* ===== verification/Gw_Main.thy ===== *)
theory Gw_Main
  imports Gw
begin

text \<open>
  The gateway's front end (\<^verbatim>\<open>c/src/IPv69/ipv69gw.c\<close>, \<open>cmd_gw\<close>): the command line, the timed
  announcements and expiries, questions, and the frames of its two sides. The receive buffer
  keeps what it held: a datagram overwrites its beginning. The conversions \<open>inet_pton\<close> and
  \<open>inet_ntop\<close> for IPv6 are a parameter.
\<close>

record inet =
  pton4 :: "string \<Rightarrow> bytes option"
  pton6 :: "string \<Rightarrow> bytes option"
  ntop6 :: "bytes \<Rightarrow> string"

section \<open>The command line\<close>

record gw_args =
  ga_port :: int
  ga_iface :: "string option"
  ga_private :: bool
  ga_auth :: "auth_peer list"
  ga_links :: "gw_link list"

definition gw_args0 :: gw_args where
  "gw_args0 = \<lparr>ga_port = 6969, ga_iface = None, ga_private = False, ga_auth = [], ga_links = []\<rparr>"

text \<open>\<open>PUB@endpoint\<close>: the endpoint (at most 255 characters of it) is cut at its last colon; brackets
  around an IPv6 address are dropped.\<close>

definition gw_link_arg :: "inet \<Rightarrow> string \<Rightarrow> gw_link option" where
  "gw_link_arg I arg =
     (let pub = takeWhile (\<lambda>c. c \<noteq> CHR ''@'') arg; rest = dropWhile (\<lambda>c. c \<noteq> CHR ''@'') arg
      in if rest = [] \<or> pub = [] then None
         else case hex_decode pub 32 of
           None \<Rightarrow> None
         | Some key \<Rightarrow>
             if length key \<noteq> 32 then None
             else let hp = take 255 (tl rest)
               in if CHR '':'' \<notin> set hp then None
                  else let port = word_of_int (atoi (rev (takeWhile (\<lambda>c. c \<noteq> CHR '':'') (rev hp)))) :: u16;
                           host = rev (tl (dropWhile (\<lambda>c. c \<noteq> CHR '':'') (rev hp)));
                           host = (if take 1 host = ''['' then takeWhile (\<lambda>c. c \<noteq> CHR '']'') (tl host) else host)
                       in case pton4 I host of
                            Some a \<Rightarrow> Some \<lparr>l_ep = Ep4 a port, l_pub = key, l_last = 0\<rparr>
                          | None \<Rightarrow>
                              (case pton6 I host of
                                 Some a \<Rightarrow> Some \<lparr>l_ep = Ep6 a port, l_pub = key, l_last = 0\<rparr>
                               | None \<Rightarrow> None))"

text \<open>\<open>None\<close> is an exit with an error or the usage text.\<close>

fun gw_parse_args :: "nacl \<Rightarrow> inet \<Rightarrow> string list \<Rightarrow> gw_args \<Rightarrow> gw_args option" where
  "gw_parse_args N I [] st = Some st"
| "gw_parse_args N I [a] st = (if a = ''--private'' then Some (st\<lparr>ga_private := True\<rparr>) else None)"
| "gw_parse_args N I (a # b # r) st =
     (if a = ''--port'' then gw_parse_args N I r (st\<lparr>ga_port := atoi b\<rparr>)
      else if a = ''--iface'' then gw_parse_args N I r (st\<lparr>ga_iface := Some b\<rparr>)
      else if a = ''--private'' then gw_parse_args N I (b # r) (st\<lparr>ga_private := True\<rparr>)
      else if a = ''--peer'' then
        (if GW_MAX_PEERS \<le> length (ga_auth st) then None
         else case ipv69_addr_parse_peer N b of
                None \<Rightarrow> None
              | Some (key, base, prefix) \<Rightarrow>
                  gw_parse_args N I r (st\<lparr>ga_auth := ga_auth st @ [\<lparr>au_key = key, au_base = base, au_prefix = prefix\<rparr>]\<rparr>))
      else if a = ''--peer-gw'' then
        (if MAX_LINKS \<le> length (ga_links st) then None
         else case gw_link_arg I b of
                None \<Rightarrow> None
              | Some l \<Rightarrow> gw_parse_args N I r (st\<lparr>ga_links := ga_links st @ [l]\<rparr>))
      else None)"

definition gw_start :: "gw_args \<Rightarrow> bytes \<Rightarrow> world \<Rightarrow> gw" where
  "gw_start a l2mac w =
     \<lparr>g_auth = ga_auth a, g_peers = replicate GW_MAX_PEERS gw_peer0, g_routes_dirty = False, g_neigh = [], g_pend = [],
      g_links = ga_links a, g_routes = [], g_l2 = (ga_iface a \<noteq> None),
      g_l2mac = (if ga_iface a \<noteq> None then l2mac else zeros 6), g_allow_private = ga_private a,
      g_buf = zeros 1700, g_out = [], g_w = w\<rparr>"

section \<open>Questions\<close>

text \<open>The answer is built as a C string: the raw address ends it at its first zero byte.\<close>

definition answer :: "bytes \<Rightarrow> bytes \<Rightarrow> bytes" where
  "answer addr5 text = cstr (ascii ''E69'' @ addr5) @ text @ [0]"

definition ep_text :: "inet \<Rightarrow> endpoint \<Rightarrow> bytes" where
  "ep_text I ep =
     (case ep of
        Ep4 a p \<Rightarrow> hostport (ip4_text a) p
      | Ep6 a p \<Rightarrow> hostport (ntop6 I a) p
      | No_Ep \<Rightarrow> hostport [] 0)"

text \<open>Telling the target who asked, so that it probes back.\<close>

definition gw_call :: "gw_peer \<Rightarrow> u64 \<Rightarrow> endpoint \<Rightarrow> gw \<Rightarrow> gw" where
  "gw_call asker qaddr target g =
     (case ep_v4 (p_ep asker) of
        None \<Rightarrow> g
      | Some (a4, port) \<Rightarrow>
          send_udp (build_frame bcast_mac (g_l2mac g) 0 qaddr IPV69_NEXT_CONTROL 64 0 0
            ([IPV69_CTRL_GW_CALL] @ ipv69_addr_put (p_addr asker) @ slice 0 4 a4 @ ipv69_put_be16 port)) target g)"

text \<open>The rate limiter's key is bytes 20 to 25 of the receive buffer, whatever they are.\<close>

definition gw_query :: "inet \<Rightarrow> endpoint \<Rightarrow> bytes \<Rightarrow> gw \<Rightarrow> gw option" where
  "gw_query I ep d g =
     (case rate_gw (slice 20 6 (g_buf g) @ [0, 0]) 20 40 1 g of
        (False, g) \<Rightarrow> Some g
      | (True, g) \<Rightarrow>
          let qaddr = ipv69_addr_get (drop 3 d);
              asker = peer_find_endpoint g ep;
              q = (case peer_find_addr g qaddr of
                     Some i \<Rightarrow> if p_ep (g_peers g ! i) = No_Ep then None else Some i
                   | None \<Rightarrow> None);
              r = (if q = None then route_find g qaddr else None);
              public = (g_allow_private g \<or> ipv69_addr_class qaddr = CHR ''C'' \<and>
                        (case asker of Some a \<Rightarrow> ipv69_addr_class (p_addr (g_peers g ! a)) = CHR ''C'' | None \<Rightarrow> False))
          in case (asker, q, r) of
               (Some a, Some t, _) \<Rightarrow>
                 if public then
                   Some (send_udp (answer (slice 3 5 d) (ep_text I (p_ep (g_peers g ! t)))) ep
                          (gw_call (g_peers g ! a) qaddr (p_ep (g_peers g ! t)) g))
                 else Some (send_udp (answer (slice 3 5 d) (ascii ''-'')) ep g)
             | (Some a, None, Some t) \<Rightarrow>
                 if public then Some (send_udp (answer (slice 3 5 d) (ep_text I (r_ep (g_routes g ! t)))) ep g)
                 else Some (send_udp (answer (slice 3 5 d) (ascii ''-'')) ep g)
             | (Some a, None, None) \<Rightarrow>
                 if g_neigh g \<noteq> [] \<or> g_links g \<noteq> [] then map_option snd (gw_mesh_query qaddr ep g)
                 else Some (send_udp (answer (slice 3 5 d) (ascii ''-'')) ep g)
             | _ \<Rightarrow> Some (send_udp (answer (slice 3 5 d) (ascii ''-'')) ep g))"

section \<open>Frames from the tunnels\<close>

definition gw_learn :: "nacl \<Rightarrow> bytes \<Rightarrow> endpoint \<Rightarrow> gw \<Rightarrow> gw" where
  "gw_learn N f ep g =
     (let nh = next_header (hdr_at (drop ETH_LEN f))
      in if nh = IPV69_NEXT_STREAM then snd (gw_learn_init N f ep g)
         else if nh = IPV69_NEXT_CONTROL then snd (gw_learn_announce N f ep g)
         else g)"

text \<open>The destination of a frame that passed the checks; the flag says that nothing took it.\<close>

definition gw_route_udp :: "endpoint \<Rightarrow> bytes \<Rightarrow> gw \<Rightarrow> bool \<times> gw" where
  "gw_route_udp ep f g =
     (let dst = ipv69_addr_get (dest (hdr_at (drop ETH_LEN f)))
      in if slice 0 6 f = bcast_mac then
           (case rate_gw (slice 6 6 f @ [0, 0]) 20 40 1 g of
              (False, g) \<Rightarrow> (False, g)
            | (True, g) \<Rightarrow>
                let from = peer_find_endpoint g ep;
                    g = flood_peers (\<lambda>i p. Some i \<noteq> from) f g;
                    g = (if g_l2 g then emit (Out_L2 f) g else g)
                in (False, flood_links None f g))
         else case (case peer_find_mac g (slice 0 6 f) of Some i \<Rightarrow> Some i | None \<Rightarrow> peer_find_addr g dst) of
                Some i \<Rightarrow>
                  (False, if p_ep (g_peers g ! i) \<noteq> No_Ep then send_udp f (p_ep (g_peers g ! i)) g
                          else if g_l2 g then emit (Out_L2 f) g else g)
              | None \<Rightarrow>
                  if g_l2 g then (False, emit (Out_L2 f) g)
                  else case route_find g dst of
                         Some r \<Rightarrow> (False, gw_link_send_raw (g_links g ! r_li (g_routes g ! r)) f g)
                       | None \<Rightarrow> if g_links g \<noteq> [] then (False, flood_links None f g) else (True, g))"

definition gw_data :: "nacl \<Rightarrow> endpoint \<Rightarrow> bytes \<Rightarrow> gw \<Rightarrow> (bool \<times> gw) option" where
  "gw_data N ep f g =
     (if length f < ETH_LEN + IPV69_HEADER_LEN + 1 \<or> ipv69_get_be16 (drop 12 f) \<noteq> 0x6969 then Some (False, g)
      else case gw_link_find g ep of
             Some li \<Rightarrow>
               (case gw_fed_handle N li f g of
                  None \<Rightarrow> None
                | Some (used, g) \<Rightarrow> Some (False, if used then g else gw_fed_data li f g))
           | None \<Rightarrow>
               let h = hdr_at (drop ETH_LEN f); g = gw_learn N f ep g
               in if \<not> gw_src_ok g h then Some (False, g)
                  else if \<not> class_ok g (ipv69_addr_get (source h)) (ipv69_addr_get (dest h)) then Some (False, g)
                  else Some (gw_route_udp ep f g))"

definition gw_udp :: "nacl \<Rightarrow> inet \<Rightarrow> endpoint \<Rightarrow> bytes \<Rightarrow> gw \<Rightarrow> (bool \<times> gw) option" where
  "gw_udp N I ep d g =
     (let d = take 1700 d; g = g\<lparr>g_buf := blit (g_buf g) 0 d\<rparr>
      in if d = [] then Some (False, g)
         else if 8 \<le> length d \<and> slice 0 3 d = ascii ''Q69'' then map_option (Pair False) (gw_query I ep d g)
         else gw_data N ep d g)"

section \<open>Frames from the segment\<close>

definition gw_l2_frame :: "nacl \<Rightarrow> bytes \<Rightarrow> gw \<Rightarrow> gw option" where
  "gw_l2_frame N f g =
     (let f = take 1700 f; g = g\<lparr>g_buf := blit (g_buf g) 0 f\<rparr>
      in if length f < ETH_LEN + IPV69_HEADER_LEN + 1 \<or> ipv69_get_be16 (drop 12 f) \<noteq> 0x6969 then Some g
         else case gw_mesh_handle f g of
                None \<Rightarrow> None
              | Some (True, g) \<Rightarrow> Some g
              | Some (False, g) \<Rightarrow>
                  let h = hdr_at (drop ETH_LEN f)
                  in if \<not> class_ok g (ipv69_addr_get (source h)) (ipv69_addr_get (dest h)) then Some g
                     else let g = gw_learn N f No_Ep g
                       in if \<not> gw_src_ok g h then Some g
                          else case (if slice 0 6 f = bcast_mac then None else peer_find_mac g (slice 0 6 f)) of
                                 None \<Rightarrow>
                                   (case rate_gw (slice 6 6 f @ [0, 0]) 20 40 1 g of
                                      (False, g) \<Rightarrow> Some g
                                    | (True, g) \<Rightarrow> Some (flood_links None f (flood_peers (\<lambda>i p. True) f g)))
                               | Some i \<Rightarrow> Some (send_udp f (p_ep (g_peers g ! i)) g))"

section \<open>The loop\<close>

text \<open>The announcements and expiries at the top of the loop: every 2 seconds in the first 6, then every
  30; pending questions live 2 seconds. \<open>sk\<close> is there when there are links.\<close>

record gw_timer =
  gt_boot :: int
  gt_last_ann :: int

definition gw_announce :: "nacl \<Rightarrow> u16 \<Rightarrow> bytes option \<Rightarrow> gw \<Rightarrow> gw option" where
  "gw_announce N port sk g =
     (let g = (if g_l2 g then gw_mesh_send (IPV69_CTRL_GW_ANN # ipv69_put_be16 port) g else g)
      in if g_links g = [] then Some g
         else case (case sk of Some k \<Rightarrow> gw_link_announce N port k g | None \<Rightarrow> Some g) of
                None \<Rightarrow> None
              | Some g \<Rightarrow> gw_route_announce g)"

definition gw_tick :: "nacl \<Rightarrow> u16 \<Rightarrow> bytes option \<Rightarrow> gw_timer \<Rightarrow> gw \<Rightarrow> (gw_timer \<times> gw) option" where
  "gw_tick N port sk tm g =
     (let now = gw_now g;
          due = ((if now - gt_boot tm < 6 then 2 else 30) \<le> now - gt_last_ann tm)
      in case (if due then gw_announce N port sk g else Some g) of
           None \<Rightarrow> None
         | Some g \<Rightarrow>
             let tm = (if due then tm\<lparr>gt_last_ann := now\<rparr> else tm);
                 g = route_expire now (g\<lparr>g_pend := swap_expire (\<lambda>e. 2 < now - gp_ts e) 0 (g_pend g)\<rparr>)
             in if g_routes_dirty g \<and> g_links g \<noteq> []
                then map_option (\<lambda>g. (tm, g\<lparr>g_routes_dirty := False\<rparr>)) (gw_route_announce g)
                else Some (tm, g))"

text \<open>One turn at a given time: a datagram, then (unless the datagram ended the turn) a frame of the
  segment.\<close>

definition gw_turn ::
    "nacl \<Rightarrow> inet \<Rightarrow> u16 \<Rightarrow> bytes option \<Rightarrow> int \<Rightarrow> u32 \<Rightarrow> (endpoint \<times> bytes) option \<Rightarrow> bytes option \<Rightarrow>
     gw_timer \<times> gw \<Rightarrow> (gw_timer \<times> gw) option" where
  "gw_turn N I port sk now ms udp l2 st =
     (case gw_tick N port sk (fst st) ((snd st)\<lparr>g_w := (g_w (snd st))\<lparr>w_time := now, w_ms := ms\<rparr>\<rparr>) of
        None \<Rightarrow> None
      | Some (tm, g) \<Rightarrow>
          (case (case udp of Some (ep, d) \<Rightarrow> gw_udp N I ep d g | None \<Rightarrow> Some (True, g)) of
             None \<Rightarrow> None
           | Some (on, g) \<Rightarrow>
               (case l2 of
                  Some f \<Rightarrow> if on \<and> g_l2 g then map_option (Pair tm) (gw_l2_frame N f g) else Some (tm, g)
                | None \<Rightarrow> Some (tm, g))))"

end
