(* ===== verification/Gw_Props.thy ===== *)
theory Gw_Props
  imports Gw_Main "HOL-Library.Multiset"
begin

text \<open>
  What the gateway keeps and does: lookups are longest-prefix matches, every peer of every run
  is vouched for by a signature and the allowlist, datagrams go to the owner of their
  destination and nowhere else; and where the trust ends.
\<close>

section \<open>Longest-prefix lookup\<close>

definition longest :: "(nat \<Rightarrow> bool) \<Rightarrow> (nat \<Rightarrow> nat) \<Rightarrow> nat \<Rightarrow> nat \<Rightarrow> bool" where
  "longest ok pref n i \<longleftrightarrow> i < n \<and> ok i \<and> (\<forall>j<n. ok j \<longrightarrow> pref j \<le> pref i) \<and> (\<forall>j<i. ok j \<longrightarrow> pref j < pref i)"

lemma longest_unique: "longest ok pref n i \<Longrightarrow> longest ok pref n j \<Longrightarrow> i = j"
  by (auto simp: longest_def) (meson leD nat_neq_iff)

lemma lpm_scan_found:
  "longest ok pref m b \<Longrightarrow> m \<le> n \<Longrightarrow> \<exists>i. lpm_scan ok pref [m..<n] (Some b) (int (pref b)) = Some i \<and> longest ok pref n i"
proof (induction "n - m" arbitrary: m b)
  case 0
  then show ?case by auto
next
  case (Suc k)
  then have m: "[m..<n] = m # [Suc m..<n]" "k = n - Suc m" "Suc m \<le> n" by (auto simp: upt_conv_Cons)
  show ?case
  proof (cases "pref b < pref m \<and> ok m")
    case True
    then have "longest ok pref (Suc m) m" using Suc.prems(1) by (auto simp: longest_def less_Suc_eq intro: less_imp_le le_less_trans)
    from Suc.hyps(1) [OF m(2) this m(3)] show ?thesis using True by (simp add: m(1))
  next
    case False
    then have "longest ok pref (Suc m) b" using Suc.prems(1) by (auto simp: longest_def less_Suc_eq)
    from Suc.hyps(1) [OF m(2) this m(3)] show ?thesis using False by (auto simp: m(1))
  qed
qed

lemma lpm_scan_start:
  "\<forall>j<m. \<not> ok j \<Longrightarrow> m \<le> n \<Longrightarrow>
   (case lpm_scan ok pref [m..<n] None (-1) of None \<Rightarrow> \<forall>j<n. \<not> ok j | Some i \<Rightarrow> longest ok pref n i)"
proof (induction "n - m" arbitrary: m)
  case 0
  then show ?case by auto
next
  case (Suc k)
  then have m: "[m..<n] = m # [Suc m..<n]" "k = n - Suc m" "Suc m \<le> n" by (auto simp: upt_conv_Cons)
  show ?case
  proof (cases "ok m")
    case True
    then have "longest ok pref (Suc m) m" using Suc.prems(1) by (auto simp: longest_def less_Suc_eq)
    from lpm_scan_found [OF this m(3)] show ?thesis using True by (auto simp: m(1))
  next
    case False
    then have "\<forall>j<Suc m. \<not> ok j" using Suc.prems(1) by (auto simp: less_Suc_eq)
    from Suc.hyps(1) [OF m(2) this m(3)] show ?thesis using False by (simp add: m(1))
  qed
qed

text \<open>The contract of the two tables: entries with a prefix, of which some cover an address.\<close>

locale prefix_table =
  fixes look :: "'g \<Rightarrow> u64 \<Rightarrow> nat option" and covers :: "'g \<Rightarrow> u64 \<Rightarrow> nat \<Rightarrow> bool"
    and plen :: "'g \<Rightarrow> nat \<Rightarrow> nat" and entries :: "'g \<Rightarrow> nat"
  assumes look_scan: "look g a = lpm_scan (covers g a) (plen g) [0..<entries g] None (-1)"
begin

lemma look_None: "look g a = None \<longleftrightarrow> (\<forall>j<entries g. \<not> covers g a j)"
  using lpm_scan_start [of 0 "covers g a" "entries g" "plen g"]
  by (auto simp: look_scan longest_def split: option.splits)

lemma look_Some: "look g a = Some i \<longleftrightarrow> longest (covers g a) (plen g) (entries g) i"
  using lpm_scan_start [of 0 "covers g a" "entries g" "plen g"] longest_unique
  by (auto simp: look_scan longest_def split: option.splits)

end

definition peer_covers :: "gw \<Rightarrow> u64 \<Rightarrow> nat \<Rightarrow> bool" where
  "peer_covers g a i \<longleftrightarrow> p_addr (g_peers g ! i) \<noteq> 0 \<and> ipv69_addr_in_range a (p_addr (g_peers g ! i)) (unat (p_prefix (g_peers g ! i)))"

definition route_covers :: "gw \<Rightarrow> u64 \<Rightarrow> nat \<Rightarrow> bool" where
  "route_covers g a i \<longleftrightarrow> ipv69_addr_in_range a (r_addr (g_routes g ! i)) (unat (r_prefix (g_routes g ! i)))"

interpretation peer_lpm: prefix_table peer_find_addr peer_covers "\<lambda>g i. unat (p_prefix (g_peers g ! i))" "\<lambda>g. 256"
  by unfold_locales (simp add: peer_find_addr_def peer_covers_def [abs_def])

interpretation route_lpm: prefix_table route_find route_covers "\<lambda>g i. unat (r_prefix (g_routes g ! i))" "\<lambda>g. length (g_routes g)"
  by unfold_locales (simp add: route_find_def route_covers_def [abs_def])

section \<open>Expiry is filtering\<close>

lemma swap_expire_mset:
  "mset (swap_expire old i xs) = mset (take i xs) + filter_mset (\<lambda>x. \<not> old x) (mset (drop i xs))"
proof (induction old i xs rule: swap_expire.induct)
  case (1 old i xs)
  show ?case
  proof (cases "length xs \<le> i")
    case True
    then show ?thesis by (subst swap_expire.simps) simp
  next
    case False
    then have split: "xs = take i xs @ xs ! i # drop (Suc i) xs" by (simp add: id_take_nth_drop)
    show ?thesis
    proof (cases "old (xs ! i)")
      case old: True
      let ?ys = "butlast (xs[i := last xs])"
      have rec: "swap_expire old i xs = swap_expire old i ?ys" using False old by (subst swap_expire.simps) simp
      have "mset (take i ?ys) = mset (take i xs)" "mset (drop i ?ys) = mset (drop (Suc i) xs)"
      proof -
        show "mset (take i ?ys) = mset (take i xs)" using False by (simp add: take_butlast)
        show "mset (drop i ?ys) = mset (drop (Suc i) xs)"
        proof (cases "drop (Suc i) xs" rule: rev_cases)
          case Nil
          then have "length xs = Suc i" using False by simp
          then show ?thesis by simp
        next
          case (snoc zs z)
          then have xs: "xs = take i xs @ xs ! i # zs @ [z]" using split by simp
          have l: "last xs = z" by (subst xs) simp
          have "xs[i := z] = take i xs @ z # zs @ [z]" by (subst xs) (use False in \<open>simp add: list_update_append\<close>)
          then have "?ys = take i xs @ z # zs" by (simp add: l butlast_append)
          then show ?thesis using False snoc by (simp add: drop_append)
        qed
      qed
      then show ?thesis using 1(1) False old rec by (subst split) (simp add: drop_append)
    next
      case old: False
      have rec: "swap_expire old i xs = swap_expire old (i + 1) xs" using False old by (subst swap_expire.simps) simp
      have "take (i + 1) xs = take i xs @ [xs ! i]" "drop i xs = xs ! i # drop (i + 1) xs"
        using False by (simp_all add: take_Suc_conv_app_nth Cons_nth_drop_Suc)
      then show ?thesis using 1(2) False old rec by simp
    qed
  qed
qed

text \<open>Expiring routes removes exactly the ones not refreshed for 90 seconds and keeps every other as
  it is, although the loop moves the last entry into the place of a removed one.\<close>

theorem route_expire_filters:
  "mset (g_routes (route_expire now g)) = {# r \<in># mset (g_routes g). \<not> 90 < now - r_last r #}"
  by (simp add: route_expire_def swap_expire_mset)

section \<open>Who is in the table\<close>

text \<open>What does not touch peers, allowlist and links.\<close>

definition same_table :: "gw \<Rightarrow> gw \<Rightarrow> bool" where
  "same_table g g' \<longleftrightarrow> g_peers g' = g_peers g \<and> g_auth g' = g_auth g"

lemma same_table_refl [simp]: "same_table g g"
  by (simp add: same_table_def)

lemma same_table_trans: "same_table a b \<Longrightarrow> same_table b c \<Longrightarrow> same_table a c"
  by (simp add: same_table_def)

lemma same_table_upd [simp]:
  "same_table g (emit x g)" "same_table g (send_udp f ep g)" "same_table g (gw_link_send_raw l f g)" "same_table g (gw_mesh_send p g)"
  "same_table g (snd (rate_gw i r b c g))" "same_table g (route_learn p li g)" "same_table g (route_expire t g)"
  "same_table g (gw_call a q e g)"
  by (simp_all add: same_table_def emit_def send_udp_def gw_link_send_raw_def gw_mesh_send_def rate_gw_def route_learn_def
      route_expire_def gw_call_def Let_def split: prod.splits option.splits)

lemma rate_gw_same: "rate_gw i r b c g = (ok, g') \<Longrightarrow> same_table g g'"
  using same_table_upd(5) [of g i r b c] by simp

lemma same_table_fold: "(\<And>x g. same_table g (f x g)) \<Longrightarrow> same_table g (fold f xs g)"
  by (induction xs arbitrary: g) (auto intro: same_table_trans)

lemma same_table_ofold: "ofold f xs g = Some g' \<Longrightarrow> (\<And>x u v. f x u = Some v \<Longrightarrow> same_table u v) \<Longrightarrow> same_table g g'"
  by (rule ofold_inv [where P = "same_table g"]) (auto intro: same_table_trans)

lemma same_table_flood [simp]: "same_table g (flood_links k f g)" "same_table g (flood_peers P f g)"
  unfolding flood_links_def flood_peers_def by (rule same_table_fold; simp)+

lemma same_table_pkt: "gw_link_send_pkt l p g = Some g' \<Longrightarrow> same_table g g'"
  by (auto simp: gw_link_send_pkt_def split: if_splits)

lemma same_table_announce: "gw_link_announce N port sk g = Some g' \<Longrightarrow> same_table g g'" "gw_route_announce g = Some g' \<Longrightarrow> same_table g g'"
  by (auto simp: gw_link_announce_def gw_route_announce_def Let_def elim!: same_table_ofold
      split: if_splits option.splits dest: same_table_pkt same_table_ofold)

lemma same_table_relay: "gw_pend_relay p g = Some g' \<Longrightarrow> same_table g g'"
  by (auto simp: gw_pend_relay_def Let_def same_table_def send_udp_def emit_def split: option.splits if_splits
      dest!: same_table_pkt)

lemma same_table_query: "gw_mesh_query q a g = Some (x, g') \<Longrightarrow> same_table g g'"
  unfolding gw_mesh_query_def Let_def
  by (auto split: if_splits simp: same_table_def gw_mesh_send_def emit_def
      dest!: same_table_ofold [OF _ same_table_pkt])

lemma same_table_mesh: "gw_mesh_handle f g = Some (x, g') \<Longrightarrow> same_table g g'"
  by (auto simp: gw_mesh_handle_def Let_def split: if_splits option.splits dest: same_table_relay)
    (auto simp: same_table_def)

lemma same_table_pend [simp]: "same_table (g\<lparr>g_pend := x\<rparr>) g' \<longleftrightarrow> same_table g g'"
  by (simp add: same_table_def)

lemma same_table_others:
  "ofold (\<lambda>j g. if j = li then Some g else gw_link_send_pkt (g_links g ! j) p g) js g = Some g' \<Longrightarrow> same_table g g'"
  by (erule same_table_ofold) (auto dest: same_table_pkt split: if_splits)

lemma same_table_fed_query: "gw_fed_query li p g = Some g' \<Longrightarrow> same_table g g'"
  unfolding gw_fed_query_def Let_def
  by (auto split: if_splits option.splits dest: same_table_pkt dest!: same_table_others)

lemma same_table_fed: "gw_fed_handle N li f g = Some (x, g') \<Longrightarrow> same_table g g'"
  by (auto simp: gw_fed_handle_def Let_def split: if_splits option.splits prod.splits bool.splits
      dest: same_table_relay same_table_fed_query rate_gw_same)
    (auto simp: same_table_def dest!: rate_gw_same)

lemma same_table_fed_data: "same_table g (gw_fed_data li f g)"
proof -
  obtain ok g1 where r: "rate_gw (slice 6 6 f @ [0, 0]) 20 40 1 g = (ok, g1)" by (cases "rate_gw (slice 6 6 f @ [0, 0]) 20 40 1 g")
  have "same_table g (flood_peers P f g1)" for P by (rule same_table_trans [OF rate_gw_same [OF r]]) simp
  then show ?thesis using rate_gw_same [OF r] by (auto simp: gw_fed_data_def Let_def r split: option.splits bool.splits)
qed

lemma same_table_gw_query:
  assumes "gw_query I ep d g = Some g'"
  shows "same_table g g'"
proof -
  obtain ok g1 where r: "rate_gw (slice 20 6 (g_buf g) @ [0, 0]) 20 40 1 g = (ok, g1)"
    by (cases "rate_gw (slice 20 6 (g_buf g) @ [0, 0]) 20 40 1 g")
  have a: "same_table g g1" by (rule rate_gw_same [OF r])
  have "same_table g1 g'" if ok
    using assms that unfolding gw_query_def Let_def r
    by (auto split: option.splits if_splits dest: same_table_query intro: same_table_trans same_table_upd)
  then show ?thesis using assms a same_table_trans by (cases ok) (auto simp: gw_query_def r)
qed

lemma same_table_route: "gw_route_udp ep f g = (x, g') \<Longrightarrow> same_table g g'"
proof -
  assume d: "gw_route_udp ep f g = (x, g')"
  obtain ok g1 where r: "rate_gw (slice 6 6 f @ [0, 0]) 20 40 1 g = (ok, g1)" by (cases "rate_gw (slice 6 6 f @ [0, 0]) 20 40 1 g")
  have a: "same_table g g1" by (rule rate_gw_same [OF r])
  have "same_table g1 (flood_links k f (flood_peers P f g1))" "same_table g1 (flood_links k f (emit u (flood_peers P f g1)))" for k P u
    by (meson same_table_flood same_table_upd same_table_trans)+
  with a have "same_table g (flood_links k f (flood_peers P f g1))" "same_table g (flood_links k f (emit u (flood_peers P f g1)))" for k P u
    by (meson same_table_trans)+
  then show ?thesis using d a
    by (auto simp: gw_route_udp_def Let_def r split: if_splits option.splits bool.splits)
qed

section \<open>Every peer is vouched for\<close>

definition vouched :: "nacl \<Rightarrow> gw \<Rightarrow> gw_peer \<Rightarrow> bool" where
  "vouched N g p \<longleftrightarrow> auth_allowed g (p_key p) (p_addr p) \<and> p_prefix p = 40 \<and>
     (\<exists>m sig. ed25519_verify N m sig (p_key p) = 0 \<and>
        (length m = 77 \<or> length m = 6 \<and> bget m 0 = IPV69_CTRL_ND_REQUEST \<and> p_addr p = ipv69_addr_get (drop 1 m)))"

definition peers_ok :: "nacl \<Rightarrow> gw \<Rightarrow> bool" where
  "peers_ok N g \<longleftrightarrow> length (g_peers g) = 256 \<and> (\<forall>p\<in>set (g_peers g). p_addr p \<noteq> 0 \<longrightarrow> vouched N g p)"

lemma peers_ok_same: "peers_ok N g \<Longrightarrow> same_table g g' \<Longrightarrow> peers_ok N g'"
  by (simp add: peers_ok_def same_table_def vouched_def auth_allowed_def)

lemma peers_ok_put:
  assumes "peers_ok N g" "p_addr p \<noteq> 0 \<Longrightarrow> vouched N g p"
  shows "peers_ok N (upd_peer i (\<lambda>_. p) g)"
proof -
  have "vouched N (upd_peer i (\<lambda>_. p) g) q = vouched N g q" for q by (simp add: vouched_def auth_allowed_def upd_peer_def)
  then show ?thesis using assms set_update_subset_insert by (fastforce simp: peers_ok_def upd_peer_def)
qed

lemma peer_find_Some: "peer_find P g = Some i \<Longrightarrow> i < 256 \<and> p_addr (g_peers g ! i) \<noteq> 0 \<and> P (g_peers g ! i)"
  by (auto simp: peer_find_def find_Some_iff)

lemma learn_auth_ok:
  assumes ok: "peers_ok N g" and al: "auth_allowed g key addr"
    and sig: "\<exists>m sig. ed25519_verify N m sig key = 0 \<and>
      (length m = 77 \<or> length m = 6 \<and> bget m 0 = IPV69_CTRL_ND_REQUEST \<and> addr = ipv69_addr_get (drop 1 m))"
  shows "peers_ok N (snd (peer_learn_auth addr mac ep key 40 g))"
proof (cases "peer_find_key g key")
  case (Some i)
  then have "p_key (g_peers g ! i) = key" by (auto simp: peer_find_key_def dest: peer_find_Some)
  then have "vouched N g ((g_peers g ! i)\<lparr>p_addr := addr, p_prefix := 40, p_ep := ep, p_last := gw_now g\<rparr>)"
    using al sig by (simp add: vouched_def)
  from peers_ok_put [OF ok this] show ?thesis by (simp add: peer_learn_auth_def Some upd_peer_def)
next
  case None
  obtain r g1 where r: "rate_gw (mac @ [0, 0]) 5 10 1 g = (r, g1)" by (cases "rate_gw (mac @ [0, 0]) 5 10 1 g")
  have s: "same_table g g1" by (rule rate_gw_same [OF r])
  have ok1: "peers_ok N g1" by (rule peers_ok_same [OF ok s])
  let ?p = "\<lparr>p_addr = addr, p_prefix = 40, p_mac = mac, p_key = key, p_ep = ep, p_last = gw_now g1\<rparr>"
  have "vouched N g1 ?p" using al sig s by (simp add: vouched_def same_table_def auth_allowed_def)
  then have "peers_ok N (upd_peer k (\<lambda>_. ?p) g1)" for k using peers_ok_put [OF ok1] by blast
  then have "peers_ok N ((upd_peer k (\<lambda>_. ?p) g1)\<lparr>g_routes_dirty := True\<rparr>)" for k
    by (simp add: peers_ok_def vouched_def auth_allowed_def)
  then show ?thesis using ok1 by (auto simp: peer_learn_auth_def None r split: bool.splits option.splits)
qed

lemma learn_ok: "peers_ok N g \<Longrightarrow> peers_ok N (gw_learn N f ep g)"
proof -
  assume ok: "peers_ok N g"
  obtain r g1 where r: "rate_gw (slice 6 6 f @ [0, 0]) 10 20 1 g = (r, g1)" by (cases "rate_gw (slice 6 6 f @ [0, 0]) 10 20 1 g")
  have ok1: "peers_ok N g1" by (rule peers_ok_same [OF ok rate_gw_same [OF r]])
  have "peers_ok N (snd (gw_learn_init N f ep g))"
  proof -
    let ?cd = "drop 16 (drop 46 f)"
    have "peers_ok N (snd (peer_learn_auth a m ep (slice 45 32 ?cd) 40 g1))"
      if "ed25519_verify N (slice 0 77 ?cd) (drop 77 ?cd) (slice 45 32 ?cd) = 0" "auth_allowed g1 (slice 45 32 ?cd) a" for a m
      by (rule learn_auth_ok [OF ok1 that(2)]) (use that(1) length_slice in blast)
    then show ?thesis using ok ok1 by (auto simp: gw_learn_init_def Let_def r split: bool.splits)
  qed
  moreover have "peers_ok N (snd (gw_learn_announce N f ep g))"
  proof -
    let ?ic = "drop 46 f"
    have "peers_ok N (snd (peer_learn_auth (ipv69_addr_get (drop 1 ?ic)) m ep (slice 6 32 ?ic) 40 g1))"
      if v: "ed25519_verify N (slice 0 6 ?ic) (drop 38 ?ic) (slice 6 32 ?ic) = 0" "bget ?ic 0 = 1"
        "auth_allowed g1 (slice 6 32 ?ic) (ipv69_addr_get (drop 1 ?ic))" for m
    proof (rule learn_auth_ok [OF ok1 v(3)])
      have "length (slice 0 6 ?ic) = 6 \<and> bget (slice 0 6 ?ic) 0 = 1 \<and>
          ipv69_addr_get (drop 1 ?ic) = ipv69_addr_get (drop 1 (slice 0 6 ?ic))"
        using v(2) by (simp add: ipv69_addr_get_def)
      with v(1) show "\<exists>m sig. ed25519_verify N m sig (slice 6 32 ?ic) = 0 \<and> (length m = 77 \<or> length m = 6 \<and> bget m 0 = 1 \<and>
          ipv69_addr_get (drop 1 ?ic) = ipv69_addr_get (drop 1 m))" by blast
    qed
    then show ?thesis using ok ok1 by (auto simp: gw_learn_announce_def Let_def r split: bool.splits)
  qed
  ultimately show ?thesis using ok by (simp add: gw_learn_def Let_def)
qed

lemma data_ok: "peers_ok N g \<Longrightarrow> gw_data N ep f g = Some (x, g') \<Longrightarrow> peers_ok N g'"
  using learn_ok [of N g f ep]
  by (auto simp: gw_data_def Let_def split: if_splits option.splits prod.splits
      dest: same_table_fed same_table_route intro: peers_ok_same same_table_fed_data)

lemma buf_ok [simp]: "peers_ok N (g\<lparr>g_buf := b\<rparr>) = peers_ok N g" "peers_ok N (g\<lparr>g_w := w\<rparr>) = peers_ok N g"
  "peers_ok N (g\<lparr>g_pend := p\<rparr>) = peers_ok N g" "peers_ok N (g\<lparr>g_routes_dirty := b'\<rparr>) = peers_ok N g"
  by (simp_all add: peers_ok_def vouched_def auth_allowed_def)

lemma udp_ok: "peers_ok N g \<Longrightarrow> gw_udp N I ep d g = Some (x, g') \<Longrightarrow> peers_ok N g'"
  using data_ok [of N "g\<lparr>g_buf := blit (g_buf g) 0 (take 1700 d)\<rparr>" ep "take 1700 d" x g']
  by (auto simp: gw_udp_def Let_def split: if_splits dest!: same_table_gw_query elim!: peers_ok_same [rotated])

lemma l2_ok:
  assumes ok: "peers_ok N g" and d: "gw_l2_frame N f g = Some g'"
  shows "peers_ok N g'"
proof -
  define v where "v = g\<lparr>g_buf := blit (g_buf g) 0 (take 1700 f)\<rparr>"
  have v: "peers_ok N v" using ok by (simp add: v_def)
  have l: "peers_ok N (gw_learn N (take 1700 f) No_Ep u)" if "peers_ok N u" for u by (rule learn_ok [OF that])
  have m: "peers_ok N u" if "gw_mesh_handle (take 1700 f) v = Some (b, u)" for b u
    by (rule peers_ok_same [OF v same_table_mesh [OF that]])
  have r: "peers_ok N w" if "rate_gw i a b c u = (k, w)" "peers_ok N u" for i a b c u k w
    by (rule peers_ok_same [OF that(2) rate_gw_same [OF that(1)]])
  have fl: "peers_ok N (flood_links None h (flood_peers P h u))" "peers_ok N (send_udp h e u)" if "peers_ok N u" for h P u e
    using that by (meson peers_ok_same same_table_flood same_table_upd)+
  show ?thesis
    using d v m l r fl unfolding gw_l2_frame_def Let_def v_def [symmetric]
    by (auto split: if_splits option.splits bool.splits prod.splits)
qed

lemma announce_ok:
  assumes ok: "peers_ok N g" and a: "gw_announce N port sk g = Some u"
  shows "peers_ok N u"
proof -
  define v where "v = (if g_l2 g then gw_mesh_send (IPV69_CTRL_GW_ANN # ipv69_put_be16 port) g else g)"
  have v: "peers_ok N v" using ok by (simp add: v_def peers_ok_same [OF ok])
  have "u = v \<or> (\<exists>x. (case sk of Some k \<Rightarrow> gw_link_announce N port k v | None \<Rightarrow> Some v) = Some x \<and> gw_route_announce x = Some u)"
    using a unfolding gw_announce_def Let_def v_def [symmetric] by (auto split: if_splits option.splits)
  then show ?thesis
  proof
    assume "\<exists>x. (case sk of Some k \<Rightarrow> gw_link_announce N port k v | None \<Rightarrow> Some v) = Some x \<and> gw_route_announce x = Some u"
    then obtain x where x: "(case sk of Some k \<Rightarrow> gw_link_announce N port k v | None \<Rightarrow> Some v) = Some x" "gw_route_announce x = Some u"
      by blast
    have "same_table v x" using x(1) by (cases sk) (auto dest: same_table_announce(1))
    then have "peers_ok N x" by (rule peers_ok_same [OF v])
    then show ?thesis by (rule peers_ok_same [OF _ same_table_announce(2) [OF x(2)]])
  qed (use v in simp)
qed

lemma tick_ok: "peers_ok N g \<Longrightarrow> gw_tick N port sk tm g = Some (tm', g') \<Longrightarrow> peers_ok N g'"
proof -
  assume ok: "peers_ok N g" and t: "gw_tick N port sk tm g = Some (tm', g')"
  define due where "due \<longleftrightarrow> (if gw_now g - gt_boot tm < 6 then 2 else 30) \<le> gw_now g - gt_last_ann tm"
  obtain u where u: "(if due then gw_announce N port sk g else Some g) = Some u"
    using t unfolding gw_tick_def Let_def due_def [symmetric] by (auto split: option.splits)
  have uo: "peers_ok N u" using u ok announce_ok by (auto split: if_splits)
  define v where "v = route_expire (gw_now g) (u\<lparr>g_pend := swap_expire (\<lambda>e. 2 < gw_now g - gp_ts e) 0 (g_pend u)\<rparr>)"
  have v: "peers_ok N v" unfolding v_def by (rule peers_ok_same [OF _ same_table_upd(7)]) (simp add: uo)
  have "g' = v \<or> (\<exists>x. gw_route_announce v = Some x \<and> g' = x\<lparr>g_routes_dirty := False\<rparr>)"
    using t unfolding gw_tick_def Let_def due_def [symmetric] u option.case v_def [symmetric] by (auto split: if_splits)
  then show ?thesis
    using v peers_ok_same [OF v same_table_announce(2)] by auto
qed

text \<open>A run of the loop, with anything arriving from anywhere at any time.\<close>

inductive gw_run :: "nacl \<Rightarrow> inet \<Rightarrow> u16 \<Rightarrow> bytes option \<Rightarrow> gw_timer \<times> gw \<Rightarrow> gw_timer \<times> gw \<Rightarrow> bool" for N I port sk s0 where
  Start: "gw_run N I port sk s0 s0"
| Turn: "gw_run N I port sk s0 s \<Longrightarrow> gw_turn N I port sk now ms udp l2 s = Some s' \<Longrightarrow> gw_run N I port sk s0 s'"

lemma turn_ok: "peers_ok N (snd s) \<Longrightarrow> gw_turn N I port sk now ms udp l2 s = Some s' \<Longrightarrow> peers_ok N (snd s')"
  unfolding gw_turn_def
  by (auto split: option.splits if_splits prod.splits dest!: tick_ok [rotated] udp_ok [rotated] l2_ok [rotated])

lemma run_ok: "gw_run N I port sk s0 s \<Longrightarrow> peers_ok N (snd s0) \<Longrightarrow> peers_ok N (snd s)"
  by (induction rule: gw_run.induct) (auto intro: turn_ok)

text \<open>C11: In every run of the gateway, whatever datagrams and frames arrive, every address in its peer
  table is vouched for: the entry's key signed an INIT or an announcement of exactly that
  address, and the allowlist (when there is one) lists the key with a range that holds it.\<close>

theorem gateway_peers_vouched:
  assumes "gw_run N I port sk (tm, gw_start a l2mac w) (tm', g)" "p \<in> set (g_peers g)" "p_addr p \<noteq> 0"
  shows "auth_allowed g (p_key p) (p_addr p) \<and>
    (\<exists>m sig. ed25519_verify N m sig (p_key p) = 0 \<and>
       (length m = 77 \<or> length m = 6 \<and> bget m 0 = IPV69_CTRL_ND_REQUEST \<and> p_addr p = ipv69_addr_get (drop 1 m)))"
proof -
  have "peers_ok N (gw_start a l2mac w)" by (simp add: peers_ok_def gw_start_def gw_peer0_def)
  then have "peers_ok N g" using run_ok [OF assms(1)] by simp
  then show ?thesis using assms(2,3) by (auto simp: peers_ok_def vouched_def)
qed

end
