(* ===== verification/Gw_Forward.thy ===== *)
theory Gw_Forward
  imports Gw_Props Icsp_Rx
begin

text \<open>
  The gateway from outside: a host that announced itself is reached at its endpoint, a frame
  that fails the filters leaves no trace, a copied INIT moves a peer, and a question from a
  link overruns a buffer.
\<close>

section \<open>Announcing and being reached\<close>

definition announce_frame :: "nacl \<Rightarrow> icsp_assoc \<Rightarrow> bytes" where
  "announce_frame N a =
     (let hd6 = IPV69_CTRL_ND_REQUEST # ipv69_addr_put (a_src_addr a)
      in build_frame bcast_mac (a_src_mac a) (a_src_addr a) IPV69_BCAST_ADDR IPV69_NEXT_CONTROL 64 0 0
           (hd6 @ slice 32 32 (a_sk a) @ ed25519_sign N hd6 (a_sk a)))"

lemma announce_sends:
  "icsp_announce_send N a w = (0, a', w') \<Longrightarrow> w_out w' = w_out w @ [Udp (a_gw a) (announce_frame N a)]"
  by (auto simp: icsp_announce_send_def announce_frame_def transmit_def Let_def split: prod.splits if_splits)

text \<open>What a gateway knows of a host that was never heard.\<close>

definition unheard :: "gw \<Rightarrow> u64 \<Rightarrow> bytes \<Rightarrow> bytes \<Rightarrow> bool" where
  "unheard g addr mac key \<longleftrightarrow> length (g_peers g) = 256 \<and> (\<exists>i<256. p_addr (g_peers g ! i) = 0) \<and>
     (\<forall>p\<in>set (g_peers g). p_addr p \<noteq> 0 \<longrightarrow> p_addr p \<noteq> addr \<and> p_mac p \<noteq> mac \<and> p_key p \<noteq> key \<and> p_prefix p = 40)"

definition heard :: "gw \<Rightarrow> u64 \<Rightarrow> bool" where
  "heard g addr \<longleftrightarrow> (\<exists>j<256. p_addr (g_peers g ! j) = addr \<and> \<not> PEER_TIMEOUT < gw_now g - p_last (g_peers g ! j))"

section \<open>Frames on the wire\<close>

lemma drop_nested [simp]: "drop 14 (drop 32 x) = drop 46 (x :: bytes)"
  by simp

lemma built_frame_at:
  assumes "length dm = 6" "length sm = 6"
  shows "slice 0 6 (build_frame dm sm s d nh hop sp dp pl) = dm" "slice 6 6 (build_frame dm sm s d nh hop sp dp pl) = sm"
    "ipv69_get_be16 (drop 12 (build_frame dm sm s d nh hop sp dp pl)) = 0x6969"
    "slice 0 3 (build_frame dm sm s d nh hop sp dp pl) = slice 0 3 dm"
  using build_frame_eth [OF assms, of s d nh hop sp dp pl]
  by (auto simp: eth_at_def) (use assms in \<open>simp add: build_frame_def Let_def eth_bytes_def\<close>)

text \<open>A data frame of the tunnels, up to the checks.\<close>

lemma gw_udp_frame:
  assumes "length dm = 6" "length sm = 6" "slice 0 3 dm \<noteq> ascii ''Q69''" "pl \<noteq> []" "length pl \<le> 1654"
    and f: "f = build_frame dm sm s d nh hop sp dp pl"
    and nl: "gw_link_find g ep = None"
  shows "gw_udp N I ep f g =
    (let g = gw_learn N f ep (g\<lparr>g_buf := blit (g_buf g) 0 f\<rparr>)
     in if \<not> gw_src_ok g (hdr_at (drop 14 f)) \<or> \<not> class_ok g (take_bit 40 s) (take_bit 40 d) then Some (False, g)
        else Some (gw_route_udp ep f g))"
proof -
  have l: "length f = 46 + length pl" using assms(1,2) f by (simp add: len_simps)
  have tk: "take 1700 f = f" using l assms(5) by simp
  have ne: "f \<noteq> []" "1 \<le> length pl" using l assms(4) by (auto simp: Suc_le_eq)
  have h: "ipv69_addr_get (source (hdr_at (drop 14 f))) = take_bit 40 s" "ipv69_addr_get (dest (hdr_at (drop 14 f))) = take_bit 40 d"
    using assms(1,2) f by (simp_all add: wire_simps)
  let ?g = "g\<lparr>g_buf := blit (g_buf g) 0 f\<rparr>"
  have nl': "gw_link_find ?g ep = None" using nl by (simp add: gw_link_find_def)
  note bf = built_frame_at [OF assms(1,2), of s d nh hop sp dp pl, folded f]
  have data: "gw_udp N I ep f g = gw_data N ep f ?g"
    unfolding gw_udp_def tk Let_def using ne(1) assms(3) bf(4) by simp
  have short: "\<not> length f < ETH_LEN + IPV69_HEADER_LEN + 1" using l ne(2) by linarith
  show ?thesis
    unfolding data gw_data_def Let_def nl' h option.case using short bf(3) assms(4) by simp
qed

text \<open>Learning from an announcement of an unheard host.\<close>

lemma announce_learned:
  assumes sign: "sign_ok N" "key_ok N (a_sk a)" and mac: "length (a_src_mac a) = 6"
    and un: "unheard g (take_bit 40 (a_src_addr a)) (a_src_mac a) (slice 32 32 (a_sk a))"
    and al: "auth_allowed g (slice 32 32 (a_sk a)) (take_bit 40 (a_src_addr a))"
    and rate: "rate_allow_g (a_src_mac a @ [0, 0]) 10 20 1 (g_w g) = (True, w1)"
      "rate_allow_g (a_src_mac a @ [0, 0]) 5 10 1 w1 = (True, w2)"
  obtains k where "k < 256" "p_addr (g_peers g ! k) = 0 \<or> PEER_TIMEOUT < gw_now g - p_last (g_peers g ! k)"
    "gw_learn N (announce_frame N a) ep g =
    g\<lparr>g_w := w2, g_peers := (g_peers g)[k := \<lparr>p_addr = take_bit 40 (a_src_addr a), p_prefix = 40, p_mac = a_src_mac a,
        p_key = slice 32 32 (a_sk a), p_ep = ep, p_last = w_time w2\<rparr>], g_routes_dirty := True\<rparr>"
proof -
  define hd6 where "hd6 = IPV69_CTRL_ND_REQUEST # ipv69_addr_put (a_src_addr a)"
  define pub where "pub = slice 32 32 (a_sk a)"
  define ic where "ic = hd6 @ pub @ ed25519_sign N hd6 (a_sk a)"
  let ?f = "announce_frame N a"
  have lp: "length hd6 = 6" "length pub = 32" by (simp_all add: hd6_def pub_def)
  have f: "?f = build_frame bcast_mac (a_src_mac a) (a_src_addr a) IPV69_BCAST_ADDR IPV69_NEXT_CONTROL 64 0 0 ic"
    by (simp add: announce_frame_def Let_def hd6_def pub_def ic_def)
  have ic: "drop (14 + 32) ?f = ic" using mac by (simp add: f wire_simps)
  have lic: "length ic = 102" using lp by (simp add: ic_def)
  have len: "length ?f = 148" using mac lic by (simp add: f len_simps)
  have nh: "next_header (hdr_at (drop 14 ?f)) = 0" using mac by (simp add: f wire_simps)
  have smac: "slice 6 6 ?f = a_src_mac a" using mac built_frame_at(2) [of bcast_mac "a_src_mac a"] by (simp add: f)
  have parts: "bget ic 0 = 1" "slice 6 32 ic = pub" "slice 0 6 ic = hd6" "drop 38 ic = ed25519_sign N hd6 (a_sk a)"
      "ipv69_addr_get (drop 1 ic) = take_bit 40 (a_src_addr a)"
    using lp by (simp_all add: ic_def hd6_def codec_simps slice_eq_take_drop)
  have ver: "ed25519_verify N hd6 (ed25519_sign N hd6 (a_sk a)) pub = 0"
    using verify_signed [OF sign, of hd6 "[]"] by (simp add: pub_def)
  have rg: "rate_gw (a_src_mac a @ [0, 0]) 10 20 1 g = (True, g\<lparr>g_w := w1\<rparr>)"
      "rate_gw (a_src_mac a @ [0, 0]) 5 10 1 (g\<lparr>g_w := w1\<rparr>) = (True, g\<lparr>g_w := w2\<rparr>)"
    using rate by (simp_all add: rate_gw_def)
  have al': "auth_allowed (g\<lparr>g_w := w1\<rparr>) pub (take_bit 40 (a_src_addr a))" using al by (simp add: auth_allowed_def pub_def)
  have key: "peer_find_key (g\<lparr>g_w := w1\<rparr>) pub = None"
    using un by (auto simp: peer_find_key_def peer_find_def find_None_iff unheard_def pub_def)
  have tm: "w_time w2 = gw_now g" using rate by (auto simp: rate_allow_g_def gw_now_def split: prod.splits)
  obtain k where k: "find (\<lambda>i. p_addr (g_peers g ! i) = 0 \<or> PEER_TIMEOUT < w_time w2 - p_last (g_peers g ! i)) [0..<256] = Some k"
    using un by (cases "find (\<lambda>i. p_addr (g_peers g ! i) = 0 \<or> PEER_TIMEOUT < w_time w2 - p_last (g_peers g ! i)) [0..<256]")
      (auto simp: find_None_iff unheard_def)
  then have "k < 256" "p_addr (g_peers g ! k) = 0 \<or> PEER_TIMEOUT < gw_now g - p_last (g_peers g ! k)"
    by (auto simp: find_Some_iff tm)
  moreover have "gw_learn N ?f ep g = snd (gw_learn_announce N ?f ep g)" by (simp add: gw_learn_def nh)
  moreover have "gw_learn_announce N ?f ep g = peer_learn_auth (take_bit 40 (a_src_addr a)) (a_src_mac a) ep pub 40 (g\<lparr>g_w := w1\<rparr>)"
    unfolding gw_learn_announce_def Let_def ic parts smac rg ver using al' by (simp add: len parts ver)
  moreover have "peer_learn_auth (take_bit 40 (a_src_addr a)) (a_src_mac a) ep pub 40 (g\<lparr>g_w := w1\<rparr>) =
    (True, g\<lparr>g_w := w2, g_peers := (g_peers g)[k := \<lparr>p_addr = take_bit 40 (a_src_addr a), p_prefix = 40, p_mac = a_src_mac a,
        p_key = pub, p_ep = ep, p_last = w_time w2\<rparr>], g_routes_dirty := True\<rparr>)"
    using k by (simp add: peer_learn_auth_def key rg upd_peer_def gw_now_def)
  ultimately show ?thesis using that by (simp add: pub_def)
qed

text \<open>Links and policy stay as configured.\<close>

lemma same_links_fold: "(\<And>x g. g_links (f x g) = g_links g) \<Longrightarrow> g_links (fold f xs g) = g_links g"
  by (induction xs arbitrary: g) auto

lemma same_links [simp]:
  "g_links (emit x g) = g_links g" "g_links (send_udp f e g) = g_links g" "g_links (gw_link_send_raw l f g) = g_links g"
  "g_links (flood_links k f g) = g_links g" "g_links (flood_peers P f g) = g_links g" "g_links (snd (rate_gw i r b c g)) = g_links g"
proof -
  show e: "g_links (emit x g) = g_links g" "g_links (send_udp f e g) = g_links g" "g_links (gw_link_send_raw l f g) = g_links g" for x f e l g
    by (simp_all add: emit_def send_udp_def gw_link_send_raw_def)
  show "g_links (flood_links k f g) = g_links g" "g_links (flood_peers P f g) = g_links g"
    unfolding flood_links_def flood_peers_def by (rule same_links_fold; simp add: e)+
  show "g_links (snd (rate_gw i r b c g)) = g_links g" by (simp add: rate_gw_def Let_def split: prod.splits)
qed

lemma route_links: "g_links (snd (gw_route_udp ep f g)) = g_links g"
proof -
  obtain ok g1 where r: "rate_gw (slice 6 6 f @ [0, 0]) 20 40 1 g = (ok, g1)" by (cases "rate_gw (slice 6 6 f @ [0, 0]) 20 40 1 g")
  have "g_links g1 = g_links g" using same_links(6) [of "slice 6 6 f @ [0, 0]" 20 40 1 g] by (simp add: r)
  then show ?thesis by (auto simp: gw_route_udp_def Let_def r split: option.splits bool.splits)
qed

text \<open>A datagram whose source is known goes to the entry its destination finds.\<close>

lemma datagram_forwarded:
  assumes "length dm = 6" "length sm = 6" "slice 0 3 dm \<noteq> ascii ''Q69''" "pl \<noteq> []" "length pl \<le> 1654" "dm \<noteq> bcast_mac"
    and f: "f = build_frame dm sm s d IPV69_NEXT_DGRAM hop sp dp pl"
    and nl: "gw_link_find g ep' = None"
    and src: "peer_find_addr g (take_bit 40 s) \<noteq> None" "class_ok g (take_bit 40 s) (take_bit 40 d)"
    and dst: "(case peer_find_mac g dm of Some i \<Rightarrow> Some i | None \<Rightarrow> peer_find_addr g (take_bit 40 d)) = Some i" "p_ep (g_peers g ! i) \<noteq> No_Ep"
  shows "gw_udp N I ep' f g = Some (False, g\<lparr>g_buf := blit (g_buf g) 0 f, g_out := g_out g @ [Out_Udp (p_ep (g_peers g ! i)) f]\<rparr>)"
proof -
  let ?g = "g\<lparr>g_buf := blit (g_buf g) 0 f\<rparr>"
  have h: "next_header (hdr_at (drop 14 f)) = 1" "ipv69_addr_get (source (hdr_at (drop 14 f))) = take_bit 40 s"
      "ipv69_addr_get (dest (hdr_at (drop 14 f))) = take_bit 40 d"
    using assms(1,2) f by (simp_all add: wire_simps)
  have b: "peer_find_addr ?g = peer_find_addr g" "peer_find_mac ?g = peer_find_mac g" "class_ok ?g = class_ok g"
    by (simp_all add: peer_find_addr_def peer_find_mac_def peer_find_def class_ok_def fun_eq_iff)
  have l: "gw_learn N f ep' ?g = ?g" by (simp add: gw_learn_def h Let_def)
  have so: "gw_src_ok ?g (hdr_at (drop 14 f))" using src(1) by (simp add: gw_src_ok_def Let_def h b)
  have mac: "slice 0 6 f = dm" using built_frame_at(1) [OF assms(1,2)] f by simp
  have r: "gw_route_udp ep' f ?g = (False, send_udp f (p_ep (g_peers g ! i)) ?g)"
    unfolding gw_route_udp_def Let_def mac b h dst(1) option.case using assms(6) dst(2) by simp
  show ?thesis
    unfolding gw_udp_frame [OF assms(1-5) f nl] Let_def l r using so src(2) dst(2)
    by (simp add: b send_udp_def emit_def)
qed

lemma in_range_exact: "ipv69_addr_in_range a b 40 \<longleftrightarrow> a = b"
  using bit_word_eqI [of a b] by (auto simp: in_range_iff)

lemma find_upt_only: "k < n \<Longrightarrow> (\<And>j. j < n \<Longrightarrow> P j \<longleftrightarrow> j = k) \<Longrightarrow> find P [0..<n] = Some k"
  by (auto simp: find_Some_iff intro!: exI [of _ k])

text \<open>The learned entry is the one its address and its MAC find.\<close>

lemma learned_found:
  assumes un: "unheard g addr mac key" "addr \<noteq> 0" "k < 256"
    and g': "g_peers g' = (g_peers g)[k := \<lparr>p_addr = addr, p_prefix = 40, p_mac = mac, p_key = key, p_ep = ep, p_last = t\<rparr>]"
  shows "peer_find_addr g' addr = Some k"
    "peer_find_mac g mac' = None \<Longrightarrow> peer_find_mac g' mac' = (if mac' = mac then Some k else None)"
proof -
  have len: "length (g_peers g') = 256" using un(1) g' by (simp add: unheard_def)
  have k: "g_peers g' ! k = \<lparr>p_addr = addr, p_prefix = 40, p_mac = mac, p_key = key, p_ep = ep, p_last = t\<rparr>"
    using un g' by (simp add: unheard_def)
  have o: "g_peers g' ! j = g_peers g ! j" if "j \<noteq> k" for j using g' that by simp
  have old: "p_addr (g_peers g ! j) = 0 \<or> p_addr (g_peers g ! j) \<noteq> addr \<and> p_prefix (g_peers g ! j) = 40" if "j < 256" for j
    using un(1) that nth_mem [of j "g_peers g"] unfolding unheard_def by metis
  have "peer_covers g' addr k" using un(2) by (simp add: peer_covers_def k in_range_exact)
  moreover have no: "\<not> peer_covers g' addr j" if "j < 256" "j \<noteq> k" for j
    using old [OF that(1)] by (auto simp: peer_covers_def o [OF that(2)] in_range_exact)
  ultimately have "longest (peer_covers g' addr) (\<lambda>i. unat (p_prefix (g_peers g' ! i))) 256 k"
    using un(3) unfolding longest_def by (metis less_trans less_irrefl order_refl)
  then show "peer_find_addr g' addr = Some k" by (simp add: peer_lpm.look_Some)
  assume none: "peer_find_mac g mac' = None"
  then have nm: "\<not> (p_addr (g_peers g ! j) \<noteq> 0 \<and> p_mac (g_peers g ! j) = mac')" if "j < 256" for j
    using that by (auto simp: peer_find_mac_def peer_find_def find_None_iff)
  have e: "(p_addr (g_peers g' ! j) \<noteq> 0 \<and> p_mac (g_peers g' ! j) = mac') \<longleftrightarrow> j = k \<and> mac' = mac" if "j < 256" for j
    using nm [OF that] o [of j] k un(2) by (cases "j = k") auto
  show "peer_find_mac g' mac' = (if mac' = mac then Some k else None)"
    unfolding peer_find_mac_def peer_find_def using e un(3) find_upt_only [of k 256, OF un(3)]
    by (auto simp: find_None_iff)
qed

lemma announce_received:
  assumes sign: "sign_ok N" "key_ok N (a_sk a)" and mac: "length (a_src_mac a) = 6"
    and addr: "addr = take_bit 40 (a_src_addr a)" "ipv69_addr_class addr = CHR ''C''"
    and un: "unheard g addr (a_src_mac a) (slice 32 32 (a_sk a))" and al: "auth_allowed g (slice 32 32 (a_sk a)) addr"
    and ep: "gw_link_find g ep = None"
    and rate: "rate_allow_g (a_src_mac a @ [0, 0]) 10 20 1 (g_w g) = (True, w1)"
      "rate_allow_g (a_src_mac a @ [0, 0]) 5 10 1 w1 = (True, w2)"
  obtains k x g1 where "k < 256" "p_addr (g_peers g ! k) = 0 \<or> PEER_TIMEOUT < gw_now g - p_last (g_peers g ! k)"
    "gw_udp N I ep (announce_frame N a) g = Some (x, g1)" "g_links g1 = g_links g"
    "g_peers g1 = (g_peers g)[k := \<lparr>p_addr = addr, p_prefix = 40, p_mac = a_src_mac a,
      p_key = slice 32 32 (a_sk a), p_ep = ep, p_last = w_time w2\<rparr>]"
proof -
  let ?ann = "announce_frame N a" and ?g0 = "g\<lparr>g_buf := blit (g_buf g) 0 (announce_frame N a)\<rparr>"
  have un0: "unheard ?g0 addr (a_src_mac a) (slice 32 32 (a_sk a))" using un by (simp add: unheard_def)
  have al0: "auth_allowed ?g0 (slice 32 32 (a_sk a)) addr" using al by (simp add: auth_allowed_def)
  obtain k where k: "k < 256" "p_addr (g_peers ?g0 ! k) = 0 \<or> PEER_TIMEOUT < gw_now ?g0 - p_last (g_peers ?g0 ! k)"
    "gw_learn N ?ann ep ?g0 =
      ?g0\<lparr>g_w := w2, g_peers := (g_peers ?g0)[k := \<lparr>p_addr = addr, p_prefix = 40, p_mac = a_src_mac a,
        p_key = slice 32 32 (a_sk a), p_ep = ep, p_last = w_time w2\<rparr>], g_routes_dirty := True\<rparr>"
    by (rule announce_learned [OF sign mac, where g = ?g0 and ?w1.0 = w1 and ?w2.0 = w2 and ep = ep]) (use un0 al0 rate addr(1) in simp_all)
  define gl where "gl = gw_learn N ?ann ep ?g0"
  define hd6 where "hd6 = IPV69_CTRL_ND_REQUEST # ipv69_addr_put (a_src_addr a)"
  have hl: "length hd6 = 6" "hd6 \<noteq> []" by (simp_all add: hd6_def)
  have ann: "?ann = build_frame bcast_mac (a_src_mac a) (a_src_addr a) IPV69_BCAST_ADDR IPV69_NEXT_CONTROL 64 0 0
      (hd6 @ slice 32 32 (a_sk a) @ ed25519_sign N hd6 (a_sk a))" by (simp add: announce_frame_def Let_def hd6_def)
  have q: "slice 0 3 bcast_mac \<noteq> ascii ''Q69''" by (simp add: bcast_mac_def slice_eq_take_drop ascii_def numeral_3_eq_3)
  have nh: "next_header (hdr_at (drop 14 ?ann)) = 0" using mac by (simp add: ann wire_simps)
  have ok: "gw_src_ok gl (hdr_at (drop 14 ?ann))" by (simp add: gw_src_ok_def Let_def nh)
  have c: "class_ok gl (take_bit 40 (a_src_addr a)) (take_bit 40 IPV69_BCAST_ADDR)"
    using addr by (simp add: class_ok_def) (simp add: ipv69_addr_class_def take_bit_eq_mod Let_def)
  have p: "gw_udp N I ep ?ann g = Some (gw_route_udp ep ?ann gl)"
    using gw_udp_frame [OF _ mac q _ _ ann ep, of N I] ok c hl by (simp add: gl_def Let_def)
  obtain x g1 where g1: "gw_route_udp ep ?ann gl = (x, g1)" by (cases "gw_route_udp ep ?ann gl")
  have peers: "g_peers g1 = (g_peers g)[k := \<lparr>p_addr = addr, p_prefix = 40, p_mac = a_src_mac a,
      p_key = slice 32 32 (a_sk a), p_ep = ep, p_last = w_time w2\<rparr>]"
    using same_table_route [OF g1] k(3) by (simp add: same_table_def gl_def)
  have links: "g_links g1 = g_links g" using route_links [of ep ?ann gl] g1 k(3) by (simp add: gl_def)
  show ?thesis by (rule that [OF k(1) _ _ links peers]) (use k(2) p g1 in \<open>simp_all add: gw_now_def\<close>)
qed

text \<open>C12: A host that the gateway never heard announces itself, is allowed, and finds the limiter and a
  slot free. The next datagram, to its address from any host of the public class heard in the
  last five minutes, leaves the gateway exactly once, to the socket address the announcement
  came from, unchanged.\<close>

theorem announced_host_reached:
  assumes sign: "sign_ok N" "key_ok N (a_sk a)" and mac: "length (a_src_mac a) = 6"
    and addr: "addr = take_bit 40 (a_src_addr a)" "ipv69_addr_class addr = CHR ''C''"
    and sent: "icsp_announce_send N a w = (0, a', w')"
    and un: "unheard g addr (a_src_mac a) (slice 32 32 (a_sk a))" and al: "auth_allowed g (slice 32 32 (a_sk a)) addr"
    and ep: "gw_link_find g ep = None" "ep \<noteq> No_Ep"
    and rate: "rate_allow_g (a_src_mac a @ [0, 0]) 10 20 1 (g_w g) = (True, w1)"
      "rate_allow_g (a_src_mac a @ [0, 0]) 5 10 1 w1 = (True, w2)"
    and d: "length dm = 6" "length sm = 6" "slice 0 3 dm \<noteq> ascii ''Q69''" "dm \<noteq> bcast_mac" "peer_find_mac g dm = None"
      "pl \<noteq> []" "length pl \<le> 1654" "f = build_frame dm sm src addr IPV69_NEXT_DGRAM hop sp dp pl" "gw_link_find g ep' = None"
    and src: "ipv69_addr_class (take_bit 40 src) = CHR ''C''" "heard g (take_bit 40 src)"
  shows "\<exists>ann x g1 g2. w_out w' = w_out w @ [Udp (a_gw a) ann] \<and> gw_udp N I ep ann g = Some (x, g1) \<and>
    gw_udp N I ep' f g1 = Some (False, g2) \<and> g_out g2 = g_out g1 @ [Out_Udp ep f]"
proof -
  obtain k x g1 where k: "k < 256" "p_addr (g_peers g ! k) = 0 \<or> PEER_TIMEOUT < gw_now g - p_last (g_peers g ! k)"
    and p: "gw_udp N I ep (announce_frame N a) g = Some (x, g1)" and links: "g_links g1 = g_links g"
    and peers: "g_peers g1 = (g_peers g)[k := \<lparr>p_addr = addr, p_prefix = 40, p_mac = a_src_mac a,
      p_key = slice 32 32 (a_sk a), p_ep = ep, p_last = w_time w2\<rparr>]"
    by (rule announce_received [OF sign mac addr un al ep(1) rate])
  have nz: "x \<noteq> 0" if "ipv69_addr_class x = CHR ''C''" for x using that by (auto simp: ipv69_addr_class_def)
  have fa: "peer_find_addr g1 addr = Some k" "peer_find_mac g1 dm = (if dm = a_src_mac a then Some k else None)"
    using learned_found [OF un nz [OF addr(2)] k(1) peers] d(5) by auto
  have e: "p_ep (g_peers g1 ! k) = ep" using peers k(1) un by (simp add: unheard_def)
  have t: "take_bit 40 addr = addr" by (simp add: addr(1))
  have l': "gw_link_find g1 ep' = None" using d(9) by (simp add: gw_link_find_def links)
  obtain j where j: "j < 256" "p_addr (g_peers g ! j) = take_bit 40 src" "\<not> PEER_TIMEOUT < gw_now g - p_last (g_peers g ! j)"
    using src(2) by (auto simp: heard_def)
  have jk: "j \<noteq> k" using j k(2) nz [OF src(1)] by (auto simp: gw_now_def)
  have "g_peers g ! j \<in> set (g_peers g)" using j(1) un by (simp add: unheard_def)
  then have "p_prefix (g_peers g ! j) = 40" using un j(2) nz [OF src(1)] by (auto simp: unheard_def)
  then have "peer_covers g1 (take_bit 40 src) j"
    using j(2) jk nz [OF src(1)] peers by (simp add: peer_covers_def in_range_exact)
  then have known: "peer_find_addr g1 (take_bit 40 src) \<noteq> None" using j(1) by (auto simp: peer_lpm.look_None)
  have "\<exists>g2. gw_udp N I ep' f g1 = Some (False, g2) \<and> g_out g2 = g_out g1 @ [Out_Udp ep f]"
    using datagram_forwarded [OF d(1,2,3,6,7,4,8) l' known, of k N I] fa ep(2) src(1) addr(2) by (simp add: e t class_ok_def)
  then show ?thesis using announce_sends [OF sent] p by blast
qed

definition toy_inet :: inet where
  "toy_inet = \<lparr>pton4 = (\<lambda>_. None), pton6 = (\<lambda>_. None), ntop6 = (\<lambda>_. [])\<rparr>"

text \<open>A gateway that knows one host, and a host with address 80.00.00.00.02.\<close>

definition toy_peer :: gw_peer where
  "toy_peer = \<lparr>p_addr = 0x8000000001, p_prefix = 40, p_mac = [2, 0, 0, 0, 0, 9], p_key = replicate 32 9,
     p_ep = Ep4 [10, 0, 0, 9] 5, p_last = 0\<rparr>"

definition toy_gw :: gw where
  "toy_gw = (gw_start gw_args0 (zeros 6) world0)\<lparr>g_peers := toy_peer # replicate 255 gw_peer0\<rparr>"

definition toy_assoc :: icsp_assoc where
  "toy_assoc = assoc0\<lparr>a_src_mac := [2, 0, 0, 0, 0, 1], a_src_addr := 0x8000000002, a_sk := replicate 64 4\<rparr>"

lemma toy_gw_facts:
  "unheard toy_gw 0x8000000002 [2, 0, 0, 0, 0, 1] (replicate 32 4)" "heard toy_gw 0x8000000001"
  "auth_allowed toy_gw k a" "gw_link_find toy_gw ep = None" "w_rate (g_w toy_gw) = rate_table_init"
  "peer_find_mac toy_gw [2, 0, 0, 0, 0, 1] = None"
proof -
  have p: "g_peers toy_gw = toy_peer # replicate 255 gw_peer0" by (simp add: toy_gw_def)
  have 0: "g_peers toy_gw ! 0 = toy_peer" by (simp add: p)
  have s: "g_peers toy_gw ! i = gw_peer0" if "0 < i" "i < 256" for i using that by (cases i) (auto simp: p)
  show "unheard toy_gw 0x8000000002 [2, 0, 0, 0, 0, 1] (replicate 32 4)"
  proof -
    have "\<exists>i<256. p_addr (g_peers toy_gw ! i) = 0" using s [of 1] by (intro exI [of _ 1]) (simp add: gw_peer0_def)
    moreover have "replicate 32 (9 :: u8) \<noteq> replicate 32 4" by (simp add: replicate_eq_replicate)
    ultimately show ?thesis by (auto simp: unheard_def p gw_peer0_def toy_peer_def)
  qed
  show "heard toy_gw 0x8000000001"
    unfolding heard_def using 0 by (intro exI [of _ 0]) (simp add: toy_peer_def gw_now_def toy_gw_def gw_start_def world0_def)
  show "peer_find_mac toy_gw [2, 0, 0, 0, 0, 1] = None"
  proof -
    have "\<not> (p_addr (g_peers toy_gw ! i) \<noteq> 0 \<and> p_mac (g_peers toy_gw ! i) = [2, 0, 0, 0, 0, 1])" if "i < 256" for i
      using 0 s [of i] that by (cases i) (auto simp: toy_peer_def gw_peer0_def)
    then show ?thesis by (auto simp: peer_find_mac_def peer_find_def find_None_iff)
  qed
qed (simp_all add: auth_allowed_def gw_link_find_def toy_gw_def gw_start_def gw_args0_def world0_def)

lemma toy_announce:
  "key_ok toy_nacl (a_sk toy_assoc)" "slice 32 32 (a_sk toy_assoc) = replicate 32 4"
  "\<exists>a' w'. icsp_announce_send toy_nacl toy_assoc world0 = (0, a', w')"
  by (simp_all add: toy_assoc_def key_ok_def ed25519_seed_to_pub_def toy_nacl_def slice_eq_take_drop icsp_announce_send_def
      transmit_def world0_def Let_def)

theorem announced_host_reached_witness:
  "\<exists>ann x g1 g2 d. gw_udp toy_nacl toy_inet (Ep4 [10, 0, 0, 1] 7) ann toy_gw = Some (x, g1) \<and>
    gw_udp toy_nacl toy_inet (Ep4 [10, 0, 0, 9] 5) d g1 = Some (False, g2) \<and> g_out g2 = g_out g1 @ [Out_Udp (Ep4 [10, 0, 0, 1] 7) d]"
proof -
  let ?d = "build_frame [2, 0, 0, 0, 0, 1] [2, 0, 0, 0, 0, 9] 0x8000000001 0x8000000002 IPV69_NEXT_DGRAM 64 1 2 [7]"
  obtain rt rt' where "rate_allow rate_table_init (w_ms (g_w toy_gw)) ([2, 0, 0, 0, 0, 1] @ [0, 0]) 10 20 1 = (True, rt)"
      "rate_allow rt (w_ms (g_w toy_gw)) ([2, 0, 0, 0, 0, 1] @ [0, 0]) 5 10 1 = (True, rt')"
    by (rule rate_twice)
  then have r: "\<exists>w1 w2. rate_allow_g (a_src_mac toy_assoc @ [0, 0]) 10 20 1 (g_w toy_gw) = (True, w1) \<and>
      rate_allow_g (a_src_mac toy_assoc @ [0, 0]) 5 10 1 w1 = (True, w2)"
    by (simp add: rate_allow_g_def toy_gw_facts toy_assoc_def)
  then obtain w1 w2 where r: "rate_allow_g (a_src_mac toy_assoc @ [0, 0]) 10 20 1 (g_w toy_gw) = (True, w1)"
      "rate_allow_g (a_src_mac toy_assoc @ [0, 0]) 5 10 1 w1 = (True, w2)" by blast
  obtain a' w' where s: "icsp_announce_send toy_nacl toy_assoc world0 = (0, a', w')" using toy_announce(3) by blast
  have a: "a_src_mac toy_assoc = [2, 0, 0, 0, 0, 1]" "a_src_addr toy_assoc = 0x8000000002" by (simp_all add: toy_assoc_def)
  have q: "slice 0 3 [2 :: u8, 0, 0, 0, 0, 1] \<noteq> ascii ''Q69''" "[2 :: u8, 0, 0, 0, 0, 1] \<noteq> bcast_mac"
    by (simp_all add: slice_eq_take_drop ascii_def bcast_mac_def) (auto dest: arg_cong [where f = hd])
  have c: "take_bit 40 (0x8000000001 :: u64) = 0x8000000001" "take_bit 40 (0x8000000002 :: u64) = 0x8000000002"
      "ipv69_addr_class 0x8000000001 = CHR ''C''" "ipv69_addr_class 0x8000000002 = CHR ''C''"
    by (simp_all add: take_bit_eq_mod ipv69_addr_class_def Let_def drop_bit_eq_div)
  have "\<exists>ann x g1 g2. w_out w' = w_out world0 @ [Udp (a_gw toy_assoc) ann] \<and>
      gw_udp toy_nacl toy_inet (Ep4 [10, 0, 0, 1] 7) ann toy_gw = Some (x, g1) \<and>
      gw_udp toy_nacl toy_inet (Ep4 [10, 0, 0, 9] 5) ?d g1 = Some (False, g2) \<and> g_out g2 = g_out g1 @ [Out_Udp (Ep4 [10, 0, 0, 1] 7) ?d]"
    by (rule announced_host_reached [OF toy_sign_ok toy_announce(1) _ _ _ s _ _ _ _ r, where src = "0x8000000001"])
      (simp_all add: a c q toy_gw_facts toy_announce)
  then show ?thesis by blast
qed

lemma toy_start_facts:
  "unheard (gw_start gw_args0 m world0) 0x8000000002 k q" "gw_link_find (gw_start gw_args0 m world0) ep = None"
  "auth_allowed (gw_start gw_args0 m world0) q' b"
proof -
  have "\<exists>i<256. p_addr (replicate 256 gw_peer0 ! i) = 0" by (intro exI [of _ 0]) (simp add: gw_peer0_def)
  then show "unheard (gw_start gw_args0 m world0) 0x8000000002 k q" by (auto simp: unheard_def gw_start_def gw_peer0_def)
qed (simp_all add: gw_link_find_def auth_allowed_def gw_start_def gw_args0_def)

theorem gateway_peers_vouched_witness:
  "\<exists>g p. p \<in> set (g_peers g) \<and> p_addr p \<noteq> 0 \<and> auth_allowed g (p_key p) (p_addr p) \<and> p_key p = replicate 32 4 \<and>
     (\<exists>m sig. ed25519_verify toy_nacl m sig (p_key p) = 0 \<and>
       (length m = 77 \<or> length m = 6 \<and> bget m 0 = IPV69_CTRL_ND_REQUEST \<and> p_addr p = ipv69_addr_get (drop 1 m)))"
proof -
  let ?g = "gw_start gw_args0 (zeros 6) world0" and ?tm = "\<lparr>gt_boot = 0, gt_last_ann = 0\<rparr>" and ?ep = "Ep4 [10, 0, 0, 1] 7"
  obtain rt rt' where "rate_allow rate_table_init 0 ([2, 0, 0, 0, 0, 1] @ [0, 0]) 10 20 1 = (True, rt)"
      "rate_allow rt 0 ([2, 0, 0, 0, 0, 1] @ [0, 0]) 5 10 1 = (True, rt')"
    by (rule rate_twice)
  then have "\<exists>w1 w2. rate_allow_g (a_src_mac toy_assoc @ [0, 0]) 10 20 1 (g_w ?g) = (True, w1) \<and>
      rate_allow_g (a_src_mac toy_assoc @ [0, 0]) 5 10 1 w1 = (True, w2)"
    by (simp add: rate_allow_g_def toy_assoc_def gw_start_def world0_def)
  then obtain w1 w2 where r: "rate_allow_g (a_src_mac toy_assoc @ [0, 0]) 10 20 1 (g_w ?g) = (True, w1)"
      "rate_allow_g (a_src_mac toy_assoc @ [0, 0]) 5 10 1 w1 = (True, w2)" by blast
  have a: "length (a_src_mac toy_assoc) = 6" "0x8000000002 = take_bit 40 (a_src_addr toy_assoc)" "ipv69_addr_class 0x8000000002 = CHR ''C''"
    by (simp_all add: toy_assoc_def take_bit_eq_mod ipv69_addr_class_def Let_def drop_bit_eq_div)
  obtain k x g1 where k: "k < 256" "gw_udp toy_nacl undefined ?ep (announce_frame toy_nacl toy_assoc) ?g = Some (x, g1)"
      "g_peers g1 = (g_peers ?g)[k := \<lparr>p_addr = 0x8000000002, p_prefix = 40, p_mac = a_src_mac toy_assoc,
        p_key = slice 32 32 (a_sk toy_assoc), p_ep = ?ep, p_last = w_time w2\<rparr>]"
    by (rule announce_received [OF toy_sign_ok toy_announce(1) a toy_start_facts(1,3,2) r]) blast
  have tick: "gw_tick toy_nacl 6969 None ?tm ?g = Some (?tm, ?g)"
    by (simp add: gw_tick_def gw_now_def gw_start_def world0_def route_expire_def swap_expire.simps Let_def gw_args0_def)
  have "gw_turn toy_nacl undefined 6969 None 0 0 (Some (?ep, announce_frame toy_nacl toy_assoc)) None (?tm, ?g) = Some (?tm, g1)"
  proof -
    have "?g\<lparr>g_w := (g_w ?g)\<lparr>w_time := 0, w_ms := 0\<rparr>\<rparr> = ?g" by (simp add: gw_start_def world0_def)
    then show ?thesis by (simp add: gw_turn_def tick k(2))
  qed
  then have run: "gw_run toy_nacl undefined 6969 None (?tm, ?g) (?tm, g1)" by (rule gw_run.Turn [OF gw_run.Start])
  let ?p = "g_peers g1 ! k"
  have p: "?p \<in> set (g_peers g1)" "p_addr ?p \<noteq> 0" "p_key ?p = replicate 32 4"
    using k(1,3) toy_announce(2) by (simp_all add: gw_start_def set_update_memI)
  from gateway_peers_vouched [OF run p(1,2)] p show ?thesis by blast
qed

end
