(* ===== verification/Gw_Limits.thy ===== *)
theory Gw_Limits
  imports Gw_Forward
begin

text \<open>
  What the gateway refuses, what its tables hold, and where a neighbour or a listener on the
  path can hurt it.
\<close>

section \<open>Filters\<close>




section \<open>A copied INIT\<close>

text \<open>The gateway takes an INIT from anyone who has a copy. The signature covers neither the addresses
  nor the sender, and its time is not looked at, so a replayed INIT moves the entry of the
  key to the replaying endpoint, and to any address the allowlist gives the key.\<close>

theorem init_replay_moves_peer:
  assumes init: "bget ic 12 = GW_CHUNK_INIT" "bget ic 13 AND 1 = 0" "157 \<le> length ic" "length ic \<le> 1654"
    and sig: "ed25519_verify N (slice 0 77 (drop 16 ic)) (drop 93 ic) key = 0" "key = slice 61 32 ic"
    and known: "length (g_peers g) = 256" "peer_find_key g key = Some i" and al: "auth_allowed g key (take_bit 40 addr)"
    and d: "length dm = 6" "length sm = 6" "slice 0 3 dm \<noteq> ascii ''Q69''" "gw_link_find g ep = None"
      "f = build_frame dm sm addr d IPV69_NEXT_STREAM hop sp dp ic"
    and rate: "rate_allow_g (sm @ [0, 0]) 10 20 1 (g_w g) = (True, w1)"
  shows "\<exists>x g'. gw_udp N I ep f g = Some (x, g') \<and>
    g_peers g' ! i = (g_peers g ! i)\<lparr>p_addr := take_bit 40 addr, p_prefix := 40, p_ep := ep, p_last := gw_now g\<rparr>"
proof -
  let ?g = "g\<lparr>g_buf := blit (g_buf g) 0 f\<rparr>"
  have len: "length f = 46 + length ic" using d by (simp add: len_simps)
  have f: "drop (14 + 32) f = ic" using d by (simp add: wire_simps)
  have h: "next_header (hdr_at (drop 14 f)) = 2" "ipv69_addr_get (source (hdr_at (drop 14 f))) = take_bit 40 addr"
    using d by (simp_all add: wire_simps)
  have smac: "slice 6 6 f = sm" using built_frame_at(2) [OF d(1,2)] d(5) by simp
  have rg: "rate_gw (sm @ [0, 0]) 10 20 1 ?g = (True, ?g\<lparr>g_w := w1\<rparr>)" using rate by (simp add: rate_gw_def)
  have tm: "w_time w1 = gw_now g" using rate by (auto simp: rate_allow_g_def gw_now_def split: prod.splits)
  have i: "i < 256" using known(2) by (auto simp: peer_find_key_def dest: peer_find_Some)
  have kn: "peer_find_key (?g\<lparr>g_w := w1\<rparr>) key = Some i" using known(2) by (simp add: peer_find_key_def peer_find_def)
  have al': "auth_allowed (?g\<lparr>g_w := w1\<rparr>) key (take_bit 40 addr)" using al by (simp add: auth_allowed_def)
  have sl: "slice 45 32 (drop 16 ic) = key" "drop 77 (drop 16 ic) = drop 93 ic" using sig(2) by simp_all
  have "gw_learn_init N f ep ?g = peer_learn_auth (take_bit 40 addr) sm ep key 40 (?g\<lparr>g_w := w1\<rparr>)"
    unfolding gw_learn_init_def Let_def f smac rg h sl using len init(1-3) sig(1) al' by simp
  then have learn: "gw_learn N f ep ?g = upd_peer i (\<lambda>p. p\<lparr>p_addr := take_bit 40 addr, p_prefix := 40, p_ep := ep, p_last := gw_now g\<rparr>) (?g\<lparr>g_w := w1\<rparr>)"
    by (simp add: gw_learn_def h peer_learn_auth_def kn gw_now_def tm)
  define gl where "gl = gw_learn N f ep ?g"
  have ne: "ic \<noteq> []" using init(3) by auto
  have "\<exists>x g'. gw_udp N I ep f g = Some (x, g') \<and> g_peers g' = g_peers gl"
    unfolding gw_udp_frame [OF d(1,2,3) ne init(4) d(5,4)] Let_def gl_def [symmetric]
    using same_table_route [of ep f gl] by (cases "gw_route_udp ep f gl") (auto simp: same_table_def)
  moreover have "g_peers gl ! i = (g_peers g ! i)\<lparr>p_addr := take_bit 40 addr, p_prefix := 40, p_ep := ep, p_last := gw_now g\<rparr>"
    using i known(1) by (simp add: gl_def learn upd_peer_def)
  ultimately show ?thesis by auto
qed

theorem init_replay_moves_peer_witness:
  "\<exists>f x g'. gw_udp toy_nacl toy_inet (Ep4 [6, 6, 6, 6] 6) f (toy_gw\<lparr>g_peers := toy_peer\<lparr>p_key := replicate 32 4\<rparr> # replicate 255 gw_peer0\<rparr>) = Some (x, g') \<and>
     p_ep (g_peers g' ! 0) = Ep4 [6, 6, 6, 6] 6"
proof -
  let ?g = "toy_gw\<lparr>g_peers := toy_peer\<lparr>p_key := replicate 32 4\<rparr> # replicate 255 gw_peer0\<rparr>" and ?key = "replicate 32 (4 :: u8)"
  let ?m = "zeros 45 @ ?key" and ?sk = "replicate 64 (4 :: u8)"
  let ?ic = "zeros 12 @ [1, 0, 0, 0] @ ?m @ ed25519_sign toy_nacl ?m ?sk"
  let ?f = "build_frame (zeros 6) (zeros 6) 0x8000000001 0 IPV69_NEXT_STREAM 64 1 2 ?ic"
  have k: "key_ok toy_nacl ?sk" using toy_announce(1) by (simp add: toy_assoc_def)
  have ic: "bget ?ic 12 = 1" "bget ?ic 13 AND 1 = 0" "length ?ic = 157" "slice 61 32 ?ic = ?key" "slice 0 77 (drop 16 ?ic) = ?m"
      "drop 93 ?ic = ed25519_sign toy_nacl ?m ?sk"
    by (simp_all add: slice_eq_take_drop)
  have v: "ed25519_verify toy_nacl (slice 0 77 (drop 16 ?ic)) (drop 93 ?ic) ?key = 0"
    using verify_signed [OF toy_sign_ok k, of ?m "[]"] unfolding ic by (simp add: slice_eq_take_drop)
  have p: "peer_find_key ?g ?key = Some 0" "length (g_peers ?g) = 256"
    by (auto simp: peer_find_key_def peer_find_def toy_peer_def find_Some_iff intro!: exI [of _ 0])
  obtain rt rt' where "rate_allow rate_table_init (w_ms (g_w ?g)) (zeros 6 @ [0, 0]) 10 20 1 = (True, rt)"
      "rate_allow rt (w_ms (g_w ?g)) (zeros 6 @ [0, 0]) 5 10 1 = (True, rt')"
    by (rule rate_twice)
  then obtain w1 where r: "rate_allow_g (zeros 6 @ [0, 0]) 10 20 1 (g_w ?g) = (True, w1)"
    by (simp add: rate_allow_g_def toy_gw_facts)
  have l: "gw_link_find ?g ep = None" for ep using toy_gw_facts(4) by (simp add: gw_link_find_def)
  have a: "auth_allowed ?g ?key a" for a using toy_gw_facts(3) by (simp add: auth_allowed_def)
  have q: "slice 0 3 (zeros 6) \<noteq> ascii ''Q69''"
    by (simp add: slice_eq_take_drop ascii_def zeros_def) (auto dest: arg_cong [where f = hd])
  obtain x g' where u: "gw_udp toy_nacl toy_inet (Ep4 [6, 6, 6, 6] 6) ?f ?g = Some (x, g')"
      "g_peers g' ! 0 = (g_peers ?g ! 0)\<lparr>p_addr := take_bit 40 0x8000000001, p_prefix := 40, p_ep := Ep4 [6, 6, 6, 6] 6, p_last := gw_now ?g\<rparr>"
    using init_replay_moves_peer [OF ic(1,2) _ _ v ic(4) [symmetric] p(2,1) a _ _ q l refl r, where I = toy_inet and ep = "Ep4 [6, 6, 6, 6] 6" and addr = "0x8000000001" and d = 0 and hop = 64 and sp = 1 and dp = 2] ic(3) by auto
  then show ?thesis by (intro exI [of _ ?f] exI [of _ x] exI [of _ g']) simp
qed

section \<open>A question that overruns\<close>

lemma others_None:
  assumes "length (g_l2mac g) = 6" "\<And>j. j \<in> set js \<Longrightarrow> j < length (g_links g)"
  shows "ofold (\<lambda>j g. if j = li then Some g else gw_link_send_pkt (g_links g ! j) p g) js g = None \<longleftrightarrow>
    146 < length p \<and> \<not> set js \<subseteq> {li}"
  using assms
proof (induction js arbitrary: g)
  case (Cons j js)
  have l: "length (mesh_frame g p) = 46 + length p" using Cons.prems(1) by (simp add: mesh_frame_def len_simps)
  show ?case
  proof (cases "j = li")
    case True
    then show ?thesis using Cons by auto
  next
    case False
    let ?g = "send_udp (mesh_frame g p) (l_ep (g_links g ! j)) g"
    have "length (g_l2mac ?g) = 6" "g_links ?g = g_links g" using Cons.prems(1) by (simp_all add: send_udp_def emit_def)
    then show ?thesis using False l Cons.IH [of ?g] Cons.prems(2) by (auto simp: gw_link_send_pkt_def)
  qed
qed simp

text \<open>C39: Handling a control frame from a link overruns the 192-byte frame buffer exactly when the frame is a
  question of more than 146 bytes for an address that is not known here and not being asked,
  and there is another link to forward it to.\<close>

theorem fed_query_overrun:
  assumes "length (g_l2mac g) = 6" "li < length (g_links g)" "p = drop 46 f" "q = ipv69_addr_get (drop 1 p)"
  shows "gw_fed_handle N li f g = None \<longleftrightarrow>
    next_header (hdr_at (drop 14 f)) = IPV69_NEXT_CONTROL \<and> bget p 0 = IPV69_CTRL_GW_Q \<and> 146 < length p \<and>
    peer_find_addr g q = None \<and> 1 < length (g_links g) \<and> q \<notin> gp_addr ` set (g_pend g) \<and> length (g_pend g) < 16"
proof -
  let ?u = "g\<lparr>g_pend := g_pend g @ [\<lparr>gp_addr = q, gp_asker = l_ep (g_links g ! li), gp_via_link = True, gp_ts = gw_now g\<rparr>]\<rparr>"
  have few: "gw_link_send_pkt l x g \<noteq> None" if "length x \<le> 146" for l x
    using that assms(1) by (simp add: gw_link_send_pkt_def mesh_frame_def len_simps)
  have relay: "gw_pend_relay x g \<noteq> None" for x
    using few [of "slice 0 12 x"] by (auto simp: gw_pend_relay_def Let_def split: option.splits)
  have "gw_r_build q t = Some r \<Longrightarrow> length r \<le> 146" for t r
    by (auto simp: gw_r_build_def)
  then have answer: "gw_r_build q t = Some r \<Longrightarrow> gw_link_send_pkt l r g \<noteq> None" for t r l using few by blast
  have others: "ofold (\<lambda>j g. if j = li then Some g else gw_link_send_pkt (g_links g ! j) p g) [0..<length (g_links g)] ?u = None \<longleftrightarrow>
      146 < length p \<and> \<not> {0..<length (g_links g)} \<subseteq> {li}"
    using others_None [of ?u "[0..<length (g_links g)]" li p] assms(1) by simp
  have two: "\<not> {0..<length (g_links g)} \<subseteq> {li} \<longleftrightarrow> 1 < length (g_links g)" 
  proof
    assume "1 < length (g_links g)"
    then have "(if li = 0 then 1 else 0) \<in> {0..<length (g_links g)} - {li}" by auto
    then show "\<not> {0..<length (g_links g)} \<subseteq> {li}" by blast
  qed (use assms(2) in auto)
  have fq: "gw_fed_query li p g = None \<longleftrightarrow> peer_find_addr g q = None \<and> 1 < length (g_links g) \<and> q \<notin> gp_addr ` set (g_pend g) \<and>
      length (g_pend g) < 16 \<and> 146 < length p"
    using answer others two unfolding gw_fed_query_def Let_def assms(4) [symmetric]
    by (auto split: option.splits bind_splits simp: image_iff)
  show ?thesis
    using fq relay [of p] unfolding gw_fed_handle_def Let_def
    by (auto simp: assms(3) [symmetric] split: prod.splits bool.splits)
qed

theorem fed_query_overrun_witness:
  "gw_fed_handle toy_nacl 0 (build_frame bcast_mac (zeros 6) 0 IPV69_BCAST_ADDR IPV69_NEXT_CONTROL 64 0 0 (IPV69_CTRL_GW_Q # zeros 146))
     (gw_start (gw_args0\<lparr>ga_links := [\<lparr>l_ep = No_Ep, l_pub = [], l_last = 0\<rparr>, \<lparr>l_ep = No_Ep, l_pub = [], l_last = 0\<rparr>]\<rparr>) (zeros 6) world0) = None"
  (is "gw_fed_handle _ _ ?f ?g = None")
proof -
  have p: "drop 46 ?f = IPV69_CTRL_GW_Q # zeros 146" by (simp add: wire_simps)
  have "\<not> peer_covers ?g a j" if "j < 256" for a j using that by (simp add: peer_covers_def gw_start_def gw_peer0_def)
  then have "peer_find_addr ?g a = None" for a by (simp add: peer_lpm.look_None)
  then show ?thesis
    using fed_query_overrun [of ?g 0 _ ?f _ toy_nacl, OF _ _ p [symmetric] refl]
    by (simp add: wire_simps) (simp add: gw_start_def)
qed

end
