(* ===== verification/Gw_Tables.thy ===== *)
theory Gw_Tables
  imports Gw_Props
begin

text \<open>
  The arrays of the gateway: sizes and indices, through every operation.
\<close>

section \<open>The tables\<close>

text \<open>Every table stays within its array, every index in one is an index of another.\<close>

definition tabs :: "nat \<Rightarrow> gw \<Rightarrow> bool" where
  "tabs n g \<longleftrightarrow> length (g_peers g) = 256 \<and> length (g_links g) = n \<and> length (g_neigh g) \<le> 256 \<and> length (g_pend g) \<le> 16 \<and>
     length (g_routes g) \<le> 256 \<and> r_li ` set (g_routes g) \<subseteq> {..<n} \<and> length (g_l2mac g) = 6"

lemma tabs_upd [simp]:
  "tabs n (g\<lparr>g_w := w\<rparr>) = tabs n g" "tabs n (g\<lparr>g_buf := b\<rparr>) = tabs n g" "tabs n (g\<lparr>g_routes_dirty := d\<rparr>) = tabs n g"
  "tabs n (emit x g) = tabs n g" "tabs n (send_udp f e g) = tabs n g" "tabs n (gw_link_send_raw l f g) = tabs n g"
  "tabs n (gw_mesh_send p g) = tabs n g" "tabs n (upd_peer i h g) = tabs n g" "tabs n (gw_call a q e g) = tabs n g"
  by (simp_all add: tabs_def emit_def send_udp_def gw_link_send_raw_def gw_mesh_send_def upd_peer_def gw_call_def split: option.splits prod.splits)

lemma tabs_rate: "rate_gw i r b c g = (ok, g') \<Longrightarrow> tabs n g' = tabs n g"
  by (auto simp: rate_gw_def Let_def split: prod.splits)

lemma tabs_pkt: "gw_link_send_pkt l p g = Some g' \<Longrightarrow> tabs n g' = tabs n g"
  by (auto simp: gw_link_send_pkt_def split: if_splits)

lemma tabs_ofold: "ofold f xs g = Some g' \<Longrightarrow> (\<And>x u v. f x u = Some v \<Longrightarrow> tabs n v = tabs n u) \<Longrightarrow> tabs n g' = tabs n g"
  by (rule ofold_inv [where P = "\<lambda>v. tabs n v = tabs n g"]) auto

lemma tabs_fold: "(\<And>x u. tabs n (f x u) = tabs n u) \<Longrightarrow> tabs n (fold f xs g) = tabs n g"
  by (induction xs arbitrary: g) auto

lemma tabs_flood [simp]: "tabs n (flood_links k f g) = tabs n g" "tabs n (flood_peers P f g) = tabs n g"
  unfolding flood_links_def flood_peers_def by (rule tabs_fold; simp)+

lemma tabs_learn [simp]: "tabs n (gw_learn N f ep g) = tabs n g"
proof -
  have p: "tabs n (snd (peer_learn_auth a m e k q u)) = tabs n u" for a m e k q u
    by (auto simp: peer_learn_auth_def split: option.splits prod.splits bool.splits dest: tabs_rate)
  show ?thesis
    by (auto simp: gw_learn_def gw_learn_init_def gw_learn_announce_def Let_def p split: prod.splits bool.splits dest: tabs_rate)
qed

lemma tabs_route_learn: "tabs n g \<Longrightarrow> li < n \<Longrightarrow> tabs n (route_learn p li g)"
  by (auto simp: route_learn_def tabs_def Let_def set_update_subsetI dest!: set_update_subset_insert [THEN subsetD] split: option.splits)
    (auto simp: find_Some_iff)

lemma tabs_relay: "tabs n g \<Longrightarrow> gw_pend_relay p g = Some g' \<Longrightarrow> tabs n g'"
proof -
  have b: "tabs n (u\<lparr>g_pend := butlast ((g_pend u)[i := last (g_pend u)])\<rparr>)" if "tabs n u" for u i
    using that by (auto simp: tabs_def)
  assume "tabs n g" "gw_pend_relay p g = Some g'"
  then show ?thesis by (auto simp: gw_pend_relay_def Let_def split: option.splits if_splits dest: tabs_pkt intro!: b)
qed

lemma tabs_mesh: "tabs n g \<Longrightarrow> gw_mesh_handle f g = Some (x, g') \<Longrightarrow> tabs n g'"
proof -
  assume t: "tabs n g" and d: "gw_mesh_handle f g = Some (x, g')"
  have "tabs n (g\<lparr>g_neigh := ns\<rparr>)" if "length ns \<le> 256" for ns using t that by (simp add: tabs_def)
  moreover have "length (g_neigh g) \<le> 256" using t by (simp add: tabs_def)
  ultimately show ?thesis using d t
    by (auto simp: gw_mesh_handle_def Let_def split: if_splits option.splits dest: tabs_relay)
qed

lemma tabs_pend_add: "tabs n g \<Longrightarrow> length (g_pend g) < 16 \<Longrightarrow> tabs n (g\<lparr>g_pend := g_pend g @ [e]\<rparr>)"
  by (simp add: tabs_def)

lemma tabs_ofold_pkt: "ofold (\<lambda>l. gw_link_send_pkt l p) ls g = Some g' \<Longrightarrow> tabs n g' = tabs n g"
  by (erule tabs_ofold) (rule tabs_pkt)

lemma tabs_query: "tabs n g \<Longrightarrow> gw_mesh_query q a g = Some (x, g') \<Longrightarrow> tabs n g'"
  by (auto simp: gw_mesh_query_def Let_def tabs_pend_add split: if_splits dest!: tabs_ofold_pkt [where n = n])

lemma tabs_others:
  "ofold (\<lambda>j g. if j = li then Some g else gw_link_send_pkt (g_links g ! j) p g) js g = Some g' \<Longrightarrow> tabs n g' = tabs n g"
  by (erule tabs_ofold) (auto dest: tabs_pkt split: if_splits)

lemma tabs_fed_query: "tabs n g \<Longrightarrow> gw_fed_query li p g = Some g' \<Longrightarrow> tabs n g'"
  unfolding gw_fed_query_def Let_def
  by (auto split: if_splits option.splits simp: tabs_pend_add dest: tabs_pkt [where n = n] dest!: tabs_others [where n = n])

lemma tabs_fed: "tabs n g \<Longrightarrow> li < n \<Longrightarrow> gw_fed_handle N li f g = Some (x, g') \<Longrightarrow> tabs n g'"
proof -
  assume t: "tabs n g" and li: "li < n" and d: "gw_fed_handle N li f g = Some (x, g')"
  have "tabs n (v\<lparr>g_links := (g_links v)[li := l]\<rparr>)" if "tabs n v" for v l using that by (simp add: tabs_def)
  then show ?thesis using d t li
    by (auto simp: gw_fed_handle_def Let_def split: if_splits option.splits prod.splits bool.splits
        dest: tabs_relay tabs_fed_query tabs_rate tabs_route_learn)
qed

lemma tabs_fed_data: "tabs n (gw_fed_data li f g) = tabs n g"
proof -
  obtain ok g1 where r: "rate_gw (slice 6 6 f @ [0, 0]) 20 40 1 g = (ok, g1)" by (cases "rate_gw (slice 6 6 f @ [0, 0]) 20 40 1 g")
  then show ?thesis using tabs_rate [OF r] by (auto simp: gw_fed_data_def Let_def split: option.splits bool.splits)
qed

lemma tabs_gw_query: "tabs n g \<Longrightarrow> gw_query I ep d g = Some g' \<Longrightarrow> tabs n g'"
proof -
  assume t: "tabs n g" and d: "gw_query I ep d g = Some g'"
  obtain ok g1 where r: "rate_gw (slice 20 6 (g_buf g) @ [0, 0]) 20 40 1 g = (ok, g1)"
    by (cases "rate_gw (slice 20 6 (g_buf g) @ [0, 0]) 20 40 1 g")
  have "tabs n g1" using t tabs_rate [OF r] by simp
  then show ?thesis using d unfolding gw_query_def r Let_def
    by (auto split: bool.splits option.splits if_splits dest: tabs_query)
qed

lemma tabs_route: "gw_route_udp ep f g = (x, g') \<Longrightarrow> tabs n g' = tabs n g"
proof -
  assume d: "gw_route_udp ep f g = (x, g')"
  obtain ok g1 where r: "rate_gw (slice 6 6 f @ [0, 0]) 20 40 1 g = (ok, g1)" by (cases "rate_gw (slice 6 6 f @ [0, 0]) 20 40 1 g")
  then show ?thesis using d tabs_rate [OF r, of n]
    by (auto simp: gw_route_udp_def Let_def split: if_splits option.splits bool.splits)
qed

lemma tabs_data: "tabs n g \<Longrightarrow> gw_data N ep f g = Some (x, g') \<Longrightarrow> tabs n g'"
proof -
  assume t: "tabs n g" and d: "gw_data N ep f g = Some (x, g')"
  have "gw_link_find g ep = Some li \<Longrightarrow> li < n" for li
    using t by (auto simp: gw_link_find_def find_Some_iff tabs_def)
  then show ?thesis using t d
    by (auto simp: gw_data_def Let_def tabs_fed_data split: if_splits option.splits prod.splits dest: tabs_fed tabs_route [where n = n])
qed

lemma tabs_udp: "tabs n g \<Longrightarrow> gw_udp N I ep d g = Some (x, g') \<Longrightarrow> tabs n g'"
  by (auto simp: gw_udp_def Let_def split: if_splits dest: tabs_gw_query [rotated] tabs_data [rotated])

lemma tabs_l2: "tabs n g \<Longrightarrow> gw_l2_frame N f g = Some g' \<Longrightarrow> tabs n g'"
proof -
  assume t: "tabs n g" and d: "gw_l2_frame N f g = Some g'"
  define v where "v = g\<lparr>g_buf := blit (g_buf g) 0 (take 1700 f)\<rparr>"
  have v: "tabs n v" using t by (simp add: v_def)
  show ?thesis
    using d v tabs_mesh [OF v] unfolding gw_l2_frame_def Let_def v_def [symmetric]
    by (auto split: if_splits option.splits bool.splits prod.splits dest!: tabs_rate [where n = n])
qed

lemma tabs_announce: "gw_link_announce N port sk g = Some g' \<Longrightarrow> tabs n g' = tabs n g" "gw_route_announce g = Some g' \<Longrightarrow> tabs n g' = tabs n g"
proof -
  show "gw_link_announce N port sk g = Some g' \<Longrightarrow> tabs n g' = tabs n g"
    by (simp add: gw_link_announce_def Let_def tabs_ofold_pkt)
  show "gw_route_announce g = Some g' \<Longrightarrow> tabs n g' = tabs n g"
    unfolding gw_route_announce_def
    by (erule tabs_ofold) (auto split: if_splits option.splits dest: tabs_ofold_pkt)
qed

lemma tabs_ann:
  assumes a: "gw_announce N port sk g = Some u"
  shows "tabs n u = tabs n g"
proof -
  define v where "v = (if g_l2 g then gw_mesh_send (IPV69_CTRL_GW_ANN # ipv69_put_be16 port) g else g)"
  have v: "tabs n v = tabs n g" by (simp add: v_def)
  have "u = v \<or> (\<exists>x. (case sk of Some k \<Rightarrow> gw_link_announce N port k v | None \<Rightarrow> Some v) = Some x \<and> gw_route_announce x = Some u)"
    using a unfolding gw_announce_def Let_def v_def [symmetric] by (auto split: if_splits option.splits)
  then show ?thesis
    using v by (cases sk) (auto dest!: tabs_announce [where n = n])
qed

lemma tabs_expire:
  assumes "tabs n g"
  shows "tabs n (route_expire t g)" "tabs n (g\<lparr>g_pend := swap_expire old 0 (g_pend g)\<rparr>)"
proof -
  have s: "set (swap_expire P 0 xs) \<subseteq> set xs" "length (swap_expire P 0 xs) \<le> length xs" for P and xs :: "'z list"
  proof -
    have m: "mset (swap_expire P 0 xs) \<subseteq># mset xs" by (simp add: swap_expire_mset)
    show "set (swap_expire P 0 xs) \<subseteq> set xs" using set_mset_mono [OF m] by simp
    show "length (swap_expire P 0 xs) \<le> length xs" using size_mset_mono [OF m] by simp
  qed
  show "tabs n (route_expire t g)" "tabs n (g\<lparr>g_pend := swap_expire old 0 (g_pend g)\<rparr>)"
    using assms s(2) [of old "g_pend g"] s [of "\<lambda>r. 90 < t - r_last r" "g_routes g"]
    by (auto simp: tabs_def route_expire_def)
qed

lemma tabs_tick: "tabs n g \<Longrightarrow> gw_tick N port sk tm g = Some (tm', g') \<Longrightarrow> tabs n g'"
proof -
  assume t: "tabs n g" and k: "gw_tick N port sk tm g = Some (tm', g')"
  define due where "due \<longleftrightarrow> (if gw_now g - gt_boot tm < 6 then 2 else 30) \<le> gw_now g - gt_last_ann tm"
  obtain u where u: "(if due then gw_announce N port sk g else Some g) = Some u"
    using k unfolding gw_tick_def Let_def due_def [symmetric] by (auto split: option.splits)
  have uo: "tabs n u" using u t by (auto split: if_splits simp: tabs_ann)
  define v where "v = route_expire (gw_now g) (u\<lparr>g_pend := swap_expire (\<lambda>e. 2 < gw_now g - gp_ts e) 0 (g_pend u)\<rparr>)"
  have v: "tabs n v" unfolding v_def by (intro tabs_expire uo)
  have "g' = v \<or> (\<exists>x. gw_route_announce v = Some x \<and> g' = x\<lparr>g_routes_dirty := False\<rparr>)"
    using k unfolding gw_tick_def Let_def due_def [symmetric] u option.case v_def [symmetric] by (auto split: if_splits)
  then show ?thesis using v by (auto dest!: tabs_announce(2) [where n = n])
qed

lemma tabs_turn: "tabs n (snd s) \<Longrightarrow> gw_turn N I port sk now ms udp l2 s = Some s' \<Longrightarrow> tabs n (snd s')"
  unfolding gw_turn_def
  by (auto split: option.splits if_splits prod.splits dest!: tabs_tick [rotated] tabs_udp [rotated] tabs_l2 [rotated])

lemma tabs_run: "gw_run N I port sk s0 s \<Longrightarrow> tabs n (snd s0) \<Longrightarrow> tabs n (snd s)"
  by (induction rule: gw_run.induct) (auto intro: tabs_turn)

lemma parse_args_links: "gw_parse_args N I as st = Some a \<Longrightarrow> length (ga_links st) \<le> 8 \<Longrightarrow> length (ga_links a) \<le> 8"
  by (induction N I as st arbitrary: a rule: gw_parse_args.induct) (auto split: if_splits option.splits)

text \<open>C22: In every run of the gateway, from every command line it accepts, every table stays within its
  array (256 peers, 8 links, 256 neighbours, 16 pending questions, 256 routes) and every
  route names an existing link.\<close>

theorem gateway_tables_bounded:
  assumes "gw_parse_args N I as gw_args0 = Some a" "length l2mac = 6"
    "gw_run N I port sk (tm, gw_start a l2mac w) (tm', g)"
  shows "length (g_peers g) = 256 \<and> length (g_links g) \<le> 8 \<and> length (g_neigh g) \<le> 256 \<and> length (g_pend g) \<le> 16 \<and>
    length (g_routes g) \<le> 256 \<and> r_li ` set (g_routes g) \<subseteq> {..<length (g_links g)}"
proof -
  have "tabs (length (ga_links a)) (gw_start a l2mac w)" using assms(2) by (simp add: tabs_def gw_start_def)
  with tabs_run [OF assms(3)] have "tabs (length (ga_links a)) g" by simp
  moreover have "length (ga_links a) \<le> 8" using parse_args_links [OF assms(1)] by (simp add: gw_args0_def)
  ultimately show ?thesis by (simp add: tabs_def)
qed

theorem gateway_tables_bounded_witness:
  "length (g_peers (gw_start (gw_args0\<lparr>ga_private := True\<rparr>) (zeros 6) world0)) = 256 \<and>
   length (g_links (gw_start (gw_args0\<lparr>ga_private := True\<rparr>) (zeros 6) world0)) \<le> 8"
proof -
  have "gw_parse_args toy_nacl undefined [''--private''] gw_args0 = Some (gw_args0\<lparr>ga_private := True\<rparr>)" by simp
  from gateway_tables_bounded [OF this _ gw_run.Start, where l2mac = "zeros 6"] show ?thesis by simp
qed

end
