(* ===== verification/Keyring.thy ===== *)
theory Keyring
  imports Files Addr
begin

text \<open>
  The key files of \<^verbatim>\<open>c/src/IPv69/keyring.c\<close> (its Linux build): where they are, how a key pair
  is written, with or without a passphrase, and how it is loaded or created. The process
  environment and the passwd database are the record \<open>kenv\<close>; the answers at the terminal
  are a list, in which \<open>None\<close> is a prompt that cannot be shown. \<open>snprintf\<close> cuts at the size of
  its buffer and returns the uncut length. Directories, permissions and owners are left out.
\<close>

abbreviation (input) KEY_MAGIC :: string where "KEY_MAGIC \<equiv> ''H69E1''"
abbreviation (input) SALT_LEN :: nat where "SALT_LEN \<equiv> 16"
abbreviation (input) NONCE_LEN :: nat where "NONCE_LEN \<equiv> 24"
abbreviation (input) CR :: char where "CR \<equiv> CHR 0x0D"

section \<open>Environment and paths\<close>

record kenv =
  ke_home :: "string option"
  ke_sudo_user :: "string option"
  ke_pw_dir :: "string \<Rightarrow> string option"
  ke_keyfile :: "string option"
  ke_passphrase :: "string option"
  ke_hostname :: string

definition snprintf :: "nat \<Rightarrow> string \<Rightarrow> string" where
  "snprintf cap s = take (cap - 1) s"

text \<open>A variable that is unset and one that is empty are the same to the code.\<close>

definition nonempty :: "string option \<Rightarrow> string option" where
  "nonempty v = (case v of Some s \<Rightarrow> if s = [] then None else Some s | None \<Rightarrow> None)"

definition keyring_home :: "kenv \<Rightarrow> string" where
  "keyring_home E =
     (let su = (case nonempty (ke_sudo_user E) of
                  None \<Rightarrow> None
                | Some u \<Rightarrow> if u = ''root'' then None else nonempty (ke_pw_dir E u));
          h = (case su of Some d \<Rightarrow> Some d | None \<Rightarrow> nonempty (ke_home E))
      in snprintf 512 (case h of Some d \<Rightarrow> d | None \<Rightarrow> ''/root''))"

text \<open>The part before the last slash, unless there is none or it is the first character.\<close>

definition parent_dir :: "string \<Rightarrow> string option" where
  "parent_dir s =
     (let d = rev (drop 1 (dropWhile (\<lambda>c. c \<noteq> CHR ''/'') (rev s))) in if d = [] then None else Some d)"

definition keyring_paths :: "kenv \<Rightarrow> nat \<Rightarrow> nat \<Rightarrow> nat \<Rightarrow> string \<times> string \<times> string" where
  "keyring_paths E dirsz keysz pubsz =
     (let home = keyring_home E
      in case nonempty (ke_keyfile E) of
           None \<Rightarrow>
             (snprintf dirsz (home @ ''/.hosts69''), snprintf keysz (home @ ''/.hosts69/key''),
              snprintf pubsz (home @ ''/.hosts69/key.pub''))
         | Some kf \<Rightarrow>
             let full = snprintf 1024
                   (if CHR ''/'' \<in> set kf then
                      (if take 2 kf = ''~/'' then home @ tl kf else kf)
                    else home @ ''/.hosts69/'' @ kf);
                 dir = (case parent_dir (snprintf dirsz full) of
                          Some d \<Rightarrow> d
                        | None \<Rightarrow> snprintf dirsz (home @ ''/.hosts69''))
             in (dir, snprintf keysz full, snprintf pubsz (full @ ''.pub'')))"

section \<open>Files\<close>

definition strip_nl :: "string \<Rightarrow> string" where
  "strip_nl s = rev (dropWhile (\<lambda>c. c = NL \<or> c = CR) (rev s))"

definition read_line :: "nat \<Rightarrow> string \<Rightarrow> (string \<times> string) option" where
  "read_line cap s = map_option (\<lambda>(l, r). (strip_nl (c_string l), r)) (fgets cap s)"

definition write_file :: "string \<Rightarrow> string \<Rightarrow> world \<Rightarrow> int \<times> world" where
  "write_file path data w =
     (if w_denied w path then (-1, w) else (0, w\<lparr>w_files := (w_files w)(path := Some data)\<rparr>))"

definition read_whole :: "string \<Rightarrow> nat \<Rightarrow> world \<Rightarrow> string option" where
  "read_whole path cap w = map_option (take (cap - 1)) (w_files w path)"

definition hex_encode :: "bytes \<Rightarrow> string" where
  "hex_encode b = concat (map hex2 b)"

definition keyring_derive_key :: "nacl \<Rightarrow> bytes \<Rightarrow> string \<Rightarrow> bytes" where
  "keyring_derive_key N salt pass =
     map2 (XOR) (slice 0 32 (ed25519_sha512 N salt)) (slice 0 32 (ed25519_sha512 N (ascii pass)))"

section \<open>Writing\<close>

text \<open>The text goes through a 512-byte buffer and as many bytes as the uncut text has are written
  from it: \<open>None\<close> when that is more than the buffer.\<close>

definition from_buf :: "string \<Rightarrow> string option" where
  "from_buf s = (if 512 < length s then None else Some (take (length s) (snprintf 512 s @ [CHR 0x00])))"

definition private_text :: "nacl \<Rightarrow> string \<Rightarrow> bytes \<Rightarrow> world \<Rightarrow> string \<times> world" where
  "private_text N pass seed w =
     (if pass = [] then (hex_encode (slice 0 32 seed) @ [NL], w)
      else let (salt, w) = randombytes SALT_LEN w;
               (nonce, w) = randombytes NONCE_LEN w;
               box = ed25519_secretbox N (slice 0 32 seed) nonce (keyring_derive_key N salt pass)
           in (KEY_MAGIC @ [NL] @ hex_encode salt @ [NL] @ hex_encode nonce @ [NL] @ hex_encode box @ [NL], w))"

definition write_keypair_files ::
    "nacl \<Rightarrow> string \<Rightarrow> string \<Rightarrow> string \<Rightarrow> string \<Rightarrow> bytes \<Rightarrow> bytes \<Rightarrow> world \<Rightarrow> (int \<times> world) option" where
  "write_keypair_files N key pub pass comment seed pk w =
     (let (t, w) = private_text N pass seed w
      in case from_buf t of
           None \<Rightarrow> None
         | Some t \<Rightarrow>
             (case write_file key t w of
                (r, w) \<Rightarrow>
                  if r < 0 then Some (-1, w)
                  else case from_buf (hex_encode (slice 0 32 pk) @ '' '' @ comment @ [NL]) of
                         None \<Rightarrow> None
                       | Some t \<Rightarrow> Some (write_file pub t w)))"

definition keyring_create :: "nacl \<Rightarrow> string \<Rightarrow> string \<Rightarrow> string \<Rightarrow> string \<Rightarrow> world \<Rightarrow> (int \<times> world) option" where
  "keyring_create N key pub pass comment w =
     (let ((sk, pk), w) = ed25519_keypair N w in write_keypair_files N key pub pass comment sk pk w)"

definition keyring_save ::
    "nacl \<Rightarrow> string \<Rightarrow> string \<Rightarrow> string \<Rightarrow> string \<Rightarrow> bytes \<Rightarrow> bytes \<Rightarrow> world \<Rightarrow> (int \<times> world) option" where
  "keyring_save N key pub pass comment seed pubkey w = write_keypair_files N key pub pass comment seed pubkey w"

text \<open>Asking for a new passphrase, twice, until both answers agree; and what is left of the answers.\<close>

fun keyring_prompt_passphrase :: "nat \<Rightarrow> string option list \<Rightarrow> string option \<times> string option list" where
  "keyring_prompt_passphrase cap (Some a # Some b # tty) =
     (if a = b then (Some (snprintf cap a), tty) else keyring_prompt_passphrase cap tty)"
| "keyring_prompt_passphrase cap (Some a # None # tty) = (None, tty)"
| "keyring_prompt_passphrase cap [Some a] = (None, [])"
| "keyring_prompt_passphrase cap (None # tty) = (None, tty)"
| "keyring_prompt_passphrase cap [] = (None, [])"

section \<open>Loading\<close>

text \<open>At most three passphrases: the variable once, then what is typed.\<close>

fun pass_loop :: "nat \<Rightarrow> (string \<Rightarrow> bytes option) \<Rightarrow> string option \<Rightarrow> string option list \<Rightarrow> bytes option \<times> string option list" where
  "pass_loop 0 unbox env tty = (None, tty)"
| "pass_loop (Suc n) unbox (Some e) tty =
     (case unbox e of Some m \<Rightarrow> (Some m, tty) | None \<Rightarrow> pass_loop n unbox None tty)"
| "pass_loop (Suc n) unbox None (Some p # tty) =
     (case unbox p of Some m \<Rightarrow> (Some m, tty) | None \<Rightarrow> pass_loop n unbox None tty)"
| "pass_loop (Suc n) unbox None (None # tty) = (None, tty)"
| "pass_loop (Suc n) unbox None [] = (None, [])"

text \<open>The secret key is the seed and the public key computed from it.\<close>

definition load_encrypted ::
    "nacl \<Rightarrow> kenv \<Rightarrow> string \<Rightarrow> string option list \<Rightarrow> world \<Rightarrow> bytes option \<times> string option list" where
  "load_encrypted N E path tty w =
     (case w_files w path of
        None \<Rightarrow> (None, tty)
      | Some t \<Rightarrow>
          (case read_line 16 t of
             None \<Rightarrow> (None, tty)
           | Some (magic, t) \<Rightarrow>
          (case read_line 64 t of
             None \<Rightarrow> (None, tty)
           | Some (salt_h, t) \<Rightarrow>
          (case read_line 64 t of
             None \<Rightarrow> (None, tty)
           | Some (nonce_h, t) \<Rightarrow>
          (case read_line 160 t of
             None \<Rightarrow> (None, tty)
           | Some (box_h, t) \<Rightarrow>
          (case (hex_decode salt_h SALT_LEN, hex_decode nonce_h NONCE_LEN, hex_decode box_h 64) of
             (Some salt, Some nonce, Some boxed) \<Rightarrow>
               if length salt \<noteq> SALT_LEN \<or> length nonce \<noteq> NONCE_LEN \<or> length boxed \<noteq> 64 then (None, tty)
               else (case pass_loop 3 (\<lambda>p. ed25519_secretbox_open N boxed 32 nonce (keyring_derive_key N salt p))
                            (nonempty (ke_passphrase E)) tty of
                       (Some seed, tty) \<Rightarrow> (Some (seed @ ed25519_seed_to_pub N seed), tty)
                     | (None, tty) \<Rightarrow> (None, tty))
           | _ \<Rightarrow> (None, tty)))))))"

text \<open>The comment, empty when there is none.\<close>

definition load_comment :: "string \<Rightarrow> nat \<Rightarrow> world \<Rightarrow> string" where
  "load_comment pub commentsz w =
     (case read_whole pub 1024 w of
        None \<Rightarrow> []
      | Some buf \<Rightarrow>
          let rest = dropWhile (\<lambda>c. c \<noteq> CHR '' '') (c_string buf)
          in if rest = [] then [] else takeWhile (\<lambda>c. c \<noteq> NL) (snprintf commentsz (tl rest)))"

text \<open>What is found without creating: \<open>Found\<close> a key and its comment, a failure, or nothing.\<close>

datatype found = Found bytes string "string option list" | Failed "string option list" | Absent

definition keyring_find :: "nacl \<Rightarrow> kenv \<Rightarrow> string \<Rightarrow> string \<Rightarrow> nat \<Rightarrow> string option list \<Rightarrow> world \<Rightarrow> found" where
  "keyring_find N E key pub commentsz tty w =
     (case read_whole key 1024 w of
        None \<Rightarrow> Absent
      | Some buf \<Rightarrow>
          if buf = [] then Absent
          else if take 5 (c_string buf) = KEY_MAGIC then
            (case load_encrypted N E key tty w of
               (None, tty) \<Rightarrow> Failed tty
             | (Some sk, tty) \<Rightarrow> Found sk (load_comment pub commentsz w) tty)
          else
            (case hex_decode (takeWhile (\<lambda>c. c \<noteq> NL) (c_string buf)) 32 of
               None \<Rightarrow> Absent
             | Some seed \<Rightarrow>
                 if length seed = 32 then Found (seed @ ed25519_seed_to_pub N seed) (load_comment pub commentsz w) tty
                 else Absent))"

text \<open>When there is nothing, a key pair is made and the function calls itself: \<open>None\<close> is a call that
  does not come back, or a write past a buffer. Otherwise the return code, the key and the
  comment.\<close>

partial_function (option) keyring_load_or_create ::
    "nacl \<Rightarrow> kenv \<Rightarrow> string \<Rightarrow> string \<Rightarrow> nat \<Rightarrow> string option list \<Rightarrow> world \<Rightarrow> (int \<times> bytes \<times> string \<times> world) option" where
  "keyring_load_or_create N E key pub commentsz tty w =
     (case keyring_find N E key pub commentsz tty w of
        Found sk c tty \<Rightarrow> Some (0, sk, c, w)
      | Failed tty \<Rightarrow> Some (-1, [], [], w)
      | Absent \<Rightarrow>
          (case keyring_create N key pub [] (take 63 (ke_hostname E)) w of
             None \<Rightarrow> None
           | Some (r, w) \<Rightarrow>
               if r < 0 then Some (-1, [], [], w)
               else Option.bind (keyring_load_or_create N E key pub commentsz tty w)
                      (\<lambda>(r, sk, c, w). if r < 0 then Some (-1, [], [], w) else Some (0, sk, c, w))))"

end
