(* ===== verification/Dhcpd.thy ===== *)
theory Dhcpd
  imports Keyring Recv
begin

text \<open>
  The address server \<^verbatim>\<open>c/src/IPv69/af69d.c\<close>: the allowlists of keys and MACs, the table of 256
  leases, DISCOVER, REQUEST and RELEASE, the main loop and the command line. A pointer into
  the lease table is an index. \<open>None\<close> as a result is a trap of the processor (the division by an
  empty pool) or an access outside of the table.
\<close>

abbreviation (input) MAX_LEASES :: nat where "MAX_LEASES \<equiv> 256"
abbreviation (input) DHCP_PEERS :: nat where "DHCP_PEERS \<equiv> 64"
abbreviation (input) IPV69_SERVER_ADDR :: u64 where "IPV69_SERVER_ADDR \<equiv> 1"
abbreviation (input) IPV69_DHCP_POOL_START :: u64 where "IPV69_DHCP_POOL_START \<equiv> 0x10"
abbreviation (input) IPV69_DHCP_POOL_END :: u64 where "IPV69_DHCP_POOL_END \<equiv> 0xfe"
abbreviation (input) IPV69_DHCP_LEASE_DEFAULT :: u32 where "IPV69_DHCP_LEASE_DEFAULT \<equiv> 3600"
abbreviation (input) IPV69_CTRL_DHCP_DISCOVER :: u8 where "IPV69_CTRL_DHCP_DISCOVER \<equiv> 7"
abbreviation (input) IPV69_CTRL_DHCP_OFFER :: u8 where "IPV69_CTRL_DHCP_OFFER \<equiv> 8"
abbreviation (input) IPV69_CTRL_DHCP_RELEASE :: u8 where "IPV69_CTRL_DHCP_RELEASE \<equiv> 11"

record dhcp_lease =
  le_mac :: bytes
  le_addr :: u64
  le_expiry :: int
  le_used :: bool
  le_key :: bytes

definition dhcp_lease0 :: dhcp_lease where
  "dhcp_lease0 = \<lparr>le_mac = zeros 6, le_addr = 0, le_expiry = 0, le_used = False, le_key = zeros 32\<rparr>"

record peer_entry =
  pe_pub :: bytes
  pe_base :: u64
  pe_prefix :: int

record dhcp_ctx =
  dh_mac :: bytes
  dh_pool_start :: u64
  dh_pool_end :: u64
  dh_lease_sec :: u32
  dh_leases :: "dhcp_lease list"
  dh_allow :: "bytes list"
  dh_peers :: "peer_entry list"
  dh_auth_enabled :: bool
  dh_learn :: bool
  dh_peer_file :: "string option"
  dh_sk :: bytes
  dh_has_sk :: bool

definition dhcp_ctx0 :: dhcp_ctx where
  "dhcp_ctx0 = \<lparr>dh_mac = zeros 6, dh_pool_start = IPV69_DHCP_POOL_START, dh_pool_end = IPV69_DHCP_POOL_END,
     dh_lease_sec = IPV69_DHCP_LEASE_DEFAULT, dh_leases = replicate MAX_LEASES dhcp_lease0, dh_allow = [], dh_peers = [],
     dh_auth_enabled = False, dh_learn = False, dh_peer_file = None, dh_sk = zeros 64, dh_has_sk = False\<rparr>"

section \<open>The allowlists\<close>

definition peer_entry_of :: "nacl \<Rightarrow> string \<Rightarrow> peer_entry option" where
  "peer_entry_of N s = map_option (\<lambda>(pub, base, prefix). \<lparr>pe_pub = pub, pe_base = base, pe_prefix = prefix\<rparr>) (ipv69_addr_parse_peer N s)"

definition dhcp_peer_line :: "nacl \<Rightarrow> string \<Rightarrow> peer_entry option" where
  "dhcp_peer_line N line =
     (let p = dropWhile (\<lambda>c. c = CHR '' '' \<or> c = CHR 0x09) (c_string line)
      in if p = [] \<or> hd p = CHR ''#'' \<or> hd p = NL then None else peer_entry_of N (takeWhile (\<lambda>c. c \<noteq> NL) p))"

fun dhcp_peer_lines :: "nacl \<Rightarrow> string list \<Rightarrow> peer_entry list \<Rightarrow> peer_entry list" where
  "dhcp_peer_lines N [] ps = ps"
| "dhcp_peer_lines N (l # ls) ps =
     (if DHCP_PEERS \<le> length ps then ps
      else dhcp_peer_lines N ls (case dhcp_peer_line N l of None \<Rightarrow> ps | Some e \<Rightarrow> ps @ [e]))"

text \<open>What the file lists replaces the whole list.\<close>

definition dhcp_peer_file_load :: "nacl \<Rightarrow> dhcp_ctx \<Rightarrow> string \<Rightarrow> world \<Rightarrow> dhcp_ctx" where
  "dhcp_peer_file_load N c path w =
     (case w_files w path of
        None \<Rightarrow> c
      | Some text \<Rightarrow> c\<lparr>dh_peers := dhcp_peer_lines N (fgets_all 96 text) []\<rparr>)"

definition mac_in_allowlist :: "dhcp_ctx \<Rightarrow> bytes \<Rightarrow> bool" where
  "mac_in_allowlist c mac = (mac \<in> set (dh_allow c))"

definition mac_allowed :: "dhcp_ctx \<Rightarrow> bytes \<Rightarrow> bool" where
  "mac_allowed c mac = (dh_allow c = [] \<or> mac \<in> set (dh_allow c))"

definition learn_peer :: "nacl \<Rightarrow> dhcp_ctx \<Rightarrow> bytes \<Rightarrow> world \<Rightarrow> dhcp_ctx \<times> world" where
  "learn_peer N c pub w =
     (if list_ex (\<lambda>e. pe_pub e = pub) (dh_peers c) then (c, w)
      else if DHCP_PEERS \<le> length (dh_peers c) then (c, w)
      else (c\<lparr>dh_peers := dh_peers c @ [\<lparr>pe_pub = pub, pe_base = ipv69_addr_get (ipv69_addr_derive N pub CHR ''C''), pe_prefix = 40\<rparr>]\<rparr>,
            case dh_peer_file c of None \<Rightarrow> w | Some path \<Rightarrow> file_append path (pub_str pub @ [NL]) w))"

text \<open>The message ends in an identity and a signature of everything before it.\<close>

definition check_msg :: "nacl \<Rightarrow> dhcp_ctx \<Rightarrow> bytes \<Rightarrow> bytes \<Rightarrow> world \<Rightarrow> bool \<times> dhcp_ctx \<times> world" where
  "check_msg N c msg mac w =
     (let body = length msg - 96; pub = slice body 32 msg; sig = drop (body + 32) msg;
          good = (ed25519_verify N (slice 0 body msg) sig pub = 0)
      in if \<not> dh_auth_enabled c then (True, c, w)
         else if length msg < 1 + 6 + 96 then (False, c, w)
         else if list_ex (\<lambda>e. pe_pub e = pub) (dh_peers c) then (good, c, w)
         else if dh_learn c \<and> (dh_allow c = [] \<or> mac_in_allowlist c mac) \<and> good
         then (let (c, w) = learn_peer N c pub w in (True, c, w))
         else (False, c, w))"

section \<open>The lease table\<close>

definition lease_find :: "dhcp_ctx \<Rightarrow> bytes \<Rightarrow> nat option" where
  "lease_find c mac = find (\<lambda>i. le_used (dh_leases c ! i) \<and> le_mac (dh_leases c ! i) = mac) [0..<MAX_LEASES]"

definition lease_addr_taken :: "dhcp_ctx \<Rightarrow> u64 \<Rightarrow> int \<Rightarrow> bool" where
  "lease_addr_taken c addr now =
     list_ex (\<lambda>i. le_used (dh_leases c ! i) \<and> le_addr (dh_leases c ! i) = addr \<and> now < le_expiry (dh_leases c ! i)) [0..<MAX_LEASES]"

definition upd_lease :: "nat \<Rightarrow> (dhcp_lease \<Rightarrow> dhcp_lease) \<Rightarrow> dhcp_ctx \<Rightarrow> dhcp_ctx" where
  "upd_lease i f c = c\<lparr>dh_leases := (dh_leases c)[i := f (dh_leases c ! i)]\<rparr>"

definition mac_hash :: "bytes \<Rightarrow> u64" where
  "mac_hash mac = fold (\<lambda>i h. (h * 31 + ucast (bget mac i)) AND 0xFFFFFFFF) [0..<6] 0"

text \<open>At most 64 steps from \<open>a\<close> to an address that is not taken; the result may be a taken one.\<close>

fun lease_probe :: "dhcp_ctx \<Rightarrow> int \<Rightarrow> nat \<Rightarrow> u64 \<Rightarrow> u64" where
  "lease_probe c now 0 a = a"
| "lease_probe c now (Suc n) a =
     (if \<not> lease_addr_taken c a now then a
      else lease_probe c now n (if dh_pool_end c < a + 1 then dh_pool_start c else a + 1))"

definition lease_end :: "dhcp_ctx \<Rightarrow> int \<Rightarrow> int" where
  "lease_end c now = now + uint (dh_lease_sec c)"

definition lease_alloc :: "dhcp_ctx \<Rightarrow> bytes \<Rightarrow> int \<Rightarrow> (bool \<times> dhcp_ctx) option" where
  "lease_alloc c mac now =
     (case lease_find c mac of
        Some i \<Rightarrow> Some (True, upd_lease i (\<lambda>l. l\<lparr>le_expiry := lease_end c now\<rparr>) c)
      | None \<Rightarrow>
          let span = dh_pool_end c - dh_pool_start c + 1
          in if span = 0 then None
             else let a = lease_probe c now 64 (dh_pool_start c + mac_hash mac mod span)
                  in if lease_addr_taken c a now then Some (False, c)
                     else case find (\<lambda>i. \<not> le_used (dh_leases c ! i) \<or> le_expiry (dh_leases c ! i) \<le> now) [0..<MAX_LEASES] of
                            None \<Rightarrow> Some (False, c)
                          | Some i \<Rightarrow>
                              Some (True, upd_lease i (\<lambda>l. l\<lparr>le_used := True, le_mac := mac, le_addr := a, le_expiry := lease_end c now\<rparr>) c))"

definition lease_release :: "dhcp_ctx \<Rightarrow> bytes \<Rightarrow> u64 \<Rightarrow> dhcp_ctx" where
  "lease_release c mac addr =
     (case lease_find c mac of
        None \<Rightarrow> c
      | Some i \<Rightarrow> if addr = 0 \<or> le_addr (dh_leases c ! i) = addr then upd_lease i (\<lambda>l. l\<lparr>le_used := False\<rparr>) c else c)"

section \<open>Sending and receiving\<close>

definition sign_msg :: "nacl \<Rightarrow> dhcp_ctx \<Rightarrow> bytes \<Rightarrow> bytes" where
  "sign_msg N c msg = (if \<not> dh_has_sk c then msg else msg @ slice 32 32 (dh_sk c) @ ed25519_sign N msg (dh_sk c))"

definition send_ctrl :: "dhcp_ctx \<Rightarrow> bytes \<Rightarrow> bytes \<Rightarrow> world \<Rightarrow> int \<times> world" where
  "send_ctrl c payload dmac w =
     l2_send dmac (build_frame dmac (dh_mac c) IPV69_SERVER_ADDR IPV69_BCAST_ADDR IPV69_NEXT_CONTROL 64 0 0 payload) w"

text \<open>The payload of a control frame for the server, and the address it was sent to.\<close>

definition recv_ctrl :: "rx_event \<Rightarrow> (bytes \<times> u64) option" where
  "recv_ctrl ev =
     (case l2_recv [] 1500 1000 ev of
        Rx_Fail _ \<Rightarrow> None
      | Rx_Len n frame \<Rightarrow>
          let h = hdr_at (drop ETH_LEN frame); d = ipv69_addr_get (dest h)
          in if n < ETH_LEN + IPV69_HEADER_LEN + 1 then None
             else if next_header h \<noteq> IPV69_NEXT_CONTROL then None
             else if d \<noteq> IPV69_BCAST_ADDR \<and> d \<noteq> IPV69_SERVER_ADDR then None
             else Some (drop (ETH_LEN + IPV69_HEADER_LEN) (take n frame), d))"

section \<open>The three requests\<close>

text \<open>\<open>p\<close> is the whole payload, its tag included; 16 bytes of message and 96 of signature.\<close>

definition dhcp_discover :: "nacl \<Rightarrow> dhcp_ctx \<Rightarrow> bytes \<Rightarrow> world \<Rightarrow> (dhcp_ctx \<times> world) option" where
  "dhcp_discover N c p w =
     (let mac = slice 1 6 p
      in case lease_alloc c mac (w_time w) of
           None \<Rightarrow> None
         | Some (False, c) \<Rightarrow> Some (c, w)
         | Some (True, c) \<Rightarrow>
             (case lease_find c mac of
                None \<Rightarrow> None
              | Some i \<Rightarrow>
                  let oaddr = le_addr (dh_leases c ! i);
                      c = (if 7 + 96 + MAC1_LEN \<le> length p then upd_lease i (\<lambda>l. l\<lparr>le_key := slice 7 32 p\<rparr>) c else c)
                  in Some (c, snd (send_ctrl c (sign_msg N c ([IPV69_CTRL_DHCP_OFFER] @ mac @ ipv69_addr_put oaddr @
                                ipv69_put_be32 (dh_lease_sec c))) mac w))))"

definition dhcp_in_range :: "dhcp_ctx \<Rightarrow> bytes \<Rightarrow> u64 \<Rightarrow> bool" where
  "dhcp_in_range c pub addr =
     list_ex (\<lambda>e. pe_pub e = pub \<and> ipv69_addr_in_range addr (pe_base e) (nat (pe_prefix e))) (dh_peers c)"

definition dhcp_request :: "nacl \<Rightarrow> dhcp_ctx \<Rightarrow> bytes \<Rightarrow> world \<Rightarrow> (dhcp_ctx \<times> world) option" where
  "dhcp_request N c p w =
     (let mac = slice 1 6 p; now = w_time w; req = ipv69_addr_get (drop 7 p);
          signed = (12 + 96 + MAC1_LEN \<le> length p)
      in case (case lease_find c mac of
                 Some i \<Rightarrow> Some (True, upd_lease i (\<lambda>l. l\<lparr>le_expiry := lease_end c now\<rparr>) c)
               | None \<Rightarrow> lease_alloc c mac now) of
           None \<Rightarrow> None
         | Some (False, c) \<Rightarrow> Some (c, w)
         | Some (True, c) \<Rightarrow>
             (case lease_find c mac of
                None \<Rightarrow> None
              | Some i \<Rightarrow>
                  if (signed \<and> dhcp_in_range c (slice 12 32 p) req \<and> \<not> lease_addr_taken c req now) \<or>
                     req = le_addr (dh_leases c ! i) then
                    (let c = upd_lease i (\<lambda>l. l\<lparr>le_addr := req\<rparr>) c;
                         c = (if signed then upd_lease i (\<lambda>l. l\<lparr>le_key := slice 12 32 p\<rparr>) c else c)
                     in Some (c, snd (send_ctrl c (sign_msg N c ([IPV69_CTRL_DHCP_ACK] @ mac @ ipv69_addr_put req @
                                   ipv69_put_be32 (dh_lease_sec c))) mac w)))
                  else Some (c, w)))"

definition dhcp_release :: "dhcp_ctx \<Rightarrow> bytes \<Rightarrow> dhcp_ctx" where
  "dhcp_release c p =
     lease_release c (slice 1 6 p) (if 12 \<le> length p then ipv69_addr_get (drop 7 p) else 0)"

text \<open>A received payload: the filters, then the request.\<close>

definition dhcp_rx :: "nacl \<Rightarrow> dhcp_ctx \<Rightarrow> bytes \<Rightarrow> u64 \<Rightarrow> world \<Rightarrow> (dhcp_ctx \<times> world) option" where
  "dhcp_rx N c p frm_dst w =
     (let k = length p - MAC1_LEN
      in if length p < 7 + MAC1_LEN then Some (c, w)
         else if bget p 0 \<noteq> IPV69_CTRL_DHCP_DISCOVER \<and> bget p 0 \<noteq> IPV69_CTRL_DHCP_REQUEST \<and>
                 bget p 0 \<noteq> IPV69_CTRL_DHCP_RELEASE then Some (c, w)
         else if mac1_verify N (mac1_key N frm_dst) (take k p) (drop k p) \<noteq> 0 then Some (c, w)
         else case rate_allow_g (slice 1 6 p @ [0, 0]) 10 20 1 w of
                (False, w) \<Rightarrow> Some (c, w)
              | (True, w) \<Rightarrow>
                  if \<not> mac_allowed c (slice 1 6 p) then Some (c, w)
                  else case check_msg N c (take k p) (slice 1 6 p) w of
                         (False, c, w) \<Rightarrow> Some (c, w)
                       | (True, c, w) \<Rightarrow>
                           if bget p 0 = IPV69_CTRL_DHCP_DISCOVER then dhcp_discover N c p w
                           else if bget p 0 = IPV69_CTRL_DHCP_REQUEST then dhcp_request N c p w
                           else Some (dhcp_release c p, w))"

text \<open>One turn: the peer file when it changed on disk or a signal came, one frame.\<close>

definition dhcpd_turn :: "nacl \<Rightarrow> bool \<Rightarrow> rx_event \<Rightarrow> dhcp_ctx \<times> world \<Rightarrow> (dhcp_ctx \<times> world) option" where
  "dhcpd_turn N changed ev st =
     (case st of (c, w) \<Rightarrow>
        let c = (case dh_peer_file c of Some path \<Rightarrow> if changed then dhcp_peer_file_load N c path w else c | None \<Rightarrow> c);
            w = at_event ev w
        in case recv_ctrl ev of
             None \<Rightarrow> Some (c, w)
           | Some (p, d) \<Rightarrow> dhcp_rx N c p d w)"

section \<open>The command line\<close>

text \<open>\<^verbatim>\<open>sscanf\<close> with \<^verbatim>\<open>%hhx\<close> six times: hexadecimal numbers cut to 8 bits, colons between them, anything
  behind the last one. A bare \<open>0x\<close> is no number.\<close>

definition scan_hhx :: "string \<Rightarrow> (u8 \<times> string) option" where
  "scan_hhx s =
     (let t = snd (scan_sign (dropWhile c_isspace s))
      in if take 2 t \<in> {''0x'', ''0X''} \<and> skip_0x t = t then None
         else map_option (\<lambda>(v, e). (ucast v, e)) (strtoul 16 s))"

fun scan_mac :: "nat \<Rightarrow> string \<Rightarrow> bytes option" where
  "scan_mac 0 s = Some []"
| "scan_mac (Suc k) s =
     (case scan_hhx s of
        None \<Rightarrow> None
      | Some (b, e) \<Rightarrow>
          if k = 0 then Some [b]
          else if take 1 e \<noteq> '':'' then None
          else map_option (Cons b) (scan_mac k (tl e)))"

text \<open>The lease time: a positive decimal number and nothing else, cut to 32 bits.\<close>

definition lease_arg :: "string \<Rightarrow> u32 option" where
  "lease_arg s =
     (let (neg, t) = scan_sign (dropWhile c_isspace s); (n, e) = scan_digits 10 0 t
      in if t = [] \<or> e = t \<or> e \<noteq> [] \<or> neg \<or> n = 0 then None
         else Some (of_nat (min n (2 ^ 63 - 1))))"

definition dhcp_flag :: "string \<Rightarrow> bool" where
  "dhcp_flag s = (s \<in> {''--allow'', ''--peer'', ''--peer-file'', ''--key'', ''--learn''})"

text \<open>The second to the fourth word, unless they are flags.\<close>

definition dhcp_positional :: "string list \<Rightarrow> dhcp_ctx \<Rightarrow> dhcp_ctx option" where
  "dhcp_positional as c =
     (case (if 0 < length as \<and> \<not> dhcp_flag (as ! 0) then map_option (\<lambda>v. c\<lparr>dh_pool_start := v\<rparr>) (parse_ipv69_addr (as ! 0))
            else Some c) of
        None \<Rightarrow> None
      | Some c \<Rightarrow>
     (case (if 1 < length as \<and> \<not> dhcp_flag (as ! 1) then map_option (\<lambda>v. c\<lparr>dh_pool_end := v\<rparr>) (parse_ipv69_addr (as ! 1))
            else Some c) of
        None \<Rightarrow> None
      | Some c \<Rightarrow>
          Some (if 2 < length as \<and> \<not> dhcp_flag (as ! 2)
                then (case lease_arg (as ! 2) of None \<Rightarrow> c | Some v \<Rightarrow> c\<lparr>dh_lease_sec := v\<rparr>) else c)))"

fun dhcp_flags :: "nacl \<Rightarrow> world \<Rightarrow> string list \<Rightarrow> dhcp_ctx \<Rightarrow> dhcp_ctx option" where
  "dhcp_flags N w [] c = Some c"
| "dhcp_flags N w [a] c = Some (if a = ''--learn'' then c\<lparr>dh_learn := True\<rparr> else c)"
| "dhcp_flags N w (a # b # r) c =
     (if a = ''--allow'' then
        (if DHCP_PEERS \<le> length (dh_allow c) then None
         else case scan_mac 6 b of
                None \<Rightarrow> None
              | Some m \<Rightarrow> dhcp_flags N w r (c\<lparr>dh_allow := dh_allow c @ [m]\<rparr>))
      else if a = ''--peer'' then
        (if DHCP_PEERS \<le> length (dh_peers c) then None
         else case peer_entry_of N b of
                None \<Rightarrow> None
              | Some e \<Rightarrow> dhcp_flags N w r (c\<lparr>dh_peers := dh_peers c @ [e], dh_auth_enabled := True\<rparr>))
      else if a = ''--peer-file'' then
        dhcp_flags N w r (dhcp_peer_file_load N (c\<lparr>dh_peer_file := Some b, dh_auth_enabled := True\<rparr>) b w)
      else if a = ''--learn'' then dhcp_flags N w (b # r) (c\<lparr>dh_learn := True\<rparr>)
      else if a = ''--key'' then
        (case hex_decode b 32 of
           None \<Rightarrow> None
         | Some seed \<Rightarrow>
             if length seed \<noteq> 32 then None
             else dhcp_flags N w r (c\<lparr>dh_sk := seed @ ed25519_seed_to_pub N seed, dh_has_sk := True\<rparr>))
      else dhcp_flags N w (b # r) c)"

definition dhcp_args :: "nacl \<Rightarrow> world \<Rightarrow> string list \<Rightarrow> dhcp_ctx option" where
  "dhcp_args N w as = (case dhcp_positional as dhcp_ctx0 of None \<Rightarrow> None | Some c \<Rightarrow> dhcp_flags N w as c)"

text \<open>Without \<^verbatim>\<open>--key\<close> the server takes the key file, and goes on unsigned when that fails. The result is
  \<open>None\<close> when loading never returns.\<close>

definition dhcp_autokey :: "nacl \<Rightarrow> kenv \<Rightarrow> string option list \<Rightarrow> dhcp_ctx \<Rightarrow> world \<Rightarrow> (dhcp_ctx \<times> world) option" where
  "dhcp_autokey N E tty c w =
     (if dh_has_sk c then Some (c, w)
      else case keyring_paths E 256 512 512 of (dir, key, pub) \<Rightarrow>
        (case keyring_load_or_create N E key pub 128 tty w of
           None \<Rightarrow> None
         | Some (r, sk, _, w) \<Rightarrow> Some (if r = 0 then c\<lparr>dh_sk := sk, dh_has_sk := True\<rparr> else c, w)))"

end
