(* ===== verification/Dhcp_Table.thy ===== *)
theory Dhcp_Table
  imports Dhcpd
begin

text \<open>
  The lease table of the address server: lookups, allocation, and what every turn of the main
  loop keeps: a MAC has at most one lease, and while nothing expires an address has at most one
  holder. After an expiry two live leases can share an address.
\<close>

section \<open>Lookups\<close>

lemma lease_find_Some:
  "lease_find c m = Some i \<longleftrightarrow> i < 256 \<and> le_used (dh_leases c ! i) \<and> le_mac (dh_leases c ! i) = m \<and>
     (\<forall>j<i. \<not> (le_used (dh_leases c ! j) \<and> le_mac (dh_leases c ! j) = m))"
  by (simp add: lease_find_def find_upt_Some conj_assoc)

lemma lease_find_None: "lease_find c m = None \<longleftrightarrow> (\<forall>i<256. le_used (dh_leases c ! i) \<longrightarrow> le_mac (dh_leases c ! i) \<noteq> m)"
  by (simp add: lease_find_def find_upt_None)

lemma taken_iff:
  "lease_addr_taken c a now \<longleftrightarrow> (\<exists>i<256. le_used (dh_leases c ! i) \<and> le_addr (dh_leases c ! i) = a \<and> now < le_expiry (dh_leases c ! i))"
  by (auto simp: lease_addr_taken_def list_ex_iff)

lemma upd_lease_nth [simp]:
  "length (dh_leases c) = 256 \<Longrightarrow> i < 256 \<Longrightarrow>
   dh_leases (upd_lease i f c) ! j = (if j = i then f (dh_leases c ! i) else dh_leases c ! j)"
  by (simp add: upd_lease_def)

lemma upd_lease_same [simp]:
  "length (dh_leases (upd_lease i f c)) = length (dh_leases c)" "dh_peers (upd_lease i f c) = dh_peers c"
  "dh_lease_sec (upd_lease i f c) = dh_lease_sec c" "dh_pool_start (upd_lease i f c) = dh_pool_start c"
  "dh_pool_end (upd_lease i f c) = dh_pool_end c" "dh_sk (upd_lease i f c) = dh_sk c"
  "dh_has_sk (upd_lease i f c) = dh_has_sk c" "dh_mac (upd_lease i f c) = dh_mac c" "dh_allow (upd_lease i f c) = dh_allow c"
  "dh_auth_enabled (upd_lease i f c) = dh_auth_enabled c" "dh_learn (upd_lease i f c) = dh_learn c"
  "dh_peer_file (upd_lease i f c) = dh_peer_file c"
  by (simp_all add: upd_lease_def)

text \<open>What an allocation does: nothing, a renewal, or a new lease of an address nobody holds.\<close>

lemma lease_alloc_cases:
  assumes "lease_alloc c m now = Some (ok, c')"
  obtains (no) "\<not> ok" "c' = c"
  | (renew) i where "ok" "lease_find c m = Some i" "c' = upd_lease i (\<lambda>l. l\<lparr>le_expiry := lease_end c now\<rparr>) c"
  | (new) i a where "ok" "lease_find c m = None" "i < 256" "\<not> lease_addr_taken c a now"
      "\<not> le_used (dh_leases c ! i) \<or> le_expiry (dh_leases c ! i) \<le> now"
      "c' = upd_lease i (\<lambda>l. l\<lparr>le_used := True, le_mac := m, le_addr := a, le_expiry := lease_end c now\<rparr>) c"
      "a = lease_probe c now 64 (dh_pool_start c + mac_hash m mod (dh_pool_end c - dh_pool_start c + 1))"
proof (cases "lease_find c m")
  case (Some i)
  then show ?thesis using assms by (intro renew) (auto simp: lease_alloc_def)
next
  case None
  define span where "span = dh_pool_end c - dh_pool_start c + 1"
  define a where "a = lease_probe c now 64 (dh_pool_start c + mac_hash m mod span)"
  define slot where "slot = find (\<lambda>i. \<not> le_used (dh_leases c ! i) \<or> le_expiry (dh_leases c ! i) \<le> now) [0..<256]"
  have e: "(if span = 0 then None else if lease_addr_taken c a now then Some (False, c)
     else case slot of None \<Rightarrow> Some (False, c)
       | Some i \<Rightarrow> Some (True, upd_lease i (\<lambda>l. l\<lparr>le_used := True, le_mac := m, le_addr := a, le_expiry := lease_end c now\<rparr>) c))
     = Some (ok, c')"
    using assms unfolding lease_alloc_def Let_def span_def a_def slot_def None by (simp only: option.case)
  show ?thesis
  proof (cases slot)
    case None
    with e show ?thesis by (intro no) (simp_all split: if_splits)
  next
    case (Some i)
    then have i: "i < 256" "\<not> le_used (dh_leases c ! i) \<or> le_expiry (dh_leases c ! i) \<le> now"
      by (auto simp: slot_def find_upt_Some)
    show ?thesis
    proof (cases "lease_addr_taken c a now")
      case True
      with e show ?thesis by (intro no) (simp_all split: if_splits)
    next
      case False
      with e Some show ?thesis by (intro new [OF _ None i(1) False i(2) _ a_def [unfolded span_def]]) (simp_all split: if_splits)
    qed
  qed
qed

section \<open>One lease for each MAC\<close>

definition lease_table :: "dhcp_ctx \<Rightarrow> bool" where
  "lease_table c \<longleftrightarrow> length (dh_leases c) = 256 \<and> length (dh_peers c) \<le> 64 \<and>
     (\<forall>i<256. \<forall>j<256. le_used (dh_leases c ! i) \<and> le_used (dh_leases c ! j) \<and> i \<noteq> j \<longrightarrow>
        le_mac (dh_leases c ! i) \<noteq> le_mac (dh_leases c ! j))"

text \<open>While nothing expires before \<open>T\<close>, addresses are not shared either.\<close>

definition lease_map :: "int \<Rightarrow> dhcp_ctx \<Rightarrow> bool" where
  "lease_map T c \<longleftrightarrow> lease_table c \<and> (\<forall>i<256. le_used (dh_leases c ! i) \<longrightarrow> T \<le> le_expiry (dh_leases c ! i)) \<and>
     (\<forall>i<256. \<forall>j<256. le_used (dh_leases c ! i) \<and> le_used (dh_leases c ! j) \<and> i \<noteq> j \<longrightarrow>
        le_addr (dh_leases c ! i) \<noteq> le_addr (dh_leases c ! j))"

lemma lease_map_table: "lease_map T c \<Longrightarrow> lease_table c"
  by (simp add: lease_map_def)

lemma lease_table_upd:
  assumes "lease_table c" "i < 256" "le_used (f (dh_leases c ! i)) \<Longrightarrow> le_used (dh_leases c ! i)"
    "le_mac (f (dh_leases c ! i)) = le_mac (dh_leases c ! i)"
  shows "lease_table (upd_lease i f c)"
  using assms by (auto simp: lease_table_def)

lemma lease_map_upd:
  assumes "lease_map T c" "i < 256" "le_used (f (dh_leases c ! i)) \<Longrightarrow> le_used (dh_leases c ! i)"
    "le_mac (f (dh_leases c ! i)) = le_mac (dh_leases c ! i)"
    "le_used (dh_leases c ! i) \<Longrightarrow> T \<le> le_expiry (f (dh_leases c ! i))"
    "le_addr (f (dh_leases c ! i)) = le_addr (dh_leases c ! i) \<or>
      (\<forall>j<256. le_used (dh_leases c ! j) \<longrightarrow> le_addr (dh_leases c ! j) \<noteq> le_addr (f (dh_leases c ! i)))"
  shows "lease_map T (upd_lease i f c)"
  using assms lease_table_upd [of c i f] by (auto simp: lease_map_def lease_table_def)

lemma lease_map_key: "lease_map T c \<Longrightarrow> i < 256 \<Longrightarrow> lease_map T (upd_lease i (\<lambda>l. l\<lparr>le_key := k\<rparr>) c)"
  by (rule lease_map_upd) (simp_all add: lease_map_def)

lemma lease_map_free: "lease_map T c \<Longrightarrow> i < 256 \<Longrightarrow> lease_map T (upd_lease i (\<lambda>l. l\<lparr>le_used := False\<rparr>) c)"
  by (rule lease_map_upd) (simp_all add: lease_map_def)

lemma lease_alloc_table: "lease_table c \<Longrightarrow> lease_alloc c m now = Some (ok, c') \<Longrightarrow> lease_table c'"
proof (erule lease_alloc_cases)
  fix i assume "lease_table c" "lease_find c m = Some i" "c' = upd_lease i (\<lambda>l. l\<lparr>le_expiry := lease_end c now\<rparr>) c"
  then show "lease_table c'" by (auto simp: lease_find_Some intro: lease_table_upd)
next
  fix i a assume "lease_table c" "lease_find c m = None" "i < 256"
    "c' = upd_lease i (\<lambda>l. l\<lparr>le_used := True, le_mac := m, le_addr := a, le_expiry := lease_end c now\<rparr>) c"
  then show "lease_table c'" by (auto simp: lease_find_None lease_table_def)
qed simp

lemma lease_alloc_map:
  assumes "lease_map T c" "lease_alloc c m now = Some (ok, c')" "now < T" "T \<le> lease_end c now"
  shows "lease_map T c'"
  using assms(2)
proof (cases rule: lease_alloc_cases)
  case (renew i)
  then show ?thesis using assms by (auto simp: lease_find_Some intro: lease_map_upd)
next
  case (new i a)
  have "le_addr (dh_leases c ! j) \<noteq> a" if "j < 256" "le_used (dh_leases c ! j)" for j
    using that new(4) assms(1,3) unfolding taken_iff lease_map_def by force
  then show ?thesis
    using new(1-6) assms lease_alloc_table [OF lease_map_table [OF assms(1)] assms(2)] by (auto simp: lease_map_def lease_table_def)
qed (use assms in simp)

lemma lease_alloc_same:
  assumes "lease_alloc c m now = Some (ok, c')"
  shows "dh_lease_sec c' = dh_lease_sec c" "dh_peers c' = dh_peers c" "dh_sk c' = dh_sk c" "dh_has_sk c' = dh_has_sk c"
    "dh_mac c' = dh_mac c" "dh_pool_start c' = dh_pool_start c" "dh_pool_end c' = dh_pool_end c" "dh_allow c' = dh_allow c"
    "dh_auth_enabled c' = dh_auth_enabled c" "dh_learn c' = dh_learn c" "dh_peer_file c' = dh_peer_file c"
  using assms by (auto elim!: lease_alloc_cases)

text \<open>After a successful allocation the MAC has a lease.\<close>

lemma lease_alloc_found:
  assumes "lease_alloc c m now = Some (True, c')" "lease_table c"
  obtains i where "lease_find c' m = Some i" "i < 256" "le_expiry (dh_leases c' ! i) = lease_end c now"
proof -
  have len: "length (dh_leases c) = 256" using assms(2) by (simp add: lease_table_def)
  from assms(1) show ?thesis
  proof (cases rule: lease_alloc_cases)
    case (renew i)
    then have "i < 256" by (simp add: lease_find_Some)
    with renew len show ?thesis by (intro that [of i]) (auto simp: lease_find_Some)
  next
    case (new i a)
    with len show ?thesis by (intro that [of i]) (auto simp: lease_find_Some lease_find_None)
  qed simp
qed

section \<open>Every turn\<close>

lemma learn_peer_same:
  assumes "learn_peer N c pub w = (c', w')"
  shows "dh_leases c' = dh_leases c" "dh_lease_sec c' = dh_lease_sec c" "length (dh_peers c) \<le> 64 \<Longrightarrow> length (dh_peers c') \<le> 64"
    "w_time w' = w_time w"
  using assms by (auto simp: learn_peer_def file_append_def split: if_splits option.splits)

lemma check_msg_same:
  assumes "check_msg N c msg m w = (ok, c', w')"
  shows "dh_leases c' = dh_leases c" "dh_lease_sec c' = dh_lease_sec c" "length (dh_peers c) \<le> 64 \<Longrightarrow> length (dh_peers c') \<le> 64"
    "w_time w' = w_time w"
  using assms by (auto simp: check_msg_def Let_def dest: learn_peer_same split: if_splits prod.splits)

lemma check_msg_table: "lease_table c \<Longrightarrow> check_msg N c msg m w = (ok, c', w') \<Longrightarrow> lease_table c'"
  using check_msg_same [of N c msg m w ok c' w'] by (auto simp: lease_table_def)

lemma check_msg_map: "lease_map T c \<Longrightarrow> check_msg N c msg m w = (ok, c', w') \<Longrightarrow> lease_map T c'"
  using check_msg_same [of N c msg m w ok c' w'] by (auto simp: lease_map_def lease_table_def)

lemma discover_cases:
  assumes "dhcp_discover N c p w = Some (c', w')"
  obtains (no) "c' = c"
  | (offered) d i where "lease_alloc c (slice 1 6 p) (w_time w) = Some (True, d)" "lease_find d (slice 1 6 p) = Some i"
      "c' = d \<or> c' = upd_lease i (\<lambda>l. l\<lparr>le_key := slice 7 32 p\<rparr>) d"
  using assms unfolding dhcp_discover_def Let_def
  by (auto split: option.splits bool.splits if_splits elim: lease_alloc_cases)

text \<open>A REQUEST renews or allocates as a DISCOVER does.\<close>

lemma renew_or_alloc:
  "(case lease_find c m of Some i \<Rightarrow> Some (True, upd_lease i (\<lambda>l. l\<lparr>le_expiry := lease_end c now\<rparr>) c)
    | None \<Rightarrow> lease_alloc c m now) = lease_alloc c m now"
  by (simp add: lease_alloc_def split: option.split)

lemma request_alloc:
  "dhcp_request N c p w =
     (case lease_alloc c (slice 1 6 p) (w_time w) of
        None \<Rightarrow> None
      | Some (False, c) \<Rightarrow> Some (c, w)
      | Some (True, c) \<Rightarrow>
          (case lease_find c (slice 1 6 p) of
             None \<Rightarrow> None
           | Some i \<Rightarrow>
               let req = ipv69_addr_get (drop 7 p)
               in if (12 + 96 + MAC1_LEN \<le> length p \<and> dhcp_in_range c (slice 12 32 p) req \<and> \<not> lease_addr_taken c req (w_time w)) \<or>
                     req = le_addr (dh_leases c ! i) then
                    (let c = upd_lease i (\<lambda>l. l\<lparr>le_addr := req\<rparr>) c;
                         c = (if 12 + 96 + MAC1_LEN \<le> length p then upd_lease i (\<lambda>l. l\<lparr>le_key := slice 12 32 p\<rparr>) c else c)
                     in Some (c, snd (send_ctrl c (sign_msg N c ([IPV69_CTRL_DHCP_ACK] @ slice 1 6 p @ ipv69_addr_put req @
                                   ipv69_put_be32 (dh_lease_sec c))) (slice 1 6 p) w)))
                  else Some (c, w)))"
  unfolding dhcp_request_def Let_def renew_or_alloc ..

lemma request_cases:
  assumes "dhcp_request N c p w = Some (c', w')"
  obtains (no) "c' = c"
  | (alloced) d where "lease_alloc c (slice 1 6 p) (w_time w) = Some (True, d)" "c' = d"
  | (acked) d i a where "lease_alloc c (slice 1 6 p) (w_time w) = Some (True, d)" "lease_find d (slice 1 6 p) = Some i"
      "\<not> lease_addr_taken d a (w_time w) \<or> a = le_addr (dh_leases d ! i)"
      "c' = upd_lease i (\<lambda>l. l\<lparr>le_addr := a\<rparr>) d \<or>
       c' = upd_lease i (\<lambda>l. l\<lparr>le_key := slice 12 32 p\<rparr>) (upd_lease i (\<lambda>l. l\<lparr>le_addr := a\<rparr>) d)"
proof (cases "lease_alloc c (slice 1 6 p) (w_time w)")
  case None
  then show ?thesis using assms by (simp only: request_alloc option.case option.distinct)
next
  case (Some r)
  then obtain ok d where d: "lease_alloc c (slice 1 6 p) (w_time w) = Some (ok, d)" by (cases r) auto
  note e = assms [unfolded request_alloc d option.case prod.case]
  show ?thesis
  proof (cases ok)
    case False
    with e have "c' = d" by simp
    moreover from d False have "d = c" by (auto elim: lease_alloc_cases)
    ultimately show ?thesis by (intro no) simp
  next
    case True
    with d have d: "lease_alloc c (slice 1 6 p) (w_time w) = Some (True, d)" by simp
    show ?thesis
    proof (cases "lease_find d (slice 1 6 p)")
      case None
      with e True show ?thesis by simp
    next
      case (Some i)
      have "c' = d \<or> (\<not> lease_addr_taken d (ipv69_addr_get (drop 7 p)) (w_time w) \<or> ipv69_addr_get (drop 7 p) = le_addr (dh_leases d ! i)) \<and>
          (c' = upd_lease i (\<lambda>l. l\<lparr>le_addr := ipv69_addr_get (drop 7 p)\<rparr>) d \<or>
           c' = upd_lease i (\<lambda>l. l\<lparr>le_key := slice 12 32 p\<rparr>) (upd_lease i (\<lambda>l. l\<lparr>le_addr := ipv69_addr_get (drop 7 p)\<rparr>) d))"
        using e True Some by (simp add: Let_def split: if_splits) auto
      then show ?thesis using alloced [OF d] acked [OF d Some] by blast
    qed
  qed
qed

lemma lease_table_discover: "lease_table c \<Longrightarrow> dhcp_discover N c p w = Some (c', w') \<Longrightarrow> lease_table c'"
  by (erule discover_cases) (auto simp: lease_find_Some dest: lease_alloc_table intro!: lease_table_upd)

lemma lease_table_request: "lease_table c \<Longrightarrow> dhcp_request N c p w = Some (c', w') \<Longrightarrow> lease_table c'"
  by (erule request_cases) (auto simp: lease_find_Some dest: lease_alloc_table intro!: lease_table_upd)

lemma lease_table_release: "lease_table c \<Longrightarrow> lease_table (dhcp_release c p)"
  by (auto simp: dhcp_release_def lease_release_def lease_find_Some intro: lease_table_upd split: option.splits)

lemma lease_table_load: "lease_table c \<Longrightarrow> lease_table (dhcp_peer_file_load N c path w)"
proof -
  have "length ps \<le> 64 \<Longrightarrow> length (dhcp_peer_lines N ls ps) \<le> 64" for ls ps
    by (induction N ls ps rule: dhcp_peer_lines.induct) (auto split: option.splits)
  then show "lease_table c \<Longrightarrow> ?thesis" by (auto simp: dhcp_peer_file_load_def lease_table_def split: option.splits)
qed

text \<open>What a received payload can do.\<close>

lemma dhcp_rx_cases:
  assumes "dhcp_rx N c p d w = Some (c', w')"
  obtains (drop) "c' = c"
  | (checked) ok v e v' where "check_msg N c (take (length p - 16) p) (slice 1 6 p) v = (ok, e, v')" "w_time v' = w_time w"
      "c' = e \<and> w' = v' \<or> ok \<and> (dhcp_discover N e p v' = Some (c', w') \<or> dhcp_request N e p v' = Some (c', w') \<or> c' = dhcp_release e p)"
proof -
  obtain r v where r: "rate_allow_g (slice 1 6 p @ [0, 0]) 10 20 1 w = (r, v)" by (cases "rate_allow_g (slice 1 6 p @ [0, 0]) 10 20 1 w")
  then have v: "w_time v = w_time w" by (auto simp: rate_allow_g_def split: prod.splits)
  obtain ok e v' where e: "check_msg N c (take (length p - 16) p) (slice 1 6 p) v = (ok, e, v')"
    by (cases "check_msg N c (take (length p - 16) p) (slice 1 6 p) v") auto
  have v': "w_time v' = w_time w" using check_msg_same(4) [OF e] v by simp
  show ?thesis
    using assms unfolding dhcp_rx_def Let_def r prod.case bool.case e
    by (auto split: if_splits bool.splits intro: drop checked [OF e v'])
qed

lemma lease_table_rx:
  assumes "lease_table c" "dhcp_rx N c p d w = Some (c', w')"
  shows "lease_table c'"
  using assms(2)
proof (cases rule: dhcp_rx_cases)
  case (checked ok v e v')
  then show ?thesis
    using check_msg_table [OF assms(1) checked(1)] lease_table_discover lease_table_request lease_table_release by blast
qed (use assms in simp)

lemma lease_map_discover:
  assumes "lease_map T c" "dhcp_discover N c p w = Some (c', w')" "w_time w < T" "T \<le> lease_end c (w_time w)"
  shows "lease_map T c'"
  using assms(2)
proof (cases rule: discover_cases)
  case (offered d i)
  have "lease_map T d" by (rule lease_alloc_map [OF assms(1) offered(1) assms(3,4)])
  with offered(2,3) lease_map_key show ?thesis by (auto simp: lease_find_Some)
qed (use assms in simp)

lemma lease_map_request:
  assumes "lease_map T c" "dhcp_request N c p w = Some (c', w')" "w_time w < T" "T \<le> lease_end c (w_time w)"
  shows "lease_map T c'"
  using assms(2)
proof (cases rule: request_cases)
  case (alloced d)
  with assms lease_alloc_map show ?thesis by blast
next
  case (acked d i a)
  have d: "lease_map T d" by (rule lease_alloc_map [OF assms(1) acked(1) assms(3,4)])
  have "le_addr (dh_leases d ! j) \<noteq> a" if "\<not> lease_addr_taken d a (w_time w)" "j < 256" "le_used (dh_leases d ! j)" for j
    using that d assms(3) unfolding taken_iff lease_map_def by force
  then have "lease_map T (upd_lease i (\<lambda>l. l\<lparr>le_addr := a\<rparr>) d)"
    using acked(2,3) d by (intro lease_map_upd) (auto simp: lease_find_Some lease_map_def)
  with acked(2,4) lease_map_key show ?thesis by (auto simp: lease_find_Some)
qed (use assms in simp)

lemma lease_map_release: "lease_map T c \<Longrightarrow> lease_map T (dhcp_release c p)"
  using lease_map_free by (auto simp: dhcp_release_def lease_release_def lease_find_Some split: option.split)

lemma lease_map_rx:
  assumes "lease_map T c" "dhcp_rx N c p d w = Some (c', w')" "w_time w < T" "T \<le> lease_end c (w_time w)"
  shows "lease_map T c'"
  using assms(2)
proof (cases rule: dhcp_rx_cases)
  case (checked ok v e v')
  have "lease_map T e" "lease_end e t = lease_end c t" for t
    using check_msg_map [OF assms(1) checked(1)] check_msg_same(2) [OF checked(1)] by (simp_all add: lease_end_def)
  then show ?thesis
    using checked assms(3,4) lease_map_discover lease_map_request lease_map_release by metis
qed (use assms in simp)

text \<open>A run of the main loop at times that satisfy \<open>P\<close>; between turns the world moves.\<close>

inductive dhcpd_run :: "nacl \<Rightarrow> (int \<Rightarrow> bool) \<Rightarrow> dhcp_ctx \<Rightarrow> dhcp_ctx \<Rightarrow> bool" for N P c where
  Start: "dhcpd_run N P c c"
| Turn: "dhcpd_run N P c d \<Longrightarrow> P (ev_time ev) \<Longrightarrow> dhcpd_turn N changed ev (d, w) = Some (e, w') \<Longrightarrow> dhcpd_run N P c e"

text \<open>What one turn does: it may load the peer file, and take one payload.\<close>

lemma dhcpd_turn_cases:
  assumes "dhcpd_turn N changed ev (c, w) = Some (e, w')"
  obtains d where "d = c \<or> (\<exists>path. d = dhcp_peer_file_load N c path w)"
    "e = d \<or> (\<exists>p to v. dhcp_rx N d p to (at_event ev v) = Some (e, w'))"
  using assms unfolding dhcpd_turn_def Let_def
  by (auto split: option.splits if_splits)

lemma lease_table_turn: "lease_table c \<Longrightarrow> dhcpd_turn N changed ev (c, w) = Some (e, w') \<Longrightarrow> lease_table e"
  by (erule dhcpd_turn_cases) (metis lease_table_load lease_table_rx)

lemma lease_map_load: "lease_map T c \<Longrightarrow> lease_map T (dhcp_peer_file_load N c path w)"
  using lease_table_load [of c N path w] by (auto simp: lease_map_def dhcp_peer_file_load_def split: option.splits)

lemma at_event_time [simp]: "w_time (at_event ev w) = ev_time ev" "ev_time (rx f t ms) = t"
  by (simp_all add: at_event_def rx_def)

text \<open>The lease time never changes.\<close>

lemma discover_sec: "dhcp_discover N c p w = Some (c', w') \<Longrightarrow> dh_lease_sec c' = dh_lease_sec c"
  by (erule discover_cases) (auto dest: lease_alloc_same(1))

lemma request_sec: "dhcp_request N c p w = Some (c', w') \<Longrightarrow> dh_lease_sec c' = dh_lease_sec c"
  by (erule request_cases) (auto dest: lease_alloc_same(1))

lemma release_sec: "dh_lease_sec (dhcp_release c p) = dh_lease_sec c"
  by (auto simp: dhcp_release_def lease_release_def split: option.split)

lemma dhcp_rx_sec:
  assumes "dhcp_rx N c p d w = Some (c', w')"
  shows "dh_lease_sec c' = dh_lease_sec c"
  using assms
proof (cases rule: dhcp_rx_cases)
  case (checked ok v e v')
  then show ?thesis using check_msg_same(2) [OF checked(1)] discover_sec request_sec release_sec by metis
qed simp

lemma load_sec: "dh_lease_sec (dhcp_peer_file_load N c path w) = dh_lease_sec c"
  by (auto simp: dhcp_peer_file_load_def split: option.split)

lemma dhcpd_turn_sec: "dhcpd_turn N changed ev (c, w) = Some (e, w') \<Longrightarrow> dh_lease_sec e = dh_lease_sec c"
  by (erule dhcpd_turn_cases) (metis load_sec dhcp_rx_sec)

lemma lease_map_turn:
  assumes "lease_map T c" "dhcpd_turn N changed ev (c, w) = Some (e, w')" "ev_time ev < T" "T \<le> lease_end c (ev_time ev)"
  shows "lease_map T e"
  using assms(2)
proof (cases rule: dhcpd_turn_cases)
  case (1 d)
  have d: "lease_map T d" "lease_end d t = lease_end c t" for t
    using 1(1) assms(1) lease_map_load load_sec by (auto simp: lease_end_def)
  then show ?thesis using 1(2) assms(3,4) lease_map_rx [OF d(1)] by (auto simp: d(2))
qed

definition no_leases :: "dhcp_ctx \<Rightarrow> bool" where
  "no_leases c \<longleftrightarrow> length (dh_leases c) = 256 \<and> length (dh_peers c) \<le> 64 \<and> (\<forall>l\<in>set (dh_leases c). \<not> le_used l)"

lemma no_leases_map: "no_leases c \<Longrightarrow> lease_map T c"
  by (auto simp: no_leases_def lease_map_def lease_table_def)

text \<open>C15: A server that starts without leases, whatever frames arrive and however its peer file changes, has
  at most one lease for each MAC; and within one lease time of the start, whatever is requested,
  renewed and released, no address is given to two holders.\<close>

theorem dhcp_leases_exclusive:
  assumes "dhcpd_run N P c d" "no_leases c"
  shows "(\<forall>i<256. \<forall>j<256. le_used (dh_leases d ! i) \<and> le_used (dh_leases d ! j) \<and> i \<noteq> j \<longrightarrow>
      le_mac (dh_leases d ! i) \<noteq> le_mac (dh_leases d ! j)) \<and>
    ((\<forall>t. P t \<longrightarrow> t0 \<le> t \<and> t < t0 + uint (dh_lease_sec c)) \<longrightarrow>
      (\<forall>i<256. \<forall>j<256. le_used (dh_leases d ! i) \<and> le_used (dh_leases d ! j) \<and> i \<noteq> j \<longrightarrow>
        le_addr (dh_leases d ! i) \<noteq> le_addr (dh_leases d ! j)))"
proof -
  have "lease_table d"
    using assms(1) by induction (use assms(2) no_leases_map lease_map_table lease_table_turn in blast)+
  moreover have "lease_map (t0 + uint (dh_lease_sec c)) d \<and> dh_lease_sec d = dh_lease_sec c"
    if P: "\<And>t. P t \<Longrightarrow> t0 \<le> t \<and> t < t0 + uint (dh_lease_sec c)"
    using assms(1)
  proof induction
    case (Turn d ev changed w e w')
    then show ?case using P [of "ev_time ev"] lease_map_turn [of _ d] dhcpd_turn_sec by (auto simp: lease_end_def)
  qed (simp add: assms(2) no_leases_map)
  ultimately show ?thesis by (auto simp: lease_table_def lease_map_def)
qed

end
