(* ===== verification/Dhcp_Limits.thy ===== *)
theory Dhcp_Limits
  imports Dhcp_Table Pppoe_Dial
begin

text \<open>
  When the address server finds an address, and where it gives away what it should not: leases
  that are shared after an expiry, a request in the name of another key, and command lines that
  are read as something else.
\<close>

section \<open>Finding an address\<close>

text \<open>The address \<open>k\<close> steps behind the first one of the pool, counted round.\<close>

definition pool_at :: "dhcp_ctx \<Rightarrow> nat \<Rightarrow> u64" where
  "pool_at c k = dh_pool_start c + of_nat (k mod (unat (dh_pool_end c) - unat (dh_pool_start c) + 1))"

definition pool_ok :: "dhcp_ctx \<Rightarrow> bool" where
  "pool_ok c \<longleftrightarrow> dh_pool_start c \<le> dh_pool_end c \<and> unat (dh_pool_end c) < 2 ^ 64 - 1"

abbreviation (input) pool_size :: "dhcp_ctx \<Rightarrow> nat" where
  "pool_size c \<equiv> unat (dh_pool_end c) - unat (dh_pool_start c) + 1"

lemma pool_nat: "pool_ok c \<Longrightarrow> unat (dh_pool_start c) \<le> unat (dh_pool_end c) \<and> unat (dh_pool_end c) + 1 < 2 ^ 64"
  by (simp add: pool_ok_def word_le_nat_alt)

lemma unat_pool_at:
  assumes "pool_ok c"
  shows "unat (pool_at c k) = unat (dh_pool_start c) + k mod pool_size c"
proof -
  define r where "r = k mod pool_size c"
  have "r < pool_size c" by (simp add: r_def)
  then have r: "unat (dh_pool_start c) + r < 2 ^ 64" using pool_nat [OF assms] by linarith
  then have "unat (of_nat r :: u64) = r" by (intro unat_of_nat_small) simp
  then show ?thesis using r unfolding pool_at_def r_def [symmetric] by (simp add: unat_word_ariths)
qed

lemma pool_next:
  assumes "pool_ok c"
  shows "(if dh_pool_end c < pool_at c k + 1 then dh_pool_start c else pool_at c k + 1) = pool_at c (Suc k)"
proof -
  define n where "n = pool_size c"
  have n: "0 < n" "unat (dh_pool_end c) + 1 = unat (dh_pool_start c) + n" using pool_nat [OF assms] by (auto simp: n_def)
  have u: "unat (pool_at c j) = unat (dh_pool_start c) + j mod n" for j using unat_pool_at [OF assms] by (simp add: n_def)
  have "k mod n < n" using n(1) by simp
  then have "unat (pool_at c k) + 1 < 2 ^ 64" using u [of k] n(2) pool_nat [OF assms] by linarith
  then have s: "unat (pool_at c k + 1) = unat (dh_pool_start c) + k mod n + 1" using u [of k] by (simp add: unat_word_ariths)
  have c: "dh_pool_end c < pool_at c k + 1 \<longleftrightarrow> Suc (k mod n) = n"
    unfolding word_less_nat_alt s using n \<open>k mod n < n\<close> by linarith
  show ?thesis
    by (rule word_unat_eq_iff [THEN iffD2]) (use c u [of "Suc k"] s in \<open>simp add: mod_Suc\<close>)
qed

lemma pool_at_inj:
  assumes "pool_ok c" "m \<le> 64" "m' \<le> 64" "65 \<le> pool_size c" "pool_at c (k + m) = pool_at c (k + m')"
  shows "m = m'"
proof -
  have "(k + m) mod pool_size c = (k + m') mod pool_size c"
    using arg_cong [OF assms(5), of unat] unat_pool_at [OF assms(1)] by simp
  then have "pool_size c dvd m' - m" "pool_size c dvd m - m'"
    by (metis add_diff_cancel_left diff_is_0_eq dvd_0_right mod_eq_dvd_iff_nat nat_add_left_cancel_le nat_le_linear)+
  then have "m' - m = 0" "m - m' = 0" using assms(2-4) by (auto dest: dvd_imp_le)
  then show ?thesis by simp
qed

text \<open>The probe gives up only when all the addresses it saw are taken.\<close>

lemma lease_probe_taken:
  assumes "pool_ok c" "lease_addr_taken c (lease_probe c now n (pool_at c k)) now"
  shows "\<forall>m\<le>n. lease_addr_taken c (pool_at c (k + m)) now"
  using assms(2)
proof (induction n arbitrary: k)
  case (Suc n)
  have t: "lease_addr_taken c (pool_at c k) now"
    using Suc.prems by (cases "lease_addr_taken c (pool_at c k) now") auto
  then have "lease_addr_taken c (lease_probe c now n (pool_at c (Suc k))) now"
    using Suc.prems pool_next [OF assms(1), of k] by simp
  then have "\<forall>m\<le>n. lease_addr_taken c (pool_at c (Suc k + m)) now" by (rule Suc.IH)
  then have "lease_addr_taken c (pool_at c (k + m)) now" if "m \<le> Suc n" for m
    using t that by (cases m) auto
  then show ?case by blast
qed simp

text \<open>The first address tried is one of the pool, found by the hash of the MAC.\<close>

lemma probe_start:
  assumes "pool_ok c"
  shows "dh_pool_end c - dh_pool_start c + 1 \<noteq> 0"
    "dh_pool_start c + mac_hash m mod (dh_pool_end c - dh_pool_start c + 1) = pool_at c (unat (mac_hash m))"
proof -
  have u: "unat (dh_pool_end c - dh_pool_start c + 1) = pool_size c"
  proof -
    have d: "unat (dh_pool_end c - dh_pool_start c) = unat (dh_pool_end c) - unat (dh_pool_start c)"
      using assms by (simp add: pool_ok_def unat_sub)
    have "pool_size c < 2 ^ 64" using pool_nat [OF assms] by linarith
    then have "pool_size c mod 2 ^ 64 = pool_size c" by (rule mod_less)
    then show ?thesis by (simp add: unat_word_ariths d)
  qed
  then show "dh_pool_end c - dh_pool_start c + 1 \<noteq> 0" by (metis Suc_eq_plus1 nat.distinct(1) unat_0)
  have "mac_hash m mod (dh_pool_end c - dh_pool_start c + 1) = of_nat (unat (mac_hash m) mod pool_size c)"
  proof (rule word_unat_eq_iff [THEN iffD2])
    have "unat (mac_hash m) mod pool_size c < pool_size c" by simp
    then have "unat (mac_hash m) mod pool_size c < 2 ^ 64" using pool_nat [OF assms] by linarith
    then show "unat (mac_hash m mod (dh_pool_end c - dh_pool_start c + 1)) = unat (of_nat (unat (mac_hash m) mod pool_size c) :: u64)"
      by (simp only: unat_mod u) (rule unat_of_nat_small [symmetric], simp)
  qed
  then show "dh_pool_start c + mac_hash m mod (dh_pool_end c - dh_pool_start c + 1) = pool_at c (unat (mac_hash m))"
    by (simp only: pool_at_def)
qed

definition live_leases :: "dhcp_ctx \<Rightarrow> int \<Rightarrow> nat set" where
  "live_leases c now = {i. i < 256 \<and> le_used (dh_leases c ! i) \<and> now < le_expiry (dh_leases c ! i)}"

lemma live_leases_finite: "finite (live_leases c now)"
  by (simp add: live_leases_def)

text \<open>With at most 64 live leases the probe ends at a free address.\<close>

lemma probe_free:
  assumes "pool_ok c" "65 \<le> pool_size c" "card (live_leases c now) \<le> 64"
  shows "\<not> lease_addr_taken c (lease_probe c now 64 (pool_at c k)) now"
proof
  assume "lease_addr_taken c (lease_probe c now 64 (pool_at c k)) now"
  from lease_probe_taken [OF assms(1) this]
  have "(\<lambda>m. pool_at c (k + m)) ` {..64} \<subseteq> (\<lambda>i. le_addr (dh_leases c ! i)) ` live_leases c now"
    by (force simp: taken_iff live_leases_def)
  then have "card ((\<lambda>m. pool_at c (k + m)) ` {..64}) \<le> card (live_leases c now)"
    by (meson card_image_le card_mono finite_imageI live_leases_finite order_trans)
  moreover have "inj_on (\<lambda>m. pool_at c (k + m)) {..64}"
    using pool_at_inj [OF assms(1) _ _ assms(2)] by (auto intro: inj_onI)
  ultimately have "card {..64 :: nat} \<le> 64" using assms(3) by (simp only: card_image)
  then show False by simp
qed

lemma probe_in_pool: "pool_ok c \<Longrightarrow> \<exists>j. lease_probe c now n (pool_at c k) = pool_at c j"
proof (induction n arbitrary: k)
  case (Suc n)
  then show ?case using pool_next [of c k] by (cases "lease_addr_taken c (pool_at c k) now") auto
qed auto

lemma pool_at_bounds: "pool_ok c \<Longrightarrow> dh_pool_start c \<le> pool_at c k \<and> pool_at c k \<le> dh_pool_end c"
proof -
  assume p: "pool_ok c"
  have "k mod pool_size c < pool_size c" by simp
  then show ?thesis using unat_pool_at [OF p, of k] pool_nat [OF p] by (simp only: word_le_nat_alt) linarith
qed

lemma slot_free:
  assumes "card (live_leases c now) \<le> 64"
  shows "\<exists>i<256. \<not> le_used (dh_leases c ! i) \<or> le_expiry (dh_leases c ! i) \<le> now"
proof (rule ccontr)
  assume "\<not> ?thesis"
  then have "live_leases c now = {..<256}" by (auto simp: live_leases_def not_le)
  with assms show False by simp
qed

lemma alloc_free:
  assumes "pool_ok c" "65 \<le> pool_size c" "card (live_leases c now) \<le> 64"
  obtains c' where "lease_alloc c m now = Some (True, c')"
proof (cases "lease_find c m")
  case (Some i)
  then show ?thesis by (intro that) (simp add: lease_alloc_def)
next
  case None
  obtain i where "find (\<lambda>i. \<not> le_used (dh_leases c ! i) \<or> le_expiry (dh_leases c ! i) \<le> now) [0..<256] = Some i"
    using slot_free [OF assms(3)] by (metis (no_types, lifting) find_upt_None not_None_eq)
  then show ?thesis
    using None probe_start [OF assms(1)] probe_free [OF assms]
    by (intro that) (simp add: lease_alloc_def Let_def)
qed

section \<open>The answers\<close>

definition dhcp_frame :: "dhcp_ctx \<Rightarrow> bytes \<Rightarrow> bytes \<Rightarrow> bytes" where
  "dhcp_frame c m pl = build_frame m (dh_mac c) IPV69_SERVER_ADDR IPV69_BCAST_ADDR IPV69_NEXT_CONTROL 64 0 0 pl"

definition offer_msg :: "nacl \<Rightarrow> dhcp_ctx \<Rightarrow> u8 \<Rightarrow> bytes \<Rightarrow> u64 \<Rightarrow> bytes" where
  "offer_msg N c ty m a = sign_msg N c ([ty] @ m @ ipv69_addr_put a @ ipv69_put_be32 (dh_lease_sec c))"

lemma send_ctrl_ok:
  "tx_ok w \<Longrightarrow> send_ctrl c pl m w = (0, w\<lparr>w_txn := Suc (w_txn w), w_out := w_out w @ [L2 m (dhcp_frame c m pl)]\<rparr>)"
  by (simp add: send_ctrl_def l2_send_def transmit_ok dhcp_frame_def)

lemma lease_find_upd:
  assumes "length (dh_leases c) = 256" "i < 256" "\<And>l. le_used (f l) = le_used l" "\<And>l. le_mac (f l) = le_mac l"
  shows "lease_find (upd_lease i f c) m = lease_find c m"
  unfolding lease_find_def by (rule find_cong) (use assms in auto)

text \<open>What a client sees of a DISCOVER that gets a lease.\<close>

definition holds :: "dhcp_ctx \<Rightarrow> nat \<Rightarrow> bytes \<Rightarrow> u64 \<Rightarrow> int \<Rightarrow> bool" where
  "holds c i m a e \<longleftrightarrow> lease_find c m = Some i \<and> le_addr (dh_leases c ! i) = a \<and> le_expiry (dh_leases c ! i) = e"

definition same_server :: "dhcp_ctx \<Rightarrow> dhcp_ctx \<Rightarrow> bool" where
  "same_server c d \<longleftrightarrow> dh_lease_sec d = dh_lease_sec c \<and> dh_has_sk d = dh_has_sk c \<and> dh_sk d = dh_sk c \<and> dh_mac d = dh_mac c \<and>
     dh_allow d = dh_allow c \<and> dh_auth_enabled d = dh_auth_enabled c \<and> dh_learn d = dh_learn c \<and> dh_peer_file d = dh_peer_file c \<and>
     set (dh_peers c) \<subseteq> set (dh_peers d)"

lemma holds_key:
  assumes "holds c i m a e" "lease_table c"
  shows "holds (upd_lease i (\<lambda>l. l\<lparr>le_key := k\<rparr>) c) i m a e" "lease_table (upd_lease i (\<lambda>l. l\<lparr>le_key := k\<rparr>) c)"
proof -
  have i: "i < 256" "length (dh_leases c) = 256" using assms by (simp_all add: holds_def lease_find_Some lease_table_def)
  show "holds (upd_lease i (\<lambda>l. l\<lparr>le_key := k\<rparr>) c) i m a e"
    using assms(1) i by (simp add: holds_def lease_find_upd)
  show "lease_table (upd_lease i (\<lambda>l. l\<lparr>le_key := k\<rparr>) c)"
    by (rule lease_table_upd [OF assms(2) i(1)]) simp_all
qed

lemma discover_answered:
  assumes al: "lease_alloc c m (w_time w) = Some (True, d)" and c: "lease_table c" and p: "slice 1 6 p = m" and tx: "tx_ok w"
    and h: "holds d i m a e"
    and w': "w' = w\<lparr>w_txn := Suc (w_txn w), w_out := w_out w @ [L2 m (dhcp_frame c m (offer_msg N c IPV69_CTRL_DHCP_OFFER m a))]\<rparr>"
  shows "\<exists>c'. dhcp_discover N c p w = Some (c', w') \<and> holds c' i m a e \<and> lease_table c' \<and> same_server c c' \<and>
    (c' = d \<or> c' = upd_lease i (\<lambda>l. l\<lparr>le_key := slice 7 32 p\<rparr>) d)"
proof -
  have d: "lease_table d" by (rule lease_alloc_table [OF c al])
  have i: "lease_find d m = Some i" "le_addr (dh_leases d ! i) = a" using h by (simp_all add: holds_def)
  define c' where "c' = (if 7 + 96 + 16 \<le> length p then upd_lease i (\<lambda>l. l\<lparr>le_key := slice 7 32 p\<rparr>) d else d)"
  note same = lease_alloc_same [OF al]
  have s: "same_server c c'" using same by (simp add: same_server_def c'_def)
  have "dhcp_discover N c p w = Some (c', snd (send_ctrl c' (offer_msg N c' IPV69_CTRL_DHCP_OFFER m a) m w))"
    unfolding dhcp_discover_def Let_def p al option.case prod.case bool.case i by (simp add: c'_def offer_msg_def)
  moreover have "offer_msg N c' IPV69_CTRL_DHCP_OFFER m a = offer_msg N c IPV69_CTRL_DHCP_OFFER m a"
    "dhcp_frame c' m pl = dhcp_frame c m pl" for pl
    using s by (simp_all add: same_server_def offer_msg_def sign_msg_def dhcp_frame_def)
  ultimately have "dhcp_discover N c p w = Some (c', w')" by (simp only: send_ctrl_ok [OF tx] w' snd_conv)
  then show ?thesis using s h d holds_key [OF h d] by (auto simp: c'_def)
qed

lemma discover_grants:
  assumes "pool_ok c" "65 \<le> pool_size c" "card (live_leases c (w_time w)) \<le> 64"
    and "lease_table c" "tx_ok w" and m: "slice 1 6 p = m"
  obtains c' i a where
    "dhcp_discover N c p w = Some (c', w\<lparr>w_txn := Suc (w_txn w),
       w_out := w_out w @ [L2 m (dhcp_frame c m (offer_msg N c IPV69_CTRL_DHCP_OFFER m a))]\<rparr>)"
    "i < 256" "holds c' i m a (lease_end c (w_time w))" "lease_table c'" "same_server c c'"
    "lease_find c m = None \<Longrightarrow> \<not> lease_addr_taken c a (w_time w) \<and> dh_pool_start c \<le> a \<and> a \<le> dh_pool_end c"
proof -
  obtain d where d: "lease_alloc c m (w_time w) = Some (True, d)" by (rule alloc_free [OF assms(1-3)])
  obtain i where i: "lease_find d m = Some i" "i < 256" "le_expiry (dh_leases d ! i) = lease_end c (w_time w)"
    by (rule lease_alloc_found [OF d assms(4)])
  define a where "a = le_addr (dh_leases d ! i)"
  have h: "holds d i m a (lease_end c (w_time w))" using i by (simp add: holds_def a_def)
  have new: "\<not> lease_addr_taken c a (w_time w) \<and> dh_pool_start c \<le> a \<and> a \<le> dh_pool_end c" if "lease_find c m = None"
    using d
  proof (cases rule: lease_alloc_cases)
    case (new j b)
    have len: "length (dh_leases c) = 256" using assms(4) by (simp add: lease_table_def)
    have "lease_find d m = Some j" using new(2,3) len unfolding new(6) by (auto simp: lease_find_Some lease_find_None)
    with i(1) have "j = i" by simp
    then have "le_addr (dh_leases d ! i) = b" using new(3) len by (simp add: new(6))
    moreover obtain k where "b = pool_at c k"
      using new(7) probe_in_pool [OF assms(1)] unfolding probe_start(2) [OF assms(1)] by metis
    ultimately show ?thesis using new(4) pool_at_bounds [OF assms(1), of k] by (simp add: a_def)
  next
    case (renew j)
    with that show ?thesis by simp
  qed simp
  from discover_answered [OF d assms(4) m assms(5) h refl, of N] that i(2) new
  show ?thesis by (elim exE conjE) (rule that)
qed

text \<open>As long as at most 64 leases are live, a pool of at least 65 addresses always has one: every DISCOVER is
  answered by an OFFER of an address of which the MAC is the holder for the full lease time,
  and a MAC without a lease gets one of the pool that no live lease holds. (The code tries 65
  addresses and gives up; the bound is that number.)\<close>

theorem dhcp_discover_succeeds:
  assumes "pool_ok c" "65 \<le> unat (dh_pool_end c) - unat (dh_pool_start c) + 1" "card (live_leases c (w_time w)) \<le> 64"
    and "lease_table c" "tx_ok w"
  shows "\<exists>c' w' i a. dhcp_discover N c p w = Some (c', w') \<and> i < 256 \<and> holds c' i (slice 1 6 p) a (lease_end c (w_time w)) \<and>
    w_out w' = w_out w @ [L2 (slice 1 6 p) (dhcp_frame c (slice 1 6 p) (offer_msg N c IPV69_CTRL_DHCP_OFFER (slice 1 6 p) a))] \<and>
    (lease_find c (slice 1 6 p) = None \<longrightarrow> \<not> lease_addr_taken c a (w_time w) \<and> dh_pool_start c \<le> a \<and> a \<le> dh_pool_end c)"
proof -
  define m where "m = slice 1 6 p"
  obtain c' i a where c': "dhcp_discover N c p w = Some (c', w\<lparr>w_txn := Suc (w_txn w),
       w_out := w_out w @ [L2 m (dhcp_frame c m (offer_msg N c IPV69_CTRL_DHCP_OFFER m a))]\<rparr>)"
    "i < 256" "holds c' i m a (lease_end c (w_time w))"
    "lease_find c m = None \<Longrightarrow> \<not> lease_addr_taken c a (w_time w) \<and> dh_pool_start c \<le> a \<and> a \<le> dh_pool_end c"
    using discover_grants [OF assms m_def [symmetric], of N] by metis
  then show ?thesis unfolding m_def [symmetric]
    by (intro exI [of _ c'] exI [of _ "w\<lparr>w_txn := Suc (w_txn w), w_out := _\<rparr>"] exI [of _ i] exI [of _ a]) simp
qed

lemma empty_ctx0: "lease_table dhcp_ctx0" "pool_ok dhcp_ctx0" "live_leases dhcp_ctx0 t = {}" "lease_find dhcp_ctx0 m = None"
  by (auto simp: lease_table_def pool_ok_def live_leases_def dhcp_ctx0_def dhcp_lease0_def lease_find_None)

lemma tx_world0: "tx_ok world0"
  by (simp add: tx_ok_def world0_def)

theorem dhcp_discover_succeeds_witness:
  "\<exists>c' w' i a. dhcp_discover toy_nacl dhcp_ctx0 [7, 2, 0, 0, 0, 0, 9] world0 = Some (c', w') \<and> holds c' i [2, 0, 0, 0, 0, 9] a 3600"
proof -
  have n: "65 \<le> unat (dh_pool_end dhcp_ctx0) - unat (dh_pool_start dhcp_ctx0) + 1" by (simp add: dhcp_ctx0_def)
  have c: "card (live_leases dhcp_ctx0 (w_time world0)) \<le> 64" by (simp add: empty_ctx0)
  have "slice 1 6 [7, 2, 0, 0, 0, 0, 9] = [2, 0, 0, 0, 0, 9]" by (simp add: slice_eq_take_drop)
  moreover have "lease_end dhcp_ctx0 (w_time world0) = 3600" by (simp add: lease_end_def dhcp_ctx0_def world0_def)
  ultimately show ?thesis
    using dhcp_discover_succeeds [OF empty_ctx0(2) n c empty_ctx0(1) tx_world0, of toy_nacl "[7, 2, 0, 0, 0, 0, 9]"] by metis
qed

section \<open>Shared leases\<close>

lemma find_upt_le: "P i \<Longrightarrow> i < n \<Longrightarrow> \<exists>k\<le>i. find P [0..<n] = Some k"
  by (cases "find P [0..<n]") (auto simp: find_upt_Some find_upt_None not_less [symmetric])

lemma alloc_new:
  assumes "lease_find c m = None" "pool_ok c" "\<not> lease_addr_taken c (pool_at c (unat (mac_hash m))) now"
    and "find (\<lambda>i. \<not> le_used (dh_leases c ! i) \<or> le_expiry (dh_leases c ! i) \<le> now) [0..<256] = Some k"
  shows "lease_alloc c m now = Some (True, upd_lease k
    (\<lambda>l. l\<lparr>le_used := True, le_mac := m, le_addr := pool_at c (unat (mac_hash m)), le_expiry := lease_end c now\<rparr>) c)"
proof -
  have "lease_probe c now 64 (pool_at c (unat (mac_hash m))) = pool_at c (unat (mac_hash m))"
    using assms(3) by (simp add: eval_nat_numeral(2,3))
  then show ?thesis using assms by (simp add: lease_alloc_def Let_def probe_start)
qed

lemma alloc_renew: "lease_find c m = Some j \<Longrightarrow> lease_alloc c m now = Some (True, upd_lease j (\<lambda>l. l\<lparr>le_expiry := lease_end c now\<rparr>) c)"
  by (simp add: lease_alloc_def)

lemma holds_other:
  assumes "holds c k m a e" "lease_table c" "j < 256" "j \<noteq> k" "\<And>l. le_used (f l) = le_used l" "\<And>l. le_mac (f l) = le_mac l"
  shows "holds (upd_lease j f c) k m a e"
  using assms by (simp add: holds_def lease_find_upd lease_table_def)

text \<open>An address can get two live holders. The lease of \<open>m1\<close> has expired and its slot is not the first
  one that is free, so \<open>m2\<close>, whose hash leads to the same address, gets that address in another
  slot; when \<open>m1\<close> asks again, its old lease is renewed without a look at the address.\<close>

theorem expired_lease_shared:
  assumes c: "lease_table c" "pool_ok c" "tx_ok w" "0 < uint (dh_lease_sec c)"
    and old: "holds c j m1 a e" "e \<le> w_time w"
    and slot: "i < j" "\<not> le_used (dh_leases c ! i) \<or> le_expiry (dh_leases c ! i) \<le> w_time w"
    and new: "lease_find c m2 = None" "pool_at c (unat (mac_hash m2)) = a" "\<not> lease_addr_taken c a (w_time w)"
    and p: "slice 1 6 p1 = m1" "slice 1 6 p2 = m2"
  shows "\<exists>c1 w1 c2 w2 k x. dhcp_discover N c p2 w = Some (c1, w1) \<and> dhcp_discover N c1 p1 w1 = Some (c2, w2) \<and>
    m1 \<noteq> m2 \<and> k \<noteq> j \<and> holds c2 k m2 a x \<and> holds c2 j m1 a x \<and> w_time w2 < x"
proof -
  let ?t = "w_time w" and ?x = "lease_end c (w_time w)"
  have len: "length (dh_leases c) = 256" and j: "j < 256" "lease_find c m1 = Some j" "le_addr (dh_leases c ! j) = a"
    using c(1) old by (simp_all add: lease_table_def holds_def lease_find_Some)
  obtain k where k: "find (\<lambda>i. \<not> le_used (dh_leases c ! i) \<or> le_expiry (dh_leases c ! i) \<le> ?t) [0..<256] = Some k" "k \<le> i"
    using find_upt_le [of "\<lambda>i. \<not> le_used (dh_leases c ! i) \<or> le_expiry (dh_leases c ! i) \<le> ?t" i 256] slot j(1) by auto
  then have kj: "k < j" "k < 256" using slot(1) j(1) by simp_all
  have m: "m1 \<noteq> m2" using j(2) new(1) by auto
  define d where "d = upd_lease k (\<lambda>l. l\<lparr>le_used := True, le_mac := m2, le_addr := a, le_expiry := ?x\<rparr>) c"
  have al: "lease_alloc c m2 ?t = Some (True, d)"
    using alloc_new [OF new(1) c(2) _ k(1)] new(2,3) by (simp add: d_def)
  have d: "lease_table d" by (rule lease_alloc_table [OF c(1) al])
  have hd: "holds d k m2 a ?x"
  proof -
    have "lease_find d m2 = Some k" using new(1) kj len unfolding d_def by (auto simp: lease_find_Some lease_find_None)
    then show ?thesis using kj len by (simp add: holds_def d_def)
  qed
  have fj: "lease_find d m1 = Some j"
    using j kj len m unfolding d_def by (auto simp: lease_find_Some)
  define w1 where "w1 = w\<lparr>w_txn := Suc (w_txn w), w_out := w_out w @ [L2 m2 (dhcp_frame c m2 (offer_msg N c IPV69_CTRL_DHCP_OFFER m2 a))]\<rparr>"
  from discover_answered [OF al c(1) p(2) c(3) hd w1_def]
  obtain c1 where c1: "dhcp_discover N c p2 w = Some (c1, w1)" "holds c1 k m2 a ?x" "lease_table c1" "same_server c c1"
      "c1 = d \<or> c1 = upd_lease k (\<lambda>l. l\<lparr>le_key := slice 7 32 p2\<rparr>) d"
    by (elim exE conjE) (rule that)
  have w1: "w_time w1 = ?t" "tx_ok w1" using c(3) by (simp_all add: w1_def tx_ok_def)
  have f1: "lease_find c1 m1 = Some j" "le_addr (dh_leases c1 ! j) = a"
    using c1(5) fj kj len j(3) d by (auto simp: lease_find_upd lease_table_def d_def)
  define d2 where "d2 = upd_lease j (\<lambda>l. l\<lparr>le_expiry := ?x\<rparr>) c1"
  have x: "lease_end c1 ?t = ?x" using c1(4) by (simp add: same_server_def lease_end_def)
  then have al2: "lease_alloc c1 m1 (w_time w1) = Some (True, d2)" using alloc_renew [OF f1(1)] by (simp add: d2_def w1)
  have len1: "length (dh_leases c1) = 256" using c1(3) by (simp add: lease_table_def)
  have d2: "lease_table d2" by (rule lease_alloc_table [OF c1(3) al2])
  have h2: "holds d2 j m1 a ?x" "holds d2 k m2 a ?x"
    using f1 len1 j(1) c1(2,3) kj by (simp_all add: holds_def d2_def lease_find_upd)
  define w2 where "w2 = w1\<lparr>w_txn := Suc (w_txn w1), w_out := w_out w1 @ [L2 m1 (dhcp_frame c1 m1 (offer_msg N c1 IPV69_CTRL_DHCP_OFFER m1 a))]\<rparr>"
  from discover_answered [OF al2 c1(3) p(1) w1(2) h2(1) w2_def]
  obtain c2 where c2: "dhcp_discover N c1 p1 w1 = Some (c2, w2)" "holds c2 j m1 a ?x"
      "c2 = d2 \<or> c2 = upd_lease j (\<lambda>l. l\<lparr>le_key := slice 7 32 p1\<rparr>) d2"
    by (elim exE conjE) (rule that)
  have "holds c2 k m2 a ?x" using c2(3) h2(2) holds_other [OF h2(2) d2 j(1)] kj by auto
  moreover have "w_time w2 < ?x" using c(4) w1(1) by (simp add: w2_def lease_end_def)
  ultimately show ?thesis
    using c1(1) c2(1,2) m kj(1) by (intro exI [of _ c1] exI [of _ w1] exI [of _ c2] exI [of _ w2] exI [of _ k] exI [of _ ?x]) simp
qed

text \<open>Two expired leases; the MAC 02:00:00:00:00:09 comes where the second one was.\<close>

definition toy_shared :: dhcp_ctx where
  "toy_shared = dhcp_ctx0\<lparr>dh_leases :=
     [dhcp_lease0\<lparr>le_used := True, le_mac := [2, 0, 0, 0, 0, 7], le_addr := 0x20\<rparr>,
      dhcp_lease0\<lparr>le_used := True, le_mac := [2, 0, 0, 0, 0, 8], le_addr := pool_at dhcp_ctx0 (unat (mac_hash [2, 0, 0, 0, 0, 9]))\<rparr>]
     @ replicate 254 dhcp_lease0\<rparr>"

lemma toy_shared_nth: "i < 256 \<Longrightarrow> dh_leases toy_shared ! i =
    (if i = 0 then dhcp_lease0\<lparr>le_used := True, le_mac := [2, 0, 0, 0, 0, 7], le_addr := 0x20\<rparr>
     else if i = 1 then dhcp_lease0\<lparr>le_used := True, le_mac := [2, 0, 0, 0, 0, 8],
       le_addr := pool_at dhcp_ctx0 (unat (mac_hash [2, 0, 0, 0, 0, 9]))\<rparr> else dhcp_lease0)"
  by (auto simp: toy_shared_def nth_Cons')

theorem expired_lease_shared_witness:
  "\<exists>c1 w1 c2 w2 k a x. dhcp_discover toy_nacl toy_shared [7, 2, 0, 0, 0, 0, 9] world0 = Some (c1, w1) \<and>
    dhcp_discover toy_nacl c1 [7, 2, 0, 0, 0, 0, 8] w1 = Some (c2, w2) \<and>
    holds c2 k [2, 0, 0, 0, 0, 9] a x \<and> holds c2 1 [2, 0, 0, 0, 0, 8] a x \<and> k \<noteq> 1"
proof -
  let ?a = "pool_at dhcp_ctx0 (unat (mac_hash [2, 0, 0, 0, 0, 9]))"
  have l: "length (dh_leases toy_shared) = 256" "dh_peers toy_shared = []" by (simp_all add: toy_shared_def dhcp_ctx0_def)
  have t: "lease_table toy_shared" using l by (auto simp: lease_table_def toy_shared_nth dhcp_lease0_def)
  have p: "pool_ok toy_shared" "dh_lease_sec toy_shared = 3600" "pool_at toy_shared k = pool_at dhcp_ctx0 k" for k
    by (simp_all add: toy_shared_def pool_ok_def pool_at_def dhcp_ctx0_def)
  have h: "holds toy_shared 1 [2, 0, 0, 0, 0, 8] ?a 0"
    by (simp add: holds_def lease_find_Some toy_shared_nth dhcp_lease0_def)
  have n: "lease_find toy_shared [2, 0, 0, 0, 0, 9] = None"
    by (auto simp: lease_find_None toy_shared_nth dhcp_lease0_def)
  have f: "\<not> lease_addr_taken toy_shared ?a (w_time world0)"
    by (auto simp: taken_iff toy_shared_nth dhcp_lease0_def world0_def split: if_splits)
  have s: "\<not> le_used (dh_leases toy_shared ! 0) \<or> le_expiry (dh_leases toy_shared ! 0) \<le> w_time world0"
    by (simp add: toy_shared_nth dhcp_lease0_def world0_def)
  have sl: "slice 1 6 [7, 2, 0, 0, 0, 0, 8] = [2, 0, 0, 0, 0, 8]" "slice 1 6 [7, 2, 0, 0, 0, 0, 9] = [2, 0, 0, 0, 0, 9]"
    by (simp_all add: slice_eq_take_drop)
  have e: "(0 :: int) \<le> w_time world0" "0 < uint (dh_lease_sec toy_shared)" by (simp_all add: world0_def p)
  show ?thesis
    using expired_lease_shared [OF t p(1) tx_world0 e(2) h e(1) zero_less_one s n p(3) f sl, of toy_nacl] by blast
qed

section \<open>Who is admitted\<close>

lemma dhcp_rx_tagged:
  assumes p: "p = msg @ mac1_compute N (mac1_key N to) msg" and len: "7 \<le> length msg"
    and r: "rate_allow_g (slice 1 6 msg @ [0, 0]) 10 20 1 w = (True, v)" and al: "mac_allowed c (slice 1 6 msg)"
    and chk: "check_msg N c msg (slice 1 6 msg) v = (True, e, v')"
  shows "bget msg 0 = IPV69_CTRL_DHCP_DISCOVER \<Longrightarrow> dhcp_rx N c p to w = dhcp_discover N e p v'"
    "bget msg 0 = IPV69_CTRL_DHCP_REQUEST \<Longrightarrow> dhcp_rx N c p to w = dhcp_request N e p v'"
proof -
  have k: "length p - 16 = length msg" "take (length msg) p = msg" "drop (length msg) p = mac1_compute N (mac1_key N to) msg"
    "slice 1 6 p = slice 1 6 msg" "bget p 0 = bget msg 0" "\<not> length p < 23"
    using len by (auto simp: p bget_append)
  have mac: "mac1_verify N (mac1_key N to) msg (mac1_compute N (mac1_key N to) msg) = 0"
    using mac1_verify_compute [of N _ _ "[]"] by simp
  show "bget msg 0 = IPV69_CTRL_DHCP_DISCOVER \<Longrightarrow> dhcp_rx N c p to w = dhcp_discover N e p v'"
    "bget msg 0 = IPV69_CTRL_DHCP_REQUEST \<Longrightarrow> dhcp_rx N c p to w = dhcp_request N e p v'"
    using k(6) mac al unfolding dhcp_rx_def Let_def k(1-5) r prod.case bool.case chk by simp_all
qed

definition dhcp_admits :: "dhcp_ctx \<Rightarrow> bytes \<Rightarrow> bytes \<Rightarrow> bool" where
  "dhcp_admits c pub m \<longleftrightarrow> mac_allowed c m \<and>
     (\<not> dh_auth_enabled c \<or> pub \<in> pe_pub ` set (dh_peers c) \<or> dh_learn c \<and> (dh_allow c = [] \<or> m \<in> set (dh_allow c)))"

lemma signed_parts:
  assumes "msg = sign_append N body sk"
  shows "length msg - 96 = length body" "slice (length body) 32 msg = slice 32 32 sk" "slice 0 (length body) msg = body"
    "drop (length body + 32) msg = ed25519_sign N body sk" "length msg = length body + 96"
  using signed_payload [of body "length body" N sk] by (simp_all add: assms)

lemma check_admitted:
  assumes N: "sign_ok N" "key_ok N sk" and msg: "msg = sign_append N body sk" "7 \<le> length body"
    and adm: "dhcp_admits c (slice 32 32 sk) m"
  obtains e v' where "check_msg N c msg m v = (True, e, v')" "dh_leases e = dh_leases c" "same_server c e"
    "dh_pool_start e = dh_pool_start c" "dh_pool_end e = dh_pool_end c" "w_out v' = w_out v" "tx_ok v' = tx_ok v"
    "w_time v' = w_time v" "w_rate v' = w_rate v" "w_ms v' = w_ms v" "dh_auth_enabled c \<longrightarrow> slice 32 32 sk \<in> pe_pub ` set (dh_peers c) \<longrightarrow> e = c"
proof -
  note P = signed_parts [OF msg(1)]
  let ?pub = "slice 32 32 sk"
  have good: "ed25519_verify N body (ed25519_sign N body sk) ?pub = 0" using verify_signed [OF N, of body "[]"] by simp
  obtain d u where d: "learn_peer N c ?pub v = (d, u)" by (cases "learn_peer N c ?pub v")
  have l: "\<not> length msg < 1 + 6 + 96" using P(5) msg(2) by simp
  have ex: "list_ex (\<lambda>e. pe_pub e = ?pub) (dh_peers c) \<longleftrightarrow> ?pub \<in> pe_pub ` set (dh_peers c)"
    by (force simp: list_ex_iff)
  have chk: "check_msg N c msg m v = (True, if dh_auth_enabled c \<and> ?pub \<notin> pe_pub ` set (dh_peers c) then (d, u) else (c, v))"
    using adm good l unfolding check_msg_def Let_def P(1-4) ex by (auto simp: dhcp_admits_def mac_in_allowlist_def d)
  have "dh_leases d = dh_leases c" "same_server c d" "dh_pool_start d = dh_pool_start c" "dh_pool_end d = dh_pool_end c"
    "w_out u = w_out v" "tx_ok u = tx_ok v" "w_time u = w_time v" "w_rate u = w_rate v" "w_ms u = w_ms v"
    using d by (auto simp: learn_peer_def same_server_def file_append_def tx_ok_def split: if_splits option.splits)
  with chk show ?thesis
    by (cases "dh_auth_enabled c \<and> ?pub \<notin> pe_pub ` set (dh_peers c)") (auto intro!: that simp: same_server_def)
qed

section \<open>Requests\<close>

lemma request_answered:
  assumes al: "lease_alloc c m (w_time w) = Some (True, d)" and c: "lease_table c" and p: "slice 1 6 p = m" and tx: "tx_ok w"
    and h: "holds d i m b e" and req: "req = ipv69_addr_get (drop 7 p)"
    and grant: "req = b \<or> 124 \<le> length p \<and> dhcp_in_range d (slice 12 32 p) req \<and> \<not> lease_addr_taken d req (w_time w)"
    and w': "w' = w\<lparr>w_txn := Suc (w_txn w), w_out := w_out w @ [L2 m (dhcp_frame c m (offer_msg N c IPV69_CTRL_DHCP_ACK m req))]\<rparr>"
  shows "\<exists>c'. dhcp_request N c p w = Some (c', w') \<and> holds c' i m req e \<and> lease_table c' \<and> same_server c c' \<and>
    (124 \<le> length p \<longrightarrow> le_key (dh_leases c' ! i) = slice 12 32 p)"
proof -
  have d: "lease_table d" by (rule lease_alloc_table [OF c al])
  have i: "lease_find d m = Some i" "le_addr (dh_leases d ! i) = b" "i < 256" using h by (simp_all add: holds_def lease_find_Some)
  have len: "length (dh_leases d) = 256" using d by (simp add: lease_table_def)
  define f where "f = upd_lease i (\<lambda>l. l\<lparr>le_addr := req\<rparr>) d"
  define c' where "c' = (if 12 + 96 + 16 \<le> length p then upd_lease i (\<lambda>l. l\<lparr>le_key := slice 12 32 p\<rparr>) f else f)"
  have f: "holds f i m req e" "lease_table f"
    unfolding f_def using h i len by (simp add: holds_def lease_find_upd, intro lease_table_upd [OF d i(3)], simp_all)
  note same = lease_alloc_same [OF al]
  have s: "same_server c c'" using same by (simp add: same_server_def c'_def f_def)
  have g: "12 + 96 + 16 \<le> length p \<and> dhcp_in_range d (slice 12 32 p) req \<and> \<not> lease_addr_taken d req (w_time w) \<or> req = b"
    using grant by auto
  have "dhcp_request N c p w = Some (c', snd (send_ctrl c' (offer_msg N c' IPV69_CTRL_DHCP_ACK m req) m w))"
    unfolding request_alloc Let_def p al option.case prod.case bool.case i(1,2) req [symmetric] if_P [OF g]
    by (simp add: c'_def f_def offer_msg_def)
  moreover have "offer_msg N c' IPV69_CTRL_DHCP_ACK m req = offer_msg N c IPV69_CTRL_DHCP_ACK m req"
    "dhcp_frame c' m pl = dhcp_frame c m pl" for pl
    using s by (simp_all add: same_server_def offer_msg_def sign_msg_def dhcp_frame_def)
  ultimately have "dhcp_request N c p w = Some (c', w')" by (simp only: send_ctrl_ok [OF tx] w' snd_conv)
  then show ?thesis using s f holds_key [OF f] len i(3) by (auto simp: c'_def f_def)
qed

text \<open>A device of the allowlist can take an address in the range of another key and have the lease
  recorded under that key. The signature that is checked is the one at the end of the message;
  the key whose range is looked up is the one behind the address, and nothing says that they are
  the same.\<close>

theorem request_claims_foreign_key:
  assumes N: "sign_ok N" "key_ok N ask" and m: "length m = 6" "length victim = 32"
    and c: "lease_table c" "tx_ok w" "dh_auth_enabled c" "mac_allowed c m" "slice 32 32 ask \<in> pe_pub ` set (dh_peers c)"
    and v: "v \<in> set (dh_peers c)" "pe_pub v = victim" "ipv69_addr_in_range (take_bit 40 a) (pe_base v) (nat (pe_prefix v))"
    and room: "lease_alloc c m (w_time w) = Some (True, d)" and free: "\<not> lease_addr_taken d (take_bit 40 a) (w_time w)"
    and rate: "rate_allow_g (m @ [0, 0]) 10 20 1 w = (True, v1)"
    and msg: "msg = sign_append N ([IPV69_CTRL_DHCP_REQUEST] @ m @ ipv69_addr_put a @ victim) ask"
  shows "\<exists>c' w' i. dhcp_rx N c (msg @ mac1_compute N (mac1_key N to) msg) to w = Some (c', w') \<and>
    holds c' i m (take_bit 40 a) (lease_end c (w_time w)) \<and> le_key (dh_leases c' ! i) = victim \<and>
    w_out w' = w_out w @ [L2 m (dhcp_frame c m (offer_msg N c IPV69_CTRL_DHCP_ACK m (take_bit 40 a)))]"
proof -
  let ?p = "msg @ mac1_compute N (mac1_key N to) msg"
  have l: "length msg = 140" "slice 1 6 msg = m" "bget msg 0 = IPV69_CTRL_DHCP_REQUEST" "slice 12 32 msg = victim"
    "ipv69_addr_get (drop 7 msg) = take_bit 40 a"
    using m by (simp_all add: msg sign_append_def addr_get_40)
  have pm: "slice 1 6 ?p = m" "slice 12 32 ?p = victim" "124 \<le> length ?p" using l by simp_all
  have pa: "take_bit 40 a = ipv69_addr_get (drop 7 ?p)" using m by (simp add: msg sign_append_def addr_get_40)
  have r: "rate_allow_g (slice 1 6 msg @ [0, 0]) 10 20 1 w = (True, v1)" "mac_allowed c (slice 1 6 msg)" using rate c(4) l(2) by simp_all
  have v1: "w_time v1 = w_time w" "w_out v1 = w_out w" "tx_ok v1"
    using rate c(2) by (auto simp: rate_allow_g_def tx_ok_def split: prod.splits)
  obtain e v' where e: "check_msg N c msg (slice 1 6 msg) v1 = (True, e, v')" "w_out v' = w_out v1" "tx_ok v' = tx_ok v1"
      "w_time v' = w_time v1" "dh_auth_enabled c \<longrightarrow> slice 32 32 ask \<in> pe_pub ` set (dh_peers c) \<longrightarrow> e = c"
    by (rule check_admitted [OF N msg, of c "slice 1 6 msg" v1]) (use c m l in \<open>simp_all add: dhcp_admits_def\<close>)
  have ec: "e = c" using e(5) c(3,5) by simp
  have rx: "dhcp_rx N c ?p to w = dhcp_request N c ?p v'"
    using dhcp_rx_tagged(2) [OF refl _ r e(1)] l ec by simp
  obtain i where i: "lease_find d m = Some i" "le_expiry (dh_leases d ! i) = lease_end c (w_time w)"
    by (rule lease_alloc_found [OF room c(1)])
  have h: "holds d i m (le_addr (dh_leases d ! i)) (lease_end c (w_time w))" using i by (simp add: holds_def)
  have rg: "dhcp_in_range d (slice 12 32 ?p) (take_bit 40 a)"
    using v pm(2) lease_alloc_same(2) [OF room] by (auto simp: dhcp_in_range_def list_ex_iff)
  have t: "w_time v' = w_time w" "tx_ok v'" using e(3,4) v1 by simp_all
  show ?thesis
    using request_answered [OF room [folded t(1)] c(1) pm(1) t(2) h pa _ refl, of N] rx pm(2,3) rg free e(2) v1(2) t(1)
    by fastforce
qed

text \<open>A server with two keys, one of which holds a lease.\<close>

definition toy_dhcpd :: dhcp_ctx where
  "toy_dhcpd = dhcp_ctx0\<lparr>dh_auth_enabled := True,
     dh_peers := [\<lparr>pe_pub = replicate 32 4, pe_base = 0x8000000011, pe_prefix = 40\<rparr>,
       \<lparr>pe_pub = replicate 32 9, pe_base = 0x8000000012, pe_prefix = 40\<rparr>],
     dh_leases := dhcp_lease0\<lparr>le_used := True, le_mac := [2, 0, 0, 0, 0, 7], le_addr := 0x20\<rparr> # replicate 255 dhcp_lease0\<rparr>"

lemma toy_dhcpd_nth: "i < 256 \<Longrightarrow> dh_leases toy_dhcpd ! i =
    (if i = 0 then dhcp_lease0\<lparr>le_used := True, le_mac := [2, 0, 0, 0, 0, 7], le_addr := 0x20\<rparr> else dhcp_lease0)"
  by (auto simp: toy_dhcpd_def nth_Cons')

theorem request_claims_foreign_key_witness:
  "\<exists>p c' w' i. dhcp_rx toy_nacl toy_dhcpd p 1 world0 = Some (c', w') \<and>
    holds c' i [2, 0, 0, 0, 0, 7] 0x8000000012 3600 \<and> le_key (dh_leases c' ! i) = replicate 32 9"
proof -
  let ?m = "[2, 0, 0, 0, 0, 7] :: bytes" and ?k = "replicate 64 4 :: bytes"
  let ?v = "\<lparr>pe_pub = replicate 32 9, pe_base = 0x8000000012, pe_prefix = 40\<rparr> :: peer_entry"
  have k: "key_ok toy_nacl ?k" "slice 32 32 ?k = replicate 32 4"
    by (simp_all add: key_ok_def ed25519_seed_to_pub_def toy_nacl_def slice_eq_take_drop)
  have len: "length (dh_leases toy_dhcpd) = 256" "length (dh_peers toy_dhcpd) \<le> 64" by (simp_all add: toy_dhcpd_def)
  have t: "lease_table toy_dhcpd" using len by (auto simp: lease_table_def toy_dhcpd_nth dhcp_lease0_def split: if_splits)
  have f: "lease_find toy_dhcpd ?m = Some 0" by (simp add: lease_find_Some toy_dhcpd_nth)
  have c: "dh_auth_enabled toy_dhcpd" "mac_allowed toy_dhcpd ?m" "slice 32 32 ?k \<in> pe_pub ` set (dh_peers toy_dhcpd)"
    "?v \<in> set (dh_peers toy_dhcpd)" "dh_lease_sec toy_dhcpd = 3600"
    unfolding k(2) by (simp_all add: toy_dhcpd_def mac_allowed_def dhcp_ctx0_def)
  have a: "take_bit 40 0x8000000012 = (0x8000000012 :: u64)" by (simp add: take_bit_eq_mod)
  have rg: "ipv69_addr_in_range (take_bit 40 0x8000000012) (pe_base ?v) (nat (pe_prefix ?v))"
    unfolding a by (simp add: ipv69_addr_in_range_def)
  have free: "\<not> lease_addr_taken (upd_lease 0 (\<lambda>l. l\<lparr>le_expiry := lease_end toy_dhcpd (w_time world0)\<rparr>) toy_dhcpd)
      (take_bit 40 0x8000000012) (w_time world0)"
    unfolding a using len by (auto simp: taken_iff toy_dhcpd_nth dhcp_lease0_def split: if_splits)
  obtain rt rt' where r: "rate_allow rate_table_init 0 (?m @ [0, 0]) 10 20 1 = (True, rt)" by (rule rate_twice)
  have rate: "rate_allow_g (?m @ [0, 0]) 10 20 1 world0 = (True, world0\<lparr>w_rate := rt\<rparr>)"
    using r by (simp add: rate_allow_g_def world0_def)
  have e: "lease_end toy_dhcpd (w_time world0) = 3600" by (simp add: lease_end_def c(5) world0_def)
  show ?thesis
    using request_claims_foreign_key [OF toy_sign_ok k(1) _ _ t tx_world0 c(1-4) refl rg alloc_renew [OF f] free rate refl, of 1]
    unfolding a e by fastforce
qed

end
