(* ===== verification/Dhcp_Options.thy ===== *)
theory Dhcp_Options
  imports Dhcp_Limits
begin

text \<open>
  The command line of the address server: a flag right behind the interface leaves its value in
  the place of the end of the pool.
\<close>

section \<open>Addresses have no colon\<close>

lemma colon_digits: "CHR '':'' \<in> set s \<Longrightarrow> CHR '':'' \<in> set (snd (scan_digits b n s))"
  by (induction b n s rule: scan_digits.induct) (auto simp: is_digit_def digit_val_def)

lemma colon_sign: "CHR '':'' \<in> set s \<Longrightarrow> CHR '':'' \<in> set (snd (scan_sign s))"
  by (cases s) (auto simp: scan_sign_def)

lemma colon_0x: "CHR '':'' \<in> set s \<Longrightarrow> CHR '':'' \<in> set (skip_0x s)"
  by (auto simp: skip_0x_def split: list.split)

lemma colon_space: "CHR '':'' \<in> set s \<Longrightarrow> CHR '':'' \<in> set (dropWhile c_isspace s)"
  by (induction s) (auto simp: c_isspace_def)

lemma colon_strtoul: "strtoul 16 s = Some (v, e) \<Longrightarrow> CHR '':'' \<in> set s \<Longrightarrow> CHR '':'' \<in> set e"
  using colon_digits [of "skip_0x (snd (scan_sign (dropWhile c_isspace s)))" 16 0] colon_0x [OF colon_sign [OF colon_space]]
  by (auto simp: strtoul_def Let_def split: prod.splits list.splits if_splits)

lemma colon_octets: "CHR '':'' \<in> set s \<Longrightarrow> parse_octets (Suc k) v s = None"
proof (induction k arbitrary: v s)
  case 0
  then show ?case using colon_strtoul by (fastforce split: option.split)
next
  case (Suc k)
  have "CHR '':'' \<in> set (tl e)" if "strtoul 16 s = Some (oct, e)" "e \<noteq> []" "hd e = CHR ''.''" for oct e
    using colon_strtoul [OF that(1) Suc.prems] that(2,3) by (cases e) auto
  then show ?case using Suc.IH by (auto simp del: parse_octets.simps(2) simp: parse_octets.simps(2) [of "Suc k"] split: option.split)
qed

lemma colon_no_addr: "CHR '':'' \<in> set s \<Longrightarrow> parse_ipv69_addr s = None"
  using colon_octets [of s 4 0] colon_strtoul [of s]
  by (auto simp: parse_ipv69_addr_def numeral_eq_Suc split: option.split)

lemma digits_subset: "set (snd (scan_digits b n s)) \<subseteq> set s"
  by (induction b n s rule: scan_digits.induct) auto

lemma strtoul_subset: "strtoul 16 s = Some (v, e) \<Longrightarrow> set e \<subseteq> set s"
proof -
  assume s: "strtoul 16 s = Some (v, e)"
  have "set (snd (scan_sign t)) \<subseteq> set t" "set (skip_0x t) \<subseteq> set t" "set (dropWhile c_isspace t) \<subseteq> set t" for t
    by (auto simp: scan_sign_def skip_0x_def dest: set_dropWhileD split: list.splits if_splits)
  then have "set (skip_0x (snd (scan_sign (dropWhile c_isspace s)))) \<subseteq> set s" by (meson order_trans)
  then show ?thesis using s digits_subset [of 16 0 "skip_0x (snd (scan_sign (dropWhile c_isspace s)))"]
    by (auto simp: strtoul_def Let_def split: prod.splits list.splits if_splits)
qed

lemma scan_mac_colon: "scan_mac (Suc (Suc k)) s = Some m \<Longrightarrow> CHR '':'' \<in> set s"
proof -
  assume "scan_mac (Suc (Suc k)) s = Some m"
  then obtain b e where e: "scan_hhx s = Some (b, e)" "take 1 e = '':''" by (auto split: option.splits if_splits)
  then obtain v where "strtoul 16 s = Some (v, e)" by (auto simp: scan_hhx_def Let_def split: if_splits)
  moreover have "CHR '':'' \<in> set e" using e(2) by (cases e) auto
  ultimately show ?thesis using strtoul_subset by blast
qed

section \<open>A key read as an address\<close>

definition hexval :: "bytes \<Rightarrow> nat \<Rightarrow> nat" where
  "hexval bs n = fold (\<lambda>b n. n * 256 + unat b) bs n"

lemma digits_hex2: "scan_digits 16 n (concat (map hex2 bs)) = (hexval bs n, [])"
proof (induction bs arbitrary: n)
  case (Cons b bs)
  note d = unat_byte_digits [of b]
  have "n * 256 + unat b = (n * 16 + unat b div 16) * 16 + unat b mod 16" by (simp add: algebra_simps)
  with Cons d digit_hexdig [OF d(1)] digit_hexdig [OF d(2)] show ?case by (simp add: hex2_def hexval_def add.commute mult.commute)
qed (simp add: hexval_def)

lemma hexval_ge: "n * 256 ^ length bs \<le> hexval bs n"
proof (induction bs arbitrary: n)
  case (Cons b bs)
  have "n * 256 ^ length (b # bs) = (n * 256) * 256 ^ length bs" by simp
  also have "\<dots> \<le> (n * 256 + unat b) * 256 ^ length bs" by simp
  also have "\<dots> \<le> hexval bs (n * 256 + unat b)" by (rule Cons.IH)
  finally show ?case by (simp add: hexval_def)
qed (simp add: hexval_def)

lemma hexval_pos: "set bs \<noteq> {0} \<Longrightarrow> bs \<noteq> [] \<Longrightarrow> 0 < hexval bs n"
proof (induction bs arbitrary: n)
  case (Cons b bs)
  show ?case
  proof (cases "b = 0")
    case True
    then have "set bs \<noteq> {0}" "bs \<noteq> []" using Cons.prems by auto
    then show ?thesis using Cons.IH by (simp add: hexval_def)
  next
    case False
    then have "1 \<le> n * 256 + unat b" by (simp add: unat_gt_0 Suc_le_eq)
    then have "1 * 256 ^ length bs \<le> hexval bs (n * 256 + unat b)" using hexval_ge [of "n * 256 + unat b" bs]
      by (meson mult_le_mono1 order_trans)
    moreover have "(0::nat) < 256 ^ length bs" by simp
    ultimately have "0 < hexval bs (n * 256 + unat b)" by linarith
    then show ?thesis by (simp add: hexval_def)
  qed
qed simp

lemma hexval_append: "hexval (xs @ ys) n = hexval ys (hexval xs n)"
  by (simp add: hexval_def)

lemma pub_str_addr:
  assumes "slice 0 24 p \<noteq> zeros 24"
  shows "parse_ipv69_addr (pub_str p) = Some (- 1)"
proof -
  let ?b = "slice 0 32 p"
  have ps: "pub_str p = concat (map hex2 ?b)" by (simp add: pub_str_def slice_def map_map comp_def)
  have "?b = slice 0 24 p @ slice 24 8 p" by (rule nth_equalityI) (auto simp: slice_def nth_append)
  moreover have "set (slice 0 24 p) \<noteq> {0}" using assms by (auto simp: zeros_def intro!: replicate_eqI)
  then have "1 \<le> hexval (slice 0 24 p) 0" using hexval_pos [of "slice 0 24 p" 0] by (simp add: slice_def)
  then have "1 * 256 ^ 8 \<le> hexval (slice 24 8 p) (hexval (slice 0 24 p) 0)"
    using hexval_ge [of "hexval (slice 0 24 p) 0" "slice 24 8 p"] unfolding length_slice by (simp; linarith)
  ultimately have big: "2 ^ 64 \<le> hexval ?b 0" by (simp add: hexval_append)
  obtain x r where xr: "?b = x # r" by (cases ?b) (simp_all add: slice_def)
  note d = unat_byte_digits [of x]
  have dig: "CHR ''.'' \<notin> set (concat (map hex2 bs))" for bs
  proof (induction bs)
    case (Cons b bs)
    then show ?case using hexdig_plain [OF unat_byte_digits(1) [of b]] hexdig_plain [OF unat_byte_digits(2) [of b]]
      by (auto simp: hex2_def)
  qed simp
  obtain c1 c2 q where q: "pub_str p = c1 # c2 # q" "c1 = hexdig (unat x div 16)" "c2 = hexdig (unat x mod 16)"
    unfolding ps xr by (simp add: hex2_def)
  have hd: "dropWhile c_isspace (pub_str p) = pub_str p" "scan_sign (pub_str p) = (False, pub_str p)" "skip_0x (pub_str p) = pub_str p"
    "is_digit 16 c1"
    using hexdig_plain [OF d(1)] hexdig_plain [OF d(2)] d unfolding q(1) by (auto simp: q(2,3) scan_sign_def skip_0x_def split: list.split)
  have sc: "scan_digits 16 0 (pub_str p) = (hexval ?b 0, [])" unfolding ps by (rule digits_hex2)
  have "strtoul 16 (pub_str p) = Some (- 1, [])"
    unfolding strtoul_def hd(1,2) Let_def prod.case using hd(3,4) sc big by (simp add: q(1))
  then show ?thesis using dig [of ?b] by (simp add: parse_ipv69_addr_def ps)
qed

section \<open>Flags behind the interface\<close>

lemma dhcp_flags_pool: "dhcp_flags N w as c = Some d \<Longrightarrow> dh_pool_start d = dh_pool_start c \<and> dh_pool_end d = dh_pool_end c"
proof (induction N w "as" c rule: dhcp_flags.induct)
  case (3 N w a b r c)
  then show ?case
    by (auto simp: dhcp_peer_file_load_def split: if_splits option.splits)
qed (auto split: if_splits)

lemma scan_mac_no_flag: "scan_mac 6 s \<noteq> None \<Longrightarrow> \<not> dhcp_flag s"
  using scan_mac_colon [of 4 s] by (auto simp: dhcp_flag_def numeral_eq_Suc)

lemma pub_str_no_flag: "\<not> dhcp_flag (pub_str p)"
proof -
  have "length (pub_str p) = 64" using length_concat_hex2 [of "slice 0 32 p"] by (simp add: pub_str_def slice_def map_map comp_def)
  then show ?thesis by (auto simp: dhcp_flag_def)
qed

lemma positional_flag:
  assumes "dhcp_flag a" "\<not> dhcp_flag v"
  shows "parse_ipv69_addr v = None \<Longrightarrow> dhcp_args N w (a # v # r) = None"
    "parse_ipv69_addr v = Some x \<Longrightarrow> dhcp_positional (a # v # r) c = Some d \<Longrightarrow> dh_pool_end d = x"
  using assms by (auto simp: dhcp_args_def dhcp_positional_def split: if_splits option.splits)

lemma dhcp_flag_words: "dhcp_flag ''--allow''" "dhcp_flag ''--peer-file''" "dhcp_flag ''--peer''"
  by (simp_all add: dhcp_flag_def)

text \<open>A flag right behind the interface does not work, because its value stands where the end of the pool
  is expected: with \<^verbatim>\<open>--allow MAC\<close> the server always exits, with \<^verbatim>\<open>--peer-file PATH\<close> it exits
  unless the path is an address, and with \<^verbatim>\<open>--peer KEY\<close> the key is read as a number that is cut
  at 64 bits, so that the pool ends at the highest 64-bit number.\<close>

theorem flags_behind_interface:
  "(scan_mac 6 v \<noteq> None \<longrightarrow> dhcp_args N w (''--allow'' # v # r) = None) \<and>
   (\<not> dhcp_flag v \<and> parse_ipv69_addr v = None \<longrightarrow> dhcp_args N w (''--peer-file'' # v # r) = None) \<and>
   (slice 0 24 p \<noteq> zeros 24 \<and> dhcp_args N w (''--peer'' # pub_str p # r) = Some c \<longrightarrow> dh_pool_end c = - 1)"
proof (intro conjI impI)
  assume m: "scan_mac 6 v \<noteq> None"
  then have "parse_ipv69_addr v = None" using scan_mac_colon [of 4 v] colon_no_addr by (auto simp: numeral_eq_Suc)
  then show "dhcp_args N w (''--allow'' # v # r) = None"
    by (rule positional_flag(1) [OF dhcp_flag_words(1) scan_mac_no_flag [OF m]])
next
  assume "\<not> dhcp_flag v \<and> parse_ipv69_addr v = None"
  then show "dhcp_args N w (''--peer-file'' # v # r) = None"
    using positional_flag(1) [OF dhcp_flag_words(2)] by blast
next
  assume a: "slice 0 24 p \<noteq> zeros 24 \<and> dhcp_args N w (''--peer'' # pub_str p # r) = Some c"
  then obtain d where d: "dhcp_positional (''--peer'' # pub_str p # r) dhcp_ctx0 = Some d"
      "dhcp_flags N w (''--peer'' # pub_str p # r) d = Some c"
    unfolding dhcp_args_def by (metis (no_types, lifting) option.case_eq_if option.collapse option.distinct(1))
  have "dh_pool_end d = - 1"
    using positional_flag(2) [OF dhcp_flag_words(3) pub_str_no_flag pub_str_addr d(1)] a by blast
  with dhcp_flags_pool [OF d(2)] show "dh_pool_end c = - 1" by simp
qed

theorem flags_behind_interface_witness:
  "dhcp_args toy_nacl world0 [''--allow'', ''2:0:0:0:0:7''] = None \<and>
   dhcp_args toy_nacl world0 [''--peer-file'', ''/etc/peers''] = None"
proof -
  have six: "(6 :: nat) = Suc (Suc (Suc (Suc (Suc (Suc 0)))))" by simp
  have m: "scan_mac 6 ''2:0:0:0:0:7'' \<noteq> None"
    unfolding six by (simp add: scan_hhx_def strtoul_def scan_sign_def c_isspace_def skip_0x_def is_digit_def digit_val_def)
  have f: "\<not> dhcp_flag ''/etc/peers'' \<and> parse_ipv69_addr ''/etc/peers'' = None"
    by (simp add: dhcp_flag_def parse_ipv69_addr_def strtoul_def scan_sign_def c_isspace_def skip_0x_def is_digit_def digit_val_def)
  show ?thesis
    using flags_behind_interface [of "''2:0:0:0:0:7''" toy_nacl world0 "[]"]
      flags_behind_interface [of "''/etc/peers''" toy_nacl world0 "[]"] m f by blast
qed

end
