(* ===== verification/Dhcp_Client.thy ===== *)
theory Dhcp_Client
  imports Dhcpd Gw
begin

text \<open>
  The bring-up daemon \<^verbatim>\<open>c/src/IPv69/ip69d.c\<close>: its DHCP client with the retries, the renewal timer,
  the control socket and the command line. What a receive call answers is an event, the end of
  its timeout being an error; how long a wait or a pause lasts is not modelled, nor are the TAP
  device and the opening of sockets: whether the raw socket opens, and with which MAC, is an
  argument.
\<close>

abbreviation (input) DHCP_ATTEMPTS :: nat where "DHCP_ATTEMPTS \<equiv> 3"

record client_lease =
  cl_addr :: u64
  cl_sec :: u32
  cl_expiry :: int

record transport =
  tr_open :: bool
  tr_ifindex :: int
  tr_mac :: bytes
  tr_sk :: bytes
  tr_has_sk :: bool
  tr_server_pub :: bytes
  tr_has_server_pub :: bool

definition transport0 :: transport where
  "transport0 = \<lparr>tr_open = False, tr_ifindex = 0, tr_mac = zeros 6, tr_sk = zeros 64, tr_has_sk = False,
     tr_server_pub = zeros 32, tr_has_server_pub = False\<rparr>"

section \<open>The raw socket\<close>

text \<open>The daemon builds its frames itself; all fields that are not set are 0.\<close>

definition dhcp_raw_frame :: "bytes \<Rightarrow> bytes \<Rightarrow> bytes" where
  "dhcp_raw_frame mac pkt =
     eth_bytes \<lparr>dst_mac = bcast_mac, src_mac = mac, ethertype = 0x6969\<rparr> @
     hdr_bytes \<lparr>ver_traffic = push_bit 4 6 OR 9, dscp_ecn = 0, payload_len = of_nat (length pkt), flow_id = 0,
       next_header = IPV69_NEXT_CONTROL, hop_limit = 64, flags = 0, reserved = 0, src_port = 0, dst_port = 0,
       sequence = zeros 4, source = ipv69_addr_put 0, source_res = zeros 2, dest = ipv69_addr_put IPV69_BCAST_ADDR,
       dest_res = zeros 2\<rparr> @ pkt"

definition dhcp_raw_send :: "bytes \<Rightarrow> bytes \<Rightarrow> world \<Rightarrow> int \<times> world" where
  "dhcp_raw_send mac pkt w = transmit (L2 bcast_mac (dhcp_raw_frame mac pkt)) w"

text \<open>One receive: the end of the wait (an error, or a frame that is too short), a frame to be passed over,
  or the payload of a control frame with our MAC in it.\<close>

datatype raw_rx = Raw_End | Raw_Skip | Raw_Payload bytes

definition dhcp_raw_recv :: "bytes \<Rightarrow> rx_event \<Rightarrow> raw_rx" where
  "dhcp_raw_recv mac ev =
     (case ev_recv ev of
        Recv_Err _ \<Rightarrow> Raw_End
      | Recv_Frame f \<Rightarrow>
          let f = take 1600 f; p = drop (ETH_LEN + IPV69_HEADER_LEN) f
          in if length f < ETH_LEN + IPV69_HEADER_LEN + 7 then Raw_End
             else if next_header (hdr_at (drop ETH_LEN f)) \<noteq> IPV69_NEXT_CONTROL then Raw_Skip
             else if slice 1 6 p = mac then Raw_Payload p else Raw_Skip)"

section \<open>Acquiring a lease\<close>

definition client_sign_msg :: "nacl \<Rightarrow> transport \<Rightarrow> bytes \<Rightarrow> bytes" where
  "client_sign_msg N t msg = (if \<not> tr_has_sk t then msg else msg @ slice 32 32 (tr_sk t) @ ed25519_sign N msg (tr_sk t))"

definition check_reply :: "nacl \<Rightarrow> transport \<Rightarrow> bytes \<Rightarrow> bool" where
  "check_reply N t msg =
     (let body = length msg - 96
      in if \<not> tr_has_server_pub t then True
         else if length msg < 16 + 96 then False
         else if slice body 32 msg \<noteq> tr_server_pub t then False
         else ed25519_verify N (slice 0 body msg) (drop (body + 32) msg) (tr_server_pub t) = 0)"

text \<open>Waiting for one kind of answer: got it, the wait ended, a bad signature, or the events ran out.\<close>

datatype reply = Rep_Got bytes "rx_event list" world | Rep_Timeout "rx_event list" world | Rep_Bad "rx_event list" world | Rep_Wait world

fun dhcp_wait :: "nacl \<Rightarrow> transport \<Rightarrow> u8 \<Rightarrow> rx_event list \<Rightarrow> world \<Rightarrow> reply" where
  "dhcp_wait N t ty [] w = Rep_Wait w"
| "dhcp_wait N t ty (ev # evs) w =
     (let w = at_event ev w
      in case dhcp_raw_recv (tr_mac t) ev of
           Raw_End \<Rightarrow> Rep_Timeout evs w
         | Raw_Skip \<Rightarrow> dhcp_wait N t ty evs w
         | Raw_Payload p \<Rightarrow>
             if length p < 16 \<or> bget p 0 \<noteq> ty then dhcp_wait N t ty evs w
             else if slice 1 6 p \<noteq> tr_mac t then dhcp_wait N t ty evs w
             else if \<not> check_reply N t p then Rep_Bad evs w
             else Rep_Got p evs w)"

datatype acquired = Acq_Ret int transport client_lease "rx_event list" world | Acq_Wait transport client_lease world

text \<open>At most three waits; before each but the first the message is sent again. On the left the answer, on
  the right what ends the acquisition.\<close>

fun dhcp_try :: "nacl \<Rightarrow> transport \<Rightarrow> u8 \<Rightarrow> bytes \<Rightarrow> nat \<Rightarrow> bool \<Rightarrow> client_lease \<Rightarrow> rx_event list \<Rightarrow> world \<Rightarrow>
    (bytes \<times> rx_event list \<times> world) + acquired" where
  "dhcp_try N t ty msg 0 resend l evs w = Inr (Acq_Ret (-1) t l evs w)"
| "dhcp_try N t ty msg (Suc k) resend l evs w =
     (let w = (if resend then snd (dhcp_raw_send (tr_mac t) msg w) else w)
      in case dhcp_wait N t ty evs w of
           Rep_Got p evs w \<Rightarrow> Inl (p, evs, w)
         | Rep_Timeout evs w \<Rightarrow> dhcp_try N t ty msg k True l evs w
         | Rep_Bad evs w \<Rightarrow> Inr (Acq_Ret (-1) t l evs w)
         | Rep_Wait w \<Rightarrow> Inr (Acq_Wait t l w))"

definition dhcp_tagged :: "nacl \<Rightarrow> bytes \<Rightarrow> bytes" where
  "dhcp_tagged N msg = msg @ mac1_compute N (mac1_key N IPV69_BCAST_ADDR) msg"

definition offer_lease :: "bytes \<Rightarrow> int \<Rightarrow> client_lease" where
  "offer_lease p now =
     (let sec = ipv69_get_be32 (drop 12 p) in \<lparr>cl_addr = ipv69_addr_get (drop 7 p), cl_sec = sec, cl_expiry = now + uint sec\<rparr>)"

definition dhcp_acquire :: "nacl \<Rightarrow> bytes option \<Rightarrow> transport \<Rightarrow> client_lease \<Rightarrow> rx_event list \<Rightarrow> world \<Rightarrow> acquired" where
  "dhcp_acquire N opn t l evs w =
     (case (if tr_open t then Some t else map_option (\<lambda>mac. t\<lparr>tr_open := True, tr_mac := mac\<rparr>) opn) of
        None \<Rightarrow> Acq_Ret (-1) t l evs w
      | Some t \<Rightarrow>
          let discover = dhcp_tagged N (client_sign_msg N t ([IPV69_CTRL_DHCP_DISCOVER] @ tr_mac t));
              (r, w) = dhcp_raw_send (tr_mac t) discover w
          in if r < 0 then Acq_Ret (-1) t l evs w
             else case dhcp_try N t IPV69_CTRL_DHCP_OFFER discover DHCP_ATTEMPTS False l evs w of
                    Inr a \<Rightarrow> a
                  | Inl (p, evs, w) \<Rightarrow>
                      let l = offer_lease p (w_time w);
                          req = dhcp_tagged N (client_sign_msg N t ([IPV69_CTRL_DHCP_REQUEST] @ tr_mac t @ ipv69_addr_put (cl_addr l)));
                          (r, w) = dhcp_raw_send (tr_mac t) req w
                      in if r < 0 then Acq_Ret (-1) t l evs w
                         else case dhcp_try N t IPV69_CTRL_DHCP_ACK req DHCP_ATTEMPTS False l evs w of
                                Inr a \<Rightarrow> a
                              | Inl (_, evs, w) \<Rightarrow> Acq_Ret 0 t (l\<lparr>cl_expiry := w_time w + uint (cl_sec l)\<rparr>) evs w)"

section \<open>The control socket\<close>

definition dec_int :: "int \<Rightarrow> string" where
  "dec_int i = (if i < 0 then ''-'' @ dec (nat (- i)) else dec (nat i))"

definition hex16 :: "u64 \<Rightarrow> string" where
  "hex16 a = concat (map hex2 (ipv69_put_be64 a))"

text \<open>The answer to what was read from a connection, and whether it asks for a renewal.\<close>

definition sock_serve :: "transport \<Rightarrow> client_lease \<Rightarrow> string \<Rightarrow> string \<Rightarrow> int \<Rightarrow> string \<times> bool" where
  "sock_serve t l showname rd now =
     (let cmd = c_string (take 63 rd); remain = cl_expiry l - now
      in if rd = [] then ([], False)
         else if take 5 cmd = ''renew'' then (''renew requested'' @ [NL], True)
         else if take 5 cmd = ''lease'' then (dec_int remain @ [NL], False)
         else (''1: '' @ showname @ '': <BROADCAST,UP,LOWER_UP> mtu 1500 state UP'' @ [NL] @
               ''    inet69 '' @ hex16 (cl_addr l) @ ''/40 brd ffffffffff scope global dynamic'' @ [NL] @
               ''       valid_lft '' @ dec_int remain @ ''sec preferred_lft '' @ dec_int remain @ ''sec'' @ [NL] @
               ''    link ifindex '' @ dec_int (tr_ifindex t) @ '' mode raw'' @ [NL], False))"

section \<open>The command line and the main loop\<close>

record tun_opts =
  to_ifname :: "string option"
  to_tap :: "string option"
  to_sock :: string

text \<open>The options are written into a transport on the stack; \<open>None\<close> is the usage error.\<close>

fun tun_args :: "nacl \<Rightarrow> string list \<Rightarrow> transport \<times> tun_opts \<Rightarrow> (transport \<times> tun_opts) option" where
  "tun_args N [] st = Some st"
| "tun_args N [a] (t, o') = (case to_ifname o' of None \<Rightarrow> Some (t, o'\<lparr>to_ifname := Some a\<rparr>) | Some _ \<Rightarrow> None)"
| "tun_args N (a # b # r) (t, o') =
     (if a = ''--tap'' then tun_args N r (t, o'\<lparr>to_tap := Some b\<rparr>)
      else if a = ''--sock'' then tun_args N r (t, o'\<lparr>to_sock := b\<rparr>)
      else if a = ''--key'' then
        (case hex_decode b 32 of
           None \<Rightarrow> None
         | Some seed \<Rightarrow>
             if length seed \<noteq> 32 then None
             else tun_args N r (t\<lparr>tr_sk := seed @ ed25519_seed_to_pub N seed, tr_has_sk := True\<rparr>, o'))
      else if a = ''--server-pub'' then
        (case hex_decode b 32 of
           None \<Rightarrow> None
         | Some pub \<Rightarrow>
             if length pub \<noteq> 32 then None
             else tun_args N r (t\<lparr>tr_server_pub := pub, tr_has_server_pub := True\<rparr>, o'))
      else case to_ifname o' of
             None \<Rightarrow> tun_args N (b # r) (t, o'\<lparr>to_ifname := Some a\<rparr>)
           | Some _ \<Rightarrow> None)"

text \<open>Then the transport is cleared, the interface is looked up (\<open>ifindex\<close>, 0 when there is none), and the
  key file is loaded, unless the transport has a key. The outer \<open>None\<close> is a load that never returns,
  \<open>Inl\<close> an exit code.\<close>

definition tun_start :: "nacl \<Rightarrow> kenv \<Rightarrow> string option list \<Rightarrow> (string \<Rightarrow> int) \<Rightarrow> string list \<Rightarrow> transport \<Rightarrow> world \<Rightarrow>
    (int + transport \<times> tun_opts \<times> world) option" where
  "tun_start N E tty ifindex as junk w =
     (case tun_args N as (junk, \<lparr>to_ifname = None, to_tap = None, to_sock = ''/tmp/ip69.sock''\<rparr>) of
        None \<Rightarrow> Some (Inl 1)
      | Some (t, opts) \<Rightarrow>
          (case to_ifname opts of
             None \<Rightarrow> Some (Inl 1)
           | Some ifname \<Rightarrow>
               let inum = atoi ifname;
                   t = transport0\<lparr>tr_ifindex := (if inum \<noteq> 0 then inum else ifindex ifname)\<rparr>
               in if tr_ifindex t = 0 then Some (Inl 1)
                  else if tr_has_sk t then Some (Inr (t, opts, w))
                  else case keyring_paths E 256 512 512 of (dir, key, pub) \<Rightarrow>
                    (case keyring_load_or_create N E key pub 128 tty w of
                       None \<Rightarrow> None
                     | Some (r, sk, _, w) \<Rightarrow>
                         if r < 0 then Some (Inl 1) else Some (Inr (t\<lparr>tr_sk := sk, tr_has_sk := True\<rparr>, opts, w)))))"

text \<open>One turn of the loop: a renewal when one is due or asked for, then a command. The result has what was
  answered; \<open>None\<close> when the events ran out while waiting for the server.\<close>

record tun =
  tn_t :: transport
  tn_l :: client_lease
  tn_renew :: bool

definition renewal_due :: "tun \<Rightarrow> int \<Rightarrow> bool" where
  "renewal_due s now = (tn_renew s \<or> cl_expiry (tn_l s) - now < uint (cl_sec (tn_l s)) div 3)"

definition tun_renew :: "nacl \<Rightarrow> tun \<Rightarrow> rx_event list \<Rightarrow> world \<Rightarrow> (tun \<times> world) option" where
  "tun_renew N s evs w =
     (if \<not> renewal_due s (w_time w) then Some (s, w)
      else case dhcp_acquire N None (tn_t s) (tn_l s) evs w of
             Acq_Wait _ _ _ \<Rightarrow> None
           | Acq_Ret _ t l _ w \<Rightarrow> Some (\<lparr>tn_t = t, tn_l = l, tn_renew = False\<rparr>, w))"

definition tun_turn :: "nacl \<Rightarrow> string \<Rightarrow> tun \<Rightarrow> rx_event list \<Rightarrow> string option \<Rightarrow> world \<Rightarrow> (tun \<times> string option \<times> world) option" where
  "tun_turn N showname s evs cmd w =
     (case tun_renew N s evs w of
        None \<Rightarrow> None
      | Some (s, w) \<Rightarrow>
          (case cmd of
             None \<Rightarrow> Some (s, None, w)
           | Some rd \<Rightarrow>
               let (ans, rn) = sock_serve (tn_t s) (tn_l s) showname rd (w_time w)
               in Some (s\<lparr>tn_renew := tn_renew s \<or> rn\<rparr>, Some ans, w)))"

end
