(* ===== verification/Keyring_Props.thy ===== *)
theory Keyring_Props
  imports Keyring
begin

text \<open>
  A key pair that was written loads again, with its passphrase and its comment; the identity is
  stable; and a path that is cut by its buffer makes the program call itself for ever.
\<close>

section \<open>Lines and hexadecimal\<close>

lemma until_first [simp]:
  "c \<notin> set s \<Longrightarrow> takeWhile (\<lambda>x. x \<noteq> c) (s @ c # r) = s" "c \<notin> set s \<Longrightarrow> dropWhile (\<lambda>x. x \<noteq> c) (s @ c # r) = c # r"
  by (induction s) auto

definition plain :: "string \<Rightarrow> bool" where
  "plain s \<longleftrightarrow> NL \<notin> set s \<and> CR \<notin> set s \<and> CHR 0x00 \<notin> set s"

lemma plain_app [simp]: "plain (a @ b) \<longleftrightarrow> plain a \<and> plain b"
  by (auto simp: plain_def)

lemma plain_list [simp]: "plain []" "plain (c # s) \<longleftrightarrow> c \<noteq> NL \<and> c \<noteq> CR \<and> c \<noteq> CHR 0x00 \<and> plain s"
  by (auto simp: plain_def)

lemma plain_hex2 [simp]: "plain (hex2 b)"
proof -
  have "plain [hexdig d]" if "d < 16" for d
    using hexdig_cases [OF that] by (auto simp: plain_def hexdig_def)
  from this [of "unat b div 16"] this [of "unat b mod 16"] show ?thesis
    using unat_byte_digits [of b] by (simp add: hex2_def plain_def)
qed

lemma plain_hex [simp]: "plain (hex_encode b)"
  by (induction b) (simp_all add: hex_encode_def)

lemma length_hex_encode [simp]: "length (hex_encode b) = 2 * length b"
  by (simp add: hex_encode_def)

lemma hex_decode_encode [simp]: "length b \<le> m \<Longrightarrow> hex_decode (hex_encode b) m = Some b"
  using hex_decode_from_hex2 [of b "[]"] by (simp add: hex_decode_def hex_encode_def)

lemma c_string_plain: "plain s \<Longrightarrow> c_string (s @ [NL] @ r) = s @ [NL] @ c_string r" "plain s \<Longrightarrow> c_string s = s"
  by (subst (1) c_string_def, subst takeWhile_append2) (auto simp: c_string_def plain_def takeWhile_eq_all_conv)

lemma strip_plain: "plain s \<Longrightarrow> strip_nl (s @ [NL]) = s"
proof -
  assume p: "plain s"
  have "dropWhile (\<lambda>c. c = NL \<or> c = CR) (rev s) = rev s"
  proof (cases "rev s")
    case (Cons c r)
    then have "c \<in> set s" by (metis list.set_intros(1) set_rev)
    then show ?thesis using p Cons by (auto simp: plain_def)
  qed simp
  then show ?thesis by (simp add: strip_nl_def)
qed

text \<open>A line that fits is read as it is.\<close>

lemma read_line_plain: "plain s \<Longrightarrow> length s + 1 < cap \<Longrightarrow> read_line cap (s @ [NL] @ r) = Some (s, r)"
proof -
  assume p: "plain s" and l: "length s + 1 < cap"
  have "fgets cap (s @ [NL] @ r) = Some (s @ [NL], r)" by (rule fgets_line) (use p l in \<open>auto simp: plain_def\<close>)
  then show ?thesis using c_string_plain(1) [OF p, of "[]"] strip_plain [OF p] by (simp add: read_line_def c_string_def)
qed

section \<open>Written keys load\<close>

lemma from_buf_short: "length s \<le> 511 \<Longrightarrow> from_buf s = Some s"
  by (simp add: from_buf_def snprintf_def)

lemma keyring_derive_len: "length (keyring_derive_key N salt p) = 32"
  by (simp add: keyring_derive_key_def)

definition opens :: "kenv \<Rightarrow> string option list \<Rightarrow> string \<Rightarrow> bool" where
  "opens E tty pass \<longleftrightarrow> pass = [] \<or> nonempty (ke_passphrase E) = Some pass \<or>
     nonempty (ke_passphrase E) = None \<and> (\<exists>r. tty = Some pass # r)"

lemma load_comment_written:
  assumes "w_files w pub = Some (hex_encode (slice 0 32 pk) @ '' '' @ comment @ [NL])" "plain comment" "length comment \<le> 445" "length comment < sz"
  shows "load_comment pub sz w = comment"
proof -
  let ?t = "hex_encode (slice 0 32 pk) @ '' '' @ comment @ [NL]"
  have sp: "CHR '' '' \<notin> set (hex2 b)" for b
  proof -
    have "CHR '' '' \<noteq> hexdig d" if "d < 16" for d using hexdig_cases [OF that] by (auto simp: hexdig_def)
    then show ?thesis using unat_byte_digits [of b] by (auto simp: hex2_def)
  qed
  have "CHR '' '' \<notin> set (hex_encode b)" for b by (induction b) (use sp in \<open>auto simp: hex_encode_def\<close>)
  moreover have "c_string ?t = ?t"
    using c_string_plain(1) [of "hex_encode (slice 0 32 pk) @ '' '' @ comment" "[]"] assms(2)
    by (simp add: c_string_def)
  ultimately have "dropWhile (\<lambda>c. c \<noteq> CHR '' '') (c_string ?t) = '' '' @ comment @ [NL]"
    by simp
  moreover have "read_whole pub 1024 w = Some ?t" using assms(1,3) by (simp add: read_whole_def)
  moreover have "takeWhile (\<lambda>c. c \<noteq> NL) (snprintf sz (comment @ [NL])) = comment"
    using assms(2,4) by (cases "sz - Suc (length comment)") (auto simp: snprintf_def plain_def takeWhile_eq_all_conv)
  ultimately show ?thesis by (simp add: load_comment_def)
qed

lemma hex_not_magic: "b \<noteq> [] \<Longrightarrow> take 5 (hex_encode b @ r) \<noteq> KEY_MAGIC"
proof -
  assume "b \<noteq> []"
  then obtain c cs where b: "b = c # cs" by (cases b) auto
  have "hexdig d \<noteq> CHR ''H''" if "d < 16" for d using hexdig_cases [OF that] by (auto simp: hexdig_def)
  then show ?thesis using unat_byte_digits(1) [of c] by (simp add: b hex_encode_def hex2_def)
qed

lemma load_plain:
  assumes "length seed = 32" "w_files w key = Some (hex_encode seed @ [NL])"
  shows "keyring_find N E key pub sz tty w = Found (seed @ ed25519_seed_to_pub N seed) (load_comment pub sz w) tty"
proof -
  let ?t = "hex_encode seed @ [NL]"
  have c: "c_string ?t = ?t" using c_string_plain(1) [of "hex_encode seed" "[]"] by (simp add: c_string_def)
  have ne: "seed \<noteq> []" using assms(1) by auto
  then have "hex_encode seed \<noteq> []" by (cases seed) (simp_all add: hex_encode_def hex2_def)
  moreover have m: "take 5 ?t \<noteq> KEY_MAGIC" by (rule hex_not_magic [OF ne])
  moreover have "takeWhile (\<lambda>c. c \<noteq> NL) ?t = hex_encode seed" using plain_hex [of seed] by (simp add: plain_def)
  moreover have "read_whole key 1024 w = Some ?t" using assms by (simp add: read_whole_def)
  ultimately show ?thesis using assms(1) c by (simp add: keyring_find_def)
qed

lemma load_box:
  assumes "length seed = 32" "length salt = 16" "length nonce = 24" "opens E tty pass" "pass \<noteq> []"
    and f: "w_files w key = Some (KEY_MAGIC @ [NL] @ hex_encode salt @ [NL] @ hex_encode nonce @ [NL] @
        hex_encode (ed25519_secretbox N seed nonce (keyring_derive_key N salt pass)) @ [NL])"
  shows "\<exists>tty'. keyring_find N E key pub sz tty w = Found (seed @ ed25519_seed_to_pub N seed) (load_comment pub sz w) tty'"
proof -
  let ?box = "ed25519_secretbox N seed nonce (keyring_derive_key N salt pass)"
  have lb: "length ?box = 64" using assms(1) by simp
  have p: "plain KEY_MAGIC" by simp
  obtain t where t: "w_files w key = Some t" "t = KEY_MAGIC @ [NL] @ hex_encode salt @ [NL] @ hex_encode nonce @ [NL] @ hex_encode ?box @ [NL]"
    using f by blast
  have r1: "read_line 16 t = Some (KEY_MAGIC, hex_encode salt @ [NL] @ hex_encode nonce @ [NL] @ hex_encode ?box @ [NL])"
    unfolding t(2) by (rule read_line_plain [OF p]) simp
  have r2: "read_line 64 (hex_encode salt @ [NL] @ hex_encode nonce @ [NL] @ hex_encode ?box @ [NL]) =
      Some (hex_encode salt, hex_encode nonce @ [NL] @ hex_encode ?box @ [NL])"
    by (rule read_line_plain) (simp_all add: assms)
  have r3: "read_line 64 (hex_encode nonce @ [NL] @ hex_encode ?box @ [NL]) = Some (hex_encode nonce, hex_encode ?box @ [NL])"
    by (rule read_line_plain) (simp_all add: assms)
  have r4: "read_line 160 (hex_encode ?box @ [NL]) = Some (hex_encode ?box, [])"
    using read_line_plain [of "hex_encode ?box" 160 "[]"] lb by simp
  define unbox where "unbox = (\<lambda>p. ed25519_secretbox_open N ?box 32 nonce (keyring_derive_key N salt p))"
  have "unbox pass = Some seed"
    unfolding unbox_def using secretbox_open_secretbox [of seed N nonce "keyring_derive_key N salt pass" "[]"] assms(1) by simp
  then have "\<exists>tty'. pass_loop 3 unbox (nonempty (ke_passphrase E)) tty = (Some seed, tty')"
    using assms(4,5) by (auto simp: opens_def numeral_3_eq_3)
  then obtain tty' where "pass_loop 3 unbox (nonempty (ke_passphrase E)) tty = (Some seed, tty')" ..
  then have l: "load_encrypted N E key tty w = (Some (seed @ ed25519_seed_to_pub N seed), tty')"
    unfolding load_encrypted_def t(1) option.case r1 prod.case r2 r3 r4 using assms(2,3) lb by (simp add: unbox_def [symmetric])
  have "take 5 (c_string (take 1023 t)) = KEY_MAGIC"
    unfolding t(2) by (simp add: c_string_def)
  moreover have "read_whole key 1024 w = Some (take 1023 t)" "take 1023 t \<noteq> []" using t by (simp_all add: read_whole_def)
  ultimately show ?thesis using l by (simp add: keyring_find_def)
qed

text \<open>A key pair that was written, with or without a passphrase, loads again as the same seed with its
  public key and the same comment, when the variable or the first answer at the terminal
  gives the passphrase. The comment may be anything in one line of up to 445 characters.\<close>

theorem keyring_roundtrip:
  assumes wr: "write_keypair_files N key pub pass comment seed pk w = Some (0, w')"
    and paths: "key \<noteq> pub" and seed: "length seed = 32"
    and comment: "plain comment" "length comment \<le> 445" "length comment < sz"
    and pass: "opens E tty pass"
  shows "keyring_load_or_create N E key pub sz tty w' = Some (0, seed @ ed25519_seed_to_pub N seed, comment, w')"
proof -
  obtain t v where pt: "private_text N pass seed w = (t, v)" by (cases "private_text N pass seed w")
  obtain t' where t': "from_buf t = Some t'" "\<not> w_denied v key" "\<not> w_denied v pub"
    "w' = v\<lparr>w_files := (w_files v)(key := Some t', pub := Some (hex_encode (slice 0 32 pk) @ '' '' @ comment @ [NL]))\<rparr>"
    using wr from_buf_short [of "hex_encode (slice 0 32 pk) @ '' '' @ comment @ [NL]"] comment(2) unfolding write_keypair_files_def pt
    by (auto simp: write_file_def Let_def split: option.splits if_splits)
  have c: "load_comment pub sz w' = comment"
    by (rule load_comment_written [OF _ comment]) (simp add: t'(4))
  have f: "w_files w' key = Some t'" using paths by (simp add: t'(4))
  have "\<exists>tty'. keyring_find N E key pub sz tty w' = Found (seed @ ed25519_seed_to_pub N seed) comment tty'"
  proof (cases "pass = []")
    case True
    then have "t = hex_encode seed @ [NL]" using pt seed by (auto simp: private_text_def)
    then have "t' = hex_encode seed @ [NL]" using t'(1) from_buf_short [of t] seed by simp
    then show ?thesis using load_plain [OF seed] f c by simp
  next
    case False
    obtain salt u where s: "randombytes 16 w = (salt, u)" by (cases "randombytes 16 w")
    obtain nonce u' where n: "randombytes 24 u = (nonce, u')" by (cases "randombytes 24 u")
    have l: "length salt = 16" "length nonce = 24" using length_randombytes [of 16 w] length_randombytes [of 24 u] s n by simp_all
    have "t = KEY_MAGIC @ [NL] @ hex_encode salt @ [NL] @ hex_encode nonce @ [NL] @
        hex_encode (ed25519_secretbox N seed nonce (keyring_derive_key N salt pass)) @ [NL]"
      using pt False seed by (simp add: private_text_def s n)
    moreover from this have "t' = t" using t'(1) from_buf_short [of t] seed l by simp
    ultimately show ?thesis using load_box [OF seed l pass False] f c by metis
  qed
  then show ?thesis by (subst keyring_load_or_create.simps) auto
qed

definition toy_env :: kenv where
  "toy_env = \<lparr>ke_home = Some ''/h'', ke_sudo_user = None, ke_pw_dir = (\<lambda>_. None), ke_keyfile = None,
     ke_passphrase = Some ''secret'', ke_hostname = ''box''\<rparr>"

theorem keyring_roundtrip_witness:
  "\<exists>w'. write_keypair_files toy_nacl ''k'' ''k.pub'' ''secret'' ''me'' (zeros 32) (zeros 32) world0 = Some (0, w') \<and>
     keyring_load_or_create toy_nacl toy_env ''k'' ''k.pub'' 128 [] w' = Some (0, zeros 32 @ ed25519_seed_to_pub toy_nacl (zeros 32), ''me'', w')"
proof -
  obtain t v where pt: "private_text toy_nacl ''secret'' (zeros 32) world0 = (t, v)" by (cases "private_text toy_nacl ''secret'' (zeros 32) world0")
  have "length t = 217" "w_denied v = (\<lambda>_. False)"
    using pt by (auto simp: private_text_def randombytes_def world0_def length_secretbox)
  then have "\<exists>w'. write_keypair_files toy_nacl ''k'' ''k.pub'' ''secret'' ''me'' (zeros 32) (zeros 32) world0 = Some (0, w')"
    using from_buf_short [of t] from_buf_short [of "hex_encode (slice 0 32 (zeros 32)) @ '' '' @ ''me'' @ [NL]"]
    by (simp add: write_keypair_files_def pt write_file_def)
  then obtain w' where w': "write_keypair_files toy_nacl ''k'' ''k.pub'' ''secret'' ''me'' (zeros 32) (zeros 32) world0 = Some (0, w')" ..
  have "opens toy_env [] ''secret''" by (simp add: opens_def toy_env_def nonempty_def)
  then have "keyring_load_or_create toy_nacl toy_env ''k'' ''k.pub'' 128 [] w' =
      Some (0, zeros 32 @ ed25519_seed_to_pub toy_nacl (zeros 32), ''me'', w')"
    by (intro keyring_roundtrip [OF w']) simp_all
  with w' show ?thesis by blast
qed

section \<open>One identity\<close>

lemma load_returns_found:
  assumes "keyring_load_or_create N E key pub sz tty w = Some (0, sk, c, w')"
  shows "\<exists>tty'. keyring_find N E key pub sz tty w' = Found sk c tty'"
proof -
  define P where "P N E key pub sz tty y \<longleftrightarrow>
      (\<forall>r sk c w'. y = (r, sk, c, w') \<and> \<not> r < 0 \<longrightarrow> (\<exists>tty'. keyring_find N E key pub sz tty w' = Found sk c tty'))"
    for N E key pub sz tty and y :: "int \<times> bytes \<times> string \<times> world"
  have "P N E key pub sz tty (0, sk, c, w')"
  proof (rule keyring_load_or_create.raw_induct [where P = "\<lambda>N E key pub sz tty w y. P N E key pub sz tty y", OF _ assms])
    fix f N E key pub sz tty w and y :: "int \<times> bytes \<times> string \<times> world"
    assume IH: "\<And>N E key pub sz tty w y. f N E key pub sz tty w = Some y \<Longrightarrow> P N E key pub sz tty y"
      and y: "(case keyring_find N E key pub sz tty w of
        Found sk c tty \<Rightarrow> Some (0, sk, c, w)
      | Failed tty \<Rightarrow> Some (-1, [], [], w)
      | Absent \<Rightarrow>
          (case keyring_create N key pub [] (take 63 (ke_hostname E)) w of
             None \<Rightarrow> None
           | Some (r, w) \<Rightarrow>
               if r < 0 then Some (-1, [], [], w)
               else Option.bind (f N E key pub sz tty w) (\<lambda>(r, sk, c, w). if r < 0 then Some (-1, [], [], w) else Some (0, sk, c, w)))) = Some y"
    show "P N E key pub sz tty y"
    proof (cases "keyring_find N E key pub sz tty w")
      case Absent
      have "P N E key pub sz tty z \<Longrightarrow> (case z of (r, sk, c, w) \<Rightarrow> if r < 0 then Some (-1, [], [], w) else Some (0, sk, c, w)) = Some y \<Longrightarrow>
          P N E key pub sz tty y" for z
        by (cases z) (auto simp: P_def split: if_splits)
      then show ?thesis using y IH Absent by (auto simp: P_def bind_eq_Some_conv split: option.splits if_splits)
    qed (use y in \<open>auto simp: P_def\<close>)
  qed
  then show ?thesis by (simp add: P_def)
qed

text \<open>The identity is stable: when loading, or making on the first run, has given a key and a comment,
  loading again gives the same and changes nothing.\<close>

theorem keyring_stable:
  assumes "keyring_load_or_create N E key pub sz tty w = Some (0, sk, c, w')"
  shows "keyring_load_or_create N E key pub sz tty w' = Some (0, sk, c, w')"
  using load_returns_found [OF assms] by (subst keyring_load_or_create.simps) auto

section \<open>A path that is cut\<close>

lemma absent_line:
  assumes "w_files w key = Some (hex_encode b @ '' '' @ s @ [NL])" "length b = 32" "length s \<le> 300"
  shows "keyring_find N E key pub sz tty w = Absent"
proof -
  let ?h = "hex_encode b @ '' ''"
  have h: "plain ?h" "length ?h = 65" using assms(2) by simp_all
  have c: "c_string (?h @ r) = ?h @ c_string r" for r
    unfolding c_string_def by (rule takeWhile_append2) (use h(1) in \<open>auto simp: plain_def\<close>)
  have n: "takeWhile (\<lambda>c. c \<noteq> NL) (?h @ r) = ?h @ takeWhile (\<lambda>c. c \<noteq> NL) r" for r
    by (rule takeWhile_append2) (use h(1) in \<open>auto simp: plain_def\<close>)
  have long: "hex_decode (?h @ r) 32 = None" for r 
  proof -
    have "(65 + n) mod 2 \<noteq> 0 \<or> 32 < (65 + n) div 2" for n :: nat by presburger
    then show ?thesis using h(2) by (auto simp: hex_decode_def Let_def)
  qed
  have "read_whole key 1024 w = Some (?h @ s @ [NL])" using assms(1-3) by (simp add: read_whole_def)
  moreover have "take 5 (?h @ r) \<noteq> KEY_MAGIC" for r 
  proof -
    have "b \<noteq> []" using assms(2) by auto
    from hex_not_magic [OF this, of "'' '' @ r"] show ?thesis by simp
  qed
  ultimately show ?thesis using c [of "s @ [NL]"] n [of "c_string (s @ [NL])"] long [of "takeWhile (\<lambda>c. c \<noteq> NL) (c_string (s @ [NL]))"]
    by (simp add: keyring_find_def del: append_assoc)
qed

text \<open>The line of a public key, and what one creation leaves when both files have one path.\<close>

definition public_line :: "bytes \<Rightarrow> string \<Rightarrow> string" where
  "public_line pk host = hex_encode (slice 0 32 pk) @ '' '' @ take 63 host @ [NL]"

definition new_pair :: "nacl \<Rightarrow> world \<Rightarrow> bytes \<times> bytes" where
  "new_pair N w = fst (ed25519_keypair N w)"

lemma create_same_path:
  assumes "\<not> w_denied w key"
  shows "\<exists>v. keyring_create N key key [] (take 63 host) w = Some (0, v) \<and> \<not> w_denied v key \<and>
    w_files v key = Some (public_line (snd (new_pair N w)) host)"
proof -
  obtain sk pk u where k: "ed25519_keypair N w = ((sk, pk), u)" by (metis prod.exhaust)
  then have d: "\<not> w_denied u key" using assms by (auto simp: ed25519_keypair_def randombytes_def Let_def)
  have "from_buf (hex_encode (slice 0 32 sk) @ [NL]) = Some (hex_encode (slice 0 32 sk) @ [NL])"
      "from_buf (hex_encode (slice 0 32 pk) @ '' '' @ take 63 host @ [NL]) = Some (hex_encode (slice 0 32 pk) @ '' '' @ take 63 host @ [NL])"
    by (rule from_buf_short, simp)+
  then show ?thesis
    using d by (simp add: keyring_create_def k write_keypair_files_def private_text_def write_file_def public_line_def new_pair_def)
qed

lemma absent_public: "w_files w key = Some (public_line pk host) \<Longrightarrow> keyring_find N E key pub sz tty w = Absent"
  by (rule absent_line [of w key "slice 0 32 pk" "take 63 host"]) (simp_all add: public_line_def min_le_iff_disj)

text \<open>The rounds of the recursion: \<open>Some v\<close> when the first \<open>n\<close> searches found no key, each was
  followed by a creation that succeeded, and the world is then \<open>v\<close>.\<close>

primrec load_rounds :: "nacl \<Rightarrow> kenv \<Rightarrow> string \<Rightarrow> string \<Rightarrow> nat \<Rightarrow> string option list \<Rightarrow> nat \<Rightarrow> world \<Rightarrow> world option" where
  "load_rounds N E key pub sz tty 0 w = Some w"
| "load_rounds N E key pub sz tty (Suc n) w =
     (case load_rounds N E key pub sz tty n w of
        None \<Rightarrow> None
      | Some v \<Rightarrow>
          (case keyring_find N E key pub sz tty v of
             Absent \<Rightarrow>
               (case keyring_create N key pub [] (take 63 (ke_hostname E)) v of
                  Some (r, v') \<Rightarrow> if r < 0 then None else Some v'
                | None \<Rightarrow> None)
           | _ \<Rightarrow> None))"

lemma load_rounds_same_path:
  assumes "\<not> w_denied w key" "keyring_find N E key key sz tty w = Absent"
  shows "\<exists>v. load_rounds N E key key sz tty n w = Some v \<and> \<not> w_denied v key \<and> keyring_find N E key key sz tty v = Absent"
proof (induction n)
  case (Suc n)
  then obtain v where v: "load_rounds N E key key sz tty n w = Some v" "\<not> w_denied v key" "keyring_find N E key key sz tty v = Absent"
    by blast
  obtain v' where v': "keyring_create N key key [] (take 63 (ke_hostname E)) v = Some (0, v')" "\<not> w_denied v' key"
      "w_files v' key = Some (public_line (snd (new_pair N v)) (ke_hostname E))"
    using create_same_path [OF v(2)] by blast
  show ?case using v v' absent_public [OF v'(3)] by simp
qed (use assms in simp)

lemma same_path_never:
  assumes "\<not> w_denied w key" "keyring_find N E key key sz tty w = Absent"
  shows "keyring_load_or_create N E key key sz tty w = None"
proof (rule ccontr)
  define P where "P N E key pub sz tty w \<longleftrightarrow> \<not> (key = pub \<and> \<not> w_denied w key \<and> keyring_find N E key pub sz tty w = Absent)"
    for N E and key pub :: string and sz tty w
  assume "keyring_load_or_create N E key key sz tty w \<noteq> None"
  then obtain y where y: "keyring_load_or_create N E key key sz tty w = Some y" by auto
  have "P N E key key sz tty w"
  proof (rule keyring_load_or_create.raw_induct [where P = "\<lambda>N E key pub sz tty w y. P N E key pub sz tty w", OF _ y])
    fix f N E key pub sz tty w and y :: "int \<times> bytes \<times> string \<times> world"
    assume IH: "\<And>N E key pub sz tty w y. f N E key pub sz tty w = Some y \<Longrightarrow> P N E key pub sz tty w"
      and y: "(case keyring_find N E key pub sz tty w of
        Found sk c tty \<Rightarrow> Some (0, sk, c, w)
      | Failed tty \<Rightarrow> Some (-1, [], [], w)
      | Absent \<Rightarrow>
          (case keyring_create N key pub [] (take 63 (ke_hostname E)) w of
             None \<Rightarrow> None
           | Some (r, w) \<Rightarrow>
               if r < 0 then Some (-1, [], [], w)
               else Option.bind (f N E key pub sz tty w) (\<lambda>(r, sk, c, w). if r < 0 then Some (-1, [], [], w) else Some (0, sk, c, w)))) = Some y"
    show "P N E key pub sz tty w"
    proof (rule ccontr)
      assume "\<not> P N E key pub sz tty w"
      then have bad: "key = pub" "\<not> w_denied w key" "keyring_find N E key pub sz tty w = Absent" by (simp_all add: P_def)
      obtain v where v: "keyring_create N key key [] (take 63 (ke_hostname E)) w = Some (0, v)" "\<not> w_denied v key"
          "w_files v key = Some (public_line (snd (new_pair N w)) (ke_hostname E))"
        using create_same_path [OF bad(2)] by blast
      have "\<exists>z. f N E key pub sz tty v = Some z" using y v(1) bad by (auto simp: bind_eq_Some_conv)
      then have "P N E key pub sz tty v" using IH by blast
      moreover have "keyring_find N E key pub sz tty v = Absent" by (rule absent_public [OF v(3)])
      ultimately show False using v(2) bad(1) by (simp add: P_def)
    qed
  qed
  then show False using assms by (simp add: P_def)
qed

text \<open>C40: With a key file path of 511 characters or more the paths of both key files are cut to the same
  one. Where no file is there yet and it can be written, every round of loading makes a new
  pair and leaves the line of its public key, and nothing of the private one, at that path;
  no key is found in it, so there is always a next round, and loading never returns.\<close>

theorem long_keyfile_never_returns:
  assumes "ke_keyfile E = Some kf" "CHR ''/'' \<in> set kf" "take 2 kf \<noteq> ''~/''" "511 \<le> length kf"
    and "keyring_paths E 256 512 512 = (dir, key, pub)" "w_files w key = None" "\<not> w_denied w key"
  shows "pub = key \<and> keyring_load_or_create N E key pub sz tty w = None \<and>
    (\<forall>n. \<exists>v v'. load_rounds N E key pub sz tty n w = Some v \<and> keyring_find N E key pub sz tty v = Absent \<and>
       load_rounds N E key pub sz tty (Suc n) w = Some v' \<and>
       w_files v' key = Some (public_line (snd (new_pair N v)) (ke_hostname E)))"
proof -
  have "kf \<noteq> []" using assms(4) by auto
  then have "key = take 511 kf" "pub = take 511 kf"
    using assms(1-5) by (auto simp: keyring_paths_def nonempty_def snprintf_def Let_def min_def)
  then have p: "pub = key" by simp
  have absent: "keyring_find N E key key sz tty w = Absent" using assms(6) by (simp add: keyring_find_def read_whole_def)
  have "\<exists>v v'. load_rounds N E key key sz tty n w = Some v \<and> keyring_find N E key key sz tty v = Absent \<and>
      load_rounds N E key key sz tty (Suc n) w = Some v' \<and>
      w_files v' key = Some (public_line (snd (new_pair N v)) (ke_hostname E))" for n
  proof -
    obtain v where v: "load_rounds N E key key sz tty n w = Some v" "\<not> w_denied v key" "keyring_find N E key key sz tty v = Absent"
      using load_rounds_same_path [OF assms(7) absent] by blast
    obtain v' where "keyring_create N key key [] (take 63 (ke_hostname E)) v = Some (0, v')"
        "w_files v' key = Some (public_line (snd (new_pair N v)) (ke_hostname E))"
      using create_same_path [OF v(2)] by blast
    then show ?thesis using v by simp
  qed
  then show ?thesis using same_path_never [OF assms(7) absent] by (simp add: p del: load_rounds.simps)
qed

text \<open>The first round and the second, at a path of 601 characters.\<close>

theorem long_keyfile_never_returns_witness:
  "let E = toy_env\<lparr>ke_keyfile := Some (CHR ''/'' # replicate 600 CHR ''a'')\<rparr>; k = CHR ''/'' # replicate 510 CHR ''a''
   in keyring_load_or_create toy_nacl E k k 128 [] world0 = None \<and>
     (\<exists>v. load_rounds toy_nacl E k k 128 [] 1 world0 = Some v \<and> keyring_find toy_nacl E k k 128 [] v = Absent)"
proof -
  let ?E = "toy_env\<lparr>ke_keyfile := Some (CHR ''/'' # replicate 600 CHR ''a'')\<rparr>" and ?k = "CHR ''/'' # replicate 510 CHR ''a''"
  have "\<exists>dir. keyring_paths ?E 256 512 512 = (dir, ?k, ?k)"
    by (simp add: keyring_paths_def nonempty_def snprintf_def Let_def min_def)
  then obtain dir where d: "keyring_paths ?E 256 512 512 = (dir, ?k, ?k)" ..
  have "?k = ?k \<and> keyring_load_or_create toy_nacl ?E ?k ?k 128 [] world0 = None \<and>
    (\<forall>n. \<exists>v v'. load_rounds toy_nacl ?E ?k ?k 128 [] n world0 = Some v \<and> keyring_find toy_nacl ?E ?k ?k 128 [] v = Absent \<and>
       load_rounds toy_nacl ?E ?k ?k 128 [] (Suc n) world0 = Some v' \<and>
       w_files v' ?k = Some (public_line (snd (new_pair toy_nacl v)) (ke_hostname ?E)))"
    by (rule long_keyfile_never_returns [OF _ _ _ _ d, where kf = "CHR ''/'' # replicate 600 CHR ''a''"]) (simp_all add: world0_def)
  then have "keyring_load_or_create toy_nacl ?E ?k ?k 128 [] world0 = None"
    "\<exists>v. load_rounds toy_nacl ?E ?k ?k 128 [] 1 world0 = Some v \<and> keyring_find toy_nacl ?E ?k ?k 128 [] v = Absent" by blast+
  then show ?thesis unfolding Let_def by (rule conjI)
qed

theorem keyring_stable_witness:
  "\<exists>sk c w'. keyring_load_or_create toy_nacl toy_env ''k'' ''k.pub'' 128 [] w' = Some (0, sk, c, w')"
proof -
  obtain w' where "keyring_load_or_create toy_nacl toy_env ''k'' ''k.pub'' 128 [] w' = Some (0, zeros 32 @ ed25519_seed_to_pub toy_nacl (zeros 32), ''me'', w')"
  proof -
    let ?w = "world0\<lparr>w_files := [''k'' \<mapsto> hex_encode (zeros 32) @ [NL], ''k.pub'' \<mapsto> hex_encode (slice 0 32 (zeros 32)) @ '' '' @ ''me'' @ [NL]]\<rparr>"
    have "load_comment ''k.pub'' 128 ?w = ''me''" by (rule load_comment_written [where pk = "zeros 32"]) simp_all
    then have "keyring_find toy_nacl toy_env ''k'' ''k.pub'' 128 [] ?w = Found (zeros 32 @ ed25519_seed_to_pub toy_nacl (zeros 32)) ''me'' []"
      by (subst load_plain) simp_all
    then have "keyring_load_or_create toy_nacl toy_env ''k'' ''k.pub'' 128 [] ?w = Some (0, zeros 32 @ ed25519_seed_to_pub toy_nacl (zeros 32), ''me'', ?w)"
      by (subst keyring_load_or_create.simps) simp
    then show thesis by (rule that)
  qed
  from keyring_stable [OF this] show ?thesis by blast
qed

end
