(* ===== verification/Dhcp_Exchange.thy ===== *)
theory Dhcp_Exchange
  imports Dhcp_Options Dhcp_Client Keyring_Props
begin

text \<open>
  The client and the server together: an exchange in which nothing is lost leaves the client with
  the address of which the server's table names it the holder; and what the client accepts when
  it is asked to check the server.
\<close>

section \<open>Frames of the client\<close>

lemma raw_frame:
  assumes "length m = 6"
  shows "drop 46 (dhcp_raw_frame m p) = p" "length (dhcp_raw_frame m p) = 46 + length p"
    "next_header (hdr_at (drop 14 (dhcp_raw_frame m p))) = IPV69_NEXT_CONTROL"
    "ipv69_addr_get (dest (hdr_at (drop 14 (dhcp_raw_frame m p)))) = IPV69_BCAST_ADDR"
proof -
  let ?h = "\<lparr>ver_traffic = push_bit 4 6 OR 9, dscp_ecn = 0, payload_len = of_nat (length p), flow_id = 0,
       next_header = IPV69_NEXT_CONTROL, hop_limit = 64, flags = 0, reserved = 0, src_port = 0, dst_port = 0,
       sequence = zeros 4, source = ipv69_addr_put 0, source_res = zeros 2, dest = ipv69_addr_put IPV69_BCAST_ADDR,
       dest_res = zeros 2\<rparr>"
  have w: "hdr_wf ?h" by (simp add: hdr_wf_def)
  have l: "length (hdr_bytes ?h) = 32" by (rule length_hdr_bytes [OF w])
  have f: "dhcp_raw_frame m p = (bcast_mac @ m @ ipv69_put_be16 0x6969) @ hdr_bytes ?h @ p"
    by (simp only: dhcp_raw_frame_def eth_bytes_def ethernet_header.select_convs append_assoc)
  have e: "length (bcast_mac @ m @ ipv69_put_be16 0x6969) = 14" using assms by simp
  show "drop 46 (dhcp_raw_frame m p) = p" "length (dhcp_raw_frame m p) = 46 + length p"
    unfolding f using l e by simp_all
  have d: "drop 14 (dhcp_raw_frame m p) = hdr_bytes ?h @ p" unfolding f using e by simp
  have h: "hdr_at (drop 14 (dhcp_raw_frame m p)) = ?h" unfolding d by (rule hdr_at_hdr_bytes [OF w])
  show "next_header (hdr_at (drop 14 (dhcp_raw_frame m p))) = IPV69_NEXT_CONTROL"
    "ipv69_addr_get (dest (hdr_at (drop 14 (dhcp_raw_frame m p)))) = IPV69_BCAST_ADDR"
    unfolding h using addr_get_40 [of IPV69_BCAST_ADDR "[]"] by simp_all
qed

lemma recv_raw:
  assumes "length m = 6" "p \<noteq> []" "length p \<le> 1400"
  shows "recv_ctrl (rx (dhcp_raw_frame m p) t ms) = Some (p, IPV69_BCAST_ADDR)"
proof -
  note F = raw_frame [OF assms(1), of p]
  have r: "l2_recv [] 1500 1000 (rx (dhcp_raw_frame m p) t ms) = Rx_Len (46 + length p) (dhcp_raw_frame m p)"
    using l2_recv_rx [of "dhcp_raw_frame m p" 1500 "[]" 1000 t ms] F(2) assms(3) by simp
  have n: "\<not> 46 + length p < 14 + 32 + 1" using assms(2) by (cases p) simp_all
  have t: "take (46 + length p) (dhcp_raw_frame m p) = dhcp_raw_frame m p" using F(2) by simp
  show ?thesis
    unfolding recv_ctrl_def r rx_result.case Let_def if_not_P [OF n] F(3,4) t using F(1) by simp
qed

section \<open>Frames of the server\<close>

lemma raw_recv_ctrl:
  assumes "length (dh_mac c) = 6" "length m = 6" "slice 1 6 pl = m" "16 \<le> length pl" "length pl \<le> 1500"
  shows "dhcp_raw_recv m (rx (dhcp_frame c m pl) t ms) = Raw_Payload pl"
proof -
  note F = built_frame [OF assms(2,1), of IPV69_SERVER_ADDR IPV69_BCAST_ADDR IPV69_NEXT_CONTROL 64 0 0 pl, folded dhcp_frame_def]
  have t: "take 1600 (dhcp_frame c m pl) = dhcp_frame c m pl" using F(4) assms(5) by simp
  have n: "\<not> length (dhcp_frame c m pl) < 14 + 32 + 7" using F(4) assms(4) by simp
  show ?thesis
    unfolding dhcp_raw_recv_def rx_def rx_event.select_convs recv_result.case t Let_def if_not_P [OF n] F(5)
    using F(3) assms(3) by simp
qed

text \<open>The client takes what the server signed.\<close>

definition trusts :: "nacl \<Rightarrow> transport \<Rightarrow> dhcp_ctx \<Rightarrow> bool" where
  "trusts N t c \<longleftrightarrow> \<not> tr_has_server_pub t \<or> dh_has_sk c \<and> key_ok N (dh_sk c) \<and> tr_server_pub t = slice 32 32 (dh_sk c)"

lemma offer_parts:
  assumes "length m = 6"
  shows "bget (offer_msg N c ty m a) 0 = ty" "slice 1 6 (offer_msg N c ty m a) = m"
    "ipv69_addr_get (drop 7 (offer_msg N c ty m a)) = take_bit 40 a"
    "ipv69_get_be32 (drop 12 (offer_msg N c ty m a)) = dh_lease_sec c"
    "16 \<le> length (offer_msg N c ty m a)" "length (offer_msg N c ty m a) \<le> 112"
  using assms by (simp_all add: offer_msg_def sign_msg_def codec_simps)

lemma check_offer:
  assumes "sign_ok N" "trusts N t c" "length m = 6"
  shows "check_reply N t (offer_msg N c ty m a)"
proof (cases "tr_has_server_pub t")
  case True
  let ?b = "[ty] @ m @ ipv69_addr_put a @ ipv69_put_be32 (dh_lease_sec c)"
  have k: "dh_has_sk c" "key_ok N (dh_sk c)" "tr_server_pub t = slice 32 32 (dh_sk c)" using True assms(2) by (simp_all add: trusts_def)
  have o: "offer_msg N c ty m a = sign_append N ?b (dh_sk c)" by (simp add: offer_msg_def sign_msg_def k(1) sign_append_def)
  have b: "length ?b = 16" using assms(3) by simp
  note P = signed_parts [OF o]
  have l: "\<not> length (offer_msg N c ty m a) < 16 + 96" using P(5) b by simp
  have s: "ed25519_verify N ?b (ed25519_sign N ?b (dh_sk c)) (slice 32 32 (dh_sk c)) = 0"
    using verify_signed [OF assms(1) k(2), of ?b "[]"] by simp
  show ?thesis using s unfolding check_reply_def Let_def if_not_P [OF l] P(1-4) k(3) by simp
qed (simp add: check_reply_def)

lemma wait_offer:
  assumes "check_reply N t (offer_msg N c ty (tr_mac t) a)" "length (tr_mac t) = 6" "length (dh_mac c) = 6"
    and e: "ev = rx (dhcp_frame c (tr_mac t) (offer_msg N c ty (tr_mac t) a)) tm ms"
  shows "dhcp_wait N t ty (ev # evs) w = Rep_Got (offer_msg N c ty (tr_mac t) a) evs (at_event ev w)"
proof -
  note O = offer_parts [OF assms(2), of N c ty a]
  have r: "dhcp_raw_recv (tr_mac t) ev = Raw_Payload (offer_msg N c ty (tr_mac t) a)"
    unfolding e by (rule raw_recv_ctrl [OF assms(3,2)]) (use O in simp_all)
  show ?thesis using O assms(1) by (simp add: r)
qed

section \<open>The server's turn\<close>

lemma admits_same: "same_server c e \<Longrightarrow> dhcp_admits c pub m \<Longrightarrow> dhcp_admits e pub m"
  by (auto simp: same_server_def dhcp_admits_def mac_allowed_def)

lemma trusts_same: "same_server c e \<Longrightarrow> trusts N t e = trusts N t c"
  by (auto simp: same_server_def trusts_def)

lemma offer_same: "same_server c e \<Longrightarrow> offer_msg N e ty m a = offer_msg N c ty m a" "same_server c e \<Longrightarrow> dhcp_frame e m pl = dhcp_frame c m pl"
  by (simp_all add: same_server_def offer_msg_def sign_msg_def dhcp_frame_def)

lemma same_trans: "same_server c d \<Longrightarrow> same_server d e \<Longrightarrow> same_server c e"
  by (auto simp: same_server_def)

lemma server_turn:
  assumes N: "sign_ok N" "key_ok N sk" and msg: "msg = sign_append N body sk" and b: "7 \<le> length body" "length body \<le> 1000"
    and m: "length m = 6" "slice 1 6 msg = m" and adm: "dhcp_admits c (slice 32 32 sk) m"
    and rate: "rate_allow (w_rate v) ms (m @ [0, 0]) 10 20 1 = (True, rt)"
  obtains e v' where
    "bget msg 0 = IPV69_CTRL_DHCP_DISCOVER \<Longrightarrow>
      dhcpd_turn N False (rx (dhcp_raw_frame m (dhcp_tagged N msg)) t ms) (c, v) = dhcp_discover N e (dhcp_tagged N msg) v'"
    "bget msg 0 = IPV69_CTRL_DHCP_REQUEST \<Longrightarrow>
      dhcpd_turn N False (rx (dhcp_raw_frame m (dhcp_tagged N msg)) t ms) (c, v) = dhcp_request N e (dhcp_tagged N msg) v'"
    "same_server c e" "dh_leases e = dh_leases c" "dh_pool_start e = dh_pool_start c" "dh_pool_end e = dh_pool_end c"
    "length (dh_peers c) \<le> 64 \<Longrightarrow> length (dh_peers e) \<le> 64"
    "w_out v' = w_out v" "tx_ok v' = tx_ok v" "w_time v' = t" "w_rate v' = rt"
proof -
  let ?p = "dhcp_tagged N msg" and ?ev = "rx (dhcp_raw_frame m (dhcp_tagged N msg)) t ms"
  have l: "7 \<le> length msg" "length ?p \<le> 1400" "?p \<noteq> []"
    using signed_parts(5) [OF msg] b by (auto simp: dhcp_tagged_def)
  have turn: "dhcpd_turn N False ?ev (c, v) = dhcp_rx N c ?p IPV69_BCAST_ADDR (at_event ?ev v)"
    using recv_raw [OF m(1) l(3,2), of t ms] by (simp add: dhcpd_turn_def Let_def split: option.split)
  define u where "u = (at_event ?ev v)\<lparr>w_rate := rt\<rparr>"
  have u: "w_out u = w_out v" "tx_ok u = tx_ok v" "w_time u = t" "w_rate u = rt"
    by (simp_all add: u_def tx_ok_def at_event_def rx_def)
  have r: "rate_allow_g (slice 1 6 msg @ [0, 0]) 10 20 1 (at_event ?ev v) = (True, u)"
    using rate unfolding m(2) by (simp add: rate_allow_g_def u_def)
  have al: "mac_allowed c (slice 1 6 msg)" using adm unfolding m(2) by (simp add: dhcp_admits_def)
  obtain e v' where e: "check_msg N c msg m u = (True, e, v')" "dh_leases e = dh_leases c" "same_server c e"
      "dh_pool_start e = dh_pool_start c" "dh_pool_end e = dh_pool_end c" "w_out v' = w_out u" "tx_ok v' = tx_ok u"
      "w_time v' = w_time u" "w_rate v' = w_rate u"
    by (rule check_admitted [OF N msg b(1) adm])
  have p: "?p = msg @ mac1_compute N (mac1_key N IPV69_BCAST_ADDR) msg" by (simp add: dhcp_tagged_def)
  note rx = dhcp_rx_tagged [OF p l(1) r al e(1) [folded m(2)]]
  show ?thesis
    by (rule that [of e v']) (use e u rx turn check_msg_same(3) [OF e(1)] in simp_all)
qed

section \<open>An exchange\<close>

lemma client_msg: "tr_has_sk t \<Longrightarrow> client_sign_msg N t body = sign_append N body (tr_sk t)"
  by (simp add: client_sign_msg_def sign_append_def)

lemma raw_send_ok:
  "tx_ok w \<Longrightarrow> dhcp_raw_send m p w = (0, w\<lparr>w_txn := Suc (w_txn w), w_out := w_out w @ [L2 bcast_mac (dhcp_raw_frame m p)]\<rparr>)"
  by (simp add: dhcp_raw_send_def transmit_ok)

definition discover_of :: "nacl \<Rightarrow> transport \<Rightarrow> bytes" where
  "discover_of N t = sign_append N ([IPV69_CTRL_DHCP_DISCOVER] @ tr_mac t) (tr_sk t)"

definition request_of :: "nacl \<Rightarrow> transport \<Rightarrow> u64 \<Rightarrow> bytes" where
  "request_of N t a = sign_append N ([IPV69_CTRL_DHCP_REQUEST] @ tr_mac t @ ipv69_addr_put a) (tr_sk t)"

text \<open>The client's side: two good answers make a lease.\<close>

lemma client_exchange:
  assumes t: "tr_open t" "tr_has_sk t" "length (tr_mac t) = 6" "length (dh_mac c) = 6" "tx_ok w"
    and chk: "\<And>ty. check_reply N t (offer_msg N c ty (tr_mac t) a)" and a: "take_bit 40 a = a"
  obtains w' where
    "dhcp_acquire N None t l [rx (dhcp_frame c (tr_mac t) (offer_msg N c IPV69_CTRL_DHCP_OFFER (tr_mac t) a)) t2 ms2,
        rx (dhcp_frame c (tr_mac t) (offer_msg N c IPV69_CTRL_DHCP_ACK (tr_mac t) a)) t4 ms4] w =
      Acq_Ret 0 t \<lparr>cl_addr = a, cl_sec = dh_lease_sec c, cl_expiry = t4 + uint (dh_lease_sec c)\<rparr> [] w'"
    "w_out w' = w_out w @ [L2 bcast_mac (dhcp_raw_frame (tr_mac t) (dhcp_tagged N (discover_of N t))),
       L2 bcast_mac (dhcp_raw_frame (tr_mac t) (dhcp_tagged N (request_of N t a)))]"
proof -
  let ?m = "tr_mac t"
  let ?e2 = "rx (dhcp_frame c ?m (offer_msg N c IPV69_CTRL_DHCP_OFFER ?m a)) t2 ms2"
  let ?e4 = "rx (dhcp_frame c ?m (offer_msg N c IPV69_CTRL_DHCP_ACK ?m a)) t4 ms4"
  note O = offer_parts [OF t(3), of N c]
  define w1 where "w1 = w\<lparr>w_txn := Suc (w_txn w), w_out := w_out w @ [L2 bcast_mac (dhcp_raw_frame ?m (dhcp_tagged N (discover_of N t)))]\<rparr>"
  have s1: "dhcp_raw_send ?m (dhcp_tagged N (discover_of N t)) w = (0, w1)" by (simp add: raw_send_ok [OF t(5)] w1_def)
  define w2 where "w2 = at_event ?e2 w1"
  have try2: "dhcp_try N t IPV69_CTRL_DHCP_OFFER msg 3 False l [?e2, ?e4] w1 = Inl (offer_msg N c IPV69_CTRL_DHCP_OFFER ?m a, [?e4], w2)" for msg
    unfolding numeral_3_eq_3 dhcp_try.simps Let_def if_False wait_offer [OF chk t(3,4) refl] by (simp add: w2_def)
  have w2: "tx_ok w2" "w_time w2 = t2" "w_out w2 = w_out w1" using t(5) by (simp_all add: w2_def w1_def tx_ok_def at_event_def)
  define l2 where "l2 = offer_lease (offer_msg N c IPV69_CTRL_DHCP_OFFER ?m a) (w_time w2)"
  have l2: "cl_addr l2 = a" "cl_sec l2 = dh_lease_sec c" by (simp_all add: l2_def offer_lease_def Let_def O a)
  define w3 where "w3 = w2\<lparr>w_txn := Suc (w_txn w2), w_out := w_out w2 @ [L2 bcast_mac (dhcp_raw_frame ?m (dhcp_tagged N (request_of N t a)))]\<rparr>"
  have s3: "dhcp_raw_send ?m (dhcp_tagged N (request_of N t a)) w2 = (0, w3)" by (simp add: raw_send_ok [OF w2(1)] w3_def)
  define w4 where "w4 = at_event ?e4 w3"
  have try4: "dhcp_try N t IPV69_CTRL_DHCP_ACK msg 3 False l [?e4] w3 = Inl (offer_msg N c IPV69_CTRL_DHCP_ACK ?m a, [], w4)" for msg l
    unfolding numeral_3_eq_3 dhcp_try.simps Let_def if_False wait_offer [OF chk t(3,4) refl] by (simp add: w4_def)
  have r: "client_sign_msg N t ([IPV69_CTRL_DHCP_DISCOVER] @ ?m) = discover_of N t"
      "client_sign_msg N t ([IPV69_CTRL_DHCP_REQUEST] @ ?m @ ipv69_addr_put a) = request_of N t a"
    by (simp_all only: client_msg [OF t(2)] discover_of_def request_of_def)
  have "dhcp_acquire N None t l [?e2, ?e4] w = Acq_Ret 0 t (l2\<lparr>cl_expiry := w_time w4 + uint (cl_sec l2)\<rparr>) [] w4"
    unfolding dhcp_acquire_def if_P [OF t(1)] option.case Let_def r(1) s1 prod.case try2 sum.case l2_def [symmetric] l2(1) r(2) s3 try4
    by simp
  moreover have "l2\<lparr>cl_expiry := w_time w4 + uint (cl_sec l2)\<rparr> = \<lparr>cl_addr = a, cl_sec = dh_lease_sec c, cl_expiry = t4 + uint (dh_lease_sec c)\<rparr>"
    using l2 by (intro client_lease.equality) (simp_all add: w4_def)
  moreover have "w_out w4 = w_out w @ [L2 bcast_mac (dhcp_raw_frame ?m (dhcp_tagged N (discover_of N t))),
       L2 bcast_mac (dhcp_raw_frame ?m (dhcp_tagged N (request_of N t a)))]"
    by (simp add: w4_def w3_def w2(3) w1_def)
  ultimately show ?thesis by (intro that) simp_all
qed

text \<open>A server and a host that can use it: keys, MACs, a pool of 40-bit addresses that is large enough, and a
  host that is admitted.\<close>

definition dhcp_segment :: "nacl \<Rightarrow> transport \<Rightarrow> dhcp_ctx \<Rightarrow> bool" where
  "dhcp_segment N t c \<longleftrightarrow> tr_open t \<and> tr_has_sk t \<and> key_ok N (tr_sk t) \<and> length (tr_mac t) = 6 \<and> length (dh_mac c) = 6 \<and>
     trusts N t c \<and> dhcp_admits c (slice 32 32 (tr_sk t)) (tr_mac t) \<and>
     pool_ok c \<and> 65 \<le> pool_size c \<and> dh_pool_end c < 2 ^ 40"

lemma small_40: "(a :: u64) < 2 ^ 40 \<Longrightarrow> take_bit 40 a = a"
  by (rule word_unat_eq_iff [THEN iffD2]) (simp add: word_less_nat_alt unsigned_take_bit_eq take_bit_nat_eq_self)

lemma discover_of_parts:
  assumes "length (tr_mac t) = 6"
  shows "slice 1 6 (discover_of N t) = tr_mac t" "bget (discover_of N t) 0 = IPV69_CTRL_DHCP_DISCOVER"
    "slice 1 6 (dhcp_tagged N (discover_of N t)) = tr_mac t"
  using assms by (simp_all add: discover_of_def sign_append_def dhcp_tagged_def)

lemma request_of_parts:
  assumes "length (tr_mac t) = 6"
  shows "slice 1 6 (request_of N t a) = tr_mac t" "bget (request_of N t a) 0 = IPV69_CTRL_DHCP_REQUEST"
    "slice 1 6 (dhcp_tagged N (request_of N t a)) = tr_mac t"
    "ipv69_addr_get (drop 7 (dhcp_tagged N (request_of N t a))) = take_bit 40 a"
  using assms by (simp_all add: request_of_def sign_append_def dhcp_tagged_def addr_get_40)

text \<open>The server's first turn.\<close>

lemma server_offers:
  assumes N: "sign_ok N" and seg: "dhcp_segment N t c" and tab: "lease_table c" and new: "lease_find c (tr_mac t) = None"
    and tx: "tx_ok v" and live: "card (live_leases c t1) \<le> 64"
    and rate: "rate_allow (w_rate v) ms (tr_mac t @ [0, 0]) 10 20 1 = (True, rt)"
  obtains c2 v2 i a where
    "dhcpd_turn N False (rx (dhcp_raw_frame (tr_mac t) (dhcp_tagged N (discover_of N t))) t1 ms) (c, v) = Some (c2, v2)"
    "w_out v2 = w_out v @ [L2 (tr_mac t) (dhcp_frame c (tr_mac t) (offer_msg N c IPV69_CTRL_DHCP_OFFER (tr_mac t) a))]"
    "tx_ok v2" "w_rate v2 = rt" "lease_table c2" "same_server c c2" "holds c2 i (tr_mac t) a (lease_end c t1)"
    "\<not> lease_addr_taken c a t1" "dh_pool_start c \<le> a" "a \<le> dh_pool_end c" "take_bit 40 a = a"
proof -
  let ?m = "tr_mac t"
  have s: "key_ok N (tr_sk t)" "length ?m = 6" "dhcp_admits c (slice 32 32 (tr_sk t)) ?m" "pool_ok c" "65 \<le> pool_size c" "dh_pool_end c < 2 ^ 40"
    using seg by (simp_all add: dhcp_segment_def)
  note D = discover_of_parts [OF s(2), of N]
  have b: "7 \<le> length ([IPV69_CTRL_DHCP_DISCOVER] @ ?m)" "length ([IPV69_CTRL_DHCP_DISCOVER] @ ?m) \<le> 1000" using s(2) by simp_all
  obtain e v' where e: "dhcpd_turn N False (rx (dhcp_raw_frame ?m (dhcp_tagged N (discover_of N t))) t1 ms) (c, v) =
        dhcp_discover N e (dhcp_tagged N (discover_of N t)) v'" "same_server c e" "dh_leases e = dh_leases c"
      "dh_pool_start e = dh_pool_start c" "dh_pool_end e = dh_pool_end c" "length (dh_peers c) \<le> 64 \<Longrightarrow> length (dh_peers e) \<le> 64"
      "w_out v' = w_out v" "tx_ok v' = tx_ok v" "w_time v' = t1" "w_rate v' = rt"
    by (rule server_turn [OF N s(1) discover_of_def b s(2) D(1) s(3) rate, of t1]) (use D(2) in blast)
  have e': "pool_ok e" "65 \<le> pool_size e" "card (live_leases e (w_time v')) \<le> 64" "lease_table e" "tx_ok v'" "lease_find e ?m = None"
    "lease_end e t1 = lease_end c t1" "lease_addr_taken e a t1 = lease_addr_taken c a t1" for a
    using s(4,5) live tab tx new e by (simp_all add: pool_ok_def live_leases_def lease_table_def lease_find_def lease_end_def
        same_server_def lease_addr_taken_def)
  obtain c2 i a where c2: "dhcp_discover N e (dhcp_tagged N (discover_of N t)) v' = Some (c2, v'\<lparr>w_txn := Suc (w_txn v'),
       w_out := w_out v' @ [L2 ?m (dhcp_frame e ?m (offer_msg N e IPV69_CTRL_DHCP_OFFER ?m a))]\<rparr>)"
    "i < 256" "holds c2 i ?m a (lease_end e (w_time v'))" "lease_table c2" "same_server e c2"
    "\<not> lease_addr_taken e a (w_time v') \<and> dh_pool_start e \<le> a \<and> a \<le> dh_pool_end e"
    using discover_grants [OF e'(1-5) D(3), of N] e'(6) by metis
  have a: "\<not> lease_addr_taken c a t1" "dh_pool_start c \<le> a" "a \<le> dh_pool_end c" using c2(6) e' e by simp_all
  then have "a < 2 ^ 40" using s(6) by simp
  then have a40: "take_bit 40 a = a" by (rule small_40)
  show ?thesis
    by (rule that [OF trans [OF e(1) c2(1)] _ _ _ c2(4) same_trans [OF e(2) c2(5)] _ a a40])
      (use c2(3) e e' tx in \<open>simp_all add: offer_same [OF e(2)] tx_ok_def\<close>)
qed

text \<open>Its second turn, when the host asks for what it holds.\<close>

lemma server_acks:
  assumes N: "sign_ok N" and t: "key_ok N (tr_sk t)" "length (tr_mac t) = 6" "dhcp_admits c (slice 32 32 (tr_sk t)) (tr_mac t)"
    and tab: "lease_table c" and h: "holds c i (tr_mac t) a x" "take_bit 40 a = a" and tx: "tx_ok v"
    and rate: "rate_allow (w_rate v) ms (tr_mac t @ [0, 0]) 10 20 1 = (True, rt)"
  obtains c4 v4 where
    "dhcpd_turn N False (rx (dhcp_raw_frame (tr_mac t) (dhcp_tagged N (request_of N t a))) t3 ms) (c, v) = Some (c4, v4)"
    "w_out v4 = w_out v @ [L2 (tr_mac t) (dhcp_frame c (tr_mac t) (offer_msg N c IPV69_CTRL_DHCP_ACK (tr_mac t) a))]"
    "holds c4 i (tr_mac t) a (lease_end c t3)"
proof -
  let ?m = "tr_mac t"
  note R = request_of_parts [OF t(2), of N a]
  have b: "7 \<le> length ([IPV69_CTRL_DHCP_REQUEST] @ ?m @ ipv69_addr_put a)" "length ([IPV69_CTRL_DHCP_REQUEST] @ ?m @ ipv69_addr_put a) \<le> 1000"
    using t(2) by simp_all
  obtain e v' where e: "dhcpd_turn N False (rx (dhcp_raw_frame ?m (dhcp_tagged N (request_of N t a))) t3 ms) (c, v) =
        dhcp_request N e (dhcp_tagged N (request_of N t a)) v'" "same_server c e" "dh_leases e = dh_leases c"
      "length (dh_peers c) \<le> 64 \<Longrightarrow> length (dh_peers e) \<le> 64"
      "w_out v' = w_out v" "tx_ok v' = tx_ok v" "w_time v' = t3"
    by (rule server_turn [OF N t(1) request_of_def b t(2) R(1) t(3) rate, of t3]) (use R(2) in blast)
  have e': "lease_table e" "lease_find e ?m = Some i" "le_addr (dh_leases e ! i) = a" "tx_ok v'" "lease_end e t3 = lease_end c t3" "i < 256"
      "length (dh_leases e) = 256"
    using tab tx h e by (simp_all add: lease_table_def holds_def lease_find_def lease_end_def same_server_def)
      (use h(1) in \<open>simp add: holds_def lease_find_Some\<close>)
  define d where "d = upd_lease i (\<lambda>l. l\<lparr>le_expiry := lease_end e t3\<rparr>) e"
  have al: "lease_alloc e ?m (w_time v') = Some (True, d)" using alloc_renew [OF e'(2)] by (simp add: d_def e(7))
  have hd: "holds d i ?m a (lease_end e t3)" using e' by (simp add: holds_def d_def lease_find_upd)
  define v4 where "v4 = v'\<lparr>w_txn := Suc (w_txn v'), w_out := w_out v' @ [L2 ?m (dhcp_frame e ?m (offer_msg N e IPV69_CTRL_DHCP_ACK ?m a))]\<rparr>"
  have req: "a = ipv69_addr_get (drop 7 (dhcp_tagged N (request_of N t a)))" using R(4) h(2) by simp
  from request_answered [OF al e'(1) R(3) e'(4) hd req _ v4_def]
  obtain c4 where c4: "dhcp_request N e (dhcp_tagged N (request_of N t a)) v' = Some (c4, v4)" "holds c4 i ?m a (lease_end e t3)"
    by blast
  show ?thesis
    by (rule that [OF trans [OF e(1) c4(1)]]) (use c4(2) e e' in \<open>simp_all add: v4_def offer_same [OF e(2)]\<close>)
qed

text \<open>C14: Acquiring a lease works: when the host and the server see exactly the other's frames, at any times, the
  client returns success after two frames each with an address of the pool that nobody held,
  the lease time of the server, and the server's table names the host as the holder of that
  address until the time the server promised. If the client was given the server's key, it
  checked it.\<close>

theorem dhcp_lease_obtained:
  assumes N: "sign_ok N" and seg: "dhcp_segment N t c" and tab: "lease_table c" "lease_find c (tr_mac t) = None"
    and tx: "tx_ok w" "tx_ok v" and live: "card (live_leases c t1) \<le> 64"
    and rate: "rate_allow (w_rate v) ms1 (tr_mac t @ [0, 0]) 10 20 1 = (True, rt)"
      "rate_allow rt ms3 (tr_mac t @ [0, 0]) 10 20 1 = (True, rt')"
  shows "\<exists>disc offer req ack a w' c2 v2 c4 v4 i.
    dhcp_acquire N None t l [rx offer t2 ms2, rx ack t4 ms4] w =
      Acq_Ret 0 t \<lparr>cl_addr = a, cl_sec = dh_lease_sec c, cl_expiry = t4 + uint (dh_lease_sec c)\<rparr> [] w' \<and>
    w_out w' = w_out w @ [L2 bcast_mac disc, L2 bcast_mac req] \<and>
    dhcpd_turn N False (rx disc t1 ms1) (c, v) = Some (c2, v2) \<and> w_out v2 = w_out v @ [L2 (tr_mac t) offer] \<and>
    dhcpd_turn N False (rx req t3 ms3) (c2, v2) = Some (c4, v4) \<and> w_out v4 = w_out v2 @ [L2 (tr_mac t) ack] \<and>
    holds c4 i (tr_mac t) a (t3 + uint (dh_lease_sec c)) \<and>
    \<not> lease_addr_taken c a t1 \<and> dh_pool_start c \<le> a \<and> a \<le> dh_pool_end c"
proof -
  let ?m = "tr_mac t"
  have s: "tr_open t" "tr_has_sk t" "key_ok N (tr_sk t)" "length ?m = 6" "length (dh_mac c) = 6" "trusts N t c" "dhcp_admits c (slice 32 32 (tr_sk t)) ?m"
    using seg by (simp_all add: dhcp_segment_def)
  obtain c2 v2 i a where c2:
    "dhcpd_turn N False (rx (dhcp_raw_frame ?m (dhcp_tagged N (discover_of N t))) t1 ms1) (c, v) = Some (c2, v2)"
    "w_out v2 = w_out v @ [L2 ?m (dhcp_frame c ?m (offer_msg N c IPV69_CTRL_DHCP_OFFER ?m a))]"
    "tx_ok v2" "w_rate v2 = rt" "lease_table c2" "same_server c c2" "holds c2 i ?m a (lease_end c t1)"
    "\<not> lease_addr_taken c a t1" "dh_pool_start c \<le> a" "a \<le> dh_pool_end c" "take_bit 40 a = a"
    by (rule server_offers [OF N seg tab tx(2) live rate(1)])
  obtain c4 v4 where c4:
    "dhcpd_turn N False (rx (dhcp_raw_frame ?m (dhcp_tagged N (request_of N t a))) t3 ms3) (c2, v2) = Some (c4, v4)"
    "w_out v4 = w_out v2 @ [L2 ?m (dhcp_frame c2 ?m (offer_msg N c2 IPV69_CTRL_DHCP_ACK ?m a))]"
    "holds c4 i ?m a (lease_end c2 t3)"
    by (rule server_acks [OF N s(3,4) admits_same [OF c2(6) s(7)] c2(5,7,11,3) rate(2) [folded c2(4)]])
  obtain w' where w': "dhcp_acquire N None t l [rx (dhcp_frame c ?m (offer_msg N c IPV69_CTRL_DHCP_OFFER ?m a)) t2 ms2,
        rx (dhcp_frame c ?m (offer_msg N c IPV69_CTRL_DHCP_ACK ?m a)) t4 ms4] w =
      Acq_Ret 0 t \<lparr>cl_addr = a, cl_sec = dh_lease_sec c, cl_expiry = t4 + uint (dh_lease_sec c)\<rparr> [] w'"
    "w_out w' = w_out w @ [L2 bcast_mac (dhcp_raw_frame ?m (dhcp_tagged N (discover_of N t))),
       L2 bcast_mac (dhcp_raw_frame ?m (dhcp_tagged N (request_of N t a)))]"
    by (rule client_exchange [OF s(1,2,4,5) tx(1) check_offer [OF N s(6,4)] c2(11)])
  have e: "lease_end c2 t3 = t3 + uint (dh_lease_sec c)" using c2(6) by (simp add: same_server_def lease_end_def)
  show ?thesis
    using w' c2(1,2,8-10) c4 unfolding offer_same [OF c2(6)] e by (intro exI conjI) assumption+
qed

text \<open>A server with a key and the default pool, a host with the key of that server.\<close>

definition toy_dhcp_server :: dhcp_ctx where
  "toy_dhcp_server = dhcp_ctx0\<lparr>dh_sk := replicate 64 6, dh_has_sk := True\<rparr>"

definition toy_host :: transport where
  "toy_host = transport0\<lparr>tr_open := True, tr_mac := [2, 0, 0, 0, 0, 7], tr_sk := replicate 64 4, tr_has_sk := True,
     tr_server_pub := replicate 32 6, tr_has_server_pub := True\<rparr>"

lemma toy_dhcp_segment: "dhcp_segment toy_nacl toy_host toy_dhcp_server"
proof -
  have k: "key_ok toy_nacl (replicate 64 4)" "key_ok toy_nacl (replicate 64 6)" "slice 32 32 (replicate 64 6) = replicate 32 6"
    by (simp_all add: key_ok_def ed25519_seed_to_pub_def toy_nacl_def slice_eq_take_drop)
  have p: "pool_ok toy_dhcp_server" "65 \<le> pool_size toy_dhcp_server" "dh_pool_end toy_dhcp_server < 2 ^ 40"
    using empty_ctx0(2) by (simp_all add: toy_dhcp_server_def pool_ok_def dhcp_ctx0_def)
  have "trusts toy_nacl toy_host toy_dhcp_server" using k by (simp add: trusts_def toy_host_def toy_dhcp_server_def)
  moreover have "dhcp_admits toy_dhcp_server pub m" for pub m
    by (simp add: dhcp_admits_def mac_allowed_def toy_dhcp_server_def dhcp_ctx0_def)
  ultimately show ?thesis using k p by (simp add: dhcp_segment_def toy_host_def toy_dhcp_server_def dhcp_ctx0_def)
qed

lemma toy_dhcp_server_facts: "lease_table toy_dhcp_server" "live_leases toy_dhcp_server t = {}" "lease_find toy_dhcp_server m = None"
  using empty_ctx0(1) by (auto simp: toy_dhcp_server_def lease_table_def live_leases_def dhcp_ctx0_def dhcp_lease0_def lease_find_None)

theorem dhcp_lease_obtained_witness:
  "\<exists>disc offer req ack a w' c2 v2 c4 v4 i.
    dhcp_acquire toy_nacl None toy_host \<lparr>cl_addr = 0, cl_sec = 0, cl_expiry = 0\<rparr> [rx offer 2 0, rx ack 4 0] world0 = Acq_Ret 0 toy_host \<lparr>cl_addr = a, cl_sec = 3600, cl_expiry = 3604\<rparr> [] w' \<and>
    w_out w' = [L2 bcast_mac disc, L2 bcast_mac req] \<and>
    dhcpd_turn toy_nacl False (rx disc 1 0) (toy_dhcp_server, world0) = Some (c2, v2) \<and> w_out v2 = [L2 [2, 0, 0, 0, 0, 7] offer] \<and>
    dhcpd_turn toy_nacl False (rx req 3 0) (c2, v2) = Some (c4, v4) \<and> holds c4 i [2, 0, 0, 0, 0, 7] a 3603"
proof -
  have c: "card (live_leases toy_dhcp_server 1) \<le> 64" by (simp add: toy_dhcp_server_facts)
  obtain rt rt' where r: "rate_allow rate_table_init 0 ([2, 0, 0, 0, 0, 7] @ [0, 0]) 10 20 1 = (True, rt)"
    "rate_allow rt 0 ([2, 0, 0, 0, 0, 7] @ [0, 0]) 10 20 1 = (True, rt')" by (rule rate_twice)
  have m: "tr_mac toy_host = [2, 0, 0, 0, 0, 7]" "w_rate world0 = rate_table_init" "w_out world0 = []" "dh_lease_sec toy_dhcp_server = 3600"
    by (simp_all add: toy_host_def world0_def toy_dhcp_server_def dhcp_ctx0_def)
  show ?thesis
    using dhcp_lease_obtained [OF toy_sign_ok toy_dhcp_segment toy_dhcp_server_facts(1,3) tx_world0 tx_world0 c, of 0 rt 0 rt' "\<lparr>cl_addr = 0, cl_sec = 0, cl_expiry = 0\<rparr>" 2 0 4 0 3] r
    unfolding m by fastforce
qed

text \<open>A run in which a host acquires a lease.\<close>

theorem dhcp_leases_exclusive_witness:
  "\<exists>d i j a. dhcpd_run toy_nacl (\<lambda>t. t = 1 \<or> t = 3) toy_dhcp_server d \<and> holds d i [2, 0, 0, 0, 0, 7] a 3603 \<and>
    i < 256 \<and> j < 256 \<and> i \<noteq> j \<and> \<not> (le_used (dh_leases d ! j) \<and> le_addr (dh_leases d ! j) = a)"
proof -
  obtain rt rt' where r: "rate_allow rate_table_init 0 ([2, 0, 0, 0, 0, 7] @ [0, 0]) 10 20 1 = (True, rt)"
    "rate_allow rt 0 ([2, 0, 0, 0, 0, 7] @ [0, 0]) 10 20 1 = (True, rt')" by (rule rate_twice)
  have m: "tr_mac toy_host = [2, 0, 0, 0, 0, 7]" "w_rate world0 = rate_table_init" by (simp_all add: toy_host_def world0_def)
  have s: "key_ok toy_nacl (tr_sk toy_host)" "length (tr_mac toy_host) = 6"
    "dhcp_admits toy_dhcp_server (slice 32 32 (tr_sk toy_host)) (tr_mac toy_host)"
    using toy_dhcp_segment by (simp_all add: dhcp_segment_def)
  have live: "card (live_leases toy_dhcp_server 1) \<le> 64" by (simp add: toy_dhcp_server_facts)
  obtain c2 v2 i a where 2: "dhcpd_turn toy_nacl False (rx (dhcp_raw_frame (tr_mac toy_host) (dhcp_tagged toy_nacl (discover_of toy_nacl toy_host))) 1 0) (toy_dhcp_server, world0) = Some (c2, v2)"
    "tx_ok v2" "w_rate v2 = rt" "lease_table c2" "same_server toy_dhcp_server c2" "holds c2 i (tr_mac toy_host) a (lease_end toy_dhcp_server 1)" "take_bit 40 a = a"
    by (rule server_offers [OF toy_sign_ok toy_dhcp_segment toy_dhcp_server_facts(1,3) tx_world0 live r(1) [folded m]])
  obtain c4 v4 where 4: "dhcpd_turn toy_nacl False (rx (dhcp_raw_frame (tr_mac toy_host) (dhcp_tagged toy_nacl (request_of toy_nacl toy_host a))) 3 0) (c2, v2) = Some (c4, v4)"
    "holds c4 i (tr_mac toy_host) a (lease_end c2 3)"
    by (rule server_acks [OF toy_sign_ok s(1,2) admits_same [OF 2(5) s(3)] 2(4,6,7,2) r(2) [folded m(1) 2(3)]])
  have run: "dhcpd_run toy_nacl (\<lambda>t. t = 1 \<or> t = 3) toy_dhcp_server c4"
    by (rule dhcpd_run.Turn [OF dhcpd_run.Turn [OF dhcpd_run.Start _ 2(1)] _ 4(1)]) simp_all
  have n: "no_leases toy_dhcp_server" by (simp add: no_leases_def toy_dhcp_server_def dhcp_ctx0_def dhcp_lease0_def)
  have e: "lease_end c2 3 = 3603" "uint (dh_lease_sec toy_dhcp_server) = 3600"
    using 2(5) by (simp_all add: same_server_def lease_end_def toy_dhcp_server_def dhcp_ctx0_def)
  define j where "j = (if i = 0 then 1 else 0 :: nat)"
  have h: "holds c4 i [2, 0, 0, 0, 0, 7] a 3603" using 4(2) unfolding m(1) e .
  then have i: "i < 256" "le_used (dh_leases c4 ! i)" "le_addr (dh_leases c4 ! i) = a" by (auto simp: holds_def lease_find_Some)
  have j: "j < 256" "i \<noteq> j" by (simp_all add: j_def)
  have "le_used (dh_leases c4 ! i) \<and> le_used (dh_leases c4 ! j) \<and> i \<noteq> j \<longrightarrow> le_addr (dh_leases c4 ! i) \<noteq> le_addr (dh_leases c4 ! j)"
    using dhcp_leases_exclusive [OF run n, of 0] i(1) j(1) unfolding e by fastforce
  then show ?thesis using run h i j by (intro exI [of _ c4] exI [of _ i] exI [of _ j] exI [of _ a]) auto
qed

section \<open>The server's key\<close>

lemma acquire_opened:
  "\<not> tr_open t \<Longrightarrow> dhcp_acquire N (Some mac) t l evs w = dhcp_acquire N None (t\<lparr>tr_open := True, tr_mac := mac\<rparr>) l evs w"
  by (simp add: dhcp_acquire_def)

lemma tun_start_cleared:
  assumes "tun_start N E tty ifindex as junk w = Some (Inr (t, opts, w'))"
  shows "\<not> tr_has_server_pub t" "\<not> tr_open t" "tr_has_sk t"
    "\<exists>r dir key pub c. keyring_paths E 256 512 512 = (dir, key, pub) \<and> keyring_load_or_create N E key pub 128 tty w = Some (r, tr_sk t, c, w')"
  using assms by (auto simp: tun_start_def transport0_def Let_def split: option.splits prod.splits if_splits)

text \<open>The options \<^verbatim>\<open>--server-pub\<close> and \<^verbatim>\<open>--key\<close> have no effect, because the structure they were written to
  is cleared afterwards: however the daemon is started, it signs with the key of the key file
  and takes the first OFFER and ACK of any sender for its MAC, signed or not, so that anyone
  on the segment chooses its address and its lease time.\<close>

theorem server_key_not_checked:
  assumes st: "tun_start N E tty ifindex as junk w0 = Some (Inr (t, opts, w1))" and mac: "length mac = 6"
    and tx: "tx_ok w" and rogue: "length (dh_mac c) = 6" "take_bit 40 a = a"
  shows "(\<exists>r dir key pub cm. keyring_paths E 256 512 512 = (dir, key, pub) \<and>
      keyring_load_or_create N E key pub 128 tty w0 = Some (r, tr_sk t, cm, w1)) \<and>
    (\<exists>t' w'. dhcp_acquire N (Some mac) t l [rx (dhcp_frame c mac (offer_msg N c IPV69_CTRL_DHCP_OFFER mac a)) t2 ms2,
        rx (dhcp_frame c mac (offer_msg N c IPV69_CTRL_DHCP_ACK mac a)) t4 ms4] w =
      Acq_Ret 0 t' \<lparr>cl_addr = a, cl_sec = dh_lease_sec c, cl_expiry = t4 + uint (dh_lease_sec c)\<rparr> [] w')"
proof
  note C = tun_start_cleared [OF st]
  show "\<exists>r dir key pub cm. keyring_paths E 256 512 512 = (dir, key, pub) \<and>
      keyring_load_or_create N E key pub 128 tty w0 = Some (r, tr_sk t, cm, w1)" by (rule C(4))
  let ?t = "t\<lparr>tr_open := True, tr_mac := mac\<rparr>"
  have k: "check_reply N ?t (offer_msg N c ty (tr_mac ?t) a)" for ty using C(1) by (simp add: check_reply_def)
  have p: "tr_open ?t" "tr_has_sk ?t" "length (tr_mac ?t) = 6" using C(3) mac by simp_all
  show "\<exists>t' w'. dhcp_acquire N (Some mac) t l [rx (dhcp_frame c mac (offer_msg N c IPV69_CTRL_DHCP_OFFER mac a)) t2 ms2,
        rx (dhcp_frame c mac (offer_msg N c IPV69_CTRL_DHCP_ACK mac a)) t4 ms4] w =
      Acq_Ret 0 t' \<lparr>cl_addr = a, cl_sec = dh_lease_sec c, cl_expiry = t4 + uint (dh_lease_sec c)\<rparr> [] w'"
    unfolding acquire_opened [OF C(2)] by (rule client_exchange [OF p rogue(1) tx k rogue(2), simplified]) blast
qed

text \<open>Started with the key of one server, the daemon takes the address of another.\<close>

theorem server_key_not_checked_witness:
  "\<exists>w t opts w1 t' w'. tun_start toy_nacl toy_env [] (\<lambda>_. 0) [''7'', ''--server-pub'', hex_encode (replicate 32 6)] transport0 w =
      Some (Inr (t, opts, w1)) \<and>
    dhcp_acquire toy_nacl (Some (zeros 6)) t \<lparr>cl_addr = 0, cl_sec = 0, cl_expiry = 0\<rparr>
      [rx (dhcp_frame dhcp_ctx0 (zeros 6) (offer_msg toy_nacl dhcp_ctx0 IPV69_CTRL_DHCP_OFFER (zeros 6) 5)) 0 0,
       rx (dhcp_frame dhcp_ctx0 (zeros 6) (offer_msg toy_nacl dhcp_ctx0 IPV69_CTRL_DHCP_ACK (zeros 6) 5)) 0 0] world0 =
      Acq_Ret 0 t' \<lparr>cl_addr = 5, cl_sec = 3600, cl_expiry = 3600\<rparr> [] w'"
proof -
  let ?k = "''/h/.hosts69/key''" and ?p = "''/h/.hosts69/key.pub''"
  let ?w = "world0\<lparr>w_files := [?k \<mapsto> hex_encode (zeros 32) @ [NL], ?p \<mapsto> hex_encode (slice 0 32 (zeros 32)) @ '' '' @ ''me'' @ [NL]]\<rparr>"
  have paths: "\<exists>dir. keyring_paths toy_env 256 512 512 = (dir, ?k, ?p)"
    by (simp add: keyring_paths_def keyring_home_def toy_env_def nonempty_def snprintf_def Let_def)
  have "load_comment ?p 128 ?w = ''me''" by (rule load_comment_written [where pk = "zeros 32"]) simp_all
  then have "keyring_find toy_nacl toy_env ?k ?p 128 [] ?w = Found (zeros 32 @ ed25519_seed_to_pub toy_nacl (zeros 32)) ''me'' []"
    by (subst load_plain) simp_all
  then have "keyring_load_or_create toy_nacl toy_env ?k ?p 128 [] ?w = Some (0, zeros 32 @ ed25519_seed_to_pub toy_nacl (zeros 32), ''me'', ?w)"
    by (subst keyring_load_or_create.simps) simp
  moreover have "atoi ''7'' = 7" by (simp add: atoi_def Let_def scan_sign_def c_isspace_def is_digit_def digit_val_def)
  ultimately obtain t opts w1 where t: "tun_start toy_nacl toy_env [] (\<lambda>_. 0) [''7'', ''--server-pub'', hex_encode (replicate 32 6)] transport0 ?w =
      Some (Inr (t, opts, w1))"
    using paths by (auto simp: tun_start_def transport0_def Let_def)
  have "dh_lease_sec dhcp_ctx0 = 3600" "length (dh_mac dhcp_ctx0) = 6" "take_bit 40 5 = (5 :: u64)" "length (zeros 6) = 6"
    by (simp_all add: dhcp_ctx0_def take_bit_eq_mod)
  with server_key_not_checked [OF t _ tx_world0, of "zeros 6" dhcp_ctx0 5 "\<lparr>cl_addr = 0, cl_sec = 0, cl_expiry = 0\<rparr>" 0 0 0 0] t show ?thesis
    by fastforce
qed

end
