(* ===== verification/Keygen.thy ===== *)
theory Keygen
  imports Keyring BaitName
begin

text \<open>
  The key generator \<^verbatim>\<open>c/src/IPv69/keygen.c\<close>: its command line, its questions, the batch mode, the
  choice of the file and the making of the key pair, with the vanity search. The lines typed at
  standard input are one string, the answers to passphrase prompts at the terminal a list;
  whether standard input is a terminal is an argument. Directories are not made, and only what
  the generator itself prints to standard output is kept.
\<close>

section \<open>The command line\<close>

record kg_opts =
  kg_file :: "string option"
  kg_comment :: "string option"
  kg_pass :: "string option"
  kg_vanity :: "string option"
  kg_force :: bool
  kg_count :: int

definition kg_opts0 :: kg_opts where
  "kg_opts0 = \<lparr>kg_file = None, kg_comment = None, kg_pass = None, kg_vanity = None, kg_force = False, kg_count = 0\<rparr>"

text \<open>A word that is no option, and an option without its value, is a count.\<close>

definition kg_word :: "string \<Rightarrow> kg_opts \<Rightarrow> kg_opts" where
  "kg_word a k = (if a = ''--force'' then k\<lparr>kg_force := True\<rparr> else k\<lparr>kg_count := atoi a\<rparr>)"

fun kg_args :: "string list \<Rightarrow> kg_opts \<Rightarrow> kg_opts" where
  "kg_args [] k = k"
| "kg_args [a] k = kg_word a k"
| "kg_args (a # b # r) k =
     (if a = ''-f'' \<or> a = ''--key-file'' then kg_args r (k\<lparr>kg_file := Some b\<rparr>)
      else if a = ''-C'' then kg_args r (k\<lparr>kg_comment := Some b\<rparr>)
      else if a = ''-N'' then kg_args r (k\<lparr>kg_pass := Some b\<rparr>)
      else if a = ''--vanity'' then kg_args r (k\<lparr>kg_vanity := Some b\<rparr>)
      else kg_args (b # r) (kg_word a k))"

definition vanity_ok :: "kg_opts \<Rightarrow> bool" where
  "vanity_ok k = (case kg_vanity k of
     None \<Rightarrow> True
   | Some v \<Rightarrow> kg_count k \<le> 0 \<and> v \<noteq> [] \<and> length v \<le> BAIT_LABEL_LEN \<and> (\<forall>c\<in>set v. c \<in> set BAIT_ALPHABET))"

section \<open>Questions\<close>

definition cut_line :: "string \<Rightarrow> string" where
  "cut_line l = takeWhile (\<lambda>c. c \<noteq> CR \<and> c \<noteq> NL) (c_string l)"

text \<open>The file to save in, asked for only at a terminal and when nothing else has chosen it.\<close>

definition kg_ask_file :: "kenv \<Rightarrow> bool \<Rightarrow> kg_opts \<Rightarrow> string \<Rightarrow> string option \<times> string" where
  "kg_ask_file E istty k inp =
     (if kg_file k = None \<and> kg_count k = 0 \<and> nonempty (ke_keyfile E) = None \<and> istty then
        (case fgets 512 inp of
           None \<Rightarrow> (None, inp)
         | Some (l, inp) \<Rightarrow> (if cut_line l = [] then None else Some (cut_line l), inp))
      else (kg_file k, inp))"

definition kg_the_comment :: "kenv \<Rightarrow> kg_opts \<Rightarrow> string" where
  "kg_the_comment E k = snprintf 128 (case kg_comment k of Some c \<Rightarrow> c | None \<Rightarrow> take 63 (ke_hostname E))"

definition kg_the_pass :: "bool \<Rightarrow> kg_opts \<Rightarrow> string option \<Rightarrow> string option list \<Rightarrow> string \<times> string option list" where
  "kg_the_pass istty k fpath tty =
     (case kg_pass k of
        Some p \<Rightarrow> (snprintf 256 p, tty)
      | None \<Rightarrow>
          if fpath \<noteq> None \<or> kg_vanity k \<noteq> None \<or> kg_count k = 0 \<and> istty then
            (case keyring_prompt_passphrase 256 tty of (None, tty) \<Rightarrow> ([], tty) | (Some p, tty) \<Rightarrow> (p, tty))
          else ([], tty))"

fun kg_batch :: "nacl \<Rightarrow> nat \<Rightarrow> world \<Rightarrow> string \<times> world" where
  "kg_batch N 0 w = ([], w)"
| "kg_batch N (Suc n) w =
     (let ((sk, pk), w) = ed25519_keypair N w; (out, w) = kg_batch N n w
      in (hex_encode (slice 0 32 sk) @ '' '' @ hex_encode pk @ [NL] @ out, w))"

section \<open>The file\<close>

definition kg_path :: "kenv \<Rightarrow> string option \<Rightarrow> string" where
  "kg_path E fpath =
     (case fpath of
        None \<Rightarrow> (case keyring_paths E 256 1024 512 of (_, key, _) \<Rightarrow> key)
      | Some f \<Rightarrow>
          snprintf 1024
            (if take 2 f = ''~/'' then keyring_home E @ tl f
             else if CHR ''/'' \<in> set f then f
             else keyring_home E @ ''/.hosts69/'' @ f))"

lemma fgets_less: "fgets cap s = Some (l, r) \<Longrightarrow> length r < length s"
  by (auto simp: fgets_def Let_def line_len_pos split: if_splits)

text \<open>Until a file is found that is new, or may be overwritten; \<open>None\<close> when the user gives up.\<close>

function kg_resolve :: "kenv \<Rightarrow> bool \<Rightarrow> bool \<Rightarrow> string option \<Rightarrow> string \<Rightarrow> world \<Rightarrow> (string \<times> string) option" where
  "kg_resolve E istty force fpath inp w =
     (let key = kg_path E fpath; pub = snprintf 1024 (key @ ''.pub'')
      in if w_files w key = None then Some (key, pub)
         else if force then Some (key, pub)
         else case fgets 8 inp of
                None \<Rightarrow> None
              | Some (ans, inp) \<Rightarrow>
                  if take 1 ans = ''y'' \<or> take 1 ans = ''Y'' then Some (key, pub)
                  else if \<not> istty then None
                  else case fgets 512 inp of
                         None \<Rightarrow> None
                       | Some (l, inp) \<Rightarrow>
                           if cut_line l = [] then None else kg_resolve E istty force (Some (cut_line l)) inp w)"
  by pat_completeness auto
termination
  by (relation "measure (\<lambda>(E, istty, force, fpath, inp, w). length inp)") (auto dest!: fgets_less)

declare kg_resolve.simps [simp del]

section \<open>Making and showing\<close>

text \<open>\<open>None\<close> while the search goes on, or for a write past a buffer.\<close>

definition kg_make :: "nacl \<Rightarrow> nat \<Rightarrow> kg_opts \<Rightarrow> string \<Rightarrow> string \<Rightarrow> string \<Rightarrow> string \<Rightarrow> world \<Rightarrow> (int \<times> world) option" where
  "kg_make N fuel k key pub pass comment w =
     (case kg_vanity k of
        None \<Rightarrow> keyring_create N key pub pass comment w
      | Some v \<Rightarrow>
          (case bait_grind N v fuel w of
             Grind_Bad \<Rightarrow> Some (-1, w)
           | Grind_Searching \<Rightarrow> None
           | Grind_Found sk pk l n w \<Rightarrow> keyring_save N key pub pass comment sk pk w))"

definition kg_text :: "nacl \<Rightarrow> string \<Rightarrow> string \<Rightarrow> string \<Rightarrow> bytes \<Rightarrow> string" where
  "kg_text N key pub comment pk =
     ''Your identification has been saved in '' @ key @ [NL] @
     ''Your public key has been saved in '' @ pub @ [NL] @
     ''PUBKEY (register on the server): '' @ hex_encode pk @ '' '' @ comment @ [NL] @
     ''bait name (docs/bait-names-spec.md): '' @ bait_label_from_pub N pk @ ''.bait'' @ [NL]"

text \<open>The key is loaded again, with the passphrase in the environment for the loader.\<close>

definition kg_env :: "kenv \<Rightarrow> string \<Rightarrow> kenv" where
  "kg_env E pass =
     (if pass \<noteq> [] \<and> map_option (snprintf 256) (ke_passphrase E) \<noteq> Some pass then E\<lparr>ke_passphrase := Some pass\<rparr> else E)"

definition kg_show :: "nacl \<Rightarrow> kenv \<Rightarrow> string \<Rightarrow> string \<Rightarrow> string \<Rightarrow> string \<Rightarrow> string option list \<Rightarrow> world \<Rightarrow>
    (int \<times> string \<times> world) option" where
  "kg_show N E key pub pass comment tty w =
     (case keyring_load_or_create N (kg_env E pass) key pub 128 tty w of
        None \<Rightarrow> None
      | Some (r, sk, _, w) \<Rightarrow> Some (0, if r \<noteq> 0 then [] else kg_text N key pub comment (slice 32 32 sk), w))"

text \<open>The exit code, the output and the world; \<open>None\<close> as above, or for a load that does not come back.\<close>

definition cmd_keygen :: "nacl \<Rightarrow> kenv \<Rightarrow> nat \<Rightarrow> bool \<Rightarrow> string option list \<Rightarrow> string \<Rightarrow> string list \<Rightarrow> world \<Rightarrow>
    (int \<times> string \<times> world) option" where
  "cmd_keygen N E fuel istty tty inp as w =
     (let k = kg_args as kg_opts0
      in if \<not> vanity_ok k then Some (1, [], w)
         else let (fpath, inp) = kg_ask_file E istty k inp;
                  comment = kg_the_comment E k;
                  (pass, tty) = kg_the_pass istty k fpath tty
              in if fpath = None \<and> 0 < kg_count k then
                   (if 100 < kg_count k then Some (1, [], w)
                    else let (out, w) = kg_batch N (nat (kg_count k)) w in Some (0, out, w))
                 else case kg_resolve E istty (kg_force k) fpath inp w of
                        None \<Rightarrow> Some (1, [], w)
                      | Some (key, pub) \<Rightarrow>
                          (case kg_make N fuel k key pub pass comment w of
                             None \<Rightarrow> None
                           | Some (r, w) \<Rightarrow> if r < 0 then Some (1, [], w) else kg_show N E key pub pass comment tty w))"

end
