(* ===== verification/Keygen_Props.thy ===== *)
theory Keygen_Props
  imports Keygen Keyring_Props
begin

text \<open>
  The key generator does not overwrite a private key that it was not told to, and the key pair it
  shows is the one it saved.
\<close>

section \<open>Which files are written\<close>

definition other_files :: "string set \<Rightarrow> world \<Rightarrow> world \<Rightarrow> bool" where
  "other_files S w w' \<longleftrightarrow> (\<forall>p. p \<notin> S \<longrightarrow> w_files w' p = w_files w p)"

lemma other_files_refl [simp]: "other_files S w w"
  by (simp add: other_files_def)

lemma other_files_trans: "other_files S u v \<Longrightarrow> other_files S v w \<Longrightarrow> other_files S u w"
  by (simp add: other_files_def)

lemma keypair_files [simp]: "w_files (snd (ed25519_keypair N w)) = w_files w"
  by (simp add: ed25519_keypair_def randombytes_def Let_def)

lemma private_text_files: "private_text N pass seed w = (t, v) \<Longrightarrow> w_files v = w_files w \<and> w_denied v = w_denied w"
  by (auto simp: private_text_def randombytes_def Let_def split: if_splits)

lemma write_files:
  assumes "write_keypair_files N key pub pass comment seed pk w = Some (r, w')"
  shows "other_files {key, pub} w w'" "r = 0 \<or> r = -1"
  using assms private_text_files unfolding write_keypair_files_def
  by (auto simp: other_files_def write_file_def Let_def split: prod.splits option.splits if_splits)

lemma create_files:
  assumes "keyring_create N key pub pass comment w = Some (r, w')"
  shows "other_files {key, pub} w w'" "r = 0 \<or> r = -1"
proof -
  obtain sk pk v where v: "ed25519_keypair N w = ((sk, pk), v)" by (metis prod.exhaust)
  with assms have "write_keypair_files N key pub pass comment sk pk v = Some (r, w')" by (simp add: keyring_create_def)
  from write_files [OF this] keypair_files [of N w] v show "other_files {key, pub} w w'" "r = 0 \<or> r = -1"
    by (simp_all add: other_files_def)
qed

lemma load_files:
  assumes "keyring_load_or_create N E key pub sz tty w = Some (r, sk, c, w')"
  shows "other_files {key, pub} w w'"
proof -
  define P where "P key pub w y \<longleftrightarrow> other_files {key, pub} w (snd (snd (snd y)))"
    for key pub :: string and w and y :: "int \<times> bytes \<times> string \<times> world"
  have "P key pub w (r, sk, c, w')"
  proof (rule keyring_load_or_create.raw_induct [where P = "\<lambda>N E key pub sz tty w y. P key pub w y", OF _ assms])
    fix f N E key pub sz tty w and y :: "int \<times> bytes \<times> string \<times> world"
    assume IH: "\<And>N E key pub sz tty w y. f N E key pub sz tty w = Some y \<Longrightarrow> P key pub w y"
      and y: "(case keyring_find N E key pub sz tty w of
        Found sk c tty \<Rightarrow> Some (0, sk, c, w)
      | Failed tty \<Rightarrow> Some (-1, [], [], w)
      | Absent \<Rightarrow>
          (case keyring_create N key pub [] (take 63 (ke_hostname E)) w of
             None \<Rightarrow> None
           | Some (r, w) \<Rightarrow>
               if r < 0 then Some (-1, [], [], w)
               else Option.bind (f N E key pub sz tty w) (\<lambda>(r, sk, c, w). if r < 0 then Some (-1, [], [], w) else Some (0, sk, c, w)))) = Some y"
    show "P key pub w y"
    proof (cases "keyring_find N E key pub sz tty w")
      case Absent
      then obtain q v where v: "keyring_create N key pub [] (take 63 (ke_hostname E)) w = Some (q, v)" using y by (auto split: option.splits)
      note o = create_files(1) [OF v]
      show ?thesis
        using y Absent v o IH other_files_trans [OF o] unfolding P_def
        by (fastforce simp: bind_eq_Some_conv split: if_splits)
    qed (use y in \<open>auto simp: P_def\<close>)
  qed
  then show ?thesis by (simp add: P_def)
qed

lemma grind_files: "grind_loop N prefix fuel n w = Some (x, w') \<Longrightarrow> w_files w' = w_files w"
proof (induction fuel arbitrary: n w)
  case (Suc fuel)
  obtain sk pk v where v: "ed25519_keypair N w = ((sk, pk), v)" by (metis prod.exhaust)
  then show ?case using Suc keypair_files [of N w] by (auto simp: Let_def split: if_splits)
qed simp

lemma kg_make_files:
  assumes "kg_make N fuel k key pub pass comment w = Some (r, w')"
  shows "other_files {key, pub} w w'"
proof (cases "kg_vanity k")
  case None
  then show ?thesis using assms create_files(1) by (simp add: kg_make_def)
next
  case (Some v)
  show ?thesis
  proof (cases "bait_grind N v fuel w")
    case (Grind_Found sk pk l n u)
    then have "other_files {key, pub} u w'" using assms Some write_files(1) by (simp add: kg_make_def keyring_save_def)
    moreover have "w_files u = w_files w"
      using Grind_Found by (auto simp: bait_grind_def dest: grind_files split: option.splits if_splits prod.splits)
    ultimately show ?thesis by (simp add: other_files_def)
  qed (use assms Some in \<open>simp_all add: kg_make_def\<close>)
qed

lemma kg_show_files:
  "kg_show N E key pub pass comment tty w = Some (r, out, w') \<Longrightarrow> other_files {key, pub} w w'"
  by (auto simp: kg_show_def dest!: load_files split: option.splits prod.splits)

lemma kg_batch_files: "w_files (snd (kg_batch N n w)) = w_files w"
proof (induction n arbitrary: w)
  case (Suc n)
  show ?case using Suc [of "snd (ed25519_keypair N w)"] by (simp add: Let_def case_prod_beta)
qed simp

section \<open>No key is lost\<close>

lemma fgets_parts: "fgets cap s = Some (l, r) \<Longrightarrow> set l \<subseteq> set s \<and> set r \<subseteq> set s"
  by (auto simp: fgets_def Let_def dest: in_set_takeD in_set_dropD split: if_splits)

text \<open>The chosen file is new, or it was said that it may be overwritten.\<close>

lemma kg_resolve_free:
  assumes "kg_resolve E istty force fpath inp w = Some (key, pub)"
  shows "pub = snprintf 1024 (key @ ''.pub'') \<and>
    (w_files w key = None \<or> force \<or> CHR ''y'' \<in> set inp \<or> CHR ''Y'' \<in> set inp)"
  using assms
proof (induction E istty force fpath inp w rule: kg_resolve.induct)
  case (1 E istty force fpath inp w)
  let ?key = "kg_path E fpath"
  show ?case
  proof (cases "w_files w ?key = None \<or> force")
    case True
    then show ?thesis using "1.prems" by (subst (asm) kg_resolve.simps) (auto simp: Let_def split: if_splits)
  next
    case False
    then obtain y where y: "w_files w ?key = Some y" "\<not> force" by auto
    obtain ans r where a: "fgets 8 inp = Some (ans, r)"
      using "1.prems" False by (subst (asm) kg_resolve.simps) (auto simp: Let_def split: option.splits)
    have sub: "set ans \<subseteq> set inp" "set r \<subseteq> set inp" using fgets_parts [OF a] by auto
    have e: "(if take 1 ans = ''y'' \<or> take 1 ans = ''Y'' then Some (?key, snprintf 1024 (?key @ ''.pub''))
        else if \<not> istty then None
        else case fgets 512 r of
               None \<Rightarrow> None
             | Some (l, q) \<Rightarrow> if cut_line l = [] then None else kg_resolve E istty force (Some (cut_line l)) q w) = Some (key, pub)"
      using "1.prems" y a unfolding kg_resolve.simps [of E istty force fpath inp] Let_def by simp
    show ?thesis
    proof (cases "take 1 ans = ''y'' \<or> take 1 ans = ''Y''")
      case True
      then have "CHR ''y'' \<in> set ans \<or> CHR ''Y'' \<in> set ans" by (cases ans) auto
      moreover have "pub = snprintf 1024 (key @ ''.pub'')" using e True by auto
      ultimately show ?thesis using sub(1) by blast
    next
      case no: False
      then obtain l q where l: "istty" "fgets 512 r = Some (l, q)" "cut_line l \<noteq> []"
          "kg_resolve E istty force (Some (cut_line l)) q w = Some (key, pub)"
        using e by (auto split: option.splits if_splits)
      have "set q \<subseteq> set inp" using fgets_parts [OF l(2)] sub(2) by blast
      moreover from False have "w_files w ?key \<noteq> None" "\<not> force" by simp_all
      ultimately show ?thesis
        using "1.IH" [OF refl refl _ _ a refl no _ l(2) refl l(3,4)] l(1) by blast
    qed
  qed
qed

lemma kg_force_arg: "kg_force (kg_args as k) \<Longrightarrow> kg_force k \<or> ''--force'' \<in> set as"
  by (induction "as" k rule: kg_args.induct) (auto simp: kg_word_def split: if_splits)

lemma kg_ask_input: "kg_ask_file E istty k inp = (f, inp') \<Longrightarrow> set inp' \<subseteq> set inp"
  by (auto simp: kg_ask_file_def dest: fgets_parts split: if_splits option.splits prod.splits)

lemma write_succeeds:
  assumes "w_denied w = (\<lambda>_. False)" "length comment \<le> 445"
  shows "\<exists>w'. write_keypair_files N key pub pass comment seed pk w = Some (0, w')"
proof -
  obtain t v where pt: "private_text N pass seed w = (t, v)" by (metis prod.exhaust)
  have "length t \<le> 217" using pt by (auto simp: private_text_def randombytes_def Let_def length_secretbox split: if_splits)
  moreover have "w_denied v = (\<lambda>_. False)" using private_text_files [OF pt] assms(1) by simp
  ultimately show ?thesis
    using from_buf_short [of t] from_buf_short [of "hex_encode (slice 0 32 pk) @ '' '' @ comment @ [NL]"] assms(2)
    by (simp add: write_keypair_files_def pt write_file_def)
qed

section \<open>What is shown is what was saved\<close>

lemma keypair_parts:
  "ed25519_keypair N w = ((sk, pk), v) \<Longrightarrow>
    \<exists>seed. length seed = 32 \<and> sk = seed @ ed25519_seed_to_pub N seed \<and> pk = ed25519_seed_to_pub N seed"
  by (auto simp: ed25519_keypair_def randombytes_def Let_def)

lemma grind_label:
  "grind_loop N prefix fuel n w = Some ((sk, pk, l, m), w') \<Longrightarrow>
    \<exists>seed. length seed = 32 \<and> sk = seed @ ed25519_seed_to_pub N seed \<and> pk = ed25519_seed_to_pub N seed \<and>
      take (length prefix) (bait_label_from_pub N pk) = prefix"
proof (induction fuel arbitrary: n w)
  case (Suc fuel)
  obtain sk pk v where v: "ed25519_keypair N w = ((sk, pk), v)" by (metis prod.exhaust)
  then show ?case using Suc keypair_parts [OF v] by (auto simp: Let_def split: if_splits)
qed simp

lemma write_seed:
  "length seed = 32 \<Longrightarrow> write_keypair_files N key pub pass c (seed @ r) pk w = write_keypair_files N key pub pass c seed pk w"
  by (simp add: write_keypair_files_def private_text_def)

lemma kg_make_written:
  assumes "kg_make N fuel k key pub pass comment w = Some (r, w')" "\<not> r < 0"
  obtains seed v where "length seed = 32" "write_keypair_files N key pub pass comment seed (ed25519_seed_to_pub N seed) v = Some (0, w')"
    "\<And>x. kg_vanity k = Some x \<Longrightarrow> take (length x) (bait_label_from_pub N (ed25519_seed_to_pub N seed)) = x"
proof (cases "kg_vanity k")
  case None
  obtain sk pk v where v: "ed25519_keypair N w = ((sk, pk), v)" by (metis prod.exhaust)
  obtain seed where s: "length seed = 32" "sk = seed @ ed25519_seed_to_pub N seed" "pk = ed25519_seed_to_pub N seed"
    using keypair_parts [OF v] by blast
  have wr: "write_keypair_files N key pub pass comment seed (ed25519_seed_to_pub N seed) v = Some (r, w')"
    using assms(1) None by (simp add: kg_make_def keyring_create_def v s write_seed)
  then show ?thesis using that [OF s(1)] write_files(2) [OF wr] assms(2) None by auto
next
  case (Some x)
  obtain sk pk l n u where g: "bait_grind N x fuel w = Grind_Found sk pk l n u"
    using assms Some by (auto simp: kg_make_def split: grind_result.splits)
  then have "\<exists>l m. grind_loop N x fuel 0 w = Some ((sk, pk, l, m), u)"
    by (auto simp: bait_grind_def split: option.splits if_splits prod.splits)
  then obtain seed where s: "length seed = 32" "sk = seed @ ed25519_seed_to_pub N seed" "pk = ed25519_seed_to_pub N seed"
      "take (length x) (bait_label_from_pub N pk) = x"
    using grind_label by blast
  have wr: "write_keypair_files N key pub pass comment seed (ed25519_seed_to_pub N seed) u = Some (r, w')"
    using assms(1) Some g by (simp add: kg_make_def keyring_save_def s write_seed)
  then show ?thesis using that [OF s(1)] write_files(2) [OF wr] assms(2) Some s(3,4) by auto
qed

text \<open>When both paths were cut to one, the key does not load, and the run does not come back.\<close>

lemma written_same:
  assumes "write_keypair_files N key key pass comment seed pk w = Some (0, w')" "length comment \<le> 300"
  shows "keyring_load_or_create N E key key sz tty w' = None"
proof -
  obtain t v where pt: "private_text N pass seed w = (t, v)" by (metis prod.exhaust)
  have "w_files w' key = Some (hex_encode (slice 0 32 pk) @ '' '' @ comment @ [NL])" "\<not> w_denied w' key"
    using assms from_buf_short [of "hex_encode (slice 0 32 pk) @ '' '' @ comment @ [NL]"] unfolding write_keypair_files_def pt
    by (auto simp: write_file_def Let_def split: option.splits if_splits)
  then show ?thesis using same_path_never absent_line assms(2) by simp
qed

lemma kg_env_opens:
  assumes "\<And>p. ke_passphrase E = Some p \<Longrightarrow> length p \<le> 255"
  shows "opens (kg_env E pass) tty pass"
  using assms by (cases "ke_passphrase E") (auto simp: opens_def kg_env_def nonempty_def snprintf_def)

lemma comment_short: "length (kg_the_comment E k) \<le> 127"
  by (simp add: kg_the_comment_def snprintf_def)

text \<open>C32: The key pair that the generator shows is the one it saved: after a run that ends with success and is not
  the batch mode, the key file loads, with the passphrase that was given (cut at 255 characters),
  as a seed whose public key is the one that was printed, with the comment; and with a vanity
  prefix the label of that key starts with it. A comment in one line is assumed, and that no
  passphrase of more than 255 characters is in the environment.\<close>

theorem keygen_saves_identity:
  assumes run: "cmd_keygen N E fuel istty tty inp as w = Some (0, out, w')" and k: "k = kg_args as kg_opts0"
    and mode: "kg_file k \<noteq> None \<or> kg_count k \<le> 0"
    and comment: "plain (kg_the_comment E k)" and env: "\<forall>p. ke_passphrase E = Some p \<longrightarrow> length p \<le> 255"
  shows "\<exists>seed key pub pass. length seed = 32 \<and> out = kg_text N key pub (kg_the_comment E k) (ed25519_seed_to_pub N seed) \<and>
    (\<forall>p. kg_pass k = Some p \<longrightarrow> pass = take 255 p) \<and>
    (\<forall>v. kg_vanity k = Some v \<longrightarrow> take (length v) (bait_label_from_pub N (ed25519_seed_to_pub N seed)) = v) \<and>
    (\<forall>E' tty' sz. opens E' tty' pass \<and> 127 < sz \<longrightarrow>
      keyring_load_or_create N E' key pub sz tty' w' = Some (0, seed @ ed25519_seed_to_pub N seed, kg_the_comment E k, w'))"
proof -
  let ?c = "kg_the_comment E k"
  obtain fpath i where ask: "kg_ask_file E istty k inp = (fpath, i)" by (metis prod.exhaust)
  obtain pass t where ps: "kg_the_pass istty k fpath tty = (pass, t)" by (metis prod.exhaust)
  have "\<not> (fpath = None \<and> 0 < kg_count k)" using ask mode by (auto simp: kg_ask_file_def split: if_splits)
  then obtain key pub r v where m: "kg_make N fuel k key pub pass ?c w = Some (r, v)" "\<not> r < 0"
      "kg_show N E key pub pass ?c t v = Some (0, out, w')"
    using run unfolding cmd_keygen_def Let_def k [symmetric] ask prod.case ps
    by (fastforce split: if_splits option.splits prod.splits)
  obtain seed u where s: "length seed = 32" "write_keypair_files N key pub pass ?c seed (ed25519_seed_to_pub N seed) u = Some (0, v)"
      "\<And>x. kg_vanity k = Some x \<Longrightarrow> take (length x) (bait_label_from_pub N (ed25519_seed_to_pub N seed)) = x"
    by (rule kg_make_written [OF m(1,2)]) blast
  have "key \<noteq> pub"
    using written_same [of N key pass ?c seed _ u v] s(2) m(3) comment_short [of E k] by (auto simp: kg_show_def)
  then have load: "keyring_load_or_create N E' key pub sz tty' v = Some (0, seed @ ed25519_seed_to_pub N seed, ?c, v)"
    if "opens E' tty' pass" "127 < sz" for E' tty' sz
    using keyring_roundtrip [OF s(2) _ s(1) comment _ _ that(1)] that(2) comment_short [of E k] by simp
  from load [OF kg_env_opens, of E 128] m(3) env s(1) have "v = w'" "out = kg_text N key pub ?c (ed25519_seed_to_pub N seed)"
    by (auto simp: kg_show_def)
  moreover have "pass = take 255 p" if "kg_pass k = Some p" for p using ps that by (simp add: kg_the_pass_def snprintf_def)
  ultimately show ?thesis using s load by blast
qed

section \<open>Runs\<close>

text \<open>A run with \<^verbatim>\<open>-f\<close> and no vanity prefix that gets a file succeeds.\<close>

lemma keygen_run:
  assumes "k = kg_args as kg_opts0" "kg_file k = Some f" "kg_vanity k = None" "kg_pass k = Some p"
    and "kg_resolve E istty (kg_force k) (Some f) inp w = Some (key, pub)" "key \<noteq> pub" "w_denied w = (\<lambda>_. False)"
    and "plain (kg_the_comment E k)" "\<And>p. ke_passphrase E = Some p \<Longrightarrow> length p \<le> 255"
  shows "\<exists>out w'. cmd_keygen N E fuel istty tty inp as w = Some (0, out, w')"
proof -
  let ?c = "kg_the_comment E k"
  obtain sk pk v where kp: "ed25519_keypair N w = ((sk, pk), v)" by (metis prod.exhaust)
  obtain seed where s: "length seed = 32" "sk = seed @ ed25519_seed_to_pub N seed" using keypair_parts [OF kp] by blast
  have "w_denied v = w_denied w" using kp by (auto simp: ed25519_keypair_def randombytes_def Let_def)
  moreover have "length ?c \<le> 445" using comment_short [of E k] by simp
  ultimately obtain w' where w': "write_keypair_files N key pub (snprintf 256 p) ?c seed pk v = Some (0, w')"
    using write_succeeds assms(7) by metis
  then have m: "kg_make N fuel k key pub (snprintf 256 p) ?c w = Some (0, w')"
    using assms(3) by (simp add: kg_make_def keyring_create_def kp s(2) write_seed [OF s(1)])
  have l: "keyring_load_or_create N (kg_env E (snprintf 256 p)) key pub 128 tty w' = Some (0, seed @ ed25519_seed_to_pub N seed, ?c, w')"
    by (rule keyring_roundtrip [OF w' assms(6) s(1) assms(8) _ _ kg_env_opens [OF assms(9)]]) (use comment_short [of E k] in simp_all)
  have q: "kg_ask_file E istty k inp = (Some f, inp)" "kg_the_pass istty k (Some f) tty = (snprintf 256 p, tty)" "vanity_ok k"
    using assms(2-4) by (simp_all add: kg_ask_file_def kg_the_pass_def vanity_ok_def)
  show ?thesis
    unfolding cmd_keygen_def Let_def assms(1) [symmetric] q(1,2) prod.case assms(5) option.case m
    using q(3) l by (simp add: kg_show_def)
qed

theorem keygen_saves_identity_witness:
  "\<exists>out w' seed key pub. cmd_keygen toy_nacl toy_env 0 False [] [] [''-f'', ''/k'', ''-N'', ''secret''] world0 = Some (0, out, w') \<and>
    length seed = 32 \<and> out = kg_text toy_nacl key pub ''box'' (ed25519_seed_to_pub toy_nacl seed) \<and>
    keyring_load_or_create toy_nacl toy_env key pub 128 [] w' = Some (0, seed @ ed25519_seed_to_pub toy_nacl seed, ''box'', w')"
proof -
  let ?as = "[''-f'', ''/k'', ''-N'', ''secret'']"
  define k where "k = kg_args ?as kg_opts0"
  have k: "kg_file k = Some ''/k''" "kg_vanity k = None" "kg_pass k = Some ''secret''" "kg_comment k = None" "\<not> kg_force k"
    by (simp_all add: k_def kg_opts0_def)
  have c: "kg_the_comment toy_env k = ''box''" by (simp add: kg_the_comment_def k toy_env_def snprintf_def)
  have e: "\<forall>p. ke_passphrase toy_env = Some p \<longrightarrow> length p \<le> 255" by (simp add: toy_env_def)
  have r: "kg_resolve toy_env False (kg_force k) (Some ''/k'') [] world0 = Some (''/k'', ''/k.pub'')"
    by (subst kg_resolve.simps) (simp add: kg_path_def world0_def snprintf_def)
  have "\<exists>out w'. cmd_keygen toy_nacl toy_env 0 False [] [] ?as world0 = Some (0, out, w')"
    by (rule keygen_run [OF k_def k(1-3) r]) (use e in \<open>simp_all add: c world0_def\<close>)
  then obtain out w' where w': "cmd_keygen toy_nacl toy_env 0 False [] [] ?as world0 = Some (0, out, w')" by blast
  have o: "opens toy_env [] ''secret''" by (simp add: opens_def toy_env_def nonempty_def)
  have p: "plain (kg_the_comment toy_env k)" by (simp add: c)
  have t: "take 255 ''secret'' = ''secret''" by simp
  from keygen_saves_identity [OF w' k_def _ p e] obtain seed key pub pass where
    "length seed = 32" "out = kg_text toy_nacl key pub ''box'' (ed25519_seed_to_pub toy_nacl seed)" "pass = ''secret''"
    "opens toy_env [] pass \<and> 127 < (128 :: nat) \<longrightarrow>
      keyring_load_or_create toy_nacl toy_env key pub 128 [] w' = Some (0, seed @ ed25519_seed_to_pub toy_nacl seed, ''box'', w')"
    unfolding c k by (metis option.distinct(1) t)
  with o w' show ?thesis by auto
qed

text \<open>C33: The key generator loses no private key: unless it was called with \<^verbatim>\<open>--force\<close>, or a letter y was typed, every
  file that existed is still there unchanged, whatever was asked and answered, except that a
  file whose name ends in \<^verbatim>\<open>.pub\<close> may have been replaced without a question.\<close>

theorem keygen_keeps_keys:
  assumes "cmd_keygen N E fuel istty tty inp as w = Some (r, out, w')"
    and "''--force'' \<notin> set as" "CHR ''y'' \<notin> set inp" "CHR ''Y'' \<notin> set inp"
    and "w_files w path = Some x" "\<forall>s. path \<noteq> s @ ''.pub''" "length path < 1023"
  shows "w_files w' path = Some x"
proof -
  define k where "k = kg_args as kg_opts0"
  obtain fpath i where ask: "kg_ask_file E istty k inp = (fpath, i)" by (metis prod.exhaust)
  obtain pass t where ps: "kg_the_pass istty k fpath tty = (pass, t)" by (metis prod.exhaust)
  have force: "\<not> kg_force k" using kg_force_arg [of "as" kg_opts0] assms(2) by (auto simp: k_def kg_opts0_def)
  have i: "CHR ''y'' \<notin> set i" "CHR ''Y'' \<notin> set i" using kg_ask_input [OF ask] assms(3,4) by auto
  have run: "w_files w' path = Some x"
    if res: "kg_resolve E istty (kg_force k) fpath i w = Some (key, pub)"
      and mk: "kg_make N fuel k key pub pass (kg_the_comment E k) w = Some (q, v)"
      and sh: "w' = v \<or> kg_show N E key pub pass (kg_the_comment E k) t v = Some (r, out, w')" for key pub q v
  proof -
    note f = kg_resolve_free [OF res]
    have "path \<noteq> key" using f force i assms(5) by auto
    moreover have "path \<noteq> pub"
    proof
      assume p: "path = pub"
      then have "pub = key @ ''.pub''" using f assms(7) by (auto simp: snprintf_def min_def split: if_splits)
      then show False using p assms(6) by blast
    qed
    moreover have "other_files {key, pub} w w'"
      using kg_make_files [OF mk] sh kg_show_files other_files_trans by blast
    ultimately show ?thesis using assms(5) by (simp add: other_files_def)
  qed
  show ?thesis
    using assms(1,5) run kg_batch_files [of N "nat (kg_count k)" w] unfolding cmd_keygen_def Let_def k_def [symmetric] ask prod.case ps
    by (fastforce split: if_splits option.splits prod.splits)
qed

text \<open>A run where a key exists, the user says no and names another file.\<close>

theorem keygen_keeps_keys_witness:
  "\<exists>out w'. cmd_keygen toy_nacl toy_env 0 True [] (''no'' @ [NL] @ ''other'' @ [NL]) [''-f'', ''/k'', ''-N'', []]
      (world0\<lparr>w_files := [''/k'' \<mapsto> ''key'']\<rparr>) = Some (0, out, w') \<and> w_files w' ''/k'' = Some ''key''"
proof -
  let ?as = "[''-f'', ''/k'', ''-N'', []]" and ?w = "world0\<lparr>w_files := [''/k'' \<mapsto> ''key'']\<rparr>" and ?i = "''no'' @ [NL] @ ''other'' @ [NL]"
  define k where "k = kg_args ?as kg_opts0"
  have k: "kg_file k = Some ''/k''" "kg_vanity k = None" "kg_pass k = Some []" "kg_comment k = None" "\<not> kg_force k"
    by (simp_all add: k_def kg_opts0_def)
  have c: "kg_the_comment toy_env k = ''box''" by (simp add: kg_the_comment_def k toy_env_def snprintf_def)
  have p: "kg_path toy_env (Some ''/k'') = ''/k''" "kg_path toy_env (Some ''other'') = ''/h/.hosts69/other''"
    by (simp_all add: kg_path_def snprintf_def keyring_home_def toy_env_def nonempty_def Let_def)
  have f: "fgets 8 ?i = Some (''no'' @ [NL], ''other'' @ [NL])" "fgets 512 (''other'' @ [NL]) = Some (''other'' @ [NL], [])"
    using fgets_line [of "''no''" 8 "''other'' @ [NL]"] fgets_line [of "''other''" 512 "[]"] by simp_all
  have l: "cut_line (''other'' @ [NL]) = ''other''" by (simp add: cut_line_def c_string_def)
  have r2: "kg_resolve toy_env True False (Some ''other'') [] ?w = Some (''/h/.hosts69/other'', ''/h/.hosts69/other.pub'')"
    unfolding kg_resolve.simps [of toy_env True False "Some ''other''"] p by (simp add: world0_def snprintf_def)
  have r: "kg_resolve toy_env True (kg_force k) (Some ''/k'') ?i ?w = Some (''/h/.hosts69/other'', ''/h/.hosts69/other.pub'')"
    unfolding kg_resolve.simps [of toy_env True "kg_force k" "Some ''/k''"] p f Let_def option.case prod.case l
    using k(5) r2 by simp
  have "\<exists>out w'. cmd_keygen toy_nacl toy_env 0 True [] ?i ?as ?w = Some (0, out, w')"
    by (rule keygen_run [OF k_def k(1-3) r]) (use c in \<open>simp_all add: world0_def, simp add: toy_env_def\<close>)
  then obtain out w' where w': "cmd_keygen toy_nacl toy_env 0 True [] ?i ?as ?w = Some (0, out, w')" by blast
  have "w_files w' ''/k'' = Some ''key''"
    by (rule keygen_keeps_keys [OF w']) simp_all
  with w' show ?thesis by blast
qed

end
