(* ===== verification/Gwfile.thy ===== *)
theory Gwfile
  imports Gw_Main Keyring
begin

text \<open>
  The gateway list and its resolver (\<^verbatim>\<open>c/src/IPv69/gwfile.c\<close>, its Linux build): the built-in DNS
  query, \<open>host:port\<close> texts, the file. What the DNS code does to its buffers has three
  outcomes: a result, a refusal, or an access outside of a buffer.
\<close>

abbreviation (input) DNS_HDR :: nat where "DNS_HDR \<equiv> 12"
abbreviation (input) DNS_MAX_NAME :: nat where "DNS_MAX_NAME \<equiv> 255"
abbreviation (input) GWFILE_MAX :: nat where "GWFILE_MAX \<equiv> 8"

datatype 'a dns = Ok 'a | Bad | Stray

primrec dns_bind :: "'a dns \<Rightarrow> ('a \<Rightarrow> 'b dns) \<Rightarrow> 'b dns" where
  "dns_bind (Ok x) k = k x"
| "dns_bind Bad k = Bad"
| "dns_bind Stray k = Stray"

definition rd8 :: "bytes \<Rightarrow> nat \<Rightarrow> u8 dns" where
  "rd8 m i = (if i < length m then Ok (m ! i) else Stray)"

definition rd16 :: "bytes \<Rightarrow> nat \<Rightarrow> u16 dns" where
  "rd16 m i = dns_bind (rd8 m i) (\<lambda>a. dns_bind (rd8 m (i + 1)) (\<lambda>b. Ok (push_bit 8 (ucast a) OR ucast b)))"

definition copy_out :: "bytes \<Rightarrow> nat \<Rightarrow> nat \<Rightarrow> bytes dns" where
  "copy_out m i n = (if i + n \<le> length m then Ok (take n (drop i m)) else Stray)"

text \<open>Appending to a buffer of a given size.\<close>

definition put_out :: "nat \<Rightarrow> bytes \<Rightarrow> bytes \<Rightarrow> bytes dns" where
  "put_out cap out s = (if length out + length s \<le> cap then Ok (out @ s) else Stray)"

section \<open>Names\<close>

text \<open>Labels are collected with dots; a pointer moves the reading place, at most 8 times, and the caller
  resumes behind the first one. The result is the text and the offset to resume at.\<close>

function dns_name :: "bytes \<Rightarrow> nat \<Rightarrow> nat \<Rightarrow> bytes \<Rightarrow> nat \<Rightarrow> nat option \<Rightarrow> (bytes \<times> nat) dns" where
  "dns_name msg outsz off out jumps resume =
     (if length msg \<le> off then Bad
      else case rd8 msg off of
        Ok b \<Rightarrow>
          (let len = unat b
           in if len = 0 then
                dns_bind (put_out outsz out [0]) (\<lambda>_. Ok (out, case resume of Some r \<Rightarrow> r | None \<Rightarrow> off + 1))
              else if b AND 0xc0 = 0xc0 then
                (if length msg \<le> off + 1 then Bad
                 else case rd8 msg (off + 1) of
                   Ok c \<Rightarrow>
                     (let ptr = unat (push_bit 8 (ucast (b AND 0x3f)) OR ucast c :: u16)
                      in if 8 < jumps + 1 \<or> length msg \<le> ptr then Bad
                         else dns_name msg outsz ptr out (jumps + 1) (if resume = None then Some (off + 2) else resume))
                 | Bad \<Rightarrow> Bad | Stray \<Rightarrow> Stray)
              else if b AND 0xc0 \<noteq> 0 \<or> length msg \<le> off + 1 + len then Bad
              else if outsz \<le> length out + 1 + len then Bad
              else case dns_bind (copy_out msg (off + 1) len) (put_out outsz (if out = [] then [] else out @ [0x2e])) of
                     Ok out' \<Rightarrow> dns_name msg outsz (off + 1 + len) out' jumps resume
                   | Bad \<Rightarrow> Bad | Stray \<Rightarrow> Stray)
      | Bad \<Rightarrow> Bad | Stray \<Rightarrow> Stray)"
  by pat_completeness auto
termination
  by (relation "measures [\<lambda>(m, z, o', out, j, r). 8 - j, \<lambda>(m, z, o', out, j, r). length m - o']") auto

declare dns_name.simps [simp del]

definition dns_parse_name :: "bytes \<Rightarrow> nat \<Rightarrow> nat \<Rightarrow> (bytes \<times> nat) dns" where
  "dns_parse_name msg off outsz = dns_name msg outsz off [] 0 None"

section \<open>The question\<close>

text \<open>The labels of a name, into a 512-byte buffer.\<close>

function dns_labels :: "string \<Rightarrow> bytes \<Rightarrow> bytes dns" where
  "dns_labels [] q = Ok q"
| "dns_labels (c # cs) q =
     (let l = length (takeWhile (\<lambda>x. x \<noteq> CHR ''.'') (c # cs))
      in if l = 0 \<or> 63 < l \<or> 512 < length q + 1 + l + 1 then Bad
         else case put_out 512 q (of_nat l # ascii (take l (c # cs))) of
                Ok q' \<Rightarrow> dns_labels (drop (l + 1) (c # cs)) q'
              | Bad \<Rightarrow> Bad | Stray \<Rightarrow> Stray)"
  by pat_completeness auto
termination
  by (relation "measure (\<lambda>(s, q). length s)") auto

declare dns_labels.simps(2) [simp del]

definition dns_query :: "u16 \<Rightarrow> string \<Rightarrow> bytes dns" where
  "dns_query ident name =
     dns_bind (dns_labels name (ipv69_put_be16 ident @ [1, 0, 0, 1, 0, 0, 0, 0, 0, 0]))
       (\<lambda>q. put_out 512 q [0, 0, 1, 0, 1])"

section \<open>The reply\<close>

fun skip_questions :: "bytes \<Rightarrow> nat \<Rightarrow> nat \<Rightarrow> nat dns" where
  "skip_questions r 0 off = Ok off"
| "skip_questions r (Suc n) off =
     dns_bind (dns_parse_name r off DNS_MAX_NAME)
       (\<lambda>(_, off). if length r < off + 4 then Bad else skip_questions r n (off + 4))"

text \<open>The first A record; \<open>None\<close> when the answers have none.\<close>

fun find_a :: "bytes \<Rightarrow> nat \<Rightarrow> nat \<Rightarrow> bytes option dns" where
  "find_a r 0 off = Ok None"
| "find_a r (Suc n) off =
     dns_bind (dns_parse_name r off DNS_MAX_NAME)
       (\<lambda>(_, off). if length r < off + 10 then Bad
          else dns_bind (rd16 r off) (\<lambda>ty. dns_bind (rd16 r (off + 8)) (\<lambda>rdlen.
                 if ty = 1 \<and> rdlen = 4 \<and> off + 10 + 4 \<le> length r
                 then dns_bind (copy_out r (off + 10) 4) (\<lambda>a. Ok (Some a))
                 else find_a r n (off + 10 + unat rdlen))))"

text \<open>One datagram: \<open>Ok None\<close> is a datagram to be passed over.\<close>

definition dns_reply :: "u16 \<Rightarrow> bytes \<Rightarrow> bytes option dns" where
  "dns_reply ident d =
     (let r = take 1024 d
      in if length r < DNS_HDR then Ok None
         else dns_bind (rd16 r 0) (\<lambda>i. if i \<noteq> ident then Ok None
         else dns_bind (rd8 r 2) (\<lambda>f. dns_bind (rd8 r 3) (\<lambda>g.
           if f AND 0x80 = 0 \<or> g AND 0x0f \<noteq> 0 then Ok None
           else dns_bind (rd16 r 6) (\<lambda>an. dns_bind (rd16 r 4) (\<lambda>qd.
             dns_bind (skip_questions r (unat qd) DNS_HDR) (find_a r (unat an))))))))"

text \<open>At most two datagrams are looked at (\<open>None\<close> is a receive that timed out); a refused one ends the
  search.\<close>

fun dns_attempts :: "nat \<Rightarrow> u16 \<Rightarrow> bytes option list \<Rightarrow> bytes option dns" where
  "dns_attempts 0 ident rx = Ok None"
| "dns_attempts (Suc n) ident (Some d # rx) =
     (case dns_reply ident d of
        Ok (Some a) \<Rightarrow> Ok (Some a)
      | Ok None \<Rightarrow> dns_attempts n ident rx
      | Bad \<Rightarrow> Ok None
      | Stray \<Rightarrow> Stray)"
| "dns_attempts (Suc n) ident (None # rx) = dns_attempts n ident rx"
| "dns_attempts (Suc n) ident [] = Ok None"

text \<open>The first usable \<^verbatim>\<open>nameserver\<close> line, or the local resolver.\<close>

definition ns_word :: "string \<Rightarrow> string option" where
  "ns_word line =
     (if take 10 line \<noteq> ''nameserver'' then None
      else let v = take 63 (takeWhile (\<lambda>c. \<not> c_isspace c) (dropWhile c_isspace (drop 10 line)))
           in if v = [] then None else Some v)"

fun ns_lines :: "inet \<Rightarrow> string list \<Rightarrow> bytes option" where
  "ns_lines I [] = None"
| "ns_lines I (l # ls) =
     (case Option.bind (ns_word (c_string l)) (pton4 I) of Some a \<Rightarrow> Some a | None \<Rightarrow> ns_lines I ls)"

definition dns_server :: "inet \<Rightarrow> world \<Rightarrow> bytes option" where
  "dns_server I w =
     (let ns = Option.bind (w_files w ''/etc/resolv.conf'') (\<lambda>t. ns_lines I (fgets_all 256 t))
      in case ns of
           Some a \<Rightarrow> if a = zeros 4 then pton4 I ''127.0.0.53'' else Some a
         | None \<Rightarrow> pton4 I ''127.0.0.53'')"

definition dns_ident :: "world \<Rightarrow> u16 \<times> world" where
  "dns_ident w =
     (let (b, w) = randombytes 2 w; i = push_bit 8 (ucast (bget b 1)) OR ucast (bget b 0)
      in (if i = 0 then 0x6969 XOR word_of_int (w_time w) else i, w))"

definition dns_query_a :: "inet \<Rightarrow> string \<Rightarrow> bytes option list \<Rightarrow> world \<Rightarrow> bytes option dns \<times> world" where
  "dns_query_a I name rx w =
     (case dns_server I w of
        None \<Rightarrow> (Ok None, w)
      | Some ns \<Rightarrow>
          let (ident, w) = dns_ident w
          in case dns_query ident name of
               Ok q \<Rightarrow> (dns_attempts 2 ident rx, w)
             | Bad \<Rightarrow> (Ok None, w)
             | Stray \<Rightarrow> (Stray, w))"

section \<open>\<open>host:port\<close>\<close>

definition split_last :: "string \<Rightarrow> (string \<times> string) option" where
  "split_last s =
     (if CHR '':'' \<notin> set s then None
      else Some (rev (tl (dropWhile (\<lambda>c. c \<noteq> CHR '':'') (rev s))), rev (takeWhile (\<lambda>c. c \<noteq> CHR '':'') (rev s))))"

text \<open>Brackets around an IPv6 address, and a port behind them.\<close>

definition unbracket :: "string \<Rightarrow> int \<Rightarrow> string \<times> int" where
  "unbracket host port =
     (if take 1 host = ''['' then
        (let body = tl host
         in if CHR '']'' \<in> set body then
              (let rest = tl (dropWhile (\<lambda>c. c \<noteq> CHR '']'') body);
                   p = dropWhile (\<lambda>c. c \<noteq> CHR '':'') rest
               in (takeWhile (\<lambda>c. c \<noteq> CHR '']'') body, if p = [] then port else atoi (tl p)))
            else (body, port))
      else (host, port))"

text \<open>The host and the port; \<open>None\<close> for a port alone.\<close>

definition host_port :: "string \<Rightarrow> (string \<times> int) option" where
  "host_port text =
     (let hp = snprintf 256 text
      in case split_last hp of
           None \<Rightarrow> Some (unbracket hp 6969)
         | Some (h, p) \<Rightarrow>
             if h = [] then None
             else if last h \<noteq> CHR '']'' then Some (unbracket h (atoi p))
             else Some (unbracket hp 6969))"

text \<open>The gateway's socket address, or the address in the DNS reply.\<close>

definition gwfile_resolve :: "inet \<Rightarrow> string \<Rightarrow> bytes option list \<Rightarrow> world \<Rightarrow> endpoint option dns \<times> world" where
  "gwfile_resolve I text rx w =
     (case host_port text of
        None \<Rightarrow> (Ok None, w)
      | Some (host, port) \<Rightarrow>
          if port \<le> 0 \<or> 65535 < port then (Ok None, w)
          else case pton4 I host of
            Some a \<Rightarrow> (Ok (Some (Ep4 a (word_of_int port))), w)
          | None \<Rightarrow>
              (case pton6 I host of
                 Some a \<Rightarrow> (Ok (Some (Ep6 a (word_of_int port))), w)
               | None \<Rightarrow>
                   let (a, w) = dns_query_a I host rx w
                   in (dns_bind a (\<lambda>a. Ok (map_option (\<lambda>a. Ep4 a (word_of_int port)) a)), w)))"

section \<open>The file\<close>

definition gwfile_path :: "kenv \<Rightarrow> nat \<Rightarrow> string" where
  "gwfile_path E bufsz = snprintf bufsz (fst (keyring_paths E 256 512 512) @ ''/gateways'')"

text \<open>The entry on a line, cut at its end; \<open>None\<close> for an empty line or a comment.\<close>

definition gw_line :: "string \<Rightarrow> string option" where
  "gw_line l =
     (let p = dropWhile (\<lambda>c. c = CHR '' '' \<or> c = CHR 0x09) (c_string l)
      in if p = [] \<or> hd p = CHR ''#'' \<or> hd p = NL then None
         else Some (takeWhile (\<lambda>c. c \<noteq> CR \<and> c \<noteq> NL) p))"

text \<open>\<open>rx\<close> gives the datagrams that answer the query for a line.\<close>

fun gwfile_lines ::
    "inet \<Rightarrow> (string \<Rightarrow> bytes option list) \<Rightarrow> nat \<Rightarrow> string list \<Rightarrow> world \<Rightarrow> endpoint list dns \<times> world" where
  "gwfile_lines I rx 0 ls w = (Ok [], w)"
| "gwfile_lines I rx n [] w = (Ok [], w)"
| "gwfile_lines I rx (Suc n) (l # ls) w =
     (case gw_line l of
        None \<Rightarrow> gwfile_lines I rx (Suc n) ls w
      | Some p \<Rightarrow>
          (case gwfile_resolve I p (rx p) w of
             (Ok (Some ep), w) \<Rightarrow> (let (r, w) = gwfile_lines I rx n ls w in (dns_bind r (\<lambda>eps. Ok (ep # eps)), w))
           | (Ok None, w) \<Rightarrow> gwfile_lines I rx (Suc n) ls w
           | (Bad, w) \<Rightarrow> (Bad, w)
           | (Stray, w) \<Rightarrow> (Stray, w)))"

definition gwfile_load ::
    "inet \<Rightarrow> kenv \<Rightarrow> (string \<Rightarrow> bytes option list) \<Rightarrow> nat \<Rightarrow> world \<Rightarrow> endpoint list dns \<times> world" where
  "gwfile_load I E rx n w =
     (case w_files w (gwfile_path E 512) of
        None \<Rightarrow> (Ok [], w)
      | Some t \<Rightarrow> gwfile_lines I rx n (fgets_all 256 t) w)"

end
