(* ===== verification/Gwfile_Props.thy ===== *)
theory Gwfile_Props
  imports Gwfile Keyring_Props
begin

text \<open>
  The resolver stays within its buffers whatever it is sent, and a written gateway list is read
  back.
\<close>

section \<open>Within the buffers\<close>

lemma dns_name_safe:
  "length out < outsz \<Longrightarrow> dns_name msg outsz off out jumps resume \<noteq> Stray \<and>
     (\<forall>t o'. dns_name msg outsz off out jumps resume = Ok (t, o') \<longrightarrow> length t < outsz)"
proof (induction msg outsz off out jumps resume rule: dns_name.induct)
  case (1 msg outsz off out jumps resume)
  show ?case
  proof (cases "length msg \<le> off")
    case True
    then show ?thesis by (simp add: dns_name.simps)
  next
    case False
    then have rd: "rd8 msg off = Ok (msg ! off)" by (simp add: rd8_def)
    let ?b = "msg ! off" and ?len = "unat (msg ! off)"
    consider (zero) "?len = 0" | (ptr) "?len \<noteq> 0" "?b AND 0xc0 = 0xc0" | (lab) "?len \<noteq> 0" "?b AND 0xc0 \<noteq> 0xc0" by blast
    then show ?thesis
    proof cases
      case zero
      then show ?thesis using False rd 1(3) by (subst (1 2) dns_name.simps) (simp add: put_out_def Let_def split: option.splits)
    next
      case ptr
      show ?thesis
      proof (cases "length msg \<le> off + 1")
        case True
        then show ?thesis using False rd ptr by (subst (1 2) dns_name.simps) (simp add: Let_def)
      next
        case short: False
        then have rd1: "rd8 msg (off + 1) = Ok (msg ! (off + 1))" by (simp add: rd8_def)
        show ?thesis
          using 1(1) [OF False rd refl ptr short rd1 refl] 1(3) False rd ptr short rd1
          by (subst (1 2) dns_name.simps) (simp add: Let_def)
      qed
    next
      case lab
      show ?thesis
      proof (cases "?b AND 0xc0 \<noteq> 0 \<or> length msg \<le> off + 1 + ?len \<or> outsz \<le> length out + 1 + ?len")
        case True
        then show ?thesis using False rd lab by (subst (1 2) dns_name.simps) (auto simp: Let_def)
      next
        case fits: False
        let ?new = "(if out = [] then [] else out @ [0x2e]) @ take ?len (drop (off + 1) msg)"
        have put: "dns_bind (copy_out msg (off + 1) ?len) (put_out outsz (if out = [] then [] else out @ [0x2e])) = Ok ?new"
          using fits by (auto simp: copy_out_def put_out_def)
        have new: "length ?new < outsz" using fits by auto
        show ?thesis
          using 1(2) [OF False rd refl lab _ _ put new] False rd lab fits put
          by (subst (1 2) dns_name.simps) (auto simp: Let_def)
      qed
    qed
  qed
qed

text \<open>No access outside of a buffer.\<close>

definition within :: "'a dns \<Rightarrow> bool" where
  "within p \<longleftrightarrow> p \<noteq> Stray"

lemma within_simps [simp]: "within (Ok x)" "within Bad" "\<not> within Stray"
  by (simp_all add: within_def)

lemma within_bind [intro]: "within p \<Longrightarrow> (\<And>x. p = Ok x \<Longrightarrow> within (k x)) \<Longrightarrow> within (dns_bind p k)"
  by (cases p) auto

lemma within_rd [intro]: "i < length r \<Longrightarrow> within (rd8 r i)" "i + 1 < length r \<Longrightarrow> within (rd16 r i)"
  by (simp_all add: rd8_def rd16_def)

lemma within_copy [intro]: "i + n \<le> length r \<Longrightarrow> within (copy_out r i n)"
  by (simp add: copy_out_def)

lemma within_name [intro, simp]: "within (dns_parse_name r off DNS_MAX_NAME)"
  using dns_name_safe [of "[]" DNS_MAX_NAME r off 0 None] by (simp add: dns_parse_name_def within_def)

lemma within_skip [intro, simp]: "within (skip_questions r n off)"
  by (induction r n off rule: skip_questions.induct) (auto intro!: within_bind split: prod.splits)

lemma within_find [intro, simp]: "within (find_a r n off)"
  by (induction r n off rule: find_a.induct) (auto intro!: within_bind within_rd within_copy split: prod.splits)

lemma within_reply: "within (dns_reply ident d)"
  unfolding dns_reply_def Let_def by (auto intro!: within_bind within_rd) arith+

lemma attempts_safe: "\<exists>a. dns_attempts n ident rx = Ok a"
proof (induction n ident rx rule: dns_attempts.induct)
  case (2 n ident d rx)
  then show ?case using within_reply [of ident d] by (auto split: dns.splits option.splits)
qed auto

lemma labels_len:
  "dns_labels s q \<noteq> Stray \<and> (\<forall>q'. dns_labels s q = Ok q' \<longrightarrow> length q' \<le> length q + length s + 1 \<and> (s = [] \<longrightarrow> q' = q))"
proof (induction s q rule: dns_labels.induct)
  case (2 c cs q)
  let ?l = "length (takeWhile (\<lambda>x. x \<noteq> CHR ''.'') (c # cs))"
  show ?case
  proof (cases "?l = 0 \<or> 63 < ?l \<or> 512 < length q + 1 + ?l + 1")
    case True
    then show ?thesis by (subst (1 2) dns_labels.simps) (auto simp: Let_def)
  next
    case False
    let ?q = "q @ of_nat ?l # ascii (take ?l (c # cs))"
    have le: "?l \<le> length (c # cs)" by (rule length_takeWhile_le)
    then have lq: "length ?q = length q + 1 + ?l" by (simp add: min_def del: takeWhile.simps)
    then have put: "put_out 512 q (of_nat ?l # ascii (take ?l (c # cs))) = Ok ?q" using False by (simp add: put_out_def del: takeWhile.simps take_Cons')
    note IH = 2 [OF refl False put]
    have step: "dns_labels (c # cs) q = dns_labels (drop (?l + 1) (c # cs)) ?q"
      unfolding dns_labels.simps(2) Let_def put dns.case using False by simp
    have "length q' \<le> length q + length (c # cs) + 1" if "dns_labels (drop (?l + 1) (c # cs)) ?q = Ok q'" for q'
    proof (cases "drop (?l + 1) (c # cs) = []")
      case True
      then have "q' = ?q" using IH that by simp
      then show ?thesis using lq le by simp
    next
      case False
      then have "length (drop (?l + 1) (c # cs)) = length (c # cs) - (?l + 1)" "?l + 1 < length (c # cs)" by (simp_all del: takeWhile.simps)
      then show ?thesis using IH that lq by (auto simp del: takeWhile.simps)
    qed
    then show ?thesis using IH step by auto
  qed
qed simp

lemma within_query: "length name \<le> 490 \<Longrightarrow> within (dns_query ident name)"
proof -
  assume l: "length name \<le> 490"
  let ?q = "ipv69_put_be16 ident @ [1, 0, 0, 1, 0, 0, 0, 0, 0, 0]"
  have "length q' \<le> 507" if "dns_labels name ?q = Ok q'" for q'
    using labels_len [of name ?q] that l by fastforce
  then have "within (put_out 512 q' [0, 0, 1, 0, 1])" if "dns_labels name ?q = Ok q'" for q'
    using that by (simp add: put_out_def)
  moreover have "within (dns_labels name ?q)" using labels_len [of name ?q] by (simp add: within_def)
  ultimately show ?thesis unfolding dns_query_def by blast
qed

lemma split_len: "split_last u = Some (a, b) \<Longrightarrow> length a \<le> length u"
proof -
  assume "split_last u = Some (a, b)"
  then have "a = rev (tl (dropWhile (\<lambda>c. c \<noteq> CHR '':'') (rev u)))" by (simp add: split_last_def split: if_splits)
  then have "length a \<le> length (dropWhile (\<lambda>c. c \<noteq> CHR '':'') (rev u))" by simp
  also have "\<dots> \<le> length (rev u)" by (rule length_dropWhile_le)
  finally show ?thesis by simp
qed

lemma unbracket_len: "length (fst (unbracket host port)) \<le> length host"
proof -
  have "length (takeWhile P (tl host)) \<le> length host" for P using length_takeWhile_le [of P "tl host"] by simp
  then show ?thesis by (simp add: unbracket_def Let_def)
qed

lemma host_len: "host_port s = Some (h, p) \<Longrightarrow> length h \<le> 255"
proof -
  let ?hp = "snprintf 256 s"
  have hp: "length ?hp \<le> 255" by (simp add: snprintf_def)
  have u: "unbracket host port = (h, p) \<Longrightarrow> length h \<le> length host" for host port
    using unbracket_len [of host port] by simp
  assume "host_port s = Some (h, p)"
  then obtain host port where "unbracket host port = (h, p)" "length host \<le> length ?hp"
    using split_len [of ?hp] by (auto simp: host_port_def Let_def split: option.splits if_splits)
  then show ?thesis using u hp by fastforce
qed

lemma within_resolve: "\<exists>e w'. gwfile_resolve I s rx w = (Ok e, w')"
proof -
  have "\<exists>a w'. dns_query_a I h rx w = (Ok a, w')" if "length h \<le> 255" for h
  proof -
    have "within (dns_query i h)" for i by (rule within_query) (use that in simp)
    then show ?thesis using attempts_safe
      by (auto simp: dns_query_a_def Let_def within_def split: option.splits prod.splits dns.splits)
  qed
  then have q: "\<exists>a w'. dns_query_a I h rx w = (Ok a, w')" if "host_port s = Some (h, p)" for h p
    using host_len [OF that] by blast
  show ?thesis
  proof (cases "host_port s")
    case None
    then show ?thesis by (simp add: gwfile_resolve_def)
  next
    case (Some x)
    obtain h p where x: "x = (h, p)" by (cases x)
    obtain a w' where "dns_query_a I h rx w = (Ok a, w')" using q Some x by blast
    then show ?thesis using Some x by (simp add: gwfile_resolve_def split: option.splits)
  qed
qed

lemma lines_safe: "\<exists>eps w'. gwfile_lines I rx n ls w = (Ok eps, w') \<and> length eps \<le> n"
proof (induction I rx n ls w rule: gwfile_lines.induct)
  case (3 I rx n l ls w)
  show ?case
  proof (cases "gw_line l")
    case None
    then show ?thesis using 3(1) by simp
  next
    case (Some p)
    obtain e v where e: "gwfile_resolve I p (rx p) w = (Ok e, v)" using within_resolve [of I p "rx p" w] by blast
    show ?thesis
    proof (cases e)
      case None
      then show ?thesis using 3(2) [OF Some e [symmetric] refl None] e Some by simp
    next
      case (Some ep)
      then show ?thesis using 3(3) [OF \<open>gw_line l = Some p\<close> e [symmetric] refl Some] e \<open>gw_line l = Some p\<close> by auto
    qed
  qed
qed simp_all

text \<open>C34: Whatever the list file holds, and whatever datagrams answer the queries for its lines, loading
  the list ends, never reads or writes outside of a buffer, and gives at most as many
  gateways as asked for.\<close>

theorem gwfile_load_safe: "\<exists>eps w'. gwfile_load I E rx n w = (Ok eps, w') \<and> length eps \<le> n"
  using lines_safe [of I rx n] by (auto simp: gwfile_load_def split: option.splits)

section \<open>A written list\<close>

declare dec.simps [simp del]

lemma digit_char: "d < 10 \<Longrightarrow> char_of (48 + d) = hexdig d"
proof -
  assume "d < 10"
  then have "d \<in> {0, 1, 2, 3, 4, 5, 6, 7, 8, 9}" by auto
  then show ?thesis by (auto simp: hexdig_def char_of_def bit_0)
qed

lemma dec_rec: "dec n = (if n < 10 then [hexdig n] else dec (n div 10) @ [hexdig (n mod 10)])"
  by (subst dec.simps) (simp add: digit_char)

lemma digit_plain:
  "d < 10 \<Longrightarrow> is_digit 10 (hexdig d) \<and> \<not> c_isspace (hexdig d) \<and> hexdig d \<notin> set ''+-:.[]# '' \<and> plain [hexdig d] \<and> hexdig d \<noteq> CHR 0x09"
  using hexdig_cases [of d] by (auto simp: hexdig_def is_digit_def digit_val_def c_isspace_def)

lemma dec_digits: "set (dec n) \<subseteq> hexdig ` {..<10} \<and> dec n \<noteq> []"
proof (induction n rule: dec.induct)
  case (1 n)
  then show ?case by (cases "n < 10"; subst (1 2) dec_rec) auto
qed

lemma dec_length: "n < 10 ^ k \<Longrightarrow> 0 < k \<Longrightarrow> length (dec n) \<le> k"
proof (induction n arbitrary: k rule: dec.induct)
  case (1 n)
  show ?case
  proof (cases "n < 10")
    case True
    then show ?thesis using 1(3) by (subst dec_rec) simp
  next
    case False
    then obtain j where j: "k = Suc j" "0 < j" using 1(2,3) by (cases k; cases "k - 1") auto
    then have "n div 10 < 10 ^ j" using 1(2) by (simp add: less_mult_imp_div_less mult.commute)
    then have "length (dec (n div 10)) \<le> j" using 1(1) False j(2) by blast
    then show ?thesis using False j(1) by (subst dec_rec) simp
  qed
qed

lemma scan_dec: "scan_digits 10 acc (dec n @ r) = scan_digits 10 (acc * 10 ^ length (dec n) + n) r"
proof (induction n arbitrary: acc r rule: dec.induct)
  case (1 n)
  have d: "digit_val (hexdig (n mod 10)) = Some (n mod 10)" "is_digit 10 (hexdig (n mod 10))"
    using digit_hexdig [of "n mod 10"] digit_plain [of "n mod 10"] by simp_all
  show ?case
  proof (cases "n < 10")
    case True
    then show ?thesis using d by (simp add: dec_rec [of n])
  next
    case False
    have "scan_digits 10 acc (dec n @ r) = scan_digits 10 (acc * 10 ^ length (dec (n div 10)) + n div 10) (hexdig (n mod 10) # r)"
      using 1 [of acc "hexdig (n mod 10) # r"] False by (subst dec_rec) simp
    also have "\<dots> = scan_digits 10 ((acc * 10 ^ length (dec (n div 10)) + n div 10) * 10 + n mod 10) r" using d by simp
    also have "(acc * 10 ^ length (dec (n div 10)) + n div 10) * 10 + n mod 10 = acc * 10 ^ length (dec n) + n"
      using False by (subst (2) dec_rec) (simp add: algebra_simps)
    finally show ?thesis .
  qed
qed

lemma sint_small: "0 \<le> k \<Longrightarrow> k < 65536 \<Longrightarrow> sint (word_of_int k :: u32) = k"
  by (simp add: sint_uint signed_take_bit_int_eq_self take_bit_int_eq_self unsigned_of_int)

lemma atoi_dec: "n < 65536 \<Longrightarrow> atoi (dec n) = int n"
proof -
  assume n: "n < 65536"
  obtain c cs where d: "dec n = c # cs" using dec_digits [of n] by (cases "dec n") auto
  then have "c \<in> hexdig ` {..<10}" using dec_digits [of n] by auto
  then have c: "\<not> c_isspace c" "c \<noteq> CHR ''-''" "c \<noteq> CHR ''+''" using digit_plain by auto
  have "fst (scan_digits 10 0 (dec n)) = n" using scan_dec [of 0 n "[]"] by simp
  moreover have "scan_sign (dropWhile c_isspace (dec n)) = (False, dec n)" using c by (simp add: d scan_sign_def)
  ultimately show ?thesis using n sint_small [of "int n"] by (simp add: atoi_def del: of_int_of_nat_eq)
qed

definition dotted :: "string \<Rightarrow> bool" where
  "dotted s \<longleftrightarrow> set s \<subseteq> insert CHR ''.'' (hexdig ` {..<10}) \<and> s \<noteq> []"

lemma dotted_dec: "dotted (dec n)" "dotted a \<Longrightarrow> dotted b \<Longrightarrow> dotted (a @ ''.'' @ b)"
  using dec_digits [of n] by (auto simp: dotted_def)

lemma dotted_chars: "dotted s \<Longrightarrow> c \<in> set s \<Longrightarrow> c \<notin> set '':[]# '' \<and> c \<noteq> CHR 0x09 \<and> c \<noteq> NL \<and> c \<noteq> CR \<and> c \<noteq> CHR 0x00"
proof -
  assume "dotted s" "c \<in> set s"
  then have "c \<in> insert CHR ''.'' (hexdig ` {..<10})" unfolding dotted_def by blast
  then consider "c = CHR ''.''" | d where "d < 10" "c = hexdig d" by blast
  then show ?thesis
  proof cases
    case (2 d)
    then show ?thesis using digit_plain [OF 2(1)] by simp
  qed simp
qed

lemma ip4_dotted: "dotted (ip4_text a)"
  unfolding ip4_text_def by (intro dotted_dec)

lemma dec_short: "length (dec (unat (p :: u16))) \<le> 5" "length (dec (unat (b :: u8))) \<le> 3"
proof -
  show "length (dec (unat p)) \<le> 5" using unsigned_less [of p, where ?'a = nat] by (intro dec_length) simp_all
  show "length (dec (unat b)) \<le> 3" using unsigned_less [of b, where ?'a = nat] by (intro dec_length) simp_all
qed

lemma ip4_short: "length (ip4_text a) \<le> 15"
  using dec_short(2) [of "bget a 0"] dec_short(2) [of "bget a 1"] dec_short(2) [of "bget a 2"] dec_short(2) [of "bget a 3"]
  by (simp add: ip4_text_def)

definition gw_text :: "bytes \<times> u16 \<Rightarrow> string" where
  "gw_text g = ip4_text (fst g) @ '':'' @ dec (unat (snd g))"

lemma host_port_text: "host_port (gw_text (a, p)) = Some (ip4_text a, int (unat p))"
proof -
  let ?h = "ip4_text a" and ?d = "dec (unat p)"
  have h: "dotted ?h" "dotted ?d" by (rule ip4_dotted, rule dotted_dec)
  then have nc: "CHR '':'' \<notin> set ?d" using dotted_chars by fastforce
  have "length (gw_text (a, p)) \<le> 255" using ip4_short [of a] dec_short(1) [of p] by (simp add: gw_text_def)
  then have hp: "snprintf 256 (gw_text (a, p)) = ?h @ '':'' @ ?d" by (simp add: snprintf_def gw_text_def)
  have "takeWhile (\<lambda>c. c \<noteq> CHR '':'') (rev ?d @ CHR '':'' # rev ?h) = rev ?d"
    "dropWhile (\<lambda>c. c \<noteq> CHR '':'') (rev ?d @ CHR '':'' # rev ?h) = CHR '':'' # rev ?h"
    using nc by simp_all
  then have s: "split_last (?h @ '':'' @ ?d) = Some (?h, ?d)" by (simp add: split_last_def)
  have l: "?h \<noteq> []" "last ?h \<noteq> CHR '']''" "take 1 ?h \<noteq> ''[''"
  proof -
    show ne: "?h \<noteq> []" using h(1) by (simp add: dotted_def)
    show "last ?h \<noteq> CHR '']''" using dotted_chars [OF h(1) last_in_set [OF ne]] by simp
    show "take 1 ?h \<noteq> ''[''" using dotted_chars [OF h(1), of "hd ?h"] ne by (cases ?h) auto
  qed
  have "unat p < 65536" using unsigned_less [of p, where ?'a = nat] by simp
  then show ?thesis using s l by (simp add: host_port_def hp unbracket_def atoi_dec)
qed

lemma gw_line_text: "gw_line (gw_text g @ [NL]) = Some (gw_text g)"
proof -
  let ?t = "gw_text g"
  have c: "c \<notin> set ''[]# '' \<and> c \<noteq> CHR 0x09 \<and> c \<noteq> NL \<and> c \<noteq> CR \<and> c \<noteq> CHR 0x00" if "c \<in> set ?t" for c
    using that dotted_chars [OF ip4_dotted] dotted_chars [OF dotted_dec(1)] by (fastforce simp: gw_text_def)
  have ne: "?t \<noteq> []" using ip4_dotted [of "fst g"] by (simp add: gw_text_def)
  have "c_string (?t @ [NL]) = ?t @ [NL]" unfolding c_string_def using c by (subst takeWhile_append2) auto
  moreover have "dropWhile (\<lambda>c. c = CHR '' '' \<or> c = CHR 0x09) (?t @ [NL]) = ?t @ [NL]" "hd (?t @ [NL]) \<noteq> CHR ''#''" "hd (?t @ [NL]) \<noteq> NL"
    using c [of "hd ?t"] ne by (cases ?t; auto)+
  moreover have "takeWhile (\<lambda>c. c \<noteq> CR \<and> c \<noteq> NL) (?t @ [NL]) = ?t" using c by (subst takeWhile_append2) auto
  ultimately show ?thesis by (simp add: gw_line_def Let_def)
qed

text \<open>A gateway list of lines with an IPv4 address and a port loads as exactly these gateways, in
  order, and no query is made.\<close>

theorem gwfile_roundtrip:
  assumes addr: "\<forall>g\<in>set gws. pton4 I (ip4_text (fst g)) = Some (fst g) \<and> snd g \<noteq> 0"
    and list: "w_files w (gwfile_path E 512) = Some (concat (map (\<lambda>g. gw_text g @ [NL]) gws))" and n: "length gws \<le> n"
  shows "gwfile_load I E rx n w = (Ok (map (\<lambda>(a, p). Ep4 a p) gws), w)"
proof -
  have "gwfile_lines I rx n (fgets_all 256 (concat (map (\<lambda>g. gw_text g @ [NL]) gws))) w = (Ok (map (\<lambda>(a, p). Ep4 a p) gws), w)"
    using addr n
  proof (induction gws arbitrary: n)
    case Nil
    have "fgets_all 256 [] = []" by (subst fgets_all.simps) (simp add: fgets_def)
    then show ?case by (cases n) simp_all
  next
    case (Cons g gws)
    obtain a p where g: "g = (a, p)" by (cases g)
    obtain m where m: "n = Suc m" using Cons.prems(2) by (cases n) auto
    have l: "NL \<notin> set (gw_text g)" "length (gw_text g) + 1 < 256"
      using dotted_chars [OF ip4_dotted] dotted_chars [OF dotted_dec(1)] ip4_short [of a] dec_short(1) [of p]
      by (fastforce simp: gw_text_def g)+
    have "fgets_all 256 (concat (map (\<lambda>g. gw_text g @ [NL]) (g # gws))) = (gw_text g @ [NL]) # fgets_all 256 (concat (map (\<lambda>g. gw_text g @ [NL]) gws))"
      using fgets_all_line [OF l] by simp
    moreover have "gwfile_resolve I (gw_text g) q w = (Ok (Some (Ep4 a p)), w)" for q
    proof -
      have "unat p < 65536" "0 < unat p" using unsigned_less [of p, where ?'a = nat] Cons.prems(1) g by (simp_all add: unat_gt_0)
      moreover have "uint p = int (unat p)" by simp
      ultimately have "0 < uint p" "uint p < 65536" by linarith+
      then show ?thesis using host_port_text [of a p] Cons.prems(1) by (simp add: gwfile_resolve_def g)
    qed
    moreover have "gwfile_lines I rx m (fgets_all 256 (concat (map (\<lambda>g. gw_text g @ [NL]) gws))) w = (Ok (map (\<lambda>(a, p). Ep4 a p) gws), w)"
      using Cons m by simp
    ultimately have "gwfile_lines I rx n (fgets_all 256 (concat (map (\<lambda>g. gw_text g @ [NL]) (g # gws)))) w =
        (Ok (Ep4 a p # map (\<lambda>(a, p). Ep4 a p) gws), w)"
      by (simp add: m gw_line_text del: concat.simps list.map)
    then show ?case by (simp add: g)
  qed
  then show ?thesis using list by (simp add: gwfile_load_def)
qed

definition toy_resolver :: inet where
  "toy_resolver = \<lparr>pton4 = (\<lambda>s. if s = ip4_text [10, 0, 0, 1] then Some [10, 0, 0, 1] else None), pton6 = (\<lambda>_. None), ntop6 = (\<lambda>_. [])\<rparr>"

theorem gwfile_roundtrip_witness:
  "\<exists>w. gwfile_load toy_resolver toy_env (\<lambda>_. []) 8 w = (Ok [Ep4 [10, 0, 0, 1] 6969], w)"
proof -
  let ?w = "world0\<lparr>w_files := [gwfile_path toy_env 512 \<mapsto> concat (map (\<lambda>g. gw_text g @ [NL]) [([10, 0, 0, 1], 6969)])]\<rparr>"
  have "gwfile_load toy_resolver toy_env (\<lambda>_. []) 8 ?w = (Ok (map (\<lambda>(a, p). Ep4 a p) [([10, 0, 0, 1], 6969)]), ?w)"
    by (rule gwfile_roundtrip) (simp_all add: toy_resolver_def)
  then show ?thesis by auto
qed

text \<open>A bracketed IPv6 address without a port is cut at its last colon.\<close>

lemma bracket_without_port: "host_port ''[::1]'' = Some ('':'', 1)"
  by code_simp

end
