(* ===== verification/Tools.thy ===== *)
theory Tools
  imports Dhcp_Client Keygen Gwfile_Props
begin

text \<open>
  The binary's own command line, \<^verbatim>\<open>c/src/IPv69/main.c\<close> (its Linux build), which chooses the tool and
  the key file, and the tool \<^verbatim>\<open>c/src/IPv69/ip69.c\<close>, which asks the bring-up daemon.
\<close>

section \<open>Dispatch\<close>

datatype tool = Gw_Tool | Raw_Tool | Keygen_Tool | Dhcpd_Tool | Tun_Tool | Icsp_Tool | Btls_Tool | Pppoe_Tool | Ip69_Tool | Help_Tool

text \<open>What is called with which words, a help page, or the usage text and exit code 1.\<close>

datatype dispatch = Run tool "string list" | Help_For string | Unknown "string option"

definition command :: "string \<Rightarrow> string list \<Rightarrow> dispatch" where
  "command cmd argv =
     (if cmd = ''gw'' then Run Gw_Tool (tl argv)
      else if cmd = ''addr'' then Run Raw_Tool argv
      else if cmd = ''keygen'' then Run Keygen_Tool (tl argv)
      else if cmd = ''dhcpd'' then Run Dhcpd_Tool (tl argv)
      else if cmd = ''dhcp'' then Run Raw_Tool argv
      else if cmd = ''net'' then
        (if 4 \<le> length argv \<and> argv ! 2 = ''up'' then Run Tun_Tool (drop 2 argv) else Run Raw_Tool argv)
      else if cmd \<in> {''send'', ''recv'', ''ping''} then Run Raw_Tool argv
      else if cmd = ''icsp'' then Run Icsp_Tool (tl argv)
      else if cmd = ''btls'' then Run Btls_Tool (tl argv)
      else if cmd = ''pppoe'' then Run Pppoe_Tool (tl argv)
      else if cmd = ''chat'' then Help_For ''icsp''
      else if cmd = ''tun'' then Run Tun_Tool (tl argv)
      else if cmd \<in> {''lease'', ''renew'', ''status''} then Run Ip69_Tool argv
      else Unknown (Some cmd))"

abbreviation (input) help_word :: "string \<Rightarrow> bool" where
  "help_word a \<equiv> a = ''--help'' \<or> a = ''-h''"

text \<open>The second component is the key file that was selected. When only pairs of the leading option are
  given, the first word that is left in memory is the option itself.\<close>

definition main_dispatch :: "string list \<Rightarrow> dispatch \<times> string option" where
  "main_dispatch argv =
     (if length argv < 2 then (Unknown None, None)
      else let (argv, kf) = (if 3 \<le> length argv \<and> argv ! 1 = ''--key-file'' then parse_strip_keyfile argv 1 else (argv, None))
           in if length argv < 2 then (Unknown (Some ''--key-file''), kf)
              else let cmd = argv ! 1;
                       (argv, kf) = (if 2 < length argv \<and> cmd \<noteq> ''keygen'' \<and> cmd \<noteq> ''help'' \<and> \<not> help_word cmd
                         then (case parse_strip_keyfile argv 2 of (argv, kf') \<Rightarrow> (argv, case kf' of None \<Rightarrow> kf | Some f \<Rightarrow> Some f))
                         else (argv, kf))
                   in if cmd = ''help'' \<or> help_word cmd then (Run Help_Tool (tl argv), kf)
                      else if 2 < length argv \<and> help_word (argv ! 2) then (Help_For cmd, kf)
                      else (command cmd argv, kf))"

text \<open>The option may stand before the subcommand or anywhere behind it.\<close>

lemma strip_none: "''--key-file'' \<notin> set xs \<Longrightarrow> strip_keyfile_scan xs kf = (xs, kf)"
  by (induction xs kf rule: strip_keyfile_scan.induct) auto

lemma strip_pair:
  "''--key-file'' \<notin> set xs \<Longrightarrow> ''--key-file'' \<notin> set ys \<Longrightarrow> strip_keyfile_scan (xs @ [''--key-file'', f] @ ys) kf = (xs @ ys, Some f)"
proof (induction xs arbitrary: kf)
  case Nil
  then show ?case by (simp add: strip_none)
next
  case (Cons x xs)
  obtain b r where "xs @ [''--key-file'', f] @ ys = b # r" by (cases xs) auto
  moreover have "x \<noteq> ''--key-file''" using Cons.prems by auto
  ultimately show ?case using Cons by simp
qed

lemma keyfile_anywhere:
  assumes "''--key-file'' \<notin> set (c # xs @ ys)" "c \<noteq> ''keygen''" "c \<noteq> ''help''" "\<not> help_word c"
  shows "main_dispatch (p # ''--key-file'' # f # c # xs @ ys) = main_dispatch (p # c # xs @ [''--key-file'', f] @ ys)"
proof -
  have 1: "parse_strip_keyfile (p # ''--key-file'' # f # c # xs @ ys) 1 = (p # c # xs @ ys, Some f)"
    using strip_pair [of "[]" "c # xs @ ys"] assms(1) by (simp add: parse_strip_keyfile_def)
  have 2: "parse_strip_keyfile (p # c # xs @ ys) 2 = (p # c # xs @ ys, None)"
      "parse_strip_keyfile (p # c # xs @ [''--key-file'', f] @ ys) 2 = (p # c # xs @ ys, Some f)"
    using strip_none [of "xs @ ys"] strip_pair [of xs ys] assms(1) by (simp_all add: parse_strip_keyfile_def eval_nat_numeral)
  have 3: "c \<noteq> ''--key-file''" "\<not> (3 \<le> length (p # c # zs) \<and> (p # c # zs) ! 1 = ''--key-file'')" for zs using assms(1) by auto
  show ?thesis
    unfolding main_dispatch_def if_not_P [OF 3(2)] using assms(2-4) 1 2 by (simp add: Let_def)
qed

section \<open>Asking the daemon\<close>

text \<open>\<open>ask path cmd\<close> is what is read back from the socket at \<open>path\<close>, \<open>None\<close> when there is none or nothing comes.\<close>

fun ip69_sockpath :: "string list \<Rightarrow> string \<Rightarrow> string" where
  "ip69_sockpath (a # b # r) path = ip69_sockpath (b # r) (if a = ''-s'' then b else path)"
| "ip69_sockpath r path = path"

definition ip69_query :: "(string \<Rightarrow> string \<Rightarrow> string option) \<Rightarrow> string \<Rightarrow> string \<Rightarrow> string option" where
  "ip69_query ask path cmd =
     (case ask (take 107 path) cmd of None \<Rightarrow> None | Some t \<Rightarrow> if t = [] then None else Some (c_string (take 511 t)))"

definition cmd_ip69 :: "(string \<Rightarrow> string \<Rightarrow> string option) \<Rightarrow> string list \<Rightarrow> int \<times> string" where
  "cmd_ip69 ask argv =
     (if length argv < 2 then (1, [])
      else let path = ip69_sockpath (drop 2 argv) ''/tmp/ip69.sock''; cmd = argv ! 1;
               reply = (\<lambda>c f. case ip69_query ask path c of None \<Rightarrow> (1, []) | Some t \<Rightarrow> (0, f t))
           in if cmd = ''status'' then reply ''show'' id
              else if cmd = ''lease'' then reply ''lease'' (\<lambda>t. ''lease: '' @ takeWhile (\<lambda>c. c \<noteq> NL) t @ '' seconds'' @ [NL])
              else if cmd = ''renew'' then reply ''renew'' id
              else (1, []))"

text \<open>The tool prints what the daemon answered: \<^verbatim>\<open>ipv69 lease\<close> the seconds that are left.\<close>

lemma dec_int_plain: "CHR 0x00 \<notin> set (dec_int i)" "NL \<notin> set (dec_int i)"
proof -
  have "c \<notin> set (dec n)" if "c \<in> {CHR 0x00, NL}" for c n
  proof -
    have "hexdig d \<noteq> CHR 0x00 \<and> hexdig d \<noteq> NL" if "d < 16" for d
      using hexdig_cases [OF that] by (auto simp: hexdig_def)
    then have "c \<noteq> hexdig d" if "d < 10" for d using \<open>c \<in> {CHR 0x00, NL}\<close> that by auto
    then show ?thesis using dec_digits [of n] by blast
  qed
  then show "CHR 0x00 \<notin> set (dec_int i)" "NL \<notin> set (dec_int i)" by (auto simp: dec_int_def)
qed

lemma ip69_lease:
  assumes "length (dec_int (cl_expiry l - now)) \<le> 500"
    and "\<And>path cmd. ask path cmd = Some (fst (sock_serve t l name cmd now))"
  shows "cmd_ip69 ask [p, ''lease''] = (0, ''lease: '' @ dec_int (cl_expiry l - now) @ '' seconds'' @ [NL])"
proof -
  let ?d = "dec_int (cl_expiry l - now)"
  have a: "ask path ''lease'' = Some (?d @ [NL])" for path using assms(2) by (simp add: sock_serve_def c_string_def)
  have "take 511 (?d @ [NL]) = ?d @ [NL]" using assms(1) by simp
  moreover have "c_string (?d @ [NL]) = ?d @ [NL]" "takeWhile (\<lambda>c. c \<noteq> NL) (?d @ [NL]) = ?d"
    using dec_int_plain [of "cl_expiry l - now"] by (auto simp: c_string_def takeWhile_eq_all_conv takeWhile_tail)
  ultimately show ?thesis using a by (simp add: cmd_ip69_def ip69_query_def Let_def)
qed

end
