(* ===== verification/Bite.thy ===== *)
theory Bite
  imports Btls_Auth Icsp_Session Gw Keyring
begin

text \<open>
  The web tool of \<^verbatim>\<open>c/examples/bite.c\<close>: requests and their paths, static documents, one turn of the
  server and of the fetching client over an association and a bTLS session, and the URL. A C
  string of the message is a byte list without its terminator; a document is the text of a file.
  \<open>None\<close> is a write past a buffer in the layers below.
\<close>

abbreviation (input) BITE_PORT :: u16 where "BITE_PORT \<equiv> 8080"
abbreviation (input) BITE_HDR_MAX :: nat where "BITE_HDR_MAX \<equiv> 2048"
abbreviation (input) CRLF :: string where "CRLF \<equiv> [CR, NL]"

definition chars :: "bytes \<Rightarrow> string" where
  "chars b = map (\<lambda>v. char_of (unat v)) b"

section \<open>The request\<close>

record breq =
  rq_method :: bytes
  rq_path :: bytes
  rq_head :: bool

definition bite_hexval :: "u8 \<Rightarrow> int" where
  "bite_hexval c =
     (if 48 \<le> c \<and> c \<le> 57 then uint c - 48
      else if 97 \<le> c \<and> c \<le> 102 then uint c - 97 + 10
      else if 65 \<le> c \<and> c \<le> 70 then uint c - 65 + 10
      else -1)"

definition mem_find :: "bytes \<Rightarrow> bytes \<Rightarrow> nat option" where
  "mem_find h needle =
     (if length h < length needle then None
      else find (\<lambda>i. take (length needle) (drop i h) = needle) [0..<length h - length needle + 1])"

text \<open>The target up to a question mark, percent signs decoded, as many bytes as fit.\<close>

fun target_loop :: "nat \<Rightarrow> bytes \<Rightarrow> bytes option" where
  "target_loop 0 b = Some []"
| "target_loop (Suc k) [] = Some []"
| "target_loop (Suc k) (c # r) =
     (if c = 63 then Some []
      else if c = 37 \<and> 2 \<le> length r then
        (let hi = bite_hexval (r ! 0); lo = bite_hexval (r ! 1); ch = word_of_int (hi * 16 + lo) :: u8
         in if hi < 0 \<or> lo < 0 then None
            else if ch = 47 \<or> ch = 0 then None
            else map_option (Cons ch) (target_loop k (drop 2 r)))
      else map_option (Cons c) (target_loop k r))"

text \<open>Two dots between slashes or at the end; \<open>before\<close> is the byte in front.\<close>

fun has_dotdot :: "u8 \<Rightarrow> bytes \<Rightarrow> bool" where
  "has_dotdot before (a # b # r) =
     (a = 46 \<and> b = 46 \<and> (before = 47 \<or> before = 0) \<and> (r = [] \<or> hd r = 47 \<or> hd r = 0) \<or> has_dotdot a (b # r))"
| "has_dotdot before b = False"

definition req_target :: "bytes \<Rightarrow> nat \<Rightarrow> bytes option" where
  "req_target tgt outsz =
     (case target_loop (outsz - 1) tgt of
        None \<Rightarrow> None
      | Some b \<Rightarrow> if b = [] \<or> hd b \<noteq> 47 \<or> has_dotdot 47 (c_str b) then None else Some (c_str b))"

definition req_parse :: "bytes \<Rightarrow> breq option" where
  "req_parse m =
     (let s = take BITE_HDR_MAX m
      in case memchr 10 s of
           None \<Rightarrow> None
         | Some eol \<Rightarrow>
             (case memchr 32 (take eol s) of
                None \<Rightarrow> None
              | Some sp \<Rightarrow>
                  if sp = 0 \<or> 8 \<le> sp then None
                  else let meth = c_str (take sp s); t0 = sp + 1; rest = drop t0 (take eol s);
                           tl = (case memchr 32 rest of Some k \<Rightarrow> k | None \<Rightarrow> length rest - 1)
                       in if tl = 0 then None
                          else case req_target (take tl rest) 512 of
                                 None \<Rightarrow> None
                               | Some path \<Rightarrow>
                                   if mem_find s (ascii (CRLF @ CRLF)) = None then None
                                   else Some \<lparr>rq_method = meth, rq_path = path, rq_head = (meth = ascii ''HEAD'')\<rparr>))"

section \<open>Documents\<close>

definition last_dot :: "string \<Rightarrow> string option" where
  "last_dot s = (if CHR ''.'' \<in> set s then Some (CHR ''.'' # rev (takeWhile (\<lambda>c. c \<noteq> CHR ''.'') (rev s))) else None)"

definition mime_of :: "string \<Rightarrow> string" where
  "mime_of path =
     (case last_dot path of
        None \<Rightarrow> ''application/octet-stream''
      | Some dot \<Rightarrow>
          if dot = ''.html'' \<or> dot = ''.htm'' then ''text/html''
          else if dot = ''.css'' then ''text/css''
          else if dot = ''.js'' then ''application/javascript''
          else if dot = ''.json'' then ''application/json''
          else if dot = ''.txt'' \<or> dot = ''.md'' then ''text/plain''
          else if dot = ''.png'' then ''image/png''
          else if dot = ''.jpg'' \<or> dot = ''.jpeg'' then ''image/jpeg''
          else if dot = ''.gif'' then ''image/gif''
          else if dot = ''.svg'' then ''image/svg+xml''
          else if dot = ''.ico'' then ''image/x-icon''
          else if dot = ''.pdf'' then ''application/pdf''
          else ''application/octet-stream'')"

definition open_doc :: "string \<Rightarrow> string \<Rightarrow> world \<Rightarrow> string option" where
  "open_doc root path w = w_files w (snprintf 1024 (root @ (if path = ''/'' then ''/index.html'' else path)))"

definition head_405 :: string where
  "head_405 = ''BITE/1.0 405 Method Not Allowed'' @ CRLF @ ''Allow: BITE, GET, HEAD'' @ CRLF @ ''Content-Length: 0'' @ CRLF @
     ''Server: BITE/1.0'' @ CRLF @ CRLF"

definition head_error :: "string \<Rightarrow> string" where
  "head_error status = ''BITE/1.0 '' @ status @ CRLF @ ''Content-Type: text/plain'' @ CRLF @ ''Content-Length: 0'' @ CRLF @
     ''Server: BITE/1.0'' @ CRLF @ CRLF"

definition head_ok :: "string \<Rightarrow> nat \<Rightarrow> string" where
  "head_ok ctype n = ''BITE/1.0 200 OK'' @ CRLF @ ''Content-Type: '' @ ctype @ CRLF @ ''Content-Length: '' @ dec n @ CRLF @
     ''Server: BITE/1.0'' @ CRLF @ CRLF"

text \<open>The response, \<open>None\<close> when a head does not fit.\<close>

definition serve :: "string \<Rightarrow> breq \<Rightarrow> world \<Rightarrow> bytes option" where
  "serve root rq w =
     (if rq_method rq \<notin> {ascii ''BITE'', ascii ''GET'', ascii ''HEAD''} then Some (ascii head_405)
      else case open_doc root (chars (rq_path rq)) w of
             None \<Rightarrow> Some (ascii (head_error ''404 Not Found''))
           | Some doc \<Rightarrow>
               if BTLS_MAX_MSG - BITE_HDR_MAX < length doc then Some (ascii (head_error ''500 Internal Error''))
               else let hd = head_ok (mime_of (chars (rq_path rq))) (length doc)
                    in if BITE_HDR_MAX \<le> length hd then None
                       else Some (ascii (hd @ (if rq_head rq then [] else doc))))"

section \<open>The carrier\<close>

record bctx =
  bc_btls :: btls
  bc_done :: bool
  bc_pend :: bytes
  bc_msg :: bytes
  bc_root :: string

definition bctx0 :: "btls \<Rightarrow> string \<Rightarrow> bctx" where
  "bctx0 t root = \<lparr>bc_btls = t, bc_done = False, bc_pend = [], bc_msg = zeros BTLS_MAX_MSG, bc_root = root\<rparr>"

definition bite_data_cb :: "bctx data_cb" where
  "bite_data_cb a sid data w c =
     Some (a, w, if bc_pend c \<noteq> [] \<or> BTLS_MAX_REC < length data then c else c\<lparr>bc_pend := data\<rparr>)"

text \<open>Sending a message record by record; \<open>p\<close> is its address. The result is 0 or -1.\<close>

partial_function (option) app_send ::
    "nacl \<Rightarrow> nat \<Rightarrow> bytes \<Rightarrow> icsp_assoc \<Rightarrow> btls \<Rightarrow> world \<Rightarrow> (int \<times> icsp_assoc \<times> btls \<times> world) option" where
  "app_send N p msg a t w =
     (let (r, rec, t) = btls_send_app N t p msg
      in if r < 0 then Some (-1, a, t, w)
         else Option.bind (icsp_data_send N a 1 rec w)
                (\<lambda>(q, a, w). if q = -1 then Some (-1, a, t, w)
                             else if r = 1 then app_send N p msg a t w
                             else Some (0, a, t, w)))"

text \<open>Everything the handshake has to say.\<close>

partial_function (option) pump_all ::
    "nacl \<Rightarrow> icsp_assoc \<Rightarrow> btls \<Rightarrow> world \<Rightarrow> (int \<times> icsp_assoc \<times> btls \<times> world) option" where
  "pump_all N a t w =
     (let ((r, rec, t), w) = btls_pump N t w
      in if r \<noteq> 1 then Some (0, a, t, w)
         else Option.bind (icsp_data_send N a 1 rec w)
                (\<lambda>(q, a, w). if q = -1 then Some (-1, a, t, w) else pump_all N a t w))"

text \<open>A pending record in the handshake, the same on both sides: -1 is a failure.\<close>

definition bite_handshake :: "nacl \<Rightarrow> bctx \<Rightarrow> icsp_assoc \<Rightarrow> world \<Rightarrow> (int \<times> bctx \<times> icsp_assoc \<times> world) option" where
  "bite_handshake N c a w =
     (case btls_feed N (bc_btls c) (bc_pend c) of
        (rr, t) \<Rightarrow>
          let c = c\<lparr>bc_btls := t, bc_pend := []\<rparr>
          in if rr < 0 then Some (-1, c, a, w)
             else case pump_all N a t w of
                    None \<Rightarrow> None
                  | Some (r, a, t, w) \<Rightarrow>
                      let c = c\<lparr>bc_btls := t\<rparr>
                      in if r < 0 then Some (-1, c, a, w)
                         else Some (0, if t_state t = BTLS_ST_DONE then c\<lparr>bc_done := True\<rparr> else c, a, w))"

section \<open>The server\<close>

text \<open>What a pending record does: go on, skip the rest of the turn, or close the session. \<open>BITE_MSG\<close> is the
  address of the message buffer.\<close>

datatype served = Served | Fragment | Assoc_Fail

abbreviation (input) BITE_MSG :: nat where "BITE_MSG \<equiv> 1"
abbreviation (input) BITE_REQ :: nat where "BITE_REQ \<equiv> 2"

definition bite_answer :: "nacl \<Rightarrow> bctx \<Rightarrow> icsp_assoc \<Rightarrow> nat \<Rightarrow> world \<Rightarrow> (served \<times> bctx \<times> icsp_assoc \<times> world) option" where
  "bite_answer N c a n w =
     (case (case req_parse (take n (bc_msg c)) of
              None \<Rightarrow> Some (ascii (head_error ''400 Bad Request''))
            | Some rq \<Rightarrow> serve (bc_root c) rq w) of
        None \<Rightarrow> Some (Assoc_Fail, c, a, w)
      | Some resp \<Rightarrow>
          let c = c\<lparr>bc_msg := blit (bc_msg c) 0 resp\<rparr>
          in case app_send N BITE_MSG resp a (bc_btls c) w of
               None \<Rightarrow> None
             | Some (r, a, t, w) \<Rightarrow> Some (if r < 0 then Assoc_Fail else Served, c\<lparr>bc_btls := t\<rparr>, a, w))"

definition bite_serve_pend :: "nacl \<Rightarrow> bctx \<Rightarrow> icsp_assoc \<Rightarrow> world \<Rightarrow> (served \<times> bctx \<times> icsp_assoc \<times> world) option" where
  "bite_serve_pend N c a w =
     (if bc_pend c = [] then Some (Served, c, a, w)
      else if \<not> bc_done c then
        map_option (\<lambda>(r, c, a, w). (if r < 0 then Assoc_Fail else Served, c, a, w)) (bite_handshake N c a w)
      else case btls_recv_app N (bc_btls c) (bc_pend c) (bc_msg c) of
             None \<Rightarrow> None
           | Some (rr, n, msg, t) \<Rightarrow>
               let c = c\<lparr>bc_btls := t, bc_msg := msg, bc_pend := []\<rparr>
               in if rr < 0 then Some (Assoc_Fail, c, a, w)
                  else if rr = 0 then Some (Fragment, c, a, w)
                  else bite_answer N c a n w)"

text \<open>One turn of the loop over an open association: what comes next, with the time at which an idle
  association is left.\<close>

datatype serve_next = Srv_Next | Srv_Close | Srv_Exit

definition bite_server_turn ::
    "nacl \<Rightarrow> rx_event \<Rightarrow> bctx \<times> icsp_assoc \<times> int \<times> world \<Rightarrow> (serve_next \<times> bctx \<times> icsp_assoc \<times> int \<times> world) option" where
  "bite_server_turn N ev st =
     (case st of (c, a, idle, w) \<Rightarrow>
        case icsp_poll N (Some bite_data_cb) a 200 ev w c of
          None \<Rightarrow> None
        | Some (r, a, w, c) \<Rightarrow>
            if r = ICSP_POLL_ERR then Some (Srv_Exit, c, a, idle, w)
            else let answered = (bc_pend c \<noteq> [] \<and> bc_done c)
                 in case bite_serve_pend N c a w of
                   None \<Rightarrow> None
                 | Some (Assoc_Fail, c, a, w) \<Rightarrow> (case icsp_shutdown_send a w of (_, a, w) \<Rightarrow> Some (Srv_Close, c, a, idle, w))
                 | Some (Fragment, c, a, w) \<Rightarrow> Some (Srv_Next, c, a, idle, w)
                 | Some (Served, c, a, w) \<Rightarrow>
                     let idle = (if answered then w_time w + 5 else idle)
                     in if r = ICSP_POLL_CLOSED then Some (Srv_Close, c, a, idle, w)
                        else if r = ICSP_POLL_TIMEOUT then
                          (case icsp_data_retransmit N a 1 w of
                             None \<Rightarrow> None
                           | Some (_, a, w) \<Rightarrow> Some (Srv_Next, c, a, idle, w))
                        else Some (Srv_Next, c, a, idle, w))"

section \<open>The URL\<close>

text \<open>\<^verbatim>\<open>[bite://]host[:port][/path]\<close>: the label (empty for a numeric address), address, port, and path.\<close>

definition bite_url :: "string \<Rightarrow> (string \<times> u64 \<times> u16 \<times> string) option" where
  "bite_url url =
     (let url = (if take 7 url = ''bite://'' then drop 7 url else url);
          hp = takeWhile (\<lambda>c. c \<noteq> CHR ''/'') url; slash = drop (length hp) url;
          host = takeWhile (\<lambda>c. c \<noteq> CHR '':'') hp;
          port = (if CHR '':'' \<in> set hp then word_of_int (atoi (drop (length host + 1) url)) else BITE_PORT);
          port = (if port = 0 then BITE_PORT else port);
          path = snprintf 512 (if slash = [] then ''/'' else slash)
      in if host = [] \<or> 128 \<le> length host then None
         else if 5 < length host \<and> drop (length host - 5) host = ''.bait'' then
           (let lb = take BAIT_LABEL_LEN host
            in if length host \<noteq> BAIT_LABEL_LEN + 5 \<or> \<not> bait_label_valid (Some lb) then None
               else map_option (\<lambda>a5. (lb, ipv69_addr_get a5, port, path)) (bait_label_to_addr lb))
         else (case parse_ipv69_addr_port host of
                 None \<Rightarrow> None
               | Some (dst, port) \<Rightarrow>
                   if dst = 0 then None else Some ([], dst, if port = 0 then BITE_PORT else port, path)))"

definition bite_meth :: "string list \<Rightarrow> string" where
  "bite_meth args = (if list_ex (\<lambda>a. a = ''--head'') args then ''HEAD'' else ''BITE'')"

section \<open>The client\<close>

text \<open>The first record, sent after the ICSP handshake.\<close>

definition bite_fetch_start :: "nacl \<Rightarrow> bytes \<Rightarrow> string \<Rightarrow> icsp_assoc \<Rightarrow> world \<Rightarrow> (int \<times> bctx \<times> icsp_assoc \<times> world) option" where
  "bite_fetch_start N sk label a w =
     (let (t, w) = btls_init N BTLS_CLIENT (Some sk) (if label = [] then None else Some label) w
      in case btls_client_start t w of
           (None, t, w) \<Rightarrow> Some (1, bctx0 t [], a, w)
         | (Some rec, t, w) \<Rightarrow>
             (case icsp_data_send N a 1 rec w of
                None \<Rightarrow> None
              | Some (q, a, w) \<Rightarrow> Some (if q = -1 then 1 else 0, bctx0 t [], a, w)))"

text \<open>What is printed of a response: all of it for HEAD, else what follows the head.\<close>

definition bite_output :: "string \<Rightarrow> bytes \<Rightarrow> bytes" where
  "bite_output meth m =
     (if meth = ''HEAD'' then m
      else case mem_find m (ascii (CRLF @ CRLF)) of None \<Rightarrow> [] | Some i \<Rightarrow> drop (i + 4) m)"

definition bite_request :: "string \<Rightarrow> string \<Rightarrow> string" where
  "bite_request meth path = meth @ '' '' @ path @ '' BITE/1.0'' @ CRLF @ CRLF"

text \<open>A pending record: a failure, a response, or neither.\<close>

definition bite_fetch_pend ::
    "nacl \<Rightarrow> string \<Rightarrow> bctx \<Rightarrow> icsp_assoc \<Rightarrow> world \<Rightarrow> (int \<times> bytes option \<times> bctx \<times> icsp_assoc \<times> world) option" where
  "bite_fetch_pend N meth c a w =
     (if bc_pend c = [] then Some (0, None, c, a, w)
      else if \<not> bc_done c then map_option (\<lambda>(r, c, a, w). (r, None, c, a, w)) (bite_handshake N c a w)
      else case btls_recv_app N (bc_btls c) (bc_pend c) (bc_msg c) of
             None \<Rightarrow> None
           | Some (rr, n, msg, t) \<Rightarrow>
               let c = c\<lparr>bc_btls := t, bc_msg := msg, bc_pend := []\<rparr>
               in if rr < 0 then Some (-1, None, c, a, w)
                  else Some (0, if rr = 1 then Some (bite_output meth (take n msg)) else None, c, a, w))"

text \<open>One turn: going on, the output with which the tool ends, or a failure.\<close>

datatype fetch_next = Fetch_Next | Fetch_Got bytes | Fetch_Fail

definition bite_fetch_turn ::
    "nacl \<Rightarrow> string \<Rightarrow> string \<Rightarrow> rx_event \<Rightarrow> bctx \<times> icsp_assoc \<times> bool \<times> world \<Rightarrow>
      (fetch_next \<times> bctx \<times> icsp_assoc \<times> bool \<times> world) option" where
  "bite_fetch_turn N meth path ev st =
     (case st of (c, a, sent, w) \<Rightarrow>
        case icsp_poll N (Some bite_data_cb) a 200 ev w c of
          None \<Rightarrow> None
        | Some (r, a, w, c) \<Rightarrow>
            if r = ICSP_POLL_ERR then Some (Fetch_Fail, c, a, sent, w)
            else case bite_fetch_pend N meth c a w of
              None \<Rightarrow> None
            | Some (f, out, c, a, w) \<Rightarrow>
                if f < 0 then Some (Fetch_Fail, c, a, sent, w)
                else case out of
                  Some body \<Rightarrow> (case icsp_shutdown_send a w of (_, a, w) \<Rightarrow> Some (Fetch_Got body, c, a, sent, w))
                | None \<Rightarrow>
                    let req = bite_request meth path;
                        ask = (bc_done c \<and> \<not> sent)
                    in if ask \<and> BITE_HDR_MAX \<le> length req then Some (Fetch_Fail, c, a, sent, w)
                       else case (if ask then app_send N BITE_REQ (ascii req) a (bc_btls c) w else Some (0, a, bc_btls c, w)) of
                         None \<Rightarrow> None
                       | Some (q, a, t, w) \<Rightarrow>
                           let c = c\<lparr>bc_btls := t\<rparr>; sent = (sent \<or> ask)
                           in if q < 0 then Some (Fetch_Fail, c, a, sent, w)
                              else if r = ICSP_POLL_CLOSED then Some (Fetch_Fail, c, a, sent, w)
                              else if r = ICSP_POLL_TIMEOUT then
                                (case icsp_data_retransmit N a 1 w of
                                   None \<Rightarrow> None
                                 | Some (_, a, w) \<Rightarrow> Some (Fetch_Next, c, a, sent, w))
                              else Some (Fetch_Next, c, a, sent, w))"

section \<open>The command line\<close>

definition dst_not_ifname :: "string \<Rightarrow> bool" where
  "dst_not_ifname s =
     (if s = [] then False
      else take 7 s = ''bite://'' \<or> CHR ''/'' \<in> set s \<or> list_ex (\<lambda>i. take 5 (drop i s) = ''.bait'') [0..<length s] \<or>
        parse_looks_like_addr s)"

text \<open>The words after the key file option is taken out and a missing interface is put in; the program then
  starts over with them.\<close>

definition bite_argv :: "string list \<Rightarrow> string list \<times> string option" where
  "bite_argv argv =
     (case parse_strip_keyfile argv 1 of
        (argv, kf) \<Rightarrow>
          (if 3 \<le> length argv \<and> length argv < 30 \<and> dst_not_ifname (argv ! 2) then
             (if parse_looks_like_addr (argv ! 2) then parse_insert_auto_ifname argv
              else take 2 argv @ [''auto''] @ drop 2 argv)
           else argv, kf))"

fun bite_server_args :: "string list \<Rightarrow> string \<times> u16 \<Rightarrow> string \<times> u16" where
  "bite_server_args (a # r) (root, port) =
     (case r of
        b # q \<Rightarrow>
          if a = ''--root'' then bite_server_args q (b, port)
          else if a = ''--remote'' then bite_server_args q (root, port)
          else bite_server_args r (root, if take 1 a = '':'' \<and> tl a \<noteq> [] then word_of_int (atoi (tl a))
                 else if take 1 a \<noteq> ''-'' then word_of_int (atoi a) else port)
      | [] \<Rightarrow> (root, if take 1 a = '':'' \<and> tl a \<noteq> [] then word_of_int (atoi (tl a))
                 else if take 1 a \<noteq> ''-'' then word_of_int (atoi a) else port))"
| "bite_server_args [] st = st"

end
