(* ===== verification/Bite_Props.thy ===== *)
theory Bite_Props
  imports Bite Gwfile_Props
begin

text \<open>
  Requests and URLs of the web tool: an accepted path stays below the root, an honest request is
  read as it was meant, a response is split where it was joined, and the port of a numeric URL
  is lost.
\<close>

section \<open>Paths\<close>

text \<open>The segments of a path.\<close>

fun segments :: "bytes \<Rightarrow> bytes list" where
  "segments [] = [[]]"
| "segments (c # r) = (if c = 47 then [] # segments r else (c # hd (segments r)) # tl (segments r))"

lemma segments_ne [simp]: "segments b \<noteq> []"
  by (cases b) simp_all

lemma segments_hd: "hd (segments b) = takeWhile (\<lambda>c. c \<noteq> 47) b"
  by (induction b) simp_all

lemma no_dotdot_segment:
  "\<not> has_dotdot before b \<Longrightarrow> (before = 47 \<longrightarrow> hd (segments b) \<noteq> [46, 46]) \<and> [46, 46] \<notin> set (tl (segments b))"
proof (induction b arbitrary: before)
  case (Cons c r)
  have rest: "\<not> has_dotdot c r" using Cons.prems by (cases r) auto
  note IH = Cons.IH [OF rest]
  show ?case
  proof (cases "c = 47")
    case True
    then have "[46, 46] \<notin> set (segments r)" using IH by (cases "segments r") auto
    then show ?thesis using True by simp
  next
    case False
    have "c # takeWhile (\<lambda>c. c \<noteq> 47) r \<noteq> [46, 46]" if "before = 47"
    proof
      assume e: "c # takeWhile (\<lambda>c. c \<noteq> 47) r = [46, 46]"
      then obtain q where q: "r = 46 # q" "takeWhile (\<lambda>c. c \<noteq> 47) q = []" by (cases r) (auto split: if_splits)
      then have "q = [] \<or> hd q = 47" by (cases q) (auto split: if_splits)
      then show False using Cons.prems e q(1) that by simp
    qed
    then show ?thesis using IH False by (simp add: segments_hd)
  qed
qed simp

lemma target_loop_length: "target_loop k b = Some s \<Longrightarrow> length s \<le> k"
  by (induction k b arbitrary: s rule: target_loop.induct) (auto simp: Let_def split: if_splits)

text \<open>C25: The server never leaves its root: a path that a request is given, however it was encoded, starts with
  a slash, has no null byte, fits its buffer, and none of its segments is the parent directory.\<close>

theorem bite_path_below_root:
  assumes "req_parse m = Some rq"
  shows "rq_path rq \<noteq> [] \<and> hd (rq_path rq) = 47 \<and> 0 \<notin> set (rq_path rq) \<and> length (rq_path rq) \<le> 511 \<and>
    [46, 46] \<notin> set (segments (rq_path rq))"
proof -
  obtain tgt where t: "req_target tgt 512 = Some (rq_path rq)"
    using assms by (auto simp: req_parse_def Let_def split: option.splits if_splits)
  have k: "(512 :: nat) - 1 = 511" by simp
  obtain b where l: "target_loop 511 tgt = Some b"
    using t unfolding req_target_def k by (cases "target_loop 511 tgt") (simp_all only: option.case option.distinct simp_thms)
  have b: "target_loop 511 tgt = Some b" "b \<noteq> []" "hd b = 47" "\<not> has_dotdot 47 (c_str b)" "rq_path rq = c_str b"
    using t unfolding req_target_def k l option.case by (simp_all split: if_splits)
  obtain r where r: "b = 47 # r" using b(2,3) by (cases b) auto
  have "length (c_str b) \<le> 511" using target_loop_length [OF b(1)] length_takeWhile_le [of "\<lambda>c. c \<noteq> 0" b] by (simp add: c_str_def)
  moreover have "0 \<notin> set (c_str b)" by (auto simp: c_str_def dest: set_takeWhileD)
  moreover have "c_str b \<noteq> []" "hd (c_str b) = 47" by (simp_all add: r c_str_def)
  moreover have "[46, 46] \<notin> set (segments (c_str b))"
    using no_dotdot_segment [OF b(4)] by (cases "segments (c_str b)") auto
  ultimately show ?thesis by (simp add: b(5))
qed

section \<open>Searching\<close>

lemma memchr_app [simp]: "c \<notin> set xs \<Longrightarrow> memchr c (xs @ c # ys) = Some (length xs)"
proof -
  assume c: "c \<notin> set xs"
  have "\<not> (xs @ c # ys) ! i = c" if "i < length xs" for i using c that by (auto simp: nth_append)
  then show ?thesis unfolding memchr_def find_upt_Some by simp
qed

lemma mem_find_Cons:
  assumes "n \<noteq> []" "length n \<le> length h"
  shows "mem_find (c # h) n = (if take (length n) (c # h) = n then Some 0 else map_option Suc (mem_find h n))"
proof -
  let ?P = "\<lambda>i. take (length n) (drop i h) = n"
  let ?k = "length h - length n + 1"
  have u: "[0..<Suc ?k] = 0 # map Suc [0..<?k]" by (simp only: map_Suc_upt upt_conv_Cons [of 0 "Suc ?k"] zero_less_Suc)
  have m: "find Q (map Suc xs) = map_option Suc (find (\<lambda>i. Q (Suc i)) xs)" for Q xs by (induction xs) simp_all
  have k: "length (c # h) - length n + 1 = Suc ?k" "\<not> length (c # h) < length n" "\<not> length h < length n" using assms by auto
  have d: "drop 0 (c # h) = c # h" "drop (Suc i) (c # h) = drop i h" for i by simp_all
  show ?thesis unfolding mem_find_def k(1) u find.simps m d using k(2,3) by (simp only: if_False)
qed

abbreviation (input) END :: bytes where "END \<equiv> [13, 10, 13, 10]"

lemma mem_find_skip:
  "13 \<notin> set l \<Longrightarrow> 4 \<le> length h \<Longrightarrow> mem_find (l @ h) END = map_option ((+) (length l)) (mem_find h END)"
proof (induction l)
  case Nil
  show ?case by (cases "mem_find h END") simp_all
next
  case (Cons c l)
  have "take 4 (c # l @ h) \<noteq> END" using Cons.prems(1) by (simp add: numeral_eq_Suc)
  then show ?case using Cons by (simp add: mem_find_Cons map_option.compositionality comp_def)
qed

lemma mem_find_line:
  assumes "x \<noteq> 13" "3 \<le> length r"
  shows "mem_find ([13, 10, x] @ r) END = map_option ((+) 2) (mem_find (x # r) END)"
proof -
  have t: "take (length END) (13 # 10 # x # r) \<noteq> END" "take (length END) (10 # x # r) \<noteq> END"
    and l: "length END \<le> length (10 # x # r)" "length END \<le> length (x # r)" and e: "END \<noteq> []"
    using assms by simp_all
  have "mem_find (13 # 10 # x # r) END = map_option Suc (mem_find (10 # x # r) END)"
    using mem_find_Cons [OF e l(1), of 13] t(1) by (simp only: if_False)
  moreover have "mem_find (10 # x # r) END = map_option Suc (mem_find (x # r) END)"
    using mem_find_Cons [OF e l(2), of 10] t(2) by (simp only: if_False)
  moreover have "(+) (2 :: nat) = (\<lambda>x. Suc (Suc x))" by (simp add: fun_eq_iff)
  ultimately show ?thesis by (simp add: map_option.compositionality comp_def)
qed

lemma mem_find_end: "mem_find (END @ r) END = Some 0"
proof -
  have "length (END @ r) - length END + 1 = Suc (length r)" by simp
  then have "mem_find (END @ r) END = find (\<lambda>i. take (length END) (drop i (END @ r)) = END) [0..<Suc (length r)]"
    unfolding mem_find_def by simp
  moreover have "find (\<lambda>i. take (length END) (drop i (END @ r)) = END) [0..<Suc (length r)] = Some 0"
    unfolding find_upt_Some by simp
  ultimately show ?thesis by (simp only:)
qed

text \<open>Lines and an empty line.\<close>

fun head_lines :: "bytes list \<Rightarrow> bytes" where
  "head_lines [] = [13, 10]"
| "head_lines (l # ls) = l @ [13, 10] @ head_lines ls"

lemma head_lines_len: "2 \<le> length (head_lines ls)"
  by (induction ls) auto

text \<open>The first empty line is the end of the head.\<close>

lemma mem_find_head:
  assumes "ls \<noteq> []" "\<And>l. l \<in> set ls \<Longrightarrow> l \<noteq> [] \<and> 13 \<notin> set l"
  shows "mem_find (head_lines ls @ r) END = Some (length (head_lines ls) - 4)"
  using assms
proof (induction ls)
  case (Cons l ls)
  have l: "l \<noteq> []" "13 \<notin> set l" using Cons.prems(2) [of l] by auto
  show ?case
  proof (cases ls)
    case Nil
    then show ?thesis using l mem_find_skip [OF l(2), of "END @ r"] mem_find_end [of r] by simp
  next
    case (Cons k ks)
    have k: "k \<noteq> []" "13 \<notin> set k" using Cons.prems(2) [of k] local.Cons by auto
    obtain x q where x: "k = x # q" "x \<noteq> 13" using k by (cases k) auto
    have IH: "mem_find (head_lines ls @ r) END = Some (length (head_lines ls) - 4)"
      using Cons.IH Cons.prems(2) local.Cons by auto
    have len: "4 \<le> length (head_lines ls)" using head_lines_len [of ks] x(1) by (simp add: local.Cons)
    have "mem_find ([13, 10] @ head_lines ls @ r) END = map_option ((+) 2) (mem_find (head_lines ls @ r) END)"
      using mem_find_line [OF x(2), of "q @ [13, 10] @ head_lines ks @ r"] head_lines_len [of ks] by (simp add: local.Cons x(1))
    then show ?thesis using mem_find_skip [OF l(2), of "[13, 10] @ head_lines ls @ r"] IH len by simp
  qed
qed simp

section \<open>An honest request\<close>

lemma ascii_simps [simp]: "ascii [] = []" "ascii (c # s) = of_char c # ascii s" "ascii (a @ b) = ascii a @ ascii b"
  by (simp_all add: ascii_def)

lemma ascii_Nil [simp]: "ascii a = [] \<longleftrightarrow> a = []"
  by (simp add: ascii_def)

lemma target_plain: "63 \<notin> set b \<Longrightarrow> 37 \<notin> set b \<Longrightarrow> length b \<le> k \<Longrightarrow> target_loop k b = Some b"
proof (induction b arbitrary: k)
  case Nil
  show ?case by (cases k) simp_all
next
  case (Cons c b)
  then show ?case by (cases k) auto
qed

definition path_ok :: "bytes \<Rightarrow> bool" where
  "path_ok p \<longleftrightarrow> p \<noteq> [] \<and> hd p = 47 \<and> length p \<le> 511 \<and> set p \<inter> {0, 10, 32, 37, 63} = {} \<and> \<not> has_dotdot 47 p"

lemma c_str_id: "0 \<notin> set b \<Longrightarrow> c_str b = b"
  by (auto simp: c_str_def takeWhile_eq_all_conv)

lemma req_parse_honest:
  assumes path: "path_ok p" and meth: "m \<noteq> []" "length m < 8" "set m \<inter> {0, 10, 32} = {}"
  shows "req_parse (m @ [32] @ p @ ascii '' BITE/1.0'' @ END) = Some \<lparr>rq_method = m, rq_path = p, rq_head = (m = ascii ''HEAD'')\<rparr>"
proof -
  let ?v = "ascii '' BITE/1.0''" and ?r = "m @ [32] @ p @ ascii '' BITE/1.0'' @ END"
  let ?l = "m @ [32] @ p @ ?v @ [13]"
  have v: "length ?v = 9" "10 \<notin> set ?v" "?v = 32 # ascii ''BITE/1.0''" by (simp_all add: ascii_def)
  have len: "length ?r \<le> 2048" using path meth v(1) by (simp add: path_ok_def)
  have s: "take 2048 ?r = ?r" using len by simp
  have e: "memchr 10 ?r = Some (length ?l)"
    using memchr_app [of 10 ?l "[13, 10]"] path meth v(2) by (auto simp: path_ok_def)
  have r: "?r = ?l @ [10, 13, 10]" by simp
  have l: "take (length ?l) ?r = ?l" using r by (metis append_eq_conv_conj)
  have sp: "memchr 32 ?l = Some (length m)" using memchr_app [of 32 m "p @ ?v @ [13]"] meth(3) by auto
  have rest: "drop (length m + 1) ?l = p @ ?v @ [13]" by simp
  have t: "memchr 32 (p @ ?v @ [13]) = Some (length p)"
    using memchr_app [of 32 p "ascii ''BITE/1.0'' @ [13]"] path unfolding v(3) by (auto simp: path_ok_def)
  have tgt: "req_target p 512 = Some p"
    using path target_plain [of p 511] c_str_id [of p] by (auto simp: req_target_def path_ok_def)
  have f: "mem_find ?r END \<noteq> None"
  proof -
    have "mem_find (xs @ END) END \<noteq> None" for xs
    proof (induction xs)
      case (Cons c xs)
      then show ?case by (auto simp: mem_find_Cons)
    qed (use mem_find_end [of "[]"] in simp)
    from this [of "m @ [32] @ p @ ?v"] show ?thesis by simp
  qed
  have m: "take (length m) ?r = m" "c_str m = m" using meth(3) c_str_id [of m] by auto
  have crlf: "ascii [CR, NL, CR, NL] = END" by (simp add: ascii_def)
  have p: "length p \<noteq> 0" "take (length p) (p @ ?v @ [13]) = p" using path by (auto simp: path_ok_def)
  show ?thesis
    unfolding req_parse_def Let_def s e option.case l sp rest t m p(2) tgt
    using meth(1,2) p(1) f by (simp add: ascii_def)
qed

section \<open>A response\<close>

lemma head_ok_lines:
  "ascii (head_ok ty n) = head_lines [ascii ''BITE/1.0 200 OK'', ascii (''Content-Type: '' @ ty), ascii (''Content-Length: '' @ dec n), ascii ''Server: BITE/1.0'']"
  by (simp add: head_ok_def)

lemma dec_no_cr: "CR \<notin> set (dec n)"
proof -
  have "CR \<noteq> hexdig d" if "d < 10" for d
    using digit_plain [OF that] by (auto simp: c_isspace_def)
  then show ?thesis using dec_digits [of n] by (auto simp del: dec.simps)
qed

lemma chars_ascii [simp]: "chars (ascii s) = s"
proof -
  have "char_of (unat (of_char c :: u8)) = c" for c :: char
  proof -
    have "unat (of_char c :: u8) = of_char c"
      using unat_of_nat [where ?'a = 8, of "of_char c"] nat_of_char_less_256 [of c] by (simp add: of_nat_of_char)
    then show ?thesis by simp
  qed
  then show ?thesis by (simp add: chars_def ascii_def comp_def)
qed

lemma cr_ascii: "13 \<in> set (ascii s) \<longleftrightarrow> CR \<in> set s"
proof
  assume "13 \<in> set (ascii s)"
  then have "char_of (unat (13 :: u8)) \<in> set (chars (ascii s))" unfolding chars_def set_map by (rule imageI)
  moreover have "char_of (13 :: nat) = CR" by (simp add: char_of_def bit_0)
  ultimately show "CR \<in> set s" unfolding chars_ascii by simp
next
  assume "CR \<in> set s"
  then have "(of_char CR :: u8) \<in> set (ascii s)" unfolding ascii_def set_map by (rule imageI)
  then show "13 \<in> set (ascii s)" by simp
qed

lemma mime_no_cr: "CR \<notin> set (mime_of p)"
  by (auto simp: mime_of_def split: option.split)

text \<open>The client prints the document behind the head.\<close>

lemma output_document:
  assumes "meth \<noteq> ''HEAD''"
  shows "bite_output meth (ascii (head_ok (mime_of p) n @ doc)) = ascii doc"
proof -
  let ?ls = "[ascii ''BITE/1.0 200 OK'', ascii (''Content-Type: '' @ mime_of p), ascii (''Content-Length: '' @ dec n), ascii ''Server: BITE/1.0'']"
  have ls: "l \<noteq> [] \<and> 13 \<notin> set l" if "l \<in> set ?ls" for l
    using that mime_no_cr [of p] dec_no_cr [of n] by (auto simp: cr_ascii simp del: dec.simps ascii_simps)
  have "mem_find (ascii (head_ok (mime_of p) n) @ ascii doc) END = Some (length (ascii (head_ok (mime_of p) n)) - 4)"
    unfolding head_ok_lines
  proof (rule mem_find_head)
    fix l assume "l \<in> set ?ls"
    then show "l \<noteq> [] \<and> 13 \<notin> set l" by (rule ls)
  qed simp
  moreover have "4 \<le> length (head_ok (mime_of p) n)" by (simp add: head_ok_def del: dec.simps)
  ultimately show ?thesis using assms by (simp add: bite_output_def ascii_def del: dec.simps)
qed

section \<open>The port of a numeric URL\<close>

lemma no_colon_port:
  assumes "CHR '':'' \<notin> set host" "parse_ipv69_addr_port host = Some (a, p)"
  shows "p = 0"
proof -
  have "split_last_colon host = None" using assms(1) by (induction host) auto
  then show ?thesis using assms(2) by (auto simp: parse_ipv69_addr_port_def split: option.splits)
qed

text \<open>The port of a URL with a numeric address has no effect: the address is read from the part in front of the
  colon, which resets the port, so the tool always dials port 8080.\<close>

theorem bite_numeric_port_lost:
  assumes "bite_url url = Some ([], dst, port, path)"
  shows "port = 8080"
proof -
  define u where "u = (if take 7 url = ''bite://'' then drop 7 url else url)"
  define host where "host = takeWhile (\<lambda>c. c \<noteq> CHR '':'') (takeWhile (\<lambda>c. c \<noteq> CHR ''/'') u)"
  have c: "CHR '':'' \<notin> set host" by (auto simp: host_def dest: set_takeWhileD)
  have "take 32 host \<noteq> []" if "5 < length host" using that by auto
  then obtain p where "parse_ipv69_addr_port host = Some (dst, p)" "port = (if p = 0 then 8080 else p)"
    using assms unfolding bite_url_def Let_def u_def [symmetric] host_def [symmetric]
    by (auto split: if_splits option.splits)
  with no_colon_port [OF c] show ?thesis by simp
qed

lemma bite_numeric_port_lost_witness: "bite_url ''bite://1f:80/a'' = Some ([], 0x1f, 8080, ''/a'')"
proof -
  have "bite_url ''bite://1f:80/a'' = Some ([], 0x1f, snd (0, 8080), ''/a'')"
    by (simp add: bite_url_def Let_def snprintf_def parse_ipv69_addr_port_def parse_ipv69_addr_def strtoul_def scan_sign_def
        skip_0x_def is_digit_def digit_val_def c_isspace_def)
  from bite_numeric_port_lost [OF this] this show ?thesis by simp
qed

lemma bite_path_below_root_witness:
  "req_parse (ascii ''GET /a/b BITE/1.0'' @ END) = Some \<lparr>rq_method = ascii ''GET'', rq_path = ascii ''/a/b'', rq_head = False\<rparr> \<and>
   [46, 46] \<notin> set (segments (ascii ''/a/b''))"
proof -
  have "req_parse (ascii ''GET'' @ [32] @ ascii ''/a/b'' @ ascii '' BITE/1.0'' @ END) =
      Some \<lparr>rq_method = ascii ''GET'', rq_path = ascii ''/a/b'', rq_head = (ascii ''GET'' = ascii ''HEAD'')\<rparr>"
    by (rule req_parse_honest) (simp_all add: path_ok_def)
  then have p: "req_parse (ascii ''GET /a/b BITE/1.0'' @ END) = Some \<lparr>rq_method = ascii ''GET'', rq_path = ascii ''/a/b'', rq_head = False\<rparr>"
    by simp
  from bite_path_below_root [OF p] have "[46, 46] \<notin> set (segments (ascii ''/a/b''))" by simp
  with p show ?thesis by blast
qed

end
