(* ===== verification/Icsp_Carry.thy ===== *)
theory Icsp_Carry
  imports Icsp_Life
begin

text \<open>
  A data packet of a peer in step, as the session handler sees it: the message goes to the
  callback, and what the handler notes of the sender leaves both sides in step.
\<close>

lemma sack_reply_same [simp]:
  "tx_ok (sack_reply a c w) = tx_ok w" "w_files (sack_reply a c w) = w_files w"
  by (auto simp: sack_reply_def icsp_sack_send_def send_pkt_eq transmit_def tx_ok_def Let_def split: option.splits)

lemma sack_reply_out: "\<exists>acks. w_out (sack_reply a c w) = w_out w @ acks"
  by (auto simp: sack_reply_def icsp_sack_send_def send_pkt_eq transmit_def Let_def split: option.splits)

lemma met_view [simp]:
  "stream_ids (met b a t) = stream_ids b" "send_seq (met b a t) = send_seq b" "recv_seq (met b a t) = recv_seq b"
  by (rule stream_view_cong; simp add: met_def)+

lemma met_counters [simp]: "a_rw_tsn (met b a t) = a_rw_tsn b" "a_next_tsn (met b a t) = a_next_tsn b"
  by (simp_all add: met_def)

lemma linked_met:
  assumes "assoc_wf g"
  shows "linked s r \<Longrightarrow> linked s (met r g t)" "linked r s \<Longrightarrow> linked (met r g t) s"
  using met_wf [OF _ assms] by (auto simp: linked_def)

lemma linked_heard:
  assumes "assoc_wf g"
  shows "linked s r \<Longrightarrow> linked s (heard r g t)" "linked r s \<Longrightarrow> linked (heard r g t) s"
proof -
  have v: "stream_ids (heard r g t) = stream_ids r" "send_seq (heard r g t) = send_seq r" "recv_seq (heard r g t) = recv_seq r"
    by (rule stream_view_cong; simp add: heard_def)+
  have f: "a_has_key (heard r g t) = a_has_key r" "a_send_key (heard r g t) = a_send_key r" "a_recv_key (heard r g t) = a_recv_key r"
    "a_assoc_id (heard r g t) = a_assoc_id r" "a_rw_tsn (heard r g t) = a_rw_tsn r" "a_next_tsn (heard r g t) = a_next_tsn r"
    by (simp_all add: heard_def)
  show "linked s r \<Longrightarrow> linked s (heard r g t)" "linked r s \<Longrightarrow> linked (heard r g t) s"
    using heard_wf [OF _ assms] by (auto simp: linked_def v f)
qed

text \<open>The handler on a data packet with an accepted message.\<close>

lemma handle_data:
  assumes g: "assoc_wf g"
    and p: "icsp_build_pkt g (icsp_chunk_put ICSP_CHUNK_DATA n @ d) ICSP_MAX_PAYLOAD = Some p" "length d = n" "n < 65536"
    and st: "a_state b = ST_ESTABLISHED" and data: "data \<noteq> []"
    and recv: "icsp_data_handle N (met b g (w_time w)) (p @ t) (length p) 1400 w = Some (int (length data), r, Some (data, sid))"
    and cb: "f r sid data w u = Some (r', w', u')"
  shows "icsp_handle_frame N (Some f) b (sent_frame (pkt_sent g p) @ t) (46 + length p) w u =
    Some (ICSP_POLL_DATA, r', sack_reply r' (a_cum_tsn (met b g (w_time w))) w', u')"
proof -
  let ?f = "sent_frame (pkt_sent g p)" and ?ch = "icsp_chunk_put ICSP_CHUNK_DATA n"
  have ch: "length ?ch = 4" by simp
  note P = pkt_chunk [OF p(1) ch]
  have len: "length p = 16 + n" using P(3) p(2) by simp
  have ty: "bget (p @ t) 12 = ICSP_CHUNK_DATA" using P(4) [of t] by (simp add: icsp_chunk_put_def)
  have disp: "rekey_dispatch N (met b g (w_time w)) (?f @ t) (length p) w = (None, met b g (w_time w), w)"
    using st ty sent_frame_app(1) [OF g, of p t]
    by (simp add: rekey_dispatch_def icsp_rekey_server_step_def Let_def del: drop_append bget_drop drop_drop)
  have "chunk_walk life_step (?ch @ d @ t) (4 + n) r' = life_step ICSP_CHUNK_DATA (d @ t) n r'"
    by (rule chunk_walk_single [OF p(2,3)])
  moreover have "length p - 12 = 4 + n" using len by simp
  ultimately have life: "icsp_life_handle r' (p @ t) (length p) = (0, r')"
    using P(1) [of t] len by (simp add: icsp_life_handle_def life_step_def del: drop_append)
  have "icsp_handle_frame N (Some f) b (?f @ t) (46 + length p) w u =
      handle_chunks N (Some f) (met b g (w_time w)) (p @ t) (length p) w u"
    using handle_sent [OF g p(1) ch, of N "Some f" b t w u] disp by (simp add: hs_type_def icsp_chunk_put_def)
  also have "\<dots> = Some (ICSP_POLL_DATA, r', sack_reply r' (a_cum_tsn (met b g (w_time w))) w', u')"
    using recv life data cb by (simp add: handle_chunks_def)
  finally show ?thesis .
qed

text \<open>A message from a sender in step, received by \<open>icsp_recv_frame\<close> and given to the handler: the callback gets it
  with an association that is in step again.\<close>

lemma frame_received:
  assumes lk: "linked s b" and st: "a_state b = ST_ESTABLISHED" and data: "data \<noteq> []" "length data \<le> 1016" and tx: "tx_ok w"
    and room: "sid \<in> set (stream_ids s) \<or> length (stream_ids s) < 8" and nowrap: "unat (a_next_tsn s) + 1 < 2 ^ 32"
  obtains s' w' F where "icsp_data_send N s sid data w = Some (sint (a_next_tsn s), s', w')" "w_out w' = w_out w @ [F]"
    "\<And>buf tm ms v. w_time v = tm \<Longrightarrow> \<exists>n from b1 t r. icsp_recv_frame b buf (rx (sent_frame F) tm ms) v = (RF_Got n from, b1, sent_frame F @ t) \<and>
       linked s' r \<and> (\<forall>f r' v' u u'. f r sid data v u = Some (r', v', u') \<longrightarrow>
         icsp_handle_frame N (Some f) b1 (sent_frame F @ t) (46 + n) v u = Some (ICSP_POLL_DATA, r', sack_reply r' (a_cum_tsn b) v', u'))"
proof -
  have tx': "\<not> w_txfail w (w_txn w)" using tx by (simp add: tx_ok_def)
  obtain s' w' p g d where S:
    "icsp_data_send N s sid data w = Some (sint (a_next_tsn s), s', w')" "w_out w' = w_out w @ [pkt_sent g p]" "assoc_wf g"
    "icsp_build_pkt g (icsp_chunk_put ICSP_CHUNK_DATA (48 + length data) @ d) ICSP_MAX_PAYLOAD = Some p"
    "length d = 48 + length data" "w_txfail w' = w_txfail w" "a_next_tsn s' = a_next_tsn s + 1"
    "stream_ids s' = (if sid \<in> set (stream_ids s) then stream_ids s else stream_ids s @ [sid])"
    "\<And>r v junk. linked s r \<Longrightarrow> \<exists>r'. icsp_data_handle N r (p @ junk) (length p) 1400 v = Some (int (length data), r', Some (data, sid)) \<and>
       linked s' r' \<and> (linked r s \<longrightarrow> linked r' s') \<and> a_next_tsn r' = a_next_tsn r"
    by (rule linked_send [OF lk data(2) tx' room nowrap, of N]) (rule that; assumption)
  let ?F = "pkt_sent g p"
  have ch: "length (icsp_chunk_put ICSP_CHUNK_DATA (48 + length data)) = 4" by simp
  have len: "length p = 64 + length data" and ty: "hs_type (bget p 12)"
    using pkt_chunk(3,6) [OF S(4) ch] S(5) by (simp_all add: hs_type_def icsp_chunk_put_def)
  have small: "48 + length data < 65536" using data(2) by simp
  have "\<exists>n from b1 t r. icsp_recv_frame b buf (rx (sent_frame ?F) tm ms) v = (RF_Got n from, b1, sent_frame ?F @ t) \<and>
       linked s' r \<and> (\<forall>f r' v' u u'. f r sid data v u = Some (r', v', u') \<longrightarrow>
         icsp_handle_frame N (Some f) b1 (sent_frame ?F @ t) (46 + n) v u = Some (ICSP_POLL_DATA, r', sack_reply r' (a_cum_tsn b) v', u'))"
    if now: "w_time v = tm" for buf tm ms v
  proof -
    let ?h = "heard b g tm"
    obtain t where rcv: "icsp_recv_frame b buf (rx (sent_frame ?F) tm ms) v =
        (RF_Got (length p) (take_bit 40 (a_src_addr g)), ?h, sent_frame ?F @ t)"
      using recv_sent [OF S(3) _ _ ty, of b buf tm ms v] len data(2) now by auto
    obtain r where r: "icsp_data_handle N (met ?h g (w_time v)) (p @ t) (length p) 1400 v = Some (int (length data), r, Some (data, sid))" "linked s' r"
      using S(9) [OF linked_met(1) [OF S(3) linked_heard(1) [OF S(3) lk]], of tm tm t v] now by auto
    have "a_state ?h = ST_ESTABLISHED" "a_cum_tsn (met ?h g (w_time v)) = a_cum_tsn b" using st by (simp_all add: heard_def met_def)
    then show ?thesis using rcv r(2) handle_data [OF S(3-5) small _ data(1) r(1)] by metis
  qed
  then show ?thesis by (rule that [OF S(1,2)])
qed

text \<open>The same for a receiver that polls, or relays: the frame as \<open>icsp_rx\<close> gets it. Both directions stay in step.\<close>

lemma frame_polled:
  assumes lk: "linked s b" and st: "a_state b = ST_ESTABLISHED" and data: "data \<noteq> []" "length data \<le> 1016" and tx: "tx_ok w"
    and room: "sid \<in> set (stream_ids s) \<or> length (stream_ids s) < 8" and nowrap: "unat (a_next_tsn s) + 1 < 2 ^ 32"
  obtains s' w' F where "icsp_data_send N s sid data w = Some (sint (a_next_tsn s), s', w')" "w_out w' = w_out w @ [F]"
    "\<And>buf tmo tm ms v. \<exists>n t r. icsp_rx b buf tmo (rx (sent_frame F) tm ms) = Rx_Len n (sent_frame F @ t) \<and> 0 < n \<and>
       linked s' r \<and> (linked b s \<longrightarrow> linked r s') \<and> (\<forall>f r' v' u u'. f r sid data v u = Some (r', v', u') \<longrightarrow>
         icsp_handle_frame N (Some f) b (sent_frame F @ t) n v u = Some (ICSP_POLL_DATA, r', sack_reply r' (a_cum_tsn b) v', u'))"
proof -
  have tx': "\<not> w_txfail w (w_txn w)" using tx by (simp add: tx_ok_def)
  obtain s' w' p g d where S:
    "icsp_data_send N s sid data w = Some (sint (a_next_tsn s), s', w')" "w_out w' = w_out w @ [pkt_sent g p]" "assoc_wf g"
    "icsp_build_pkt g (icsp_chunk_put ICSP_CHUNK_DATA (48 + length data) @ d) ICSP_MAX_PAYLOAD = Some p"
    "length d = 48 + length data" "w_txfail w' = w_txfail w" "a_next_tsn s' = a_next_tsn s + 1"
    "stream_ids s' = (if sid \<in> set (stream_ids s) then stream_ids s else stream_ids s @ [sid])"
    "\<And>r v junk. linked s r \<Longrightarrow> \<exists>r'. icsp_data_handle N r (p @ junk) (length p) 1400 v = Some (int (length data), r', Some (data, sid)) \<and>
       linked s' r' \<and> (linked r s \<longrightarrow> linked r' s') \<and> a_next_tsn r' = a_next_tsn r"
    by (rule linked_send [OF lk data(2) tx' room nowrap, of N]) (rule that; assumption)
  let ?F = "pkt_sent g p"
  have ch: "length (icsp_chunk_put ICSP_CHUNK_DATA (48 + length data)) = 4" by simp
  have len: "length p = 64 + length data" using pkt_chunk(3) [OF S(4) ch] S(5) by simp
  have small: "48 + length data < 65536" using data(2) by simp
  have "\<exists>n t r. icsp_rx b buf tmo (rx (sent_frame ?F) tm ms) = Rx_Len n (sent_frame ?F @ t) \<and> 0 < n \<and>
       linked s' r \<and> (linked b s \<longrightarrow> linked r s') \<and> (\<forall>f r' v' u u'. f r sid data v u = Some (r', v', u') \<longrightarrow>
         icsp_handle_frame N (Some f) b (sent_frame ?F @ t) n v u = Some (ICSP_POLL_DATA, r', sack_reply r' (a_cum_tsn b) v', u'))"
    for buf tmo tm ms v
  proof -
    let ?t = "drop (46 + length p) buf"
    have rx: "icsp_rx b buf tmo (rx (sent_frame ?F) tm ms) = Rx_Len (46 + length p) (sent_frame ?F @ ?t)"
      using sent_frame_app(6) [OF S(3), of p] len data(2) by (simp add: icsp_rx_def l2_recv_def rx_def rx_into_def Let_def)
    have cum: "a_cum_tsn (met b g (w_time v)) = a_cum_tsn b" by (simp add: met_def)
    obtain r where r: "icsp_data_handle N (met b g (w_time v)) (p @ ?t) (length p) 1400 v = Some (int (length data), r, Some (data, sid))"
      "linked s' r" "linked b s \<longrightarrow> linked r s'"
      using S(9) [OF linked_met(1) [OF S(3) lk], of "w_time v" ?t v] linked_met(2) [OF S(3), of b s "w_time v"] by auto
    show ?thesis
      using rx r(2,3) handle_data [OF S(3-5) small st data(1) r(1), unfolded cum] by (metis add_gr_0 zero_less_numeral)
  qed
  then show ?thesis by (rule that [OF S(1,2)])
qed

text \<open>An association in step with itself, for the witnesses.\<close>

definition toy_party :: icsp_assoc where
  "toy_party = assoc0\<lparr>a_has_key := True, a_next_tsn := 1, a_state := ST_ESTABLISHED\<rparr>"

lemma toy_party_linked: "linked toy_party toy_party" "a_state toy_party = ST_ESTABLISHED" "stream_ids toy_party = []" "a_next_tsn toy_party = 1"
proof -
  show "linked toy_party toy_party"
    by (rule linked_start) (simp_all add: toy_party_def assoc_wf_def assoc0_def)
qed (simp_all add: toy_party_def assoc0_def stream_ids_def)

end
