(* ===== verification/Bite_Fetch.thy ===== *)
theory Bite_Fetch
  imports Bite_Props Icsp_Carry
begin

text \<open>
  A page of the web tool through all its layers: the request and the response, each as a bTLS
  message in a record, the record as a message of an ICSP stream, its packet in an IPv69 frame.
\<close>

section \<open>A frame with data at the session\<close>

text \<open>One poll that brings a data packet: the callback keeps the message.\<close>

lemma poll_web:
  assumes g: "assoc_wf g"
    and p: "icsp_build_pkt g (icsp_chunk_put ICSP_CHUNK_DATA (48 + length data) @ d) ICSP_MAX_PAYLOAD = Some p" "length d = 48 + length data"
    and st: "a_state b = ST_ESTABLISHED" and data: "data \<noteq> []" "length data \<le> 1016" and c: "bc_pend c = []"
    and recv: "\<And>v junk. \<exists>r. icsp_data_handle N (met b g tm) (p @ junk) (length p) 1400 v = Some (int (length data), r, Some (data, 1)) \<and> Q r"
  obtains r v' acks where
    "icsp_poll N (Some bite_data_cb) b 200 (rx (sent_frame (pkt_sent g p)) tm ms) v c = Some (ICSP_POLL_DATA, r, v', c\<lparr>bc_pend := data\<rparr>)"
    "Q r" "tx_ok v' = tx_ok v" "w_files v' = w_files v" "w_out v' = w_out v @ acks"
proof -
  define v0 where "v0 = v\<lparr>w_time := tm, w_ms := ms\<rparr>"
  have v0: "tx_ok v0 = tx_ok v" "w_files v0 = w_files v" "w_out v0 = w_out v" by (simp_all add: v0_def tx_ok_def)
  let ?f = "sent_frame (pkt_sent g p)" and ?ch = "icsp_chunk_put ICSP_CHUNK_DATA (48 + length data)"
  have ch: "length ?ch = 4" by simp
  have len: "length p = 64 + length data" using pkt_chunk(3) [OF p(1) ch] p(2) by simp
  define t where "t = drop (46 + length p) (map (w_stack v0) [0..<1600])"
  have rx: "icsp_rx b (map (w_stack v0) [0..<1600]) 200 (rx ?f tm ms) = Rx_Len (46 + length p) (?f @ t)"
    using sent_frame_app(6) [OF g, of p] len data(2) by (simp add: icsp_rx_def l2_recv_def rx_def rx_into_def Let_def t_def)
  have now: "w_time v0 = tm" by (simp add: v0_def)
  obtain r where r: "icsp_data_handle N (met b g tm) (p @ t) (length p) 1400 v0 = Some (int (length data), r, Some (data, 1))" "Q r"
    using recv by blast
  have cb: "bite_data_cb r 1 data v0 c = Some (r, v0, c\<lparr>bc_pend := data\<rparr>)" using c data(2) by (simp add: bite_data_cb_def)
  have small: "48 + length data < 65536" using data(2) by simp
  have "icsp_handle_frame N (Some bite_data_cb) b (?f @ t) (46 + length p) v0 c =
      Some (ICSP_POLL_DATA, r, sack_reply r (a_cum_tsn (met b g tm)) v0, c\<lparr>bc_pend := data\<rparr>)"
    using handle_data [where f = bite_data_cb, OF g p small st data(1) r(1) [folded now] cb] unfolding now .
  then have h: "icsp_poll N (Some bite_data_cb) b 200 (rx ?f tm ms) v c =
      Some (ICSP_POLL_DATA, r, sack_reply r (a_cum_tsn (met b g tm)) v0, c\<lparr>bc_pend := data\<rparr>)"
    using rx len by (simp add: icsp_poll_def at_event_def rx_def v0_def [symmetric])
  obtain acks where "w_out (sack_reply r (a_cum_tsn (met b g tm)) v0) = w_out v0 @ acks" using sack_reply_out by blast
  then show ?thesis
    by (intro that [OF h r(2), of acks]) (simp_all add: v0)
qed

section \<open>A message from one side to the other\<close>

lemma tsn_not_error: "unat (x :: u32) + 1 < 2 ^ 32 \<Longrightarrow> sint x \<noteq> -1"
proof
  assume "sint x = -1" "unat x + 1 < 2 ^ 32"
  then have "sint x = sint (0xffffffff :: u32)" by simp
  then have "x = 0xffffffff" by (rule signed_word_eqI)
  then show False using \<open>unat x + 1 < 2 ^ 32\<close> by simp
qed

text \<open>A bTLS endpoint between messages.\<close>

definition idle_end :: "btls \<Rightarrow> bool" where
  "idle_end t \<longleftrightarrow> app_ready t \<and> t_tx_msg t = None \<and> t_rx_len t = 0"

lemma web_message:
  assumes ends: "idle_end s" "idle_end t" "hears t s" "hears s t" and msg: "msg \<noteq> []" "length msg \<le> 979"
    and lk: "linked a b" "linked b a" and room: "1 \<in> set (stream_ids a) \<or> length (stream_ids a) < 8"
    and nowrap: "unat (a_next_tsn a) + 1 < 2 ^ 32" and tx: "tx_ok w"
  obtains a1 s1 w1 g p d data where
    "app_send N q msg a s w = Some (0, a1, s1, w1)" "w_out w1 = w_out w @ [pkt_sent g p]" "tx_ok w1" "same_self a a1"
    "assoc_wf g" "icsp_build_pkt g (icsp_chunk_put ICSP_CHUNK_DATA (48 + length data) @ d) ICSP_MAX_PAYLOAD = Some p"
    "length d = 48 + length data" "data \<noteq> []" "length data \<le> 1016"
    "idle_end s1" "1 \<in> set (stream_ids a1)"
    "\<And>buf. length buf = BTLS_MAX_MSG \<Longrightarrow> \<exists>t1. btls_recv_app N t data buf = Some (1, length msg, msg @ drop (length msg) buf, t1) \<and>
       idle_end t1 \<and> hears t1 s1 \<and> hears s1 t1"
    "\<And>tm v junk. \<exists>r. icsp_data_handle N (met b g tm) (p @ junk) (length p) 1400 v = Some (int (length data), r, Some (data, 1)) \<and>
       linked a1 r \<and> linked r a1 \<and> a_next_tsn r = a_next_tsn b"
proof -
  have E: "app_ready s" "app_ready t" "t_tx_msg s = None" "t_tx_msg t = None" "t_rx_len s = 0" "t_rx_len t = 0"
    using ends(1,2) by (auto simp: idle_end_def)
  have recv: "\<exists>data s1 t1. btls_send_app N s q msg = (0, data, s1) \<and> length data = 37 + length msg \<and>
      btls_recv_app N t data buf = Some (1, length msg, msg @ drop (length msg) buf, t1) \<and>
      idle_end s1 \<and> idle_end t1 \<and> hears t1 s1 \<and> hears s1 t1" if "length buf = BTLS_MAX_MSG" for buf
    using btls_message_roundtrip [OF E(1,2) ends(3) E(3,6) msg(1), of buf N q] that msg(2) E ends(4)
    by (auto simp: idle_end_def)
  obtain data s1 where D: "btls_send_app N s q msg = (0, data, s1)" "length data = 37 + length msg" "idle_end s1"
    using recv [of "zeros BTLS_MAX_MSG"] by auto
  have tx': "\<not> w_txfail w (w_txn w)" "length data \<le> 1016" using tx D(2) msg(2) by (simp_all add: tx_ok_def)
  obtain a1 w1 p g d where S:
    "icsp_data_send N a 1 data w = Some (sint (a_next_tsn a), a1, w1)" "w_out w1 = w_out w @ [pkt_sent g p]" "assoc_wf g"
    "icsp_build_pkt g (icsp_chunk_put ICSP_CHUNK_DATA (48 + length data) @ d) ICSP_MAX_PAYLOAD = Some p"
    "length d = 48 + length data" "w_txfail w1 = w_txfail w" "a_next_tsn a1 = a_next_tsn a + 1"
    "stream_ids a1 = (if 1 \<in> set (stream_ids a) then stream_ids a else stream_ids a @ [1])"
    "\<And>r v junk. linked a r \<Longrightarrow> \<exists>r'. icsp_data_handle N r (p @ junk) (length p) 1400 v = Some (int (length data), r', Some (data, 1)) \<and>
       linked a1 r' \<and> (linked r a \<longrightarrow> linked r' a1) \<and> a_next_tsn r' = a_next_tsn r"
    by (rule linked_send [OF lk(1) tx'(2,1) room nowrap, of N]) (rule that; assumption)
  have "app_send N q msg a s w = Some (0, a1, s1, w1)"
    using D(1) S(1) tsn_not_error [OF nowrap] by (subst app_send.simps) simp
  moreover have "\<exists>r. icsp_data_handle N (met b g tm) (p @ junk) (length p) 1400 v = Some (int (length data), r, Some (data, 1)) \<and>
       linked a1 r \<and> linked r a1 \<and> a_next_tsn r = a_next_tsn b" for tm v junk
    using S(9) [OF linked_met(1) [OF S(3) lk(1)], of tm junk v] linked_met(2) [OF S(3) lk(2), of tm] by (auto simp: met_def)
  moreover have "\<exists>t1. btls_recv_app N t data buf = Some (1, length msg, msg @ drop (length msg) buf, t1) \<and>
       idle_end t1 \<and> hears t1 s1 \<and> hears s1 t1" if "length buf = BTLS_MAX_MSG" for buf
    using recv [OF that] D(1) by auto
  moreover have "data \<noteq> []" using D(2) by auto
  ultimately show ?thesis
    using that S D(3) tx tx'(2) data_send_self [OF S(1)] by (simp add: tx_ok_def)
qed

text \<open>A frame that brings a message to any context with the endpoint \<open>t\<close>, at any time and in any world, and leaves
  both sides in step.\<close>

definition arrives :: "nacl \<Rightarrow> sent \<Rightarrow> bytes \<Rightarrow> icsp_assoc \<Rightarrow> btls \<Rightarrow> icsp_assoc \<Rightarrow> btls \<Rightarrow> bool" where
  "arrives N F msg b t a s \<longleftrightarrow>
     (\<forall>d v tm ms. bc_btls d = t \<longrightarrow> bc_pend d = [] \<longrightarrow> length (bc_msg d) = BTLS_MAX_MSG \<longrightarrow>
       (\<exists>data r v1 acks t1.
          icsp_poll N (Some bite_data_cb) b 200 (rx (sent_frame F) tm ms) v d = Some (ICSP_POLL_DATA, r, v1, d\<lparr>bc_pend := data\<rparr>) \<and>
          data \<noteq> [] \<and> linked a r \<and> linked r a \<and> a_next_tsn r = a_next_tsn b \<and>
          tx_ok v1 = tx_ok v \<and> w_files v1 = w_files v \<and> w_out v1 = w_out v @ acks \<and>
          btls_recv_app N t data (bc_msg d) = Some (1, length msg, msg @ drop (length msg) (bc_msg d), t1) \<and>
          idle_end t1 \<and> hears t1 s \<and> hears s t1))"

lemma message_crosses:
  assumes ends: "idle_end s" "idle_end t" "hears t s" "hears s t" and msg: "msg \<noteq> []" "length msg \<le> 979"
    and lk: "linked a b" "linked b a" and room: "1 \<in> set (stream_ids a) \<or> length (stream_ids a) < 8"
    and nowrap: "unat (a_next_tsn a) + 1 < 2 ^ 32" and tx: "tx_ok w" and st: "a_state b = ST_ESTABLISHED"
  obtains a1 s1 w1 F where
    "app_send N q msg a s w = Some (0, a1, s1, w1)" "w_out w1 = w_out w @ [F]" "same_self a a1" "idle_end s1" "1 \<in> set (stream_ids a1)"
    "arrives N F msg b t a1 s1"
proof -
  obtain a1 s1 w1 g p e data where S:
    "app_send N q msg a s w = Some (0, a1, s1, w1)" "w_out w1 = w_out w @ [pkt_sent g p]" "tx_ok w1" "same_self a a1"
    "assoc_wf g" "icsp_build_pkt g (icsp_chunk_put ICSP_CHUNK_DATA (48 + length data) @ e) ICSP_MAX_PAYLOAD = Some p"
    "length e = 48 + length data" "data \<noteq> []" "length data \<le> 1016" "idle_end s1" "1 \<in> set (stream_ids a1)"
    "\<And>buf. length buf = BTLS_MAX_MSG \<Longrightarrow> \<exists>t1. btls_recv_app N t data buf = Some (1, length msg, msg @ drop (length msg) buf, t1) \<and>
       idle_end t1 \<and> hears t1 s1 \<and> hears s1 t1"
    "\<And>tm v junk. \<exists>r. icsp_data_handle N (met b g tm) (p @ junk) (length p) 1400 v = Some (int (length data), r, Some (data, 1)) \<and>
       linked a1 r \<and> linked r a1 \<and> a_next_tsn r = a_next_tsn b"
    by (rule web_message [OF ends msg lk room nowrap tx, of N q]) (rule that; assumption)
  have "arrives N (pkt_sent g p) msg b t a1 s1"
    unfolding arrives_def
  proof (intro allI impI)
    fix d :: bctx and v tm ms
    assume d: "bc_pend d = []" "length (bc_msg d) = BTLS_MAX_MSG"
    obtain r v1 acks where P:
      "icsp_poll N (Some bite_data_cb) b 200 (rx (sent_frame (pkt_sent g p)) tm ms) v d = Some (ICSP_POLL_DATA, r, v1, d\<lparr>bc_pend := data\<rparr>)"
      "linked a1 r \<and> linked r a1 \<and> a_next_tsn r = a_next_tsn b" "tx_ok v1 = tx_ok v" "w_files v1 = w_files v" "w_out v1 = w_out v @ acks"
      by (rule poll_web [OF S(5,6,7) st S(8,9) d(1) S(13)])
    show "\<exists>data r v1 acks t1.
       icsp_poll N (Some bite_data_cb) b 200 (rx (sent_frame (pkt_sent g p)) tm ms) v d = Some (ICSP_POLL_DATA, r, v1, d\<lparr>bc_pend := data\<rparr>) \<and>
       data \<noteq> [] \<and> linked a1 r \<and> linked r a1 \<and> a_next_tsn r = a_next_tsn b \<and>
       tx_ok v1 = tx_ok v \<and> w_files v1 = w_files v \<and> w_out v1 = w_out v @ acks \<and>
       btls_recv_app N t data (bc_msg d) = Some (1, length msg, msg @ drop (length msg) (bc_msg d), t1) \<and>
       idle_end t1 \<and> hears t1 s1 \<and> hears s1 t1"
      using P S(8) S(12) [OF d(2)] by blast
  qed
  then show ?thesis by (rule that [OF S(1,2,4,10,11)])
qed

section \<open>A page\<close>

definition web_ready :: "bctx \<Rightarrow> bool" where
  "web_ready c \<longleftrightarrow> bc_done c \<and> bc_pend c = [] \<and> idle_end (bc_btls c) \<and> length (bc_msg c) = BTLS_MAX_MSG"

text \<open>A client and a server in step at every layer.\<close>

definition web_linked :: "bctx \<Rightarrow> icsp_assoc \<Rightarrow> bctx \<Rightarrow> icsp_assoc \<Rightarrow> bool" where
  "web_linked c a d b \<longleftrightarrow> web_ready c \<and> web_ready d \<and> hears (bc_btls c) (bc_btls d) \<and> hears (bc_btls d) (bc_btls c) \<and>
     linked a b \<and> linked b a \<and> a_state a = ST_ESTABLISHED \<and> a_state b = ST_ESTABLISHED \<and>
     (1 \<in> set (stream_ids a) \<or> length (stream_ids a) < 8)"

definition page :: "string \<Rightarrow> string \<Rightarrow> string \<Rightarrow> string" where
  "page meth path doc = head_ok (mime_of path) (length doc) @ (if meth = ''HEAD'' then [] else doc)"

abbreviation (input) METHODS :: "string set" where "METHODS \<equiv> {''BITE'', ''GET'', ''HEAD''}"

lemma request_read:
  assumes "path_ok (ascii path)" "meth \<in> METHODS"
  shows "req_parse (ascii (bite_request meth path)) =
    Some \<lparr>rq_method = ascii meth, rq_path = ascii path, rq_head = (meth = ''HEAD'')\<rparr>"
proof -
  have m: "ascii meth \<noteq> []" "length (ascii meth) < 8" "set (ascii meth) \<inter> {0, 10, 32} = {}"
    "(ascii meth = ascii ''HEAD'') = (meth = ''HEAD'')" using assms(2) by auto
  have "ascii (bite_request meth path) = ascii meth @ [32] @ ascii path @ ascii '' BITE/1.0'' @ END"
    by (simp add: bite_request_def)
  then show ?thesis using req_parse_honest [OF assms(1) m(1-3)] m(4) by simp
qed

lemma serve_page:
  assumes "meth \<in> METHODS" "open_doc root path w = Some doc"
    and "length (head_ok (mime_of path) (length doc)) + length doc \<le> 979"
  shows "serve root \<lparr>rq_method = ascii meth, rq_path = ascii path, rq_head = (meth = ''HEAD'')\<rparr> w = Some (ascii (page meth path doc))"
proof -
  have m: "ascii meth \<in> {ascii ''BITE'', ascii ''GET'', ascii ''HEAD''}" using assms(1) by auto
  show ?thesis using assms(2,3) m by (simp add: serve_def Let_def page_def del: dec.simps ascii_simps)
qed

lemma output_page:
  "bite_output meth (ascii (page meth path doc)) =
     (if meth = ''HEAD'' then ascii (head_ok (mime_of path) (length doc)) else ascii doc)"
  using output_document [of meth path "length doc" doc] by (simp add: page_def bite_output_def del: dec.simps ascii_simps)

lemma app_ready_idle [simp]: "idle_end t \<Longrightarrow> t_state t = BTLS_ST_DONE"
  by (simp add: idle_end_def app_ready_def)

lemma same_self_state: "same_self a b \<Longrightarrow> a_state b = a_state a"
  by (simp add: same_self_def persona_def)

text \<open>The server's turn on a request that arrived: the record is opened, the request read, the page sent.\<close>

lemma server_answers:
  assumes poll: "icsp_poll N (Some bite_data_cb) b 200 ev v d = Some (ICSP_POLL_DATA, r, v1, d\<lparr>bc_pend := data\<rparr>)" "data \<noteq> []" "bc_done d"
    and recv: "btls_recv_app N (bc_btls d) data (bc_msg d) = Some (1, length req, req @ rest, t1)"
    and req: "req_parse req = Some rq" "serve (bc_root d) rq v1 = Some resp"
    and send: "app_send N BITE_MSG resp r t1 v1 = Some (0, r2, t2, v2)"
  shows "\<exists>d2 idle2. bite_server_turn N ev (d, b, idle, v) = Some (Srv_Next, d2, r2, idle2, v2)"
proof -
  have "bite_serve_pend N (d\<lparr>bc_pend := data\<rparr>) r v1 =
      Some (Served, d\<lparr>bc_pend := [], bc_btls := t2, bc_msg := blit (req @ rest) 0 resp\<rparr>, r2, v2)"
    using poll(2,3) recv req send by (simp add: bite_serve_pend_def bite_answer_def Let_def)
  then show ?thesis using poll by (simp add: bite_server_turn_def Let_def)
qed

text \<open>The client's turn on a response that arrived.\<close>

lemma client_gets:
  assumes poll: "icsp_poll N (Some bite_data_cb) a 200 ev w c = Some (ICSP_POLL_DATA, r, w1, c\<lparr>bc_pend := data\<rparr>)" "data \<noteq> []" "bc_done c"
    and recv: "btls_recv_app N (bc_btls c) data (bc_msg c) = Some (1, length resp, resp @ rest, t1)"
  shows "\<exists>c2 a2 w2. bite_fetch_turn N meth path ev (c, a, sent, w) = Some (Fetch_Got (bite_output meth resp), c2, a2, sent, w2)"
proof -
  have "bite_fetch_pend N meth (c\<lparr>bc_pend := data\<rparr>) r w1 =
      Some (0, Some (bite_output meth resp), c\<lparr>bc_pend := [], bc_btls := t1, bc_msg := resp @ rest\<rparr>, r, w1)"
    using poll(2,3) recv by (simp add: bite_fetch_pend_def Let_def)
  then show ?thesis using poll(1) by (simp add: bite_fetch_turn_def case_prod_beta)
qed

lemma fetch_arrives:
  assumes "arrives N F resp a t b u" "bc_btls c = t" "bc_pend c = []" "length (bc_msg c) = BTLS_MAX_MSG" "bc_done c"
  shows "\<exists>c2 a2 w2. bite_fetch_turn N meth path (rx (sent_frame F) tm ms) (c, a, sent, w) = Some (Fetch_Got (bite_output meth resp), c2, a2, sent, w2)"
proof -
  obtain data r w1 t1 where "icsp_poll N (Some bite_data_cb) a 200 (rx (sent_frame F) tm ms) w c = Some (ICSP_POLL_DATA, r, w1, c\<lparr>bc_pend := data\<rparr>)"
    "data \<noteq> []" "btls_recv_app N (bc_btls c) data (bc_msg c) = Some (1, length resp, resp @ drop (length resp) (bc_msg c), t1)"
    using assms(1-4) unfolding arrives_def by blast
  then show ?thesis using client_gets assms(5) by blast
qed

text \<open>C4: A page arrives as the server has it, through every layer: the client's request goes out in one
  frame; the server's turn on that frame sends one frame behind its acknowledgements; the
  client's turn on that one ends with the document (for HEAD, the head of the response), even
  when the acknowledgements are lost. The head and the document have at most 979 bytes.\<close>

theorem bite_page_fetched:
  assumes web: "web_linked c a d b" and tx: "tx_ok w" "tx_ok v"
    and nowrap: "unat (a_next_tsn a) + 1 < 2 ^ 32" "unat (a_next_tsn b) + 1 < 2 ^ 32"
    and path: "path_ok (ascii path)" and meth: "meth \<in> METHODS"
    and doc: "open_doc (bc_root d) path v = Some doc"
    and small: "length (head_ok (mime_of path) (length doc)) + length doc \<le> 979"
  shows "\<exists>F G acks a1 t w1 d2 b2 idle2 v2 c3 a3 w3.
    app_send N BITE_REQ (ascii (bite_request meth path)) a (bc_btls c) w = Some (0, a1, t, w1) \<and> w_out w1 = w_out w @ [F] \<and>
    bite_server_turn N (rx (sent_frame F) t2 m2) (d, b, idle, v) = Some (Srv_Next, d2, b2, idle2, v2) \<and> w_out v2 = w_out v @ acks @ [G] \<and>
    bite_fetch_turn N meth path (rx (sent_frame G) t3 m3) (c\<lparr>bc_btls := t\<rparr>, a1, True, w1) =
      Some (Fetch_Got (if meth = ''HEAD'' then ascii (head_ok (mime_of path) (length doc)) else ascii doc), c3, a3, True, w3)"
proof -
  let ?req = "ascii (bite_request meth path)" and ?resp = "ascii (page meth path doc)"
  have C: "idle_end (bc_btls c)" "bc_done c" "bc_pend c = []" "length (bc_msg c) = BTLS_MAX_MSG"
    and D: "idle_end (bc_btls d)" "bc_done d" "bc_pend d = []" "length (bc_msg d) = BTLS_MAX_MSG"
    and H: "hears (bc_btls d) (bc_btls c)" "hears (bc_btls c) (bc_btls d)"
    and L: "linked a b" "linked b a" "a_state a = ST_ESTABLISHED" "a_state b = ST_ESTABLISHED"
      "1 \<in> set (stream_ids a) \<or> length (stream_ids a) < 8"
    using web by (auto simp: web_linked_def web_ready_def)
  have "length meth \<le> 4" "length path \<le> 511" using meth path by (auto simp: path_ok_def)
  then have req: "?req \<noteq> []" "length ?req \<le> 979" by (simp_all add: bite_request_def)
  have hd: "2 \<le> length (head_ok (mime_of path) (length doc))" by (simp add: head_ok_def del: dec.simps)
  have resp: "?resp \<noteq> []" "length ?resp \<le> 979" using small hd by (auto simp: page_def simp del: dec.simps ascii_simps)
  obtain a1 s1 w1 F where S: "app_send N BITE_REQ ?req a (bc_btls c) w = Some (0, a1, s1, w1)" "w_out w1 = w_out w @ [F]"
    "same_self a a1" "idle_end s1" "1 \<in> set (stream_ids a1)" "arrives N F ?req b (bc_btls d) a1 s1"
    by (rule message_crosses [OF C(1) D(1) H req L(1,2,5) nowrap(1) tx(1) L(4)])
  obtain data r v1 acks t1 where P:
    "icsp_poll N (Some bite_data_cb) b 200 (rx (sent_frame F) t2 m2) v d = Some (ICSP_POLL_DATA, r, v1, d\<lparr>bc_pend := data\<rparr>)"
    "data \<noteq> []" "linked a1 r" "linked r a1" "a_next_tsn r = a_next_tsn b" "tx_ok v1 = tx_ok v" "w_files v1 = w_files v" "w_out v1 = w_out v @ acks"
    "btls_recv_app N (bc_btls d) data (bc_msg d) = Some (1, length ?req, ?req @ drop (length ?req) (bc_msg d), t1)"
    "idle_end t1" "hears t1 s1" "hears s1 t1"
    using S(6) D(3,4) unfolding arrives_def by blast
  have "1 \<in> set (stream_ids r)" using S(5) P(4) by (simp add: linked_def)
  then have room: "1 \<in> set (stream_ids r) \<or> length (stream_ids r) < 8" ..
  have st: "a_state a1 = ST_ESTABLISHED" and tx1: "tx_ok v1" and nw: "unat (a_next_tsn r) + 1 < 2 ^ 32"
    and doc1: "open_doc (bc_root d) path v1 = Some doc"
    using same_self_state [OF S(3)] L(3) P(5,6,7) tx(2) nowrap(2) doc by (simp_all add: open_doc_def)
  obtain r2 u2 v2 G where R: "app_send N BITE_MSG ?resp r t1 v1 = Some (0, r2, u2, v2)" "w_out v2 = w_out v1 @ [G]"
    "arrives N G ?resp a1 s1 r2 u2"
    by (rule message_crosses [OF P(10) S(4) P(12,11) resp P(4,3) room nw tx1 st])
  have srv: "\<exists>d2 idle2. bite_server_turn N (rx (sent_frame F) t2 m2) (d, b, idle, v) = Some (Srv_Next, d2, r2, idle2, v2)"
    by (rule server_answers [OF P(1,2) D(2) P(9) request_read [OF path meth] serve_page [OF meth doc1 small] R(1)])
  have "\<exists>c2 a2 w2. bite_fetch_turn N meth path (rx (sent_frame G) t3 m3) (c\<lparr>bc_btls := s1\<rparr>, a1, True, w1) =
      Some (Fetch_Got (bite_output meth ?resp), c2, a2, True, w2)"
    by (rule fetch_arrives [OF R(3)]) (use C in simp_all)
  moreover have "w_out v2 = w_out v @ acks @ [G]" using R(2) P(8) by simp
  ultimately show ?thesis using S(1,2) srv unfolding output_page by blast
qed

definition toy_site :: world where
  "toy_site = world0\<lparr>w_files := (\<lambda>f. if f = ''./a.txt'' then Some ''hello'' else None)\<rparr>"

abbreviation (input) toy_ctx :: bctx where "toy_ctx \<equiv> (bctx0 toy_app ''.'')\<lparr>bc_done := True\<rparr>"

lemma toy_web: "web_linked toy_ctx toy_party toy_ctx toy_party"
  using toy_app toy_party_linked by (simp add: web_linked_def web_ready_def idle_end_def bctx0_def zeros_def)

lemma toy_head: "length (head_ok (mime_of ''/a.txt'') (length ''hello'')) \<le> 100"
  by (simp add: head_ok_def mime_of_def last_dot_def)

lemma bite_page_fetched_witness:
  "\<exists>F G acks a1 t w1 d2 b2 idle2 v2 c3 a3 w3.
    app_send toy_nacl BITE_REQ (ascii (bite_request ''BITE'' ''/a.txt'')) toy_party toy_app world0 = Some (0, a1, t, w1) \<and> w_out w1 = [F] \<and>
    bite_server_turn toy_nacl (rx (sent_frame F) 1 1) (toy_ctx, toy_party, 20, toy_site) = Some (Srv_Next, d2, b2, idle2, v2) \<and>
    w_out v2 = acks @ [G] \<and>
    bite_fetch_turn toy_nacl ''BITE'' ''/a.txt'' (rx (sent_frame G) 2 2) (toy_ctx\<lparr>bc_btls := t\<rparr>, a1, True, w1) =
      Some (Fetch_Got (ascii ''hello''), c3, a3, True, w3)"
proof -
  have p: "path_ok (ascii ''/a.txt'')" by (simp add: path_ok_def)
  have o: "open_doc (bc_root toy_ctx) ''/a.txt'' toy_site = Some ''hello''"
    by (simp add: open_doc_def toy_site_def snprintf_def bctx0_def)
  have tx: "tx_ok world0" "tx_ok toy_site" by (simp_all add: tx_ok_def toy_site_def world0_def)
  have h: "length (head_ok (mime_of ''/a.txt'') (length ''hello'')) + length ''hello'' \<le> 979" using toy_head by simp
  have n: "unat (a_next_tsn toy_party) + 1 < 2 ^ 32" unfolding toy_party_linked(4) by simp
  have m: "''BITE'' \<in> METHODS" by simp
  have e: "bc_btls toy_ctx = toy_app" "w_out world0 = []" "w_out toy_site = []" "(''BITE'' = ''HEAD'') = False"
    by (simp_all add: bctx0_def world0_def toy_site_def)
  show ?thesis
    using bite_page_fetched [OF toy_web tx n n p m o h, where N = toy_nacl and ?t2.0 = 1 and ?m2.0 = 1 and idle = 20
      and ?t3.0 = 2 and ?m3.0 = 2]
    unfolding e if_False append_Nil .
qed

end
