(* ===== verification/Endpoint.thy ===== *)
theory Endpoint
  imports Icsp_Session Gwfile
begin

text \<open>
  Opening an endpoint, \<^verbatim>\<open>icsp_endpoint_open\<close>, its two tunnel variants (\<^verbatim>\<open>c/src/ICSP/icsp_session.c\<close>), and the choice
  that the tools of \<^verbatim>\<open>c/examples\<close> make between them. The system is a record: the resolver's address
  functions and the datagrams that answer its questions, the environment, what is typed for
  passphrases, the socket addresses as the kernel lays them out, the interfaces (\<^verbatim>\<open>l2_open\<close>: descriptor,
  index and MAC), and the descriptor of a new UDP socket.
\<close>

record host_sys =
  sy_inet :: inet
  sy_dns :: "string \<Rightarrow> bytes option list"
  sy_env :: kenv
  sy_tty :: "string option list"
  sy_addr :: "endpoint \<Rightarrow> bytes"
  sy_l2 :: "string \<Rightarrow> (int \<times> int \<times> bytes) option"
  sy_sock :: int

text \<open>An association with the identity's secret key. \<open>None\<close> is a key file that never loads, or a resolver
  that leaves its buffers.\<close>

datatype opened = Opened icsp_assoc bytes world | Open_Failed world

definition load_identity :: "nacl \<Rightarrow> host_sys \<Rightarrow> world \<Rightarrow> (int \<times> bytes \<times> string \<times> world) option" where
  "load_identity N S w =
     (case keyring_paths (sy_env S) 256 512 512 of (dir, key, kpub) \<Rightarrow>
        keyring_load_or_create N (sy_env S) key kpub 128 (sy_tty S) w)"

definition icsp_endpoint_open :: "nacl \<Rightarrow> host_sys \<Rightarrow> string \<Rightarrow> world \<Rightarrow> opened option" where
  "icsp_endpoint_open N S ifname w =
     map_option (\<lambda>(r, sk, _, w).
       if r < 0 then Open_Failed w
       else case sy_l2 S ifname of
              None \<Rightarrow> Open_Failed w
            | Some (fd, ifindex, mac) \<Rightarrow>
                Opened (assoc0\<lparr>a_id_pub := slice 32 32 sk, a_sk := sk, a_fd := fd, a_ifindex := ifindex, a_src_mac := mac\<rparr>) sk w)
       (load_identity N S w)"

definition endpoint_open_gw :: "nacl \<Rightarrow> host_sys \<Rightarrow> endpoint \<Rightarrow> world \<Rightarrow> opened option" where
  "endpoint_open_gw N S gw w =
     map_option (\<lambda>(r, sk, _, w).
       if r < 0 then Open_Failed w
       else if sy_sock S = -1 then Open_Failed w
       else Opened (icsp_endpoint_open_gw N sk (slice 32 32 sk) (sy_addr S gw) (sy_sock S)) sk w)
       (load_identity N S w)"

definition icsp_endpoint_open_remote :: "nacl \<Rightarrow> host_sys \<Rightarrow> string \<Rightarrow> world \<Rightarrow> opened option" where
  "icsp_endpoint_open_remote N S gwstr w =
     (case gwfile_resolve (sy_inet S) gwstr (sy_dns S gwstr) w of
        (Ok (Some gw), w) \<Rightarrow> endpoint_open_gw N S gw w
      | (Stray, w) \<Rightarrow> None
      | (_, w) \<Rightarrow> Some (Open_Failed w))"

text \<open>A gateway given as an option wins, then the first of the gateway file, then the interface.\<close>

definition choose_endpoint :: "nacl \<Rightarrow> host_sys \<Rightarrow> string option \<Rightarrow> string \<Rightarrow> world \<Rightarrow> opened option" where
  "choose_endpoint N S remote ifname w =
     (case remote of
        Some gwstr \<Rightarrow> icsp_endpoint_open_remote N S gwstr w
      | None \<Rightarrow>
          (case gwfile_load (sy_inet S) (sy_env S) (sy_dns S) 8 w of
             (Ok (gw # _), w) \<Rightarrow> endpoint_open_gw N S gw w
           | (Stray, w) \<Rightarrow> None
           | (_, w) \<Rightarrow> icsp_endpoint_open N S ifname w))"

text \<open>A server behind a gateway announces itself before it waits, and every two seconds from then on.\<close>

definition announce_tunnel :: "nacl \<Rightarrow> icsp_assoc \<Rightarrow> world \<Rightarrow> icsp_assoc \<times> world" where
  "announce_tunnel N a w = (if a_tunnel a then snd (icsp_announce_send N (a\<lparr>a_announce_s := 2\<rparr>) w) else (a, w))"

text \<open>The key file option of the command line is an environment variable for the key files.\<close>

definition with_keyfile :: "string option \<Rightarrow> host_sys \<Rightarrow> host_sys" where
  "with_keyfile kf S = (case kf of None \<Rightarrow> S | Some f \<Rightarrow> S\<lparr>sy_env := (sy_env S)\<lparr>ke_keyfile := Some f\<rparr>\<rparr>)"

section \<open>Peers on the command line\<close>

text \<open>The tools keep up to 64 peers; decoding into the next row writes past the array.\<close>

datatype peer_add = Peers "bytes list" | Peer_Bad | Peer_Stray

definition add_peer :: "string \<Rightarrow> bytes list \<Rightarrow> peer_add" where
  "add_peer v peers =
     (if 64 \<le> length peers \<and> v \<noteq> [] \<and> length v mod 2 = 0 \<and> length v div 2 \<le> 32 \<and> sscanf_2x v \<noteq> None then Peer_Stray
      else case hex_decode v 32 of
             None \<Rightarrow> Peer_Bad
           | Some b \<Rightarrow> if length b \<noteq> 32 then Peer_Bad else Peers (peers @ [b]))"

section \<open>An endpoint has its own identity\<close>

text \<open>Whatever way it was opened, the association has the loaded key and its public half, and
  no session key; through a gateway its address is the class C address of the key.\<close>

lemma endpoint_opened:
  assumes "choose_endpoint N S remote ifname w = Some (Opened a sk w')"
  shows "a_sk a = sk \<and> a_id_pub a = slice 32 32 sk \<and> \<not> a_has_key a \<and> a_n_streams a = 0 \<and>
    (a_tunnel a \<longrightarrow> a_src_addr a = ipv69_addr_get (ipv69_addr_derive N (slice 32 32 sk) CHR ''C''))"
proof -
  have e: "icsp_endpoint_open N S i v = Some (Opened a sk w') \<Longrightarrow> ?thesis" for i v
    by (auto simp: icsp_endpoint_open_def assoc0_def split: if_splits option.splits)
  have g: "endpoint_open_gw N S gw v = Some (Opened a sk w') \<Longrightarrow> ?thesis" for gw v
    by (auto simp: endpoint_open_gw_def icsp_endpoint_open_gw_def assoc0_def split: if_splits)
  show ?thesis
    using assms e g by (auto simp: choose_endpoint_def icsp_endpoint_open_remote_def split: option.splits prod.splits dns.splits list.splits)
qed

end
