(* ===== verification/Bite_Main.thy ===== *)
theory Bite_Main
  imports Bite Endpoint
begin

text \<open>
  The web tool as a whole: the loops of the server and of the client around their turns, and \<^verbatim>\<open>main\<close> of
  \<^verbatim>\<open>c/examples/bite.c\<close>. What arrives is given per association: the events of the handshake and those of
  the session.
\<close>

section \<open>The server\<close>

text \<open>A session ends with the next association, with the exit of the server, or when the events are used up.\<close>

datatype sess_end = Sess_Next icsp_assoc world | Sess_Exit world | Sess_Running

fun bite_session :: "nacl \<Rightarrow> rx_event list \<Rightarrow> bctx \<Rightarrow> icsp_assoc \<Rightarrow> int \<Rightarrow> world \<Rightarrow> sess_end option" where
  "bite_session N [] c a idle w = Some (if w_time w < idle then Sess_Running else Sess_Next a w)"
| "bite_session N (ev # evs) c a idle w =
     (if \<not> w_time w < idle then Some (Sess_Next a w)
      else case bite_server_turn N ev (c, a, idle, w) of
             None \<Rightarrow> None
           | Some (Srv_Next, c, a, idle, w) \<Rightarrow> bite_session N evs c a idle w
           | Some (Srv_Close, c, a, idle, w) \<Rightarrow> Some (Sess_Next a w)
           | Some (Srv_Exit, c, a, idle, w) \<Rightarrow> Some (Sess_Exit w))"

text \<open>One round of the serving loop. The clock of the session starts before the association is there.\<close>

definition bite_round ::
    "nacl \<Rightarrow> string \<Rightarrow> u16 \<Rightarrow> bytes \<Rightarrow> rx_event list \<Rightarrow> rx_event list \<Rightarrow> icsp_assoc \<Rightarrow> world \<Rightarrow> sess_end option" where
  "bite_round N root port sk evs turns a w =
     (let idle = w_time w + 20; (t, w) = btls_init N BTLS_SERVER (Some sk) None w
      in case icsp_server_accept N a port sk [] 30 evs w of
           HS_Wait _ _ \<Rightarrow> Some Sess_Running
         | HS_Ret r a w \<Rightarrow> if r < 0 then Some (Sess_Next a w) else bite_session N turns (bctx0 t root) a idle w)"

datatype bite_end = Bite_Exit int bytes world | Bite_Running

fun bite_serve ::
    "nacl \<Rightarrow> string \<Rightarrow> u16 \<Rightarrow> bytes \<Rightarrow> (rx_event list \<times> rx_event list) list \<Rightarrow> icsp_assoc \<Rightarrow> world \<Rightarrow> bite_end option" where
  "bite_serve N root port sk [] a w = Some Bite_Running"
| "bite_serve N root port sk ((evs, turns) # rounds) a w =
     (case bite_round N root port sk evs turns a w of
        None \<Rightarrow> None
      | Some (Sess_Next a w) \<Rightarrow> bite_serve N root port sk rounds a w
      | Some (Sess_Exit w) \<Rightarrow> Some (Bite_Exit 1 [] w)
      | Some Sess_Running \<Rightarrow> Some Bite_Running)"

definition run_server ::
    "nacl \<Rightarrow> string list \<Rightarrow> bytes \<Rightarrow> (rx_event list \<times> rx_event list) list \<Rightarrow> icsp_assoc \<Rightarrow> world \<Rightarrow> bite_end option" where
  "run_server N argv sk rounds a w =
     (case bite_server_args (drop 3 argv) (''.'', BITE_PORT) of (root, port) \<Rightarrow>
        case announce_tunnel N a w of (a, w) \<Rightarrow> bite_serve N root port sk rounds a w)"

section \<open>The client\<close>

text \<open>The loop until the deadline: exit code, output, world.\<close>

fun bite_fetch_loop ::
    "nacl \<Rightarrow> string \<Rightarrow> string \<Rightarrow> int \<Rightarrow> rx_event list \<Rightarrow> bctx \<Rightarrow> icsp_assoc \<Rightarrow> bool \<Rightarrow> world \<Rightarrow> bite_end option" where
  "bite_fetch_loop N meth path deadline [] c a sent w = Some (if w_time w < deadline then Bite_Running else Bite_Exit 1 [] w)"
| "bite_fetch_loop N meth path deadline (ev # evs) c a sent w =
     (if \<not> w_time w < deadline then Some (Bite_Exit 1 [] w)
      else case bite_fetch_turn N meth path ev (c, a, sent, w) of
             None \<Rightarrow> None
           | Some (Fetch_Next, c, a, sent, w) \<Rightarrow> bite_fetch_loop N meth path deadline evs c a sent w
           | Some (Fetch_Got body, c, a, sent, w) \<Rightarrow> Some (Bite_Exit 0 body w)
           | Some (Fetch_Fail, c, a, sent, w) \<Rightarrow> Some (Bite_Exit 1 [] w))"

definition run_fetch ::
    "nacl \<Rightarrow> string list \<Rightarrow> bytes \<Rightarrow> rx_event list \<Rightarrow> rx_event list \<Rightarrow> icsp_assoc \<Rightarrow> world \<Rightarrow> bite_end option" where
  "run_fetch N argv sk evs turns a w =
     (if length argv < 4 then Some (Bite_Exit 1 [] w)
      else case bite_url (argv ! 3) of
        None \<Rightarrow> Some (Bite_Exit 1 [] w)
      | Some (label, dst, port, path) \<Rightarrow>
          (case icsp_client_handshake N a dst port sk None evs w of
             HS_Wait _ _ \<Rightarrow> Some Bite_Running
           | HS_Ret r a w \<Rightarrow>
               if r < 0 then Some (Bite_Exit 1 [] w)
               else case bite_fetch_start N sk label a w of
                 None \<Rightarrow> None
               | Some (r, c, a, w) \<Rightarrow>
                   if r \<noteq> 0 then Some (Bite_Exit 1 [] w)
                   else bite_fetch_loop N (bite_meth (drop 4 argv)) path (w_time w + 8) turns c a False w))"

section \<open>The tool\<close>

fun remote_opt :: "string list \<Rightarrow> string option \<Rightarrow> string option" where
  "remote_opt (a # b # r) rem = (if a = ''--remote'' then remote_opt r (Some b) else remote_opt (b # r) rem)"
| "remote_opt _ rem = rem"

text \<open>The client uses the first round only.\<close>

definition bite_main ::
    "nacl \<Rightarrow> host_sys \<Rightarrow> string list \<Rightarrow> (rx_event list \<times> rx_event list) list \<Rightarrow> world \<Rightarrow> bite_end option" where
  "bite_main N S argv rounds w =
     (case bite_argv argv of (argv, kf) \<Rightarrow>
        if length argv < 3 then Some (Bite_Exit 1 [] w)
        else case choose_endpoint N (with_keyfile kf S) (remote_opt (drop 3 argv) None) (argv ! 2) w of
          None \<Rightarrow> None
        | Some (Open_Failed w) \<Rightarrow> Some (Bite_Exit 1 [] w)
        | Some (Opened a sk w) \<Rightarrow>
            if argv ! 1 = ''server'' then run_server N argv sk rounds a w
            else if argv ! 1 = ''fetch'' then
              (case rounds of [] \<Rightarrow> Some Bite_Running | (evs, turns) # _ \<Rightarrow> run_fetch N argv sk evs turns a w)
            else Some (Bite_Exit 1 [] w))"

section \<open>A late client\<close>

text \<open>The session's clock runs while the server still waits: a client that connects 20 seconds or more after the wait
  began completes its handshake, and then nothing that it sends is looked at.\<close>

theorem late_client_left:
  assumes "icsp_server_accept N a port sk [] 30 evs (snd (btls_init N BTLS_SERVER (Some sk) None w)) = HS_Ret 0 b v" "w_time w + 20 \<le> w_time v"
  shows "bite_round N root port sk evs turns a w = Some (Sess_Next b v)"
  using assms by (cases turns; cases "btls_init N BTLS_SERVER (Some sk) None w") (simp_all add: bite_round_def)

end
