(* ===== verification/Hub.thy ===== *)
theory Hub
  imports Endpoint
begin

text \<open>
  The group chat of \<^verbatim>\<open>c/examples/icsp_hub.c\<close>: one association per interface, every message of a client
  relayed to all others, accepting, receiving and the keepalive of each slot, and the command
  line. The list of slots is the array up to \<^verbatim>\<open>h.n\<close>; the callback, which looks its slot up by the address
  of the association, gets the slot's number instead, and the slot itself is written back when the
  handler returns.
\<close>

abbreviation (input) HUB_MAX_SLOTS :: nat where "HUB_MAX_SLOTS \<equiv> 8"

record hub_slot =
  hub_assoc :: icsp_assoc
  hub_ifname :: string
  hub_name :: string
  hub_up :: bool

section \<open>Relaying\<close>

definition hub_prefix :: "string \<Rightarrow> bytes" where
  "hub_prefix name = ascii (''['' @ name @ ''] '')"

definition relay_one :: "nacl \<Rightarrow> nat \<Rightarrow> u16 \<Rightarrow> bytes \<Rightarrow> nat \<Rightarrow> hub_slot list \<times> world \<Rightarrow> (hub_slot list \<times> world) option" where
  "relay_one N src sid data j st =
     (case st of (h, w) \<Rightarrow>
        if j = src \<or> \<not> hub_up (h ! j) then Some (h, w)
        else let pre = hub_prefix (hub_name (h ! src))
             in if ICSP_MAX_PAYLOAD \<le> length pre then Some (h, w)
                else case icsp_data_send N (hub_assoc (h ! j)) sid (pre @ take (ICSP_MAX_PAYLOAD - length pre) data) w of
                       None \<Rightarrow> None
                     | Some (_, a, w) \<Rightarrow> Some (h[j := (h ! j)\<lparr>hub_assoc := a\<rparr>], w))"

definition relay_to_others :: "nacl \<Rightarrow> hub_slot list \<Rightarrow> nat \<Rightarrow> u16 \<Rightarrow> bytes \<Rightarrow> world \<Rightarrow> (hub_slot list \<times> world) option" where
  "relay_to_others N h src sid data w = ofold (relay_one N src sid data) [0..<length h] (h, w)"

definition hub_on_data :: "nacl \<Rightarrow> nat \<Rightarrow> hub_slot list data_cb" where
  "hub_on_data N i a sid data w h = map_option (\<lambda>(h, w). (a, w, h)) (relay_to_others N h i sid data w)"

definition broadcast_one :: "nacl \<Rightarrow> u16 \<Rightarrow> bytes \<Rightarrow> nat \<Rightarrow> hub_slot list \<times> world \<Rightarrow> (hub_slot list \<times> world) option" where
  "broadcast_one N sid line i st =
     (case st of (h, w) \<Rightarrow>
        if \<not> hub_up (h ! i) then Some (h, w)
        else case icsp_data_send N (hub_assoc (h ! i)) sid line w of
               None \<Rightarrow> None
             | Some (_, a, w) \<Rightarrow> Some (h[i := (h ! i)\<lparr>hub_assoc := a\<rparr>], w))"

definition hub_broadcast :: "nacl \<Rightarrow> hub_slot list \<Rightarrow> u16 \<Rightarrow> bytes \<Rightarrow> world \<Rightarrow> (hub_slot list \<times> world) option" where
  "hub_broadcast N h sid line w =
     (let line = strip_eol (c_str line)
      in if line = [] then Some (h, w) else ofold (broadcast_one N sid line) [0..<length h] (h, w))"

section \<open>One slot\<close>

text \<open>The slots, the frame buffer and the world; \<open>Hub_Blocked\<close> is an accept that still waits when the events
  are used up.\<close>

datatype hub_step = Hub_Next "hub_slot list" bytes world | Hub_Blocked | Hub_Overrun

definition hub_slot_turn ::
    "nacl \<Rightarrow> u16 \<Rightarrow> bytes \<Rightarrow> bytes list \<Rightarrow> nat \<Rightarrow> rx_event list \<Rightarrow> hub_slot list \<Rightarrow> bytes \<Rightarrow> world \<Rightarrow> hub_step" where
  "hub_slot_turn N port sk peers i evs h buf w =
     (let s = h ! i
      in if evs = [] then Hub_Next h buf w
         else if \<not> hub_up s then
           (case icsp_server_accept N (hub_assoc s) port sk peers 5 evs w of
              HS_Wait a w \<Rightarrow> Hub_Blocked
            | HS_Ret r a w \<Rightarrow>
                Hub_Next (h[i := (if r = 0 then s\<lparr>hub_assoc := a\<lparr>a_hb_interval_s := 6, a_dead_timeout_s := 18,
                                                a_rcv_timeout_ms := 0\<rparr>, hub_up := True\<rparr>
                                  else s\<lparr>hub_assoc := a\<rparr>)]) buf w)
         else let w = at_event (hd evs) w
              in case icsp_recv_frame (hub_assoc s) buf (hd evs) w of (res, a, buf) \<Rightarrow>
                (case res of
                   RF_Err e \<Rightarrow> Hub_Next (h[i := s\<lparr>hub_assoc := a, hub_up := (e = EAGAIN)\<rparr>]) buf w
                 | RF_Noise \<Rightarrow> Hub_Next (h[i := s\<lparr>hub_assoc := a\<rparr>]) buf w
                 | RF_Got plen _ \<Rightarrow>
                     (case icsp_handle_frame N (Some (hub_on_data N i)) a buf (ICSP_OFF + plen) w h of
                        None \<Rightarrow> Hub_Overrun
                      | Some (r, a, w, h) \<Rightarrow>
                          Hub_Next (h[i := (h ! i)\<lparr>hub_assoc := a, hub_up := (r \<noteq> ICSP_POLL_CLOSED \<and> r \<noteq> ICSP_POLL_ERR)\<rparr>]) buf w)))"

fun hub_slots ::
    "nacl \<Rightarrow> u16 \<Rightarrow> bytes \<Rightarrow> bytes list \<Rightarrow> (nat \<Rightarrow> rx_event list) \<Rightarrow> nat list \<Rightarrow> hub_slot list \<Rightarrow> bytes \<Rightarrow> world \<Rightarrow> hub_step" where
  "hub_slots N port sk peers evs [] h buf w = Hub_Next h buf w"
| "hub_slots N port sk peers evs (i # is) h buf w =
     (case hub_slot_turn N port sk peers i (evs i) h buf w of
        Hub_Next h buf w \<Rightarrow> hub_slots N port sk peers evs is h buf w
      | r \<Rightarrow> r)"

definition hub_tick_one :: "nacl \<Rightarrow> nat \<Rightarrow> hub_slot list \<times> world \<Rightarrow> hub_slot list \<times> world" where
  "hub_tick_one N i st =
     (case st of (h, w) \<Rightarrow>
        if \<not> hub_up (h ! i) then (h, w)
        else case icsp_keepalive_tick N (hub_assoc (h ! i)) w of
               (dead, a, w) \<Rightarrow> (h[i := (h ! i)\<lparr>hub_assoc := a, hub_up := \<not> dead\<rparr>], w))"

text \<open>What standard input answers: nothing, its end, or a line.\<close>

datatype hub_stdin = Stdin_None | Stdin_End | Stdin_Line bytes

definition hub_turn ::
    "nacl \<Rightarrow> u16 \<Rightarrow> bytes \<Rightarrow> bytes list \<Rightarrow> hub_stdin \<Rightarrow> (nat \<Rightarrow> rx_event list) \<Rightarrow> bool \<Rightarrow> hub_slot list \<Rightarrow> bytes \<Rightarrow> world \<Rightarrow> bool \<times> hub_step" where
  "hub_turn N port sk peers inp evs use_stdin h buf w =
     (case (case inp of
              Stdin_Line line \<Rightarrow> if use_stdin then hub_broadcast N h 1 line w else Some (h, w)
            | _ \<Rightarrow> Some (h, w)) of
        None \<Rightarrow> (use_stdin, Hub_Overrun)
      | Some (h, w) \<Rightarrow>
          (use_stdin \<and> inp \<noteq> Stdin_End,
           case hub_slots N port sk peers evs [0..<length h] h buf w of
             Hub_Next h buf w \<Rightarrow> (case fold (hub_tick_one N) [0..<length h] (h, w) of (h, w) \<Rightarrow> Hub_Next h buf w)
           | r \<Rightarrow> r))"

definition hub_stop :: "hub_slot list \<Rightarrow> world \<Rightarrow> world" where
  "hub_stop h w = fold (\<lambda>s w. if hub_up s then snd (snd (icsp_shutdown_send (hub_assoc s) w)) else w) h w"

section \<open>The command line\<close>

record hub_opts =
  ho_slots :: "(string \<times> string) list"
  ho_port :: u16
  ho_peers :: "bytes list"

datatype hub_parse = Hub_Args hub_opts | Hub_Help | Hub_Bad | Hub_Stray

text \<open>An interface, with a name behind a colon.\<close>

definition hub_iface :: "string \<Rightarrow> string \<times> string" where
  "hub_iface a =
     (let ifn = takeWhile (\<lambda>c. c \<noteq> CHR '':'') a; rest = drop (length ifn + 1) a
      in if rest \<noteq> [] then (take 15 ifn, take 31 rest) else (a, take 31 a))"

fun hub_args :: "string list \<Rightarrow> hub_opts \<Rightarrow> hub_parse" where
  "hub_args [] opts = Hub_Args opts"
| "hub_args (a # r) opts =
     (if a = ''--help'' \<or> a = ''-h'' then Hub_Help
      else if a = ''--peer'' \<and> r \<noteq> [] then
        (case add_peer (hd r) (ho_peers opts) of
           Peers ps \<Rightarrow> hub_args (tl r) (opts\<lparr>ho_peers := ps\<rparr>)
         | Peer_Bad \<Rightarrow> Hub_Bad
         | Peer_Stray \<Rightarrow> Hub_Stray)
      else if take 1 a = '':'' \<and> tl a \<noteq> [] then hub_args r (opts\<lparr>ho_port := word_of_int (atoi (tl a))\<rparr>)
      else if CHR '':'' \<notin> set a \<and> a \<noteq> [] \<and> is_digit 10 (hd a) then hub_args r (opts\<lparr>ho_port := word_of_int (atoi a)\<rparr>)
      else if HUB_MAX_SLOTS \<le> length (ho_slots opts) then Hub_Bad
      else hub_args r (opts\<lparr>ho_slots := ho_slots opts @ [hub_iface a]\<rparr>))"

definition hub_opts0 :: hub_opts where
  "hub_opts0 = \<lparr>ho_slots = [], ho_port = 6969, ho_peers = []\<rparr>"

text \<open>One endpoint per interface, each with the identity; the system is given as it is at each opening. The
  secret key is the one loaded last.\<close>

fun hub_open :: "nacl \<Rightarrow> (string \<times> string) list \<Rightarrow> host_sys list \<Rightarrow> bytes \<Rightarrow> world \<Rightarrow> (hub_slot list \<times> bytes \<times> world) option option" where
  "hub_open N ((ifname, name) # ifs) (S # Ss) sk w =
     (case icsp_endpoint_open N S ifname w of
        None \<Rightarrow> None
      | Some (Open_Failed w) \<Rightarrow> Some None
      | Some (Opened a sk w) \<Rightarrow>
          map_option (map_option (\<lambda>(h, sk, w). (\<lparr>hub_assoc = a, hub_ifname = ifname, hub_name = name, hub_up = False\<rparr> # h, sk, w)))
            (hub_open N ifs Ss sk w))"
| "hub_open N _ _ sk w = Some (Some ([], sk, w))"

text \<open>The loop over what the turns bring, until a signal stops it.\<close>

datatype hub_end = Hub_Exit int world | Hub_Waits | Hub_Strays

fun hub_loop ::
    "nacl \<Rightarrow> u16 \<Rightarrow> bytes \<Rightarrow> bytes list \<Rightarrow> (hub_stdin \<times> (nat \<Rightarrow> rx_event list)) list \<Rightarrow> bool \<Rightarrow> hub_slot list \<Rightarrow> bytes \<Rightarrow> world \<Rightarrow> hub_end" where
  "hub_loop N port sk peers [] use_stdin h buf w = Hub_Exit 0 (hub_stop h w)"
| "hub_loop N port sk peers ((inp, evs) # turns) use_stdin h buf w =
     (case hub_turn N port sk peers inp evs use_stdin h buf w of
        (use_stdin, Hub_Next h buf w) \<Rightarrow> hub_loop N port sk peers turns use_stdin h buf w
      | (_, Hub_Blocked) \<Rightarrow> Hub_Waits
      | (_, Hub_Overrun) \<Rightarrow> Hub_Strays)"

definition hub_main ::
    "nacl \<Rightarrow> host_sys list \<Rightarrow> string list \<Rightarrow> (hub_stdin \<times> (nat \<Rightarrow> rx_event list)) list \<Rightarrow> bytes \<Rightarrow> world \<Rightarrow> hub_end" where
  "hub_main N Ss argv turns buf w =
     (let (argv, kf) = parse_strip_keyfile argv 1
      in if length argv < 2 then Hub_Exit 1 w
         else case hub_args (drop 1 argv) hub_opts0 of
                Hub_Help \<Rightarrow> Hub_Exit 0 w
              | Hub_Bad \<Rightarrow> Hub_Exit 1 w
              | Hub_Stray \<Rightarrow> Hub_Strays
              | Hub_Args opts \<Rightarrow>
                  if ho_slots opts = [] then Hub_Exit 1 w
                  else case hub_open N (ho_slots opts) (map (with_keyfile kf) Ss) (replicate 64 0) w of
                         None \<Rightarrow> Hub_Strays
                       | Some None \<Rightarrow> Hub_Exit 1 w
                       | Some (Some (h, sk, w)) \<Rightarrow> hub_loop N (ho_port opts) sk (ho_peers opts) turns True h buf w)"

end
