(* ===== verification/Hub_Relay.thy ===== *)
theory Hub_Relay
  imports Hub Icsp_Carry
begin

text \<open>A message of one client, received by the hub in its frame, reaches every other client that is up,
  with the sender's name in front.\<close>

text \<open>The client \<open>r\<close> gets the message from the frame, whatever its buffer holds, and stays in step with \<open>a\<close>.\<close>

definition gets :: "nacl \<Rightarrow> sent \<Rightarrow> icsp_assoc \<Rightarrow> icsp_assoc \<Rightarrow> u16 \<Rightarrow> bytes \<Rightarrow> bool" where
  "gets N F a r sid msg \<longleftrightarrow>
     (\<forall>v junk. \<exists>r'. icsp_data_handle N r (drop 46 (sent_frame F) @ junk) (length (drop 46 (sent_frame F))) 1400 v =
        Some (int (length msg), r', Some (msg, sid)) \<and> linked a r')"

text \<open>A slot whose association can send to the client \<open>r\<close>.\<close>

definition serves :: "hub_slot \<Rightarrow> u16 \<Rightarrow> icsp_assoc \<Rightarrow> bool" where
  "serves s sid r \<longleftrightarrow> linked (hub_assoc s) r \<and> (sid \<in> set (stream_ids (hub_assoc s)) \<or> length (stream_ids (hub_assoc s)) < 8) \<and>
     unat (a_next_tsn (hub_assoc s)) + 1 < 2 ^ 32"

abbreviation (input) "listens h i \<equiv> \<lambda>j. j \<noteq> i \<and> hub_up (h ! j)"

lemma relay_step:
  assumes j: "j \<noteq> i" "hub_up (h ! j)" "serves (h ! j) sid r" and name: "length (hub_name (h ! i)) \<le> 31"
    and data: "length data \<le> 982" and tx: "tx_ok w"
  obtains a w' F where "relay_one N i sid data j (h, w) = Some (h[j := (h ! j)\<lparr>hub_assoc := a\<rparr>], w')"
    "w_out w' = w_out w @ [F]" "tx_ok w'" "gets N F a r sid (hub_prefix (hub_name (h ! i)) @ data)"
proof -
  let ?pre = "hub_prefix (hub_name (h ! i))" and ?a = "hub_assoc (h ! j)"
  have pre: "length ?pre \<le> 34" using name by (simp add: hub_prefix_def)
  have L: "linked ?a r" "length (?pre @ data) \<le> 1016" "\<not> w_txfail w (w_txn w)"
    "sid \<in> set (stream_ids ?a) \<or> length (stream_ids ?a) < 8" "unat (a_next_tsn ?a) + 1 < 2 ^ 32"
    using j(3) pre data tx by (simp_all add: serves_def tx_ok_def)
  obtain s' w' p g d where S:
    "icsp_data_send N ?a sid (?pre @ data) w = Some (sint (a_next_tsn ?a), s', w')" "w_out w' = w_out w @ [pkt_sent g p]" "assoc_wf g"
    "icsp_build_pkt g (icsp_chunk_put ICSP_CHUNK_DATA (48 + length (?pre @ data)) @ d) ICSP_MAX_PAYLOAD = Some p"
    "length d = 48 + length (?pre @ data)" "w_txfail w' = w_txfail w" "a_next_tsn s' = a_next_tsn ?a + 1"
    "stream_ids s' = (if sid \<in> set (stream_ids ?a) then stream_ids ?a else stream_ids ?a @ [sid])"
    "\<And>r v junk. linked ?a r \<Longrightarrow> \<exists>r'. icsp_data_handle N r (p @ junk) (length p) 1400 v = Some (int (length (?pre @ data)), r', Some (?pre @ data, sid)) \<and>
       linked s' r' \<and> (linked r ?a \<longrightarrow> linked r' s') \<and> a_next_tsn r' = a_next_tsn r"
    by (rule linked_send [OF L, of N]) (rule that; assumption)
  have "gets N (pkt_sent g p) s' r sid (?pre @ data)"
    using S(9) [OF L(1)] sent_frame_payload [OF S(3)] unfolding gets_def by metis
  moreover have "relay_one N i sid data j (h, w) = Some (h[j := (h ! j)\<lparr>hub_assoc := s'\<rparr>], w')"
    using j(1,2) pre data S(1) by (simp add: relay_one_def Let_def)
  moreover have "tx_ok w'" using S(6) tx by (simp add: tx_ok_def)
  ultimately show ?thesis using that S(2) by blast
qed

lemma relay_run:
  assumes "distinct js" "set js \<subseteq> {..<length h}" "\<And>j. j \<in> set js \<Longrightarrow> j \<noteq> i \<Longrightarrow> hub_up (h ! j) \<Longrightarrow> serves (h ! j) sid (r j)"
    and name: "length (hub_name (h ! i)) \<le> 31" and data: "length data \<le> 982" and tx: "tx_ok w"
  shows "\<exists>h' w' G. ofold (relay_one N i sid data) js (h, w) = Some (h', w') \<and> tx_ok w' \<and> length h' = length h \<and>
    w_out w' = w_out w @ map G (filter (listens h i) js) \<and> (\<forall>j. j \<notin> set js \<longrightarrow> h' ! j = h ! j) \<and> h' ! i = h ! i \<and>
    (\<forall>j\<in>set (filter (listens h i) js). gets N (G j) (hub_assoc (h' ! j)) (r j) sid (hub_prefix (hub_name (h ! i)) @ data))"
  using assms
proof (induction js arbitrary: h w)
  case Nil
  then show ?case by auto
next
  case (Cons j js)
  show ?case
  proof (cases "j = i \<or> \<not> hub_up (h ! j)")
    case True
    then have "relay_one N i sid data j (h, w) = Some (h, w)" by (simp add: relay_one_def)
    then show ?thesis using Cons.IH [of h w] Cons.prems True by auto
  next
    case False
    obtain a w1 F where S: "relay_one N i sid data j (h, w) = Some (h[j := (h ! j)\<lparr>hub_assoc := a\<rparr>], w1)"
      "w_out w1 = w_out w @ [F]" "tx_ok w1" "gets N F a (r j) sid (hub_prefix (hub_name (h ! i)) @ data)"
      by (rule relay_step [of j i h sid "r j" data w N]) (use False Cons.prems in auto)
    define h1 where "h1 = h[j := (h ! j)\<lparr>hub_assoc := a\<rparr>]"
    have at: "h1 ! k = h ! k" if "k \<noteq> j" for k using that by (simp add: h1_def)
    have i: "h1 ! i = h ! i" using at False by auto
    have hj: "h1 ! j = (h ! j)\<lparr>hub_assoc := a\<rparr>" "length h1 = length h" using Cons.prems(2) by (simp_all add: h1_def)
    have ne: "k \<noteq> j" if "k \<in> set js" for k using that Cons.prems(1) by auto
    have serve: "serves (h1 ! k) sid (r k)" if "k \<in> set js" "k \<noteq> i" "hub_up (h1 ! k)" for k
      using that Cons.prems(3) [of k] at [OF ne [OF that(1)]] by simp
    have "\<exists>h' w' G. ofold (relay_one N i sid data) js (h1, w1) = Some (h', w') \<and> tx_ok w' \<and> length h' = length h1 \<and>
      w_out w' = w_out w1 @ map G (filter (listens h1 i) js) \<and> (\<forall>j. j \<notin> set js \<longrightarrow> h' ! j = h1 ! j) \<and> h' ! i = h1 ! i \<and>
      (\<forall>j\<in>set (filter (listens h1 i) js). gets N (G j) (hub_assoc (h' ! j)) (r j) sid (hub_prefix (hub_name (h1 ! i)) @ data))"
      by (rule Cons.IH) (use Cons.prems serve i S(3) hj(2) in auto)
    then obtain h' w' G where R: "ofold (relay_one N i sid data) js (h1, w1) = Some (h', w')" "tx_ok w'" "length h' = length h1"
      "w_out w' = w_out w1 @ map G (filter (listens h1 i) js)" "\<And>j. j \<notin> set js \<Longrightarrow> h' ! j = h1 ! j" "h' ! i = h1 ! i"
      "\<And>k. k \<in> set (filter (listens h1 i) js) \<Longrightarrow> gets N (G k) (hub_assoc (h' ! k)) (r k) sid (hub_prefix (hub_name (h ! i)) @ data)"
      unfolding i by blast
    have f: "filter (listens h1 i) js = filter (listens h i) js" using at ne by (intro filter_cong) auto
    have nj: "j \<notin> set js" using Cons.prems(1) by simp
    have m: "map (G(j := F)) (filter (listens h i) js) = map G (filter (listens h i) js)" using ne by auto
    have "ofold (relay_one N i sid data) (j # js) (h, w) = Some (h', w')" using S(1) R(1) by (simp add: h1_def)
    moreover have "w_out w' = w_out w @ map (G(j := F)) (filter (listens h i) (j # js))" using R(4) S(2) False m f by simp
    moreover have "gets N ((G(j := F)) k) (hub_assoc (h' ! k)) (r k) sid (hub_prefix (hub_name (h ! i)) @ data)"
      if "k \<in> set (filter (listens h i) (j # js))" for k
    proof (cases "k = j")
      case True
      then show ?thesis using S(4) R(5) [OF nj] hj(1) by simp
    next
      case False
      then have "k \<in> set (filter (listens h1 i) js)" using that by (auto simp: f split: if_splits)
      then show ?thesis using R(7) [of k] False by simp
    qed
    moreover have "h' ! k = h ! k" if "k \<notin> set (j # js)" for k using that R(5) [of k] at [of k] by simp
    ultimately show ?thesis using R(2,3,6) hj(2) i by (intro exI [of _ h'] exI [of _ w'] exI [of _ "G(j := F)"]) auto
  qed
qed

text \<open>C5: A message of up to 982 bytes that a client sends reaches the whole group: the hub's turn on its frame
  sends one frame to every other client that is up, in the order of the slots, each of which delivers
  the sender's name and the message; all stay in step.\<close>

theorem hub_relays:
  assumes i: "i < length h" "hub_up (h ! i)" "a_state (hub_assoc (h ! i)) = ST_ESTABLISHED" "length (hub_name (h ! i)) \<le> 31"
    and sender: "linked s (hub_assoc (h ! i))" "sid \<in> set (stream_ids s) \<or> length (stream_ids s) < 8" "unat (a_next_tsn s) + 1 < 2 ^ 32"
    and clients: "\<And>j. j < length h \<Longrightarrow> j \<noteq> i \<Longrightarrow> hub_up (h ! j) \<Longrightarrow> serves (h ! j) sid (r j)"
    and data: "data \<noteq> []" "length data \<le> 982" and tx: "tx_ok w" "tx_ok v"
  shows "\<exists>F G x s' w' h' buf' v' acks. icsp_data_send N s sid data w = Some (x, s', w') \<and> w_out w' = w_out w @ [F] \<and>
    hub_slot_turn N port sk peers i [rx (sent_frame F) tm ms] h buf v = Hub_Next h' buf' v' \<and>
    w_out v' = w_out v @ map G (filter (listens h i) [0..<length h]) @ acks \<and> hub_up (h' ! i) \<and> linked s' (hub_assoc (h' ! i)) \<and>
    (\<forall>j<length h. listens h i j \<longrightarrow> gets N (G j) (hub_assoc (h' ! j)) (r j) sid (hub_prefix (hub_name (h ! i)) @ data))"
proof -
  let ?b = "hub_assoc (h ! i)"
  define v0 where "v0 = at_event (rx [] tm ms) v"
  have v0: "tx_ok v0" "w_out v0 = w_out v" "w_time v0 = tm" using tx(2) by (simp_all add: v0_def at_event_def rx_def tx_ok_def)
  have L: "length data \<le> 1016" using data by simp
  obtain s' w' F where S: "icsp_data_send N s sid data w = Some (sint (a_next_tsn s), s', w')" "w_out w' = w_out w @ [F]"
    "\<And>buf tm ms v. w_time v = tm \<Longrightarrow> \<exists>n from b1 t r. icsp_recv_frame ?b buf (rx (sent_frame F) tm ms) v = (RF_Got n from, b1, sent_frame F @ t) \<and>
       linked s' r \<and> (\<forall>(f :: hub_slot list data_cb) r' v' u u'. f r sid data v u = Some (r', v', u') \<longrightarrow>
         icsp_handle_frame N (Some f) b1 (sent_frame F @ t) (46 + n) v u = Some (ICSP_POLL_DATA, r', sack_reply r' (a_cum_tsn ?b) v', u'))"
    by (rule frame_received [OF sender(1) i(3) data(1) L tx(1) sender(2,3), where N = N]) (rule that; assumption)
  obtain n "from" b1 t r' where r': "icsp_recv_frame ?b buf (rx (sent_frame F) tm ms) v0 = (RF_Got n from, b1, sent_frame F @ t)" "linked s' r'"
    "\<forall>(f :: hub_slot list data_cb) r'' v' u u'. f r' sid data v0 u = Some (r'', v', u') \<longrightarrow>
         icsp_handle_frame N (Some f) b1 (sent_frame F @ t) (46 + n) v0 u = Some (ICSP_POLL_DATA, r'', sack_reply r'' (a_cum_tsn ?b) v', u')"
    using S(3) [OF v0(3)] by blast
  obtain h1 w1 G where R: "ofold (relay_one N i sid data) [0..<length h] (h, v0) = Some (h1, w1)" "length h1 = length h"
    "w_out w1 = w_out v0 @ map G (filter (listens h i) [0..<length h])" "h1 ! i = h ! i"
    "\<And>j. j < length h \<Longrightarrow> listens h i j \<Longrightarrow> gets N (G j) (hub_assoc (h1 ! j)) (r j) sid (hub_prefix (hub_name (h ! i)) @ data)"
  proof -
    have "\<exists>h1 w1 G. ofold (relay_one N i sid data) [0..<length h] (h, v0) = Some (h1, w1) \<and> tx_ok w1 \<and> length h1 = length h \<and>
      w_out w1 = w_out v0 @ map G (filter (listens h i) [0..<length h]) \<and> (\<forall>j. j \<notin> set [0..<length h] \<longrightarrow> h1 ! j = h ! j) \<and> h1 ! i = h ! i \<and>
      (\<forall>j\<in>set (filter (listens h i) [0..<length h]). gets N (G j) (hub_assoc (h1 ! j)) (r j) sid (hub_prefix (hub_name (h ! i)) @ data))"
      by (rule relay_run) (use clients i(4) data(2) v0(1) in auto)
    then show ?thesis by (elim exE conjE) (rule that, assumption, assumption, assumption, assumption, simp)
  qed
  have "hub_on_data N i r' sid data v0 h = Some (r', w1, h1)" using R(1) by (simp add: hub_on_data_def relay_to_others_def)
  with r'(3) have H: "icsp_handle_frame N (Some (hub_on_data N i)) b1 (sent_frame F @ t) (46 + n) v0 h =
    Some (ICSP_POLL_DATA, r', sack_reply r' (a_cum_tsn ?b) w1, h1)" by blast
  obtain acks where acks: "w_out (sack_reply r' (a_cum_tsn ?b) w1) = w_out w1 @ acks" using sack_reply_out by blast
  define h' where "h' = h1[i := (h1 ! i)\<lparr>hub_assoc := r', hub_up := True\<rparr>]"
  have at: "at_event (rx (sent_frame F) tm ms) v = v0" by (simp add: v0_def at_event_def rx_def)
  have "hub_slot_turn N port sk peers i [rx (sent_frame F) tm ms] h buf v = Hub_Next h' (sent_frame F @ t) (sack_reply r' (a_cum_tsn ?b) w1)"
    using i(2) r'(1) H by (simp add: hub_slot_turn_def at h'_def)
  moreover have "hub_up (h' ! i)" "linked s' (hub_assoc (h' ! i))" using i(1) R(2) r'(2) by (simp_all add: h'_def)
  moreover have "w_out (sack_reply r' (a_cum_tsn ?b) w1) = w_out v @ map G (filter (listens h i) [0..<length h]) @ acks"
    using acks R(3) v0(2) by simp
  moreover have "\<forall>j<length h. listens h i j \<longrightarrow> gets N (G j) (hub_assoc (h' ! j)) (r j) sid (hub_prefix (hub_name (h ! i)) @ data)"
    using R(5) by (auto simp: h'_def)
  ultimately show ?thesis using S(1,2) by blast
qed

definition toy_hub :: "hub_slot list" where
  "toy_hub = map (\<lambda>n. \<lparr>hub_assoc = toy_party, hub_ifname = ''eth0'', hub_name = n, hub_up = True\<rparr>) [''ann'', ''bob'']"

lemma hub_relays_witness:
  "\<exists>F G x s' w' h' buf' v' acks. icsp_data_send toy_nacl toy_party 1 (ascii ''hi'') world0 = Some (x, s', w') \<and> w_out w' = [F] \<and>
    hub_slot_turn toy_nacl 6969 [] [] 0 [rx (sent_frame F) 1 1] toy_hub [] world0 = Hub_Next h' buf' v' \<and>
    w_out v' = G # acks \<and> gets toy_nacl G (hub_assoc (h' ! 1)) toy_party 1 (ascii ''[ann] hi'')"
proof -
  have up: "0 < length toy_hub" "hub_up (toy_hub ! 0)" "a_state (hub_assoc (toy_hub ! 0)) = ST_ESTABLISHED" "length (hub_name (toy_hub ! 0)) \<le> 31"
    by (simp_all add: toy_hub_def toy_party_linked)
  have s: "linked toy_party (hub_assoc (toy_hub ! 0))" "1 \<in> set (stream_ids toy_party) \<or> length (stream_ids toy_party) < 8"
    "unat (a_next_tsn toy_party) + 1 < 2 ^ 32"
    by (simp_all add: toy_hub_def toy_party_linked)
  have c: "serves (toy_hub ! j) 1 toy_party" if "j < length toy_hub" "j \<noteq> 0" "hub_up (toy_hub ! j)" for j
    using that by (auto simp: toy_hub_def less_Suc_eq serves_def toy_party_linked)
  have d: "ascii ''hi'' \<noteq> []" "length (ascii ''hi'') \<le> 982" by (simp_all add: ascii_def)
  have tx: "tx_ok world0" "w_out world0 = []" by (simp_all add: tx_ok_def world0_def)
  have n: "filter (listens toy_hub 0) [0..<length toy_hub] = [1]" by (simp add: toy_hub_def upt_rec)
  have p: "hub_prefix (hub_name (toy_hub ! 0)) @ ascii ''hi'' = ascii ''[ann] hi''" by (simp add: toy_hub_def hub_prefix_def ascii_def)
  have l: "1 < length toy_hub" "listens toy_hub 0 1" by (simp_all add: toy_hub_def)
  obtain F G x s' w' h' buf' v' acks where "icsp_data_send toy_nacl toy_party 1 (ascii ''hi'') world0 = Some (x, s', w')" "w_out w' = [F]"
    "hub_slot_turn toy_nacl 6969 [] [] 0 [rx (sent_frame F) 1 1] toy_hub [] world0 = Hub_Next h' buf' v'"
    "w_out v' = G 1 # acks" "gets toy_nacl (G 1) (hub_assoc (h' ! 1)) toy_party 1 (ascii ''[ann] hi'')"
    using hub_relays [where N = toy_nacl and r = "\<lambda>_. toy_party" and port = 6969 and sk = "[]" and peers = "[]" and tm = 1 and ms = 1 and buf = "[]", OF up s c d tx(1) tx(1)]
      l unfolding n p tx(2) by force
  then show ?thesis by blast
qed

end
