(* ===== verification/Chat.thy ===== *)
theory Chat
  imports Endpoint
begin

text \<open>
  The chat tools of \<^verbatim>\<open>c/examples\<close>: \<^verbatim>\<open>icsp_chat.c\<close> and its small sister on the library, \<^verbatim>\<open>chat_lib.c\<close>. The caller's
  state of the relay is what was printed.
\<close>

definition on_msg :: "bytes data_cb" where
  "on_msg a sid data w out = Some (a, w, out @ data @ [10])"

text \<open>What the tools set on an association after its handshake.\<close>

definition chat_kept :: "icsp_assoc \<Rightarrow> icsp_assoc" where
  "chat_kept a = a\<lparr>a_hb_interval_s := 6, a_dead_timeout_s := 18\<rparr>"

text \<open>The result of a session: an exit code, the next association, or still running when the events end.\<close>

datatype chat_result = Chat_Exit int world bytes | Chat_Again icsp_assoc world bytes | Chat_Running

section \<open>The chat tool\<close>

definition chat_run ::
    "nacl \<Rightarrow> bool \<Rightarrow> (stdin_event list \<times> rx_event) list \<Rightarrow> bytes \<Rightarrow> icsp_assoc \<Rightarrow> relay_in \<Rightarrow> world \<Rightarrow> bytes \<Rightarrow>
      (int \<times> icsp_assoc \<times> world \<times> bytes) option option" where
  "chat_run N tty turns buf a st w out =
     (case icsp_relay N (Some on_msg) tty 1 True turns buf a st w out of
        None \<Rightarrow> None
      | Some (Relay_Wait _ _ _ _) \<Rightarrow> Some None
      | Some (Relay_Ret r a w out) \<Rightarrow>
          Some (Some (if r = ICSP_POLL_ERR then (1, a, w, out)
                      else (case icsp_shutdown_send a w of (_, a, w) \<Rightarrow> (0, a, w, out)))))"

record chat_opts =
  co_remote :: "string option"
  co_peers :: "bytes list"

datatype chat_parse = Chat_Opts chat_opts | Chat_Help | Chat_Bad | Chat_Stray

fun chat_options :: "string list \<Rightarrow> chat_opts \<Rightarrow> chat_parse" where
  "chat_options [] opts = Chat_Opts opts"
| "chat_options (a # r) opts =
     (if a = ''--help'' \<or> a = ''-h'' then Chat_Help
      else if a = ''--remote'' \<and> r \<noteq> [] then chat_options (tl r) (opts\<lparr>co_remote := Some (hd r)\<rparr>)
      else if a = ''--peer'' \<and> r \<noteq> [] then
        (case add_peer (hd r) (co_peers opts) of
           Peers ps \<Rightarrow> chat_options (tl r) (opts\<lparr>co_peers := ps\<rparr>)
         | Peer_Bad \<Rightarrow> Chat_Bad
         | Peer_Stray \<Rightarrow> Chat_Stray)
      else chat_options r opts)"

text \<open>The words after the key file option is taken out and a missing interface is put in; the program then starts
  over with them.\<close>

definition chat_argv :: "string list \<Rightarrow> string list \<times> string option" where
  "chat_argv argv =
     (case parse_strip_keyfile argv 1 of
        (argv, kf) \<Rightarrow>
          (if 3 \<le> length argv \<and> length argv < 30 \<and> parse_looks_like_addr (argv ! 2) then parse_insert_auto_ifname argv else argv, kf))"

text \<open>The port: the first word that is no option and has no colon, unless some word is a colon and a number.\<close>

definition chat_port :: "string list \<Rightarrow> u16" where
  "chat_port args =
     (case find (\<lambda>a. take 1 a = '':'' \<and> tl a \<noteq> []) args of
        Some a \<Rightarrow> word_of_int (atoi (tl a))
      | None \<Rightarrow>
          (case find (\<lambda>a. take 1 a \<noteq> ''-'' \<and> CHR '':'' \<notin> set a) args of
             Some a \<Rightarrow> word_of_int (atoi a)
           | None \<Rightarrow> 6969))"

definition chat_serve ::
    "nacl \<Rightarrow> bool \<Rightarrow> u16 \<Rightarrow> bytes \<Rightarrow> bytes list \<Rightarrow> rx_event list \<Rightarrow> (stdin_event list \<times> rx_event) list \<Rightarrow> bytes \<Rightarrow>
      icsp_assoc \<Rightarrow> relay_in \<Rightarrow> world \<Rightarrow> bytes \<Rightarrow> chat_result option" where
  "chat_serve N tty port sk peers evs turns buf a st w out =
     (case icsp_server_accept N a port sk peers 0 evs w of
        HS_Wait _ _ \<Rightarrow> Some Chat_Running
      | HS_Ret r a w \<Rightarrow>
          if r < 0 then Some (Chat_Exit 1 w out)
          else map_option (\<lambda>x. case x of None \<Rightarrow> Chat_Running | Some (_, a, w, out) \<Rightarrow> Chat_Again a w out)
                 (chat_run N tty turns buf (chat_kept a) st w out))"

definition chat_client ::
    "nacl \<Rightarrow> bool \<Rightarrow> u64 \<Rightarrow> u16 \<Rightarrow> bytes \<Rightarrow> rx_event list \<Rightarrow> (stdin_event list \<times> rx_event) list \<Rightarrow> bytes \<Rightarrow>
      icsp_assoc \<Rightarrow> relay_in \<Rightarrow> world \<Rightarrow> bytes \<Rightarrow> chat_result option" where
  "chat_client N tty dst port sk evs turns buf a st w out =
     (case icsp_client_handshake N a dst port sk None evs w of
        HS_Wait _ _ \<Rightarrow> Some Chat_Running
      | HS_Ret r a w \<Rightarrow>
          if r < 0 then Some (Chat_Exit 1 w out)
          else map_option (\<lambda>x. case x of None \<Rightarrow> Chat_Running | Some (c, a, w, out) \<Rightarrow> Chat_Exit c w out)
                 (chat_run N tty turns buf (chat_kept a) st w out))"

text \<open>The start: an exit code, or the endpoint with what it will do.\<close>

datatype chat_mode = Chat_Server u16 "bytes list" | Chat_Client u64 u16
datatype chat_start = Chat_Stop int | Chat_Start chat_mode icsp_assoc bytes world

definition chat_begin :: "nacl \<Rightarrow> host_sys \<Rightarrow> string list \<Rightarrow> world \<Rightarrow> chat_start option" where
  "chat_begin N S argv w =
     (if length argv < 3 then Some (Chat_Stop 1)
      else case chat_options (drop 3 argv) \<lparr>co_remote = None, co_peers = []\<rparr> of
        Chat_Help \<Rightarrow> Some (Chat_Stop 0)
      | Chat_Bad \<Rightarrow> Some (Chat_Stop 1)
      | Chat_Stray \<Rightarrow> None
      | Chat_Opts opts \<Rightarrow>
          (case choose_endpoint N S (co_remote opts) (argv ! 2) w of
             None \<Rightarrow> None
           | Some (Open_Failed _) \<Rightarrow> Some (Chat_Stop 1)
           | Some (Opened a sk w) \<Rightarrow>
               if argv ! 1 = ''server'' then
                 (case announce_tunnel N a w of
                    (a, w) \<Rightarrow> Some (Chat_Start (Chat_Server (chat_port (drop 3 argv)) (co_peers opts)) a sk w))
               else if argv ! 1 = ''client'' then
                 (case (if length argv < 4 then None else parse_ipv69_addr_port (argv ! 3)) of
                    None \<Rightarrow> Some (Chat_Stop 1)
                  | Some (dst, port) \<Rightarrow> Some (Chat_Start (Chat_Client dst port) a sk w))
               else Some (Chat_Stop 1)))"

definition chat_main :: "nacl \<Rightarrow> host_sys \<Rightarrow> string list \<Rightarrow> world \<Rightarrow> chat_start option" where
  "chat_main N S argv w = (case chat_argv argv of (argv, kf) \<Rightarrow> chat_begin N (with_keyfile kf S) argv w)"

section \<open>The chat on the library\<close>

definition lib_open_endpoint :: "nacl \<Rightarrow> host_sys \<Rightarrow> world \<Rightarrow> opened option" where
  "lib_open_endpoint N S w = choose_endpoint N S None ''auto'' w"

definition lib_main :: "nacl \<Rightarrow> host_sys \<Rightarrow> string list \<Rightarrow> world \<Rightarrow> chat_start option" where
  "lib_main N S argv w =
     (let opened = (\<lambda>k. case lib_open_endpoint N S w of
                          None \<Rightarrow> None
                        | Some (Open_Failed _) \<Rightarrow> Some (Chat_Stop 1)
                        | Some (Opened a sk w) \<Rightarrow> Some (k a sk w))
      in if 2 \<le> length argv \<and> argv ! 1 = ''server'' then
           opened (\<lambda>a sk w. case announce_tunnel N a w of
             (a, w) \<Rightarrow> Chat_Start (Chat_Server (if 3 \<le> length argv \<and> take 1 (argv ! 2) = '':'' \<and> tl (argv ! 2) \<noteq> []
                                              then word_of_int (atoi (tl (argv ! 2))) else 6969) []) a sk w)
         else if 3 \<le> length argv \<and> argv ! 1 = ''client'' then
           (case parse_ipv69_addr_port (argv ! 2) of
              None \<Rightarrow> Some (Chat_Stop 1)
            | Some (dst, port) \<Rightarrow> opened (\<lambda>a sk w. Chat_Start (Chat_Client dst port) a sk w))
         else Some (Chat_Stop 1))"

text \<open>Its server takes the next association however the relay ends; its client's exit code is the sign of the result.\<close>

definition lib_serve ::
    "nacl \<Rightarrow> bool \<Rightarrow> u16 \<Rightarrow> bytes \<Rightarrow> rx_event list \<Rightarrow> (stdin_event list \<times> rx_event) list \<Rightarrow> bytes \<Rightarrow>
      icsp_assoc \<Rightarrow> relay_in \<Rightarrow> world \<Rightarrow> bytes \<Rightarrow> chat_result option" where
  "lib_serve N tty port sk evs turns buf a st w out =
     (case icsp_server_accept N a port sk [] 0 evs w of
        HS_Wait _ _ \<Rightarrow> Some Chat_Running
      | HS_Ret r a w \<Rightarrow>
          if r < 0 then Some (Chat_Exit 1 w out)
          else map_option (\<lambda>x. case x of Relay_Wait _ _ _ _ \<Rightarrow> Chat_Running | Relay_Ret _ a w out \<Rightarrow> Chat_Again a w out)
                 (icsp_relay N (Some on_msg) tty 1 True turns buf (chat_kept a) st w out))"

definition lib_client ::
    "nacl \<Rightarrow> bool \<Rightarrow> u64 \<Rightarrow> u16 \<Rightarrow> bytes \<Rightarrow> rx_event list \<Rightarrow> (stdin_event list \<times> rx_event) list \<Rightarrow> bytes \<Rightarrow>
      icsp_assoc \<Rightarrow> relay_in \<Rightarrow> world \<Rightarrow> bytes \<Rightarrow> chat_result option" where
  "lib_client N tty dst port sk evs turns buf a st w out =
     (case icsp_client_handshake N a dst port sk None evs w of
        HS_Wait _ _ \<Rightarrow> Some Chat_Running
      | HS_Ret r a w \<Rightarrow>
          if r < 0 then Some (Chat_Exit 1 w out)
          else map_option (\<lambda>x. case x of Relay_Wait _ _ _ _ \<Rightarrow> Chat_Running | Relay_Ret r a w out \<Rightarrow> Chat_Exit (if r < 0 then 1 else 0) w out)
                 (icsp_relay N (Some on_msg) tty 1 True turns buf (chat_kept a) st w out))"

end
