(* ===== verification/Chat_Props.thy ===== *)
theory Chat_Props
  imports Chat Icsp_Carry
begin

text \<open>A line typed into one chat tool is printed by the other. The buffer of the relay, between lines,
  is empty.\<close>

definition no_input :: "relay_in \<Rightarrow> bool" where
  "no_input st \<longleftrightarrow> in_len st = 0 \<and> length (in_buf st) = INBUF"

text \<open>A line as it is typed, of one to 1016 bytes.\<close>

definition chat_line :: "bytes \<Rightarrow> bool" where
  "chat_line l \<longleftrightarrow> l \<noteq> [] \<and> length l \<le> 1016 \<and> 0 \<notin> set l \<and> 10 \<notin> set l \<and> last l \<noteq> 13"

lemma strip_line:
  assumes "chat_line l"
  shows "strip_eol (c_str l) = l"
proof -
  have c: "c_str l = l" using assms by (simp add: chat_line_def c_str_def takeWhile_eq_all_conv) blast
  obtain k x where k: "l = k @ [x]" "x \<noteq> 13" "x \<noteq> 10" using assms by (cases l rule: rev_cases) (auto simp: chat_line_def)
  then show ?thesis unfolding c strip_eol_def by simp
qed

lemma typed_found:
  assumes "10 \<notin> set l"
  shows "memchr 10 (l @ [10]) = Some (length l)"
  unfolding memchr_def find_Some_iff using assms by (intro exI [of _ "length l"]) (auto simp: nth_append in_set_conv_nth)

lemma sent_result:
  assumes "unat (t :: u32) + 1 < 2 ^ 32"
  shows "sint t \<noteq> -1"
proof
  assume "sint t = -1"
  then have "word_of_int (sint t) = (word_of_int (-1) :: u32)" by simp
  then have "t = -1" by simp
  then show False using assms by (simp add: unsigned_minus_1_eq_mask mask_eq_exp_minus_1)
qed

text \<open>Reading, finding and sending it: one message is sent, and the buffer is empty again.\<close>

lemma typed_line:
  assumes l: "chat_line l" and st: "no_input st" and send: "icsp_data_send N a sid l w = Some (r, a', w')" "r \<noteq> -1"
  obtains st' where "relay_stdin N tty sid [In_Data (l @ [10])] a st w = Some (\<lparr>ro_ret = 1, ro_use_stdin = True\<rparr>, a', st', w')" "no_input st'"
proof -
  let ?d = "l @ [10]" and ?b = "blit (in_buf st) 0 (l @ [10])"
  have len: "length l \<le> 1016" "10 \<notin> set l" and b: "in_len st = 0" "length (in_buf st) = INBUF" using l st by (auto simp: chat_line_def no_input_def)
  have bl: "?b = ?d @ drop (length ?d) (in_buf st)" by (simp add: blit_def)
  have s: "slice 0 (Suc (length l)) ?b = ?d" "slice 0 (length l) ?b = l" "length ?b = INBUF"
    using len(1) b(2) by (simp_all add: bl slice_eq_take_drop)
  define st' where "st' = \<lparr>in_buf = blit ?b 0 [], in_len = 0\<rparr>"
  have none: "memchr 10 (slice 0 0 (in_buf st)) = None" by (simp add: memchr_def slice_def)
  have take: "take_line \<lparr>in_buf = ?b, in_len = Suc (length l)\<rparr> (length l) = Some (l, st')"
    using len(1) s(2) by (simp add: take_line_def Let_def size_sub_def st'_def slice_def)
  have some: "memchr 10 (slice 0 (Suc (length l)) ?b) = Some (length l)" using typed_found [OF len(2)] by (simp only: s(1))
  have line: "relay_send_line N a sid l w = Some (1, a', w')"
    using send l by (simp add: relay_send_line_def strip_line chat_line_def)
  have "relay_stdin N tty sid [In_Data ?d] a st w = relay_stdin N tty sid [] a \<lparr>in_buf = ?b, in_len = Suc (length l)\<rparr> w"
    using len(1) b none by (subst relay_stdin.simps) simp
  also have "\<dots> = Some (\<lparr>ro_ret = 1, ro_use_stdin = True\<rparr>, a', st', w')"
    by (subst relay_stdin.simps) (simp add: some take line)
  finally show ?thesis
  proof (rule that)
    have "length (blit ?b 0 []) = INBUF" using s(3) by (simp add: blit_def)
    then show "no_input st'" unfolding no_input_def st'_def relay_in.simps by simp
  qed
qed

lemma quiet_stdin: "no_input st \<Longrightarrow> relay_stdin N tty sid [] a st w = Some (\<lparr>ro_ret = 0, ro_use_stdin = True\<rparr>, a, st, w)"
  by (subst relay_stdin.simps) (simp add: no_input_def memchr_def slice_def)

text \<open>C6: A line of up to 1016 bytes typed into one chat tool is sent in one frame, and the other tool, in the
  turn of its relay that receives the frame, prints the line and goes on; both directions stay in step.\<close>

theorem chat_line_arrives:
  assumes ab: "linked a b" and st: "a_state b = ST_ESTABLISHED" and l: "chat_line l" and tx: "tx_ok w"
    and room: "1 \<in> set (stream_ids a) \<or> length (stream_ids a) < 8" and nowrap: "unat (a_next_tsn a) + 1 < 2 ^ 32"
    and in_a: "no_input sa" and in_b: "no_input sb"
  shows "\<exists>F a' sa' w'. relay_stdin N tty 1 [In_Data (l @ [10])] a sa w = Some (\<lparr>ro_ret = 1, ro_use_stdin = True\<rparr>, a', sa', w') \<and>
    no_input sa' \<and> w_out w' = w_out w @ [F] \<and>
    (\<exists>b' buf' v' acks. icsp_relay N (Some on_msg) ttyb 1 True (([], rx (sent_frame F) tm ms) # turns) buf b sb v out =
       icsp_relay N (Some on_msg) ttyb 1 True turns buf' b' sb v' (out @ l @ [10]) \<and>
       w_out v' = w_out v @ acks \<and> linked a' b' \<and> (linked b a \<longrightarrow> linked b' a'))"
proof -
  have d: "l \<noteq> []" "length l \<le> 1016" using l by (simp_all add: chat_line_def)
  define v0 where "v0 = at_event (rx [] tm ms) v"
  obtain a' w' F where S: "icsp_data_send N a 1 l w = Some (sint (a_next_tsn a), a', w')" "w_out w' = w_out w @ [F]"
    "\<And>buf tmo tm ms v. \<exists>n t r. icsp_rx b buf tmo (rx (sent_frame F) tm ms) = Rx_Len n (sent_frame F @ t) \<and> 0 < n \<and>
       linked a' r \<and> (linked b a \<longrightarrow> linked r a') \<and> (\<forall>(f :: bytes data_cb) r' v' u u'. f r 1 l v u = Some (r', v', u') \<longrightarrow>
         icsp_handle_frame N (Some f) b (sent_frame F @ t) n v u = Some (ICSP_POLL_DATA, r', sack_reply r' (a_cum_tsn b) v', u'))"
    by (rule frame_polled [OF ab st d tx room nowrap, where N = N]) (rule that; assumption)
  obtain sa' where A: "relay_stdin N tty 1 [In_Data (l @ [10])] a sa w = Some (\<lparr>ro_ret = 1, ro_use_stdin = True\<rparr>, a', sa', w')" "no_input sa'"
    by (rule typed_line [OF l in_a S(1) sent_result [OF nowrap]])
  obtain n t r where r: "icsp_rx b buf 250 (rx (sent_frame F) tm ms) = Rx_Len n (sent_frame F @ t)" "0 < n" "linked a' r" "linked b a \<longrightarrow> linked r a'"
    "\<forall>(f :: bytes data_cb) r' v' u u'. f r 1 l v0 u = Some (r', v', u') \<longrightarrow>
         icsp_handle_frame N (Some f) b (sent_frame F @ t) n v0 u = Some (ICSP_POLL_DATA, r', sack_reply r' (a_cum_tsn b) v', u')"
    using S(3) [of buf 250 tm ms v0] by blast
  have H: "icsp_handle_frame N (Some on_msg) b (sent_frame F @ t) n v0 out = Some (ICSP_POLL_DATA, r, sack_reply r (a_cum_tsn b) v0, out @ l @ [10])"
    by (rule r(5) [rule_format]) (simp add: on_msg_def)
  obtain acks where acks: "w_out (sack_reply r (a_cum_tsn b) v0) = w_out v0 @ acks" using sack_reply_out by blast
  have at: "at_event (rx (sent_frame F) tm ms) v = v0" by (simp add: v0_def at_event_def rx_def)
  have "icsp_relay N (Some on_msg) ttyb 1 True (([], rx (sent_frame F) tm ms) # turns) buf b sb v out =
      icsp_relay N (Some on_msg) ttyb 1 True turns (sent_frame F @ t) r sb (sack_reply r (a_cum_tsn b) v0) (out @ l @ [10])"
    using r(1,2) H by (simp add: icsp_relay.simps quiet_stdin [OF in_b] at)
  moreover have "w_out v0 = w_out v" by (simp add: v0_def at_event_def rx_def)
  ultimately show ?thesis using A S(2) r(3,4) acks by metis
qed

lemma chat_line_arrives_witness:
  "\<exists>F a' sa' w'. relay_stdin toy_nacl True 1 [In_Data (ascii ''hi'' @ [10])] toy_party relay_in0 world0 = Some (\<lparr>ro_ret = 1, ro_use_stdin = True\<rparr>, a', sa', w') \<and>
    w_out w' = [F] \<and>
    (\<exists>b' v' out. icsp_relay toy_nacl (Some on_msg) True 1 True [([], rx (sent_frame F) 1 1)] [] toy_party relay_in0 world0 [] =
       Some (Relay_Wait b' relay_in0 v' out) \<and> out = ascii ''hi'' @ [10] \<and> linked a' b')"
proof -
  have l: "chat_line (ascii ''hi'')" by (simp add: chat_line_def ascii_def)
  have i: "no_input relay_in0" by (simp add: no_input_def relay_in0_def zeros_def)
  have s: "1 \<in> set (stream_ids toy_party) \<or> length (stream_ids toy_party) < 8" "unat (a_next_tsn toy_party) + 1 < 2 ^ 32"
    by (simp_all add: toy_party_linked)
  have tx: "tx_ok world0" "w_out world0 = []" by (simp_all add: tx_ok_def world0_def)
  show ?thesis
    using chat_line_arrives [where N = toy_nacl and tty = True and ttyb = True and tm = 1 and ms = 1 and turns = "[]" and buf = "[]" and v = world0 and out = "[]",
        OF toy_party_linked(1,2) l tx(1) s i i]
    unfolding tx(2) by (fastforce simp: icsp_relay.simps)
qed

section \<open>The port of the server\<close>

text \<open>The value of an option is taken for the port when it stands in front of it.\<close>

lemma option_value_is_port: "take 1 p \<noteq> ''-'' \<Longrightarrow> CHR '':'' \<notin> set p \<Longrightarrow> CHR '':'' \<notin> set q \<Longrightarrow> chat_port [''--peer'', p, q] = word_of_int (atoi p)"
  by (cases p; cases q) (auto simp: chat_port_def)

end
