(* ===== verification/Tweet_Poly.thy ===== *)
theory Tweet_Poly
  imports Crypto
begin

text \<open>
  Poly1305 as \<^verbatim>\<open>c/lib/ed25519/src/tweetnacl.c\<close> computes it, on 17 limbs of eight bits in words of the
  machine's \<^verbatim>\<open>unsigned long\<close>, and its equivalence with the arithmetic modulo \<open>2^130 - 5\<close>.
\<close>

type_synonym ulong = "64 word"

section \<open>The code\<close>

fun add_limbs :: "ulong \<Rightarrow> ulong list \<Rightarrow> ulong list \<Rightarrow> ulong list" where
  "add_limbs u (h # hs) (c # cs) = ((u + (h + c)) AND 255) # add_limbs (drop_bit 8 (u + (h + c))) hs cs"
| "add_limbs u _ _ = []"

definition add1305 :: "ulong list \<Rightarrow> ulong list \<Rightarrow> ulong list" where
  "add1305 h c = add_limbs 0 h c"

definition minusp :: "ulong list" where
  "minusp = [5, 0, 0, 0, 0, 0, 0, 0, 0, 0, 0, 0, 0, 0, 0, 0, 252]"

text \<open>The key's first half with some bits cleared.\<close>

definition poly_r :: "bytes \<Rightarrow> ulong list" where
  "poly_r k = map2 (\<lambda>m b. ucast b AND m) [255, 255, 255, 15, 252, 255, 255, 15, 252, 255, 255, 15, 252, 255, 255, 15] (slice 0 16 k) @ [0]"

text \<open>Up to 16 bytes of the message with a one behind them.\<close>

definition poly_chunk :: "bytes \<Rightarrow> ulong list" where
  "poly_chunk m = (let c = map ucast (take 16 m) in c @ [1] @ replicate (16 - length c) 0)"

definition mul1305 :: "ulong list \<Rightarrow> ulong list \<Rightarrow> ulong list" where
  "mul1305 h r =
     map (\<lambda>i. \<Sum>j\<leftarrow>[0..<17]. h ! j * (if j \<le> i then r ! (i - j) else 320 * r ! (i + 17 - j))) [0..<17]"

text \<open>One pass of the carry over the limbs, with what is left of it.\<close>

fun carry_limbs :: "ulong \<Rightarrow> ulong list \<Rightarrow> ulong list \<times> ulong" where
  "carry_limbs u [] = ([], u)"
| "carry_limbs u (h # hs) = (case carry_limbs (drop_bit 8 (u + h)) hs of (l, v) \<Rightarrow> (((u + h) AND 255) # l, v))"

definition squeeze1305 :: "ulong list \<Rightarrow> ulong list" where
  "squeeze1305 h =
     (let (l, u) = carry_limbs 0 (take 16 h);
          u = u + h ! 16; top = u AND 3;
          (l, u) = carry_limbs (5 * drop_bit 2 u) l
      in l @ [u + top])"

function poly_loop :: "ulong list \<Rightarrow> bytes \<Rightarrow> ulong list \<Rightarrow> ulong list" where
  "poly_loop r m h = (if m = [] then h else poly_loop r (drop 16 m) (squeeze1305 (mul1305 (add1305 h (poly_chunk m)) r)))"
  by auto
termination by (relation "measure (\<lambda>(r, m, h). length m)") auto

declare poly_loop.simps [simp del]

definition freeze1305 :: "ulong list \<Rightarrow> ulong list" where
  "freeze1305 g =
     (let h = add1305 g minusp; s = - drop_bit 7 (h ! 16)
      in map2 (\<lambda>h g. h XOR (s AND (g XOR h))) h g)"

definition tweet_onetimeauth :: "bytes \<Rightarrow> bytes \<Rightarrow> bytes" where
  "tweet_onetimeauth m k =
     map ucast (take 16 (add1305 (freeze1305 (poly_loop (poly_r k) m (replicate 17 0))) (map ucast (slice 16 16 k) @ [0])))"

section \<open>The specification\<close>

text \<open>The number that a list of limbs stands for.\<close>

primrec le_num :: "'a::len word list \<Rightarrow> nat" where
  "le_num [] = 0"
| "le_num (x # xs) = unat x + 256 * le_num xs"

abbreviation (input) P1305 :: nat where "P1305 \<equiv> 2 ^ 130 - 5"

text \<open>The polynomial over the chunks of a message, from the last coefficient on.\<close>

function poly_eval :: "nat \<Rightarrow> bytes \<Rightarrow> nat \<Rightarrow> nat" where
  "poly_eval r m a = (if m = [] then a else poly_eval r (drop 16 m) ((a + le_num (take 16 m @ [1])) * r mod P1305))"
  by auto
termination by (relation "measure (\<lambda>(r, m, a). length m)") auto

declare poly_eval.simps [simp del]

definition poly1305 :: "bytes \<Rightarrow> bytes \<Rightarrow> nat" where
  "poly1305 m k = (poly_eval (le_num (poly_r k)) m 0 + le_num (slice 16 16 k)) mod 2 ^ 128"

section \<open>Carrying\<close>

lemma limb_word: "unat (x AND 255 :: ulong) = unat x mod 256" "unat (drop_bit 8 x :: ulong) = unat x div 256"
proof -
  have "x AND 255 = take_bit 8 x" by (simp only: take_bit_eq_mask mask_eq_exp_minus_1) simp
  then show "unat (x AND 255) = unat x mod 256" by (simp only: unsigned_take_bit_eq) (simp add: take_bit_eq_mod)
  show "unat (drop_bit 8 x) = unat x div 256" using unsigned_less [of x, where ?'a = nat] by (simp only: unsigned_drop_bit_eq) (simp add: drop_bit_eq_div take_bit_nat_eq_self)
qed

lemma limb_split: "unat (x AND 255 :: ulong) + 256 * unat (drop_bit 8 x) = unat x"
  unfolding limb_word by simp

lemma limb_byte: "unat (x AND 255 :: ulong) < 256"
  unfolding limb_word by simp

definition small :: "ulong list \<Rightarrow> bool" where
  "small h \<longleftrightarrow> (\<forall>x\<in>set h. unat x < 2 ^ 30)"

definition octets :: "ulong list \<Rightarrow> bool" where
  "octets h \<longleftrightarrow> (\<forall>x\<in>set h. unat x < 256)"

lemma octets_small: "octets h \<Longrightarrow> small h"
  by (auto simp: octets_def small_def)

lemma sum_fits:
  assumes "unat (u :: ulong) < 2 ^ 33" "unat (h :: ulong) < 2 ^ 30"
  shows "unat (u + h) = unat u + unat h" "unat (drop_bit 8 (u + h)) < 2 ^ 26"
proof -
  show s: "unat (u + h) = unat u + unat h" using assms by (intro unat_add_lem [THEN iffD1]) simp
  have "unat (drop_bit 8 (u + h)) = (unat u + unat h) div 256" by (simp only: limb_word s)
  then show "unat (drop_bit 8 (u + h)) < 2 ^ 26" using assms by simp
qed

lemma carry_num:
  assumes "unat u < 2 ^ 33" "small h" "carry_limbs u h = (l, v)"
  shows "le_num l + 256 ^ length h * unat v = unat u + le_num h \<and> octets l \<and> length l = length h \<and> (h \<noteq> [] \<longrightarrow> unat v < 2 ^ 26)"
  using assms
proof (induction h arbitrary: u l)
  case Nil
  then show ?case by (simp add: octets_def)
next
  case (Cons x h)
  have x: "unat x < 2 ^ 30" and h: "small h" using Cons.prems(2) by (simp_all add: small_def)
  note F = sum_fits [OF Cons.prems(1) x]
  obtain l' where l: "carry_limbs (drop_bit 8 (u + x)) h = (l', v)" "l = ((u + x) AND 255) # l'"
    using Cons.prems(3) by (auto split: prod.splits)
  have f: "unat (drop_bit 8 (u + x)) < 2 ^ 33" using F(2) by simp
  note IH = Cons.IH [OF f h l(1)]
  have "le_num l + 256 ^ length (x # h) * unat v = unat ((u + x) AND 255) + 256 * (le_num l' + 256 ^ length h * unat v)"
    by (simp add: l(2) algebra_simps)
  also have "\<dots> = unat u + le_num (x # h)" using IH limb_split [of "u + x"] F(1) by simp
  finally show ?case using IH limb_byte [of "u + x"] F(2) l(1) by (cases h) (simp_all add: l(2) octets_def)
qed

lemma octets_bound: "octets h \<Longrightarrow> le_num h < 256 ^ length h"
  by (induction h) (auto simp: octets_def)

lemma le_num_append: "le_num (a @ b) = le_num a + 256 ^ length a * le_num b"
  by (induction a) (simp_all add: algebra_simps)

lemma le_num_replicate [simp]: "le_num (replicate n 0) = 0"
  by (induction n) simp_all

lemma byte_limb: "unat (ucast (x :: u8) :: ulong) = unat x"
  by (simp only: unsigned_ucast_eq) (simp add: take_bit_nat_eq_self_iff less_trans [OF unsigned_less [of x]])

lemma le_num_ucast: "le_num (map (ucast :: u8 \<Rightarrow> ulong) b) = le_num b"
  by (induction b) (simp_all only: list.map le_num.simps byte_limb)

lemma octets_ucast [simp]: "octets (map (ucast :: u8 \<Rightarrow> ulong) b)"
proof -
  have "unat x < 256" for x :: u8 using unsigned_less [of x, where ?'a = nat] by simp
  then show ?thesis by (simp add: octets_def byte_limb)
qed

lemma add_limbs_carry: "length h = length c \<Longrightarrow> add_limbs u h c = fst (carry_limbs u (map2 (+) h c))"
  by (induction u h c rule: add_limbs.induct) (auto split: prod.splits)

lemma plus_limbs:
  assumes "octets h" "octets c" "length h = length c"
  shows "small (map2 (+) h c) \<and> le_num (map2 (+) h c) = le_num h + le_num c"
  using assms(3,1,2)
proof (induction h c rule: list_induct2)
  case (Cons x h y c)
  have "unat x < 256" "unat y < 256" using Cons.prems by (simp_all add: octets_def)
  then have "unat (x + y) = unat x + unat y" by (intro unat_add_lem [THEN iffD1]) simp
  then show ?case using Cons \<open>unat x < 256\<close> \<open>unat y < 256\<close> by (simp add: octets_def small_def)
qed (simp add: small_def)

lemma add1305_num:
  assumes "octets h" "octets c" "length h = 17" "length c = 17"
  shows "le_num (add1305 h c) = (le_num h + le_num c) mod 2 ^ 136" "octets (add1305 h c)" "length (add1305 h c) = 17"
proof -
  obtain l v where l: "carry_limbs 0 (map2 (+) h c) = (l, v)" by fastforce
  have a: "add1305 h c = l" using add_limbs_carry [of h c 0] assms by (simp add: add1305_def l)
  note P = plus_limbs [OF assms(1,2)]
  have z: "unat (0 :: ulong) < 2 ^ 33" by simp
  have C: "le_num l + 2 ^ 136 * unat v = le_num h + le_num c" "octets l" "length l = 17"
    using carry_num [OF z _ l] P assms by (simp_all add: power_mult [of 2 8, simplified])
  have "le_num l < 2 ^ 136" using octets_bound [OF C(2)] by (simp add: C(3))
  then show "le_num (add1305 h c) = (le_num h + le_num c) mod 2 ^ 136" by (simp add: a flip: C(1))
  show "octets (add1305 h c)" "length (add1305 h c) = 17" using C(2,3) a by simp_all
qed

section \<open>Multiplying\<close>

lemma le_num_sum: "le_num h = (\<Sum>i<length h. 256 ^ i * unat (h ! i))"
  by (induction h) (simp_all add: sum.lessThan_Suc_shift sum_distrib_left algebra_simps del: sum.lessThan_Suc)

lemma mod_sum_cong: "(\<And>i. i \<in> A \<Longrightarrow> f i mod m = g i mod m) \<Longrightarrow> (\<Sum>i\<in>A. f i) mod m = (\<Sum>i\<in>A. g i :: nat) mod m"
  by (subst (1 2) mod_sum_eq [symmetric]) simp

text \<open>Shifted coefficients: what does not fit wraps around with the factor 320.\<close>

lemma wrap_row:
  fixes r :: "nat \<Rightarrow> nat"
  assumes "j < 17"
  shows "(\<Sum>i<17. 256 ^ i * (if j \<le> i then r (i - j) else 320 * r (i + 17 - j))) mod P1305 =
    256 ^ j * (\<Sum>i<17. 256 ^ i * r i) mod P1305"
proof -
  have lo: "(\<Sum>i\<in>{j..<17}. 256 ^ i * (if j \<le> i then r (i - j) else 320 * r (i + 17 - j))) = (\<Sum>l<17 - j. 256 ^ (j + l) * r l)"
    using assms by (intro sum.reindex_bij_witness [of _ "\<lambda>l. j + l" "\<lambda>i. i - j"]) auto
  have hi: "(\<Sum>i\<in>{..<j}. 256 ^ i * (if j \<le> i then r (i - j) else 320 * r (i + 17 - j))) = (\<Sum>l\<in>{17 - j..<17}. 256 ^ (l + j - 17) * (320 * r l))"
    using assms by (intro sum.reindex_bij_witness [of _ "\<lambda>l. l + j - 17" "\<lambda>i. i + 17 - j"]) auto
  have k: "256 ^ (l + j - 17) * (320 * r l) mod P1305 = 256 ^ (j + l) * r l mod P1305" if "17 - j \<le> l" for l
  proof -
    have e: "256 ^ (j + l) = 256 ^ (l + j - 17) * (256 :: nat) ^ 17" using that assms by (simp only: power_add [symmetric]) simp
    have "(256 :: nat) ^ 17 * r l mod P1305 = 320 * r l mod P1305" by (rule mod_mult_cong) simp_all
    then show ?thesis unfolding e mult.assoc by (rule mod_mult_cong [OF refl sym])
  qed
  have "(\<Sum>l\<in>{17 - j..<17}. 256 ^ (l + j - 17) * (320 * r l)) mod P1305 = (\<Sum>l\<in>{17 - j..<17}. 256 ^ (j + l) * r l) mod P1305"
    by (rule mod_sum_cong) (use k in auto)
  then have m: "((\<Sum>l<17 - j. 256 ^ (j + l) * r l) + (\<Sum>l\<in>{17 - j..<17}. 256 ^ (l + j - 17) * (320 * r l))) mod P1305 =
      ((\<Sum>l<17 - j. 256 ^ (j + l) * r l) + (\<Sum>l\<in>{17 - j..<17}. 256 ^ (j + l) * r l)) mod P1305"
    by (rule mod_add_cong [OF refl])
  have split: "sum f {..<17} = sum f {..<n} + sum f {n..<17}" if "n \<le> 17" for f :: "nat \<Rightarrow> nat" and n
    using that by (subst sum.union_disjoint [symmetric]) (auto intro: sum.cong)
  have "(\<Sum>i<17. 256 ^ i * (if j \<le> i then r (i - j) else 320 * r (i + 17 - j))) =
      (\<Sum>l<17 - j. 256 ^ (j + l) * r l) + (\<Sum>l\<in>{17 - j..<17}. 256 ^ (l + j - 17) * (320 * r l))"
    unfolding split [OF less_imp_le [OF assms]] lo hi by (rule add.commute)
  moreover have "256 ^ j * (\<Sum>i<17. 256 ^ i * r i) = (\<Sum>l<17 - j. 256 ^ (j + l) * r l) + (\<Sum>l\<in>{17 - j..<17}. 256 ^ (j + l) * r l)"
    unfolding sum_distrib_left mult.assoc [symmetric] power_add [symmetric] by (rule split) simp
  ultimately show ?thesis using m by (simp only:)
qed

lemma unat_sum_words:
  assumes "\<And>j. j \<in> set js \<Longrightarrow> unat (f j :: ulong) \<le> B" "length js * B < 2 ^ 64"
  shows "unat (\<Sum>j\<leftarrow>js. f j) = (\<Sum>j\<leftarrow>js. unat (f j)) \<and> (\<Sum>j\<leftarrow>js. unat (f j)) \<le> length js * B"
  using assms
proof (induction js)
  case (Cons j js)
  have IH: "unat (\<Sum>j\<leftarrow>js. f j) = (\<Sum>j\<leftarrow>js. unat (f j)) \<and> (\<Sum>j\<leftarrow>js. unat (f j)) \<le> length js * B"
    by (rule Cons.IH) (use Cons.prems in auto)
  have j: "unat (f j) \<le> B" by (rule Cons.prems(1)) simp
  have "unat (f j) + unat (\<Sum>j\<leftarrow>js. f j) \<le> length (j # js) * B" using IH j by simp
  then have "unat (f j + (\<Sum>j\<leftarrow>js. f j)) = unat (f j) + unat (\<Sum>j\<leftarrow>js. f j)"
    using Cons.prems(2) by (intro unat_add_lem [THEN iffD1]) simp
  then show ?case using IH j by simp
qed simp

lemma product_fits:
  assumes "unat (a :: ulong) < 256" "unat (b :: ulong) < 256"
  shows "unat (a * b) = unat a * unat b" "unat (a * (320 * b)) = unat a * (320 * unat b)"
    "unat a * unat b \<le> 2 ^ 25" "unat a * (320 * unat b) \<le> 2 ^ 25"
proof -
  have m: "unat a * unat b \<le> 255 * 255" using assms by (intro mult_le_mono) simp_all
  then show "unat a * unat b \<le> 2 ^ 25" "unat a * (320 * unat b) \<le> 2 ^ 25" by simp_all
  show "unat (a * b) = unat a * unat b" using m by (intro unat_mult_lem [THEN iffD1]) simp
  have b: "unat (320 * b) = 320 * unat b" using assms(2) unat_mult_lem [of 320 b] by simp
  have "unat (a * (320 * b)) = unat a * unat (320 * b)" using m b by (intro unat_mult_lem [THEN iffD1]) simp
  then show "unat (a * (320 * b)) = unat a * (320 * unat b)" using b by simp
qed

lemma mul1305_limb:
  assumes "octets h" "octets r" "length h = 17" "length r = 17" "i < 17"
  shows "unat (mul1305 h r ! i) = (\<Sum>j<17. unat (h ! j) * (if j \<le> i then unat (r ! (i - j)) else 320 * unat (r ! (i + 17 - j))))"
    "unat (mul1305 h r ! i) < 2 ^ 30"
proof -
  let ?f = "\<lambda>j. h ! j * (if j \<le> i then r ! (i - j) else 320 * r ! (i + 17 - j))"
  have o: "unat (h ! j) < 256" "unat (r ! j) < 256" if "j < 17" for j using assms that by (simp_all add: octets_def)
  have f: "unat (?f j) = unat (h ! j) * (if j \<le> i then unat (r ! (i - j)) else 320 * unat (r ! (i + 17 - j)))" "unat (?f j) \<le> 2 ^ 25" if "j < 17" for j
  proof -
    have j: "i - j < 17" "\<not> j \<le> i \<Longrightarrow> i + 17 - j < 17" using assms(5) by simp_all
    show "unat (?f j) = unat (h ! j) * (if j \<le> i then unat (r ! (i - j)) else 320 * unat (r ! (i + 17 - j)))" "unat (?f j) \<le> 2 ^ 25"
      using product_fits [OF o(1) [OF that] o(2) [OF j(1)]] product_fits [OF o(1) [OF that] o(2) [OF j(2)]] by (auto simp del: power_numeral)
  qed
  have S: "unat (\<Sum>j\<leftarrow>[0..<17]. ?f j) = (\<Sum>j\<leftarrow>[0..<17]. unat (?f j)) \<and> (\<Sum>j\<leftarrow>[0..<17]. unat (?f j)) \<le> length [0..<17 :: nat] * 2 ^ 25"
    by (rule unat_sum_words) (use f(2) in auto)
  have "mul1305 h r ! i = (\<Sum>j\<leftarrow>[0..<17]. ?f j)" using assms(5) by (simp only: mul1305_def nth_map length_upt) (simp only: nth_upt add_0)
  moreover have "(\<Sum>j\<leftarrow>[0..<17]. unat (?f j)) = (\<Sum>j<17. unat (?f j))"
    by (simp only: interv_sum_list_conv_sum_set_nat atLeast0LessThan [symmetric] set_upt)
  moreover have "\<dots> = (\<Sum>j<17. unat (h ! j) * (if j \<le> i then unat (r ! (i - j)) else 320 * unat (r ! (i + 17 - j))))"
    by (rule sum.cong) (use f(1) in auto)
  ultimately show "unat (mul1305 h r ! i) = (\<Sum>j<17. unat (h ! j) * (if j \<le> i then unat (r ! (i - j)) else 320 * unat (r ! (i + 17 - j))))"
    "unat (mul1305 h r ! i) < 2 ^ 30"
    using S by simp_all
qed

lemma mul1305_num:
  assumes "octets h" "octets r" "length h = 17" "length r = 17"
  shows "le_num (mul1305 h r) mod P1305 = le_num h * le_num r mod P1305" "small (mul1305 h r)" "length (mul1305 h r) = 17"
proof -
  let ?H = "\<lambda>i. unat (h ! i)" and ?R = "\<lambda>i. unat (r ! i)"
  show l: "length (mul1305 h r) = 17" by (simp add: mul1305_def)
  show "small (mul1305 h r)" using mul1305_limb(2) [OF assms] l by (auto simp: small_def in_set_conv_nth)
  have a: "le_num (mul1305 h r) = (\<Sum>i<17. 256 ^ i * (\<Sum>j<17. ?H j * (if j \<le> i then ?R (i - j) else 320 * ?R (i + 17 - j))))"
    unfolding le_num_sum l by (rule sum.cong) (use mul1305_limb(1) [OF assms] in auto)
  have b: "\<dots> = (\<Sum>j<17. ?H j * (\<Sum>i<17. 256 ^ i * (if j \<le> i then ?R (i - j) else 320 * ?R (i + 17 - j))))"
    unfolding sum_distrib_left by (subst sum.swap) (intro sum.cong refl mult.left_commute)
  have c: "(\<Sum>j<17. ?H j * (\<Sum>i<17. 256 ^ i * (if j \<le> i then ?R (i - j) else 320 * ?R (i + 17 - j)))) mod P1305 =
      (\<Sum>j<17. ?H j * (256 ^ j * (\<Sum>i<17. 256 ^ i * ?R i))) mod P1305"
    by (rule mod_sum_cong, rule mod_mult_cong [OF refl], rule wrap_row) simp
  have d: "(\<Sum>j<17. ?H j * (256 ^ j * (\<Sum>i<17. 256 ^ i * ?R i))) = le_num h * le_num r"
    unfolding le_num_sum assms(3,4) sum_distrib_right by (intro sum.cong refl) (simp only: mult_ac)
  show "le_num (mul1305 h r) mod P1305 = le_num h * le_num r mod P1305" unfolding a b c d by (rule refl)
qed

section \<open>Reducing\<close>

lemma last_limb:
  assumes "length h = 17"
  shows "le_num h = le_num (take 16 h) + 2 ^ 128 * unat (h ! 16)"
proof -
  have "h = take 16 h @ [h ! 16]" using assms by (simp add: take_Suc_conv_app_nth [symmetric] flip: take_Suc)
  then have "le_num h = le_num (take 16 h @ [h ! 16])" by (rule arg_cong)
  then show ?thesis using assms by (simp add: le_num_append)
qed

lemma top_word: "unat (x AND 3 :: ulong) = unat x mod 4" "unat (drop_bit 2 x :: ulong) = unat x div 4" "unat (drop_bit 7 x :: ulong) = unat x div 128"
proof -
  have "x AND 3 = take_bit 2 x" by (simp only: take_bit_eq_mask mask_eq_exp_minus_1) simp
  then show "unat (x AND 3) = unat x mod 4" by (simp only: unsigned_take_bit_eq) (simp add: take_bit_eq_mod)
  show "unat (drop_bit 2 x) = unat x div 4" "unat (drop_bit 7 x) = unat x div 128"
    using unsigned_less [of x, where ?'a = nat] by (simp_all only: unsigned_drop_bit_eq) (simp_all add: drop_bit_eq_div take_bit_nat_eq_self)
qed

definition reduced :: "ulong list \<Rightarrow> bool" where
  "reduced h \<longleftrightarrow> octets h \<and> length h = 17 \<and> le_num h < 2 ^ 130 + 2 ^ 32"

lemma squeeze1305_num:
  assumes "small h" "length h = 17"
  shows "reduced (squeeze1305 h) \<and> le_num (squeeze1305 h) mod P1305 = le_num h mod P1305"
proof -
  obtain l u where l: "carry_limbs 0 (take 16 h) = (l, u)" by fastforce
  define t where "t = u + h ! 16"
  obtain k v where k: "carry_limbs (5 * drop_bit 2 t) l = (k, v)" by fastforce
  have s: "small (take 16 h)" "unat (h ! 16) < 2 ^ 30" using assms set_take_subset [of 16 h] by (auto simp: small_def)
  have z: "unat (0 :: ulong) < 2 ^ 33" by simp
  have ne: "take 16 h \<noteq> []" using assms(2) by auto
  have C: "le_num l + 2 ^ 128 * unat u = le_num (take 16 h)" "octets l" "length l = 16" "unat u < 2 ^ 26"
    using carry_num [OF z s(1) l] ne assms(2) by simp_all
  have t: "unat t = unat u + unat (h ! 16)" unfolding t_def using C(4) s(2) by (intro unat_add_lem [THEN iffD1]) simp
  have q: "unat t div 4 < 2 ^ 29" using t C(4) s(2) by simp
  have f: "unat (5 * drop_bit 2 t) = 5 * (unat t div 4)"
    using q unat_mult_lem [of 5 "drop_bit 2 t"] by (simp add: top_word)
  have D: "le_num k + 2 ^ 128 * unat v = 5 * (unat t div 4) + le_num l" "octets k" "length k = 16" "unat v < 2 ^ 26"
    using carry_num [OF _ octets_small [OF C(2)] k] f q C(3) by auto
  have b: "le_num l < 2 ^ 128" using octets_bound [OF C(2)] C(3) by simp
  have v: "unat v \<le> 1" using D(1) q b by simp
  have m4: "unat t mod 4 < 4" by simp
  then have "unat v + unat (t AND 3) < 2 ^ 64" unfolding top_word using v by simp
  then have w: "unat (v + (t AND 3)) = unat v + unat t mod 4" unfolding top_word [symmetric] by (intro unat_add_lem [THEN iffD1]) simp
  have e: "squeeze1305 h = k @ [v + (t AND 3)]" using l k by (simp add: squeeze1305_def t_def)
  have n: "le_num (squeeze1305 h) = 5 * (unat t div 4) + le_num l + 2 ^ 128 * (unat t mod 4)"
    using D(1) by (simp add: e le_num_append D(3) w distrib_left)
  have o: "octets (squeeze1305 h)" using D(2) v w by (simp add: e octets_def)
  have B: "5 * a + c + 2 ^ 128 * x < 2 ^ 130 + (2 ^ 32 :: nat)" if "a < 2 ^ 29" "c < 2 ^ 128" "x \<le> 3" for a c x :: nat
    using that by simp
  have "unat t mod 4 \<le> 3" using m4 by linarith
  then have "le_num (squeeze1305 h) < 2 ^ 130 + 2 ^ 32" unfolding n by (rule B [OF q b])
  then have "reduced (squeeze1305 h)" using o D(3) by (simp add: reduced_def e)
  moreover have "c + 2 ^ 128 * (4 * a + x) = 5 * a + c + 2 ^ 128 * x + P1305 * a" for a c x :: nat by simp
  moreover have "le_num h = le_num l + 2 ^ 128 * (4 * (unat t div 4) + unat t mod 4)"
    using last_limb [OF assms(2)] C(1) t by (simp only: mult_div_mod_eq distrib_left add.assoc)
  ultimately show ?thesis by (simp only: n mod_mult_self2)
qed

section \<open>The whole message\<close>

lemma poly_chunk_num:
  "le_num (poly_chunk m) = le_num (take 16 m @ [1])" "octets (poly_chunk m)" "length (poly_chunk m) = 17" "le_num (poly_chunk m) \<le> 2 ^ 129"
proof -
  have o: "octets (map (ucast :: u8 \<Rightarrow> ulong) (take 16 m))" by simp
  show n: "le_num (poly_chunk m) = le_num (take 16 m @ [1])"
    by (simp add: poly_chunk_def Let_def le_num_append le_num_ucast)
  show "octets (poly_chunk m)" using o by (auto simp: poly_chunk_def Let_def octets_def)
  show "length (poly_chunk m) = 17" by (simp add: poly_chunk_def Let_def min_def)
  have "le_num (take 16 m) < 256 ^ length (take 16 m)" using octets_bound [OF o] by (simp only: le_num_ucast length_map)
  moreover have "256 ^ length (take 16 m) \<le> (256 :: nat) ^ 16" by (rule power_increasing) simp_all
  ultimately show "le_num (poly_chunk m) \<le> 2 ^ 129" unfolding n by (simp add: le_num_append)
qed

lemma poly_r_num: "octets (poly_r k)" "length (poly_r k) = 17"
proof -
  have "unat (ucast (b :: u8) AND m :: ulong) < 256" for b m
  proof -
    have "unat (ucast b AND 255 :: ulong) = unat (ucast b :: ulong)" using unsigned_less [of b, where ?'a = nat] by (simp add: limb_word byte_limb)
    then have e: "ucast b AND 255 = (ucast b :: ulong)" by (simp only: word_unat_eq_iff)
    have "(ucast b AND m) AND 255 = (ucast b AND 255 :: ulong) AND m" by (simp only: and.assoc and.commute [of m 255])
    then have "(ucast b AND m) AND 255 = (ucast b AND m :: ulong)" by (simp only: e)
    then show ?thesis using limb_byte [of "ucast b AND m"] by simp
  qed
  then show "octets (poly_r k)" by (auto simp: poly_r_def octets_def set_zip)
  show "length (poly_r k) = 17" by (simp add: poly_r_def)
qed

lemma poly_step:
  assumes "reduced h"
  shows "reduced (squeeze1305 (mul1305 (add1305 h (poly_chunk m)) (poly_r k))) \<and>
    le_num (squeeze1305 (mul1305 (add1305 h (poly_chunk m)) (poly_r k))) mod P1305 =
      (le_num h mod P1305 + le_num (take 16 m @ [1])) * le_num (poly_r k) mod P1305"
proof -
  let ?g = "add1305 h (poly_chunk m)"
  have h: "octets h" "length h = 17" "le_num h < 2 ^ 130 + 2 ^ 32" using assms by (simp_all add: reduced_def)
  have A: "le_num ?g = le_num h + le_num (take 16 m @ [1])" "octets ?g" "length ?g = 17"
    using add1305_num [OF h(1) poly_chunk_num(2) h(2) poly_chunk_num(3)] h(3) poly_chunk_num(1,4) [of m] by simp_all
  note M = mul1305_num [OF A(2) poly_r_num(1) A(3) poly_r_num(2), of k]
  note S = squeeze1305_num [OF M(2,3)]
  have E: "(le_num h + le_num (take 16 m @ [1])) * le_num (poly_r k) mod P1305 = (le_num h mod P1305 + le_num (take 16 m @ [1])) * le_num (poly_r k) mod P1305"
    by (intro mod_mult_cong refl) (simp only: mod_add_left_eq)
  show ?thesis unfolding S [THEN conjunct2] M(1) A(1) by (rule conjI [OF S [THEN conjunct1] E])
qed

lemma poly_loop_num:
  "reduced h \<Longrightarrow> reduced (poly_loop (poly_r k) m h) \<and>
    le_num (poly_loop (poly_r k) m h) mod P1305 = poly_eval (le_num (poly_r k)) m (le_num h mod P1305)"
proof (induction "poly_r k" m h rule: poly_loop.induct)
  case (1 m h)
  then show ?case
  proof (cases "m = []")
    case True
    then show ?thesis using 1(2) by (simp add: poly_loop.simps poly_eval.simps)
  next
    case False
    note P = poly_step [OF 1(2), of m k]
    show ?thesis using 1(1) [OF False] P False by (subst (1 2) poly_loop.simps, subst poly_eval.simps) (simp only: if_False)
  qed
qed

section \<open>The last reduction\<close>

lemma freeze_select:
  assumes "length h = length g"
  shows "map2 (\<lambda>h g. h XOR (0 AND (g XOR h))) h g = h" "map2 (\<lambda>h g :: ulong. h XOR (- 1 AND (g XOR h))) h g = g"
proof -
  have x: "a XOR (b XOR a) = (b :: ulong)" for a b by (rule bit_word_eqI) (auto simp: bit_xor_iff)
  show "map2 (\<lambda>h g. h XOR (0 AND (g XOR h))) h g = h" "map2 (\<lambda>h g :: ulong. h XOR (- 1 AND (g XOR h))) h g = g"
    using assms by (induction h g rule: list_induct2) (simp_all add: x)
qed

lemma freeze1305_num:
  assumes "reduced g"
  shows "le_num (freeze1305 g) = le_num g mod P1305 \<and> octets (freeze1305 g) \<and> length (freeze1305 g) = 17"
proof -
  let ?h = "add1305 g minusp"
  have g: "octets g" "length g = 17" "le_num g < 2 ^ 130 + 2 ^ 32" using assms by (simp_all add: reduced_def)
  have m: "octets minusp" "length minusp = 17" "le_num minusp = 2 ^ 136 - P1305" by (simp_all add: minusp_def octets_def)
  note A = add1305_num [OF g(1) m(1) g(2) m(2)]
  have t: "octets (take 16 ?h)" using A(2) set_take_subset [of 16 ?h] by (auto simp: octets_def)
  have L: "le_num (take 16 ?h) < 2 ^ 128" using octets_bound [OF t] A(3) by simp
  have H: "le_num ?h = le_num (take 16 ?h) + 2 ^ 128 * unat (?h ! 16)" by (rule last_limb [OF A(3)])
  have o: "unat (?h ! 16) < 256" using A(2,3) by (simp add: octets_def)
  show ?thesis
  proof (cases "P1305 \<le> le_num g")
    case True
    then have v: "le_num ?h = le_num g - P1305" using A(1) g(3) unfolding m(3) by (simp add: mod_if)
    then have "unat (?h ! 16) = 0" using H g(3) by simp
    then have "?h ! 16 = 0" by (simp add: unat_eq_0)
    then have "freeze1305 g = ?h" using freeze_select(1) [of ?h g] A(3) g(2) by (simp add: freeze1305_def)
    then show ?thesis using A(2,3) v g(3) True by (simp add: mod_if)
  next
    case False
    then have v: "le_num ?h = le_num g + (2 ^ 136 - P1305)" using A(1) unfolding m(3) by simp
    then have "128 \<le> unat (?h ! 16)" using H L by simp
    then have "unat (drop_bit 7 (?h ! 16)) = 1" using o by (simp add: top_word)
    then have "drop_bit 7 (?h ! 16) = 1" by (metis unat_1 word_unat_eq_iff)
    then have "freeze1305 g = g" using freeze_select(2) [of ?h g] A(3) g(2) by (simp add: freeze1305_def)
    then show ?thesis using g False by simp
  qed
qed

lemma onetimeauth_poly1305: "le_num (tweet_onetimeauth m k) = poly1305 m k \<and> length (tweet_onetimeauth m k) = 16"
proof -
  let ?p = "poly_loop (poly_r k) m (replicate 17 0)" and ?s = "map ucast (slice 16 16 k) @ [0] :: ulong list"
  have "reduced (replicate 17 0)" by (simp add: reduced_def octets_def)
  then have p: "reduced ?p" "le_num ?p mod P1305 = poly_eval (le_num (poly_r k)) m 0" using poly_loop_num [of "replicate 17 0" k m] by simp_all
  note F = freeze1305_num [OF p(1), unfolded p(2)]
  have s: "octets ?s" "length ?s = 17" "le_num ?s = le_num (slice 16 16 k)"
    using octets_ucast [of "slice 16 16 k"] by (simp_all add: octets_def le_num_append le_num_ucast)
  let ?t = "add1305 (freeze1305 ?p) ?s"
  have A: "le_num ?t = (poly_eval (le_num (poly_r k)) m 0 + le_num (slice 16 16 k)) mod 2 ^ 136" "octets ?t" "length ?t = 17"
    using add1305_num [OF _ s(1) _ s(2), of "freeze1305 ?p"] F s(3) by simp_all
  have u: "le_num (map (ucast :: ulong \<Rightarrow> u8) x) = le_num x" if "octets x" for x
    using that by (induction x) (simp_all add: octets_def unsigned_ucast_eq take_bit_nat_eq_self)
  have t: "octets (take 16 ?t)" using A(2) set_take_subset [of 16 ?t] by (auto simp: octets_def)
  have "le_num (take 16 ?t) < 2 ^ 128" using octets_bound [OF t] A(3) by simp
  then have "le_num (take 16 ?t) = le_num ?t mod 2 ^ 128" by (simp add: last_limb [OF A(3)])
  also have "\<dots> = poly1305 m k" unfolding A(1) poly1305_def by (simp add: mod_mod_cancel)
  finally show ?thesis using u [OF t] A(3) by (simp add: tweet_onetimeauth_def)
qed

text \<open>C31: Poly1305 of the code is Poly1305: the tag, read as a number, is the polynomial over the chunks of the
  message, evaluated at the clamped half of the key modulo \<open>2^130 - 5\<close>, plus the other half, modulo \<open>2^128\<close>;
  no word wraps around in between.\<close>

theorem poly1305_correct: "le_num (tweet_onetimeauth m k) = poly1305 m k \<and> length (tweet_onetimeauth m k) = 16"
  by (rule onetimeauth_poly1305)

end
