(* ===== verification/Tweet_Salsa.thy ===== *)
theory Tweet_Salsa
  imports Tweet_Poly
begin

text \<open>
  Salsa20, HSalsa20 and the XSalsa20 stream of \<^verbatim>\<open>c/lib/ed25519/src/tweetnacl.c\<close>. The code computes 32-bit
  words in the machine's \<^verbatim>\<open>unsigned long\<close> of 64 bits, turns the matrix after every round, and
  produces the stream block by block; it is equivalent to the definition of Salsa20 on 32-bit words.
\<close>

section \<open>The code\<close>

definition L32 :: "ulong \<Rightarrow> nat \<Rightarrow> ulong" where
  "L32 x c = push_bit c x OR drop_bit (32 - c) (x AND 0xffffffff)"

definition ld32 :: "bytes \<Rightarrow> ulong" where
  "ld32 x =
     (let u = ucast (bget x 3); u = push_bit 8 u OR ucast (bget x 2); u = push_bit 8 u OR ucast (bget x 1)
      in push_bit 8 u OR ucast (bget x 0))"

definition st32 :: "ulong \<Rightarrow> bytes" where
  "st32 u = [ucast u, ucast (drop_bit 8 u), ucast (drop_bit 16 u), ucast (drop_bit 24 u)]"

definition core_quarter :: "ulong \<times> ulong \<times> ulong \<times> ulong \<Rightarrow> ulong \<times> ulong \<times> ulong \<times> ulong" where
  "core_quarter t =
     (case t of (t0, t1, t2, t3) \<Rightarrow>
        let t1 = t1 XOR L32 (t0 + t3) 7;
            t2 = t2 XOR L32 (t1 + t0) 9;
            t3 = t3 XOR L32 (t2 + t1) 13;
            t0 = t0 XOR L32 (t3 + t2) 18
        in (t0, t1, t2, t3))"

text \<open>One column, written to a row of \<open>w\<close>.\<close>

definition core_column :: "ulong list \<Rightarrow> nat \<Rightarrow> ulong list \<Rightarrow> ulong list" where
  "core_column x j w =
     (let t = (\<lambda>m. x ! ((5 * j + 4 * m) mod 16)); at = (\<lambda>m. 4 * j + (j + m) mod 4)
      in case core_quarter (t 0, t 1, t 2, t 3) of
           (t0, t1, t2, t3) \<Rightarrow> w[at 0 := t0, at 1 := t1, at 2 := t2, at 3 := t3])"

text \<open>All of \<open>w\<close> is written before it is read.\<close>

definition core_round :: "ulong list \<Rightarrow> ulong list" where
  "core_round x = fold (core_column x) [0, 1, 2, 3] x"

definition core_input :: "bytes \<Rightarrow> bytes \<Rightarrow> bytes \<Rightarrow> ulong list" where
  "core_input inp k c =
     (let l = (\<lambda>b i. ld32 (drop (4 * i) b))
      in [l c 0, l k 0, l k 1, l k 2, l k 3, l c 1, l inp 0, l inp 1, l inp 2, l inp 3, l c 2, l k 4, l k 5, l k 6, l k 7, l c 3])"

definition crypto_core_salsa20 :: "bytes \<Rightarrow> bytes \<Rightarrow> bytes \<Rightarrow> bytes" where
  "crypto_core_salsa20 inp k c =
     (let y = core_input inp k c; x = (core_round ^^ 20) y in concat (map2 (\<lambda>x y. st32 (x + y)) x y))"

definition crypto_core_hsalsa20 :: "bytes \<Rightarrow> bytes \<Rightarrow> bytes \<Rightarrow> bytes" where
  "crypto_core_hsalsa20 inp k c =
     (let y = core_input inp k c; x = map2 (+) ((core_round ^^ 20) y) y;
          x = fold (\<lambda>i x. x[5 * i := x ! (5 * i) - ld32 (drop (4 * i) c), 6 + i := x ! (6 + i) - ld32 (drop (4 * i) inp)]) [0, 1, 2, 3] x
      in concat (map (\<lambda>i. st32 (x ! (5 * i))) [0, 1, 2, 3]) @ concat (map (\<lambda>i. st32 (x ! (6 + i))) [0, 1, 2, 3]))"

definition sigma :: bytes where "sigma = ascii ''expand 32-byte k''"

text \<open>The block counter.\<close>

fun bump :: "ulong \<Rightarrow> bytes \<Rightarrow> bytes" where
  "bump u [] = []"
| "bump u (z # zs) = (let u = u + ucast z in ucast u # bump (drop_bit 8 u) zs)"

function salsa20_loop :: "bytes \<Rightarrow> bytes \<Rightarrow> bytes \<Rightarrow> bytes" where
  "salsa20_loop k z m =
     (if 64 \<le> length m
      then map2 (XOR) (take 64 m) (crypto_core_salsa20 z k sigma) @ salsa20_loop k (take 8 z @ bump 1 (drop 8 z)) (drop 64 m)
      else if m \<noteq> [] then map2 (XOR) m (crypto_core_salsa20 z k sigma) else [])"
  by auto
termination by (relation "measure (\<lambda>(k, z, m). length m)") auto

declare salsa20_loop.simps [simp del]

definition crypto_stream_salsa20_xor :: "bytes \<Rightarrow> bytes \<Rightarrow> bytes \<Rightarrow> bytes" where
  "crypto_stream_salsa20_xor m n k = salsa20_loop k (slice 0 8 n @ zeros 8) m"

definition tweet_stream_xor :: "bytes \<Rightarrow> bytes \<Rightarrow> bytes \<Rightarrow> bytes" where
  "tweet_stream_xor m n k = crypto_stream_salsa20_xor m (drop 16 n) (crypto_core_hsalsa20 n k sigma)"

section \<open>Salsa20 on 32-bit words\<close>

definition quarterround :: "u32 \<times> u32 \<times> u32 \<times> u32 \<Rightarrow> u32 \<times> u32 \<times> u32 \<times> u32" where
  "quarterround y =
     (case y of (y0, y1, y2, y3) \<Rightarrow>
        let z1 = y1 XOR word_rotl 7 (y0 + y3);
            z2 = y2 XOR word_rotl 9 (z1 + y0);
            z3 = y3 XOR word_rotl 13 (z2 + z1);
            z0 = y0 XOR word_rotl 18 (z3 + z2)
        in (z0, z1, z2, z3))"

definition rowround :: "u32 list \<Rightarrow> u32 list" where
  "rowround y =
     (let (z0, z1, z2, z3) = quarterround (y ! 0, y ! 1, y ! 2, y ! 3);
          (z5, z6, z7, z4) = quarterround (y ! 5, y ! 6, y ! 7, y ! 4);
          (z10, z11, z8, z9) = quarterround (y ! 10, y ! 11, y ! 8, y ! 9);
          (z15, z12, z13, z14) = quarterround (y ! 15, y ! 12, y ! 13, y ! 14)
      in [z0, z1, z2, z3, z4, z5, z6, z7, z8, z9, z10, z11, z12, z13, z14, z15])"

definition columnround :: "u32 list \<Rightarrow> u32 list" where
  "columnround x =
     (let (y0, y4, y8, y12) = quarterround (x ! 0, x ! 4, x ! 8, x ! 12);
          (y5, y9, y13, y1) = quarterround (x ! 5, x ! 9, x ! 13, x ! 1);
          (y10, y14, y2, y6) = quarterround (x ! 10, x ! 14, x ! 2, x ! 6);
          (y15, y3, y7, y11) = quarterround (x ! 15, x ! 3, x ! 7, x ! 11)
      in [y0, y1, y2, y3, y4, y5, y6, y7, y8, y9, y10, y11, y12, y13, y14, y15])"

definition doubleround :: "u32 list \<Rightarrow> u32 list" where
  "doubleround x = rowround (columnround x)"

definition le_word :: "bytes \<Rightarrow> u32" where
  "le_word b = word_of_nat (le_num (slice 0 4 b))"

definition le_bytes :: "nat \<Rightarrow> nat \<Rightarrow> bytes" where
  "le_bytes l n = map (\<lambda>i. word_of_nat (n div 256 ^ i)) [0..<l]"

definition salsa_input :: "bytes \<Rightarrow> bytes \<Rightarrow> u32 list" where
  "salsa_input inp k =
     (let l = (\<lambda>b i. le_word (drop (4 * i) b))
      in [l sigma 0, l k 0, l k 1, l k 2, l k 3, l sigma 1, l inp 0, l inp 1, l inp 2, l inp 3, l sigma 2,
          l k 4, l k 5, l k 6, l k 7, l sigma 3])"

definition salsa20 :: "bytes \<Rightarrow> bytes \<Rightarrow> bytes" where
  "salsa20 inp k = concat (map2 (\<lambda>x y. le_bytes 4 (unat (x + y))) ((doubleround ^^ 10) (salsa_input inp k)) (salsa_input inp k))"

definition hsalsa20 :: "bytes \<Rightarrow> bytes \<Rightarrow> bytes" where
  "hsalsa20 inp k = (let x = (doubleround ^^ 10) (salsa_input inp k)
     in concat (map (\<lambda>i. le_bytes 4 (unat (x ! i))) [0, 5, 10, 15, 6, 7, 8, 9]))"

text \<open>The byte of the XSalsa20 stream at an index, for a nonce of 24 bytes.\<close>

definition xsalsa20 :: "bytes \<Rightarrow> bytes \<Rightarrow> nat \<Rightarrow> u8" where
  "xsalsa20 n k i = salsa20 (slice 16 8 n @ le_bytes 8 (i div 64)) (hsalsa20 n k) ! (i mod 64)"

section \<open>Words of 32 bits in words of 64\<close>

abbreviation (input) lo :: "ulong \<Rightarrow> u32" where "lo \<equiv> ucast"

lemma lo_of_int: "lo (word_of_int k) = word_of_int k"
  by transfer (simp add: take_bit_take_bit min_def)

lemma lo_add: "lo (a + b) = lo a + lo b" and lo_diff: "lo (a - b) = lo a - lo b"
proof -
  have "lo (word_of_int (uint a + uint b)) = word_of_int (uint a) + word_of_int (uint b)" unfolding lo_of_int by (rule of_int_add)
  then show "lo (a + b) = lo a + lo b" by simp
  have "lo (word_of_int (uint a - uint b)) = word_of_int (uint a) - word_of_int (uint b)" unfolding lo_of_int by (rule of_int_diff)
  then show "lo (a - b) = lo a - lo b" by simp
qed

lemma lo_xor: "lo (a XOR b) = lo a XOR lo b"
  by (rule bit_word_eqI) (simp add: bit_xor_iff bit_ucast_iff)

lemma lo_L32: "0 < c \<Longrightarrow> c < 32 \<Longrightarrow> lo (L32 x c) = word_rotl c (lo x)"
proof (rule bit_word_eqI)
  fix n assume c: "0 < c" "c < 32" and n: "n < LENGTH(32)"
  have m: "(0xffffffff :: ulong) = mask 32" by (simp add: mask_eq_exp_minus_1)
  have w: "32 - c + n = 32 + n - c" "n + (32 - c) = 32 + n - c" "n + 32 - c = 32 + n - c" using c by simp_all
  have "bit (lo (L32 x c)) n \<longleftrightarrow> (c \<le> n \<and> bit x (n - c)) \<or> (n < c \<and> bit x (32 + n - c))"
    using c n unfolding L32_def m by (auto simp: bit_ucast_iff bit_or_iff bit_push_bit_iff bit_drop_bit_eq bit_and_iff bit_mask_iff w)
  also have "\<dots> \<longleftrightarrow> bit (word_rotl c (lo x)) n"
    using c n by (cases "c \<le> n") (auto simp: bit_word_rotl_iff bit_ucast_iff mod_if w)
  finally show "bit (lo (L32 x c)) n \<longleftrightarrow> bit (word_rotl c (lo x)) n" .
qed

lemma lo_quarter: "core_quarter (a, b, c, d) = (a', b', c', d') \<Longrightarrow> quarterround (lo a, lo b, lo c, lo d) = (lo a', lo b', lo c', lo d')"
  by (auto simp: core_quarter_def quarterround_def Let_def lo_xor lo_L32 lo_add)

lemma lo_ld32: "lo (ld32 b) = le_word b"
proof -
  have s: "slice 0 4 b = [bget b 0, bget b 1, bget b 2, bget b 3]" by (simp add: slice_def upt_rec eval_nat_numeral)
  have c: "lo (ucast c) = ucast c" for c :: u8 by (rule bit_word_eqI) (simp add: bit_ucast_iff)
  have m: "lo (256 * u) = 256 * lo u" for u
  proof -
    have "lo (word_of_int (256 * uint u)) = word_of_int 256 * word_of_int (uint u)" unfolding lo_of_int by (rule of_int_mult)
    then show ?thesis by simp
  qed
  have e: "lo (push_bit 8 u OR ucast c) = 256 * lo u + ucast c" for u :: ulong and c :: u8
  proof -
    have "push_bit 8 u OR ucast c = push_bit 8 u + ucast c"
      by (rule disjunctive_add [symmetric]) (auto simp: bit_push_bit_iff bit_ucast_iff dest: bit_imp_le_length)
    then show ?thesis by (simp add: lo_add c push_bit_eq_mult m mult.commute [of _ 256])
  qed
  show ?thesis unfolding ld32_def Let_def e c le_word_def s by (simp add: algebra_simps)
qed

lemma st32_lo: "st32 x = le_bytes 4 (unat (lo x))"
proof -
  have e: "(ucast (drop_bit k x) :: u8) = word_of_nat (unat (lo x) div 2 ^ k)" if "k \<le> 24" for k
  proof -
    have "unat (lo x) div 2 ^ k = unat (drop_bit k (lo x))" using unsigned_less [of "lo x", where ?'a = nat]
      by (simp only: unsigned_drop_bit_eq) (simp add: drop_bit_eq_div take_bit_nat_eq_self)
    moreover have "(ucast (drop_bit k x) :: u8) = ucast (drop_bit k (lo x))"
      using that by (intro bit_word_eqI) (auto simp: bit_ucast_iff bit_drop_bit_eq)
    ultimately show ?thesis by simp
  qed
  show ?thesis using e [of 0] e [of 8] e [of 16] e [of 24] by (simp add: st32_def le_bytes_def upt_rec)
qed

section \<open>Rounds\<close>

lemma sixteen: "length x = 16 \<Longrightarrow>
  x = [x ! 0, x ! 1, x ! 2, x ! 3, x ! 4, x ! 5, x ! 6, x ! 7, x ! 8, x ! 9, x ! 10, x ! 11, x ! 12, x ! 13, x ! 14, x ! 15]"
  by (rule nth_equalityI) (auto simp: less_Suc_eq eval_nat_numeral)

lemma core_round_at:
  assumes "core_quarter (x0, x4, x8, x12) = (a0, a1, a2, a3)" "core_quarter (x5, x9, x13, x1) = (b0, b1, b2, b3)"
    "core_quarter (x10, x14, x2, x6) = (c0, c1, c2, c3)" "core_quarter (x15, x3, x7, x11) = (d0, d1, d2, d3)"
  shows "core_round [x0, x1, x2, x3, x4, x5, x6, x7, x8, x9, x10, x11, x12, x13, x14, x15] =
    [a0, a1, a2, a3, b3, b0, b1, b2, c2, c3, c0, c1, d1, d2, d3, d0]"
  using assms by (simp add: core_round_def core_column_def Let_def)

lemma double_core:
  assumes "length x = 16"
  shows "length (core_round (core_round x)) = 16 \<and> map lo (core_round (core_round x)) = doubleround (map lo x)"
proof -
  let ?q = "\<lambda>i j k l. core_quarter (x ! i, x ! j, x ! k, x ! l)"
  obtain a0 a1 a2 a3 b0 b1 b2 b3 where A: "?q 0 4 8 12 = (a0, a1, a2, a3)" "?q 5 9 13 1 = (b0, b1, b2, b3)"
    by (cases "?q 0 4 8 12"; cases "?q 5 9 13 1") blast
  obtain c0 c1 c2 c3 d0 d1 d2 d3 where C: "?q 10 14 2 6 = (c0, c1, c2, c3)" "?q 15 3 7 11 = (d0, d1, d2, d3)"
    by (cases "?q 10 14 2 6"; cases "?q 15 3 7 11") blast
  obtain e0 e1 e2 e3 f0 f1 f2 f3 where E: "core_quarter (a0, b3, c2, d1) = (e0, e1, e2, e3)" "core_quarter (b0, c3, d2, a1) = (f0, f1, f2, f3)"
    by (cases "core_quarter (a0, b3, c2, d1)"; cases "core_quarter (b0, c3, d2, a1)") blast
  obtain g0 g1 g2 g3 h0 h1 h2 h3 where G: "core_quarter (c0, d3, a2, b1) = (g0, g1, g2, g3)" "core_quarter (d0, a3, b2, c1) = (h0, h1, h2, h3)"
    by (cases "core_quarter (c0, d3, a2, b1)"; cases "core_quarter (d0, a3, b2, c1)") blast
  have "core_round (core_round x) = [e0, e1, e2, e3, f3, f0, f1, f2, g2, g3, g0, g1, h1, h2, h3, h0]"
    by (subst sixteen [OF assms], subst core_round_at [OF A C], rule core_round_at [OF E G])
  moreover have "doubleround (map lo x) = map lo [e0, e1, e2, e3, f3, f0, f1, f2, g2, g3, g0, g1, h1, h2, h3, h0]"
    using assms A [THEN lo_quarter] C [THEN lo_quarter] E [THEN lo_quarter] G [THEN lo_quarter]
    by (simp add: doubleround_def columnround_def rowround_def)
  ultimately show ?thesis by simp
qed

lemma rounds:
  "length x = 16 \<Longrightarrow> length ((core_round ^^ (2 * n)) x) = 16 \<and> map lo ((core_round ^^ (2 * n)) x) = (doubleround ^^ n) (map lo x)"
  by (induction n) (simp_all add: double_core)

lemma input_lo: "length (core_input inp k sigma) = 16" "map lo (core_input inp k sigma) = salsa_input inp k"
  by (simp_all add: core_input_def salsa_input_def Let_def lo_ld32)

text \<open>The core of the code is Salsa20's.\<close>

lemma core_salsa20: "crypto_core_salsa20 inp k sigma = salsa20 inp k"
proof -
  let ?y = "core_input inp k sigma" let ?x = "(core_round ^^ 20) ?y"
  have x: "length ?x = 16" "map lo ?x = (doubleround ^^ 10) (salsa_input inp k)" using rounds [OF input_lo(1), of 10 inp k] by (simp_all add: input_lo)
  have "map2 (\<lambda>x y. st32 (x + y)) a b = map2 (\<lambda>x y. le_bytes 4 (unat (x + y))) (map lo a) (map lo b)" for a b
    by (simp add: zip_map_map o_def st32_lo lo_add split_def)
  then show ?thesis by (simp add: crypto_core_salsa20_def salsa20_def Let_def x(2) flip: input_lo(2))
qed

lemma input_words: "ld32 (drop (4 * i) sigma) = core_input inp k sigma ! (5 * i)" if "i < 4"
  using that by (auto simp: core_input_def Let_def less_Suc_eq eval_nat_numeral)

text \<open>HSalsa20: what was added to the words is taken off again.\<close>

lemma core_hsalsa20: "crypto_core_hsalsa20 inp k sigma = hsalsa20 inp k"
proof -
  let ?y = "core_input inp k sigma" let ?x = "(core_round ^^ 20) ?y"
  have x: "length ?x = 16" "map lo ?x = (doubleround ^^ 10) (salsa_input inp k)" using rounds [OF input_lo(1), of 10 inp k] by (simp_all add: input_lo)
  obtain x0 x1 x2 x3 x4 x5 x6 x7 x8 x9 xa xb xc xd xe xf where X: "?x = [x0, x1, x2, x3, x4, x5, x6, x7, x8, x9, xa, xb, xc, xd, xe, xf]"
    using sixteen [OF x(1)] by blast
  have "crypto_core_hsalsa20 inp k sigma = concat (map st32 [x0, x5, xa, xf, x6, x7, x8, x9])"
    unfolding crypto_core_hsalsa20_def Let_def X by (simp add: core_input_def Let_def)
  moreover have "hsalsa20 inp k = concat (map st32 [x0, x5, xa, xf, x6, x7, x8, x9])"
    unfolding hsalsa20_def Let_def x(2) [symmetric] X by (simp add: st32_lo)
  ultimately show ?thesis by simp
qed

section \<open>The stream\<close>

lemma le_bytes_Suc: "le_bytes (Suc l) n = word_of_nat n # le_bytes l (n div 256)"
  by (simp add: le_bytes_def upt_conv_Cons map_Suc_upt [symmetric] div_mult2_eq del: upt_Suc)

lemma length_le_bytes [simp, len_simps]: "length (le_bytes l n) = l"
  by (simp add: le_bytes_def)

lemma bump_num:
  assumes "unat u < 256"
  shows "bump u (le_bytes l n) = le_bytes l (n + unat u)"
  using assms
proof (induction l arbitrary: u n)
  case 0
  then show ?case by (simp add: le_bytes_def)
next
  case (Suc l)
  have b: "unat (ucast (word_of_nat n :: u8) :: ulong) = n mod 256" by (simp add: byte_limb unsigned_of_nat take_bit_eq_mod)
  have s: "unat (u + ucast (word_of_nat n :: u8)) = unat u + n mod 256" using Suc.prems by (subst unat_add_lem [THEN iffD1]) (simp_all only: b, simp)
  let ?v = "drop_bit 8 (u + ucast (word_of_nat n :: u8))"
  have v: "unat ?v = (unat u + n mod 256) div 256" by (simp only: limb_word s)
  have "unat ?v < 256" unfolding v using Suc.prems by simp
  moreover have "(ucast (u + ucast (word_of_nat n :: u8)) :: u8) = word_of_nat (n + unat u)"
  proof -
    have "(ucast (u + ucast (word_of_nat n :: u8)) :: u8) = word_of_nat (unat u + n mod 256)" by (simp flip: s)
    then show ?thesis by (simp add: word_of_nat_eq_iff take_bit_eq_mod mod_simps add.commute)
  qed
  moreover have "n div 256 + (unat u + n mod 256) div 256 = (n + unat u) div 256"
    using div_mult_self4 [of 256 "n div 256" "unat u + n mod 256"] by (simp add: add.commute)
  ultimately show ?case by (simp add: le_bytes_Suc Let_def Suc.IH v)
qed

lemma length_salsa20 [simp]: "length (salsa20 inp k) = 64"
proof -
  have x: "length ((doubleround ^^ 10) (salsa_input inp k)) = 16"
    using rounds [OF input_lo(1), of 10 inp k] by (metis input_lo(2) length_map)
  have "map (length \<circ> (\<lambda>(x, y). le_bytes 4 (unat (x + y)))) l = replicate (length l) 4" for l :: "(u32 \<times> u32) list"
    by (induction l) auto
  then show ?thesis using x by (simp add: salsa20_def length_concat sum_list_replicate salsa_input_def Let_def)
qed

lemma xor_bytes: "length k = 64 \<Longrightarrow> length m \<le> 64 \<Longrightarrow> map2 (XOR) m k = map (\<lambda>i. m ! i XOR (k :: bytes) ! i) [0..<length m]"
  by (rule nth_equalityI) auto

text \<open>The loop over blocks: the stream is used up byte by byte.\<close>

lemma loop_bytes:
  assumes "length n = 8"
  shows "salsa20_loop k (n @ le_bytes 8 c) m = map (\<lambda>i. m ! i XOR salsa20 (n @ le_bytes 8 (c + i div 64)) k ! (i mod 64)) [0..<length m]"
proof (induction "length m" arbitrary: m c rule: less_induct)
  case less
  let ?b = "salsa20 (n @ le_bytes 8 c) k"
  have next_block: "(64 + i) div 64 = Suc (i div 64)" for i :: nat using div_add_self1 [of 64 i] by simp
  show ?case
  proof (cases "64 \<le> length m")
    case True
    have "salsa20_loop k (n @ le_bytes 8 c) m = map2 (XOR) (take 64 m) ?b @ salsa20_loop k (n @ le_bytes 8 (c + 1)) (drop 64 m)"
      using True assms by (subst salsa20_loop.simps) (simp add: core_salsa20 bump_num)
    moreover have "map2 (XOR) (take 64 m) ?b = map (\<lambda>i. m ! i XOR salsa20 (n @ le_bytes 8 (c + i div 64)) k ! (i mod 64)) [0..<64]"
      using True by (subst xor_bytes) (auto simp: min_def)
    moreover have "salsa20_loop k (n @ le_bytes 8 (c + 1)) (drop 64 m) =
        map (\<lambda>i. m ! i XOR salsa20 (n @ le_bytes 8 (c + i div 64)) k ! (i mod 64)) [64..<length m]"
      using True less [of "drop 64 m" "c + 1"]
      by (intro nth_equalityI) (auto simp: next_block)
    moreover have "[0..<length m] = [0..<64] @ [64..<length m]" using True upt_add_eq_append [of 0 64 "length m - 64"] by simp
    ultimately show ?thesis by simp
  next
    case False
    then have "salsa20_loop k (n @ le_bytes 8 c) m = map2 (XOR) m ?b" by (subst salsa20_loop.simps) (simp add: core_salsa20)
    then show ?thesis using False by (simp add: xor_bytes)
  qed
qed

lemma stream_xor_bytes: "tweet_stream_xor m n k = map (\<lambda>i. m ! i XOR xsalsa20 n k i) [0..<length m]"
proof -
  have z: "zeros 8 = le_bytes 8 0" by (simp add: zeros_def le_bytes_def map_replicate_const)
  show ?thesis
    using loop_bytes [of "slice 16 8 n" "hsalsa20 n k" 0 m]
    by (simp add: tweet_stream_xor_def crypto_stream_salsa20_xor_def core_hsalsa20 z xsalsa20_def)
qed

text \<open>C30: The stream cipher of the code, which computes 32-bit words in 64-bit ones, transposes after each round and
  works block by block, is XSalsa20: each byte of the result is the byte of the message, exclusive or the byte at its
  index of the XSalsa20 stream for nonce and key.\<close>

theorem stream_xor_correct: "tweet_stream_xor m n k = map (\<lambda>i. m ! i XOR xsalsa20 n k i) [0..<length m]"
  by (rule stream_xor_bytes)

end
