(* ===== verification/Tweet_Field.thy ===== *)
theory Tweet_Field
  imports Tweet_Salsa
begin

text \<open>
  The field of \<^verbatim>\<open>c/lib/ed25519/src/tweetnacl.c\<close>: 16 signed limbs of 16 bits, here integers; the theorems
  below bound every limb, so that nothing leaves the 64 bits of the code. Carrying, multiplying,
  inverting and packing are the arithmetic modulo \<open>2^255 - 19\<close>.
\<close>

type_synonym gf = "int list"

section \<open>The code\<close>

definition car_step :: "nat \<Rightarrow> gf \<Rightarrow> gf" where
  "car_step i o1 =
     (let o1 = o1[i := o1 ! i + 65536]; c = o1 ! i div 65536; k = (if i < 15 then i + 1 else 0);
          o1 = o1[k := o1 ! k + (c - 1 + (if i = 15 then 37 * (c - 1) else 0))]
      in o1[i := o1 ! i - 65536 * c])"

definition car25519 :: "gf \<Rightarrow> gf" where
  "car25519 o1 = fold car_step [0..<16] o1"

definition sel25519 :: "gf \<Rightarrow> gf \<Rightarrow> int \<Rightarrow> gf \<times> gf" where
  "sel25519 p q b =
     (let c = NOT (b - 1); t = map2 (\<lambda>p q. c AND (p XOR q)) p q in (map2 (XOR) p t, map2 (XOR) q t))"

text \<open>The difference to the prime with its borrows: the limbs below the top are masked.\<close>

definition sub_prime :: "gf \<Rightarrow> gf" where
  "sub_prime t =
     (let m = fold (\<lambda>i m. let m = m[i := t ! i - 0xffff - (m ! (i - 1) div 65536 AND 1)] in m[i - 1 := m ! (i - 1) AND 0xffff])
                [1..<15] ((replicate 16 0)[0 := t ! 0 - 0xffed]);
          m = m[15 := t ! 15 - 0x7fff - (m ! 14 div 65536 AND 1)]
      in m[14 := m ! 14 AND 0xffff])"

definition pack_step :: "gf \<Rightarrow> gf" where
  "pack_step t = (let m = sub_prime t; b = m ! 15 div 65536 AND 1 in fst (sel25519 t m (1 - b)))"

definition pack25519 :: "gf \<Rightarrow> bytes" where
  "pack25519 n =
     (let t = pack_step (pack_step (car25519 (car25519 (car25519 n))))
      in concat (map (\<lambda>v. [word_of_int (v AND 0xff), word_of_int (v div 256)]) t))"

definition unpack25519 :: "bytes \<Rightarrow> gf" where
  "unpack25519 n =
     (let o1 = map (\<lambda>i. uint (bget n (2 * i)) + 256 * uint (bget n (2 * i + 1))) [0..<16] in o1[15 := o1 ! 15 AND 0x7fff])"

definition gf_A :: "gf \<Rightarrow> gf \<Rightarrow> gf" where "gf_A a b = map (\<lambda>i. a ! i + b ! i) [0..<16]"
definition gf_Z :: "gf \<Rightarrow> gf \<Rightarrow> gf" where "gf_Z a b = map (\<lambda>i. a ! i - b ! i) [0..<16]"

definition gf_prod :: "gf \<Rightarrow> gf \<Rightarrow> int list" where
  "gf_prod a b = fold (\<lambda>i t. fold (\<lambda>j t. t[i + j := t ! (i + j) + a ! i * b ! j]) [0..<16] t) [0..<16] (replicate 31 0)"

definition gf_M :: "gf \<Rightarrow> gf \<Rightarrow> gf" where
  "gf_M a b =
     (let t = gf_prod a b; t = fold (\<lambda>i t. t[i := t ! i + 38 * t ! (i + 16)]) [0..<15] t
      in car25519 (car25519 (take 16 t)))"

definition gf_S :: "gf \<Rightarrow> gf" where "gf_S a = gf_M a a"

definition inv25519 :: "gf \<Rightarrow> gf" where
  "inv25519 i = fold (\<lambda>a c. let c = gf_S c in if a \<noteq> 2 \<and> a \<noteq> 4 then gf_M c i else c) (rev [0..<254]) i"

section \<open>The number of a list of limbs\<close>

primrec num :: "int list \<Rightarrow> int" where
  "num [] = 0"
| "num (x # xs) = x + 65536 * num xs"

definition P25519 :: int where "P25519 = 2 ^ 255 - 19"

definition digits :: "nat \<Rightarrow> int \<Rightarrow> int list" where
  "digits n v = map (\<lambda>i. v div 65536 ^ i mod 65536) [0..<n]"

lemma digits_Suc: "digits (Suc n) v = v mod 65536 # digits n (v div 65536)"
  by (simp add: digits_def upt_conv_Cons map_Suc_upt [symmetric] zdiv_zmult2_eq del: upt_Suc)

lemma length_digits [simp]: "length (digits n v) = n"
  by (simp add: digits_def)

lemma num_digits: "num (digits n v) = v mod 65536 ^ n"
proof (induction n arbitrary: v)
  case (Suc n)
  have "v mod (65536 * 65536 ^ n) = 65536 * (v div 65536 mod 65536 ^ n) + v mod 65536" by (rule zmod_zmult2_eq) simp
  then show ?case by (simp add: digits_Suc Suc)
qed (simp add: digits_def)

lemma digits_num: "(\<forall>x\<in>set o1. 0 \<le> x \<and> x < 65536) \<Longrightarrow> digits (length o1) (num o1) = o1"
  by (induction o1) (simp_all add: digits_Suc, simp add: digits_def)

lemma num_update: "k < length t \<Longrightarrow> num (t[k := t ! k + x]) = num t + 65536 ^ k * x"
  by (induction t arbitrary: k) (auto simp: nth_Cons algebra_simps split: nat.splits)

lemma num_append: "num (a @ b) = num a + 65536 ^ length a * num b"
  by (induction a) (simp_all add: algebra_simps)

section \<open>Carrying\<close>

lemma carry_word: "(x + 65536) div 65536 - 1 = x div 65536" "x + 65536 - 65536 * ((x + 65536) div 65536) = x mod (65536 :: int)"
  using div_add_self2 [of 65536 x] by (simp_all add: minus_div_mult_eq_mod [symmetric])

lemma car_step_inner: "length a = i \<Longrightarrow> i < 15 \<Longrightarrow> car_step i (a @ x # y # r) = a @ x mod 65536 # (y + x div 65536) # r"
  using carry_word [of x] by (simp add: car_step_def Let_def nth_append list_update_append)

lemma car_step_last: "length a = 14 \<Longrightarrow> car_step 15 (z # a @ [x]) = (z + 38 * (x div 65536)) # a @ [x mod 65536]"
  using carry_word [of x] by (simp add: car_step_def Let_def nth_append list_update_append)

lemma digits_more:
  "(v + 65536 ^ i * x) div 65536 ^ i = x + v div 65536 ^ i" "digits i (v + 65536 ^ i * x) = digits i v"
  "(v + 65536 ^ i * x) div (65536 * 65536 ^ i) = (x + v div 65536 ^ i) div 65536"
proof -
  show e: "(v + 65536 ^ i * x) div 65536 ^ i = x + v div 65536 ^ i" by (simp add: add.commute)
  have "(v + 65536 ^ i * x) div (65536 * 65536 ^ i) = (v + 65536 ^ i * x) div 65536 ^ i div 65536"
    by (simp add: zdiv_zmult2_eq mult.commute [of 65536])
  then show "(v + 65536 ^ i * x) div (65536 * 65536 ^ i) = (x + v div 65536 ^ i) div 65536" by (simp only: e)
  show "digits i (v + 65536 ^ i * x) = digits i v"
  proof (induction i arbitrary: v)
    case (Suc i)
    have "(v + 65536 * (65536 ^ i * x)) div 65536 = v div 65536 + 65536 ^ i * x" by simp
    then show ?case using Suc [of "v div 65536"] by (simp add: digits_Suc mult.assoc add.commute)
  qed (simp add: digits_def)
qed

lemma digits_snoc: "digits (Suc i) v = digits i v @ [v div 65536 ^ i mod 65536]"
  by (simp add: digits_def)

lemma num_take: "i < length o1 \<Longrightarrow> num (take (Suc i) o1) = num (take i o1) + 65536 ^ i * o1 ! i"
  by (simp add: take_Suc_conv_app_nth num_append)

lemma car_steps:
  assumes "length o1 = 16" "i < 16"
  shows "fold car_step [0..<i] o1 = digits i (num (take i o1)) @ (o1 ! i + num (take i o1) div 65536 ^ i) # drop (Suc i) o1"
  using assms(2)
proof (induction i)
  case 0
  then show ?case using assms(1) by (simp add: digits_def Cons_nth_drop_Suc)
next
  case (Suc i)
  then have i: "i < 15" "i < length o1" using assms(1) by simp_all
  have d: "drop (Suc i) o1 = o1 ! Suc i # drop (Suc (Suc i)) o1" using Suc.prems assms(1) by (simp add: Cons_nth_drop_Suc)
  show ?case
    using Suc.IH i by (simp add: upt_Suc_append d car_step_inner num_take digits_snoc digits_more add.commute del: upt_Suc)
qed

text \<open>Carrying leaves the digits of the number, with what is above them wrapped around.\<close>

lemma car25519_digits:
  assumes "length o1 = 16"
  shows "car25519 o1 = (num o1 mod 65536 + 38 * (num o1 div 65536 ^ 16)) # tl (digits 16 (num o1))"
proof -
  let ?v = "num (take 15 o1)"
  have v: "num o1 = ?v + 65536 ^ 15 * o1 ! 15" using num_take [of 15 o1] assms by simp
  obtain a where a: "digits 15 ?v = ?v mod 65536 # a" "length a = 14"
    using digits_Suc [of 14 ?v] by simp
  have t: "digits 16 (num o1) = ?v mod 65536 # a @ [(o1 ! 15 + ?v div 65536 ^ 15) mod 65536]"
    using digits_snoc [of 15 "num o1"] by (simp only: v digits_more a(1)) simp
  have q: "num o1 div 65536 ^ 16 = (o1 ! 15 + ?v div 65536 ^ 15) div 65536" using digits_more(3) [of ?v 15 "o1 ! 15"] by (simp add: v)
  have "digits 16 (num o1) = num o1 mod 65536 # digits 15 (num o1 div 65536)" using digits_Suc [of 15 "num o1"] by simp
  then have m: "num o1 mod 65536 = ?v mod 65536" using t by simp
  have "fold car_step [0..<16] o1 = car_step 15 (fold car_step [0..<15] o1)" using upt_Suc_append [of 0 15] by simp
  also have "\<dots> = (?v mod 65536 + 38 * (num o1 div 65536 ^ 16)) # a @ [(o1 ! 15 + ?v div 65536 ^ 15) mod 65536]"
    using car_steps [OF assms, of 15] assms car_step_last [OF a(2)] by (simp add: a(1) q [simplified])
  finally show ?thesis by (simp add: car25519_def t m)
qed

text \<open>Modulo the prime nothing changes.\<close>

lemma car25519_num:
  assumes "length o1 = 16"
  shows "num (car25519 o1) = num o1 mod 65536 ^ 16 + 38 * (num o1 div 65536 ^ 16)" "num (car25519 o1) mod P25519 = num o1 mod P25519"
    "length (car25519 o1) = 16"
proof -
  let ?v = "num o1"
  have d: "digits 16 ?v = ?v mod 65536 # tl (digits 16 ?v)" using digits_Suc [of 15 ?v] by simp
  then have n: "?v mod 65536 + 65536 * num (tl (digits 16 ?v)) = ?v mod 65536 ^ 16" using num_digits [of 16 ?v] by (metis num.simps(2))
  show e: "num (car25519 o1) = ?v mod 65536 ^ 16 + 38 * (?v div 65536 ^ 16)" unfolding car25519_digits [OF assms] n [symmetric] by simp
  have "num (car25519 o1) = ?v - P25519 * 2 * (?v div 65536 ^ 16)"
    unfolding e minus_div_mult_eq_mod [symmetric] P25519_def by simp
  then show "num (car25519 o1) mod P25519 = ?v mod P25519" by (simp add: mod_diff_right_eq [symmetric] mult.assoc) 
  show "length (car25519 o1) = 16" using d by (simp add: car25519_digits [OF assms])
qed

section \<open>Bounds\<close>

text \<open>What a multiplication may get, and what it gives.\<close>

definition loose :: "gf \<Rightarrow> bool" where
  "loose o1 \<longleftrightarrow> length o1 = 16 \<and> (\<forall>x\<in>set o1. \<bar>x\<bar> \<le> 2 ^ 18)"

definition limbs_within :: "int \<Rightarrow> gf \<Rightarrow> bool" where
  "limbs_within n o1 \<longleftrightarrow> length o1 = 16 \<and> (\<forall>x\<in>set o1. \<bar>x\<bar> \<le> n)"

definition tight :: "gf \<Rightarrow> bool" where
  "tight o1 \<longleftrightarrow> length o1 = 16 \<and> - 38 \<le> hd o1 \<and> hd o1 < 65536 + 38 \<and> (\<forall>x\<in>set (tl o1). 0 \<le> x \<and> x < 65536)"

lemma digit_range: "x \<in> set (digits n v) \<Longrightarrow> 0 \<le> x \<and> x < 65536"
  by (auto simp: digits_def)

lemma num_bound: "(\<forall>x\<in>set o1. \<bar>x\<bar> \<le> b) \<Longrightarrow> 0 \<le> b \<Longrightarrow> \<bar>num o1\<bar> \<le> b * (65536 ^ length o1 - 1)"
proof (induction o1)
  case (Cons x o1)
  then have "\<bar>x\<bar> \<le> b" "\<bar>num o1\<bar> \<le> b * (65536 ^ length o1 - 1)" by simp_all
  moreover have "\<bar>x + 65536 * num o1\<bar> \<le> \<bar>x\<bar> + 65536 * \<bar>num o1\<bar>" by simp
  ultimately have "\<bar>num (x # o1)\<bar> \<le> b + 65536 * (b * (65536 ^ length o1 - 1))" by simp
  also have "\<dots> \<le> b * (65536 ^ length (x # o1) - 1)" using Cons.prems(2) by (simp add: algebra_simps)
  finally show ?case .
qed simp

lemma div_small:
  assumes "\<bar>v\<bar> \<le> 2 ^ 47 * (65536 ^ 16 :: int)"
  shows "\<bar>v div 65536 ^ 16\<bar> \<le> 2 ^ 47"
proof -
  have "v div 65536 ^ 16 \<le> 2 ^ 47 * 65536 ^ 16 div (65536 ^ 16 :: int)" using assms by (intro zdiv_mono1) simp_all
  moreover have "(- (2 ^ 47 * 65536 ^ 16)) div (65536 ^ 16 :: int) \<le> v div 65536 ^ 16" using assms by (intro zdiv_mono1) simp_all
  ultimately show ?thesis by simp
qed

lemma car_tight:
  assumes "length o1 = 16" "- (65536 ^ 16) \<le> num o1" "num o1 < 2 * 65536 ^ 16"
  shows "tight (car25519 o1)"
proof -
  have q: "- 1 \<le> num o1 div 65536 ^ 16" "num o1 div 65536 ^ 16 \<le> 1"
    using assms(2) zdiv_mono1 [of "- (65536 ^ 16)" "num o1" "65536 ^ 16"] assms(3) by (simp, intro zle_add1_eq_le [THEN iffD1] div_less_iff_less_mult [THEN iffD2]) simp_all
  have m: "0 \<le> num o1 mod 65536" "num o1 mod 65536 < 65536" by simp_all
  have t: "tl (digits 16 v) = digits 15 (v div 65536)" for v using digits_Suc [of 15 v] by simp
  have "- 38 \<le> r + 38 * c \<and> r + 38 * c < 65536 + 38" if "0 \<le> r" "r < 65536" "- 1 \<le> c" "c \<le> 1" for r c :: int using that by simp
  from this [OF m q] show ?thesis
    unfolding car25519_digits [OF assms(1)] tight_def t list.sel using digit_range by (simp add: length_digits del: power_numeral)
qed

lemma car_twice_tight:
  assumes "length o1 = 16" "\<bar>num o1\<bar> \<le> 2 ^ 47 * 65536 ^ 16"
  shows "tight (car25519 (car25519 o1))"
proof (rule car_tight)
  note q = div_small [OF assms(2)]
  have m: "0 \<le> num o1 mod 65536 ^ 16" "num o1 mod 65536 ^ 16 < 65536 ^ 16" by simp_all
  have "- (65536 ^ 16) \<le> r + 38 * c \<and> r + 38 * c < 2 * 65536 ^ 16" if "0 \<le> r" "r < 65536 ^ 16" "\<bar>c\<bar> \<le> 2 ^ 47" for r c :: int
    using that unfolding abs_le_iff by simp
  from this [OF m q] show "- (65536 ^ 16) \<le> num (car25519 o1)" "num (car25519 o1) < 2 * 65536 ^ 16"
    unfolding car25519_num(1) [OF assms(1)] by blast+
  show "length (car25519 o1) = 16" by (rule car25519_num(3) [OF assms(1)])
qed

section \<open>Multiplying\<close>

lemma prod_inner:
  assumes "length t = 31" "i < 16" "n \<le> 16" "length b = 16"
  shows "length (fold (\<lambda>j t. t[i + j := t ! (i + j) + x * b ! j]) [0..<n] t) = 31 \<and>
    num (fold (\<lambda>j t. t[i + j := t ! (i + j) + x * b ! j]) [0..<n] t) = num t + 65536 ^ i * x * num (take n b) \<and>
    (\<forall>k<31. fold (\<lambda>j t. t[i + j := t ! (i + j) + x * b ! j]) [0..<n] t ! k = t ! k + (if i \<le> k \<and> k < i + n then x * b ! (k - i) else 0))"
  using assms(3)
proof (induction n)
  case (Suc n)
  let ?t = "fold (\<lambda>j t. t[i + j := t ! (i + j) + x * b ! j]) [0..<n] t"
  have IH: "length ?t = 31" "num ?t = num t + 65536 ^ i * x * num (take n b)"
    "\<forall>k<31. ?t ! k = t ! k + (if i \<le> k \<and> k < i + n then x * b ! (k - i) else 0)" using Suc by simp_all
  have "num (?t[i + n := ?t ! (i + n) + x * b ! n]) = num ?t + 65536 ^ (i + n) * (x * b ! n)"
    using IH(1) assms(2) Suc.prems by (intro num_update) simp
  then have "num (?t[i + n := ?t ! (i + n) + x * b ! n]) = num t + 65536 ^ i * x * num (take (Suc n) b)"
    using IH(2) assms(4) Suc.prems by (simp add: num_take power_add algebra_simps)
  moreover have "?t[i + n := ?t ! (i + n) + x * b ! n] ! k = t ! k + (if i \<le> k \<and> k < i + Suc n then x * b ! (k - i) else 0)" if "k < 31" for k
    using IH(1,3) that assms(2) Suc.prems by (auto simp: nth_list_update)
  ultimately show ?case using IH(1) by (simp add: upt_Suc_append)
qed (simp add: assms(1))

lemma prod_outer:
  assumes "n \<le> 16" "length a = 16" "length b = 16" "\<And>i j. i < 16 \<Longrightarrow> j < 16 \<Longrightarrow> \<bar>a ! i * b ! j\<bar> \<le> c" "0 \<le> c"
  shows "length (fold (\<lambda>i t. fold (\<lambda>j t. t[i + j := t ! (i + j) + a ! i * b ! j]) [0..<16] t) [0..<n] (replicate 31 0)) = 31 \<and>
    num (fold (\<lambda>i t. fold (\<lambda>j t. t[i + j := t ! (i + j) + a ! i * b ! j]) [0..<16] t) [0..<n] (replicate 31 0)) = num (take n a) * num b \<and>
    (\<forall>k<31. \<bar>fold (\<lambda>i t. fold (\<lambda>j t. t[i + j := t ! (i + j) + a ! i * b ! j]) [0..<16] t) [0..<n] (replicate 31 0) ! k\<bar> \<le> int n * c)"
  using assms(1)
proof (induction n)
  case 0
  have "num (replicate n 0) = 0" for n by (induction n) simp_all
  then show ?case by (simp del: replicate_Suc)
next
  case (Suc n)
  let ?t = "fold (\<lambda>i t. fold (\<lambda>j t. t[i + j := t ! (i + j) + a ! i * b ! j]) [0..<16] t) [0..<n] (replicate 31 0)"
  have IH: "length ?t = 31" "num ?t = num (take n a) * num b" "\<And>k. k < 31 \<Longrightarrow> \<bar>?t ! k\<bar> \<le> int n * c" using Suc by simp_all
  have n: "n < 16" using Suc.prems by simp
  note I = prod_inner [OF IH(1) n order_refl assms(3), of "a ! n"]
  let ?u = "fold (\<lambda>j t. t[n + j := t ! (n + j) + a ! n * b ! j]) [0..<16] ?t"
  have "num ?u = num (take (Suc n) a) * num b" using I IH(2) n assms(2,3) by (simp add: num_take algebra_simps)
  moreover have "\<bar>?u ! k\<bar> \<le> int (Suc n) * c" if "k < 31" for k
  proof -
    have "?u ! k = ?t ! k + (if n \<le> k \<and> k < n + 16 then a ! n * b ! (k - n) else 0)" using I that by blast
    moreover have "\<bar>if n \<le> k \<and> k < n + 16 then a ! n * b ! (k - n) else 0\<bar> \<le> c" using assms(4) [OF n, of "k - n"] assms(5) by auto
    ultimately have "\<bar>?u ! k\<bar> \<le> int n * c + c" using IH(3) [OF that] by linarith
    then show ?thesis by (simp add: algebra_simps)
  qed
  ultimately show ?case using I by (simp add: upt_Suc_append del: upt_rec_numeral)
qed

lemma fold_high:
  assumes "length (t :: int list) = 31" "n \<le> 15"
  shows "fold (\<lambda>i t. t[i := t ! i + 38 * t ! (i + 16)]) [0..<n] t = map (\<lambda>k. t ! k + (if k < n then 38 * t ! (k + 16) else 0)) [0..<31]"
  using assms(2)
proof (induction n)
  case 0
  show ?case using assms(1) by (intro nth_equalityI) (simp_all del: upt_rec_numeral)
next
  case (Suc n)
  then show ?case by (simp add: upt_Suc_append del: upt_rec_numeral) (auto intro!: nth_equalityI simp: nth_list_update less_Suc_eq simp del: upt_rec_numeral)
qed

lemma num_lincomb: "num (map (\<lambda>k. f k + c * g k) ks) = num (map f ks) + c * num (map g ks)"
  by (induction ks) (simp_all add: algebra_simps)

lemma wrap_high:
  assumes "length t = 31"
  shows "num (take 16 (fold (\<lambda>i t. t[i := t ! i + 38 * t ! (i + 16)]) [0..<15] t)) = num (take 16 t) + 38 * num (drop 16 t)"
proof -
  let ?g = "\<lambda>k. if k < 15 then t ! (k + 16) else 0"
  have "take 16 (fold (\<lambda>i t. t[i := t ! i + 38 * t ! (i + 16)]) [0..<15] t) = map (\<lambda>k. t ! k + 38 * ?g k) [0..<16]"
    unfolding fold_high [OF assms order_refl] by (intro nth_equalityI) (auto simp del: upt_rec_numeral)
  moreover have "map ((!) t) [0..<16] = take 16 t" using assms by (intro nth_equalityI) (simp_all del: upt_rec_numeral)
  moreover have "map ?g [0..<16] = drop 16 t @ [0]" using assms by (intro nth_equalityI) (auto simp: nth_append less_Suc_eq add.commute simp del: upt_rec_numeral)
  ultimately show ?thesis by (simp only: num_lincomb) (simp add: num_append)
qed

lemma loose_nth: "loose a \<Longrightarrow> i < 16 \<Longrightarrow> \<bar>a ! i\<bar> \<le> 2 ^ 18"
  by (simp add: loose_def)

text \<open>No sum of products leaves 40 bits.\<close>

lemma prod_bound:
  assumes "loose a" "loose b"
  shows "length (gf_prod a b) = 31" "num (gf_prod a b) = num a * num b" "k < 31 \<Longrightarrow> \<bar>gf_prod a b ! k\<bar> \<le> 2 ^ 40"
proof -
  have l: "length a = 16" "length b = 16" using assms by (simp_all add: loose_def)
  have c: "\<bar>a ! i * b ! j\<bar> \<le> 2 ^ 18 * 2 ^ 18" if "i < 16" "j < 16" for i j
    unfolding abs_mult using loose_nth [OF assms(1) that(1)] loose_nth [OF assms(2) that(2)] by (intro mult_mono) simp_all
  have z: "0 \<le> (2 ^ 18 * 2 ^ 18 :: int)" by simp
  have "length (gf_prod a b) = 31 \<and> num (gf_prod a b) = num (take 16 a) * num b \<and> (\<forall>k<31. \<bar>gf_prod a b ! k\<bar> \<le> int 16 * (2 ^ 18 * 2 ^ 18))"
    unfolding gf_prod_def by (rule prod_outer [OF order_refl l c z])
  then show "length (gf_prod a b) = 31" "num (gf_prod a b) = num a * num b" "k < 31 \<Longrightarrow> \<bar>gf_prod a b ! k\<bar> \<le> 2 ^ 40"
    using l(1) by simp_all
qed

lemma gf_M_num:
  assumes "loose a" "loose b"
  shows "tight (gf_M a b)" "num (gf_M a b) mod P25519 = num a * num b mod P25519"
proof -
  let ?t = "gf_prod a b"
  note T = prod_bound [OF assms]
  define o1 where "o1 = take 16 (fold (\<lambda>i t. t[i := t ! i + 38 * t ! (i + 16)]) [0..<15] ?t)"
  have o1: "o1 = map (\<lambda>k. ?t ! k + (if k < 15 then 38 * ?t ! (k + 16) else 0)) [0..<16]"
    unfolding o1_def fold_high [OF T(1) order_refl] by (intro nth_equalityI) (auto simp del: upt_rec_numeral)
  have l: "length o1 = 16" by (simp add: o1 del: upt_rec_numeral)
  have "\<bar>x + (if c then 38 * y else 0)\<bar> \<le> 2 ^ 46" if "\<bar>x\<bar> \<le> 2 ^ 40" "c \<Longrightarrow> \<bar>y\<bar> \<le> 2 ^ 40" for x y :: int and c using that by auto
  then have b: "\<forall>x\<in>set o1. \<bar>x\<bar> \<le> 2 ^ 46" unfolding o1 using T(3) by (auto simp del: upt_rec_numeral power_numeral)
  have n: "\<bar>num o1\<bar> \<le> 2 ^ 47 * 65536 ^ 16" using num_bound [OF b] by (simp add: l)
  have M: "gf_M a b = car25519 (car25519 o1)" by (simp only: gf_M_def Let_def o1_def)
  show "tight (gf_M a b)" unfolding M by (rule car_twice_tight [OF l n])
  have "num a * num b = num (take 16 ?t) + 65536 ^ 16 * num (drop 16 ?t)"
    using T(1) num_append [of "take 16 ?t" "drop 16 ?t"] by (simp add: T(2))
  also have "\<dots> = num o1 + P25519 * (2 * num (drop 16 ?t))"
    unfolding o1_def wrap_high [OF T(1)] P25519_def by simp
  finally have "num a * num b mod P25519 = num o1 mod P25519" by simp
  then show "num (gf_M a b) mod P25519 = num a * num b mod P25519"
    unfolding M car25519_num(2) [OF car25519_num(3) [OF l]] car25519_num(2) [OF l] by simp
qed

lemma tight_loose: "tight a \<Longrightarrow> loose a"
proof -
  assume t: "tight a"
  then obtain x r where a: "a = x # r" by (cases a) (simp_all add: tight_def)
  then show "loose a" using t by (auto simp: tight_def loose_def)
qed

lemma tight_within: "tight a \<Longrightarrow> limbs_within 65574 a"
proof -
  assume t: "tight a"
  then obtain x r where a: "a = x # r" by (cases a) (simp_all add: tight_def)
  then show "limbs_within 65574 a" using t by (auto simp: tight_def limbs_within_def)
qed

lemma within_AZ:
  assumes "limbs_within m a" "limbs_within n b"
  shows "limbs_within (m + n) (gf_A a b)" "num (gf_A a b) = num a + num b" "limbs_within (m + n) (gf_Z a b)" "num (gf_Z a b) = num a - num b"
proof -
  have l: "length a = 16" "length b = 16" using assms by (simp_all add: limbs_within_def)
  have m: "map ((!) a) [0..<16] = a" "map ((!) b) [0..<16] = b" using l map_nth [of a] map_nth [of b] by (simp_all del: upt_rec_numeral)
  have "\<bar>x + y\<bar> \<le> m + n" "\<bar>x - y\<bar> \<le> m + n" if "\<bar>x\<bar> \<le> m" "\<bar>y\<bar> \<le> n" for x y :: int using that by auto
  then show "limbs_within (m + n) (gf_A a b)" "limbs_within (m + n) (gf_Z a b)"
    using assms by (auto simp: limbs_within_def gf_A_def gf_Z_def simp del: upt_rec_numeral)
  show "num (gf_A a b) = num a + num b" "num (gf_Z a b) = num a - num b"
    using num_lincomb [of "(!) a" 1 "(!) b" "[0..<16]"] num_lincomb [of "(!) a" "- 1" "(!) b" "[0..<16]"]
    unfolding m by (simp_all add: gf_A_def gf_Z_def del: upt_rec_numeral)
qed

lemma within_loose: "limbs_within n a \<Longrightarrow> n \<le> 2 ^ 18 \<Longrightarrow> loose a"
  by (auto simp: limbs_within_def loose_def)

lemma gf_AZ_num:
  assumes "tight a" "tight b"
  shows "loose (gf_A a b)" "num (gf_A a b) = num a + num b" "loose (gf_Z a b)" "num (gf_Z a b) = num a - num b"
  using within_AZ [OF tight_within [OF assms(1)] tight_within [OF assms(2)]] by (auto intro: within_loose)

section \<open>Inverting\<close>

lemma power_steps:
  assumes "loose i" "loose c" "num c mod P25519 = num i ^ e mod P25519"
  shows "loose (fold (\<lambda>a c. let c = gf_S c in if Q a then gf_M c i else c) as c) \<and> (as \<noteq> [] \<longrightarrow> tight (fold (\<lambda>a c. let c = gf_S c in if Q a then gf_M c i else c) as c)) \<and>
    num (fold (\<lambda>a c. let c = gf_S c in if Q a then gf_M c i else c) as c) mod P25519 =
      num i ^ fold (\<lambda>a e. if Q a then 2 * e + 1 else 2 * e) as e mod P25519"
  using assms(2,3)
proof (induction as arbitrary: c e)
  case (Cons a as)
  note S = gf_M_num [OF Cons.prems(1) Cons.prems(1)]
  have s: "num (gf_S c) mod P25519 = num i ^ (2 * e) mod P25519"
    unfolding gf_S_def S(2) using mod_mult_cong [OF Cons.prems(2) Cons.prems(2)] by (simp add: mult_2 power_add)
  note T = gf_M_num [OF tight_loose [OF S(1)] assms(1)]
  have t: "num (gf_M (gf_S c) i) mod P25519 = num i ^ (2 * e + 1) mod P25519"
    using T(2) mod_mult_cong [OF s refl, of "num i"] by (simp add: gf_S_def mult.commute)
  show ?case
    using Cons.IH [OF _ s] Cons.IH [OF _ t] S(1) T(1) by (cases "as = []") (simp_all add: gf_S_def Let_def tight_loose)
qed simp

lemma exponent_run:
  "(\<forall>a\<in>set as. Q a) \<Longrightarrow> fold (\<lambda>a e. if Q a then 2 * e + 1 else 2 * e) as (e :: nat) + 1 = 2 ^ length as * (e + 1)" for as :: "nat list"
proof (induction as arbitrary: e)
  case (Cons a as)
  then have "fold (\<lambda>a e. if Q a then 2 * e + 1 else 2 * e) as (2 * e + 1) + 1 = 2 ^ length as * (2 * e + 1 + 1)" by auto
  then show ?case using Cons.prems by simp
qed simp

lemma inv_exponent: "fold (\<lambda>a e. if a \<noteq> 2 \<and> a \<noteq> 4 then 2 * e + 1 else 2 * e) (rev [0..<254]) (1 :: nat) = 2 ^ 255 - 21"
proof -
  have s: "[0..<254] = [0, 1, 2, 3, 4] @ [5..<254]"
  proof -
    have "[0..<5] = [0, 1, 2, 3, 4 :: nat]" by (simp add: upt_rec)
    moreover have "[0..<5 + 249] = [0..<5] @ [5..<5 + 249 :: nat]" by (rule upt_add_eq_append) simp
    moreover have "5 + 249 = (254 :: nat)" by simp
    ultimately show ?thesis by (simp only:)
  qed
  have "fold (\<lambda>a e. if a \<noteq> 2 \<and> a \<noteq> 4 then 2 * e + 1 else 2 * e) (rev [5..<254]) (1 :: nat) + 1 = 2 ^ 249 * (1 + 1)"
    using exponent_run [of "rev [5..<254]" "\<lambda>a. a \<noteq> 2 \<and> a \<noteq> 4" 1] by (simp only: length_rev length_upt) (simp del: upt_rec_numeral)
  then have "fold (\<lambda>a e. if a \<noteq> 2 \<and> a \<noteq> 4 then 2 * e + 1 else 2 * e) (rev [5..<254]) (1 :: nat) = 2 ^ 250 - 1" by simp
  then show ?thesis by (simp only: s rev_append fold_append comp_apply) simp
qed

lemma inv25519_num:
  assumes "loose i"
  shows "tight (inv25519 i)" "num (inv25519 i) mod P25519 = num i ^ (2 ^ 255 - 21) mod P25519"
  using power_steps [OF assms assms, of 1 "\<lambda>a. a \<noteq> 2 \<and> a \<noteq> 4" "rev [0..<254]"] unfolding inv_exponent inv25519_def by (simp_all only: power_one_right) simp_all

section \<open>Selecting and packing\<close>

lemma sel25519_bit: "length p = length q \<Longrightarrow> sel25519 p q 0 = (p, q) \<and> sel25519 p q 1 = (q, p)"
proof (induction p q rule: list_induct2)
  case (Cons x p y q)
  have "x XOR (x XOR y) = y" "y XOR (x XOR y) = x" by (simp_all add: bit_eq_iff bit_xor_iff) blast+
  then show ?case using Cons by (simp add: sel25519_def Let_def)
qed (simp add: sel25519_def)

definition prime_limbs :: "int list" where
  "prime_limbs = 0xffed # replicate 14 0xffff @ [0x7fff]"

lemma div_negative: "- 65536 \<le> x \<Longrightarrow> x < 0 \<Longrightarrow> x div 65536 = (- 1 :: int)" "- 65536 \<le> x \<Longrightarrow> x < 0 \<Longrightarrow> x mod 65536 = x + (65536 :: int)"
proof -
  assume "- 65536 \<le> x" "x < 0"
  then have x: "0 \<le> x + 65536" "x + 65536 < 65536" by simp_all
  show "x div 65536 = - 1" using div_pos_pos_trivial [OF x] div_add_self2 [of 65536 x] by simp
  show "x mod 65536 = x + 65536" using mod_pos_pos_trivial [OF x] mod_add_self2 [of x 65536] by (simp only:)
qed

lemma div_signed: "- 65536 \<le> x \<Longrightarrow> x \<le> 65535 \<Longrightarrow> x div 65536 = - 1 \<or> x div 65536 = (0 :: int)"
  using div_negative(1) [of x] div_pos_pos_trivial [of x 65536] by (cases "x < 0") simp_all

lemma borrow: "- 65536 \<le> x \<Longrightarrow> x \<le> 65535 \<Longrightarrow> x div 65536 AND 1 = - (x div 65536)" "x AND 0xffff = x mod (65536 :: int)"
proof -
  assume "- 65536 \<le> x" "x \<le> 65535"
  then have "x div 65536 = - 1 \<or> x div 65536 = 0" by (rule div_signed)
  then show "x div 65536 AND 1 = - (x div 65536)" by auto
next
  have "x AND 0xffff = take_bit 16 x" by (simp only: take_bit_eq_mask mask_eq_exp_minus_1) simp
  then show "x AND 0xffff = x mod 65536" by (simp add: take_bit_eq_mod)
qed

text \<open>The borrows are the carries of the differences of the limbs.\<close>

lemma sub_steps:
  assumes "length t = 16" "\<forall>x\<in>set t. 0 \<le> x \<and> x < 65536" "1 \<le> n" "n \<le> 15" "d = map2 (-) t prime_limbs"
  shows "let x = d ! (n - 1) + num (take (n - 1) d) div 65536 ^ (n - 1) in - 65536 \<le> x \<and> x \<le> 65535 \<and>
    fold (\<lambda>i m. let m = m[i := t ! i - 0xffff - (m ! (i - 1) div 65536 AND 1)] in m[i - 1 := m ! (i - 1) AND 0xffff]) [1..<n] ((replicate 16 0)[0 := t ! 0 - 0xffed]) =
      digits (n - 1) (num (take (n - 1) d)) @ x # replicate (16 - n) 0"
  using assms(3,4)
proof (induction n rule: nat_induct_at_least)
  case base
  have "d ! 0 = t ! 0 - 0xffed" using assms(1,5) by (simp add: prime_limbs_def)
  moreover have "0 \<le> t ! 0" "t ! 0 < 65536" using assms(1,2) by simp_all
  ultimately show ?case by (simp add: digits_def numeral_eq_Suc)
next
  case (Suc n)
  define x where "x = d ! (n - 1) + num (take (n - 1) d) div 65536 ^ (n - 1)"
  have n: "n \<le> 14" "1 \<le> n" using Suc by simp_all
  have IH: "- 65536 \<le> x" "x \<le> 65535"
    "fold (\<lambda>i m. let m = m[i := t ! i - 0xffff - (m ! (i - 1) div 65536 AND 1)] in m[i - 1 := m ! (i - 1) AND 0xffff]) [1..<n] ((replicate 16 0)[0 := t ! 0 - 0xffed]) =
      digits (n - 1) (num (take (n - 1) d)) @ x # replicate (16 - n) 0"
    using Suc by (simp_all add: x_def Let_def)
  have l: "length d = 16" using assms(1,5) by (simp add: prime_limbs_def)
  have tn: "0 \<le> t ! n" "t ! n < 65536" using assms(1,2) n by simp_all
  have dn: "d ! n = t ! n - 0xffff" using assms(1,5) n by (simp add: prime_limbs_def nth_Cons nth_append split: nat.split)
  have s: "Suc (n - 1) = n" using n by simp
  have N: "num (take n d) = num (take (n - 1) d) + 65536 ^ (n - 1) * d ! (n - 1)" using num_take [of "n - 1" d] n l by (simp add: s)
  have c: "num (take n d) div 65536 ^ n = x div 65536"
  proof -
    have p: "65536 ^ n = 65536 * (65536 :: int) ^ (n - 1)" by (simp only: power_Suc [symmetric] s)
    show ?thesis unfolding N x_def p by (rule digits_more(3))
  qed
  have D: "digits n (num (take n d)) = digits (n - 1) (num (take (n - 1) d)) @ [x mod 65536]"
    using digits_snoc [of "n - 1" "num (take n d)"] unfolding s by (simp only: N digits_more x_def)
  have R: "replicate (16 - n) 0 = 0 # replicate (16 - Suc n) (0 :: int)" using n by (simp add: Suc_diff_Suc flip: replicate_Suc)
  have "- 1 \<le> x div 65536" "x div 65536 \<le> 0" using div_signed [OF IH(1,2)] by auto
  moreover have "(n < n - Suc 0) = False" by simp
  ultimately show ?case
    using IH n tn by (simp add: Let_def upt_Suc_append c D dn R nth_append list_update_append borrow s del: replicate_Suc)
qed

lemma num_prime: "num prime_limbs = P25519"
  by (simp add: prime_limbs_def P25519_def numeral_eq_Suc)

lemma num_diff: "length a = length b \<Longrightarrow> num (map2 (-) a b) = num a - num b"
  by (induction a b rule: list_induct2) simp_all

lemma digits_15: "0 \<le> v \<Longrightarrow> v < 65536 ^ 16 \<Longrightarrow> digits 15 v @ [v div 65536 ^ 15] = digits 16 v"
proof -
  assume v: "0 \<le> v" "v < 65536 ^ 16"
  then have "0 \<le> v div 65536 ^ 15" "v div 65536 ^ 15 < 65536" by (simp_all add: div_less_iff_less_mult)
  then have "v div 65536 ^ 15 mod 65536 = v div 65536 ^ 15" by (rule mod_pos_pos_trivial)
  then show ?thesis using digits_snoc [of 15 v] by simp
qed

text \<open>The difference as digits, with its sign on top.\<close>

lemma sub_prime_digits:
  assumes "0 \<le> v" "v < 65536 ^ 16"
  shows "sub_prime (digits 16 v) = digits 15 (v - P25519) @ [(v - P25519) div 65536 ^ 15]"
proof -
  let ?t = "digits 16 v" define d where "d = map2 (-) ?t prime_limbs"
  have lp: "length prime_limbs = 16" by (simp add: prime_limbs_def)
  have l: "length ?t = 16" "length d = 16" by (simp_all add: d_def lp)
  have nt: "num ?t = v" using num_digits [of 16 v] assms by simp
  have nd: "num d = v - P25519" using num_diff [of ?t prime_limbs] by (simp add: d_def lp nt num_prime)
  have t: "\<forall>x\<in>set ?t. 0 \<le> x \<and> x < 65536" using digit_range by blast
  define x where "x = d ! 14 + num (take 14 d) div 65536 ^ 14"
  have S: "- 65536 \<le> x" "x \<le> 65535"
    "fold (\<lambda>i m. let m = m[i := ?t ! i - 0xffff - (m ! (i - 1) div 65536 AND 1)] in m[i - 1 := m ! (i - 1) AND 0xffff]) [1..<15] ((replicate 16 0)[0 := ?t ! 0 - 0xffed]) =
      digits 14 (num (take 14 d)) @ x # [0]"
    using sub_steps [OF l(1) t _ order_refl d_def] by (simp_all add: Let_def x_def del: upt_rec_numeral)
  have N: "num (take 15 d) = num (take 14 d) + 65536 ^ 14 * d ! 14" "v - P25519 = num (take 15 d) + 65536 ^ 15 * d ! 15"
    using num_take [of 14 d] num_take [of 15 d] l(2) nd by simp_all
  have D: "digits 15 (v - P25519) = digits 14 (num (take 14 d)) @ [x mod 65536]"
    using digits_snoc [of 14 "num (take 15 d)"] unfolding N(2) digits_more(2) by (simp only: N(1) digits_more x_def) simp
  have c: "num (take 15 d) div 65536 ^ 15 = x div 65536"
    using digits_more(3) [of "num (take 14 d)" 14 "d ! 14"] by (simp add: N(1) x_def)
  have top: "(v - P25519) div 65536 ^ 15 = d ! 15 + x div 65536" unfolding N(2) digits_more(1) c ..
  have d15: "d ! 15 = ?t ! 15 - 0x7fff" using l(1) by (simp add: d_def lp prime_limbs_def nth_append)
  show ?thesis
    unfolding sub_prime_def Let_def [of "fold _ _ _"] S(3) D top d15
    using S(1,2) by (simp add: Let_def nth_append list_update_append borrow)
qed

lemma pack_step_digits:
  assumes "0 \<le> v" "v < 65536 ^ 16"
  shows "pack_step (digits 16 v) = digits 16 (if P25519 \<le> v then v - P25519 else v)"
proof -
  let ?w = "v - P25519"
  have m: "sub_prime (digits 16 v) ! 15 = ?w div 65536 ^ 15" "length (sub_prime (digits 16 v)) = 16"
    unfolding sub_prime_digits [OF assms] by (simp_all add: nth_append)
  have sel: "fst (sel25519 (digits 16 v) (sub_prime (digits 16 v)) 0) = digits 16 v" "fst (sel25519 (digits 16 v) (sub_prime (digits 16 v)) 1) = sub_prime (digits 16 v)"
    using sel25519_bit [of "digits 16 v" "sub_prime (digits 16 v)"] m(2) by simp_all
  show ?thesis
  proof (cases "P25519 \<le> v")
    case True
    then have w: "0 \<le> ?w" "?w < 65536 ^ 16" using assms by (simp_all add: P25519_def)
    have "0 \<le> ?w div 65536 ^ 15" "?w div 65536 ^ 15 < 65536" using w by (simp_all add: div_less_iff_less_mult)
    then have "?w div 65536 ^ 15 div 65536 = 0" by (rule div_pos_pos_trivial)
    then have "sub_prime (digits 16 v) ! 15 div 65536 AND 1 = 0" unfolding m(1) by simp
    then have "pack_step (digits 16 v) = sub_prime (digits 16 v)" using sel(2) by (simp add: pack_step_def Let_def)
    then show ?thesis using True unfolding sub_prime_digits [OF assms] digits_15 [OF w] by simp
  next
    case False
    then have w: "- P25519 \<le> ?w" "?w < 0" using assms by simp_all
    have "?w div 65536 ^ 15 < 0" using w(2) by (simp add: div_neg_pos_less0)
    moreover have "- 65536 \<le> ?w div 65536 ^ 15" using zdiv_mono1 [OF w(1), of "65536 ^ 15"] by (simp add: P25519_def)
    moreover have "q div 65536 = - 1" if "q < 0" "- 65536 \<le> q" for q :: int using that by (intro div_negative)
    ultimately have "?w div 65536 ^ 15 div 65536 = - 1" by blast
    then have "sub_prime (digits 16 v) ! 15 div 65536 AND 1 = 1" unfolding m(1) by simp
    then have "pack_step (digits 16 v) = digits 16 v" using sel(1) by (simp add: pack_step_def Let_def)
    then show ?thesis using False by simp
  qed
qed

text \<open>After one pass from a tight number the limbs are digits.\<close>

lemma car_digits:
  assumes "tight n"
  shows "\<exists>v. 0 \<le> v \<and> v < 65536 ^ 16 \<and> v mod P25519 = num n mod P25519 \<and> car25519 n = digits 16 v"
proof -
  have l: "length n = 16" using assms by (simp add: tight_def)
  obtain x r where n: "n = x # r" using l by (cases n) simp_all
  have x: "- 38 \<le> x" "x < 65536 + 38" and r: "\<forall>y\<in>set r. 0 \<le> y \<and> y < 65536" "length r = 15" using assms l by (simp_all add: n tight_def)
  let ?R = "num r" and ?v = "num n"
  have R: "0 \<le> ?R" "?R < 65536 ^ 15" using digits_num [OF r(1)] num_digits [of 15 ?R] r(2)
      pos_mod_sign [of "65536 ^ 15" ?R] pos_mod_bound [of "65536 ^ 15" ?R] by simp_all
  have v: "- 38 \<le> ?v" "?v < 65536 ^ 16 + 38" using x R by (simp_all add: n)
  define c where "c = car25519 n"
  have c: "c = (?v mod 65536 + 38 * (?v div 65536 ^ 16)) # digits 15 (?v div 65536)"
    unfolding c_def car25519_digits [OF l] using digits_Suc [of 15 ?v] by simp
  have "0 \<le> ?v mod 65536 + 38 * (?v div 65536 ^ 16) \<and> ?v mod 65536 + 38 * (?v div 65536 ^ 16) < 65536"
  proof -
    consider "?v < 0" | "0 \<le> ?v" "?v < 65536 ^ 16" | "65536 ^ 16 \<le> ?v" by linarith
    then show ?thesis
    proof cases
      case 1
      have "(?v + 65536 ^ 16) div 65536 ^ 16 = 0" using 1 v(1) by (intro div_pos_pos_trivial) simp_all
      then have "?v div 65536 ^ 16 = - 1" using div_add_self2 [of "65536 ^ 16" ?v] by simp
      moreover have "w mod 65536 = w + 65536" if "w < 0" "- 38 \<le> w" for w :: int using that by (intro div_negative) simp_all
      then have "?v mod 65536 = ?v + 65536" using 1 v(1) by blast
      ultimately show ?thesis using 1 v(1) by simp
    next
      case 2
      then have "?v div 65536 ^ 16 = 0" by (rule div_pos_pos_trivial)
      then show ?thesis by simp
    next
      case 3
      define w where "w = ?v - 65536 ^ 16"
      have w: "0 \<le> w" "w < 38" "?v = w + 65536 ^ 16" using 3 v(2) by (simp_all add: w_def)
      have "w div 65536 ^ 16 = 0" using w(1,2) by (intro div_pos_pos_trivial) simp_all
      then have "?v div 65536 ^ 16 = 1" unfolding w(3) using div_add_self2 [of "65536 ^ 16" w] by simp
      moreover have "?v mod 65536 = w" unfolding w(3) using w(1,2) mod_mult_self1 [of w "65536 ^ 15" 65536] by simp
      ultimately show ?thesis using w(1,2) by simp
    qed
  qed
  then have "\<forall>y\<in>set c. 0 \<le> y \<and> y < 65536" unfolding c using digit_range by simp
  moreover have lc: "length c = 16" unfolding c by simp
  ultimately have C: "digits 16 (num c) = c" using digits_num by metis
  have w: "0 \<le> num c" "num c < 65536 ^ 16" using num_digits [of 16 "num c"] pos_mod_sign [of "65536 ^ 16" "num c"] pos_mod_bound [of "65536 ^ 16" "num c"] unfolding C by simp_all
  have "num c mod P25519 = ?v mod P25519" unfolding c_def by (rule car25519_num(2) [OF l])
  then show ?thesis using w C by (metis c_def)
qed

lemma bytes_of_digits:
  "0 \<le> v \<Longrightarrow> concat (map (\<lambda>v. [word_of_int (v AND 0xff), word_of_int (v div 256)]) (digits n v)) = le_bytes (2 * n) (nat v)"
proof (induction n arbitrary: v)
  case 0
  then show ?case by (simp add: digits_def le_bytes_def)
next
  case (Suc n)
  have b: "x AND 0xff = x mod (256 :: int)" for x
  proof -
    have "x AND 0xff = take_bit 8 x" by (simp only: take_bit_eq_mask mask_eq_exp_minus_1) simp
    then show ?thesis by (simp add: take_bit_eq_mod)
  qed
  have w: "(word_of_int x :: u8) = word_of_int y" if "x mod 256 = y mod 256" for x y using that by (simp add: word_of_int_eq_iff take_bit_eq_mod)
  have n: "word_of_nat (nat x) = (word_of_int x :: u8)" "nat x div 256 = nat (x div 256)" if "0 \<le> x" for x using that by (simp_all add: nat_div_distrib)
  have "v mod 65536 mod 256 = v mod 256" by (simp add: mod_mod_cancel)
  then have "(word_of_int (v mod 65536 AND 0xff) :: u8) = word_of_int v" by (intro w) (simp add: b)
  moreover have "v mod 65536 div 256 mod 256 = v div 256 mod 256"
    using zmod_zmult2_eq [of 256 v 256] by simp
  then have "(word_of_int (v mod 65536 div 256) :: u8) = word_of_int (v div 256)" by (intro w)
  moreover have "v div 65536 = v div 256 div 256" by (simp flip: zdiv_zmult2_eq)
  moreover have "0 \<le> v div 256" "0 \<le> v div 65536" using Suc.prems by (simp_all add: pos_imp_zdiv_nonneg_iff)
  ultimately show ?case using Suc by (simp add: digits_Suc le_bytes_Suc n)
qed

text \<open>Packing gives the bytes of the least residue.\<close>

lemma pack25519_num:
  assumes "loose n"
  shows "pack25519 n = le_bytes 32 (nat (num n mod P25519))"
proof -
  have l: "length n = 16" "\<forall>x\<in>set n. \<bar>x\<bar> \<le> 2 ^ 18" using assms by (simp_all add: loose_def)
  have "\<bar>num n\<bar> \<le> 2 ^ 18 * (65536 ^ 16 - 1)" using num_bound [OF l(2)] l(1) by simp
  then have "\<bar>num n\<bar> \<le> 2 ^ 47 * 65536 ^ 16" by simp
  note t = car_twice_tight [OF l(1) this]
  have m: "num (car25519 (car25519 n)) mod P25519 = num n mod P25519" using car25519_num(2,3) [OF l(1)] car25519_num(2) by simp
  obtain v where v: "0 \<le> v" "v < 65536 ^ 16" "v mod P25519 = num n mod P25519" "car25519 (car25519 (car25519 n)) = digits 16 v"
    using car_digits [OF t] m by auto
  define u where "u = (if P25519 \<le> v then v - P25519 else v)"
  have u: "0 \<le> u" "u < 65536 ^ 16" using v(1,2) by (auto simp: u_def P25519_def)
  have "(if P25519 \<le> u then u - P25519 else u) = v mod P25519"
  proof -
    have "v < 3 * P25519" using v(2) by (simp add: P25519_def)
    then consider "v < P25519" | "P25519 \<le> v" "v < 2 * P25519" | "2 * P25519 \<le> v" "v < 3 * P25519" by linarith
    then show ?thesis
    proof cases
      case 1
      then show ?thesis using v(1) by (simp add: u_def)
    next
      case 2
      then have "(v - P25519) mod P25519 = v - P25519" by (intro mod_pos_pos_trivial) simp_all
      then have "v mod P25519 = v - P25519" by simp
      then show ?thesis using 2 by (simp add: u_def)
    next
      case 3
      have "v mod P25519 = (v - 2 * P25519) mod P25519" using mod_mult_self2 [of "v - 2 * P25519" P25519 2] by simp
      also have "\<dots> = v - 2 * P25519" using 3 by (intro mod_pos_pos_trivial) simp_all
      finally show ?thesis using 3 by (simp add: u_def P25519_def)
    qed
  qed
  then have "pack_step (pack_step (digits 16 v)) = digits 16 (v mod P25519)"
    using pack_step_digits [OF v(1,2)] pack_step_digits [OF u] by (simp flip: u_def)
  moreover have "0 \<le> v mod P25519" by (simp add: P25519_def)
  ultimately show ?thesis using bytes_of_digits [of "v mod P25519" 16] by (simp add: pack25519_def Let_def v(3,4))
qed

end
