(* ===== verification/Tweet_Hash.thy ===== *)
theory Tweet_Hash
  imports Crypto
begin

text \<open>
  SHA-512 of \<^verbatim>\<open>c/lib/ed25519/src/tweetnacl.c\<close>: the code works on a window of 16 words that it rolls in
  place, moves the eight variables in an array, and hashes the message where it lies and only its
  end from a buffer. It is equivalent to the standard's schedule of 80 words and to the padded message.
\<close>

section \<open>The code\<close>

definition dl64 :: "bytes \<Rightarrow> u64" where
  "dl64 x = fold (\<lambda>i u. push_bit 8 u OR ucast (bget x i)) [0..<8] 0"

definition ts64 :: "u64 \<Rightarrow> bytes" where
  "ts64 u = map (\<lambda>i. ucast (drop_bit (8 * (7 - i)) u)) [0..<8]"

definition R64 :: "u64 \<Rightarrow> nat \<Rightarrow> u64" where "R64 x c = drop_bit c x OR push_bit (64 - c) x"
definition Ch :: "u64 \<Rightarrow> u64 \<Rightarrow> u64 \<Rightarrow> u64" where "Ch x y z = (x AND y) XOR (NOT x AND z)"
definition Maj :: "u64 \<Rightarrow> u64 \<Rightarrow> u64 \<Rightarrow> u64" where "Maj x y z = (x AND y) XOR (x AND z) XOR (y AND z)"
definition Sigma0 :: "u64 \<Rightarrow> u64" where "Sigma0 x = R64 x 28 XOR R64 x 34 XOR R64 x 39"
definition Sigma1 :: "u64 \<Rightarrow> u64" where "Sigma1 x = R64 x 14 XOR R64 x 18 XOR R64 x 41"
definition sigma0 :: "u64 \<Rightarrow> u64" where "sigma0 x = R64 x 1 XOR R64 x 8 XOR drop_bit 7 x"
definition sigma1 :: "u64 \<Rightarrow> u64" where "sigma1 x = R64 x 19 XOR R64 x 61 XOR drop_bit 6 x"

text \<open>The table, in the rows of the source.\<close>

definition K512 :: "u64 list" where
  "K512 = concat [
    [0x428a2f98d728ae22, 0x7137449123ef65cd, 0xb5c0fbcfec4d3b2f, 0xe9b5dba58189dbbc],
    [0x3956c25bf348b538, 0x59f111f1b605d019, 0x923f82a4af194f9b, 0xab1c5ed5da6d8118],
    [0xd807aa98a3030242, 0x12835b0145706fbe, 0x243185be4ee4b28c, 0x550c7dc3d5ffb4e2],
    [0x72be5d74f27b896f, 0x80deb1fe3b1696b1, 0x9bdc06a725c71235, 0xc19bf174cf692694],
    [0xe49b69c19ef14ad2, 0xefbe4786384f25e3, 0x0fc19dc68b8cd5b5, 0x240ca1cc77ac9c65],
    [0x2de92c6f592b0275, 0x4a7484aa6ea6e483, 0x5cb0a9dcbd41fbd4, 0x76f988da831153b5],
    [0x983e5152ee66dfab, 0xa831c66d2db43210, 0xb00327c898fb213f, 0xbf597fc7beef0ee4],
    [0xc6e00bf33da88fc2, 0xd5a79147930aa725, 0x06ca6351e003826f, 0x142929670a0e6e70],
    [0x27b70a8546d22ffc, 0x2e1b21385c26c926, 0x4d2c6dfc5ac42aed, 0x53380d139d95b3df],
    [0x650a73548baf63de, 0x766a0abb3c77b2a8, 0x81c2c92e47edaee6, 0x92722c851482353b],
    [0xa2bfe8a14cf10364, 0xa81a664bbc423001, 0xc24b8b70d0f89791, 0xc76c51a30654be30],
    [0xd192e819d6ef5218, 0xd69906245565a910, 0xf40e35855771202a, 0x106aa07032bbd1b8],
    [0x19a4c116b8d2d0c8, 0x1e376c085141ab53, 0x2748774cdf8eeb99, 0x34b0bcb5e19b48a8],
    [0x391c0cb3c5c95a63, 0x4ed8aa4ae3418acb, 0x5b9cca4f7763e373, 0x682e6ff3d6b2b8a3],
    [0x748f82ee5defb2fc, 0x78a5636f43172f60, 0x84c87814a1f0ab72, 0x8cc702081a6439ec],
    [0x90befffa23631e28, 0xa4506cebde82bde9, 0xbef9a3f7b2c67915, 0xc67178f2e372532b],
    [0xca273eceea26619c, 0xd186b8c721c0c207, 0xeada7dd6cde0eb1e, 0xf57d4f7fee6ed178],
    [0x06f067aa72176fba, 0x0a637dc5a2c898a6, 0x113f9804bef90dae, 0x1b710b35131c471b],
    [0x28db77f523047d84, 0x32caab7b40c72493, 0x3c9ebe0a15c9bebc, 0x431d67c49c100d4c],
    [0x4cc5d4becb3e42b6, 0x597f299cfc657e2a, 0x5fcb6fab3ad6faec, 0x6c44198c4a475817]]"

definition iv512 :: bytes where
  "iv512 = [
    0x6a, 0x09, 0xe6, 0x67, 0xf3, 0xbc, 0xc9, 0x08,
    0xbb, 0x67, 0xae, 0x85, 0x84, 0xca, 0xa7, 0x3b,
    0x3c, 0x6e, 0xf3, 0x72, 0xfe, 0x94, 0xf8, 0x2b,
    0xa5, 0x4f, 0xf5, 0x3a, 0x5f, 0x1d, 0x36, 0xf1,
    0x51, 0x0e, 0x52, 0x7f, 0xad, 0xe6, 0x82, 0xd1,
    0x9b, 0x05, 0x68, 0x8c, 0x2b, 0x3e, 0x6c, 0x1f,
    0x1f, 0x83, 0xd9, 0xab, 0xfb, 0x41, 0xbd, 0x6b,
    0x5b, 0xe0, 0xcd, 0x19, 0x13, 0x7e, 0x21, 0x79]"

text \<open>One round on the array: what is computed goes to the copy, which is then moved up by one.\<close>

definition hash_vars :: "u64 \<Rightarrow> u64 list \<Rightarrow> u64 list" where
  "hash_vars kw a =
     (let t = a ! 7 + Sigma1 (a ! 4) + Ch (a ! 4) (a ! 5) (a ! 6) + kw;
          b = a[7 := t + Sigma0 (a ! 0) + Maj (a ! 0) (a ! 1) (a ! 2)];
          b = b[3 := b ! 3 + t]
      in fold (\<lambda>j a. a[(j + 1) mod 8 := b ! j]) [0..<8] a)"

definition hash_roll :: "u64 list \<Rightarrow> u64 list" where
  "hash_roll w =
     fold (\<lambda>j w. w[j := w ! j + (w ! ((j + 9) mod 16) + sigma0 (w ! ((j + 1) mod 16)) + sigma1 (w ! ((j + 14) mod 16)))]) [0..<16] w"

definition hash_round :: "nat \<Rightarrow> u64 list \<times> u64 list \<Rightarrow> u64 list \<times> u64 list" where
  "hash_round i aw =
     (case aw of (a, w) \<Rightarrow> (hash_vars (K512 ! i + w ! (i mod 16)) a, if i mod 16 = 15 then hash_roll w else w))"

definition hash_block :: "u64 list \<Rightarrow> bytes \<Rightarrow> u64 list" where
  "hash_block z m =
     (let w = map (\<lambda>i. dl64 (drop (8 * i) m)) [0..<16]; (a, w) = fold hash_round [0..<80] (z, w) in map2 (+) a z)"

function hash_loop :: "u64 list \<Rightarrow> bytes \<Rightarrow> u64 list" where
  "hash_loop z m = (if 128 \<le> length m then hash_loop (hash_block z m) (drop 128 m) else z)"
  by auto
termination by (relation "measure (\<lambda>(z, m). length m)") auto

declare hash_loop.simps [simp del]

definition crypto_hashblocks :: "bytes \<Rightarrow> bytes \<Rightarrow> bytes" where
  "crypto_hashblocks x m = concat (map ts64 (hash_loop (map (\<lambda>i. dl64 (drop (8 * i) x)) [0..<8]) m))"

text \<open>The buffer with the end of the message and its length, which is an unsigned 64-bit number.\<close>

definition hash_tail :: "bytes \<Rightarrow> u64 \<Rightarrow> bytes" where
  "hash_tail m b =
     (let n = length m; x = blit (zeros 256) 0 (m @ [128]);
          n = 256 - 128 * (if n < 112 then 1 else 0);
          x = x[n - 9 := ucast (drop_bit 61 b)]
      in take n (blit x (n - 8) (ts64 (push_bit 3 b))))"

definition tweet_hash :: "bytes \<Rightarrow> bytes" where
  "tweet_hash m =
     (let h = crypto_hashblocks iv512 m; tail = drop (length m - length m mod 128) m
      in crypto_hashblocks h (hash_tail tail (word_of_nat (length m))))"

section \<open>SHA-512 of the standard\<close>

fun sched :: "(nat \<Rightarrow> u64) \<Rightarrow> nat \<Rightarrow> u64" where
  "sched M t = (if t < 16 then M t else sigma1 (sched M (t - 2)) + sched M (t - 7) + sigma0 (sched M (t - 15)) + sched M (t - 16))"

declare sched.simps [simp del]

fun sha_step :: "u64 \<Rightarrow> u64 list \<Rightarrow> u64 list" where
  "sha_step kw [a, b, c, d, e, f, g, h] =
     (let t1 = h + Sigma1 e + Ch e f g + kw; t2 = Sigma0 a + Maj a b c in [t1 + t2, a, b, c, d + t1, e, f, g])"
| "sha_step kw _ = []"

definition sha_block :: "u64 list \<Rightarrow> bytes \<Rightarrow> u64 list" where
  "sha_block H m = map2 (+) (fold (\<lambda>t. sha_step (K512 ! t + sched (\<lambda>i. dl64 (drop (8 * i) m)) t)) [0..<80] H) H"

text \<open>A one, zeros and the number of bits in 16 bytes, to a multiple of 128 bytes.\<close>

definition sha_pad :: "bytes \<Rightarrow> bytes" where
  "sha_pad m =
     m @ [128] @ zeros ((111 + 128 - length m mod 128) mod 128) @ rev (map (\<lambda>i. word_of_nat (8 * length m div 256 ^ i)) [0..<16])"

function sha_fold :: "u64 list \<Rightarrow> bytes \<Rightarrow> u64 list" where
  "sha_fold H m = (if m = [] then H else sha_fold (sha_block H (take 128 m)) (drop 128 m))"
  by auto
termination by (relation "measure (\<lambda>(z, m). length m)") auto

declare sha_fold.simps [simp del]

definition sha512 :: "bytes \<Rightarrow> bytes" where
  "sha512 m = concat (map ts64 (sha_fold [0x6a09e667f3bcc908, 0xbb67ae8584caa73b, 0x3c6ef372fe94f82b, 0xa54ff53a5f1d36f1,
     0x510e527fade682d1, 0x9b05688c2b3e6c1f, 0x1f83d9abfb41bd6b, 0x5be0cd19137e2179] (sha_pad m)))"

section \<open>A block\<close>

lemma vars_at: "hash_vars kw [a, b, c, d, e, f, g, h] = sha_step kw [a, b, c, d, e, f, g, h]"
  by (simp add: hash_vars_def Let_def upt_rec add.assoc)

lemma vars_step: "length a = 8 \<Longrightarrow> hash_vars kw a = sha_step kw a \<and> length (sha_step kw a) = 8"
  by (auto simp: numeral_eq_Suc length_Suc_conv vars_at Let_def)

text \<open>The window: after \<open>j\<close> steps of the roll the first \<open>j\<close> words are those of the next sixteen.\<close>

definition hash_window :: "(nat \<Rightarrow> u64) \<Rightarrow> nat \<Rightarrow> u64 list" where
  "hash_window W q = map (\<lambda>j. W (16 * q + j)) [0..<16]"

lemma roll_steps:
  assumes "j \<le> 16"
  shows "fold (\<lambda>j w. w[j := w ! j + (w ! ((j + 9) mod 16) + sigma0 (w ! ((j + 1) mod 16)) + sigma1 (w ! ((j + 14) mod 16)))]) [0..<j] (hash_window (sched M) q) =
    map (\<lambda>i. sched M (16 * q + i + (if i < j then 16 else 0))) [0..<16]"
  using assms
proof (induction j)
  case 0
  then show ?case by (simp add: hash_window_def)
next
  case (Suc j)
  let ?w = "map (\<lambda>i. sched M (16 * q + i + (if i < j then 16 else 0))) [0..<16]"
  have j: "j < 16" using Suc.prems by simp
  have a: "?w ! ((j + 9) mod 16) = sched M (16 * q + j + 9)" "?w ! ((j + 1) mod 16) = sched M (16 * q + j + 1)"
    "?w ! ((j + 14) mod 16) = sched M (16 * q + j + 14)" "?w ! j = sched M (16 * q + j)"
    using j by (auto simp: mod_if intro!: arg_cong [where f = "sched M"])
  have s: "sched M (16 * q + j + 16) = sched M (16 * q + j) + (sched M (16 * q + j + 9) + sigma0 (sched M (16 * q + j + 1)) + sigma1 (sched M (16 * q + j + 14)))"
    by (subst sched.simps) (simp add: ac_simps)
  show ?case
    using Suc.IH j a s by (auto simp del: upt_Suc simp: upt_Suc_append intro!: nth_equalityI simp: nth_list_update)
qed

lemma roll: "hash_roll (hash_window (sched M) q) = hash_window (sched M) (Suc q)"
  unfolding hash_roll_def using roll_steps [of 16 M q] by (auto simp: hash_window_def add_ac)

lemma hash_rounds:
  assumes "n \<le> 80" "length z = 8"
  shows "fold hash_round [0..<n] (z, hash_window (sched M) 0) = (fold (\<lambda>t. sha_step (K512 ! t + sched M t)) [0..<n] z, hash_window (sched M) (n div 16)) \<and>
    length (fold (\<lambda>t. sha_step (K512 ! t + sched M t)) [0..<n] z) = 8"
  using assms(1)
proof (induction n)
  case (Suc n)
  have "hash_window (sched M) (n div 16) ! (n mod 16) = sched M n" by (simp add: hash_window_def)
  moreover have "hash_window (sched M) (Suc n div 16) = (if n mod 16 = 15 then hash_roll (hash_window (sched M) (n div 16)) else hash_window (sched M) (n div 16))"
    by (simp add: roll) (simp add: div_Suc mod_Suc split: if_splits)
  ultimately show ?case using Suc by (auto simp: hash_round_def vars_step)
qed (simp add: assms(2))

lemma block_step:
  assumes "length z = 8"
  shows "hash_block z m = sha_block z m" "length (sha_block z m) = 8"
proof -
  let ?M = "\<lambda>i. dl64 (drop (8 * i) m)"
  have w: "map ?M [0..<16] = hash_window (sched ?M) 0" by (simp add: hash_window_def sched.simps)
  note R = hash_rounds [OF order_refl assms, of ?M]
  show "hash_block z m = sha_block z m" unfolding hash_block_def sha_block_def Let_def w using R by simp
  show "length (sha_block z m) = 8" using R assms by (simp add: sha_block_def)
qed

section \<open>Bytes of words\<close>

lemma sched_cong: "(\<And>i. i < 16 \<Longrightarrow> M i = M' i) \<Longrightarrow> sched M t = sched M' t"
proof (induction t rule: less_induct)
  case (less t)
  then show ?case by (subst (1 2) sched.simps) simp
qed

lemma dl64_take: "8 \<le> n \<Longrightarrow> dl64 (take n b) = dl64 b"
  unfolding dl64_def by (intro fold_cong) (auto simp: bget_def)

lemma sha_block_take: "128 \<le> length m \<Longrightarrow> sha_block z (take 128 m) = sha_block z m"
proof -
  have "dl64 (drop (8 * i) (take 128 m)) = dl64 (drop (8 * i) m)" if "i < 16" for i
    using dl64_take [of "128 - 8 * i" "drop (8 * i) m"] that by (simp add: drop_take)
  then have "sched (\<lambda>i. dl64 (drop (8 * i) (take 128 m))) = sched (\<lambda>i. dl64 (drop (8 * i) m))" by (intro ext sched_cong)
  then show ?thesis by (simp add: sha_block_def)
qed

lemma read_back: "dl64 (ts64 u @ r) = u"
proof -
  have b: "bget (ts64 u @ r) i = ucast (drop_bit (8 * (7 - i)) u)" if "i < 8" for i
    using that by (simp add: bget_def ts64_def nth_append)
  have "fold (\<lambda>i v. push_bit 8 v OR ucast (bget (ts64 u @ r) i)) [0..<i] 0 = drop_bit (64 - 8 * i) u" if "i \<le> 8" for i
    using that
  proof (induction i)
    case 0
    then show ?case by (simp add: bit_eq_iff bit_drop_bit_eq)
  next
    case (Suc i)
    then have e: "64 - 8 * i = 8 + 8 * (7 - i)" "64 - 8 * Suc i = 8 * (7 - i)" by simp_all
    have "push_bit 8 (drop_bit (8 + k) u) OR ucast (ucast (drop_bit k u) :: u8) = drop_bit k u" for k
      by (rule bit_word_eqI) (auto simp: bit_or_iff bit_push_bit_iff bit_drop_bit_eq bit_ucast_iff)
    then show ?case using Suc b [of i] by (simp only: upt_Suc_append fold_append fold_simps comp_apply e)
  qed
  from this [of 8] show ?thesis by (simp add: dl64_def)
qed

lemma length_ts64 [simp]: "length (ts64 u) = 8"
  by (simp add: ts64_def)

lemma words_back: "map (\<lambda>i. dl64 (drop (8 * i) (concat (map ts64 h)))) [0..<length h] = h"
proof (induction h)
  case (Cons u h)
  have "map (\<lambda>i. dl64 (drop (8 * i) (concat (map ts64 (u # h))))) [0..<length (u # h)] =
      dl64 (ts64 u @ concat (map ts64 h)) # map (\<lambda>i. dl64 (drop (8 * i) (concat (map ts64 h)))) [0..<length h]"
    by (simp add: upt_conv_Cons map_Suc_upt [symmetric] del: upt_Suc)
  then show ?case using Cons read_back by simp
qed simp

section \<open>The whole message\<close>

lemma sha_fold_append: "128 dvd length a \<Longrightarrow> sha_fold z (a @ b) = sha_fold (sha_fold z a) b"
proof (induction z a rule: sha_fold.induct)
  case (1 z a)
  show ?case
  proof (cases "a = []")
    case False
    then have l: "128 \<le> length a" using 1(2) by (auto dest: dvd_imp_le)
    then have "128 dvd length (drop 128 a)" using 1(2) by simp
    moreover have "sha_fold z (a @ b) = sha_fold (sha_block z (take 128 a)) (drop 128 a @ b)" using False l by (subst sha_fold.simps) simp
    moreover have "sha_fold z a = sha_fold (sha_block z (take 128 a)) (drop 128 a)" using False by (subst sha_fold.simps) simp
    ultimately show ?thesis using 1(1) False by simp
  qed (simp add: sha_fold.simps)
qed

lemma hash_loop_fold:
  "length z = 8 \<Longrightarrow> hash_loop z m = sha_fold z (take (length m - length m mod 128) m) \<and> length (hash_loop z m) = 8"
proof (induction z m rule: hash_loop.induct)
  case (1 z m)
  show ?case
  proof (cases "128 \<le> length m")
    case True
    let ?n = "length m - length m mod 128"
    have n: "128 \<le> ?n" "(length m - 128) mod 128 = length m mod 128" using True by (simp_all add: le_mod_geq le_div_geq)
    then have t: "take 128 (take ?n m) = take 128 m" "drop 128 (take ?n m) = take (length (drop 128 m) - length (drop 128 m) mod 128) (drop 128 m)"
      by (simp_all add: min_absorb1 drop_take add.commute)
    have "take ?n m \<noteq> []" using n True by auto
    then have a: "sha_fold z (take ?n m) = sha_fold (sha_block z m) (drop 128 (take ?n m))"
      using True by (subst sha_fold.simps) (simp only: t(1) sha_block_take [OF True] if_False)
    have b: "hash_loop z m = hash_loop (sha_block z m) (drop 128 m)" using True by (subst hash_loop.simps) (simp add: block_step(1) [OF 1(2)])
    show ?thesis unfolding a b t(2) by (rule 1(1) [OF True, unfolded block_step(1) [OF 1(2)], OF block_step(2) [OF 1(2)]])
  next
    case False
    then show ?thesis using 1(2) by (subst (1 2) hash_loop.simps) (simp add: sha_fold.simps)
  qed
qed

text \<open>The end of the message in the buffer is the end of the padded message.\<close>

lemma length_byte:
  assumes "n < 2 ^ 64"
  shows "i < 8 \<Longrightarrow> (word_of_nat (8 * n div 256 ^ i) :: u8) = ucast (drop_bit (8 * i) (push_bit 3 (word_of_nat n :: u64)))"
    "(word_of_nat (8 * n div 256 ^ 8) :: u8) = ucast (drop_bit 61 (word_of_nat n :: u64))" "9 \<le> i \<Longrightarrow> 8 * n div 256 ^ i = 0"
proof -
  have d: "unat (drop_bit k x) = drop_bit k (unat x)" for k and x :: u64
    using unsigned_less [of x, where ?'a = nat] by (simp only: unsigned_drop_bit_eq) (simp add: take_bit_nat_eq_self)
  have p: "256 ^ i = (2 :: nat) ^ (8 * i)" for i by (simp add: power_mult)
  have n: "unat (word_of_nat n :: u64) = n" using assms by (simp add: unsigned_of_nat take_bit_nat_eq_self)
  have "(ucast (drop_bit (8 * i) (push_bit 3 (word_of_nat n :: u64))) :: u8) = word_of_nat (drop_bit (8 * i) (take_bit 64 (8 * n)))" for i
  proof -
    have "unat (push_bit 3 (word_of_nat n :: u64)) = take_bit 64 (8 * n)"
    proof -
      have "push_bit 3 (word_of_nat n :: u64) = word_of_nat (8 * n)" by (simp add: push_bit_eq_mult mult.commute)
      then show ?thesis by (simp only: unsigned_of_nat) simp
    qed
    moreover have "(ucast y :: u8) = word_of_nat (unat y)" for y :: u64 by simp
    ultimately show ?thesis by (simp only: d)
  qed
  then show "(word_of_nat (8 * n div 256 ^ i) :: u8) = ucast (drop_bit (8 * i) (push_bit 3 (word_of_nat n :: u64)))" if "i < 8"
    using that by (simp add: word_of_nat_eq_iff p take_bit_drop_bit min_def flip: drop_bit_eq_div)
  show "(word_of_nat (8 * n div 256 ^ 8) :: u8) = ucast (drop_bit 61 (word_of_nat n :: u64))"
  proof -
    have "8 * n div 256 ^ 8 = drop_bit 61 n" by (simp add: drop_bit_eq_div)
    moreover have "(ucast y :: u8) = word_of_nat (unat y)" for y :: u64 by simp
    ultimately show ?thesis by (simp only: d n)
  qed
  show "8 * n div 256 ^ i = 0" if "9 \<le> i"
  proof -
    have "8 * n < (256 :: nat) ^ 9" using assms by simp
    also have "\<dots> \<le> 256 ^ i" using that by (intro power_increasing) simp_all
    finally show ?thesis by simp
  qed
qed

lemma length_bytes:
  assumes "n < 2 ^ 64"
  shows "rev (map (\<lambda>i. word_of_nat (8 * n div 256 ^ i) :: u8) [0..<16]) =
    zeros 7 @ [ucast (drop_bit 61 (word_of_nat n :: u64))] @ ts64 (push_bit 3 (word_of_nat n))"
proof -
  have l: "[0..<16] = [0..<8] @ [8] @ [9..<16]" by (simp add: upt_rec)
  have "rev (map (\<lambda>i. word_of_nat (8 * n div 256 ^ i) :: u8) [9..<16]) = zeros 7"
  proof -
    have "map (\<lambda>i. word_of_nat (8 * n div 256 ^ i) :: u8) [9..<16] = map (\<lambda>_. 0) [9..<16]"
      by (intro map_cong refl) (use length_byte(3) [OF assms] in \<open>simp del: upt_rec_numeral\<close>)
    then show ?thesis by (simp only: map_replicate_const length_upt zeros_def rev_replicate) simp
  qed
  moreover have "rev (map (\<lambda>i. word_of_nat (8 * n div 256 ^ i) :: u8) [0..<8]) = ts64 (push_bit 3 (word_of_nat n))"
  proof -
    have "ts64 u = rev (map (\<lambda>i. ucast (drop_bit (8 * i) u)) [0..<8])" for u by (simp add: ts64_def upt_rec)
    then show ?thesis using length_byte(1) [OF assms] by (simp only: rev_is_rev_conv) (intro map_cong refl, simp)
  qed
  ultimately show ?thesis unfolding l map_append rev_append by (simp only: length_byte(2) [OF assms] list.map rev.simps append_Nil append_assoc)
qed

lemma tail_padded:
  assumes "length m < 128" "n < 2 ^ 64" "n mod 128 = length m"
  shows "hash_tail m (word_of_nat n) = m @ [128] @ zeros ((111 + 128 - n mod 128) mod 128) @ rev (map (\<lambda>i. word_of_nat (8 * n div 256 ^ i)) [0..<16])"
proof -
  define k where "k = (if length m < 112 then 128 else 256 :: nat)"
  define z where "z = (239 - length m) mod 128"
  have z: "length m + 1 + z + 16 = k" using assms(1) by (auto simp: z_def k_def mod_if)
  let ?b = "ucast (drop_bit 61 (word_of_nat n :: u64)) :: u8" and ?t = "ts64 (push_bit 3 (word_of_nat n))"
  have "blit (zeros 256) 0 (m @ [128]) = m @ [128] @ zeros (255 - length m)" by (simp add: blit_def zeros_def)
  also have "zeros (255 - length m) = zeros (z + 7) @ [0] @ zeros (247 - length m - z)"
  proof -
    have "255 - length m = (z + 7) + (1 + (247 - length m - z))" using z k_def by (auto split: if_splits)
    then show ?thesis by (simp only: zeros_def replicate_add) simp
  qed
  finally have bl: "blit (zeros 256) 0 (m @ [128]) = m @ [128] @ zeros (z + 7) @ [0] @ zeros (247 - length m - z)" .
  have x: "(blit (zeros 256) 0 (m @ [128]))[k - 9 := ?b] = (m @ [128] @ zeros (z + 7) @ [?b]) @ zeros (247 - length m - z)"
  proof -
    have k: "k - 9 = length (m @ [128] @ zeros (z + 7))" using z by (simp add: zeros_def)
    have "((m @ [128] @ zeros (z + 7)) @ 0 # zeros (247 - length m - z))[k - 9 := ?b] = (m @ [128] @ zeros (z + 7)) @ ?b # zeros (247 - length m - z)"
      unfolding k by (rule list_update_length)
    then show ?thesis by (simp only: bl append_assoc append_Cons append_Nil)
  qed
  have T: "take k (blit ((blit (zeros 256) 0 (m @ [128]))[k - 9 := ?b]) (k - 8) ?t) = m @ [128] @ zeros (z + 7) @ [?b] @ ?t"
  proof -
    define A where "A = m @ [128] @ zeros (z + 7) @ [?b]"
    have "length A = k - 8" "8 \<le> k" using z by (simp_all add: A_def zeros_def)
    then have "take k (blit (A @ zeros (247 - length m - z)) (k - 8) ?t) = A @ ?t" by (simp add: blit_def)
    then show ?thesis unfolding x by (simp add: A_def)
  qed
  have k: "256 - 128 * (if length m < 112 then 1 else 0) = k" by (simp add: k_def)
  have e: "(111 + 128 - n mod 128) mod 128 = z" "zeros (z + 7) = zeros z @ zeros 7" by (simp_all add: z_def assms(3) zeros_def replicate_add)
  show ?thesis unfolding hash_tail_def Let_def k e(1) T length_bytes [OF assms(2)] by (simp add: e(2))
qed

lemma length_tweet_hash [simp]: "length (tweet_hash m) = 64"
proof -
  have "length (concat (map ts64 l)) = 8 * length l" for l by (induction l) simp_all
  moreover have "length (hash_loop z m) = 8" if "length z = 8" for z m using hash_loop_fold [OF that] by blast
  ultimately show ?thesis by (simp add: tweet_hash_def crypto_hashblocks_def Let_def)
qed

text \<open>C29: SHA-512 of the code, with its rolling window and its buffer for the end of the message, is the hash of the
  padded message with the schedule of the standard and the table of round
  constants of the code, for messages whose length fits a 64-bit number.\<close>

theorem sha512_correct:
  assumes "length m < 2 ^ 64"
  shows "tweet_hash m = sha512 m"
proof -
  let ?k = "length m - length m mod 128"
  let ?iv = "map (\<lambda>i. dl64 (drop (8 * i) iv512)) [0..<8]"
  define h where "h = hash_loop ?iv m"
  have "length ?iv = 8" by simp
  note H = hash_loop_fold [OF this, of m]
  have h: "h = sha_fold ?iv (take ?k m)" "length h = 8"
    unfolding h_def by (rule H [THEN conjunct1], rule H [THEN conjunct2])
  define t where "t = hash_tail (drop ?k m) (word_of_nat (length m))"
  have pad: "sha_pad m = take ?k m @ t"
    using tail_padded [of "drop ?k m" "length m"] assms by (simp add: sha_pad_def t_def flip: append_assoc)
  have d: "128 dvd length (take ?k m)" by (simp add: minus_mod_eq_div_mult)
  have "length (drop ?k m) = length m mod 128" by simp
  then have lt: "length t mod 128 = 0"
  proof -
    have e: "(r + (1 + ((111 + 128 - r) mod 128 + 16))) mod 128 = 0" if "r < 128" for r :: nat
      using that by (cases "r \<le> 111") (auto simp: mod_if)
    have "length t = length (drop ?k m) + (1 + ((111 + 128 - length m mod 128) mod 128 + 16))"
      using tail_padded [of "drop ?k m" "length m"] assms by (simp add: t_def zeros_def)
    then show ?thesis using e [of "length m mod 128"] by (simp only: \<open>length (drop ?k m) = length m mod 128\<close>)
  qed
  have "tweet_hash m = concat (map ts64 (hash_loop h t))"
    using words_back [of h] by (simp add: tweet_hash_def crypto_hashblocks_def Let_def h_def [symmetric] t_def [symmetric] h(2))
  also have "hash_loop h t = sha_fold h t" using hash_loop_fold [OF h(2), of t] lt by simp
  also have "\<dots> = sha_fold ?iv (sha_pad m)" unfolding pad sha_fold_append [OF d] h(1) ..
  also have "?iv = [0x6a09e667f3bcc908, 0xbb67ae8584caa73b, 0x3c6ef372fe94f82b, 0xa54ff53a5f1d36f1,
      0x510e527fade682d1, 0x9b05688c2b3e6c1f, 0x1f83d9abfb41bd6b, 0x5be0cd19137e2179]"
    by (simp add: iv512_def dl64_def upt_rec bget_def)
  finally show ?thesis by (simp add: sha512_def)
qed

lemma sha512_correct_witness: "tweet_hash (ascii ''abc'') = sha512 (ascii ''abc'')"
  by (rule sha512_correct) (simp add: ascii_def)

end
