(* ===== verification/Tweet_Curve.thy ===== *)
theory Tweet_Curve
  imports Tweet_Field Tweet_Hash
begin

text \<open>
  X25519 of \<^verbatim>\<open>c/lib/ed25519/src/tweetnacl.c\<close>: the ladder on limbs is the Montgomery ladder of RFC 7748 on
  integers modulo \<open>2^255 - 19\<close>, from the bytes of scalar and point to the bytes of the result.
\<close>

section \<open>The code\<close>

definition gf_121665 :: gf where "gf_121665 = [0xDB41, 1] @ replicate 14 0"

definition clamp_scalar :: "bytes \<Rightarrow> bytes" where
  "clamp_scalar n = (slice 0 32 n)[31 := (bget n 31 AND 127) OR 64, 0 := bget n 0 AND 248]"

definition ladder_ops :: "gf \<Rightarrow> gf \<times> gf \<times> gf \<times> gf \<Rightarrow> gf \<times> gf \<times> gf \<times> gf" where
  "ladder_ops x s =
     (case s of (a, b, c, d) \<Rightarrow>
        let e = gf_A a c; a = gf_Z a c; c = gf_A b d; b = gf_Z b d; d = gf_S e; f = gf_S a; a = gf_M c a; c = gf_M b e;
            e = gf_A a c; a = gf_Z a c; b = gf_S a; c = gf_Z d f; a = gf_M c gf_121665; a = gf_A a d; c = gf_M c a;
            a = gf_M d f; d = gf_M b x; b = gf_S e
        in (a, b, c, d))"

definition ladder_swap :: "int \<Rightarrow> gf \<times> gf \<times> gf \<times> gf \<Rightarrow> gf \<times> gf \<times> gf \<times> gf" where
  "ladder_swap r s = (case s of (a, b, c, d) \<Rightarrow> case sel25519 a b r of (a, b) \<Rightarrow> case sel25519 c d r of (c, d) \<Rightarrow> (a, b, c, d))"

definition scalar_bit :: "bytes \<Rightarrow> nat \<Rightarrow> int" where
  "scalar_bit z i = uint (drop_bit (i mod 8) (bget z (i div 8)) AND 1)"

definition crypto_scalarmult :: "bytes \<Rightarrow> bytes \<Rightarrow> bytes" where
  "crypto_scalarmult n p =
     (let z = clamp_scalar n; x = unpack25519 p; one = 1 # replicate 15 0; zero = replicate 16 0;
          s = fold (\<lambda>i s. ladder_swap (scalar_bit z i) (ladder_ops x (ladder_swap (scalar_bit z i) s))) (rev [0..<255]) (one, x, zero, one)
      in case s of (a, b, c, d) \<Rightarrow> pack25519 (gf_M a (inv25519 c)))"

definition crypto_scalarmult_base :: "bytes \<Rightarrow> bytes" where
  "crypto_scalarmult_base n = crypto_scalarmult n (9 # replicate 31 0)"

definition crypto_ed25519_to_x25519 :: "bytes \<Rightarrow> bytes" where
  "crypto_ed25519_to_x25519 ed =
     (let one = 1 # replicate 15 0; y = unpack25519 ed; a = gf_A one y; b = gf_Z one y; b = inv25519 b in pack25519 (gf_M a b))"

section \<open>RFC 7748\<close>

definition ladder_step :: "int \<Rightarrow> int \<times> int \<times> int \<times> int \<Rightarrow> int \<times> int \<times> int \<times> int" where
  "ladder_step x1 s =
     (case s of (x2, z2, x3, z3) \<Rightarrow>
        let A = x2 + z2; AA = A ^ 2; B = x2 - z2; BB = B ^ 2; E = AA - BB; C = x3 + z3; D = x3 - z3; DA = D * A; CB = C * B
        in (AA * BB mod P25519, E * (AA + 121665 * E) mod P25519, (DA + CB) ^ 2 mod P25519, x1 * (DA - CB) ^ 2 mod P25519))"

definition cswap :: "bool \<Rightarrow> int \<times> int \<times> int \<times> int \<Rightarrow> int \<times> int \<times> int \<times> int" where
  "cswap b s = (case s of (x2, z2, x3, z3) \<Rightarrow> if b then (x3, z3, x2, z2) else s)"

definition x25519 :: "nat \<Rightarrow> int \<Rightarrow> int" where
  "x25519 k u =
     (case fold (\<lambda>t s. cswap (bit k t) (ladder_step u (cswap (bit k t) s))) (rev [0..<255]) (1, 0, u, 1) of
        (x2, z2, x3, z3) \<Rightarrow> x2 * z2 ^ (2 ^ 255 - 21) mod P25519)"

text \<open>The coordinate of a point: little-endian, without the top bit.\<close>

definition decode_u :: "bytes \<Rightarrow> int" where
  "decode_u p = int (le_num (slice 0 32 p) mod 2 ^ 255)"

section \<open>Unpacking\<close>

lemma num_pairs: "num (map (\<lambda>i. uint (bget n (k + 2 * i)) + 256 * uint (bget n (k + 2 * i + 1))) [0..<m]) = int (le_num (slice k (2 * m) n))"
proof (induction m arbitrary: k)
  case (Suc m)
  have "slice k (2 * Suc m) n = bget n k # bget n (k + 1) # slice (k + 2) (2 * m) n"
    by (simp add: slice_def upt_conv_Cons map_Suc_upt [symmetric] del: upt_Suc)
  moreover have "map (\<lambda>i. uint (bget n (k + 2 * i)) + 256 * uint (bget n (k + 2 * i + 1))) [0..<Suc m] =
      (uint (bget n k) + 256 * uint (bget n (k + 1))) # map (\<lambda>i. uint (bget n (k + 2 + 2 * i)) + 256 * uint (bget n (k + 2 + 2 * i + 1))) [0..<m]"
    by (simp add: upt_conv_Cons map_Suc_upt [symmetric] del: upt_Suc)
  ultimately show ?case using Suc [of "k + 2"] by simp
qed (simp add: slice_def)

lemma unpack25519_num: "tight (unpack25519 p)" "num (unpack25519 p) = decode_u p"
proof -
  define o1 where "o1 = map (\<lambda>i. uint (bget p (2 * i)) + 256 * uint (bget p (2 * i + 1))) [0..<16]"
  have m: "x AND 0x7fff = x mod 32768" for x :: int
  proof -
    have "x AND 0x7fff = take_bit 15 x" by (simp only: take_bit_eq_mask mask_eq_exp_minus_1) simp
    then show ?thesis by (simp add: take_bit_eq_mod)
  qed
  have u: "unpack25519 p = o1[15 := o1 ! 15 mod 32768]" by (simp add: unpack25519_def o1_def m)
  have l: "length o1 = 16" by (simp add: o1_def)
  have r: "0 \<le> x \<and> x < 65536" if "x \<in> set o1" for x
  proof -
    have "0 \<le> uint a + 256 * uint b \<and> uint a + 256 * uint b < 65536" for a b :: u8
      using uint_bounded [of a] uint_bounded [of b] by simp
    then show ?thesis using that by (auto simp: o1_def)
  qed
  have "\<forall>x\<in>set (unpack25519 p). 0 \<le> x \<and> x < 65536"
  proof -
    have "0 \<le> o1 ! 15 mod 32768 \<and> o1 ! 15 mod 32768 < 65536" using pos_mod_bound [of 32768 "o1 ! 15"] by simp
    then show ?thesis unfolding u using r set_update_subset_insert [of o1 15] by blast
  qed
  moreover have "length (unpack25519 p) = 16" by (simp add: u l)
  ultimately show "tight (unpack25519 p)" by (cases "unpack25519 p") (auto simp: tight_def)
  have n: "num o1 = int (le_num (slice 0 32 p))" using num_pairs [of p 0 16] by (simp add: o1_def)
  have s: "num o1 = num (take 15 o1) + 65536 ^ 15 * o1 ! 15" "num (unpack25519 p) = num (take 15 o1) + 65536 ^ 15 * (o1 ! 15 mod 32768)"
    using num_take [of 15 o1] num_take [of 15 "unpack25519 p"] l by (simp_all add: u)
  have b: "0 \<le> num (take 15 o1)" "num (take 15 o1) < 65536 ^ 15"
  proof -
    have "\<forall>x\<in>set (take 15 o1). 0 \<le> x \<and> x < 65536" using r set_take_subset [of 15 o1] by blast
    then have "num (take 15 o1) = num (take 15 o1) mod 65536 ^ 15" using digits_num [of "take 15 o1"] num_digits [of 15 "num (take 15 o1)"] l by simp
    then show "0 \<le> num (take 15 o1)" "num (take 15 o1) < 65536 ^ 15"
      using pos_mod_sign [of "65536 ^ 15" "num (take 15 o1)"] pos_mod_bound [of "65536 ^ 15" "num (take 15 o1)"] by simp_all
  qed
  have "num o1 mod (65536 ^ 15 * 32768) = 65536 ^ 15 * (num o1 div 65536 ^ 15 mod 32768) + num o1 mod 65536 ^ 15" by (rule zmod_zmult2_eq) simp
  also have "num o1 div 65536 ^ 15 = o1 ! 15" unfolding s(1) using b by simp
  also have "num o1 mod 65536 ^ 15 = num (take 15 o1)" unfolding s(1) using b by simp
  finally have "num o1 mod 2 ^ 255 = num (unpack25519 p)" unfolding s(2) by simp
  then show "num (unpack25519 p) = decode_u p" unfolding decode_u_def n by (simp add: zmod_int)
qed

section \<open>The ladder\<close>

text \<open>Limbs that stand for a residue.\<close>

definition stands :: "gf \<Rightarrow> int \<Rightarrow> bool" where
  "stands o1 v \<longleftrightarrow> tight o1 \<and> num o1 mod P25519 = v mod P25519"

lemma stands_M: "loose a \<Longrightarrow> loose b \<Longrightarrow> num a mod P25519 = x mod P25519 \<Longrightarrow> num b mod P25519 = y mod P25519 \<Longrightarrow> stands (gf_M a b) (x * y)"
  using gf_M_num [of a b] mod_mult_cong [of "num a" P25519 x "num b" y] by (simp add: stands_def)

lemma stands_S: "loose a \<Longrightarrow> num a mod P25519 = x mod P25519 \<Longrightarrow> stands (gf_S a) (x ^ 2)"
  unfolding gf_S_def power2_eq_square by (rule stands_M)

lemma stands_AZ:
  assumes "stands a x" "stands b y"
  shows "loose (gf_A a b)" "num (gf_A a b) mod P25519 = (x + y) mod P25519" "loose (gf_Z a b)" "num (gf_Z a b) mod P25519 = (x - y) mod P25519"
  using assms gf_AZ_num [of a b] mod_add_cong [of "num a" P25519 x "num b" y] mod_diff_cong [of "num a" P25519 x "num b" y] by (simp_all add: stands_def)

lemma stands_loose: "stands a x \<Longrightarrow> loose a" "stands a x \<Longrightarrow> num a mod P25519 = x mod P25519"
  by (simp_all add: stands_def tight_loose)

lemma stands_121665: "stands gf_121665 121665"
  by (simp add: stands_def tight_def gf_121665_def numeral_eq_Suc) 

lemma stands_eq: "stands a x \<Longrightarrow> x mod P25519 = y mod P25519 \<Longrightarrow> stands a y"
  by (simp add: stands_def)

fun stand4 :: "gf \<times> gf \<times> gf \<times> gf \<Rightarrow> int \<times> int \<times> int \<times> int \<Rightarrow> bool" where
  "stand4 (a, b, c, d) (x2, z2, x3, z3) \<longleftrightarrow> stands a x2 \<and> stands b x3 \<and> stands c z2 \<and> stands d z3"

lemma ladder_ops_stand:
  assumes x: "stands x u" and s: "stand4 s t"
  shows "stand4 (ladder_ops x s) (ladder_step u t)"
proof -
  obtain a b c d x2 z2 x3 z3 where e: "s = (a, b, c, d)" "t = (x2, z2, x3, z3)" by (metis prod_cases4)
  have S: "stands a x2" "stands b x3" "stands c z2" "stands d z3" using s by (simp_all add: e)
  note ac = stands_AZ [OF S(1,3)] and bd = stands_AZ [OF S(2,4)]
  have d1: "stands (gf_S (gf_A a c)) ((x2 + z2) ^ 2)" and f: "stands (gf_S (gf_Z a c)) ((x2 - z2) ^ 2)"
    using stands_S [OF ac(1,2)] stands_S [OF ac(3,4)] by simp_all
  have a2: "stands (gf_M (gf_A b d) (gf_Z a c)) ((x3 + z3) * (x2 - z2))" by (rule stands_M [OF bd(1) ac(3) bd(2) ac(4)])
  have c2: "stands (gf_M (gf_Z b d) (gf_A a c)) ((x3 - z3) * (x2 + z2))" by (rule stands_M [OF bd(3) ac(1) bd(4) ac(2)])
  note AC = stands_AZ [OF a2 c2] and DF = stands_AZ [OF d1 f]
  have a4: "stands (gf_M (gf_Z (gf_S (gf_A a c)) (gf_S (gf_Z a c))) gf_121665) (((x2 + z2) ^ 2 - (x2 - z2) ^ 2) * 121665)"
    by (rule stands_M [OF DF(3) stands_loose(1) [OF stands_121665] DF(4) stands_loose(2) [OF stands_121665]])
  note a5 = stands_AZ(1,2) [OF a4 d1]
  have c4: "stands (gf_M (gf_Z (gf_S (gf_A a c)) (gf_S (gf_Z a c))) (gf_A (gf_M (gf_Z (gf_S (gf_A a c)) (gf_S (gf_Z a c))) gf_121665) (gf_S (gf_A a c))))
      (((x2 + z2) ^ 2 - (x2 - z2) ^ 2) * (((x2 + z2) ^ 2 - (x2 - z2) ^ 2) * 121665 + (x2 + z2) ^ 2))"
    by (rule stands_M [OF DF(3) a5(1) DF(4) a5(2)])
  have a6: "stands (gf_M (gf_S (gf_A a c)) (gf_S (gf_Z a c))) ((x2 + z2) ^ 2 * (x2 - z2) ^ 2)"
    by (rule stands_M [OF stands_loose(1) [OF d1] stands_loose(1) [OF f] stands_loose(2) [OF d1] stands_loose(2) [OF f]])
  have b2: "stands (gf_S (gf_Z (gf_M (gf_A b d) (gf_Z a c)) (gf_M (gf_Z b d) (gf_A a c)))) (((x3 + z3) * (x2 - z2) - (x3 - z3) * (x2 + z2)) ^ 2)"
    by (rule stands_S [OF AC(3,4)])
  have d2: "stands (gf_M (gf_S (gf_Z (gf_M (gf_A b d) (gf_Z a c)) (gf_M (gf_Z b d) (gf_A a c)))) x) (((x3 + z3) * (x2 - z2) - (x3 - z3) * (x2 + z2)) ^ 2 * u)"
    by (rule stands_M [OF stands_loose(1) [OF b2] stands_loose(1) [OF x] stands_loose(2) [OF b2] stands_loose(2) [OF x]])
  have b3: "stands (gf_S (gf_A (gf_M (gf_A b d) (gf_Z a c)) (gf_M (gf_Z b d) (gf_A a c)))) (((x3 + z3) * (x2 - z2) + (x3 - z3) * (x2 + z2)) ^ 2)"
    by (rule stands_S [OF AC(1,2)])
  have r: "stands o1 v \<Longrightarrow> v = w \<Longrightarrow> stands o1 (w mod P25519)" for o1 v w by (simp add: stands_def)
  have "((x3 - z3) * (x2 + z2) - (x3 + z3) * (x2 - z2)) ^ 2 = ((x3 + z3) * (x2 - z2) - (x3 - z3) * (x2 + z2)) ^ 2" by (rule power2_commute)
  then show ?thesis
    by (simp add: e ladder_ops_def ladder_step_def Let_def)
      (intro conjI r [OF a6] r [OF b3] r [OF c4] r [OF d2]; simp add: algebra_simps)
qed

lemma bit_limbs: "bit (le_num z) i = bit (bget z (i div 8)) (i mod 8)"
proof (induction z arbitrary: i)
  case Nil
  then show ?case by (simp add: bget_def)
next
  case (Cons b z)
  have b: "unat b < 256" using unsigned_less [of b, where ?'a = nat] by simp
  show ?case
  proof (cases "i < 8")
    case True
    have p: "256 = 2 ^ i * (2 :: nat) ^ (8 - i)" using True by (simp flip: power_add)
    have "(unat b + 256 * le_num z) div 2 ^ i = unat b div 2 ^ i + 2 ^ (8 - i) * le_num z" unfolding p mult.assoc by simp
    moreover have "even ((2 :: nat) ^ (8 - i))" using True by simp
    ultimately have "bit (le_num (b # z)) i = bit (unat b) i" by (simp add: bit_iff_odd)
    then show ?thesis using True by (simp add: bget_def bit_unsigned_iff)
  next
    case False
    then obtain j where j: "i = 8 + j" using le_iff_add by (auto simp: not_less)
    have "(unat b + 256 * le_num z) div 2 ^ i = (unat b + 256 * le_num z) div 256 div 2 ^ j" by (simp add: j power_add div_mult2_eq)
    also have "\<dots> = le_num z div 2 ^ j" using b by simp
    finally have "bit (le_num (b # z)) i = bit (le_num z) j" by (simp add: bit_iff_odd)
    moreover have "i div 8 = Suc (j div 8)" "i mod 8 = j mod 8" using div_add_self1 [of 8 j] by (simp_all add: j)
    ultimately show ?thesis using Cons by (simp add: bget_def)
  qed
qed

lemma scalar_bit_of: "scalar_bit z i = of_bool (bit (le_num z) i)"
proof -
  have "drop_bit k w AND 1 = of_bool (bit w k)" for k and w :: u8 by (simp add: and_one_eq mod_2_eq_odd bit_iff_odd_drop_bit)
  then show ?thesis by (simp add: scalar_bit_def bit_limbs)
qed

lemma swap_stand:
  assumes "stand4 s t"
  shows "stand4 (ladder_swap (scalar_bit z i) s) (cswap (bit (le_num z) i) t)"
proof -
  obtain a b c d x2 z2 x3 z3 where e: "s = (a, b, c, d)" "t = (x2, z2, x3, z3)" by (metis prod_cases4)
  have "length a = length b" "length c = length d" using assms by (simp_all add: e stands_def tight_def)
  then show ?thesis using assms sel25519_bit [of a b] sel25519_bit [of c d]
    by (cases "bit (le_num z) i") (simp_all add: e ladder_swap_def cswap_def scalar_bit_of)
qed

lemma ladder_stand:
  assumes "stands x u" "stand4 s t"
  shows "stand4 (fold (\<lambda>i s. ladder_swap (scalar_bit z i) (ladder_ops x (ladder_swap (scalar_bit z i) s))) is s)
    (fold (\<lambda>t s. cswap (bit (le_num z) t) (ladder_step u (cswap (bit (le_num z) t) s))) is t)"
  using assms(2)
proof (induction "is" arbitrary: s t)
  case (Cons i "is")
  have "stand4 (ladder_swap (scalar_bit z i) (ladder_ops x (ladder_swap (scalar_bit z i) s)))
    (cswap (bit (le_num z) i) (ladder_step u (cswap (bit (le_num z) i) t)))"
    by (intro swap_stand ladder_ops_stand assms(1) Cons.prems)
  then show ?case using Cons.IH by simp
qed simp

lemma stands_start: "stands (1 # replicate 15 0) 1" "stands (replicate 16 0) 0"
proof -
  show "stands (1 # replicate 15 0) 1" "stands (replicate 16 0) 0" by (simp_all add: stands_def tight_def numeral_eq_Suc)
qed

lemma scalarmult_ladder:
  "crypto_scalarmult n p = le_bytes 32 (nat (x25519 (le_num (clamp_scalar n)) (decode_u p)))"
proof -
  let ?x = "unpack25519 p" and ?z = "clamp_scalar n"
  have x: "stands ?x (decode_u p)" using unpack25519_num [of p] by (simp add: stands_def)
  have s0: "stand4 (1 # replicate 15 0, ?x, replicate 16 0, 1 # replicate 15 0) (1, 0, decode_u p, 1)" using x stands_start by simp
  define s where "s = fold (\<lambda>i s. ladder_swap (scalar_bit ?z i) (ladder_ops ?x (ladder_swap (scalar_bit ?z i) s))) (rev [0..<255]) (1 # replicate 15 0, ?x, replicate 16 0, 1 # replicate 15 0)"
  define t where "t = fold (\<lambda>t s. cswap (bit (le_num ?z) t) (ladder_step (decode_u p) (cswap (bit (le_num ?z) t) s))) (rev [0..<255]) (1, 0, decode_u p, 1)"
  have st: "stand4 s t" unfolding s_def t_def by (rule ladder_stand [OF x s0])
  obtain a b c d where e1: "s = (a, b, c, d)" by (cases s)
  obtain x2 z2 x3 z3 where e2: "t = (x2, z2, x3, z3)" by (cases t)
  have S: "stands a x2" "stands c z2" using st by (simp_all add: e1 e2)
  have c: "tight c" "num c mod P25519 = z2 mod P25519" using S(2) by (simp_all add: stands_def)
  note I = inv25519_num [OF tight_loose [OF c(1)]]
  have i: "num (inv25519 c) mod P25519 = z2 ^ (2 ^ 255 - 21) mod P25519"
    unfolding I(2) using c(2) power_mod [of "num c" P25519 "2 ^ 255 - 21"] power_mod [of z2 P25519 "2 ^ 255 - 21"] by metis
  have M: "stands (gf_M a (inv25519 c)) (x2 * z2 ^ (2 ^ 255 - 21))"
    by (rule stands_M [OF stands_loose(1) [OF S(1)] tight_loose [OF I(1)] stands_loose(2) [OF S(1)] i])
  have k: "crypto_scalarmult n p = pack25519 (gf_M a (inv25519 c))"
    unfolding crypto_scalarmult_def Let_def s_def [symmetric] e1 by (simp only: prod.case)
  have v: "x25519 (le_num ?z) (decode_u p) = x2 * z2 ^ (2 ^ 255 - 21) mod P25519"
    unfolding x25519_def t_def [symmetric] e2 by (simp only: prod.case)
  show ?thesis using pack25519_num [of "gf_M a (inv25519 c)"] M unfolding k v stands_def by (simp add: tight_loose)
qed

text \<open>C27: The Diffie-Hellman function of the code is X25519 of RFC 7748: the bytes it returns are those of the
  result of the ladder on the clamped scalar and the decoded coordinate, for every scalar and every point.\<close>

theorem scalarmult_correct:
  "crypto_scalarmult n p = le_bytes 32 (nat (x25519 (le_num (clamp_scalar n)) (decode_u p)))"
  by (rule scalarmult_ladder)

end
