(* ===== verification/Tweet_Edwards.thy ===== *)
theory Tweet_Edwards
  imports Tweet_Curve
begin

text \<open>
  The group of Ed25519 in \<^verbatim>\<open>c/lib/ed25519/src/tweetnacl.c\<close>: adding points, the ladder, the encoding of a point
  and the public key of a seed, on limbs, and the formulas of RFC 8032 on integers that they compute.
\<close>

type_synonym gf4 = "gf \<times> gf \<times> gf \<times> gf"

section \<open>The code\<close>

definition gf0 :: gf where "gf0 = replicate 16 0"
definition gf1 :: gf where "gf1 = 1 # replicate 15 0"

definition gf_D2 :: gf where
  "gf_D2 = [0xf159, 0x26b2, 0x9b94, 0xebd6, 0xb156, 0x8283, 0x149a, 0x00e0, 0xd130, 0xeef3, 0x80f2, 0x198e, 0xfce7, 0x56df, 0xd9dc, 0x2406]"

definition gf_X :: gf where
  "gf_X = [0xd51a, 0x8f25, 0x2d60, 0xc956, 0xa7b2, 0x9525, 0xc760, 0x692c, 0xdc5c, 0xfdd6, 0xe231, 0xc0a4, 0x53fe, 0xcd6e, 0x36d3, 0x2169]"

definition gf_Y :: gf where
  "gf_Y = [0x6658, 0x6666, 0x6666, 0x6666, 0x6666, 0x6666, 0x6666, 0x6666, 0x6666, 0x6666, 0x6666, 0x6666, 0x6666, 0x6666, 0x6666, 0x6666]"

definition point_add :: "gf4 \<Rightarrow> gf4 \<Rightarrow> gf4" where
  "point_add p q =
     (case p of (p0, p1, p2, p3) \<Rightarrow> case q of (q0, q1, q2, q3) \<Rightarrow>
        let a = gf_Z p1 p0; t = gf_Z q1 q0; a = gf_M a t; b = gf_A p0 p1; t = gf_A q0 q1; b = gf_M b t;
            c = gf_M p3 q3; c = gf_M c gf_D2; d = gf_M p2 q2; d = gf_A d d;
            e = gf_Z b a; f = gf_Z d c; g = gf_A d c; h = gf_A b a
        in (gf_M e f, gf_M h g, gf_M g f, gf_M e h))"

definition point_cswap :: "gf4 \<Rightarrow> gf4 \<Rightarrow> int \<Rightarrow> gf4 \<times> gf4" where
  "point_cswap p q b =
     (case p of (p0, p1, p2, p3) \<Rightarrow> case q of (q0, q1, q2, q3) \<Rightarrow>
        let s0 = sel25519 p0 q0 b; s1 = sel25519 p1 q1 b; s2 = sel25519 p2 q2 b; s3 = sel25519 p3 q3 b
        in ((fst s0, fst s1, fst s2, fst s3), (snd s0, snd s1, snd s2, snd s3)))"

definition point_step :: "bytes \<Rightarrow> nat \<Rightarrow> gf4 \<times> gf4 \<Rightarrow> gf4 \<times> gf4" where
  "point_step s i pq =
     (case point_cswap (fst pq) (snd pq) (scalar_bit s i) of (p, q) \<Rightarrow>
        let q = point_add q p; p = point_add p p in point_cswap p q (scalar_bit s i))"

definition point_scalarmult :: "gf4 \<Rightarrow> bytes \<Rightarrow> gf4" where
  "point_scalarmult q s = fst (fold (point_step s) (rev [0..<256]) ((gf0, gf1, gf1, gf0), q))"

definition point_scalarbase :: "bytes \<Rightarrow> gf4" where
  "point_scalarbase s = point_scalarmult (gf_X, gf_Y, gf1, gf_M gf_X gf_Y) s"

definition par25519 :: "gf \<Rightarrow> u8" where
  "par25519 a = bget (pack25519 a) 0 AND 1"

definition point_pack :: "gf4 \<Rightarrow> bytes" where
  "point_pack p =
     (case p of (p0, p1, p2, p3) \<Rightarrow>
        let zi = inv25519 p2; tx = gf_M p0 zi; ty = gf_M p1 zi; r = pack25519 ty
        in r[31 := r ! 31 XOR push_bit 7 (par25519 tx)])"

definition crypto_sign_seed_to_pk :: "bytes \<Rightarrow> bytes" where
  "crypto_sign_seed_to_pk seed = point_pack (point_scalarbase (clamp_scalar (tweet_hash (slice 0 32 seed))))"

section \<open>RFC 8032\<close>

type_synonym point = "int \<times> int \<times> int \<times> int"

definition ed_D :: int where
  "ed_D = 37095705934669439343138083508754565189542113879843219016388785533085940283555"

definition ed_plus :: "point \<Rightarrow> point \<Rightarrow> point" where
  "ed_plus p q =
     (case p of (X1, Y1, Z1, T1) \<Rightarrow> case q of (X2, Y2, Z2, T2) \<Rightarrow>
        let A = (Y1 - X1) * (Y2 - X2); B = (Y1 + X1) * (Y2 + X2); C = T1 * 2 * ed_D * T2; D = Z1 * 2 * Z2;
            E = B - A; F = D - C; G = D + C; H = B + A
        in (E * F mod P25519, G * H mod P25519, F * G mod P25519, E * H mod P25519))"

text \<open>A multiple, bit by bit from the top, together with its successor.\<close>

definition ed_step :: "nat \<Rightarrow> nat \<Rightarrow> point \<times> point \<Rightarrow> point \<times> point" where
  "ed_step k i pq =
     (case pq of (p, q) \<Rightarrow> if bit k i then (ed_plus p q, ed_plus q q) else (ed_plus p p, ed_plus q p))"

definition ed_mult :: "nat \<Rightarrow> point \<Rightarrow> point" where
  "ed_mult k q = fst (fold (ed_step k) (rev [0..<256]) ((0, 1, 1, 0), q))"

definition ed_base :: point where
  "ed_base =
     (let x = 15112221349535400772501151409588531511454012693041857206046113283949847762202;
          y = 46316835694926478169428394003475163141307993866256225615783033603165251855960
      in (x, y, 1, x * y))"

definition ed_encode :: "point \<Rightarrow> bytes" where
  "ed_encode p =
     (case p of (X, Y, Z, T) \<Rightarrow>
        let zi = Z ^ (2 ^ 255 - 21); x = X * zi mod P25519; y = Y * zi mod P25519
        in le_bytes 32 (nat (y + 2 ^ 255 * (x mod 2))))"

section \<open>Points on limbs\<close>

text \<open>Limbs that are the negative of reduced ones are small as well, which is enough for a sum and a product.\<close>

definition near :: "gf \<Rightarrow> int \<Rightarrow> bool" where
  "near o1 v \<longleftrightarrow> limbs_within 65574 o1 \<and> num o1 mod P25519 = v mod P25519"

fun standp :: "gf4 \<Rightarrow> point \<Rightarrow> bool" where
  "standp (p0, p1, p2, p3) (X, Y, Z, T) \<longleftrightarrow> near p0 X \<and> near p1 Y \<and> near p2 Z \<and> near p3 T"

lemma stands_near: "stands a x \<Longrightarrow> near a x"
  by (simp add: stands_def near_def tight_within)

lemma near_loose: "near a x \<Longrightarrow> loose a" "near a x \<Longrightarrow> num a mod P25519 = x mod P25519"
  by (auto simp: near_def intro: within_loose)

lemma near_AZ:
  assumes "near a x" "near b y"
  shows "loose (gf_A a b)" "num (gf_A a b) mod P25519 = (x + y) mod P25519" "loose (gf_Z a b)" "num (gf_Z a b) mod P25519 = (x - y) mod P25519"
proof -
  note w = within_AZ [of 65574 a 65574 b]
  show "loose (gf_A a b)" "loose (gf_Z a b)" using assms w(1,3) by (auto simp: near_def intro: within_loose)
  show "num (gf_A a b) mod P25519 = (x + y) mod P25519" "num (gf_Z a b) mod P25519 = (x - y) mod P25519"
    using assms w(2,4) mod_add_cong [of "num a" P25519 x "num b" y] mod_diff_cong [of "num a" P25519 x "num b" y] by (simp_all add: near_def)
qed

lemma limbs_stand:
  assumes "length o1 = 16" "\<forall>x\<in>set o1. 0 \<le> x \<and> x < 65536" "num o1 = v"
  shows "stands o1 v"
  using assms by (cases o1) (auto simp: stands_def tight_def)

lemma constants: "stands gf0 0" "stands gf1 1" "stands gf_D2 (2 * ed_D mod P25519)"
  "stands gf_X 15112221349535400772501151409588531511454012693041857206046113283949847762202"
  "stands gf_Y 46316835694926478169428394003475163141307993866256225615783033603165251855960"
proof -
  show "stands gf0 0" "stands gf1 1" using stands_start by (simp_all only: gf0_def gf1_def)
  show "stands gf_D2 (2 * ed_D mod P25519)" by (rule limbs_stand) (simp_all add: gf_D2_def ed_D_def P25519_def)
  show "stands gf_X 15112221349535400772501151409588531511454012693041857206046113283949847762202"
    by (rule limbs_stand) (simp_all add: gf_X_def)
  show "stands gf_Y 46316835694926478169428394003475163141307993866256225615783033603165251855960"
    by (rule limbs_stand) (simp_all add: gf_Y_def)
qed

lemma near_mod: "stands a x \<Longrightarrow> x = y \<Longrightarrow> near a (y mod P25519)"
  using stands_near [of a x] by (simp add: near_def)

lemma near_product: "near a x \<Longrightarrow> near b y \<Longrightarrow> stands (gf_M a b) (x * y)"
  by (rule stands_M [OF near_loose(1) near_loose(1) near_loose(2) near_loose(2)])

lemma doubled:
  assumes "near c x" "near d y"
  shows "loose (gf_Z (gf_A d d) c)" "num (gf_Z (gf_A d d) c) mod P25519 = (2 * y - x) mod P25519"
    "loose (gf_A (gf_A d d) c)" "num (gf_A (gf_A d d) c) mod P25519 = (2 * y + x) mod P25519"
proof -
  have l: "limbs_within 65574 c" "limbs_within 65574 d" using assms by (simp_all add: near_def)
  note w = within_AZ [OF l(2) l(2)]
  note v = within_AZ [OF w(1) l(1)]
  show "loose (gf_Z (gf_A d d) c)" "loose (gf_A (gf_A d d) c)"
    by (rule within_loose [OF v(3)], simp) (rule within_loose [OF v(1)], simp)
  have m: "num c mod P25519 = x mod P25519" "2 * num d mod P25519 = 2 * y mod P25519"
    using assms mod_mult_cong [OF refl, of "num d" P25519 y 2] by (simp_all add: near_def)
  have n: "num (gf_Z (gf_A d d) c) = 2 * num d - num c" "num (gf_A (gf_A d d) c) = 2 * num d + num c" using v w by simp_all
  show "num (gf_Z (gf_A d d) c) mod P25519 = (2 * y - x) mod P25519" unfolding n by (rule mod_diff_cong [OF m(2,1)])
  show "num (gf_A (gf_A d d) c) mod P25519 = (2 * y + x) mod P25519" unfolding n by (rule mod_add_cong [OF m(2,1)])
qed

lemma stands_D2: "near a x \<Longrightarrow> stands (gf_M a gf_D2) (x * (2 * ed_D))"
  using near_product [OF _ stands_near [OF constants(3)], of a x] mod_mult_right_eq [of x "2 * ed_D" P25519] by (simp add: stands_def)

lemma point_add_stand:
  assumes "standp p P" "standp q Q"
  shows "standp (point_add p q) (ed_plus P Q)"
proof -
  obtain p0 p1 p2 p3 q0 q1 q2 q3 X1 Y1 Z1 T1 X2 Y2 Z2 T2 where
    e: "p = (p0, p1, p2, p3)" "q = (q0, q1, q2, q3)" "P = (X1, Y1, Z1, T1)" "Q = (X2, Y2, Z2, T2)" by (metis prod_cases4)
  have S: "near p0 X1" "near p1 Y1" "near p2 Z1" "near p3 T1" "near q0 X2" "near q1 Y2" "near q2 Z2" "near q3 T2"
    using assms by (simp_all add: e)
  define a b c d where abcd: "a = gf_M (gf_Z p1 p0) (gf_Z q1 q0)" "b = gf_M (gf_A p0 p1) (gf_A q0 q1)" "c = gf_M (gf_M p3 q3) gf_D2" "d = gf_M p2 q2"
  note s1 = near_AZ [OF S(2) S(1)] and s2 = near_AZ [OF S(6) S(5)] and s3 = near_AZ [OF S(1) S(2)] and s4 = near_AZ [OF S(5) S(6)]
  have A: "stands a ((Y1 - X1) * (Y2 - X2))" unfolding abcd by (rule stands_M [OF s1(3) s2(3) s1(4) s2(4)])
  have B: "stands b ((X1 + Y1) * (X2 + Y2))" unfolding abcd by (rule stands_M [OF s3(1) s4(1) s3(2) s4(2)])
  have C: "stands c (T1 * T2 * (2 * ed_D))" unfolding abcd by (rule stands_D2 [OF stands_near [OF near_product [OF S(4,8)]]])
  have D: "stands d (Z1 * Z2)" unfolding abcd by (rule near_product [OF S(3,7)])
  note eh = stands_AZ [OF B A] and fg = doubled [OF stands_near [OF C] stands_near [OF D]]
  have k: "point_add p q = (gf_M (gf_Z b a) (gf_Z (gf_A d d) c), gf_M (gf_A b a) (gf_A (gf_A d d) c),
      gf_M (gf_A (gf_A d d) c) (gf_Z (gf_A d d) c), gf_M (gf_Z b a) (gf_A b a))"
    unfolding point_add_def e Let_def prod.case abcd ..
  show ?thesis unfolding k unfolding e ed_plus_def Let_def prod.case standp.simps
    by (intro conjI near_mod [OF stands_M [OF eh(3) fg(1) eh(4) fg(2)]] near_mod [OF stands_M [OF eh(1) fg(3) eh(2) fg(4)]]
        near_mod [OF stands_M [OF fg(3) fg(1) fg(4) fg(2)]] near_mod [OF stands_M [OF eh(3) eh(1) eh(4) eh(2)]]; simp add: algebra_simps)
qed

lemma point_step_stand:
  assumes "standp p P" "standp q Q" "point_step s i (p, q) = (p', q')" "ed_step (le_num s) i (P, Q) = (P', Q')"
  shows "standp p' P'" "standp q' Q'"
proof -
  have c: "point_cswap a b (of_bool t) = (if t then (b, a) else (a, b))" if "standp a A" "standp b B" for a b A B t
  proof -
    obtain a0 a1 a2 a3 b0 b1 b2 b3 where e: "a = (a0, a1, a2, a3)" "b = (b0, b1, b2, b3)" by (metis prod_cases4)
    obtain A0 A1 A2 A3 B0 B1 B2 B3 where f: "A = (A0, A1, A2, A3)" "B = (B0, B1, B2, B3)" by (metis prod_cases4)
    have "length a0 = length b0" "length a1 = length b1" "length a2 = length b2" "length a3 = length b3"
      using that by (simp_all add: e f near_def limbs_within_def)
    then show ?thesis by (cases t) (simp_all add: e point_cswap_def sel25519_bit)
  qed
  have "standp p' P' \<and> standp q' Q'"
  proof (cases "bit (le_num s) i")
    case True
    then have "(p', q') = (point_add p q, point_add q q)" "(P', Q') = (ed_plus P Q, ed_plus Q Q)"
      using assms c [OF assms(1,2), of True] c [OF point_add_stand point_add_stand, OF assms(2) assms(2) assms(1) assms(2), of True]
      by (simp_all add: point_step_def scalar_bit_of ed_step_def)
    then show ?thesis using point_add_stand assms(1,2) by simp
  next
    case False
    then have "(p', q') = (point_add p p, point_add q p)" "(P', Q') = (ed_plus P P, ed_plus Q P)"
      using assms c [OF assms(1,2), of False] c [OF point_add_stand point_add_stand, OF assms(1) assms(1) assms(2) assms(1), of False]
      by (simp_all add: point_step_def scalar_bit_of ed_step_def)
    then show ?thesis using point_add_stand assms(1,2) by simp
  qed
  then show "standp p' P'" "standp q' Q'" by simp_all
qed

lemma point_fold_stand:
  assumes "standp p P" "standp q Q"
  shows "standp (fst (fold (point_step s) js (p, q))) (fst (fold (ed_step (le_num s)) js (P, Q)))"
  using assms
proof (induction js arbitrary: p q P Q)
  case (Cons j js)
  obtain p' q' P' Q' where e: "point_step s j (p, q) = (p', q')" "ed_step (le_num s) j (P, Q) = (P', Q')"
    by (cases "point_step s j (p, q)", cases "ed_step (le_num s) j (P, Q)")
  show ?case using Cons.IH [OF point_step_stand [OF Cons.prems e]] by (simp add: e)
qed simp

lemma scalarmult_stand: "standp q Q \<Longrightarrow> standp (point_scalarmult q s) (ed_mult (le_num s) Q)"
proof -
  assume "standp q Q"
  moreover have "standp (gf0, gf1, gf1, gf0) (0, 1, 1, 0)" using constants by (simp add: stands_near)
  ultimately show ?thesis unfolding point_scalarmult_def ed_mult_def by (intro point_fold_stand)
qed

lemma scalarbase_stand: "standp (point_scalarbase s) (ed_mult (le_num s) ed_base)"
  unfolding point_scalarbase_def
  by (rule scalarmult_stand, unfold ed_base_def Let_def standp.simps) (intro conjI constants stands_near near_product)

section \<open>Encoding\<close>

lemma le_bytes_top:
  "y < 2 ^ (8 * l + 7) \<Longrightarrow> (le_bytes (Suc l) y)[l := le_bytes (Suc l) y ! l XOR push_bit 7 (of_bool b)] = le_bytes (Suc l) (y + 2 ^ (8 * l + 7) * of_bool b)"
proof (induction l arbitrary: y)
  case 0
  have "word_of_nat y XOR push_bit 7 (1 :: u8) = word_of_nat (y + 128)"
  proof -
    have "\<not> bit (word_of_nat y :: u8) 7" 
    proof -
      have "y div 2 ^ 7 = 0" using 0 by simp
      then have "\<not> bit y 7" by (simp only: bit_iff_odd) simp
      then show ?thesis by (simp only: bit_of_nat_iff) simp
    qed
    then have "(word_of_nat y :: u8) AND 128 = 0" using and_exp_eq_0_iff_not_bit [of "word_of_nat y :: u8" 7] by simp
    then have "word_of_nat y XOR (128 :: u8) = word_of_nat y + 128" by (simp add: disjunctive_add_eq_xor)
    then show ?thesis by (simp add: push_bit_eq_mult)
  qed
  then show ?case by (cases b) (simp_all add: le_bytes_Suc le_bytes_def)
next
  case (Suc l)
  have e: "(2 :: nat) ^ (8 * Suc l + 7) = 256 * 2 ^ (8 * l + 7)" by (simp add: power_add)
  have "y div 256 < 2 ^ (8 * l + 7)" using Suc.prems unfolding e by (simp add: div_less_iff_less_mult)
  note ih = Suc.IH [OF this]
  have w: "word_of_nat (y + 256 * m) = (word_of_nat y :: u8)" for m :: nat
  proof -
    have "(256 :: u8) = 0" by simp
    then show ?thesis by (simp only: of_nat_add of_nat_mult of_nat_numeral) simp
  qed
  have d: "(y + 256 * m) div 256 = y div 256 + m" for m :: nat by simp
  show ?case unfolding le_bytes_Suc [of "Suc l"] e mult.assoc w d using ih by simp
qed

lemma stands_inv: "near a x \<Longrightarrow> stands (inv25519 a) (x ^ (2 ^ 255 - 21))"
  unfolding stands_def using near_loose [of a x] inv25519_num [of a] power_mod [of "num a" P25519 "2 ^ 255 - 21"] power_mod [of x P25519 "2 ^ 255 - 21"]
  by metis

lemma stands_pack: "stands a x \<Longrightarrow> pack25519 a = le_bytes 32 (nat (x mod P25519))"
  by (simp add: stands_def tight_loose pack25519_num)

lemma P25519_range: "0 \<le> x mod P25519" "x mod P25519 < 2 ^ 255"
  by (simp_all add: P25519_def)

lemma par_stands: "stands a x \<Longrightarrow> par25519 a = of_bool (odd (x mod P25519))"
proof -
  assume "stands a x"
  then have "par25519 a = word_of_nat (nat (x mod P25519)) AND 1" by (simp add: par25519_def stands_pack bget_def le_bytes_Suc [of 31, simplified])
  also have "\<dots> = of_bool (odd (nat (x mod P25519)))" by (simp add: and_one_eq mod_2_eq_odd)
  finally show ?thesis using P25519_range(1) [of x] by (simp add: even_nat_iff)
qed

lemma point_pack_encodes:
  assumes "near p0 X" "near p1 Y" "near p2 Z"
  shows "point_pack (p0, p1, p2, p3) = ed_encode (X, Y, Z, T)"
proof -
  let ?i = "Z ^ (2 ^ 255 - 21)"
  have x: "stands (gf_M p0 (inv25519 p2)) (X * ?i)" and y: "stands (gf_M p1 (inv25519 p2)) (Y * ?i)"
    by (rule near_product [OF assms(1) stands_near [OF stands_inv [OF assms(3)]]]) (rule near_product [OF assms(2) stands_near [OF stands_inv [OF assms(3)]]])
  let ?y = "Y * ?i mod P25519" and ?x = "X * ?i mod P25519"
  have b: "nat ?y < 2 ^ (8 * 31 + 7)" using P25519_range [of "Y * ?i"] by (simp add: nat_less_iff)
  have t: "nat (?y + 2 ^ 255 * (?x mod 2)) = nat ?y + 2 ^ (8 * 31 + 7) * of_bool (odd ?x)"
    using P25519_range(1) [of "Y * ?i"] by (simp add: mod_2_eq_odd nat_add_distrib)
  have "point_pack (p0, p1, p2, p3) = le_bytes (Suc 31) (nat ?y + 2 ^ (8 * 31 + 7) * of_bool (odd ?x))"
    unfolding point_pack_def prod.case Let_def stands_pack [OF y] par_stands [OF x]
    using le_bytes_top [OF b, of "odd ?x"] by simp
  then show ?thesis unfolding ed_encode_def prod.case Let_def t by simp
qed

lemma pack_stand: "standp p P \<Longrightarrow> point_pack p = ed_encode P"
  by (cases p, cases P) (simp add: point_pack_encodes)

lemma seed_to_pk_multiple:
  "crypto_sign_seed_to_pk seed = ed_encode (ed_mult (le_num (clamp_scalar (tweet_hash (slice 0 32 seed)))) ed_base)"
  unfolding crypto_sign_seed_to_pk_def by (rule pack_stand [OF scalarbase_stand])

text \<open>The public key that the code derives from a seed is the one of RFC 8032: the encoding of the multiple of the
  base point by the clamped hash of the seed, in the extended coordinates of the standard.\<close>

theorem seed_to_pk_correct:
  "crypto_sign_seed_to_pk seed = ed_encode (ed_mult (le_num (clamp_scalar (tweet_hash (slice 0 32 seed)))) ed_base)"
  by (rule seed_to_pk_multiple)

section \<open>From the curve of the signatures to the curve of the key exchange\<close>

text \<open>The key of the one curve becomes \<open>(1 + y) / (1 - y)\<close> on the other.\<close>

theorem ed25519_to_x25519_correct:
  "crypto_ed25519_to_x25519 ed = le_bytes 32 (nat ((1 + decode_u ed) * (1 - decode_u ed) ^ (2 ^ 255 - 21) mod P25519))"
proof -
  let ?y = "unpack25519 ed"
  have y: "stands ?y (decode_u ed)" using unpack25519_num [of ed] by (simp add: stands_def)
  note AZ = stands_AZ [OF stands_start(1) y]
  note I = inv25519_num [OF AZ(3)]
  have i: "num (inv25519 (gf_Z (1 # replicate 15 0) ?y)) mod P25519 = (1 - decode_u ed) ^ (2 ^ 255 - 21) mod P25519"
    unfolding I(2) using AZ(4) power_mod [of "num (gf_Z (1 # replicate 15 0) ?y)" P25519 "2 ^ 255 - 21"] power_mod [of "1 - decode_u ed" P25519 "2 ^ 255 - 21"] by metis
  show ?thesis unfolding crypto_ed25519_to_x25519_def Let_def
    by (rule stands_pack [OF stands_M [OF AZ(1) tight_loose [OF I(1)] AZ(2) i]])
qed

end
