(* ===== verification/Tweet_ModL.thy ===== *)
theory Tweet_ModL
  imports Tweet_Edwards
begin

text \<open>
  Arithmetic modulo the order of the base point in \<^verbatim>\<open>c/lib/ed25519/src/tweetnacl.c\<close>: the reduction on 64
  limbs of a byte, with its signed carries, gives the residue in 32 bytes.
\<close>

section \<open>The code\<close>

definition order_L :: "int list" where
  "order_L = [0xed, 0xd3, 0xf5, 0x5c, 0x1a, 0x63, 0x12, 0x58, 0xd6, 0x9c, 0xf7, 0xa2, 0xde, 0xf9, 0xde, 0x14, 0, 0, 0, 0, 0, 0, 0, 0, 0, 0, 0, 0, 0, 0, 0, 0x10]"

definition modL_sub :: "nat \<Rightarrow> nat \<Rightarrow> int list \<times> int \<Rightarrow> int list \<times> int" where
  "modL_sub i j s =
     (case s of (x, carry) \<Rightarrow>
        let v = x ! j + (carry - 16 * x ! i * order_L ! (j - (i - 32))); carry = (v + 128) div 256 in (x[j := v - carry * 256], carry))"

definition modL_high :: "nat \<Rightarrow> int list \<Rightarrow> int list" where
  "modL_high i x =
     (let (x, carry) = fold (modL_sub i) [i - 32..<i - 12] (x, 0); j = i - 12; x = x[j := x ! j + carry] in x[i := 0])"

definition modL_last :: "nat \<Rightarrow> int list \<times> int \<Rightarrow> int list \<times> int" where
  "modL_last j s =
     (case s of (x, carry) \<Rightarrow>
        let v = x ! j + (carry - x ! 31 div 16 * order_L ! j) in (x[j := v AND 255], v div 256))"

definition modL_out :: "nat \<Rightarrow> int list \<times> bytes \<Rightarrow> int list \<times> bytes" where
  "modL_out i s = (case s of (x, r) \<Rightarrow> (x[i + 1 := x ! (i + 1) + x ! i div 256], r @ [word_of_int (x ! i AND 255)]))"

definition modL :: "int list \<Rightarrow> bytes" where
  "modL x =
     (let x = fold modL_high (rev [32..<64]) x; (x, carry) = fold modL_last [0..<32] (x, 0);
          x = fold (\<lambda>j x. x[j := x ! j - carry * order_L ! j]) [0..<32] x
      in snd (fold modL_out [0..<32] (x, [])))"

definition modL_reduce :: "bytes \<Rightarrow> bytes" where
  "modL_reduce r = modL (map (\<lambda>i. uint (bget r i)) [0..<64])"

section \<open>The number of the limbs\<close>

primrec octnum :: "int list \<Rightarrow> int" where
  "octnum [] = 0"
| "octnum (x # xs) = x + 256 * octnum xs"

definition ed_order :: int where
  "ed_order = 2 ^ 252 + 27742317777372353535851937790883648493"

lemma octnum_update: "k < length x \<Longrightarrow> octnum (x[k := v]) = octnum x + 256 ^ k * (v - x ! k)"
proof (induction x arbitrary: k)
  case (Cons a x)
  show ?case
  proof (cases k)
    case (Suc j)
    then have "octnum (x[j := v]) = octnum x + 256 ^ j * (v - x ! j)" using Cons by simp
    then show ?thesis by (simp only: Suc list_update_code octnum.simps nth_Cons_Suc power_Suc) (simp only: distrib_left mult.assoc add.assoc)
  qed simp
qed simp

lemma octnum_append: "octnum (a @ b) = octnum a + 256 ^ length a * octnum b"
  by (induction a) (simp_all add: algebra_simps)

lemma octnum_take: "n < length x \<Longrightarrow> octnum (take (Suc n) x) = octnum (take n x) + 256 ^ n * x ! n"
  by (simp add: take_Suc_conv_app_nth octnum_append)

lemma length_order [simp]: "length order_L = 32"
  by (simp add: order_L_def)

lemma octnum_order: "octnum order_L = ed_order" "256 ^ 32 = 16 * ed_order - 16 * octnum (take 20 order_L)"
  by (simp_all add: order_L_def ed_order_def)

lemma order_range: "k < 32 \<Longrightarrow> 0 \<le> order_L ! k \<and> order_L ! k \<le> 255" "16 \<le> k \<Longrightarrow> k < 20 \<Longrightarrow> order_L ! k = 0"
proof -
  have "\<forall>x\<in>set order_L. 0 \<le> x \<and> x \<le> 255" by (simp add: order_L_def)
  then show "k < 32 \<Longrightarrow> 0 \<le> order_L ! k \<and> order_L ! k \<le> 255" by simp
  have "\<forall>k\<in>{16, 17, 18, 19}. order_L ! k = 0" by (simp add: order_L_def)
  moreover assume "16 \<le> k" "k < 20"
  then have "k \<in> {16, 17, 18, 19}" by auto
  ultimately show "order_L ! k = 0" by blast
qed

section \<open>One limb from the top\<close>

lemma signed_digit: "- 128 \<le> v - (v + 128) div 256 * 256 \<and> v - (v + 128) div 256 * (256 :: int) \<le> 127"
  using div_mult_mod_eq [of "v + 128" 256] pos_mod_bound [of 256 "v + 128"] pos_mod_sign [of 256 "v + 128"] by linarith

lemma carry_bound: "\<bar>v\<bar> \<le> 256 * b + 127 \<Longrightarrow> \<bar>(v + 128) div 256\<bar> \<le> (b :: int)"
  using signed_digit [of v] by linarith

text \<open>The loop over the limbs below: the number with the carry loses a multiple of the order, limb by limb.\<close>

lemma modL_sub_steps:
  assumes "length x = 64" "32 \<le> i" "i < 64" "n \<le> 20"
  shows "\<exists>y c. fold (modL_sub i) [i - 32..<i - 32 + n] (x, 0) = (y, c) \<and> length y = 64 \<and>
    octnum y + c * 256 ^ (i - 32 + n) = octnum x - 16 * x ! i * octnum (take n order_L) * 256 ^ (i - 32) \<and>
    (\<forall>k<64. (if i - 32 \<le> k \<and> k < i - 32 + n then - 128 \<le> y ! k \<and> y ! k \<le> 127 else y ! k = x ! k))"
  using assms(4)
proof (induction n)
  case 0
  then show ?case using assms by simp
next
  case (Suc n)
  obtain y c where y: "fold (modL_sub i) [i - 32..<i - 32 + n] (x, 0) = (y, c)" "length y = 64"
    "octnum y + c * 256 ^ (i - 32 + n) = octnum x - 16 * x ! i * octnum (take n order_L) * 256 ^ (i - 32)"
    "\<forall>k<64. (if i - 32 \<le> k \<and> k < i - 32 + n then - 128 \<le> y ! k \<and> y ! k \<le> 127 else y ! k = x ! k)"
    using Suc.IH Suc.prems by auto
  let ?j = "i - 32 + n"
  define v where "v = y ! ?j + (c - 16 * x ! i * order_L ! n)"
  define d where "d = (v + 128) div 256"
  have j: "?j < 64" "?j < i" using assms Suc.prems by linarith+
  have "y ! i = x ! i" using y(4) assms Suc.prems by (simp split: if_splits)
  then have s: "fold (modL_sub i) [i - 32..<i - 32 + Suc n] (x, 0) = (y[?j := v - d * 256], d)"
    by (simp add: y(1) modL_sub_def Let_def v_def d_def)
  have "octnum (y[?j := v - d * 256]) + d * 256 ^ (i - 32 + Suc n) = octnum y + c * 256 ^ ?j - 16 * x ! i * order_L ! n * 256 ^ ?j"
    using y(2) j by (simp add: octnum_update v_def algebra_simps)
  also have "\<dots> = octnum x - 16 * x ! i * octnum (take (Suc n) order_L) * 256 ^ (i - 32)"
    unfolding y(3) using Suc.prems by (simp add: octnum_take power_add algebra_simps)
  finally have n: "octnum (y[?j := v - d * 256]) + d * 256 ^ (i - 32 + Suc n) = octnum x - 16 * x ! i * octnum (take (Suc n) order_L) * 256 ^ (i - 32)" .
  have "if i - 32 \<le> k \<and> k < i - 32 + Suc n then - 128 \<le> y[?j := v - d * 256] ! k \<and> y[?j := v - d * 256] ! k \<le> 127 else y[?j := v - d * 256] ! k = x ! k" if "k < 64" for k
  proof (cases "k = ?j")
    case True
    then show ?thesis using signed_digit [of v] y(2) j by (simp add: d_def)
  next
    case False
    then have "i - 32 \<le> k \<and> k < i - 32 + Suc n \<longleftrightarrow> i - 32 \<le> k \<and> k < ?j" by linarith
    then show ?thesis using y(4) that False by simp
  qed
  then show ?case using s n y(2) by simp
qed

text \<open>The carries: large while the order has limbs, one at most after four empty limbs over small ones.\<close>

definition carry_of :: "nat \<Rightarrow> nat \<Rightarrow> int list \<Rightarrow> int" where
  "carry_of i n x = snd (fold (modL_sub i) [i - 32..<i - 32 + n] (x, 0))"

lemma carry_Suc:
  assumes "length x = 64" "32 \<le> i" "i < 64" "n < 20"
  shows "carry_of i (Suc n) x = (x ! (i - 32 + n) + (carry_of i n x - 16 * x ! i * order_L ! n) + 128) div 256"
proof -
  obtain y c where y: "fold (modL_sub i) [i - 32..<i - 32 + n] (x, 0) = (y, c)"
    "\<forall>k<64. (if i - 32 \<le> k \<and> k < i - 32 + n then - 128 \<le> y ! k \<and> y ! k \<le> 127 else y ! k = x ! k)"
    using modL_sub_steps [OF assms(1,2,3), of n] assms by auto
  have "y ! i = x ! i" "y ! (i - 32 + n) = x ! (i - 32 + n)" using y(2) assms by (simp_all split: if_splits)
  then show ?thesis by (simp add: carry_of_def y(1) modL_sub_def Let_def)
qed

lemma carry_ranges:
  assumes "length x = 64" "32 \<le> i" "i < 64" "\<And>k. k < 64 \<Longrightarrow> \<bar>x ! k\<bar> \<le> 2 ^ 22"
  shows "n \<le> 16 \<Longrightarrow> \<bar>carry_of i n x\<bar> \<le> 2 ^ 27" "\<bar>carry_of i 20 x\<bar> \<le> 2 ^ 15"
    "(\<And>k. i - 31 \<le> k \<Longrightarrow> k < i - 12 \<Longrightarrow> - 128 \<le> x ! k \<and> x ! k \<le> 127) \<Longrightarrow> \<bar>carry_of i 20 x\<bar> \<le> 1"
proof -
  have p: "\<bar>16 * x ! i * order_L ! n\<bar> \<le> 16 * 2 ^ 22 * 255" if "n < 32" for n
    using mult_mono [of "\<bar>x ! i\<bar>" "2 ^ 22" "\<bar>order_L ! n\<bar>" 255] order_range(1) [OF that] assms(3) assms(4) [of i] by (simp add: abs_mult mult.commute)
  have w: "\<bar>a\<bar> \<le> 2 ^ 27 \<Longrightarrow> \<bar>b\<bar> \<le> 2 ^ 22 \<Longrightarrow> \<bar>c\<bar> \<le> 16 * 2 ^ 22 * 255 \<Longrightarrow> \<bar>b + (a - c)\<bar> \<le> 256 * 2 ^ 27 + 127" for a b c :: int
    by simp
  show *: "\<bar>carry_of i n x\<bar> \<le> 2 ^ 27" if "n \<le> 16" for n
    using that
  proof (induction n)
    case 0
    then show ?case by (simp add: carry_of_def)
  next
    case (Suc n)
    have "\<bar>carry_of i n x\<bar> \<le> 2 ^ 27" "\<bar>x ! (i - 32 + n)\<bar> \<le> 2 ^ 22" "\<bar>16 * x ! i * order_L ! n\<bar> \<le> 16 * 2 ^ 22 * 255"
      using Suc assms p [of n] by simp_all
    then have "\<bar>x ! (i - 32 + n) + (carry_of i n x - 16 * x ! i * order_L ! n)\<bar> \<le> 256 * 2 ^ 27 + 127" by (rule w)
    from carry_bound [OF this] show ?case using carry_Suc [OF assms(1-3), of n] Suc.prems by simp
  qed
  have e: "\<bar>carry_of i (Suc n) x\<bar> \<le> b" if "16 \<le> n" "n < 20" "\<bar>carry_of i n x\<bar> \<le> a" "\<bar>x ! (i - 32 + n)\<bar> \<le> m" "m + a \<le> 256 * b + 127" for n a b m
  proof -
    have "\<bar>x ! (i - 32 + n) + carry_of i n x\<bar> \<le> 256 * b + 127" using that by linarith
    from carry_bound [OF this] show ?thesis using carry_Suc [OF assms(1-3), of n] that(1,2) order_range(2) [of n] by simp
  qed
  have c: "\<bar>carry_of i 16 x\<bar> \<le> 2 ^ 27" using * [of 16] by simp
  have l: "\<bar>x ! (i - 32 + n)\<bar> \<le> 2 ^ 22" if "n < 20" for n using assms that by simp
  have "\<bar>carry_of i 17 x\<bar> \<le> 2 ^ 20" using e [OF _ _ c l, of "2 ^ 20"] by simp
  note c17 = this
  have "\<bar>carry_of i 18 x\<bar> \<le> 2 ^ 15" using e [OF _ _ c17 l, of "2 ^ 15"] by simp
  note c18 = this
  have "\<bar>carry_of i 19 x\<bar> \<le> 2 ^ 15" using e [OF _ _ c18 l, of "2 ^ 15"] by simp
  note c19 = this
  show "\<bar>carry_of i 20 x\<bar> \<le> 2 ^ 15" using e [OF _ _ c19 l, of "2 ^ 15"] by simp
  assume small: "\<And>k. i - 31 \<le> k \<Longrightarrow> k < i - 12 \<Longrightarrow> - 128 \<le> x ! k \<and> x ! k \<le> 127"
  have m: "\<bar>x ! (i - 32 + n)\<bar> \<le> 128" if "1 \<le> n" "n < 20" for n
  proof -
    have "i - 31 \<le> i - 32 + n" "i - 32 + n < i - 12" using that assms(2) by linarith+
    from small [OF this] show ?thesis by linarith
  qed
  have "\<bar>carry_of i 18 x\<bar> \<le> 2 ^ 13" using e [OF _ _ c17 m, of "2 ^ 13"] by simp
  note d18 = this
  have "\<bar>carry_of i 19 x\<bar> \<le> 2 ^ 6" using e [OF _ _ d18 m, of "2 ^ 6"] by simp
  note d19 = this
  show "\<bar>carry_of i 20 x\<bar> \<le> 1" using e [OF _ _ d19 m, of 1] by simp
qed

lemma modL_high_step:
  assumes "length x = 64" "32 \<le> i" "i < 64" "\<And>k. k < 64 \<Longrightarrow> \<bar>x ! k\<bar> \<le> 2 ^ 22"
  shows "length (modL_high i x) = 64" "octnum (modL_high i x) mod ed_order = octnum x mod ed_order"
    "modL_high i x ! i = 0" "modL_high i x ! (i - 12) = x ! (i - 12) + carry_of i 20 x"
    "\<And>k. i - 32 \<le> k \<Longrightarrow> k < i - 12 \<Longrightarrow> - 128 \<le> modL_high i x ! k \<and> modL_high i x ! k \<le> 127"
    "\<And>k. k < 64 \<Longrightarrow> \<not> (i - 32 \<le> k \<and> k \<le> i - 12) \<Longrightarrow> k \<noteq> i \<Longrightarrow> modL_high i x ! k = x ! k"
proof -
  have u: "i - 32 + 20 = i - 12" using assms(2) by linarith
  obtain y c where y: "fold (modL_sub i) [i - 32..<i - 12] (x, 0) = (y, c)" "length y = 64"
    "octnum y + c * 256 ^ (i - 12) = octnum x - 16 * x ! i * octnum (take 20 order_L) * 256 ^ (i - 32)"
    "\<forall>k<64. (if i - 32 \<le> k \<and> k < i - 12 then - 128 \<le> y ! k \<and> y ! k \<le> 127 else y ! k = x ! k)"
    using modL_sub_steps [OF assms(1,2,3), of 20] unfolding u by auto
  have c: "carry_of i 20 x = c" unfolding carry_of_def u y(1) by simp
  have h: "modL_high i x = y[i - 12 := y ! (i - 12) + c, i := 0]" by (simp add: modL_high_def y(1) Let_def)
  have k: "y ! i = x ! i" "y ! (i - 12) = x ! (i - 12)" using y(4) assms by (simp_all split: if_splits)
  have n: "i - 12 < 64" "i - 12 \<noteq> i" using assms by linarith+
  have "octnum (modL_high i x) = octnum y + c * 256 ^ (i - 12) - x ! i * 256 ^ i"
    unfolding h using y(2) n assms(3) k by (simp add: octnum_update)
  also have "\<dots> = octnum x - x ! i * 256 ^ (i - 32) * (16 * octnum (take 20 order_L) + 256 ^ 32)"
  proof -
    have "(256 :: int) ^ i = 256 ^ (i - 32) * 256 ^ 32" using assms(2) by (simp only: flip: power_add) simp
    then show ?thesis unfolding y(3) by (simp only: algebra_simps)
  qed
  also have "\<dots> = octnum x + ed_order * (- (16 * x ! i * 256 ^ (i - 32)))" unfolding octnum_order(2) by (simp only: algebra_simps)
  finally have e: "octnum (modL_high i x) = octnum x + ed_order * (- (16 * x ! i * 256 ^ (i - 32)))" .
  have m: "octnum (modL_high i x) mod ed_order = octnum x mod ed_order" unfolding e by (rule mod_mult_self2)
  then show "octnum (modL_high i x) mod ed_order = octnum x mod ed_order" .
  show "length (modL_high i x) = 64" "modL_high i x ! i = 0" "modL_high i x ! (i - 12) = x ! (i - 12) + carry_of i 20 x"
    using y(2) n assms(3) k by (simp_all add: h c)
  show "\<And>k. i - 32 \<le> k \<Longrightarrow> k < i - 12 \<Longrightarrow> - 128 \<le> modL_high i x ! k \<and> modL_high i x ! k \<le> 127"
    using y(4) n by (simp add: h)
  show "\<And>k. k < 64 \<Longrightarrow> \<not> (i - 32 \<le> k \<and> k \<le> i - 12) \<Longrightarrow> k \<noteq> i \<Longrightarrow> modL_high i x ! k = x ! k"
    using y(4) n by (auto simp: h nth_list_update split: if_splits)
qed

section \<open>All the limbs above the order\<close>

definition modL_shape :: "nat \<Rightarrow> int list \<Rightarrow> bool" where
  "modL_shape m x \<longleftrightarrow> length x = 64 \<and>
     (\<forall>k<64. (m \<le> k \<longrightarrow> x ! k = 0) \<and> (k < m - 32 \<longrightarrow> \<bar>x ! k\<bar> \<le> 2 ^ 21) \<and>
       (m - 32 \<le> k \<and> k < m - 12 \<longrightarrow> - 128 \<le> x ! k \<and> x ! k \<le> 127) \<and>
       (m - 12 \<le> k \<and> k < 51 \<longrightarrow> \<bar>x ! k\<bar> \<le> 129) \<and> (51 \<le> k \<longrightarrow> \<bar>x ! k\<bar> \<le> 2 ^ 22))"

definition limbs_ok :: "int list \<Rightarrow> bool" where
  "limbs_ok x \<longleftrightarrow> length x = 64 \<and> (\<forall>k<64. \<bar>x ! k\<bar> \<le> 2 ^ 21)"

lemma shape_first:
  assumes "limbs_ok x"
  shows "modL_shape 63 (modL_high 63 x)" "octnum (modL_high 63 x) mod ed_order = octnum x mod ed_order"
proof -
  have x: "length x = 64" "\<And>k. k < 64 \<Longrightarrow> \<bar>x ! k\<bar> \<le> 2 ^ 21" using assms by (simp_all add: limbs_ok_def)
  have b: "\<bar>x ! k\<bar> \<le> 2 ^ 22" if "k < 64" for k using x(2) [OF that] by simp
  have le: "(32 :: nat) \<le> 63" "(63 :: nat) < 64" by simp_all
  note c = modL_high_step [OF x(1) le b, simplified] and r = carry_ranges(2) [OF x(1) le b]
  show "octnum (modL_high 63 x) mod ed_order = octnum x mod ed_order" by (rule c(2))
  have t: "\<bar>modL_high 63 x ! 51\<bar> \<le> 2 ^ 22" using c(4) r x(2) [of 51] by simp
  have "\<bar>modL_high 63 x ! k\<bar> \<le> 2 ^ 22" if "51 \<le> k" "k < 64" for k
    using that t c(3) c(6) [of k] b [of k] by (cases "k = 51"; cases "k = 63") auto
  moreover have "\<bar>modL_high 63 x ! k\<bar> \<le> 2 ^ 21" if "k < 31" for k using that x(2) [of k] c(6) [of k] by simp
  ultimately show "modL_shape 63 (modL_high 63 x)"
    using c(1,3,5) unfolding modL_shape_def
  proof (intro conjI allI impI)
    fix k :: nat assume "k < 64" "63 \<le> k"
    then have "k = 63" by simp
    then show "modL_high 63 x ! k = 0" using c(3) by simp
  qed simp_all
qed

lemma shape_next:
  assumes "modL_shape (Suc i) x" "32 \<le> i" "i < 63"
  shows "modL_shape i (modL_high i x)" "octnum (modL_high i x) mod ed_order = octnum x mod ed_order"
proof -
  have x: "length x = 64" "\<And>k. Suc i \<le> k \<Longrightarrow> k < 64 \<Longrightarrow> x ! k = 0" "\<And>k. k < i - 31 \<Longrightarrow> \<bar>x ! k\<bar> \<le> 2 ^ 21"
    "\<And>k. i - 31 \<le> k \<Longrightarrow> k < i - 11 \<Longrightarrow> - 128 \<le> x ! k \<and> x ! k \<le> 127"
    "\<And>k. i - 11 \<le> k \<Longrightarrow> k < 51 \<Longrightarrow> \<bar>x ! k\<bar> \<le> 129" "\<And>k. 51 \<le> k \<Longrightarrow> k < 64 \<Longrightarrow> \<bar>x ! k\<bar> \<le> 2 ^ 22"
    using assms by (simp_all add: modL_shape_def)
  have b: "\<bar>x ! k\<bar> \<le> 2 ^ 22" if "k < 64" for k
    using x(3) [of k] x(4) [of k] x(5) [of k] x(6) [of k] that by (cases "k < i - 31"; cases "k < i - 11"; cases "k < 51") auto
  have lt: "i < 64" using assms(3) by simp
  note c = modL_high_step [OF x(1) assms(2) lt b]
  show "octnum (modL_high i x) mod ed_order = octnum x mod ed_order" by (rule c(2))
  have "\<bar>carry_of i 20 x\<bar> \<le> 1" by (rule carry_ranges(3) [OF x(1) assms(2) lt b], assumption, rule x(4)) simp_all
  moreover have "- 128 \<le> x ! (i - 12) \<and> x ! (i - 12) \<le> 127" by (rule x(4)) (use assms(2) in linarith)+
  ultimately have t: "\<bar>modL_high i x ! (i - 12)\<bar> \<le> 129" using c(4) by linarith
  have z: "modL_high i x ! k = 0" if "i \<le> k" "k < 64" for k
  proof (cases "k = i")
    case False
    have "\<not> (i - 32 \<le> k \<and> k \<le> i - 12)" "Suc i \<le> k" using that False assms(2) by linarith+
    then show ?thesis using c(6) [of k] x(2) [of k] that False by simp
  qed (use c(3) in simp)
  have l: "\<bar>modL_high i x ! k\<bar> \<le> 2 ^ 21" if "k < i - 32" for k using that c(6) [of k] x(3) [of k] assms by simp
  have m: "\<bar>modL_high i x ! k\<bar> \<le> 129" if "i - 12 \<le> k" "k < 51" for k
    using that t c(3) c(6) [of k] x(5) [of k] assms(2) by (cases "k = i - 12"; cases "k = i") auto
  have h: "\<bar>modL_high i x ! k\<bar> \<le> 2 ^ 22" if "51 \<le> k" "k < 64" for k
  proof (cases "k = i")
    case False
    have "\<not> (i - 32 \<le> k \<and> k \<le> i - 12)" using that assms(3) by linarith
    then show ?thesis using c(6) [of k] x(6) [of k] that False by simp
  qed (use c(3) in simp)
  show "modL_shape i (modL_high i x)" unfolding modL_shape_def using c(1,5) z l m h by blast
qed

lemma shape_all:
  assumes "limbs_ok x" "32 \<le> i" "i \<le> 63"
  shows "modL_shape i (fold modL_high (rev [i..<64]) x) \<and> octnum (fold modL_high (rev [i..<64]) x) mod ed_order = octnum x mod ed_order"
  using assms(3,2)
proof (induction i rule: inc_induct)
  case base
  then show ?case using shape_first [OF assms(1)] by (simp add: upt_rec)
next
  case (step i)
  have "[i..<64] = i # [Suc i..<64]" using step by (simp add: upt_conv_Cons)
  then show ?case using step shape_next [of i "fold modL_high (rev [Suc i..<64]) x"] by simp
qed

section \<open>The last passes\<close>

lemma modL_last_steps:
  assumes "length x = 64" "n \<le> 32"
  shows "\<exists>y c. fold modL_last [0..<n] (x, 0) = (y, c) \<and> length y = 64 \<and>
    octnum y + c * 256 ^ n = octnum x - x ! 31 div 16 * octnum (take n order_L) \<and>
    (\<forall>k<64. if k < n then 0 \<le> y ! k \<and> y ! k \<le> 255 else y ! k = x ! k)"
  using assms(2)
proof (induction n)
  case 0
  then show ?case using assms by simp
next
  case (Suc n)
  obtain y c where y: "fold modL_last [0..<n] (x, 0) = (y, c)" "length y = 64"
    "octnum y + c * 256 ^ n = octnum x - x ! 31 div 16 * octnum (take n order_L)"
    "\<forall>k<64. if k < n then 0 \<le> y ! k \<and> y ! k \<le> 255 else y ! k = x ! k"
    using Suc.IH Suc.prems by auto
  define v where "v = y ! n + (c - x ! 31 div 16 * order_L ! n)"
  have "y ! 31 = x ! 31" using y(4) Suc.prems by (simp split: if_splits)
  moreover have a: "v AND 255 = v mod 256"
  proof -
    have "v AND 255 = take_bit 8 v" by (simp only: take_bit_eq_mask mask_eq_exp_minus_1) simp
    then show ?thesis by (simp add: take_bit_eq_mod)
  qed
  ultimately have s: "fold modL_last [0..<Suc n] (x, 0) = (y[n := v mod 256], v div 256)"
    by (simp add: y(1) modL_last_def Let_def v_def)
  have "octnum (y[n := v mod 256]) + v div 256 * 256 ^ Suc n = octnum y + 256 ^ n * ((v div 256 * 256 + v mod 256) - y ! n)"
  proof -
    have t: "a + 256 ^ n * (e - b) + d * 256 ^ Suc n = a + 256 ^ n * ((d * 256 + e) - b)" for a b d e :: int by (simp add: algebra_simps)
    have "n < length y" using y(2) Suc.prems by simp
    then show ?thesis by (simp only: octnum_update t)
  qed
  also have "\<dots> = octnum y + c * 256 ^ n - x ! 31 div 16 * order_L ! n * 256 ^ n"
    unfolding div_mult_mod_eq v_def by (simp add: algebra_simps)
  also have "\<dots> = octnum x - x ! 31 div 16 * octnum (take (Suc n) order_L)"
    unfolding y(3) using Suc.prems by (simp add: octnum_take algebra_simps)
  finally have n: "octnum (y[n := v mod 256]) + v div 256 * 256 ^ Suc n = octnum x - x ! 31 div 16 * octnum (take (Suc n) order_L)" .
  have "if k < Suc n then 0 \<le> y[n := v mod 256] ! k \<and> y[n := v mod 256] ! k \<le> 255 else y[n := v mod 256] ! k = x ! k" if "k < 64" for k
    using y(2,4) that Suc.prems by (cases "k = n") (auto simp: less_Suc_eq)
  then show ?case using s n y(2) by (intro exI conjI allI impI) (simp, simp, simp only:, blast)
qed

lemma subtract_order:
  assumes "length x = 64" "n \<le> 32"
  shows "length (fold (\<lambda>j x. x[j := x ! j - c * order_L ! j]) [0..<n] x) = 64 \<and>
    octnum (fold (\<lambda>j x. x[j := x ! j - c * order_L ! j]) [0..<n] x) = octnum x - c * octnum (take n order_L)"
  using assms(2)
  by (induction n) (simp_all add: assms octnum_update octnum_take algebra_simps)

lemma modL_out_steps:
  assumes "length x = 64" "n \<le> 32" "0 \<le> octnum x"
  shows "\<exists>y. fold modL_out [0..<n] (x, []) = (y, le_bytes n (nat (octnum x))) \<and> length y = 64 \<and> octnum (drop n y) = octnum x div 256 ^ n"
  using assms(2)
proof (induction n)
  case 0
  then show ?case using assms by (simp add: le_bytes_def)
next
  case (Suc n)
  obtain y where y: "fold modL_out [0..<n] (x, []) = (y, le_bytes n (nat (octnum x)))" "length y = 64" "octnum (drop n y) = octnum x div 256 ^ n"
    using Suc.IH Suc.prems by auto
  have d: "drop n y = y ! n # y ! Suc n # drop (Suc (Suc n)) y" using y(2) Suc.prems by (simp add: Cons_nth_drop_Suc)
  then have e: "y ! n + 256 * (y ! Suc n + 256 * octnum (drop (Suc (Suc n)) y)) = octnum x div 256 ^ n" using y(3) by simp
  have "word_of_int (y ! n AND 255) = (word_of_nat (nat (octnum x) div 256 ^ n) :: u8)"
  proof -
    have "y ! n AND 255 = take_bit 8 (y ! n)" by (simp only: take_bit_eq_mask mask_eq_exp_minus_1) simp
    also have "\<dots> = y ! n mod 256" by (simp add: take_bit_eq_mod)
    also have "\<dots> = octnum x div 256 ^ n mod 256" unfolding e [symmetric] by (rule mod_mult_self2 [symmetric])
    finally have "word_of_int (y ! n AND 255) = (word_of_int (octnum x div 256 ^ n) :: u8)" by (simp only:) (simp add: word_uint_eq_iff uint_word_of_int)
    also have "octnum x div 256 ^ n = int (nat (octnum x) div 256 ^ n)" using assms(3) by (simp add: zdiv_int)
    finally show ?thesis by simp
  qed
  then have "fold modL_out [0..<Suc n] (x, []) = (y[Suc n := y ! Suc n + y ! n div 256], le_bytes (Suc n) (nat (octnum x)))"
    by (simp add: y(1) modL_out_def le_bytes_def)
  moreover have "drop (Suc n) (y[Suc n := v]) = v # drop (Suc (Suc n)) y" for v
    using y(2) Suc.prems by (simp add: drop_update_swap Cons_nth_drop_Suc [symmetric])
  moreover have "y ! Suc n + y ! n div 256 + 256 * octnum (drop (Suc (Suc n)) y) = octnum x div 256 ^ n div 256" unfolding e [symmetric] by simp
  moreover have "octnum x div 256 ^ n div 256 = octnum x div 256 ^ Suc n" by (simp only: power_Suc2) (simp add: zdiv_zmult2_eq)
  ultimately show ?case using y(2) by simp
qed

section \<open>The residue\<close>

lemma octnum_zeros: "(\<And>k. k < length x \<Longrightarrow> x ! k = 0) \<Longrightarrow> octnum x = 0"
proof (induction x)
  case (Cons a x)
  have "a = 0" using Cons.prems [of 0] by simp
  moreover have "octnum x = 0" using Cons.prems [of "Suc _"] by (intro Cons.IH) simp
  ultimately show ?case by simp
qed simp

lemma octnum_low: "length x = 64 \<Longrightarrow> (\<And>k. 32 \<le> k \<Longrightarrow> k < 64 \<Longrightarrow> x ! k = 0) \<Longrightarrow> octnum x = octnum (take 32 x)"
  using octnum_append [of "take 32 x" "drop 32 x"] octnum_zeros [of "drop 32 x"] by simp

lemma octnum_bound: "(\<forall>v\<in>set x. \<bar>v\<bar> \<le> b) \<Longrightarrow> 255 * \<bar>octnum x\<bar> \<le> b * (256 ^ length x - 1)"
proof (induction x)
  case (Cons v x)
  then have "255 * \<bar>octnum x\<bar> \<le> b * (256 ^ length x - 1)" "\<bar>v\<bar> \<le> b" by simp_all
  moreover have "\<bar>v + 256 * octnum x\<bar> \<le> \<bar>v\<bar> + 256 * \<bar>octnum x\<bar>" by simp
  ultimately show ?case by (simp add: algebra_simps)
qed simp

lemma octnum_bytes: "(\<forall>v\<in>set x. 0 \<le> v \<and> v \<le> 255) \<Longrightarrow> 0 \<le> octnum x \<and> octnum x < 256 ^ length x"
  by (induction x) auto

lemma le_bytes_wrap: "le_bytes l (n + 256 ^ l * m) = le_bytes l n"
proof (induction l arbitrary: n)
  case (Suc l)
  have "(n + 256 ^ Suc l * m) div 256 = n div 256 + 256 ^ l * m" by simp
  moreover have "word_of_nat (n + 256 * k) = (word_of_nat n :: u8)" for k
  proof -
    have "(256 :: u8) = 0" by simp
    then show ?thesis by (simp only: of_nat_add of_nat_mult of_nat_numeral) simp
  qed
  ultimately show ?case unfolding le_bytes_Suc Suc.IH power_Suc mult.assoc by (simp only:) (simp add: Suc.IH)
qed (simp add: le_bytes_def)

text \<open>The number before the last two passes: at least the negative of the order, and less than it.\<close>

lemma last_range:
  fixes lo r q c P :: int
  assumes "255 * \<bar>lo\<bar> \<le> 129 * P" "0 \<le> r" "r \<le> 15" "\<bar>q\<bar> \<le> 9" "0 \<le> c" "100 * c \<le> P" "0 < P"
  shows "- (16 * P + c) \<le> lo + P * r - q * c" "lo + P * r - q * c < 16 * P + c"
proof -
  have "P * r \<le> P * 15" "0 \<le> P * r" using assms by (simp_all add: mult_left_mono)
  moreover have "\<bar>q * c\<bar> \<le> 9 * c" using assms by (simp add: abs_mult mult_right_mono)
  ultimately show "- (16 * P + c) \<le> lo + P * r - q * c" "lo + P * r - q * c < 16 * P + c" using assms by linarith+
qed

lemma before_last:
  assumes "modL_shape 32 x"
  shows "- ed_order \<le> octnum x - x ! 31 div 16 * ed_order" "octnum x - x ! 31 div 16 * ed_order < ed_order"
proof -
  have x: "length x = 64" "\<And>k. 32 \<le> k \<Longrightarrow> k < 64 \<Longrightarrow> x ! k = 0" "\<And>k. k < 20 \<Longrightarrow> - 128 \<le> x ! k \<and> x ! k \<le> 127"
    "\<And>k. 20 \<le> k \<Longrightarrow> k < 51 \<Longrightarrow> \<bar>x ! k\<bar> \<le> 129"
    using assms by (simp_all add: modL_shape_def)
  have b: "\<bar>x ! k\<bar> \<le> 129" if "k < 32" for k using x(3) [of k] x(4) [of k] that by (cases "k < 20") auto
  have "\<forall>v\<in>set (take 31 x). \<bar>v\<bar> \<le> 129" using b x(1) by (auto simp: in_set_conv_nth)
  then have lo: "255 * \<bar>octnum (take 31 x)\<bar> \<le> 129 * 256 ^ 31" using octnum_bound [of "take 31 x" 129] x(1) by simp
  have n: "octnum x = octnum (take 31 x) + 256 ^ 31 * x ! 31" using octnum_low [OF x(1,2)] octnum_take [of 31 x] x(1) by simp
  have q: "\<bar>x ! 31 div 16\<bar> \<le> 9" using b [of 31] by (simp add: abs_le_iff) linarith
  have o: "ed_order = 16 * 256 ^ 31 + 27742317777372353535851937790883648493" by (simp add: ed_order_def)
  have "octnum x - x ! 31 div 16 * ed_order =
      octnum (take 31 x) + 256 ^ 31 * (x ! 31 mod 16) - x ! 31 div 16 * 27742317777372353535851937790883648493"
    unfolding n o by (simp add: minus_mult_div_eq_mod [symmetric] algebra_simps)
  moreover have "0 \<le> x ! 31 mod 16" "x ! 31 mod 16 \<le> 15" using pos_mod_bound [of 16 "x ! 31"] by simp_all
  ultimately show "- ed_order \<le> octnum x - x ! 31 div 16 * ed_order" "octnum x - x ! 31 div 16 * ed_order < ed_order"
    using last_range [OF lo _ _ q, of "x ! 31 mod 16" 27742317777372353535851937790883648493] unfolding o by simp_all
qed

lemma residue_bytes:
  assumes "- ed_order \<le> v" "v < ed_order" "0 \<le> w" "w < 256 ^ 32" "w + c * 256 ^ 32 = v"
  shows "0 \<le> w - c * ed_order \<and> le_bytes 32 (nat (w - c * ed_order)) = le_bytes 32 (nat (v mod ed_order))"
proof (cases "0 \<le> v")
  case True
  have "ed_order < 256 ^ 32" by (simp add: ed_order_def)
  then have "v div 256 ^ 32 = 0" using True assms(2) by simp
  moreover have "v div 256 ^ 32 = c" using assms(3,4) unfolding assms(5) [symmetric] by simp
  ultimately show ?thesis using True assms by simp
next
  case False
  have "(256 :: int) ^ 32 > ed_order" by (simp add: ed_order_def)
  then have "(v + 256 ^ 32) div 256 ^ 32 = 0" using False assms(1) by simp
  moreover have "(v + 256 ^ 32) div 256 ^ 32 = c + 1" using assms(3,4) unfolding assms(5) [symmetric] by simp
  ultimately have c: "c = - 1" by simp
  have v: "v mod ed_order = v + ed_order"
    using False assms(1) mod_pos_pos_trivial [of "v + ed_order" ed_order] mod_add_self2 [of v ed_order] by linarith
  have "nat (w - c * ed_order) = nat (v + ed_order) + 256 ^ 32 * 1" using assms(1,5) unfolding c by (simp add: nat_add_distrib flip: assms(5))
  then show ?thesis unfolding v le_bytes_wrap [symmetric, of 32 "nat (v + ed_order)" 1] using assms(3) c by (simp add: ed_order_def)
qed

lemma modL_residue:
  assumes "limbs_ok x"
  shows "modL x = le_bytes 32 (nat (octnum x mod ed_order))"
proof -
  define y where "y = fold modL_high (rev [32..<64]) x"
  have y: "modL_shape 32 y" "octnum y mod ed_order = octnum x mod ed_order" using shape_all [OF assms, of 32] by (simp_all add: y_def)
  have l: "length y = 64" "\<And>k. 32 \<le> k \<Longrightarrow> k < 64 \<Longrightarrow> y ! k = 0" using y(1) by (simp_all add: modL_shape_def)
  obtain z c where z: "fold modL_last [0..<32] (y, 0) = (z, c)" "length z = 64"
    "octnum z + c * 256 ^ 32 = octnum y - y ! 31 div 16 * ed_order" "\<forall>k<64. if k < 32 then 0 \<le> z ! k \<and> z ! k \<le> 255 else z ! k = y ! k"
    using modL_last_steps [OF l(1), of 32] octnum_order(1) by auto
  have "\<And>k. 32 \<le> k \<Longrightarrow> k < 64 \<Longrightarrow> z ! k = 0" using z(4) l(2) by simp
  then have zn: "octnum z = octnum (take 32 z)" by (rule octnum_low [OF z(2)])
  have "\<forall>v\<in>set (take 32 z). 0 \<le> v \<and> v \<le> 255" using z(2,4) by (auto simp: in_set_conv_nth)
  then have w: "0 \<le> octnum z" "octnum z < 256 ^ 32" unfolding zn using octnum_bytes [of "take 32 z"] z(2) by simp_all
  define u where "u = fold (\<lambda>j x. x[j := x ! j - c * order_L ! j]) [0..<32] z"
  have u: "length u = 64" "octnum u = octnum z - c * ed_order" using subtract_order [OF z(2), of 32 c] octnum_order(1) by (simp_all add: u_def)
  note R = residue_bytes [OF before_last [OF y(1)] w z(3)]
  obtain t where t: "fold modL_out [0..<32] (u, []) = (t, le_bytes 32 (nat (octnum u)))" using modL_out_steps [OF u(1), of 32] R u(2) by auto
  have "modL x = le_bytes 32 (nat (octnum u))" unfolding modL_def Let_def y_def [symmetric] z(1) prod.case u_def [symmetric] t by simp
  also have "\<dots> = le_bytes 32 (nat (octnum x mod ed_order))" unfolding u(2) using R y(2) mod_diff_eq [of "octnum y" ed_order "y ! 31 div 16 * ed_order"] by simp
  finally show ?thesis .
qed

lemma octnum_map: "octnum (map uint b) = int (le_num b)"
  by (induction b) simp_all

lemma reduce_residue: "modL_reduce r = le_bytes 32 (le_num (slice 0 64 r) mod nat ed_order)"
proof -
  have m: "map (\<lambda>i. uint (bget r i)) [0..<64] = map uint (slice 0 64 r)" by (simp add: slice_def)
  have u: "\<bar>uint b\<bar> \<le> 2 ^ 21" for b :: u8 using uint_bounded [of b] uint_nonnegative [of b] by simp
  have "limbs_ok (map (\<lambda>i. uint (bget r i)) [0..<64])" using u by (simp add: limbs_ok_def)
  then have "modL_reduce r = le_bytes 32 (nat (int (le_num (slice 0 64 r)) mod ed_order))"
    unfolding modL_reduce_def by (simp only: modL_residue) (simp only: m octnum_map)
  moreover have "0 < ed_order" by (simp add: ed_order_def)
  ultimately show ?thesis by (simp add: nat_mod_distrib)
qed

end
