(* ===== verification/Tweet_Compare.thy ===== *)
theory Tweet_Compare
  imports Tweet_Poly
begin

text \<open>The comparison of tags and keys in \<^verbatim>\<open>c/lib/ed25519/src/tweetnacl.c\<close>, which has no branch.\<close>

definition vn :: "bytes \<Rightarrow> bytes \<Rightarrow> nat \<Rightarrow> int" where
  "vn x y n =
     (let d = fold (\<lambda>i d. d OR ucast (bget x i XOR bget y i)) [0..<n] (0 :: ulong)
      in sint (ucast ((1 AND drop_bit 8 (d - 1)) - 1) :: u32))"

definition crypto_verify_16 :: "bytes \<Rightarrow> bytes \<Rightarrow> int" where
  "crypto_verify_16 x y = vn x y 16"

definition crypto_verify_32 :: "bytes \<Rightarrow> bytes \<Rightarrow> int" where
  "crypto_verify_32 x y = vn x y 32"

section \<open>Comparing without a branch\<close>

lemma or_bytes: "fold (\<lambda>i d. d OR ucast (f i)) [0..<n] (0 :: ulong) = ucast (fold (\<lambda>i d. d OR f i) [0..<n] (0 :: u8))"
proof (induction n)
  case (Suc n)
  have "ucast (a OR b) = (ucast a OR ucast b :: ulong)" for a b :: u8
    by (rule bit_word_eqI) (auto simp: bit_or_iff bit_ucast_iff)
  then show ?case using Suc by (simp add: upt_Suc_append)
qed simp

lemma or_zero: "fold (\<lambda>i d. d OR f i) [0..<n] (0 :: u8) = 0 \<longleftrightarrow> (\<forall>i<n. f i = 0)"
proof (induction n)
  case (Suc n)
  have "a OR b = 0 \<longleftrightarrow> a = 0 \<and> b = 0" for a b :: u8 by (auto simp: bit_eq_iff bit_or_iff)
  then show ?case using Suc by (auto simp: upt_Suc_append less_Suc_eq)
qed simp

lemma verdict: "sint (ucast ((1 AND drop_bit 8 ((ucast (d :: u8) :: ulong) - 1)) - 1) :: u32) = (if d = 0 then 0 else - 1)"
proof (cases "d = 0")
  case True
  then show ?thesis by (simp add: mask_eq_exp_minus_1)
next
  case False
  then have u: "unat d \<noteq> 0" "unat d < 256" using unsigned_less [of d, where ?'a = nat] by (simp_all add: unat_eq_0)
  have "unat ((ucast d :: ulong) - 1) < 256" using u byte_limb [of d] by (simp add: unat_sub_if')
  then have "unat (drop_bit 8 ((ucast d :: ulong) - 1)) = 0" by (simp only: limb_word)
  then have "drop_bit 8 ((ucast d :: ulong) - 1) = 0" by (simp only: unat_eq_0)
  moreover have "(ucast (- 1 :: ulong) :: u32) = - 1" by (rule bit_word_eqI) (simp add: bit_ucast_iff)
  ultimately show ?thesis using False by simp
qed

text \<open>The comparison of tags, which has no branch, tells equal from different ones.\<close>

theorem vn_compares: "vn x y n = (if slice 0 n x = slice 0 n y then 0 else - 1)"
proof -
  have x: "a XOR b = 0 \<longleftrightarrow> a = b" for a b :: u8 by (auto simp: bit_eq_iff bit_xor_iff)
  have "slice 0 n x = slice 0 n y \<longleftrightarrow> (\<forall>i<n. bget x i XOR bget y i = 0)"
    by (auto simp: slice_def x)
  then show ?thesis unfolding vn_def Let_def or_bytes verdict or_zero by simp
qed

end
