(* ===== verification/Tweet_Sign.thy ===== *)
theory Tweet_Sign
  imports Tweet_ModL Tweet_Compare
begin

text \<open>
  Ed25519 of \<^verbatim>\<open>c/lib/ed25519/src/tweetnacl.c\<close>: signing, the decoding of a public key and opening a
  signed message, and what they compute in the formulas of RFC 8032 for points and scalars.
\<close>

section \<open>The code\<close>

definition gf_D :: gf where
  "gf_D = [0x78a3, 0x1359, 0x4dca, 0x75eb, 0xd8ab, 0x4141, 0x0a4d, 0x0070, 0xe898, 0x7779, 0x4079, 0x8cc7, 0xfe73, 0x2b6f, 0x6cee, 0x5203]"

definition gf_I :: gf where
  "gf_I = [0xa0b0, 0x4a0e, 0x1b27, 0xc4ee, 0xe478, 0xad2f, 0x1806, 0x2f43, 0xd7a7, 0x3dfb, 0x0099, 0x2b4d, 0xdf0b, 0x4fc1, 0x2480, 0x2b83]"

definition neq25519 :: "gf \<Rightarrow> gf \<Rightarrow> int" where
  "neq25519 a b = crypto_verify_32 (pack25519 a) (pack25519 b)"

definition pow2523 :: "gf \<Rightarrow> gf" where
  "pow2523 i = fold (\<lambda>a c. let c = gf_S c in if a \<noteq> 1 then gf_M c i else c) (rev [0..<251]) i"

text \<open>The negative of the point; no point if there is none with the coordinate.\<close>

definition unpackneg :: "bytes \<Rightarrow> gf4 option" where
  "unpackneg p =
     (let r2 = gf1; r1 = unpack25519 p; n = gf_S r1; den = gf_M n gf_D; n = gf_Z n r2; den = gf_A r2 den;
          den2 = gf_S den; den4 = gf_S den2; den6 = gf_M den4 den2; t = gf_M den6 n; t = gf_M t den;
          t = pow2523 t; t = gf_M t n; t = gf_M t den; t = gf_M t den; r0 = gf_M t den;
          chk = gf_S r0; chk = gf_M chk den; r0 = (if neq25519 chk n \<noteq> 0 then gf_M r0 gf_I else r0);
          chk = gf_S r0; chk = gf_M chk den
      in if neq25519 chk n \<noteq> 0 then None
         else let r0 = (if par25519 r0 = drop_bit 7 (bget p 31) then gf_Z gf0 r0 else r0) in Some (r0, r1, r2, gf_M r0 r1))"

definition sign_products :: "bytes \<Rightarrow> bytes \<Rightarrow> bytes \<Rightarrow> int list" where
  "sign_products r h d =
     fold (\<lambda>i x. fold (\<lambda>j x. x[i + j := x ! (i + j) + uint (bget h i) * uint (bget d j)]) [0..<32] x) [0..<32]
       (map (\<lambda>i. uint (bget r i)) [0..<32] @ replicate 32 0)"

definition crypto_sign :: "bytes \<Rightarrow> bytes \<Rightarrow> bytes" where
  "crypto_sign m sk =
     (let d = tweet_hash (slice 0 32 sk); a = clamp_scalar d; r = modL_reduce (tweet_hash (slice 32 32 d @ m));
          R = point_pack (point_scalarbase r); h = modL_reduce (tweet_hash (R @ slice 32 32 sk @ m))
      in R @ modL (sign_products r h a) @ m)"

text \<open>The result, the message buffer, which comes in as \<open>buf\<close>, and the length.\<close>

definition crypto_sign_open :: "bytes \<Rightarrow> bytes \<Rightarrow> bytes \<Rightarrow> int \<times> bytes \<times> u64" where
  "crypto_sign_open buf sm pk =
     (let n = length sm in
      if n < 64 then (- 1, buf, - 1)
      else case unpackneg pk of None \<Rightarrow> (- 1, buf, - 1)
      | Some q \<Rightarrow>
          let m = blit buf 0 sm; m = blit m 32 (slice 0 32 pk); h = modL_reduce (tweet_hash (take n m));
              p = point_scalarmult q h; q = point_scalarbase (drop 32 sm); p = point_add p q; t = point_pack p; n = n - 64
          in if crypto_verify_32 sm t \<noteq> 0 then (- 1, blit m 0 (zeros n), - 1)
             else (0, blit m 0 (drop 64 sm), word_of_nat n))"

section \<open>What they compute\<close>

text \<open>The formulas are those of RFC 8032. Signing is its procedure, with the public key taken from the
  second half of the secret key. Opening is its equation without its range checks: the decoding
  takes a coordinate that is not reduced (from \<open>P25519\<close> on) and a sign bit on \<open>x = 0\<close>, and the
  second half of the signature need not be below the order, so that encodings open which the RFC
  refuses.\<close>

definition ed_sqrt_m1 :: int where
  "ed_sqrt_m1 = 19681161376707505956807079304988542015446066515923890162744021073123829784752"

definition ed_root :: "int \<Rightarrow> int" where
  "ed_root y = (let u = y ^ 2 - 1; v = 1 + ed_D * y ^ 2; x = u * v ^ 3 * (u * v ^ 7) ^ (2 ^ 252 - 3)
     in if x ^ 2 * v mod P25519 = u mod P25519 then x else x * ed_sqrt_m1)"

definition ed_decode_neg :: "bytes \<Rightarrow> point option" where
  "ed_decode_neg p =
     (let y = decode_u p; x = ed_root y; sign = bget p 31 \<ge> 128
      in if x ^ 2 * (1 + ed_D * y ^ 2) mod P25519 \<noteq> (y ^ 2 - 1) mod P25519 then None
         else let x = (if odd (x mod P25519) = sign then - x else x) in Some (x, y, 1, x * y))"

definition ed_challenge :: "bytes \<Rightarrow> nat" where
  "ed_challenge b = le_num (tweet_hash b) mod nat ed_order"

definition ed_sign :: "bytes \<Rightarrow> bytes \<Rightarrow> bytes" where
  "ed_sign m sk =
     (let d = tweet_hash (slice 0 32 sk); a = le_num (clamp_scalar d); r = ed_challenge (slice 32 32 d @ m);
          R = ed_encode (ed_mult r ed_base); h = ed_challenge (R @ slice 32 32 sk @ m)
      in R @ le_bytes 32 ((r + h * a) mod nat ed_order) @ m)"

definition ed_verify :: "bytes \<Rightarrow> bytes \<Rightarrow> bool" where
  "ed_verify sm pk \<longleftrightarrow> 64 \<le> length sm \<and>
     (case ed_decode_neg pk of None \<Rightarrow> False
      | Some A \<Rightarrow> let h = ed_challenge (take 32 sm @ slice 0 32 pk @ drop 64 sm); S = le_num (slice 32 32 sm)
                  in ed_encode (ed_plus (ed_mult h A) (ed_mult S ed_base)) = take 32 sm)"

section \<open>The root\<close>

definition fits :: "gf \<Rightarrow> int \<Rightarrow> bool" where
  "fits a x \<longleftrightarrow> loose a \<and> num a mod P25519 = x mod P25519"

lemma stands_fits: "stands a x \<Longrightarrow> fits a x"
  by (simp add: stands_def fits_def tight_loose)

lemma fits_M: "fits a x \<Longrightarrow> fits b y \<Longrightarrow> stands (gf_M a b) (x * y)"
  by (simp add: fits_def stands_M)

lemma fits_S: "fits a x \<Longrightarrow> stands (gf_S a) (x ^ 2)"
  by (simp add: fits_def stands_S)

lemma fits_AZ: "stands a x \<Longrightarrow> stands b y \<Longrightarrow> fits (gf_A a b) (x + y)" "stands a x \<Longrightarrow> stands b y \<Longrightarrow> fits (gf_Z a b) (x - y)"
  using stands_AZ [of a x b y] by (simp_all add: fits_def)

lemma fits_pack: "fits a x \<Longrightarrow> pack25519 a = le_bytes 32 (nat (x mod P25519))"
  by (simp add: fits_def pack25519_num)

lemma pow_exponent: "fold (\<lambda>a e. if a \<noteq> 1 then 2 * e + 1 else 2 * e) (rev [0..<251]) (1 :: nat) = 2 ^ 252 - 3"
proof -
  have s: "[0..<251] = [0, 1] @ [2..<251]"
  proof -
    have "[0..<2] = [0, 1 :: nat]" by (simp add: upt_rec)
    moreover have "[0..<2 + 249] = [0..<2] @ [2..<2 + 249 :: nat]" by (rule upt_add_eq_append) simp
    moreover have "2 + 249 = (251 :: nat)" by simp
    ultimately show ?thesis by (simp only:)
  qed
  have "fold (\<lambda>a e. if a \<noteq> 1 then 2 * e + 1 else 2 * e) (rev [2..<251]) (1 :: nat) + 1 = 2 ^ 249 * (1 + 1)"
    using exponent_run [of "rev [2..<251]" "\<lambda>a. a \<noteq> 1" 1] by (simp only: length_rev length_upt) (simp del: upt_rec_numeral)
  then have "fold (\<lambda>a e. if a \<noteq> 1 then 2 * e + 1 else 2 * e) (rev [2..<251]) (1 :: nat) = 2 ^ 250 - 1" by simp
  then show ?thesis by (simp only: s rev_append fold_append comp_apply) simp
qed

lemma pow2523_stands:
  assumes "fits a x"
  shows "stands (pow2523 a) (x ^ (2 ^ 252 - 3))"
proof -
  have l: "loose a" "num a mod P25519 = x mod P25519" using assms by (simp_all add: fits_def)
  have "tight (pow2523 a)" "num (pow2523 a) mod P25519 = num a ^ (2 ^ 252 - 3) mod P25519"
    using power_steps [OF l(1) l(1), of 1 "\<lambda>a. a \<noteq> 1" "rev [0..<251]"] unfolding pow_exponent pow2523_def by (simp_all only: power_one_right) simp_all
  then show ?thesis unfolding stands_def using power_mod [of "num a" P25519 "2 ^ 252 - 3"] power_mod [of x P25519 "2 ^ 252 - 3"] l(2) by metis
qed

lemma le_num_le_bytes: "le_num (le_bytes l n) = n mod 256 ^ l"
proof (induction l arbitrary: n)
  case (Suc l)
  have "n mod (256 * 256 ^ l) = 256 * (n div 256 mod 256 ^ l) + n mod 256" by (rule mod_mult2_eq)
  then show ?case by (simp add: le_bytes_Suc Suc unat_of_nat)
qed (simp add: le_bytes_def)

lemma neq_fits: "fits a x \<Longrightarrow> fits b y \<Longrightarrow> neq25519 a b \<noteq> 0 \<longleftrightarrow> x mod P25519 \<noteq> y mod P25519"
proof -
  assume f: "fits a x" "fits b y"
  have i: "le_bytes 32 (nat (x mod P25519)) = le_bytes 32 (nat (y mod P25519)) \<longleftrightarrow> x mod P25519 = y mod P25519"
  proof
    assume "le_bytes 32 (nat (x mod P25519)) = le_bytes 32 (nat (y mod P25519))"
    then have "nat (x mod P25519) mod 256 ^ 32 = nat (y mod P25519) mod 256 ^ 32" by (metis le_num_le_bytes)
    moreover have "nat (z mod P25519) < 256 ^ 32" for z using P25519_range [of z] by (simp add: nat_less_iff)
    ultimately have "nat (x mod P25519) = nat (y mod P25519)" by (simp only: mod_less)
    then show "x mod P25519 = y mod P25519" using P25519_range(1) [of x] P25519_range(1) [of y] by simp
  qed simp
  have "length (le_bytes 32 n) = 32" for n by (simp add: le_bytes_def)
  then show ?thesis by (simp add: neq25519_def crypto_verify_32_def vn_compares fits_pack [OF f(1)] fits_pack [OF f(2)] slice_self i)
qed

lemma constants_DI: "stands gf_D ed_D" "stands gf_I ed_sqrt_m1"
  by (rule limbs_stand; simp add: gf_D_def ed_D_def gf_I_def ed_sqrt_m1_def)+

lemma odd_residue: "drop_bit 7 (b :: u8) = of_bool (128 \<le> b)"
proof -
  have "unat b < 256" using unsigned_less [of b, where ?'a = nat] by simp
  then have "unat b div 128 = of_bool (128 \<le> unat b)" 
  proof (cases "128 \<le> unat b")
    case True
    then have "unat b div 128 = 1" using \<open>unat b < 256\<close> by (intro div_nat_eqI) simp_all
    then show ?thesis using True by simp
  qed simp
  moreover have "unat (drop_bit 7 b) = unat b div 128" using \<open>unat b < 256\<close> by (simp only: unsigned_drop_bit_eq) (simp add: drop_bit_eq_div take_bit_nat_eq_self)
  ultimately show ?thesis by (simp add: word_unat_eq_iff word_le_nat_alt)
qed

lemma negative: "stands a x \<Longrightarrow> near (gf_Z gf0 a) (- x)"
proof -
  assume a: "stands a x"
  have "limbs_within 0 gf0" by (simp add: limbs_within_def gf0_def)
  moreover have "limbs_within 65574 a" using a by (simp add: stands_def tight_within)
  ultimately have "limbs_within (0 + 65574) (gf_Z gf0 a)" by (rule within_AZ(3))
  then show ?thesis using stands_AZ(4) [OF constants(1) a] by (simp add: near_def)
qed

lemma unpackneg_decodes:
  "case unpackneg p of None \<Rightarrow> ed_decode_neg p = None | Some r \<Rightarrow> \<exists>P. ed_decode_neg p = Some P \<and> standp r P"
proof -
  define y where "y = decode_u p"
  define u where "u = y ^ 2 - 1"
  define v where "v = 1 + ed_D * y ^ 2"
  have Y: "stands (unpack25519 p) y" using unpack25519_num [of p] by (simp add: stands_def y_def)
  note one = constants(2)
  define n where "n = gf_Z (gf_S (unpack25519 p)) gf1"
  define den where "den = gf_A gf1 (gf_M (gf_S (unpack25519 p)) gf_D)"
  have s: "stands (gf_S (unpack25519 p)) (y ^ 2)" by (rule fits_S [OF stands_fits [OF Y]])
  have N: "fits n u" unfolding n_def u_def by (rule fits_AZ(2) [OF s one])
  have V: "fits den v"
    unfolding den_def v_def mult.commute [of ed_D] by (rule fits_AZ(1) [OF one fits_M [OF stands_fits [OF s] stands_fits [OF constants_DI(1)]]])
  note SF = stands_fits
  define den2 where "den2 = gf_S den"
  define t where "t = gf_M (gf_M (gf_M (gf_S den2) den2) n) den"
  define r where "r = gf_M (gf_M (gf_M (gf_M (pow2523 t) n) den) den) den"
  have "stands den2 (v ^ 2)" unfolding den2_def by (rule fits_S [OF V])
  then have "stands t (((v ^ 2) ^ 2 * v ^ 2 * u) * v)"
    unfolding t_def by (intro fits_M [OF SF] fits_M fits_S SF N V)
  note T = pow2523_stands [OF SF [OF this]]
  define x where "x = u * v ^ 3 * (u * v ^ 7) ^ (2 ^ 252 - 3)"
  have X: "stands r x"
  proof -
    have "stands r (((((v ^ 2) ^ 2 * v ^ 2 * u) * v) ^ (2 ^ 252 - 3) * u) * v * v * v)"
      unfolding r_def by (intro fits_M [OF SF] fits_M SF N V T)
    moreover have "(((v ^ 2) ^ 2 * v ^ 2 * u) * v) = u * v ^ 7" by (simp add: power_numeral_reduce algebra_simps)
    moreover have "(k * u) * v * v * v = u * v ^ 3 * k" for k by (simp add: power_numeral_reduce algebra_simps)
    ultimately show ?thesis unfolding x_def by (simp only:)
  qed
  have C: "neq25519 (gf_M (gf_S r) den) n \<noteq> 0 \<longleftrightarrow> z ^ 2 * v mod P25519 \<noteq> u mod P25519" if "stands r z" for r z
    by (rule neq_fits [OF SF [OF fits_M [OF SF [OF fits_S [OF SF [OF that]]] V]] N])
  define r0 where "r0 = (if neq25519 (gf_M (gf_S r) den) n \<noteq> 0 then gf_M r gf_I else r)"
  define z where "z = ed_root y"
  have z: "z = (if x ^ 2 * v mod P25519 \<noteq> u mod P25519 then x * ed_sqrt_m1 else x)"
    unfolding z_def ed_root_def Let_def u_def [symmetric] v_def [symmetric] x_def [symmetric] by simp
  have R: "stands r0 z" unfolding r0_def z C [OF X] using X fits_M [OF SF [OF X] SF [OF constants_DI(2)]] by simp
  have U: "unpackneg p = (if neq25519 (gf_M (gf_S r0) den) n \<noteq> 0 then None
      else let r0 = (if par25519 r0 = drop_bit 7 (bget p 31) then gf_Z gf0 r0 else r0) in Some (r0, unpack25519 p, gf1, gf_M r0 (unpack25519 p)))"
    unfolding unpackneg_def Let_def r0_def r_def t_def den2_def den_def n_def ..
  have E: "ed_decode_neg p = (if z ^ 2 * v mod P25519 \<noteq> u mod P25519 then None
      else let x = (if odd (z mod P25519) = (bget p 31 \<ge> 128) then - z else z) in Some (x, y, 1, x * y))"
    unfolding ed_decode_neg_def Let_def y_def [symmetric] z_def [symmetric] u_def [symmetric] v_def [symmetric] ..
  have P: "par25519 r0 = drop_bit 7 (bget p 31) \<longleftrightarrow> odd (z mod P25519) = (bget p 31 \<ge> 128)"
    unfolding par_stands [OF R] odd_residue by simp
  have M: "near (gf_Z gf0 r0) (- z)" using negative [OF R] .
  have K: "standp (if b then gf_Z gf0 r0 else r0, unpack25519 p, gf1, gf_M (if b then gf_Z gf0 r0 else r0) (unpack25519 p))
      (if b then - z else z, y, 1, (if b then - z else z) * y)" for b
    using M stands_near [OF R] stands_near [OF Y] stands_near [OF one] stands_near [OF near_product [OF M stands_near [OF Y]]]
      stands_near [OF near_product [OF stands_near [OF R] stands_near [OF Y]]] by simp
  show ?thesis unfolding U E C [OF R] P Let_def using K by simp
qed

section \<open>Signing\<close>

lemma products_inner:
  assumes "length x = 64" "i < 32" "n \<le> 32"
  shows "length (fold (\<lambda>j x. x[i + j := x ! (i + j) + c * uint (bget d j)]) [0..<n] x) = 64 \<and>
    octnum (fold (\<lambda>j x. x[i + j := x ! (i + j) + c * uint (bget d j)]) [0..<n] x) = octnum x + 256 ^ i * c * octnum (map (\<lambda>j. uint (bget d j)) [0..<n]) \<and>
    (\<forall>k<64. fold (\<lambda>j x. x[i + j := x ! (i + j) + c * uint (bget d j)]) [0..<n] x ! k =
       x ! k + (if i \<le> k \<and> k < i + n then c * uint (bget d (k - i)) else 0))"
  using assms(3)
proof (induction n)
  case (Suc n)
  then show ?case using assms by (auto simp: octnum_update octnum_append power_add nth_list_update algebra_simps)
qed (use assms in simp)

lemma products_outer:
  fixes x :: "int list" and h d :: bytes
  assumes "length x = 64" "n \<le> 32"
  defines "f \<equiv> fold (\<lambda>i x. fold (\<lambda>j x. x[i + j := x ! (i + j) + uint (bget h i) * uint (bget d j)]) [0..<32] x) [0..<n] x"
  shows "length f = 64 \<and> octnum f = octnum x + octnum (map (\<lambda>j. uint (bget h j)) [0..<n]) * octnum (map (\<lambda>j. uint (bget d j)) [0..<32]) \<and>
    (\<forall>k<64. x ! k \<le> f ! k \<and> f ! k \<le> x ! k + int n * 65025)"
  unfolding f_def using assms(2)
proof (induction n)
  case (Suc n)
  let ?y = "fold (\<lambda>i x. fold (\<lambda>j x. x[i + j := x ! (i + j) + uint (bget h i) * uint (bget d j)]) [0..<32] x) [0..<n] x"
  let ?z = "fold (\<lambda>j x. x[n + j := x ! (n + j) + uint (bget h n) * uint (bget d j)]) [0..<32] ?y"
  have y: "length ?y = 64" "octnum ?y = octnum x + octnum (map (\<lambda>j. uint (bget h j)) [0..<n]) * octnum (map (\<lambda>j. uint (bget d j)) [0..<32])"
    "\<forall>k<64. x ! k \<le> ?y ! k \<and> ?y ! k \<le> x ! k + int n * 65025"
    using Suc by simp_all
  have le: "n < 32" "(32 :: nat) \<le> 32" using Suc.prems by simp_all
  note z = products_inner [OF y(1) le, of "uint (bget h n)" d]
  have b: "0 \<le> uint a * uint b \<and> uint a * uint b \<le> 65025" for a b :: u8
    using mult_mono [of "uint a" 255 "uint b" 255] uint_bounded [of a] uint_bounded [of b] by simp
  have "\<forall>k<64. x ! k \<le> ?z ! k \<and> ?z ! k \<le> x ! k + int (Suc n) * 65025"
  proof (intro allI impI)
    fix k :: nat
    assume k: "k < 64"
    have "?z ! k = ?y ! k + (if n \<le> k \<and> k < n + 32 then uint (bget h n) * uint (bget d (k - n)) else 0)" using z k by blast
    then have "?y ! k \<le> ?z ! k \<and> ?z ! k \<le> ?y ! k + 65025" using b [of "bget h n" "bget d (k - n)"] by (simp only:) simp
    moreover have "x ! k \<le> ?y ! k \<and> ?y ! k \<le> x ! k + int n * 65025" using y(3) k by blast
    ultimately show "x ! k \<le> ?z ! k \<and> ?z ! k \<le> x ! k + int (Suc n) * 65025" by simp
  qed
  moreover have "octnum ?z = octnum x + octnum (map (\<lambda>j. uint (bget h j)) [0..<Suc n]) * octnum (map (\<lambda>j. uint (bget d j)) [0..<32])"
    using z [THEN conjunct2, THEN conjunct1] unfolding y(2) by (simp add: octnum_append algebra_simps)
  moreover have "length ?z = 64" using z by blast
  ultimately show ?case by (simp only: upt_Suc_append [OF le0] fold_append fold_simps comp_apply)
qed (use assms in simp)

lemma sign_scalar:
  "modL (sign_products r h d) = le_bytes 32 ((le_num (slice 0 32 r) + le_num (slice 0 32 h) * le_num (slice 0 32 d)) mod nat ed_order)"
proof -
  let ?x = "map (\<lambda>i. uint (bget r i)) [0..<32] @ replicate 32 0"
  have n: "octnum (map (\<lambda>j. uint (bget b j)) [0..<32]) = int (le_num (slice 0 32 b))" for b
    using octnum_map [of "slice 0 32 b"] by (simp add: slice_def comp_def)
  have x: "length ?x = 64" "octnum ?x = int (le_num (slice 0 32 r))" using n octnum_zeros [of "replicate 32 0"] by (simp_all add: octnum_append)
  have b: "0 \<le> ?x ! k \<and> ?x ! k \<le> 255" if "k < 64" for k
    using that uint_bounded [of "bget r k"] by (simp add: nth_append)
  note P = products_outer [OF x(1), of 32 h d, folded sign_products_def]
  have "limbs_ok (sign_products r h d)" unfolding limbs_ok_def
  proof (intro conjI allI impI)
    fix k :: nat
    assume k: "k < 64"
    then have "?x ! k \<le> sign_products r h d ! k \<and> sign_products r h d ! k \<le> ?x ! k + int 32 * 65025" using P by blast
    then show "\<bar>sign_products r h d ! k\<bar> \<le> 2 ^ 21" using b [OF k] by simp
  qed (use P in blast)
  note m = modL_residue [OF this]
  have "octnum (sign_products r h d) = int (le_num (slice 0 32 r) + le_num (slice 0 32 h) * le_num (slice 0 32 d))" using P by (simp add: x(2) n)
  moreover have "0 < ed_order" by (simp add: ed_order_def)
  then have "nat (int k mod ed_order) = k mod nat ed_order" for k by (simp add: nat_mod_distrib)
  ultimately show ?thesis unfolding m by (simp only:)
qed

lemma reduced_challenge: "le_num (modL_reduce (tweet_hash b)) = ed_challenge b" "slice 0 32 (modL_reduce (tweet_hash b)) = modL_reduce (tweet_hash b)"
proof -
  have "ed_challenge b < 256 ^ 32" unfolding ed_challenge_def by (rule less_trans [OF mod_less_divisor]) (simp_all add: ed_order_def)
  then have "ed_challenge b mod 256 ^ 32 = ed_challenge b" by (rule mod_less)
  moreover have e: "modL_reduce (tweet_hash b) = le_bytes 32 (ed_challenge b)" by (simp add: reduce_residue slice_self ed_challenge_def)
  ultimately show "le_num (modL_reduce (tweet_hash b)) = ed_challenge b" unfolding e le_num_le_bytes by simp
  show "slice 0 32 (modL_reduce (tweet_hash b)) = modL_reduce (tweet_hash b)" unfolding e by (rule slice_self) (simp add: le_bytes_def)
qed

lemma sign_equation: "crypto_sign m sk = ed_sign m sk"
proof -
  have "length (clamp_scalar d) = 32" for d by (simp add: clamp_scalar_def)
  then have c: "slice 0 32 (clamp_scalar d) = clamp_scalar d" for d by (rule slice_self)
  show ?thesis
    unfolding crypto_sign_def ed_sign_def Let_def sign_scalar c pack_stand [OF scalarbase_stand] reduced_challenge ..
qed

text \<open>C28: Signing is Ed25519 of RFC 8032: the encoding of the multiple of the base point by the hash of
  the nonce half of the expanded key and the message, then that hash plus challenge times
  clamped scalar modulo the order of the base point, then the message. The limb code for points,
  the product of scalars byte by byte and its reduction compute exactly these numbers, for
  every key and message.\<close>

theorem sign_correct: "crypto_sign m sk = ed_sign m sk"
  by (rule sign_equation)

section \<open>Opening a signed message\<close>

lemma scalarbase_slice: "point_scalarbase s = point_scalarbase (slice 0 32 s)"
proof -
  have "scalar_bit (slice 0 32 s) i = scalar_bit s i" if "i < 256" for i
    using that by (simp add: scalar_bit_def)
  then have "fold (point_step s) (rev [0..<256]) z = fold (point_step (slice 0 32 s)) (rev [0..<256]) z" for z
    by (intro fold_cong) (simp_all add: point_step_def fun_eq_iff)
  then show ?thesis by (simp only: point_scalarbase_def point_scalarmult_def)
qed

lemma sign_open_equation:
  "crypto_sign_open buf sm pk =
     (if ed_verify sm pk then (0, blit (blit (blit buf 0 sm) 32 (slice 0 32 pk)) 0 (drop 64 sm), word_of_nat (length sm - 64))
      else if length sm < 64 \<or> ed_decode_neg pk = None then (- 1, buf, - 1)
      else (- 1, blit (blit (blit buf 0 sm) 32 (slice 0 32 pk)) 0 (zeros (length sm - 64)), - 1))"
proof (cases "length sm < 64 \<or> ed_decode_neg pk = None")
  case True
  then show ?thesis using unpackneg_decodes [of pk]
    by (auto simp: crypto_sign_open_def ed_verify_def Let_def split: option.splits)
next
  case False
  then obtain q A where q: "unpackneg pk = Some q" "ed_decode_neg pk = Some A" "standp q A" and n: "64 \<le> length sm"
    using unpackneg_decodes [of pk] by (auto split: option.splits)
  let ?m = "blit (blit buf 0 sm) 32 (slice 0 32 pk)"
  have m: "take (length sm) ?m = take 32 sm @ slice 0 32 pk @ drop 64 sm"
    using n by (simp add: blit_def)
  define h where "h = ed_challenge (take 32 sm @ slice 0 32 pk @ drop 64 sm)"
  define t where "t = ed_encode (ed_plus (ed_mult h A) (ed_mult (le_num (slice 32 32 sm)) ed_base))"
  have S: "point_scalarbase (drop 32 sm) = point_scalarbase (slice 32 32 sm)"
    using scalarbase_slice [of "drop 32 sm"] by (simp add: add.commute)
  have "standp (point_add (point_scalarmult q (modL_reduce (tweet_hash (take (length sm) ?m)))) (point_scalarbase (drop 32 sm)))
      (ed_plus (ed_mult h A) (ed_mult (le_num (slice 32 32 sm)) ed_base))"
    unfolding m S h_def using point_add_stand [OF scalarmult_stand [OF q(3)] scalarbase_stand] reduced_challenge(1) by metis
  then have t: "point_pack (point_add (point_scalarmult q (modL_reduce (tweet_hash (take (length sm) ?m)))) (point_scalarbase (drop 32 sm))) = t"
    unfolding t_def by (rule pack_stand)
  have l: "slice 0 32 t = t" "slice 0 32 sm = take 32 sm"
    using n by (simp_all add: t_def ed_encode_def le_bytes_def Let_def slice_eq_take_drop split: prod.splits)
  have v: "ed_verify sm pk \<longleftrightarrow> t = take 32 sm" using n by (simp add: ed_verify_def q(2) Let_def t_def h_def)
  have "crypto_sign_open buf sm pk = (if crypto_verify_32 sm t \<noteq> 0 then (- 1, blit ?m 0 (zeros (length sm - 64)), - 1)
      else (0, blit ?m 0 (drop 64 sm), word_of_nat (length sm - 64)))"
    unfolding crypto_sign_open_def Let_def q(1) option.case t using n by simp
  also have "crypto_verify_32 sm t \<noteq> 0 \<longleftrightarrow> \<not> ed_verify sm pk" unfolding v by (auto simp: crypto_verify_32_def vn_compares l)
  finally show ?thesis using False by (cases "ed_verify sm pk") (simp_all only: if_True if_False not_True_eq_False not_False_eq_True)
qed

text \<open>C26: A signed message opens exactly when RFC 8032's equation holds for its parts and the key decodes to a
  point; what opens is the message without the signature. The decoding and the range of the
  scalar are as lenient as said above. A message that is too short, or a key that decodes to no
  point, leaves the buffer as it was; where only the equation fails, the buffer keeps the copy
  that was made for the hash, zeroed but for its last 64 bytes.\<close>

theorem sign_open_correct:
  "crypto_sign_open buf sm pk =
     (if ed_verify sm pk then (0, blit (blit (blit buf 0 sm) 32 (slice 0 32 pk)) 0 (drop 64 sm), word_of_nat (length sm - 64))
      else if length sm < 64 \<or> ed_decode_neg pk = None then (- 1, buf, - 1)
      else (- 1, blit (blit (blit buf 0 sm) 32 (slice 0 32 pk)) 0 (zeros (length sm - 64)), - 1))"
  by (rule sign_open_equation)

end
