(* ===== verification/Tweet.thy ===== *)
theory Tweet
  imports Tweet_Sign
begin

text \<open>
  The functions of TweetNaCl as the parameter of the development: with it the wrapper of
  \<^verbatim>\<open>c/lib/ed25519/src/ed25519.c\<close> runs on the code of the library, and what is proved for every
  parameter holds of that code. Only random bytes stay outside.
\<close>

definition tweet :: nacl where
  "tweet = \<lparr>n_hash = tweet_hash, n_poly1305 = tweet_onetimeauth, n_xsalsa20 = xsalsa20, n_scalarmult = crypto_scalarmult,
     n_seed_to_pk = crypto_sign_seed_to_pk, n_sign = (\<lambda>m sk. take 64 (crypto_sign m sk)),
     n_sign_open = (\<lambda>sig m pk. fst (crypto_sign_open [] (sig @ m) pk) = 0)\<rparr>"

text \<open>With it the compositions of the wrapper are the functions of the code.\<close>

lemma tweet_code:
  "crypto_hash tweet m = tweet_hash m" "crypto_onetimeauth tweet m k = tweet_onetimeauth m k"
  "crypto_stream_xor tweet m n k = tweet_stream_xor m n k"
  "crypto_onetimeauth_verify tweet h m k = crypto_verify_16 h (tweet_onetimeauth m k)"
proof -
  show "crypto_hash tweet m = tweet_hash m" by (simp add: crypto_hash_def tweet_def)
  show p: "crypto_onetimeauth tweet m k = tweet_onetimeauth m k" for m k
    using onetimeauth_poly1305 [of m k] by (simp add: crypto_onetimeauth_def tweet_def)
  show "crypto_stream_xor tweet m n k = tweet_stream_xor m n k"
    by (simp add: crypto_stream_xor_def tweet_def stream_xor_bytes)
  show "crypto_onetimeauth_verify tweet h m k = crypto_verify_16 h (tweet_onetimeauth m k)"
    using onetimeauth_poly1305 [of m k] by (simp add: crypto_onetimeauth_verify_def p crypto_verify_16_def vn_compares)
qed

text \<open>The wrapper's verification is the equation of RFC 8032 on its arguments (without the range checks), and its Diffie-Hellman function X25519.\<close>

lemma tweet_verify: "ed25519_verify tweet m sig pk = (if ed_verify (slice 0 64 sig @ m) (slice 0 32 pk) then 0 else - 1)"
  by (simp add: ed25519_verify_def tweet_def sign_open_equation)

lemma tweet_scalarmult: "ed25519_scalarmult tweet n p = le_bytes 32 (nat (x25519 (le_num (clamp_scalar n)) (decode_u p)))"
proof -
  have "clamp_scalar (slice 0 32 n) = clamp_scalar n" "decode_u (slice 0 32 p) = decode_u p"
    by (simp_all add: clamp_scalar_def decode_u_def)
  then show ?thesis by (simp add: ed25519_scalarmult_def tweet_def scalarmult_ladder)
qed

end
