(* ===== verification/Seedfile.thy ===== *)
theory Seedfile
  imports Keyring_Props Tweet_Edwards
begin

text \<open>
  The key files of \<^verbatim>\<open>c/lib/ed25519/src/ed25519.c\<close>, older than those of the key ring: one line with the seed in
  hexadecimal. Making the directory and setting the mode of the file are left out, and so is what is printed.
\<close>

definition ed25519_keyfile_load_or_create :: "nacl \<Rightarrow> string \<Rightarrow> world \<Rightarrow> (bytes \<times> bytes) option \<times> world" where
  "ed25519_keyfile_load_or_create N path w =
     (case w_files w path of
        Some t \<Rightarrow>
          (case fgets 80 t of
             None \<Rightarrow> (None, w)
           | Some (line, _) \<Rightarrow>
               let line = takeWhile (\<lambda>c. c \<noteq> NL) (c_string line)
               in if length line \<noteq> 64 then (None, w)
                  else case hex_decode_from line 32 of
                         None \<Rightarrow> (None, w)
                       | Some seed \<Rightarrow> let pub = ed25519_seed_to_pub N seed in (Some (seed @ pub, pub), w))
      | None \<Rightarrow>
          let ((sk, pub), w) = ed25519_keypair N w; (r, w) = write_file path (hex_encode (slice 0 32 sk) @ [NL]) w
          in if r < 0 then (None, w) else (Some (sk, pub), w))"

definition ed25519_keyfile_default_path :: "kenv \<Rightarrow> nat \<Rightarrow> string" where
  "ed25519_keyfile_default_path E outsz =
     (let home = (case nonempty (ke_home E) of Some h \<Rightarrow> h | None \<Rightarrow> ''/root'') in snprintf outsz (home @ ''/.ipv69/key''))"

definition ed25519_pub_to_x25519 :: "bytes \<Rightarrow> bytes" where
  "ed25519_pub_to_x25519 pub = crypto_ed25519_to_x25519 pub"

text \<open>A key that is created loads again, any number of times, as it was, and loading changes nothing.\<close>

theorem keyfile_reloads:
  assumes "ed25519_keyfile_load_or_create N path w = (Some (sk, pub), w')" "w_files w path = None"
  shows "ed25519_keyfile_load_or_create N path w' = (Some (sk, pub), w')"
proof -
  obtain seed v where k: "randombytes 32 w = (seed, v)" by (cases "randombytes 32 w")
  then have l: "length seed = 32" by (auto simp: randombytes_def)
  have s: "sk = seed @ pub" "pub = ed25519_seed_to_pub N seed" and w': "w' = v\<lparr>w_files := (w_files v)(path := Some (hex_encode seed @ [NL]))\<rparr>"
    using assms k l by (auto simp: ed25519_keyfile_load_or_create_def ed25519_keypair_def write_file_def Let_def split: if_splits)
  have f: "fgets 80 (hex_encode seed @ [NL]) = Some (hex_encode seed @ [NL], [])"
    using fgets_line [of "hex_encode seed" 80 "[]"] plain_hex [of seed] l by (simp add: plain_def)
  moreover have "takeWhile (\<lambda>c. c \<noteq> NL) (c_string (hex_encode seed @ [NL])) = hex_encode seed"
    using c_string_plain(1) [of "hex_encode seed" "[]"] plain_hex [of seed] by (simp add: c_string_def plain_def)
  moreover have "hex_decode_from (hex_encode seed) 32 = Some seed" using hex_decode_from_hex2 [of seed "[]"] l by (simp add: hex_encode_def)
  ultimately show ?thesis using l by (simp add: ed25519_keyfile_load_or_create_def w' s Let_def)
qed

end
