(* ===== verification/Spec2Isabelle.thy ===== *)
theory Spec2Isabelle
  imports Icsp_Runs Pppoe_Refine Btls_Handshake Gw_Limits Gw_Tables Dhcp_Exchange Keygen_Props Tools Bite_Fetch
    Bite_Main Hub_Relay Chat_Props Tweet Seedfile
begin

text \<open>
  A verification library for BAITNet, the IPv69 overlay network written in C
  (\<^verbatim>\<open>c/src\<close>, \<^verbatim>\<open>c/include\<close> and the repository's own wrapper in \<^verbatim>\<open>c/lib/ed25519/src\<close>).

  \<^bold>\<open>The program.\<close> IPv69 carries frames with 40-bit addresses derived from Ed25519 keys over raw
  Ethernet or over UDP tunnels. ICSP is its session protocol: a cookie handshake, a replay
  window, sealed DATA chunks on numbered streams, rekeying, and a relay of lines. Hosts reach
  each other through a tunnel gateway, which learns them from signed INIT and announcement
  packets, forwards datagrams and meshes with other gateways; or they dial an access
  concentrator (PPPoE69), which opens a session per host and bridges frames. On a private
  segment a server (DHCP69) leases addresses, and a bring-up daemon acquires and renews one. bTLS
  secures a stream to a self-authenticating BAIT name, and the web tool serves and fetches documents
  over it; a chat tool relays lines over an association, and a hub relays the lines of many. Every component uses the wire layer, the rate
  limiter and the crypto wrapper; ICSP and the gateway share the announcement and INIT formats,
  the concentrator and the host their control messages, the gateway list the key files' paths; the
  address server and the daemon share the key files and the tag in front of signed messages.

  \<^bold>\<open>Theories and sources.\<close> Names under \<^verbatim>\<open>c/src\<close>:
    \<^item> \<open>Prelude\<close>: words, byte buffers (\<open>slice\<close>, \<open>bget\<close>), the named collections \<open>wire_simps\<close>,
      \<open>len_simps\<close>, \<open>inv_intros\<close>.
    \<^item> \<open>Wire\<close> (\<^verbatim>\<open>endian.h\<close>, \<^verbatim>\<open>header.h\<close>, \<^verbatim>\<open>IPv69/l2.c\<close>, \<^verbatim>\<open>IPv69/parse.c\<close>): accessors, headers, the frame
      builder and validator. The locale \<open>wire_codec\<close> is the contract of the four accessor pairs.
    \<^item> \<open>RateLimit\<close> (\<^verbatim>\<open>IPv69/ratelimit.c\<close>): the token buckets.
    \<^item> \<open>Env\<close>, \<open>Recv\<close>, \<open>Files\<close>: the process. The record \<open>world\<close> holds the clock, the random bytes, the
      frames sent and the transmissions that fail, uninitialised stack memory, the files, the
      limiter's table and the cookie secret; what the kernel answers to a receive is an event.
    \<^item> \<open>Crypto\<close> (\<^verbatim>\<open>ed25519.c\<close>, \<^verbatim>\<open>tweetnacl.c\<close>, \<^verbatim>\<open>IPv69/mac1.c\<close>): the wrapper and the compositions of
      TweetNaCl above its primitives; the locale \<open>sealed_box\<close>. \<open>Seedfile\<close> (\<^verbatim>\<open>ed25519.c\<close>): the older key files.
    \<^item> \<open>Tweet_Poly\<close>, \<open>Tweet_Salsa\<close>, \<open>Tweet_Hash\<close>, \<open>Tweet_Compare\<close>, \<open>Tweet_Field\<close>, \<open>Tweet_Curve\<close>, \<open>Tweet_Edwards\<close>, \<open>Tweet_ModL\<close>,
      \<open>Tweet_Sign\<close> (\<^verbatim>\<open>tweetnacl.c\<close>): the primitives as the code computes them, each followed by the formulas of the
      standard and the proof that they are met. \<open>Tweet\<close> makes an instance of the parameter of them.
    \<^item> \<open>Addr\<close> (\<^verbatim>\<open>IPv69/parse.c\<close>): address texts, classes, derivation, ranges.
    \<^item> \<open>Icsp\<close>, \<open>Icsp_Data\<close>, \<open>Icsp_Rx\<close>, \<open>Icsp_Handshake\<close>, \<open>Icsp_Session\<close> (\<^verbatim>\<open>ICSP/*.c\<close>): the association as the
      record \<open>icsp_assoc\<close>, one definition per function. \<open>Icsp_Replay\<close> (locale \<open>replay_filter\<close>), \<open>Icsp_Flow\<close>,
      \<open>Icsp_Safety\<close> (one packet), \<open>Icsp_Limits\<close>, \<open>Icsp_Auth\<close>, \<open>Icsp_Trust\<close>, \<open>Icsp_Rekey\<close>, \<open>Icsp_Life\<close> (sessions
      that go on), \<open>Icsp_Runs\<close> (everything between two rekeys, errors included) prove about them;
      \<open>Icsp_Carry\<close> carries a message from one side's send through the frame to the other side's callback,
      for the tools. \<open>Endpoint\<close> opens an association (\<^verbatim>\<open>ICSP/icsp_session.c\<close>) and holds what the tools share.
    \<^item> \<open>Pppoe_Ac\<close>, \<open>Pppoe_Host\<close> (\<^verbatim>\<open>IPv69/pppoe69.c\<close>): concentrator and dialing host; \<open>Pppoe_Table\<close>, \<open>Pppoe_Dial\<close>,
      \<open>Pppoe_Refine\<close> prove about them.
    \<^item> \<open>BaitName\<close> (\<^verbatim>\<open>BITE/baitname.c\<close>), \<open>Btls\<close> (\<^verbatim>\<open>BITE/btls.c\<close>); proofs in \<open>Btls_Auth\<close> and \<open>Btls_Handshake\<close>.
    \<^item> \<open>Gw\<close> (tables and handlers), \<open>Gw_Main\<close> (command line and loop) of \<^verbatim>\<open>IPv69/ipv69gw.c\<close>; \<open>Gw_Props\<close>
      (locale \<open>prefix_table\<close>), \<open>Gw_Forward\<close>, \<open>Gw_Limits\<close>, \<open>Gw_Tables\<close> prove about them.
    \<^item> \<open>Dhcpd\<close> (\<^verbatim>\<open>IPv69/af69d.c\<close>): peer list, lease table, the requests, loop and command line of the address
      server; \<open>Dhcp_Client\<close> (\<^verbatim>\<open>IPv69/ip69d.c\<close>): the client, the control socket and the start of the bring-up
      daemon. \<open>Dhcp_Table\<close>, \<open>Dhcp_Limits\<close>, \<open>Dhcp_Options\<close> prove about the server, \<open>Dhcp_Exchange\<close> about both.
    \<^item> \<open>Keygen\<close> (\<^verbatim>\<open>IPv69/keygen.c\<close>), proofs in \<open>Keygen_Props\<close>; \<open>Tools\<close> (\<^verbatim>\<open>IPv69/main.c\<close>, \<^verbatim>\<open>IPv69/ip69.c\<close>): the choice of the
      tool and of the key file, and the question to the daemon.
    \<^item> \<open>Bite\<close>, \<open>Bite_Main\<close> (\<^verbatim>\<open>c/examples/bite.c\<close>): requests, documents, the turns of server and client and the
      URL of the web tool; its loops and \<^verbatim>\<open>main\<close>. \<open>Bite_Props\<close> about requests and texts, \<open>Bite_Fetch\<close> about a
      page through every layer.
    \<^item> \<open>Hub\<close> (\<^verbatim>\<open>c/examples/icsp_hub.c\<close>): the slots, their turns, the relaying, loop and command line; \<open>Hub_Relay\<close>
      proves about it. \<open>Chat\<close> (\<^verbatim>\<open>c/examples/icsp_chat.c\<close>, \<^verbatim>\<open>c/examples/chat_lib.c\<close>), proofs in \<open>Chat_Props\<close>.
    \<^item> \<open>Keyring\<close>, \<open>Keyring_Props\<close> (\<^verbatim>\<open>IPv69/keyring.c\<close>) and \<open>Gwfile\<close>, \<open>Gwfile_Props\<close> (\<^verbatim>\<open>IPv69/gwfile.c\<close>).
\<close>

text \<open>
  \<^bold>\<open>Conventions.\<close> A C structure is a record with the source's fields, a static table a list of its
  size, a machine integer a word. A function that changes state takes the state (an association,
  a context, the gateway, the world) and returns it with the C return value. A write past a
  buffer is \<open>None\<close> (\<open>Stray\<close> in the resolver), so a theorem with a \<open>Some\<close> result also says that
  no buffer is overrun (with the exception named at the end). Memory that the code reads without writing it comes from the world.
  The primitives of TweetNaCl: its \<^verbatim>\<open>unsigned long\<close> is a word of 64 bits, the limbs of the curves,
  \<^verbatim>\<open>long long\<close> in the code, are integers, which the bounds of the proofs keep below 2 to the 63.
  The socket address text functions of the system are the parameter \<open>inet\<close>, the primitives of
  TweetNaCl, where they are used, the parameter \<open>nacl\<close> (the code's own are its instance \<open>tweet\<close>), the environment of the process the record \<open>kenv\<close>.
  The hypotheses \<open>sign_ok\<close>, \<open>key_ok\<close> and \<open>dh_ok\<close> state what honest runs need of the primitives:
  a signature made with a key verifies under it, and Diffie-Hellman commutes. Nothing assumes
  that something is hard to compute: statements about attackers say what a party that is
  accepted has signed, and the witnesses use a concrete instance of the parameter.

  \<^bold>\<open>Loops and fuel.\<close> Loops that end are structural or have a measure (the chunk loop, DNS names: the
  jumps left, then the bytes left). The blocking handshakes consume a list of receive events;
  their result for an exhausted list is a constructor of its own, and so does acquiring a lease, with its three attempts. The loop that looks
  for a free lease ends after 64 steps as in the code; the loop that asks for a file name consumes input. The vanity search has fuel:
  \<open>grind_finds_first\<close> shows that one more than the index of the first fitting draw is enough,
  \<open>grind_capital_never_ends\<close> that no fuel is. \<open>keyring_load_or_create\<close> calls itself without bound, so
  it is a \<open>partial_function\<close>, \<open>None\<close> being a call that never returns; so are the two sending loops of the
  web tool. The main loops of the
  concentrator, of the gateway, of the address server and of a session are inductive step relations; those of
  the web tool and of the chat tools recurse over what arrives in each turn, with a constructor for
  a loop that still runs when it is used up.

  \<^bold>\<open>What the theorems show.\<close>
    \<^item> ICSP: the honest handshake and the honest rekey end with both sides in step; two sides in
      step deliver every message of up to 1016 bytes in order; whatever arrives, the
      association stays well-formed, and what is delivered is the content of a box of the packet that
      opens under the key, unless the peer itself sealed less than a header; until the next rekey
      completes a replay has no effect; an accepted client is on the list and signed key and
      cookie; a responder whose session goes on keeps its peer.
    \<^item> Where ICSP falls short: the cookie ignores the secret, COOKIE-ACK is not authenticated, a
      forged TSN shuts the window until the next rekey completes, a box shorter than its header
      delivers or overruns the stack, a refused INIT leaves its name, longer messages stall their stream, a retransmission reveals
      its message, an initiator takes any identity in a rekey.
    \<^item> PPPoE69: the honest dial, the need of a signature, frames that cross unchanged, unique session
      numbers in every run, the refinement of a registry; anyone can close a session.
    \<^item> bTLS and names: the honest handshake, the name as pin of the key, messages of up to 1022
      bytes, longer ones never; a label is its own address; the search.
    \<^item> The gateway: every peer of every run is vouched for, an announced host is reached, the
      filters, the sizes of the tables; a copied INIT moves a peer, a question from a link overruns.
    \<^item> DHCP69: when host and server see each other's frames the host gets a free address and is its
      holder in the table; one lease for each MAC in every run, and one holder for each address
      within a lease time; afterwards an expired lease can be shared, a signed request can take
      the address of another key, and the daemon never checks the server's key.
    \<^item> Web tool: a page of up to 979 bytes with its head arrives as the server has it, from the request
      in the client's bTLS session down to the frames and back; no request leaves the root; the
      port of a URL with a numeric address has no effect.
    \<^item> Chat: a line typed into one tool is printed by the other, and a message of a client reaches every
      other client of the hub with the sender's name, in one turn, all sides staying in step.
    \<^item> Key generator: what it shows is what it saved, and it loses no private key unasked.
    \<^item> TweetNaCl: SHA-512, XSalsa20 and Poly1305 are those of the standards for all inputs (for the hash, up to
      2 to the 64 bytes); Diffie-Hellman is X25519 of RFC 7748; deriving a key and signing
      compute what RFC 8032 says, by its formulas for points; opening is its equation, without its
      checks of the ranges of coordinate, sign and scalar, which the code does not make. That the
      points lie on the curve and that the formulas form a group, on which \<open>sign_ok\<close> and \<open>dh_ok\<close> rest, is not proved.
    \<^item> Frames and CRC32c round trips and equivalence, the bound of the rate limiter for up to 64 senders
      (with more, one that is pushed out finds its whole burst again), key files and
      gateway lists that load as written, the resolver within its buffers for every reply.

  \<^bold>\<open>Not modelled.\<close> In TweetNaCl random bytes (a stream in \<open>world\<close>) and \<^verbatim>\<open>crypto_box\<close>, which nothing
  uses. Opening and
  polling sockets, TAP devices and terminals, file permissions and owners, signals, and
  everything that only prints (help texts, \<^verbatim>\<open>gw_log_peer\<close>, dumps). The buffer of \<^verbatim>\<open>ed25519_hmac_sha512\<close>, which a message
  over 2048 bytes would overrun (its callers give at most a few hundred), and directories, which
  \<^verbatim>\<open>open_doc\<close> of the web tool opens like documents: the files of \<open>world\<close> are plain ones. The Windows branches and
  \<^verbatim>\<open>l2_win.c\<close>. The one-shot commands of \<^verbatim>\<open>c/tests/af69_raw.c\<close>, which the binary contains, the
  other tests and the Python port.
\<close>

end
